(* ===== verification/Prelude.thy ===== *)
theory Prelude
  imports Complex_Main
    "HOL-Library.List_Lexorder" "HOL-Library.Char_ord" "HOL-Library.AList"
    "HOL-Library.Sublist" "HOL-Library.Multiset"
begin

text \<open>
  The vocabulary every other theory shares: Go strings as byte lists with the
  \<open>strings\<close> functions the code calls (\<open>TrimSpace\<close>, \<open>Fields\<close>, \<open>Join\<close>, \<open>Split\<close>,
  \<open>HasPrefix\<close>), fallible computations as sums with the error on the left, Go maps as
  association lists with one entry per key, the signed 64-bit range, and the two
  de-duplication helpers of the program. The fact collections at the top are the hints
  that the component theories hand to \<open>simp\<close> and \<open>auto\<close>.
\<close>

named_theorems codec_simps \<open>evaluation of the JSON field readers on literal objects\<close>
named_theorems ledger_simps \<open>what one append does to each observation of the ledger\<close>
named_theorems frame_simps \<open>fields an operation leaves alone\<close>

section \<open>Fallible computations\<close>

type_synonym ('e, 'a) res = "'e + 'a"

fun res_bind :: "('e, 'a) res \<Rightarrow> ('a \<Rightarrow> ('e, 'b) res) \<Rightarrow> ('e, 'b) res" where
  "res_bind (Inl e) f = Inl e"
| "res_bind (Inr a) f = f a"

lemma res_bind_Inr_iff:
  "res_bind r f = Inr b \<longleftrightarrow> (\<exists>a. r = Inr a \<and> f a = Inr b)"
  by (cases r) auto

lemma res_bind_Inl_iff:
  "res_bind r f = Inl e \<longleftrightarrow> r = Inl e \<or> (\<exists>a. r = Inr a \<and> f a = Inl e)"
  by (cases r) auto

text \<open>A loop over a slice that stops at the first error, as \<open>for\<close> with \<open>return err\<close> does.\<close>

fun res_fold :: "('s \<Rightarrow> 'a \<Rightarrow> ('e, 's) res) \<Rightarrow> 's \<Rightarrow> 'a list \<Rightarrow> ('e, 's) res" where
  "res_fold f s [] = Inr s"
| "res_fold f s (x # xs) = res_bind (f s x) (\<lambda>s'. res_fold f s' xs)"

lemma res_fold_append:
  "res_fold f s (xs @ ys) = res_bind (res_fold f s xs) (\<lambda>s'. res_fold f s' ys)"
proof (induction xs arbitrary: s)
  case Nil
  then show ?case by simp
next
  case (Cons x xs)
  then show ?case by (cases "f s x") simp_all
qed

lemma res_fold_invariant:
  assumes "res_fold f s xs = Inr t" and "P s"
    and "\<And>u v x. x \<in> set xs \<Longrightarrow> P u \<Longrightarrow> f u x = Inr v \<Longrightarrow> P v"
  shows "P t"
  using assms
proof (induction xs arbitrary: s)
  case Nil
  then show ?case by simp
next
  case (Cons x xs)
  then obtain u where u: "f s x = Inr u" and rest: "res_fold f u xs = Inr t"
    by (auto simp: res_bind_Inr_iff)
  have "P u" using Cons.prems(2,3) u by auto
  then show ?case using Cons.IH [OF rest] Cons.prems(3) by auto
qed

lemma find_append: "find P (xs @ ys) = (case find P xs of Some x \<Rightarrow> Some x | None \<Rightarrow> find P ys)"
  by (induction xs) simp_all

lemma find_SomeD: "find P xs = Some x \<Longrightarrow> x \<in> set xs \<and> P x"
  by (auto simp: find_Some_iff)

text \<open>\<open>map\<close> with an early return.\<close>

fun res_map :: "('a \<Rightarrow> ('e, 'b) res) \<Rightarrow> 'a list \<Rightarrow> ('e, 'b list) res" where
  "res_map f [] = Inr []"
| "res_map f (x # xs) = res_bind (f x) (\<lambda>y. res_bind (res_map f xs) (\<lambda>ys. Inr (y # ys)))"

lemma res_map_all: "(\<And>x. x \<in> set xs \<Longrightarrow> f x = Inr (g x)) \<Longrightarrow> res_map f xs = Inr (map g xs)"
  by (induction xs) auto

lemma res_map_length: "res_map f xs = Inr ys \<Longrightarrow> length ys = length xs"
  by (induction xs arbitrary: ys) (auto simp: res_bind_Inr_iff)

section \<open>Signed 64-bit integers\<close>

text \<open>Go's \<open>int\<close> on the supported targets. The program reads integers of this range from JSON.\<close>

definition in_int64 :: "int \<Rightarrow> bool" where
  "in_int64 n \<longleftrightarrow> - (2 ^ 63) \<le> n \<and> n < 2 ^ 63"

section \<open>Byte strings\<close>

text \<open>
  The byte sequences of the runes \<open>unicode.IsSpace\<close> accepts: the six ASCII ones and the
  UTF-8 encodings of U+0085, U+00A0, U+1680, U+2000 to U+200A, U+2028, U+2029, U+202F,
  U+205F and U+3000.
\<close>

definition ascii_spaces :: "char list" where
  "ascii_spaces = [CHR 0x20, CHR 0x09, CHR 0x0A, CHR 0x0B, CHR 0x0C, CHR 0x0D]"

definition wide_spaces :: "string list" where
  "wide_spaces =
     [[CHR 0xC2, CHR 0x85], [CHR 0xC2, CHR 0xA0], [CHR 0xE1, CHR 0x9A, CHR 0x80],
      [CHR 0xE2, CHR 0x80, CHR 0x80], [CHR 0xE2, CHR 0x80, CHR 0x81],
      [CHR 0xE2, CHR 0x80, CHR 0x82], [CHR 0xE2, CHR 0x80, CHR 0x83],
      [CHR 0xE2, CHR 0x80, CHR 0x84], [CHR 0xE2, CHR 0x80, CHR 0x85],
      [CHR 0xE2, CHR 0x80, CHR 0x86], [CHR 0xE2, CHR 0x80, CHR 0x87],
      [CHR 0xE2, CHR 0x80, CHR 0x88], [CHR 0xE2, CHR 0x80, CHR 0x89],
      [CHR 0xE2, CHR 0x80, CHR 0x8A], [CHR 0xE2, CHR 0x80, CHR 0xA8],
      [CHR 0xE2, CHR 0x80, CHR 0xA9], [CHR 0xE2, CHR 0x80, CHR 0xAF],
      [CHR 0xE2, CHR 0x81, CHR 0x9F], [CHR 0xE3, CHR 0x80, CHR 0x80]]"

definition space_runes :: "string list" where
  "space_runes = map (\<lambda>c. [c]) ascii_spaces @ wide_spaces"

text \<open>Drop one of the byte sequences \<open>ws\<close> from the front as long as one is there.\<close>

function strip :: "string list \<Rightarrow> string \<Rightarrow> string" where
  "strip ws s =
     (case find (\<lambda>w. w \<noteq> [] \<and> prefix w s) ws of
        None \<Rightarrow> s
      | Some w \<Rightarrow> strip ws (drop (length w) s))"
  by pat_completeness auto
termination
  by (relation "measure (\<lambda>(ws, s). length s)") (auto simp: find_Some_iff prefix_def)

declare strip.simps [simp del]

definition trim_left :: "string \<Rightarrow> string" where
  "trim_left s = strip space_runes s"

definition trim_right :: "string \<Rightarrow> string" where
  "trim_right s = rev (strip (map rev space_runes) (rev s))"

definition trim :: "string \<Rightarrow> string" where
  "trim s = trim_right (trim_left s)"

lemma strip_suffix: "suffix (strip ws s) s"
proof (induction ws s rule: strip.induct)
  case (1 ws s)
  show ?case
  proof (cases "find (\<lambda>w. w \<noteq> [] \<and> prefix w s) ws")
    case None
    then show ?thesis by (simp add: strip.simps [of ws s])
  next
    case (Some w)
    from "1.IH" [OF Some] have "suffix (strip ws (drop (length w) s)) (drop (length w) s)" .
    then have "suffix (strip ws (drop (length w) s)) s"
      using suffix_drop suffix_order.trans by blast
    with Some show ?thesis by (simp add: strip.simps [of ws s])
  qed
qed

lemma strip_done: "find (\<lambda>w. w \<noteq> [] \<and> prefix w (strip ws s)) ws = None"
proof (induction ws s rule: strip.induct)
  case (1 ws s)
  show ?case
  proof (cases "find (\<lambda>w. w \<noteq> [] \<and> prefix w s) ws")
    case None
    then show ?thesis by (simp add: strip.simps [of ws s])
  next
    case (Some w)
    with "1.IH" [OF Some] show ?thesis by (simp add: strip.simps [of ws s])
  qed
qed

lemma strip_fixed: "find (\<lambda>w. w \<noteq> [] \<and> prefix w s) ws = None \<Longrightarrow> strip ws s = s"
  by (simp add: strip.simps [of ws s])

lemma strip_idem [simp]: "strip ws (strip ws s) = strip ws s"
  by (rule strip_fixed) (rule strip_done)

lemma strip_Nil [simp]: "strip ws [] = []"
  using strip_suffix [of ws "[]"] by simp

lemma strip_prefix_fixed:
  assumes "strip ws s = s" and "prefix p s"
  shows "strip ws p = p"
proof -
  have none: "find (\<lambda>w. w \<noteq> [] \<and> prefix w s) ws = None"
    using strip_done [of ws s] assms(1) by simp
  have "\<not> (w \<noteq> [] \<and> prefix w p)" if "w \<in> set ws" for w
    using none that assms(2) prefix_order.trans by (fastforce simp: find_None_iff)
  then have "find (\<lambda>w. w \<noteq> [] \<and> prefix w p) ws = None"
    by (simp add: find_None_iff)
  then show ?thesis by (rule strip_fixed)
qed

lemma trim_right_prefix: "prefix (trim_right s) s"
  using strip_suffix [of "map rev space_runes" "rev s"]
  by (simp add: trim_right_def suffix_to_prefix)

lemma trim_idem [simp]: "trim (trim s) = trim s"
proof -
  have "strip space_runes (trim_right (trim_left s)) = trim_right (trim_left s)"
    by (rule strip_prefix_fixed [OF _ trim_right_prefix]) (simp add: trim_left_def)
  then have "trim_left (trim s) = trim s"
    by (simp add: trim_left_def trim_def)
  moreover have "trim_right (trim s) = trim s"
    by (simp add: trim_def trim_right_def)
  ultimately show ?thesis by (simp add: trim_def [of "trim s"])
qed

lemma trim_Nil [simp]: "trim [] = []"
  by (simp add: trim_def trim_left_def trim_right_def)

text \<open>
  Text that starts and ends with a byte that belongs to no white-space rune is its own
  trimming: the case that literals of the witnesses fall under.
\<close>

definition plain_byte :: "char \<Rightarrow> bool" where
  "plain_byte c \<longleftrightarrow> CHR 0x20 < c \<and> c < CHR 0x80"

lemma plain_not_space_hd:
  "plain_byte c \<Longrightarrow> w \<in> set space_runes \<Longrightarrow> \<not> prefix w (c # s)"
  by (auto simp: plain_byte_def space_runes_def ascii_spaces_def wide_spaces_def less_char_def)

lemma plain_not_space_last:
  "plain_byte c \<Longrightarrow> w \<in> set space_runes \<Longrightarrow> \<not> prefix (rev w) (c # s)"
  by (auto simp: plain_byte_def space_runes_def ascii_spaces_def wide_spaces_def less_char_def)

lemma trim_plain:
  assumes "s = [] \<or> plain_byte (hd s) \<and> plain_byte (last s)"
  shows "trim s = s"
proof (cases s)
  case Nil
  then show ?thesis by simp
next
  case (Cons c r)
  then have h: "plain_byte c" and l: "plain_byte (last s)"
    using assms by auto
  have "find (\<lambda>w. w \<noteq> [] \<and> prefix w s) space_runes = None"
    using plain_not_space_hd [OF h] Cons by (auto simp: find_None_iff)
  then have left: "trim_left s = s"
    by (simp add: trim_left_def strip_fixed)
  obtain r' where r': "rev s = last s # r'"
    using Cons by (metis hd_rev list.collapse list.discI rev_is_Nil_conv)
  have "find (\<lambda>w. w \<noteq> [] \<and> prefix w (rev s)) (map rev space_runes) = None"
    unfolding r' using plain_not_space_last [OF l] by (auto simp: find_None_iff)
  then have "trim_right s = s"
    by (simp add: trim_right_def strip_fixed)
  with left show ?thesis by (simp add: trim_def)
qed


text \<open>\<open>strings.HasPrefix\<close>, \<open>strings.Join\<close>, \<open>strings.Split\<close> on one byte, \<open>strings.Fields\<close>.\<close>

abbreviation has_prefix :: "string \<Rightarrow> string \<Rightarrow> bool" where
  "has_prefix s p \<equiv> prefix p s"

fun join :: "string \<Rightarrow> string list \<Rightarrow> string" where
  "join sep [] = []"
| "join sep [x] = x"
| "join sep (x # y # ys) = x @ sep @ join sep (y # ys)"

fun split_on :: "char \<Rightarrow> string \<Rightarrow> string list" where
  "split_on c [] = [[]]"
| "split_on c (x # xs) =
     (if x = c then [] # split_on c xs
      else (case split_on c xs of [] \<Rightarrow> [[x]] | w # ws \<Rightarrow> (x # w) # ws))"

lemma split_on_nonempty [simp]: "split_on c s \<noteq> []"
  by (induction c s rule: split_on.induct) (auto split: list.splits)

lemma split_on_no_sep: "c \<notin> set s \<Longrightarrow> split_on c s = [s]"
  by (induction c s rule: split_on.induct) auto

lemma split_on_append: "c \<notin> set s \<Longrightarrow> split_on c (s @ c # t) = s # split_on c t"
  by (induction s) auto

lemma split_on_join:
  "ws \<noteq> [] \<Longrightarrow> (\<And>w. w \<in> set ws \<Longrightarrow> c \<notin> set w) \<Longrightarrow> split_on c (join [c] ws) = ws"
  by (induction "[c]" ws rule: join.induct) (auto simp: split_on_no_sep split_on_append)

text \<open>
  \<open>strings.Fields\<close>: the maximal runs of bytes between white-space runes. \<open>acc\<close> is the
  word being read, in reverse.
\<close>

definition space_len :: "string \<Rightarrow> nat" where
  "space_len s = (case find (\<lambda>w. prefix w s) space_runes of None \<Rightarrow> 0 | Some w \<Rightarrow> length w)"

lemma space_len_le: "space_len s \<le> length s"
  by (auto simp: space_len_def find_Some_iff prefix_length_le split: option.splits)

lemma space_len_Nil [simp]: "space_len [] = 0"
  using space_len_le [of "[]"] by simp

function go_fields_acc :: "string \<Rightarrow> string \<Rightarrow> string list" where
  "go_fields_acc acc s =
     (if s = [] then (if acc = [] then [] else [rev acc])
      else if space_len s > 0
      then (if acc = [] then go_fields_acc [] (drop (space_len s) s)
            else rev acc # go_fields_acc [] (drop (space_len s) s))
      else go_fields_acc (hd s # acc) (tl s))"
  by pat_completeness auto
termination
  by (relation "measure (\<lambda>(acc, s). length s)") auto

declare go_fields_acc.simps [simp del]

definition go_fields :: "string \<Rightarrow> string list" where
  "go_fields s = go_fields_acc [] s"

lemma go_fields_acc_nonempty: "w \<in> set (go_fields_acc acc s) \<Longrightarrow> w \<noteq> []"
proof (induction acc s rule: go_fields_acc.induct)
  case (1 acc s)
  then show ?case
    by (subst (asm) (2) go_fields_acc.simps) (auto split: if_splits)
qed

lemma go_fields_nonempty: "w \<in> set (go_fields s) \<Longrightarrow> w \<noteq> []"
  by (simp add: go_fields_def go_fields_acc_nonempty)

text \<open>ASCII \<open>strings.ToLower\<close>; bytes outside ASCII are left as they are.\<close>

definition to_lower :: "string \<Rightarrow> string" where
  "to_lower = map (\<lambda>c. if CHR ''A'' \<le> c \<and> c \<le> CHR ''Z'' then char_of (of_char c + (32::nat)) else c)"

text \<open>\<open>strconv.Itoa\<close> and \<open>%d\<close>.\<close>

fun digits_of :: "nat \<Rightarrow> string" where
  "digits_of n = (if n < 10 then [char_of (48 + n)] else digits_of (n div 10) @ [char_of (48 + n mod 10)])"

declare digits_of.simps [simp del]

definition itoa :: "int \<Rightarrow> string" where
  "itoa n = (if n < 0 then CHR ''-'' # digits_of (nat (- n)) else digits_of (nat n))"

text \<open>Reading a decimal back: the value of a digit string, most significant digit first.\<close>

definition digits_val :: "string \<Rightarrow> nat" where
  "digits_val s = foldl (\<lambda>v c. 10 * v + (of_char c - 48)) 0 s"

lemma digits_val_digits_of: "digits_val (digits_of n) = n"
proof (induction n rule: digits_of.induct)
  case (1 n)
  show ?case
  proof (cases "n < 10")
    case True
    then show ?thesis by (simp add: digits_of.simps [of n] digits_val_def)
  next
    case False
    then have "digits_val (digits_of n) = 10 * digits_val (digits_of (n div 10)) + n mod 10"
      by (simp add: digits_of.simps [of n] digits_val_def)
    with "1.IH" [OF False] show ?thesis by simp
  qed
qed

lemma digits_of_inj: "digits_of m = digits_of n \<longleftrightarrow> m = n"
  by (metis digits_val_digits_of)

lemma digits_of_digit: "c \<in> set (digits_of n) \<Longrightarrow> 48 \<le> (of_char c :: nat) \<and> of_char c < (58 :: nat)"
proof (induction n rule: digits_of.induct)
  case (1 n)
  then show ?case
    by (cases "n < 10") (auto simp: digits_of.simps [of n])
qed

lemma digits_of_nonempty [simp]: "digits_of n \<noteq> []"
  by (simp add: digits_of.simps [of n])

lemma itoa_inj: "itoa m = itoa n \<longleftrightarrow> m = n"
proof
  assume eq: "itoa m = itoa n"
  have minus: "CHR ''-'' # s \<noteq> digits_of k" for s k
  proof
    assume "CHR ''-'' # s = digits_of k"
    then have "CHR ''-'' \<in> set (digits_of k)" by (metis list.set_intros(1))
    from digits_of_digit [OF this] show False by simp
  qed
  show "m = n"
    using eq minus minus [symmetric]
    by (auto simp: itoa_def digits_of_inj split: if_splits)
qed simp

section \<open>De-duplication\<close>

text \<open>
  The loop of \<open>uniqueStrings\<close> (internal/orchestrator/runtime.go) and
  \<open>uniqueContextValues\<close> (internal/store/context.go): trim, skip empty and already seen
  values, keep the order of first occurrence.
\<close>

fun dedup_trimmed :: "string set \<Rightarrow> string list \<Rightarrow> string list" where
  "dedup_trimmed seen [] = []"
| "dedup_trimmed seen (v # vs) =
     (let w = trim v in
      if w = [] then dedup_trimmed seen vs
      else if w \<in> seen then dedup_trimmed seen vs
      else w # dedup_trimmed (insert w seen) vs)"

definition uniqueStrings :: "string list \<Rightarrow> string list" where
  "uniqueStrings values = sort (dedup_trimmed {} values)"

definition uniqueContextValues :: "string list \<Rightarrow> string list" where
  "uniqueContextValues values = dedup_trimmed {} values"

lemma set_dedup_trimmed:
  "set (dedup_trimmed seen vs) = trim ` set vs - {[]} - seen"
  by (induction seen vs rule: dedup_trimmed.induct) (auto simp: Let_def)

lemma distinct_dedup_trimmed: "distinct (dedup_trimmed seen vs)"
  by (induction seen vs rule: dedup_trimmed.induct) (auto simp: Let_def set_dedup_trimmed)

lemma set_uniqueStrings [simp]: "set (uniqueStrings vs) = trim ` set vs - {[]}"
  by (simp add: uniqueStrings_def set_dedup_trimmed)

lemma distinct_uniqueStrings [simp]: "distinct (uniqueStrings vs)"
  by (simp add: uniqueStrings_def distinct_dedup_trimmed)

lemma sorted_uniqueStrings [simp]: "sorted (uniqueStrings vs)"
  by (simp add: uniqueStrings_def)

lemma set_uniqueContextValues [simp]: "set (uniqueContextValues vs) = trim ` set vs - {[]}"
  by (simp add: uniqueContextValues_def set_dedup_trimmed)

lemma distinct_uniqueContextValues [simp]: "distinct (uniqueContextValues vs)"
  by (simp add: uniqueContextValues_def distinct_dedup_trimmed)

lemma uniqueStrings_Nil [simp]: "uniqueStrings [] = []"
  by (simp add: uniqueStrings_def)

lemma uniqueStrings_eqI: "trim ` set vs - {[]} = trim ` set ws - {[]} \<Longrightarrow> uniqueStrings vs = uniqueStrings ws"
  by (rule sorted_distinct_set_unique) auto

lemma uniqueStrings_idem [simp]: "uniqueStrings (uniqueStrings vs) = uniqueStrings vs"
proof (rule uniqueStrings_eqI)
  have "trim ` (trim ` set vs - {[]}) = id ` (trim ` set vs - {[]})"
    by (rule image_cong [OF refl]) (metis DiffD1 id_apply imageE trim_idem)
  then show "trim ` set (uniqueStrings vs) - {[]} = trim ` set vs - {[]}"
    by (simp only: set_uniqueStrings) simp
qed

section \<open>Go maps\<close>

text \<open>
  A Go map is an association list with distinct keys: \<open>AList.update\<close> is \<open>m[k] = v\<close>,
  \<open>AList.map_entry\<close> a change through the pointer stored at \<open>k\<close> (nothing when the key is
  absent), \<open>AList.delete\<close> is \<open>delete(m, k)\<close> and \<open>map_of\<close> the lookup. The order of the
  list is the order of insertion; the code never depends on it, since it sorts what it
  ranges over or only counts.
\<close>

type_synonym ('k, 'v) gomap = "('k \<times> 'v) list"

abbreviation keys_distinct :: "('k, 'v) gomap \<Rightarrow> bool" where
  "keys_distinct m \<equiv> distinct (map fst m)"

lemma map_of_update [simp]: "map_of (AList.update k v m) = (map_of m)(k \<mapsto> v)"
  by (rule update_conv')

lemma map_of_map_entry:
  "map_of (AList.map_entry k f m) x =
     (if x = k then map_option f (map_of m k) else map_of m x)"
  by (induction m) auto

lemma keys_map_entry [simp]: "map fst (AList.map_entry k f m) = map fst m"
  by (induction m) auto

lemma keys_update: "set (map fst (AList.update k v m)) = insert k (set (map fst m))"
  by (induction m) auto

lemma map_entry_absent: "map_of m k = None \<Longrightarrow> AList.map_entry k f m = m"
  by (induction m) (auto split: if_splits)

lemma update_absent: "map_of m k = None \<Longrightarrow> AList.update k v m = m @ [(k, v)]"
  by (induction m) (auto split: if_splits)

lemma map_of_in_values: "map_of m k = Some v \<Longrightarrow> v \<in> snd ` set m"
  by (force dest: map_of_SomeD)

lemma values_map_of: "keys_distinct m \<Longrightarrow> v \<in> snd ` set m \<longleftrightarrow> (\<exists>k. map_of m k = Some v)"
  by (force dest: map_of_SomeD)

text \<open>A property of all entries survives a change of one entry that establishes it there.\<close>

lemma update_entries: "(k, v) \<in> set (AList.update a b ys) \<Longrightarrow> k = a \<and> v = b \<or> (k, v) \<in> set ys"
  by (induction ys) (auto split: if_splits)

lemma entries_update:
  "(\<And>x w. map_of m x = Some w \<Longrightarrow> P x w) \<Longrightarrow> P k v \<Longrightarrow>
   map_of (AList.update k v m) x = Some w \<Longrightarrow> P x w"
  by (auto split: if_splits)

lemma entries_map_entry:
  "(\<And>x w. map_of m x = Some w \<Longrightarrow> P x w) \<Longrightarrow> (\<And>w. map_of m k = Some w \<Longrightarrow> P k w \<Longrightarrow> P k (f w)) \<Longrightarrow>
   map_of (AList.map_entry k f m) x = Some w \<Longrightarrow> P x w"
  by (auto simp: map_of_map_entry split: if_splits)

section \<open>Slices\<close>

text \<open>\<open>values[:limit]\<close> after a length check, and the running maximum of a column.\<close>

definition max_or_zero :: "int list \<Rightarrow> int" where
  "max_or_zero xs = foldr max xs 0"

lemma max_or_zero_ge: "x \<in> set xs \<Longrightarrow> x \<le> max_or_zero xs"
  by (induction xs) (auto simp: max_or_zero_def le_max_iff_disj)

lemma max_or_zero_nonneg [simp]: "0 \<le> max_or_zero xs"
  by (induction xs) (auto simp: max_or_zero_def le_max_iff_disj)

lemma max_or_zero_in: "max_or_zero xs = 0 \<or> max_or_zero xs \<in> set xs"
  by (induction xs) (auto simp: max_or_zero_def max_def)

lemma foldr_max_nonneg: "0 \<le> foldr max xs (0::int)"
  by (induction xs) (auto simp: le_max_iff_disj)

lemma max_or_zero_append: "max_or_zero (xs @ ys) = max (max_or_zero xs) (max_or_zero ys)"
  by (induction xs) (auto simp: max_or_zero_def max.assoc foldr_max_nonneg max_absorb2)

end
