(* ===== verification/Json.thy ===== *)
theory Json
  imports Prelude
begin

text \<open>
  The part of \<open>encoding/json\<close> the program relies on: JSON values as trees, and how Go
  writes the fields of a struct into an object (\<open>omitempty\<close> included) and reads them back
  (missing fields and \<open>null\<close> leave the zero value, unknown fields are skipped, of two
  equal keys the last one wins, a value of the wrong type is an error). Keys are matched
  exactly; Go would also take another capitalisation, which no writer of this repository
  produces. Numbers are rationals: the finite float64 values are among them, and NaN and
  the infinities cannot be marshalled.
\<close>

datatype json = JNull | JBool bool | JNum rat | JStr string | JArr "json list"
  | JObj "(string \<times> json) list"

datatype decode_error = TypeMismatch

type_synonym float64 = rat

type_synonym 'a decoded = "(decode_error, 'a) res"

section \<open>Objects\<close>

fun orelse :: "'a option \<Rightarrow> 'a option \<Rightarrow> 'a option" where
  "orelse None y = y"
| "orelse (Some x) y = Some x"

lemma orelse_None [simp]: "orelse x None = x"
  by (cases x) auto

text \<open>The value of the last occurrence of a key.\<close>

definition field :: "(string \<times> json) list \<Rightarrow> string \<Rightarrow> json option" where
  "field kvs k = map_of (rev kvs) k"

lemma field_Nil [codec_simps]: "field [] k = None"
  by (simp add: field_def)

lemma field_Cons [codec_simps]:
  "field ((k', v) # kvs) k = orelse (field kvs k) (if k' = k then Some v else None)"
  by (cases "map_of (rev kvs) k") (auto simp: field_def map_add_def)

lemma field_append [codec_simps]: "field (xs @ ys) k = orelse (field ys k) (field xs k)"
  by (cases "map_of (rev ys) k") (auto simp: field_def map_add_def)

section \<open>Readers\<close>

fun as_obj :: "json option \<Rightarrow> (string \<times> json) list decoded" where
  "as_obj None = Inr []"
| "as_obj (Some JNull) = Inr []"
| "as_obj (Some (JObj kvs)) = Inr kvs"
| "as_obj (Some _) = Inl TypeMismatch"

fun as_str :: "json option \<Rightarrow> string decoded" where
  "as_str None = Inr []"
| "as_str (Some JNull) = Inr []"
| "as_str (Some (JStr s)) = Inr s"
| "as_str (Some _) = Inl TypeMismatch"

fun as_bool :: "json option \<Rightarrow> bool decoded" where
  "as_bool None = Inr False"
| "as_bool (Some JNull) = Inr False"
| "as_bool (Some (JBool b)) = Inr b"
| "as_bool (Some _) = Inl TypeMismatch"

fun as_int :: "json option \<Rightarrow> int decoded" where
  "as_int None = Inr 0"
| "as_int (Some JNull) = Inr 0"
| "as_int (Some (JNum q)) = (if of_int \<lfloor>q\<rfloor> = q then Inr \<lfloor>q\<rfloor> else Inl TypeMismatch)"
| "as_int (Some _) = Inl TypeMismatch"

fun as_float :: "json option \<Rightarrow> float64 decoded" where
  "as_float None = Inr 0"
| "as_float (Some JNull) = Inr 0"
| "as_float (Some (JNum q)) = Inr q"
| "as_float (Some _) = Inl TypeMismatch"

fun as_list :: "(json option \<Rightarrow> 'a decoded) \<Rightarrow> json option \<Rightarrow> 'a list decoded" where
  "as_list f None = Inr []"
| "as_list f (Some JNull) = Inr []"
| "as_list f (Some (JArr xs)) = res_map (\<lambda>x. f (Some x)) xs"
| "as_list f (Some _) = Inl TypeMismatch"

text \<open>A pointer field: \<open>nil\<close> unless the value is there.\<close>

fun as_ptr :: "(json option \<Rightarrow> 'a decoded) \<Rightarrow> json option \<Rightarrow> 'a option decoded" where
  "as_ptr f None = Inr None"
| "as_ptr f (Some JNull) = Inr None"
| "as_ptr f (Some v) = res_bind (f (Some v)) (\<lambda>x. Inr (Some x))"

section \<open>Writers\<close>

definition num :: "int \<Rightarrow> json" where
  "num n = JNum (of_int n)"

definition strs :: "string list \<Rightarrow> json" where
  "strs xs = JArr (map JStr xs)"

definition omit_str :: "string \<Rightarrow> string \<Rightarrow> (string \<times> json) list" where
  "omit_str k s = (if s = [] then [] else [(k, JStr s)])"

definition omit_int :: "string \<Rightarrow> int \<Rightarrow> (string \<times> json) list" where
  "omit_int k n = (if n = 0 then [] else [(k, num n)])"

definition omit_float :: "string \<Rightarrow> float64 \<Rightarrow> (string \<times> json) list" where
  "omit_float k q = (if q = 0 then [] else [(k, JNum q)])"

definition omit_bool :: "string \<Rightarrow> bool \<Rightarrow> (string \<times> json) list" where
  "omit_bool k b = (if b then [(k, JBool True)] else [])"

definition omit_list :: "string \<Rightarrow> ('a \<Rightarrow> json) \<Rightarrow> 'a list \<Rightarrow> (string \<times> json) list" where
  "omit_list k f xs = (if xs = [] then [] else [(k, JArr (map f xs))])"

definition omit_ptr :: "string \<Rightarrow> ('a \<Rightarrow> json) \<Rightarrow> 'a option \<Rightarrow> (string \<times> json) list" where
  "omit_ptr k f x = (case x of None \<Rightarrow> [] | Some v \<Rightarrow> [(k, f v)])"

section \<open>Reading what was written\<close>

lemma field_omits [codec_simps]:
  "field (omit_str k' s) k = (if k' = k \<and> s \<noteq> [] then Some (JStr s) else None)"
  "field (omit_int k' n) k = (if k' = k \<and> n \<noteq> 0 then Some (num n) else None)"
  "field (omit_float k' q) k = (if k' = k \<and> q \<noteq> 0 then Some (JNum q) else None)"
  "field (omit_bool k' b) k = (if k' = k \<and> b then Some (JBool True) else None)"
  "field (omit_list k' f xs) k = (if k' = k \<and> xs \<noteq> [] then Some (JArr (map f xs)) else None)"
  "field (omit_ptr k' g p) k = (if k' = k then map_option g p else None)"
  by (auto simp: omit_str_def omit_int_def omit_float_def omit_bool_def omit_list_def
      omit_ptr_def codec_simps split: option.splits)

lemma as_num [codec_simps]: "as_int (Some (num n)) = Inr n"
  by (simp add: num_def)

lemma as_strs [codec_simps]: "as_list as_str (Some (strs xs)) = Inr xs"
  by (simp add: strs_def) (induction xs, auto)

lemma as_omitted [codec_simps]:
  "as_str (if s \<noteq> [] then Some (JStr s) else None) = Inr s"
  "as_int (if n \<noteq> 0 then Some (num n) else None) = Inr n"
  "as_float (if q \<noteq> 0 then Some (JNum q) else None) = Inr q"
  "as_bool (if b then Some (JBool True) else None) = Inr b"
  by (auto simp: codec_simps)

lemma as_list_map [codec_simps]:
  assumes "\<And>x. f (Some (g x)) = Inr x"
  shows "as_list f (if xs \<noteq> [] then Some (JArr (map g xs)) else None) = Inr xs"
proof -
  have "res_map (\<lambda>x. f (Some x)) (map g xs) = Inr xs"
    by (induction xs) (auto simp: assms)
  then show ?thesis by auto
qed

lemma as_list_JStr [codec_simps]:
  "as_list as_str (if xs \<noteq> [] then Some (JArr (map JStr xs)) else None) = Inr xs"
  by (rule as_list_map) simp

lemma as_ptr_map:
  assumes "\<And>x. f (Some (g x)) = Inr x" and "\<And>x. g x \<noteq> JNull"
  shows "as_ptr f (map_option g p) = Inr p"
proof (cases p)
  case None
  then show ?thesis by simp
next
  case (Some x)
  obtain v where v: "g x = v" by simp
  have "as_ptr f (Some v) = res_bind (f (Some v)) (\<lambda>y. Inr (Some y))"
    using assms(2) [of x] v by (cases v) auto
  then show ?thesis using assms(1) [of x] Some v by simp
qed

section \<open>Codecs\<close>

text \<open>
  What a payload type promises to the event log: an object is written, and what is written
  is read back exactly.
\<close>

locale codec =
  fixes enc :: "'a \<Rightarrow> json" and dec :: "json option \<Rightarrow> 'a decoded"
  assumes dec_enc: "dec (Some (enc x)) = Inr x"
    and enc_object: "\<exists>kvs. enc x = JObj kvs"
begin

lemma enc_inj: "enc x = enc y \<longleftrightarrow> x = y"
  by (metis Inr_inject dec_enc)

lemma enc_not_null: "enc x \<noteq> JNull"
  using enc_object [of x] by auto

lemma dec_list: "as_list dec (if xs \<noteq> [] then Some (JArr (map enc xs)) else None) = Inr xs"
  by (rule as_list_map) (rule dec_enc)

lemma dec_ptr: "as_ptr dec (map_option enc p) = Inr p"
  by (rule as_ptr_map) (simp_all add: dec_enc enc_not_null)

end

end
