(* ===== verification/Content.thy ===== *)
theory Content
  imports Json
begin

text \<open>
  User input as a list of parts (internal/content/content.go): text and references to
  attachments, with the binary artifacts beside it in a payload. \<open>Validate\<close> is the check
  every durable write of user input passes.
\<close>

section \<open>Types\<close>

record artifact_ref =
  ar_reference :: string
  ar_kind :: string
  ar_mime_type :: string
  ar_name :: string
  ar_digest :: string
  ar_byte_count :: int
  ar_width :: int
  ar_height :: int

record artifact =
  a_ref :: artifact_ref
  a_data :: string

record part =
  pt_type :: string
  pt_text :: string
  pt_attachment :: "artifact_ref option"

record input =
  in_parts :: "part list"

record payload =
  pl_input :: input
  pl_artifacts :: "artifact list"

definition PartText :: string where "PartText = ''text''"
definition PartAttachment :: string where "PartAttachment = ''attachment''"
definition ArtifactImage :: string where "ArtifactImage = ''image''"

lemma part_types_differ [simp]: "PartText \<noteq> PartAttachment" "PartAttachment \<noteq> PartText"
  by (simp_all add: PartText_def PartAttachment_def)

abbreviation a_reference :: "artifact \<Rightarrow> string" where
  "a_reference a \<equiv> ar_reference (a_ref a)"

section \<open>JSON form\<close>

definition enc_artifact_ref :: "artifact_ref \<Rightarrow> json" where
  "enc_artifact_ref r = JObj
     ([(''reference'', JStr (ar_reference r)), (''kind'', JStr (ar_kind r)),
       (''mime_type'', JStr (ar_mime_type r))]
      @ omit_str ''name'' (ar_name r)
      @ [(''digest'', JStr (ar_digest r)), (''byte_count'', num (ar_byte_count r))]
      @ omit_int ''width'' (ar_width r) @ omit_int ''height'' (ar_height r))"

definition dec_artifact_ref :: "json option \<Rightarrow> artifact_ref decoded" where
  "dec_artifact_ref j =
     res_bind (as_obj j) (\<lambda>o'.
     res_bind (as_str (field o' ''reference'')) (\<lambda>reference.
     res_bind (as_str (field o' ''kind'')) (\<lambda>kind.
     res_bind (as_str (field o' ''mime_type'')) (\<lambda>mime.
     res_bind (as_str (field o' ''name'')) (\<lambda>name.
     res_bind (as_str (field o' ''digest'')) (\<lambda>digest.
     res_bind (as_int (field o' ''byte_count'')) (\<lambda>bytes.
     res_bind (as_int (field o' ''width'')) (\<lambda>width.
     res_bind (as_int (field o' ''height'')) (\<lambda>height.
     Inr \<lparr>ar_reference = reference, ar_kind = kind, ar_mime_type = mime, ar_name = name,
          ar_digest = digest, ar_byte_count = bytes, ar_width = width, ar_height = height\<rparr>)))))))))"

interpretation artifact_ref_codec: codec enc_artifact_ref dec_artifact_ref
proof
  fix x
  show "dec_artifact_ref (Some (enc_artifact_ref x)) = Inr x"
    by (cases x) (simp add: enc_artifact_ref_def dec_artifact_ref_def codec_simps del: as_int.simps)
  show "\<exists>kvs. enc_artifact_ref x = JObj kvs"
    by (simp add: enc_artifact_ref_def)
qed

definition enc_part :: "part \<Rightarrow> json" where
  "enc_part p = JObj
     ([(''type'', JStr (pt_type p))] @ omit_str ''text'' (pt_text p)
      @ omit_ptr ''attachment'' enc_artifact_ref (pt_attachment p))"

definition dec_part :: "json option \<Rightarrow> part decoded" where
  "dec_part j =
     res_bind (as_obj j) (\<lambda>o'.
     res_bind (as_str (field o' ''type'')) (\<lambda>ty.
     res_bind (as_str (field o' ''text'')) (\<lambda>text.
     res_bind (as_ptr dec_artifact_ref (field o' ''attachment'')) (\<lambda>att.
     Inr \<lparr>pt_type = ty, pt_text = text, pt_attachment = att\<rparr>))))"

interpretation part_codec: codec enc_part dec_part
proof
  fix x
  show "dec_part (Some (enc_part x)) = Inr x"
    by (cases x) (simp add: enc_part_def dec_part_def codec_simps artifact_ref_codec.dec_ptr)
  show "\<exists>kvs. enc_part x = JObj kvs"
    by (simp add: enc_part_def)
qed

definition enc_input :: "input \<Rightarrow> json" where
  "enc_input i = JObj (omit_list ''parts'' enc_part (in_parts i))"

definition dec_input :: "json option \<Rightarrow> input decoded" where
  "dec_input j =
     res_bind (as_obj j) (\<lambda>o'.
     res_bind (as_list dec_part (field o' ''parts'')) (\<lambda>parts.
     Inr \<lparr>in_parts = parts\<rparr>))"

interpretation input_codec: codec enc_input dec_input
proof
  fix x
  show "dec_input (Some (enc_input x)) = Inr x"
    by (cases x) (simp add: enc_input_def dec_input_def codec_simps part_codec.dec_list)
  show "\<exists>kvs. enc_input x = JObj kvs"
    by (simp add: enc_input_def)
qed

section \<open>Operations on input\<close>

definition content_text :: "string \<Rightarrow> input" where
  "content_text value =
     (if value = [] then \<lparr>in_parts = []\<rparr>
      else \<lparr>in_parts = [\<lparr>pt_type = PartText, pt_text = value, pt_attachment = None\<rparr>]\<rparr>)"

definition text_payload :: "string \<Rightarrow> payload" where
  "text_payload value = \<lparr>pl_input = content_text value, pl_artifacts = []\<rparr>"

fun input_empty_parts :: "part list \<Rightarrow> bool" where
  "input_empty_parts [] = True"
| "input_empty_parts (p # ps) =
     (if pt_type p = PartText \<and> trim (pt_text p) \<noteq> [] then False
      else if pt_type p = PartAttachment \<and> pt_attachment p \<noteq> None then False
      else input_empty_parts ps)"

definition input_empty :: "input \<Rightarrow> bool" where
  "input_empty i = input_empty_parts (in_parts i)"

text \<open>\<open>imageNumber\<close> counts the attachments met so far.\<close>

fun display_parts :: "nat \<Rightarrow> part list \<Rightarrow> string" where
  "display_parts n [] = []"
| "display_parts n (p # ps) =
     (if pt_type p = PartText then pt_text p @ display_parts n ps
      else if pt_type p = PartAttachment then
        (case pt_attachment p of
           None \<Rightarrow> display_parts n ps
         | Some r \<Rightarrow>
             (if ar_kind r = ArtifactImage
              then ''[Image #'' @ itoa (int (Suc n)) @ '']''
              else ''[Attachment #'' @ itoa (int (Suc n)) @ '']'') @ display_parts (Suc n) ps)
      else display_parts n ps)"

definition display_text :: "input \<Rightarrow> string" where
  "display_text i = display_parts 0 (in_parts i)"

fun attachment_refs_loop :: "string set \<Rightarrow> part list \<Rightarrow> artifact_ref list" where
  "attachment_refs_loop seen [] = []"
| "attachment_refs_loop seen (p # ps) =
     (case pt_attachment p of
        None \<Rightarrow> attachment_refs_loop seen ps
      | Some r \<Rightarrow>
          if pt_type p \<noteq> PartAttachment \<or> ar_reference r \<in> seen
          then attachment_refs_loop seen ps
          else r # attachment_refs_loop (insert (ar_reference r) seen) ps)"

definition attachment_refs :: "input \<Rightarrow> artifact_ref list" where
  "attachment_refs i = attachment_refs_loop {} (in_parts i)"

section \<open>Validation\<close>

datatype content_error =
    ReferenceRequired
  | DuplicateReference string
  | TextCarriesAttachment
  | AttachmentNeedsReference
  | MissingArtifact string
  | MetadataMismatch string
  | UnknownPartType string
  | UnreferencedArtifact

text \<open>The first loop collects the artifacts by reference.\<close>

definition collect_step ::
    "(string, artifact) gomap \<Rightarrow> artifact \<Rightarrow> (content_error, (string, artifact) gomap) res" where
  "collect_step m a =
     (if trim (a_reference a) = [] then Inl ReferenceRequired
      else if map_of m (a_reference a) \<noteq> None then Inl (DuplicateReference (a_reference a))
      else Inr (AList.update (a_reference a) a m))"

text \<open>The second loop checks one part and notes the reference it uses.\<close>

definition check_part ::
    "(string, artifact) gomap \<Rightarrow> string list \<Rightarrow> part \<Rightarrow> (content_error, string list) res" where
  "check_part m referenced p =
     (if pt_type p = PartText then
        (if pt_attachment p \<noteq> None then Inl TextCarriesAttachment else Inr referenced)
      else if pt_type p = PartAttachment then
        (case pt_attachment p of
           None \<Rightarrow> Inl AttachmentNeedsReference
         | Some r \<Rightarrow>
             if trim (ar_reference r) = [] then Inl AttachmentNeedsReference
             else (case map_of m (ar_reference r) of
                     None \<Rightarrow> Inl (MissingArtifact (ar_reference r))
                   | Some a \<Rightarrow>
                       if a_ref a \<noteq> r then Inl (MetadataMismatch (ar_reference r))
                       else Inr (ar_reference r # referenced)))
      else Inl (UnknownPartType (pt_type p)))"

definition payload_validate :: "payload \<Rightarrow> (content_error, unit) res" where
  "payload_validate p =
     res_bind (res_fold collect_step [] (pl_artifacts p)) (\<lambda>artifacts.
     res_bind (res_fold (check_part artifacts) [] (in_parts (pl_input p))) (\<lambda>referenced.
     if \<forall>reference \<in> set (map fst artifacts). reference \<in> set referenced then Inr ()
     else Inl UnreferencedArtifact))"

text \<open>What a valid payload is, stated without the loops.\<close>

definition part_ok :: "artifact list \<Rightarrow> part \<Rightarrow> bool" where
  "part_ok as p \<longleftrightarrow>
     (pt_type p = PartText \<and> pt_attachment p = None) \<or>
     (pt_type p = PartAttachment \<and>
      (\<exists>a \<in> set as. pt_attachment p = Some (a_ref a)))"

definition payload_ok :: "payload \<Rightarrow> bool" where
  "payload_ok p \<longleftrightarrow>
     distinct (map a_reference (pl_artifacts p)) \<and>
     (\<forall>a \<in> set (pl_artifacts p). trim (a_reference a) \<noteq> []) \<and>
     (\<forall>q \<in> set (in_parts (pl_input p)). part_ok (pl_artifacts p) q) \<and>
     (\<forall>a \<in> set (pl_artifacts p). \<exists>q \<in> set (in_parts (pl_input p)).
        pt_type q = PartAttachment \<and> pt_attachment q = Some (a_ref a))"

lemma collect_loop:
  "res_fold collect_step m as = Inr m' \<longleftrightarrow>
     distinct (map a_reference as) \<and>
     (\<forall>a \<in> set as. trim (a_reference a) \<noteq> [] \<and> map_of m (a_reference a) = None) \<and>
     m' = m @ map (\<lambda>a. (a_reference a, a)) as"
proof (induction as arbitrary: m)
  case Nil
  then show ?case by auto
next
  case (Cons a as)
  show ?case
  proof (cases "trim (a_reference a) = [] \<or> map_of m (a_reference a) \<noteq> None")
    case True
    then show ?thesis by (auto simp: collect_step_def)
  next
    case False
    then have step: "collect_step m a = Inr (m @ [(a_reference a, a)])"
      by (simp add: collect_step_def update_absent)
    have lookup: "map_of (m @ [(a_reference a, a)]) k = None \<longleftrightarrow>
        map_of m k = None \<and> k \<noteq> a_reference a" for k
      by (auto simp: map_add_def split: option.splits)
    have all: "(\<forall>b \<in> set as. trim (a_reference b) \<noteq> [] \<and>
          map_of (m @ [(a_reference a, a)]) (a_reference b) = None) \<longleftrightarrow>
        (\<forall>b \<in> set as. trim (a_reference b) \<noteq> [] \<and> map_of m (a_reference b) = None) \<and>
        a_reference a \<notin> a_reference ` set as"
      unfolding lookup by (auto simp: image_iff)
    have "res_fold collect_step m (a # as) = Inr m' \<longleftrightarrow>
        res_fold collect_step (m @ [(a_reference a, a)]) as = Inr m'"
      by (simp add: step)
    then show ?thesis
      unfolding Cons.IH all using False by simp blast
  qed
qed

lemma collected_lookup:
  "distinct (map a_reference as) \<Longrightarrow>
   map_of (map (\<lambda>a. (a_reference a, a)) as) k = Some a \<longleftrightarrow> a \<in> set as \<and> a_reference a = k"
proof (induction as)
  case (Cons b as)
  then show ?case by (auto simp: image_iff)
qed simp

lemma check_part_iff:
  assumes "distinct (map a_reference as)" and "\<And>a. a \<in> set as \<Longrightarrow> trim (a_reference a) \<noteq> []"
  shows "check_part (map (\<lambda>a. (a_reference a, a)) as) rs p = Inr rs' \<longleftrightarrow>
     part_ok as p \<and>
     rs' = (case pt_attachment p of None \<Rightarrow> rs | Some r \<Rightarrow> ar_reference r # rs)"
proof (cases "pt_type p = PartText")
  case True
  then show ?thesis by (auto simp: check_part_def part_ok_def)
next
  case nt: False
  show ?thesis
  proof (cases "pt_type p = PartAttachment")
    case False
    with nt show ?thesis by (auto simp: check_part_def part_ok_def)
  next
    case att: True
    show ?thesis
    proof (cases "pt_attachment p")
      case None
      with att show ?thesis by (auto simp: check_part_def part_ok_def)
    next
      case pr: (Some r)
      let ?look = "map_of (map (\<lambda>a. (a_reference a, a)) as) (ar_reference r)"
      have l: "?look = Some a \<longleftrightarrow> a \<in> set as \<and> a_reference a = ar_reference r" for a
        by (rule collected_lookup [OF assms(1)])
      show ?thesis
      proof (cases ?look)
        case None
        then have "r \<noteq> a_ref a" if "a \<in> set as" for a
          using l [of a] that by auto
        with att pr None show ?thesis by (auto simp: check_part_def part_ok_def)
      next
        case (Some a)
        then have a: "a \<in> set as" "a_reference a = ar_reference r"
          using l by auto
        have named: "trim (ar_reference r) \<noteq> []"
          using a assms(2) [of a] by simp
        have ok: "part_ok as p \<longleftrightarrow> a_ref a = r"
        proof
          assume "part_ok as p"
          then obtain b where "b \<in> set as" "a_ref b = r"
            using att pr by (auto simp: part_ok_def)
          with l [of b] Some show "a_ref a = r" by simp
        next
          assume "a_ref a = r"
          with a att pr show "part_ok as p" by (auto simp: part_ok_def)
        qed
        show ?thesis
          using att pr Some named by (auto simp: check_part_def ok)
      qed
    qed
  qed
qed

lemma check_parts_iff:
  assumes "distinct (map a_reference as)" and "\<And>a. a \<in> set as \<Longrightarrow> trim (a_reference a) \<noteq> []"
  shows "res_fold (check_part (map (\<lambda>a. (a_reference a, a)) as)) rs ps = Inr rs' \<Longrightarrow>
     set rs' = set rs \<union> {ar_reference r |r q. q \<in> set ps \<and> pt_attachment q = Some r}"
    and "(\<exists>rs'. res_fold (check_part (map (\<lambda>a. (a_reference a, a)) as)) rs ps = Inr rs') \<longleftrightarrow>
     (\<forall>q \<in> set ps. part_ok as q)"
proof (induction ps arbitrary: rs)
  case Nil
  { case 1 then show ?case by simp }
  { case 2 then show ?case by simp }
next
  case (Cons p ps)
  note step = check_part_iff [OF assms]
  { case 1
    then obtain rs1 where "check_part (map (\<lambda>a. (a_reference a, a)) as) rs p = Inr rs1"
      and rest: "res_fold (check_part (map (\<lambda>a. (a_reference a, a)) as)) rs1 ps = Inr rs'"
      by (auto simp: res_bind_Inr_iff)
    then have "rs1 = (case pt_attachment p of None \<Rightarrow> rs | Some r \<Rightarrow> ar_reference r # rs)"
      by (simp add: step)
    with Cons.IH(1) [OF rest] show ?case by (auto split: option.splits) }
  { case 2
    show ?case by (auto simp: res_bind_Inr_iff step Cons.IH(2)) }
qed

lemma payload_validate_iff: "payload_validate p = Inr () \<longleftrightarrow> payload_ok p"
proof -
  let ?as = "pl_artifacts p" and ?ps = "in_parts (pl_input p)"
  let ?m = "map (\<lambda>a. (a_reference a, a)) ?as"
  show ?thesis
  proof (cases "distinct (map a_reference ?as) \<and> (\<forall>a \<in> set ?as. trim (a_reference a) \<noteq> [])")
    case False
    then have "res_fold collect_step [] ?as \<noteq> Inr m" for m
      by (auto simp: collect_loop)
    then have "payload_validate p \<noteq> Inr ()"
      by (auto simp: payload_validate_def res_bind_Inr_iff)
    with False show ?thesis by (auto simp: payload_ok_def)
  next
    case True
    then have collected: "res_fold collect_step [] ?as = Inr ?m"
      by (simp add: collect_loop)
    have dist: "distinct (map a_reference ?as)"
      and named: "\<And>a. a \<in> set ?as \<Longrightarrow> trim (a_reference a) \<noteq> []"
      using True by auto
    note parts = check_parts_iff [OF dist named]
    have refs: "(\<exists>r q. a_reference a = ar_reference r \<and> q \<in> set ?ps \<and> pt_attachment q = Some r) \<longleftrightarrow>
        (\<exists>q \<in> set ?ps. pt_type q = PartAttachment \<and> pt_attachment q = Some (a_ref a))"
      (is "?L \<longleftrightarrow> ?R") if a: "a \<in> set ?as" and ok: "\<forall>q \<in> set ?ps. part_ok ?as q" for a
    proof
      assume ?L
      then obtain r q where q: "q \<in> set ?ps" "pt_attachment q = Some r"
        and r: "ar_reference r = a_reference a" by auto
      from q ok obtain b where b: "b \<in> set ?as" "r = a_ref b" "pt_type q = PartAttachment"
        by (auto simp: part_ok_def)
      have "b = a" using dist a b r by (auto simp: distinct_map inj_on_def)
      with q b show ?R by auto
    qed auto
    show ?thesis
    proof (cases "\<forall>q \<in> set ?ps. part_ok ?as q")
      case False
      then show ?thesis
        using parts(2) [of "[]" ?ps]
        by (auto simp: payload_validate_def collected payload_ok_def res_bind_Inr_iff)
    next
      case ok: True
      then obtain rs where rs: "res_fold (check_part ?m) [] ?ps = Inr rs"
        using parts(2) [of "[]" ?ps] by auto
      from check_parts_iff(1) [OF dist named rs] have set_rs:
        "set rs = {ar_reference r |r q. q \<in> set ?ps \<and> pt_attachment q = Some r}" by simp
      have "(\<forall>reference \<in> set (map fst ?m). reference \<in> set rs) \<longleftrightarrow>
          (\<forall>a \<in> set ?as. a_reference a \<in> set rs)" by simp
      also have "\<dots> \<longleftrightarrow>
          (\<forall>a \<in> set ?as. \<exists>q \<in> set ?ps. pt_type q = PartAttachment \<and> pt_attachment q = Some (a_ref a))"
        using refs [OF _ ok] by (simp add: set_rs)
      finally have "(\<forall>reference \<in> set (map fst ?m). reference \<in> set rs) \<longleftrightarrow>
          (\<forall>a \<in> set ?as. \<exists>q \<in> set ?ps. pt_type q = PartAttachment \<and> pt_attachment q = Some (a_ref a))" .
      then show ?thesis
        using True ok by (simp add: payload_validate_def collected rs payload_ok_def)
    qed
  qed
qed

section \<open>Facts about input\<close>

lemma text_payload_valid: "payload_validate (text_payload s) = Inr ()"
  by (simp add: payload_validate_iff payload_ok_def text_payload_def content_text_def part_ok_def)

lemma input_empty_parts_iff:
  "input_empty_parts ps \<longleftrightarrow>
     (\<forall>p \<in> set ps.
        (pt_type p = PartText \<longrightarrow> trim (pt_text p) = []) \<and>
        (pt_type p = PartAttachment \<longrightarrow> pt_attachment p = None))"
  by (induction ps) auto

lemma input_empty_iff:
  "input_empty i \<longleftrightarrow>
     (\<forall>p \<in> set (in_parts i).
        (pt_type p = PartText \<longrightarrow> trim (pt_text p) = []) \<and>
        (pt_type p = PartAttachment \<longrightarrow> pt_attachment p = None))"
  by (simp add: input_empty_def input_empty_parts_iff)

lemma input_empty_text [simp]: "input_empty (content_text s) \<longleftrightarrow> trim s = []"
  by (simp add: input_empty_def content_text_def)

lemma display_text_text [simp]: "display_text (content_text s) = s"
  by (simp add: display_text_def content_text_def)

lemma attachment_refs_loop_props:
  "distinct (map ar_reference (attachment_refs_loop seen ps)) \<and>
   ar_reference ` set (attachment_refs_loop seen ps) =
     {ar_reference r |r p. p \<in> set ps \<and> pt_type p = PartAttachment \<and> pt_attachment p = Some r} - seen"
  by (induction seen ps rule: attachment_refs_loop.induct) (auto split: option.splits)

end
