(* ===== verification/Events.thy ===== *)
theory Events
  imports Content
begin

text \<open>
  The event log's vocabulary (internal/event/event.go): the kinds, the envelope, the
  payload structs with their JSON form, \<open>Draft.Materialize\<close> and \<open>Decode\<close>. A time is the
  number of nanoseconds since the Unix epoch, in UTC; an event identity (a UUIDv7 in the
  code, made by a third-party package) is an argument of \<open>materialize\<close>.
\<close>

section \<open>Kinds and envelope\<close>

datatype kind =
    SessionCreated
  | UserInstruction
  | ProfilePinned
  | SessionRecovered
  | ModelCallStarted
  | ModelUsage
  | ModelCacheEpochStarted
  | ContextViewCommitted
  | ContextAgentCompacted
  | LeadershipTransferred
  | AgentTurnStarted
  | AgentTurnCompleted
  | AgentDecision
  | DelegationCreated
  | DelegationStarted
  | ToolCalled
  | ToolCompleted
  | DelegationTextDelta
  | DelegationReasoning
  | DelegationCompleted
  | DelegationFailed
  | DelegationCancelled
  | PeerTurnCreated
  | PeerTurnStarted
  | PeerTextDelta
  | PeerReasoning
  | PeerTurnCompleted
  | PeerTurnFailed
  | PeerTurnCancelled
  | FinalStarted
  | FinalTextDelta
  | FinalReasoning
  | FinalCompleted
  | SessionFailed
  | SessionCancelled
  | OtherKind string

fun kind_name :: "kind \<Rightarrow> string" where
  "kind_name SessionCreated = ''session.created''"
| "kind_name UserInstruction = ''user.instruction''"
| "kind_name ProfilePinned = ''profile.pinned''"
| "kind_name SessionRecovered = ''session.recovered''"
| "kind_name ModelCallStarted = ''model.call.started''"
| "kind_name ModelUsage = ''model.usage''"
| "kind_name ModelCacheEpochStarted = ''model.cache.epoch.started''"
| "kind_name ContextViewCommitted = ''context.view.committed''"
| "kind_name ContextAgentCompacted = ''context.agent.compacted''"
| "kind_name LeadershipTransferred = ''leadership.transferred''"
| "kind_name AgentTurnStarted = ''agent.turn.started''"
| "kind_name AgentTurnCompleted = ''agent.turn.completed''"
| "kind_name AgentDecision = ''agent.decision''"
| "kind_name DelegationCreated = ''delegation.created''"
| "kind_name DelegationStarted = ''delegation.started''"
| "kind_name ToolCalled = ''tool.called''"
| "kind_name ToolCompleted = ''tool.completed''"
| "kind_name DelegationTextDelta = ''delegation.text.delta''"
| "kind_name DelegationReasoning = ''delegation.reasoning.delta''"
| "kind_name DelegationCompleted = ''delegation.completed''"
| "kind_name DelegationFailed = ''delegation.failed''"
| "kind_name DelegationCancelled = ''delegation.cancelled''"
| "kind_name PeerTurnCreated = ''peer.turn.created''"
| "kind_name PeerTurnStarted = ''peer.turn.started''"
| "kind_name PeerTextDelta = ''peer.text.delta''"
| "kind_name PeerReasoning = ''peer.reasoning.delta''"
| "kind_name PeerTurnCompleted = ''peer.turn.completed''"
| "kind_name PeerTurnFailed = ''peer.turn.failed''"
| "kind_name PeerTurnCancelled = ''peer.turn.cancelled''"
| "kind_name FinalStarted = ''final.started''"
| "kind_name FinalTextDelta = ''final.text.delta''"
| "kind_name FinalReasoning = ''final.reasoning.delta''"
| "kind_name FinalCompleted = ''final.completed''"
| "kind_name SessionFailed = ''session.failed''"
| "kind_name SessionCancelled = ''session.cancelled''"
| "kind_name (OtherKind s) = s"

record event =
  ev_id :: string
  ev_session :: string
  ev_sequence :: int
  ev_at :: int
  ev_kind :: kind
  ev_actor :: string
  ev_correlation :: string
  ev_causation :: string
  ev_data :: json

text \<open>
  \<open>Draft.Data\<close> is \<open>any\<close>: no value, or a value that marshals to the JSON given. Every
  payload of the program is one of the structs below, whose marshalling cannot fail.
\<close>

record draft =
  dr_kind :: kind
  dr_actor :: string
  dr_correlation :: string
  dr_causation :: string
  dr_data :: "json option"

definition materialize :: "draft \<Rightarrow> string \<Rightarrow> string \<Rightarrow> int \<Rightarrow> int \<Rightarrow> event" where
  "materialize d eid session_id sequence now =
     \<lparr>ev_id = eid, ev_session = session_id, ev_sequence = sequence, ev_at = now,
      ev_kind = dr_kind d, ev_actor = dr_actor d, ev_correlation = dr_correlation d,
      ev_causation = dr_causation d,
      ev_data = (case dr_data d of None \<Rightarrow> JObj [] | Some j \<Rightarrow> j)\<rparr>"

lemma materialize_simps [simp]:
  "ev_id (materialize d eid sid n now) = eid"
  "ev_session (materialize d eid sid n now) = sid"
  "ev_sequence (materialize d eid sid n now) = n"
  "ev_at (materialize d eid sid n now) = now"
  "ev_kind (materialize d eid sid n now) = dr_kind d"
  "ev_actor (materialize d eid sid n now) = dr_actor d"
  "ev_correlation (materialize d eid sid n now) = dr_correlation d"
  "ev_causation (materialize d eid sid n now) = dr_causation d"
  "dr_data d = Some j \<Longrightarrow> ev_data (materialize d eid sid n now) = j"
  "dr_data d = None \<Longrightarrow> ev_data (materialize d eid sid n now) = JObj []"
  by (simp_all add: materialize_def)

definition decode :: "(json option \<Rightarrow> 'a decoded) \<Rightarrow> event \<Rightarrow> 'a decoded" where
  "decode dec e = dec (Some (ev_data e))"

text \<open>What a writer stores under a codec, a reader gets back.\<close>

context codec
begin

lemma decode_materialize:
  "dr_data d = Some (enc x) \<Longrightarrow> decode dec (materialize d eid sid n now) = Inr x"
  by (simp add: decode_def dec_enc)

lemma decode_payload: "ev_data e = enc x \<Longrightarrow> decode dec e = Inr x"
  by (simp add: decode_def dec_enc)

end

section \<open>Payloads\<close>

record session_created_data =
  sc_task :: string
  sc_input :: input

definition enc_session_created_data :: "session_created_data \<Rightarrow> json" where
  "enc_session_created_data d = JObj
     ([(''task'', JStr (sc_task d)), (''input'', enc_input (sc_input d))])"

definition dec_session_created_data :: "json option \<Rightarrow> session_created_data decoded" where
  "dec_session_created_data j =
     res_bind (as_obj j) (\<lambda>o'.
     res_bind (as_str (field o' ''task'')) (\<lambda>x_task.
     res_bind (dec_input (field o' ''input'')) (\<lambda>x_input.
     Inr \<lparr>sc_task = x_task, sc_input = x_input\<rparr>)))"

interpretation session_created_codec: codec enc_session_created_data dec_session_created_data
proof
  fix x
  show "dec_session_created_data (Some (enc_session_created_data x)) = Inr x"
    by (cases x) (simp add: enc_session_created_data_def dec_session_created_data_def codec_simps input_codec.dec_enc)
  show "\<exists>kvs. enc_session_created_data x = JObj kvs"
    by (simp add: enc_session_created_data_def)
qed

record user_instruction_data =
  ui_text :: string
  ui_input :: input

definition enc_user_instruction_data :: "user_instruction_data \<Rightarrow> json" where
  "enc_user_instruction_data d = JObj
     ([(''text'', JStr (ui_text d)), (''input'', enc_input (ui_input d))])"

definition dec_user_instruction_data :: "json option \<Rightarrow> user_instruction_data decoded" where
  "dec_user_instruction_data j =
     res_bind (as_obj j) (\<lambda>o'.
     res_bind (as_str (field o' ''text'')) (\<lambda>x_text.
     res_bind (dec_input (field o' ''input'')) (\<lambda>x_input.
     Inr \<lparr>ui_text = x_text, ui_input = x_input\<rparr>)))"

interpretation user_instruction_codec: codec enc_user_instruction_data dec_user_instruction_data
proof
  fix x
  show "dec_user_instruction_data (Some (enc_user_instruction_data x)) = Inr x"
    by (cases x) (simp add: enc_user_instruction_data_def dec_user_instruction_data_def codec_simps input_codec.dec_enc)
  show "\<exists>kvs. enc_user_instruction_data x = JObj kvs"
    by (simp add: enc_user_instruction_data_def)
qed

record profile_pinned_data =
  pp_profile_id :: string
  pp_revision :: int
  pp_digest :: string

definition enc_profile_pinned_data :: "profile_pinned_data \<Rightarrow> json" where
  "enc_profile_pinned_data d = JObj
     ([(''profile_id'', JStr (pp_profile_id d)), (''revision'', num (pp_revision d)), (''digest'', JStr (pp_digest d))])"

definition dec_profile_pinned_data :: "json option \<Rightarrow> profile_pinned_data decoded" where
  "dec_profile_pinned_data j =
     res_bind (as_obj j) (\<lambda>o'.
     res_bind (as_str (field o' ''profile_id'')) (\<lambda>x_profile_id.
     res_bind (as_int (field o' ''revision'')) (\<lambda>x_revision.
     res_bind (as_str (field o' ''digest'')) (\<lambda>x_digest.
     Inr \<lparr>pp_profile_id = x_profile_id, pp_revision = x_revision, pp_digest = x_digest\<rparr>))))"

interpretation profile_pinned_codec: codec enc_profile_pinned_data dec_profile_pinned_data
proof
  fix x
  show "dec_profile_pinned_data (Some (enc_profile_pinned_data x)) = Inr x"
    by (cases x) (simp add: enc_profile_pinned_data_def dec_profile_pinned_data_def codec_simps)
  show "\<exists>kvs. enc_profile_pinned_data x = JObj kvs"
    by (simp add: enc_profile_pinned_data_def)
qed

record leadership_transferred_data =
  lt_from_agent_id :: string
  lt_to_agent_id :: string
  lt_reason :: string

definition enc_leadership_transferred_data :: "leadership_transferred_data \<Rightarrow> json" where
  "enc_leadership_transferred_data d = JObj
     (omit_str ''from_agent_id'' (lt_from_agent_id d)
      @ [(''to_agent_id'', JStr (lt_to_agent_id d)), (''reason'', JStr (lt_reason d))])"

definition dec_leadership_transferred_data :: "json option \<Rightarrow> leadership_transferred_data decoded" where
  "dec_leadership_transferred_data j =
     res_bind (as_obj j) (\<lambda>o'.
     res_bind (as_str (field o' ''from_agent_id'')) (\<lambda>x_from_agent_id.
     res_bind (as_str (field o' ''to_agent_id'')) (\<lambda>x_to_agent_id.
     res_bind (as_str (field o' ''reason'')) (\<lambda>x_reason.
     Inr \<lparr>lt_from_agent_id = x_from_agent_id, lt_to_agent_id = x_to_agent_id, lt_reason = x_reason\<rparr>))))"

interpretation leadership_transferred_codec: codec enc_leadership_transferred_data dec_leadership_transferred_data
proof
  fix x
  show "dec_leadership_transferred_data (Some (enc_leadership_transferred_data x)) = Inr x"
    by (cases x) (simp add: enc_leadership_transferred_data_def dec_leadership_transferred_data_def codec_simps)
  show "\<exists>kvs. enc_leadership_transferred_data x = JObj kvs"
    by (simp add: enc_leadership_transferred_data_def)
qed

record agent_turn_data =
  at_agent_id :: string
  at_turn :: int
  at_signal_kinds :: "string list"
  at_assessment :: string

definition enc_agent_turn_data :: "agent_turn_data \<Rightarrow> json" where
  "enc_agent_turn_data d = JObj
     ([(''agent_id'', JStr (at_agent_id d)), (''turn'', num (at_turn d))]
      @ omit_list ''signal_kinds'' JStr (at_signal_kinds d)
      @ omit_str ''assessment'' (at_assessment d))"

definition dec_agent_turn_data :: "json option \<Rightarrow> agent_turn_data decoded" where
  "dec_agent_turn_data j =
     res_bind (as_obj j) (\<lambda>o'.
     res_bind (as_str (field o' ''agent_id'')) (\<lambda>x_agent_id.
     res_bind (as_int (field o' ''turn'')) (\<lambda>x_turn.
     res_bind (as_list as_str (field o' ''signal_kinds'')) (\<lambda>x_signal_kinds.
     res_bind (as_str (field o' ''assessment'')) (\<lambda>x_assessment.
     Inr \<lparr>at_agent_id = x_agent_id, at_turn = x_turn, at_signal_kinds = x_signal_kinds,
       at_assessment = x_assessment\<rparr>)))))"

interpretation agent_turn_codec: codec enc_agent_turn_data dec_agent_turn_data
proof
  fix x
  show "dec_agent_turn_data (Some (enc_agent_turn_data x)) = Inr x"
    by (cases x) (simp add: enc_agent_turn_data_def dec_agent_turn_data_def codec_simps)
  show "\<exists>kvs. enc_agent_turn_data x = JObj kvs"
    by (simp add: enc_agent_turn_data_def)
qed

record peer_turn_spec =
  pts_id :: string
  pts_key :: string
  pts_collaboration_id :: string
  pts_peer_id :: string
  pts_caller_id :: string
  pts_objective :: string
  pts_context :: string
  pts_attachments :: "string list"
  pts_required_tools :: "string list"
  pts_round :: int

definition enc_peer_turn_spec :: "peer_turn_spec \<Rightarrow> json" where
  "enc_peer_turn_spec d = JObj
     ([(''id'', JStr (pts_id d))] @ omit_str ''key'' (pts_key d)
      @ [(''collaboration_id'', JStr (pts_collaboration_id d)), (''peer_id'', JStr (pts_peer_id d)), (''caller_id'', JStr (pts_caller_id d)), (''objective'', JStr (pts_objective d))]
      @ omit_str ''context'' (pts_context d)
      @ omit_list ''attachments'' JStr (pts_attachments d)
      @ omit_list ''required_tools'' JStr (pts_required_tools d)
      @ [(''round'', num (pts_round d))])"

definition dec_peer_turn_spec :: "json option \<Rightarrow> peer_turn_spec decoded" where
  "dec_peer_turn_spec j =
     res_bind (as_obj j) (\<lambda>o'.
     res_bind (as_str (field o' ''id'')) (\<lambda>x_id.
     res_bind (as_str (field o' ''key'')) (\<lambda>x_key.
     res_bind (as_str (field o' ''collaboration_id'')) (\<lambda>x_collaboration_id.
     res_bind (as_str (field o' ''peer_id'')) (\<lambda>x_peer_id.
     res_bind (as_str (field o' ''caller_id'')) (\<lambda>x_caller_id.
     res_bind (as_str (field o' ''objective'')) (\<lambda>x_objective.
     res_bind (as_str (field o' ''context'')) (\<lambda>x_context.
     res_bind (as_list as_str (field o' ''attachments'')) (\<lambda>x_attachments.
     res_bind (as_list as_str (field o' ''required_tools'')) (\<lambda>x_required_tools.
     res_bind (as_int (field o' ''round'')) (\<lambda>x_round.
     Inr \<lparr>pts_id = x_id, pts_key = x_key, pts_collaboration_id = x_collaboration_id, pts_peer_id =
       x_peer_id, pts_caller_id = x_caller_id, pts_objective = x_objective, pts_context =
       x_context, pts_attachments = x_attachments, pts_required_tools = x_required_tools,
       pts_round = x_round\<rparr>)))))))))))"

interpretation peer_turn_spec_codec: codec enc_peer_turn_spec dec_peer_turn_spec
proof
  fix x
  show "dec_peer_turn_spec (Some (enc_peer_turn_spec x)) = Inr x"
    by (cases x) (simp add: enc_peer_turn_spec_def dec_peer_turn_spec_def codec_simps)
  show "\<exists>kvs. enc_peer_turn_spec x = JObj kvs"
    by (simp add: enc_peer_turn_spec_def)
qed

record delegation_spec =
  ds_id :: string
  ds_key :: string
  ds_specialist_id :: string
  ds_caller_id :: string
  ds_objective :: string
  ds_context :: string
  ds_attachments :: "string list"
  ds_depends_on :: "string list"
  ds_required_tools :: "string list"
  ds_depth :: int

definition enc_delegation_spec :: "delegation_spec \<Rightarrow> json" where
  "enc_delegation_spec d = JObj
     ([(''id'', JStr (ds_id d))] @ omit_str ''key'' (ds_key d)
      @ [(''specialist_id'', JStr (ds_specialist_id d)), (''caller_id'', JStr (ds_caller_id d)), (''objective'', JStr (ds_objective d))]
      @ omit_str ''context'' (ds_context d) @ omit_list ''attachments'' JStr (ds_attachments d)
      @ omit_list ''depends_on'' JStr (ds_depends_on d)
      @ omit_list ''required_tools'' JStr (ds_required_tools d)
      @ [(''depth'', num (ds_depth d))])"

definition dec_delegation_spec :: "json option \<Rightarrow> delegation_spec decoded" where
  "dec_delegation_spec j =
     res_bind (as_obj j) (\<lambda>o'.
     res_bind (as_str (field o' ''id'')) (\<lambda>x_id.
     res_bind (as_str (field o' ''key'')) (\<lambda>x_key.
     res_bind (as_str (field o' ''specialist_id'')) (\<lambda>x_specialist_id.
     res_bind (as_str (field o' ''caller_id'')) (\<lambda>x_caller_id.
     res_bind (as_str (field o' ''objective'')) (\<lambda>x_objective.
     res_bind (as_str (field o' ''context'')) (\<lambda>x_context.
     res_bind (as_list as_str (field o' ''attachments'')) (\<lambda>x_attachments.
     res_bind (as_list as_str (field o' ''depends_on'')) (\<lambda>x_depends_on.
     res_bind (as_list as_str (field o' ''required_tools'')) (\<lambda>x_required_tools.
     res_bind (as_int (field o' ''depth'')) (\<lambda>x_depth.
     Inr \<lparr>ds_id = x_id, ds_key = x_key, ds_specialist_id = x_specialist_id, ds_caller_id =
       x_caller_id, ds_objective = x_objective, ds_context = x_context, ds_attachments =
       x_attachments, ds_depends_on = x_depends_on, ds_required_tools = x_required_tools,
       ds_depth = x_depth\<rparr>)))))))))))"

interpretation delegation_spec_codec: codec enc_delegation_spec dec_delegation_spec
proof
  fix x
  show "dec_delegation_spec (Some (enc_delegation_spec x)) = Inr x"
    by (cases x) (simp add: enc_delegation_spec_def dec_delegation_spec_def codec_simps)
  show "\<exists>kvs. enc_delegation_spec x = JObj kvs"
    by (simp add: enc_delegation_spec_def)
qed

record agent_decision_data =
  ad_agent_id :: string
  ad_turn :: int
  ad_assessment :: string
  ad_delegations :: "delegation_spec list"
  ad_peer_turns :: "peer_turn_spec list"
  ad_cancellations :: "string list"
  ad_handoff_to :: string

definition enc_agent_decision_data :: "agent_decision_data \<Rightarrow> json" where
  "enc_agent_decision_data d = JObj
     ([(''agent_id'', JStr (ad_agent_id d)), (''turn'', num (ad_turn d)), (''assessment'', JStr (ad_assessment d))]
      @ omit_list ''delegations'' enc_delegation_spec (ad_delegations d)
      @ omit_list ''peer_turns'' enc_peer_turn_spec (ad_peer_turns d)
      @ omit_list ''cancellations'' JStr (ad_cancellations d)
      @ omit_str ''handoff_to'' (ad_handoff_to d))"

definition dec_agent_decision_data :: "json option \<Rightarrow> agent_decision_data decoded" where
  "dec_agent_decision_data j =
     res_bind (as_obj j) (\<lambda>o'.
     res_bind (as_str (field o' ''agent_id'')) (\<lambda>x_agent_id.
     res_bind (as_int (field o' ''turn'')) (\<lambda>x_turn.
     res_bind (as_str (field o' ''assessment'')) (\<lambda>x_assessment.
     res_bind (as_list dec_delegation_spec (field o' ''delegations'')) (\<lambda>x_delegations.
     res_bind (as_list dec_peer_turn_spec (field o' ''peer_turns'')) (\<lambda>x_peer_turns.
     res_bind (as_list as_str (field o' ''cancellations'')) (\<lambda>x_cancellations.
     res_bind (as_str (field o' ''handoff_to'')) (\<lambda>x_handoff_to.
     Inr \<lparr>ad_agent_id = x_agent_id, ad_turn = x_turn, ad_assessment = x_assessment, ad_delegations
       = x_delegations, ad_peer_turns = x_peer_turns, ad_cancellations = x_cancellations,
       ad_handoff_to = x_handoff_to\<rparr>))))))))"

interpretation agent_decision_codec: codec enc_agent_decision_data dec_agent_decision_data
proof
  fix x
  show "dec_agent_decision_data (Some (enc_agent_decision_data x)) = Inr x"
    by (cases x) (simp add: enc_agent_decision_data_def dec_agent_decision_data_def codec_simps delegation_spec_codec.dec_list peer_turn_spec_codec.dec_list)
  show "\<exists>kvs. enc_agent_decision_data x = JObj kvs"
    by (simp add: enc_agent_decision_data_def)
qed

record peer_turn_started_data =
  pst_peer_turn_id :: string
  pst_attempt :: int

definition enc_peer_turn_started_data :: "peer_turn_started_data \<Rightarrow> json" where
  "enc_peer_turn_started_data d = JObj
     ([(''peer_turn_id'', JStr (pst_peer_turn_id d)), (''attempt'', num (pst_attempt d))])"

definition dec_peer_turn_started_data :: "json option \<Rightarrow> peer_turn_started_data decoded" where
  "dec_peer_turn_started_data j =
     res_bind (as_obj j) (\<lambda>o'.
     res_bind (as_str (field o' ''peer_turn_id'')) (\<lambda>x_peer_turn_id.
     res_bind (as_int (field o' ''attempt'')) (\<lambda>x_attempt.
     Inr \<lparr>pst_peer_turn_id = x_peer_turn_id, pst_attempt = x_attempt\<rparr>)))"

interpretation peer_turn_started_codec: codec enc_peer_turn_started_data dec_peer_turn_started_data
proof
  fix x
  show "dec_peer_turn_started_data (Some (enc_peer_turn_started_data x)) = Inr x"
    by (cases x) (simp add: enc_peer_turn_started_data_def dec_peer_turn_started_data_def codec_simps)
  show "\<exists>kvs. enc_peer_turn_started_data x = JObj kvs"
    by (simp add: enc_peer_turn_started_data_def)
qed

record peer_text_delta_data =
  ptd_peer_turn_id :: string
  ptd_text :: string

definition enc_peer_text_delta_data :: "peer_text_delta_data \<Rightarrow> json" where
  "enc_peer_text_delta_data d = JObj
     ([(''peer_turn_id'', JStr (ptd_peer_turn_id d)), (''text'', JStr (ptd_text d))])"

definition dec_peer_text_delta_data :: "json option \<Rightarrow> peer_text_delta_data decoded" where
  "dec_peer_text_delta_data j =
     res_bind (as_obj j) (\<lambda>o'.
     res_bind (as_str (field o' ''peer_turn_id'')) (\<lambda>x_peer_turn_id.
     res_bind (as_str (field o' ''text'')) (\<lambda>x_text.
     Inr \<lparr>ptd_peer_turn_id = x_peer_turn_id, ptd_text = x_text\<rparr>)))"

interpretation peer_text_delta_codec: codec enc_peer_text_delta_data dec_peer_text_delta_data
proof
  fix x
  show "dec_peer_text_delta_data (Some (enc_peer_text_delta_data x)) = Inr x"
    by (cases x) (simp add: enc_peer_text_delta_data_def dec_peer_text_delta_data_def codec_simps)
  show "\<exists>kvs. enc_peer_text_delta_data x = JObj kvs"
    by (simp add: enc_peer_text_delta_data_def)
qed

record peer_turn_completed_data =
  pc_peer_turn_id :: string
  pc_attempt :: int
  pc_result :: string
  pc_findings :: "string list"
  pc_risks :: "string list"
  pc_confidence :: float64

definition enc_peer_turn_completed_data :: "peer_turn_completed_data \<Rightarrow> json" where
  "enc_peer_turn_completed_data d = JObj
     ([(''peer_turn_id'', JStr (pc_peer_turn_id d)), (''attempt'', num (pc_attempt d)), (''result'', JStr (pc_result d))]
      @ omit_list ''findings'' JStr (pc_findings d) @ omit_list ''risks'' JStr (pc_risks d)
      @ omit_float ''confidence'' (pc_confidence d))"

definition dec_peer_turn_completed_data :: "json option \<Rightarrow> peer_turn_completed_data decoded" where
  "dec_peer_turn_completed_data j =
     res_bind (as_obj j) (\<lambda>o'.
     res_bind (as_str (field o' ''peer_turn_id'')) (\<lambda>x_peer_turn_id.
     res_bind (as_int (field o' ''attempt'')) (\<lambda>x_attempt.
     res_bind (as_str (field o' ''result'')) (\<lambda>x_result.
     res_bind (as_list as_str (field o' ''findings'')) (\<lambda>x_findings.
     res_bind (as_list as_str (field o' ''risks'')) (\<lambda>x_risks.
     res_bind (as_float (field o' ''confidence'')) (\<lambda>x_confidence.
     Inr \<lparr>pc_peer_turn_id = x_peer_turn_id, pc_attempt = x_attempt, pc_result = x_result,
       pc_findings = x_findings, pc_risks = x_risks, pc_confidence = x_confidence\<rparr>)))))))"

interpretation peer_turn_completed_codec: codec enc_peer_turn_completed_data dec_peer_turn_completed_data
proof
  fix x
  show "dec_peer_turn_completed_data (Some (enc_peer_turn_completed_data x)) = Inr x"
    by (cases x) (simp add: enc_peer_turn_completed_data_def dec_peer_turn_completed_data_def codec_simps)
  show "\<exists>kvs. enc_peer_turn_completed_data x = JObj kvs"
    by (simp add: enc_peer_turn_completed_data_def)
qed

record peer_turn_failed_data =
  pf_peer_turn_id :: string
  pf_attempt :: int
  pf_error :: string

definition enc_peer_turn_failed_data :: "peer_turn_failed_data \<Rightarrow> json" where
  "enc_peer_turn_failed_data d = JObj
     ([(''peer_turn_id'', JStr (pf_peer_turn_id d)), (''attempt'', num (pf_attempt d)), (''error'', JStr (pf_error d))])"

definition dec_peer_turn_failed_data :: "json option \<Rightarrow> peer_turn_failed_data decoded" where
  "dec_peer_turn_failed_data j =
     res_bind (as_obj j) (\<lambda>o'.
     res_bind (as_str (field o' ''peer_turn_id'')) (\<lambda>x_peer_turn_id.
     res_bind (as_int (field o' ''attempt'')) (\<lambda>x_attempt.
     res_bind (as_str (field o' ''error'')) (\<lambda>x_error.
     Inr \<lparr>pf_peer_turn_id = x_peer_turn_id, pf_attempt = x_attempt, pf_error = x_error\<rparr>))))"

interpretation peer_turn_failed_codec: codec enc_peer_turn_failed_data dec_peer_turn_failed_data
proof
  fix x
  show "dec_peer_turn_failed_data (Some (enc_peer_turn_failed_data x)) = Inr x"
    by (cases x) (simp add: enc_peer_turn_failed_data_def dec_peer_turn_failed_data_def codec_simps)
  show "\<exists>kvs. enc_peer_turn_failed_data x = JObj kvs"
    by (simp add: enc_peer_turn_failed_data_def)
qed

record peer_turn_cancelled_data =
  px_peer_turn_id :: string
  px_reason :: string

definition enc_peer_turn_cancelled_data :: "peer_turn_cancelled_data \<Rightarrow> json" where
  "enc_peer_turn_cancelled_data d = JObj
     ([(''peer_turn_id'', JStr (px_peer_turn_id d)), (''reason'', JStr (px_reason d))])"

definition dec_peer_turn_cancelled_data :: "json option \<Rightarrow> peer_turn_cancelled_data decoded" where
  "dec_peer_turn_cancelled_data j =
     res_bind (as_obj j) (\<lambda>o'.
     res_bind (as_str (field o' ''peer_turn_id'')) (\<lambda>x_peer_turn_id.
     res_bind (as_str (field o' ''reason'')) (\<lambda>x_reason.
     Inr \<lparr>px_peer_turn_id = x_peer_turn_id, px_reason = x_reason\<rparr>)))"

interpretation peer_turn_cancelled_codec: codec enc_peer_turn_cancelled_data dec_peer_turn_cancelled_data
proof
  fix x
  show "dec_peer_turn_cancelled_data (Some (enc_peer_turn_cancelled_data x)) = Inr x"
    by (cases x) (simp add: enc_peer_turn_cancelled_data_def dec_peer_turn_cancelled_data_def codec_simps)
  show "\<exists>kvs. enc_peer_turn_cancelled_data x = JObj kvs"
    by (simp add: enc_peer_turn_cancelled_data_def)
qed

record delegation_started_data =
  dst_delegation_id :: string
  dst_attempt :: int

definition enc_delegation_started_data :: "delegation_started_data \<Rightarrow> json" where
  "enc_delegation_started_data d = JObj
     ([(''delegation_id'', JStr (dst_delegation_id d)), (''attempt'', num (dst_attempt d))])"

definition dec_delegation_started_data :: "json option \<Rightarrow> delegation_started_data decoded" where
  "dec_delegation_started_data j =
     res_bind (as_obj j) (\<lambda>o'.
     res_bind (as_str (field o' ''delegation_id'')) (\<lambda>x_delegation_id.
     res_bind (as_int (field o' ''attempt'')) (\<lambda>x_attempt.
     Inr \<lparr>dst_delegation_id = x_delegation_id, dst_attempt = x_attempt\<rparr>)))"

interpretation delegation_started_codec: codec enc_delegation_started_data dec_delegation_started_data
proof
  fix x
  show "dec_delegation_started_data (Some (enc_delegation_started_data x)) = Inr x"
    by (cases x) (simp add: enc_delegation_started_data_def dec_delegation_started_data_def codec_simps)
  show "\<exists>kvs. enc_delegation_started_data x = JObj kvs"
    by (simp add: enc_delegation_started_data_def)
qed

record text_delta_data =
  td_delegation_id :: string
  td_text :: string

definition enc_text_delta_data :: "text_delta_data \<Rightarrow> json" where
  "enc_text_delta_data d = JObj
     (omit_str ''delegation_id'' (td_delegation_id d) @ [(''text'', JStr (td_text d))])"

definition dec_text_delta_data :: "json option \<Rightarrow> text_delta_data decoded" where
  "dec_text_delta_data j =
     res_bind (as_obj j) (\<lambda>o'.
     res_bind (as_str (field o' ''delegation_id'')) (\<lambda>x_delegation_id.
     res_bind (as_str (field o' ''text'')) (\<lambda>x_text.
     Inr \<lparr>td_delegation_id = x_delegation_id, td_text = x_text\<rparr>)))"

interpretation text_delta_codec: codec enc_text_delta_data dec_text_delta_data
proof
  fix x
  show "dec_text_delta_data (Some (enc_text_delta_data x)) = Inr x"
    by (cases x) (simp add: enc_text_delta_data_def dec_text_delta_data_def codec_simps)
  show "\<exists>kvs. enc_text_delta_data x = JObj kvs"
    by (simp add: enc_text_delta_data_def)
qed

record tool_call_data =
  tc_delegation_id :: string
  tc_tool_call_id :: string
  tc_tool :: string
  tc_provider :: string
  tc_arguments :: string

definition enc_tool_call_data :: "tool_call_data \<Rightarrow> json" where
  "enc_tool_call_data d = JObj
     ([(''delegation_id'', JStr (tc_delegation_id d)), (''tool_call_id'', JStr (tc_tool_call_id d)), (''tool'', JStr (tc_tool d))]
      @ omit_str ''provider'' (tc_provider d) @ omit_str ''arguments'' (tc_arguments d))"

definition dec_tool_call_data :: "json option \<Rightarrow> tool_call_data decoded" where
  "dec_tool_call_data j =
     res_bind (as_obj j) (\<lambda>o'.
     res_bind (as_str (field o' ''delegation_id'')) (\<lambda>x_delegation_id.
     res_bind (as_str (field o' ''tool_call_id'')) (\<lambda>x_tool_call_id.
     res_bind (as_str (field o' ''tool'')) (\<lambda>x_tool.
     res_bind (as_str (field o' ''provider'')) (\<lambda>x_provider.
     res_bind (as_str (field o' ''arguments'')) (\<lambda>x_arguments.
     Inr \<lparr>tc_delegation_id = x_delegation_id, tc_tool_call_id = x_tool_call_id, tc_tool = x_tool,
       tc_provider = x_provider, tc_arguments = x_arguments\<rparr>))))))"

interpretation tool_call_codec: codec enc_tool_call_data dec_tool_call_data
proof
  fix x
  show "dec_tool_call_data (Some (enc_tool_call_data x)) = Inr x"
    by (cases x) (simp add: enc_tool_call_data_def dec_tool_call_data_def codec_simps)
  show "\<exists>kvs. enc_tool_call_data x = JObj kvs"
    by (simp add: enc_tool_call_data_def)
qed

record tool_completed_data =
  tf_delegation_id :: string
  tf_tool_call_id :: string
  tf_tool :: string
  tf_failed :: bool
  tf_error :: string
  tf_result :: string

definition enc_tool_completed_data :: "tool_completed_data \<Rightarrow> json" where
  "enc_tool_completed_data d = JObj
     ([(''delegation_id'', JStr (tf_delegation_id d)), (''tool_call_id'', JStr (tf_tool_call_id d)), (''tool'', JStr (tf_tool d))]
      @ omit_bool ''failed'' (tf_failed d) @ omit_str ''error'' (tf_error d)
      @ omit_str ''result'' (tf_result d))"

definition dec_tool_completed_data :: "json option \<Rightarrow> tool_completed_data decoded" where
  "dec_tool_completed_data j =
     res_bind (as_obj j) (\<lambda>o'.
     res_bind (as_str (field o' ''delegation_id'')) (\<lambda>x_delegation_id.
     res_bind (as_str (field o' ''tool_call_id'')) (\<lambda>x_tool_call_id.
     res_bind (as_str (field o' ''tool'')) (\<lambda>x_tool.
     res_bind (as_bool (field o' ''failed'')) (\<lambda>x_failed.
     res_bind (as_str (field o' ''error'')) (\<lambda>x_error.
     res_bind (as_str (field o' ''result'')) (\<lambda>x_result.
     Inr \<lparr>tf_delegation_id = x_delegation_id, tf_tool_call_id = x_tool_call_id, tf_tool = x_tool,
       tf_failed = x_failed, tf_error = x_error, tf_result = x_result\<rparr>)))))))"

interpretation tool_completed_codec: codec enc_tool_completed_data dec_tool_completed_data
proof
  fix x
  show "dec_tool_completed_data (Some (enc_tool_completed_data x)) = Inr x"
    by (cases x) (simp add: enc_tool_completed_data_def dec_tool_completed_data_def codec_simps)
  show "\<exists>kvs. enc_tool_completed_data x = JObj kvs"
    by (simp add: enc_tool_completed_data_def)
qed

record delegation_completed_data =
  dc_delegation_id :: string
  dc_attempt :: int
  dc_result :: string
  dc_findings :: "string list"
  dc_risks :: "string list"
  dc_confidence :: float64

definition enc_delegation_completed_data :: "delegation_completed_data \<Rightarrow> json" where
  "enc_delegation_completed_data d = JObj
     ([(''delegation_id'', JStr (dc_delegation_id d)), (''attempt'', num (dc_attempt d)), (''result'', JStr (dc_result d))]
      @ omit_list ''findings'' JStr (dc_findings d) @ omit_list ''risks'' JStr (dc_risks d)
      @ omit_float ''confidence'' (dc_confidence d))"

definition dec_delegation_completed_data :: "json option \<Rightarrow> delegation_completed_data decoded" where
  "dec_delegation_completed_data j =
     res_bind (as_obj j) (\<lambda>o'.
     res_bind (as_str (field o' ''delegation_id'')) (\<lambda>x_delegation_id.
     res_bind (as_int (field o' ''attempt'')) (\<lambda>x_attempt.
     res_bind (as_str (field o' ''result'')) (\<lambda>x_result.
     res_bind (as_list as_str (field o' ''findings'')) (\<lambda>x_findings.
     res_bind (as_list as_str (field o' ''risks'')) (\<lambda>x_risks.
     res_bind (as_float (field o' ''confidence'')) (\<lambda>x_confidence.
     Inr \<lparr>dc_delegation_id = x_delegation_id, dc_attempt = x_attempt, dc_result = x_result,
       dc_findings = x_findings, dc_risks = x_risks, dc_confidence = x_confidence\<rparr>)))))))"

interpretation delegation_completed_codec: codec enc_delegation_completed_data dec_delegation_completed_data
proof
  fix x
  show "dec_delegation_completed_data (Some (enc_delegation_completed_data x)) = Inr x"
    by (cases x) (simp add: enc_delegation_completed_data_def dec_delegation_completed_data_def codec_simps)
  show "\<exists>kvs. enc_delegation_completed_data x = JObj kvs"
    by (simp add: enc_delegation_completed_data_def)
qed

record delegation_failed_data =
  df_delegation_id :: string
  df_attempt :: int
  df_error :: string

definition enc_delegation_failed_data :: "delegation_failed_data \<Rightarrow> json" where
  "enc_delegation_failed_data d = JObj
     ([(''delegation_id'', JStr (df_delegation_id d)), (''attempt'', num (df_attempt d)), (''error'', JStr (df_error d))])"

definition dec_delegation_failed_data :: "json option \<Rightarrow> delegation_failed_data decoded" where
  "dec_delegation_failed_data j =
     res_bind (as_obj j) (\<lambda>o'.
     res_bind (as_str (field o' ''delegation_id'')) (\<lambda>x_delegation_id.
     res_bind (as_int (field o' ''attempt'')) (\<lambda>x_attempt.
     res_bind (as_str (field o' ''error'')) (\<lambda>x_error.
     Inr \<lparr>df_delegation_id = x_delegation_id, df_attempt = x_attempt, df_error = x_error\<rparr>))))"

interpretation delegation_failed_codec: codec enc_delegation_failed_data dec_delegation_failed_data
proof
  fix x
  show "dec_delegation_failed_data (Some (enc_delegation_failed_data x)) = Inr x"
    by (cases x) (simp add: enc_delegation_failed_data_def dec_delegation_failed_data_def codec_simps)
  show "\<exists>kvs. enc_delegation_failed_data x = JObj kvs"
    by (simp add: enc_delegation_failed_data_def)
qed

record delegation_cancelled_data =
  dx_delegation_id :: string
  dx_reason :: string

definition enc_delegation_cancelled_data :: "delegation_cancelled_data \<Rightarrow> json" where
  "enc_delegation_cancelled_data d = JObj
     ([(''delegation_id'', JStr (dx_delegation_id d)), (''reason'', JStr (dx_reason d))])"

definition dec_delegation_cancelled_data :: "json option \<Rightarrow> delegation_cancelled_data decoded" where
  "dec_delegation_cancelled_data j =
     res_bind (as_obj j) (\<lambda>o'.
     res_bind (as_str (field o' ''delegation_id'')) (\<lambda>x_delegation_id.
     res_bind (as_str (field o' ''reason'')) (\<lambda>x_reason.
     Inr \<lparr>dx_delegation_id = x_delegation_id, dx_reason = x_reason\<rparr>)))"

interpretation delegation_cancelled_codec: codec enc_delegation_cancelled_data dec_delegation_cancelled_data
proof
  fix x
  show "dec_delegation_cancelled_data (Some (enc_delegation_cancelled_data x)) = Inr x"
    by (cases x) (simp add: enc_delegation_cancelled_data_def dec_delegation_cancelled_data_def codec_simps)
  show "\<exists>kvs. enc_delegation_cancelled_data x = JObj kvs"
    by (simp add: enc_delegation_cancelled_data_def)
qed

record final_completed_data =
  fc_answer :: string

definition enc_final_completed_data :: "final_completed_data \<Rightarrow> json" where
  "enc_final_completed_data d = JObj
     ([(''answer'', JStr (fc_answer d))])"

definition dec_final_completed_data :: "json option \<Rightarrow> final_completed_data decoded" where
  "dec_final_completed_data j =
     res_bind (as_obj j) (\<lambda>o'.
     res_bind (as_str (field o' ''answer'')) (\<lambda>x_answer.
     Inr \<lparr>fc_answer = x_answer\<rparr>))"

interpretation final_completed_codec: codec enc_final_completed_data dec_final_completed_data
proof
  fix x
  show "dec_final_completed_data (Some (enc_final_completed_data x)) = Inr x"
    by (cases x) (simp add: enc_final_completed_data_def dec_final_completed_data_def codec_simps)
  show "\<exists>kvs. enc_final_completed_data x = JObj kvs"
    by (simp add: enc_final_completed_data_def)
qed

record failure_data =
  fd_error :: string

definition enc_failure_data :: "failure_data \<Rightarrow> json" where
  "enc_failure_data d = JObj
     ([(''error'', JStr (fd_error d))])"

definition dec_failure_data :: "json option \<Rightarrow> failure_data decoded" where
  "dec_failure_data j =
     res_bind (as_obj j) (\<lambda>o'.
     res_bind (as_str (field o' ''error'')) (\<lambda>x_error.
     Inr \<lparr>fd_error = x_error\<rparr>))"

interpretation failure_codec: codec enc_failure_data dec_failure_data
proof
  fix x
  show "dec_failure_data (Some (enc_failure_data x)) = Inr x"
    by (cases x) (simp add: enc_failure_data_def dec_failure_data_def codec_simps)
  show "\<exists>kvs. enc_failure_data x = JObj kvs"
    by (simp add: enc_failure_data_def)
qed

record model_usage_data =
  mu_model :: string
  mu_purpose :: string
  mu_prompt_tokens :: int
  mu_uncached_prompt_tokens :: int
  mu_cached_prompt_tokens :: int
  mu_cache_write_tokens :: int
  mu_cache_miss_tokens :: int
  mu_cache_usage_reported :: bool
  mu_completion_tokens :: int
  mu_reasoning_tokens :: int
  mu_total_tokens :: int

definition enc_model_usage_data :: "model_usage_data \<Rightarrow> json" where
  "enc_model_usage_data d = JObj
     ([(''model'', JStr (mu_model d)), (''purpose'', JStr (mu_purpose d)), (''prompt_tokens'', num (mu_prompt_tokens d))]
      @ omit_int ''uncached_prompt_tokens'' (mu_uncached_prompt_tokens d)
      @ omit_int ''cached_prompt_tokens'' (mu_cached_prompt_tokens d)
      @ omit_int ''cache_write_tokens'' (mu_cache_write_tokens d)
      @ omit_int ''cache_miss_tokens'' (mu_cache_miss_tokens d)
      @ omit_bool ''cache_usage_reported'' (mu_cache_usage_reported d)
      @ [(''completion_tokens'', num (mu_completion_tokens d)), (''reasoning_tokens'', num (mu_reasoning_tokens d)), (''total_tokens'', num (mu_total_tokens d))])"

definition dec_model_usage_data :: "json option \<Rightarrow> model_usage_data decoded" where
  "dec_model_usage_data j =
     res_bind (as_obj j) (\<lambda>o'.
     res_bind (as_str (field o' ''model'')) (\<lambda>x_model.
     res_bind (as_str (field o' ''purpose'')) (\<lambda>x_purpose.
     res_bind (as_int (field o' ''prompt_tokens'')) (\<lambda>x_prompt_tokens.
     res_bind (as_int (field o' ''uncached_prompt_tokens'')) (\<lambda>x_uncached_prompt_tokens.
     res_bind (as_int (field o' ''cached_prompt_tokens'')) (\<lambda>x_cached_prompt_tokens.
     res_bind (as_int (field o' ''cache_write_tokens'')) (\<lambda>x_cache_write_tokens.
     res_bind (as_int (field o' ''cache_miss_tokens'')) (\<lambda>x_cache_miss_tokens.
     res_bind (as_bool (field o' ''cache_usage_reported'')) (\<lambda>x_cache_usage_reported.
     res_bind (as_int (field o' ''completion_tokens'')) (\<lambda>x_completion_tokens.
     res_bind (as_int (field o' ''reasoning_tokens'')) (\<lambda>x_reasoning_tokens.
     res_bind (as_int (field o' ''total_tokens'')) (\<lambda>x_total_tokens.
     Inr \<lparr>mu_model = x_model, mu_purpose = x_purpose, mu_prompt_tokens = x_prompt_tokens,
       mu_uncached_prompt_tokens = x_uncached_prompt_tokens, mu_cached_prompt_tokens =
       x_cached_prompt_tokens, mu_cache_write_tokens = x_cache_write_tokens,
       mu_cache_miss_tokens = x_cache_miss_tokens, mu_cache_usage_reported =
       x_cache_usage_reported, mu_completion_tokens = x_completion_tokens, mu_reasoning_tokens
       = x_reasoning_tokens, mu_total_tokens = x_total_tokens\<rparr>))))))))))))"

interpretation model_usage_codec: codec enc_model_usage_data dec_model_usage_data
proof
  fix x
  show "dec_model_usage_data (Some (enc_model_usage_data x)) = Inr x"
    by (cases x) (simp add: enc_model_usage_data_def dec_model_usage_data_def codec_simps)
  show "\<exists>kvs. enc_model_usage_data x = JObj kvs"
    by (simp add: enc_model_usage_data_def)
qed

record model_call_started_data =
  mc_model :: string
  mc_purpose :: string

definition enc_model_call_started_data :: "model_call_started_data \<Rightarrow> json" where
  "enc_model_call_started_data d = JObj
     ([(''model'', JStr (mc_model d)), (''purpose'', JStr (mc_purpose d))])"

definition dec_model_call_started_data :: "json option \<Rightarrow> model_call_started_data decoded" where
  "dec_model_call_started_data j =
     res_bind (as_obj j) (\<lambda>o'.
     res_bind (as_str (field o' ''model'')) (\<lambda>x_model.
     res_bind (as_str (field o' ''purpose'')) (\<lambda>x_purpose.
     Inr \<lparr>mc_model = x_model, mc_purpose = x_purpose\<rparr>)))"

interpretation model_call_started_codec: codec enc_model_call_started_data dec_model_call_started_data
proof
  fix x
  show "dec_model_call_started_data (Some (enc_model_call_started_data x)) = Inr x"
    by (cases x) (simp add: enc_model_call_started_data_def dec_model_call_started_data_def codec_simps)
  show "\<exists>kvs. enc_model_call_started_data x = JObj kvs"
    by (simp add: enc_model_call_started_data_def)
qed

record model_cache_epoch_started_data =
  me_agent_id :: string
  me_epoch :: int
  me_reason :: string
  me_header_digest :: string
  me_tool_names :: "string list"
  me_deferred_tool_names :: "string list"

definition enc_model_cache_epoch_started_data :: "model_cache_epoch_started_data \<Rightarrow> json" where
  "enc_model_cache_epoch_started_data d = JObj
     ([(''agent_id'', JStr (me_agent_id d)), (''epoch'', num (me_epoch d)), (''reason'', JStr (me_reason d)), (''header_digest'', JStr (me_header_digest d))]
      @ omit_list ''tool_names'' JStr (me_tool_names d)
      @ omit_list ''deferred_tool_names'' JStr (me_deferred_tool_names d))"

definition dec_model_cache_epoch_started_data :: "json option \<Rightarrow> model_cache_epoch_started_data decoded" where
  "dec_model_cache_epoch_started_data j =
     res_bind (as_obj j) (\<lambda>o'.
     res_bind (as_str (field o' ''agent_id'')) (\<lambda>x_agent_id.
     res_bind (as_int (field o' ''epoch'')) (\<lambda>x_epoch.
     res_bind (as_str (field o' ''reason'')) (\<lambda>x_reason.
     res_bind (as_str (field o' ''header_digest'')) (\<lambda>x_header_digest.
     res_bind (as_list as_str (field o' ''tool_names'')) (\<lambda>x_tool_names.
     res_bind (as_list as_str (field o' ''deferred_tool_names'')) (\<lambda>x_deferred_tool_names.
     Inr \<lparr>me_agent_id = x_agent_id, me_epoch = x_epoch, me_reason = x_reason, me_header_digest =
       x_header_digest, me_tool_names = x_tool_names, me_deferred_tool_names =
       x_deferred_tool_names\<rparr>)))))))"

interpretation model_cache_epoch_started_codec: codec enc_model_cache_epoch_started_data dec_model_cache_epoch_started_data
proof
  fix x
  show "dec_model_cache_epoch_started_data (Some (enc_model_cache_epoch_started_data x)) = Inr x"
    by (cases x) (simp add: enc_model_cache_epoch_started_data_def dec_model_cache_epoch_started_data_def codec_simps)
  show "\<exists>kvs. enc_model_cache_epoch_started_data x = JObj kvs"
    by (simp add: enc_model_cache_epoch_started_data_def)
qed

record context_view_committed_data =
  cv_scope_kind :: string
  cv_scope_id :: string
  cv_epoch :: int
  cv_source_through_sequence :: int
  cv_view_digest :: string
  cv_estimated_tokens :: int
  cv_compacted :: bool

definition enc_context_view_committed_data :: "context_view_committed_data \<Rightarrow> json" where
  "enc_context_view_committed_data d = JObj
     ([(''scope_kind'', JStr (cv_scope_kind d)), (''scope_id'', JStr (cv_scope_id d)), (''epoch'', num (cv_epoch d)), (''source_through_sequence'', num (cv_source_through_sequence d)), (''view_digest'', JStr (cv_view_digest d)), (''estimated_tokens'', num (cv_estimated_tokens d)), (''compacted'', JBool (cv_compacted d))])"

definition dec_context_view_committed_data :: "json option \<Rightarrow> context_view_committed_data decoded" where
  "dec_context_view_committed_data j =
     res_bind (as_obj j) (\<lambda>o'.
     res_bind (as_str (field o' ''scope_kind'')) (\<lambda>x_scope_kind.
     res_bind (as_str (field o' ''scope_id'')) (\<lambda>x_scope_id.
     res_bind (as_int (field o' ''epoch'')) (\<lambda>x_epoch.
     res_bind (as_int (field o' ''source_through_sequence'')) (\<lambda>x_source_through_sequence.
     res_bind (as_str (field o' ''view_digest'')) (\<lambda>x_view_digest.
     res_bind (as_int (field o' ''estimated_tokens'')) (\<lambda>x_estimated_tokens.
     res_bind (as_bool (field o' ''compacted'')) (\<lambda>x_compacted.
     Inr \<lparr>cv_scope_kind = x_scope_kind, cv_scope_id = x_scope_id, cv_epoch = x_epoch,
       cv_source_through_sequence = x_source_through_sequence, cv_view_digest = x_view_digest,
       cv_estimated_tokens = x_estimated_tokens, cv_compacted = x_compacted\<rparr>))))))))"

interpretation context_view_committed_codec: codec enc_context_view_committed_data dec_context_view_committed_data
proof
  fix x
  show "dec_context_view_committed_data (Some (enc_context_view_committed_data x)) = Inr x"
    by (cases x) (simp add: enc_context_view_committed_data_def dec_context_view_committed_data_def codec_simps)
  show "\<exists>kvs. enc_context_view_committed_data x = JObj kvs"
    by (simp add: enc_context_view_committed_data_def)
qed

record context_agent_compacted_data =
  cc_scope :: string
  cc_trigger :: string
  cc_transcript_reference :: string
  cc_messages_before :: int
  cc_messages_after :: int
  cc_estimated_tokens :: int
  cc_prompt_capacity :: int
  cc_high_water :: int

definition enc_context_agent_compacted_data :: "context_agent_compacted_data \<Rightarrow> json" where
  "enc_context_agent_compacted_data d = JObj
     ([(''scope'', JStr (cc_scope d))] @ omit_str ''trigger'' (cc_trigger d)
      @ [(''transcript_reference'', JStr (cc_transcript_reference d)), (''messages_before'', num (cc_messages_before d)), (''messages_after'', num (cc_messages_after d))]
      @ omit_int ''estimated_tokens'' (cc_estimated_tokens d)
      @ omit_int ''prompt_capacity'' (cc_prompt_capacity d)
      @ omit_int ''high_water'' (cc_high_water d))"

definition dec_context_agent_compacted_data :: "json option \<Rightarrow> context_agent_compacted_data decoded" where
  "dec_context_agent_compacted_data j =
     res_bind (as_obj j) (\<lambda>o'.
     res_bind (as_str (field o' ''scope'')) (\<lambda>x_scope.
     res_bind (as_str (field o' ''trigger'')) (\<lambda>x_trigger.
     res_bind (as_str (field o' ''transcript_reference'')) (\<lambda>x_transcript_reference.
     res_bind (as_int (field o' ''messages_before'')) (\<lambda>x_messages_before.
     res_bind (as_int (field o' ''messages_after'')) (\<lambda>x_messages_after.
     res_bind (as_int (field o' ''estimated_tokens'')) (\<lambda>x_estimated_tokens.
     res_bind (as_int (field o' ''prompt_capacity'')) (\<lambda>x_prompt_capacity.
     res_bind (as_int (field o' ''high_water'')) (\<lambda>x_high_water.
     Inr \<lparr>cc_scope = x_scope, cc_trigger = x_trigger, cc_transcript_reference =
       x_transcript_reference, cc_messages_before = x_messages_before, cc_messages_after =
       x_messages_after, cc_estimated_tokens = x_estimated_tokens, cc_prompt_capacity =
       x_prompt_capacity, cc_high_water = x_high_water\<rparr>)))))))))"

interpretation context_agent_compacted_codec: codec enc_context_agent_compacted_data dec_context_agent_compacted_data
proof
  fix x
  show "dec_context_agent_compacted_data (Some (enc_context_agent_compacted_data x)) = Inr x"
    by (cases x) (simp add: enc_context_agent_compacted_data_def dec_context_agent_compacted_data_def codec_simps)
  show "\<exists>kvs. enc_context_agent_compacted_data x = JObj kvs"
    by (simp add: enc_context_agent_compacted_data_def)
qed

text \<open>Reading back each payload, as one bundle for the projections.\<close>

lemmas decode_payloads =
  session_created_codec.decode_payload
  user_instruction_codec.decode_payload
  profile_pinned_codec.decode_payload
  leadership_transferred_codec.decode_payload
  agent_turn_codec.decode_payload
  peer_turn_spec_codec.decode_payload
  delegation_spec_codec.decode_payload
  agent_decision_codec.decode_payload
  peer_turn_started_codec.decode_payload
  peer_text_delta_codec.decode_payload
  peer_turn_completed_codec.decode_payload
  peer_turn_failed_codec.decode_payload
  peer_turn_cancelled_codec.decode_payload
  delegation_started_codec.decode_payload
  text_delta_codec.decode_payload
  tool_call_codec.decode_payload
  tool_completed_codec.decode_payload
  delegation_completed_codec.decode_payload
  delegation_failed_codec.decode_payload
  delegation_cancelled_codec.decode_payload
  final_completed_codec.decode_payload
  failure_codec.decode_payload
  model_usage_codec.decode_payload
  model_call_started_codec.decode_payload
  model_cache_epoch_started_codec.decode_payload
  context_view_committed_codec.decode_payload
  context_agent_compacted_codec.decode_payload

lemmas decode_materialized =
  session_created_codec.decode_materialize
  user_instruction_codec.decode_materialize
  profile_pinned_codec.decode_materialize
  leadership_transferred_codec.decode_materialize
  agent_turn_codec.decode_materialize
  peer_turn_spec_codec.decode_materialize
  delegation_spec_codec.decode_materialize
  agent_decision_codec.decode_materialize
  peer_turn_started_codec.decode_materialize
  peer_text_delta_codec.decode_materialize
  peer_turn_completed_codec.decode_materialize
  peer_turn_failed_codec.decode_materialize
  peer_turn_cancelled_codec.decode_materialize
  delegation_started_codec.decode_materialize
  text_delta_codec.decode_materialize
  tool_call_codec.decode_materialize
  tool_completed_codec.decode_materialize
  delegation_completed_codec.decode_materialize
  delegation_failed_codec.decode_materialize
  delegation_cancelled_codec.decode_materialize
  final_completed_codec.decode_materialize
  failure_codec.decode_materialize
  model_usage_codec.decode_materialize
  model_call_started_codec.decode_materialize
  model_cache_epoch_started_codec.decode_materialize
  context_view_committed_codec.decode_materialize
  context_agent_compacted_codec.decode_materialize

end
