(* ===== verification/Replay.thy ===== *)
theory Replay
  imports Events
begin

text \<open>
  The contract the program's event consumers share. The orchestrator's \<open>Projection\<close> and
  the native GUI's \<open>Projection\<close> both fold the durable log into a state, skip an event
  whose sequence they have passed, and otherwise record its sequence. What follows for
  redelivered and replayed events is proved once here; the two consumers interpret it.
\<close>

text \<open>The events that still have something to say to a reader that is at sequence \<open>n\<close>.\<close>

fun fresh :: "int \<Rightarrow> event list \<Rightarrow> event list" where
  "fresh n [] = []"
| "fresh n (e # es) = (if ev_sequence e \<le> n then fresh n es else e # fresh (ev_sequence e) es)"

definition numbered_from :: "int \<Rightarrow> event list \<Rightarrow> bool" where
  "numbered_from n es \<longleftrightarrow> (\<forall>k < length es. ev_sequence (es ! k) = n + 1 + int k)"

lemma numbered_from_Nil [simp]: "numbered_from n []"
  by (simp add: numbered_from_def)

lemma numbered_from_Cons [simp]:
  "numbered_from n (e # es) \<longleftrightarrow> ev_sequence e = n + 1 \<and> numbered_from (n + 1) es"
proof
  assume h: "numbered_from n (e # es)"
  then have at: "k < Suc (length es) \<Longrightarrow> ev_sequence ((e # es) ! k) = n + 1 + int k" for k
    by (simp add: numbered_from_def)
  have "ev_sequence (es ! k) = n + 1 + 1 + int k" if "k < length es" for k
    using at [of "Suc k"] that by simp
  with at [of 0] show "ev_sequence e = n + 1 \<and> numbered_from (n + 1) es"
    by (simp add: numbered_from_def)
next
  assume h: "ev_sequence e = n + 1 \<and> numbered_from (n + 1) es"
  show "numbered_from n (e # es)"
    unfolding numbered_from_def
  proof (intro allI impI)
    fix k assume "k < length (e # es)"
    with h show "ev_sequence ((e # es) ! k) = n + 1 + int k"
      by (cases k) (auto simp: numbered_from_def)
  qed
qed

lemma numbered_from_append:
  "numbered_from n (es @ fs) \<longleftrightarrow> numbered_from n es \<and> numbered_from (n + int (length es)) fs"
  by (induction es arbitrary: n) (auto simp: add.assoc)

lemma numbered_from_bounds: "numbered_from n es \<Longrightarrow> e \<in> set es \<Longrightarrow> n < ev_sequence e \<and> ev_sequence e \<le> n + int (length es)"
  by (induction es arbitrary: n) fastforce+

lemma fresh_numbered: "numbered_from n es \<Longrightarrow> fresh n es = es"
  by (induction es arbitrary: n) auto

lemma fresh_stale: "(\<And>e. e \<in> set es \<Longrightarrow> ev_sequence e \<le> n) \<Longrightarrow> fresh n es = []"
  by (induction es) auto

lemma fresh_append: "fresh n (es @ fs) = fresh n es @ fresh (foldl max n (map ev_sequence es)) fs"
  by (induction es arbitrary: n) (auto simp: max_def)

lemma foldl_max_numbered:
  "numbered_from n es \<Longrightarrow> foldl max n (map ev_sequence es) = n + int (length es)"
  by (induction es arbitrary: n) auto

text \<open>
  Catching up from an overlapping read: a reader at \<open>n\<close> that is handed the log from
  somewhere at or before \<open>n\<close> gets exactly the part it has not seen.
\<close>

lemma fresh_overlap:
  assumes "numbered_from m (es @ fs)" and "n = m + int (length es)"
  shows "fresh n (es @ fs) = fs"
proof -
  have log: "numbered_from m es" "numbered_from n fs"
    using assms by (auto simp: numbered_from_append)
  have "fresh n es = []"
    using numbered_from_bounds [OF log(1)] assms(2) by (intro fresh_stale) auto
  moreover have "foldl max n (map ev_sequence es) = n"
  proof -
    have "\<forall>e \<in> set es. ev_sequence e \<le> n"
      using numbered_from_bounds [OF log(1)] assms(2) by auto
    then show ?thesis by (induction es) auto
  qed
  ultimately show ?thesis
    using fresh_numbered [OF log(2)] by (simp add: fresh_append)
qed

locale event_reader =
  fixes step :: "'s \<Rightarrow> event \<Rightarrow> ('e, 's) res"
    and position :: "'s \<Rightarrow> int"
    and owns :: "'s \<Rightarrow> event \<Rightarrow> bool"
  assumes stale: "owns s e \<Longrightarrow> ev_sequence e \<le> position s \<Longrightarrow> step s e = Inr s"
    and advance: "owns s e \<Longrightarrow> step s e = Inr t \<Longrightarrow> position t = max (position s) (ev_sequence e)"
    and keeps: "step s e = Inr t \<Longrightarrow> owns t = owns s"
begin

lemma fold_position:
  "res_fold step s es = Inr t \<Longrightarrow> (\<And>e. e \<in> set es \<Longrightarrow> owns s e) \<Longrightarrow>
   position t = foldl max (position s) (map ev_sequence es)"
proof (induction es arbitrary: s)
  case Nil
  then show ?case by simp
next
  case (Cons e es)
  then obtain u where u: "step s e = Inr u" and rest: "res_fold step u es = Inr t"
    by (auto simp: res_bind_Inr_iff)
  have "owns u = owns s" by (rule keeps [OF u])
  then have "position t = foldl max (position u) (map ev_sequence es)"
    using Cons.IH [OF rest] Cons.prems(2) by auto
  then show ?case using advance [OF _ u] Cons.prems(2) by simp
qed

lemma fold_fresh:
  "(\<And>e. e \<in> set es \<Longrightarrow> owns s e) \<Longrightarrow> res_fold step s es = res_fold step s (fresh (position s) es)"
proof (induction es arbitrary: s)
  case Nil
  then show ?case by simp
next
  case (Cons e es)
  show ?case
  proof (cases "ev_sequence e \<le> position s")
    case True
    then show ?thesis using Cons by (simp add: stale)
  next
    case False
    show ?thesis
    proof (cases "step s e")
      case (Inl x)
      with False show ?thesis by simp
    next
      case (Inr u)
      have "owns u = owns s" by (rule keeps [OF Inr])
      then have "res_fold step u es = res_fold step u (fresh (position u) es)"
        using Cons by simp
      moreover have "position u = ev_sequence e"
        using advance [OF _ Inr] Cons.prems False by simp
      ultimately show ?thesis using False Inr by simp
    qed
  qed
qed

text \<open>Delivering again anything at or below the position changes nothing.\<close>

lemma redelivery:
  assumes "\<And>e. e \<in> set es \<Longrightarrow> owns s e" and "\<And>e. e \<in> set es \<Longrightarrow> ev_sequence e \<le> position s"
  shows "res_fold step s es = Inr s"
  using fold_fresh [OF assms(1)] fresh_stale [OF assms(2)] by simp

text \<open>
  A reader that has followed a prefix of the log and then gets an overlapping read ends
  where a reader of the whole log ends.
\<close>

lemma resume:
  assumes log: "numbered_from (position s) (es @ fs)" and own: "\<And>e. e \<in> set (es @ fs) \<Longrightarrow> owns s e"
    and at: "res_fold step s es = Inr t"
  shows "res_fold step t (es @ fs) = res_fold step s (es @ fs)"
proof -
  have "position t = position s + int (length es)"
    using fold_position [OF at] own log by (simp add: foldl_max_numbered numbered_from_append)
  moreover have "owns t = owns s"
    by (rule res_fold_invariant [OF at, where P = "\<lambda>u. owns u = owns s"]) (use keeps in auto)
  ultimately have "res_fold step t (es @ fs) = res_fold step t fs"
    using fold_fresh [of "es @ fs" t] own fresh_overlap [OF log] by simp
  also have "\<dots> = res_fold step s (es @ fs)"
    using at by (simp add: res_fold_append)
  finally show ?thesis .
qed

end

end
