(* ===== verification/Reference.thy ===== *)
theory Reference
  imports Events
begin

text \<open>
  Context references (internal/store/context.go): the \<open>alt://context/records/\<close> address of
  an event's archive record, with the percent-encoding of \<open>net/url\<close> it goes through, and
  the parser that reads one back. \<open>uuid.Parse\<close> (github.com/google/uuid) is the argument
  \<open>uuid_ok\<close>.
\<close>

section \<open>Percent-encoding of a path segment\<close>

abbreviation (input) ranges :: "char \<times> char \<Rightarrow> char \<Rightarrow> bool" where
  "ranges r c \<equiv> fst r \<le> c \<and> c \<le> snd r"

definition path_safe :: "char \<Rightarrow> bool" where
  "path_safe c \<longleftrightarrow>
     ranges (CHR ''0'', CHR ''9'') c \<or> ranges (CHR ''A'', CHR ''Z'') c \<or> ranges (CHR ''a'', CHR ''z'') c \<or>
     c \<in> set ''-_.~$&+=:@''"

definition hex_digit :: "nat \<Rightarrow> char" where
  "hex_digit n = (if n < 10 then char_of (48 + n) else char_of (55 + n))"

definition is_hex :: "char \<Rightarrow> bool" where
  "is_hex c \<longleftrightarrow>
     ranges (CHR ''0'', CHR ''9'') c \<or> ranges (CHR ''A'', CHR ''F'') c \<or> ranges (CHR ''a'', CHR ''f'') c"

definition unhex :: "char \<Rightarrow> nat" where
  "unhex c =
     (if CHR ''0'' \<le> c \<and> c \<le> CHR ''9'' then of_char c - 48
      else if CHR ''A'' \<le> c \<and> c \<le> CHR ''F'' then of_char c - 55 else of_char c - 87)"

definition path_escape :: "string \<Rightarrow> string" where
  "path_escape s = concat (map (\<lambda>c. if path_safe c then [c]
     else [CHR ''%'', hex_digit (of_char c div 16), hex_digit (of_char c mod 16)]) s)"

fun path_unescape :: "string \<Rightarrow> string option" where
  "path_unescape [] = Some []"
| "path_unescape (c # s) =
     (if c = CHR ''%''
      then (case s of
              a # b # rest \<Rightarrow>
                if is_hex a \<and> is_hex b
                then map_option (\<lambda>r. char_of (16 * unhex a + unhex b) # r) (path_unescape rest)
                else None
            | _ \<Rightarrow> None)
      else map_option (\<lambda>r. c # r) (path_unescape s))"

lemma hex_digit_read:
  assumes "n < 16"
  shows "is_hex (hex_digit n)" "unhex (hex_digit n) = n" "plain_byte (hex_digit n)"
proof -
  have "n \<in> set [0..<16]" using assms by simp
  then have "is_hex (hex_digit n) \<and> unhex (hex_digit n) = n \<and> plain_byte (hex_digit n)"
    by (simp add: upt_rec)
      (elim disjE; simp add: hex_digit_def is_hex_def unhex_def plain_byte_def less_eq_char_def less_char_def)
  then show "is_hex (hex_digit n)" "unhex (hex_digit n) = n" "plain_byte (hex_digit n)" by auto
qed

lemma path_unescape_escape: "path_unescape (path_escape s) = Some s"
proof (induction s)
  case Nil
  then show ?case by (simp add: path_escape_def)
next
  case (Cons c s)
  have split: "path_escape (c # s) = (if path_safe c then [c]
      else [CHR ''%'', hex_digit (of_char c div 16), hex_digit (of_char c mod 16)]) @ path_escape s"
    by (simp add: path_escape_def)
  show ?case
  proof (cases "path_safe c")
    case True
    moreover have "\<not> path_safe CHR ''%''" by (simp add: path_safe_def less_eq_char_def)
    ultimately have "c \<noteq> CHR ''%''" by auto
    with True Cons.IH show ?thesis by (simp add: split)
  next
    case False
    have low: "of_char c mod 16 < (16::nat)" by simp
    have "of_char c < (256::nat)" using nat_of_char_less_256 by simp
    then have high: "of_char c div 16 < (16::nat)" by (simp add: less_mult_imp_div_less)
    have "char_of (16 * (of_char c div 16) + of_char c mod 16 :: nat) = c"
      by simp
    with False Cons.IH show ?thesis
      by (simp add: split hex_digit_read [OF low] hex_digit_read [OF high])
  qed
qed

lemma path_safe_plain: "path_safe c \<Longrightarrow> plain_byte c"
  by (auto simp: path_safe_def plain_byte_def less_eq_char_def less_char_def)

lemma path_escape_plain: "c \<in> set (path_escape s) \<Longrightarrow> plain_byte c"
proof -
  assume "c \<in> set (path_escape s)"
  then obtain d where d: "c \<in> set (if path_safe d then [d]
      else [CHR ''%'', hex_digit (of_char d div 16), hex_digit (of_char d mod 16)])"
    unfolding path_escape_def set_concat set_map by blast
  have "of_char d < (256::nat)" using nat_of_char_less_256 by simp
  then have "of_char d div 16 < (16::nat)" "of_char d mod 16 < (16::nat)"
    by (simp_all add: less_mult_imp_div_less)
  then show "plain_byte c"
    using d hex_digit_read(3) path_safe_plain
    by (auto split: if_splits simp: plain_byte_def [of "CHR ''%''"] less_char_def)
qed

section \<open>References\<close>

definition contextReferencePrefix :: string where
  "contextReferencePrefix = ''alt://context/records/''"

definition context_reference :: "string \<Rightarrow> string" where
  "context_reference i = contextReferencePrefix @ path_escape i"

definition ContextReferenceForEvent :: "event \<Rightarrow> string" where
  "ContextReferenceForEvent item = context_reference (ev_id item)"

definition ParseContextReference :: "(string \<Rightarrow> bool) \<Rightarrow> string \<Rightarrow> string option" where
  "ParseContextReference uuid_ok raw =
     (let r = trim raw in
      if \<not> has_prefix r contextReferencePrefix then None
      else (case path_unescape (drop (length contextReferencePrefix) r) of
              None \<Rightarrow> None
            | Some i \<Rightarrow> if CHR ''/'' \<in> set i \<or> \<not> uuid_ok i then None else Some i))"

lemma context_reference_inj [simp]: "context_reference i = context_reference j \<longleftrightarrow> i = j"
proof
  assume "context_reference i = context_reference j"
  then have "path_escape i = path_escape j" by (simp add: context_reference_def)
  then show "i = j" by (metis option.inject path_unescape_escape)
qed simp

lemma context_reference_nonempty [simp]: "context_reference i \<noteq> []"
  by (simp add: context_reference_def contextReferencePrefix_def)

lemma trim_context_reference [simp]: "trim (context_reference i) = context_reference i"
proof (rule trim_plain, rule disjI2, rule conjI)
  show "plain_byte (hd (context_reference i))"
    by (simp add: context_reference_def contextReferencePrefix_def plain_byte_def less_char_def)
  show "plain_byte (last (context_reference i))"
  proof (cases "path_escape i = []")
    case True
    then show ?thesis
      by (simp add: context_reference_def contextReferencePrefix_def plain_byte_def less_char_def)
  next
    case False
    then show ?thesis using path_escape_plain [of "last (path_escape i)" i] by (simp add: context_reference_def)
  qed
qed

lemma ParseContextReference_Some:
  "ParseContextReference uuid_ok raw = Some i \<Longrightarrow> uuid_ok i \<and> CHR ''/'' \<notin> set i"
  by (auto simp: ParseContextReference_def Let_def split: if_splits option.splits)

text \<open>
  A reference that the archive hands out for a record opens that record: for a record
  identity the UUID parser accepts and that holds no slash, parsing the reference, with
  any white space the model put around it trimmed, gives the identity back.
\<close>

theorem ParseContextReference_roundtrip:
  assumes "uuid_ok i" and "CHR ''/'' \<notin> set i" and "trim raw = context_reference i"
  shows "ParseContextReference uuid_ok raw = Some i"
  using assms by (simp add: ParseContextReference_def context_reference_def path_unescape_escape)

theorem ParseContextReference_roundtrip_witness:
  "ParseContextReference (\<lambda>i. length i = 3) (context_reference ''a b'') = Some ''a b''"
  by (rule ParseContextReference_roundtrip) simp_all

end
