(* ===== verification/Projection.thy ===== *)
theory Projection
  imports Replay Reference "HOL-Library.Product_Lexorder"
begin

text \<open>
  The orchestrator's view of a session (internal/orchestrator/state.go): the state folded
  from the event log, \<open>Apply\<close> with all its cases, \<open>Replay\<close>, and the queries the runtime
  schedules by. \<open>Delegations\<close> and \<open>PeerTurns\<close> are Go maps from identity to a record the
  code changes through the stored pointer (\<open>AList.map_entry\<close>).
\<close>

section \<open>State\<close>

datatype work_status = WorkPending | WorkRunning | WorkCompleted | WorkFailed | WorkCancelled

record delegation =
  dg_spec :: delegation_spec
  dg_spec_ref :: string
  dg_spec_seq :: int
  dg_status :: work_status
  dg_attempt :: int
  dg_interrupted :: bool
  dg_result :: string
  dg_result_ref :: string
  dg_result_seq :: int
  dg_findings :: "string list"
  dg_risks :: "string list"
  dg_confidence :: float64
  dg_error :: string

record peer_turn =
  pu_spec :: peer_turn_spec
  pu_spec_ref :: string
  pu_spec_seq :: int
  pu_status :: work_status
  pu_attempt :: int
  pu_interrupted :: bool
  pu_result :: string
  pu_result_ref :: string
  pu_result_seq :: int
  pu_findings :: "string list"
  pu_risks :: "string list"
  pu_confidence :: float64
  pu_error :: string

record conversation_trace =
  tr_reference :: string
  tr_sequence :: int
  tr_kind :: kind
  tr_actor :: string
  tr_correlation :: string
  tr_data :: json

record conversation_turn =
  ct_session :: string
  ct_task :: string
  ct_task_ref :: string
  ct_answer :: string
  ct_answer_ref :: string
  ct_status :: string
  ct_leader :: string
  ct_trace :: "conversation_trace list"

record projection =
  pj_session :: string
  pj_task :: string
  pj_task_input :: input
  pj_task_ref :: string
  pj_history :: "conversation_turn list"
  pj_instructions :: "string list"
  pj_instruction_inputs :: "input list"
  pj_instruction_refs :: "string list"
  pj_instructions_archived :: int
  pj_trace :: "conversation_trace list"
  pj_trace_archived :: int
  pj_leader :: string
  pj_agent_turns :: int
  pj_delegations :: "(string, delegation) gomap"
  pj_peer_turns :: "(string, peer_turn) gomap"
  pj_final :: string
  pj_terminal :: bool
  pj_failed :: bool
  pj_cancelled :: bool
  pj_model_calls :: int
  pj_total_tokens :: int
  pj_last :: int

definition new_projection :: "string \<Rightarrow> projection" where
  "new_projection session_id =
     \<lparr>pj_session = session_id, pj_task = [], pj_task_input = \<lparr>in_parts = []\<rparr>, pj_task_ref = [],
      pj_history = [], pj_instructions = [], pj_instruction_inputs = [], pj_instruction_refs = [],
      pj_instructions_archived = 0, pj_trace = [], pj_trace_archived = 0, pj_leader = [],
      pj_agent_turns = 0, pj_delegations = [], pj_peer_turns = [], pj_final = [],
      pj_terminal = False, pj_failed = False, pj_cancelled = False, pj_model_calls = 0,
      pj_total_tokens = 0, pj_last = 0\<rparr>"

datatype projection_error = WrongSession string string | BadPayload decode_error

section \<open>Apply\<close>

text \<open>An instruction or task without content parts is its text.\<close>

definition input_or_text :: "input \<Rightarrow> string \<Rightarrow> input" where
  "input_or_text i t = (if input_empty i \<and> t \<noteq> [] then content_text t else i)"

definition new_delegation :: "delegation_spec \<Rightarrow> event \<Rightarrow> delegation" where
  "new_delegation spec item =
     \<lparr>dg_spec = spec, dg_spec_ref = ContextReferenceForEvent item, dg_spec_seq = ev_sequence item,
      dg_status = WorkPending, dg_attempt = 0, dg_interrupted = False, dg_result = [],
      dg_result_ref = [], dg_result_seq = 0, dg_findings = [], dg_risks = [], dg_confidence = 0,
      dg_error = []\<rparr>"

definition new_peer_turn :: "peer_turn_spec \<Rightarrow> event \<Rightarrow> peer_turn" where
  "new_peer_turn spec item =
     \<lparr>pu_spec = spec, pu_spec_ref = ContextReferenceForEvent item, pu_spec_seq = ev_sequence item,
      pu_status = WorkPending, pu_attempt = 0, pu_interrupted = False, pu_result = [],
      pu_result_ref = [], pu_result_seq = 0, pu_findings = [], pu_risks = [], pu_confidence = 0,
      pu_error = []\<rparr>"

definition start_delegation :: "int \<Rightarrow> delegation \<Rightarrow> delegation" where
  "start_delegation attempt d =
     d\<lparr>dg_status := WorkRunning, dg_attempt := attempt, dg_interrupted := False, dg_error := []\<rparr>"

definition complete_delegation :: "event \<Rightarrow> delegation_completed_data \<Rightarrow> delegation \<Rightarrow> delegation" where
  "complete_delegation item data d =
     d\<lparr>dg_status := WorkCompleted, dg_attempt := dc_attempt data, dg_result := dc_result data,
       dg_result_ref := ContextReferenceForEvent item, dg_result_seq := ev_sequence item,
       dg_findings := dc_findings data, dg_risks := dc_risks data,
       dg_confidence := dc_confidence data, dg_interrupted := False, dg_error := []\<rparr>"

definition fail_delegation :: "event \<Rightarrow> delegation_failed_data \<Rightarrow> delegation \<Rightarrow> delegation" where
  "fail_delegation item data d =
     d\<lparr>dg_status := WorkFailed, dg_attempt := df_attempt data, dg_error := df_error data,
       dg_interrupted := (ev_actor item = ''recovery'')\<rparr>"

definition cancel_delegation :: "delegation \<Rightarrow> delegation" where
  "cancel_delegation d = d\<lparr>dg_status := WorkCancelled, dg_interrupted := False\<rparr>"

definition start_peer_turn :: "int \<Rightarrow> peer_turn \<Rightarrow> peer_turn" where
  "start_peer_turn attempt u =
     u\<lparr>pu_status := WorkRunning, pu_attempt := attempt, pu_interrupted := False, pu_error := []\<rparr>"

definition complete_peer_turn :: "event \<Rightarrow> peer_turn_completed_data \<Rightarrow> peer_turn \<Rightarrow> peer_turn" where
  "complete_peer_turn item data u =
     u\<lparr>pu_status := WorkCompleted, pu_attempt := pc_attempt data, pu_result := pc_result data,
       pu_result_ref := ContextReferenceForEvent item, pu_result_seq := ev_sequence item,
       pu_findings := pc_findings data, pu_risks := pc_risks data,
       pu_confidence := pc_confidence data, pu_interrupted := False, pu_error := []\<rparr>"

definition fail_peer_turn :: "event \<Rightarrow> peer_turn_failed_data \<Rightarrow> peer_turn \<Rightarrow> peer_turn" where
  "fail_peer_turn item data u =
     u\<lparr>pu_status := WorkFailed, pu_attempt := pf_attempt data, pu_error := pf_error data,
       pu_interrupted := (ev_actor item = ''recovery'')\<rparr>"

definition cancel_peer_turn :: "peer_turn \<Rightarrow> peer_turn" where
  "cancel_peer_turn u = u\<lparr>pu_status := WorkCancelled, pu_interrupted := False\<rparr>"

definition observe_trace :: "event \<Rightarrow> projection \<Rightarrow> projection" where
  "observe_trace item p = p\<lparr>pj_trace := pj_trace p @
     [\<lparr>tr_reference = ContextReferenceForEvent item, tr_sequence = ev_sequence item,
       tr_kind = ev_kind item, tr_actor = ev_actor item, tr_correlation = ev_correlation item,
       tr_data = ev_data item\<rparr>]\<rparr>"

text \<open>The switch over the kinds. A payload that does not decode stops the replay.\<close>

definition apply_kind :: "event \<Rightarrow> projection \<Rightarrow> projection decoded" where
  "apply_kind item p =
     (case ev_kind item of
       SessionCreated \<Rightarrow> res_bind (decode dec_session_created_data item) (\<lambda>data. Inr (p
         \<lparr>pj_task := sc_task data, pj_task_input := input_or_text (sc_input data) (sc_task data),
          pj_task_ref := ContextReferenceForEvent item\<rparr>))
     | UserInstruction \<Rightarrow> res_bind (decode dec_user_instruction_data item) (\<lambda>data. Inr (p
         \<lparr>pj_instructions := pj_instructions p @ [ui_text data],
          pj_instruction_inputs := pj_instruction_inputs p @ [input_or_text (ui_input data) (ui_text data)],
          pj_instruction_refs := pj_instruction_refs p @ [ContextReferenceForEvent item]\<rparr>))
     | LeadershipTransferred \<Rightarrow> res_bind (decode dec_leadership_transferred_data item) (\<lambda>data. Inr (p\<lparr>pj_leader := lt_to_agent_id data\<rparr>))
     | AgentTurnStarted \<Rightarrow> res_bind (decode dec_agent_turn_data item) (\<lambda>data. Inr (
         if pj_agent_turns p < at_turn data then p\<lparr>pj_agent_turns := at_turn data\<rparr> else p))
     | ToolCalled \<Rightarrow> Inr (observe_trace item p)
     | ToolCompleted \<Rightarrow> Inr (observe_trace item p)
     | DelegationCreated \<Rightarrow> res_bind (decode dec_delegation_spec item) (\<lambda>data. Inr (p
         \<lparr>pj_delegations := AList.update (ds_id data) (new_delegation data item) (pj_delegations p)\<rparr>))
     | DelegationStarted \<Rightarrow> res_bind (decode dec_delegation_started_data item) (\<lambda>data. Inr (p
         \<lparr>pj_delegations := AList.map_entry (dst_delegation_id data) (start_delegation (dst_attempt data)) (pj_delegations p)\<rparr>))
     | DelegationCompleted \<Rightarrow> res_bind (decode dec_delegation_completed_data item) (\<lambda>data. Inr (p
         \<lparr>pj_delegations := AList.map_entry (dc_delegation_id data) (complete_delegation item data) (pj_delegations p)\<rparr>))
     | DelegationFailed \<Rightarrow> res_bind (decode dec_delegation_failed_data item) (\<lambda>data. Inr (p
         \<lparr>pj_delegations := AList.map_entry (df_delegation_id data) (fail_delegation item data) (pj_delegations p)\<rparr>))
     | DelegationCancelled \<Rightarrow> res_bind (decode dec_delegation_cancelled_data item) (\<lambda>data. Inr (p
         \<lparr>pj_delegations := AList.map_entry (dx_delegation_id data) cancel_delegation (pj_delegations p)\<rparr>))
     | PeerTurnCreated \<Rightarrow> res_bind (decode dec_peer_turn_spec item) (\<lambda>data. Inr (p
         \<lparr>pj_peer_turns := AList.update (pts_id data) (new_peer_turn data item) (pj_peer_turns p)\<rparr>))
     | PeerTurnStarted \<Rightarrow> res_bind (decode dec_peer_turn_started_data item) (\<lambda>data. Inr (p
         \<lparr>pj_peer_turns := AList.map_entry (pst_peer_turn_id data) (start_peer_turn (pst_attempt data)) (pj_peer_turns p)\<rparr>))
     | PeerTurnCompleted \<Rightarrow> res_bind (decode dec_peer_turn_completed_data item) (\<lambda>data. Inr (p
         \<lparr>pj_peer_turns := AList.map_entry (pc_peer_turn_id data) (complete_peer_turn item data) (pj_peer_turns p)\<rparr>))
     | PeerTurnFailed \<Rightarrow> res_bind (decode dec_peer_turn_failed_data item) (\<lambda>data. Inr (p
         \<lparr>pj_peer_turns := AList.map_entry (pf_peer_turn_id data) (fail_peer_turn item data) (pj_peer_turns p)\<rparr>))
     | PeerTurnCancelled \<Rightarrow> res_bind (decode dec_peer_turn_cancelled_data item) (\<lambda>data. Inr (p
         \<lparr>pj_peer_turns := AList.map_entry (px_peer_turn_id data) cancel_peer_turn (pj_peer_turns p)\<rparr>))
     | ModelCallStarted \<Rightarrow> Inr (p\<lparr>pj_model_calls := pj_model_calls p + 1\<rparr>)
     | ModelUsage \<Rightarrow> res_bind (decode dec_model_usage_data item) (\<lambda>data. Inr (p\<lparr>pj_total_tokens := pj_total_tokens p + mu_total_tokens data\<rparr>))
     | FinalCompleted \<Rightarrow> res_bind (decode dec_final_completed_data item) (\<lambda>data. Inr (p\<lparr>pj_final := fc_answer data, pj_terminal := True\<rparr>))
     | SessionFailed \<Rightarrow> Inr (p\<lparr>pj_terminal := True, pj_failed := True\<rparr>)
     | SessionCancelled \<Rightarrow> Inr (p\<lparr>pj_terminal := True, pj_cancelled := True\<rparr>)
     | _ \<Rightarrow> Inr p)"

definition Apply :: "projection \<Rightarrow> event \<Rightarrow> (projection_error, projection) res" where
  "Apply p item =
     (if ev_session item \<noteq> pj_session p then Inl (WrongSession (ev_session item) (pj_session p))
      else if ev_sequence item \<le> pj_last p then Inr p
      else (case apply_kind item p of
              Inl e \<Rightarrow> Inl (BadPayload e)
            | Inr q \<Rightarrow> Inr (q\<lparr>pj_last := ev_sequence item\<rparr>)))"

definition Replay :: "string \<Rightarrow> event list \<Rightarrow> (projection_error, projection) res" where
  "Replay session_id events = res_fold Apply (new_projection session_id) events"

section \<open>Queries\<close>

text \<open>
  The code ranges over the map in Go's unspecified order and sorts with the unstable
  \<open>sort.Slice\<close>; \<open>SortedDelegations_any_order\<close> below shows neither choice is visible.
\<close>

definition SortedDelegations :: "projection \<Rightarrow> delegation list" where
  "SortedDelegations p = sort_key (\<lambda>d. ds_id (dg_spec d)) (map snd (pj_delegations p))"

definition SortedPeerTurns :: "projection \<Rightarrow> peer_turn list" where
  "SortedPeerTurns p = sort_key (\<lambda>u. pts_id (pu_spec u)) (map snd (pj_peer_turns p))"

definition active_status :: "work_status \<Rightarrow> bool" where
  "active_status s \<longleftrightarrow> s = WorkPending \<or> s = WorkRunning"

definition ActiveCount :: "projection \<Rightarrow> nat" where
  "ActiveCount p =
     length (filter (\<lambda>d. active_status (dg_status d)) (map snd (pj_delegations p)))
     + length (filter (\<lambda>u. active_status (pu_status u)) (map snd (pj_peer_turns p)))"

definition counts_as_work :: "work_status \<Rightarrow> bool \<Rightarrow> bool" where
  "counts_as_work s interrupted \<longleftrightarrow>
     (case s of WorkPending \<Rightarrow> True | WorkRunning \<Rightarrow> True | WorkFailed \<Rightarrow> interrupted | _ \<Rightarrow> False)"

definition WorkCount :: "projection \<Rightarrow> nat" where
  "WorkCount p =
     length (filter (\<lambda>d. counts_as_work (dg_status d) (dg_interrupted d)) (map snd (pj_delegations p)))
     + length (filter (\<lambda>u. counts_as_work (pu_status u) (pu_interrupted u)) (map snd (pj_peer_turns p)))"

definition CollaborationTurns :: "projection \<Rightarrow> string \<Rightarrow> peer_turn list" where
  "CollaborationTurns p collaborationID =
     sort_key (\<lambda>u. (pts_round (pu_spec u), pts_id (pu_spec u)))
       (filter (\<lambda>u. pts_collaboration_id (pu_spec u) = collaborationID) (map snd (pj_peer_turns p)))"

definition DependenciesCompleted :: "projection \<Rightarrow> delegation_spec \<Rightarrow> bool" where
  "DependenciesCompleted p spec \<longleftrightarrow>
     (\<forall>i \<in> set (ds_depends_on spec).
        case map_of (pj_delegations p) i of None \<Rightarrow> False | Some d \<Rightarrow> dg_status d = WorkCompleted)"

section \<open>What one event changes\<close>

text \<open>The changes made through a stored pointer.\<close>

definition delegation_change :: "event \<Rightarrow> (delegation \<Rightarrow> delegation) \<Rightarrow> bool" where
  "delegation_change item f \<longleftrightarrow>
     (\<exists>a. f = start_delegation a) \<or> (\<exists>x. f = complete_delegation item x) \<or>
     (\<exists>x. f = fail_delegation item x) \<or> f = cancel_delegation"

definition peer_change :: "event \<Rightarrow> (peer_turn \<Rightarrow> peer_turn) \<Rightarrow> bool" where
  "peer_change item f \<longleftrightarrow>
     (\<exists>a. f = start_peer_turn a) \<or> (\<exists>x. f = complete_peer_turn item x) \<or>
     (\<exists>x. f = fail_peer_turn item x) \<or> f = cancel_peer_turn"

lemma delegation_changes [simp]:
  "delegation_change item (start_delegation a)" "delegation_change item (complete_delegation item x)"
  "delegation_change item (fail_delegation item y)" "delegation_change item cancel_delegation"
  by (auto simp: delegation_change_def)

lemma peer_changes [simp]:
  "peer_change item (start_peer_turn a)" "peer_change item (complete_peer_turn item x)"
  "peer_change item (fail_peer_turn item y)" "peer_change item cancel_peer_turn"
  by (auto simp: peer_change_def)

lemma delegation_touched [simp]:
  "delegation_change item f \<Longrightarrow>
   \<exists>l g. delegation_change item g \<and> AList.map_entry k f m = AList.map_entry l g m"
  by blast

lemma peer_touched [simp]:
  "peer_change item f \<Longrightarrow> \<exists>l g. peer_change item g \<and> AList.map_entry k f m = AList.map_entry l g m"
  by blast

lemma apply_kind_frame:
  assumes "apply_kind item p = Inr q"
  shows "pj_session q = pj_session p" "pj_last q = pj_last p" "pj_history q = pj_history p"
  using assms unfolding apply_kind_def
  by (auto simp: res_bind_Inr_iff observe_trace_def split: kind.splits if_splits)

lemma apply_kind_delegations:
  assumes "apply_kind item p = Inr q"
  shows "pj_delegations q = pj_delegations p \<or>
    (\<exists>spec. ev_kind item = DelegationCreated \<and> decode dec_delegation_spec item = Inr spec \<and>
       pj_delegations q = AList.update (ds_id spec) (new_delegation spec item) (pj_delegations p)) \<or>
    (\<exists>k f. delegation_change item f \<and> pj_delegations q = AList.map_entry k f (pj_delegations p))"
  using assms unfolding apply_kind_def
  by (cases "ev_kind item"; simp add: observe_trace_def; auto simp: res_bind_Inr_iff split: if_splits)

lemma apply_kind_peer_turns:
  assumes "apply_kind item p = Inr q"
  shows "pj_peer_turns q = pj_peer_turns p \<or>
    (\<exists>spec. ev_kind item = PeerTurnCreated \<and> decode dec_peer_turn_spec item = Inr spec \<and>
       pj_peer_turns q = AList.update (pts_id spec) (new_peer_turn spec item) (pj_peer_turns p)) \<or>
    (\<exists>k f. peer_change item f \<and> pj_peer_turns q = AList.map_entry k f (pj_peer_turns p))"
  using assms unfolding apply_kind_def
  by (cases "ev_kind item"; simp add: observe_trace_def; auto simp: res_bind_Inr_iff split: if_splits)

lemma apply_kind_flags:
  assumes "apply_kind item p = Inr q"
  shows "pj_failed q \<longleftrightarrow> pj_failed p \<or> ev_kind item = SessionFailed"
    and "pj_cancelled q \<longleftrightarrow> pj_cancelled p \<or> ev_kind item = SessionCancelled"
    and "pj_terminal q \<longleftrightarrow> pj_terminal p \<or> ev_kind item \<in> {FinalCompleted, SessionFailed, SessionCancelled}"
  using assms unfolding apply_kind_def
  by (cases "ev_kind item"; simp add: observe_trace_def; auto simp: res_bind_Inr_iff split: if_splits)+

lemma apply_kind_instructions:
  assumes "apply_kind item p = Inr q"
    and "length (pj_instruction_inputs p) = length (pj_instructions p)"
    and "length (pj_instruction_refs p) = length (pj_instructions p)"
  shows "length (pj_instruction_inputs q) = length (pj_instructions q)"
    and "length (pj_instruction_refs q) = length (pj_instructions q)"
  using assms unfolding apply_kind_def
  by (cases "ev_kind item"; simp add: observe_trace_def; auto simp: res_bind_Inr_iff split: if_splits)+

lemma Apply_cases:
  assumes "Apply p item = Inr q"
  obtains (skip) "ev_session item = pj_session p" "ev_sequence item \<le> pj_last p" "q = p"
  | (change) r where "ev_session item = pj_session p" "pj_last p < ev_sequence item"
      "apply_kind item p = Inr r" "q = r\<lparr>pj_last := ev_sequence item\<rparr>"
  using assms by (auto simp: Apply_def split: if_splits sum.splits)

interpretation session_reader: event_reader Apply pj_last "\<lambda>p e. ev_session e = pj_session p"
proof
  fix p e q
  show "ev_session e = pj_session p \<Longrightarrow> ev_sequence e \<le> pj_last p \<Longrightarrow> Apply p e = Inr p"
    by (simp add: Apply_def)
  show "ev_session e = pj_session p \<Longrightarrow> Apply p e = Inr q \<Longrightarrow> pj_last q = max (pj_last p) (ev_sequence e)"
    by (erule Apply_cases) auto
  show "Apply p e = Inr q \<Longrightarrow> (\<lambda>e. ev_session e = pj_session q) = (\<lambda>e. ev_session e = pj_session p)"
    by (erule Apply_cases) (auto dest: apply_kind_frame)
qed

section \<open>The shape of a replayed state\<close>

definition delegation_ok :: "int \<Rightarrow> string \<Rightarrow> delegation \<Rightarrow> bool" where
  "delegation_ok n k d \<longleftrightarrow>
     ds_id (dg_spec d) = k \<and> dg_spec_ref d \<noteq> [] \<and> dg_spec_seq d \<le> n \<and>
     (dg_interrupted d \<longrightarrow> dg_status d = WorkFailed) \<and>
     (dg_status d = WorkCompleted \<longrightarrow> dg_result_ref d \<noteq> [] \<and> dg_spec_seq d < dg_result_seq d \<and> dg_error d = []) \<and>
     dg_result_seq d \<le> n"

definition peer_turn_ok :: "int \<Rightarrow> string \<Rightarrow> peer_turn \<Rightarrow> bool" where
  "peer_turn_ok n k u \<longleftrightarrow>
     pts_id (pu_spec u) = k \<and> pu_spec_ref u \<noteq> [] \<and> pu_spec_seq u \<le> n \<and>
     (pu_interrupted u \<longrightarrow> pu_status u = WorkFailed) \<and>
     (pu_status u = WorkCompleted \<longrightarrow> pu_result_ref u \<noteq> [] \<and> pu_spec_seq u < pu_result_seq u \<and> pu_error u = []) \<and>
     pu_result_seq u \<le> n"

definition projection_ok :: "projection \<Rightarrow> bool" where
  "projection_ok p \<longleftrightarrow>
     0 \<le> pj_last p \<and>
     keys_distinct (pj_delegations p) \<and> keys_distinct (pj_peer_turns p) \<and>
     (\<forall>(k, d) \<in> set (pj_delegations p). delegation_ok (pj_last p) k d) \<and>
     (\<forall>(k, u) \<in> set (pj_peer_turns p). peer_turn_ok (pj_last p) k u) \<and>
     (pj_failed p \<or> pj_cancelled p \<longrightarrow> pj_terminal p) \<and>
     length (pj_instruction_inputs p) = length (pj_instructions p) \<and>
     length (pj_instruction_refs p) = length (pj_instructions p)"


lemma set_update_alist: "(x, w) \<in> set (AList.update k v m) \<Longrightarrow> (x, w) = (k, v) \<or> (x, w) \<in> set m"
  by (induction m) (auto split: if_splits)

lemma set_map_entry_alist:
  "(x, w) \<in> set (AList.map_entry k f m) \<Longrightarrow> (x, w) \<in> set m \<or> (\<exists>v. (x, v) \<in> set m \<and> w = f v)"
  by (induction m) (auto split: if_splits)

lemma delegation_ok_later: "delegation_ok n k d \<Longrightarrow> n \<le> m \<Longrightarrow> delegation_ok m k d"
  by (auto simp: delegation_ok_def)

lemma peer_turn_ok_later: "peer_turn_ok n k u \<Longrightarrow> n \<le> m \<Longrightarrow> peer_turn_ok m k u"
  by (auto simp: peer_turn_ok_def)

lemma new_delegation_ok: "0 \<le> ev_sequence item \<Longrightarrow> delegation_ok (ev_sequence item) (ds_id spec) (new_delegation spec item)"
  by (simp add: delegation_ok_def new_delegation_def ContextReferenceForEvent_def)

lemma new_peer_turn_ok: "0 \<le> ev_sequence item \<Longrightarrow> peer_turn_ok (ev_sequence item) (pts_id spec) (new_peer_turn spec item)"
  by (simp add: peer_turn_ok_def new_peer_turn_def ContextReferenceForEvent_def)

lemma delegation_change_ok:
  "delegation_change item f \<Longrightarrow> delegation_ok n k d \<Longrightarrow> n < ev_sequence item \<Longrightarrow>
   delegation_ok (ev_sequence item) k (f d)"
  unfolding delegation_change_def
  by (elim disjE exE)
    (simp_all add: delegation_ok_def start_delegation_def complete_delegation_def fail_delegation_def
      cancel_delegation_def ContextReferenceForEvent_def)

lemma peer_change_ok:
  "peer_change item f \<Longrightarrow> peer_turn_ok n k u \<Longrightarrow> n < ev_sequence item \<Longrightarrow>
   peer_turn_ok (ev_sequence item) k (f u)"
  unfolding peer_change_def
  by (elim disjE exE)
    (simp_all add: peer_turn_ok_def start_peer_turn_def complete_peer_turn_def fail_peer_turn_def
      cancel_peer_turn_def ContextReferenceForEvent_def)

lemma projection_ok_new: "projection_ok (new_projection session_id)"
  by (simp add: projection_ok_def new_projection_def)

lemma apply_kind_delegations_ok:
  assumes "apply_kind item p = Inr q" and "n < ev_sequence item" and "0 \<le> n"
    and "keys_distinct (pj_delegations p)" and "\<forall>(k, d) \<in> set (pj_delegations p). delegation_ok n k d"
  shows "keys_distinct (pj_delegations q) \<and>
    (\<forall>(k, d) \<in> set (pj_delegations q). delegation_ok (ev_sequence item) k d)"
  using apply_kind_delegations [OF assms(1)]
proof (elim disjE exE conjE)
  assume "pj_delegations q = pj_delegations p"
  then show ?thesis using assms delegation_ok_later by fastforce
next
  fix spec
  assume "pj_delegations q = AList.update (ds_id spec) (new_delegation spec item) (pj_delegations p)"
  then show ?thesis
    using assms delegation_ok_later new_delegation_ok [of item spec]
    by (auto simp: distinct_update dest!: set_update_alist)
next
  fix k f
  assume "delegation_change item f" "pj_delegations q = AList.map_entry k f (pj_delegations p)"
  then show ?thesis
    using assms delegation_ok_later delegation_change_ok
    by (auto dest!: set_map_entry_alist)
qed

lemma apply_kind_peer_turns_ok:
  assumes "apply_kind item p = Inr q" and "n < ev_sequence item" and "0 \<le> n"
    and "keys_distinct (pj_peer_turns p)" and "\<forall>(k, u) \<in> set (pj_peer_turns p). peer_turn_ok n k u"
  shows "keys_distinct (pj_peer_turns q) \<and>
    (\<forall>(k, u) \<in> set (pj_peer_turns q). peer_turn_ok (ev_sequence item) k u)"
  using apply_kind_peer_turns [OF assms(1)]
proof (elim disjE exE conjE)
  assume "pj_peer_turns q = pj_peer_turns p"
  then show ?thesis using assms peer_turn_ok_later by fastforce
next
  fix spec
  assume "pj_peer_turns q = AList.update (pts_id spec) (new_peer_turn spec item) (pj_peer_turns p)"
  then show ?thesis
    using assms peer_turn_ok_later new_peer_turn_ok [of item spec]
    by (auto simp: distinct_update dest!: set_update_alist)
next
  fix k f
  assume "peer_change item f" "pj_peer_turns q = AList.map_entry k f (pj_peer_turns p)"
  then show ?thesis
    using assms peer_turn_ok_later peer_change_ok
    by (auto dest!: set_map_entry_alist)
qed

lemma Apply_ok:
  assumes "projection_ok p" and "Apply p item = Inr q"
  shows "projection_ok q"
  using assms(2)
proof (cases rule: Apply_cases)
  case skip
  then show ?thesis using assms(1) by simp
next
  case (change r)
  have p: "0 \<le> pj_last p" "keys_distinct (pj_delegations p)" "keys_distinct (pj_peer_turns p)"
    "\<forall>(k, d) \<in> set (pj_delegations p). delegation_ok (pj_last p) k d"
    "\<forall>(k, u) \<in> set (pj_peer_turns p). peer_turn_ok (pj_last p) k u"
    "pj_failed p \<or> pj_cancelled p \<longrightarrow> pj_terminal p"
    "length (pj_instruction_inputs p) = length (pj_instructions p)"
    "length (pj_instruction_refs p) = length (pj_instructions p)"
    using assms(1) by (simp_all add: projection_ok_def)
  show ?thesis
    unfolding change(4) projection_ok_def
    using apply_kind_delegations_ok [OF change(3,2) p(1,2,4)] apply_kind_peer_turns_ok [OF change(3,2) p(1,3,5)]
      apply_kind_instructions [OF change(3) p(7,8)] apply_kind_flags [OF change(3)] p(1,6) change(2)
    by simp
qed

lemma res_fold_Apply_ok: "res_fold Apply p es = Inr q \<Longrightarrow> projection_ok p \<Longrightarrow> projection_ok q"
  by (rule res_fold_invariant [where P = projection_ok]) (auto intro: Apply_ok)

lemma Replay_ok: "Replay session_id es = Inr p \<Longrightarrow> projection_ok p"
  unfolding Replay_def by (rule res_fold_Apply_ok [OF _ projection_ok_new])

lemma Replay_session: "Replay session_id es = Inr p \<Longrightarrow> pj_session p = session_id"
  unfolding Replay_def
  by (erule res_fold_invariant [where P = "\<lambda>q. pj_session q = session_id"])
    (auto simp: new_projection_def elim!: Apply_cases dest: apply_kind_frame)

lemma pj_delegations_key:
  assumes "projection_ok p" and "map_of (pj_delegations p) k = Some d"
  shows "delegation_ok (pj_last p) k d"
  using assms map_of_SomeD [OF assms(2)] by (auto simp: projection_ok_def)

lemma pj_peer_turns_key:
  assumes "projection_ok p" and "map_of (pj_peer_turns p) k = Some u"
  shows "peer_turn_ok (pj_last p) k u"
  using assms map_of_SomeD [OF assms(2)] by (auto simp: projection_ok_def)


section \<open>Properties\<close>

lemma SortedDelegations_set: "set (SortedDelegations p) = snd ` set (pj_delegations p)"
  by (simp add: SortedDelegations_def)

lemma SortedPeerTurns_set: "set (SortedPeerTurns p) = snd ` set (pj_peer_turns p)"
  by (simp add: SortedPeerTurns_def)

lemma delegation_ids_inj:
  "projection_ok p \<Longrightarrow> inj_on (\<lambda>d. ds_id (dg_spec d)) (snd ` set (pj_delegations p))"
proof (rule inj_onI)
  fix d e
  assume ok: "projection_ok p"
  assume "d \<in> snd ` set (pj_delegations p)" "e \<in> snd ` set (pj_delegations p)"
  then obtain k l where in_map: "(k, d) \<in> set (pj_delegations p)" "(l, e) \<in> set (pj_delegations p)" by auto
  then have "ds_id (dg_spec d) = k" "ds_id (dg_spec e) = l"
    using ok by (auto simp: projection_ok_def delegation_ok_def)
  moreover assume "ds_id (dg_spec d) = ds_id (dg_spec e)"
  ultimately have "(k, e) \<in> set (pj_delegations p)" using in_map by simp
  with in_map(1) show "d = e"
    using ok by (auto simp: projection_ok_def dest: eq_key_imp_eq_value)
qed

lemma peer_turn_ids_inj:
  "projection_ok p \<Longrightarrow> inj_on (\<lambda>u. pts_id (pu_spec u)) (snd ` set (pj_peer_turns p))"
proof (rule inj_onI)
  fix d e
  assume ok: "projection_ok p"
  assume "d \<in> snd ` set (pj_peer_turns p)" "e \<in> snd ` set (pj_peer_turns p)"
  then obtain k l where in_map: "(k, d) \<in> set (pj_peer_turns p)" "(l, e) \<in> set (pj_peer_turns p)" by auto
  then have "pts_id (pu_spec d) = k" "pts_id (pu_spec e) = l"
    using ok by (auto simp: projection_ok_def peer_turn_ok_def)
  moreover assume "pts_id (pu_spec d) = pts_id (pu_spec e)"
  ultimately have "(k, e) \<in> set (pj_peer_turns p)" using in_map by simp
  with in_map(1) show "d = e"
    using ok by (auto simp: projection_ok_def dest: eq_key_imp_eq_value)
qed

text \<open>A small session log for the witnesses.\<close>

definition sample_event :: "int \<Rightarrow> string \<Rightarrow> kind \<Rightarrow> json \<Rightarrow> event" where
  "sample_event n actor k j =
     \<lparr>ev_id = ''e'' @ itoa n, ev_session = ''s'', ev_sequence = n, ev_at = n, ev_kind = k,
      ev_actor = actor, ev_correlation = [], ev_causation = [], ev_data = j\<rparr>"

definition sample_spec :: "string \<Rightarrow> delegation_spec" where
  "sample_spec i =
     \<lparr>ds_id = i, ds_key = i, ds_specialist_id = ''reviewer'', ds_caller_id = ''lead'', ds_objective = ''check'',
      ds_context = [], ds_attachments = [], ds_depends_on = [], ds_required_tools = [], ds_depth = 0\<rparr>"

definition sample_peer_spec :: "string \<Rightarrow> int \<Rightarrow> peer_turn_spec" where
  "sample_peer_spec i n =
     \<lparr>pts_id = i, pts_key = i, pts_collaboration_id = ''c'', pts_peer_id = ''second'', pts_caller_id = ''lead'',
      pts_objective = ''discuss'', pts_context = [], pts_attachments = [], pts_required_tools = [], pts_round = n\<rparr>"

definition sample_log :: "event list" where
  "sample_log =
     [sample_event 1 ''user'' SessionCreated
        (enc_session_created_data \<lparr>sc_task = ''t'', sc_input = \<lparr>in_parts = []\<rparr>\<rparr>),
      sample_event 2 ''lead'' DelegationCreated (enc_delegation_spec (sample_spec ''b'')),
      sample_event 3 ''lead'' DelegationCreated (enc_delegation_spec (sample_spec ''a'')),
      sample_event 4 ''recovery'' DelegationFailed
        (enc_delegation_failed_data \<lparr>df_delegation_id = ''b'', df_attempt = 1, df_error = ''x''\<rparr>)]"

definition sample_projection :: projection where
  "sample_projection = (new_projection ''s'')
     \<lparr>pj_task := ''t'', pj_task_input := content_text ''t'', pj_task_ref := context_reference (''e'' @ itoa 1), pj_last := 4,
      pj_delegations :=
        [(''b'', fail_delegation (sample_event 4 ''recovery'' DelegationFailed JNull)
            \<lparr>df_delegation_id = ''b'', df_attempt = 1, df_error = ''x''\<rparr>
            (new_delegation (sample_spec ''b'') (sample_event 2 ''lead'' DelegationCreated JNull))),
         (''a'', new_delegation (sample_spec ''a'') (sample_event 3 ''lead'' DelegationCreated JNull))]\<rparr>"

lemma sample_replay: "Replay ''s'' sample_log = Inr sample_projection"
  unfolding Replay_def sample_log_def sample_projection_def
  by (simp add: Apply_def apply_kind_def sample_event_def new_projection_def decode_def
      session_created_codec.dec_enc delegation_spec_codec.dec_enc delegation_failed_codec.dec_enc
      input_or_text_def input_empty_def ContextReferenceForEvent_def new_delegation_def
      fail_delegation_def sample_spec_def itoa_def digits_of.simps)

text \<open>
  C40: whatever sequence of events a session's log holds, a replay that succeeds yields a
  well-formed projection: every delegation and peer turn is filed under the identity of its
  specification, exactly once; a completed one has a result record that is later than its
  specification and carries no error; only failed work is marked as interrupted; failed and
  cancelled sessions are terminal; and the three lists of user instructions stay parallel.
\<close>

theorem Replay_well_formed:
  assumes "Replay session_id events = Inr p"
  shows "projection_ok p"
  using assms by (rule Replay_ok)

theorem Replay_well_formed_witness: "projection_ok sample_projection"
  by (rule Replay_well_formed [OF sample_replay])

text \<open>
  reading the log again, or reading an overlapping part of it, does not disturb a
  projection: a reader that has replayed the first events of a session and is then handed
  the whole log from its first event ends exactly where a replay of the whole log ends.
\<close>

theorem Replay_resume:
  assumes "numbered_from 0 (old @ new)" and "\<forall>e \<in> set (old @ new). ev_session e = session_id"
    and "Replay session_id old = Inr p"
  shows "res_fold Apply p (old @ new) = Replay session_id (old @ new)"
  unfolding Replay_def
  by (rule session_reader.resume)
    (use assms in \<open>auto simp: Replay_def new_projection_def\<close>)

theorem Replay_resume_witness:
  "res_fold Apply sample_projection (sample_log @ []) = Replay ''s'' (sample_log @ [])"
  by (rule Replay_resume [where session_id = "''s''"])
    (simp_all add: sample_replay, simp_all add: sample_log_def sample_event_def)

text \<open>
  the order in which the scheduler and the model see delegations does not depend on
  Go's random map iteration or on the unstable \<open>sort.Slice\<close>: any arrangement of the
  projection's delegations that is sorted by identity is the list \<open>SortedDelegations\<close> gives.
\<close>

theorem SortedDelegations_any_order:
  assumes "Replay session_id events = Inr p"
    and "mset ds = mset (map snd (pj_delegations p))"
    and "sorted (map (\<lambda>d. ds_id (dg_spec d)) ds)"
  shows "SortedDelegations p = ds"
  unfolding SortedDelegations_def
proof (rule sort_key_inj_key_eq)
  show "mset (map snd (pj_delegations p)) = mset ds" by (simp only: assms(2))
  show "inj_on (\<lambda>d. ds_id (dg_spec d)) (set (map snd (pj_delegations p)))"
    using delegation_ids_inj [OF Replay_ok [OF assms(1)]] by simp
  show "sorted (map (\<lambda>d. ds_id (dg_spec d)) ds)" by (rule assms(3))
qed

theorem SortedDelegations_any_order_witness:
  "SortedDelegations sample_projection = rev (map snd (pj_delegations sample_projection))"
  by (rule SortedDelegations_any_order [OF sample_replay])
    (simp_all add: sample_projection_def fail_delegation_def new_delegation_def sample_spec_def
      less_eq_list_code less_eq_char_def)

end
