(* ===== verification/Profile.thy ===== *)
theory Profile
  imports Prelude
begin

text \<open>
  Teams (internal/profile): the published profile with its models, agents and specialists,
  the lookups that decide who may consult, call or take over from whom, the structural
  validation, and the normalisation a document goes through when it is loaded.
\<close>

section \<open>Types\<close>

definition CurrentSchema :: int where "CurrentSchema = 2"

record model =
  m_legacy_gateway :: string
  m_route :: string
  m_name :: string
  m_reasoning_effort :: string
  m_options :: "(string, string) gomap"

record agent =
  ag_id :: string
  ag_model :: string
  ag_definition :: string
  ag_peers :: "string list"
  ag_specialists :: "string list"

record specialist =
  sp_id :: string
  sp_model :: string
  sp_definition :: string

record profile =
  p_schema :: int
  p_id :: string
  p_revision :: int
  p_name :: string
  p_gateway :: string
  p_models :: "(string, model) gomap"
  p_primary :: agent
  p_peers :: "agent list"
  p_specialists :: "specialist list"
  p_persist_reasoning :: bool
  p_metadata :: "(string, string) gomap"

section \<open>Lookups\<close>

definition Agents :: "profile \<Rightarrow> agent list" where
  "Agents p = p_primary p # p_peers p"

definition Agent :: "profile \<Rightarrow> string \<Rightarrow> agent option" where
  "Agent p i = (if ag_id (p_primary p) = i then Some (p_primary p)
                else find (\<lambda>a. ag_id a = i) (p_peers p))"

definition Specialist :: "profile \<Rightarrow> string \<Rightarrow> specialist option" where
  "Specialist p i = find (\<lambda>s. sp_id s = i) (p_specialists p)"

fun SpecialistsFor_ids :: "profile \<Rightarrow> string list \<Rightarrow> specialist list" where
  "SpecialistsFor_ids p [] = []"
| "SpecialistsFor_ids p (i # is) =
     (case Specialist p i of Some s \<Rightarrow> s # SpecialistsFor_ids p is | None \<Rightarrow> SpecialistsFor_ids p is)"

definition SpecialistsFor :: "profile \<Rightarrow> agent \<Rightarrow> specialist list" where
  "SpecialistsFor p a = SpecialistsFor_ids p (ag_specialists a)"

definition SpecialistFor :: "profile \<Rightarrow> agent \<Rightarrow> string \<Rightarrow> specialist option" where
  "SpecialistFor p a i = (if i \<in> set (ag_specialists a) then Specialist p i else None)"

definition PeerAgentsFor :: "profile \<Rightarrow> agent \<Rightarrow> agent list" where
  "PeerAgentsFor p a =
     filter (\<lambda>c. ag_id c \<noteq> ag_id a \<and> (ag_id c \<in> set (ag_peers a) \<or> ag_id a \<in> set (ag_peers c)))
       (Agents p)"

definition PeerAgentFor :: "profile \<Rightarrow> agent \<Rightarrow> string \<Rightarrow> agent option" where
  "PeerAgentFor p a i =
     (case Agent p i of
        None \<Rightarrow> None
      | Some peer \<Rightarrow>
          if ag_id peer = ag_id a then None
          else if i \<in> set (ag_peers a) \<or> ag_id a \<in> set (ag_peers peer) then Some peer
          else None)"

definition ModelIdentity :: "model \<Rightarrow> string" where
  "ModelIdentity m = join [CHR 0x00] [to_lower (trim (m_route m)), trim (m_name m)]"

lemma Agent_id: "Agent p i = Some a \<Longrightarrow> ag_id a = i \<and> a \<in> set (Agents p)"
  by (auto simp: Agent_def Agents_def find_Some_iff split: if_splits)

lemma Agent_None_iff: "Agent p i = None \<longleftrightarrow> i \<notin> ag_id ` set (Agents p)"
  by (auto simp: Agent_def Agents_def find_None_iff)

lemma Agent_find: "Agent p i = find (\<lambda>a. ag_id a = i) (Agents p)"
  by (auto simp: Agent_def Agents_def)

lemma Agent_distinct:
  assumes "distinct (map ag_id (Agents p))" and "a \<in> set (Agents p)"
  shows "Agent p (ag_id a) = Some a"
proof -
  have "Agent p (ag_id a) \<noteq> None" using assms(2) by (simp add: Agent_None_iff)
  then obtain b where b: "Agent p (ag_id a) = Some b" by auto
  from Agent_id [OF b] assms have "b = a" by (auto simp: distinct_map inj_on_def)
  with b show ?thesis by simp
qed

lemma Specialist_id: "Specialist p i = Some s \<Longrightarrow> sp_id s = i \<and> s \<in> set (p_specialists p)"
  by (auto simp: Specialist_def find_Some_iff)

lemma SpecialistFor_permitted:
  "SpecialistFor p a i = Some s \<Longrightarrow> i \<in> set (ag_specialists a) \<and> sp_id s = i \<and> s \<in> set (p_specialists p)"
  by (auto simp: SpecialistFor_def dest: Specialist_id split: if_splits)

lemma PeerAgentFor_peer:
  "PeerAgentFor p a i = Some b \<Longrightarrow>
     ag_id b = i \<and> b \<in> set (Agents p) \<and> i \<noteq> ag_id a \<and> Agent p i = Some b \<and>
     (i \<in> set (ag_peers a) \<or> ag_id a \<in> set (ag_peers b))"
  by (auto simp: PeerAgentFor_def dest: Agent_id split: option.splits if_splits)

lemma PeerAgentFor_symmetric:
  assumes "Agent p (ag_id a) = Some a" and "PeerAgentFor p a i = Some b"
  shows "PeerAgentFor p b (ag_id a) = Some a"
  using assms PeerAgentFor_peer [OF assms(2)] by (auto simp: PeerAgentFor_def)

section \<open>Validation\<close>

datatype severity = DError | DWarning

record diagnostic =
  d_severity :: severity
  d_path :: string
  d_message :: string

definition diag :: "severity \<Rightarrow> string \<Rightarrow> string \<Rightarrow> diagnostic" where
  "diag s path msg = \<lparr>d_severity = s, d_path = path, d_message = msg\<rparr>"

lemma diag_severity [simp]: "d_severity (diag s path msg) = s"
  by (simp add: diag_def)

definition HasErrors :: "diagnostic list \<Rightarrow> bool" where
  "HasErrors ds \<longleftrightarrow> (\<exists>d \<in> set ds. d_severity d = DError)"

lemma HasErrors_simps [simp]:
  "HasErrors [] = False"
  "HasErrors (d # ds) \<longleftrightarrow> d_severity d = DError \<or> HasErrors ds"
  "HasErrors (xs @ ys) \<longleftrightarrow> HasErrors xs \<or> HasErrors ys"
  by (auto simp: HasErrors_def)

text \<open>The regular expression \<open>^[a-z][a-z0-9]*(?:-[a-z0-9]+)*$\<close>, as the automaton it is.\<close>

definition lower_letter :: "char \<Rightarrow> bool" where
  "lower_letter c \<longleftrightarrow> CHR ''a'' \<le> c \<and> c \<le> CHR ''z''"

definition lower_alnum :: "char \<Rightarrow> bool" where
  "lower_alnum c \<longleftrightarrow> lower_letter c \<or> CHR ''0'' \<le> c \<and> c \<le> CHR ''9''"

fun identifier_rest :: "string \<Rightarrow> bool" where
  "identifier_rest [] = True"
| "identifier_rest (c # cs) =
     (if lower_alnum c then identifier_rest cs
      else if c = CHR ''-'' then (case cs of [] \<Rightarrow> False | d # ds \<Rightarrow> lower_alnum d \<and> identifier_rest ds)
      else False)"

definition is_identifier :: "string \<Rightarrow> bool" where
  "is_identifier s = (case s of [] \<Rightarrow> False | c # cs \<Rightarrow> lower_letter c \<and> identifier_rest cs)"

definition validateID :: "string \<Rightarrow> string \<Rightarrow> diagnostic list" where
  "validateID path value =
     (if is_identifier value then [] else [diag DError path ''must be lowercase kebab-case''])"

definition validateModelReference :: "profile \<Rightarrow> string \<Rightarrow> string \<Rightarrow> diagnostic list" where
  "validateModelReference p path name =
     (if map_of (p_models p) name = None
      then [diag DError path (''references unknown model '' @ name)] else [])"

text \<open>Model ownership: \<open>modelOwners\<close> and \<open>memberModels\<close>, and the definitions seen so far.\<close>

record vstate =
  v_out :: "diagnostic list"
  v_owners :: "(string, string) gomap"
  v_members :: "(string, string) gomap"
  v_definitions :: "(string, string) gomap"

definition emit :: "diagnostic list \<Rightarrow> vstate \<Rightarrow> vstate" where
  "emit ds st = st\<lparr>v_out := v_out st @ ds\<rparr>"

definition registerModel :: "profile \<Rightarrow> string \<Rightarrow> string \<Rightarrow> string \<Rightarrow> vstate \<Rightarrow> vstate" where
  "registerModel p path memberID alias st =
     (case map_of (p_models p) alias of
        None \<Rightarrow> st
      | Some selected \<Rightarrow>
          let identity = ModelIdentity selected;
              st1 = (case map_of (v_owners st) identity of
                       Some owner \<Rightarrow>
                         if owner \<noteq> memberID
                         then emit [diag DError path
                           (''assigns '' @ m_name selected @ '' to '' @ memberID @
                            '', but that exact catalog model already belongs to '' @ owner @
                            ''; one model is one Team member'')] st
                         else st\<lparr>v_owners := AList.update identity memberID (v_owners st)\<rparr>
                     | None \<Rightarrow> st\<lparr>v_owners := AList.update identity memberID (v_owners st)\<rparr>)
          in (case map_of (v_members st1) memberID of
                Some existing \<Rightarrow>
                  if existing \<noteq> identity
                  then emit [diag DError path
                    (''member '' @ memberID @ '' resolves to more than one catalog model'')] st1
                  else st1\<lparr>v_members := AList.update memberID identity (v_members st1)\<rparr>
              | None \<Rightarrow> st1\<lparr>v_members := AList.update memberID identity (v_members st1)\<rparr>))"

definition normalized_definition :: "string \<Rightarrow> string" where
  "normalized_definition d = to_lower (join '' '' (go_fields d))"

definition validateDefinition :: "string \<Rightarrow> string \<Rightarrow> string \<Rightarrow> vstate \<Rightarrow> vstate" where
  "validateDefinition path i definition_text st =
     (let normalized = normalized_definition definition_text in
      if normalized = [] then emit [diag DError path ''is required''] st
      else
        let st1 = (case map_of (v_definitions st) normalized of
                     Some other \<Rightarrow> emit [diag DWarning path
                       (''duplicates '' @ other @ '' after case and whitespace normalization'')] st
                   | None \<Rightarrow> st)
        in st1\<lparr>v_definitions := AList.update normalized i (v_definitions st1)\<rparr>)"

definition agent_path :: "nat \<Rightarrow> string" where
  "agent_path index =
     (if index = 0 then ''primary'' else ''peers['' @ itoa (int index - 1) @ '']'')"

text \<open>What both member loops do with one member.\<close>

definition validate_member ::
    "profile \<Rightarrow> string \<Rightarrow> bool \<Rightarrow> string \<Rightarrow> string \<Rightarrow> string \<Rightarrow> string \<Rightarrow> vstate \<Rightarrow> vstate" where
  "validate_member p path duplicate message i alias definition_text st =
     (let st1 = emit (validateID (path @ ''.id'') i) st;
          st2 = (if duplicate then emit [diag DError (path @ ''.id'') message] st1 else st1);
          st3 = emit (validateModelReference p (path @ ''.model'') alias) st2;
          st4 = registerModel p (path @ ''.model'') i alias st3
      in validateDefinition (path @ ''.definition'') i definition_text st4)"

text \<open>The loop over the agents; \<open>seen\<close> is \<open>agentIDs\<close>.\<close>

fun validate_agents ::
    "profile \<Rightarrow> nat \<Rightarrow> string set \<Rightarrow> agent list \<Rightarrow> vstate \<Rightarrow> string set \<times> vstate" where
  "validate_agents p index seen [] st = (seen, st)"
| "validate_agents p index seen (a # as) st =
     validate_agents p (Suc index) (insert (ag_id a) seen) as
       (validate_member p (agent_path index) (ag_id a \<in> seen)
          ''duplicates another leadership-capable agent''
          (ag_id a) (ag_model a) (ag_definition a) st)"

fun validate_specialists ::
    "profile \<Rightarrow> string set \<Rightarrow> nat \<Rightarrow> string set \<Rightarrow> specialist list \<Rightarrow> vstate \<Rightarrow> string set \<times> vstate" where
  "validate_specialists p agentIDs index seen [] st = (seen, st)"
| "validate_specialists p agentIDs index seen (s # ss) st =
     validate_specialists p agentIDs (Suc index) (insert (sp_id s) seen) ss
       (validate_member p (''specialists['' @ itoa (int index) @ '']'')
          (sp_id s \<in> seen \<or> sp_id s \<in> agentIDs) ''duplicates another Team member''
          (sp_id s) (sp_model s) (sp_definition s) st)"

text \<open>Undirected peer edges are keyed by their two endpoints in order.\<close>

definition edge_pair :: "string \<Rightarrow> string \<Rightarrow> string \<times> string" where
  "edge_pair a b = (if b < a then (b, a) else (a, b))"

definition edge_key :: "string \<Rightarrow> string \<Rightarrow> string" where
  "edge_key a b = (let (first, second) = edge_pair a b in first @ [CHR 0x00] @ second)"

fun validate_peers ::
    "string set \<Rightarrow> string \<Rightarrow> string \<Rightarrow> nat \<Rightarrow> string set \<Rightarrow> string list \<Rightarrow>
     (string, string) gomap \<Rightarrow> (string, string) gomap \<times> diagnostic list" where
  "validate_peers agentIDs agentID path index local [] edges = (edges, [])"
| "validate_peers agentIDs agentID path index local (i # is) edges =
     (let itemPath = path @ ''.peers['' @ itoa (int index) @ '']'';
          previous = map_of edges (edge_key agentID i);
          ds = validateID itemPath i
               @ (if i = agentID then [diag DError itemPath ''an agent cannot peer with itself''] else [])
               @ (if i \<in> local then [diag DError itemPath ''duplicates another peer relationship''] else [])
               @ (if i \<notin> agentIDs
                  then [diag DError itemPath (''references unknown leadership-capable peer '' @ i)]
                  else (case previous of
                          Some declared \<Rightarrow> [diag DError itemPath
                            (''duplicates undirected peer relationship declared at '' @ declared)]
                        | None \<Rightarrow> []));
          edges1 = (if i \<in> agentIDs \<and> previous = None
                    then AList.update (edge_key agentID i) itemPath edges else edges)
      in apsnd (\<lambda>rest. ds @ rest)
           (validate_peers agentIDs agentID path (Suc index) (insert i local) is edges1))"

fun validate_permissions ::
    "string set \<Rightarrow> string set \<Rightarrow> string \<Rightarrow> nat \<Rightarrow> string set \<Rightarrow> string list \<Rightarrow> string set \<Rightarrow>
     string set \<times> diagnostic list" where
  "validate_permissions agentIDs specialistIDs path index local [] used = (used, [])"
| "validate_permissions agentIDs specialistIDs path index local (i # is) used =
     (let itemPath = path @ ''.specialists['' @ itoa (int index) @ '']'';
          ds = validateID itemPath i
               @ (if i \<in> local then [diag DError itemPath ''duplicates another specialist permission''] else [])
               @ (if i \<in> specialistIDs then []
                  else if i \<in> agentIDs
                  then [diag DError itemPath
                    ''references a leadership-capable agent; peers and specialists are exclusive roles'']
                  else [diag DError itemPath (''references unknown specialist '' @ i)]);
          used1 = (if i \<in> specialistIDs then insert i used else used)
      in apsnd (\<lambda>rest. ds @ rest)
           (validate_permissions agentIDs specialistIDs path (Suc index) (insert i local) is used1))"

fun validate_relations ::
    "string set \<Rightarrow> string set \<Rightarrow> nat \<Rightarrow> agent list \<Rightarrow> (string, string) gomap \<Rightarrow> string set \<Rightarrow>
     string set \<times> diagnostic list" where
  "validate_relations agentIDs specialistIDs index [] edges used = (used, [])"
| "validate_relations agentIDs specialistIDs index (a # as) edges used =
     (let path = agent_path index;
          peers = validate_peers agentIDs (ag_id a) path 0 {} (ag_peers a) edges;
          permissions = validate_permissions agentIDs specialistIDs path 0 {} (ag_specialists a) used
      in apsnd (\<lambda>rest. snd peers @ snd permissions @ rest)
           (validate_relations agentIDs specialistIDs (Suc index) as (fst peers) (fst permissions)))"

definition validate_header :: "profile \<Rightarrow> diagnostic list" where
  "validate_header p =
     (if p_schema p \<noteq> CurrentSchema then [diag DError ''schema'' (''must be '' @ itoa CurrentSchema)] else [])
     @ validateID ''id'' (p_id p)
     @ (if p_revision p < 1 then [diag DError ''revision'' ''must be at least 1''] else [])
     @ (if trim (p_name p) = [] then [diag DError ''name'' ''is required''] else [])
     @ (if trim (p_gateway p) = [] then [diag DError ''gateway'' ''select an authenticated gateway''] else [])
     @ (if p_models p = [] then [diag DError ''models'' ''at least one model is required''] else [])"

definition validate_model :: "string \<times> model \<Rightarrow> diagnostic list" where
  "validate_model am =
     (let (alias, m) = am in
      validateID (''models.'' @ alias) alias
      @ (if trim (m_route m) = [] then [diag DError (''models.'' @ alias @ ''.route'') ''is required''] else [])
      @ (if trim (m_name m) = [] then [diag DError (''models.'' @ alias @ ''.name'') ''is required''] else []))"

definition unused_specialists :: "string list \<Rightarrow> string set \<Rightarrow> diagnostic list" where
  "unused_specialists specialistIDs used =
     map (\<lambda>i. diag DWarning (''specialists.'' @ i) ''is not callable by any leadership-capable agent'')
       (filter (\<lambda>i. i \<notin> used) specialistIDs)"

text \<open>\<open>sort.SliceStable\<close>: errors before warnings, then by path.\<close>

definition diagnostic_key :: "diagnostic \<Rightarrow> string" where
  "diagnostic_key d = (if d_severity d = DError then CHR 0x00 # d_path d else CHR 0x01 # d_path d)"

definition Validate :: "profile \<Rightarrow> diagnostic list" where
  "Validate p =
     (let st0 = \<lparr>v_out = validate_header p @ concat (map validate_model (p_models p)),
                 v_owners = [], v_members = [], v_definitions = []\<rparr>;
          (agentIDs, st1) = validate_agents p 0 {} (Agents p) st0;
          (specialistIDs, st2) = validate_specialists p agentIDs 0 {} (p_specialists p) st1;
          (used, ds) = validate_relations agentIDs specialistIDs 0 (Agents p) [] {};
          warnings = unused_specialists (remdups (map sp_id (p_specialists p))) used
      in sort_key diagnostic_key (v_out st2 @ ds @ warnings))"

lemma HasErrors_sort [simp]: "HasErrors (sort_key f ds) \<longleftrightarrow> HasErrors ds"
  by (simp add: HasErrors_def)

section \<open>What validation decides\<close>

text \<open>The members in order with the model alias each uses, and the declared peer edges.\<close>

definition team_members :: "profile \<Rightarrow> (string \<times> string \<times> string) list" where
  "team_members p =
     map (\<lambda>a. (ag_id a, ag_model a, ag_definition a)) (Agents p)
     @ map (\<lambda>s. (sp_id s, sp_model s, sp_definition s)) (p_specialists p)"

definition peer_edges :: "profile \<Rightarrow> string list" where
  "peer_edges p = concat (map (\<lambda>a. map (edge_key (ag_id a)) (ag_peers a)) (Agents p))"

text \<open>Which member uses which catalog model.\<close>

definition uses_identity :: "profile \<Rightarrow> (string \<times> string \<times> string) list \<Rightarrow> (string \<times> string) set" where
  "uses_identity p ms =
     set (concat (map (\<lambda>(i, alias, d).
       case map_of (p_models p) alias of None \<Rightarrow> [] | Some m \<Rightarrow> [(i, ModelIdentity m)]) ms))"

definition one_to_one :: "(string \<times> string) set \<Rightarrow> bool" where
  "one_to_one R \<longleftrightarrow> (\<forall>(i, x) \<in> R. \<forall>(j, y) \<in> R. i = j \<longleftrightarrow> x = y)"

definition header_ok :: "profile \<Rightarrow> bool" where
  "header_ok p \<longleftrightarrow>
     p_schema p = CurrentSchema \<and> is_identifier (p_id p) \<and> 1 \<le> p_revision p \<and>
     trim (p_name p) \<noteq> [] \<and> trim (p_gateway p) \<noteq> [] \<and> p_models p \<noteq> [] \<and>
     (\<forall>(alias, m) \<in> set (p_models p).
        is_identifier alias \<and> trim (m_route m) \<noteq> [] \<and> trim (m_name m) \<noteq> [])"

definition members_ok :: "profile \<Rightarrow> bool" where
  "members_ok p \<longleftrightarrow>
     distinct (map fst (team_members p)) \<and>
     (\<forall>(i, alias, d) \<in> set (team_members p).
        is_identifier i \<and> map_of (p_models p) alias \<noteq> None \<and> normalized_definition d \<noteq> []) \<and>
     one_to_one (uses_identity p (team_members p))"

definition relations_ok :: "profile \<Rightarrow> bool" where
  "relations_ok p \<longleftrightarrow>
     (\<forall>a \<in> set (Agents p).
        distinct (ag_peers a) \<and> distinct (ag_specialists a) \<and>
        (\<forall>i \<in> set (ag_peers a). is_identifier i \<and> i \<noteq> ag_id a \<and> i \<in> ag_id ` set (Agents p)) \<and>
        (\<forall>i \<in> set (ag_specialists a). is_identifier i \<and> i \<in> sp_id ` set (p_specialists p))) \<and>
     distinct (peer_edges p)"

definition team_ok :: "profile \<Rightarrow> bool" where
  "team_ok p \<longleftrightarrow> header_ok p \<and> members_ok p \<and> relations_ok p"

lemma HasErrors_validateID [simp]: "HasErrors (validateID path v) \<longleftrightarrow> \<not> is_identifier v"
  by (simp add: validateID_def)

lemma HasErrors_validateModelReference [simp]:
  "HasErrors (validateModelReference p path alias) \<longleftrightarrow> map_of (p_models p) alias = None"
  by (simp add: validateModelReference_def)

lemma HasErrors_concat: "HasErrors (concat dss) \<longleftrightarrow> (\<exists>ds \<in> set dss. HasErrors ds)"
  by (auto simp: HasErrors_def)

lemma HasErrors_header:
  "\<not> HasErrors (validate_header p @ concat (map validate_model (p_models p))) \<longleftrightarrow> header_ok p"
  by (auto simp: validate_header_def header_ok_def HasErrors_concat validate_model_def
      split: prod.splits if_splits)

lemma HasErrors_unused [simp]: "\<not> HasErrors (unused_specialists is used)"
  by (auto simp: unused_specialists_def HasErrors_def)

text \<open>Peers, permissions and the loop over both.\<close>

lemma validate_peers_edges:
  "fst ` set (fst (validate_peers ids a path n local is edges)) =
     fst ` set edges \<union> edge_key a ` (set is \<inter> ids)"
proof (induction ids a path n local "is" edges rule: validate_peers.induct)
  case (2 ids a path n local i "is" edges)
  then show ?case
    by (auto simp: Let_def dom_update map_of_eq_None_iff)
qed simp

lemma validate_peers_clean:
  "\<not> HasErrors (snd (validate_peers ids a path n local is edges)) \<longleftrightarrow>
     (\<forall>i \<in> set is. is_identifier i \<and> i \<noteq> a \<and> i \<notin> local \<and> i \<in> ids \<and>
        edge_key a i \<notin> fst ` set edges) \<and>
     distinct is \<and> distinct (map (edge_key a) is)"
proof (induction ids a path n local "is" edges rule: validate_peers.induct)
  case (2 ids a path n local i "is" edges)
  show ?case
  proof (cases "i \<in> ids \<and> map_of edges (edge_key a i) = None")
    case True
    then have fresh: "edge_key a i \<notin> fst ` set edges" by (simp add: map_of_eq_None_iff)
    have "\<not> HasErrors (snd (validate_peers ids a path n local (i # is) edges)) \<longleftrightarrow>
        is_identifier i \<and> i \<noteq> a \<and> i \<notin> local \<and>
        (\<forall>j \<in> set is. is_identifier j \<and> j \<noteq> a \<and> j \<notin> insert i local \<and> j \<in> ids \<and>
           edge_key a j \<notin> insert (edge_key a i) (fst ` set edges)) \<and>
        distinct is \<and> distinct (map (edge_key a) is)"
      using True 2 by (simp add: Let_def dom_update)
    then show ?thesis using True fresh by (auto simp: image_iff)
  next
    case False
    then have "HasErrors (snd (validate_peers ids a path n local (i # is) edges))"
      by (auto simp: Let_def)
    with False show ?thesis by (auto simp: map_of_eq_None_iff)
  qed
qed simp

lemma validate_permissions_clean:
  "\<not> HasErrors (snd (validate_permissions agentIDs specialistIDs path n local is used)) \<longleftrightarrow>
     (\<forall>i \<in> set is. is_identifier i \<and> i \<notin> local \<and> i \<in> specialistIDs) \<and> distinct is"
proof (induction agentIDs specialistIDs path n local "is" used rule: validate_permissions.induct)
  case (2 agentIDs specialistIDs path n local i "is" used)
  then show ?case by (simp add: Let_def) blast
qed simp

lemma validate_relations_clean:
  "\<not> HasErrors (snd (validate_relations agentIDs specialistIDs n as edges used)) \<longleftrightarrow>
     (\<forall>a \<in> set as.
        distinct (ag_peers a) \<and> distinct (ag_specialists a) \<and>
        (\<forall>i \<in> set (ag_peers a). is_identifier i \<and> i \<noteq> ag_id a \<and> i \<in> agentIDs) \<and>
        (\<forall>i \<in> set (ag_specialists a). is_identifier i \<and> i \<in> specialistIDs)) \<and>
     distinct (concat (map (\<lambda>a. map (edge_key (ag_id a)) (ag_peers a)) as)) \<and>
     set (concat (map (\<lambda>a. map (edge_key (ag_id a)) (ag_peers a)) as)) \<inter> fst ` set edges = {}"
proof (induction "as" arbitrary: n edges used)
  case Nil
  then show ?case by simp
next
  case (Cons a "as")
  let ?E = "\<lambda>as. set (concat (map (\<lambda>a. map (edge_key (ag_id a)) (ag_peers a)) as))"
  let ?D = "\<lambda>as. distinct (concat (map (\<lambda>a. map (edge_key (ag_id a)) (ag_peers a)) as))"
  let ?K = "edge_key (ag_id a) ` set (ag_peers a)" and ?F = "fst ` set edges"
  let ?ok = "\<lambda>a. distinct (ag_peers a) \<and> distinct (ag_specialists a) \<and>
        (\<forall>i \<in> set (ag_peers a). is_identifier i \<and> i \<noteq> ag_id a \<and> i \<in> agentIDs) \<and>
        (\<forall>i \<in> set (ag_specialists a). is_identifier i \<and> i \<in> specialistIDs)"
  have split: "\<not> HasErrors (snd (validate_relations agentIDs specialistIDs n (a # as) edges used)) \<longleftrightarrow>
      ?ok a \<and> (\<forall>i \<in> set (ag_peers a). edge_key (ag_id a) i \<notin> fst ` set edges) \<and>
      distinct (map (edge_key (ag_id a)) (ag_peers a)) \<and>
      (\<forall>b \<in> set as. ?ok b) \<and> ?D as \<and>
      ?E as \<inter> (fst ` set edges \<union> edge_key (ag_id a) ` (set (ag_peers a) \<inter> agentIDs)) = {}"
    unfolding validate_relations.simps Let_def snd_apsnd HasErrors_simps de_Morgan_disj
      validate_peers_clean validate_permissions_clean Cons.IH validate_peers_edges
    by auto
  show ?case
  proof (cases "set (ag_peers a) \<subseteq> agentIDs")
    case True
    then have "set (ag_peers a) \<inter> agentIDs = set (ag_peers a)" by blast
    then have same: "edge_key (ag_id a) ` (set (ag_peers a) \<inter> agentIDs) = ?K" by simp
    have dist: "?D (a # as) \<longleftrightarrow> distinct (map (edge_key (ag_id a)) (ag_peers a)) \<and> ?D as \<and> ?K \<inter> ?E as = {}"
      by simp
    have edges: "?E (a # as) \<inter> ?F = {} \<longleftrightarrow> ?K \<inter> ?F = {} \<and> ?E as \<inter> ?F = {}"
      by (simp add: Int_Un_distrib2)
    have away: "(\<forall>i \<in> set (ag_peers a). edge_key (ag_id a) i \<notin> ?F) \<longleftrightarrow> ?K \<inter> ?F = {}"
      by blast
    have apart: "X \<inter> (?F \<union> ?K) = {} \<longleftrightarrow> X \<inter> ?F = {} \<and> ?K \<inter> X = {}" for X :: "string set"
      by blast
    have oks: "(\<forall>b \<in> set (a # as). ?ok b) \<longleftrightarrow> ?ok a \<and> (\<forall>b \<in> set as. ?ok b)"
      by simp
    show ?thesis unfolding split same dist edges away apart oks by argo
  next
    case False
    then show ?thesis unfolding split by auto
  qed
qed

text \<open>Members.\<close>

definition clean :: "vstate \<Rightarrow> bool" where
  "clean st \<longleftrightarrow> \<not> HasErrors (v_out st)"

definition ownership :: "vstate \<Rightarrow> (string \<times> string) set \<Rightarrow> bool" where
  "ownership st R \<longleftrightarrow>
     (\<forall>i x. map_of (v_owners st) x = Some i \<longleftrightarrow> (i, x) \<in> R) \<and>
     (\<forall>i x. map_of (v_members st) i = Some x \<longleftrightarrow> (i, x) \<in> R)"

lemma emit_simps [simp]:
  "clean (emit ds st) \<longleftrightarrow> clean st \<and> \<not> HasErrors ds"
  "v_owners (emit ds st) = v_owners st" "v_members (emit ds st) = v_members st"
  "ownership (emit ds st) R \<longleftrightarrow> ownership st R"
  by (auto simp: emit_def clean_def ownership_def)

lemma validateDefinition_simps [simp]:
  "clean (validateDefinition path i d st) \<longleftrightarrow> clean st \<and> normalized_definition d \<noteq> []"
  "ownership (validateDefinition path i d st) R \<longleftrightarrow> ownership st R"
  by (auto simp: validateDefinition_def Let_def clean_def emit_def ownership_def split: option.splits)

lemma one_to_one_iff:
  "one_to_one R \<longleftrightarrow> (\<forall>i x j y. (i, x) \<in> R \<longrightarrow> (j, y) \<in> R \<longrightarrow> (i = j \<longleftrightarrow> x = y))"
  by (auto simp: one_to_one_def)

lemma one_to_one_insert:
  assumes "one_to_one R"
  shows "one_to_one (insert (i, x) R) \<longleftrightarrow>
      (\<forall>j. (j, x) \<in> R \<longrightarrow> j = i) \<and> (\<forall>y. (i, y) \<in> R \<longrightarrow> y = x)"
proof
  assume "one_to_one (insert (i, x) R)"
  then have "\<And>j y. (j, y) \<in> R \<Longrightarrow> j = i \<longleftrightarrow> y = x"
    unfolding one_to_one_iff by blast
  then show "(\<forall>j. (j, x) \<in> R \<longrightarrow> j = i) \<and> (\<forall>y. (i, y) \<in> R \<longrightarrow> y = x)" by auto
next
  assume new: "(\<forall>j. (j, x) \<in> R \<longrightarrow> j = i) \<and> (\<forall>y. (i, y) \<in> R \<longrightarrow> y = x)"
  have old: "\<And>j y k z. (j, y) \<in> R \<Longrightarrow> (k, z) \<in> R \<Longrightarrow> j = k \<longleftrightarrow> y = z"
    using assms unfolding one_to_one_iff by blast
  show "one_to_one (insert (i, x) R)"
    unfolding one_to_one_iff
  proof (intro allI impI)
    fix j y k z
    assume "(j, y) \<in> insert (i, x) R" "(k, z) \<in> insert (i, x) R"
    then show "j = k \<longleftrightarrow> y = z"
    proof (elim insertE)
      assume "(j, y) = (i, x)" "(k, z) \<in> R"
      with new show ?thesis by (metis prod.inject)
    next
      assume "(j, y) \<in> R" "(k, z) = (i, x)"
      with new show ?thesis by (metis prod.inject)
    next
      assume "(j, y) \<in> R" "(k, z) \<in> R"
      then show ?thesis by (rule old)
    qed simp
  qed
qed

lemma one_to_one_subset: "one_to_one S \<Longrightarrow> R \<subseteq> S \<Longrightarrow> one_to_one R"
  unfolding one_to_one_iff by blast

lemma registerModel_dirty: "\<not> clean st \<Longrightarrow> \<not> clean (registerModel p path i alias st)"
  by (auto simp: registerModel_def Let_def clean_def emit_def split: option.splits if_splits)

lemma registerModel_free:
  assumes "map_of (p_models p) alias = Some m"
    and "map_of (v_owners st) (ModelIdentity m) = None \<or> map_of (v_owners st) (ModelIdentity m) = Some i"
    and "map_of (v_members st) i = None \<or> map_of (v_members st) i = Some (ModelIdentity m)"
  shows "registerModel p path i alias st =
    st\<lparr>v_owners := AList.update (ModelIdentity m) i (v_owners st),
       v_members := AList.update i (ModelIdentity m) (v_members st)\<rparr>"
proof -
  define x where "x = ModelIdentity m"
  have "registerModel p path i alias st = st\<lparr>v_owners := AList.update x i (v_owners st),
      v_members := AList.update i x (v_members (st\<lparr>v_owners := AList.update x i (v_owners st)\<rparr>))\<rparr>"
    unfolding registerModel_def assms(1) option.case Let_def x_def [symmetric]
    using assms(2,3)[folded x_def]
    by (cases "map_of (v_owners st) x"; cases "map_of (v_members st) i"; simp del: vstate.simps)
  then show ?thesis unfolding x_def by simp
qed

lemma registerModel_clean:
  assumes "map_of (p_models p) alias = Some m" and "ownership st R" and "one_to_one R" and "clean st"
  shows "clean (registerModel p path i alias st) \<longleftrightarrow> one_to_one (insert (i, ModelIdentity m) R)"
    and "clean (registerModel p path i alias st) \<Longrightarrow>
      ownership (registerModel p path i alias st) (insert (i, ModelIdentity m) R)"
proof -
  let ?x = "ModelIdentity m"
  have owner: "map_of (v_owners st) ?x = Some j \<longleftrightarrow> (j, ?x) \<in> R" for j
    using assms(2) by (simp add: ownership_def)
  have member: "map_of (v_members st) i = Some y \<longleftrightarrow> (i, y) \<in> R" for y
    using assms(2) by (simp add: ownership_def)
  have fits: "one_to_one (insert (i, ?x) R) \<longleftrightarrow>
      (\<forall>j. (j, ?x) \<in> R \<longrightarrow> j = i) \<and> (\<forall>y. (i, y) \<in> R \<longrightarrow> y = ?x)"
    by (rule one_to_one_insert [OF assms(3)])
  have c: "clean (registerModel p path i alias st) \<longleftrightarrow>
      (\<forall>j. map_of (v_owners st) ?x = Some j \<longrightarrow> j = i) \<and>
      (\<forall>y. map_of (v_members st) i = Some y \<longrightarrow> y = ?x)"
    using assms(1,4)
    by (auto simp: registerModel_def Let_def clean_def emit_def split: option.splits)
  then show iff: "clean (registerModel p path i alias st) \<longleftrightarrow> one_to_one (insert (i, ?x) R)"
    by (simp add: fits owner member)
  assume cl: "clean (registerModel p path i alias st)"
  have o: "map_of (v_owners st) ?x = None \<or> map_of (v_owners st) ?x = Some i"
    using c cl by (cases "map_of (v_owners st) ?x") auto
  have m: "map_of (v_members st) i = None \<or> map_of (v_members st) i = Some ?x"
    using c cl by (cases "map_of (v_members st) i") auto
  have "registerModel p path i alias st =
      st\<lparr>v_owners := AList.update ?x i (v_owners st), v_members := AList.update i ?x (v_members st)\<rparr>"
    by (rule registerModel_free [OF assms(1) o m])
  moreover have sole: "(j, ?x) \<in> R \<Longrightarrow> j = i" "(i, y) \<in> R \<Longrightarrow> y = ?x" for j y
    using fits [THEN iffD1, OF iff [THEN iffD1, OF cl]] by blast+
  moreover have "map_of (AList.update ?x i (v_owners st)) y = Some j \<longleftrightarrow> (j, y) \<in> insert (i, ?x) R" for j y
    using assms(2) sole(1) by (cases "y = ?x") (auto simp: map_of_update ownership_def)
  moreover have "map_of (AList.update i ?x (v_members st)) j = Some y \<longleftrightarrow> (j, y) \<in> insert (i, ?x) R" for j y
    using assms(2) sole(2) by (cases "j = i") (auto simp: map_of_update ownership_def)
  ultimately show "ownership (registerModel p path i alias st) (insert (i, ?x) R)"
    by (simp add: ownership_def)
qed

lemma validate_member_clean:
  assumes "ownership st R" and "one_to_one R"
  shows "clean (validate_member p path dup msg i alias d st) \<longleftrightarrow>
      clean st \<and> is_identifier i \<and> \<not> dup \<and> normalized_definition d \<noteq> [] \<and>
      (\<exists>m. map_of (p_models p) alias = Some m \<and> one_to_one (insert (i, ModelIdentity m) R))"
    and "clean (validate_member p path dup msg i alias d st) \<Longrightarrow> map_of (p_models p) alias = Some m \<Longrightarrow>
      ownership (validate_member p path dup msg i alias d st) (insert (i, ModelIdentity m) R)"
proof -
  let ?st = "emit (validateModelReference p (path @ ''.model'') alias)
    (if dup then emit [diag DError (path @ ''.id'') msg] (emit (validateID (path @ ''.id'') i) st)
     else emit (validateID (path @ ''.id'') i) st)"
  have form: "validate_member p path dup msg i alias d st =
      validateDefinition (path @ ''.definition'') i d (registerModel p (path @ ''.model'') i alias ?st)"
    by (simp add: validate_member_def Let_def)
  have st: "clean ?st \<longleftrightarrow> clean st \<and> is_identifier i \<and> \<not> dup \<and> map_of (p_models p) alias \<noteq> None"
    and own: "ownership ?st R"
    using assms(1) by auto
  show "clean (validate_member p path dup msg i alias d st) \<longleftrightarrow>
      clean st \<and> is_identifier i \<and> \<not> dup \<and> normalized_definition d \<noteq> [] \<and>
      (\<exists>m. map_of (p_models p) alias = Some m \<and> one_to_one (insert (i, ModelIdentity m) R))"
  proof (cases "clean ?st")
    case False
    then show ?thesis unfolding form using registerModel_dirty st by auto
  next
    case True
    then obtain m where m: "map_of (p_models p) alias = Some m" using st by auto
    from registerModel_clean(1) [OF m own assms(2) True] True st m show ?thesis
      unfolding form by auto
  qed
  assume cl: "clean (validate_member p path dup msg i alias d st)" and m: "map_of (p_models p) alias = Some m"
  then have r: "clean (registerModel p (path @ ''.model'') i alias ?st)" unfolding form by simp
  then have "clean ?st" using registerModel_dirty by blast
  from registerModel_clean(2) [OF m own assms(2) this r]
  show "ownership (validate_member p path dup msg i alias d st) (insert (i, ModelIdentity m) R)"
    unfolding form by simp
qed

lemma validate_member_dirty: "\<not> clean st \<Longrightarrow> \<not> clean (validate_member p path dup msg i alias d st)"
  by (auto simp: validate_member_def Let_def registerModel_dirty)

lemma validate_agents_dirty:
  "\<not> clean st \<Longrightarrow> \<not> clean (snd (validate_agents p n seen as st))"
  by (induction p n seen "as" st rule: validate_agents.induct) (auto simp: validate_member_dirty)

lemma validate_specialists_dirty:
  "\<not> clean st \<Longrightarrow> \<not> clean (snd (validate_specialists p ids n seen ss st))"
  by (induction p ids n seen ss st rule: validate_specialists.induct) (auto simp: validate_member_dirty)

lemma validate_agents_seen: "fst (validate_agents p n seen as st) = seen \<union> ag_id ` set as"
  by (induction p n seen "as" st rule: validate_agents.induct) auto

lemma validate_specialists_seen: "fst (validate_specialists p ids n seen ss st) = seen \<union> sp_id ` set ss"
  by (induction p ids n seen ss st rule: validate_specialists.induct) auto

text \<open>
  A list of members passes from a clean state that owns \<open>R\<close>, with the identities \<open>seen\<close>
  taken, when every member is fine in itself and the ownership relation stays one to one.
\<close>

definition members_pass ::
    "profile \<Rightarrow> string set \<Rightarrow> (string \<times> string) set \<Rightarrow> (string \<times> string \<times> string) list \<Rightarrow> bool" where
  "members_pass p seen R ms \<longleftrightarrow>
     distinct (map fst ms) \<and> fst ` set ms \<inter> seen = {} \<and>
     (\<forall>(i, alias, d) \<in> set ms.
        is_identifier i \<and> map_of (p_models p) alias \<noteq> None \<and> normalized_definition d \<noteq> []) \<and>
     one_to_one (R \<union> uses_identity p ms)"

lemma uses_identity_Nil [simp]: "uses_identity p [] = {}"
  by (simp add: uses_identity_def)

lemma uses_identity_Cons:
  "map_of (p_models p) alias = Some m \<Longrightarrow>
   uses_identity p ((i, alias, d) # ms) = insert (i, ModelIdentity m) (uses_identity p ms)"
  by (simp add: uses_identity_def)

lemma uses_identity_append: "uses_identity p (ms @ ns) = uses_identity p ms \<union> uses_identity p ns"
  by (simp add: uses_identity_def)

lemma members_pass_Cons:
  assumes "map_of (p_models p) alias = Some m"
  shows "members_pass p seen R ((i, alias, d) # ms) \<longleftrightarrow>
     is_identifier i \<and> i \<notin> seen \<and> normalized_definition d \<noteq> [] \<and>
     members_pass p (insert i seen) (insert (i, ModelIdentity m) R) ms"
proof -
  have "fst ` set ((i, alias, d) # ms) \<inter> seen = {} \<longleftrightarrow> i \<notin> seen \<and> fst ` set ms \<inter> seen = {}"
    by (simp add: insert_disjoint)
  moreover have "fst ` set ms \<inter> insert i seen = {} \<longleftrightarrow> i \<notin> fst ` set ms \<and> fst ` set ms \<inter> seen = {}"
    by blast
  moreover have "R \<union> uses_identity p ((i, alias, d) # ms) = insert (i, ModelIdentity m) R \<union> uses_identity p ms"
    unfolding uses_identity_Cons [OF assms] by blast
  moreover have "distinct (map fst ((i, alias, d) # ms)) \<longleftrightarrow> i \<notin> fst ` set ms \<and> distinct (map fst ms)"
    by simp
  moreover have "(\<forall>(i, alias, d) \<in> set ((i, alias, d) # ms).
        is_identifier i \<and> map_of (p_models p) alias \<noteq> None \<and> normalized_definition d \<noteq> []) \<longleftrightarrow>
      is_identifier i \<and> normalized_definition d \<noteq> [] \<and> (\<forall>(i, alias, d) \<in> set ms.
        is_identifier i \<and> map_of (p_models p) alias \<noteq> None \<and> normalized_definition d \<noteq> [])"
    using assms by simp
  ultimately show ?thesis unfolding members_pass_def by argo
qed

lemma members_pass_unknown:
  "map_of (p_models p) alias = None \<Longrightarrow> \<not> members_pass p seen R ((i, alias, d) # ms)"
  by (auto simp: members_pass_def)

lemma members_pass_one_to_one: "members_pass p seen R ms \<Longrightarrow> one_to_one R"
  by (auto simp: members_pass_def intro: one_to_one_subset)

lemma validate_agents_clean:
  assumes "ownership st R" "one_to_one R" "clean st"
  shows "clean (snd (validate_agents p n seen as st)) \<longleftrightarrow>
      members_pass p seen R (map (\<lambda>a. (ag_id a, ag_model a, ag_definition a)) as)"
    and "clean (snd (validate_agents p n seen as st)) \<Longrightarrow>
      ownership (snd (validate_agents p n seen as st))
        (R \<union> uses_identity p (map (\<lambda>a. (ag_id a, ag_model a, ag_definition a)) as))"
  using assms
proof (induction "as" arbitrary: n seen st R)
  case Nil
  { case 1 then show ?case by (simp add: members_pass_def) }
  { case 2 then show ?case by simp }
next
  case (Cons a "as")
  let ?st = "\<lambda>n seen st. validate_member p (agent_path n) (ag_id a \<in> seen)
    ''duplicates another leadership-capable agent'' (ag_id a) (ag_model a) (ag_definition a) st"
  { case 1
    note mem = validate_member_clean [OF 1(1,2), where p = p]
    show ?case
    proof (cases "clean (?st n seen st)")
      case True
      then obtain m where m: "map_of (p_models p) (ag_model a) = Some m"
        and ins: "one_to_one (insert (ag_id a, ModelIdentity m) R)"
        and ok: "is_identifier (ag_id a)" "ag_id a \<notin> seen" "normalized_definition (ag_definition a) \<noteq> []"
        using mem(1) by blast
      show ?thesis
        using Cons.IH(1) [OF mem(2) [OF True m] ins True] ok
        by (simp add: members_pass_Cons [OF m])
    next
      case False
      have "\<not> members_pass p seen R ((ag_id a, ag_model a, ag_definition a) # ms)" for ms
      proof (cases "map_of (p_models p) (ag_model a)")
        case None
        then show ?thesis by (simp add: members_pass_unknown)
      next
        case (Some m)
        then show ?thesis
          using False mem(1) 1(3) members_pass_one_to_one by (auto simp: members_pass_Cons [OF Some])
      qed
      then show ?thesis using validate_agents_dirty [OF False] by simp
    qed }
  { case 2
    note mem = validate_member_clean [OF 2(2,3), where p = p]
    have True: "clean (?st n seen st)" using 2(1) validate_agents_dirty by fastforce
    then obtain m where m: "map_of (p_models p) (ag_model a) = Some m"
      and ins: "one_to_one (insert (ag_id a, ModelIdentity m) R)"
      using mem(1) by blast
    show ?case
      using Cons.IH(2) [OF _ mem(2) [OF True m] ins True] 2(1)
      by (simp add: uses_identity_Cons [OF m]) }
qed

lemma validate_specialists_clean:
  assumes "ownership st R" "one_to_one R" "clean st"
  shows "clean (snd (validate_specialists p ids n seen ss st)) \<longleftrightarrow>
      members_pass p (seen \<union> ids) R (map (\<lambda>s. (sp_id s, sp_model s, sp_definition s)) ss)"
  using assms
proof (induction ss arbitrary: n seen st R)
  case Nil
  then show ?case by (simp add: members_pass_def)
next
  case (Cons s ss)
  let ?st = "validate_member p (''specialists['' @ itoa (int n) @ '']'') (sp_id s \<in> seen \<or> sp_id s \<in> ids)
    ''duplicates another Team member'' (sp_id s) (sp_model s) (sp_definition s) st"
  note mem = validate_member_clean [OF Cons.prems(1,2), where p = p]
  show ?case
  proof (cases "clean ?st")
    case True
    then obtain m where m: "map_of (p_models p) (sp_model s) = Some m"
      and ins: "one_to_one (insert (sp_id s, ModelIdentity m) R)"
      and ok: "is_identifier (sp_id s)" "sp_id s \<notin> seen \<union> ids" "normalized_definition (sp_definition s) \<noteq> []"
      using iffD1 [OF mem(1) True] by auto
    have step: "validate_specialists p ids n seen (s # ss) st =
        validate_specialists p ids (Suc n) (insert (sp_id s) seen) ss ?st"
      by simp
    show ?thesis
      unfolding step Cons.IH [OF mem(2) [OF True m] ins True] list.map members_pass_Cons [OF m] Un_insert_left
      using ok by blast
  next
    case False
    have "\<not> members_pass p (seen \<union> ids) R ((sp_id s, sp_model s, sp_definition s) # ms)" for ms
    proof (cases "map_of (p_models p) (sp_model s)")
      case None
      then show ?thesis by (simp add: members_pass_unknown)
    next
      case (Some m)
      then show ?thesis
        using False mem(1) Cons.prems(3) members_pass_one_to_one by (auto simp: members_pass_Cons [OF Some])
    qed
    then show ?thesis using validate_specialists_dirty [OF False] by simp
  qed
qed

lemma members_pass_append:
  "members_pass p seen R ms \<and> members_pass p (seen \<union> fst ` set ms) (R \<union> uses_identity p ms) ns \<longleftrightarrow>
   members_pass p seen R (ms @ ns)"
proof -
  have "one_to_one (R \<union> uses_identity p (ms @ ns)) \<Longrightarrow> one_to_one (R \<union> uses_identity p ms)"
    by (erule one_to_one_subset) (auto simp: uses_identity_append)
  moreover have "R \<union> uses_identity p ms \<union> uses_identity p ns = R \<union> uses_identity p (ms @ ns)"
    by (simp only: uses_identity_append Un_assoc)
  moreover have "fst ` set (ms @ ns) \<inter> seen = {} \<longleftrightarrow> fst ` set ms \<inter> seen = {} \<and> fst ` set ns \<inter> seen = {}"
    by (simp add: image_Un Int_Un_distrib2)
  moreover have "fst ` set ns \<inter> (seen \<union> fst ` set ms) = {} \<longleftrightarrow>
      fst ` set ns \<inter> seen = {} \<and> fst ` set ms \<inter> fst ` set ns = {}"
    by blast
  moreover have "distinct (map fst (ms @ ns)) \<longleftrightarrow>
      distinct (map fst ms) \<and> distinct (map fst ns) \<and> fst ` set ms \<inter> fst ` set ns = {}"
    by simp
  ultimately show ?thesis unfolding members_pass_def set_append ball_Un by argo
qed

lemma Validate_iff: "\<not> HasErrors (Validate p) \<longleftrightarrow> team_ok p"
proof -
  define st0 where "st0 = \<lparr>v_out = validate_header p @ concat (map validate_model (p_models p)),
    v_owners = [], v_members = [], v_definitions = []\<rparr>"
  define st1 where "st1 = snd (validate_agents p 0 {} (Agents p) st0)"
  let ?ids = "ag_id ` set (Agents p)" and ?sids = "sp_id ` set (p_specialists p)"
  let ?ams = "map (\<lambda>a. (ag_id a, ag_model a, ag_definition a)) (Agents p)"
  let ?sms = "map (\<lambda>s. (sp_id s, sp_model s, sp_definition s)) (p_specialists p)"
  define st2 where "st2 = snd (validate_specialists p ?ids 0 {} (p_specialists p) st1)"
  define rel where "rel = snd (validate_relations ?ids ?sids 0 (Agents p) [] {})"
  have V: "HasErrors (Validate p) \<longleftrightarrow> \<not> clean st2 \<or> HasErrors rel"
    unfolding Validate_def Let_def
    by (simp add: st0_def [symmetric] case_prod_beta validate_agents_seen validate_specialists_seen
      st1_def [symmetric] st2_def [symmetric] rel_def [symmetric] clean_def)
  have own0: "ownership st0 {}" and one0: "one_to_one {}"
    by (simp_all add: st0_def ownership_def one_to_one_def)
  have st0: "clean st0 \<longleftrightarrow> header_ok p"
    using HasErrors_header [of p] by (simp add: clean_def st0_def)
  have st2: "clean st2 \<longleftrightarrow> header_ok p \<and> members_pass p {} {} (?ams @ ?sms)"
  proof (cases "clean st0")
    case False
    then show ?thesis
      using st0 validate_agents_dirty validate_specialists_dirty by (auto simp: st1_def st2_def)
  next
    case True
    note ag = validate_agents_clean [OF own0 one0 True, of p 0 "{}" "Agents p", folded st1_def]
    show ?thesis
    proof (cases "clean st1")
      case False
      then have "\<not> members_pass p {} {} (?ams @ ?sms)"
        using ag(1) members_pass_append [of p "{}" "{}" ?ams ?sms] by blast
      with False show ?thesis using validate_specialists_dirty by (auto simp: st2_def)
    next
      case clean1: True
      then have am: "members_pass p {} {} ?ams" using ag(1) by simp
      then have "one_to_one (uses_identity p ?ams)" by (simp add: members_pass_def)
      from validate_specialists_clean [OF _ this clean1, of p ?ids 0 "{}" "p_specialists p", folded st2_def]
      have "clean st2 \<longleftrightarrow> members_pass p ?ids (uses_identity p ?ams) ?sms"
        using ag(2) [OF clean1] by simp
      moreover have "fst ` set ?ams = ?ids" by force
      ultimately show ?thesis
        using am st0 True members_pass_append [of p "{}" "{}" ?ams ?sms] by simp
    qed
  qed
  have "members_pass p {} {} (?ams @ ?sms) \<longleftrightarrow> members_ok p"
    by (simp add: members_pass_def members_ok_def team_members_def)
  moreover have "\<not> HasErrors rel \<longleftrightarrow> relations_ok p"
    unfolding rel_def validate_relations_clean relations_ok_def peer_edges_def by simp
  ultimately show ?thesis using V st2 by (auto simp: team_ok_def)
qed

lemma team_ok_agents: "team_ok p \<Longrightarrow> distinct (map ag_id (Agents p))"
  by (simp add: team_ok_def members_ok_def team_members_def comp_def)

section \<open>Loading\<close>

record document =
  doc_profile :: profile
  doc_source :: string
  doc_digest :: string

datatype profile_error =
    DecodeFailed
  | LegacyGatewayMismatch string
  | EncodeFailed

definition equal_fold :: "string \<Rightarrow> string \<Rightarrow> bool" where
  "equal_fold a b \<longleftrightarrow> to_lower a = to_lower b"

fun migrate_models ::
    "string \<Rightarrow> (string, model) gomap \<Rightarrow> (profile_error, string \<times> (string, model) gomap) res" where
  "migrate_models gateway [] = Inr (gateway, [])"
| "migrate_models gateway ((alias, m) # ms) =
     (let legacy = m_legacy_gateway m in
      if legacy \<noteq> [] \<and> gateway \<noteq> [] \<and> \<not> equal_fold (trim gateway) (trim legacy)
      then Inl (LegacyGatewayMismatch alias)
      else res_bind (migrate_models (if legacy \<noteq> [] then legacy else gateway) ms) (\<lambda>(g, ms').
        Inr (g, (alias, m\<lparr>m_legacy_gateway := []\<rparr>) # ms')))"

definition migrateLegacyGateways :: "profile \<Rightarrow> (profile_error, profile) res" where
  "migrateLegacyGateways p =
     res_bind (migrate_models (p_gateway p) (p_models p)) (\<lambda>(g, ms).
     Inr (p\<lparr>p_models := ms, p_gateway := to_lower (trim g)\<rparr>))"

definition applyDefaults :: "profile \<Rightarrow> profile" where
  "applyDefaults p = (if p_schema p = 0 then p\<lparr>p_schema := CurrentSchema\<rparr> else p)"

text \<open>
  \<open>Parse\<close> and \<open>FromValue\<close>. The YAML package is third-party: \<open>yaml_decode\<close> stands for
  decoding one document with known fields only (\<open>None\<close> on any error, a second document
  included) and \<open>yaml_encode\<close> for \<open>yaml.Marshal\<close>; \<open>sha\<close> for the hexadecimal SHA-256.
\<close>

definition Parse :: "(string \<Rightarrow> profile option) \<Rightarrow> (string \<Rightarrow> string) \<Rightarrow> string \<Rightarrow> (profile_error, document) res" where
  "Parse yaml_decode sha source =
     (case yaml_decode source of
        None \<Rightarrow> Inl DecodeFailed
      | Some value \<Rightarrow>
          res_bind (migrateLegacyGateways value) (\<lambda>migrated.
          Inr \<lparr>doc_profile = applyDefaults migrated, doc_source = source, doc_digest = sha source\<rparr>))"

definition FromValue ::
    "(profile \<Rightarrow> string option) \<Rightarrow> (string \<Rightarrow> profile option) \<Rightarrow> (string \<Rightarrow> string) \<Rightarrow> profile \<Rightarrow>
     (profile_error, document) res" where
  "FromValue yaml_encode yaml_decode sha value =
     res_bind (migrateLegacyGateways value) (\<lambda>migrated.
     (case yaml_encode migrated of
        None \<Rightarrow> Inl EncodeFailed
      | Some source \<Rightarrow> Parse yaml_decode sha source))"


section \<open>Properties\<close>

text \<open>A team of two agents that consult each other and one specialist, for the witnesses.\<close>

definition sample_model :: "string \<Rightarrow> model" where
  "sample_model n = \<lparr>m_legacy_gateway = [], m_route = ''r'', m_name = n, m_reasoning_effort = [], m_options = []\<rparr>"

definition sample_profile :: profile where
  "sample_profile =
     \<lparr>p_schema = CurrentSchema, p_id = ''team'', p_revision = 1, p_name = ''Team'', p_gateway = ''g'',
      p_models = [(''a'', sample_model ''x''), (''b'', sample_model ''y''), (''c'', sample_model ''z'')],
      p_primary = \<lparr>ag_id = ''lead'', ag_model = ''a'', ag_definition = ''plans'', ag_peers = [''second''],
        ag_specialists = [''reviewer'']\<rparr>,
      p_peers = [\<lparr>ag_id = ''second'', ag_model = ''b'', ag_definition = ''doubts'', ag_peers = [], ag_specialists = []\<rparr>],
      p_specialists = [\<lparr>sp_id = ''reviewer'', sp_model = ''c'', sp_definition = ''reviews''\<rparr>],
      p_persist_reasoning = False, p_metadata = []\<rparr>"

lemma plain_bytes [simp]:
  "plain_byte CHR ''r''" "plain_byte CHR ''x''" "plain_byte CHR ''y''" "plain_byte CHR ''z''" "plain_byte CHR ''g''"
  "plain_byte CHR ''T''" "plain_byte CHR ''m''"
  by (simp_all add: plain_byte_def less_char_def)

lemma go_fields_nonempty_iff_plain: "plain_byte c \<Longrightarrow> go_fields (c # s) \<noteq> []"
proof -
  assume "plain_byte c"
  have later: "acc \<noteq> [] \<Longrightarrow> go_fields_acc acc t \<noteq> []" for acc t
  proof (induction acc t rule: go_fields_acc.induct)
    case (1 acc s)
    then show ?case by (subst go_fields_acc.simps) auto
  qed
  have "find (\<lambda>w. prefix w (c # s)) space_runes = None"
    using plain_not_space_hd [OF \<open>plain_byte c\<close>] by (auto simp: find_None_iff)
  then have "space_len (c # s) = 0" by (simp add: space_len_def)
  then have "go_fields (c # s) = go_fields_acc [c] s"
    by (simp add: go_fields_def go_fields_acc.simps [of "[]"])
  then show ?thesis using later by simp
qed

lemma normalized_definition_plain: "plain_byte c \<Longrightarrow> normalized_definition (c # s) \<noteq> []"
proof -
  assume "plain_byte c"
  then obtain w ws where fs: "go_fields (c # s) = w # ws"
    using go_fields_nonempty_iff_plain by (cases "go_fields (c # s)") auto
  then have "w \<noteq> []" using go_fields_nonempty [of w "c # s"] by simp
  then show ?thesis unfolding normalized_definition_def fs by (cases ws) (auto simp: to_lower_def)
qed

lemma sample_team_ok: "team_ok sample_profile"
proof -
  have header: "header_ok sample_profile"
    by (simp add: header_ok_def sample_profile_def sample_model_def trim_plain is_identifier_def lower_letter_def
        lower_alnum_def less_eq_char_def)
  have lower: "to_lower ''r'' = ''r''" by (simp add: to_lower_def less_eq_char_def)
  have "map_of (p_models sample_profile) ''a'' = Some (sample_model ''x'')"
    "map_of (p_models sample_profile) ''b'' = Some (sample_model ''y'')"
    "map_of (p_models sample_profile) ''c'' = Some (sample_model ''z'')"
    by (simp_all add: sample_profile_def)
  then have uses: "uses_identity sample_profile (team_members sample_profile) =
      {(''reviewer'', ModelIdentity (sample_model ''z'')), (''second'', ModelIdentity (sample_model ''y'')),
       (''lead'', ModelIdentity (sample_model ''x''))}"
    by (simp add: uses_identity_def team_members_def Agents_def) (simp add: sample_profile_def)
  have ids: "ModelIdentity (sample_model n) = [CHR ''r'', CHR 0x00] @ trim n" for n
    by (simp add: ModelIdentity_def sample_model_def trim_plain lower)
  have "one_to_one (uses_identity sample_profile (team_members sample_profile))"
    unfolding uses by (simp add: one_to_one_def ids trim_plain)
  moreover have "normalized_definition ''plans'' \<noteq> []" "normalized_definition ''doubts'' \<noteq> []"
    "normalized_definition ''reviews'' \<noteq> []"
    by (rule normalized_definition_plain, simp add: plain_byte_def less_char_def)+
  ultimately have "members_ok sample_profile"
    by (simp add: members_ok_def) (simp add: team_members_def Agents_def sample_profile_def is_identifier_def
        lower_letter_def lower_alnum_def less_eq_char_def)
  moreover have "relations_ok sample_profile"
    by (simp add: relations_ok_def peer_edges_def Agents_def sample_profile_def is_identifier_def
        lower_letter_def lower_alnum_def less_eq_char_def)
  ultimately show ?thesis using header by (simp add: team_ok_def)
qed

text \<open>
  C19: validation accepts exactly the well-formed teams. The diagnostics of a profile contain
  no error precisely when the header is complete; every member has a kebab-case identity,
  unique over agents and specialists, a known model and a non-blank definition; models and
  members correspond one to one by route and name; and peers and specialist permissions are
  distinct, refer to existing members of the right role, never to the agent itself, and
  declare each undirected peer edge once.
\<close>

theorem Validate_accepts_iff: "\<not> HasErrors (Validate p) \<longleftrightarrow> team_ok p"
  by (rule Validate_iff)

text \<open>
  consulting is symmetric. In a team that passes validation, one agent may call another
  as its peer exactly when the other may call it, although only one of the two declares the
  relation, and nobody is its own peer.
\<close>

theorem peers_symmetric:
  assumes "\<not> HasErrors (Validate p)" and "a \<in> set (Agents p)" and "b \<in> set (Agents p)"
  shows "(PeerAgentFor p a (ag_id b) = Some b \<longleftrightarrow> PeerAgentFor p b (ag_id a) = Some a) \<and>
    PeerAgentFor p a (ag_id a) = None"
proof -
  have "distinct (map ag_id (Agents p))"
    using assms(1) Validate_iff team_ok_agents by blast
  then have found: "Agent p (ag_id a) = Some a" "Agent p (ag_id b) = Some b"
    using assms(2,3) by (auto intro: Agent_distinct)
  have "PeerAgentFor p a (ag_id a) = None" by (simp add: PeerAgentFor_def found)
  moreover have "PeerAgentFor p a (ag_id b) = Some b \<longleftrightarrow> PeerAgentFor p b (ag_id a) = Some a"
    by (auto simp: PeerAgentFor_def found)
  ultimately show ?thesis by blast
qed

theorem peers_symmetric_witness:
  "PeerAgentFor sample_profile (p_primary sample_profile) ''second'' = Some (hd (p_peers sample_profile)) \<longleftrightarrow>
   PeerAgentFor sample_profile (hd (p_peers sample_profile)) ''lead'' = Some (p_primary sample_profile)"
proof -
  have "\<not> HasErrors (Validate sample_profile)" by (simp add: Validate_iff sample_team_ok)
  from peers_symmetric [OF this, of "p_primary sample_profile" "hd (p_peers sample_profile)"]
  show ?thesis by (simp add: Agents_def sample_profile_def)
qed

end
