(* ===== verification/Ledger.thy ===== *)
theory Ledger
  imports Projection Profile
begin

text \<open>
  The durable store (internal/store): its SQLite schema as a record of tables, the event
  log's transactions (event.go) and the session projection columns they maintain. A
  transaction is a function to an error or to the new tables, so an error leaves the
  store as it was, as the deferred rollback does; the one store mutex makes transactions
  atomic. Infrastructure faults of SQLite (disk, locking) are not modelled, constraint
  violations are. SHA-256 and the bytes a payload marshals to are the \<open>platform\<close>
  argument; identities (UUIDs) and the clock are arguments of the operations.
\<close>

section \<open>Schema\<close>

record platform =
  pf_sha :: "string \<Rightarrow> string"
  pf_bytes :: "json \<Rightarrow> string"

datatype session_status = StatusRunning | StatusCompleted | StatusFailed | StatusCancelled

record session =
  ss_id :: string
  ss_conversation :: string
  ss_profile :: string
  ss_revision :: int
  ss_digest :: string
  ss_title :: string
  ss_task :: string
  ss_workspace :: string
  ss_leader :: string
  ss_status :: session_status
  ss_final :: string
  ss_created :: int
  ss_updated :: int

record profile_row =
  pr_id :: string
  pr_revision :: int
  pr_digest :: string
  pr_name :: string
  pr_source :: string
  pr_created :: int

record context_record =
  cr_id :: string
  cr_session :: string
  cr_sequence :: int
  cr_kind :: kind
  cr_actor :: string
  cr_correlation :: string
  cr_causation :: string
  cr_content :: string
  cr_digest :: string
  cr_bytes :: int
  cr_created :: int

record artifact_row =
  af_session :: string
  af_artifact :: artifact
  af_created :: int

record context_epoch =
  ep_session :: string
  ep_scope_kind :: string
  ep_scope_id :: string
  ep_epoch :: int
  ep_source :: int
  ep_view :: string
  ep_digest :: string
  ep_tokens :: int
  ep_created :: int

record context_artifact =
  ca_reference :: string
  ca_session :: string
  ca_owner :: string
  ca_content :: string
  ca_digest :: string
  ca_bytes :: int
  ca_created :: int

record store =
  st_profiles :: "profile_row list"
  st_sessions :: "session list"
  st_events :: "event list"
  st_records :: "context_record list"
  st_artifacts :: "artifact_row list"
  st_epochs :: "context_epoch list"
  st_context_artifacts :: "context_artifact list"

definition empty_store :: store where
  "empty_store = \<lparr>st_profiles = [], st_sessions = [], st_events = [], st_records = [],
     st_artifacts = [], st_epochs = [], st_context_artifacts = []\<rparr>"

datatype store_error =
    Constraint
  | SessionMissing string
  | PayloadError decode_error
  | ContentError content_error
  | EmptyTask
  | StillRunning string
  | ProfileMismatch
  | ProfileInvalid
  | RevisionConflict
  | DraftStale int int
  | ProfileFailure profile_error
  | ProfileMissing string int
  | DuplicateAttachment string
  | AttachmentIdentity
  | AttachmentSize string
  | AttachmentDigest string
  | AttachmentUnavailable string
  | NotInstruction
  | BadLimit
  | BadReference
  | Ambiguous string
  | ScopeEmpty
  | EpochIncomplete
  | EpochSource int
  | EpochView
  | EpochTokens
  | EpochAhead int int
  | ContextArtifactIncomplete
  | ContextArtifactImmutable string
  | ContextMissing
  | BadCursor
  | BadQuery

section \<open>Reading the log\<close>

definition session_events :: "store \<Rightarrow> string \<Rightarrow> event list" where
  "session_events st sid = filter (\<lambda>e. ev_session e = sid) (st_events st)"

definition LastSequence :: "store \<Rightarrow> string \<Rightarrow> int" where
  "LastSequence st sid = max_or_zero (map ev_sequence (session_events st sid))"

definition Events :: "store \<Rightarrow> string \<Rightarrow> int \<Rightarrow> event list" where
  "Events st sid after =
     sort_key ev_sequence (filter (\<lambda>e. ev_session e = sid \<and> after < ev_sequence e) (st_events st))"

definition session_row :: "store \<Rightarrow> string \<Rightarrow> session option" where
  "session_row st sid = find (\<lambda>s. ss_id s = sid) (st_sessions st)"

section \<open>Appending\<close>

definition insertEvent :: "event \<Rightarrow> store \<Rightarrow> (store_error, store) res" where
  "insertEvent item st =
     (if (\<exists>e \<in> set (st_events st). ev_id e = ev_id item \<or>
            ev_session e = ev_session item \<and> ev_sequence e = ev_sequence item)
         \<or> (\<forall>s \<in> set (st_sessions st). ss_id s \<noteq> ev_session item)
      then Inl Constraint
      else Inr (st\<lparr>st_events := st_events st @ [item]\<rparr>))"

definition record_of :: "platform \<Rightarrow> event \<Rightarrow> context_record" where
  "record_of pl item =
     \<lparr>cr_id = ev_id item, cr_session = ev_session item, cr_sequence = ev_sequence item,
      cr_kind = ev_kind item, cr_actor = ev_actor item, cr_correlation = ev_correlation item,
      cr_causation = ev_causation item, cr_content = pf_bytes pl (ev_data item),
      cr_digest = pf_sha pl (pf_bytes pl (ev_data item)),
      cr_bytes = int (length (pf_bytes pl (ev_data item))), cr_created = ev_at item\<rparr>"

definition insertContextRecord :: "platform \<Rightarrow> event \<Rightarrow> store \<Rightarrow> (store_error, store) res" where
  "insertContextRecord pl item st =
     (if (\<exists>r \<in> set (st_records st). cr_id r = ev_id item \<or>
            cr_session r = ev_session item \<and> cr_sequence r = ev_sequence item)
         \<or> (\<forall>e \<in> set (st_events st). ev_session e \<noteq> ev_session item \<or> ev_sequence e \<noteq> ev_sequence item)
      then Inl Constraint
      else Inr (st\<lparr>st_records := st_records st @ [record_of pl item]\<rparr>))"

text \<open>The status, leader and answer an event writes to its session's row; empty ones write nothing.\<close>

definition projection_columns :: "event \<Rightarrow> (session_status option \<times> string \<times> string) decoded" where
  "projection_columns item =
     (case ev_kind item of
        LeadershipTransferred \<Rightarrow>
          res_bind (decode dec_leadership_transferred_data item) (\<lambda>data. Inr (None, lt_to_agent_id data, []))
      | FinalCompleted \<Rightarrow>
          res_bind (decode dec_final_completed_data item) (\<lambda>data. Inr (Some StatusCompleted, [], fc_answer data))
      | SessionFailed \<Rightarrow> Inr (Some StatusFailed, [], [])
      | SessionCancelled \<Rightarrow> Inr (Some StatusCancelled, [], [])
      | _ \<Rightarrow> Inr (None, [], []))"

definition write_columns :: "int \<Rightarrow> session_status option \<times> string \<times> string \<Rightarrow> session \<Rightarrow> session" where
  "write_columns now columns row =
     (case columns of (status, leader, final) \<Rightarrow>
        row\<lparr>ss_updated := now,
            ss_leader := (if leader \<noteq> [] then leader else ss_leader row),
            ss_status := (case status of None \<Rightarrow> ss_status row | Some s \<Rightarrow> s),
            ss_final := (if final \<noteq> [] then final else ss_final row)\<rparr>)"

definition applySessionProjection :: "event \<Rightarrow> store \<Rightarrow> (store_error, store) res" where
  "applySessionProjection item st =
     (case projection_columns item of
        Inl e \<Rightarrow> Inl (PayloadError e)
      | Inr columns \<Rightarrow>
          if length (filter (\<lambda>s. ss_id s = ev_session item) (st_sessions st)) \<noteq> 1
          then Inl (SessionMissing (ev_session item))
          else Inr (st\<lparr>st_sessions :=
            map (\<lambda>s. if ss_id s = ev_session item then write_columns (ev_at item) columns s else s)
              (st_sessions st)\<rparr>))"

definition Append ::
    "platform \<Rightarrow> string \<Rightarrow> int \<Rightarrow> string \<Rightarrow> draft \<Rightarrow> store \<Rightarrow> (store_error, event \<times> store) res" where
  "Append pl eid now sid d st =
     (let item = materialize d eid sid (LastSequence st sid + 1) now in
      res_bind (insertEvent item st) (\<lambda>st1.
      res_bind (insertContextRecord pl item st1) (\<lambda>st2.
      res_bind (applySessionProjection item st2) (\<lambda>st3.
      Inr (item, st3)))))"

section \<open>Attachments\<close>

definition validateArtifact :: "platform \<Rightarrow> artifact \<Rightarrow> (store_error, unit) res" where
  "validateArtifact pl a =
     (let r = a_ref a in
      if ar_reference r = [] \<or> ar_kind r = [] \<or> ar_mime_type r = [] then Inl AttachmentIdentity
      else if a_data a = [] \<or> ar_byte_count r \<noteq> int (length (a_data a)) then Inl (AttachmentSize (ar_reference r))
      else if pf_sha pl (a_data a) \<noteq> ar_digest r then Inl (AttachmentDigest (ar_reference r))
      else Inr ())"

fun insert_artifacts_loop ::
    "platform \<Rightarrow> string \<Rightarrow> int \<Rightarrow> string set \<Rightarrow> artifact list \<Rightarrow> store \<Rightarrow> (store_error, store) res" where
  "insert_artifacts_loop pl sid now seen [] st = Inr st"
| "insert_artifacts_loop pl sid now seen (a # as) st =
     (let reference = ar_reference (a_ref a) in
      if reference \<in> seen then Inl (DuplicateAttachment reference)
      else res_bind (validateArtifact pl a) (\<lambda>_.
        if (\<exists>r \<in> set (st_artifacts st). ar_reference (a_ref (af_artifact r)) = reference)
           \<or> (\<forall>s \<in> set (st_sessions st). ss_id s \<noteq> sid)
        then Inl Constraint
        else insert_artifacts_loop pl sid now (insert reference seen) as
          (st\<lparr>st_artifacts := st_artifacts st @
             [\<lparr>af_session = sid, af_artifact = a, af_created = now\<rparr>]\<rparr>)))"

definition insertArtifacts ::
    "platform \<Rightarrow> string \<Rightarrow> artifact list \<Rightarrow> int \<Rightarrow> store \<Rightarrow> (store_error, store) res" where
  "insertArtifacts pl sid artifacts now st = insert_artifacts_loop pl sid now {} artifacts st"

definition appendWithArtifacts ::
    "platform \<Rightarrow> string \<Rightarrow> int \<Rightarrow> string \<Rightarrow> draft \<Rightarrow> artifact list \<Rightarrow> store \<Rightarrow>
     (store_error, event \<times> store) res" where
  "appendWithArtifacts pl eid now sid d artifacts st =
     (let item = materialize d eid sid (LastSequence st sid + 1) now in
      res_bind (insertArtifacts pl sid artifacts now st) (\<lambda>st0.
      res_bind (insertEvent item st0) (\<lambda>st1.
      res_bind (insertContextRecord pl item st1) (\<lambda>st2.
      res_bind (applySessionProjection item st2) (\<lambda>st3.
      Inr (item, st3))))))"

text \<open>
  \<open>AppendInput\<close>: \<open>instruction\<close> is what the assertion \<open>draft.Data.(event.UserInstructionData)\<close>
  yields, so that the draft's payload is that value.
\<close>

definition AppendInput ::
    "platform \<Rightarrow> string \<Rightarrow> int \<Rightarrow> string \<Rightarrow> draft \<Rightarrow> user_instruction_data option \<Rightarrow> artifact list \<Rightarrow> store \<Rightarrow>
     (store_error, event \<times> store) res" where
  "AppendInput pl eid now sid d instruction artifacts st =
     (case instruction of
        None \<Rightarrow> Inl NotInstruction
      | Some data \<Rightarrow>
          let d' = d\<lparr>dr_data := Some (enc_user_instruction_data data)\<rparr> in
          (case payload_validate \<lparr>pl_input = ui_input data, pl_artifacts = artifacts\<rparr> of
             Inl e \<Rightarrow> Inl (ContentError e)
           | Inr _ \<Rightarrow>
               if artifacts = [] then Append pl eid now sid d' st
               else appendWithArtifacts pl eid now sid d' artifacts st))"

definition get_artifact :: "platform \<Rightarrow> store \<Rightarrow> string \<Rightarrow> string \<Rightarrow> (store_error, artifact) res" where
  "get_artifact pl st sid reference =
     (case find (\<lambda>r. ar_reference (a_ref (af_artifact r)) = reference \<and>
              (\<exists>owner \<in> set (st_sessions st). \<exists>current \<in> set (st_sessions st).
                 ss_id owner = af_session r \<and> ss_id current = sid \<and>
                 ss_conversation owner = ss_conversation current)) (st_artifacts st) of
        None \<Rightarrow> Inl (AttachmentUnavailable reference)
      | Some r \<Rightarrow> res_bind (validateArtifact pl (af_artifact r)) (\<lambda>_. Inr (af_artifact r)))"


section \<open>The invariant of the store\<close>

text \<open>
  The three columns of a session's row as a fold over its events: the session table is a
  materialised view of the log.
\<close>

definition step_columns :: "session_status \<times> string \<times> string \<Rightarrow> event \<Rightarrow> session_status \<times> string \<times> string" where
  "step_columns c e =
     (case (c, projection_columns e) of
        (_, Inl _) \<Rightarrow> c
      | ((status, leader, final), Inr (status', leader', final')) \<Rightarrow>
          (case status' of None \<Rightarrow> status | Some s \<Rightarrow> s,
           if leader' \<noteq> [] then leader' else leader,
           if final' \<noteq> [] then final' else final))"

definition columns_of :: "event list \<Rightarrow> session_status \<times> string \<times> string" where
  "columns_of es = foldl step_columns (StatusRunning, [], []) es"

definition row_ok :: "session \<Rightarrow> event list \<Rightarrow> bool" where
  "row_ok s es \<longleftrightarrow> (ss_status s, ss_leader s, ss_final s) = columns_of es"

definition artifacts_ok :: "platform \<Rightarrow> store \<Rightarrow> bool" where
  "artifacts_ok pl st \<longleftrightarrow>
     distinct (map (\<lambda>r. ar_reference (a_ref (af_artifact r))) (st_artifacts st)) \<and>
     (\<forall>r \<in> set (st_artifacts st). validateArtifact pl (af_artifact r) = Inr () \<and>
        af_session r \<in> ss_id ` set (st_sessions st))"

definition store_ok :: "platform \<Rightarrow> store \<Rightarrow> bool" where
  "store_ok pl st \<longleftrightarrow>
     distinct (map ss_id (st_sessions st)) \<and> distinct (map ev_id (st_events st)) \<and>
     (\<forall>e \<in> set (st_events st). ev_session e \<in> ss_id ` set (st_sessions st)) \<and>
     (\<forall>s \<in> set (st_sessions st). numbered_from 0 (session_events st (ss_id s))) \<and>
     st_records st = map (record_of pl) (st_events st) \<and>
     (\<forall>s \<in> set (st_sessions st). row_ok s (session_events st (ss_id s))) \<and>
     artifacts_ok pl st"

lemma store_ok_empty: "store_ok pl empty_store"
  by (simp add: store_ok_def empty_store_def artifacts_ok_def)

lemma store_okD:
  assumes "store_ok pl st"
  shows "distinct (map ss_id (st_sessions st))" "distinct (map ev_id (st_events st))"
    "\<And>e. e \<in> set (st_events st) \<Longrightarrow> ev_session e \<in> ss_id ` set (st_sessions st)"
    "\<And>s. s \<in> set (st_sessions st) \<Longrightarrow> numbered_from 0 (session_events st (ss_id s))"
    "st_records st = map (record_of pl) (st_events st)"
    "\<And>s. s \<in> set (st_sessions st) \<Longrightarrow> row_ok s (session_events st (ss_id s))"
    "artifacts_ok pl st"
  using assms by (auto simp: store_ok_def)

lemma session_events_numbered: "store_ok pl st \<Longrightarrow> numbered_from 0 (session_events st sid)"
proof -
  assume ok: "store_ok pl st"
  show ?thesis
  proof (cases "sid \<in> ss_id ` set (st_sessions st)")
    case True
    then show ?thesis using store_okD(4) [OF ok] by auto
  next
    case False
    then have "session_events st sid = []"
      using store_okD(3) [OF ok] by (auto simp: session_events_def filter_empty_conv)
    then show ?thesis by simp
  qed
qed

lemma max_or_zero_numbered: "numbered_from n es \<Longrightarrow> 0 \<le> n \<Longrightarrow>
    max_or_zero (map ev_sequence es) = (if es = [] then 0 else n + int (length es))"
proof (induction es arbitrary: n)
  case Nil
  then show ?case by (simp add: max_or_zero_def)
next
  case (Cons e es)
  have "max_or_zero (map ev_sequence (e # es)) = max (ev_sequence e) (max_or_zero (map ev_sequence es))"
    by (simp add: max_or_zero_def)
  then show ?case using Cons.IH [of "n + 1"] Cons.prems by (cases "es = []") (auto simp: max_def)
qed

lemma LastSequence_ok: "store_ok pl st \<Longrightarrow> LastSequence st sid = int (length (session_events st sid))"
  using max_or_zero_numbered [OF session_events_numbered, of pl st sid] by (simp add: LastSequence_def)

lemma numbered_sorted: "numbered_from n es \<Longrightarrow> sorted (map ev_sequence es)"
proof (induction es arbitrary: n)
  case (Cons e es)
  then show ?case using numbered_from_bounds [of "n + 1" es] by fastforce
qed simp

lemma numbered_after: "numbered_from n es \<Longrightarrow> n \<le> after \<Longrightarrow>
    filter (\<lambda>e. after < ev_sequence e) es = drop (nat (after - n)) es"
proof (induction es arbitrary: n)
  case (Cons e es)
  show ?case
  proof (cases "after = n")
    case True
    have "\<forall>x \<in> set es. after < ev_sequence x"
      using numbered_from_bounds [of "n + 1" es] Cons.prems True by fastforce
    then show ?thesis using True Cons.prems by (simp add: filter_id_conv)
  next
    case False
    then have "nat (after - n) = Suc (nat (after - (n + 1)))" using Cons.prems by simp
    then show ?thesis using Cons.IH [of "n + 1"] Cons.prems False by simp
  qed
qed simp

lemma Events_ok:
  assumes "store_ok pl st" and "0 \<le> after"
  shows "Events st sid after = drop (nat after) (session_events st sid)"
proof -
  have num: "numbered_from 0 (session_events st sid)" by (rule session_events_numbered [OF assms(1)])
  have "filter (\<lambda>e. ev_session e = sid \<and> after < ev_sequence e) (st_events st) =
      filter (\<lambda>e. after < ev_sequence e) (session_events st sid)"
    by (simp add: session_events_def conj_commute)
  also have "\<dots> = drop (nat after) (session_events st sid)"
    using numbered_after [OF num assms(2)] by simp
  finally have eq: "Events st sid after = sort_key ev_sequence (drop (nat after) (session_events st sid))"
    by (simp add: Events_def)
  have "sorted (map ev_sequence (drop (nat after) (session_events st sid)))"
    using numbered_sorted [OF num] by (simp add: drop_map [symmetric] sorted_wrt_drop)
  then show ?thesis unfolding eq by (rule sort_key_id_if_sorted)
qed


section \<open>What an append does\<close>

lemma row_ok_append:
  assumes "row_ok s es" and "projection_columns item = Inr c"
  shows "row_ok (write_columns now c s) (es @ [item])"
  using assms by (auto simp: row_ok_def columns_of_def step_columns_def write_columns_def split: prod.splits)

lemma write_columns_frame [simp]:
  "ss_id (write_columns now c s) = ss_id s" "ss_conversation (write_columns now c s) = ss_conversation s"
  "ss_task (write_columns now c s) = ss_task s" "ss_created (write_columns now c s) = ss_created s"
  "ss_profile (write_columns now c s) = ss_profile s" "ss_revision (write_columns now c s) = ss_revision s"
  "ss_digest (write_columns now c s) = ss_digest s" "ss_workspace (write_columns now c s) = ss_workspace s"
  "ss_title (write_columns now c s) = ss_title s"
  by (simp_all add: write_columns_def split: prod.splits)

text \<open>The three inserts in order, as one condition and one effect.\<close>

definition log_item :: "platform \<Rightarrow> event \<Rightarrow> session_status option \<times> string \<times> string \<Rightarrow> store \<Rightarrow> store" where
  "log_item pl item c st = st\<lparr>st_events := st_events st @ [item], st_records := st_records st @ [record_of pl item],
     st_sessions := map (\<lambda>s. if ss_id s = ev_session item then write_columns (ev_at item) c s else s) (st_sessions st)\<rparr>"

definition write_item :: "platform \<Rightarrow> event \<Rightarrow> store \<Rightarrow> (store_error, store) res" where
  "write_item pl item st =
     res_bind (insertEvent item st) (\<lambda>st1.
     res_bind (insertContextRecord pl item st1) (\<lambda>st2. applySessionProjection item st2))"

lemma write_item_Inr:
  assumes "write_item pl item st = Inr st'"
  obtains c where "projection_columns item = Inr c" "st' = log_item pl item c st"
    "ev_session item \<in> ss_id ` set (st_sessions st)" "ev_id item \<notin> ev_id ` set (st_events st)"
proof -
  obtain st1 st2 where
    st1: "insertEvent item st = Inr st1" and
    st2: "insertContextRecord pl item st1 = Inr st2" and
    st3: "applySessionProjection item st2 = Inr st'"
    using assms by (auto simp: write_item_def res_bind_Inr_iff)
  have e1: "st1 = st\<lparr>st_events := st_events st @ [item]\<rparr>" "ev_session item \<in> ss_id ` set (st_sessions st)"
    "ev_id item \<notin> ev_id ` set (st_events st)"
    using st1 by (force simp: insertEvent_def split: if_splits)+
  have e2: "st2 = st1\<lparr>st_records := st_records st1 @ [record_of pl item]\<rparr>"
    using st2 by (auto simp: insertContextRecord_def split: if_splits)
  obtain c where c: "projection_columns item = Inr c"
    and e3: "st' = st2\<lparr>st_sessions := map (\<lambda>s. if ss_id s = ev_session item
        then write_columns (ev_at item) c s else s) (st_sessions st2)\<rparr>"
    using st3 by (auto simp: applySessionProjection_def split: sum.splits if_splits)
  have "st' = log_item pl item c st" unfolding e3 e2 e1(1) log_item_def by simp
  with c e1 that show thesis by blast
qed

lemma filter_one:
  assumes "distinct (map f xs)" and "k \<in> f ` set xs"
  shows "length (filter (\<lambda>x. f x = k) xs) = 1"
  using assms by (induction xs) (auto simp: filter_empty_conv image_iff)

lemma write_item_succeeds:
  assumes ok: "store_ok pl st" and "ev_session item \<in> ss_id ` set (st_sessions st)"
    and "ev_id item \<notin> ev_id ` set (st_events st)" and "projection_columns item = Inr c"
    and seq: "ev_sequence item = LastSequence st (ev_session item) + 1"
  shows "write_item pl item st = Inr (log_item pl item c st)"
proof -
  have new: "\<not> (ev_session e = ev_session item \<and> ev_sequence e = ev_sequence item)" if "e \<in> set (st_events st)" for e
    using numbered_from_bounds [OF session_events_numbered [OF ok, of "ev_session item"], of e] that
      LastSequence_ok [OF ok] seq by (auto simp: session_events_def)
  have "insertEvent item st = Inr (st\<lparr>st_events := st_events st @ [item]\<rparr>)"
  proof -
    have "\<not> (\<exists>e \<in> set (st_events st). ev_id e = ev_id item \<or>
        ev_session e = ev_session item \<and> ev_sequence e = ev_sequence item)"
      using new assms(3) by (metis image_eqI)
    moreover have "\<not> (\<forall>s \<in> set (st_sessions st). ss_id s \<noteq> ev_session item)"
      using assms(2) by auto
    ultimately show ?thesis unfolding insertEvent_def by argo
  qed
  moreover have "insertContextRecord pl item (st\<lparr>st_events := st_events st @ [item]\<rparr>) =
      Inr (st\<lparr>st_events := st_events st @ [item], st_records := st_records st @ [record_of pl item]\<rparr>)"
  proof -
    have "\<not> (\<exists>r \<in> set (st_records st). cr_id r = ev_id item \<or>
        cr_session r = ev_session item \<and> cr_sequence r = ev_sequence item)"
      unfolding store_okD(5) [OF ok] using new assms(3) by (auto simp: record_of_def image_iff)
    then show ?thesis by (simp add: insertContextRecord_def)
  qed
  ultimately show ?thesis
    using assms filter_one [OF store_okD(1) [OF ok] assms(2)]
    by (simp add: write_item_def applySessionProjection_def log_item_def)
qed

lemma log_item_events:
  "session_events (log_item pl item c st) sid =
     session_events st sid @ (if ev_session item = sid then [item] else [])"
  by (simp add: log_item_def session_events_def)

lemma log_item_tables:
  "st_sessions (log_item pl item c st) =
     map (\<lambda>s. if ss_id s = ev_session item then write_columns (ev_at item) c s else s) (st_sessions st)"
  "st_events (log_item pl item c st) = st_events st @ [item]"
  "st_profiles (log_item pl item c st) = st_profiles st"
  "st_artifacts (log_item pl item c st) = st_artifacts st"
  "st_epochs (log_item pl item c st) = st_epochs st"
  "st_context_artifacts (log_item pl item c st) = st_context_artifacts st"
  by (simp_all add: log_item_def)

lemma log_item_ids: "map ss_id (st_sessions (log_item pl item c st)) = map ss_id (st_sessions st)"
  by (simp add: log_item_def)

lemma log_item_sessions: "ss_id ` set (st_sessions (log_item pl item c st)) = ss_id ` set (st_sessions st)"
  using arg_cong [OF log_item_ids, of set] by simp

lemma log_item_ok:
  assumes ok: "store_ok pl st" and known: "ev_session item \<in> ss_id ` set (st_sessions st)"
    and fresh: "ev_id item \<notin> ev_id ` set (st_events st)" and c: "projection_columns item = Inr c"
    and seq: "ev_sequence item = LastSequence st (ev_session item) + 1"
  shows "store_ok pl (log_item pl item c st)"
proof -
  let ?st = "log_item pl item c st"
  note ids = log_item_ids [of pl item c st]
  have numbered: "numbered_from 0 (session_events ?st sid)" for sid
    using session_events_numbered [OF ok, of sid] seq LastSequence_ok [OF ok, of sid]
    by (simp add: log_item_events numbered_from_append)
  have rows: "row_ok s (session_events ?st (ss_id s))" if mem: "s \<in> set (st_sessions ?st)" for s
  proof -
    have "s \<in> (\<lambda>s. if ss_id s = ev_session item then write_columns (ev_at item) c s else s) ` set (st_sessions st)"
      using mem unfolding log_item_tables set_map .
    then obtain r where r: "r \<in> set (st_sessions st)"
      and s: "s = (if ss_id r = ev_session item then write_columns (ev_at item) c r else r)"
      by (rule imageE)
    show ?thesis
      using store_okD(6) [OF ok r] row_ok_append [OF _ c] s by (auto simp: log_item_events)
  qed
  have "artifacts_ok pl ?st"
    using store_okD(7) [OF ok] log_item_sessions [of pl item c st]
    by (simp add: artifacts_ok_def) (simp add: log_item_def)
  moreover have "\<forall>e \<in> set (st_events ?st). ev_session e \<in> ss_id ` set (st_sessions ?st)"
    unfolding log_item_sessions using store_okD(3) [OF ok] known by (simp add: log_item_def)
  moreover have "distinct (map ev_id (st_events ?st))"
    using store_okD(2) [OF ok] fresh by (simp add: log_item_def)
  moreover have "st_records ?st = map (record_of pl) (st_events ?st)"
    using store_okD(5) [OF ok] by (simp add: log_item_def)
  ultimately show ?thesis
    unfolding store_ok_def ids using store_okD(1) [OF ok] numbered rows by simp
qed

lemma Append_write:
  "Append pl eid now sid d st =
     (let item = materialize d eid sid (LastSequence st sid + 1) now in
      res_bind (write_item pl item st) (\<lambda>st'. Inr (item, st')))"
proof -
  have assoc: "res_bind (res_bind r f) g = res_bind r (\<lambda>x. res_bind (f x) g)" for r f g
    by (cases r) auto
  show ?thesis by (simp add: Append_def write_item_def Let_def assoc)
qed

lemma Append_Inr:
  assumes "Append pl eid now sid d st = Inr (item, st')"
  obtains c where "item = materialize d eid sid (LastSequence st sid + 1) now"
    "projection_columns item = Inr c" "st' = log_item pl item c st"
    "sid \<in> ss_id ` set (st_sessions st)" "eid \<notin> ev_id ` set (st_events st)"
proof -
  have item: "item = materialize d eid sid (LastSequence st sid + 1) now"
    and w: "write_item pl item st = Inr st'"
    using assms by (auto simp: Append_write Let_def res_bind_Inr_iff)
  from w show thesis
    by (rule write_item_Inr) (use item that in auto)
qed

lemma Append_ok:
  assumes "store_ok pl st" and "Append pl eid now sid d st = Inr (item, st')"
  shows "store_ok pl st'"
  using assms(2)
proof (rule Append_Inr)
  fix c
  assume "item = materialize d eid sid (LastSequence st sid + 1) now"
    "projection_columns item = Inr c" "st' = log_item pl item c st"
    "sid \<in> ss_id ` set (st_sessions st)" "eid \<notin> ev_id ` set (st_events st)"
  then show ?thesis using log_item_ok [OF assms(1), of item c] by simp
qed

lemma Append_succeeds:
  assumes "store_ok pl st" and "sid \<in> ss_id ` set (st_sessions st)" and "eid \<notin> ev_id ` set (st_events st)"
    and "projection_columns (materialize d eid sid (LastSequence st sid + 1) now) = Inr c"
  shows "Append pl eid now sid d st =
    Inr (materialize d eid sid (LastSequence st sid + 1) now,
         log_item pl (materialize d eid sid (LastSequence st sid + 1) now) c st)"
  using write_item_succeeds [OF assms(1) _ _ assms(4)] assms by (simp add: Append_write Let_def)


section \<open>Attachments with an event\<close>

lemma validateArtifact_unit: "validateArtifact pl a = Inr u \<Longrightarrow> validateArtifact pl a = Inr ()"
  by simp

lemma insert_artifacts_loop_Inr:
  "insert_artifacts_loop pl sid now seen as st = Inr st' \<Longrightarrow>
   st' = st\<lparr>st_artifacts := st_artifacts st @
     map (\<lambda>a. \<lparr>af_session = sid, af_artifact = a, af_created = now\<rparr>) as\<rparr> \<and>
   (\<forall>a \<in> set as. validateArtifact pl a = Inr ()) \<and>
   (as \<noteq> [] \<longrightarrow> sid \<in> ss_id ` set (st_sessions st)) \<and>
   distinct (map (\<lambda>a. ar_reference (a_ref a)) as) \<and>
   (\<forall>a \<in> set as. \<forall>r \<in> set (st_artifacts st). ar_reference (a_ref (af_artifact r)) \<noteq> ar_reference (a_ref a))"
proof (induction pl sid now seen "as" st rule: insert_artifacts_loop.induct)
  case (1 pl sid now seen st)
  then show ?case by simp
next
  case (2 pl sid now seen a "as" st)
  let ?row = "\<lambda>a. \<lparr>af_session = sid, af_artifact = a, af_created = now\<rparr>"
  let ?st = "st\<lparr>st_artifacts := st_artifacts st @ [?row a]\<rparr>"
  have new: "ar_reference (a_ref a) \<notin> seen" and valid: "validateArtifact pl a = Inr ()"
    and free: "\<forall>r \<in> set (st_artifacts st). ar_reference (a_ref (af_artifact r)) \<noteq> ar_reference (a_ref a)"
    and known: "sid \<in> ss_id ` set (st_sessions st)"
    and rest: "insert_artifacts_loop pl sid now (insert (ar_reference (a_ref a)) seen) as ?st = Inr st'"
    using "2.prems" by (auto simp: Let_def res_bind_Inr_iff split: if_splits)
  have cond: "\<not> ((\<exists>r \<in> set (st_artifacts st). ar_reference (a_ref (af_artifact r)) = ar_reference (a_ref a)) \<or>
      (\<forall>s \<in> set (st_sessions st). ss_id s \<noteq> sid))"
    using free known by auto
  note IH = "2.IH" [OF refl new cond rest]
  have "st' = ?st\<lparr>st_artifacts := st_artifacts ?st @ map ?row as\<rparr>"
    using IH by (rule conjunct1)
  then have "st' = st\<lparr>st_artifacts := st_artifacts st @ map ?row (a # as)\<rparr>" by simp
  then show ?case using IH valid free known by (auto simp: image_iff)
qed

lemma insertArtifacts_ok:
  assumes ok: "store_ok pl st" and ins: "insertArtifacts pl sid as now st = Inr st'"
  shows "store_ok pl st'"
proof -
  let ?row = "\<lambda>a. \<lparr>af_session = sid, af_artifact = a, af_created = now\<rparr>"
  note facts = insert_artifacts_loop_Inr [OF ins [unfolded insertArtifacts_def]]
  have st': "st' = st\<lparr>st_artifacts := st_artifacts st @ map ?row as\<rparr>" using facts by (rule conjunct1)
  have "distinct (map (\<lambda>r. ar_reference (a_ref (af_artifact r))) (st_artifacts st'))"
    using facts store_okD(7) [OF ok] by (auto simp: st' artifacts_ok_def comp_def)
  moreover have "\<forall>r \<in> set (st_artifacts st'). validateArtifact pl (af_artifact r) = Inr () \<and>
      af_session r \<in> ss_id ` set (st_sessions st')"
    using facts store_okD(7) [OF ok] by (auto simp: st' artifacts_ok_def)
  ultimately have "artifacts_ok pl st'" by (simp add: artifacts_ok_def)
  moreover have "session_events st' = session_events st"
    by (rule ext) (simp add: session_events_def st')
  ultimately show ?thesis
    using store_okD [OF ok] by (simp add: store_ok_def) (simp add: st')
qed

lemma insertArtifacts_log:
  assumes "insertArtifacts pl sid as now st = Inr st'"
  shows "st_events st' = st_events st" "st_sessions st' = st_sessions st" "st_records st' = st_records st"
    "st_artifacts st' = st_artifacts st @ map (\<lambda>a. \<lparr>af_session = sid, af_artifact = a, af_created = now\<rparr>) as"
  using insert_artifacts_loop_Inr [OF assms [unfolded insertArtifacts_def]] by auto

lemma appendWithArtifacts_write:
  "appendWithArtifacts pl eid now sid d as st =
     (let item = materialize d eid sid (LastSequence st sid + 1) now in
      res_bind (insertArtifacts pl sid as now st) (\<lambda>st0.
      res_bind (write_item pl item st0) (\<lambda>st'. Inr (item, st'))))"
proof -
  have assoc: "res_bind (res_bind r f) g = res_bind r (\<lambda>x. res_bind (f x) g)" for r f g
    by (cases r) auto
  show ?thesis by (simp add: appendWithArtifacts_def write_item_def Let_def assoc)
qed

text \<open>
  Both ways of appending an instruction: the attachments and the event are written
  together or not at all.
\<close>

lemma AppendInput_Inr:
  assumes "AppendInput pl eid now sid d (Some data) as st = Inr (item, st')"
  obtains st0 c where "insertArtifacts pl sid as now st = Inr st0"
    "item = materialize (d\<lparr>dr_data := Some (enc_user_instruction_data data)\<rparr>) eid sid (LastSequence st sid + 1) now"
    "projection_columns item = Inr c" "st' = log_item pl item c st0"
    "sid \<in> ss_id ` set (st_sessions st0)" "eid \<notin> ev_id ` set (st_events st0)"
    "payload_validate \<lparr>pl_input = ui_input data, pl_artifacts = as\<rparr> = Inr ()"
proof (cases "as = []")
  case True
  then have valid: "payload_validate \<lparr>pl_input = ui_input data, pl_artifacts = as\<rparr> = Inr ()"
    and app: "Append pl eid now sid (d\<lparr>dr_data := Some (enc_user_instruction_data data)\<rparr>) st = Inr (item, st')"
    using assms by (auto simp: AppendInput_def Let_def split: sum.splits)
  have none: "insertArtifacts pl sid as now st = Inr st" by (simp add: insertArtifacts_def True)
  from app show thesis
    by (rule Append_Inr) (use none valid that in blast)
next
  case False
  then have valid: "payload_validate \<lparr>pl_input = ui_input data, pl_artifacts = as\<rparr> = Inr ()"
    and app: "appendWithArtifacts pl eid now sid (d\<lparr>dr_data := Some (enc_user_instruction_data data)\<rparr>) as st = Inr (item, st')"
    using assms by (auto simp: AppendInput_def Let_def split: sum.splits)
  obtain st0 where st0: "insertArtifacts pl sid as now st = Inr st0"
    and item: "item = materialize (d\<lparr>dr_data := Some (enc_user_instruction_data data)\<rparr>) eid sid (LastSequence st sid + 1) now"
    and w: "write_item pl item st0 = Inr st'"
    using app by (auto simp: appendWithArtifacts_write Let_def res_bind_Inr_iff)
  from w show thesis
    by (rule write_item_Inr) (use st0 item valid that in auto)
qed

lemma LastSequence_artifacts:
  "insertArtifacts pl sid as now st = Inr st0 \<Longrightarrow> LastSequence st0 i = LastSequence st i"
  by (simp add: LastSequence_def session_events_def insertArtifacts_log)

lemma AppendInput_ok:
  assumes "store_ok pl st" and "AppendInput pl eid now sid d (Some data) as st = Inr (item, st')"
  shows "store_ok pl st'"
  using assms(2)
proof (rule AppendInput_Inr)
  fix st0 c
  assume st0: "insertArtifacts pl sid as now st = Inr st0"
    and item: "item = materialize (d\<lparr>dr_data := Some (enc_user_instruction_data data)\<rparr>) eid sid (LastSequence st sid + 1) now"
    and c: "projection_columns item = Inr c" "st' = log_item pl item c st0"
      "sid \<in> ss_id ` set (st_sessions st0)" "eid \<notin> ev_id ` set (st_events st0)"
  show ?thesis
    unfolding c(2)
    by (rule log_item_ok [OF insertArtifacts_ok [OF assms(1) st0]])
      (use item c LastSequence_artifacts [OF st0] in auto)
qed

section \<open>The session table and the replay\<close>

lemma terminal_columns:
  "projection_columns e = Inr (status, l, f) \<Longrightarrow>
   (status \<noteq> None \<longleftrightarrow> ev_kind e \<in> {FinalCompleted, SessionFailed, SessionCancelled}) \<and> status \<noteq> Some StatusRunning"
  by (cases "ev_kind e") (auto simp: projection_columns_def res_bind_Inr_iff)

definition projected :: "session_status \<times> string \<times> string \<Rightarrow> projection \<Rightarrow> bool" where
  "projected c p \<longleftrightarrow>
     (fst c \<noteq> StatusRunning \<longleftrightarrow> pj_terminal p) \<and>
     (fst c = StatusFailed \<longrightarrow> pj_failed p) \<and> (fst c = StatusCancelled \<longrightarrow> pj_cancelled p)"

lemma step_columns_status:
  assumes "apply_kind e p = Inr q"
  shows "fst (step_columns c e) =
    (case ev_kind e of FinalCompleted \<Rightarrow> StatusCompleted | SessionFailed \<Rightarrow> StatusFailed
     | SessionCancelled \<Rightarrow> StatusCancelled | _ \<Rightarrow> fst c)"
proof (cases "ev_kind e = FinalCompleted")
  case True
  then obtain x where "decode dec_final_completed_data e = Inr x"
    using assms by (auto simp: apply_kind_def res_bind_Inr_iff)
  with True show ?thesis by (simp add: step_columns_def projection_columns_def split: prod.splits)
next
  case False
  then show ?thesis
    by (cases "ev_kind e") (auto simp: step_columns_def projection_columns_def res_bind_Inr_iff split: prod.splits sum.splits)
qed

lemma step_projected:
  assumes "projected c p" and "apply_kind e p = Inr q"
  shows "projected (step_columns c e) (q\<lparr>pj_last := n\<rparr>)"
  using assms(1) unfolding projected_def step_columns_status [OF assms(2)]
  by (cases "ev_kind e") (simp_all add: apply_kind_flags [OF assms(2)])

lemma replay_projected:
  assumes "numbered_from (pj_last p) es" and "res_fold Apply p es = Inr q" and "projected c p"
  shows "projected (foldl step_columns c es) q"
  using assms
proof (induction es arbitrary: p c)
  case Nil
  then show ?case by simp
next
  case (Cons e es)
  then obtain u where u: "Apply p e = Inr u" and rest: "res_fold Apply u es = Inr q"
    by (auto simp: res_bind_Inr_iff)
  from u obtain r where r: "apply_kind e p = Inr r" and ur: "u = r\<lparr>pj_last := ev_sequence e\<rparr>"
    using Cons.prems(1) by (auto elim!: Apply_cases)
  have "numbered_from (pj_last u) es" using Cons.prems(1) ur by simp
  moreover have "projected (step_columns c e) u"
    using step_projected [OF Cons.prems(3) r] ur by simp
  ultimately show ?case using Cons.IH rest by simp
qed

lemma session_row_in: "session_row st sid = Some s \<Longrightarrow> s \<in> set (st_sessions st) \<and> ss_id s = sid"
  by (auto simp: session_row_def find_Some_iff)

lemma row_status_terminal:
  assumes ok: "store_ok pl st" and row: "session_row st sid = Some s" and rep: "Replay sid (Events st sid 0) = Inr p"
  shows "(ss_status s = StatusRunning \<longleftrightarrow> \<not> pj_terminal p) \<and>
    (ss_status s = StatusFailed \<longrightarrow> pj_failed p) \<and> (ss_status s = StatusCancelled \<longrightarrow> pj_cancelled p)"
proof -
  have s: "s \<in> set (st_sessions st)" "ss_id s = sid" using session_row_in [OF row] by auto
  have es: "Events st sid 0 = session_events st sid" using Events_ok [OF ok, of 0] by simp
  have "projected (columns_of (session_events st sid)) p"
    unfolding columns_of_def
    by (rule replay_projected [where p = "new_projection sid"])
      (use rep es session_events_numbered [OF ok] in \<open>auto simp: Replay_def new_projection_def projected_def\<close>)
  then have "projected (ss_status s, ss_leader s, ss_final s) p"
    using store_okD(6) [OF ok s(1)] s(2) by (simp add: row_ok_def)
  then show ?thesis by (auto simp: projected_def)
qed


lemma find_unique:
  assumes "distinct (map f xs)" and "x \<in> set xs" and "P x" and only: "\<And>y. P y \<Longrightarrow> f y = f x"
  shows "find P xs = Some x"
proof (cases "find P xs")
  case None
  then show ?thesis using assms(2,3) by (auto simp: find_None_iff)
next
  case (Some y)
  then have "y \<in> set xs" "P y" by (auto simp: find_Some_iff)
  moreover from only [OF \<open>P y\<close>] have "f y = f x" .
  ultimately have "y = x" using assms(1,2) by (simp add: distinct_map inj_on_def)
  with Some show ?thesis by simp
qed

lemma get_artifact_of_row:
  assumes ok: "artifacts_ok pl st" and r: "r \<in> set (st_artifacts st)" and known: "sid \<in> ss_id ` set (st_sessions st)"
    and own: "af_session r = sid"
  shows "get_artifact pl st sid (ar_reference (a_ref (af_artifact r))) = Inr (af_artifact r)"
proof -
  let ?P = "\<lambda>x. ar_reference (a_ref (af_artifact x)) = ar_reference (a_ref (af_artifact r)) \<and>
      (\<exists>owner \<in> set (st_sessions st). \<exists>current \<in> set (st_sessions st).
         ss_id owner = af_session x \<and> ss_id current = sid \<and> ss_conversation owner = ss_conversation current)"
  obtain s where "s \<in> set (st_sessions st)" "ss_id s = sid" using known by auto
  then have "\<exists>owner \<in> set (st_sessions st). \<exists>current \<in> set (st_sessions st). ss_id owner = af_session r \<and>
      ss_id current = sid \<and> ss_conversation owner = ss_conversation current"
    unfolding own by (intro bexI [of _ s]) auto
  then have "?P r" by simp
  moreover have "distinct (map (\<lambda>r. ar_reference (a_ref (af_artifact r))) (st_artifacts st))"
    using ok by (simp add: artifacts_ok_def)
  ultimately have "find ?P (st_artifacts st) = Some r"
    using r by (intro find_unique [where f = "\<lambda>r. ar_reference (a_ref (af_artifact r))"]) auto
  then show ?thesis
    using ok r by (simp add: get_artifact_def artifacts_ok_def)
qed

section \<open>Properties\<close>

definition sample_platform :: platform where
  "sample_platform = \<lparr>pf_sha = (\<lambda>s. s), pf_bytes = (\<lambda>j. ''{}'')\<rparr>"

definition sample_row :: "string \<Rightarrow> session" where
  "sample_row sid = \<lparr>ss_id = sid, ss_conversation = sid, ss_profile = ''team'', ss_revision = 1, ss_digest = ''d'',
     ss_title = ''t'', ss_task = ''t'', ss_workspace = [], ss_leader = [], ss_status = StatusRunning,
     ss_final = [], ss_created = 1, ss_updated = 1\<rparr>"

definition sample_store :: store where
  "sample_store = empty_store\<lparr>st_sessions := [sample_row ''s'']\<rparr>"

lemma sample_store_ok: "store_ok sample_platform sample_store"
  by (simp add: store_ok_def sample_store_def empty_store_def sample_row_def session_events_def
      artifacts_ok_def row_ok_def columns_of_def)

definition sample_draft :: draft where
  "sample_draft = \<lparr>dr_kind = SessionCancelled, dr_actor = ''user'', dr_correlation = [], dr_causation = [], dr_data = None\<rparr>"

text \<open>
  C3: the log is append-only, gap-free and isolated by session. When \<open>Append\<close> succeeds on
  a well-formed store, the event it returns carries the next sequence number of its session,
  reading that session's log gives the old log followed by exactly that event, every other
  session's log reads as before, the archive holds one record per event in the same order,
  and the store is well-formed again.
\<close>

theorem Append_contract:
  assumes ok: "store_ok pl st" and app: "Append pl eid now sid d st = Inr (item, st')"
  shows "store_ok pl st' \<and> ev_sequence item = LastSequence st sid + 1 \<and>
    Events st' sid 0 = Events st sid 0 @ [item] \<and>
    (\<forall>other. other \<noteq> sid \<longrightarrow> Events st' other 0 = Events st other 0) \<and>
    st_records st' = st_records st @ [record_of pl item]"
  using app
proof (rule Append_Inr)
  fix c
  assume item: "item = materialize d eid sid (LastSequence st sid + 1) now" and st': "st' = log_item pl item c st"
  have ok': "store_ok pl st'" by (rule Append_ok [OF ok app])
  have ev: "Events st' i 0 = session_events st' i" "Events st i 0 = session_events st i" for i
    using Events_ok [OF ok', of 0] Events_ok [OF ok, of 0] by simp_all
  show ?thesis
    unfolding ev using ok' item by (simp add: st' log_item_events) (simp add: log_item_def)
qed

theorem Append_contract_witness:
  "\<exists>item st'. store_ok sample_platform st' \<and> ev_sequence item = LastSequence sample_store ''s'' + 1 \<and>
     Events st' ''s'' 0 = Events sample_store ''s'' 0 @ [item]"
proof -
  let ?item = "materialize sample_draft ''e'' ''s'' (LastSequence sample_store ''s'' + 1) 7"
  have "Append sample_platform ''e'' 7 ''s'' sample_draft sample_store =
      Inr (?item, log_item sample_platform ?item (Some StatusCancelled, [], []) sample_store)"
    by (rule Append_succeeds [OF sample_store_ok])
      (simp_all add: sample_store_def sample_row_def empty_store_def projection_columns_def sample_draft_def)
  from Append_contract [OF sample_store_ok this] show ?thesis by blast
qed

text \<open>
  when an append is refused. On a well-formed store \<open>Append\<close> succeeds exactly when the
  session exists, the event identity is new, and the payload of a leadership transfer or a
  final answer decodes; the sequence number it allocates never collides.
\<close>

theorem Append_succeeds_iff:
  assumes ok: "store_ok pl st"
  shows "(\<exists>r. Append pl eid now sid d st = Inr r) \<longleftrightarrow>
    sid \<in> ss_id ` set (st_sessions st) \<and> eid \<notin> ev_id ` set (st_events st) \<and>
    (\<exists>c. projection_columns (materialize d eid sid (LastSequence st sid + 1) now) = Inr c)"
proof
  assume "\<exists>r. Append pl eid now sid d st = Inr r"
  then obtain item st' where "Append pl eid now sid d st = Inr (item, st')" by auto
  then show "sid \<in> ss_id ` set (st_sessions st) \<and> eid \<notin> ev_id ` set (st_events st) \<and>
      (\<exists>c. projection_columns (materialize d eid sid (LastSequence st sid + 1) now) = Inr c)"
    by (rule Append_Inr) blast
next
  assume "sid \<in> ss_id ` set (st_sessions st) \<and> eid \<notin> ev_id ` set (st_events st) \<and>
      (\<exists>c. projection_columns (materialize d eid sid (LastSequence st sid + 1) now) = Inr c)"
  then show "\<exists>r. Append pl eid now sid d st = Inr r"
    using Append_succeeds [OF ok] by blast
qed

theorem Append_succeeds_iff_witness:
  "(\<exists>r. Append sample_platform ''e'' 7 ''s'' sample_draft sample_store = Inr r) \<and>
   \<not> (\<exists>r. Append sample_platform ''e'' 7 ''t'' sample_draft sample_store = Inr r)"
  unfolding Append_succeeds_iff [OF sample_store_ok]
  by (simp add: sample_store_def sample_row_def empty_store_def projection_columns_def sample_draft_def)

text \<open>
  The session table and the log tell the same story. On a well-formed store, the status
  column says running exactly when a replay of the session's events is not terminal, a
  failed status means that the replay saw a failure, and a cancelled one that it saw a
  cancellation.
\<close>

theorem session_row_agrees_with_replay:
  assumes "store_ok pl st" and "session_row st sid = Some s" and "Replay sid (Events st sid 0) = Inr p"
  shows "(ss_status s = StatusRunning \<longleftrightarrow> \<not> pj_terminal p) \<and>
    (ss_status s = StatusFailed \<longrightarrow> pj_failed p) \<and> (ss_status s = StatusCancelled \<longrightarrow> pj_cancelled p)"
  using assms by (rule row_status_terminal)

theorem session_row_agrees_with_replay_witness:
  "ss_status (sample_row ''s'') = StatusRunning \<longleftrightarrow> \<not> pj_terminal (new_projection ''s'')"
  using session_row_agrees_with_replay [OF sample_store_ok, of "''s''" "sample_row ''s''" "new_projection ''s''"]
  by (simp add: session_row_def sample_store_def sample_row_def empty_store_def Events_def Replay_def)

text \<open>
  An instruction with attachments is atomic. When \<open>AppendInput\<close> succeeds, its event is
  the one new event of the session, every attachment it named can be fetched back by that
  session byte for byte, and the store is well-formed again.
\<close>

theorem AppendInput_contract:
  assumes ok: "store_ok pl st" and app: "AppendInput pl eid now sid d (Some data) as st = Inr (item, st')"
  shows "store_ok pl st' \<and> Events st' sid 0 = Events st sid 0 @ [item] \<and>
    decode dec_user_instruction_data item = Inr data \<and>
    (\<forall>a \<in> set as. get_artifact pl st' sid (ar_reference (a_ref a)) = Inr a)"
  using app
proof (rule AppendInput_Inr)
  fix st0 c
  assume st0: "insertArtifacts pl sid as now st = Inr st0"
    and item: "item = materialize (d\<lparr>dr_data := Some (enc_user_instruction_data data)\<rparr>) eid sid (LastSequence st sid + 1) now"
    and st': "st' = log_item pl item c st0" and known: "sid \<in> ss_id ` set (st_sessions st0)"
  have ok': "store_ok pl st'" by (rule AppendInput_ok [OF ok app])
  have ev: "Events st' i 0 = session_events st' i" "Events st i 0 = session_events st i" for i
    using Events_ok [OF ok', of 0] Events_ok [OF ok, of 0] by simp_all
  have known': "sid \<in> ss_id ` set (st_sessions st')" using known by (simp add: st' log_item_sessions)
  have "get_artifact pl st' sid (ar_reference (a_ref a)) = Inr a" if "a \<in> set as" for a
    using get_artifact_of_row [OF store_okD(7) [OF ok'] _ known', of "\<lparr>af_session = sid, af_artifact = a, af_created = now\<rparr>"]
      insertArtifacts_log(4) [OF st0] that by (simp add: st' log_item_tables)
  then show ?thesis
    unfolding ev using ok' insertArtifacts_log [OF st0]
    by (simp add: st' log_item_events) (simp add: session_events_def item user_instruction_codec.decode_materialize)
qed

definition sample_instruction :: user_instruction_data where
  "sample_instruction = \<lparr>ui_text = ''go'', ui_input = content_text ''go''\<rparr>"

theorem AppendInput_contract_witness:
  "\<exists>item st'. store_ok sample_platform st' \<and> Events st' ''s'' 0 = Events sample_store ''s'' 0 @ [item] \<and>
     decode dec_user_instruction_data item = Inr sample_instruction"
proof -
  let ?d = "sample_draft\<lparr>dr_kind := UserInstruction, dr_data := Some (enc_user_instruction_data sample_instruction)\<rparr>"
  let ?item = "materialize ?d ''e'' ''s'' (LastSequence sample_store ''s'' + 1) 7"
  have "Append sample_platform ''e'' 7 ''s'' ?d sample_store =
      Inr (?item, log_item sample_platform ?item (None, [], []) sample_store)"
    by (rule Append_succeeds [OF sample_store_ok])
      (simp_all add: sample_store_def sample_row_def empty_store_def projection_columns_def sample_draft_def)
  then have "AppendInput sample_platform ''e'' 7 ''s'' (sample_draft\<lparr>dr_kind := UserInstruction\<rparr>)
      (Some sample_instruction) [] sample_store =
      Inr (?item, log_item sample_platform ?item (None, [], []) sample_store)"
    using text_payload_valid [of "''go''"]
    by (simp add: AppendInput_def sample_instruction_def text_payload_def)
  from AppendInput_contract [OF sample_store_ok this] show ?thesis by blast
qed

end
