(* ===== verification/Paging.thy ===== *)
theory Paging
  imports Prelude
begin

text \<open>
  The contract of the store's cursor-paged listings (sessions, prompts, context records):
  rows in strictly descending order of a key, a page of at most \<open>limit\<close> rows below the
  cursor, and a cursor to the next page, the key of the last row returned, exactly when
  more rows remain. What follows for a reader that walks the pages is proved once.
\<close>

text \<open>
  A page the way the code cuts it: fetch one row more than the limit, then truncate; the
  cursor is the mark of the last row kept.
\<close>

definition cut_page :: "('a \<Rightarrow> 'c) \<Rightarrow> nat \<Rightarrow> 'a list \<Rightarrow> 'a list \<times> 'c option" where
  "cut_page mark limit rows =
     (let fetched = take (limit + 1) rows in
      if length fetched > limit
      then (take limit fetched, Some (mark (fetched ! (limit - 1))))
      else (fetched, None))"

definition below :: "('a \<Rightarrow> 'k::linorder) \<Rightarrow> 'k option \<Rightarrow> 'a list \<Rightarrow> 'a list" where
  "below key cursor rows = filter (\<lambda>r. case cursor of None \<Rightarrow> True | Some k \<Rightarrow> key r < k) rows"

text \<open>Follow the cursors: at most \<open>fuel\<close> pages.\<close>

fun walk :: "('c option \<Rightarrow> ('e, 'b list \<times> 'c option) res) \<Rightarrow> nat \<Rightarrow> 'c option \<Rightarrow> ('e, 'b list) res" where
  "walk page 0 cursor = Inr []"
| "walk page (Suc fuel) cursor =
     res_bind (page cursor) (\<lambda>(items, after).
       case after of
         None \<Rightarrow> Inr items
       | Some next \<Rightarrow> res_bind (walk page fuel (Some next)) (\<lambda>more. Inr (items @ more)))"

lemma below_None [simp]: "below key None rows = rows"
  by (simp add: below_def)

text \<open>In a strictly descending list, the rows below the key of the last row taken are the rest.\<close>

lemma below_drop:
  assumes "sorted_wrt (\<lambda>a b. key b < key a) rows" and "n < length rows"
  shows "below key (Some (key (rows ! n))) rows = drop (Suc n) rows"
proof -
  have above: "\<not> key r < key (rows ! n)" if "r \<in> set (take (Suc n) rows)" for r
  proof -
    have "r \<in> set (take (Suc n) rows)" by (rule that)
    then obtain i where "i < length (take (Suc n) rows)" "take (Suc n) rows ! i = r"
      by (auto simp only: in_set_conv_nth)
    then have i: "i < Suc n" "r = rows ! i" by simp_all
    show ?thesis
    proof (cases "i = n")
      case True
      then show ?thesis using i by simp
    next
      case False
      then have "key (rows ! n) < key (rows ! i)"
        using assms i sorted_wrt_nth_less by fastforce
      then show ?thesis using i by auto
    qed
  qed
  have less: "key r < key (rows ! n)" if mem: "r \<in> set (drop (Suc n) rows)" for r
  proof -
    obtain i where i: "i < length (drop (Suc n) rows)" "drop (Suc n) rows ! i = r"
      using mem in_set_conv_nth [of r "drop (Suc n) rows"] by blast
    then have "r = rows ! (Suc n + i)" "Suc n + i < length rows" using assms(2) by simp_all
    then show ?thesis using sorted_wrt_nth_less [OF assms(1), of n "Suc n + i"] by simp
  qed
  have "filter (\<lambda>r. key r < key (rows ! n)) (take (Suc n) rows) = []"
    using above by (simp only: filter_empty_conv) blast
  moreover have "filter (\<lambda>r. key r < key (rows ! n)) (drop (Suc n) rows) = drop (Suc n) rows"
    using less by (simp only: filter_id_conv) blast
  moreover have "filter (\<lambda>r. key r < key (rows ! n)) rows =
      filter (\<lambda>r. key r < key (rows ! n)) (take (Suc n) rows) @ filter (\<lambda>r. key r < key (rows ! n)) (drop (Suc n) rows)"
    by (simp only: filter_append [symmetric] append_take_drop_id)
  ultimately show ?thesis by (simp add: below_def)
qed

lemma rev_sort_descending:
  fixes f :: "'a \<Rightarrow> 'k::linorder"
  assumes "distinct (map f xs)"
  shows "sorted_wrt (\<lambda>a b. f b < f a) (rev (sort_key f xs))"
proof -
  have "distinct (map f (sort_key f xs))" using assms by (simp add: distinct_map)
  then have "sorted_wrt (<) (map f (sort_key f xs))" by (simp add: strict_sorted_iff)
  then show ?thesis by (simp add: sorted_wrt_map sorted_wrt_rev)
qed

lemma below_rev_sort:
  "below f (Some k) (rev (sort_key f xs)) = rev (sort_key f (filter (\<lambda>x. f x < k) xs))"
  by (simp add: below_def rev_filter [symmetric] filter_sort)

lemma below_sorted: "sorted_wrt R rows \<Longrightarrow> sorted_wrt R (below key c rows)"
  unfolding below_def by (rule sorted_wrt_filter)

lemma below_below:
  "key x \<in> key ` set (below key c rows) \<Longrightarrow>
   below key (Some (key x)) (below key c rows) = below key (Some (key x)) rows"
  by (auto simp: below_def intro!: filter_cong split: option.splits)

lemma below_rest:
  assumes "sorted_wrt (\<lambda>a b. key b < key a) rows" and "n < length (below key c rows)"
  shows "below key (Some (key (below key c rows ! n))) rows = drop (Suc n) (below key c rows)"
  using below_drop [OF below_sorted [OF assms(1)] assms(2)] below_below [of key "below key c rows ! n" c rows] assms(2)
  by simp

locale paged =
  fixes page :: "'s \<Rightarrow> 'c option \<Rightarrow> int \<Rightarrow> ('e, 'b list \<times> 'c option) res"
    and rows :: "'s \<Rightarrow> 'a list"
    and mark :: "'s \<Rightarrow> 'a \<Rightarrow> 'c"
    and place :: "'s \<Rightarrow> 'c \<Rightarrow> 'k::linorder"
    and view :: "'s \<Rightarrow> 'a \<Rightarrow> 'b"
    and ok :: "'s \<Rightarrow> bool"
  assumes descending: "ok s \<Longrightarrow>
      sorted_wrt (\<lambda>a b. place s (mark s b) < place s (mark s a)) (rows s)"
    and page_cut: "ok s \<Longrightarrow> 0 < limit \<Longrightarrow> cursor = None \<or> cursor \<in> Some ` mark s ` set (rows s) \<Longrightarrow>
      page s cursor limit = Inr (apfst (map (view s)) (cut_page (mark s) (nat limit)
        (below (\<lambda>r. place s (mark s r)) (map_option (place s) cursor) (rows s))))"
begin

lemma page_items:
  assumes "ok s" and "0 < limit" and "cursor = None \<or> cursor \<in> Some ` mark s ` set (rows s)"
    and "page s cursor limit = Inr (items, after)"
  shows "items = map (view s) (take (nat limit)
      (below (\<lambda>r. place s (mark s r)) (map_option (place s) cursor) (rows s)))"
  using assms(4) by (auto simp: page_cut [OF assms(1-3)] cut_page_def Let_def min_def split: if_splits)

lemma page_size:
  "ok s \<Longrightarrow> 0 < limit \<Longrightarrow> cursor = None \<or> cursor \<in> Some ` mark s ` set (rows s) \<Longrightarrow>
   page s cursor limit = Inr (items, after) \<Longrightarrow> length items \<le> nat limit"
  by (drule (3) page_items) simp

text \<open>Walking all pages from any cursor lists exactly the rows below it, in order, once.\<close>

lemma walk_below:
  assumes "ok s" and "0 < limit" and "cursor = None \<or> cursor \<in> Some ` mark s ` set (rows s)"
    and "length (below (\<lambda>r. place s (mark s r)) (map_option (place s) cursor) (rows s)) < fuel"
  shows "walk (\<lambda>c. page s c limit) fuel cursor =
    Inr (map (view s) (below (\<lambda>r. place s (mark s r)) (map_option (place s) cursor) (rows s)))"
  using assms(3,4)
proof (induction fuel arbitrary: cursor)
  case 0
  then show ?case by simp
next
  case (Suc fuel)
  let ?key = "\<lambda>r. place s (mark s r)" and ?limit = "nat limit"
  define rs where "rs = below ?key (map_option (place s) cursor) (rows s)"
  show ?case
  proof (cases "?limit < length rs")
    case False
    then have "page s cursor limit = Inr (map (view s) rs, None)"
      using page_cut [OF assms(1,2) Suc.prems(1)] by (simp add: cut_page_def Let_def rs_def)
    then show ?thesis by (simp add: rs_def)
  next
    case True
    define last where "last = rs ! (?limit - 1)"
    have at: "?limit - 1 < length rs" using True by simp
    have pos: "0 < ?limit" using assms(2) by simp
    have page: "page s cursor limit = Inr (map (view s) (take ?limit rs), Some (mark s last))"
      using page_cut [OF assms(1,2) Suc.prems(1)] True pos
      by (simp add: cut_page_def Let_def rs_def last_def)
    have rest: "below ?key (Some (?key last)) (rows s) = drop ?limit rs"
      using below_rest [OF descending [OF assms(1)] at [unfolded rs_def]] pos by (simp add: rs_def last_def)
    have "length (below ?key (map_option (place s) (Some (mark s last))) (rows s)) < fuel"
      using Suc.prems(2) pos True by (simp add: rest rs_def)
    moreover have "last \<in> set (rows s)"
      using nth_mem [OF at] unfolding last_def rs_def below_def by simp
    ultimately
    have "walk (\<lambda>c. page s c limit) fuel (Some (mark s last)) = Inr (map (view s) (drop ?limit rs))"
      using Suc.IH [of "Some (mark s last)"] by (simp add: rest)
    then show ?thesis
      by (simp add: page rs_def [symmetric] map_append [symmetric] del: map_append)
  qed
qed

lemma walk_all:
  "ok s \<Longrightarrow> 0 < limit \<Longrightarrow> length (rows s) < fuel \<Longrightarrow>
   walk (\<lambda>c. page s c limit) fuel None = Inr (map (view s) (rows s))"
  using walk_below [of s limit None fuel] by simp

end

end
