(* ===== verification/Sessions.thy ===== *)
theory Sessions
  imports Ledger Paging
begin

text \<open>
  Sessions and conversations (internal/store/session.go): creating a turn, continuing a
  conversation, the paged listings, prompt history, renaming and resolving references.
  \<open>julianday\<close> and \<open>LIKE\<close> of SQLite are the arguments \<open>jd\<close> and \<open>like\<close>; text timestamps
  are compared byte by byte as SQLite compares TEXT, in the form \<open>time.RFC3339Nano\<close> gives
  a UTC time, which is modelled here.
\<close>

section \<open>RFC 3339 timestamps\<close>

definition pad :: "nat \<Rightarrow> nat \<Rightarrow> string" where
  "pad width n = replicate (width - length (digits_of n)) (CHR ''0'') @ digits_of n"

definition civil_from_days :: "int \<Rightarrow> int \<times> int \<times> int" where
  "civil_from_days days =
     (let z = days + 719468;
          era = z div 146097;
          doe = z mod 146097;
          yoe = (doe - doe div 1460 + doe div 36524 - doe div 146096) div 365;
          doy = doe - (365 * yoe + yoe div 4 - yoe div 100);
          mp = (5 * doy + 2) div 153;
          d = doy - (153 * mp + 2) div 5 + 1;
          m = (if mp < 10 then mp + 3 else mp - 9)
      in (yoe + era * 400 + (if m \<le> 2 then 1 else 0), m, d))"

definition fraction :: "nat \<Rightarrow> string" where
  "fraction ns =
     (if ns = 0 then [] else CHR ''.'' # rev (dropWhile (\<lambda>c. c = CHR ''0'') (rev (pad 9 ns))))"

definition rfc3339_seconds :: "int \<Rightarrow> string" where
  "rfc3339_seconds secs =
     (let s = secs mod 86400 in
      case civil_from_days (secs div 86400) of (y, m, d) \<Rightarrow>
        pad 4 (nat y) @ ''-'' @ pad 2 (nat m) @ ''-'' @ pad 2 (nat d) @ ''T''
        @ pad 2 (nat (s div 3600)) @ '':'' @ pad 2 (nat (s mod 3600 div 60)) @ '':'' @ pad 2 (nat (s mod 60)))"

definition rfc3339nano :: "int \<Rightarrow> string" where
  "rfc3339nano t = rfc3339_seconds (t div 1000000000) @ fraction (nat (t mod 1000000000)) @ ''Z''"

lemma digits_of_small: "n < 10 \<Longrightarrow> digits_of n = [char_of (48 + n)]"
  by (simp add: digits_of.simps [of n])

lemma digits_of_large: "10 \<le> n \<Longrightarrow> digits_of n = digits_of (n div 10) @ [char_of (48 + n mod 10)]"
  by (simp add: digits_of.simps [of n])

lemma digit_chars:
  "char_of (48 :: nat) = CHR ''0''" "char_of (49 :: nat) = CHR ''1''" "char_of (50 :: nat) = CHR ''2''"
  by code_simp+

lemma append_less_append: "(xs @ ys < xs @ (zs :: 'a::linorder list)) \<longleftrightarrow> ys < zs"
  by (induction xs) simp_all

section \<open>Creating turns\<close>

definition defaultSessionTitle :: "string \<Rightarrow> string" where
  "defaultSessionTitle task = join '' '' (go_fields task)"

definition initial_drafts :: "document \<Rightarrow> string \<Rightarrow> input \<Rightarrow> draft list" where
  "initial_drafts doc task i =
     [\<lparr>dr_kind = SessionCreated, dr_actor = ''user'', dr_correlation = [], dr_causation = [],
       dr_data = Some (enc_session_created_data \<lparr>sc_task = task, sc_input = i\<rparr>)\<rparr>,
      \<lparr>dr_kind = ProfilePinned, dr_actor = ''system'', dr_correlation = [], dr_causation = [],
       dr_data = Some (enc_profile_pinned_data \<lparr>pp_profile_id = p_id (doc_profile doc),
         pp_revision = p_revision (doc_profile doc), pp_digest = doc_digest doc\<rparr>)\<rparr>]"

text \<open>The loop over the drafts: \<open>eids\<close> supplies the event identities.\<close>

fun insert_drafts ::
    "platform \<Rightarrow> string \<Rightarrow> int \<Rightarrow> int \<Rightarrow> string list \<Rightarrow> draft list \<Rightarrow> store \<Rightarrow> (store_error, store) res" where
  "insert_drafts pl sid now i eids [] st = Inr st"
| "insert_drafts pl sid now i eids (d # ds) st =
     (let item = materialize d (hd eids) sid (i + 1) now in
      res_bind (insertEvent item st) (\<lambda>st1.
      res_bind (insertContextRecord pl item st1) (\<lambda>st2.
      insert_drafts pl sid now (i + 1) (tl eids) ds st2)))"

definition createSession ::
    "platform \<Rightarrow> string \<Rightarrow> int \<Rightarrow> string list \<Rightarrow> document \<Rightarrow> payload \<Rightarrow> string \<Rightarrow> string \<Rightarrow> string \<Rightarrow> store \<Rightarrow>
     (store_error, session \<times> store) res" where
  "createSession pl sid now eids doc payload workspace conversationID title st =
     (case payload_validate payload of
        Inl e \<Rightarrow> Inl (ContentError e)
      | Inr _ \<Rightarrow>
          if input_empty (pl_input payload) then Inl EmptyTask
          else
            let task = trim (display_text (pl_input payload));
                row = \<lparr>ss_id = sid, ss_conversation = (if conversationID = [] then sid else conversationID),
                  ss_profile = p_id (doc_profile doc), ss_revision = p_revision (doc_profile doc),
                  ss_digest = doc_digest doc, ss_title = (if title = [] then defaultSessionTitle task else title),
                  ss_task = task, ss_workspace = workspace, ss_leader = [], ss_status = StatusRunning,
                  ss_final = [], ss_created = now, ss_updated = now\<rparr>
            in if (\<exists>s \<in> set (st_sessions st). ss_id s = sid) \<or>
                  (\<forall>p \<in> set (st_profiles st). pr_id p \<noteq> ss_profile row \<or> pr_revision p \<noteq> ss_revision row)
               then Inl Constraint
               else res_bind (insertArtifacts pl sid (pl_artifacts payload) now
                                (st\<lparr>st_sessions := st_sessions st @ [row]\<rparr>)) (\<lambda>st1.
                    res_bind (insert_drafts pl sid now 0 eids
                                (initial_drafts doc task (pl_input payload)) st1) (\<lambda>st2.
                    Inr (row, st2))))"

definition CreateSessionInput ::
    "platform \<Rightarrow> string \<Rightarrow> int \<Rightarrow> string list \<Rightarrow> document \<Rightarrow> payload \<Rightarrow> string \<Rightarrow> store \<Rightarrow>
     (store_error, session \<times> store) res" where
  "CreateSessionInput pl sid now eids doc payload workspace st =
     createSession pl sid now eids doc payload workspace [] [] st"

definition get_session :: "store \<Rightarrow> string \<Rightarrow> (store_error, session) res" where
  "get_session st sid = (case session_row st sid of None \<Rightarrow> Inl (SessionMissing sid) | Some s \<Rightarrow> Inr s)"

definition CreateContinuationInput ::
    "platform \<Rightarrow> string \<Rightarrow> int \<Rightarrow> string list \<Rightarrow> string \<Rightarrow> document \<Rightarrow> payload \<Rightarrow> store \<Rightarrow>
     (store_error, session \<times> store) res" where
  "CreateContinuationInput pl sid now eids previousID doc payload st =
     res_bind (get_session st previousID) (\<lambda>previous.
     if ss_status previous = StatusRunning then Inl (StillRunning previousID)
     else if ss_profile previous \<noteq> p_id (doc_profile doc) \<or>
             ss_revision previous \<noteq> p_revision (doc_profile doc) \<or>
             ss_digest previous \<noteq> doc_digest doc
     then Inl ProfileMismatch
     else createSession pl sid now eids doc payload (ss_workspace previous)
            (ss_conversation previous) (ss_title previous) st)"

section \<open>Listings\<close>

record session_cursor =
  sx_updated :: int
  sx_conversation :: string

definition MaxRune :: string where
  "MaxRune = [CHR 0xF4, CHR 0x8F, CHR 0xBF, CHR 0xBF]"

text \<open>The newest turn of every conversation.\<close>

definition latest_turns :: "store \<Rightarrow> session list" where
  "latest_turns st =
     filter (\<lambda>s. \<forall>t \<in> set (st_sessions st). ss_conversation t = ss_conversation s \<longrightarrow> ss_id t \<le> ss_id s)
       (st_sessions st)"

definition session_place :: "(int \<Rightarrow> int) \<Rightarrow> session_cursor \<Rightarrow> int \<times> string" where
  "session_place jd c = (jd (sx_updated c), sx_conversation c)"

definition session_mark :: "session \<Rightarrow> session_cursor" where
  "session_mark s = \<lparr>sx_updated = ss_updated s, sx_conversation = ss_conversation s\<rparr>"

text \<open>\<open>9999-12-31T23:59:59.999999999Z\<close> in nanoseconds.\<close>

definition MaxTime :: int where
  "MaxTime = 253402300799999999999"

definition ListSessionPage ::
    "(int \<Rightarrow> int) \<Rightarrow> store \<Rightarrow> session_cursor option \<Rightarrow> int \<Rightarrow>
     (store_error, session list \<times> session_cursor option) res" where
  "ListSessionPage jd st cursor limit =
     (if limit < 1 then Inl BadLimit
      else
        let (updatedBefore, conversationBefore) =
              (case cursor of None \<Rightarrow> (MaxTime, MaxRune) | Some c \<Rightarrow> (sx_updated c, sx_conversation c));
            rows = rev (sort_key (\<lambda>s. (jd (ss_updated s), ss_conversation s))
                     (filter (\<lambda>s. jd (ss_updated s) < jd updatedBefore \<or>
                                  jd (ss_updated s) = jd updatedBefore \<and> ss_conversation s < conversationBefore)
                       (latest_turns st)));
            fetched = take (nat limit + 1) rows
        in if length fetched > nat limit
           then Inr (take (nat limit) fetched, Some (session_mark (fetched ! (nat limit - 1))))
           else Inr (fetched, None))"

definition ListSessions :: "(int \<Rightarrow> int) \<Rightarrow> store \<Rightarrow> int \<Rightarrow> (store_error, session list) res" where
  "ListSessions jd st limit =
     (if limit < 1 then Inl BadLimit
      else res_bind (ListSessionPage jd st None limit) (\<lambda>page. Inr (fst page)))"

definition RecoverableSessions :: "store \<Rightarrow> session list" where
  "RecoverableSessions st =
     sort_key (\<lambda>s. rfc3339nano (ss_updated s)) (filter (\<lambda>s. ss_status s = StatusRunning) (st_sessions st))"

definition ConversationSessions :: "store \<Rightarrow> string \<Rightarrow> (store_error, session list) res" where
  "ConversationSessions st sid =
     res_bind (get_session st sid) (\<lambda>session.
     Inr (sort_key (\<lambda>s. rfc3339nano (ss_created s))
       (filter (\<lambda>s. ss_conversation s = ss_conversation session) (st_sessions st))))"

definition RenameSession :: "int \<Rightarrow> string \<Rightarrow> string \<Rightarrow> store \<Rightarrow> (store_error, store) res" where
  "RenameSession now sid title st =
     (if trim title = [] then Inl EmptyTask
      else case session_row st sid of
        None \<Rightarrow> Inl (SessionMissing sid)
      | Some row \<Rightarrow> Inr (st\<lparr>st_sessions :=
          map (\<lambda>s. if ss_conversation s = ss_conversation row
                   then s\<lparr>ss_title := trim title, ss_updated := now\<rparr> else s) (st_sessions st)\<rparr>))"

text \<open>\<open>like pattern value\<close>: SQLite's \<open>value LIKE pattern\<close>.\<close>

definition ResolveSessionID :: "(string \<Rightarrow> string \<Rightarrow> bool) \<Rightarrow> store \<Rightarrow> string \<Rightarrow> (store_error, string) res" where
  "ResolveSessionID like st reference =
     (let r = trim reference in
      if r = [] then Inl BadReference
      else
        let conversations = take 2 (sort (remdups (map ss_conversation
              (filter (\<lambda>s. ss_id s = r \<or> like (r @ ''%'') (ss_id s) \<or>
                           ss_conversation s = r \<or> like (r @ ''%'') (ss_conversation s)) (st_sessions st)))))
        in (case conversations of
              [] \<Rightarrow> Inl (SessionMissing r)
            | [c] \<Rightarrow>
                (case rev (sort_key (\<lambda>s. rfc3339nano (ss_created s))
                        (rev (filter (\<lambda>s. ss_conversation s = c) (st_sessions st)))) of
                   [] \<Rightarrow> Inl (SessionMissing r)
                 | s # _ \<Rightarrow> Inr (ss_id s))
            | _ \<Rightarrow> Inl (Ambiguous r)))"

section \<open>Prompt history\<close>

record prompt_record =
  pm_session :: string
  pm_text :: string

definition ListPromptPage ::
    "store \<Rightarrow> string option \<Rightarrow> int \<Rightarrow> (store_error, prompt_record list \<times> string option) res" where
  "ListPromptPage st cursor limit =
     (if limit < 1 then Inl BadLimit
      else
        let before = (case cursor of None \<Rightarrow> MaxRune | Some c \<Rightarrow> c);
            result = take (nat limit + 1) (rev (sort_key ss_id (filter (\<lambda>s. ss_id s < before) (st_sessions st))));
            (kept, next) = (if length result > nat limit
              then (take (nat limit) result, Some (ss_id (result ! (nat limit - 1))))
              else (result, None))
        in Inr (map (\<lambda>s. \<lparr>pm_session = ss_id s, pm_text = ss_task s\<rparr>) kept, next))"

record prompt_snapshot =
  sn_count :: int
  sn_newest :: string

definition PromptSnapshot :: "store \<Rightarrow> prompt_snapshot" where
  "PromptSnapshot st =
     \<lparr>sn_count = int (length (st_sessions st)),
      sn_newest = (if st_sessions st = [] then [] else Max (ss_id ` set (st_sessions st)))\<rparr>"

definition PromptAt :: "store \<Rightarrow> prompt_snapshot \<Rightarrow> int \<Rightarrow> string option" where
  "PromptAt st snapshot offset =
     (if offset < 0 \<or> sn_count snapshot \<le> offset \<or> sn_newest snapshot = [] then None
      else
        let rows = rev (sort_key ss_id (filter (\<lambda>s. ss_id s \<le> sn_newest snapshot) (st_sessions st)))
        in if nat offset < length rows then Some (ss_task (rows ! nat offset)) else None)"


section \<open>The listings page correctly\<close>

definition listing_ok :: "(int \<Rightarrow> int) \<times> store \<Rightarrow> bool" where
  "listing_ok s \<longleftrightarrow>
     distinct (map ss_id (st_sessions (snd s))) \<and>
     (\<forall>r \<in> set (st_sessions (snd s)). session_place (fst s) (session_mark r) < (fst s MaxTime, MaxRune))"

definition session_rows :: "(int \<Rightarrow> int) \<times> store \<Rightarrow> session list" where
  "session_rows s =
     rev (sort_key (\<lambda>r. session_place (fst s) (session_mark r)) (latest_turns (snd s)))"

definition prompt_ok :: "store \<Rightarrow> bool" where
  "prompt_ok st \<longleftrightarrow> distinct (map ss_id (st_sessions st)) \<and> (\<forall>r \<in> set (st_sessions st). ss_id r < MaxRune)"

definition prompt_rows :: "store \<Rightarrow> session list" where
  "prompt_rows st = rev (sort_key ss_id (st_sessions st))"

lemma distinct_ids_filter: "distinct (map f xs) \<Longrightarrow> distinct (map f (filter P xs))"
  by (simp add: distinct_map inj_on_def)

lemma latest_turns_distinct:
  assumes "distinct (map ss_id (st_sessions st))"
  shows "distinct (map ss_conversation (latest_turns st))"
proof -
  have same: "ss_id r = ss_id s" if "r \<in> set (latest_turns st)" "s \<in> set (latest_turns st)"
    "ss_conversation r = ss_conversation s" for r s
  proof -
    have "ss_id r \<le> ss_id s" "ss_id s \<le> ss_id r"
      using that by (auto simp: latest_turns_def)
    then show ?thesis by (rule antisym)
  qed
  have ids: "distinct (latest_turns st)" "inj_on ss_id (set (latest_turns st))"
    using distinct_ids_filter [OF assms] unfolding latest_turns_def distinct_map by blast+
  have "inj_on ss_conversation (set (latest_turns st))"
    by (rule inj_onI, rule inj_onD [OF ids(2)]) (use same in blast)+
  with ids(1) show ?thesis unfolding distinct_map by blast
qed

interpretation session_pages: paged "\<lambda>s. ListSessionPage (fst s) (snd s)" session_rows "\<lambda>_. session_mark"
  "\<lambda>s. session_place (fst s)" "\<lambda>_ r. r" listing_ok
proof
  fix s :: "(int \<Rightarrow> int) \<times> store" and limit :: int and cursor
  let ?key = "\<lambda>r. session_place (fst s) (session_mark r)"
  assume ok: "listing_ok s"
  have "distinct (map ss_conversation (latest_turns (snd s)))"
    using ok by (intro latest_turns_distinct) (simp add: listing_ok_def)
  then have "distinct (map ?key (latest_turns (snd s)))"
    by (auto simp: distinct_map inj_on_def session_place_def session_mark_def)
  then show "sorted_wrt (\<lambda>a b. ?key b < ?key a) (session_rows s)"
    unfolding session_rows_def by (rule rev_sort_descending)
  assume limit: "0 < limit"
  have max: "?key r < (fst s MaxTime, MaxRune)" if "r \<in> set (latest_turns (snd s))" for r
    using ok that by (simp add: listing_ok_def latest_turns_def)
  have "(\<lambda>r. (fst s (ss_updated r), ss_conversation r)) = ?key"
    by (rule ext) (simp add: session_place_def session_mark_def)
  moreover have "filter (\<lambda>r. fst s (ss_updated r) < fst s b \<or> fst s (ss_updated r) = fst s b \<and> ss_conversation r < c) xs
      = filter (\<lambda>r. ?key r < (fst s b, c)) xs" for b c xs
    by (rule filter_cong) (auto simp: session_place_def session_mark_def)
  moreover have "filter (\<lambda>r. ?key r < (fst s MaxTime, MaxRune)) (latest_turns (snd s)) = latest_turns (snd s)"
    using max by (simp add: filter_id_conv)
  moreover have "(fst s (sx_updated c), sx_conversation c) = session_place (fst s) c" for c
    by (simp add: session_place_def)
  ultimately show "ListSessionPage (fst s) (snd s) cursor limit =
      Inr (apfst (map (\<lambda>r. r)) (cut_page session_mark (nat limit)
        (below ?key (map_option (session_place (fst s)) cursor) (session_rows s))))"
    using limit
    by (cases cursor) (simp_all add: ListSessionPage_def Let_def cut_page_def session_rows_def below_rev_sort)
qed

interpretation prompt_pages: paged ListPromptPage prompt_rows "\<lambda>_. ss_id" "\<lambda>_ c. c"
  "\<lambda>_ s. \<lparr>pm_session = ss_id s, pm_text = ss_task s\<rparr>" prompt_ok
proof
  fix st :: store and limit :: int and cursor
  assume ok: "prompt_ok st"
  then have "distinct (map ss_id (st_sessions st))" by (simp add: prompt_ok_def)
  then show "sorted_wrt (\<lambda>a b. ss_id b < ss_id a) (prompt_rows st)"
    unfolding prompt_rows_def by (rule rev_sort_descending)
  assume limit: "0 < limit"
  have "filter (\<lambda>s. ss_id s < MaxRune) (st_sessions st) = st_sessions st"
    using ok by (simp add: prompt_ok_def filter_id_conv)
  then show "ListPromptPage st cursor limit =
      Inr (apfst (map (\<lambda>s. \<lparr>pm_session = ss_id s, pm_text = ss_task s\<rparr>)) (cut_page ss_id (nat limit)
        (below ss_id (map_option (\<lambda>c. c) cursor) (prompt_rows st))))"
    using limit
    by (cases cursor) (simp_all add: ListPromptPage_def Let_def cut_page_def prompt_rows_def below_rev_sort)
qed


section \<open>What creating a turn does\<close>

fun draft_items :: "string \<Rightarrow> int \<Rightarrow> int \<Rightarrow> string list \<Rightarrow> draft list \<Rightarrow> event list" where
  "draft_items sid now i eids [] = []"
| "draft_items sid now i eids (d # ds) =
     materialize d (hd eids) sid (i + 1) now # draft_items sid now (i + 1) (tl eids) ds"

lemma draft_items_numbered: "numbered_from i (draft_items sid now i eids ds)"
  by (induction ds arbitrary: i eids) auto

lemma draft_items_session: "e \<in> set (draft_items sid now i eids ds) \<Longrightarrow> ev_session e = sid"
  by (induction ds arbitrary: i eids) auto

lemma insert_drafts_Inr:
  "insert_drafts pl sid now i eids ds st = Inr st' \<Longrightarrow>
   st' = st\<lparr>st_events := st_events st @ draft_items sid now i eids ds,
     st_records := st_records st @ map (record_of pl) (draft_items sid now i eids ds)\<rparr> \<and>
   distinct (map ev_id (draft_items sid now i eids ds)) \<and>
   ev_id ` set (draft_items sid now i eids ds) \<inter> ev_id ` set (st_events st) = {}"
proof (induction ds arbitrary: i eids st)
  case Nil
  then show ?case by simp
next
  case (Cons d ds)
  let ?item = "materialize d (hd eids) sid (i + 1) now"
  let ?rest = "draft_items sid now (i + 1) (tl eids) ds"
  let ?st = "st\<lparr>st_events := st_events st @ [?item], st_records := st_records st @ [record_of pl ?item]\<rparr>"
  obtain st1 st2 where 1: "insertEvent ?item st = Inr st1" and 2: "insertContextRecord pl ?item st1 = Inr st2"
    and 3: "insert_drafts pl sid now (i + 1) (tl eids) ds st2 = Inr st'"
    using Cons.prems by (auto simp: Let_def res_bind_Inr_iff)
  have new: "ev_id ?item \<notin> ev_id ` set (st_events st)"
    using 1 unfolding insertEvent_def by (auto split: if_splits)
  have "st1 = st\<lparr>st_events := st_events st @ [?item]\<rparr>"
    using 1 by (simp add: insertEvent_def split: if_splits)
  moreover have "st2 = st1\<lparr>st_records := st_records st1 @ [record_of pl ?item]\<rparr>"
    using 2 by (simp add: insertContextRecord_def split: if_splits)
  ultimately have st2: "st2 = ?st" by simp
  note IH = Cons.IH [OF 3 [unfolded st2]]
  have "ev_id ?item \<notin> ev_id ` set ?rest"
  proof
    assume "ev_id ?item \<in> ev_id ` set ?rest"
    moreover have "ev_id ?item \<in> ev_id ` set (st_events ?st)" by simp
    ultimately show False using IH by blast
  qed
  moreover have "ev_id ` set ?rest \<inter> ev_id ` set (st_events st) = {}"
    using IH by auto
  ultimately show ?case using IH new by simp
qed

lemma initial_items:
  "draft_items sid now 0 eids (initial_drafts doc task i) =
   [materialize (initial_drafts doc task i ! 0) (hd eids) sid 1 now,
    materialize (initial_drafts doc task i ! 1) (hd (tl eids)) sid 2 now]"
  by (simp add: initial_drafts_def)

text \<open>The row a turn starts from.\<close>

definition new_row :: "string \<Rightarrow> int \<Rightarrow> document \<Rightarrow> string \<Rightarrow> string \<Rightarrow> string \<Rightarrow> string \<Rightarrow> session" where
  "new_row sid now doc task workspace conversationID title =
     \<lparr>ss_id = sid, ss_conversation = (if conversationID = [] then sid else conversationID),
      ss_profile = p_id (doc_profile doc), ss_revision = p_revision (doc_profile doc),
      ss_digest = doc_digest doc, ss_title = (if title = [] then defaultSessionTitle task else title),
      ss_task = task, ss_workspace = workspace, ss_leader = [], ss_status = StatusRunning,
      ss_final = [], ss_created = now, ss_updated = now\<rparr>"

lemma createSession_Inr:
  assumes "createSession pl sid now eids doc payload workspace conversationID title st = Inr (row, st')"
  obtains st1 where "row = new_row sid now doc (trim (display_text (pl_input payload))) workspace conversationID title"
    "sid \<notin> ss_id ` set (st_sessions st)" "payload_validate payload = Inr ()" "\<not> input_empty (pl_input payload)"
    "insertArtifacts pl sid (pl_artifacts payload) now (st\<lparr>st_sessions := st_sessions st @ [row]\<rparr>) = Inr st1"
    "insert_drafts pl sid now 0 eids (initial_drafts doc (ss_task row) (pl_input payload)) st1 = Inr st'"
  using assms
  by (auto simp: createSession_def Let_def new_row_def res_bind_Inr_iff split: sum.splits if_splits)

lemma createSession_ok:
  assumes ok: "store_ok pl st"
    and created: "createSession pl sid now eids doc payload workspace conversationID title st = Inr (row, st')"
  shows "store_ok pl st'"
    and "session_events st' sid = draft_items sid now 0 eids (initial_drafts doc (ss_task row) (pl_input payload))"
    and "other \<noteq> sid \<Longrightarrow> session_events st' other = session_events st other"
    and "st_sessions st' = st_sessions st @ [row]"
proof -
  obtain st1 where row: "row = new_row sid now doc (trim (display_text (pl_input payload))) workspace conversationID title"
    and new: "sid \<notin> ss_id ` set (st_sessions st)"
    and st1: "insertArtifacts pl sid (pl_artifacts payload) now (st\<lparr>st_sessions := st_sessions st @ [row]\<rparr>) = Inr st1"
    and st': "insert_drafts pl sid now 0 eids (initial_drafts doc (ss_task row) (pl_input payload)) st1 = Inr st'"
    by (rule createSession_Inr [OF created])
  let ?st0 = "st\<lparr>st_sessions := st_sessions st @ [row]\<rparr>"
  let ?items = "draft_items sid now 0 eids (initial_drafts doc (ss_task row) (pl_input payload))"
  have rid: "ss_id row = sid" by (simp add: row new_row_def)
  have none: "session_events st sid = []"
    using store_okD(3) [OF ok] new by (auto simp: session_events_def filter_empty_conv)
  have "store_ok pl ?st0"
    unfolding store_ok_def
    using store_okD [OF ok] new rid none
    by (auto simp: session_events_def artifacts_ok_def row_ok_def columns_of_def row new_row_def)
  then have ok1: "store_ok pl st1" by (rule insertArtifacts_ok [OF _ st1])
  note log1 = insertArtifacts_log [OF st1]
  have st'_eq: "st' = st1\<lparr>st_events := st_events st1 @ ?items, st_records := st_records st1 @ map (record_of pl) ?items\<rparr>"
    and ids: "distinct (map ev_id ?items)" "ev_id ` set ?items \<inter> ev_id ` set (st_events st1) = {}"
    using insert_drafts_Inr [OF st'] by auto
  show sess: "st_sessions st' = st_sessions st @ [row]" by (simp add: st'_eq log1)
  have ev: "session_events st' i = session_events st i @ (if i = sid then ?items else [])" for i
    using draft_items_session [of _ sid now 0 eids] log1
    by (auto simp: session_events_def st'_eq filter_empty_conv filter_id_conv)
  then show own: "session_events st' sid = ?items" by (simp add: none)
  show "other \<noteq> sid \<Longrightarrow> session_events st' other = session_events st other" by (simp add: ev)
  have cols: "columns_of ?items = (StatusRunning, [], [])"
    by (simp add: initial_items columns_of_def step_columns_def projection_columns_def initial_drafts_def)
  have "row_ok s (session_events st' (ss_id s))" if "s \<in> set (st_sessions st')" for s
  proof (cases "s = row")
    case True
    then show ?thesis unfolding True rid own row_ok_def cols by (simp add: row new_row_def)
  next
    case False
    then have "s \<in> set (st_sessions st)" using that by (simp add: sess)
    moreover from this new have "ss_id s \<noteq> sid" by auto
    ultimately show ?thesis using store_okD(6) [OF ok] by (simp add: ev)
  qed
  moreover have "numbered_from 0 (session_events st' i)" for i
    using session_events_numbered [OF ok, of i] draft_items_numbered none by (simp add: ev)
  moreover have "artifacts_ok pl st'"
    using store_okD(7) [OF ok1] by (simp add: artifacts_ok_def st'_eq)
  moreover have "distinct (map ev_id (st_events st'))"
    using store_okD(2) [OF ok1] ids by (auto simp: st'_eq)
  moreover have "\<forall>e \<in> set (st_events st'). ev_session e \<in> ss_id ` set (st_sessions st')"
    using store_okD(3) [OF ok1] draft_items_session [of _ sid now 0 eids] rid
    by (auto simp: st'_eq log1)
  moreover have "st_records st' = map (record_of pl) (st_events st')"
    using store_okD(5) [OF ok1] by (simp add: st'_eq)
  moreover have "distinct (map ss_id (st_sessions st'))"
    using store_okD(1) [OF ok1] by (simp add: st'_eq)
  ultimately show "store_ok pl st'" unfolding store_ok_def by simp
qed

text \<open>The turns of one conversation never drift: one team revision and one workspace.\<close>

definition conversations_pinned :: "store \<Rightarrow> bool" where
  "conversations_pinned st \<longleftrightarrow>
     (\<forall>s \<in> set (st_sessions st). ss_conversation s \<in> ss_id ` set (st_sessions st) \<and>
        (\<forall>t \<in> set (st_sessions st). ss_conversation s = ss_conversation t \<longrightarrow>
           ss_profile s = ss_profile t \<and> ss_revision s = ss_revision t \<and> ss_digest s = ss_digest t \<and>
           ss_workspace s = ss_workspace t))"

lemma CreateContinuation_Inr:
  assumes "CreateContinuationInput pl sid now eids previousID doc payload st = Inr (row, st')"
  obtains previous where "session_row st previousID = Some previous" "ss_status previous \<noteq> StatusRunning"
    "ss_profile previous = p_id (doc_profile doc)" "ss_revision previous = p_revision (doc_profile doc)"
    "ss_digest previous = doc_digest doc"
    "createSession pl sid now eids doc payload (ss_workspace previous) (ss_conversation previous)
       (ss_title previous) st = Inr (row, st')"
  using assms
  by (auto simp: CreateContinuationInput_def get_session_def res_bind_Inr_iff split: option.splits if_splits)


section \<open>Prompt navigation\<close>

text \<open>\<open>PromptAt\<close> looks at identities and tasks only.\<close>

definition prompts :: "store \<Rightarrow> (string \<times> string) list" where
  "prompts st = map (\<lambda>s. (ss_id s, ss_task s)) (st_sessions st)"

lemma insort_key_map: "insort_key f (g x) (map g xs) = map g (insort_key (\<lambda>y. f (g y)) x xs)"
  by (induction xs) auto

lemma sort_key_map: "sort_key f (map g xs) = map g (sort_key (\<lambda>y. f (g y)) xs)"
  by (induction xs) (simp_all add: insort_key_map)

lemma PromptAt_prompts:
  "PromptAt st snapshot offset =
     (if offset < 0 \<or> sn_count snapshot \<le> offset \<or> sn_newest snapshot = [] then None
      else
        let rows = rev (sort_key fst (filter (\<lambda>r. fst r \<le> sn_newest snapshot) (prompts st)))
        in if nat offset < length rows then Some (snd (rows ! nat offset)) else None)"
proof -
  define old where "old = filter (\<lambda>s. ss_id s \<le> sn_newest snapshot) (st_sessions st)"
  have "filter (\<lambda>r. fst r \<le> sn_newest snapshot) (prompts st) = map (\<lambda>s. (ss_id s, ss_task s)) old"
    by (simp add: prompts_def filter_map comp_def old_def)
  then have "rev (sort_key fst (filter (\<lambda>r. fst r \<le> sn_newest snapshot) (prompts st))) =
      map (\<lambda>s. (ss_id s, ss_task s)) (rev (sort_key ss_id old))"
    by (simp add: sort_key_map rev_map)
  then show ?thesis by (simp add: PromptAt_def Let_def old_def [symmetric] rev_nth)
qed

section \<open>Properties\<close>

definition sample_document :: document where
  "sample_document = \<lparr>doc_profile = sample_profile, doc_source = [], doc_digest = ''d''\<rparr>"

definition sample_base :: store where
  "sample_base = empty_store\<lparr>st_profiles := [\<lparr>pr_id = ''team'', pr_revision = 1, pr_digest = ''d'', pr_name = ''Team'',
     pr_source = [], pr_created = 0\<rparr>]\<rparr>"

lemma sample_base_ok: "store_ok sample_platform sample_base"
  by (simp add: store_ok_def sample_base_def empty_store_def artifacts_ok_def)

definition sample_turn :: "(store_error, session \<times> store) res" where
  "sample_turn = CreateSessionInput sample_platform ''s'' 7 [''e1'', ''e2''] sample_document (text_payload ''go'') ''w'' sample_base"

lemma sample_turn_created: "\<exists>row st'. sample_turn = Inr (row, st')"
  using text_payload_valid [of "''go''"]
  by (simp add: sample_turn_def CreateSessionInput_def createSession_def Let_def text_payload_def trim_plain plain_byte_def
      less_char_def sample_base_def empty_store_def sample_document_def sample_profile_def insertArtifacts_def
      initial_drafts_def insertEvent_def insertContextRecord_def record_of_def)

text \<open>
  A new turn starts with a log that replays. Creating a session on a well-formed store
  keeps it well-formed, files one row under the new identity, and leaves every other
  session's log alone; the new log is the creation event followed by the pinned team, and
  replaying it gives a running session with exactly the task the row records.
\<close>

theorem createSession_contract:
  assumes ok: "store_ok pl st"
    and created: "createSession pl sid now eids doc payload workspace conversationID title st = Inr (row, st')"
  shows "store_ok pl st' \<and> st_sessions st' = st_sessions st @ [row] \<and> ss_id row = sid \<and>
    map ev_kind (Events st' sid 0) = [SessionCreated, ProfilePinned] \<and>
    (\<exists>p. Replay sid (Events st' sid 0) = Inr p \<and> pj_task p = ss_task row \<and> \<not> pj_terminal p) \<and>
    (\<forall>other. other \<noteq> sid \<longrightarrow> Events st' other 0 = Events st other 0)"
proof -
  note facts = createSession_ok [OF ok created]
  have ev: "Events st' i 0 = session_events st' i" "Events st i 0 = session_events st i" for i
    using Events_ok [OF facts(1), of 0] Events_ok [OF ok, of 0] by simp_all
  have "ss_id row = sid"
    by (rule createSession_Inr [OF created]) (simp add: new_row_def)
  moreover have log: "session_events st' sid =
      draft_items sid now 0 eids (initial_drafts doc (ss_task row) (pl_input payload))" by (rule facts(2))
  moreover have "\<exists>p. Replay sid (session_events st' sid) = Inr p \<and> pj_task p = ss_task row \<and> \<not> pj_terminal p"
    unfolding log initial_items
    by (simp add: Replay_def Apply_def apply_kind_def new_projection_def initial_drafts_def
        session_created_codec.decode_materialize)
  ultimately show ?thesis
    unfolding ev using facts by (simp add: initial_items initial_drafts_def)
qed

theorem createSession_contract_witness:
  "\<exists>row st'. sample_turn = Inr (row, st') \<and> map ev_kind (Events st' ''s'' 0) = [SessionCreated, ProfilePinned]"
proof -
  obtain row st' where turn: "sample_turn = Inr (row, st')" using sample_turn_created by auto
  from createSession_contract [OF sample_base_ok turn [unfolded sample_turn_def CreateSessionInput_def]]
  have "map ev_kind (Events st' ''s'' 0) = [SessionCreated, ProfilePinned]" by (elim conjE)
  with turn show ?thesis by (intro exI conjI)
qed

text \<open>
  A conversation cannot drift. Continuing a conversation succeeds only after its previous
  turn has ended and with the team revision and digest that turn was pinned to; the new turn
  takes over workspace and conversation, so that all turns of every conversation still agree
  on team, revision, digest and workspace.
\<close>

theorem CreateContinuation_pinned:
  assumes ok: "store_ok pl st" and pinned: "conversations_pinned st"
    and cont: "CreateContinuationInput pl sid now eids previousID doc payload st = Inr (row, st')"
  shows "conversations_pinned st' \<and>
    (\<exists>previous. session_row st previousID = Some previous \<and> ss_status previous \<noteq> StatusRunning \<and>
       ss_digest previous = doc_digest doc \<and> ss_workspace row = ss_workspace previous \<and>
       (ss_conversation previous \<noteq> [] \<longrightarrow> ss_conversation row = ss_conversation previous))"
  using cont
proof (rule CreateContinuation_Inr)
  fix previous
  assume prev: "session_row st previousID = Some previous" "ss_status previous \<noteq> StatusRunning"
    "ss_profile previous = p_id (doc_profile doc)" "ss_revision previous = p_revision (doc_profile doc)"
    "ss_digest previous = doc_digest doc"
    and created: "createSession pl sid now eids doc payload (ss_workspace previous) (ss_conversation previous)
       (ss_title previous) st = Inr (row, st')"
  have old: "previous \<in> set (st_sessions st)" using session_row_in [OF prev(1)] by simp
  obtain task where row: "row = new_row sid now doc task (ss_workspace previous) (ss_conversation previous) (ss_title previous)"
    and new: "sid \<notin> ss_id ` set (st_sessions st)"
    by (rule createSession_Inr [OF created]) auto
  have st': "st_sessions st' = st_sessions st @ [row]" by (rule createSession_ok(4) [OF ok created])
  have same: "ss_profile row = ss_profile previous" "ss_revision row = ss_revision previous"
    "ss_digest row = ss_digest previous" "ss_workspace row = ss_workspace previous" "ss_id row = sid"
    "ss_conversation row = (if ss_conversation previous = [] then sid else ss_conversation previous)"
    using prev by (simp_all add: row new_row_def)
  have agree: "ss_profile row = ss_profile s \<and> ss_revision row = ss_revision s \<and> ss_digest row = ss_digest s \<and>
      ss_workspace row = ss_workspace s" if "s \<in> set (st_sessions st)" "ss_conversation s = ss_conversation row" for s
  proof (cases "ss_conversation previous = []")
    case True
    then have "ss_conversation s = sid" using that same by simp
    then have "sid \<in> ss_id ` set (st_sessions st)" using pinned that(1) by (auto simp: conversations_pinned_def)
    with new show ?thesis by simp
  next
    case False
    then have "ss_conversation s = ss_conversation previous" using that same by simp
    then have "ss_profile s = ss_profile previous \<and> ss_revision s = ss_revision previous \<and>
        ss_digest s = ss_digest previous \<and> ss_workspace s = ss_workspace previous"
      using pinned that(1) old unfolding conversations_pinned_def by blast
    then show ?thesis by (simp add: same)
  qed
  have "ss_conversation s \<in> ss_id ` set (st_sessions st')" if "s \<in> set (st_sessions st')" for s
  proof -
    have known: "ss_conversation t \<in> ss_id ` set (st_sessions st)" if "t \<in> set (st_sessions st)" for t
      using pinned that unfolding conversations_pinned_def by blast
    have ids: "ss_id ` set (st_sessions st') = insert sid (ss_id ` set (st_sessions st))"
      by (simp add: st' same(5))
    have "s = row \<or> s \<in> set (st_sessions st)" using that by (auto simp: st')
    then show ?thesis unfolding ids using known [OF old] known [of s] same(6) by auto
  qed
  moreover have "ss_profile s = ss_profile t \<and> ss_revision s = ss_revision t \<and> ss_digest s = ss_digest t \<and>
      ss_workspace s = ss_workspace t"
    if "s \<in> set (st_sessions st')" "t \<in> set (st_sessions st')" "ss_conversation s = ss_conversation t" for s t
  proof -
    have "s = row \<or> s \<in> set (st_sessions st)" "t = row \<or> t \<in> set (st_sessions st)"
      using that(1,2) by (auto simp: st')
    then show ?thesis
    proof (elim disjE)
      assume "s = row" "t \<in> set (st_sessions st)"
      then show ?thesis using agree [of t] that(3) by simp
    next
      assume "s \<in> set (st_sessions st)" "t = row"
      then show ?thesis using agree [of s] that(3) by simp
    next
      assume "s \<in> set (st_sessions st)" "t \<in> set (st_sessions st)"
      then show ?thesis using pinned that(3) unfolding conversations_pinned_def by blast
    qed simp
  qed
  ultimately have "conversations_pinned st'" unfolding conversations_pinned_def by blast
  moreover have "ss_conversation previous \<noteq> [] \<longrightarrow> ss_conversation row = ss_conversation previous"
    by (simp add: same)
  ultimately show ?thesis using prev same(4) by blast
qed

definition sample_done :: store where
  "sample_done = sample_base\<lparr>st_sessions := [(sample_row ''p'')\<lparr>ss_status := StatusCompleted\<rparr>],
     st_events := [sample_event 1 ''lead'' FinalCompleted (enc_final_completed_data \<lparr>fc_answer = []\<rparr>)\<lparr>ev_session := ''p''\<rparr>],
     st_records := [record_of sample_platform
       (sample_event 1 ''lead'' FinalCompleted (enc_final_completed_data \<lparr>fc_answer = []\<rparr>)\<lparr>ev_session := ''p''\<rparr>)]\<rparr>"

lemma sample_done_ok: "store_ok sample_platform sample_done" "conversations_pinned sample_done"
  by (simp_all add: store_ok_def sample_done_def sample_base_def empty_store_def artifacts_ok_def sample_row_def
      session_events_def sample_event_def row_ok_def columns_of_def step_columns_def projection_columns_def
      decode_def final_completed_codec.dec_enc conversations_pinned_def)

theorem CreateContinuation_pinned_witness:
  "\<exists>row st'. conversations_pinned st' \<and> ss_conversation row = ''p'' \<and>
     CreateContinuationInput sample_platform ''s'' 7 [''f1'', ''f2''] ''p'' sample_document (text_payload ''go'') sample_done
       = Inr (row, st')"
proof -
  have "\<exists>row st'. CreateContinuationInput sample_platform ''s'' 7 [''f1'', ''f2''] ''p'' sample_document
      (text_payload ''go'') sample_done = Inr (row, st')"
    using text_payload_valid [of "''go''"]
    by (simp add: CreateContinuationInput_def get_session_def session_row_def createSession_def Let_def text_payload_def
        trim_plain plain_byte_def less_char_def sample_done_def sample_base_def empty_store_def sample_document_def
        sample_profile_def insertArtifacts_def initial_drafts_def insertEvent_def insertContextRecord_def record_of_def
        sample_row_def sample_event_def)
  then obtain row st' where c: "CreateContinuationInput sample_platform ''s'' 7 [''f1'', ''f2''] ''p'' sample_document
      (text_payload ''go'') sample_done = Inr (row, st')" by auto
  have "session_row sample_done ''p'' = Some ((sample_row ''p'')\<lparr>ss_status := StatusCompleted\<rparr>)"
    by (simp add: session_row_def sample_done_def sample_row_def)
  then show ?thesis
    using CreateContinuation_pinned [OF sample_done_ok c] c by (auto simp: sample_row_def)
qed

text \<open>
  Paging through the conversations shows each of them once. With SQLite's \<open>julianday\<close>
  as any function of the timestamp, following the cursors of \<open>ListSessionPage\<close> from the
  start, with any page size, lists exactly the newest turn of every conversation, newest
  update first and ties broken by conversation, with nothing skipped and nothing repeated.
\<close>

theorem ListSessionPage_walk:
  assumes "listing_ok (jd, st)" and "0 < limit" and "length (st_sessions st) < fuel"
  shows "walk (\<lambda>c. ListSessionPage jd st c limit) fuel None =
    Inr (rev (sort_key (\<lambda>r. (jd (ss_updated r), ss_conversation r)) (latest_turns st)))"
proof -
  have "length (session_rows (jd, st)) < fuel"
    using assms(3) by (simp add: session_rows_def latest_turns_def le_less_trans [OF length_filter_le])
  from session_pages.walk_all [OF assms(1,2) this]
  show ?thesis by (simp add: session_rows_def session_place_def session_mark_def)
qed

theorem ListSessionPage_walk_witness:
  "walk (\<lambda>c. ListSessionPage (\<lambda>t. t div 1000000) sample_done c 1) 2 None = Inr (st_sessions sample_done)"
  using ListSessionPage_walk [of "\<lambda>t. t div 1000000" sample_done 1 2]
  by (simp add: listing_ok_def sample_done_def sample_row_def session_place_def session_mark_def MaxTime_def latest_turns_def)

text \<open>
  pinned prompt history does not move. A snapshot of the prompt history keeps naming the
  same prompts while newer turns, whose identities sort after the snapshot's newest one, are
  appended and older rows change their status.
\<close>

theorem PromptAt_stable:
  assumes "prompts st' = prompts st @ newer" and "\<forall>r \<in> set newer. sn_newest (PromptSnapshot st) < fst r"
  shows "PromptAt st' (PromptSnapshot st) offset = PromptAt st (PromptSnapshot st) offset"
proof -
  have "filter (\<lambda>r. fst r \<le> sn_newest (PromptSnapshot st)) newer = []"
    using assms(2) by (auto simp: filter_empty_conv)
  then show ?thesis unfolding PromptAt_prompts assms(1) by simp
qed

theorem PromptAt_stable_witness:
  "PromptAt (sample_done\<lparr>st_sessions := [sample_row ''p'', sample_row ''q'']\<rparr>) (PromptSnapshot sample_done) 0 =
   PromptAt sample_done (PromptSnapshot sample_done) 0"
  by (rule PromptAt_stable [where newer = "[(''q'', ''t'')]"])
    (simp_all add: prompts_def sample_done_def sample_row_def PromptSnapshot_def less_list_code less_char_def)

lemma same_second_text:
  "t div 1000000000 = u div 1000000000 \<Longrightarrow>
   rfc3339nano t < rfc3339nano u \<longleftrightarrow>
   fraction (nat (t mod 1000000000)) @ ''Z'' < fraction (nat (u mod 1000000000)) @ ''Z''"
  by (simp add: rfc3339nano_def append_less_append)

lemma tenth_after_twelfth: "fraction 120000000 @ ''Z'' < fraction 100000000 @ ''Z''"
  by (simp add: fraction_def pad_def digits_of_small digits_of_large digit_chars less_list_code less_char_def)

text \<open>
  The turns of a conversation are not always listed in the order they were created.
  \<open>time.RFC3339Nano\<close> drops trailing zeros and \<open>ConversationSessions\<close> sorts \<open>created_at\<close> as
  text: of two turns created in one second, 100 and 120 milliseconds into it, the later one
  is listed first, whatever the second.
\<close>

theorem ConversationSessions_misordered:
  assumes "st_sessions st = [a, b]" and "ss_conversation a = ss_conversation b" and "ss_id a \<noteq> ss_id b"
    and "ss_created a = second * 1000000000 + 100000000"
    and "ss_created b = second * 1000000000 + 120000000"
  shows "ConversationSessions st (ss_id a) = Inr [b, a] \<and> ConversationSessions st (ss_id b) = Inr [b, a]"
proof -
  have "rfc3339nano (ss_created b) < rfc3339nano (ss_created a)"
    using tenth_after_twelfth by (subst same_second_text) (simp_all add: assms)
  then show ?thesis
    using assms(1-3) by (auto simp: ConversationSessions_def get_session_def session_row_def)
qed

theorem ConversationSessions_misordered_witness:
  "ConversationSessions (empty_store\<lparr>st_sessions := [sample_row ''a''\<lparr>ss_created := 100000000\<rparr>,
     sample_row ''b''\<lparr>ss_conversation := ''a'', ss_created := 120000000\<rparr>]\<rparr>) ''a'' =
   Inr [sample_row ''b''\<lparr>ss_conversation := ''a'', ss_created := 120000000\<rparr>,
     sample_row ''a''\<lparr>ss_created := 100000000\<rparr>]"
  using ConversationSessions_misordered
    [of "empty_store\<lparr>st_sessions := [sample_row ''a''\<lparr>ss_created := 100000000\<rparr>,
     sample_row ''b''\<lparr>ss_conversation := ''a'', ss_created := 120000000\<rparr>]\<rparr>"
     "sample_row ''a''\<lparr>ss_created := 100000000\<rparr>"
     "sample_row ''b''\<lparr>ss_conversation := ''a'', ss_created := 120000000\<rparr>" 0]
  by (simp add: sample_row_def)

end
