(* ===== verification/Context.thy ===== *)
theory Context
  imports Sessions
begin

text \<open>
  The context archive (internal/store/context.go and context_artifact.go): who may read
  which archived record, lookup, browsing, full-text search, the immutable context
  artifacts and the numbered context epochs. The SQL predicate the code assembles is the
  function on rows it denotes. SQLite's FTS5 is the \<open>fts\<close> argument (which content matches
  an expression, its rank and its snippet), \<open>json.Valid\<close> and \<open>uuid.Parse\<close> are arguments.
\<close>

section \<open>Scopes\<close>

record context_scope =
  cs_sessions :: "string list"
  cs_correlations :: "string list"
  cs_records :: "string list"
  cs_owners :: "string list"
  cs_artifacts :: "string list"
  cs_all :: bool

definition contextScopePredicate :: "context_scope \<Rightarrow> (store_error, context_record \<Rightarrow> bool) res" where
  "contextScopePredicate scope =
     (let sessions = uniqueContextValues (cs_sessions scope) in
      if sessions = [] then Inl ScopeEmpty
      else if cs_all scope then Inr (\<lambda>r. cr_session r \<in> set sessions)
      else
        let correlations = uniqueContextValues (cs_correlations scope);
            records = uniqueContextValues (cs_records scope);
            grants = (if correlations \<noteq> [] then [\<lambda>r. cr_correlation r \<in> set correlations] else [])
                     @ (if records \<noteq> [] then [\<lambda>r. cr_id r \<in> set records] else [])
        in if grants = [] then Inr (\<lambda>r. False)
           else Inr (\<lambda>r. cr_session r \<in> set sessions \<and> (\<exists>g \<in> set grants. g r)))"

definition contextArtifactScopePredicate :: "context_scope \<Rightarrow> (store_error, context_artifact \<Rightarrow> bool) res" where
  "contextArtifactScopePredicate scope =
     (let sessions = uniqueContextValues (cs_sessions scope) in
      if sessions = [] then Inl ScopeEmpty
      else if cs_all scope then Inr (\<lambda>a. ca_session a \<in> set sessions)
      else
        let owners = uniqueContextValues (cs_owners scope);
            references = uniqueContextValues (cs_artifacts scope);
            grants = (if owners \<noteq> [] then [\<lambda>a. ca_owner a \<in> set owners] else [])
                     @ (if references \<noteq> [] then [\<lambda>a. ca_reference a \<in> set references] else [])
        in if grants = [] then Inr (\<lambda>a. False)
           else Inr (\<lambda>a. ca_session a \<in> set sessions \<and> (\<exists>g \<in> set grants. g a)))"

text \<open>What a scope is documented to grant.\<close>

definition listed :: "string \<Rightarrow> string list \<Rightarrow> bool" where
  "listed v vs \<longleftrightarrow> v \<noteq> [] \<and> v \<in> trim ` set vs"

definition may_read :: "context_scope \<Rightarrow> context_record \<Rightarrow> bool" where
  "may_read scope r \<longleftrightarrow>
     listed (cr_session r) (cs_sessions scope) \<and>
     (cs_all scope \<or> listed (cr_correlation r) (cs_correlations scope) \<or> listed (cr_id r) (cs_records scope))"

definition may_read_artifact :: "context_scope \<Rightarrow> context_artifact \<Rightarrow> bool" where
  "may_read_artifact scope a \<longleftrightarrow>
     listed (ca_session a) (cs_sessions scope) \<and>
     (cs_all scope \<or> listed (ca_owner a) (cs_owners scope) \<or> listed (ca_reference a) (cs_artifacts scope))"

lemma in_uniqueContextValues: "v \<in> set (uniqueContextValues vs) \<longleftrightarrow> listed v vs"
  by (auto simp: listed_def)

lemma uniqueContextValues_empty: "uniqueContextValues vs = [] \<longleftrightarrow> (\<forall>v. \<not> listed v vs)"
  using in_uniqueContextValues by (metis all_not_in_conv set_empty)

lemma contextScopePredicate_iff:
  "contextScopePredicate scope =
     (if \<exists>v. listed v (cs_sessions scope) then Inr (may_read scope) else Inl ScopeEmpty)"
proof (cases "uniqueContextValues (cs_sessions scope) = []")
  case True
  then have "\<not> (\<exists>v. listed v (cs_sessions scope))" by (simp add: uniqueContextValues_empty)
  with True show ?thesis by (simp add: contextScopePredicate_def)
next
  case False
  then have some: "\<exists>v. listed v (cs_sessions scope)" by (simp add: uniqueContextValues_empty)
  have form: "may_read scope = (\<lambda>r. cr_session r \<in> set (uniqueContextValues (cs_sessions scope)) \<and>
      (cs_all scope \<or> cr_correlation r \<in> set (uniqueContextValues (cs_correlations scope)) \<or>
       cr_id r \<in> set (uniqueContextValues (cs_records scope))))"
    by (rule ext) (simp only: may_read_def in_uniqueContextValues)
  show ?thesis
    using False some unfolding form
    by (auto simp: contextScopePredicate_def Let_def simp del: set_uniqueContextValues intro!: ext)
qed

lemma contextArtifactScopePredicate_iff:
  "contextArtifactScopePredicate scope =
     (if \<exists>v. listed v (cs_sessions scope) then Inr (may_read_artifact scope) else Inl ScopeEmpty)"
proof (cases "uniqueContextValues (cs_sessions scope) = []")
  case True
  then have "\<not> (\<exists>v. listed v (cs_sessions scope))" by (simp add: uniqueContextValues_empty)
  with True show ?thesis by (simp add: contextArtifactScopePredicate_def)
next
  case False
  then have some: "\<exists>v. listed v (cs_sessions scope)" by (simp add: uniqueContextValues_empty)
  have form: "may_read_artifact scope = (\<lambda>a. ca_session a \<in> set (uniqueContextValues (cs_sessions scope)) \<and>
      (cs_all scope \<or> ca_owner a \<in> set (uniqueContextValues (cs_owners scope)) \<or>
       ca_reference a \<in> set (uniqueContextValues (cs_artifacts scope))))"
    by (rule ext) (simp only: may_read_artifact_def in_uniqueContextValues)
  show ?thesis
    using False some unfolding form
    by (auto simp: contextArtifactScopePredicate_def Let_def simp del: set_uniqueContextValues intro!: ext)
qed

section \<open>Lookup and listing\<close>

definition ContextRecordInScope ::
    "(string \<Rightarrow> bool) \<Rightarrow> store \<Rightarrow> context_scope \<Rightarrow> string \<Rightarrow> (store_error, context_record) res" where
  "ContextRecordInScope uuid_ok st scope reference =
     (case ParseContextReference uuid_ok reference of
        None \<Rightarrow> Inl BadReference
      | Some i \<Rightarrow>
          res_bind (contextScopePredicate scope) (\<lambda>allowed.
          (case find (\<lambda>r. cr_id r = i \<and> allowed r) (st_records st) of
             None \<Rightarrow> Inl ContextMissing | Some r \<Rightarrow> Inr r)))"

definition session_scope :: "string \<Rightarrow> context_scope" where
  "session_scope sid = \<lparr>cs_sessions = [sid], cs_correlations = [], cs_records = [], cs_owners = [],
     cs_artifacts = [], cs_all = True\<rparr>"

definition get_context_record ::
    "(string \<Rightarrow> bool) \<Rightarrow> store \<Rightarrow> string \<Rightarrow> string \<Rightarrow> (store_error, context_record) res" where
  "get_context_record uuid_ok st sid reference = ContextRecordInScope uuid_ok st (session_scope sid) reference"

definition ContextRecords :: "store \<Rightarrow> string \<Rightarrow> int \<Rightarrow> int \<Rightarrow> (store_error, context_record list) res" where
  "ContextRecords st sid after limit =
     (if limit \<le> 0 \<or> 1000 < limit then Inl BadLimit
      else Inr (take (nat limit) (sort_key cr_sequence
             (filter (\<lambda>r. cr_session r = sid \<and> after < cr_sequence r) (st_records st)))))"

record context_match =
  cm_reference :: string
  cm_session :: string
  cm_sequence :: int
  cm_kind :: kind
  cm_actor :: string
  cm_correlation :: string
  cm_preview :: string
  cm_rank :: rat

text \<open>The runes of a string, each in its UTF-8 form; a byte that starts none is U+FFFD.\<close>

definition cont :: "char \<Rightarrow> bool" where
  "cont c \<longleftrightarrow> CHR 0x80 \<le> c \<and> c \<le> CHR 0xBF"

definition rune_len :: "string \<Rightarrow> nat" where
  "rune_len s =
     (case s of
        [] \<Rightarrow> 0
      | a # r \<Rightarrow>
          if a < CHR 0x80 then 1
          else if CHR 0xC2 \<le> a \<and> a \<le> CHR 0xDF then (case r of b # _ \<Rightarrow> if cont b then 2 else 0 | _ \<Rightarrow> 0)
          else if CHR 0xE0 \<le> a \<and> a \<le> CHR 0xEF then
            (case r of b # c # _ \<Rightarrow>
               if cont b \<and> cont c \<and> (a = CHR 0xE0 \<longrightarrow> CHR 0xA0 \<le> b) \<and> (a = CHR 0xED \<longrightarrow> b \<le> CHR 0x9F) then 3 else 0
             | _ \<Rightarrow> 0)
          else if CHR 0xF0 \<le> a \<and> a \<le> CHR 0xF4 then
            (case r of b # c # d # _ \<Rightarrow>
               if cont b \<and> cont c \<and> cont d \<and> (a = CHR 0xF0 \<longrightarrow> CHR 0x90 \<le> b) \<and> (a = CHR 0xF4 \<longrightarrow> b \<le> CHR 0x8F)
               then 4 else 0
             | _ \<Rightarrow> 0)
          else 0)"

function runes :: "string \<Rightarrow> string list" where
  "runes s =
     (if s = [] then []
      else if rune_len s = 0 then [CHR 0xEF, CHR 0xBF, CHR 0xBD] # runes (tl s)
      else take (rune_len s) s # runes (drop (rune_len s) s))"
  by pat_completeness auto
termination
  by (relation "measure length") auto

declare runes.simps [simp del]

definition contextPreview :: "string \<Rightarrow> nat \<Rightarrow> string" where
  "contextPreview value limit =
     (if length value \<le> limit then value
      else if length (runes value) \<le> limit then value
      else concat (take limit (runes value)) @ [CHR 0xE2, CHR 0x80, CHR 0xA6])"

definition record_match :: "context_record \<Rightarrow> context_match" where
  "record_match r =
     \<lparr>cm_reference = context_reference (cr_id r), cm_session = cr_session r, cm_sequence = cr_sequence r,
      cm_kind = cr_kind r, cm_actor = cr_actor r, cm_correlation = cr_correlation r,
      cm_preview = contextPreview (cr_content r) 800, cm_rank = 0\<rparr>"

text \<open>
  \<open>BrowseContextInScope\<close>. A cursor is the pair of the creation time, as text, and the
  identity; its base64 JSON form is decoded and checked by the argument \<open>cursor_ok\<close>
  (\<open>None\<close> stands for the empty cursor string).
\<close>

definition browse_mark :: "context_record \<Rightarrow> string \<times> string" where
  "browse_mark r = (rfc3339nano (cr_created r), cr_id r)"

definition MaxInt :: int where "MaxInt = 2 ^ 63 - 1"

definition BrowseContextInScope ::
    "(string \<times> string \<Rightarrow> bool) \<Rightarrow> store \<Rightarrow> context_scope \<Rightarrow> (string \<times> string) option \<Rightarrow> int \<Rightarrow>
     (store_error, context_match list \<times> (string \<times> string) option) res" where
  "BrowseContextInScope cursor_ok st scope cursor limit =
     (if limit \<le> 0 then Inl BadLimit
      else res_bind (contextScopePredicate scope) (\<lambda>allowed.
        if (case cursor of None \<Rightarrow> False | Some c \<Rightarrow> \<not> cursor_ok c) then Inl BadCursor
        else
          let inside = (\<lambda>r. allowed r \<and>
                (case cursor of None \<Rightarrow> True
                 | Some c \<Rightarrow> rfc3339nano (cr_created r) < fst c \<or>
                             rfc3339nano (cr_created r) = fst c \<and> cr_id r < snd c));
              queryLimit = (if limit < MaxInt then limit + 1 else limit);
              values = take (nat queryLimit) (rev (sort_key browse_mark (filter inside (st_records st))));
              (kept, next) = (if length values > nat limit
                then (take (nat limit) values, Some (browse_mark (values ! (nat limit - 1))))
                else (values, None))
          in Inr (map record_match kept, next)))"

section \<open>Search\<close>

record fts =
  ft_match :: "string \<Rightarrow> string \<Rightarrow> bool"
  ft_snippet :: "string \<Rightarrow> string \<Rightarrow> string"
  ft_rank :: "string \<Rightarrow> string \<Rightarrow> rat"

definition quote_field :: "string \<Rightarrow> string" where
  "quote_field f = CHR 0x22 # concat (map (\<lambda>c. if c = CHR 0x22 then [c, c] else [c]) f) @ [CHR 0x22]"

definition contextMatchExpression :: "string \<Rightarrow> (store_error, string) res" where
  "contextMatchExpression query =
     (let fs = go_fields (trim query) in
      if fs = [] then Inl BadQuery
      else if 32 < length fs then Inl BadQuery
      else Inr (join '' AND '' (map quote_field fs)))"

definition mergeContextMatches :: "nat \<Rightarrow> context_match list list \<Rightarrow> context_match list" where
  "mergeContextMatches limit groups = take limit (sort_key cm_rank (concat groups))"

definition SearchContextArtifactsInScope ::
    "fts \<Rightarrow> store \<Rightarrow> context_scope \<Rightarrow> string \<Rightarrow> int \<Rightarrow> (store_error, context_match list) res" where
  "SearchContextArtifactsInScope ft st scope query limit =
     (if limit \<le> 0 then Inl BadLimit
      else res_bind (contextMatchExpression query) (\<lambda>expression.
           res_bind (contextArtifactScopePredicate scope) (\<lambda>allowed.
           Inr (map (\<lambda>a. \<lparr>cm_reference = ca_reference a, cm_session = ca_session a, cm_sequence = 0,
                  cm_kind = OtherKind ''tool.output.archive'', cm_actor = ca_owner a, cm_correlation = [],
                  cm_preview = ft_snippet ft expression (ca_content a), cm_rank = ft_rank ft expression (ca_content a)\<rparr>)
                (take (nat limit) (sort_key (\<lambda>a. ft_rank ft expression (ca_content a))
                   (rev (sort_key (\<lambda>a. rfc3339nano (ca_created a))
                     (filter (\<lambda>a. ft_match ft expression (ca_content a) \<and> allowed a) (st_context_artifacts st))))))))))"

definition SearchContextInScope ::
    "fts \<Rightarrow> store \<Rightarrow> context_scope \<Rightarrow> string \<Rightarrow> int \<Rightarrow> (store_error, context_match list) res" where
  "SearchContextInScope ft st scope query limit =
     (if limit \<le> 0 then Inl BadLimit
      else res_bind (contextMatchExpression query) (\<lambda>expression.
           res_bind (contextScopePredicate scope) (\<lambda>allowed.
           let matches = map (\<lambda>r. \<lparr>cm_reference = context_reference (cr_id r), cm_session = cr_session r,
                  cm_sequence = cr_sequence r, cm_kind = cr_kind r, cm_actor = cr_actor r,
                  cm_correlation = cr_correlation r, cm_preview = ft_snippet ft expression (cr_content r),
                  cm_rank = ft_rank ft expression (cr_content r)\<rparr>)
                (take (nat limit) (sort_key (\<lambda>r. (ft_rank ft expression (cr_content r), - cr_sequence r))
                   (filter (\<lambda>r. ft_match ft expression (cr_content r) \<and> allowed r) (st_records st))))
           in res_bind (SearchContextArtifactsInScope ft st scope query limit) (\<lambda>artifacts.
              Inr (mergeContextMatches (nat limit) [matches, artifacts])))))"

section \<open>Context artifacts\<close>

definition ArchiveContextArtifact ::
    "platform \<Rightarrow> int \<Rightarrow> context_artifact \<Rightarrow> store \<Rightarrow> (store_error, store) res" where
  "ArchiveContextArtifact pl now artifact st =
     (let a = artifact\<lparr>ca_reference := trim (ca_reference artifact), ca_session := trim (ca_session artifact),
                ca_owner := trim (ca_owner artifact), ca_digest := pf_sha pl (ca_content artifact),
                ca_bytes := int (length (ca_content artifact)), ca_created := now\<rparr> in
      if ca_reference a = [] \<or> ca_session a = [] \<or> ca_owner a = [] then Inl ContextArtifactIncomplete
      else case find (\<lambda>b. ca_reference b = ca_reference a) (st_context_artifacts st) of
        Some b \<Rightarrow> if ca_digest b \<noteq> ca_digest a then Inl (ContextArtifactImmutable (ca_reference a)) else Inr st
      | None \<Rightarrow>
          if \<forall>s \<in> set (st_sessions st). ss_id s \<noteq> ca_session a then Inl Constraint
          else Inr (st\<lparr>st_context_artifacts := st_context_artifacts st @ [a]\<rparr>))"

definition ContextArtifactInScope :: "store \<Rightarrow> context_scope \<Rightarrow> string \<Rightarrow> (store_error, context_artifact) res" where
  "ContextArtifactInScope st scope reference =
     res_bind (contextArtifactScopePredicate scope) (\<lambda>allowed.
     (case find (\<lambda>a. ca_reference a = trim reference \<and> allowed a) (st_context_artifacts st) of
        None \<Rightarrow> Inl ContextMissing | Some a \<Rightarrow> Inr a))"

section \<open>Context epochs\<close>

definition scope_epochs :: "store \<Rightarrow> string \<Rightarrow> string \<Rightarrow> string \<Rightarrow> context_epoch list" where
  "scope_epochs st sid sk si =
     filter (\<lambda>e. ep_session e = sid \<and> ep_scope_kind e = sk \<and> ep_scope_id e = si) (st_epochs st)"

definition CommitContextEpoch ::
    "platform \<Rightarrow> (string \<Rightarrow> bool) \<Rightarrow> int \<Rightarrow> context_epoch \<Rightarrow> store \<Rightarrow> (store_error, context_epoch \<times> store) res" where
  "CommitContextEpoch pl json_valid now epoch st =
     (let e = epoch\<lparr>ep_session := trim (ep_session epoch), ep_scope_kind := trim (ep_scope_kind epoch),
                ep_scope_id := trim (ep_scope_id epoch)\<rparr> in
      if ep_session e = [] \<or> ep_scope_kind e = [] \<or> ep_scope_id e = [] then Inl EpochIncomplete
      else if ep_source e < 1 then Inl (EpochSource (ep_source e))
      else if \<not> json_valid (ep_view e) then Inl EpochView
      else if ep_tokens e < 0 then Inl EpochTokens
      else
        let last = LastSequence st (ep_session e) in
        if last < ep_source e then Inl (EpochAhead (ep_source e) last)
        else
          let next = max_or_zero (map ep_epoch (scope_epochs st (ep_session e) (ep_scope_kind e) (ep_scope_id e))) + 1;
              row = e\<lparr>ep_digest := pf_sha pl (ep_view e), ep_created := now, ep_epoch := next\<rparr>
          in if (\<forall>s \<in> set (st_sessions st). ss_id s \<noteq> ep_session row) \<or>
                (\<exists>f \<in> set (scope_epochs st (ep_session e) (ep_scope_kind e) (ep_scope_id e)). ep_epoch f = next)
             then Inl Constraint
             else Inr (row, st\<lparr>st_epochs := st_epochs st @ [row]\<rparr>))"

definition LatestContextEpoch :: "store \<Rightarrow> string \<Rightarrow> string \<Rightarrow> string \<Rightarrow> context_epoch option" where
  "LatestContextEpoch st sid sk si =
     (case rev (sort_key ep_epoch (scope_epochs st sid sk si)) of [] \<Rightarrow> None | e # _ \<Rightarrow> Some e)"


section \<open>Browsing pages correctly\<close>

definition scope_known :: "context_scope \<Rightarrow> bool" where
  "scope_known scope \<longleftrightarrow> (\<exists>v \<in> set (cs_sessions scope). trim v \<noteq> [])"

lemma scope_known_iff: "scope_known scope \<longleftrightarrow> (\<exists>v. listed v (cs_sessions scope))"
  by (auto simp: scope_known_def listed_def)

lemma predicate_of_known: "scope_known scope \<Longrightarrow> contextScopePredicate scope = Inr (may_read scope)"
  by (simp add: contextScopePredicate_iff scope_known_iff)

definition browse_ok :: "((string \<times> string \<Rightarrow> bool) \<times> store \<times> context_scope) \<Rightarrow> bool" where
  "browse_ok s \<longleftrightarrow>
     (case s of (cursor_ok, st, scope) \<Rightarrow>
        distinct (map cr_id (st_records st)) \<and> (\<forall>r \<in> set (st_records st). cursor_ok (browse_mark r)) \<and>
        int (length (st_records st)) < MaxInt \<and> scope_known scope)"

definition browse_rows :: "((string \<times> string \<Rightarrow> bool) \<times> store \<times> context_scope) \<Rightarrow> context_record list" where
  "browse_rows s =
     (case s of (cursor_ok, st, scope) \<Rightarrow>
        rev (sort_key browse_mark (filter (may_read scope) (st_records st))))"

interpretation browse_pages: paged
  "\<lambda>s. BrowseContextInScope (fst s) (fst (snd s)) (snd (snd s))" browse_rows "\<lambda>_. browse_mark" "\<lambda>_ c. c"
  "\<lambda>_. record_match" browse_ok
proof
  fix s :: "(string \<times> string \<Rightarrow> bool) \<times> store \<times> context_scope" and limit :: int and cursor
  obtain cursor_ok st scope where s: "s = (cursor_ok, st, scope)" by (cases s)
  assume "browse_ok s"
  then have ids: "distinct (map cr_id (st_records st))" and few: "int (length (st_records st)) < MaxInt"
    and marks: "\<forall>r \<in> set (st_records st). cursor_ok (browse_mark r)" and known: "scope_known scope"
    by (auto simp: browse_ok_def s)
  have "distinct (map cr_id (filter (may_read scope) (st_records st)))"
    using ids by (rule distinct_ids_filter)
  then have "distinct (map browse_mark (filter (may_read scope) (st_records st)))"
    by (auto simp: distinct_map inj_on_def browse_mark_def)
  then show "sorted_wrt (\<lambda>a b. browse_mark b < browse_mark a) (browse_rows s)"
    unfolding browse_rows_def s prod.case by (rule rev_sort_descending)
  assume limit: "0 < limit" and cur: "cursor = None \<or> cursor \<in> Some ` browse_mark ` set (browse_rows s)"
  let ?in = "\<lambda>r. may_read scope r \<and> (case cursor of None \<Rightarrow> True
      | Some c \<Rightarrow> rfc3339nano (cr_created r) < fst c \<or> rfc3339nano (cr_created r) = fst c \<and> cr_id r < snd c)"
  define rs where "rs = rev (sort_key browse_mark (filter ?in (st_records st)))"
  have valid: "(case cursor of None \<Rightarrow> False | Some c \<Rightarrow> \<not> cursor_ok c) = False"
    using cur marks by (auto simp: browse_rows_def s)
  have inside: "filter ?in (st_records st) =
      filter (\<lambda>r. case cursor of None \<Rightarrow> True | Some c \<Rightarrow> browse_mark r < c) (filter (may_read scope) (st_records st))"
    by (simp add: filter_filter) (rule filter_cong, auto simp: browse_mark_def split: option.splits)
  then have rs: "rs = below browse_mark cursor (browse_rows s)"
    by (cases cursor) (simp_all add: rs_def browse_rows_def s below_rev_sort)
  have "length rs \<le> length (st_records st)" by (simp add: rs_def le_trans [OF length_filter_le])
  then have fetch: "take (nat (if limit < MaxInt then limit + 1 else limit)) rs = take (nat limit + 1) rs"
    using few limit by (auto simp: Suc_nat_eq_nat_zadd1 add.commute)
  have "\<not> limit \<le> 0" using limit by simp
  then have "BrowseContextInScope cursor_ok st scope cursor limit =
      (let values = take (nat (if limit < MaxInt then limit + 1 else limit)) rs;
           (kept, next) = (if length values > nat limit
             then (take (nat limit) values, Some (browse_mark (values ! (nat limit - 1))))
             else (values, None))
       in Inr (map record_match kept, next))"
    by (simp only: BrowseContextInScope_def valid predicate_of_known [OF known] res_bind.simps Let_def rs_def if_False)
  then show "BrowseContextInScope (fst s) (fst (snd s)) (snd (snd s)) cursor limit =
      Inr (apfst (map record_match) (cut_page browse_mark (nat limit)
        (below browse_mark (map_option (\<lambda>c. c) cursor) (browse_rows s))))"
    unfolding fetch option.map_ident rs [symmetric]
    by (simp add: s cut_page_def Let_def)
qed


section \<open>Properties\<close>

definition sample_archive :: store where
  "sample_archive = sample_store\<lparr>
     st_events := [sample_event 1 ''user'' SessionCreated JNull, sample_event 2 ''lead'' ToolCalled JNull],
     st_records := [record_of sample_platform (sample_event 1 ''user'' SessionCreated JNull),
                    record_of sample_platform (sample_event 2 ''lead'' ToolCalled JNull)]\<rparr>"

lemma sample_archive_ids: "distinct (map cr_id (st_records sample_archive))"
  by (simp add: sample_archive_def record_of_def sample_event_def itoa_def digits_of_small digit_chars)

text \<open>
  A reader sees exactly the records its scope grants. Looking up a reference within a
  scope succeeds with a record precisely when the reference parses to that record's
  identity, the record is archived, and the scope grants it: its session is one of the
  listed ones, and either everything in those sessions is granted, or its correlation, or
  the record itself. Blank entries of a scope grant nothing.
\<close>

theorem ContextRecordInScope_exact:
  assumes ids: "distinct (map cr_id (st_records st))"
  shows "ContextRecordInScope uuid_ok st scope reference = Inr r \<longleftrightarrow>
    ParseContextReference uuid_ok reference = Some (cr_id r) \<and> r \<in> set (st_records st) \<and> may_read scope r"
proof
  assume "ContextRecordInScope uuid_ok st scope reference = Inr r"
  then show "ParseContextReference uuid_ok reference = Some (cr_id r) \<and> r \<in> set (st_records st) \<and> may_read scope r"
    by (auto simp: ContextRecordInScope_def contextScopePredicate_iff dest!: find_SomeD
        split: option.splits if_splits)
next
  assume r: "ParseContextReference uuid_ok reference = Some (cr_id r) \<and> r \<in> set (st_records st) \<and> may_read scope r"
  then have "\<exists>v. listed v (cs_sessions scope)" by (auto simp: may_read_def)
  moreover have "find (\<lambda>x. cr_id x = cr_id r \<and> may_read scope x) (st_records st) = Some r"
    by (rule find_unique [OF ids]) (use r in auto)
  ultimately show "ContextRecordInScope uuid_ok st scope reference = Inr r"
    using r by (simp add: ContextRecordInScope_def contextScopePredicate_iff)
qed

theorem ContextRecordInScope_exact_witness:
  "ContextRecordInScope (\<lambda>i. True) sample_archive (session_scope ''s'') (context_reference (''e'' @ itoa 1)) =
     Inr (hd (st_records sample_archive)) \<and>
   ContextRecordInScope (\<lambda>i. True) sample_archive (session_scope ''other'') (context_reference (''e'' @ itoa 1)) \<noteq>
     Inr (hd (st_records sample_archive))"
proof -
  have "trim ''s'' = ''s''" "trim ''other'' = ''other''"
    by (simp_all add: trim_plain plain_byte_def less_char_def)
  moreover have "CHR ''/'' \<notin> set (''e'' @ itoa 1)"
    by (simp add: itoa_def digits_of_small digit_chars)
  then have "ParseContextReference (\<lambda>i. True) (context_reference (''e'' @ itoa 1)) = Some (''e'' @ itoa 1)"
    by (simp add: ParseContextReference_def context_reference_def path_unescape_escape Let_def
        trim_context_reference [unfolded context_reference_def])
  ultimately show ?thesis
    unfolding ContextRecordInScope_exact [OF sample_archive_ids]
    by (simp add: may_read_def listed_def session_scope_def) (simp add: sample_archive_def record_of_def sample_event_def)
qed

text \<open>
  Browsing a scope lists everything in it, once. Following the cursors of
  \<open>BrowseContextInScope\<close> with any page size yields a match for every archived record the
  scope grants and for no other, newest first by timestamp text and then by identity.
\<close>

theorem BrowseContextInScope_walk:
  assumes "browse_ok (cursor_ok, st, scope)" and "0 < limit" and "length (st_records st) < fuel"
  shows "walk (\<lambda>c. BrowseContextInScope cursor_ok st scope c limit) fuel None =
    Inr (map record_match (rev (sort_key browse_mark (filter (may_read scope) (st_records st)))))"
proof -
  have "length (browse_rows (cursor_ok, st, scope)) < fuel"
    using assms(3) by (simp add: browse_rows_def le_less_trans [OF length_filter_le])
  from browse_pages.walk_all [OF assms(1,2) this]
  show ?thesis by (simp add: browse_rows_def)
qed

theorem BrowseContextInScope_walk_witness:
  "walk (\<lambda>c. BrowseContextInScope (\<lambda>c. True) sample_archive (session_scope ''s'') c 1) 3 None =
     Inr (map record_match (rev (sort_key browse_mark
       (filter (may_read (session_scope ''s'')) (st_records sample_archive)))))"
proof (rule BrowseContextInScope_walk)
  have "trim ''s'' = ''s''" by (simp add: trim_plain plain_byte_def less_char_def)
  then show "browse_ok (\<lambda>c. True, sample_archive, session_scope ''s'')"
    using sample_archive_ids by (simp add: browse_ok_def scope_known_def session_scope_def MaxInt_def) (simp add: sample_archive_def)
qed (simp_all add: sample_archive_def)

definition record_hit :: "fts \<Rightarrow> store \<Rightarrow> context_scope \<Rightarrow> string \<Rightarrow> context_match \<Rightarrow> bool" where
  "record_hit ft st scope expression m \<longleftrightarrow>
     (\<exists>r \<in> set (st_records st). may_read scope r \<and> ft_match ft expression (cr_content r) \<and>
        cm_reference m = context_reference (cr_id r))"

definition artifact_hit :: "fts \<Rightarrow> store \<Rightarrow> context_scope \<Rightarrow> string \<Rightarrow> context_match \<Rightarrow> bool" where
  "artifact_hit ft st scope expression m \<longleftrightarrow>
     (\<exists>a \<in> set (st_context_artifacts st). may_read_artifact scope a \<and> ft_match ft expression (ca_content a) \<and>
        cm_reference m = ca_reference a)"

lemma artifact_search_hits:
  assumes "SearchContextArtifactsInScope ft st scope query limit = Inr ms"
    and "contextMatchExpression query = Inr expression" and "m \<in> set ms"
  shows "artifact_hit ft st scope expression m"
  using assms
  by (auto simp: SearchContextArtifactsInScope_def contextArtifactScopePredicate_iff artifact_hit_def
      split: if_splits dest!: in_set_takeD) blast

lemma SearchContextInScope_parts:
  assumes "SearchContextInScope ft st scope query limit = Inr matches"
  obtains expression records artifacts where "0 < limit" "contextMatchExpression query = Inr expression"
    "matches = mergeContextMatches (nat limit) [records, artifacts]"
    "\<forall>m \<in> set records. record_hit ft st scope expression m"
    "\<forall>m \<in> set artifacts. artifact_hit ft st scope expression m"
proof -
  from assms have limit: "0 < limit" by (simp add: SearchContextInScope_def split: if_splits)
  from assms obtain expression where e: "contextMatchExpression query = Inr expression"
    by (auto simp: SearchContextInScope_def res_bind_Inr_iff split: if_splits)
  from assms e limit obtain allowed where p: "contextScopePredicate scope = Inr allowed"
    by (auto simp: SearchContextInScope_def res_bind_Inr_iff)
  have allowed: "allowed = may_read scope" using p by (simp add: contextScopePredicate_iff split: if_splits)
  define records where "records = map (\<lambda>r. \<lparr>cm_reference = context_reference (cr_id r), cm_session = cr_session r,
      cm_sequence = cr_sequence r, cm_kind = cr_kind r, cm_actor = cr_actor r,
      cm_correlation = cr_correlation r, cm_preview = ft_snippet ft expression (cr_content r),
      cm_rank = ft_rank ft expression (cr_content r)\<rparr>)
    (take (nat limit) (sort_key (\<lambda>r. (ft_rank ft expression (cr_content r), - cr_sequence r))
       (filter (\<lambda>r. ft_match ft expression (cr_content r) \<and> allowed r) (st_records st))))"
  from assms e limit p obtain artifacts where
    a: "SearchContextArtifactsInScope ft st scope query limit = Inr artifacts"
    and m: "matches = mergeContextMatches (nat limit) [records, artifacts]"
    by (auto simp: SearchContextInScope_def res_bind_Inr_iff Let_def records_def)
  have "\<forall>m \<in> set records. record_hit ft st scope expression m"
    by (auto simp: records_def allowed record_hit_def dest!: in_set_takeD)
  then show thesis using artifact_search_hits [OF a e] limit e m that by blast
qed

text \<open>
  Search results never leave the scope and never exceed the limit. Every match of a
  search comes from an archived record or context artifact that the scope grants and that
  matches the quoted terms, at most \<open>limit\<close> are returned, and they are in order of rank.
\<close>

theorem SearchContextInScope_safe:
  assumes "SearchContextInScope ft st scope query limit = Inr matches"
  shows "int (length matches) \<le> limit \<and> sorted (map cm_rank matches) \<and>
    (\<exists>expression. contextMatchExpression query = Inr expression \<and>
      (\<forall>m \<in> set matches. record_hit ft st scope expression m \<or> artifact_hit ft st scope expression m))"
  using assms
proof (rule SearchContextInScope_parts)
  fix expression records artifacts
  assume limit: "0 < limit" and e: "contextMatchExpression query = Inr expression"
    and m: "matches = mergeContextMatches (nat limit) [records, artifacts]"
    and hits: "\<forall>m \<in> set records. record_hit ft st scope expression m"
      "\<forall>m \<in> set artifacts. artifact_hit ft st scope expression m"
  have "int (length matches) \<le> limit" using limit by (simp add: m mergeContextMatches_def)
  moreover have "sorted (map cm_rank matches)"
    by (simp add: m mergeContextMatches_def take_map [symmetric] sorted_wrt_take)
  moreover have "set matches \<subseteq> set records \<union> set artifacts"
    using set_take_subset [of "nat limit" "sort_key cm_rank (records @ artifacts)"]
    by (simp add: m mergeContextMatches_def)
  ultimately show ?thesis using e hits by blast
qed

definition sample_fts :: fts where
  "sample_fts = \<lparr>ft_match = (\<lambda>e c. True), ft_snippet = (\<lambda>e c. c), ft_rank = (\<lambda>e c. 0)\<rparr>"

theorem SearchContextInScope_safe_witness:
  "\<exists>matches. SearchContextInScope sample_fts sample_archive (session_scope ''s'') ''go'' 1 = Inr matches \<and>
     int (length matches) \<le> 1"
proof -
  have "trim ''s'' = ''s''" by (simp add: trim_plain plain_byte_def less_char_def)
  then have known: "\<exists>v. listed v (cs_sessions (session_scope ''s''))"
    by (auto simp: listed_def session_scope_def)
  have "space_len (c # s) = 0" if "plain_byte c" for c s
  proof -
    have "find (\<lambda>w. prefix w (c # s)) space_runes = None"
      using plain_not_space_hd [OF that] by (auto simp: find_None_iff)
    then show ?thesis by (simp add: space_len_def)
  qed
  then have "go_fields ''go'' = [''go'']"
    by (simp add: go_fields_def go_fields_acc.simps plain_byte_def less_char_def)
  then have "contextMatchExpression ''go'' = Inr (quote_field ''go'')"
    by (simp add: contextMatchExpression_def trim_plain plain_byte_def less_char_def)
  then obtain matches where m: "SearchContextInScope sample_fts sample_archive (session_scope ''s'') ''go'' 1 = Inr matches"
    using known by (simp add: SearchContextInScope_def SearchContextArtifactsInScope_def contextScopePredicate_iff
        contextArtifactScopePredicate_iff Let_def)
  from SearchContextInScope_safe [OF m] m show ?thesis by blast
qed


section \<open>Epochs and artifacts\<close>

definition epochs_ok :: "store \<Rightarrow> bool" where
  "epochs_ok st \<longleftrightarrow>
     (\<forall>e \<in> set (st_epochs st).
        let es = scope_epochs st (ep_session e) (ep_scope_kind e) (ep_scope_id e)
        in map ep_epoch es = [1..int (length es)])"

lemma scope_epochs_numbered:
  assumes "epochs_ok st"
  shows "map ep_epoch (scope_epochs st sid sk si) = [1..int (length (scope_epochs st sid sk si))]"
proof (cases "scope_epochs st sid sk si")
  case Nil
  then show ?thesis by simp
next
  case (Cons e es)
  then have "e \<in> set (scope_epochs st sid sk si)" by simp
  then have e: "e \<in> set (st_epochs st)" "ep_session e = sid" "ep_scope_kind e = sk" "ep_scope_id e = si"
    by (auto simp: scope_epochs_def)
  show ?thesis using assms e(1) unfolding epochs_ok_def Let_def e(2,3,4)[symmetric] by blast
qed

lemma max_or_zero_upto: "max_or_zero [1..int n] = int n"
proof (induction n)
  case 0
  then show ?case by (simp add: max_or_zero_def)
next
  case (Suc n)
  have "[1..int (Suc n)] = [1..int n] @ [int n + 1]"
    by (simp add: upto_rec2 add.commute)
  then show ?case using Suc.IH by (simp add: max_or_zero_append) (simp add: max_or_zero_def)
qed

lemma CommitContextEpoch_Inr:
  assumes ok: "epochs_ok st" and c: "CommitContextEpoch pl json_valid now epoch st = Inr (row, st')"
  obtains "st' = st\<lparr>st_epochs := st_epochs st @ [row]\<rparr>"
    "ep_epoch row = int (length (scope_epochs st (ep_session row) (ep_scope_kind row) (ep_scope_id row))) + 1"
    "ep_session row = trim (ep_session epoch)" "ep_scope_kind row = trim (ep_scope_kind epoch)"
    "ep_scope_id row = trim (ep_scope_id epoch)" "ep_view row = ep_view epoch"
    "1 \<le> ep_source row" "ep_source row \<le> LastSequence st (ep_session row)"
    "ep_digest row = pf_sha pl (ep_view epoch)"
  using c max_or_zero_upto
  by (auto simp: CommitContextEpoch_def Let_def scope_epochs_numbered [OF ok] split: if_splits)

lemma scope_epochs_snoc:
  "scope_epochs (st\<lparr>st_epochs := st_epochs st @ [row]\<rparr>) sid sk si =
     scope_epochs st sid sk si @
     (if ep_session row = sid \<and> ep_scope_kind row = sk \<and> ep_scope_id row = si then [row] else [])"
  by (simp add: scope_epochs_def)

lemma CommitContextEpoch_ok:
  assumes ok: "epochs_ok st" and c: "CommitContextEpoch pl json_valid now epoch st = Inr (row, st')"
  shows "epochs_ok st'"
  using ok c
proof (rule CommitContextEpoch_Inr)
  assume st': "st' = st\<lparr>st_epochs := st_epochs st @ [row]\<rparr>"
    and n: "ep_epoch row = int (length (scope_epochs st (ep_session row) (ep_scope_kind row) (ep_scope_id row))) + 1"
  have "map ep_epoch (scope_epochs st' sid sk si) = [1..int (length (scope_epochs st' sid sk si))]" for sid sk si
  proof (cases "ep_session row = sid \<and> ep_scope_kind row = sk \<and> ep_scope_id row = si")
    case True
    then have "scope_epochs st' sid sk si = scope_epochs st sid sk si @ [row]"
      by (simp add: st' scope_epochs_snoc)
    moreover have "[1..int (length (scope_epochs st sid sk si)) + 1] =
        [1..int (length (scope_epochs st sid sk si))] @ [int (length (scope_epochs st sid sk si)) + 1]"
      by (simp add: upto_rec2)
    ultimately show ?thesis using scope_epochs_numbered [OF ok, of sid sk si] n True by (simp add: add.commute)
  next
    case False
    then have "scope_epochs st' sid sk si = scope_epochs st sid sk si"
      by (auto simp: st' scope_epochs_snoc)
    then show ?thesis using scope_epochs_numbered [OF ok] by simp
  qed
  then show ?thesis by (simp add: epochs_ok_def)
qed

lemma LatestContextEpoch_snoc:
  assumes "epochs_ok st" and "scope_epochs st sid sk si = es @ [e]"
  shows "LatestContextEpoch st sid sk si = Some e"
proof -
  have "sorted (map ep_epoch (scope_epochs st sid sk si))"
    unfolding scope_epochs_numbered [OF assms(1)] by (rule sorted_upto)
  then have "sort_key ep_epoch (scope_epochs st sid sk si) = es @ [e]"
    using assms(2) by (simp add: sort_key_id_if_sorted)
  then show ?thesis by (simp add: LatestContextEpoch_def)
qed

text \<open>
  Context epochs count up without gaps. A committed epoch gets the number after the last
  one of its scope, starting at one, covers only events that are already durable, is the one
  \<open>LatestContextEpoch\<close> returns for its scope from then on, and leaves the latest epoch of
  every other scope alone.
\<close>

theorem CommitContextEpoch_contract:
  assumes ok: "epochs_ok st" and c: "CommitContextEpoch pl json_valid now epoch st = Inr (row, st')"
  shows "epochs_ok st' \<and>
    LatestContextEpoch st' (ep_session row) (ep_scope_kind row) (ep_scope_id row) = Some row \<and>
    ep_epoch row = (case LatestContextEpoch st (ep_session row) (ep_scope_kind row) (ep_scope_id row) of
      None \<Rightarrow> 1 | Some e \<Rightarrow> ep_epoch e + 1) \<and>
    1 \<le> ep_source row \<and> ep_source row \<le> LastSequence st (ep_session row) \<and>
    (\<forall>sid sk si. (sid, sk, si) \<noteq> (ep_session row, ep_scope_kind row, ep_scope_id row) \<longrightarrow>
       LatestContextEpoch st' sid sk si = LatestContextEpoch st sid sk si)"
  using ok c
proof (rule CommitContextEpoch_Inr)
  let ?old = "scope_epochs st (ep_session row) (ep_scope_kind row) (ep_scope_id row)"
  assume st': "st' = st\<lparr>st_epochs := st_epochs st @ [row]\<rparr>"
    and n: "ep_epoch row = int (length ?old) + 1"
    and src: "1 \<le> ep_source row" "ep_source row \<le> LastSequence st (ep_session row)"
  have ok': "epochs_ok st'" by (rule CommitContextEpoch_ok [OF ok c])
  have "scope_epochs st' (ep_session row) (ep_scope_kind row) (ep_scope_id row) = ?old @ [row]"
    by (simp add: st' scope_epochs_snoc)
  from LatestContextEpoch_snoc [OF ok' this]
  have latest: "LatestContextEpoch st' (ep_session row) (ep_scope_kind row) (ep_scope_id row) = Some row" .
  have number: "ep_epoch row = (case LatestContextEpoch st (ep_session row) (ep_scope_kind row) (ep_scope_id row) of
      None \<Rightarrow> 1 | Some e \<Rightarrow> ep_epoch e + 1)"
  proof (cases ?old rule: rev_cases)
    case Nil
    then show ?thesis using n by (simp add: LatestContextEpoch_def)
  next
    case (snoc es e)
    have "map ep_epoch ?old = [1..int (length ?old)]" by (rule scope_epochs_numbered [OF ok])
    then have "map ep_epoch es @ [ep_epoch e] = [1..int (length es)] @ [int (length es) + 1]"
      unfolding snoc by (simp add: upto_rec2 add.commute)
    then have "ep_epoch e = int (length es) + 1" by simp
    then show ?thesis using n LatestContextEpoch_snoc [OF ok snoc] by (simp add: snoc)
  qed
  have "LatestContextEpoch st' sid sk si = LatestContextEpoch st sid sk si"
    if "(sid, sk, si) \<noteq> (ep_session row, ep_scope_kind row, ep_scope_id row)" for sid sk si
  proof -
    have "scope_epochs st' sid sk si = scope_epochs st sid sk si"
      using that by (auto simp: st' scope_epochs_snoc)
    then show ?thesis by (simp add: LatestContextEpoch_def)
  qed
  then show ?thesis using ok' latest number src by blast
qed

definition sample_epoch :: context_epoch where
  "sample_epoch = \<lparr>ep_session = ''s'', ep_scope_kind = ''x'', ep_scope_id = ''m'', ep_epoch = 0, ep_source = 2,
     ep_view = ''{}'', ep_digest = [], ep_tokens = 3, ep_created = 0\<rparr>"

theorem CommitContextEpoch_contract_witness:
  "\<exists>row st'. CommitContextEpoch sample_platform (\<lambda>v. True) 9 sample_epoch sample_archive = Inr (row, st') \<and>
     LatestContextEpoch st' (ep_session row) (ep_scope_kind row) (ep_scope_id row) = Some row"
proof -
  have trims: "trim ''s'' = ''s''" "trim ''x'' = ''x''" "trim ''m'' = ''m''"
    by (simp_all add: trim_plain plain_byte_def less_char_def)
  have ok: "epochs_ok sample_archive"
    by (simp add: epochs_ok_def sample_archive_def sample_store_def empty_store_def)
  have "LastSequence sample_archive ''s'' = 2"
    by (simp add: LastSequence_def session_events_def sample_archive_def sample_event_def max_or_zero_def)
  then obtain row st' where "CommitContextEpoch sample_platform (\<lambda>v. True) 9 sample_epoch sample_archive = Inr (row, st')"
    by (simp add: CommitContextEpoch_def sample_epoch_def trims Let_def scope_epochs_def)
      (simp add: sample_archive_def sample_store_def empty_store_def sample_row_def)
  with CommitContextEpoch_contract [OF ok this] show ?thesis by blast
qed

text \<open>
  An archived context artifact is immutable. After a successful archive the artifact
  under that reference holds the digest of the archived bytes, everything archived before is
  still there, writing the same bytes again changes nothing, and writing bytes with another
  digest under that reference is refused.
\<close>

theorem ArchiveContextArtifact_immutable:
  assumes unique: "distinct (map ca_reference (st_context_artifacts st))"
    and arch: "ArchiveContextArtifact pl now artifact st = Inr st'"
  shows "distinct (map ca_reference (st_context_artifacts st')) \<and>
    (\<exists>new. st_context_artifacts st' = st_context_artifacts st @ new) \<and>
    (\<exists>a \<in> set (st_context_artifacts st'). ca_reference a = trim (ca_reference artifact) \<and>
       ca_digest a = pf_sha pl (ca_content artifact)) \<and>
    ArchiveContextArtifact pl later artifact st' = Inr st' \<and>
    (\<forall>other. trim (ca_reference other) = trim (ca_reference artifact) \<and>
       trim (ca_session other) \<noteq> [] \<and> trim (ca_owner other) \<noteq> [] \<and>
       pf_sha pl (ca_content other) \<noteq> pf_sha pl (ca_content artifact) \<longrightarrow>
       ArchiveContextArtifact pl later other st' = Inl (ContextArtifactImmutable (trim (ca_reference artifact))))"
proof -
  let ?ref = "trim (ca_reference artifact)"
  have full: "?ref \<noteq> []" "trim (ca_session artifact) \<noteq> []" "trim (ca_owner artifact) \<noteq> []"
    using arch by (auto simp: ArchiveContextArtifact_def Let_def split: if_splits)
  obtain new a where new: "st_context_artifacts st' = st_context_artifacts st @ new"
    and dist: "distinct (map ca_reference (st_context_artifacts st'))"
    and a: "find (\<lambda>b. ca_reference b = ?ref) (st_context_artifacts st') = Some a"
      "ca_digest a = pf_sha pl (ca_content artifact)"
  proof (cases "find (\<lambda>b. ca_reference b = ?ref) (st_context_artifacts st)")
    case (Some b)
    then have "st' = st" "ca_digest b = pf_sha pl (ca_content artifact)"
      using arch full by (auto simp: ArchiveContextArtifact_def Let_def split: if_splits)
    then show ?thesis using that [of "[]" b] Some unique by simp
  next
    case None
    let ?a = "artifact\<lparr>ca_reference := ?ref, ca_session := trim (ca_session artifact),
        ca_owner := trim (ca_owner artifact), ca_digest := pf_sha pl (ca_content artifact),
        ca_bytes := int (length (ca_content artifact)), ca_created := now\<rparr>"
    have st': "st' = st\<lparr>st_context_artifacts := st_context_artifacts st @ [?a]\<rparr>"
      using arch full None by (auto simp: ArchiveContextArtifact_def Let_def split: if_splits)
    have d: "distinct (map ca_reference (st_context_artifacts st'))"
      using unique None by (auto simp: st' find_None_iff)
    have "find (\<lambda>b. ca_reference b = ?ref) (st_context_artifacts st') = Some ?a"
      by (rule find_unique [OF d]) (auto simp: st')
    then show ?thesis using that [of "[?a]" ?a] d by (simp add: st')
  qed
  have "\<exists>b \<in> set (st_context_artifacts st'). ca_reference b = ?ref \<and> ca_digest b = pf_sha pl (ca_content artifact)"
    using find_SomeD [OF a(1)] a(2) by blast
  moreover have "ArchiveContextArtifact pl later artifact st' = Inr st'"
    using full a by (simp add: ArchiveContextArtifact_def Let_def)
  moreover have "ArchiveContextArtifact pl later other st' = Inl (ContextArtifactImmutable ?ref)"
    if "trim (ca_reference other) = ?ref \<and> trim (ca_session other) \<noteq> [] \<and> trim (ca_owner other) \<noteq> [] \<and>
       pf_sha pl (ca_content other) \<noteq> pf_sha pl (ca_content artifact)" for other
    using that full a by (auto simp: ArchiveContextArtifact_def Let_def)
  ultimately show ?thesis using new dist by blast
qed

definition sample_artifact :: "string \<Rightarrow> context_artifact" where
  "sample_artifact c = \<lparr>ca_reference = ''x'', ca_session = ''s'', ca_owner = ''m'', ca_content = c, ca_digest = [],
     ca_bytes = 0, ca_created = 0\<rparr>"

theorem ArchiveContextArtifact_immutable_witness:
  "\<exists>st'. ArchiveContextArtifact sample_platform 1 (sample_artifact ''u'') sample_store = Inr st' \<and>
     ArchiveContextArtifact sample_platform 2 (sample_artifact ''v'') st' = Inl (ContextArtifactImmutable ''x'')"
proof -
  have trims: "trim ''s'' = ''s''" "trim ''x'' = ''x''" "trim ''m'' = ''m''"
    by (simp_all add: trim_plain plain_byte_def less_char_def)
  have unique: "distinct (map ca_reference (st_context_artifacts sample_store))"
    by (simp add: sample_store_def empty_store_def)
  obtain st' where a: "ArchiveContextArtifact sample_platform 1 (sample_artifact ''u'') sample_store = Inr st'"
    by (simp add: ArchiveContextArtifact_def sample_artifact_def trims sample_store_def empty_store_def
        sample_row_def Let_def)
  from ArchiveContextArtifact_immutable [OF unique a, of 2] a show ?thesis
    by (auto simp: sample_artifact_def trims sample_platform_def)
qed

end
