(* ===== verification/Thinking.thy ===== *)
theory Thinking
  imports Ledger
begin

text \<open>
  The flow graph on the user's screen (internal/thinking/projection.go): a second consumer of
  the event log, with one \<open>turn\<close> per session row of a conversation. Nodes and edges are Go
  maps from identity to a record that is changed through the stored pointer. A nil pointer the
  code would dereference is the error \<open>NilNode\<close>; the helpers that test for nil are total.
  \<open>json.Unmarshal\<close> on a tool's result is the argument \<open>parse\<close>.
\<close>

section \<open>The graph\<close>

datatype view_status = ViewIdle | ViewQueued | ViewRunning | ViewCompleted | ViewFailed | ViewCancelled

record node =
  nd_id :: string
  nd_kind :: string
  nd_label :: string
  nd_status :: view_status
  nd_metadata :: "(string, string) gomap"

text \<open>\<open>None\<close> is the zero time of an edge nothing has flowed along.\<close>

record edge =
  eg_id :: string
  eg_from :: string
  eg_to :: string
  eg_kind :: string
  eg_direction :: string
  eg_status :: view_status
  eg_count :: int
  eg_active :: int
  eg_at :: "int option"
  eg_started_ms :: int
  eg_metadata :: "(string, string) gomap"

record turn =
  tn_id :: string
  tn_ordinal :: int
  tn_task :: string
  tn_status :: view_status
  tn_sequence :: int
  tn_started :: int
  tn_updated :: int
  tn_nodes :: "(string, node) gomap"
  tn_edges :: "(string, edge) gomap"
  tn_leader :: string
  tn_actors :: "(string, string) gomap"
  tn_callers :: "(string, string) gomap"
  tn_work_edges :: "(string, string) gomap"
  tn_running :: "(string, bool) gomap"
  tn_activity :: "(string, int) gomap"
  tn_owners :: "(string, string) gomap"

record turn_summary =
  ts_id :: string
  ts_ordinal :: int
  ts_task :: string
  ts_status :: view_status
  ts_sequence :: int
  ts_started :: int
  ts_updated :: int

text \<open>\<open>Active\<close> points to the turn named by \<open>ActiveTurnID\<close>, nil when that is empty.\<close>

record view =
  vw_session :: string
  vw_active :: string
  vw_revision :: nat
  vw_turns :: "turn_summary list"
  vw_profile :: profile
  vw_by_turn :: "(string, turn) gomap"

datatype view_error = ForeignTurn string | UnknownTurn string | SequenceGap string int int
  | BadEvent decode_error | NilNode string

section \<open>Reading and changing it\<close>

text \<open>Reading a Go map of strings, numbers or flags: an absent key gives the zero value.\<close>

definition str_at :: "(string, string) gomap \<Rightarrow> string \<Rightarrow> string" where
  "str_at m k = (case map_of m k of None \<Rightarrow> [] | Some v \<Rightarrow> v)"

definition int_at :: "(string, int) gomap \<Rightarrow> string \<Rightarrow> int" where
  "int_at m k = (case map_of m k of None \<Rightarrow> 0 | Some v \<Rightarrow> v)"

definition flag_at :: "(string, bool) gomap \<Rightarrow> string \<Rightarrow> bool" where
  "flag_at m k = (map_of m k = Some True)"

definition memberID :: "string \<Rightarrow> string" where
  "memberID actor = ''member:'' @ actor"

definition on_node :: "string \<Rightarrow> (node \<Rightarrow> node) \<Rightarrow> turn \<Rightarrow> turn" where
  "on_node i f t = t\<lparr>tn_nodes := AList.map_entry i f (tn_nodes t)\<rparr>"

definition on_edge :: "string \<Rightarrow> (edge \<Rightarrow> edge) \<Rightarrow> turn \<Rightarrow> turn" where
  "on_edge i f t = t\<lparr>tn_edges := AList.map_entry i f (tn_edges t)\<rparr>"

text \<open>An access without a test for nil.\<close>

definition deref_node :: "string \<Rightarrow> (node \<Rightarrow> node) \<Rightarrow> turn \<Rightarrow> (view_error, turn) res" where
  "deref_node i f t = (case map_of (tn_nodes t) i of None \<Rightarrow> Inl (NilNode i) | Some _ \<Rightarrow> Inr (on_node i f t))"

definition put_metadata :: "string \<Rightarrow> string \<Rightarrow> node \<Rightarrow> node" where
  "put_metadata k v n = (if v = [] then n else n\<lparr>nd_metadata := AList.update k v (nd_metadata n)\<rparr>)"

definition setMetadata :: "string \<Rightarrow> string \<Rightarrow> string \<Rightarrow> turn \<Rightarrow> turn" where
  "setMetadata i k v = on_node i (put_metadata k v)"

definition appendMetadata :: "string \<Rightarrow> string \<Rightarrow> string \<Rightarrow> turn \<Rightarrow> turn" where
  "appendMetadata i k v = on_node i (\<lambda>n. if v = [] then n
     else n\<lparr>nd_metadata := AList.update k (str_at (nd_metadata n) k @ v) (nd_metadata n)\<rparr>)"

text \<open>\<open>strconv.Atoi\<close> with its error ignored; the code reads back what \<open>strconv.Itoa\<close> wrote.\<close>

definition digits_only :: "string \<Rightarrow> bool" where
  "digits_only s \<longleftrightarrow> s \<noteq> [] \<and> (\<forall>c \<in> set s. 48 \<le> (of_char c :: nat) \<and> of_char c < (58 :: nat))"

definition atoi_or_zero :: "string \<Rightarrow> int" where
  "atoi_or_zero s =
     (case s of
        [] \<Rightarrow> 0
      | c # r \<Rightarrow>
          if c = CHR ''-'' then (if digits_only r then - int (digits_val r) else 0)
          else if c = CHR ''+'' then (if digits_only r then int (digits_val r) else 0)
          else if digits_only s then int (digits_val s) else 0)"

definition incrementMetadata :: "string \<Rightarrow> string \<Rightarrow> int \<Rightarrow> turn \<Rightarrow> turn" where
  "incrementMetadata i k delta =
     on_node i (\<lambda>n. put_metadata k (itoa (atoi_or_zero (str_at (nd_metadata n) k) + delta)) n)"

definition setEdgeMetadata :: "string \<Rightarrow> string \<Rightarrow> string \<Rightarrow> turn \<Rightarrow> turn" where
  "setEdgeMetadata i k v = on_edge i (\<lambda>e. if v = [] then e
     else e\<lparr>eg_metadata := AList.update k v (eg_metadata e)\<rparr>)"

definition ensureParticipant :: "string \<Rightarrow> string \<Rightarrow> turn \<Rightarrow> turn" where
  "ensureParticipant actor kind t =
     (if actor = [] \<or> map_of (tn_nodes t) (memberID actor) \<noteq> None then t
      else t\<lparr>tn_nodes := AList.update (memberID actor)
        \<lparr>nd_id = memberID actor, nd_kind = kind, nd_label = actor, nd_status = ViewIdle, nd_metadata = []\<rparr>
        (tn_nodes t)\<rparr>)"

definition unix_milli :: "int \<Rightarrow> int" where
  "unix_milli ns = ns div 1000000"

definition new_edge :: "string \<Rightarrow> string \<Rightarrow> string \<Rightarrow> string \<Rightarrow> string \<Rightarrow> view_status \<Rightarrow> edge" where
  "new_edge i from to kind direction status =
     \<lparr>eg_id = i, eg_from = from, eg_to = to, eg_kind = kind, eg_direction = direction, eg_status = status,
      eg_count = 0, eg_active = 0, eg_at = None, eg_started_ms = 0, eg_metadata = []\<rparr>"

definition flow_along :: "view_status \<Rightarrow> int \<Rightarrow> int \<Rightarrow> edge \<Rightarrow> edge" where
  "flow_along status now delta e =
     (let active = eg_active e + delta in
      e\<lparr>eg_count := eg_count e + 1, eg_active := active,
        eg_started_ms := (if eg_active e = 0 \<and> 0 < active then unix_milli now else eg_started_ms e),
        eg_status := (if 0 < active \<and> status = ViewQueued then ViewRunning else status),
        eg_at := Some now\<rparr>)"

definition flow_id :: "string \<Rightarrow> string" where
  "flow_id i = ''flow:'' @ i"

definition flow ::
    "string \<Rightarrow> string \<Rightarrow> string \<Rightarrow> string \<Rightarrow> string \<Rightarrow> view_status \<Rightarrow> int \<Rightarrow> int \<Rightarrow> turn \<Rightarrow> turn" where
  "flow i from to kind direction status now delta t =
     (let e = (case map_of (tn_edges t) (flow_id i) of
                 Some e \<Rightarrow> e | None \<Rightarrow> new_edge (flow_id i) from to kind direction status)
      in t\<lparr>tn_edges := AList.update (flow_id i) (flow_along status now delta e) (tn_edges t)\<rparr>)"

definition finish_edge :: "view_status \<Rightarrow> edge \<Rightarrow> edge" where
  "finish_edge status e =
     (let active = (if 0 < eg_active e then eg_active e - 1 else eg_active e) in
      e\<lparr>eg_active := active, eg_status := (if active = 0 then status else eg_status e)\<rparr>)"

text \<open>The actor \<open>finishDelegation\<close> returns is \<open>actor_of\<close>; it does not change it.\<close>

definition actor_of :: "turn \<Rightarrow> string \<Rightarrow> string" where
  "actor_of t i = str_at (tn_actors t) i"

definition finish_activity :: "string \<Rightarrow> turn \<Rightarrow> turn" where
  "finish_activity i t =
     (let actor = actor_of t i in
      if flag_at (tn_running t) i
      then t\<lparr>tn_running := AList.update i False (tn_running t),
             tn_activity := (if 0 < int_at (tn_activity t) actor
               then AList.update actor (int_at (tn_activity t) actor - 1) (tn_activity t) else tn_activity t)\<rparr>
      else t)"

definition finishDelegation :: "string \<Rightarrow> view_status \<Rightarrow> turn \<Rightarrow> turn" where
  "finishDelegation i status t =
     (let actor = actor_of t i;
          t1 = finish_activity i t;
          t2 = on_edge (str_at (tn_work_edges t1) i) (finish_edge status) t1
      in if int_at (tn_activity t2) actor = 0 \<and> actor \<noteq> tn_leader t2
         then on_node (memberID actor) (\<lambda>n. n\<lparr>nd_status := status\<rparr>) t2 else t2)"

definition ownerFor :: "turn \<Rightarrow> string \<Rightarrow> string" where
  "ownerFor t i = (if actor_of t i \<noteq> [] then memberID (actor_of t i) else memberID (tn_leader t))"

definition delegationCaller :: "turn \<Rightarrow> string \<Rightarrow> string" where
  "delegationCaller t i = (if str_at (tn_callers t) i \<noteq> [] then str_at (tn_callers t) i else tn_leader t)"

definition terminate_node :: "view_status \<Rightarrow> node \<Rightarrow> node" where
  "terminate_node status n =
     (if nd_status n = ViewRunning \<or> nd_status n = ViewQueued \<or> nd_id n = ''user''
      then n\<lparr>nd_status := status\<rparr> else n)"

definition terminate_edge :: "view_status \<Rightarrow> edge \<Rightarrow> edge" where
  "terminate_edge status e =
     (if eg_kind e = ''allowed'' then e
      else if 0 < eg_active e \<or> eg_status e = ViewRunning \<or> eg_status e = ViewQueued
      then e\<lparr>eg_active := 0, eg_status := status\<rparr> else e)"

definition terminate :: "view_status \<Rightarrow> turn \<Rightarrow> turn" where
  "terminate status t =
     t\<lparr>tn_nodes := map (\<lambda>(k, n). (k, terminate_node status n)) (tn_nodes t),
       tn_edges := map (\<lambda>(k, e). (k, terminate_edge status e)) (tn_edges t)\<rparr>"

section \<open>Whom an accounting event is about\<close>

text \<open>The identity of the target node and the turn, in which \<open>modelTarget\<close> may have put it.\<close>

definition modelTarget :: "string \<Rightarrow> string \<Rightarrow> turn \<Rightarrow> string \<times> turn" where
  "modelTarget correlation purpose t =
     (if actor_of t correlation \<noteq> [] then (memberID (actor_of t correlation), t)
      else if has_prefix purpose ''specialist:'' \<or> has_prefix purpose ''member:'' \<or>
              has_prefix purpose ''peer:'' \<or> has_prefix purpose ''agent:''
      then (let actor = (case split_on (CHR '':'') purpose of _ # a # _ \<Rightarrow> a | _ \<Rightarrow> []);
                kind = (if has_prefix purpose ''specialist:'' \<or> has_prefix purpose ''member:''
                        then ''specialist'' else ''agent'')
            in (memberID actor, ensureParticipant actor kind t))
      else (''user'', t))"

text \<open>
  The code ranges over the edges in Go's unspecified order; \<open>contextTarget_any_order\<close> shows
  that at most one edge matches.
\<close>

definition collaboration_edge :: "string \<Rightarrow> edge \<Rightarrow> bool" where
  "collaboration_edge scopeID e \<longleftrightarrow> eg_kind e = ''peer'' \<and> str_at (eg_metadata e) ''collaboration_id'' = scopeID"

definition contextTarget :: "string \<Rightarrow> string \<Rightarrow> turn \<Rightarrow> string" where
  "contextTarget scopeKind scopeID t =
     (if scopeKind = ''agent'' then memberID scopeID
      else if scopeKind = ''specialist'' then ownerFor t scopeID
      else if scopeKind = ''peer''
      then (case find (collaboration_edge scopeID) (map snd (tn_edges t)) of Some e \<Rightarrow> eg_to e | None \<Rightarrow> ''user'')
      else ''user'')"

section \<open>One event\<close>

definition with_data ::
    "(json option \<Rightarrow> 'a decoded) \<Rightarrow> event \<Rightarrow> ('a \<Rightarrow> (view_error, turn) res) \<Rightarrow> (view_error, turn) res" where
  "with_data dec item f = (case decode dec item of Inl e \<Rightarrow> Inl (BadEvent e) | Inr data \<Rightarrow> f data)"

text \<open>\<open>strconv.FormatFloat(x, 'f', 3, 64)\<close>: three decimals, ties to even.\<close>

definition round_even :: "rat \<Rightarrow> int" where
  "round_even q =
     (let f = \<lfloor>q\<rfloor>; r = q - of_int f in
      if r < 1 / 2 then f else if 1 / 2 < r then f + 1 else if f mod 2 = 0 then f else f + 1)"

definition format_milli :: "float64 \<Rightarrow> string" where
  "format_milli x =
     (let n = nat (round_even (\<bar>x\<bar> * 1000)); m = digits_of (n mod 1000) in
      (if x < 0 then ''-'' else []) @ digits_of (n div 1000) @ ''.'' @ replicate (3 - length m) (CHR ''0'') @ m)"

definition displayResearchProvider :: "string \<Rightarrow> string" where
  "displayResearchProvider provider =
     (let p = to_lower (trim provider) in
      if p = ''exa'' then ''Exa'' else if p = ''linkup'' then ''Linkup'' else [])"

definition researchProviderFromToolResult :: "(string \<Rightarrow> json option) \<Rightarrow> string \<Rightarrow> string" where
  "researchProviderFromToolResult parse result =
     (case parse result of
        None \<Rightarrow> []
      | Some j \<Rightarrow>
          (case res_bind (as_obj (Some j)) (\<lambda>kvs. as_str (field kvs ''provider'')) of
             Inl e \<Rightarrow> [] | Inr p \<Rightarrow> displayResearchProvider p))"

definition set_status :: "view_status \<Rightarrow> node \<Rightarrow> node" where
  "set_status status n = n\<lparr>nd_status := status\<rparr>"

subsection \<open>The conversation and its leader\<close>

definition view_created :: "event \<Rightarrow> turn \<Rightarrow> (view_error, turn) res" where
  "view_created item t = with_data dec_session_created_data item (\<lambda>data.
     Inr (setMetadata ''user'' ''task'' (sc_task data) (t\<lparr>tn_task := sc_task data, tn_status := ViewRunning\<rparr>)))"

definition view_pinned :: "event \<Rightarrow> turn \<Rightarrow> (view_error, turn) res" where
  "view_pinned item t = with_data dec_profile_pinned_data item (\<lambda>data.
     Inr (setMetadata ''user'' ''team'' (pp_profile_id data @ ''@'' @ itoa (pp_revision data)) t))"

definition view_instruction :: "event \<Rightarrow> turn \<Rightarrow> (view_error, turn) res" where
  "view_instruction item t = with_data dec_user_instruction_data item (\<lambda>data.
     Inr (setMetadata ''user'' ''latest_instruction'' (ui_text data) t))"

definition view_leadership :: "event \<Rightarrow> turn \<Rightarrow> (view_error, turn) res" where
  "view_leadership item t = with_data dec_leadership_transferred_data item (\<lambda>data.
     let from = lt_from_agent_id data; to = lt_to_agent_id data in
     res_bind (deref_node (memberID to) (set_status ViewRunning)
       (ensureParticipant to ''agent'' (t\<lparr>tn_leader := to\<rparr>))) (\<lambda>t1.
     let t2 = (if from = []
       then flow ''request'' ''user'' (memberID to) ''request'' ''outward'' ViewCompleted (ev_at item) 0 t1
       else
         let ta = ensureParticipant from ''agent'' t1;
             tb = (if int_at (tn_activity ta) from = 0 then on_node (memberID from) (set_status ViewCompleted) ta else ta)
         in setEdgeMetadata (flow_id (''handoff:'' @ ev_id item)) ''reason'' (lt_reason data)
              (flow (''handoff:'' @ ev_id item) (memberID from) (memberID to) ''handoff'' ''outward''
                ViewCompleted (ev_at item) 0 tb))
     in Inr (setMetadata (memberID to) ''leadership_reason'' (lt_reason data) t2)))"

definition view_turn_started :: "event \<Rightarrow> turn \<Rightarrow> (view_error, turn) res" where
  "view_turn_started item t = with_data dec_agent_turn_data item (\<lambda>data.
     let m = memberID (at_agent_id data) in
     res_bind (deref_node m (set_status ViewRunning)
       (ensureParticipant (at_agent_id data) ''agent'' (t\<lparr>tn_leader := at_agent_id data\<rparr>))) (\<lambda>t1.
     Inr (setMetadata m ''triggering_signals'' (join '', '' (at_signal_kinds data))
       (setMetadata m ''decision_cycle'' (itoa (at_turn data)) t1))))"

definition view_decision :: "event \<Rightarrow> turn \<Rightarrow> (view_error, turn) res" where
  "view_decision item t = with_data dec_agent_decision_data item (\<lambda>data.
     let m = memberID (ad_agent_id data) in
     Inr (setMetadata m ''handoff_to'' (ad_handoff_to data)
       (setMetadata m ''peer_turns_planned'' (itoa (int (length (ad_peer_turns data))))
       (setMetadata m ''delegations_planned'' (itoa (int (length (ad_delegations data))))
       (setMetadata m ''assessment'' (ad_assessment data) t)))))"

subsection \<open>Delegations and peer turns\<close>

text \<open>What the creation of a delegation and of a peer turn have in common: who does it for whom.\<close>

definition register_work :: "string \<Rightarrow> string \<Rightarrow> string \<Rightarrow> turn \<Rightarrow> turn" where
  "register_work i actor caller t =
     t\<lparr>tn_actors := AList.update i actor (tn_actors t), tn_callers := AList.update i caller (tn_callers t)\<rparr>"

definition view_delegation_created :: "event \<Rightarrow> turn \<Rightarrow> (view_error, turn) res" where
  "view_delegation_created item t = with_data dec_delegation_spec item (\<lambda>data.
     let f = ''delegation:'' @ ds_caller_id data @ '':'' @ ds_specialist_id data;
         t1 = register_work (ds_id data) (ds_specialist_id data) (ds_caller_id data)
                (ensureParticipant (ds_specialist_id data) ''specialist'' t);
         t2 = flow f (memberID (ds_caller_id data)) (memberID (ds_specialist_id data)) ''delegation'' ''outward''
                ViewQueued (ev_at item) 0 t1;
         t3 = t2\<lparr>tn_work_edges := AList.update (ds_id data) (flow_id f) (tn_work_edges t2)\<rparr>
     in Inr (setEdgeMetadata (flow_id f) ''delegation_id'' (ds_id data)
          (setEdgeMetadata (flow_id f) ''depends_on'' (join '', '' (ds_depends_on data))
          (setEdgeMetadata (flow_id f) ''context'' (ds_context data)
          (setEdgeMetadata (flow_id f) ''objective'' (ds_objective data) t3)))))"

definition start_edge :: "int \<Rightarrow> edge \<Rightarrow> edge" where
  "start_edge now e = e\<lparr>eg_started_ms := (if eg_active e = 0 then unix_milli now else eg_started_ms e),
     eg_status := ViewRunning, eg_active := eg_active e + 1, eg_at := Some now\<rparr>"

definition start_activity :: "string \<Rightarrow> string \<Rightarrow> turn \<Rightarrow> turn" where
  "start_activity i actor t =
     (if flag_at (tn_running t) i then t
      else t\<lparr>tn_running := AList.update i True (tn_running t),
             tn_activity := AList.update actor (int_at (tn_activity t) actor + 1) (tn_activity t)\<rparr>)"

text \<open>The start of a piece of work; one the view has not seen created belongs to the event's actor.\<close>

definition start_work :: "string \<Rightarrow> string \<Rightarrow> event \<Rightarrow> turn \<Rightarrow> (view_error, turn) res" where
  "start_work i kind item t =
     (let known = actor_of t i;
          actor = (if known = [] then ev_actor item else known);
          t1 = (if known = [] then t\<lparr>tn_actors := AList.update i actor (tn_actors t)\<rparr> else t);
          t2 = start_activity i actor (ensureParticipant actor kind t1)
      in res_bind (deref_node (memberID actor) (set_status ViewRunning) t2) (\<lambda>t3.
         Inr (on_edge (str_at (tn_work_edges t3) i) (start_edge (ev_at item)) t3)))"

definition view_delegation_started :: "event \<Rightarrow> turn \<Rightarrow> (view_error, turn) res" where
  "view_delegation_started item t = with_data dec_delegation_started_data item (\<lambda>data.
     start_work (dst_delegation_id data) ''specialist'' item t)"

definition view_delegation_text :: "event \<Rightarrow> turn \<Rightarrow> (view_error, turn) res" where
  "view_delegation_text item t = with_data dec_text_delta_data item (\<lambda>data.
     Inr (appendMetadata (memberID (actor_of t (td_delegation_id data)))
       (if ev_kind item = DelegationReasoning then ''provider_reasoning'' else ''response_stream'')
       (td_text data) t))"

text \<open>What a finished piece of work leaves on its actor's node.\<close>

definition show_result :: "string \<Rightarrow> string \<Rightarrow> string \<Rightarrow> string list \<Rightarrow> float64 \<Rightarrow> turn \<Rightarrow> turn" where
  "show_result m k result findings confidence t =
     setMetadata m ''confidence'' (format_milli confidence)
       (setMetadata m ''findings'' (join [CHR 0x0A] findings) (setMetadata m k result t))"

definition view_delegation_completed :: "event \<Rightarrow> turn \<Rightarrow> (view_error, turn) res" where
  "view_delegation_completed item t = with_data dec_delegation_completed_data item (\<lambda>data.
     let i = dc_delegation_id data; actor = actor_of t i;
         t1 = show_result (memberID actor) ''result'' (dc_result data) (dc_findings data) (dc_confidence data)
                (finishDelegation i ViewCompleted t);
         caller = delegationCaller t1 i
     in Inr (flow (''result:'' @ actor @ '':'' @ caller) (memberID actor) (memberID caller) ''result'' ''inward''
          ViewCompleted (ev_at item) 0 t1))"

definition view_delegation_failed :: "event \<Rightarrow> turn \<Rightarrow> (view_error, turn) res" where
  "view_delegation_failed item t = with_data dec_delegation_failed_data item (\<lambda>data.
     let i = df_delegation_id data; actor = actor_of t i;
         t1 = setMetadata (memberID actor) ''error'' (df_error data) (finishDelegation i ViewFailed t);
         caller = delegationCaller t1 i
     in Inr (flow (''failure:'' @ actor @ '':'' @ caller) (memberID actor) (memberID caller) ''failure'' ''inward''
          ViewFailed (ev_at item) 0 t1))"

definition view_delegation_cancelled :: "event \<Rightarrow> turn \<Rightarrow> (view_error, turn) res" where
  "view_delegation_cancelled item t = with_data dec_delegation_cancelled_data item (\<lambda>data.
     Inr (setMetadata (memberID (actor_of t (dx_delegation_id data))) ''cancel_reason'' (dx_reason data)
       (finishDelegation (dx_delegation_id data) ViewCancelled t)))"

definition view_peer_created :: "event \<Rightarrow> turn \<Rightarrow> (view_error, turn) res" where
  "view_peer_created item t = with_data dec_peer_turn_spec item (\<lambda>data.
     let f = ''peer:'' @ pts_collaboration_id data;
         t1 = register_work (pts_id data) (pts_peer_id data) (pts_caller_id data)
                (ensureParticipant (pts_peer_id data) ''agent'' t);
         t2 = flow f (memberID (pts_caller_id data)) (memberID (pts_peer_id data)) ''peer'' ''bidirectional''
                ViewQueued (ev_at item) 0 t1;
         t3 = t2\<lparr>tn_work_edges := AList.update (pts_id data) (flow_id f) (tn_work_edges t2)\<rparr>
     in Inr (setEdgeMetadata (flow_id f) ''peer_turn_id'' (pts_id data)
          (setEdgeMetadata (flow_id f) ''round'' (itoa (pts_round data))
          (setEdgeMetadata (flow_id f) ''collaboration_id'' (pts_collaboration_id data)
          (setEdgeMetadata (flow_id f) ''context'' (pts_context data)
          (setEdgeMetadata (flow_id f) ''objective'' (pts_objective data) t3))))))"

definition view_peer_started :: "event \<Rightarrow> turn \<Rightarrow> (view_error, turn) res" where
  "view_peer_started item t = with_data dec_peer_turn_started_data item (\<lambda>data.
     start_work (pst_peer_turn_id data) ''agent'' item t)"

definition view_peer_text :: "event \<Rightarrow> turn \<Rightarrow> (view_error, turn) res" where
  "view_peer_text item t = with_data dec_peer_text_delta_data item (\<lambda>data.
     Inr (appendMetadata (memberID (actor_of t (ptd_peer_turn_id data)))
       (if ev_kind item = PeerReasoning then ''provider_reasoning'' else ''response_stream'') (ptd_text data) t))"

definition view_peer_completed :: "event \<Rightarrow> turn \<Rightarrow> (view_error, turn) res" where
  "view_peer_completed item t = with_data dec_peer_turn_completed_data item (\<lambda>data.
     let i = pc_peer_turn_id data; actor = actor_of t i;
         t1 = show_result (memberID actor) ''peer_result'' (pc_result data) (pc_findings data) (pc_confidence data)
                (finishDelegation i ViewCompleted t);
         caller = delegationCaller t1 i
     in Inr (flow (''peer-result:'' @ actor @ '':'' @ caller) (memberID actor) (memberID caller) ''peer-result''
          ''bidirectional'' ViewCompleted (ev_at item) 0 t1))"

definition view_peer_failed :: "event \<Rightarrow> turn \<Rightarrow> (view_error, turn) res" where
  "view_peer_failed item t = with_data dec_peer_turn_failed_data item (\<lambda>data.
     Inr (setMetadata (memberID (actor_of t (pf_peer_turn_id data))) ''error'' (pf_error data)
       (finishDelegation (pf_peer_turn_id data) ViewFailed t)))"

definition view_peer_cancelled :: "event \<Rightarrow> turn \<Rightarrow> (view_error, turn) res" where
  "view_peer_cancelled item t = with_data dec_peer_turn_cancelled_data item (\<lambda>data.
     Inr (setMetadata (memberID (actor_of t (px_peer_turn_id data))) ''cancel_reason'' (px_reason data)
       (finishDelegation (px_peer_turn_id data) ViewCancelled t)))"

subsection \<open>Tools\<close>

definition view_tool_called :: "event \<Rightarrow> turn \<Rightarrow> (view_error, turn) res" where
  "view_tool_called item t = with_data dec_tool_call_data item (\<lambda>data.
     let owner = ownerFor t (tc_delegation_id data);
         toolID = ''tool:'' @ tc_tool_call_id data;
         kind = (if tc_tool data = ''tool_search'' then ''tool-discovery'' else ''tool'');
         t1 = t\<lparr>tn_nodes := AList.update toolID
               \<lparr>nd_id = toolID, nd_kind = kind, nd_label = tc_tool data, nd_status = ViewRunning,
                nd_metadata = [(''arguments'', tc_arguments data)]\<rparr> (tn_nodes t)\<rparr>;
         t2 = setMetadata toolID ''provider'' (displayResearchProvider (tc_provider data)) t1;
         t3 = t2\<lparr>tn_owners := AList.update (tc_tool_call_id data) owner (tn_owners t2)\<rparr>
     in Inr (flow (''tool:'' @ tc_tool_call_id data) owner toolID kind ''outward'' ViewRunning (ev_at item) 1 t3))"

definition view_tool_completed :: "(string \<Rightarrow> json option) \<Rightarrow> event \<Rightarrow> turn \<Rightarrow> (view_error, turn) res" where
  "view_tool_completed parse item t = with_data dec_tool_completed_data item (\<lambda>data.
     let owner = str_at (tn_owners t) (tf_tool_call_id data);
         toolID = ''tool:'' @ tf_tool_call_id data;
         status = (if tf_failed data then ViewFailed else ViewCompleted);
         t1 = setMetadata toolID ''provider'' (researchProviderFromToolResult parse (tf_result data))
                (setMetadata toolID ''result'' (tf_result data)
                (setMetadata toolID ''error'' (tf_error data)
                (on_node toolID (set_status status) t)));
         t2 = on_edge (flow_id (''tool:'' @ tf_tool_call_id data))
                (\<lambda>e. e\<lparr>eg_status := status, eg_active := 0\<rparr>) t1
     in Inr (flow (''tool-result:'' @ tf_tool_call_id data) toolID owner ''tool-result'' ''inward''
          status (ev_at item) 0 t2))"

subsection \<open>The answer and the end of the turn\<close>

definition view_final_started :: "event \<Rightarrow> turn \<Rightarrow> (view_error, turn) res" where
  "view_final_started item t =
     (let t1 = (if ev_actor item \<noteq> [] then t\<lparr>tn_leader := ev_actor item\<rparr> else t)
      in Inr (flow ''answer'' (memberID (tn_leader t1)) ''user'' ''answer'' ''inward'' ViewRunning (ev_at item) 1 t1))"

definition view_final_text :: "event \<Rightarrow> turn \<Rightarrow> (view_error, turn) res" where
  "view_final_text item t = with_data dec_text_delta_data item (\<lambda>data.
     Inr (appendMetadata (memberID (tn_leader t))
       (if ev_kind item = FinalReasoning then ''provider_reasoning'' else ''answer_stream'') (td_text data) t))"

definition view_final_completed :: "event \<Rightarrow> turn \<Rightarrow> (view_error, turn) res" where
  "view_final_completed item t = with_data dec_final_completed_data item (\<lambda>data.
     let t1 = setEdgeMetadata (flow_id ''answer'') ''answer'' (fc_answer data)
           (on_edge (flow_id ''answer'') (\<lambda>e. e\<lparr>eg_status := ViewCompleted, eg_active := 0\<rparr>) t)
     in Inr (terminate ViewCompleted (t1\<lparr>tn_status := ViewCompleted\<rparr>)))"

definition view_session_failed :: "event \<Rightarrow> turn \<Rightarrow> (view_error, turn) res" where
  "view_session_failed item t = with_data dec_failure_data item (\<lambda>data.
     Inr (setMetadata ''user'' ''error'' (fd_error data) (terminate ViewFailed (t\<lparr>tn_status := ViewFailed\<rparr>))))"

definition view_session_cancelled :: "turn \<Rightarrow> (view_error, turn) res" where
  "view_session_cancelled t = Inr (terminate ViewCancelled (t\<lparr>tn_status := ViewCancelled\<rparr>))"

subsection \<open>Accounting\<close>

definition view_model_call :: "event \<Rightarrow> turn \<Rightarrow> (view_error, turn) res" where
  "view_model_call item t = with_data dec_model_call_started_data item (\<lambda>data.
     (case modelTarget (ev_correlation item) (mc_purpose data) t of (m, t1) \<Rightarrow>
        Inr (setMetadata m ''model'' (mc_model data) (incrementMetadata m ''model_calls'' 1 t1))))"

definition view_usage :: "event \<Rightarrow> turn \<Rightarrow> (view_error, turn) res" where
  "view_usage item t = with_data dec_model_usage_data item (\<lambda>data.
     (case modelTarget (ev_correlation item) (mu_purpose data) t of (m, t1) \<Rightarrow>
        Inr (fold (\<lambda>(k, n). incrementMetadata m k n)
          ([(''prompt_tokens'', mu_prompt_tokens data),
            (''uncached_prompt_tokens'', mu_uncached_prompt_tokens data),
            (''cached_prompt_tokens'', mu_cached_prompt_tokens data),
            (''cache_write_tokens'', mu_cache_write_tokens data),
            (''cache_miss_tokens'', mu_cache_miss_tokens data)] @
           (if mu_cache_usage_reported data then [(''cache_usage_reports'', 1)] else []) @
           [(''completion_tokens'', mu_completion_tokens data),
            (''reasoning_tokens'', mu_reasoning_tokens data),
            (''total_tokens'', mu_total_tokens data)]) t1)))"

definition view_cache_epoch :: "event \<Rightarrow> turn \<Rightarrow> (view_error, turn) res" where
  "view_cache_epoch item t = with_data dec_model_cache_epoch_started_data item (\<lambda>data.
     (case modelTarget (ev_correlation item) (''agent:'' @ me_agent_id data) t of (m, t1) \<Rightarrow>
        Inr (fold (\<lambda>(k, v). setMetadata m k v)
          [(''cache_epoch'', itoa (me_epoch data)),
           (''cache_epoch_reason'', me_reason data),
           (''cache_header_digest'', me_header_digest data),
           (''cache_tool_names'', join '', '' (me_tool_names data)),
           (''cache_deferred_tool_names'', join '', '' (me_deferred_tool_names data))] t1)))"

definition view_context :: "event \<Rightarrow> turn \<Rightarrow> (view_error, turn) res" where
  "view_context item t = with_data dec_context_view_committed_data item (\<lambda>data.
     let m = contextTarget (cv_scope_kind data) (cv_scope_id data) t;
         t1 = setMetadata m ''working_view_digest'' (cv_view_digest data)
           (setMetadata m ''working_context_tokens'' (itoa (cv_estimated_tokens data))
           (setMetadata m ''context_epoch'' (itoa (cv_epoch data)) t))
     in Inr (if cv_compacted data then incrementMetadata m ''projection_compactions'' 1 t1 else t1))"

definition view_compacted :: "event \<Rightarrow> turn \<Rightarrow> (view_error, turn) res" where
  "view_compacted item t = with_data dec_context_agent_compacted_data item (\<lambda>data.
     (case modelTarget (ev_correlation item) (cc_scope data) t of (m, t1) \<Rightarrow>
        Inr (setMetadata m ''messages_after_compaction'' (itoa (cc_messages_after data))
          (setMetadata m ''messages_before_compaction'' (itoa (cc_messages_before data))
          (setMetadata m ''exact_transcript'' (cc_transcript_reference data)
          (incrementMetadata m ''agent_context_compactions'' 1 t1))))))"

subsection \<open>The switch\<close>

definition view_kind :: "(string \<Rightarrow> json option) \<Rightarrow> event \<Rightarrow> turn \<Rightarrow> (view_error, turn) res" where
  "view_kind parse item t =
     (case ev_kind item of
        SessionCreated \<Rightarrow> view_created item t
      | ProfilePinned \<Rightarrow> view_pinned item t
      | UserInstruction \<Rightarrow> view_instruction item t
      | LeadershipTransferred \<Rightarrow> view_leadership item t
      | AgentTurnStarted \<Rightarrow> view_turn_started item t
      | AgentDecision \<Rightarrow> view_decision item t
      | DelegationCreated \<Rightarrow> view_delegation_created item t
      | DelegationStarted \<Rightarrow> view_delegation_started item t
      | DelegationTextDelta \<Rightarrow> view_delegation_text item t
      | DelegationReasoning \<Rightarrow> view_delegation_text item t
      | DelegationCompleted \<Rightarrow> view_delegation_completed item t
      | DelegationFailed \<Rightarrow> view_delegation_failed item t
      | DelegationCancelled \<Rightarrow> view_delegation_cancelled item t
      | PeerTurnCreated \<Rightarrow> view_peer_created item t
      | PeerTurnStarted \<Rightarrow> view_peer_started item t
      | PeerTextDelta \<Rightarrow> view_peer_text item t
      | PeerReasoning \<Rightarrow> view_peer_text item t
      | PeerTurnCompleted \<Rightarrow> view_peer_completed item t
      | PeerTurnFailed \<Rightarrow> view_peer_failed item t
      | PeerTurnCancelled \<Rightarrow> view_peer_cancelled item t
      | ToolCalled \<Rightarrow> view_tool_called item t
      | ToolCompleted \<Rightarrow> view_tool_completed parse item t
      | FinalStarted \<Rightarrow> view_final_started item t
      | FinalTextDelta \<Rightarrow> view_final_text item t
      | FinalReasoning \<Rightarrow> view_final_text item t
      | FinalCompleted \<Rightarrow> view_final_completed item t
      | SessionFailed \<Rightarrow> view_session_failed item t
      | SessionCancelled \<Rightarrow> view_session_cancelled t
      | ModelCallStarted \<Rightarrow> view_model_call item t
      | ModelUsage \<Rightarrow> view_usage item t
      | ModelCacheEpochStarted \<Rightarrow> view_cache_epoch item t
      | ContextViewCommitted \<Rightarrow> view_context item t
      | ContextAgentCompacted \<Rightarrow> view_compacted item t
      | _ \<Rightarrow> Inr t)"

definition turn_apply :: "(string \<Rightarrow> json option) \<Rightarrow> event \<Rightarrow> turn \<Rightarrow> (view_error, turn) res" where
  "turn_apply parse item t = res_bind (view_kind parse item t) (\<lambda>t'.
     Inr (t'\<lparr>tn_sequence := ev_sequence item, tn_updated := ev_at item\<rparr>))"

section \<open>The turns of a conversation\<close>

text \<open>The peer edge between two agents, declared once whichever of them names it.\<close>

definition peer_pair :: "string \<Rightarrow> string \<Rightarrow> string \<times> string" where
  "peer_pair a b = (if b < a then (b, a) else (a, b))"

definition allow_specialist :: "string \<Rightarrow> string \<Rightarrow> turn \<Rightarrow> turn" where
  "allow_specialist agentID specialistID t =
     (let t1 = ensureParticipant specialistID ''specialist'' t;
          i = ''allowed-specialist:'' @ agentID @ '':'' @ specialistID
      in t1\<lparr>tn_edges := AList.update i (new_edge i (memberID agentID) (memberID specialistID)
              ''allowed'' ''outward'' ViewIdle) (tn_edges t1)\<rparr>)"

definition allow_peer :: "string \<Rightarrow> string \<Rightarrow> turn \<times> string set \<Rightarrow> turn \<times> string set" where
  "allow_peer agentID peerID st =
     (case peer_pair agentID peerID of (first, second) \<Rightarrow>
      let key = first @ '':'' @ second; i = ''allowed-peer:'' @ key in
      if key \<in> snd st then st
      else ((fst st)\<lparr>tn_edges := AList.update i (new_edge i (memberID first) (memberID second)
              ''allowed-peer'' ''bidirectional'' ViewIdle) (tn_edges (fst st))\<rparr>, insert key (snd st)))"

definition allow_agent :: "profile \<Rightarrow> agent \<Rightarrow> turn \<times> string set \<Rightarrow> turn \<times> string set" where
  "allow_agent p a st =
     fold (\<lambda>peer. allow_peer (ag_id a) (ag_id peer)) (PeerAgentsFor p a)
       (fold (allow_specialist (ag_id a)) (ag_specialists a) (fst st), snd st)"

definition empty_turn :: "string \<Rightarrow> int \<Rightarrow> string \<Rightarrow> int \<Rightarrow> turn" where
  "empty_turn i ordinal task started =
     \<lparr>tn_id = i, tn_ordinal = ordinal, tn_task = task, tn_status = ViewRunning, tn_sequence = 0,
      tn_started = started, tn_updated = started,
      tn_nodes = [(''user'', \<lparr>nd_id = ''user'', nd_kind = ''user'', nd_label = ''User'',
                              nd_status = ViewRunning, nd_metadata = []\<rparr>)],
      tn_edges = [], tn_leader = [], tn_actors = [], tn_callers = [], tn_work_edges = [],
      tn_running = [], tn_activity = [], tn_owners = []\<rparr>"

definition show_agent :: "profile \<Rightarrow> agent \<Rightarrow> turn \<Rightarrow> turn" where
  "show_agent p a t =
     (let t1 = ensureParticipant (ag_id a) ''agent'' t in
      if ag_id a = ag_id (p_primary p) then setMetadata (memberID (ag_id a)) ''primary'' ''true'' t1 else t1)"

definition newTurn :: "string \<Rightarrow> int \<Rightarrow> string \<Rightarrow> int \<Rightarrow> profile \<Rightarrow> turn" where
  "newTurn i ordinal task started p =
     (let t1 = fold (show_agent p) (Agents p) (empty_turn i ordinal task started);
          lead = ag_id (p_primary p);
          t2 = t1\<lparr>tn_edges := AList.update (''allowed:user:'' @ lead) (new_edge (''allowed:user:'' @ lead)
                 ''user'' (memberID lead) ''allowed'' ''outward'' ViewIdle) (tn_edges t1)\<rparr>;
          t3 = fst (fold (allow_agent p) (Agents p) (t2, {}))
      in fold (\<lambda>s. ensureParticipant (sp_id s) ''specialist'') (p_specialists p) t3)"

definition turn_summary_of :: "turn \<Rightarrow> turn_summary" where
  "turn_summary_of t = \<lparr>ts_id = tn_id t, ts_ordinal = tn_ordinal t, ts_task = tn_task t, ts_status = tn_status t,
     ts_sequence = tn_sequence t, ts_started = tn_started t, ts_updated = tn_updated t\<rparr>"

definition statusFromStore :: "session_status \<Rightarrow> view_status" where
  "statusFromStore s = (case s of StatusCompleted \<Rightarrow> ViewCompleted | StatusFailed \<Rightarrow> ViewFailed
     | StatusCancelled \<Rightarrow> ViewCancelled | StatusRunning \<Rightarrow> ViewRunning)"

definition view_new :: "string \<Rightarrow> profile \<Rightarrow> view" where
  "view_new sessionID p = \<lparr>vw_session = sessionID, vw_active = [], vw_revision = 0, vw_turns = [],
     vw_profile = p, vw_by_turn = []\<rparr>"

definition AddTurn :: "session \<Rightarrow> view \<Rightarrow> (view_error, view) res" where
  "AddTurn record v =
     (let v1 = (if vw_session v = [] then v\<lparr>vw_session := ss_conversation record\<rparr> else v) in
      if ss_conversation record \<noteq> vw_session v1 then Inl (ForeignTurn (ss_id record))
      else if map_of (vw_by_turn v1) (ss_id record) \<noteq> None then Inr v1
      else
        let t = (newTurn (ss_id record) (int (length (vw_turns v1)) + 1) (ss_task record) (ss_created record)
                   (vw_profile v1))\<lparr>tn_status := statusFromStore (ss_status record), tn_updated := ss_updated record\<rparr>
        in Inr (v1\<lparr>vw_by_turn := AList.update (ss_id record) t (vw_by_turn v1), vw_active := ss_id record,
             vw_turns := vw_turns v1 @ [turn_summary_of t], vw_revision := Suc (vw_revision v1)\<rparr>))"

text \<open>Replacing the first summary with the turn's identity.\<close>

fun put_summary :: "turn \<Rightarrow> turn_summary list \<Rightarrow> turn_summary list" where
  "put_summary t [] = []"
| "put_summary t (s # ss) = (if ts_id s = tn_id t then turn_summary_of t # ss else s # put_summary t ss)"

definition view_apply :: "(string \<Rightarrow> json option) \<Rightarrow> view \<Rightarrow> event \<Rightarrow> (view_error, view) res" where
  "view_apply parse v item =
     (case map_of (vw_by_turn v) (ev_session item) of
        None \<Rightarrow> Inl (UnknownTurn (ev_session item))
      | Some t \<Rightarrow>
          if ev_sequence item \<le> tn_sequence t then Inr v
          else if ev_sequence item \<noteq> tn_sequence t + 1
          then Inl (SequenceGap (tn_id t) (tn_sequence t) (ev_sequence item))
          else res_bind (turn_apply parse item t) (\<lambda>t'.
            Inr (v\<lparr>vw_by_turn := AList.update (ev_session item) t' (vw_by_turn v), vw_active := tn_id t',
              vw_turns := put_summary t' (vw_turns v), vw_revision := Suc (vw_revision v)\<rparr>)))"

definition TurnSequence :: "view \<Rightarrow> string \<Rightarrow> int" where
  "TurnSequence v i = (case map_of (vw_by_turn v) i of None \<Rightarrow> 0 | Some t \<Rightarrow> tn_sequence t)"

definition HasTurn :: "view \<Rightarrow> string \<Rightarrow> bool" where
  "HasTurn v i \<longleftrightarrow> map_of (vw_by_turn v) i \<noteq> None"

end
