(* ===== verification/Graph.thy ===== *)
theory Graph
  imports Thinking
begin

text \<open>
  What holds of the flow graph (Thinking) whatever log it follows: its nodes and edges stay
  filed under their identities, an ended turn shows nothing as working, redelivered events
  change nothing, and the status it shows is the one the session table holds.
\<close>

section \<open>What every event keeps\<close>

text \<open>
  The handlers are made of a few changes. A property of turns that each of these keeps is kept
  by every event that neither creates nor ends the turn; \<open>ending_invariant\<close> adds those.
\<close>

lemma deref_node_Inr: "deref_node i f t = Inr u \<longleftrightarrow> map_of (tn_nodes t) i \<noteq> None \<and> u = on_node i f t"
  by (auto simp: deref_node_def split: option.splits)

lemma with_data_Inr: "with_data dec item f = Inr u \<longleftrightarrow> (\<exists>data. decode dec item = Inr data \<and> f data = Inr u)"
  by (auto simp: with_data_def split: sum.splits)

lemma with_target:
  "(case modelTarget c p t of (m, t1) \<Rightarrow> Inr (f m t1)) = Inr u \<longleftrightarrow> (\<exists>m t1. modelTarget c p t = (m, t1) \<and> f m t1 = u)"
  by (auto split: prod.splits)

abbreviation ends_turn :: "kind \<Rightarrow> bool" where
  "ends_turn k \<equiv> k = FinalCompleted \<or> k = SessionFailed \<or> k = SessionCancelled"

locale turn_invariant =
  fixes holds :: "turn \<Rightarrow> bool"
  assumes node: "holds t \<Longrightarrow> (\<And>n. nd_id (f n) = nd_id n) \<Longrightarrow> holds (on_node i f t)"
    and tool_node: "holds t \<Longrightarrow> nd_id n = i \<Longrightarrow> holds (t\<lparr>tn_nodes := AList.update i n (tn_nodes t)\<rparr>)"
    and edge: "holds t \<Longrightarrow> (\<And>e. eg_id (g e) = eg_id e \<and> eg_kind (g e) = eg_kind e \<and> eg_metadata (g e) = eg_metadata e
                 \<and> (0 \<le> eg_active e \<longrightarrow> 0 \<le> eg_active (g e))) \<Longrightarrow> holds (on_edge i g t)"
    and edge_note: "holds t \<Longrightarrow> k \<noteq> ''collaboration_id'' \<Longrightarrow> holds (setEdgeMetadata i k v t)"
    and flows: "holds t \<Longrightarrow> kind \<noteq> ''peer'' \<Longrightarrow> 0 \<le> delta \<Longrightarrow> holds (flow i from to kind direction status now delta t)"
    and leader: "holds t \<Longrightarrow> holds (t\<lparr>tn_leader := a\<rparr>)"
    and actors: "holds t \<Longrightarrow> holds (t\<lparr>tn_actors := m\<rparr>)"
    and callers: "holds t \<Longrightarrow> holds (t\<lparr>tn_callers := m\<rparr>)"
    and work_edges: "holds t \<Longrightarrow> holds (t\<lparr>tn_work_edges := m\<rparr>)"
    and owners: "holds t \<Longrightarrow> holds (t\<lparr>tn_owners := m\<rparr>)"
    and starts: "holds t \<Longrightarrow> holds (start_activity i a t)"
    and finishes: "holds t \<Longrightarrow> holds (finish_activity i t)"
    and peer_turn: "holds t \<Longrightarrow> view_peer_created item t = Inr u \<Longrightarrow> holds u"
begin

lemma metadata: "holds t \<Longrightarrow> holds (setMetadata i k v t)"
  by (simp add: setMetadata_def put_metadata_def node)

lemma appended: "holds t \<Longrightarrow> holds (appendMetadata i k v t)"
  by (simp add: appendMetadata_def node)

lemma incremented: "holds t \<Longrightarrow> holds (incrementMetadata i k n t)"
  by (simp add: incrementMetadata_def put_metadata_def node)

lemma status: "holds t \<Longrightarrow> holds (on_node i (set_status s) t)"
  by (simp add: set_status_def node)

lemma participant: "holds t \<Longrightarrow> holds (ensureParticipant a k t)"
  by (simp add: ensureParticipant_def tool_node)

lemma result: "holds t \<Longrightarrow> holds (show_result m k x fs c t)"
  by (simp add: show_result_def metadata)

lemma registered: "holds t \<Longrightarrow> holds (register_work i a c t)"
  using callers [OF actors, of t] by (simp add: register_work_def)

lemma finished: "holds t \<Longrightarrow> holds (finishDelegation i s t)"
proof -
  assume "holds t"
  then have "holds (on_edge (str_at (tn_work_edges (finish_activity i t)) i) (finish_edge s) (finish_activity i t))"
    by (intro edge finishes) (auto simp: finish_edge_def Let_def)
  then show ?thesis by (simp add: finishDelegation_def Let_def node)
qed

lemma started: "holds t \<Longrightarrow> start_work i k item t = Inr u \<Longrightarrow> holds u"
proof -
  assume h: "holds t" and u: "start_work i k item t = Inr u"
  have edge': "holds v \<Longrightarrow> holds (on_edge x (start_edge now) v)" for v x now
    by (rule edge) (auto simp: start_edge_def)
  show ?thesis
    using u by (auto simp: start_work_def Let_def res_bind_Inr_iff deref_node_Inr
        intro!: edge' status starts participant actors h)
qed

lemma target: "holds t \<Longrightarrow> modelTarget c p t = (m, t1) \<Longrightarrow> holds t1"
  by (auto simp: modelTarget_def Let_def participant split: if_splits)

lemma all_incremented: "holds t \<Longrightarrow> holds (fold (\<lambda>(k, n). incrementMetadata m k n) xs t)"
  by (induction xs arbitrary: t) (auto simp: incremented)

lemma all_noted: "holds t \<Longrightarrow> holds (fold (\<lambda>(k, v). setMetadata m k v) xs t)"
  by (induction xs arbitrary: t) (auto simp: metadata)

lemmas kept = metadata appended incremented status participant result registered finished leader owners
  work_edges flows edge_note tool_node all_incremented all_noted

lemma conversation_kept:
  assumes "holds t"
  shows "view_pinned item t = Inr u \<Longrightarrow> holds u" "view_instruction item t = Inr u \<Longrightarrow> holds u"
    "view_leadership item t = Inr u \<Longrightarrow> holds u" "view_turn_started item t = Inr u \<Longrightarrow> holds u"
    "view_decision item t = Inr u \<Longrightarrow> holds u"
  using assms
  by (auto simp: view_pinned_def view_instruction_def view_leadership_def view_turn_started_def
      view_decision_def with_data_Inr Let_def res_bind_Inr_iff deref_node_Inr intro!: kept split: if_splits)

lemma delegation_kept:
  assumes "holds t"
  shows "view_delegation_created item t = Inr u \<Longrightarrow> holds u" "view_delegation_started item t = Inr u \<Longrightarrow> holds u"
    "view_delegation_text item t = Inr u \<Longrightarrow> holds u" "view_delegation_completed item t = Inr u \<Longrightarrow> holds u"
    "view_delegation_failed item t = Inr u \<Longrightarrow> holds u" "view_delegation_cancelled item t = Inr u \<Longrightarrow> holds u"
  using assms
  by (auto simp: view_delegation_created_def view_delegation_started_def view_delegation_text_def
      view_delegation_completed_def view_delegation_failed_def view_delegation_cancelled_def
      with_data_Inr Let_def intro!: kept intro: started)

lemma peer_kept:
  assumes "holds t"
  shows "view_peer_started item t = Inr u \<Longrightarrow> holds u" "view_peer_text item t = Inr u \<Longrightarrow> holds u"
    "view_peer_completed item t = Inr u \<Longrightarrow> holds u" "view_peer_failed item t = Inr u \<Longrightarrow> holds u"
    "view_peer_cancelled item t = Inr u \<Longrightarrow> holds u"
  using assms
  by (auto simp: view_peer_started_def view_peer_text_def view_peer_completed_def view_peer_failed_def
      view_peer_cancelled_def with_data_Inr Let_def intro!: kept intro: started)

lemma tool_kept:
  assumes "holds t"
  shows "view_tool_called item t = Inr u \<Longrightarrow> holds u" "view_tool_completed parse item t = Inr u \<Longrightarrow> holds u"
    "view_final_started item t = Inr u \<Longrightarrow> holds u" "view_final_text item t = Inr u \<Longrightarrow> holds u"
proof -
  show "view_tool_completed parse item t = Inr u \<Longrightarrow> holds u"
    by (auto simp: view_tool_completed_def with_data_Inr Let_def intro!: kept edge assms)
qed (use assms in \<open>auto simp: view_tool_called_def view_final_started_def view_final_text_def with_data_Inr Let_def
       intro!: kept split: if_splits\<close>)

lemma accounting_kept:
  assumes "holds t"
  shows "view_model_call item t = Inr u \<Longrightarrow> holds u" "view_usage item t = Inr u \<Longrightarrow> holds u"
    "view_cache_epoch item t = Inr u \<Longrightarrow> holds u" "view_context item t = Inr u \<Longrightarrow> holds u"
    "view_compacted item t = Inr u \<Longrightarrow> holds u"
  using assms
  by (auto simp: view_model_call_def view_usage_def view_cache_epoch_def view_context_def view_compacted_def
      with_data_Inr Let_def with_target simp del: fold_simps fold_append intro!: kept dest: target)

lemma kind_kept:
  assumes "holds t" and "view_kind parse item t = Inr u" and "ev_kind item \<noteq> SessionCreated" "\<not> ends_turn (ev_kind item)"
  shows "holds u"
proof -
  note kept_by_event = conversation_kept [OF assms(1)] delegation_kept [OF assms(1)] peer_kept [OF assms(1)]
    tool_kept [OF assms(1)] accounting_kept [OF assms(1)] peer_turn [OF assms(1)]
  show ?thesis
    using assms(2-) unfolding view_kind_def
    by (cases "ev_kind item"; simp) (erule kept_by_event | (use assms(1) in simp))+
qed

end

section \<open>The summary of a turn\<close>

lemma peer_created_summary: "view_peer_created item t = Inr u \<Longrightarrow> turn_summary_of u = turn_summary_of t"
  by (auto simp: view_peer_created_def with_data_Inr Let_def setEdgeMetadata_def on_edge_def flow_def
      register_work_def ensureParticipant_def turn_summary_of_def)

interpretation summary: turn_invariant "\<lambda>u. turn_summary_of u = s" for s
  by unfold_locales
    (auto simp: on_node_def on_edge_def setEdgeMetadata_def flow_def start_activity_def finish_activity_def
      Let_def peer_created_summary, simp_all add: turn_summary_of_def)

text \<open>What an event that creates or ends the turn makes of the summary.\<close>

lemma summary_terminate: "turn_summary_of (terminate s t) = turn_summary_of t"
  by (simp add: terminate_def turn_summary_of_def)

lemma view_kind_status:
  assumes "view_kind parse item t = Inr u"
  shows "tn_status u = (case ev_kind item of SessionCreated \<Rightarrow> ViewRunning | FinalCompleted \<Rightarrow> ViewCompleted
      | SessionFailed \<Rightarrow> ViewFailed | SessionCancelled \<Rightarrow> ViewCancelled | _ \<Rightarrow> tn_status t)" (is ?status)
    and "tn_id u = tn_id t" "tn_ordinal u = tn_ordinal t" "tn_sequence u = tn_sequence t"
proof -
  consider "ev_kind item = SessionCreated" | "ev_kind item = FinalCompleted" | "ev_kind item = SessionFailed"
    | "ev_kind item = SessionCancelled" | "turn_summary_of u = turn_summary_of t \<and> ev_kind item \<noteq> SessionCreated \<and>
        \<not> ends_turn (ev_kind item)"
    using summary.kind_kept [OF refl assms] by blast
  then have "?status \<and> tn_id u = tn_id t \<and> tn_ordinal u = tn_ordinal t \<and> tn_sequence u = tn_sequence t"
  proof cases
    case 5
    then show ?thesis by (cases "ev_kind item") (simp_all add: turn_summary_of_def)
  qed (use assms in \<open>auto simp: view_kind_def view_created_def view_final_completed_def view_session_failed_def
      view_session_cancelled_def with_data_Inr Let_def setMetadata_def setEdgeMetadata_def on_node_def
      on_edge_def terminate_def\<close>)
  then show ?status "tn_id u = tn_id t" "tn_ordinal u = tn_ordinal t" "tn_sequence u = tn_sequence t"
    by auto
qed

section \<open>Well-formed turns\<close>

definition own_collaboration :: "edge \<Rightarrow> bool" where
  "own_collaboration e \<longleftrightarrow> (eg_kind e = ''peer'' \<longrightarrow>
     eg_id e = flow_id (''peer:'' @ str_at (eg_metadata e) ''collaboration_id''))"

text \<open>The edges in \<open>pending\<close> still wait for the note of their collaboration.\<close>

definition graph_ok :: "string set \<Rightarrow> turn \<Rightarrow> bool" where
  "graph_ok pending t \<longleftrightarrow> keys_distinct (tn_nodes t) \<and> keys_distinct (tn_edges t) \<and>
     (\<forall>k n. map_of (tn_nodes t) k = Some n \<longrightarrow> nd_id n = k) \<and>
     (\<forall>k e. map_of (tn_edges t) k = Some e \<longrightarrow>
        eg_id e = k \<and> 0 \<le> eg_active e \<and> (k \<notin> pending \<longrightarrow> own_collaboration e)) \<and>
     (\<forall>a. 0 \<le> int_at (tn_activity t) a)"

abbreviation turn_ok :: "turn \<Rightarrow> bool" where
  "turn_ok \<equiv> graph_ok {}"

lemma graph_ok_cong:
  assumes "graph_ok pending t" and "tn_nodes u = tn_nodes t" and "tn_edges u = tn_edges t"
    and "\<And>a. 0 \<le> int_at (tn_activity t) a \<Longrightarrow> 0 \<le> int_at (tn_activity u) a"
  shows "graph_ok pending u"
  using assms unfolding graph_ok_def by metis

lemma graph_ok_node:
  assumes "graph_ok pending t" and "nd_id n = i"
  shows "graph_ok pending (t\<lparr>tn_nodes := AList.update i n (tn_nodes t)\<rparr>)"
  using assms by (auto simp: graph_ok_def distinct_update simp del: map_of_eq_Some_iff)

lemma graph_ok_on_node:
  assumes "graph_ok pending t" and "\<And>n. nd_id (f n) = nd_id n"
  shows "graph_ok pending (on_node i f t)"
  using assms by (auto simp: graph_ok_def on_node_def map_of_map_entry simp del: map_of_eq_Some_iff)

lemma graph_ok_edge:
  assumes "graph_ok pending t" and "eg_id e = i" and "0 \<le> eg_active e" and "i \<notin> later \<longrightarrow> own_collaboration e"
    and "\<forall>k \<in> pending. k = i \<or> k \<in> later"
  shows "graph_ok later (t\<lparr>tn_edges := AList.update i e (tn_edges t)\<rparr>)"
  using assms by (auto simp: graph_ok_def distinct_update simp del: map_of_eq_Some_iff)

lemma graph_ok_on_edge:
  assumes "graph_ok pending t" and "\<forall>k \<in> pending. k = i \<or> k \<in> later"
    and "\<And>e. eg_id e = i \<Longrightarrow> 0 \<le> eg_active e \<Longrightarrow> (i \<notin> pending \<longrightarrow> own_collaboration e) \<Longrightarrow>
           eg_id (g e) = i \<and> 0 \<le> eg_active (g e) \<and> (i \<notin> later \<longrightarrow> own_collaboration (g e))"
  shows "graph_ok later (on_edge i g t)"
  using assms by (auto simp: graph_ok_def on_edge_def map_of_map_entry simp del: map_of_eq_Some_iff)

lemma flow_id_inj [simp]: "flow_id a = flow_id b \<longleftrightarrow> a = b"
  by (simp add: flow_id_def)

lemma graph_ok_flow:
  assumes ok: "graph_ok pending t" and "0 \<le> delta" and "pending \<subseteq> later"
    and "kind = ''peer'' \<Longrightarrow> flow_id i \<notin> later \<Longrightarrow> i = ''peer:''"
  shows "graph_ok later (flow i from to kind direction status now delta t)"
  unfolding flow_def Let_def
proof (rule graph_ok_edge [OF ok])
  let ?old = "case map_of (tn_edges t) (flow_id i) of None \<Rightarrow> new_edge (flow_id i) from to kind direction status | Some e \<Rightarrow> e"
  have "eg_id ?old = flow_id i \<and> 0 \<le> eg_active ?old \<and> (flow_id i \<notin> later \<longrightarrow> own_collaboration ?old)"
  proof (cases "map_of (tn_edges t) (flow_id i)")
    case None
    then show ?thesis using assms(4) by (auto simp: own_collaboration_def new_edge_def str_at_def)
  next
    case (Some e)
    then have "eg_id e = flow_id i \<and> 0 \<le> eg_active e \<and> (flow_id i \<notin> pending \<longrightarrow> own_collaboration e)"
      using ok unfolding graph_ok_def by blast
    then show ?thesis using Some assms(3) by auto
  qed
  then show "eg_id (flow_along status now delta ?old) = flow_id i" "0 \<le> eg_active (flow_along status now delta ?old)"
    "flow_id i \<notin> later \<longrightarrow> own_collaboration (flow_along status now delta ?old)"
    using assms(2) by (auto simp: flow_along_def own_collaboration_def Let_def)
qed (use assms in auto)

lemma graph_ok_note:
  assumes "graph_ok pending t"
    and "k = ''collaboration_id'' \<Longrightarrow> i = flow_id (''peer:'' @ v) \<and> (v = [] \<longrightarrow> i \<notin> pending)"
  shows "graph_ok (if k = ''collaboration_id'' then pending - {i} else pending) (setEdgeMetadata i k v t)"
  unfolding setEdgeMetadata_def
  using assms by (intro graph_ok_on_edge [OF assms(1)]) (auto simp: own_collaboration_def str_at_def)

lemma graph_ok_activity:
  assumes "graph_ok pending t"
  shows "graph_ok pending (start_activity i a t)" "graph_ok pending (finish_activity i t)"
  by (rule graph_ok_cong [OF assms]; auto simp: start_activity_def finish_activity_def int_at_def Let_def
      split: option.splits)+

lemma graph_ok_participant: "graph_ok pending t \<Longrightarrow> graph_ok pending (ensureParticipant a k t)"
  by (simp add: ensureParticipant_def graph_ok_node)

text \<open>The peer edge of a new consultation, with its notes.\<close>

lemma turn_ok_peer_created:
  assumes ok: "turn_ok t" and u: "view_peer_created item t = Inr u"
  shows "turn_ok u"
proof -
  obtain data where data: "decode dec_peer_turn_spec item = Inr data"
    using u by (auto simp: view_peer_created_def with_data_Inr)
  let ?c = "pts_collaboration_id data"
  let ?f = "flow_id (''peer:'' @ ?c)"
  let ?P = "if ?c = [] then {} else {?f}"
  have other: "graph_ok P v \<Longrightarrow> k \<noteq> ''collaboration_id'' \<Longrightarrow> graph_ok P (setEdgeMetadata ?f k x v)" for P v k x
    using graph_ok_note [of P v k ?f x] by simp
  have collab: "graph_ok ?P v \<Longrightarrow> turn_ok (setEdgeMetadata ?f ''collaboration_id'' ?c v)" for v
    using graph_ok_note [of ?P v "''collaboration_id''" ?f ?c] by (simp split: if_splits)
  have cong: "graph_ok P v \<Longrightarrow> graph_ok P (v\<lparr>tn_work_edges := w\<rparr>)" for P v w
    by (rule graph_ok_cong) auto
  have register: "graph_ok P v \<Longrightarrow> graph_ok P (register_work i a c v)" for P v i a c
    by (rule graph_ok_cong) (auto simp: register_work_def)
  let ?t = "flow (''peer:'' @ ?c) (memberID (pts_caller_id data)) (memberID (pts_peer_id data)) ''peer'' ''bidirectional''
    ViewQueued (ev_at item) 0 (register_work (pts_id data) (pts_peer_id data) (pts_caller_id data)
      (ensureParticipant (pts_peer_id data) ''agent'' t))"
  let ?t' = "?t\<lparr>tn_work_edges := AList.update (pts_id data) ?f (tn_work_edges ?t)\<rparr>"
  have "graph_ok ?P ?t"
    by (rule graph_ok_flow [OF register [OF graph_ok_participant [OF ok]]]) (auto split: if_splits)
  then have "graph_ok ?P (setEdgeMetadata ?f ''context'' (pts_context data) (setEdgeMetadata ?f ''objective'' (pts_objective data) ?t'))"
    by (intro other cong) auto
  then have "turn_ok (setEdgeMetadata ?f ''collaboration_id'' ?c (setEdgeMetadata ?f ''context'' (pts_context data)
      (setEdgeMetadata ?f ''objective'' (pts_objective data) ?t')))"
    by (rule collab)
  then have "turn_ok (setEdgeMetadata ?f ''peer_turn_id'' (pts_id data) (setEdgeMetadata ?f ''round'' (itoa (pts_round data))
      (setEdgeMetadata ?f ''collaboration_id'' ?c (setEdgeMetadata ?f ''context'' (pts_context data)
      (setEdgeMetadata ?f ''objective'' (pts_objective data) ?t')))))"
    by (rule other [OF other]) auto
  then show ?thesis
    using u data by (simp add: view_peer_created_def with_data_def Let_def)
qed

interpretation graph: turn_invariant turn_ok
proof unfold_locales
  fix t and g :: "edge \<Rightarrow> edge" and i assume "turn_ok t" "\<And>e. eg_id (g e) = eg_id e \<and> eg_kind (g e) = eg_kind e \<and>
    eg_metadata (g e) = eg_metadata e \<and> (0 \<le> eg_active e \<longrightarrow> 0 \<le> eg_active (g e))"
  then show "turn_ok (on_edge i g t)"
    by (intro graph_ok_on_edge) (auto simp: own_collaboration_def)
next
  fix t k i v assume "turn_ok t" "k \<noteq> ''collaboration_id''"
  then show "turn_ok (setEdgeMetadata i k v t)" using graph_ok_note [of "{}" t k i v] by simp
qed (auto intro: graph_ok_on_node graph_ok_node graph_ok_flow graph_ok_activity turn_ok_peer_created
      elim: graph_ok_cong)

text \<open>Creation and end of a turn.\<close>

lemma keys_mapped: "map fst (map (\<lambda>(k, v). (k, f v)) m) = map fst m"
  by (induction m) auto

lemma map_of_mapped: "map_of (map (\<lambda>(k, v). (k, f v)) m) k = map_option f (map_of m k)"
  by (induction m) auto

lemma graph_ok_terminate:
  assumes "graph_ok pending t"
  shows "graph_ok pending (terminate status t)"
proof -
  note keys = keys_mapped [simplified map_map] and look = map_of_mapped
  have edge: "eg_id (terminate_edge status e) = eg_id e" "0 \<le> eg_active e \<Longrightarrow> 0 \<le> eg_active (terminate_edge status e)"
    "own_collaboration e \<Longrightarrow> own_collaboration (terminate_edge status e)" for e
    by (auto simp: terminate_edge_def own_collaboration_def)
  have node: "nd_id (terminate_node status n) = nd_id n" for n by (simp add: terminate_node_def)
  show ?thesis
    using assms unfolding graph_ok_def
    by (auto simp: terminate_def keys look edge node simp del: map_of_eq_Some_iff)
qed

lemma turn_ok_head [simp]:
  "graph_ok pending (t\<lparr>tn_status := s\<rparr>) = graph_ok pending t"
  "graph_ok pending (t\<lparr>tn_task := x\<rparr>) = graph_ok pending t"
  "graph_ok pending (t\<lparr>tn_sequence := n\<rparr>) = graph_ok pending t"
  "graph_ok pending (t\<lparr>tn_updated := u\<rparr>) = graph_ok pending t"
  by (simp_all add: graph_ok_def)

lemma view_kind_ok:
  assumes ok: "turn_ok t" and u: "view_kind parse item t = Inr u"
  shows "turn_ok u"
proof -
  have closed: "turn_ok v \<Longrightarrow> turn_ok (on_edge i (\<lambda>e. e\<lparr>eg_status := s, eg_active := 0\<rparr>) v)" for v i s
    by (rule graph.edge) auto
  consider "ev_kind item = SessionCreated" | "ev_kind item = FinalCompleted" | "ev_kind item = SessionFailed"
    | "ev_kind item = SessionCancelled" | "ev_kind item \<noteq> SessionCreated" "\<not> ends_turn (ev_kind item)"
    by blast
  then show ?thesis
  proof cases
    case 1
    with u ok show ?thesis
      by (auto simp: view_kind_def view_created_def with_data_Inr intro!: graph.metadata)
  next
    case 5
    then show ?thesis by (rule graph.kind_kept [OF ok u])
  next
    case 2
    with u show ?thesis
      by (auto simp: view_kind_def view_final_completed_def with_data_Inr Let_def)
        (simp add: graph_ok_terminate graph.edge_note closed ok)
  next
    case 3
    with u show ?thesis
      by (auto simp: view_kind_def view_session_failed_def with_data_Inr graph_ok_terminate graph.metadata ok)
  next
    case 4
    with u show ?thesis
      by (auto simp: view_kind_def view_session_cancelled_def graph_ok_terminate ok)
  qed
qed

lemma turn_apply_ok: "turn_ok t \<Longrightarrow> turn_apply parse item t = Inr u \<Longrightarrow> turn_ok u"
  by (auto simp: turn_apply_def res_bind_Inr_iff intro: view_kind_ok)

lemma fold_keeps: "P s \<Longrightarrow> (\<And>x s. P s \<Longrightarrow> P (f x s)) \<Longrightarrow> P (fold f xs s)"
  by (induction xs arbitrary: s) auto

lemma new_edge_ok: "kind \<noteq> ''peer'' \<Longrightarrow> turn_ok t \<Longrightarrow>
    turn_ok (t\<lparr>tn_edges := AList.update i (new_edge i from to kind direction status) (tn_edges t)\<rparr>)"
  by (rule graph_ok_edge) (auto simp: new_edge_def own_collaboration_def)

lemma newTurn_ok: "turn_ok (newTurn i n task started p)"
proof -
  have empty: "turn_ok (empty_turn i n task started)"
    by (simp add: graph_ok_def empty_turn_def int_at_def)
  have show': "turn_ok t \<Longrightarrow> turn_ok (show_agent p a t)" for a t
    by (simp add: show_agent_def Let_def graph.metadata graph.participant)
  have specialist: "turn_ok t \<Longrightarrow> turn_ok (allow_specialist a s t)" for a s t
    by (simp add: allow_specialist_def Let_def new_edge_ok graph.participant)
  have peer: "turn_ok (fst st) \<Longrightarrow> turn_ok (fst (allow_peer a b st))" for a b st
    by (simp add: allow_peer_def Let_def new_edge_ok split: prod.splits)
  have agent: "turn_ok (fst st) \<Longrightarrow> turn_ok (fst (allow_agent p a st))" for a st
    unfolding allow_agent_def
    by (rule fold_keeps [where P = "\<lambda>s. turn_ok (fst s)"])
      (simp_all add: peer fold_keeps [where P = turn_ok] specialist)
  have shown: "turn_ok (fold (show_agent p) (Agents p) (empty_turn i n task started))"
    by (rule fold_keeps [where P = turn_ok]) (simp_all add: empty show')
  have allowed: "turn_ok t \<Longrightarrow> turn_ok (fst (fold (allow_agent p) (Agents p) (t, {})))" for t
    by (rule fold_keeps [where P = "\<lambda>s. turn_ok (fst s)"]) (simp_all add: agent)
  show ?thesis
    unfolding newTurn_def Let_def
    by (rule fold_keeps [where P = turn_ok]) (simp_all add: allowed new_edge_ok shown graph.participant)
qed

section \<open>Ended turns\<close>

definition running_status :: "view_status \<Rightarrow> bool" where
  "running_status s \<longleftrightarrow> s = ViewRunning \<or> s = ViewQueued"

text \<open>Nothing in the graph is shown as working any more.\<close>

definition graph_settled :: "turn \<Rightarrow> bool" where
  "graph_settled t \<longleftrightarrow>
     (\<forall>n \<in> set (map snd (tn_nodes t)). \<not> running_status (nd_status n)) \<and>
     (\<forall>e \<in> set (map snd (tn_edges t)). eg_kind e \<noteq> ''allowed'' \<longrightarrow> eg_active e \<le> 0 \<and> \<not> running_status (eg_status e))"

lemma terminate_settles:
  assumes "\<not> running_status s"
  shows "graph_settled (terminate s t)"
proof -
  have "\<not> running_status (nd_status (terminate_node s n))" for n
    using assms by (auto simp: terminate_node_def running_status_def split: if_splits)
  moreover have "eg_kind (terminate_edge s e) \<noteq> ''allowed'' \<Longrightarrow>
      eg_active (terminate_edge s e) \<le> 0 \<and> \<not> running_status (eg_status (terminate_edge s e))" for e
    using assms by (auto simp: terminate_edge_def running_status_def split: if_splits)
  ultimately show ?thesis
    by (auto simp: graph_settled_def terminate_def)
qed

lemma settled_note:
  assumes "graph_settled t"
  shows "graph_settled (setMetadata i k v t)"
proof -
  have "snd ` set (AList.map_entry i f m) \<subseteq> snd ` set m \<union> f ` snd ` set m"
    for f :: "node \<Rightarrow> node" and m :: "(string, node) gomap"
    by (induction m) auto
  then have "n \<in> snd ` set m \<or> n \<in> put_metadata k v ` snd ` set m"
    if "n \<in> snd ` set (AList.map_entry i (put_metadata k v) m)" for n and m :: "(string, node) gomap"
    using that by blast
  moreover have "nd_status (put_metadata k v n) = nd_status n" for n
    by (simp add: put_metadata_def)
  ultimately have "\<not> running_status (nd_status n)"
    if "n \<in> snd ` set (AList.map_entry i (put_metadata k v) (tn_nodes t))" for n
    using assms that by (metis graph_settled_def imageE list.set_map)
  then show ?thesis
    using assms by (simp add: graph_settled_def setMetadata_def on_node_def)
qed

definition end_status :: "kind \<Rightarrow> view_status" where
  "end_status k = (if k = FinalCompleted then ViewCompleted else if k = SessionFailed then ViewFailed else ViewCancelled)"

lemma view_kind_settles:
  assumes "view_kind parse item t = Inr u" and "ends_turn (ev_kind item)"
  shows "graph_settled u \<and> tn_status u = end_status (ev_kind item)"
proof -
  have "graph_settled (terminate s v)" if "s \<in> {ViewCompleted, ViewFailed, ViewCancelled}" for s v
    using that by (intro terminate_settles) (auto simp: running_status_def)
  then show ?thesis
    using assms view_kind_status(1) [OF assms(1)]
    by (auto simp: view_kind_def view_final_completed_def view_session_failed_def view_session_cancelled_def
        with_data_Inr Let_def end_status_def intro!: settled_note)
qed

section \<open>The conversation's view\<close>

definition view_ok :: "view \<Rightarrow> bool" where
  "view_ok v \<longleftrightarrow>
     keys_distinct (vw_by_turn v) \<and> distinct (map ts_id (vw_turns v)) \<and>
     set (map ts_id (vw_turns v)) = set (map fst (vw_by_turn v)) \<and>
     (\<forall>i t. map_of (vw_by_turn v) i = Some t \<longrightarrow>
        tn_id t = i \<and> turn_ok t \<and> turn_summary_of t \<in> set (vw_turns v)) \<and>
     (\<forall>n < length (vw_turns v). ts_ordinal (vw_turns v ! n) = int n + 1)"

lemma keys_put: "fst ` set (AList.update k v m) = insert k (fst ` set m)"
  using keys_update [of k v m] by simp

lemma view_new_ok: "view_ok (view_new sid p)"
  by (simp add: view_ok_def view_new_def)

lemma newTurn_id [simp]: "tn_id (newTurn i n task started p) = i" and newTurn_ordinal [simp]: "tn_ordinal (newTurn i n task started p) = n"
  and newTurn_sequence [simp]: "tn_sequence (newTurn i n task started p) = 0"
proof -
  let ?s = "turn_summary_of (empty_turn i n task started)"
  have show': "turn_summary_of t = ?s \<Longrightarrow> turn_summary_of (show_agent p a t) = ?s" for a t
    by (simp add: show_agent_def Let_def summary.metadata summary.participant)
  have edges: "turn_summary_of (t\<lparr>tn_edges := m\<rparr>) = turn_summary_of t" for t m by (simp add: turn_summary_of_def)
  have specialist: "turn_summary_of t = ?s \<Longrightarrow> turn_summary_of (allow_specialist a x t) = ?s" for a x t
    by (simp add: allow_specialist_def Let_def edges summary.participant)
  have peer: "turn_summary_of (fst st) = ?s \<Longrightarrow> turn_summary_of (fst (allow_peer a b st)) = ?s" for a b st
    by (simp add: allow_peer_def Let_def edges split: prod.splits)
  have agent: "turn_summary_of (fst st) = ?s \<Longrightarrow> turn_summary_of (fst (allow_agent p a st)) = ?s" for a st
    unfolding allow_agent_def
    by (rule fold_keeps [where P = "\<lambda>s. turn_summary_of (fst s) = ?s"])
      (simp_all add: peer fold_keeps [where P = "\<lambda>t. turn_summary_of t = ?s"] specialist)
  have shown: "turn_summary_of (fold (show_agent p) (Agents p) (empty_turn i n task started)) = ?s"
    by (rule fold_keeps [where P = "\<lambda>t. turn_summary_of t = ?s"]) (simp_all add: show')
  have allowed: "turn_summary_of t = ?s \<Longrightarrow> turn_summary_of (fst (fold (allow_agent p) (Agents p) (t, {}))) = ?s" for t
    by (rule fold_keeps [where P = "\<lambda>s. turn_summary_of (fst s) = ?s"]) (simp_all add: agent)
  have "turn_summary_of (newTurn i n task started p) = ?s"
    unfolding newTurn_def Let_def
    by (rule fold_keeps [where P = "\<lambda>t. turn_summary_of t = ?s"]) (simp_all add: allowed edges shown summary.participant)
  then show "tn_id (newTurn i n task started p) = i" "tn_ordinal (newTurn i n task started p) = n"
    "tn_sequence (newTurn i n task started p) = 0"
    by (simp_all add: turn_summary_of_def empty_turn_def)
qed

lemma put_summary_ids [simp]: "map ts_id (put_summary t ss) = map ts_id ss"
  by (induction ss) (auto simp: turn_summary_of_def)

lemma put_summary_ordinals:
  "(\<And>s. s \<in> set ss \<Longrightarrow> ts_id s = tn_id t \<Longrightarrow> ts_ordinal s = tn_ordinal t) \<Longrightarrow>
   map ts_ordinal (put_summary t ss) = map ts_ordinal ss"
  by (induction ss) (auto simp: turn_summary_of_def)

lemma put_summary_length [simp]: "length (put_summary t ss) = length ss"
  by (induction ss) auto

lemma put_summary_keeps: "s \<in> set ss \<Longrightarrow> ts_id s \<noteq> tn_id t \<Longrightarrow> s \<in> set (put_summary t ss)"
  by (induction ss) auto

lemma put_summary_puts: "tn_id t \<in> set (map ts_id ss) \<Longrightarrow> turn_summary_of t \<in> set (put_summary t ss)"
  by (induction ss) auto

lemma AddTurn_ok:
  assumes ok: "view_ok v" and r: "AddTurn s v = Inr w"
  shows "view_ok w"
proof -
  define v1 where "v1 = (if vw_session v = [] then v\<lparr>vw_session := ss_conversation s\<rparr> else v)"
  have ok1: "view_ok v1" using ok by (simp add: v1_def view_ok_def)
  show ?thesis
  proof (cases "w = v1")
    case True
    with ok1 show ?thesis by simp
  next
    case False
    define t where "t = (newTurn (ss_id s) (int (length (vw_turns v1)) + 1) (ss_task s) (ss_created s)
                   (vw_profile v1))\<lparr>tn_status := statusFromStore (ss_status s), tn_updated := ss_updated s\<rparr>"
    have new: "map_of (vw_by_turn v1) (ss_id s) = None"
      and w: "w = v1\<lparr>vw_by_turn := AList.update (ss_id s) t (vw_by_turn v1), vw_active := ss_id s,
             vw_turns := vw_turns v1 @ [turn_summary_of t], vw_revision := Suc (vw_revision v1)\<rparr>"
      using r False by (auto simp: AddTurn_def Let_def v1_def [symmetric] t_def split: if_splits)
    have t: "turn_ok t" "tn_id t = ss_id s" "tn_ordinal t = int (length (vw_turns v1)) + 1"
      using newTurn_ok by (simp_all add: t_def)
    have absent: "ss_id s \<notin> set (map ts_id (vw_turns v1))"
      using ok1 new by (auto simp: view_ok_def map_of_eq_None_iff)
    show ?thesis
      using ok1 t absent unfolding w view_ok_def
      by (auto simp: distinct_update keys_put nth_append turn_summary_of_def less_Suc_eq
          simp del: map_of_eq_Some_iff split: if_splits)
  qed
qed

lemma view_apply_Inr:
  assumes "view_apply parse v item = Inr w"
  obtains (stale) t where "map_of (vw_by_turn v) (ev_session item) = Some t" "ev_sequence item \<le> tn_sequence t" "w = v"
    | (next') t t' where "map_of (vw_by_turn v) (ev_session item) = Some t" "ev_sequence item = tn_sequence t + 1"
        "turn_apply parse item t = Inr t'"
        "w = v\<lparr>vw_by_turn := AList.update (ev_session item) t' (vw_by_turn v), vw_active := tn_id t',
              vw_turns := put_summary t' (vw_turns v), vw_revision := Suc (vw_revision v)\<rparr>"
  using assms by (auto simp: view_apply_def res_bind_Inr_iff split: option.splits if_splits)

lemma turn_apply_frame:
  assumes "turn_apply parse item t = Inr u"
  shows "tn_id u = tn_id t" "tn_ordinal u = tn_ordinal t" "tn_sequence u = ev_sequence item"
  using assms view_kind_status by (auto simp: turn_apply_def res_bind_Inr_iff)

lemma view_apply_ok:
  assumes ok: "view_ok v" and r: "view_apply parse v item = Inr w"
  shows "view_ok w"
  using r
proof (cases rule: view_apply_Inr)
  case stale
  with ok show ?thesis by simp
next
  case (next' t t')
  let ?i = "ev_session item"
  have t: "tn_id t = ?i" "turn_ok t" "turn_summary_of t \<in> set (vw_turns v)"
    using ok next'(1) by (auto simp: view_ok_def simp del: map_of_eq_Some_iff)
  have t': "tn_id t' = ?i" "turn_ok t'" "tn_ordinal t' = tn_ordinal t"
    using turn_apply_frame [OF next'(3)] turn_apply_ok [OF t(2) next'(3)] t(1) by auto
  have ids: "distinct (map ts_id (vw_turns v))" "?i \<in> set (map ts_id (vw_turns v))"
    using ok t(1) imageI [OF t(3), of ts_id] by (simp_all add: view_ok_def turn_summary_of_def)
  have "ts_ordinal s = tn_ordinal t'" if "s \<in> set (vw_turns v)" "ts_id s = tn_id t'" for s
  proof -
    have "s = turn_summary_of t"
    proof (rule inj_onD [of ts_id "set (vw_turns v)"])
      show "inj_on ts_id (set (vw_turns v))" using ids(1) by (simp add: distinct_map)
      show "ts_id s = ts_id (turn_summary_of t)" using that(2) t t'(1) by (simp add: turn_summary_of_def)
    qed (use that(1) t(3) in auto)
    then show ?thesis by (simp add: turn_summary_of_def t')
  qed
  then have ordinals: "map ts_ordinal (put_summary t' (vw_turns v)) = map ts_ordinal (vw_turns v)"
    by (rule put_summary_ordinals)
  have ord: "n < length (vw_turns v) \<Longrightarrow> ts_ordinal (put_summary t' (vw_turns v) ! n) = ts_ordinal (vw_turns v ! n)" for n
    using arg_cong [OF ordinals, of "\<lambda>l. l ! n"] by simp
  have present: "?i \<in> set (map fst (vw_by_turn v))" using ok ids(2) by (simp add: view_ok_def)
  have kept: "turn_summary_of x \<in> set (put_summary t' (vw_turns v))"
    if "map_of (vw_by_turn v) i = Some x" "i \<noteq> ?i" for i x
  proof (rule put_summary_keeps)
    show "turn_summary_of x \<in> set (vw_turns v)" using ok that by (auto simp: view_ok_def simp del: map_of_eq_Some_iff)
    have "tn_id x = i" using ok that by (auto simp: view_ok_def simp del: map_of_eq_Some_iff)
    with that t'(1) show "ts_id (turn_summary_of x) \<noteq> tn_id t'" by (simp add: turn_summary_of_def)
  qed
  have put: "turn_summary_of t' \<in> set (put_summary t' (vw_turns v))"
    by (rule put_summary_puts) (use ids(2) t'(1) in simp)
  show ?thesis
    using ok unfolding next'(4) view_ok_def
    using present t' kept put ord
    by (auto simp: distinct_update keys_put insert_absorb simp del: map_of_eq_Some_iff split: if_splits)
qed

section \<open>Following the log\<close>

lemma HasTurn_apply: "view_apply parse v item = Inr w \<Longrightarrow> HasTurn w i = HasTurn v i"
  by (erule view_apply_Inr) (auto simp: HasTurn_def)

lemma TurnSequence_apply:
  assumes "view_apply parse v item = Inr w"
  shows "TurnSequence w i = (if i = ev_session item then max (TurnSequence v i) (ev_sequence item) else TurnSequence v i)"
  using assms by (rule view_apply_Inr) (auto simp: TurnSequence_def dest: turn_apply_frame)

interpretation view_reader: event_reader "view_apply parse" "\<lambda>v. TurnSequence v i"
    "\<lambda>v e. ev_session e = i \<and> HasTurn v i" for parse i
proof unfold_locales
  fix v and e :: event assume "ev_session e = i \<and> HasTurn v i" "ev_sequence e \<le> TurnSequence v i"
  then show "view_apply parse v e = Inr v"
    by (auto simp: view_apply_def HasTurn_def TurnSequence_def)
qed (auto simp: TurnSequence_apply HasTurn_apply fun_eq_iff)

text \<open>What the status and the position of a turn become when a stretch of its log is applied.\<close>

definition status_step :: "view_status \<Rightarrow> event \<Rightarrow> view_status" where
  "status_step s e = (case ev_kind e of SessionCreated \<Rightarrow> ViewRunning | FinalCompleted \<Rightarrow> ViewCompleted
     | SessionFailed \<Rightarrow> ViewFailed | SessionCancelled \<Rightarrow> ViewCancelled | _ \<Rightarrow> s)"

lemma turn_apply_status: "turn_apply parse item t = Inr u \<Longrightarrow> tn_status u = status_step (tn_status t) item"
  by (auto simp: turn_apply_def res_bind_Inr_iff status_step_def view_kind_status(1) split: kind.split)

lemma view_follow:
  assumes "res_fold (view_apply parse) v es = Inr w" and "map_of (vw_by_turn v) i = Some t"
    and "numbered_from (tn_sequence t) es" and "\<forall>e \<in> set es. ev_session e = i"
  obtains u where "map_of (vw_by_turn w) i = Some u" "tn_status u = foldl status_step (tn_status t) es"
    "tn_sequence u = tn_sequence t + int (length es)"
    "\<forall>e \<in> set es. \<exists>x y. view_kind parse e x = Inr y"
  using assms
proof (induction es arbitrary: v t thesis)
  case Nil
  then show ?case by simp
next
  case (Cons e es)
  from Cons.prems(2) obtain v1 where v1: "view_apply parse v e = Inr v1" and rest: "res_fold (view_apply parse) v1 es = Inr w"
    by (auto simp: res_bind_Inr_iff)
  from v1 show ?case
  proof (cases rule: view_apply_Inr)
    case stale
    then show ?thesis using Cons.prems by simp
  next
    case (next' s s')
    then have s: "s = t" using Cons.prems(3,5) by simp
    have at: "map_of (vw_by_turn v1) i = Some s'" using next'(4) Cons.prems(5) by simp
    have seq: "tn_sequence s' = tn_sequence t + 1"
      using turn_apply_frame(3) [OF next'(3)] next'(2) s by simp
    obtain u where u: "map_of (vw_by_turn w) i = Some u" "tn_status u = foldl status_step (tn_status s') es"
        "tn_sequence u = tn_sequence s' + int (length es)" "\<forall>e \<in> set es. \<exists>x y. view_kind parse e x = Inr y"
      by (rule Cons.IH [OF _ rest at]) (use Cons.prems(4,5) seq in auto)
    show ?thesis
    proof (rule Cons.prems(1) [OF u(1)])
      show "tn_status u = foldl status_step (tn_status t) (e # es)"
        using u(2) turn_apply_status [OF next'(3)] s by simp
      show "tn_sequence u = tn_sequence t + int (length (e # es))" using u(3) seq by simp
      show "\<forall>a \<in> set (e # es). \<exists>x y. view_kind parse a x = Inr y"
        using u(4) next'(3) by (auto simp: turn_apply_def res_bind_Inr_iff)
    qed
  qed
qed

lemma view_follow_others:
  assumes "res_fold (view_apply parse) v es = Inr w" and "\<forall>e \<in> set es. ev_session e \<noteq> i"
  shows "map_of (vw_by_turn w) i = map_of (vw_by_turn v) i"
  using assms
proof (induction es arbitrary: v)
  case (Cons e es)
  then obtain v1 where v1: "view_apply parse v e = Inr v1" "res_fold (view_apply parse) v1 es = Inr w"
    by (auto simp: res_bind_Inr_iff)
  have "map_of (vw_by_turn v1) i = map_of (vw_by_turn v) i"
    using v1(1) Cons.prems(2) by (auto elim: view_apply_Inr)
  with Cons v1(2) show ?case by simp
qed simp

text \<open>The status column of the store moves with the status on the screen.\<close>

lemma columns_status_step:
  assumes "view_kind parse e x = Inr y" and "ev_kind e \<noteq> SessionCreated"
  shows "statusFromStore (fst (step_columns c e)) = status_step (statusFromStore (fst c)) e"
proof (cases "ends_turn (ev_kind e)")
  case True
  have "ev_kind e = FinalCompleted \<Longrightarrow> \<exists>data. decode dec_final_completed_data e = Inr data"
    using assms(1) by (auto simp: view_kind_def view_final_completed_def with_data_Inr)
  with True show ?thesis
    by (auto simp: step_columns_def projection_columns_def status_step_def statusFromStore_def split: prod.splits)
next
  case False
  then have "fst (step_columns c e) = fst c"
    by (cases "ev_kind e") (auto simp: step_columns_def projection_columns_def res_bind_Inr_iff split: prod.splits sum.splits)
  then show ?thesis using False assms(2) by (cases "ev_kind e") (simp_all add: status_step_def)
qed

lemma columns_status_steps:
  assumes "\<forall>e \<in> set es. (\<exists>x y. view_kind parse e x = Inr y) \<and> ev_kind e \<noteq> SessionCreated"
  shows "foldl status_step (statusFromStore (fst c)) es = statusFromStore (fst (foldl step_columns c es))"
  using assms
proof (induction es arbitrary: c)
  case (Cons e es)
  then have "statusFromStore (fst (step_columns c e)) = status_step (statusFromStore (fst c)) e"
    by (auto intro: columns_status_step)
  then show ?case using Cons.IH [of "step_columns c e"] Cons.prems by simp
qed simp

text \<open>A log whose creation event, if any, comes first ends with the status of its row.\<close>

lemma row_status_shown:
  assumes ok: "row_ok s es" and es: "\<forall>e \<in> set es. \<exists>x y. view_kind parse e x = Inr y"
    and first: "\<forall>e \<in> set (tl es). ev_kind e \<noteq> SessionCreated"
  shows "foldl status_step (statusFromStore (ss_status s)) es = statusFromStore (ss_status s)"
proof -
  have row: "ss_status s = fst (foldl step_columns (StatusRunning, [], []) es)"
    using ok by (simp add: row_ok_def columns_of_def prod_eq_iff)
  show ?thesis
  proof (cases "\<exists>e r. es = e # r \<and> ev_kind e = SessionCreated")
    case True
    then obtain e r where e: "es = e # r" "ev_kind e = SessionCreated" by blast
    then have "foldl status_step (statusFromStore StatusRunning) r =
        statusFromStore (fst (foldl step_columns (StatusRunning, [], []) r))"
      using columns_status_steps [of r parse "(StatusRunning, [], [])"] es first by simp
    moreover have "step_columns (StatusRunning, [], []) e = (StatusRunning, [], [])"
      using e(2) by (simp add: step_columns_def projection_columns_def)
    ultimately show ?thesis using e row by (simp add: status_step_def statusFromStore_def)
  next
    case False
    then have none: "\<forall>e \<in> set es. ev_kind e \<noteq> SessionCreated" using first by (cases es) auto
    have last_wins: "foldl status_step a es = foldl status_step b es" if "\<exists>e \<in> set es. ends_turn (ev_kind e)" for a b
      using that by (induction es arbitrary: a b) (auto simp: status_step_def)
    have quiet: "foldl status_step a es = a" if "\<forall>e \<in> set es. \<not> ends_turn (ev_kind e)" for a
      using that none
    proof (induction es arbitrary: a)
      case (Cons e es)
      then have "status_step a e = a" by (cases "ev_kind e") (auto simp: status_step_def)
      with Cons show ?case by simp
    qed simp
    show ?thesis
      using columns_status_steps [of es parse "(StatusRunning, [], [])"] es none row last_wins quiet
      by (cases "\<exists>e \<in> set es. ends_turn (ev_kind e)") (metis fst_conv)+
  qed
qed

text \<open>At most one edge answers to a collaboration, so the order of the map does not matter.\<close>

lemma contextTarget_permuted:
  assumes ok: "turn_ok t" and perm: "mset edges = mset (tn_edges t)"
  shows "contextTarget scopeKind scopeID (t\<lparr>tn_edges := edges\<rparr>) = contextTarget scopeKind scopeID t"
proof -
  have one: "e = f" if e: "(k, e) \<in> set (tn_edges t)" "collaboration_edge scopeID e"
    and f: "(l, f) \<in> set (tn_edges t)" "collaboration_edge scopeID f" for k e l f
  proof -
    have d: "keys_distinct (tn_edges t)" using ok by (simp add: graph_ok_def)
    have m: "map_of (tn_edges t) k = Some e" "map_of (tn_edges t) l = Some f"
      using d e(1) f(1) by (simp_all add: map_of_is_SomeI)
    have "eg_id e = k" "own_collaboration e" "eg_id f = l" "own_collaboration f"
      using ok m unfolding graph_ok_def by blast+
    then have "k = l" using e(2) f(2) by (simp add: own_collaboration_def collaboration_edge_def)
    with m show ?thesis by simp
  qed
  have set': "set edges = set (tn_edges t)" using perm by (rule mset_eq_setD)
  let ?find = "\<lambda>es. find (collaboration_edge scopeID) (map snd es)"
  have "?find edges = ?find (tn_edges t)"
  proof (cases "?find (tn_edges t)")
    case None
    then have "?find edges = None" using set' by (simp add: find_None_iff)
    with None show ?thesis by simp
  next
    case (Some e)
    then have e: "e \<in> snd ` set (tn_edges t)" "collaboration_edge scopeID e"
      by (auto dest!: find_SomeD)
    then have "?find edges \<noteq> None" unfolding find_None_iff using set' by auto
    then obtain f where f: "?find edges = Some f" by auto
    then have "f \<in> snd ` set (tn_edges t)" "collaboration_edge scopeID f"
      using set' by (auto dest!: find_SomeD)
    then have "f = e" using e one by (auto simp: image_iff) 
    with f Some show ?thesis by simp
  qed
  then show ?thesis by (simp add: contextTarget_def ownerFor_def actor_of_def)
qed

section \<open>Properties\<close>

text \<open>What a view is fed with: session rows and events, in any order.\<close>

datatype view_input = TurnAdded session | EventSeen event

definition view_step :: "(string \<Rightarrow> json option) \<Rightarrow> view \<Rightarrow> view_input \<Rightarrow> (view_error, view) res" where
  "view_step parse v i = (case i of TurnAdded row \<Rightarrow> AddTurn row v | EventSeen e \<Rightarrow> view_apply parse v e)"

lemma view_steps_ok: "res_fold (view_step parse) v inputs = Inr w \<Longrightarrow> view_ok v \<Longrightarrow> view_ok w"
  by (erule res_fold_invariant [where P = view_ok])
    (auto simp: view_step_def split: view_input.splits intro: AddTurn_ok view_apply_ok)

text \<open>
  C29: the flow graph stays well-formed whatever it is fed. After any sequence of session rows
  and events that does not fail: every turn is filed under its identity with numbered
  summaries that agree with it; every node and edge of its graph is filed under its own
  identity, exactly once; no activity count is negative; and the node an accounting event of
  a consultation is charged to does not depend on Go's map order: for any arrangement of the
  edges \<open>contextTarget\<close> finds the same one.
\<close>

theorem view_stays_wellformed:
  assumes "res_fold (view_step parse) (view_new sessionID p) inputs = Inr v"
    and "map_of (vw_by_turn v) i = Some t"
  shows "tn_id t = i \<and> turn_summary_of t \<in> set (vw_turns v) \<and>
    (\<forall>n < length (vw_turns v). ts_ordinal (vw_turns v ! n) = int n + 1) \<and>
    distinct (map nd_id (map snd (tn_nodes t))) \<and> distinct (map eg_id (map snd (tn_edges t))) \<and>
    (\<forall>(k, n) \<in> set (tn_nodes t). nd_id n = k) \<and> (\<forall>(k, e) \<in> set (tn_edges t). eg_id e = k \<and> 0 \<le> eg_active e) \<and>
    (\<forall>a. 0 \<le> int_at (tn_activity t) a) \<and>
    (\<forall>edges kind scope. mset edges = mset (tn_edges t) \<longrightarrow>
       contextTarget kind scope (t\<lparr>tn_edges := edges\<rparr>) = contextTarget kind scope t)"
proof -
  have ok: "view_ok v" by (rule view_steps_ok [OF assms(1) view_new_ok])
  then have t: "tn_id t = i" "turn_ok t" "turn_summary_of t \<in> set (vw_turns v)"
    using assms(2) by (auto simp: view_ok_def simp del: map_of_eq_Some_iff)
  have nodes: "nd_id n = k" if "(k, n) \<in> set (tn_nodes t)" for k n
    using t(2) that by (simp add: graph_ok_def)
  have edges: "eg_id e = k \<and> 0 \<le> eg_active e" if "(k, e) \<in> set (tn_edges t)" for k e
    using t(2) that by (simp add: graph_ok_def)
  have "map nd_id (map snd (tn_nodes t)) = map fst (tn_nodes t)" "map eg_id (map snd (tn_edges t)) = map fst (tn_edges t)"
    using nodes edges by auto
  then have "distinct (map nd_id (map snd (tn_nodes t)))" "distinct (map eg_id (map snd (tn_edges t)))"
    using t(2) by (simp_all only: graph_ok_def)
  moreover have "\<forall>n < length (vw_turns v). ts_ordinal (vw_turns v ! n) = int n + 1"
    using ok unfolding view_ok_def by blast
  moreover have "\<forall>a. 0 \<le> int_at (tn_activity t) a"
    using t(2) unfolding graph_ok_def by blast
  ultimately show ?thesis
    using t(1,3) nodes edges contextTarget_permuted [OF t(2)] by blast
qed

theorem view_stays_wellformed_witness:
  "\<exists>v t. res_fold (view_step (\<lambda>s. None)) (view_new [] sample_profile)
      [TurnAdded (sample_row ''s''), EventSeen (sample_event 1 ''user'' SessionCancelled JNull)] = Inr v \<and>
     map_of (vw_by_turn v) ''s'' = Some t \<and> tn_id t = ''s''"
proof -
  let ?v = "view_new [] sample_profile"
  let ?e = "sample_event 1 ''user'' SessionCancelled JNull"
  obtain v1 where v1: "AddTurn (sample_row ''s'') ?v = Inr v1"
    by (simp add: AddTurn_def view_new_def sample_row_def Let_def)
  then have t1: "map_of (vw_by_turn v1) ''s'' \<noteq> None" "TurnSequence v1 ''s'' = 0"
    by (auto simp: AddTurn_def view_new_def sample_row_def TurnSequence_def Let_def)
  then obtain t where t: "map_of (vw_by_turn v1) ''s'' = Some t" "tn_sequence t = 0" by (auto simp: TurnSequence_def)
  obtain v where v: "view_apply (\<lambda>s. None) v1 ?e = Inr v"
    using t by (simp add: view_apply_def sample_event_def turn_apply_def view_kind_def view_session_cancelled_def)
  have run: "res_fold (view_step (\<lambda>s. None)) ?v [TurnAdded (sample_row ''s''), EventSeen ?e] = Inr v"
    using v1 v by (simp add: view_step_def)
  have "HasTurn v ''s''" using HasTurn_apply [OF v, of "''s''"] t by (simp add: HasTurn_def)
  then obtain u where u: "map_of (vw_by_turn v) ''s'' = Some u" by (auto simp: HasTurn_def)
  from view_stays_wellformed [OF run u] run u show ?thesis by blast
qed

text \<open>
  C30: an ended turn shows nothing at work. When the event that ends a turn (an answer, a
  failure, a cancellation) is applied to the view, the turn takes the corresponding status,
  no node of its graph is shown as running or queued, and no edge except the permitted
  relations is active, running or queued.
\<close>

theorem ended_turn_settles:
  assumes "view_apply parse v item = Inr w" and "ends_turn (ev_kind item)"
    and "ev_sequence item = TurnSequence v (ev_session item) + 1"
  shows "\<exists>t. map_of (vw_by_turn w) (ev_session item) = Some t \<and> tn_status t = end_status (ev_kind item) \<and>
    (\<forall>n \<in> set (map snd (tn_nodes t)). nd_status n \<notin> {ViewRunning, ViewQueued}) \<and>
    (\<forall>e \<in> set (map snd (tn_edges t)). eg_kind e \<noteq> ''allowed'' \<longrightarrow>
       eg_active e \<le> 0 \<and> eg_status e \<notin> {ViewRunning, ViewQueued})"
  using assms(1)
proof (cases rule: view_apply_Inr)
  case (next' t t')
  then obtain u where u: "view_kind parse item t = Inr u" and t': "t' = u\<lparr>tn_sequence := ev_sequence item, tn_updated := ev_at item\<rparr>"
    by (auto simp: turn_apply_def res_bind_Inr_iff)
  have "graph_settled t' \<and> tn_status t' = end_status (ev_kind item)"
    using view_kind_settles [OF u assms(2)] by (simp add: t' graph_settled_def)
  with next'(4) show ?thesis by (auto simp: graph_settled_def running_status_def)
qed (use assms(3) in \<open>simp add: TurnSequence_def\<close>)

theorem ended_turn_settles_witness:
  "\<exists>v w t. view_apply (\<lambda>s. None) v (sample_event 1 ''user'' SessionCancelled JNull) = Inr w \<and>
     map_of (vw_by_turn w) ''s'' = Some t \<and> tn_status t = ViewCancelled"
proof -
  let ?e = "sample_event 1 ''user'' SessionCancelled JNull"
  let ?v = "(view_new ''s'' sample_profile)\<lparr>vw_by_turn := [(''s'', newTurn ''s'' 1 ''t'' 0 sample_profile)]\<rparr>"
  obtain w where w: "view_apply (\<lambda>s. None) ?v ?e = Inr w"
    by (simp add: view_apply_def sample_event_def turn_apply_def view_kind_def view_session_cancelled_def)
  have "ends_turn (ev_kind ?e)" "ev_sequence ?e = TurnSequence ?v (ev_session ?e) + 1"
    by (simp_all add: sample_event_def TurnSequence_def)
  from ended_turn_settles [OF w this] w show ?thesis
    by (fastforce simp: sample_event_def end_status_def)
qed

end
