(* ===== verification/TeamStore.thy ===== *)
theory TeamStore
  imports Sessions
begin

text \<open>
  Published teams (internal/store/profile.go): importing a document as an immutable
  revision, publishing an edited draft as the next one, and reading revisions back. The
  YAML package and SHA-256 are arguments, as in the loading functions of the profile
  package.
\<close>

section \<open>Operations\<close>

record yaml =
  ym_encode :: "profile \<Rightarrow> string option"
  ym_decode :: "string \<Rightarrow> profile option"
  ym_sha :: "string \<Rightarrow> string"

definition profile_row_of :: "document \<Rightarrow> int \<Rightarrow> profile_row" where
  "profile_row_of doc now =
     \<lparr>pr_id = p_id (doc_profile doc), pr_revision = p_revision (doc_profile doc), pr_digest = doc_digest doc,
      pr_name = p_name (doc_profile doc), pr_source = doc_source doc, pr_created = now\<rparr>"

text \<open>The insert into \<open>profile_revisions\<close> with its primary key and the unique digest.\<close>

definition insert_profile :: "profile_row \<Rightarrow> store \<Rightarrow> store option" where
  "insert_profile row st =
     (if \<exists>r \<in> set (st_profiles st). pr_id r = pr_id row \<and> pr_revision r = pr_revision row \<or>
           pr_digest r = pr_digest row
      then None else Some (st\<lparr>st_profiles := st_profiles st @ [row]\<rparr>))"

definition ImportProfile :: "int \<Rightarrow> document \<Rightarrow> store \<Rightarrow> (store_error, store) res" where
  "ImportProfile now doc st =
     (if HasErrors (Validate (doc_profile doc)) then Inl ProfileInvalid
      else case find (\<lambda>r. pr_id r = p_id (doc_profile doc) \<and> pr_revision r = p_revision (doc_profile doc))
             (st_profiles st) of
        Some r \<Rightarrow> if pr_digest r = doc_digest doc then Inr st else Inl RevisionConflict
      | None \<Rightarrow>
          (case insert_profile (profile_row_of doc now) st of None \<Rightarrow> Inl Constraint | Some st' \<Rightarrow> Inr st'))"

definition latest_revision :: "store \<Rightarrow> string \<Rightarrow> int" where
  "latest_revision st i = max_or_zero (map pr_revision (filter (\<lambda>r. pr_id r = i) (st_profiles st)))"

definition PublishProfile :: "yaml \<Rightarrow> int \<Rightarrow> profile \<Rightarrow> int \<Rightarrow> store \<Rightarrow> (store_error, document \<times> store) res" where
  "PublishProfile ym now value expectedBase st =
     (let latest = latest_revision st (p_id value) in
      if latest \<noteq> expectedBase then Inl (DraftStale expectedBase latest)
      else case FromValue (ym_encode ym) (ym_decode ym) (ym_sha ym) (value\<lparr>p_revision := latest + 1\<rparr>) of
        Inl e \<Rightarrow> Inl (ProfileFailure e)
      | Inr doc \<Rightarrow>
          if HasErrors (Validate (doc_profile doc)) then Inl ProfileInvalid
          else (case insert_profile (profile_row_of doc now) st of
                  None \<Rightarrow> Inl RevisionConflict
                | Some st' \<Rightarrow> Inr (doc, st')))"

definition stored_profile :: "yaml \<Rightarrow> store \<Rightarrow> string \<Rightarrow> int \<Rightarrow> (store_error, document) res" where
  "stored_profile ym st i revision =
     (let rows = filter (\<lambda>r. pr_id r = i) (st_profiles st);
          found = (if 0 < revision then find (\<lambda>r. pr_revision r = revision) rows
                   else (case rev (sort_key pr_revision rows) of [] \<Rightarrow> None | r # _ \<Rightarrow> Some r))
      in case found of
           None \<Rightarrow> Inl (ProfileMissing i revision)
         | Some r \<Rightarrow>
             (case Parse (ym_decode ym) (ym_sha ym) (pr_source r) of
                Inl e \<Rightarrow> Inl (ProfileFailure e) | Inr doc \<Rightarrow> Inr doc))"

definition ListProfiles :: "store \<Rightarrow> profile_row list" where
  "ListProfiles st = sort_key (\<lambda>r. (pr_id r, - pr_revision r)) (st_profiles st)"

section \<open>Revisions are immutable\<close>

definition revisions_ok :: "store \<Rightarrow> bool" where
  "revisions_ok st \<longleftrightarrow>
     distinct (map (\<lambda>r. (pr_id r, pr_revision r)) (st_profiles st)) \<and> distinct (map pr_digest (st_profiles st)) \<and>
     (\<forall>r \<in> set (st_profiles st). 1 \<le> pr_revision r)"

lemma insert_profile_Some:
  assumes "insert_profile row st = Some st'"
  shows "st' = st\<lparr>st_profiles := st_profiles st @ [row]\<rparr>"
    and "revisions_ok st \<Longrightarrow> 1 \<le> pr_revision row \<Longrightarrow> revisions_ok st'"
  using assms by (auto simp: insert_profile_def revisions_ok_def split: if_splits) metis+

lemma valid_revision: "\<not> HasErrors (Validate p) \<Longrightarrow> 1 \<le> p_revision p"
  by (simp add: Validate_iff team_ok_def header_ok_def)

lemma ImportProfile_ok:
  assumes "revisions_ok st" and "ImportProfile now doc st = Inr st'"
  shows "revisions_ok st'" and "\<exists>new. st' = st\<lparr>st_profiles := st_profiles st @ new\<rparr>"
proof -
  have "1 \<le> pr_revision (profile_row_of doc now)"
    using assms(2) valid_revision [of "doc_profile doc"]
    by (auto simp: ImportProfile_def profile_row_of_def split: if_splits)
  then show "revisions_ok st'"
    using assms insert_profile_Some [of "profile_row_of doc now" st]
    by (auto simp: ImportProfile_def split: if_splits option.splits)
  show "\<exists>new. st' = st\<lparr>st_profiles := st_profiles st @ new\<rparr>"
    using assms(2) insert_profile_Some(1) [of "profile_row_of doc now" st]
    by (auto simp: ImportProfile_def split: if_splits option.splits intro: exI [of _ "[]"])
qed

lemma PublishProfile_Inr:
  assumes "PublishProfile ym now value base st = Inr (doc, st')"
  obtains "latest_revision st (p_id value) = base" "\<not> HasErrors (Validate (doc_profile doc))"
    "FromValue (ym_encode ym) (ym_decode ym) (ym_sha ym) (value\<lparr>p_revision := base + 1\<rparr>) = Inr doc"
    "insert_profile (profile_row_of doc now) st = Some st'"
  using assms by (auto simp: PublishProfile_def Let_def split: if_splits sum.splits option.splits)

lemma migrate_frame:
  "migrateLegacyGateways p = Inr q \<Longrightarrow> p_id q = p_id p \<and> p_revision q = p_revision p \<and> p_schema q = p_schema p"
  by (auto simp: migrateLegacyGateways_def res_bind_Inr_iff)

text \<open>What a document made from a value says, when decoding inverts encoding.\<close>

lemma FromValue_identity:
  assumes "FromValue enc dec sha v = Inr doc" and "\<And>p s. enc p = Some s \<Longrightarrow> dec s = Some p"
  shows "p_id (doc_profile doc) = p_id v \<and> p_revision (doc_profile doc) = p_revision v \<and>
    doc_digest doc = sha (doc_source doc)"
proof -
  obtain m where m: "migrateLegacyGateways v = Inr m"
    and m2: "(case enc m of None \<Rightarrow> Inl EncodeFailed | Some source \<Rightarrow> Parse dec sha source) = Inr doc"
    using assms(1) by (auto simp: FromValue_def res_bind_Inr_iff)
  then obtain s where s: "enc m = Some s" "Parse dec sha s = Inr doc" by (auto split: option.splits)
  with assms(2) obtain n where n: "migrateLegacyGateways m = Inr n"
    "doc = \<lparr>doc_profile = applyDefaults n, doc_source = s, doc_digest = sha s\<rparr>"
    by (auto simp: Parse_def res_bind_Inr_iff)
  show ?thesis
    using migrate_frame [OF m] migrate_frame [OF n(1)] by (simp add: n(2) applyDefaults_def)
qed

section \<open>Properties\<close>

text \<open>
  Published revisions never change. Importing a document and publishing a draft keep
  every stored revision row as it is, keep revisions unique per team and digests unique over
  the store, and importing the same document again is a no-op.
\<close>

theorem ImportProfile_immutable:
  assumes "revisions_ok st" and "ImportProfile now doc st = Inr st'"
  shows "revisions_ok st' \<and> (\<exists>new. st_profiles st' = st_profiles st @ new) \<and>
    ImportProfile later doc st' = Inr st'"
proof -
  have valid: "\<not> HasErrors (Validate (doc_profile doc))"
    using assms(2) by (auto simp: ImportProfile_def split: if_splits)
  let ?P = "\<lambda>r. pr_id r = p_id (doc_profile doc) \<and> pr_revision r = p_revision (doc_profile doc)"
  have "ImportProfile later doc st' = Inr st'"
  proof (cases "find ?P (st_profiles st)")
    case (Some r)
    then show ?thesis using assms(2) by (auto simp: ImportProfile_def split: if_splits)
  next
    case None
    then have "insert_profile (profile_row_of doc now) st = Some st'"
      using assms(2) by (auto simp: ImportProfile_def split: if_splits option.splits)
    then have st': "st' = st\<lparr>st_profiles := st_profiles st @ [profile_row_of doc now]\<rparr>"
      by (rule insert_profile_Some(1))
    have "find ?P (st_profiles st @ [x]) = (if ?P x then Some x else None)" for x
      by (simp add: find_append None)
    then show ?thesis using valid by (simp add: ImportProfile_def st' profile_row_of_def)
  qed
  with ImportProfile_ok [OF assms] show ?thesis by auto
qed

theorem ImportProfile_immutable_witness:
  "\<exists>st'. ImportProfile 1 sample_document empty_store = Inr st' \<and> revisions_ok st' \<and>
     ImportProfile 2 sample_document st' = Inr st'"
proof -
  have "\<not> HasErrors (Validate (doc_profile sample_document))"
    by (simp add: Validate_iff sample_team_ok sample_document_def)
  then obtain st' where imp: "ImportProfile 1 sample_document empty_store = Inr st'"
    by (simp add: ImportProfile_def insert_profile_def empty_store_def)
  have "revisions_ok empty_store" by (simp add: revisions_ok_def empty_store_def)
  from ImportProfile_immutable [OF this imp, of 2] imp show ?thesis by blast
qed

text \<open>
  Two editors cannot publish the same revision. When YAML decoding inverts encoding, a
  draft published from base revision \<open>n\<close> becomes revision \<open>n + 1\<close>, the newest of its team,
  and every later attempt to publish that team from the same base is refused as stale,
  naming the revision that is now the latest.
\<close>

theorem PublishProfile_linear:
  assumes roundtrip: "\<forall>p s. ym_encode ym p = Some s \<longrightarrow> ym_decode ym s = Some p"
    and ok: "revisions_ok st" and pub: "PublishProfile ym now value base st = Inr (doc, st')"
    and same: "p_id other = p_id value"
  shows "revisions_ok st' \<and> p_revision (doc_profile doc) = base + 1 \<and>
    latest_revision st' (p_id value) = base + 1 \<and>
    PublishProfile ym later other base st' = Inl (DraftStale base (base + 1))"
  using pub
proof (rule PublishProfile_Inr)
  assume base: "latest_revision st (p_id value) = base" and valid: "\<not> HasErrors (Validate (doc_profile doc))"
    and doc: "FromValue (ym_encode ym) (ym_decode ym) (ym_sha ym) (value\<lparr>p_revision := base + 1\<rparr>) = Inr doc"
    and ins: "insert_profile (profile_row_of doc now) st = Some st'"
  have ident: "p_id (doc_profile doc) = p_id value" "p_revision (doc_profile doc) = base + 1"
    using FromValue_identity [OF doc] roundtrip by auto
  have st': "st' = st\<lparr>st_profiles := st_profiles st @ [profile_row_of doc now]\<rparr>"
    and ok': "revisions_ok st'"
    using insert_profile_Some [OF ins] ok valid_revision [OF valid] by (auto simp: profile_row_of_def)
  have "max_or_zero [base + 1] = base + 1"
    using valid_revision [OF valid] ident by (simp add: max_or_zero_def)
  then have "latest_revision st' (p_id value) = base + 1"
    using base ident by (simp add: latest_revision_def st' profile_row_of_def max_or_zero_append)
  with ok' ident same show ?thesis by (simp add: PublishProfile_def)
qed

definition sample_yaml :: yaml where
  "sample_yaml =
     \<lparr>ym_encode = (\<lambda>p. if p = sample_profile then Some ''y'' else None),
      ym_decode = (\<lambda>s. if s = ''y'' then Some sample_profile else None), ym_sha = (\<lambda>s. s)\<rparr>"

lemma sample_migrated: "migrateLegacyGateways sample_profile = Inr sample_profile"
proof -
  have "to_lower ''g'' = ''g''" by (simp add: to_lower_def less_eq_char_def)
  then show ?thesis
    by (simp add: migrateLegacyGateways_def sample_profile_def sample_model_def trim_plain)
qed

theorem PublishProfile_linear_witness:
  "\<exists>doc st'. PublishProfile sample_yaml 5 sample_profile 0 empty_store = Inr (doc, st') \<and>
     PublishProfile sample_yaml 6 sample_profile 0 st' = Inl (DraftStale 0 1)"
proof -
  have same: "sample_profile\<lparr>p_revision := 1\<rparr> = sample_profile" by (simp add: sample_profile_def)
  have default: "applyDefaults sample_profile = sample_profile"
    by (simp add: applyDefaults_def sample_profile_def CurrentSchema_def)
  have valid: "\<not> HasErrors (Validate sample_profile)" by (simp add: Validate_iff sample_team_ok)
  have "latest_revision empty_store i = 0" for i
    by (simp add: latest_revision_def empty_store_def max_or_zero_def)
  then have "\<exists>doc st'. PublishProfile sample_yaml 5 sample_profile 0 empty_store = Inr (doc, st')"
    using valid by (simp add: PublishProfile_def same FromValue_def sample_migrated sample_yaml_def Parse_def default
        insert_profile_def empty_store_def)
  then obtain doc st' where pub: "PublishProfile sample_yaml 5 sample_profile 0 empty_store = Inr (doc, st')" by blast
  have "revisions_ok empty_store" by (simp add: revisions_ok_def empty_store_def)
  moreover have "\<forall>p s. ym_encode sample_yaml p = Some s \<longrightarrow> ym_decode sample_yaml s = Some p"
    by (auto simp: sample_yaml_def)
  ultimately show ?thesis using PublishProfile_linear [OF _ _ pub refl, of 6] pub by simp
qed

end
