(* ===== verification/Window.thy ===== *)
theory Window
  imports Graph TeamStore
begin

text \<open>
  The thinking window's host (internal/nativegui/service.go): it opens a conversation from the
  store, takes events pushed through a pipe, and repairs what it missed from the durable log.
  An error leaves the projection as far as it got, so the catching-up functions return the
  error, if any, and the view.
\<close>

section \<open>The host\<close>

datatype host_error = StoreFailed store_error | GraphFailed view_error | NoSession | NoTurns

record host =
  ho_session :: string
  ho_view :: view
  ho_stream_error :: "host_error option"

fun apply_all :: "(string \<Rightarrow> json option) \<Rightarrow> view \<Rightarrow> event list \<Rightarrow> view_error option \<times> view" where
  "apply_all parse v [] = (None, v)"
| "apply_all parse v (e # es) =
     (case view_apply parse v e of Inl x \<Rightarrow> (Some x, v) | Inr w \<Rightarrow> apply_all parse w es)"

text \<open>One turn of a conversation, as \<open>reconcileLocked\<close> brings it up to date.\<close>

definition follow_turn :: "(string \<Rightarrow> json option) \<Rightarrow> store \<Rightarrow> session \<Rightarrow> view \<Rightarrow> view_error option \<times> view" where
  "follow_turn parse st row v =
     (case (if HasTurn v (ss_id row) then Inr v else AddTurn row v) of
        Inl e \<Rightarrow> (Some e, v)
      | Inr w \<Rightarrow> apply_all parse w (Events st (ss_id row) (TurnSequence w (ss_id row))))"

fun follow_turns :: "(string \<Rightarrow> json option) \<Rightarrow> store \<Rightarrow> session list \<Rightarrow> view \<Rightarrow> view_error option \<times> view" where
  "follow_turns parse st [] v = (None, v)"
| "follow_turns parse st (row # rows) v =
     (case follow_turn parse st row v of
        (Some e, w) \<Rightarrow> (Some e, w)
      | (None, w) \<Rightarrow> follow_turns parse st rows w)"

definition open_turn :: "(string \<Rightarrow> json option) \<Rightarrow> store \<Rightarrow> view \<Rightarrow> session \<Rightarrow> (view_error, view) res" where
  "open_turn parse st v row =
     res_bind (AddTurn row v) (\<lambda>w. res_fold (view_apply parse) w (Events st (ss_id row) 0))"

definition NewHost :: "yaml \<Rightarrow> (string \<Rightarrow> json option) \<Rightarrow> store \<Rightarrow> string \<Rightarrow> (host_error, host) res" where
  "NewHost ym parse st sid =
     (if sid = [] then Inl NoSession
      else case ConversationSessions st sid of
        Inl e \<Rightarrow> Inl (StoreFailed e)
      | Inr [] \<Rightarrow> Inl NoTurns
      | Inr (row # rows) \<Rightarrow>
          (case stored_profile ym st (ss_profile row) (ss_revision row) of
             Inl e \<Rightarrow> Inl (StoreFailed e)
           | Inr doc \<Rightarrow>
               (case res_fold (open_turn parse st) (view_new (ss_conversation row) (doc_profile doc)) (row # rows) of
                  Inl e \<Rightarrow> Inl (GraphFailed e)
                | Inr v \<Rightarrow> Inr \<lparr>ho_session = sid, ho_view = v, ho_stream_error = None\<rparr>)))"

definition reconcileLocked :: "(string \<Rightarrow> json option) \<Rightarrow> store \<Rightarrow> host \<Rightarrow> host_error option \<times> host" where
  "reconcileLocked parse st h =
     (case ConversationSessions st (ho_session h) of
        Inl e \<Rightarrow> (Some (StoreFailed e), h)
      | Inr rows \<Rightarrow>
          (case follow_turns parse st rows (ho_view h) of
             (e, v) \<Rightarrow> (map_option GraphFailed e, h\<lparr>ho_view := v\<rparr>)))"

definition Reconcile :: "(string \<Rightarrow> json option) \<Rightarrow> store \<Rightarrow> host \<Rightarrow> (host_error, bool) res \<times> host" where
  "Reconcile parse st h =
     (case reconcileLocked parse st h of
        (Some e, g) \<Rightarrow> (Inl e, g\<lparr>ho_stream_error := Some e\<rparr>)
      | (None, g) \<Rightarrow> (Inr (vw_revision (ho_view g) \<noteq> vw_revision (ho_view h)), g\<lparr>ho_stream_error := None\<rparr>))"

definition PushEvent :: "(string \<Rightarrow> json option) \<Rightarrow> store \<Rightarrow> event \<Rightarrow> host \<Rightarrow> host_error option \<times> host" where
  "PushEvent parse st item h =
     (case (if HasTurn (ho_view h) (ev_session item) then Inr h
            else case get_session st (ev_session item) of
              Inl e \<Rightarrow> Inl (StoreFailed e)
            | Inr row \<Rightarrow> (case AddTurn row (ho_view h) of
                Inl e \<Rightarrow> Inl (GraphFailed e) | Inr v \<Rightarrow> Inr (h\<lparr>ho_view := v\<rparr>))) of
        Inl e \<Rightarrow> (Some e, h)
      | Inr h1 \<Rightarrow>
          (case (if TurnSequence (ho_view h1) (ev_session item) + 1 < ev_sequence item
                 then reconcileLocked parse st h1 else (None, h1)) of
             (Some e, h2) \<Rightarrow> (Some e, h2)
           | (None, h2) \<Rightarrow>
               (case view_apply parse (ho_view h2) item of
                  Inl e \<Rightarrow> (Some (GraphFailed e), h2)
                | Inr v \<Rightarrow> (None, h2\<lparr>ho_view := v\<rparr>))))"

section \<open>A view that is behind the log\<close>

text \<open>What applying an event can fail with besides a gap: its payload, or a nil pointer.\<close>

definition graph_fault :: "view_error \<Rightarrow> bool" where
  "graph_fault e \<longleftrightarrow> (\<exists>x. e = BadEvent x) \<or> (\<exists>i. e = NilNode i)"

lemma fault_simps [simp]: "graph_fault (BadEvent x)" "graph_fault (NilNode i)"
  by (auto simp: graph_fault_def)

lemma with_data_Inl: "with_data dec item f = Inl e \<Longrightarrow> (\<And>data. f data = Inl e \<Longrightarrow> graph_fault e) \<Longrightarrow> graph_fault e"
  by (auto simp: with_data_def split: sum.splits)

lemma deref_node_Inl: "deref_node i f t = Inl e \<Longrightarrow> graph_fault e"
  by (auto simp: deref_node_def split: option.splits)

lemma start_work_Inl: "start_work i k item t = Inl e \<Longrightarrow> graph_fault e"
  by (auto simp: start_work_def Let_def res_bind_Inl_iff dest: deref_node_Inl)

lemma view_kind_fault:
  assumes "view_kind parse item t = Inl e"
  shows "graph_fault e"
  using assms unfolding view_kind_def
  by (cases "ev_kind item"; simp)
    (auto simp: view_created_def view_pinned_def view_instruction_def view_leadership_def
      view_turn_started_def view_decision_def view_delegation_created_def view_delegation_started_def
      view_delegation_text_def view_delegation_completed_def view_delegation_failed_def
      view_delegation_cancelled_def view_peer_created_def view_peer_started_def view_peer_text_def
      view_peer_completed_def view_peer_failed_def view_peer_cancelled_def view_tool_called_def
      view_tool_completed_def view_final_started_def view_final_text_def view_final_completed_def
      view_session_failed_def view_session_cancelled_def view_model_call_def view_usage_def
      view_cache_epoch_def view_context_def view_compacted_def Let_def res_bind_Inl_iff
      elim!: with_data_Inl dest: deref_node_Inl start_work_Inl split: prod.splits)

text \<open>Every turn the view knows is at a position its log has reached.\<close>

definition behind :: "store \<Rightarrow> view \<Rightarrow> bool" where
  "behind st v \<longleftrightarrow> view_ok v \<and>
     (\<forall>i t. map_of (vw_by_turn v) i = Some t \<longrightarrow> 0 \<le> tn_sequence t \<and> tn_sequence t \<le> LastSequence st i)"

lemma behind_position: "behind st v \<Longrightarrow> HasTurn v i \<Longrightarrow> 0 \<le> TurnSequence v i \<and> TurnSequence v i \<le> LastSequence st i"
  by (auto simp: behind_def HasTurn_def TurnSequence_def simp del: map_of_eq_Some_iff)

lemma behind_apply:
  assumes behind: "behind st v" and r: "view_apply parse v item = Inr w"
    and item: "ev_sequence item \<le> LastSequence st (ev_session item)"
  shows "behind st w"
  unfolding behind_def
proof (intro conjI allI impI)
  show "view_ok w" using view_apply_ok r behind by (auto simp: behind_def)
  fix i t assume "map_of (vw_by_turn w) i = Some t"
  then have t: "TurnSequence w i = tn_sequence t" and has: "HasTurn v i"
    using HasTurn_apply [OF r, of i] by (auto simp: TurnSequence_def HasTurn_def)
  show "0 \<le> tn_sequence t" "tn_sequence t \<le> LastSequence st i"
    using behind_position [OF behind has] TurnSequence_apply [OF r, of i] t item by (auto split: if_splits)
qed

lemma apply_all_Inr: "apply_all parse v es = (None, w) \<longleftrightarrow> res_fold (view_apply parse) v es = Inr w"
  by (induction es arbitrary: v) (auto split: sum.splits)

lemma view_apply_session: "view_apply parse v item = Inr w \<Longrightarrow> vw_session w = vw_session v"
  by (erule view_apply_Inr) auto

text \<open>Catching up with a stretch of one turn's log that starts at or before the view's position.\<close>

lemma apply_all_behind:
  assumes "apply_all parse v es = (r, w)" and "behind st v" and "HasTurn v i"
    and "numbered_from (TurnSequence v i) es" and "\<forall>e \<in> set es. ev_session e = i"
    and "TurnSequence v i + int (length es) \<le> LastSequence st i"
  shows "behind st w \<and> vw_session w = vw_session v \<and> (\<forall>j. HasTurn w j = HasTurn v j) \<and>
    (r = None \<longrightarrow> TurnSequence w i = TurnSequence v i + int (length es)) \<and> (\<forall>e. r = Some e \<longrightarrow> graph_fault e) \<and>
    (\<forall>j. j \<noteq> i \<longrightarrow> TurnSequence w j = TurnSequence v j)"
  using assms
proof (induction es arbitrary: v)
  case (Cons e es)
  have e: "ev_session e = i" "ev_sequence e = TurnSequence v i + 1" using Cons.prems by auto
  show ?case
  proof (cases "view_apply parse v e")
    case (Inl x)
    then have "graph_fault x"
      using e Cons.prems(3) by (auto simp: view_apply_def HasTurn_def TurnSequence_def turn_apply_def res_bind_Inl_iff
          dest: view_kind_fault split: if_splits)
    with Inl Cons.prems show ?thesis by auto
  next
    case (Inr v1)
    have "ev_sequence e \<le> LastSequence st (ev_session e)" using e Cons.prems(6) by simp
    then have "behind st v1" by (rule behind_apply [OF Cons.prems(2) Inr])
    moreover have pos: "TurnSequence v1 j = (if j = i then TurnSequence v i + 1 else TurnSequence v j)" for j
      using TurnSequence_apply [OF Inr, of j] e by simp
    ultimately show ?thesis
      using Cons.IH [of v1] Cons.prems Inr HasTurn_apply [OF Inr] view_apply_session [OF Inr] by (auto simp: pos)
  qed
qed auto

lemma apply_all_monotone: "apply_all parse v es = (r, w) \<Longrightarrow> TurnSequence v i \<le> TurnSequence w i"
proof (induction es arbitrary: v)
  case (Cons e es)
  then show ?case
  proof (cases "view_apply parse v e")
    case (Inr v1)
    then have "TurnSequence v i \<le> TurnSequence v1 i" using TurnSequence_apply [OF Inr, of i] by simp
    with Cons Inr show ?thesis by fastforce
  qed auto
qed auto

lemma AddTurn_behind:
  assumes "store_ok pl st" and "behind st v" and "ss_conversation row = vw_session v"
  obtains w where "AddTurn row v = Inr w" "behind st w" "vw_session w = vw_session v" "HasTurn w (ss_id row)"
    "\<And>j. HasTurn v j \<Longrightarrow> HasTurn w j \<and> map_of (vw_by_turn w) j = map_of (vw_by_turn v) j"
    "\<not> HasTurn v (ss_id row) \<Longrightarrow> \<exists>t. map_of (vw_by_turn w) (ss_id row) = Some t \<and> tn_sequence t = 0 \<and>
       tn_status t = statusFromStore (ss_status row)"
proof -
  have v: "(if vw_session v = [] then v\<lparr>vw_session := ss_conversation row\<rparr> else v) = v"
    using assms(3) by simp
  have "\<exists>w. AddTurn row v = Inr w"
    using assms(3) unfolding AddTurn_def Let_def v by (cases "map_of (vw_by_turn v) (ss_id row)") simp_all
  then obtain w where w: "AddTurn row v = Inr w" by blast
  have ok: "view_ok w" using AddTurn_ok [OF _ w] assms(2) by (simp add: behind_def)
  have last: "0 \<le> LastSequence st i" for i by (simp add: LastSequence_def)
  show ?thesis
  proof (rule that [OF w])
    show "behind st w"
      using assms(2,3) ok w last unfolding AddTurn_def Let_def v
      by (auto simp: behind_def simp del: map_of_eq_Some_iff split: if_splits)
  qed (use w assms(3) in \<open>auto simp: AddTurn_def Let_def v HasTurn_def simp del: map_of_eq_Some_iff split: if_splits\<close>)
qed

lemma Events_stretch:
  assumes ok: "store_ok pl st" and at: "0 \<le> n" "n \<le> LastSequence st i"
  shows "numbered_from n (Events st i n)" "\<forall>e \<in> set (Events st i n). ev_session e = i"
    "n + int (length (Events st i n)) = LastSequence st i"
proof -
  have log: "numbered_from 0 (take (nat n) (session_events st i) @ drop (nat n) (session_events st i))"
    using session_events_numbered [OF ok] by simp
  have len: "int (length (session_events st i)) = LastSequence st i" using LastSequence_ok [OF ok] by simp
  have ev: "Events st i n = drop (nat n) (session_events st i)" by (rule Events_ok [OF ok at(1)])
  have "int (length (take (nat n) (session_events st i))) = n" using len at by simp
  with log show "numbered_from n (Events st i n)" unfolding numbered_from_append ev by simp
  show "\<forall>e \<in> set (Events st i n). ev_session e = i"
    unfolding ev session_events_def by (auto dest: in_set_dropD)
  show "n + int (length (Events st i n)) = LastSequence st i" using len at unfolding ev by simp
qed

lemma follow_turn_behind:
  assumes ok: "store_ok pl st" and behind: "behind st v" and conv: "ss_conversation row = vw_session v"
    and r: "follow_turn parse st row v = (r, w)"
  shows "behind st w \<and> vw_session w = vw_session v \<and> (\<forall>j. HasTurn v j \<longrightarrow> HasTurn w j \<and> TurnSequence v j \<le> TurnSequence w j) \<and>
    (r = None \<longrightarrow> HasTurn w (ss_id row) \<and> TurnSequence w (ss_id row) = LastSequence st (ss_id row)) \<and>
    (\<forall>e. r = Some e \<longrightarrow> graph_fault e)"
proof -
  obtain v1 where v1: "(if HasTurn v (ss_id row) then Inr v else AddTurn row v) = Inr v1" "behind st v1"
    "vw_session v1 = vw_session v" "HasTurn v1 (ss_id row)"
    "\<And>j. HasTurn v j \<Longrightarrow> HasTurn v1 j \<and> TurnSequence v1 j = TurnSequence v j"
  proof (cases "HasTurn v (ss_id row)")
    case False
    obtain u where "AddTurn row v = Inr u" "behind st u" "vw_session u = vw_session v" "HasTurn u (ss_id row)"
      "\<And>j. HasTurn v j \<Longrightarrow> HasTurn u j \<and> map_of (vw_by_turn u) j = map_of (vw_by_turn v) j"
      using AddTurn_behind [OF ok behind conv] by metis
    with False show ?thesis by (intro that [of u]) (auto simp: TurnSequence_def)
  qed (use behind in \<open>auto intro: that [of v]\<close>)
  let ?i = "ss_id row"
  have all: "apply_all parse v1 (Events st ?i (TurnSequence v1 ?i)) = (r, w)"
    using r unfolding follow_turn_def v1(1) by simp
  have pos: "0 \<le> TurnSequence v1 ?i" "TurnSequence v1 ?i \<le> LastSequence st ?i"
    using behind_position [OF v1(2,4)] by auto
  note es = Events_stretch [OF ok pos]
  have w: "behind st w \<and> vw_session w = vw_session v1 \<and> (\<forall>j. HasTurn w j = HasTurn v1 j) \<and>
    (r = None \<longrightarrow> TurnSequence w ?i = LastSequence st ?i) \<and> (\<forall>e. r = Some e \<longrightarrow> graph_fault e) \<and>
    (\<forall>j. j \<noteq> ?i \<longrightarrow> TurnSequence w j = TurnSequence v1 j)"
    using apply_all_behind [OF all v1(2,4) es(1,2)] es(3) by simp
  have "TurnSequence v1 ?i \<le> TurnSequence w ?i"
    using apply_all_monotone [OF all] by blast
  with w v1 show ?thesis by (metis order_refl)
qed

lemma follow_turns_behind:
  assumes ok: "store_ok pl st" and "behind st v" and "\<forall>row \<in> set rows. ss_conversation row = vw_session v"
    and "follow_turns parse st rows v = (r, w)"
  shows "behind st w \<and> vw_session w = vw_session v \<and> (\<forall>j. HasTurn v j \<longrightarrow> HasTurn w j \<and> TurnSequence v j \<le> TurnSequence w j) \<and>
    (r = None \<longrightarrow> (\<forall>row \<in> set rows. HasTurn w (ss_id row) \<and> TurnSequence w (ss_id row) = LastSequence st (ss_id row))) \<and>
    (\<forall>e. r = Some e \<longrightarrow> graph_fault e)"
  using assms(2-)
proof (induction rows arbitrary: v)
  case (Cons row rows)
  obtain r1 v1 where v1: "follow_turn parse st row v = (r1, v1)" by (metis surj_pair)
  note one = follow_turn_behind [OF ok Cons.prems(1) _ v1]
  show ?case
  proof (cases r1)
    case None
    with Cons.prems(3) v1 have rest: "follow_turns parse st rows v1 = (r, w)" by simp
    have v1': "behind st v1" "vw_session v1 = vw_session v" "HasTurn v1 (ss_id row)"
        "TurnSequence v1 (ss_id row) = LastSequence st (ss_id row)"
        "\<forall>j. HasTurn v j \<longrightarrow> HasTurn v1 j \<and> TurnSequence v j \<le> TurnSequence v1 j"
      using one Cons.prems(2) None by auto
    have w: "behind st w" "vw_session w = vw_session v1"
        "\<forall>j. HasTurn v1 j \<longrightarrow> HasTurn w j \<and> TurnSequence v1 j \<le> TurnSequence w j"
        "r = None \<longrightarrow> (\<forall>row \<in> set rows. HasTurn w (ss_id row) \<and> TurnSequence w (ss_id row) = LastSequence st (ss_id row))"
        "\<forall>e. r = Some e \<longrightarrow> graph_fault e"
      using Cons.IH [OF v1'(1) _ rest] Cons.prems(2) v1'(2) by auto
    have "TurnSequence w (ss_id row) = LastSequence st (ss_id row) \<and> HasTurn w (ss_id row)"
      using w(3) v1'(3,4) behind_position [OF w(1)] by (metis antisym)
    moreover have "HasTurn v j \<longrightarrow> HasTurn w j \<and> TurnSequence v j \<le> TurnSequence w j" for j
      using v1'(5) w(3) by (meson order_trans)
    ultimately show ?thesis using w v1'(2) by simp
  next
    case (Some e)
    then have "r = Some e" "w = v1" using Cons.prems(3) v1 by auto
    with one Some Cons.prems(2) show ?thesis by auto
  qed
qed auto

section \<open>What the window shows\<close>

text \<open>The log of a turn says that it was created, if at all, in its first event.\<close>

definition created_first :: "store \<Rightarrow> string \<Rightarrow> bool" where
  "created_first st i \<longleftrightarrow> (\<forall>e \<in> set (tl (session_events st i)). ev_kind e \<noteq> SessionCreated)"

definition shows_row :: "store \<Rightarrow> view \<Rightarrow> session \<Rightarrow> bool" where
  "shows_row st v row \<longleftrightarrow>
     (\<exists>t. map_of (vw_by_turn v) (ss_id row) = Some t \<and> tn_sequence t = LastSequence st (ss_id row) \<and>
        (created_first st (ss_id row) \<longrightarrow> tn_status t = statusFromStore (ss_status row)))"

lemma open_turn_shows:
  assumes ok: "store_ok pl st" and row: "row \<in> set (st_sessions st)" and behind: "behind st v"
    and conv: "ss_conversation row = vw_session v" and new: "\<not> HasTurn v (ss_id row)"
    and r: "open_turn parse st v row = Inr w"
  shows "behind st w \<and> vw_session w = vw_session v \<and> shows_row st w row \<and>
    (\<forall>j. j \<noteq> ss_id row \<longrightarrow> map_of (vw_by_turn w) j = map_of (vw_by_turn v) j)"
proof -
  let ?i = "ss_id row"
  from r obtain v1 where v1: "AddTurn row v = Inr v1" and run: "res_fold (view_apply parse) v1 (Events st ?i 0) = Inr w"
    by (auto simp: open_turn_def res_bind_Inr_iff)
  obtain t where u: "behind st v1" "vw_session v1 = vw_session v" "HasTurn v1 ?i"
    and t: "map_of (vw_by_turn v1) ?i = Some t" "tn_sequence t = 0" "tn_status t = statusFromStore (ss_status row)"
    by (rule AddTurn_behind [OF ok behind conv]) (use v1 new in auto)
  have others: "map_of (vw_by_turn v1) j = map_of (vw_by_turn v) j" if "j \<noteq> ?i" for j
    using v1 that by (auto simp: AddTurn_def Let_def split: if_splits)
  have log: "Events st ?i 0 = session_events st ?i" using Events_ok [OF ok, of 0] by simp
  have es: "numbered_from 0 (session_events st ?i)" "\<forall>e \<in> set (session_events st ?i). ev_session e = ?i"
    by (rule session_events_numbered [OF ok]) (simp add: session_events_def)
  obtain x where x: "map_of (vw_by_turn w) ?i = Some x"
    "tn_status x = foldl status_step (tn_status t) (session_events st ?i)"
    "tn_sequence x = int (length (session_events st ?i))"
    "\<forall>e \<in> set (session_events st ?i). \<exists>x y. view_kind parse e x = Inr y"
    by (rule view_follow [OF run [unfolded log] t(1)]) (use es t(2) in auto)
  have "shows_row st w row"
    using x t(3) row_status_shown [OF store_okD(6) [OF ok row] x(4)] LastSequence_ok [OF ok, of ?i]
    by (auto simp: shows_row_def created_first_def)
  moreover have "behind st w \<and> vw_session w = vw_session v1"
    using apply_all_behind [of parse v1 "Events st ?i 0" None w st ?i] run u t Events_stretch [OF ok, of 0 ?i]
    by (simp add: apply_all_Inr TurnSequence_def LastSequence_def)
  moreover have "map_of (vw_by_turn w) j = map_of (vw_by_turn v1) j" if "j \<noteq> ?i" for j
    by (rule view_follow_others [OF run]) (use es log that in auto)
  ultimately show ?thesis using u others by simp
qed

lemma open_turns_show:
  assumes ok: "store_ok pl st" and "behind st v" and "res_fold (open_turn parse st) v rows = Inr w"
    and "distinct (map ss_id rows)" and "\<forall>row \<in> set rows. row \<in> set (st_sessions st) \<and>
      ss_conversation row = vw_session v \<and> \<not> HasTurn v (ss_id row)"
  shows "behind st w \<and> vw_session w = vw_session v \<and> (\<forall>row \<in> set rows. shows_row st w row) \<and>
    (\<forall>j. j \<notin> ss_id ` set rows \<longrightarrow> map_of (vw_by_turn w) j = map_of (vw_by_turn v) j)"
  using assms(2-)
proof (induction rows arbitrary: v)
  case (Cons row rows)
  then obtain v1 where v1: "open_turn parse st v row = Inr v1" and rest: "res_fold (open_turn parse st) v1 rows = Inr w"
    by (auto simp: res_bind_Inr_iff)
  have one: "behind st v1" "vw_session v1 = vw_session v" "shows_row st v1 row"
      "\<forall>j. j \<noteq> ss_id row \<longrightarrow> map_of (vw_by_turn v1) j = map_of (vw_by_turn v) j"
    using open_turn_shows [OF ok _ Cons.prems(1) _ _ v1] Cons.prems(4) by auto
  have "\<not> HasTurn v1 (ss_id r)" if "r \<in> set rows" for r
  proof -
    have "ss_id row \<notin> ss_id ` set rows" using Cons.prems(3) by simp
    then have "ss_id r \<noteq> ss_id row" using imageI [OF that, of ss_id] by metis
    then show ?thesis using one(4) Cons.prems(4) that by (auto simp: HasTurn_def simp del: map_of_eq_Some_iff)
  qed
  then have w: "behind st w" "vw_session w = vw_session v1" "\<forall>row \<in> set rows. shows_row st w row"
      "\<forall>j. j \<notin> ss_id ` set rows \<longrightarrow> map_of (vw_by_turn w) j = map_of (vw_by_turn v1) j"
    using Cons.IH [OF one(1) rest] Cons.prems(3,4) one(2) by auto
  have "shows_row st w row"
    using one(3) w(4) Cons.prems(3) by (simp add: shows_row_def)
  with w one show ?case by auto
qed auto

lemma ConversationSessions_rows:
  assumes "ConversationSessions st sid = Inr rows" and "distinct (map ss_id (st_sessions st))"
  obtains row where "session_row st sid = Some row"
    "set rows = {r \<in> set (st_sessions st). ss_conversation r = ss_conversation row}" "distinct (map ss_id rows)"
proof -
  obtain row where row: "session_row st sid = Some row"
    and rows: "rows = sort_key (\<lambda>s. rfc3339nano (ss_created s))
       (filter (\<lambda>s. ss_conversation s = ss_conversation row) (st_sessions st))"
    using assms(1) by (auto simp: ConversationSessions_def get_session_def res_bind_Inr_iff split: option.splits)
  have "distinct (map ss_id rows)"
    unfolding rows using assms(2) by (simp add: distinct_map inj_on_def)
  with row rows show ?thesis by (intro that [of row]) auto
qed

section \<open>Properties\<close>

text \<open>
  The window opens on what the store holds. When \<open>NewHost\<close> opens a conversation of a
  well-formed store, every turn of the conversation is on the screen at the last event of its
  log, and with the status the session table has for it, if its creation event comes first.
\<close>

theorem NewHost_shows_store:
  assumes ok: "store_ok pl st" and host: "NewHost ym parse st sid = Inr h"
    and row: "session_row st sid = Some row"
    and turn: "other \<in> set (st_sessions st)" "ss_conversation other = ss_conversation row"
  shows "\<exists>t. map_of (vw_by_turn (ho_view h)) (ss_id other) = Some t \<and>
    tn_sequence t = LastSequence st (ss_id other) \<and>
    (created_first st (ss_id other) \<longrightarrow> tn_status t = statusFromStore (ss_status other))"
proof -
  obtain first rest where rows: "ConversationSessions st sid = Inr (first # rest)"
    using host by (auto simp: NewHost_def split: if_splits sum.splits list.splits)
  obtain doc where doc: "stored_profile ym st (ss_profile first) (ss_revision first) = Inr doc"
    using host rows by (auto simp: NewHost_def split: if_splits sum.splits)
  obtain v where v: "res_fold (open_turn parse st) (view_new (ss_conversation first) (doc_profile doc)) (first # rest) = Inr v"
    and h: "ho_view h = v"
    using host rows doc by (auto simp: NewHost_def simp del: res_fold.simps split: if_splits sum.splits)
  obtain row' where row': "session_row st sid = Some row'" and
    all: "set (first # rest) = {r \<in> set (st_sessions st). ss_conversation r = ss_conversation row'}"
      "distinct (map ss_id (first # rest))"
    by (rule ConversationSessions_rows [OF rows store_okD(1) [OF ok]])
  have same: "row' = row" using row row' by simp
  let ?v = "view_new (ss_conversation first) (doc_profile doc)"
  have "behind st ?v" using view_new_ok by (simp add: behind_def view_new_def)
  moreover have "\<forall>r \<in> set (first # rest). r \<in> set (st_sessions st) \<and> ss_conversation r = vw_session ?v \<and> \<not> HasTurn ?v (ss_id r)"
  proof
    fix r assume r: "r \<in> set (first # rest)"
    have "first \<in> set (first # rest)" by simp
    then have "ss_conversation first = ss_conversation row'" unfolding all by simp
    with r show "r \<in> set (st_sessions st) \<and> ss_conversation r = vw_session ?v \<and> \<not> HasTurn ?v (ss_id r)"
      unfolding all by (simp add: view_new_def HasTurn_def)
  qed
  ultimately have "\<forall>r \<in> set (first # rest). shows_row st v r"
    using open_turns_show [OF ok _ v all(2)] by blast
  moreover have "other \<in> set (first # rest)" unfolding all same using turn by simp
  ultimately have "shows_row st v other" by blast
  then show ?thesis unfolding h by (simp add: shows_row_def)
qed

definition sample_team_row :: profile_row where
  "sample_team_row = \<lparr>pr_id = ''team'', pr_revision = 1, pr_digest = ''d'', pr_name = ''Team'', pr_source = ''y'', pr_created = 0\<rparr>"

lemma sample_shown_ok: "store_ok sample_platform (sample_store\<lparr>st_profiles := [sample_team_row]\<rparr>)"
  using sample_store_ok by (simp add: store_ok_def session_events_def artifacts_ok_def)

theorem NewHost_shows_store_witness:
  "\<exists>h t. NewHost sample_yaml (\<lambda>s. None) (sample_store\<lparr>st_profiles := [sample_team_row]\<rparr>) ''s'' = Inr h \<and>
     map_of (vw_by_turn (ho_view h)) ''s'' = Some t \<and> tn_sequence t = 0 \<and> tn_status t = ViewRunning"
proof -
  let ?st = "sample_store\<lparr>st_profiles := [sample_team_row]\<rparr>"
  have default: "applyDefaults sample_profile = sample_profile"
    by (simp add: applyDefaults_def sample_profile_def CurrentSchema_def)
  have "\<exists>doc. stored_profile sample_yaml ?st ''team'' 1 = Inr doc"
    by (simp add: stored_profile_def sample_team_row_def Parse_def sample_yaml_def sample_migrated default)
  then obtain doc where doc: "stored_profile sample_yaml ?st ''team'' 1 = Inr doc" by blast
  have row: "session_row ?st ''s'' = Some (sample_row ''s'')" and log: "session_events ?st ''s'' = []"
    by (simp_all add: session_row_def session_events_def sample_store_def empty_store_def sample_row_def)
  have rows: "ConversationSessions ?st ''s'' = Inr [sample_row ''s'']"
    by (simp add: ConversationSessions_def get_session_def row) (simp add: sample_store_def empty_store_def)
  have fields: "ss_profile (sample_row ''s'') = ''team''" "ss_revision (sample_row ''s'') = 1"
      "ss_conversation (sample_row ''s'') = ''s''" "ss_id (sample_row ''s'') = ''s''" "ss_status (sample_row ''s'') = StatusRunning"
    by (simp_all add: sample_row_def)
  have events: "Events ?st ''s'' 0 = []" by (simp add: Events_def sample_store_def empty_store_def)
  have "\<exists>h. NewHost sample_yaml (\<lambda>s. None) ?st ''s'' = Inr h"
    by (simp add: NewHost_def rows fields doc open_turn_def events AddTurn_def view_new_def Let_def)
  then obtain h where h: "NewHost sample_yaml (\<lambda>s. None) ?st ''s'' = Inr h" by blast
  have "sample_row ''s'' \<in> set (st_sessions ?st)" by (simp add: sample_store_def)
  from NewHost_shows_store [OF sample_shown_ok h row this refl] h show ?thesis
    by (auto simp: fields log created_first_def statusFromStore_def LastSequence_def max_or_zero_def)
qed

text \<open>
  C26: a pushed event never tears a hole in the graph. When the view of a host is no further
  than the log of a well-formed store, and \<open>PushEvent\<close> is handed a durable event of the host's
  conversation, however many events before it were lost on the pipe and whether or not its
  turn is known yet: it never fails with a gap or an unknown turn, only on a malformed
  payload; on success the turn has reached the event; no turn goes back, and none passes the
  end of its log.
\<close>

theorem PushEvent_no_gap:
  assumes ok: "store_ok pl st" and behind: "behind st (ho_view h)"
    and host: "session_row st (ho_session h) = Some own" "vw_session (ho_view h) = ss_conversation own"
    and item: "item \<in> set (st_events st)" "session_row st (ev_session item) = Some row"
      "ss_conversation row = ss_conversation own"
    and push: "PushEvent parse st item h = (r, g)"
  shows "(\<forall>e. r = Some e \<longrightarrow> (\<exists>x. e = GraphFailed (BadEvent x)) \<or> (\<exists>i. e = GraphFailed (NilNode i))) \<and>
    (r = None \<longrightarrow> ev_sequence item \<le> TurnSequence (ho_view g) (ev_session item)) \<and>
    behind st (ho_view g) \<and>
    (\<forall>j. HasTurn (ho_view h) j \<longrightarrow> TurnSequence (ho_view h) j \<le> TurnSequence (ho_view g) j)"
proof -
  let ?i = "ev_session item"
  have id: "ss_id row = ?i" using session_row_in [OF item(2)] by simp
  obtain h1 where h1: "(if HasTurn (ho_view h) ?i then Inr h
            else case get_session st ?i of Inl e \<Rightarrow> Inl (StoreFailed e)
            | Inr row \<Rightarrow> (case AddTurn row (ho_view h) of Inl e \<Rightarrow> Inl (GraphFailed e) | Inr v \<Rightarrow> Inr (h\<lparr>ho_view := v\<rparr>))) = Inr h1"
    and v1: "behind st (ho_view h1)" "HasTurn (ho_view h1) ?i" "vw_session (ho_view h1) = ss_conversation own"
      "ho_session h1 = ho_session h"
      "\<And>j. HasTurn (ho_view h) j \<Longrightarrow> HasTurn (ho_view h1) j \<and> TurnSequence (ho_view h1) j = TurnSequence (ho_view h) j"
  proof (cases "HasTurn (ho_view h) ?i")
    case False
    have "ss_conversation row = vw_session (ho_view h)" using item(3) host(2) by simp
    then obtain u where u: "AddTurn row (ho_view h) = Inr u" "behind st u" "vw_session u = vw_session (ho_view h)"
      "HasTurn u ?i" "\<And>j. HasTurn (ho_view h) j \<Longrightarrow> HasTurn u j \<and> map_of (vw_by_turn u) j = map_of (vw_by_turn (ho_view h)) j"
      using AddTurn_behind [OF ok behind] id by metis
    with False item(2) host(2) show ?thesis
      by (intro that [of "h\<lparr>ho_view := u\<rparr>"]) (auto simp: get_session_def TurnSequence_def)
  qed (use behind host(2) in \<open>auto intro: that [of h]\<close>)
  have last: "ev_sequence item \<le> LastSequence st ?i"
  proof -
    have "item \<in> set (session_events st ?i)" using item(1) by (simp add: session_events_def)
    then show ?thesis
      using numbered_from_bounds [OF session_events_numbered [OF ok]] LastSequence_ok [OF ok] by fastforce
  qed
  define w where "w = (if TurnSequence (ho_view h1) ?i + 1 < ev_sequence item then reconcileLocked parse st h1 else (None, h1))"
  obtain r2 h2 where h2: "w = (r2, h2)" by (metis surj_pair)
  obtain rows where rows: "ConversationSessions st (ho_session h1) = Inr rows"
    using host(1) v1(4) by (simp add: ConversationSessions_def get_session_def)
  have rows_in: "set rows = {r \<in> set (st_sessions st). ss_conversation r = ss_conversation own}"
    by (rule ConversationSessions_rows [OF rows store_okD(1) [OF ok]]) (use host(1) v1(4) in simp)
  have "row \<in> set rows" unfolding rows_in using session_row_in [OF item(2)] item(3) by simp
  have v2: "behind st (ho_view h2) \<and> (\<forall>j. HasTurn (ho_view h1) j \<longrightarrow> HasTurn (ho_view h2) j \<and>
        TurnSequence (ho_view h1) j \<le> TurnSequence (ho_view h2) j) \<and>
      (r2 = None \<longrightarrow> ev_sequence item \<le> TurnSequence (ho_view h2) ?i + 1) \<and>
      (\<forall>e. r2 = Some e \<longrightarrow> (\<exists>x. e = GraphFailed x \<and> graph_fault x))"
  proof (cases "TurnSequence (ho_view h1) ?i + 1 < ev_sequence item")
    case True
    obtain r3 v3 where f: "follow_turns parse st rows (ho_view h1) = (r3, v3)" by (metis surj_pair)
    then have w3: "r2 = map_option GraphFailed r3" "ho_view h2 = v3"
      using True h2 rows by (auto simp: w_def reconcileLocked_def)
    show ?thesis
      using follow_turns_behind [OF ok v1(1) _ f] rows_in v1(3) \<open>row \<in> set rows\<close> id last
      by (auto simp: w3)
  next
    case False
    with h2 v1(1) show ?thesis by (auto simp: w_def)
  qed
  have out: "(r, g) = (case w of (Some e, h2) \<Rightarrow> (Some e, h2) | (None, h2) \<Rightarrow>
      (case view_apply parse (ho_view h2) item of Inl e \<Rightarrow> (Some (GraphFailed e), h2) | Inr v \<Rightarrow> (None, h2\<lparr>ho_view := v\<rparr>)))"
    using push unfolding PushEvent_def h1 w_def by (simp split: sum.splits)
  have mono: "TurnSequence (ho_view h) j \<le> TurnSequence (ho_view h2) j" if "HasTurn (ho_view h) j" for j
    using v1(5) [OF that] v2 by metis
  show ?thesis
  proof (cases r2)
    case (Some e)
    then have "r = Some e" "g = h2" using out h2 by auto
    with Some v2 mono show ?thesis by (auto simp: graph_fault_def)
  next
    case None
    have has: "HasTurn (ho_view h2) ?i" using v1(2) v2 by blast
    show ?thesis
    proof (cases "view_apply parse (ho_view h2) item")
      case (Inl e)
      then have "graph_fault e"
        using has v2 None by (auto simp: view_apply_def HasTurn_def TurnSequence_def turn_apply_def res_bind_Inl_iff
            dest: view_kind_fault split: if_splits)
      with Inl None out h2 v2 mono show ?thesis by (auto simp: graph_fault_def)
    next
      case (Inr v)
      have "behind st v" by (rule behind_apply [OF _ Inr last]) (use v2 in blast)
      moreover have "TurnSequence (ho_view h) j \<le> TurnSequence v j" if "HasTurn (ho_view h) j" for j
        using mono [OF that] TurnSequence_apply [OF Inr, of j] by auto
      ultimately show ?thesis using Inr None out h2 TurnSequence_apply [OF Inr, of ?i] by auto
    qed
  qed
qed

theorem PushEvent_no_gap_witness:
  "\<exists>item st r g. item \<in> set (st_events st) \<and>
     PushEvent (\<lambda>s. None) st item \<lparr>ho_session = ''s'', ho_view = view_new ''s'' sample_profile, ho_stream_error = None\<rparr> = (r, g) \<and>
     (r = None \<longrightarrow> 1 \<le> TurnSequence (ho_view g) ''s'')"
proof -
  let ?item = "materialize sample_draft ''e'' ''s'' (LastSequence sample_store ''s'' + 1) 7"
  let ?st = "log_item sample_platform ?item (Some StatusCancelled, [], []) sample_store"
  let ?h = "\<lparr>ho_session = ''s'', ho_view = view_new ''s'' sample_profile, ho_stream_error = None\<rparr>"
  have app: "Append sample_platform ''e'' 7 ''s'' sample_draft sample_store = Inr (?item, ?st)"
    by (rule Append_succeeds [OF sample_store_ok])
      (simp_all add: sample_store_def sample_row_def empty_store_def projection_columns_def sample_draft_def)
  have ok: "store_ok sample_platform ?st" by (rule Append_ok [OF sample_store_ok app])
  have item: "?item \<in> set (st_events ?st)" "ev_session ?item = ''s''" "ev_sequence ?item = 1"
    by (simp_all add: log_item_def LastSequence_def session_events_def sample_store_def empty_store_def max_or_zero_def
        materialize_def)
  obtain row where row: "session_row ?st ''s'' = Some row" "ss_conversation row = ''s''"
    by (simp add: session_row_def log_item_def sample_store_def empty_store_def sample_row_def materialize_def)
  obtain r g where push: "PushEvent (\<lambda>s. None) ?st ?item ?h = (r, g)" by (metis surj_pair)
  have "behind ?st (ho_view ?h)" using view_new_ok by (simp add: behind_def view_new_def)
  from PushEvent_no_gap [OF ok this _ _ item(1) _ _ push, of row row] row item push show ?thesis
    by (fastforce simp: view_new_def)
qed

end
