(* ===== verification/Budget.thy ===== *)
theory Budget
  imports Prelude
begin

text \<open>
  The token budget of an agent's requests: the limits a model has
  (internal/provider/model_limits.go), the messages of the agent library as far as the code
  looks at them, and the working envelope computed from limits and observed usage
  (internal/tooling/context_budget.go). What \<open>encoding/json\<close> writes for a message is an argument.
\<close>

section \<open>Limits\<close>

text \<open>Zero tokens mean that the limit is not known.\<close>

record token_limit =
  tk_tokens :: int
  tk_source :: string

record model_limits =
  ml_context :: token_limit
  ml_input :: token_limit
  ml_output :: token_limit

definition no_limit :: token_limit where
  "no_limit = \<lparr>tk_tokens = 0, tk_source = []\<rparr>"

definition no_limits :: model_limits where
  "no_limits = \<lparr>ml_context = no_limit, ml_input = no_limit, ml_output = no_limit\<rparr>"

definition NewTokenLimit :: "int \<Rightarrow> string \<Rightarrow> token_limit" where
  "NewTokenLimit tokens source = (if tokens \<le> 0 then no_limit else \<lparr>tk_tokens = tokens, tk_source = source\<rparr>)"

definition MostRestrictiveLimit :: "token_limit \<Rightarrow> token_limit \<Rightarrow> token_limit" where
  "MostRestrictiveLimit current candidate =
     (if tk_tokens candidate \<le> 0 then current
      else if tk_tokens current \<le> 0 \<or> tk_tokens candidate < tk_tokens current then candidate
      else if tk_tokens candidate = tk_tokens current \<and> tk_source candidate \<noteq> [] \<and> tk_source candidate \<noteq> tk_source current
      then current\<lparr>tk_source :=
        join ''+'' (if tk_source current > tk_source candidate then [tk_source candidate, tk_source current]
                    else [tk_source current, tk_source candidate])\<rparr>
      else current)"

definition MergeModelLimits :: "model_limits \<Rightarrow> model_limits \<Rightarrow> model_limits" where
  "MergeModelLimits current candidate =
     \<lparr>ml_context = MostRestrictiveLimit (ml_context current) (ml_context candidate),
      ml_input = MostRestrictiveLimit (ml_input current) (ml_input candidate),
      ml_output = MostRestrictiveLimit (ml_output current) (ml_output candidate)\<rparr>"

definition PromptCapacity :: "model_limits \<Rightarrow> int" where
  "PromptCapacity l =
     (let contextTokens = tk_tokens (ml_context l); inputTokens = tk_tokens (ml_input l)
      in if contextTokens > 0 \<and> inputTokens > 0 then min contextTokens inputTokens
         else if inputTokens > 0 then inputTokens
         else contextTokens)"

section \<open>Messages\<close>

text \<open>
  A message of the agent library. \<open>ms_usage\<close> is \<open>ResponseMeta.Usage\<close>; \<open>ms_calls\<close> holds the
  identities of the tool calls, \<open>ms_rest\<close> whatever else the library puts into its JSON form. A
  nil message is \<open>None\<close>.
\<close>

datatype role = System | User | Assistant | Tool | OtherRole string

record usage =
  us_prompt :: int
  us_completion :: int
  us_total :: int

datatype part_type = PartText | PartImage | PartReasoning | PartOther string

record image =
  im_data :: "string option"
  im_rest :: string

record input_part =
  ip_type :: part_type
  ip_text :: string
  ip_image :: "image option"
  ip_reference :: bool

record output_part =
  op_type :: part_type
  op_text :: string

record message =
  ms_role :: role
  ms_content :: string
  ms_calls :: "string list"
  ms_call_id :: string
  ms_input :: "input_part list"
  ms_output :: "output_part list"
  ms_reasoning :: string
  ms_usage :: "usage option"
  ms_extra :: "(string, string) gomap"
  ms_rest :: string

type_synonym messages = "message option list"

record tool_info =
  ti_name :: string
  ti_extra :: "(string, string) gomap"
  ti_rest :: string

definition UserMessage :: "string \<Rightarrow> message" where
  "UserMessage content = \<lparr>ms_role = User, ms_content = content, ms_calls = [], ms_call_id = [], ms_input = [],
     ms_output = [], ms_reasoning = [], ms_usage = None, ms_extra = [], ms_rest = []\<rparr>"

text \<open>What \<open>json.Marshal\<close> writes; a message it cannot encode is \<open>None\<close>.\<close>

record marshal =
  ma_message :: "message option \<Rightarrow> string option"
  ma_messages :: "messages \<Rightarrow> string option"
  ma_tools :: "tool_info list \<Rightarrow> string"

section \<open>Counting\<close>

definition messageForCounting :: "message option \<Rightarrow> message option" where
  "messageForCounting m = map_option (\<lambda>m. m\<lparr>ms_usage := None, ms_extra := []\<rparr>) m"

definition estimateByteTokens :: "nat \<Rightarrow> int \<Rightarrow> int \<Rightarrow> int" where
  "estimateByteTokens bytes numerator denominator =
     (if bytes = 0 then 0
      else if numerator \<le> 0 \<or> denominator \<le> 0 then int bytes
      else (int bytes * denominator + numerator - 1) div numerator)"

definition estimateJSONTokens :: "marshal \<Rightarrow> message option \<Rightarrow> int \<Rightarrow> int \<Rightarrow> int" where
  "estimateJSONTokens ma v numerator denominator =
     (case ma_message ma v of None \<Rightarrow> 0 | Some encoded \<Rightarrow> estimateByteTokens (length encoded) numerator denominator)"

definition usage_of :: "message option \<Rightarrow> usage option" where
  "usage_of m = (case m of None \<Rightarrow> None | Some m \<Rightarrow> if ms_role m = Assistant then ms_usage m else None)"

text \<open>The smallest ratio of bytes to tokens seen in an answer, one to one to begin with.\<close>

definition observe_ratio :: "marshal \<Rightarrow> message option \<Rightarrow> int \<times> int \<Rightarrow> int \<times> int" where
  "observe_ratio ma m = (\<lambda>(numerator, denominator).
     case usage_of m of
       None \<Rightarrow> (numerator, denominator)
     | Some u \<Rightarrow>
         if us_completion u \<le> 0 then (numerator, denominator)
         else (case ma_message ma (messageForCounting m) of
           None \<Rightarrow> (numerator, denominator)
         | Some visible \<Rightarrow>
             if visible = [] then (numerator, denominator)
             else if int (length visible) * denominator < numerator * us_completion u
             then (int (length visible), us_completion u) else (numerator, denominator)))"

definition observedBytesPerToken :: "marshal \<Rightarrow> messages \<Rightarrow> int \<times> int" where
  "observedBytesPerToken ma ms = fold (observe_ratio ma) ms (1, 1)"

definition toolHeaderForCounting :: "marshal \<Rightarrow> tool_info option list \<Rightarrow> string \<times> nat" where
  "toolHeaderForCounting ma tools =
     (if tools = [] then ([], 0)
      else let encoded = ma_tools ma (map (\<lambda>t. t\<lparr>ti_extra := []\<rparr>) (List.map_filter (\<lambda>t. t) tools))
           in (encoded, length encoded))"

definition observedOutputReserve :: "messages \<Rightarrow> int \<Rightarrow> int" where
  "observedOutputReserve ms maximum =
     (let reserve = fold (\<lambda>m r. case usage_of m of None \<Rightarrow> r | Some u \<Rightarrow> max r (us_completion u)) ms 0
      in if maximum > 0 \<and> reserve > maximum then maximum else reserve)"

definition is_role :: "role \<Rightarrow> message option \<Rightarrow> bool" where
  "is_role r m \<longleftrightarrow> (case m of None \<Rightarrow> False | Some m \<Rightarrow> ms_role m = r)"

text \<open>
  The last increment: the last message that is not nil and not a system message, or a round
  of tool results with the answer that asked for it. Written on the reversed list.
\<close>

definition last_increment :: "messages \<Rightarrow> messages" where
  "last_increment ms =
     (case dropWhile (\<lambda>m. m = None \<or> is_role System m) (rev ms) of
        [] \<Rightarrow> []
      | m # back \<Rightarrow>
          if is_role Tool m then
            (let tools = takeWhile (is_role Tool) back; rest = dropWhile (is_role Tool) back;
                 call = (case rest of c # _ \<Rightarrow> if is_role Assistant c then [c] else [] | [] \<Rightarrow> [])
             in call @ rev tools @ [m])
          else [m])"

definition estimate_all :: "marshal \<Rightarrow> messages \<Rightarrow> int \<times> int \<Rightarrow> int" where
  "estimate_all ma ms ratio =
     sum_list (map (\<lambda>m. estimateJSONTokens ma (messageForCounting m) (fst ratio) (snd ratio)) ms)"

definition observedGrowthReserve :: "marshal \<Rightarrow> messages \<Rightarrow> int" where
  "observedGrowthReserve ma ms = estimate_all ma (last_increment ms) (observedBytesPerToken ma ms)"

definition estimateFresh :: "marshal \<Rightarrow> messages \<Rightarrow> tool_info option list \<Rightarrow> messages \<Rightarrow> int" where
  "estimateFresh ma ms tools calibration =
     (let ratio = observedBytesPerToken ma calibration
      in estimate_all ma ms ratio +
         estimateByteTokens (snd (toolHeaderForCounting ma tools)) (fst ratio) (snd ratio))"

section \<open>The budget\<close>

record budget_plan =
  bp_known :: bool
  bp_estimated :: int
  bp_capacity :: int
  bp_output_reserve :: int
  bp_growth :: int
  bp_high :: int
  bp_low :: int

record budget =
  bg_limits :: model_limits
  bg_observed :: int
  bg_digest :: string
  bg_plan :: budget_plan

definition no_plan :: budget_plan where
  "no_plan = \<lparr>bp_known = False, bp_estimated = 0, bp_capacity = 0, bp_output_reserve = 0, bp_growth = 0,
     bp_high = 0, bp_low = 0\<rparr>"

definition newContextBudget :: "model_limits \<Rightarrow> budget" where
  "newContextBudget limits = \<lparr>bg_limits = limits, bg_observed = 0, bg_digest = [], bg_plan = no_plan\<rparr>"

definition remember :: "budget_plan \<Rightarrow> budget \<Rightarrow> budget" where
  "remember plan b = b\<lparr>bg_plan := plan\<rparr>"

definition hardPromptCapacity :: "budget \<Rightarrow> int \<Rightarrow> int" where
  "hardPromptCapacity b outputReserve =
     (let observed = bg_observed b;
          context0 = tk_tokens (ml_context (bg_limits b));
          contextTokens = (if observed > 0 \<and> (context0 \<le> 0 \<or> observed < context0) then observed else context0);
          capacity = tk_tokens (ml_input (bg_limits b));
          combined = max 0 (contextTokens - outputReserve)
      in if contextTokens > 0 \<and> (capacity \<le> 0 \<or> combined < capacity) then combined else capacity)"

text \<open>The last answer that reports its usage, with what follows it.\<close>

definition reports_usage :: "message option \<Rightarrow> bool" where
  "reports_usage m \<longleftrightarrow> (case usage_of m of None \<Rightarrow> False | Some u \<Rightarrow> us_prompt u > 0 \<or> us_total u > 0)"

definition since_usage :: "messages \<Rightarrow> int option \<times> messages" where
  "since_usage ms =
     (let after = rev (takeWhile (\<lambda>m. \<not> reports_usage m) (rev ms)) in
      case dropWhile (\<lambda>m. \<not> reports_usage m) (rev ms) of
        [] \<Rightarrow> (None, after)
      | m # _ \<Rightarrow> (map_option (\<lambda>u. if us_prompt u > 0 then us_prompt u + us_completion u else us_total u) (usage_of m), after))"

definition count :: "marshal \<Rightarrow> messages \<Rightarrow> tool_info option list \<Rightarrow> budget \<Rightarrow> int \<times> budget" where
  "count ma ms tools b =
     (let ratio = observedBytesPerToken ma ms;
          (used, after) = since_usage ms;
          base = (case used of None \<Rightarrow> 0 | Some n \<Rightarrow> n) + estimate_all ma after ratio;
          (digest, bytes) = toolHeaderForCounting ma tools;
          header = (if used = None \<or> digest \<noteq> bg_digest b then estimateByteTokens bytes (fst ratio) (snd ratio) else 0)
      in (base + header, b\<lparr>bg_digest := digest\<rparr>))"

definition plan_of :: "marshal \<Rightarrow> messages \<Rightarrow> budget \<Rightarrow> int \<Rightarrow> budget_plan" where
  "plan_of ma ms b estimated =
     (let outputReserve = observedOutputReserve ms (tk_tokens (ml_output (bg_limits b)));
          capacity = hardPromptCapacity b outputReserve
      in if capacity \<le> 0 then no_plan\<lparr>bp_estimated := estimated, bp_output_reserve := outputReserve\<rparr>
         else let growth = observedGrowthReserve ma ms;
                  high = max 0 (capacity - growth);
                  low = max 0 (high - growth)
              in \<lparr>bp_known = True, bp_estimated = estimated, bp_capacity = capacity,
                  bp_output_reserve = outputReserve, bp_growth = growth, bp_high = high, bp_low = low\<rparr>)"

definition plan :: "marshal \<Rightarrow> messages \<Rightarrow> tool_info option list \<Rightarrow> budget \<Rightarrow> budget_plan \<times> budget" where
  "plan ma ms tools b =
     (case count ma ms tools b of (estimated, b1) \<Rightarrow>
        (let p = plan_of ma ms b1 estimated in (p, remember p b1)))"

definition availableResultBytes :: "budget \<Rightarrow> int \<times> bool" where
  "availableResultBytes b =
     (if bp_known (bg_plan b) then (max 0 (bp_high (bg_plan b) - bp_estimated (bg_plan b)), True) else (0, False))"

definition observeOverflow :: "marshal \<Rightarrow> messages \<Rightarrow> tool_info option list \<Rightarrow> int \<Rightarrow> budget \<Rightarrow> budget" where
  "observeOverflow ma ms tools providerLimit b =
     (let (bound, b1) = (if providerLimit \<le> 0 then (case count ma ms tools b of (n, b1) \<Rightarrow> (n - 1, b1)) else (providerLimit, b))
      in if bound \<le> 0 then b1
         else if bg_observed b1 = 0 \<or> bound < bg_observed b1 then b1\<lparr>bg_observed := bound\<rparr> else b1)"


section \<open>Lemmas\<close>

lemma estimateByteTokens_nonneg [simp]: "0 \<le> estimateByteTokens n a b"
proof -
  have "0 \<le> (int n * b + a - 1) div a" if "0 < a" "0 < b"
  proof -
    have "0 \<le> int n * b" using that by simp
    then have "0 \<le> int n * b + a - 1" using that by linarith
    then show ?thesis using that by (intro pos_imp_zdiv_nonneg_iff [THEN iffD2]) simp_all
  qed
  then show ?thesis by (auto simp: estimateByteTokens_def)
qed

lemma estimateJSONTokens_nonneg [simp]: "0 \<le> estimateJSONTokens ma v a b"
  by (simp add: estimateJSONTokens_def split: option.split)

lemma estimate_all_simps [simp]: "estimate_all ma [] r = 0"
  "estimate_all ma (m # ms) r = estimateJSONTokens ma (messageForCounting m) (fst r) (snd r) + estimate_all ma ms r"
  "estimate_all ma (xs @ ys) r = estimate_all ma xs r + estimate_all ma ys r"
  by (simp_all add: estimate_all_def)

lemma estimate_all_nonneg [simp]: "0 \<le> estimate_all ma ms r"
  by (induction ms) simp_all

lemma observedGrowthReserve_nonneg [simp]: "0 \<le> observedGrowthReserve ma ms"
  by (simp add: observedGrowthReserve_def)

lemma estimateFresh_nonneg [simp]: "0 \<le> estimateFresh ma ms tools cal"
  by (simp add: estimateFresh_def Let_def)

text \<open>Rounding up: the estimate at a ratio covers every count at that ratio.\<close>

lemma estimateByteTokens_covers:
  assumes "0 < a" and "0 < b" and "a * c \<le> int n * b"
  shows "c \<le> estimateByteTokens n a b"
proof (cases "n = 0")
  case True
  then have "a * c \<le> 0" using assms(3) by simp
  then have "c \<le> 0" using assms(1) by (simp add: mult_le_0_iff)
  then show ?thesis using True by (simp add: estimateByteTokens_def)
next
  case False
  have "c = a * c div a" using assms(1) by simp
  also have "\<dots> \<le> (int n * b + a - 1) div a" using assms(1,3) by (intro zdiv_mono1) simp_all
  finally show ?thesis using False assms by (simp add: estimateByteTokens_def)
qed

text \<open>The ratio is the smallest one observed.\<close>

definition ratio_ok :: "int \<times> int \<Rightarrow> bool" where
  "ratio_ok r \<longleftrightarrow> 0 < fst r \<and> 0 < snd r \<and> fst r \<le> snd r"

lemma ratio_shrinks:
  assumes "0 < a" and "0 < n" and "0 \<le> v" and "n * b < a * (c :: int)" and "a * k \<le> v * b"
  shows "n * k \<le> v * c"
proof -
  have "a * (n * k) \<le> n * (v * b)" using mult_left_mono [OF assms(5), of n] assms(2) by (simp add: mult_ac)
  also have "\<dots> = v * (n * b)" by (simp add: mult_ac)
  also have "\<dots> \<le> v * (a * c)" using assms(3,4) by (intro mult_left_mono) simp_all
  finally have "a * (n * k) \<le> a * (v * c)" by (simp add: mult_ac)
  then show ?thesis using assms(1) by simp
qed

lemma ratio_below_one:
  assumes "0 < (a :: int)" and "a \<le> b" and "0 < c" and "n * b < a * c"
  shows "n \<le> c"
proof -
  have "a * c \<le> b * c" using assms(2,3) by (intro mult_right_mono) simp_all
  then have "n * b < c * b" using assms(4) by (simp add: mult_ac)
  then show ?thesis using assms(1,2) by simp
qed

text \<open>\<open>answered m n c\<close>: an answer of \<open>n\<close> visible bytes that cost \<open>c\<close> tokens.\<close>

definition answered :: "marshal \<Rightarrow> message option \<Rightarrow> nat \<Rightarrow> int \<Rightarrow> bool" where
  "answered ma m n c \<longleftrightarrow> (\<exists>u visible. usage_of m = Some u \<and> us_completion u = c \<and> 0 < c \<and>
     ma_message ma (messageForCounting m) = Some visible \<and> length visible = n \<and> 0 < n)"

lemma observe_ratio_step:
  assumes "ratio_ok r"
  shows "ratio_ok (observe_ratio ma m r)"
    and "fst r * c \<le> int n * snd r \<Longrightarrow> fst (observe_ratio ma m r) * c \<le> int n * snd (observe_ratio ma m r)"
    and "answered ma m n c \<Longrightarrow> fst (observe_ratio ma m r) * c \<le> int n * snd (observe_ratio ma m r)"
proof -
  obtain a b where r: "r = (a, b)" "0 < a" "0 < b" "a \<le> b" using assms by (cases r) (auto simp: ratio_ok_def)
  consider "observe_ratio ma m r = r" "\<And>n c. answered ma m n c \<Longrightarrow> a * c \<le> int n * b"
    | n' c' where "observe_ratio ma m r = (int n', c')" "answered ma m n' c'" "0 < int n'" "0 < c'" "int n' * b < a * c'"
  proof (cases "\<exists>n c. answered ma m n c \<and> int n * b < a * c")
    case True
    then obtain n c where a: "answered ma m n c" "int n * b < a * c" by blast
    then show ?thesis by (intro that(2) [of n c]) (auto simp: answered_def observe_ratio_def r)
  next
    case False
    then show ?thesis
      by (intro that(1)) (auto simp: answered_def observe_ratio_def r not_less split: option.splits)
  qed
  note cases = this
  show "ratio_ok (observe_ratio ma m r)"
    using cases r ratio_below_one [OF r(2,4)] by (cases rule: cases) (auto simp: ratio_ok_def)
  show "fst (observe_ratio ma m r) * c \<le> int n * snd (observe_ratio ma m r)" if "fst r * c \<le> int n * snd r"
    using cases that ratio_shrinks [OF r(2), of _ "int n" b _ c] r(1) by (cases rule: cases) auto
  show "fst (observe_ratio ma m r) * c \<le> int n * snd (observe_ratio ma m r)" if "answered ma m n c"
    using cases
  proof (cases rule: cases)
    case 1
    then show ?thesis using that r(1) by auto
  next
    case (2 n' c')
    then have "n' = n" "c' = c" using that by (auto simp: answered_def)
    then show ?thesis using 2 by (simp add: mult.commute)
  qed
qed

lemma observe_ratio_fold:
  assumes "ratio_ok r"
  shows "ratio_ok (fold (observe_ratio ma) ms r)"
    and "fst r * c \<le> int n * snd r \<Longrightarrow>
      fst (fold (observe_ratio ma) ms r) * c \<le> int n * snd (fold (observe_ratio ma) ms r)"
    and "m \<in> set ms \<Longrightarrow> answered ma m n c \<Longrightarrow>
      fst (fold (observe_ratio ma) ms r) * c \<le> int n * snd (fold (observe_ratio ma) ms r)"
proof -
  show ok: "ratio_ok (fold (observe_ratio ma) ms r)"
    using assms observe_ratio_step(1) by (induction ms arbitrary: r) auto
  show step: "fst (fold (observe_ratio ma) ms r) * c \<le> int n * snd (fold (observe_ratio ma) ms r)"
    if "fst r * c \<le> int n * snd r"
    using assms that observe_ratio_step(1,2) by (induction ms arbitrary: r) auto
  show "fst (fold (observe_ratio ma) ms r) * c \<le> int n * snd (fold (observe_ratio ma) ms r)"
    if "m \<in> set ms" "answered ma m n c"
    using assms that
  proof (induction ms arbitrary: r)
    case (Cons x xs)
    have ok: "ratio_ok (observe_ratio ma x r)" by (rule observe_ratio_step(1) [OF Cons.prems(1)])
    have kept: "fst s * c \<le> int n * snd s \<Longrightarrow> ratio_ok s \<Longrightarrow>
        fst (fold (observe_ratio ma) xs s) * c \<le> int n * snd (fold (observe_ratio ma) xs s)" for s
      using observe_ratio_step(1,2) by (induction xs arbitrary: s) auto
    show ?case
    proof (cases "x = m")
      case True
      then show ?thesis using kept [OF observe_ratio_step(3) [OF Cons.prems(1)] ok] Cons.prems(3) by simp
    next
      case False
      then show ?thesis using Cons.IH [OF ok] Cons.prems by simp
    qed
  qed simp
qed

lemma start_ratio: "ratio_ok (1, 1)"
  by (simp add: ratio_ok_def)

lemma observedBytesPerToken_ok: "ratio_ok (observedBytesPerToken ma ms)"
  unfolding observedBytesPerToken_def by (rule observe_ratio_fold(1) [OF start_ratio])

text \<open>Without an answer that reports its usage, a byte counts as a token.\<close>

lemma uncalibrated: "\<forall>m \<in> set ms. usage_of m = None \<Longrightarrow> observedBytesPerToken ma ms = (1, 1)"
proof -
  have "fold (observe_ratio ma) ms r = r" if "\<forall>m \<in> set ms. usage_of m = None" for r
    using that by (induction ms arbitrary: r) (auto simp: observe_ratio_def)
  then show "\<forall>m \<in> set ms. usage_of m = None \<Longrightarrow> observedBytesPerToken ma ms = (1, 1)"
    by (simp add: observedBytesPerToken_def)
qed

lemma fold_max_ge: "(r :: int) \<le> fold (\<lambda>m r. case f m of None \<Rightarrow> r | Some u \<Rightarrow> max r (g u)) ms r"
proof (induction ms arbitrary: r)
  case (Cons m ms)
  show ?case using Cons [of r] Cons [of "max r (g (the (f m)))"] by (cases "f m") auto
qed simp

lemma observedOutputReserve_bounds:
  "0 \<le> observedOutputReserve ms l" "0 < l \<Longrightarrow> observedOutputReserve ms l \<le> l"
  using fold_max_ge [where r = 0 and f = usage_of and g = us_completion and ms = ms] by (auto simp: observedOutputReserve_def Let_def)

lemma plan_eq: "plan ma ms tools b = (p, b') \<Longrightarrow> \<exists>n digest. p = plan_of ma ms (b\<lparr>bg_digest := digest\<rparr>) n \<and>
    b' = b\<lparr>bg_digest := digest, bg_plan := p\<rparr>"
  by (auto simp: plan_def count_def Let_def remember_def split: prod.splits)

lemma count_frame: "count ma ms tools b = (n, b') \<Longrightarrow> \<exists>digest. b' = b\<lparr>bg_digest := digest\<rparr>"
  by (auto simp: count_def Let_def split: prod.splits)

lemma plan_frame: "plan ma ms tools b = (p, b') \<Longrightarrow> bg_limits b' = bg_limits b \<and> bg_observed b' = bg_observed b"
  by (auto dest: plan_eq)


lemma hardPromptCapacity_digest: "hardPromptCapacity (b\<lparr>bg_digest := x\<rparr>) r = hardPromptCapacity b r"
  by (simp add: hardPromptCapacity_def)

lemma hardPromptCapacity_room:
  assumes "0 < hardPromptCapacity b r"
  shows "0 < tk_tokens (ml_input (bg_limits b)) \<Longrightarrow> hardPromptCapacity b r \<le> tk_tokens (ml_input (bg_limits b))"
    and "0 < tk_tokens (ml_context (bg_limits b)) \<Longrightarrow> hardPromptCapacity b r + r \<le> tk_tokens (ml_context (bg_limits b))"
    and "0 < bg_observed b \<Longrightarrow> hardPromptCapacity b r + r \<le> bg_observed b"
proof -
  define c0 where "c0 = tk_tokens (ml_context (bg_limits b))"
  define c where "c = (if bg_observed b > 0 \<and> (c0 \<le> 0 \<or> bg_observed b < c0) then bg_observed b else c0)"
  have c: "0 < bg_observed b \<Longrightarrow> 0 < c \<and> c \<le> bg_observed b" "0 < c0 \<Longrightarrow> 0 < c \<and> c \<le> c0"
    by (auto simp: c_def)
  have eq: "hardPromptCapacity b r =
      (if c > 0 \<and> (tk_tokens (ml_input (bg_limits b)) \<le> 0 \<or> max 0 (c - r) < tk_tokens (ml_input (bg_limits b)))
       then max 0 (c - r) else tk_tokens (ml_input (bg_limits b)))"
    unfolding hardPromptCapacity_def Let_def c_def c0_def by (rule refl)
  have le: "0 < c \<Longrightarrow> hardPromptCapacity b r \<le> c - r" using assms eq by (auto split: if_splits simp: max_def)
  show "0 < tk_tokens (ml_input (bg_limits b)) \<Longrightarrow> hardPromptCapacity b r \<le> tk_tokens (ml_input (bg_limits b))"
    using eq by (simp split: if_splits)
  show "0 < tk_tokens (ml_context (bg_limits b)) \<Longrightarrow> hardPromptCapacity b r + r \<le> tk_tokens (ml_context (bg_limits b))"
    using le c(2) by (simp add: c0_def)
  show "0 < bg_observed b \<Longrightarrow> hardPromptCapacity b r + r \<le> bg_observed b" using le c(1) by simp
qed

text \<open>Combining limits, on their numbers.\<close>

definition limits_ok :: "model_limits \<Rightarrow> bool" where
  "limits_ok l \<longleftrightarrow> 0 \<le> tk_tokens (ml_context l) \<and> 0 \<le> tk_tokens (ml_input l) \<and> 0 \<le> tk_tokens (ml_output l)"

definition tightest :: "int \<Rightarrow> int \<Rightarrow> int" where
  "tightest x y = (if x = 0 then y else if y = 0 then x else min x y)"

lemma tightest_laws:
  "0 \<le> x \<Longrightarrow> 0 \<le> y \<Longrightarrow> 0 \<le> tightest x y"
  "tightest x y = tightest y x"
  "0 \<le> x \<Longrightarrow> 0 \<le> y \<Longrightarrow> 0 \<le> z \<Longrightarrow> tightest (tightest x y) z = tightest x (tightest y z)"
  "0 \<le> x \<Longrightarrow> 0 \<le> y \<Longrightarrow> 0 \<le> z \<Longrightarrow> tightest y (tightest x z) = tightest x (tightest y z)"
  by (auto simp: tightest_def)

lemma PromptCapacity_tightest: "limits_ok l \<Longrightarrow> PromptCapacity l = tightest (tk_tokens (ml_context l)) (tk_tokens (ml_input l))"
  by (auto simp: PromptCapacity_def Let_def tightest_def limits_ok_def)

lemma MostRestrictiveLimit_tokens:
  "0 \<le> tk_tokens x \<Longrightarrow> 0 \<le> tk_tokens y \<Longrightarrow>
     tk_tokens (MostRestrictiveLimit x y) = tightest (tk_tokens x) (tk_tokens y)"
  by (auto simp: MostRestrictiveLimit_def tightest_def)

section \<open>Samples\<close>

definition sample_marshal :: marshal where
  "sample_marshal = \<lparr>ma_message = map_option ms_content,
     ma_messages = (\<lambda>ms. Some (concat (map (\<lambda>m. case m of None \<Rightarrow> ''-'' | Some m \<Rightarrow> ms_content m) ms))),
     ma_tools = (\<lambda>ts. concat (map ti_name ts))\<rparr>"

definition sample_answer :: "string \<Rightarrow> int \<Rightarrow> message" where
  "sample_answer content tokens = (UserMessage content)\<lparr>ms_role := Assistant,
     ms_usage := Some \<lparr>us_prompt = 10, us_completion = tokens, us_total = 10 + tokens\<rparr>\<rparr>"

definition sample_limits :: "int \<Rightarrow> model_limits" where
  "sample_limits n = no_limits\<lparr>ml_context := NewTokenLimit n ''gateway_catalog''\<rparr>"

section \<open>Properties\<close>

text \<open>
  C24: the envelope of a request is within every limit that is known. The reserve for the
  next answer is not negative and not above the model's output limit. When the envelope is
  known, its capacity is positive, respects the input limit, the context limit and the limit
  learnt from rejected requests less the reserve, and the two water marks lie below it, each
  one increment under the other or at zero. When it is not known it is all zero. What a
  result may still add is never negative.
\<close>

theorem plan_bounds:
  assumes "plan ma ms tools b = (p, b')"
  shows "bg_plan b' = p \<and> 0 \<le> bp_output_reserve p \<and>
    (let l = bg_limits b in
     (0 < tk_tokens (ml_output l) \<longrightarrow> bp_output_reserve p \<le> tk_tokens (ml_output l)) \<and>
     (if bp_known p
      then 0 < bp_capacity p \<and> 0 \<le> bp_low p \<and> bp_low p \<le> bp_high p \<and> bp_high p \<le> bp_capacity p \<and> 0 \<le> bp_growth p \<and>
        bp_high p = max 0 (bp_capacity p - bp_growth p) \<and> bp_low p = max 0 (bp_high p - bp_growth p) \<and>
        (0 < tk_tokens (ml_input l) \<longrightarrow> bp_capacity p \<le> tk_tokens (ml_input l)) \<and>
        (0 < tk_tokens (ml_context l) \<longrightarrow> bp_capacity p + bp_output_reserve p \<le> tk_tokens (ml_context l)) \<and>
        (0 < bg_observed b \<longrightarrow> bp_capacity p + bp_output_reserve p \<le> bg_observed b)
      else bp_capacity p = 0 \<and> bp_high p = 0 \<and> bp_low p = 0)) \<and>
    0 \<le> fst (availableResultBytes b') \<and> snd (availableResultBytes b') = bp_known p"
proof -
  obtain n digest where p: "p = plan_of ma ms (b\<lparr>bg_digest := digest\<rparr>) n" "bg_plan b' = p"
    using plan_eq [OF assms] by auto
  let ?r = "observedOutputReserve ms (tk_tokens (ml_output (bg_limits b)))"
  note reserve = observedOutputReserve_bounds [where ms = ms and l = "tk_tokens (ml_output (bg_limits b))"]
  have fields: "bp_output_reserve p = ?r" "bp_known p = (0 < hardPromptCapacity b ?r)"
    "bp_known p \<Longrightarrow> bp_capacity p = hardPromptCapacity b ?r \<and> bp_growth p = observedGrowthReserve ma ms \<and>
       bp_high p = max 0 (bp_capacity p - bp_growth p) \<and> bp_low p = max 0 (bp_high p - bp_growth p)"
    "\<not> bp_known p \<Longrightarrow> bp_capacity p = 0 \<and> bp_high p = 0 \<and> bp_low p = 0"
    unfolding p(1) plan_of_def Let_def no_plan_def
    by (auto simp: hardPromptCapacity_digest simp del: max.absorb_iff1 split: if_splits)
  note room = hardPromptCapacity_room [where b = b and r = ?r]
  show ?thesis
  proof (cases "bp_known p")
    case True
    then show ?thesis
      using fields reserve room p(2) observedGrowthReserve_nonneg [of ma ms]
      by (simp add: Let_def availableResultBytes_def)
  next
    case False
    then show ?thesis using fields reserve p(2) by (simp add: Let_def availableResultBytes_def)
  qed
qed

theorem plan_bounds_witness:
  "let (p, b) = plan sample_marshal [Some (UserMessage ''hello''), Some (sample_answer ''hi'' 20)] [] (newContextBudget (sample_limits 100))
   in bp_known p \<and> bp_capacity p = 80 \<and> bp_high p = 60 \<and> bp_low p = 40 \<and> bg_plan b = p"
proof -
  let ?run = "plan sample_marshal [Some (UserMessage ''hello''), Some (sample_answer ''hi'' 20)] [] (newContextBudget (sample_limits 100))"
  obtain p b where run: "?run = (p, b)" by fastforce
  have "bp_known (fst ?run)" "bp_capacity (fst ?run) = 80" "bp_high (fst ?run) = 60" "bp_low (fst ?run) = 40" by code_simp+
  then show ?thesis using plan_bounds [OF run] run by simp
qed

text \<open>
  Estimates are calibrated on the safe side. For every answer of a conversation whose
  provider reported what it cost, the estimate of its visible form is at least that cost,
  whatever the other answers were like; so a message is never estimated below the rate its
  own model charged.
\<close>

theorem estimate_covers_usage:
  assumes "m \<in> set ms" and "usage_of m = Some u"
    and "ma_message ma (messageForCounting m) = Some visible" and "visible \<noteq> []"
  shows "us_completion u \<le> estimateJSONTokens ma (messageForCounting m)
    (fst (observedBytesPerToken ma ms)) (snd (observedBytesPerToken ma ms))"
proof (cases "0 < us_completion u")
  case True
  have "answered ma m (length visible) (us_completion u)" using assms(2-4) True by (auto simp: answered_def)
  note covered = observe_ratio_fold(3) [OF start_ratio assms(1) this]
  have "0 < fst (observedBytesPerToken ma ms)" "0 < snd (observedBytesPerToken ma ms)"
    using observedBytesPerToken_ok by (simp_all add: ratio_ok_def)
  from estimateByteTokens_covers [OF this] covered show ?thesis
    using assms(3) by (simp add: estimateJSONTokens_def observedBytesPerToken_def)
next
  case False
  then show ?thesis
    using estimateJSONTokens_nonneg [of ma "messageForCounting m"] by (meson not_less order.trans)
qed

theorem estimate_covers_usage_witness:
  "20 \<le> estimateJSONTokens sample_marshal (messageForCounting (Some (sample_answer ''hi'' 20)))
    (fst (observedBytesPerToken sample_marshal [Some (sample_answer ''hello'' 3), Some (sample_answer ''hi'' 20)]))
    (snd (observedBytesPerToken sample_marshal [Some (sample_answer ''hello'' 3), Some (sample_answer ''hi'' 20)]))"
  using estimate_covers_usage [of "Some (sample_answer ''hi'' 20)" "[Some (sample_answer ''hello'' 3), Some (sample_answer ''hi'' 20)]"
      "\<lparr>us_prompt = 10, us_completion = 20, us_total = 30\<rparr>" sample_marshal "''hi''"]
  by (simp add: usage_of_def sample_answer_def sample_marshal_def messageForCounting_def UserMessage_def)

text \<open>
  What is learnt from a rejected request only tightens the budget. The published limits
  stay; the learnt limit never grows, and is at most the ceiling the provider named, or less
  than the estimate of the rejected request; with any reserve, a capacity that was known
  does not grow.
\<close>

theorem observeOverflow_tightens:
  assumes "b' = observeOverflow ma ms tools limit b"
    and "bound = (if limit \<le> 0 then fst (count ma ms tools b) - 1 else limit)"
  shows "bg_limits b' = bg_limits b \<and>
    (0 < bound \<longrightarrow> 0 \<le> bg_observed b \<longrightarrow> 0 < bg_observed b' \<and> bg_observed b' \<le> bound) \<and>
    (0 < bg_observed b \<longrightarrow> 0 < bg_observed b' \<and> bg_observed b' \<le> bg_observed b) \<and>
    (0 < hardPromptCapacity b r \<longrightarrow> hardPromptCapacity b' r \<le> hardPromptCapacity b r)"
proof -
  have eq: "\<exists>digest. b' = (if bound \<le> 0 then b\<lparr>bg_digest := digest\<rparr>
      else if bg_observed b = 0 \<or> bound < bg_observed b then b\<lparr>bg_digest := digest, bg_observed := bound\<rparr>
      else b\<lparr>bg_digest := digest\<rparr>)"
  proof (cases "limit \<le> 0")
    case True
    obtain n c where c: "count ma ms tools b = (n, c)" by fastforce
    obtain digest where "c = b\<lparr>bg_digest := digest\<rparr>" using count_frame [OF c] by blast
    then show ?thesis using assms True c by (intro exI [of _ digest]) (simp add: observeOverflow_def)
  next
    case False
    then show ?thesis using assms by (intro exI [of _ "bg_digest b"]) (simp add: observeOverflow_def)
  qed
  then obtain digest where "b' = (if bound \<le> 0 then b\<lparr>bg_digest := digest\<rparr>
      else if bg_observed b = 0 \<or> bound < bg_observed b then b\<lparr>bg_digest := digest, bg_observed := bound\<rparr>
      else b\<lparr>bg_digest := digest\<rparr>)" by blast
  then show ?thesis by (auto simp: hardPromptCapacity_def Let_def max_def)
qed

theorem observeOverflow_tightens_witness:
  "bg_observed (observeOverflow sample_marshal [Some (UserMessage ''hello'')] [] 0 (newContextBudget no_limits)) \<le> 4"
proof -
  let ?b = "newContextBudget no_limits"
  have "fst (count sample_marshal [Some (UserMessage ''hello'')] [] ?b) - 1 = 4" by code_simp
  then show ?thesis
    using observeOverflow_tightens [OF refl refl, of sample_marshal "[Some (UserMessage ''hello'')]" "[]" 0 ?b]
    by (simp add: newContextBudget_def)
qed

text \<open>
  Limits from several sources combine to the tightest. In every dimension the combined
  limit is known exactly when one of the two is, and is then the smaller of those known; the
  order of combination does not matter for it; and the prompt capacity of the combination is
  within that of each source that has one.
\<close>

theorem MergeModelLimits_tightest:
  assumes "limits_ok a" and "limits_ok b"
  shows "tk_tokens (ml_context (MergeModelLimits a b)) = tightest (tk_tokens (ml_context a)) (tk_tokens (ml_context b)) \<and>
    tk_tokens (ml_input (MergeModelLimits a b)) = tightest (tk_tokens (ml_input a)) (tk_tokens (ml_input b)) \<and>
    tk_tokens (ml_output (MergeModelLimits a b)) = tightest (tk_tokens (ml_output a)) (tk_tokens (ml_output b)) \<and>
    PromptCapacity (MergeModelLimits a b) = tightest (PromptCapacity a) (PromptCapacity b) \<and>
    PromptCapacity (MergeModelLimits a b) = PromptCapacity (MergeModelLimits b a)"
proof -
  have merged: "limits_ok (MergeModelLimits a b)" "limits_ok (MergeModelLimits b a)"
    using assms by (simp_all add: MergeModelLimits_def MostRestrictiveLimit_tokens limits_ok_def tightest_laws)
  show ?thesis
    unfolding PromptCapacity_tightest [OF merged(1)] PromptCapacity_tightest [OF merged(2)]
      PromptCapacity_tightest [OF assms(1)] PromptCapacity_tightest [OF assms(2)]
    using assms by (simp add: MergeModelLimits_def MostRestrictiveLimit_tokens limits_ok_def tightest_laws)
qed

theorem MergeModelLimits_tightest_witness:
  "PromptCapacity (MergeModelLimits (sample_limits 100) (sample_limits 80)) = 80"
proof -
  have "limits_ok (sample_limits 100)" "limits_ok (sample_limits 80)" by code_simp+
  from MergeModelLimits_tightest [OF this]
  have "PromptCapacity (MergeModelLimits (sample_limits 100) (sample_limits 80)) =
    tightest (PromptCapacity (sample_limits 100)) (PromptCapacity (sample_limits 80))" by (elim conjE)
  also have "\<dots> = 80" by code_simp
  finally show ?thesis .
qed

text \<open>
  The largest answer so far can use up the whole context limit: then the envelope is
  reported as not known although the model's limit is.
\<close>

lemma exhausted_capacity_unknown:
  "bp_known (fst (plan sample_marshal [Some (sample_answer ''hi'' 100)] [] (newContextBudget (sample_limits 100)))) = False \<and>
   tk_tokens (ml_context (bg_limits (newContextBudget (sample_limits 100)))) = 100"
  by code_simp

end
