(* ===== verification/Failure.thy ===== *)
theory Failure
  imports Prelude
begin

text \<open>
  How an error of a model request becomes evidence (internal/provider/failure.go) and what
  the HTTP response adds to it (the tracker and \<open>Retry-After\<close> of internal/provider/cache.go).
  The regular expressions are modelled by patterns with a matcher.
\<close>

section \<open>Patterns\<close>

datatype atom =
    Word string
  | Maybe string
  | Either "string list"
  | Number
  | Line

definition is_digit :: "char \<Rightarrow> bool" where
  "is_digit c \<longleftrightarrow> CHR ''0'' \<le> c \<and> c \<le> CHR ''9''"

text \<open>\<open>matches ps s\<close>: some prefix of \<open>s\<close> matches. \<open>Number\<close> is \<open>[0-9]+\<close>, \<open>Line\<close> is \<open>[^\n]*\<close>.\<close>

fun matches :: "atom list \<Rightarrow> string \<Rightarrow> bool" where
  "matches [] s = True"
| "matches (Word w # ps) s = (prefix w s \<and> matches ps (drop (length w) s))"
| "matches (Maybe w # ps) s = (prefix w s \<and> matches ps (drop (length w) s) \<or> matches ps s)"
| "matches (Either ws # ps) s = list_ex (\<lambda>w. prefix w s \<and> matches ps (drop (length w) s)) ws"
| "matches (Number # ps) [] = False"
| "matches (Number # ps) (c # s) = (is_digit c \<and> (matches ps s \<or> matches (Number # ps) s))"
| "matches (Line # ps) [] = matches ps []"
| "matches (Line # ps) (c # s) = (matches ps (c # s) \<or> c \<noteq> CHR 0x0A \<and> matches (Line # ps) s)"

fun found :: "atom list \<Rightarrow> string \<Rightarrow> bool" where
  "found ps [] = matches ps []"
| "found ps (c # s) = (matches ps (c # s) \<or> found ps s)"

definition contains :: "string \<Rightarrow> string \<Rightarrow> bool" where
  "contains s w \<longleftrightarrow> found [Word w] s"

definition contextOverflowPattern :: "atom list list" where
  "contextOverflowPattern =
     [[Word ''prompt is too long''],
      [Word ''input is too long for '', Maybe ''the '', Word ''requested model''],
      [Word ''exceeds '', Maybe ''the '', Word ''context window''],
      [Word ''input token count'', Line, Word ''exceeds '', Maybe ''the '', Word ''maximum''],
      [Word ''maximum prompt length is '', Number],
      [Word ''reduce the length of '', Maybe ''the '', Word ''messages''],
      [Word ''maximum context length is '', Number, Word '' tokens''],
      [Word ''exceeds the '', Maybe ''available '', Word ''context '', Either [''size'', ''length'']],
      [Word ''greater than the context length''],
      [Word ''context window exceeds limit''],
      [Word ''exceeded model token limit''],
      [Word ''context'', Either [''_'', '' ''], Word ''length'', Either [''_'', '' ''], Word ''exceeded''],
      [Word ''context length is only '', Number, Word '' tokens''],
      [Word ''input length'', Line, Word ''exceeds'', Line, Word ''context length''],
      [Word ''prompt too long; exceeded '', Maybe ''max '', Word ''context length''],
      [Word ''too large for model with '', Number, Word '' maximum context length''],
      [Word ''model_context_window_exceeded'']]"

text \<open>What stands before and after the number that is read.\<close>

definition contextLimitPatterns :: "(string \<times> string) list" where
  "contextLimitPatterns =
     [(''maximum context length is '', '' tokens''),
      (''context length is only '', '' tokens''),
      (''model with '', '' maximum context length''),
      (''maximum prompt length is '', [])]"

text \<open>The digits of the leftmost match; the digits are greedy.\<close>

definition number_at :: "string \<Rightarrow> string \<Rightarrow> string \<Rightarrow> string option" where
  "number_at before after s =
     (let rest = drop (length before) s; ds = takeWhile is_digit rest
      in if prefix before s \<and> ds \<noteq> [] \<and> prefix after (dropWhile is_digit rest) then Some ds else None)"

fun find_number :: "string \<Rightarrow> string \<Rightarrow> string \<Rightarrow> string option" where
  "find_number before after [] = number_at before after []"
| "find_number before after (c # s) =
     (case number_at before after (c # s) of Some ds \<Rightarrow> Some ds | None \<Rightarrow> find_number before after s)"

text \<open>\<open>strconv.Atoi\<close> on digits: a number above the range is an error.\<close>

definition atoi :: "string \<Rightarrow> int option" where
  "atoi ds = (if in_int64 (int (digits_val ds)) then Some (int (digits_val ds)) else None)"

fun first_limit :: "(string \<times> string) list \<Rightarrow> string \<Rightarrow> int" where
  "first_limit [] message = 0"
| "first_limit ((before, after) # ps) message =
     (case find_number before after message of
        None \<Rightarrow> first_limit ps message
      | Some ds \<Rightarrow>
          (case atoi ds of
             None \<Rightarrow> first_limit ps message
           | Some v \<Rightarrow> if v > 0 then v else first_limit ps message))"

definition contextLimitFromMessage :: "string \<Rightarrow> int" where
  "contextLimitFromMessage message = first_limit contextLimitPatterns message"

section \<open>Failures\<close>

datatype failure_kind = ContextOverflow | RequestTooLarge | RateLimited | Transient | Permanent

record failure =
  fa_kind :: failure_kind
  fa_context_limit :: int
  fa_retry_after :: int

text \<open>
  An error with what \<open>errors.As\<close> and \<open>errors.Is\<close> find in its chain: a failure recorded
  before, the end of the context, the status, code and message of an API error, a temporary
  network error.
\<close>

record model_error =
  er_text :: string
  er_failure :: "failure option"
  er_context :: bool
  er_api :: "(int \<times> string \<times> string) option"
  er_network :: bool

definition FailureDetails :: "model_error \<Rightarrow> failure option" where
  "FailureDetails err = er_failure err"

definition failed :: "failure_kind \<Rightarrow> int \<Rightarrow> int \<Rightarrow> model_error \<Rightarrow> model_error" where
  "failed kind limit retryAfter err =
     err\<lparr>er_failure := Some \<lparr>fa_kind = kind, fa_context_limit = limit, fa_retry_after = retryAfter\<rparr>\<rparr>"

definition combined_text :: "model_error \<Rightarrow> string \<times> string" where
  "combined_text err =
     (let code = (case er_api err of None \<Rightarrow> [] | Some (_, c, _) \<Rightarrow> to_lower (trim c));
          message = (case er_api err of None \<Rightarrow> er_text err | Some (_, _, m) \<Rightarrow> trim m)
      in (code, to_lower (join '' '' [code, message, er_text err])))"

definition normalizeFailureWithHint :: "model_error \<Rightarrow> int \<Rightarrow> int \<Rightarrow> model_error" where
  "normalizeFailureWithHint err observedStatus retryAfter =
     (if er_failure err \<noteq> None \<or> er_context err then err
      else let status0 = (case er_api err of None \<Rightarrow> 0 | Some (s, _, _) \<Rightarrow> s);
               status = (if status0 = 0 then observedStatus else status0);
               (code, combined) = combined_text err
           in if list_ex (\<lambda>ps. found ps combined) contextOverflowPattern
              then failed ContextOverflow (contextLimitFromMessage combined) 0 err
              else if status = 413 \<or> contains combined ''request entity too large'' \<or> contains combined ''payload too large''
              then failed RequestTooLarge 0 0 err
              else if status = 429 \<or> contains code ''rate_limit'' \<or> contains combined ''too many requests''
              then failed RateLimited 0 retryAfter err
              else if status \<in> set [408, 425, 500, 502, 503, 504] then failed Transient 0 retryAfter err
              else if er_network err then failed Transient 0 0 err
              else failed Permanent 0 0 err)"

definition NormalizeFailure :: "model_error \<Rightarrow> model_error" where
  "NormalizeFailure err = normalizeFailureWithHint err 0 0"

section \<open>What the response adds\<close>

text \<open>\<open>int64\<close> wraps around: a duration is nanoseconds.\<close>

definition wrap64 :: "int \<Rightarrow> int" where
  "wrap64 n = (n + 2 ^ 63) mod 2 ^ 64 - 2 ^ 63"

text \<open>
  \<open>strconv.ParseInt\<close>: an optional sign and digits. \<open>http.ParseTime\<close> and the clock are
  arguments.
\<close>

definition parse_int :: "string \<Rightarrow> int option" where
  "parse_int s =
     (let (neg, ds) = (case s of c # t \<Rightarrow> if c = CHR ''-'' then (True, t) else if c = CHR ''+'' then (False, t) else (False, s)
                       | [] \<Rightarrow> (False, []));
          v = (if neg then - int (digits_val ds) else int (digits_val ds))
      in if ds \<noteq> [] \<and> list_all is_digit ds \<and> in_int64 v then Some v else None)"

definition parseRetryAfter :: "(string \<Rightarrow> int option) \<Rightarrow> int \<Rightarrow> string \<Rightarrow> string \<Rightarrow> int" where
  "parseRetryAfter parse_time clock retry_after date =
     (let raw = trim retry_after in
      if raw = [] then 0
      else case parse_int raw of
        Some seconds \<Rightarrow> if seconds \<ge> 0 then wrap64 (seconds * 1000000000) else
          (case parse_time raw of None \<Rightarrow> 0 | Some t \<Rightarrow>
             (let base = (case parse_time date of Some d \<Rightarrow> d | None \<Rightarrow> clock) in if t > base then t - base else 0))
      | None \<Rightarrow>
          (case parse_time raw of None \<Rightarrow> 0 | Some t \<Rightarrow>
             (let base = (case parse_time date of Some d \<Rightarrow> d | None \<Rightarrow> clock) in if t > base then t - base else 0)))"

record cache_usage =
  cu_reported :: bool
  cu_read :: int
  cu_write :: int
  cu_miss :: int

record tracker =
  tr_usage :: cache_usage
  tr_status :: int
  tr_retry_after :: int

definition merge_usage :: "cache_usage \<Rightarrow> cache_usage \<Rightarrow> cache_usage" where
  "merge_usage u v =
     (if \<not> cu_reported v then u
      else \<lparr>cu_reported = True, cu_read = max (cu_read u) (cu_read v), cu_write = max (cu_write u) (cu_write v),
            cu_miss = max (cu_miss u) (cu_miss v)\<rparr>)"

definition tracker_merge :: "cache_usage \<Rightarrow> tracker \<Rightarrow> tracker" where
  "tracker_merge v t = t\<lparr>tr_usage := merge_usage (tr_usage t) v\<rparr>"

definition observeResponse :: "int \<Rightarrow> int \<Rightarrow> tracker \<Rightarrow> tracker" where
  "observeResponse status retryAfter t = t\<lparr>tr_status := status, tr_retry_after := retryAfter\<rparr>"

definition tracker_normalize :: "tracker \<Rightarrow> model_error \<Rightarrow> model_error" where
  "tracker_normalize t err = normalizeFailureWithHint err (tr_status t) (tr_retry_after t)"

text \<open>Counters of a response, in the order of preference; the first that is there counts.\<close>

record cache_fields =
  cf_read :: "int option list"
  cf_write :: "int option list"
  cf_miss :: "int option list"

fun firstObservedInt :: "int option list \<Rightarrow> int \<times> bool" where
  "firstObservedInt [] = (0, False)"
| "firstObservedInt (None # vs) = firstObservedInt vs"
| "firstObservedInt (Some v # vs) = (max 0 v, True)"

definition normalized_fields :: "cache_fields \<Rightarrow> cache_usage" where
  "normalized_fields u =
     (case (firstObservedInt (cf_read u), firstObservedInt (cf_write u), firstObservedInt (cf_miss u)) of
        ((r, pr), (w, pw), (m, pm)) \<Rightarrow> \<lparr>cu_reported = pr \<or> pw \<or> pm, cu_read = r, cu_write = w, cu_miss = m\<rparr>)"

definition normalized_envelope :: "cache_fields \<Rightarrow> cache_fields \<Rightarrow> cache_usage" where
  "normalized_envelope usage nested = merge_usage (normalized_fields usage) (normalized_fields nested)"

section \<open>Lemmas\<close>

lemma contains_Nil [simp]: "contains s [] = True"
  by (cases s) (simp_all add: contains_def)

lemma contains_iff: "contains s w \<longleftrightarrow> (\<exists>xs ys. s = xs @ w @ ys)"
proof -
  have "found [Word w] s \<longleftrightarrow> (\<exists>xs ys. s = xs @ w @ ys)"
  proof (induction s)
    case Nil
    then show ?case by auto
  next
    case (Cons c s)
    have "(\<exists>xs ys. c # s = xs @ w @ ys) \<longleftrightarrow> prefix w (c # s) \<or> (\<exists>xs ys. s = xs @ w @ ys)"
    proof
      assume "\<exists>xs ys. c # s = xs @ w @ ys"
      then obtain xs ys where "c # s = xs @ w @ ys" by blast
      then show "prefix w (c # s) \<or> (\<exists>xs ys. s = xs @ w @ ys)" by (cases xs) (auto simp: prefix_def)
    next
      assume "prefix w (c # s) \<or> (\<exists>xs ys. s = xs @ w @ ys)"
      then show "\<exists>xs ys. c # s = xs @ w @ ys"
        by (metis append_Cons append_Nil prefix_def)
    qed
    then show ?case using Cons by simp
  qed
  then show ?thesis by (simp add: contains_def)
qed

lemma first_limit_nonneg: "0 \<le> first_limit ps m \<and> first_limit ps m < 2 ^ 63"
  by (induction ps) (auto simp: atoi_def in_int64_def split: option.splits)

lemma wrap64_range: "in_int64 (wrap64 n)"
  by (simp add: wrap64_def in_int64_def)

lemma wrap64_id: "in_int64 n \<Longrightarrow> wrap64 n = n"
  by (simp add: wrap64_def in_int64_def)

definition failure_of :: "model_error \<Rightarrow> int \<Rightarrow> int \<Rightarrow> failure" where
  "failure_of err status retryAfter = the (er_failure (normalizeFailureWithHint err status retryAfter))"

definition sample_error :: "string \<Rightarrow> (int \<times> string \<times> string) option \<Rightarrow> model_error" where
  "sample_error s api = \<lparr>er_text = s, er_failure = None, er_context = False, er_api = api, er_network = False\<rparr>"

section \<open>Properties\<close>

text \<open>
  Every error of a model request is classified once and conservatively. An error that is
  classified already, or that only says that the context ended, is returned as it is, so
  classifying twice changes nothing. Any other error becomes a failure that keeps its text;
  a context limit, positive and in range, is only reported with an overflow, and a delay
  only where the request may be repeated.
\<close>

theorem normalizeFailure_contract:
  assumes "err' = normalizeFailureWithHint err status retryAfter"
  shows "er_text err' = er_text err \<and> normalizeFailureWithHint err' status' retryAfter' = err' \<and>
    (er_context err \<longrightarrow> err' = err) \<and>
    (if er_failure err \<noteq> None \<or> er_context err then err' = err
     else \<exists>f. FailureDetails err' = Some f \<and>
       (fa_kind f = ContextOverflow \<longleftrightarrow> list_ex (\<lambda>ps. found ps (snd (combined_text err))) contextOverflowPattern) \<and>
       0 \<le> fa_context_limit f \<and> fa_context_limit f < 2 ^ 63 \<and>
       (fa_context_limit f \<noteq> 0 \<longrightarrow> fa_kind f = ContextOverflow) \<and>
       (fa_retry_after f \<noteq> 0 \<longrightarrow> fa_kind f \<in> {RateLimited, Transient} \<and> fa_retry_after f = retryAfter))"
proof (cases "er_failure err \<noteq> None \<or> er_context err")
  case True
  then show ?thesis using assms by (auto simp: normalizeFailureWithHint_def)
next
  case False
  have range: "0 \<le> contextLimitFromMessage m \<and> contextLimitFromMessage m < 2 ^ 63" for m
    by (simp only: contextLimitFromMessage_def first_limit_nonneg)
  define ov where "ov = list_ex (\<lambda>ps. found ps (snd (combined_text err))) contextOverflowPattern"
  obtain k l r where err': "err' = failed k l r err" "k = ContextOverflow \<longleftrightarrow> ov"
    "l = 0 \<or> k = ContextOverflow \<and> (\<exists>m. l = contextLimitFromMessage m)"
    "r = 0 \<or> k \<in> {RateLimited, Transient} \<and> r = retryAfter"
  proof -
    obtain code combined where ct: "combined_text err = (code, combined)" by fastforce
    have "\<exists>b1 b2 b3 b4. err' =
      (if list_ex (\<lambda>ps. found ps combined) contextOverflowPattern then failed ContextOverflow (contextLimitFromMessage combined) 0 err
       else if b1 then failed RequestTooLarge 0 0 err else if b2 then failed RateLimited 0 retryAfter err
       else if b3 then failed Transient 0 retryAfter err else if b4 then failed Transient 0 0 err
       else failed Permanent 0 0 err)"
      unfolding assms normalizeFailureWithHint_def if_not_P [OF False] Let_def ct prod.case
      by (intro exI, rule refl)
    then obtain b1 b2 b3 b4 where eq: "err' =
      (if ov then failed ContextOverflow (contextLimitFromMessage combined) 0 err
       else if b1 then failed RequestTooLarge 0 0 err else if b2 then failed RateLimited 0 retryAfter err
       else if b3 then failed Transient 0 retryAfter err else if b4 then failed Transient 0 0 err
       else failed Permanent 0 0 err)"
      unfolding ov_def ct snd_conv by blast
    show ?thesis
    proof (cases ov)
      case True
      then show ?thesis using eq by (intro that [of ContextOverflow "contextLimitFromMessage combined" 0]) auto
    next
      case False
      then have "\<exists>k r. err' = failed k 0 r err \<and> k \<noteq> ContextOverflow \<and> (r = 0 \<or> k \<in> {RateLimited, Transient} \<and> r = retryAfter)"
        using eq by (cases b1; cases b2; cases b3; cases b4) auto
      then show ?thesis using False that by metis
    qed
  qed
  have same: "normalizeFailureWithHint err' status' retryAfter' = err'"
    by (simp add: err'(1) failed_def normalizeFailureWithHint_def)
  have limit: "0 \<le> l" "l < 2 ^ 63" using err'(3) range by auto
  have parts: "FailureDetails err' = Some \<lparr>fa_kind = k, fa_context_limit = l, fa_retry_after = r\<rparr>" "er_text err' = er_text err"
    by (simp_all add: err'(1) failed_def FailureDetails_def)
  have "\<not> er_context err" using False by simp
  moreover have "l \<noteq> 0 \<longrightarrow> k = ContextOverflow" "r \<noteq> 0 \<longrightarrow> k \<in> {RateLimited, Transient} \<and> r = retryAfter"
    using err'(3,4) by blast+
  ultimately show ?thesis
    unfolding ov_def [symmetric] if_not_P [OF False]
    by (intro conjI exI [of _ "\<lparr>fa_kind = k, fa_context_limit = l, fa_retry_after = r\<rparr>"])
      (simp_all only: parts same limit err'(2) failure.simps simp_thms)
qed

theorem normalizeFailure_contract_witness:
  "FailureDetails (normalizeFailureWithHint (sample_error ''maximum context length is 8192 tokens'' None) 400 5) =
     Some \<lparr>fa_kind = ContextOverflow, fa_context_limit = 8192, fa_retry_after = 0\<rparr> \<and>
   er_text (normalizeFailureWithHint (sample_error ''maximum context length is 8192 tokens'' None) 400 5) =
     ''maximum context length is 8192 tokens''"
proof -
  have "FailureDetails (normalizeFailureWithHint (sample_error ''maximum context length is 8192 tokens'' None) 400 5) =
     Some \<lparr>fa_kind = ContextOverflow, fa_context_limit = 8192, fa_retry_after = 0\<rparr>" by code_simp
  with normalizeFailure_contract [OF refl] show ?thesis by (simp add: sample_error_def)
qed

text \<open>
  A delay in seconds is converted to nanoseconds without a range check. Up to the 292
  years a duration can hold the result is exact; a longer one wraps around, to a negative or
  a short delay.
\<close>

theorem parseRetryAfter_seconds:
  assumes "parse_int (trim raw) = Some n" and "0 \<le> n"
  shows "parseRetryAfter parse_time clock raw date = wrap64 (n * 1000000000) \<and>
    in_int64 (parseRetryAfter parse_time clock raw date) \<and>
    (n * 1000000000 < 2 ^ 63 \<longrightarrow> parseRetryAfter parse_time clock raw date = n * 1000000000)"
proof -
  have "trim raw \<noteq> []" using assms(1) by (auto simp: parse_int_def)
  then have "parseRetryAfter parse_time clock raw date = wrap64 (n * 1000000000)"
    using assms by (simp add: parseRetryAfter_def)
  moreover have "n * 1000000000 < 2 ^ 63 \<longrightarrow> wrap64 (n * 1000000000) = n * 1000000000"
    using assms(2) by (intro impI wrap64_id) (simp add: in_int64_def)
  ultimately show ?thesis using wrap64_range by simp
qed

theorem parseRetryAfter_seconds_witness:
  "parseRetryAfter (\<lambda>s. None) 0 ''9223372037'' [] = - 9223372036709551616"
proof -
  have "trim ''9223372037'' = ''9223372037''" by (simp add: trim_plain plain_byte_def less_char_def)
  moreover have "parse_int ''9223372037'' = Some 9223372037"
    by (simp add: parse_int_def digits_val_def is_digit_def less_eq_char_def in_int64_def)
  ultimately have "parse_int (trim ''9223372037'') = Some 9223372037" by simp
  from parseRetryAfter_seconds [OF this] show ?thesis by (simp add: wrap64_def)
qed

end
