(* ===== verification/Registry.thy ===== *)
theory Registry
  imports Budget Failure Profile
begin

text \<open>
  The gateways a process knows and what it has learned of their models
  (internal/provider/provider.go), the public catalog that adds facts to a gateway's own
  (internal/provider/modelsdev.go) and the model wrapper that falls back to text when a
  route refuses images (internal/provider/image_fallback.go). What a gateway lists, the
  answers of a model and the HTTP response of the public catalog are arguments.
\<close>

section \<open>Gateways and their models\<close>

text \<open>\<open>NoState\<close> is the empty string of a capability that was not filled in.\<close>

datatype capability_state = NoState | Unknown | Supported | Unsupported

record capabilities =
  cap_structured :: capability_state
  cap_tools :: capability_state
  cap_image :: capability_state

datatype authentication = NoAuthentication | APIKey | DeviceOAuth | OtherAuthentication string

record gateway_route =
  ro_id :: string
  ro_label :: string
  ro_metadata :: string

record gateway_descriptor =
  de_id :: string
  de_name :: string
  de_credential :: string
  de_authentication :: authentication
  de_routes :: "gateway_route list"
  de_multi :: bool

record catalog_model =
  it_gateway :: string
  it_route :: string
  it_id :: string
  it_name :: string
  it_capabilities :: capabilities
  it_limits :: model_limits

text \<open>
  A gateway as the registry sees it: its descriptor, whether it implements
  \<open>DeviceAuthenticator\<close> and, when it implements \<open>CapabilitySource\<close>, what it says of a model.
\<close>

record gateway =
  gw_descriptor :: gateway_descriptor
  gw_device :: bool
  gw_capabilities :: "(model \<Rightarrow> capabilities) option"

definition unknown_capabilities :: capabilities where
  "unknown_capabilities = \<lparr>cap_structured = Unknown, cap_tools = Unknown, cap_image = Unknown\<rparr>"

definition no_capabilities :: capabilities where
  "no_capabilities = \<lparr>cap_structured = NoState, cap_tools = NoState, cap_image = NoState\<rparr>"

definition or_unknown :: "capability_state \<Rightarrow> capability_state" where
  "or_unknown c = (if c = NoState then Unknown else c)"

definition filled :: "capabilities \<Rightarrow> capabilities" where
  "filled c = \<lparr>cap_structured = or_unknown (cap_structured c), cap_tools = or_unknown (cap_tools c),
     cap_image = or_unknown (cap_image c)\<rparr>"

section \<open>The public catalog\<close>

record models_dev_model =
  md_id :: string
  md_name :: string
  md_tools :: "bool option"
  md_structured :: "bool option"
  md_context :: int
  md_input :: int
  md_output :: int
  md_modalities :: "string list option"

type_synonym models_dev_provider = "(string, models_dev_model) gomap"

text \<open>
  The document: its entries in order, with what \<open>encoding/json\<close> makes of the value as a
  provider, and whether it can skip it as an empty structure. \<open>doc_object\<close> and \<open>doc_closed\<close>
  say whether it opens with a brace and ends properly.
\<close>

record catalog_entry =
  en_key :: string
  en_provider :: "models_dev_provider option"
  en_skips :: bool

record catalog_document =
  doc_object :: bool
  doc_entries :: "catalog_entry list"
  doc_closed :: bool

record catalog_response =
  rs_status :: int
  rs_etag :: string
  rs_document :: catalog_document

record models_dev =
  dv_etag :: string
  dv_providers :: "(string, models_dev_provider) gomap"

datatype metadata_error =
    FetchFailed
  | FetchStatus int
  | NotAnObject
  | BadEntry string
  | NotClosed
  | CatalogsOmitted "string list"

fun decode_entries :: "string list \<Rightarrow> catalog_entry list \<Rightarrow> (string, models_dev_provider) gomap \<Rightarrow>
    (metadata_error, (string, models_dev_provider) gomap) res" where
  "decode_entries wanted [] result = Inr result"
| "decode_entries wanted (e # es) result =
     (if en_key e \<notin> set wanted
      then (if en_skips e then decode_entries wanted es result else Inl (BadEntry (en_key e)))
      else (case en_provider e of
              None \<Rightarrow> Inl (BadEntry (en_key e))
            | Some p \<Rightarrow> decode_entries wanted es (AList.update (en_key e) p result)))"

definition decodeModelsDevProviders :: "catalog_document \<Rightarrow> string list \<Rightarrow>
    (metadata_error, (string, models_dev_provider) gomap) res" where
  "decodeModelsDevProviders doc wanted =
     (if \<not> doc_object doc then Inl NotAnObject
      else res_bind (decode_entries wanted (doc_entries doc) []) (\<lambda>result.
        if \<not> doc_closed doc then Inl NotClosed
        else let missing = sort (filter (\<lambda>k. map_of result k = None) wanted)
             in if missing \<noteq> [] then Inl (CatalogsOmitted missing) else Inr result))"

text \<open>A key that is not there has an empty provider.\<close>

definition copyRequestedProviders :: "(string, models_dev_provider) gomap \<Rightarrow> string list \<Rightarrow>
    (string, models_dev_provider) gomap" where
  "copyRequestedProviders source wanted =
     map (\<lambda>k. (k, case map_of source k of Some p \<Rightarrow> p | None \<Rightarrow> [])) wanted"

text \<open>
  The server is asked with the validator the request carries (empty for none). \<open>wanted\<close> is the
  key set of a map: no key twice.
\<close>

definition catalogs_cached :: "models_dev \<Rightarrow> string list \<Rightarrow> bool" where
  "catalogs_cached src wanted \<longleftrightarrow> list_all (\<lambda>k. map_of (dv_providers src) k \<noteq> None) wanted"

definition request_validator :: "models_dev \<Rightarrow> string list \<Rightarrow> string" where
  "request_validator src wanted = (if catalogs_cached src wanted \<and> dv_etag src \<noteq> [] then dv_etag src else [])"

definition load_catalogs :: "(string \<Rightarrow> catalog_response option) \<Rightarrow> models_dev \<Rightarrow> string list \<Rightarrow>
    (metadata_error, (string, models_dev_provider) gomap) res \<times> models_dev" where
  "load_catalogs fetch src wanted =
     (let cached = catalogs_cached src wanted;
          fall_back = (\<lambda>e. (if cached then Inr (copyRequestedProviders (dv_providers src) wanted) else Inl e, src))
      in case fetch (request_validator src wanted) of
           None \<Rightarrow> fall_back FetchFailed
         | Some r \<Rightarrow>
             if rs_status r = 304 \<and> cached then (Inr (copyRequestedProviders (dv_providers src) wanted), src)
             else if rs_status r < 200 \<or> rs_status r \<ge> 300 then fall_back (FetchStatus (rs_status r))
             else (case decodeModelsDevProviders (rs_document r) wanted of
                 Inl e \<Rightarrow> fall_back e
               | Inr loaded \<Rightarrow>
                   let src1 = src\<lparr>dv_providers := fold (\<lambda>(k, v). AList.update k v) loaded (dv_providers src)\<rparr>;
                       etag = trim (rs_etag r);
                       src2 = (if etag \<noteq> [] then src1\<lparr>dv_etag := etag\<rparr> else src1)
                   in (Inr (copyRequestedProviders (dv_providers src2) wanted), src2)))"

definition capabilityFromBool :: "bool option \<Rightarrow> capability_state" where
  "capabilityFromBool v = (case v of None \<Rightarrow> Unknown | Some b \<Rightarrow> if b then Supported else Unsupported)"

definition unset :: "capability_state \<Rightarrow> bool" where
  "unset c \<longleftrightarrow> c = NoState \<or> c = Unknown"

definition image_modality :: "string list \<Rightarrow> capability_state" where
  "image_modality inputs = (if list_ex (\<lambda>m. equal_fold (trim m) ''image'') inputs then Supported else Unsupported)"

definition metadata_limits :: "string \<Rightarrow> models_dev_model \<Rightarrow> model_limits" where
  "metadata_limits catalog md =
     (let source = ''models.dev:'' @ catalog
      in \<lparr>ml_context = NewTokenLimit (md_context md) source, ml_input = NewTokenLimit (md_input md) source,
          ml_output = NewTokenLimit (md_output md) source\<rparr>)"

definition metadata_capabilities :: "models_dev_model \<Rightarrow> capabilities \<Rightarrow> capabilities" where
  "metadata_capabilities md c =
     \<lparr>cap_structured = (if unset (cap_structured c) then capabilityFromBool (md_structured md) else cap_structured c),
      cap_tools = (if unset (cap_tools c) then capabilityFromBool (md_tools md) else cap_tools c),
      cap_image = (case md_modalities md of
          None \<Rightarrow> cap_image c
        | Some inputs \<Rightarrow> if unset (cap_image c) then image_modality inputs else cap_image c)\<rparr>"

definition applyModelsDevMetadata :: "catalog_model \<Rightarrow> string \<Rightarrow> models_dev_model \<Rightarrow> catalog_model" where
  "applyModelsDevMetadata target catalog md =
     target\<lparr>it_name := (if it_name target = [] then trim (md_name md) else it_name target),
       it_capabilities := metadata_capabilities md (it_capabilities target),
       it_limits := MergeModelLimits (it_limits target) (metadata_limits catalog md)\<rparr>"

text \<open>The map from routes to catalogs; of two routes with the same identity the last counts.\<close>

definition route_catalogs :: "gateway_descriptor \<Rightarrow> (string, string) gomap" where
  "route_catalogs d = fold (\<lambda>r m. let catalog = trim (ro_metadata r)
       in if catalog = [] then m else AList.update (trim (ro_id r)) catalog m) (de_routes d) []"

definition wanted_catalogs :: "gateway_descriptor \<Rightarrow> string list" where
  "wanted_catalogs d = remdups (filter (\<lambda>c. c \<noteq> []) (map (\<lambda>r. trim (ro_metadata r)) (de_routes d)))"

definition enrich_model :: "(string, string) gomap \<Rightarrow> (string, models_dev_provider) gomap \<Rightarrow> catalog_model \<Rightarrow> catalog_model" where
  "enrich_model routes providers item =
     (let catalog = (case map_of routes (it_route item) of Some c \<Rightarrow> c | None \<Rightarrow> []);
          models = (case map_of providers catalog of Some p \<Rightarrow> p | None \<Rightarrow> [])
      in case map_of models (it_id item) of
           None \<Rightarrow> item
         | Some md \<Rightarrow> applyModelsDevMetadata item catalog md)"

definition Enrich :: "(string \<Rightarrow> catalog_response option) \<Rightarrow> models_dev \<Rightarrow> gateway_descriptor \<Rightarrow> catalog_model list \<Rightarrow>
    (metadata_error, catalog_model list) res \<times> models_dev" where
  "Enrich fetch src d models =
     (if models = [] \<or> wanted_catalogs d = [] then (Inr models, src)
      else case load_catalogs fetch src (wanted_catalogs d) of
        (Inl e, src') \<Rightarrow> (Inl e, src')
      | (Inr providers, src') \<Rightarrow> (Inr (map (enrich_model (route_catalogs d) providers) models), src'))"

section \<open>The registry\<close>

record gateway_registry =
  rg_gateways :: "(string, gateway) gomap"
  rg_capabilities :: "(string, capabilities) gomap"
  rg_limits :: "(string, model_limits) gomap"
  rg_metadata :: "models_dev option"
  rg_metadata_error :: "metadata_error option"

datatype registry_error =
    GatewayRequired
  | NameRequired
  | SingleModelCatalog string
  | CredentialRequired string
  | UnknownAuthentication string
  | DeviceNotImplemented string
  | BadRoute string
  | NoRoute string
  | AlreadyRegistered string
  | NotRegistered string
  | NoDeviceAuthentication string
  | ListFailed string string
  | UnknownReference string
  | CreateFailed string string
  | GatewayInvalid string registry_error
  | ModelAbsent string

definition NewRegistry :: "models_dev option \<Rightarrow> gateway_registry" where
  "NewRegistry metadata = \<lparr>rg_gateways = [], rg_capabilities = [], rg_limits = [], rg_metadata = metadata,
     rg_metadata_error = None\<rparr>"

definition gateway_key :: "string \<Rightarrow> string" where
  "gateway_key name = to_lower (trim name)"

definition normalizeDescriptor :: "gateway_descriptor \<Rightarrow> gateway_descriptor" where
  "normalizeDescriptor d = (if de_authentication d = NoAuthentication then d\<lparr>de_authentication := APIKey\<rparr> else d)"

fun routes_ok :: "string list \<Rightarrow> gateway_route list \<Rightarrow> bool" where
  "routes_ok seen [] = True"
| "routes_ok seen (r # rs) = (trim (ro_id r) \<noteq> [] \<and> trim (ro_id r) \<notin> set seen \<and> routes_ok (trim (ro_id r) # seen) rs)"

definition Register :: "gateway option \<Rightarrow> gateway_registry \<Rightarrow> (registry_error, gateway_registry) res" where
  "Register gateway rg =
     (case gateway of
        None \<Rightarrow> Inl GatewayRequired
      | Some gw \<Rightarrow>
          let d = normalizeDescriptor (gw_descriptor gw); key = gateway_key (de_id d)
          in if key = [] \<or> trim (de_name d) = [] then Inl NameRequired
             else if \<not> de_multi d then Inl (SingleModelCatalog key)
             else if trim (de_credential d) = [] then Inl (CredentialRequired key)
             else if de_authentication d \<noteq> APIKey \<and> de_authentication d \<noteq> DeviceOAuth then Inl (UnknownAuthentication key)
             else if de_authentication d = DeviceOAuth \<and> \<not> gw_device gw then Inl (DeviceNotImplemented key)
             else if \<not> routes_ok [] (de_routes d) then Inl (BadRoute key)
             else if de_routes d = [] then Inl (NoRoute key)
             else if map_of (rg_gateways rg) key \<noteq> None then Inl (AlreadyRegistered key)
             else Inr (rg\<lparr>rg_gateways := AList.update key gw (rg_gateways rg)\<rparr>))"

definition find_gateway :: "gateway_registry \<Rightarrow> string \<Rightarrow> (registry_error, gateway) res" where
  "find_gateway rg name =
     (case map_of (rg_gateways rg) (gateway_key name) of None \<Rightarrow> Inl (NotRegistered name) | Some gw \<Rightarrow> Inr gw)"

definition DeviceAuthenticator :: "gateway_registry \<Rightarrow> string \<Rightarrow> (registry_error, gateway) res" where
  "DeviceAuthenticator rg name =
     res_bind (find_gateway rg name) (\<lambda>gw. if gw_device gw then Inr gw else Inl (NoDeviceAuthentication name))"

definition Descriptor :: "gateway_registry \<Rightarrow> string \<Rightarrow> (registry_error, gateway_descriptor) res" where
  "Descriptor rg name = res_bind (find_gateway rg name) (\<lambda>gw. Inr (normalizeDescriptor (gw_descriptor gw)))"

definition Descriptors :: "gateway_registry \<Rightarrow> gateway_descriptor list" where
  "Descriptors rg = sort_key de_id (map (\<lambda>(_, gw). normalizeDescriptor (gw_descriptor gw)) (rg_gateways rg))"

definition CatalogIdentity :: "catalog_model \<Rightarrow> string" where
  "CatalogIdentity item =
     join [CHR 0x00] [to_lower (trim (it_gateway item)), to_lower (trim (it_route item)), trim (it_id item)]"

definition selectionIdentity :: "string \<Rightarrow> model \<Rightarrow> string" where
  "selectionIdentity gateway selected =
     join [CHR 0x00] [to_lower (trim gateway), to_lower (trim (m_route selected)), trim (m_name selected)]"

definition capabilities_of :: "gateway_registry \<Rightarrow> string \<Rightarrow> capabilities" where
  "capabilities_of rg identity =
     (case map_of (rg_capabilities rg) identity of Some c \<Rightarrow> c | None \<Rightarrow> no_capabilities)"

definition markImageUnsupported :: "string \<Rightarrow> model \<Rightarrow> gateway_registry \<Rightarrow> gateway_registry" where
  "markImageUnsupported gateway spec rg =
     (let identity = selectionIdentity (gateway_key gateway) spec; c = capabilities_of rg identity
      in rg\<lparr>rg_capabilities := AList.update identity
           \<lparr>cap_structured = or_unknown (cap_structured c), cap_tools = or_unknown (cap_tools c), cap_image = Unsupported\<rparr>
           (rg_capabilities rg)\<rparr>)"

text \<open>An entry that says nothing about images does not erase a refusal.\<close>

definition remember_model :: "catalog_model \<Rightarrow> gateway_registry \<Rightarrow> gateway_registry" where
  "remember_model item rg =
     (let identity = CatalogIdentity item; observed = capabilities_of rg identity; c = it_capabilities item;
          c' = (if unset (cap_image c) \<and> cap_image observed = Unsupported then c\<lparr>cap_image := Unsupported\<rparr> else c)
      in rg\<lparr>rg_capabilities := AList.update identity c' (rg_capabilities rg),
            rg_limits := AList.update identity (it_limits item) (rg_limits rg)\<rparr>)"

text \<open>
  \<open>listing\<close> is the answer of the gateway's \<open>ListModels\<close>, \<open>fetch\<close> the server of the public catalog.
\<close>

definition enrich_listing :: "(string \<Rightarrow> catalog_response option) \<Rightarrow> gateway \<Rightarrow> catalog_model list \<Rightarrow> gateway_registry \<Rightarrow>
    catalog_model list \<times> gateway_registry" where
  "enrich_listing fetch gw models rg =
     (case rg_metadata rg of
        None \<Rightarrow> (models, rg)
      | Some src \<Rightarrow>
          (case Enrich fetch src (normalizeDescriptor (gw_descriptor gw)) models of
             (Inl e, src') \<Rightarrow> (models, rg\<lparr>rg_metadata := Some src', rg_metadata_error := Some e\<rparr>)
           | (Inr enriched, src') \<Rightarrow> (enriched, rg\<lparr>rg_metadata := Some src', rg_metadata_error := None\<rparr>)))"

definition Catalog :: "(string \<Rightarrow> catalog_response option) \<Rightarrow> (string \<Rightarrow> (string, catalog_model list) res) \<Rightarrow> string \<Rightarrow> gateway_registry \<Rightarrow>
    (registry_error, catalog_model list) res \<times> gateway_registry" where
  "Catalog fetch listing name rg =
     (case find_gateway rg name of
        Inl e \<Rightarrow> (Inl e, rg)
      | Inr gw \<Rightarrow>
          (case listing (gateway_key name) of
             Inl e \<Rightarrow> (Inl (ListFailed name e), rg)
           | Inr listed \<Rightarrow>
               let (models, rg1) = enrich_listing fetch gw listed rg
               in (Inr models, fold remember_model models rg1)))"

definition Limits :: "gateway_registry \<Rightarrow> string \<Rightarrow> model \<Rightarrow> model_limits" where
  "Limits rg gateway spec =
     (case map_of (rg_limits rg) (selectionIdentity (gateway_key gateway) spec) of Some l \<Rightarrow> l | None \<Rightarrow> no_limits)"

definition Capabilities :: "gateway_registry \<Rightarrow> string \<Rightarrow> model \<Rightarrow> capabilities" where
  "Capabilities rg gateway spec =
     (case map_of (rg_capabilities rg) (selectionIdentity (gateway_key gateway) spec) of
        Some c \<Rightarrow> filled c
      | None \<Rightarrow>
          (case map_of (rg_gateways rg) (gateway_key gateway) of
             None \<Rightarrow> unknown_capabilities
           | Some gw \<Rightarrow> (case gw_capabilities gw of None \<Rightarrow> unknown_capabilities | Some source \<Rightarrow> filled (source spec))))"

text \<open>The code ranges over a map: which missing model it names is not determined. Here it is the first.\<close>

definition ValidateProfile :: "(string \<Rightarrow> catalog_response option) \<Rightarrow> (string \<Rightarrow> (string, catalog_model list) res) \<Rightarrow> profile \<Rightarrow> gateway_registry \<Rightarrow>
    (registry_error, unit) res \<times> gateway_registry" where
  "ValidateProfile fetch listing p rg =
     (case Catalog fetch listing (gateway_key (p_gateway p)) rg of
        (Inl e, rg') \<Rightarrow> (Inl (GatewayInvalid (p_gateway p) e), rg')
      | (Inr catalog, rg') \<Rightarrow>
          let available = map CatalogIdentity catalog
          in (case find (\<lambda>(_, selected). selectionIdentity (gateway_key (p_gateway p)) selected \<notin> set available) (p_models p) of
                Some (alias, _) \<Rightarrow> (Inl (ModelAbsent alias), rg')
              | None \<Rightarrow> (Inr (), rg')))"

section \<open>The model a turn gets\<close>

text \<open>
  A chat model: what it answers to its n-th request, whole or as a stream of chunks. The
  wrapper around it remembers the selection; the registry is shared state.
\<close>

record chat_model =
  ch_generate :: "nat \<Rightarrow> messages \<Rightarrow> (model_error, message) res"
  ch_stream :: "nat \<Rightarrow> messages \<Rightarrow> (model_error, (model_error, message) res list) res"

record aware_model =
  aw_base :: chat_model
  aw_gateway :: string
  aw_spec :: model

definition hasImageInput :: "messages \<Rightarrow> bool" where
  "hasImageInput ms \<longleftrightarrow> list_ex (\<lambda>m. case m of None \<Rightarrow> False
     | Some m \<Rightarrow> list_ex (\<lambda>p. ip_type p = PartImage \<and> ip_image p \<noteq> None) (ms_input m)) ms"

definition explicit_image_patterns :: "string list" where
  "explicit_image_patterns =
     [''only supports text input'',
      ''unsupported content type '' @ [CHR 0x27] @ ''image_url'' @ [CHR 0x27],
      ''unknown variant '' @ [CHR 0x60] @ ''image_url'' @ [CHR 0x60] @ '', expected '' @ [CHR 0x60] @ ''text'' @ [CHR 0x60],
      ''image input is not supported'',
      ''does not support image input'',
      ''no endpoints found that support image input'']"

definition isExplicitImageUnsupportedError :: "model_error \<Rightarrow> bool" where
  "isExplicitImageUnsupportedError err \<longleftrightarrow> list_ex (contains (to_lower (er_text err))) explicit_image_patterns"

definition isImageUnsupportedError :: "model_error \<Rightarrow> bool" where
  "isImageUnsupportedError err \<longleftrightarrow> list_ex (contains (to_lower (er_text err)))
     (explicit_image_patterns @ [''upstream request failed: [400] provider returned error''])"

definition strip_message :: "message \<Rightarrow> message" where
  "strip_message m =
     (if ms_input m = [] then m
      else let parts = filter (\<lambda>p. ip_type p \<noteq> PartImage) (ms_input m)
           in if list_all (\<lambda>p. ip_type p = PartText) parts
              then m\<lparr>ms_content := concat (map ip_text parts), ms_input := []\<rparr>
              else m\<lparr>ms_input := parts\<rparr>)"

definition stripImageInput :: "messages \<Rightarrow> messages" where
  "stripImageInput ms = map (map_option strip_message) ms"

text \<open>
  \<open>Generate\<close> and \<open>Stream\<close> are one text over different answers. The requests that were made
  are the last component of the result.
\<close>

definition aware_call :: "(nat \<Rightarrow> messages \<Rightarrow> (model_error, 'a) res) \<Rightarrow> aware_model \<Rightarrow> messages \<Rightarrow> nat \<Rightarrow> gateway_registry \<Rightarrow>
    (model_error, 'a) res \<times> gateway_registry \<times> messages list" where
  "aware_call call m input n rg =
     (case call n input of
        Inr answer \<Rightarrow> (Inr answer, rg, [input])
      | Inl err \<Rightarrow>
          if \<not> hasImageInput input \<or> \<not> isImageUnsupportedError err then (Inl err, rg, [input])
          else let fallback = call (Suc n) (stripImageInput input);
                   rg' = (if isl fallback \<and> \<not> isExplicitImageUnsupportedError err then rg
                          else markImageUnsupported (aw_gateway m) (aw_spec m) rg)
               in (fallback, rg', [input, stripImageInput input]))"

definition aware_Generate :: "aware_model \<Rightarrow> messages \<Rightarrow> nat \<Rightarrow> gateway_registry \<Rightarrow>
    (model_error, message) res \<times> gateway_registry \<times> messages list" where
  "aware_Generate m = aware_call (ch_generate (aw_base m)) m"

definition aware_Stream :: "aware_model \<Rightarrow> messages \<Rightarrow> nat \<Rightarrow> gateway_registry \<Rightarrow>
    (model_error, (model_error, message) res list) res \<times> gateway_registry \<times> messages list" where
  "aware_Stream m = aware_call (ch_stream (aw_base m)) m"

text \<open>
  \<open>bind\<close> is how the base model binds tools, when it can. \<open>normalizeModelFailures\<close> classifies
  whatever error comes out.
\<close>

definition aware_WithTools :: "(tool_info list \<Rightarrow> (model_error, chat_model) res) option \<Rightarrow> aware_model \<Rightarrow> tool_info list \<Rightarrow>
    (model_error option, aware_model) res" where
  "aware_WithTools bind m tools =
     (case bind of
        None \<Rightarrow> Inl None
      | Some b \<Rightarrow> (case b tools of Inl e \<Rightarrow> Inl (Some e) | Inr bound \<Rightarrow> Inr (m\<lparr>aw_base := bound\<rparr>)))"

definition normalized_Generate :: "aware_model \<Rightarrow> messages \<Rightarrow> nat \<Rightarrow> gateway_registry \<Rightarrow>
    (model_error, message) res \<times> gateway_registry \<times> messages list" where
  "normalized_Generate m input n rg =
     (case aware_Generate m input n rg of (r, rg', sent) \<Rightarrow> (map_sum NormalizeFailure id r, rg', sent))"

definition normalized_Stream :: "aware_model \<Rightarrow> messages \<Rightarrow> nat \<Rightarrow> gateway_registry \<Rightarrow>
    (model_error, (model_error, message) res list) res \<times> gateway_registry \<times> messages list" where
  "normalized_Stream m input n rg =
     (case aware_Stream m input n rg of (r, rg', sent) \<Rightarrow> (map_sum NormalizeFailure id r, rg', sent))"

definition normalized_WithTools :: "(tool_info list \<Rightarrow> (model_error, chat_model) res) option \<Rightarrow> aware_model \<Rightarrow> tool_info list \<Rightarrow>
    (model_error option, aware_model) res" where
  "normalized_WithTools bind m tools = map_sum (map_option NormalizeFailure) id (aware_WithTools bind m tools)"

definition Model :: "(string \<Rightarrow> model \<Rightarrow> (string, chat_model) res) \<Rightarrow> gateway_registry \<Rightarrow> profile \<Rightarrow> string \<Rightarrow>
    (registry_error, aware_model \<times> model) res" where
  "Model create rg p reference =
     (case map_of (p_models p) reference of
        None \<Rightarrow> Inl (UnknownReference reference)
      | Some spec \<Rightarrow>
          res_bind (find_gateway rg (p_gateway p)) (\<lambda>gw.
          (case create (gateway_key (p_gateway p)) spec of
             Inl e \<Rightarrow> Inl (CreateFailed (p_gateway p) (m_name spec))
           | Inr instance \<Rightarrow> Inr (\<lparr>aw_base = instance, aw_gateway = p_gateway p, aw_spec = spec\<rparr>, spec))))"

section \<open>Lemmas\<close>

lemma space_rune_bytes: "w \<in> set space_runes \<Longrightarrow> c \<in> set w \<Longrightarrow> \<not> (CHR ''A'' \<le> c \<and> c \<le> CHR ''Z'') \<and> \<not> (CHR ''a'' \<le> c \<and> c \<le> CHR ''z'')"
  by (auto simp: space_runes_def ascii_spaces_def wide_spaces_def less_eq_char_def)

definition lower :: "char \<Rightarrow> char" where
  "lower c = (if CHR ''A'' \<le> c \<and> c \<le> CHR ''Z'' then char_of (of_char c + (32::nat)) else c)"

lemma to_lower_lower: "to_lower s = map lower s"
  by (simp add: to_lower_def lower_def [abs_def])

lemma lower_letter: "CHR ''A'' \<le> c \<Longrightarrow> c \<le> CHR ''Z'' \<Longrightarrow> CHR ''a'' \<le> lower c \<and> lower c \<le> CHR ''z''"
  by (auto simp: lower_def less_eq_char_def)

lemma lower_idem [simp]: "lower (lower c) = lower c"
proof (cases "CHR ''A'' \<le> c \<and> c \<le> CHR ''Z''")
  case True
  then have "CHR ''a'' \<le> lower c" using lower_letter by blast
  then have "\<not> lower c \<le> CHR ''Z''" by (auto simp: less_eq_char_def)
  then show ?thesis by (simp add: lower_def [of "lower c"])
next
  case False
  then have "lower c = c" by (auto simp: lower_def)
  then show ?thesis by simp
qed

lemma lower_plain: "\<not> (CHR ''A'' \<le> d \<and> d \<le> CHR ''Z'') \<and> \<not> (CHR ''a'' \<le> d \<and> d \<le> CHR ''z'') \<Longrightarrow> lower c = d \<longleftrightarrow> c = d"
  using lower_letter [of c] by (auto simp: lower_def)

lemma prefix_lower: "(\<And>c. c \<in> set w \<Longrightarrow> \<not> (CHR ''A'' \<le> c \<and> c \<le> CHR ''Z'') \<and> \<not> (CHR ''a'' \<le> c \<and> c \<le> CHR ''z'')) \<Longrightarrow>
    prefix w (map lower s) \<longleftrightarrow> prefix w s"
proof (induction w arbitrary: s)
  case (Cons d w)
  show ?case
  proof (cases s)
    case (Cons c t)
    then show ?thesis using Cons.IH [of t] Cons.prems lower_plain [of d c] by auto
  qed simp
qed simp

lemma strip_lower:
  assumes "\<And>w c. w \<in> set ws \<Longrightarrow> c \<in> set w \<Longrightarrow> \<not> (CHR ''A'' \<le> c \<and> c \<le> CHR ''Z'') \<and> \<not> (CHR ''a'' \<le> c \<and> c \<le> CHR ''z'')"
  shows "strip ws (map lower s) = map lower (strip ws s)"
  using assms
proof (induction ws s rule: strip.induct)
  case (1 ws s)
  have eq: "find (\<lambda>w. w \<noteq> [] \<and> prefix w (map lower s)) ws = find (\<lambda>w. w \<noteq> [] \<and> prefix w s) ws"
    by (rule find_cong [OF refl]) (use prefix_lower "1.prems" in blast)
  show ?case
  proof (cases "find (\<lambda>w. w \<noteq> [] \<and> prefix w s) ws")
    case None
    then show ?thesis using eq by (simp add: strip.simps [of ws s] strip.simps [of ws "map lower s"])
  next
    case (Some w)
    then show ?thesis using eq "1.IH" [OF Some "1.prems"]
      by (simp add: strip.simps [of ws s] strip.simps [of ws "map lower s"] drop_map)
  qed
qed

lemma trim_to_lower: "trim (to_lower s) = to_lower (trim s)"
proof -
  have "strip space_runes (map lower t) = map lower (strip space_runes t)" for t
    by (rule strip_lower) (use space_rune_bytes in blast)
  moreover have "strip (map rev space_runes) (map lower t) = map lower (strip (map rev space_runes) t)" for t
    by (rule strip_lower) (use space_rune_bytes in auto)
  ultimately show ?thesis
    by (simp add: to_lower_lower trim_def trim_left_def trim_right_def rev_map)
qed

lemma to_lower_idem [simp]: "to_lower (to_lower s) = to_lower s"
  by (simp add: to_lower_lower)

lemma gateway_key_idem [simp]: "gateway_key (gateway_key s) = gateway_key s"
  by (simp add: gateway_key_def trim_to_lower)

lemma find_gateway_key: "find_gateway rg (gateway_key name) = (case find_gateway rg name of Inl e \<Rightarrow> Inl (NotRegistered (gateway_key name)) | Inr gw \<Rightarrow> Inr gw)"
  by (simp add: find_gateway_def split: option.split)

text \<open>Facts about a model never change which model it is.\<close>

lemma apply_identity [simp]: "CatalogIdentity (applyModelsDevMetadata item catalog md) = CatalogIdentity item"
  by (simp add: applyModelsDevMetadata_def CatalogIdentity_def)

lemma enrich_identity [simp]: "CatalogIdentity (enrich_model routes providers item) = CatalogIdentity item"
  by (simp add: enrich_model_def Let_def split: option.split)

lemma Enrich_form: "fst (Enrich fetch src d models) = Inr out \<Longrightarrow>
    out = models \<or> (\<exists>providers. out = map (enrich_model (route_catalogs d) providers) models)"
  by (auto simp: Enrich_def split: if_splits prod.splits sum.splits)

lemma enrich_listing_identities:
  "map CatalogIdentity (fst (enrich_listing fetch gw models rg)) = map CatalogIdentity models"
proof (cases "rg_metadata rg")
  case (Some src)
  obtain r src' where e: "Enrich fetch src (normalizeDescriptor (gw_descriptor gw)) models = (r, src')" by fastforce
  show ?thesis
  proof (cases r)
    case (Inr out)
    then have "out = models \<or> (\<exists>providers. out = map (enrich_model (route_catalogs (normalizeDescriptor (gw_descriptor gw))) providers) models)"
      using Enrich_form [of fetch src _ models out] e by simp
    then show ?thesis using Some e Inr by (auto simp: enrich_listing_def)
  qed (use Some e in \<open>simp add: enrich_listing_def\<close>)
qed (simp add: enrich_listing_def)

lemma enrich_listing_frame [simp]:
  "rg_capabilities (snd (enrich_listing fetch gw models rg)) = rg_capabilities rg"
  "rg_gateways (snd (enrich_listing fetch gw models rg)) = rg_gateways rg"
  "rg_limits (snd (enrich_listing fetch gw models rg)) = rg_limits rg"
  by (simp_all add: enrich_listing_def split: option.split prod.split sum.split)

lemma remember_frame [simp]: "rg_gateways (remember_model item rg) = rg_gateways rg"
  by (simp add: remember_model_def Let_def)

lemma remember_all_frame [simp]: "rg_gateways (fold remember_model items rg) = rg_gateways rg"
  by (induction items arbitrary: rg) simp_all

lemma Catalog_frame [simp]: "rg_gateways (snd (Catalog fetch listing name rg)) = rg_gateways rg"
  by (simp add: Catalog_def Let_def split: sum.split prod.split)
    (metis enrich_listing_frame(2) snd_conv)

text \<open>A known capability stays; a known limit only gets tighter.\<close>

definition settled :: "capability_state \<Rightarrow> capability_state \<Rightarrow> bool" where
  "settled c c' \<longleftrightarrow> unset c \<or> c' = c"

definition tighter :: "token_limit \<Rightarrow> token_limit \<Rightarrow> bool" where
  "tighter l l' \<longleftrightarrow> tk_tokens l \<le> 0 \<or> 0 < tk_tokens l' \<and> tk_tokens l' \<le> tk_tokens l"

definition refines_model :: "catalog_model \<Rightarrow> catalog_model \<Rightarrow> bool" where
  "refines_model a b \<longleftrightarrow> CatalogIdentity b = CatalogIdentity a \<and>
     (it_name a = [] \<or> it_name b = it_name a) \<and>
     settled (cap_structured (it_capabilities a)) (cap_structured (it_capabilities b)) \<and>
     settled (cap_tools (it_capabilities a)) (cap_tools (it_capabilities b)) \<and>
     settled (cap_image (it_capabilities a)) (cap_image (it_capabilities b)) \<and>
     tighter (ml_context (it_limits a)) (ml_context (it_limits b)) \<and>
     tighter (ml_input (it_limits a)) (ml_input (it_limits b)) \<and>
     tighter (ml_output (it_limits a)) (ml_output (it_limits b))"

lemma tighter_refl [simp]: "tighter l l"
  by (auto simp: tighter_def)

lemma tighter_restrict [simp]: "tighter l (MostRestrictiveLimit l m)"
  by (auto simp: tighter_def MostRestrictiveLimit_def)

lemma refines_refl [simp]: "refines_model a a"
  by (simp add: refines_model_def settled_def)

lemma refines_apply: "refines_model a (applyModelsDevMetadata a catalog md)"
proof -
  let ?c = "it_capabilities a" and ?c' = "metadata_capabilities md (it_capabilities a)"
  have "settled (cap_structured ?c) (cap_structured ?c')" "settled (cap_tools ?c) (cap_tools ?c')"
    by (simp_all add: settled_def metadata_capabilities_def)
  moreover have "settled (cap_image ?c) (cap_image ?c')"
    by (cases "md_modalities md") (simp_all add: settled_def metadata_capabilities_def)
  ultimately show ?thesis
    unfolding refines_model_def apply_identity by (simp add: applyModelsDevMetadata_def MergeModelLimits_def)
qed

lemma refines_enrich [simp]: "refines_model a (enrich_model routes providers a)"
  by (simp add: enrich_model_def Let_def refines_apply split: option.split)

text \<open>Whether a route has refused images, and the operations on a registry.\<close>

definition refused :: "gateway_registry \<Rightarrow> string \<Rightarrow> bool" where
  "refused rg identity \<longleftrightarrow> (\<exists>c. map_of (rg_capabilities rg) identity = Some c \<and> cap_image c = Unsupported)"

datatype registry_op =
    RegisterOp "gateway option"
  | ListOp "string \<Rightarrow> catalog_response option" "string \<Rightarrow> (string, catalog_model list) res" string
  | RefuseOp string model

fun registry_step :: "registry_op \<Rightarrow> gateway_registry \<Rightarrow> catalog_model list \<times> gateway_registry" where
  "registry_step (RegisterOp gw) rg = ([], case Register gw rg of Inl _ \<Rightarrow> rg | Inr rg' \<Rightarrow> rg')"
| "registry_step (ListOp fetch listing name) rg =
     (case Catalog fetch listing name rg of (r, rg') \<Rightarrow> (case r of Inl _ \<Rightarrow> [] | Inr models \<Rightarrow> models, rg'))"
| "registry_step (RefuseOp gateway spec) rg = ([], markImageUnsupported gateway spec rg)"

fun registry_run :: "registry_op list \<Rightarrow> gateway_registry \<Rightarrow> catalog_model list \<times> gateway_registry" where
  "registry_run [] rg = ([], rg)"
| "registry_run (op # ops) rg =
     (case registry_step op rg of (seen, rg1) \<Rightarrow> (case registry_run ops rg1 of (more_seen, rg2) \<Rightarrow> (seen @ more_seen, rg2)))"

lemma refused_mark: "refused rg identity \<Longrightarrow> refused (markImageUnsupported gateway spec rg) identity"
  by (simp add: refused_def markImageUnsupported_def Let_def)

lemma mark_refuses: "refused (markImageUnsupported gateway spec rg) (selectionIdentity (gateway_key gateway) spec)"
  by (simp add: refused_def markImageUnsupported_def Let_def)

lemma refused_remember:
  assumes "refused rg identity" and "CatalogIdentity item = identity \<Longrightarrow> cap_image (it_capabilities item) \<noteq> Supported"
  shows "refused (remember_model item rg) identity"
proof (cases "CatalogIdentity item = identity")
  case True
  from assms(1) have "cap_image (capabilities_of rg identity) = Unsupported"
    by (auto simp: refused_def capabilities_of_def)
  then show ?thesis using True assms(2)
    by (cases "cap_image (it_capabilities item)") (simp_all add: refused_def remember_model_def Let_def unset_def)
qed (use assms(1) in \<open>simp add: refused_def remember_model_def Let_def\<close>)

lemma refused_remember_all:
  "refused rg identity \<Longrightarrow>
   (\<And>item. item \<in> set items \<Longrightarrow> CatalogIdentity item = identity \<Longrightarrow> cap_image (it_capabilities item) \<noteq> Supported) \<Longrightarrow>
   refused (fold remember_model items rg) identity"
proof (induction items arbitrary: rg)
  case (Cons item items)
  then show ?case using refused_remember [of rg identity item] by simp
qed simp

lemma Catalog_form:
  "Catalog fetch listing name rg = (r, rg') \<Longrightarrow>
   (\<exists>e. r = Inl e \<and> rg' = rg) \<or>
   (\<exists>gw listed models rg1. find_gateway rg name = Inr gw \<and> listing (gateway_key name) = Inr listed \<and>
      enrich_listing fetch gw listed rg = (models, rg1) \<and> r = Inr models \<and> rg' = fold remember_model models rg1)"
  by (auto simp: Catalog_def Let_def split: sum.splits prod.splits)

lemma refused_step:
  assumes "registry_step op rg = (seen, rg')" and "refused rg identity"
    and "\<And>item. item \<in> set seen \<Longrightarrow> CatalogIdentity item = identity \<Longrightarrow> cap_image (it_capabilities item) \<noteq> Supported"
  shows "refused rg' identity"
proof (cases op)
  case (RegisterOp gw)
  have "rg_capabilities rg' = rg_capabilities rg" using assms(1) RegisterOp
    by (auto simp: Register_def Let_def split: option.splits if_splits)
  then show ?thesis using assms(2) by (simp add: refused_def)
next
  case (ListOp fetch listing name)
  obtain r where c: "Catalog fetch listing name rg = (r, rg')" and seen: "seen = (case r of Inl _ \<Rightarrow> [] | Inr models \<Rightarrow> models)"
    using assms(1) ListOp by (auto split: prod.splits)
  from Catalog_form [OF c] show ?thesis
  proof (elim disjE exE conjE)
    fix gw listed models rg1
    assume e: "enrich_listing fetch gw listed rg = (models, rg1)" and r: "r = Inr models" and rg': "rg' = fold remember_model models rg1"
    have "refused rg1 identity"
      using assms(2) enrich_listing_frame(1) [of fetch gw listed rg] e by (simp add: refused_def)
    then show ?thesis unfolding rg' by (rule refused_remember_all) (use assms(3) seen r in simp)
  qed (use assms(2) in simp)
next
  case (RefuseOp gateway spec)
  then show ?thesis using assms(1,2) refused_mark by auto
qed

lemma refused_run:
  "registry_run ops rg = (seen, rg') \<Longrightarrow> refused rg identity \<Longrightarrow>
   (\<And>item. item \<in> set seen \<Longrightarrow> CatalogIdentity item = identity \<Longrightarrow> cap_image (it_capabilities item) \<noteq> Supported) \<Longrightarrow>
   refused rg' identity"
proof (induction ops arbitrary: rg seen)
  case (Cons op ops)
  obtain s1 rg1 s2 where step: "registry_step op rg = (s1, rg1)" and run: "registry_run ops rg1 = (s2, rg')" and seen: "seen = s1 @ s2"
    using Cons.prems(1) by (auto split: prod.splits)
  have "refused rg1 identity" using refused_step [OF step Cons.prems(2)] Cons.prems(3) seen by simp
  then show ?case using Cons.IH [OF run] Cons.prems(3) seen by simp
qed simp

lemma refused_Capabilities: "refused rg (selectionIdentity (gateway_key gateway) spec) \<Longrightarrow> cap_image (Capabilities rg gateway spec) = Unsupported"
  by (auto simp: refused_def Capabilities_def filled_def or_unknown_def)

text \<open>What a message says, and the removal of its images.\<close>

definition message_text :: "message \<Rightarrow> string" where
  "message_text m = (if ms_input m = [] then ms_content m
     else concat (map ip_text (filter (\<lambda>p. ip_type p = PartText) (ms_input m))))"

lemma strip_text [simp]: "message_text (strip_message m) = message_text m"
proof -
  let ?parts = "filter (\<lambda>p. ip_type p \<noteq> PartImage) (ms_input m)"
  have texts: "filter (\<lambda>p. ip_type p = PartText) (ms_input m) = filter (\<lambda>p. ip_type p = PartText) ?parts"
    unfolding filter_filter by (rule filter_cong) auto
  show ?thesis
  proof (cases "list_all (\<lambda>p. ip_type p = PartText) ?parts")
    case True
    then have "filter (\<lambda>p. ip_type p = PartText) ?parts = ?parts" by (simp only: filter_id_conv list_all_iff)
    then show ?thesis using True by (simp add: message_text_def strip_message_def texts)
  next
    case False
    then have "?parts \<noteq> []" by auto
    then show ?thesis using False by (simp add: message_text_def strip_message_def texts Let_def del: filter_filter)
  qed
qed

lemma strip_no_image: "p \<in> set (ms_input (strip_message m)) \<Longrightarrow> ip_type p \<noteq> PartImage"
  by (auto simp: strip_message_def Let_def split: if_splits)

lemma strip_rest: "ms_role (strip_message m) = ms_role m" "ms_calls (strip_message m) = ms_calls m"
  "ms_call_id (strip_message m) = ms_call_id m" "ms_reasoning (strip_message m) = ms_reasoning m"
  by (simp_all add: strip_message_def Let_def)

lemma stripped_no_image: "\<not> hasImageInput (stripImageInput ms)"
  using strip_no_image by (fastforce simp: hasImageInput_def stripImageInput_def list_ex_iff split: option.splits)

section \<open>What modelling showed\<close>

text \<open>A server of the public catalog that honours validators.\<close>

definition catalog_server :: "string \<Rightarrow> catalog_document \<Rightarrow> string \<Rightarrow> catalog_response option" where
  "catalog_server etag doc validator =
     Some \<lparr>rs_status = (if validator \<noteq> [] \<and> validator = etag then 304 else 200), rs_etag = etag, rs_document = doc\<rparr>"

definition sample_provider :: "string \<Rightarrow> models_dev_provider" where
  "sample_provider name = [(''m'', \<lparr>md_id = ''m'', md_name = name, md_tools = None, md_structured = None, md_context = 0,
     md_input = 0, md_output = 0, md_modalities = None\<rparr>)]"

definition sample_document :: "string \<Rightarrow> catalog_document" where
  "sample_document name = \<lparr>doc_object = True,
     doc_entries = map (\<lambda>k. \<lparr>en_key = k, en_provider = Some (sample_provider name), en_skips = True\<rparr>) [''a'', ''b''],
     doc_closed = True\<rparr>"

text \<open>
  The validator belongs to the whole document, the cache to single catalogs. When another
  gateway's catalog was fetched after the document changed, the server says that nothing has
  changed since, and the catalog of the first gateway stays as it was.
\<close>

lemma stale_catalog:
  "(let s1 = snd (load_catalogs (catalog_server ''1'' (sample_document ''old'')) \<lparr>dv_etag = [], dv_providers = []\<rparr> [''a'']);
        s2 = snd (load_catalogs (catalog_server ''2'' (sample_document ''new'')) s1 [''b''])
    in fst (load_catalogs (catalog_server ''2'' (sample_document ''new'')) s2 [''a''])) = Inr [(''a'', sample_provider ''old'')]"
  by code_simp

text \<open>
  A refused image replaces what the gateway says of the model: a gateway that attests tool
  calls, before its catalog was listed, is afterwards taken not to know.
\<close>

lemma refusal_shadows_source:
  assumes "map_of (rg_capabilities rg) (selectionIdentity (gateway_key gateway) spec) = None"
    and "map_of (rg_gateways rg) (gateway_key gateway) = Some gw" and "gw_capabilities gw = Some source"
    and "cap_tools (source spec) = Supported"
  shows "cap_tools (Capabilities rg gateway spec) = Supported"
    and "cap_tools (Capabilities (markImageUnsupported gateway spec rg) gateway spec) = Unknown"
  using assms by (simp_all add: Capabilities_def filled_def or_unknown_def markImageUnsupported_def Let_def
      capabilities_of_def no_capabilities_def)

section \<open>Properties\<close>

definition sample_item :: "string \<Rightarrow> capability_state \<Rightarrow> catalog_model" where
  "sample_item i img = \<lparr>it_gateway = ''gw'', it_route = ''r'', it_id = i, it_name = [],
     it_capabilities = \<lparr>cap_structured = Unknown, cap_tools = Unknown, cap_image = img\<rparr>, it_limits = no_limits\<rparr>"

definition sample_spec :: "string \<Rightarrow> model" where
  "sample_spec i = \<lparr>m_legacy_gateway = [], m_route = ''r'', m_name = i, m_reasoning_effort = [], m_options = []\<rparr>"

definition sample_gateway :: gateway where
  "sample_gateway = \<lparr>gw_descriptor = \<lparr>de_id = ''gw'', de_name = ''Gateway'', de_credential = ''KEY'', de_authentication = APIKey,
     de_routes = [\<lparr>ro_id = ''r'', ro_label = ''R'', ro_metadata = []\<rparr>], de_multi = True\<rparr>, gw_device = False, gw_capabilities = None\<rparr>"

definition sample_registry :: gateway_registry where
  "sample_registry = (NewRegistry None)\<lparr>rg_gateways := [(''gw'', sample_gateway)]\<rparr>"

text \<open>
  A team's profile is valid exactly when each of its models is one the gateway itself lists
  now. Validation succeeds iff the gateway is registered, its listing succeeds and the
  identities of all selections are identities of listed models; the public catalog, whether it
  answers, fails or claims other models, has no say in it.
\<close>

theorem ValidateProfile_exact:
  "fst (ValidateProfile fetch listing p rg) = Inr () \<longleftrightarrow>
     (\<exists>gw listed. find_gateway rg (p_gateway p) = Inr gw \<and> listing (gateway_key (p_gateway p)) = Inr listed \<and>
        (\<lambda>(_, selected). selectionIdentity (gateway_key (p_gateway p)) selected) ` set (p_models p) \<subseteq> CatalogIdentity ` set listed)"
proof -
  let ?key = "gateway_key (p_gateway p)"
  obtain r rg' where c: "Catalog fetch listing ?key rg = (r, rg')" by fastforce
  have search: "find (\<lambda>(_, selected). selectionIdentity ?key selected \<notin> available) ms = None \<longleftrightarrow>
      (\<lambda>(_, selected). selectionIdentity ?key selected) ` set ms \<subseteq> available" for available ms
    by (auto simp: find_None_iff)
  from Catalog_form [OF c] show ?thesis
  proof (elim disjE exE conjE)
    fix e assume e: "r = Inl e"
    then have "\<not> (\<exists>gw listed. find_gateway rg (p_gateway p) = Inr gw \<and> listing ?key = Inr listed)"
      using c by (auto simp: Catalog_def Let_def find_gateway_key split: sum.splits prod.splits)
    then show ?thesis using c e by (auto simp: ValidateProfile_def)
  next
    fix gw listed models rg1
    assume gw: "find_gateway rg ?key = Inr gw" and l: "listing (gateway_key ?key) = Inr listed"
      and e: "enrich_listing fetch gw listed rg = (models, rg1)" and r: "r = Inr models"
    have "map CatalogIdentity models = map CatalogIdentity listed"
      using enrich_listing_identities [of fetch gw listed rg] e by simp
    then have same: "set (map CatalogIdentity models) = CatalogIdentity ` set listed" by simp
    have "fst (ValidateProfile fetch listing p rg) = Inr () \<longleftrightarrow>
        find (\<lambda>(_, selected). selectionIdentity ?key selected \<notin> set (map CatalogIdentity models)) (p_models p) = None"
      using c r by (auto simp: ValidateProfile_def Let_def split: option.split)
    also have "\<dots> \<longleftrightarrow> (\<lambda>(_, selected). selectionIdentity ?key selected) ` set (p_models p) \<subseteq> CatalogIdentity ` set listed"
      unfolding same by (rule search)
    finally show ?thesis using gw l by (auto simp: find_gateway_key split: sum.splits)
  qed
qed

text \<open>
  A route that has refused images is not offered images again until its gateway says
  otherwise. After a refusal, whatever is registered, listed or refused next, the model is
  reported as not supporting images as long as no listing attested that it does; a listing
  that does not know changes nothing.
\<close>

theorem refusal_is_remembered:
  assumes "registry_run ops (markImageUnsupported gateway spec rg) = (seen, rg')"
    and "\<And>item. item \<in> set seen \<Longrightarrow> CatalogIdentity item = selectionIdentity (gateway_key gateway) spec \<Longrightarrow>
      cap_image (it_capabilities item) \<noteq> Supported"
  shows "cap_image (Capabilities rg' gateway spec) = Unsupported"
  by (rule refused_Capabilities, rule refused_run [OF assms(1) mark_refuses assms(2)])

theorem refusal_is_remembered_witness:
  "cap_image (Capabilities (snd (registry_run [ListOp (\<lambda>_. None) (\<lambda>_. Inr [sample_item ''m'' Unknown]) ''gw'']
     (markImageUnsupported ''gw'' (sample_spec ''m'') sample_registry))) ''gw'' (sample_spec ''m'')) = Unsupported"
proof -
  let ?run = "registry_run [ListOp (\<lambda>_. None) (\<lambda>_. Inr [sample_item ''m'' Unknown]) ''gw''] (markImageUnsupported ''gw'' (sample_spec ''m'') sample_registry)"
  have seen: "list_all (\<lambda>item. cap_image (it_capabilities item) \<noteq> Supported) (fst ?run)" by code_simp
  have run: "?run = (fst ?run, snd ?run)" by simp
  show ?thesis by (rule refusal_is_remembered [OF run]) (use seen [unfolded list_all_iff] in blast)
qed

text \<open>
  The fallback for images asks at most twice and loses no words. The second request is
  made only after a refusal; it has no image left and says, message by message, what the
  first said, with the same roles and tool calls. The result is the answer to the last
  request, and the registry only ever learns a refusal.
\<close>

theorem image_fallback:
  assumes "aware_Generate m input n rg = (r, rg', sent)"
  shows "r = ch_generate (aw_base m) (n + length sent - 1) (last sent) \<and>
    (sent = [input] \<and> rg' = rg \<or>
     sent = [input, stripImageInput input] \<and> \<not> hasImageInput (last sent) \<and>
     (\<exists>err. ch_generate (aw_base m) n input = Inl err \<and> isImageUnsupportedError err) \<and>
     map (map_option message_text) (last sent) = map (map_option message_text) input \<and>
     map (map_option (\<lambda>m. (ms_role m, ms_calls m, ms_call_id m))) (last sent) =
       map (map_option (\<lambda>m. (ms_role m, ms_calls m, ms_call_id m))) input \<and>
     (rg' = rg \<or> rg' = markImageUnsupported (aw_gateway m) (aw_spec m) rg))"
proof (cases "ch_generate (aw_base m) n input")
  case (Inr answer)
  then show ?thesis using assms by (auto simp: aware_Generate_def aware_call_def)
next
  case (Inl err)
  show ?thesis
  proof (cases "hasImageInput input \<and> isImageUnsupportedError err")
    case False
    then show ?thesis using assms Inl by (auto simp: aware_Generate_def aware_call_def)
  next
    case True
    then have parts: "r = ch_generate (aw_base m) (Suc n) (stripImageInput input)" "sent = [input, stripImageInput input]"
      "rg' = rg \<or> rg' = markImageUnsupported (aw_gateway m) (aw_spec m) rg"
      using assms Inl by (auto simp: aware_Generate_def aware_call_def Let_def split: if_splits)
    have kept: "map (map_option message_text) (stripImageInput input) = map (map_option message_text) input"
      "map (map_option (\<lambda>m. (ms_role m, ms_calls m, ms_call_id m))) (stripImageInput input) =
       map (map_option (\<lambda>m. (ms_role m, ms_calls m, ms_call_id m))) input"
      by (simp_all add: stripImageInput_def option.map_comp comp_def strip_rest)
    show ?thesis using parts kept True Inl stripped_no_image by simp
  qed
qed

definition sample_picture :: message where
  "sample_picture = (UserMessage [])\<lparr>ms_input :=
     [\<lparr>ip_type = PartText, ip_text = ''look'', ip_image = None, ip_reference = False\<rparr>,
      \<lparr>ip_type = PartImage, ip_text = [], ip_image = Some \<lparr>im_data = None, im_rest = []\<rparr>, ip_reference = False\<rparr>]\<rparr>"

definition sample_text_model :: aware_model where
  "sample_text_model = \<lparr>aw_base = \<lparr>ch_generate = (\<lambda>n input. if hasImageInput input
       then Inl (sample_error ''Image input is not supported'' None) else Inr (UserMessage ''seen'')),
     ch_stream = (\<lambda>n input. Inr [])\<rparr>, aw_gateway = ''gw'', aw_spec = sample_spec ''m''\<rparr>"

lemma sample_fallback: "snd (snd (aware_Generate sample_text_model [Some sample_picture] 0 sample_registry)) =
    [[Some sample_picture], [Some (UserMessage ''look'')]]"
  by code_simp

theorem image_fallback_witness:
  "fst (aware_Generate sample_text_model [Some sample_picture] 0 sample_registry) =
     ch_generate (aw_base sample_text_model) 1 [Some (UserMessage ''look'')]"
proof -
  let ?run = "aware_Generate sample_text_model [Some sample_picture] 0 sample_registry"
  have "?run = (fst ?run, fst (snd ?run), snd (snd ?run))" by simp
  from image_fallback [OF this]
  have "fst ?run = ch_generate (aw_base sample_text_model) (0 + length (snd (snd ?run)) - 1) (last (snd (snd ?run)))" by (rule conjunct1)
  then show ?thesis by (simp add: sample_fallback)
qed

text \<open>
  C35: what the public catalog adds never contradicts the gateway. When enrichment succeeds,
  the list has the same models in the same order; of each, a name, a known capability and a
  known limit stay as the gateway gave them, but that a limit may become tighter.
\<close>

theorem Enrich_refines:
  assumes "fst (Enrich fetch src d models) = Inr out"
  shows "list_all2 refines_model models out"
  using Enrich_form [OF assms] by (auto simp: list_all2_conv_all_nth)

text \<open>A public catalog with a name, tools and a smaller context for the model that is listed.\<close>

definition sample_catalogued :: gateway_descriptor where
  "sample_catalogued = (gw_descriptor sample_gateway)\<lparr>de_routes := [\<lparr>ro_id = ''r'', ro_label = ''R'', ro_metadata = ''c''\<rparr>]\<rparr>"

definition sample_catalog_answer :: catalog_response where
  "sample_catalog_answer = \<lparr>rs_status = 200, rs_etag = [], rs_document = \<lparr>doc_object = True,
     doc_entries = [\<lparr>en_key = ''c'', en_provider = Some [(''m'',
       \<lparr>md_id = ''m'', md_name = ''Public'', md_tools = Some True, md_structured = None, md_context = 9, md_input = 0,
        md_output = 0, md_modalities = Some []\<rparr>)], en_skips = True\<rparr>], doc_closed = True\<rparr>\<rparr>"

theorem Enrich_refines_witness:
  "\<exists>out. fst (Enrich (\<lambda>_. Some sample_catalog_answer) \<lparr>dv_etag = [], dv_providers = []\<rparr> sample_catalogued [sample_item ''m'' Supported]) = Inr out \<and>
     map it_name out = [''Public''] \<and> map (\<lambda>x. cap_tools (it_capabilities x)) out = [Supported] \<and>
     list_all2 refines_model [sample_item ''m'' Supported] out"
proof -
  let ?run = "Enrich (\<lambda>_. Some sample_catalog_answer) \<lparr>dv_etag = [], dv_providers = []\<rparr> sample_catalogued [sample_item ''m'' Supported]"
  have "map_sum (\<lambda>_. ()) (map (\<lambda>x. (it_name x, cap_tools (it_capabilities x)))) (fst ?run) = Inr [(''Public'', Supported)]"
    by code_simp
  then obtain out where out: "fst ?run = Inr out" "map (\<lambda>x. (it_name x, cap_tools (it_capabilities x))) out = [(''Public'', Supported)]"
    by (cases "fst ?run") auto
  then show ?thesis using Enrich_refines [OF out(1)] by auto
qed

definition gateway_ok :: "string \<Rightarrow> gateway \<Rightarrow> bool" where
  "gateway_ok key gw \<longleftrightarrow>
     (let d = normalizeDescriptor (gw_descriptor gw) in
      key = gateway_key (de_id d) \<and> key \<noteq> [] \<and> trim (de_name d) \<noteq> [] \<and> de_multi d \<and> trim (de_credential d) \<noteq> [] \<and>
      (de_authentication d = APIKey \<or> de_authentication d = DeviceOAuth \<and> gw_device gw) \<and>
      de_routes d \<noteq> [] \<and> distinct (map (\<lambda>r. trim (ro_id r)) (de_routes d)))"

definition registry_ok :: "gateway_registry \<Rightarrow> bool" where
  "registry_ok rg \<longleftrightarrow> keys_distinct (rg_gateways rg) \<and> (\<forall>(key, gw) \<in> set (rg_gateways rg). gateway_ok key gw)"

lemma routes_ok_distinct: "routes_ok seen rs \<Longrightarrow> distinct (map (\<lambda>r. trim (ro_id r)) rs) \<and> set seen \<inter> (\<lambda>r. trim (ro_id r)) ` set rs = {}"
  by (induction seen rs rule: routes_ok.induct) auto

lemma Register_ok:
  assumes "Register gw rg = Inr rg'" and "registry_ok rg"
  shows "registry_ok rg'"
proof -
  obtain g where gw: "gw = Some g" using assms(1) by (cases gw) (simp_all add: Register_def)
  define d where "d = normalizeDescriptor (gw_descriptor g)"
  have ok: "gateway_ok (gateway_key (de_id d)) g" and absent: "map_of (rg_gateways rg) (gateway_key (de_id d)) = None"
    and rg': "rg' = rg\<lparr>rg_gateways := AList.update (gateway_key (de_id d)) g (rg_gateways rg)\<rparr>"
    using assms(1) routes_ok_distinct [of "[]" "de_routes d"]
    by (auto simp: Register_def gw d_def [symmetric] Let_def gateway_ok_def split: if_splits)
  show ?thesis using assms(2) ok absent
    by (auto simp: registry_ok_def rg' update_absent map_of_eq_None_iff)
qed

lemma registry_step_ok: "registry_ok rg \<Longrightarrow> registry_ok (snd (registry_step op rg))"
proof (cases op)
  case (RegisterOp gw)
  then show "registry_ok rg \<Longrightarrow> ?thesis" using Register_ok [of gw rg] by (simp split: sum.split)
next
  case (ListOp fetch listing name)
  obtain r rg' where "Catalog fetch listing name rg = (r, rg')" by fastforce
  then show "registry_ok rg \<Longrightarrow> ?thesis" using Catalog_frame [of fetch listing name rg] ListOp
    by (simp add: registry_ok_def)
next
  case (RefuseOp gateway spec)
  then show "registry_ok rg \<Longrightarrow> ?thesis" by (simp add: registry_ok_def markImageUnsupported_def Let_def)
qed

lemma registry_run_ok: "registry_ok rg \<Longrightarrow> registry_ok (snd (registry_run ops rg))"
proof (induction ops arbitrary: rg)
  case (Cons op ops)
  obtain s1 rg1 where step: "registry_step op rg = (s1, rg1)" by fastforce
  from Cons.IH [of rg1] registry_step_ok [OF Cons.prems, of op] step show ?case by (simp split: prod.split) (metis snd_conv)
qed simp

lemma descriptors_sorted:
  assumes "registry_ok rg"
  shows "sorted_wrt (<) (map de_id (Descriptors rg))"
proof -
  define ids where "ids = map (\<lambda>(_, gw). de_id (normalizeDescriptor (gw_descriptor gw))) (rg_gateways rg)"
  have "map gateway_key ids = map fst (rg_gateways rg)"
    using assms by (auto simp: ids_def registry_ok_def gateway_ok_def Let_def)
  then have "distinct (map gateway_key ids)" using assms by (simp add: registry_ok_def)
  then have "distinct ids" by (simp add: distinct_map)
  moreover have "mset (map de_id (Descriptors rg)) = mset ids"
    by (simp add: Descriptors_def ids_def multiset.map_comp comp_def case_prod_unfold)
  ultimately have "distinct (map de_id (Descriptors rg))" by (metis mset_eq_imp_distinct_iff)
  then show ?thesis by (simp add: Descriptors_def strict_sorted_iff)
qed

text \<open>
  The registry holds only gateways that meet the contract, each under its own key. After
  any sequence of operations from an empty registry keys are distinct, and the gateway under a
  key has that key as its normalised identity, a name, a multi-model catalog, an environment
  variable for its credential, a known kind of authentication that it implements, and at
  least one route, no two alike; the descriptors are listed in strict order of identity.
\<close>

theorem registry_contract:
  assumes "rg = snd (registry_run ops (NewRegistry metadata))"
  shows "registry_ok rg \<and> sorted_wrt (<) (map de_id (Descriptors rg))"
proof -
  have "registry_ok (NewRegistry metadata)" by (simp add: registry_ok_def NewRegistry_def)
  then have "registry_ok rg" unfolding assms by (rule registry_run_ok)
  then show ?thesis using descriptors_sorted by blast
qed

theorem registry_contract_witness:
  "registry_ok (snd (registry_run [RegisterOp (Some sample_gateway)] (NewRegistry None)))"
  by (rule conjunct1 [OF registry_contract [OF refl]])

end
