(* ===== verification/Draft.thy ===== *)
theory Draft
  imports Window Registry
begin

text \<open>
  The team editor (internal/nativegui/protocol.go, the team half of service.go). A draft holds what
  the user decides about a team: members, models, definitions and who may call whom. It is made
  from a published profile, checked, and turned back into a profile when it is published. The
  YAML package and the text of its errors are arguments.
\<close>

section \<open>Drafts\<close>

record model_choice =
  mc_route :: string
  mc_id :: string

record draft_member =
  dm_id :: string
  dm_model :: model_choice
  dm_definition :: string

record peer_edge =
  pe_first :: string
  pe_second :: string

record specialist_edge =
  se_agent :: string
  se_specialist :: string

record team_draft =
  td_id :: string
  td_name :: string
  td_gateway :: string
  td_base :: int
  td_primary :: draft_member
  td_peers :: "draft_member list"
  td_specialists :: "draft_member list"
  td_peer_edges :: "peer_edge list"
  td_specialist_edges :: "specialist_edge list"

definition no_choice :: model_choice where
  "no_choice = \<lparr>mc_route = [], mc_id = []\<rparr>"

definition NewDraft :: "string \<Rightarrow> team_draft" where
  "NewDraft uuid = \<lparr>td_id = ''team-'' @ uuid, td_name = [], td_gateway = [], td_base = 0,
     td_primary = \<lparr>dm_id = ''primary'', dm_model = no_choice, dm_definition = []\<rparr>,
     td_peers = [], td_specialists = [], td_peer_edges = [], td_specialist_edges = []\<rparr>"

section \<open>From a profile\<close>

definition choiceForModel :: "string \<Rightarrow> model \<Rightarrow> catalog_model list \<Rightarrow> model_choice" where
  "choiceForModel gateway m catalog =
     (case find (\<lambda>item. equal_fold (it_gateway item) gateway \<and> equal_fold (it_route item) (m_route m) \<and> it_id item = m_name m) catalog of
        Some item \<Rightarrow> \<lparr>mc_route = it_route item, mc_id = it_id item\<rparr>
      | None \<Rightarrow> \<lparr>mc_route = m_route m, mc_id = m_name m\<rparr>)"

text \<open>A missing alias reads as the zero value.\<close>

definition model_at :: "profile \<Rightarrow> string \<Rightarrow> model" where
  "model_at p alias =
     (case map_of (p_models p) alias of
        Some m \<Rightarrow> m
      | None \<Rightarrow> \<lparr>m_legacy_gateway = [], m_route = [], m_name = [], m_reasoning_effort = [], m_options = []\<rparr>)"

definition draft_agent :: "profile \<Rightarrow> catalog_model list \<Rightarrow> agent \<Rightarrow> draft_member" where
  "draft_agent p catalog a = \<lparr>dm_id = ag_id a, dm_model = choiceForModel (p_gateway p) (model_at p (ag_model a)) catalog,
     dm_definition = ag_definition a\<rparr>"

definition draft_specialist :: "profile \<Rightarrow> catalog_model list \<Rightarrow> specialist \<Rightarrow> draft_member" where
  "draft_specialist p catalog s = \<lparr>dm_id = sp_id s, dm_model = choiceForModel (p_gateway p) (model_at p (sp_model s)) catalog,
     dm_definition = sp_definition s\<rparr>"

text \<open>Each pair of peers once, in the order in which the agents mention it; \<open>seen\<close> holds keys.\<close>

fun unseen_edges :: "string set \<Rightarrow> (string \<times> string) list \<Rightarrow> peer_edge list" where
  "unseen_edges seen [] = []"
| "unseen_edges seen ((a, b) # pairs) =
     (let (first, second) = edge_pair a b; key = first @ [CHR 0x00] @ second
      in if key \<in> seen then unseen_edges seen pairs
         else \<lparr>pe_first = first, pe_second = second\<rparr> # unseen_edges (insert key seen) pairs)"

definition DraftFromProfile :: "profile \<Rightarrow> catalog_model list \<Rightarrow> team_draft" where
  "DraftFromProfile p catalog =
     \<lparr>td_id = p_id p, td_name = p_name p, td_gateway = p_gateway p, td_base = p_revision p,
      td_primary = draft_agent p catalog (p_primary p),
      td_peers = sort_key dm_id (map (draft_agent p catalog) (p_peers p)),
      td_specialists = sort_key dm_id (map (draft_specialist p catalog) (p_specialists p)),
      td_peer_edges = sort_key (\<lambda>e. (pe_first e, pe_second e)) (unseen_edges {}
        (concat (map (\<lambda>a. map (\<lambda>b. (ag_id a, ag_id b)) (PeerAgentsFor p a)) (Agents p)))),
      td_specialist_edges = sort_key (\<lambda>e. (se_agent e, se_specialist e))
        (concat (map (\<lambda>a. map (\<lambda>i. \<lparr>se_agent = ag_id a, se_specialist = i\<rparr>) (ag_specialists a)) (Agents p)))\<rparr>"

section \<open>To a profile\<close>

definition profileModel :: "model_choice \<Rightarrow> model" where
  "profileModel c = \<lparr>m_legacy_gateway = [], m_route = to_lower (trim (mc_route c)), m_name = trim (mc_id c),
     m_reasoning_effort = [], m_options = []\<rparr>"

definition appendUnique :: "'a list \<Rightarrow> 'a \<Rightarrow> 'a list" where
  "appendUnique values v = (if v \<in> set values then values else values @ [v])"

fun update_first :: "string \<Rightarrow> (agent \<Rightarrow> agent) \<Rightarrow> agent list \<Rightarrow> agent list option" where
  "update_first i f [] = None"
| "update_first i f (a # as) =
     (if ag_id a = i then Some (f a # as) else map_option (\<lambda>bs. a # bs) (update_first i f as))"

text \<open>\<open>None\<close>: there is no such agent.\<close>

definition updateAgent :: "profile \<Rightarrow> string \<Rightarrow> (agent \<Rightarrow> agent) \<Rightarrow> profile option" where
  "updateAgent p i f =
     (if ag_id (p_primary p) = i then Some (p\<lparr>p_primary := f (p_primary p)\<rparr>)
      else map_option (\<lambda>as. p\<lparr>p_peers := as\<rparr>) (update_first i f (p_peers p)))"

definition add_peer :: "string \<Rightarrow> agent \<Rightarrow> agent" where
  "add_peer i a = a\<lparr>ag_peers := appendUnique (ag_peers a) i\<rparr>"

definition add_specialist :: "string \<Rightarrow> agent \<Rightarrow> agent" where
  "add_specialist i a = a\<lparr>ag_specialists := appendUnique (ag_specialists a) i\<rparr>"

definition assignPeer :: "peer_edge \<Rightarrow> profile \<Rightarrow> profile" where
  "assignPeer e p =
     (let first = trim (pe_first e); second = trim (pe_second e) in
      if first = [] \<or> second = [] then p
      else case updateAgent p first (add_peer second) of
        Some q \<Rightarrow> q
      | None \<Rightarrow> (case updateAgent p second (add_peer first) of Some q \<Rightarrow> q | None \<Rightarrow> p))"

definition assignSpecialist :: "specialist_edge \<Rightarrow> profile \<Rightarrow> profile" where
  "assignSpecialist e p =
     (case updateAgent p (trim (se_agent e)) (add_specialist (trim (se_specialist e))) of Some q \<Rightarrow> q | None \<Rightarrow> p)"

definition named :: "draft_member list \<Rightarrow> draft_member list" where
  "named ms = filter (\<lambda>m. trim (dm_id m) \<noteq> []) ms"

definition member_agent :: "draft_member \<Rightarrow> agent" where
  "member_agent m = \<lparr>ag_id = trim (dm_id m), ag_model = trim (dm_id m), ag_definition = dm_definition m, ag_peers = [], ag_specialists = []\<rparr>"

definition member_specialist :: "draft_member \<Rightarrow> specialist" where
  "member_specialist m = \<lparr>sp_id = trim (dm_id m), sp_model = trim (dm_id m), sp_definition = dm_definition m\<rparr>"

definition draft_models :: "draft_member list \<Rightarrow> (string, model) gomap" where
  "draft_models ms = fold (\<lambda>m. AList.update (trim (dm_id m)) (profileModel (dm_model m))) (named ms) []"

definition draft_base :: "team_draft \<Rightarrow> profile" where
  "draft_base d =
     \<lparr>p_schema = CurrentSchema, p_id = trim (td_id d), p_revision = 0, p_name = trim (td_name d),
      p_gateway = to_lower (trim (td_gateway d)),
      p_models = draft_models (td_primary d # td_peers d @ td_specialists d),
      p_primary = member_agent (td_primary d), p_peers = map member_agent (named (td_peers d)),
      p_specialists = map member_specialist (named (td_specialists d)), p_persist_reasoning = False, p_metadata = []\<rparr>"

definition draft_profile :: "team_draft \<Rightarrow> profile" where
  "draft_profile d = fold assignSpecialist (td_specialist_edges d) (fold assignPeer (td_peer_edges d) (draft_base d))"

section \<open>Diagnostics\<close>

definition draft_members :: "team_draft \<Rightarrow> draft_member list" where
  "draft_members d = td_primary d # td_peers d @ td_specialists d"

definition indexed :: "string \<Rightarrow> nat \<Rightarrow> string" where
  "indexed name i = name @ ''['' @ itoa (int i) @ '']''"

text \<open>What validation says, without what the draft's own checks say better.\<close>

definition relevant :: "team_draft \<Rightarrow> diagnostic \<Rightarrow> diagnostic list" where
  "relevant d item =
     (if d_path item = ''id'' \<and> trim (td_id d) = [] then []
      else let item = (if d_path item = ''name'' then item\<lparr>d_path := ''team.name''\<rparr> else item);
               empty_aliases = map (\<lambda>m. trim (dm_id m)) (filter (\<lambda>m. trim (mc_id (dm_model m)) = [] \<and> trim (dm_id m) \<noteq> []) (draft_members d))
           in if \<exists>alias \<in> set empty_aliases. prefix (''models.'' @ alias @ ''.'') (d_path item) then [] else [item])"

definition member_checks :: "string \<Rightarrow> draft_member list \<Rightarrow> diagnostic list" where
  "member_checks name ms = concat (map (\<lambda>(i, m).
     (if trim (dm_id m) = [] then [diag DError (indexed name i @ ''.id'') ''is required in lowercase kebab-case''] else []) @
     (if trim (mc_id (dm_model m)) = [] then [diag DError (indexed name i @ ''.model'') ''select a catalog model''] else []))
     (enumerate 0 ms))"

definition draft_agent_ids :: "team_draft \<Rightarrow> string list" where
  "draft_agent_ids d = filter (\<lambda>i. i \<noteq> []) (map (\<lambda>m. trim (dm_id m)) (td_primary d # td_peers d))"

definition draft_specialist_ids :: "team_draft \<Rightarrow> string list" where
  "draft_specialist_ids d = filter (\<lambda>i. i \<noteq> []) (map (\<lambda>m. trim (dm_id m)) (td_specialists d))"

definition peer_edge_check :: "string list \<Rightarrow> nat \<Rightarrow> string set \<Rightarrow> peer_edge \<Rightarrow> diagnostic list \<times> string set" where
  "peer_edge_check agents i seen e =
     (let first = trim (pe_first e); second = trim (pe_second e); path = indexed ''peer_edges'' i in
      if first \<notin> set agents \<or> second \<notin> set agents
      then ([diag DError path ''both endpoints must be leadership-capable agents''], seen)
      else if first = second then ([diag DError path ''an agent cannot peer with itself''], seen)
      else let key = edge_key first second
           in (if key \<in> seen then [diag DError path ''duplicates another peer edge''] else [], insert key seen))"

fun peer_edge_checks :: "string list \<Rightarrow> nat \<Rightarrow> string set \<Rightarrow> peer_edge list \<Rightarrow> diagnostic list" where
  "peer_edge_checks agents i seen [] = []"
| "peer_edge_checks agents i seen (e # es) =
     (case peer_edge_check agents i seen e of (ds, seen') \<Rightarrow> ds @ peer_edge_checks agents (Suc i) seen' es)"

definition specialist_edge_checks :: "team_draft \<Rightarrow> diagnostic list" where
  "specialist_edge_checks d = concat (map (\<lambda>(i, e).
     (if trim (se_agent e) \<notin> set (draft_agent_ids d)
      then [diag DError (indexed ''specialist_edges'' i) ''caller must be a leadership-capable agent''] else []) @
     (if trim (se_specialist e) \<notin> set (draft_specialist_ids d)
      then [diag DError (indexed ''specialist_edges'' i) ''callee must be a stateless specialist''] else []))
     (enumerate 0 (td_specialist_edges d)))"

definition choice_item :: "string \<Rightarrow> model_choice \<Rightarrow> catalog_model" where
  "choice_item gateway c = \<lparr>it_gateway = gateway, it_route = mc_route c, it_id = mc_id c, it_name = [],
     it_capabilities = no_capabilities, it_limits = no_limits\<rparr>"

definition catalog_check :: "team_draft \<Rightarrow> catalog_model list \<Rightarrow> string \<Rightarrow> model_choice \<Rightarrow> diagnostic list" where
  "catalog_check d catalog path c =
     (if trim (mc_id c) = [] then []
      else if CatalogIdentity (choice_item (td_gateway d) c) \<in> CatalogIdentity ` set catalog then []
      else [diag DError path (''model '' @ mc_id c @ '' is not in the current authenticated gateway catalog; ALT will not substitute it'')])"

definition catalog_checks :: "team_draft \<Rightarrow> catalog_model list \<Rightarrow> diagnostic list" where
  "catalog_checks d catalog =
     catalog_check d catalog ''primary.model'' (dm_model (td_primary d)) @
     concat (map (\<lambda>(i, m). catalog_check d catalog (indexed ''peers'' i @ ''.model'') (dm_model m)) (enumerate 0 (td_peers d))) @
     concat (map (\<lambda>(i, m). catalog_check d catalog (indexed ''specialists'' i @ ''.model'') (dm_model m)) (enumerate 0 (td_specialists d)))"

definition DiagnosticsForDraft :: "yaml \<Rightarrow> (profile_error \<Rightarrow> string) \<Rightarrow> team_draft \<Rightarrow> catalog_model list \<Rightarrow> diagnostic list" where
  "DiagnosticsForDraft ym error_text d catalog =
     (case FromValue (ym_encode ym) (ym_decode ym) (ym_sha ym) ((draft_profile d)\<lparr>p_revision := td_base d + 1\<rparr>) of
        Inl e \<Rightarrow> [diag DError ''draft'' (error_text e)]
      | Inr doc \<Rightarrow>
          sort_key (\<lambda>x. (if d_severity x = DError then 0 else 1 :: nat, d_path x))
            (concat (map (relevant d) (Validate (doc_profile doc))) @
             (if trim (td_id d) = [] then [diag DError ''team.id'' ''is required in lowercase kebab-case''] else []) @
             (if trim (mc_id (dm_model (td_primary d))) = [] then [diag DError ''primary.model'' ''select a catalog model''] else []) @
             (if trim (dm_id (td_primary d)) = [] then [diag DError ''primary.id'' ''is required in lowercase kebab-case''] else []) @
             member_checks ''peers'' (td_peers d) @ member_checks ''specialists'' (td_specialists d) @
             peer_edge_checks (draft_agent_ids d) 0 {} (td_peer_edges d) @ specialist_edge_checks d @ catalog_checks d catalog))"

section \<open>The editor\<close>

datatype team_view = ViewNone | ViewNew | ViewEdit | ViewInspect | ViewOther string

record publication = pb_id :: string pb_revision :: int pb_digest :: string

datatype editor_error =
    NotTeam
  | ReadOnly
  | UnknownView string
  | NoRevision
  | NoGateway
  | NoDraft
  | DraftInvalid
  | NoGraph
  | UnknownOperation string
  | UndecodableRequest
  | EditorStore store_error
  | EditorRegistry registry_error

record team_editor =
  te_team :: bool
  te_view :: team_view
  te_catalog :: "catalog_model list"
  te_draft :: "team_draft option"
  te_published :: "publication option"
  te_init_error :: "editor_error option"
  te_profiles :: "profile_row list"
  te_registry :: gateway_registry
  te_store :: store
  te_prepared :: "(string \<times> string) option"

record editor_request =
  eq_operation :: string
  eq_draft :: "team_draft option"
  eq_gateway :: string
  eq_view :: team_view
  eq_profile :: string
  eq_revision :: int

record initial_state =
  is_team :: bool
  is_view :: team_view
  is_catalog :: "catalog_model list"
  is_gateways :: "gateway_descriptor list"
  is_profiles :: "profile_row list"
  is_draft :: "team_draft option"
  is_diagnostics :: "diagnostic list"

record editor_response =
  er_ok :: bool
  er_error :: "editor_error option"
  er_initial :: "initial_state option"
  er_diagnostics :: "diagnostic list"
  er_published :: "publication option"

text \<open>What the editor relies on: YAML, error texts, the gateways' listings, fresh identities, the clock.\<close>

record editor_world =
  ew_yaml :: yaml
  ew_text :: "profile_error \<Rightarrow> string"
  ew_fetch :: "string \<Rightarrow> catalog_response option"
  ew_listing :: "string \<Rightarrow> (string, catalog_model list) res"
  ew_uuid :: string
  ew_now :: int

definition loadCatalog :: "editor_world \<Rightarrow> string \<Rightarrow> team_editor \<Rightarrow> editor_error option \<times> team_editor" where
  "loadCatalog w gateway h =
     (let name = to_lower (trim gateway) in
      case Descriptor (te_registry h) name of
        Inl e \<Rightarrow> (Some (EditorRegistry e), h)
      | Inr _ \<Rightarrow>
          (case Catalog (ew_fetch w) (ew_listing w) name (te_registry h) of
             (Inl e, rg) \<Rightarrow> (Some (EditorRegistry e), h\<lparr>te_registry := rg\<rparr>)
           | (Inr items, rg) \<Rightarrow> (None, h\<lparr>te_registry := rg, te_catalog := items\<rparr>)))"

definition response_refused :: "editor_error \<Rightarrow> editor_response" where
  "response_refused e = \<lparr>er_ok = False, er_error = Some e, er_initial = None, er_diagnostics = [], er_published = None\<rparr>"

definition initial :: "editor_world \<Rightarrow> team_editor \<Rightarrow> editor_response" where
  "initial w h =
     \<lparr>er_ok = True, er_error = te_init_error h,
      er_initial = Some \<lparr>is_team = te_team h, is_view = te_view h, is_catalog = te_catalog h,
        is_gateways = Descriptors (te_registry h), is_profiles = te_profiles h, is_draft = te_draft h,
        is_diagnostics = (case te_draft h of None \<Rightarrow> [] | Some d \<Rightarrow> DiagnosticsForDraft (ew_yaml w) (ew_text w) d (te_catalog h))\<rparr>,
      er_diagnostics = [], er_published = None\<rparr>"

definition team_open :: "editor_world \<Rightarrow> editor_request \<Rightarrow> team_editor \<Rightarrow> editor_response \<times> team_editor" where
  "team_open w q h =
     (if \<not> te_team h then (response_refused NotTeam, h)
      else if eq_view q = ViewNew then
        let g = h\<lparr>te_draft := Some (NewDraft (ew_uuid w)), te_catalog := [], te_init_error := None, te_view := ViewNew\<rparr> in (initial w g, g)
      else if eq_view q \<noteq> ViewEdit \<and> eq_view q \<noteq> ViewInspect
      then (response_refused (UnknownView (case eq_view q of ViewOther s \<Rightarrow> s | _ \<Rightarrow> [])), h)
      else if eq_profile q = [] then (response_refused NoRevision, h)
      else case stored_profile (ew_yaml w) (te_store h) (eq_profile q) (eq_revision q) of
        Inl e \<Rightarrow> (response_refused (EditorStore e), h)
      | Inr doc \<Rightarrow>
          (case loadCatalog w (p_gateway (doc_profile doc)) h of
             (failure, h1) \<Rightarrow>
               let g = h1\<lparr>te_init_error := failure, te_draft := Some (DraftFromProfile (doc_profile doc) (te_catalog h1)),
                          te_view := eq_view q\<rparr>
               in (initial w g, g)))"

definition clear_models :: "team_draft \<Rightarrow> team_draft" where
  "clear_models d = d\<lparr>td_primary := (td_primary d)\<lparr>dm_model := no_choice\<rparr>,
     td_peers := map (\<lambda>m. m\<lparr>dm_model := no_choice\<rparr>) (td_peers d),
     td_specialists := map (\<lambda>m. m\<lparr>dm_model := no_choice\<rparr>) (td_specialists d)\<rparr>"

definition team_gateway :: "editor_world \<Rightarrow> editor_request \<Rightarrow> team_editor \<Rightarrow> editor_response \<times> team_editor" where
  "team_gateway w q h =
     (if \<not> te_team h \<or> te_view h = ViewInspect then (response_refused ReadOnly, h)
      else let gateway = to_lower (trim (eq_gateway q)) in
        if gateway = [] then (response_refused NoGateway, h)
        else case loadCatalog w gateway h of
          (Some e, h1) \<Rightarrow> (response_refused e, h1)
        | (None, h1) \<Rightarrow>
            let d = (case eq_draft q of Some d \<Rightarrow> d | None \<Rightarrow> (case te_draft h1 of Some d \<Rightarrow> d | None \<Rightarrow> NewDraft (ew_uuid w)));
                d' = (if td_gateway d \<noteq> gateway then clear_models (d\<lparr>td_gateway := gateway\<rparr>) else d);
                g = h1\<lparr>te_draft := Some d', te_init_error := None\<rparr>
            in (initial w g, g))"

definition team_validate :: "editor_world \<Rightarrow> editor_request \<Rightarrow> team_editor \<Rightarrow> editor_response \<times> team_editor" where
  "team_validate w q h =
     (if \<not> te_team h \<or> te_view h = ViewInspect then (response_refused ReadOnly, h)
      else case eq_draft q of
        None \<Rightarrow> (response_refused NoDraft, h)
      | Some d \<Rightarrow>
          let ds = DiagnosticsForDraft (ew_yaml w) (ew_text w) d (te_catalog h)
          in (\<lparr>er_ok = \<not> HasErrors ds, er_error = None, er_initial = None, er_diagnostics = ds, er_published = None\<rparr>, h))"

definition team_publish :: "editor_world \<Rightarrow> editor_request \<Rightarrow> team_editor \<Rightarrow> editor_response \<times> team_editor" where
  "team_publish w q h =
     (if \<not> te_team h \<or> te_view h = ViewInspect then (response_refused ReadOnly, h)
      else case eq_draft q of
        None \<Rightarrow> (response_refused NoDraft, h)
      | Some d \<Rightarrow>
          let ds = DiagnosticsForDraft (ew_yaml w) (ew_text w) d (te_catalog h) in
          if HasErrors ds then ((response_refused DraftInvalid)\<lparr>er_diagnostics := ds\<rparr>, h)
          else case PublishProfile (ew_yaml w) (ew_now w) (draft_profile d) (td_base d) (te_store h) of
            Inl e \<Rightarrow> ((response_refused (EditorStore e))\<lparr>er_diagnostics := ds\<rparr>, h)
          | Inr (doc, st) \<Rightarrow>
              let pub = \<lparr>pb_id = p_id (doc_profile doc), pb_revision = p_revision (doc_profile doc), pb_digest = doc_digest doc\<rparr>
              in (\<lparr>er_ok = True, er_error = None, er_initial = None, er_diagnostics = ds, er_published = Some pub\<rparr>,
                  h\<lparr>te_store := st, te_draft := Some (d\<lparr>td_base := p_revision (doc_profile doc)\<rparr>), te_published := Some pub\<rparr>))"

text \<open>
  The graph of a session is another mode of the window and not active here. What the window shows of
  the runtime's capabilities is a copy of settings and left out of \<open>initial_state\<close>.
\<close>

definition exchange :: "editor_world \<Rightarrow> editor_request \<Rightarrow> team_editor \<Rightarrow> editor_response \<times> team_editor" where
  "exchange w q h =
     (if eq_operation q = ''init'' then (initial w h, h)
      else if eq_operation q = ''team.open'' then team_open w q h
      else if eq_operation q = ''team.gateway'' then team_gateway w q h
      else if eq_operation q = ''team.validate'' then team_validate w q h
      else if eq_operation q = ''team.publish'' then team_publish w q h
      else if eq_operation q = ''thinking.snapshot'' then (response_refused NoGraph, h)
      else (response_refused (UnknownOperation (eq_operation q)), h))"

text \<open>The requests and responses as bytes, by the codec of \<open>encoding/json\<close>.\<close>

record editor_codec =
  ec_decode :: "string \<Rightarrow> editor_request option"
  ec_encode :: "editor_response \<Rightarrow> string"

definition exchangeBytes :: "editor_codec \<Rightarrow> editor_world \<Rightarrow> string \<Rightarrow> team_editor \<Rightarrow> string \<times> team_editor" where
  "exchangeBytes cx w source h =
     (case ec_decode cx source of
        None \<Rightarrow> (ec_encode cx (response_refused UndecodableRequest), h)
      | Some q \<Rightarrow> (case exchange w q h of (r, g) \<Rightarrow> (ec_encode cx r, g)))"

definition ExchangeSized :: "editor_codec \<Rightarrow> editor_world \<Rightarrow> string \<Rightarrow> nat \<Rightarrow> team_editor \<Rightarrow> string \<times> team_editor" where
  "ExchangeSized cx w source capacity h =
     (if capacity = 0 then
        (case exchangeBytes cx w source h of (response, g) \<Rightarrow> (response, g\<lparr>te_prepared := Some (source, response)\<rparr>))
      else case te_prepared h of
        Some (request, response) \<Rightarrow>
          if source = request then (response, if length response \<le> capacity then h\<lparr>te_prepared := None\<rparr> else h)
          else exchangeBytes cx w source h
      | None \<Rightarrow> exchangeBytes cx w source h)"

definition NewEditor :: "editor_world \<Rightarrow> string \<Rightarrow> int \<Rightarrow> gateway_registry \<Rightarrow> store \<Rightarrow> (editor_error, team_editor) res" where
  "NewEditor w profileID revision rg st =
     (let h = \<lparr>te_team = True, te_view = ViewNew, te_catalog = [], te_draft = None, te_published = None, te_init_error = None,
               te_profiles = ListProfiles st, te_registry = rg, te_store = st, te_prepared = None\<rparr> in
      if profileID = [] then Inr (h\<lparr>te_draft := Some (NewDraft (ew_uuid w))\<rparr>)
      else case stored_profile (ew_yaml w) st profileID revision of
        Inl e \<Rightarrow> Inl (EditorStore e)
      | Inr doc \<Rightarrow>
          (case loadCatalog w (p_gateway (doc_profile doc)) h of
             (failure, h1) \<Rightarrow> Inr (h1\<lparr>te_init_error := failure, te_view := ViewInspect,
                te_draft := Some (DraftFromProfile (doc_profile doc) (te_catalog h1))\<rparr>)))"

section \<open>Assigning edges\<close>

definition map_agents :: "(agent \<Rightarrow> agent) \<Rightarrow> profile \<Rightarrow> profile" where
  "map_agents f p = p\<lparr>p_primary := f (p_primary p), p_peers := map f (p_peers p)\<rparr>"

abbreviation at_agent :: "string \<Rightarrow> (agent \<Rightarrow> agent) \<Rightarrow> agent \<Rightarrow> agent" where
  "at_agent i f \<equiv> (\<lambda>a. if ag_id a = i then f a else a)"

abbreviation agent_ids :: "profile \<Rightarrow> string list" where
  "agent_ids p \<equiv> map ag_id (Agents p)"

lemma Agents_map [simp]: "Agents (map_agents f p) = map f (Agents p)"
  by (simp add: Agents_def map_agents_def)

lemma at_agent_id: "i \<notin> ag_id ` set as \<Longrightarrow> map (at_agent i f) as = as"
  by (induction as) auto

lemma update_first_map:
  "distinct (map ag_id as) \<Longrightarrow> update_first i f as = (if i \<in> ag_id ` set as then Some (map (at_agent i f) as) else None)"
  by (induction as) (auto simp: at_agent_id)

lemma updateAgent_map:
  "distinct (agent_ids p) \<Longrightarrow>
   updateAgent p i f = (if i \<in> set (agent_ids p) then Some (map_agents (at_agent i f) p) else None)"
  by (auto simp: updateAgent_def Agents_def update_first_map map_agents_def at_agent_id)

text \<open>Who lists whom, before the direction of a peer relation is forgotten.\<close>

definition peers_of :: "profile \<Rightarrow> (string \<times> string) set" where
  "peers_of p = {(i, j). \<exists>a \<in> set (Agents p). ag_id a = i \<and> j \<in> set (ag_peers a)}"

definition permits :: "profile \<Rightarrow> (string \<times> string) set" where
  "permits p = {(i, j). \<exists>a \<in> set (Agents p). ag_id a = i \<and> j \<in> set (ag_specialists a)}"

definition lists_distinct :: "profile \<Rightarrow> bool" where
  "lists_distinct p \<longleftrightarrow> (\<forall>a \<in> set (Agents p). distinct (ag_peers a) \<and> distinct (ag_specialists a))"

abbreviation agent_card :: "agent \<Rightarrow> string \<times> string \<times> string" where
  "agent_card a \<equiv> (ag_id a, ag_model a, ag_definition a)"

definition header_of :: "profile \<Rightarrow> profile" where
  "header_of p = p\<lparr>p_primary := \<lparr>ag_id = [], ag_model = [], ag_definition = [], ag_peers = [], ag_specialists = []\<rparr>, p_peers := []\<rparr>"

text \<open>Two profiles that differ in the lists of peers and specialists only.\<close>

definition same_members :: "profile \<Rightarrow> profile \<Rightarrow> bool" where
  "same_members p q \<longleftrightarrow> map agent_card (Agents q) = map agent_card (Agents p) \<and> header_of q = header_of p"

lemma same_members_refl [simp]: "same_members p p"
  by (simp add: same_members_def)

lemma same_members_trans: "same_members p q \<Longrightarrow> same_members q r \<Longrightarrow> same_members p r"
  by (simp add: same_members_def)

lemma same_members_ids:
  assumes "same_members p q"
  shows "agent_ids q = agent_ids p"
proof -
  have "map fst (map agent_card (Agents q)) = map fst (map agent_card (Agents p))"
    using assms by (simp add: same_members_def)
  then show ?thesis by (simp add: comp_def)
qed

lemma appendUnique_props [simp]: "set (appendUnique xs x) = insert x (set xs)" "distinct (appendUnique xs x) = distinct xs"
  by (auto simp: appendUnique_def)

lemma map_agents_same: "(\<And>a. agent_card (f a) = agent_card a) \<Longrightarrow> same_members p (map_agents f p)"
  by (simp add: same_members_def header_of_def comp_def) (simp add: map_agents_def)

lemma at_agent_simps [simp]:
  "ag_id (at_agent i (add_peer j) a) = ag_id a" "ag_id (at_agent i (add_specialist j) a) = ag_id a"
  "set (ag_peers (at_agent i (add_peer j) a)) = (if ag_id a = i then insert j (set (ag_peers a)) else set (ag_peers a))"
  "set (ag_specialists (at_agent i (add_specialist j) a)) = (if ag_id a = i then insert j (set (ag_specialists a)) else set (ag_specialists a))"
  "ag_specialists (at_agent i (add_peer j) a) = ag_specialists a" "ag_peers (at_agent i (add_specialist j) a) = ag_peers a"
  "distinct (ag_peers (at_agent i (add_peer j) a)) = distinct (ag_peers a)"
  "distinct (ag_specialists (at_agent i (add_specialist j) a)) = distinct (ag_specialists a)"
  by (simp_all add: add_peer_def add_specialist_def)

lemma peers_of_map:
  assumes "i \<in> set (agent_ids p)"
  shows "peers_of (map_agents (at_agent i (add_peer j)) p) = insert (i, j) (peers_of p)"
proof -
  have "(x, y) \<in> peers_of (map_agents (at_agent i (add_peer j)) p) \<longleftrightarrow> (x, y) \<in> insert (i, j) (peers_of p)" for x y
  proof (cases "x = i")
    case True
    then show ?thesis using assms unfolding peers_of_def Agents_map set_map bex_simps at_agent_simps mem_Collect_eq prod.case by auto
  next
    case False
    then show ?thesis unfolding peers_of_def Agents_map set_map bex_simps at_agent_simps mem_Collect_eq prod.case by (auto cong: conj_cong)
  qed
  then show ?thesis by auto
qed

lemma permits_map:
  assumes "i \<in> set (agent_ids p)"
  shows "permits (map_agents (at_agent i (add_specialist j)) p) = insert (i, j) (permits p)"
proof -
  have "(x, y) \<in> permits (map_agents (at_agent i (add_specialist j)) p) \<longleftrightarrow> (x, y) \<in> insert (i, j) (permits p)" for x y
  proof (cases "x = i")
    case True
    then show ?thesis using assms unfolding permits_def Agents_map set_map bex_simps at_agent_simps mem_Collect_eq prod.case by auto
  next
    case False
    then show ?thesis unfolding permits_def Agents_map set_map bex_simps at_agent_simps mem_Collect_eq prod.case by (auto cong: conj_cong)
  qed
  then show ?thesis by auto
qed

lemma assignPeer_step:
  assumes "distinct (agent_ids p)" and "trim (pe_first e) \<in> set (agent_ids p)" and "trim (pe_first e) \<noteq> []" and "trim (pe_second e) \<noteq> []"
  shows "same_members p (assignPeer e p) \<and> peers_of (assignPeer e p) = insert (trim (pe_first e), trim (pe_second e)) (peers_of p) \<and>
    permits (assignPeer e p) = permits p \<and> lists_distinct (assignPeer e p) = lists_distinct p"
proof -
  have form: "assignPeer e p = map_agents (at_agent (trim (pe_first e)) (add_peer (trim (pe_second e)))) p"
    using assms by (simp add: assignPeer_def Let_def updateAgent_map)
  have "same_members p (assignPeer e p)" unfolding form by (rule map_agents_same) (simp add: add_peer_def)
  moreover have "permits (assignPeer e p) = permits p"
    unfolding form permits_def Agents_map set_map bex_simps at_agent_simps ..
  moreover have "lists_distinct (assignPeer e p) = lists_distinct p"
    unfolding form lists_distinct_def Agents_map set_map ball_simps at_agent_simps ..
  ultimately show ?thesis using peers_of_map [OF assms(2)] by (simp only: form simp_thms)
qed

lemma assignSpecialist_step:
  assumes "distinct (agent_ids p)" and "trim (se_agent e) \<in> set (agent_ids p)"
  shows "same_members p (assignSpecialist e p) \<and> permits (assignSpecialist e p) = insert (trim (se_agent e), trim (se_specialist e)) (permits p) \<and>
    peers_of (assignSpecialist e p) = peers_of p \<and> lists_distinct (assignSpecialist e p) = lists_distinct p"
proof -
  have form: "assignSpecialist e p = map_agents (at_agent (trim (se_agent e)) (add_specialist (trim (se_specialist e)))) p"
    using assms by (simp add: assignSpecialist_def updateAgent_map)
  have "same_members p (assignSpecialist e p)" unfolding form by (rule map_agents_same) (simp add: add_specialist_def)
  moreover have "peers_of (assignSpecialist e p) = peers_of p"
    unfolding form peers_of_def Agents_map set_map bex_simps at_agent_simps ..
  moreover have "lists_distinct (assignSpecialist e p) = lists_distinct p"
    unfolding form lists_distinct_def Agents_map set_map ball_simps at_agent_simps ..
  ultimately show ?thesis using permits_map [OF assms(2)] by (simp only: form simp_thms)
qed

lemma assign_peers:
  "distinct (agent_ids p) \<Longrightarrow> \<forall>e \<in> set es. trim (pe_first e) \<in> set (agent_ids p) \<and> trim (pe_first e) \<noteq> [] \<and> trim (pe_second e) \<noteq> [] \<Longrightarrow>
   same_members p (fold assignPeer es p) \<and>
   peers_of (fold assignPeer es p) = peers_of p \<union> (\<lambda>e. (trim (pe_first e), trim (pe_second e))) ` set es \<and>
   permits (fold assignPeer es p) = permits p \<and> lists_distinct (fold assignPeer es p) = lists_distinct p"
proof (induction es arbitrary: p)
  case (Cons e es)
  have step: "same_members p (assignPeer e p)" "peers_of (assignPeer e p) = insert (trim (pe_first e), trim (pe_second e)) (peers_of p)"
    "permits (assignPeer e p) = permits p" "lists_distinct (assignPeer e p) = lists_distinct p"
    using assignPeer_step [of p e] Cons.prems by simp_all
  note ids = same_members_ids [OF step(1)]
  have "distinct (agent_ids (assignPeer e p))" "\<forall>e' \<in> set es. trim (pe_first e') \<in> set (agent_ids (assignPeer e p)) \<and>
      trim (pe_first e') \<noteq> [] \<and> trim (pe_second e') \<noteq> []"
    unfolding ids using Cons.prems by simp_all
  from Cons.IH [OF this] step show ?case using same_members_trans [OF step(1)] by simp
qed simp

lemma assign_specialists:
  "distinct (agent_ids p) \<Longrightarrow> \<forall>e \<in> set es. trim (se_agent e) \<in> set (agent_ids p) \<Longrightarrow>
   same_members p (fold assignSpecialist es p) \<and>
   permits (fold assignSpecialist es p) = permits p \<union> (\<lambda>e. (trim (se_agent e), trim (se_specialist e))) ` set es \<and>
   peers_of (fold assignSpecialist es p) = peers_of p \<and> lists_distinct (fold assignSpecialist es p) = lists_distinct p"
proof (induction es arbitrary: p)
  case (Cons e es)
  have step: "same_members p (assignSpecialist e p)"
    "permits (assignSpecialist e p) = insert (trim (se_agent e), trim (se_specialist e)) (permits p)"
    "peers_of (assignSpecialist e p) = peers_of p" "lists_distinct (assignSpecialist e p) = lists_distinct p"
    using assignSpecialist_step [of p e] Cons.prems by simp_all
  note ids = same_members_ids [OF step(1)]
  have "distinct (agent_ids (assignSpecialist e p))" "\<forall>e' \<in> set es. trim (se_agent e') \<in> set (agent_ids (assignSpecialist e p))"
    unfolding ids using Cons.prems by simp_all
  from Cons.IH [OF this] step show ?case using same_members_trans [OF step(1)] by simp
qed simp

section \<open>What a draft amounts to\<close>

definition may_peer :: "profile \<Rightarrow> string \<Rightarrow> string \<Rightarrow> bool" where
  "may_peer p i j \<longleftrightarrow> (\<exists>a \<in> set (Agents p). ag_id a = i \<and> PeerAgentFor p a j \<noteq> None)"

definition may_call :: "profile \<Rightarrow> string \<Rightarrow> string \<Rightarrow> bool" where
  "may_call p i j \<longleftrightarrow> (\<exists>a \<in> set (Agents p). ag_id a = i \<and> SpecialistFor p a j \<noteq> None)"

lemma may_peer_iff:
  assumes "distinct (agent_ids p)"
  shows "may_peer p i j \<longleftrightarrow> i \<noteq> j \<and> i \<in> set (agent_ids p) \<and> j \<in> set (agent_ids p) \<and> ((i, j) \<in> peers_of p \<or> (j, i) \<in> peers_of p)"
proof
  assume "may_peer p i j"
  then obtain a b where "a \<in> set (Agents p)" "ag_id a = i" "PeerAgentFor p a j = Some b" by (auto simp: may_peer_def)
  with PeerAgentFor_peer [OF this(3)] show "i \<noteq> j \<and> i \<in> set (agent_ids p) \<and> j \<in> set (agent_ids p) \<and> ((i, j) \<in> peers_of p \<or> (j, i) \<in> peers_of p)"
    by (auto simp: peers_of_def)
next
  assume r: "i \<noteq> j \<and> i \<in> set (agent_ids p) \<and> j \<in> set (agent_ids p) \<and> ((i, j) \<in> peers_of p \<or> (j, i) \<in> peers_of p)"
  then obtain a b where ab: "a \<in> set (Agents p)" "ag_id a = i" "b \<in> set (Agents p)" "ag_id b = j" by auto
  have one: "c = a" if "c \<in> set (Agents p)" "ag_id c = i" for c
    using that ab assms by (auto simp: distinct_map inj_on_def)
  have other: "c = b" if "c \<in> set (Agents p)" "ag_id c = j" for c
    using that ab assms by (auto simp: distinct_map inj_on_def)
  have "Agent p j = Some b" using Agent_distinct [OF assms ab(3)] ab(4) by simp
  moreover have "j \<in> set (ag_peers a) \<or> i \<in> set (ag_peers b)"
    using r one other by (auto simp: peers_of_def)
  ultimately have "PeerAgentFor p a j = Some b" using r ab by (auto simp: PeerAgentFor_def)
  then show "may_peer p i j" using ab by (auto simp: may_peer_def)
qed

lemma may_call_iff: "may_call p i j \<longleftrightarrow> (i, j) \<in> permits p \<and> j \<in> sp_id ` set (p_specialists p)"
proof -
  have "SpecialistFor p a j \<noteq> None \<longleftrightarrow> j \<in> set (ag_specialists a) \<and> j \<in> sp_id ` set (p_specialists p)" for a
    by (auto simp: SpecialistFor_def Specialist_def find_None_iff simp del: not_None_eq split: if_splits)
  then show ?thesis by (auto simp: may_call_def permits_def simp del: not_None_eq)
qed

lemma base_parts:
  "Agents (draft_base d) = member_agent (td_primary d) # map member_agent (named (td_peers d))"
  "peers_of (draft_base d) = {}" "permits (draft_base d) = {}" "lists_distinct (draft_base d)"
  by (auto simp: draft_base_def Agents_def peers_of_def permits_def lists_distinct_def member_agent_def)

text \<open>Every edge of a draft between known members becomes a relation of the profile, and nothing else does.\<close>

definition edges_known :: "team_draft \<Rightarrow> bool" where
  "edges_known d \<longleftrightarrow>
     (\<forall>e \<in> set (td_peer_edges d). trim (pe_first e) \<in> set (draft_agent_ids d) \<and> trim (pe_second e) \<in> set (draft_agent_ids d)) \<and>
     (\<forall>e \<in> set (td_specialist_edges d). trim (se_agent e) \<in> set (draft_agent_ids d) \<and> trim (se_specialist e) \<in> set (draft_specialist_ids d))"

lemma draft_profile_parts:
  assumes ids: "distinct (agent_ids (draft_base d))" and known: "edges_known d"
  shows "same_members (draft_base d) (draft_profile d) \<and> lists_distinct (draft_profile d) \<and>
    peers_of (draft_profile d) = (\<lambda>e. (trim (pe_first e), trim (pe_second e))) ` set (td_peer_edges d) \<and>
    permits (draft_profile d) = (\<lambda>e. (trim (se_agent e), trim (se_specialist e))) ` set (td_specialist_edges d)"
proof -
  let ?q = "fold assignPeer (td_peer_edges d) (draft_base d)"
  have in_base: "i \<in> set (draft_agent_ids d) \<Longrightarrow> i \<in> set (agent_ids (draft_base d)) \<and> i \<noteq> []" for i
    unfolding draft_agent_ids_def set_filter by (auto simp: base_parts member_agent_def named_def)
  have "\<forall>e \<in> set (td_peer_edges d). trim (pe_first e) \<in> set (agent_ids (draft_base d)) \<and> trim (pe_first e) \<noteq> [] \<and> trim (pe_second e) \<noteq> []"
    using known in_base unfolding edges_known_def by blast
  from assign_peers [OF ids this]
  have q: "same_members (draft_base d) ?q" "lists_distinct ?q" "permits ?q = {}"
    "peers_of ?q = (\<lambda>e. (trim (pe_first e), trim (pe_second e))) ` set (td_peer_edges d)"
    by (simp_all add: base_parts)
  note qids = same_members_ids [OF q(1)]
  have "\<forall>e \<in> set (td_specialist_edges d). trim (se_agent e) \<in> set (agent_ids ?q)"
    unfolding qids using known in_base unfolding edges_known_def by blast
  from assign_specialists [OF ids [folded qids] this] q same_members_trans [OF q(1)]
  show ?thesis by (simp add: draft_profile_def)
qed

section \<open>What the diagnostics guarantee\<close>

lemma update_first_ids: "update_first i f as = Some bs \<Longrightarrow> (\<And>a. ag_id (f a) = ag_id a) \<Longrightarrow> map ag_id bs = map ag_id as"
  by (induction as arbitrary: bs) (auto split: if_splits)

lemma updateAgent_ids: "updateAgent p i f = Some q \<Longrightarrow> (\<And>a. ag_id (f a) = ag_id a) \<Longrightarrow> agent_ids q = agent_ids p"
  by (auto simp: updateAgent_def Agents_def dest: update_first_ids split: if_splits)

lemma assignPeer_ids [simp]: "agent_ids (assignPeer e p) = agent_ids p"
proof -
  have "ag_id (add_peer j a) = ag_id a" for j a by (simp add: add_peer_def)
  then show ?thesis by (auto simp: assignPeer_def Let_def dest!: updateAgent_ids split: option.splits)
qed

lemma assignSpecialist_ids [simp]: "agent_ids (assignSpecialist e p) = agent_ids p"
proof -
  have "ag_id (add_specialist j a) = ag_id a" for j a by (simp add: add_specialist_def)
  then show ?thesis by (auto simp: assignSpecialist_def dest!: updateAgent_ids split: option.splits)
qed

lemma fold_ids:
  "agent_ids (fold assignPeer es p) = agent_ids p" "agent_ids (fold assignSpecialist fs p) = agent_ids p"
  by (induction es arbitrary: p, simp_all del: map_map) (induction fs arbitrary: p, simp_all del: map_map)

lemma draft_profile_ids: "agent_ids (draft_profile d) = agent_ids (draft_base d)"
  by (simp add: draft_profile_def fold_ids del: map_map)

lemma assign_header: "header_of (assignPeer e p) = header_of p" "header_of (assignSpecialist f p) = header_of p"
  by (auto simp: assignPeer_def assignSpecialist_def updateAgent_def Let_def header_of_def split: option.splits)

lemma fold_header: "header_of (fold assignPeer es p) = header_of p" "header_of (fold assignSpecialist fs p) = header_of p"
  by (induction es arbitrary: p, simp_all add: assign_header) (induction fs arbitrary: p, simp_all add: assign_header)

lemma header_fields:
  assumes "header_of q = header_of p"
  shows "p_schema q = p_schema p" "p_id q = p_id p" "p_revision q = p_revision p" "p_name q = p_name p" "p_gateway q = p_gateway p"
    "p_models q = p_models p" "p_specialists q = p_specialists p"
    "p_persist_reasoning q = p_persist_reasoning p" "p_metadata q = p_metadata p"
  using assms by (cases p; cases q; simp add: header_of_def)+

lemma draft_profile_header: "header_of (draft_profile d) = header_of (draft_base d)"
  by (simp add: draft_profile_def fold_header)

lemmas draft_fields = header_fields [OF draft_profile_header]

text \<open>Loading a draft's profile changes nothing.\<close>

lemma migrate_plain: "\<forall>(alias, m) \<in> set ms. m_legacy_gateway m = [] \<Longrightarrow> migrate_models g ms = Inr (g, ms)"
  by (induction g ms rule: migrate_models.induct) (auto simp: Let_def)

lemma draft_models_fold:
  "\<forall>(alias, m) \<in> set ms0. m_legacy_gateway m = [] \<Longrightarrow>
   \<forall>(alias, m) \<in> set (fold (\<lambda>m. AList.update (trim (dm_id m)) (profileModel (dm_model m))) ms ms0). m_legacy_gateway m = []"
proof (induction ms arbitrary: ms0)
  case (Cons m ms)
  have "m_legacy_gateway (profileModel (dm_model m)) = []" by (simp add: profileModel_def)
  moreover have "set (AList.update k v xs) \<subseteq> insert (k, v) (set xs)" for k v and xs :: "(string, model) gomap"
    by (induction xs) auto
  ultimately have "\<forall>(alias, m) \<in> set (AList.update (trim (dm_id m)) (profileModel (dm_model m)) ms0). m_legacy_gateway m = []"
    using Cons.prems by fastforce
  from Cons.IH [OF this] show ?case by simp
qed simp

lemma draft_migrated: "migrateLegacyGateways ((draft_profile d)\<lparr>p_revision := n\<rparr>) = Inr ((draft_profile d)\<lparr>p_revision := n\<rparr>)"
proof -
  let ?q = "(draft_profile d)\<lparr>p_revision := n\<rparr>"
  have "migrate_models g (p_models ?q) = Inr (g, p_models ?q)" for g
    using migrate_plain [OF draft_models_fold [of "[]"]] by (simp add: draft_fields draft_base_def draft_models_def)
  moreover have "to_lower (trim (p_gateway ?q)) = p_gateway ?q"
    by (simp add: draft_fields draft_base_def trim_to_lower)
  ultimately show ?thesis by (simp add: migrateLegacyGateways_def)
qed

lemma draft_defaults: "applyDefaults ((draft_profile d)\<lparr>p_revision := n\<rparr>) = (draft_profile d)\<lparr>p_revision := n\<rparr>"
  by (simp add: applyDefaults_def draft_fields draft_base_def CurrentSchema_def)

lemma draft_document:
  assumes "\<And>p s. ym_encode ym p = Some s \<Longrightarrow> ym_decode ym s = Some p"
    and "FromValue (ym_encode ym) (ym_decode ym) (ym_sha ym) ((draft_profile d)\<lparr>p_revision := n\<rparr>) = Inr doc"
  shows "doc_profile doc = (draft_profile d)\<lparr>p_revision := n\<rparr>"
  using assms(2) draft_migrated [of n d] draft_defaults [of n d]
  by (auto simp: FromValue_def Parse_def dest!: assms(1) split: option.splits)

lemma HasErrors_enumerate:
  assumes "\<And>i m. HasErrors (f i m) \<longleftrightarrow> P m"
  shows "HasErrors (concat (map (\<lambda>(i, m). f i m) (enumerate n ms))) \<longleftrightarrow> (\<exists>m \<in> set ms. P m)"
  by (induction ms arbitrary: n) (simp_all add: assms)

lemma peer_edge_checks_clean:
  "\<not> HasErrors (peer_edge_checks agents i seen es) \<longleftrightarrow>
   (\<forall>e \<in> set es. trim (pe_first e) \<in> set agents \<and> trim (pe_second e) \<in> set agents \<and> trim (pe_first e) \<noteq> trim (pe_second e)) \<and>
   distinct (map (\<lambda>e. edge_key (trim (pe_first e)) (trim (pe_second e))) es) \<and>
   (\<forall>e \<in> set es. edge_key (trim (pe_first e)) (trim (pe_second e)) \<notin> seen)"
proof (induction es arbitrary: i seen)
  case (Cons e es)
  have step: "\<not> HasErrors (peer_edge_checks agents i seen (e # es)) \<longleftrightarrow>
      trim (pe_first e) \<in> set agents \<and> trim (pe_second e) \<in> set agents \<and> trim (pe_first e) \<noteq> trim (pe_second e) \<and>
      edge_key (trim (pe_first e)) (trim (pe_second e)) \<notin> seen \<and>
      \<not> HasErrors (peer_edge_checks agents (Suc i) (insert (edge_key (trim (pe_first e)) (trim (pe_second e))) seen) es)"
    by (auto simp: peer_edge_check_def Let_def)
  have apart: "(\<forall>e' \<in> set es. f e' \<notin> insert (f e) seen) \<longleftrightarrow> f e \<notin> f ` set es \<and> (\<forall>e' \<in> set es. f e' \<notin> seen)" for f :: "peer_edge \<Rightarrow> string"
    by (auto simp: image_iff)
  show ?case unfolding step Cons.IH apart [of "\<lambda>e. edge_key (trim (pe_first e)) (trim (pe_second e))"] by auto
qed simp

lemma member_checks_clean:
  "\<not> HasErrors (member_checks name ms) \<longleftrightarrow> (\<forall>m \<in> set ms. trim (dm_id m) \<noteq> [] \<and> trim (mc_id (dm_model m)) \<noteq> [])"
  unfolding member_checks_def
  by (subst HasErrors_enumerate [where P = "\<lambda>m. trim (dm_id m) = [] \<or> trim (mc_id (dm_model m)) = []"]) auto

lemma specialist_edge_checks_clean:
  "\<not> HasErrors (specialist_edge_checks d) \<longleftrightarrow>
   (\<forall>e \<in> set (td_specialist_edges d). trim (se_agent e) \<in> set (draft_agent_ids d) \<and> trim (se_specialist e) \<in> set (draft_specialist_ids d))"
  unfolding specialist_edge_checks_def
  by (subst HasErrors_enumerate [where P = "\<lambda>e. trim (se_agent e) \<notin> set (draft_agent_ids d) \<or> trim (se_specialist e) \<notin> set (draft_specialist_ids d)"]) auto

definition offered :: "team_draft \<Rightarrow> catalog_model list \<Rightarrow> draft_member \<Rightarrow> bool" where
  "offered d catalog m \<longleftrightarrow> CatalogIdentity (choice_item (td_gateway d) (dm_model m)) \<in> CatalogIdentity ` set catalog"

lemma catalog_checks_clean:
  "\<not> HasErrors (catalog_checks d catalog) \<longleftrightarrow> (\<forall>m \<in> set (draft_members d). trim (mc_id (dm_model m)) = [] \<or> offered d catalog m)"
proof -
  have one: "HasErrors (catalog_check d catalog path (dm_model m)) \<longleftrightarrow> trim (mc_id (dm_model m)) \<noteq> [] \<and> \<not> offered d catalog m" for path m
    by (simp add: catalog_check_def offered_def)
  have many: "HasErrors (concat (map (\<lambda>(i, m). catalog_check d catalog (indexed name i @ ''.model'') (dm_model m)) (enumerate 0 ms))) \<longleftrightarrow>
      (\<exists>m \<in> set ms. trim (mc_id (dm_model m)) \<noteq> [] \<and> \<not> offered d catalog m)" for name ms
    by (rule HasErrors_enumerate) (rule one)
  show ?thesis by (auto simp: catalog_checks_def one many draft_members_def)
qed

lemma relevant_errors:
  assumes "trim (td_id d) \<noteq> []" and "\<forall>m \<in> set (draft_members d). trim (mc_id (dm_model m)) \<noteq> []"
  shows "HasErrors (concat (map (relevant d) ds)) \<longleftrightarrow> HasErrors ds"
proof -
  have "filter (\<lambda>m. trim (mc_id (dm_model m)) = [] \<and> trim (dm_id m) \<noteq> []) (draft_members d) = []"
    using assms(2) by (auto simp: filter_empty_conv)
  then have "relevant d x = [if d_path x = ''name'' then x\<lparr>d_path := ''team.name''\<rparr> else x]" for x
    using assms(1) by (simp add: relevant_def Let_def)
  then show ?thesis by (induction ds) simp_all
qed

text \<open>
  The diagnostics of a draft whose profile can be encoded have no error exactly when all this holds:
  the profile it stands for is valid, every edge joins known members, no pair of peers is drawn
  twice, and every member has a name and a model the catalog offers.
\<close>

definition edges_apart :: "team_draft \<Rightarrow> bool" where
  "edges_apart d \<longleftrightarrow>
     (\<forall>e \<in> set (td_peer_edges d). trim (pe_first e) \<noteq> trim (pe_second e)) \<and>
     distinct (map (\<lambda>e. edge_key (trim (pe_first e)) (trim (pe_second e))) (td_peer_edges d))"

definition draft_sound :: "team_draft \<Rightarrow> catalog_model list \<Rightarrow> bool" where
  "draft_sound d catalog \<longleftrightarrow>
     team_ok ((draft_profile d)\<lparr>p_revision := td_base d + 1\<rparr>) \<and> edges_known d \<and> edges_apart d \<and>
     (\<forall>m \<in> set (draft_members d). trim (dm_id m) \<noteq> [] \<and> trim (mc_id (dm_model m)) \<noteq> [] \<and> offered d catalog m)"

lemma draft_profile_id: "is_identifier (p_id (draft_profile d)) \<Longrightarrow> trim (td_id d) \<noteq> []"
  by (auto simp: draft_fields draft_base_def is_identifier_def)

lemma draft_diagnostics:
  assumes law: "\<And>p s. ym_encode ym p = Some s \<Longrightarrow> ym_decode ym s = Some p"
    and doc: "FromValue (ym_encode ym) (ym_decode ym) (ym_sha ym) ((draft_profile d)\<lparr>p_revision := td_base d + 1\<rparr>) = Inr doc"
  shows "\<not> HasErrors (DiagnosticsForDraft ym error_text d catalog) \<longleftrightarrow> draft_sound d catalog"
proof -
  let ?q = "(draft_profile d)\<lparr>p_revision := td_base d + 1\<rparr>"
  note same = draft_document [OF law doc]
  have parts: "\<not> HasErrors (DiagnosticsForDraft ym error_text d catalog) \<longleftrightarrow>
      \<not> HasErrors (concat (map (relevant d) (Validate ?q))) \<and>
      (trim (td_id d) \<noteq> [] \<and> trim (mc_id (dm_model (td_primary d))) \<noteq> [] \<and> trim (dm_id (td_primary d)) \<noteq> [] \<and>
       \<not> HasErrors (member_checks ''peers'' (td_peers d)) \<and> \<not> HasErrors (member_checks ''specialists'' (td_specialists d))) \<and>
      \<not> HasErrors (peer_edge_checks (draft_agent_ids d) 0 {} (td_peer_edges d)) \<and> \<not> HasErrors (specialist_edge_checks d) \<and>
      \<not> HasErrors (catalog_checks d catalog)"
    by (simp add: DiagnosticsForDraft_def doc same)
  have members: "trim (td_id d) \<noteq> [] \<and> trim (mc_id (dm_model (td_primary d))) \<noteq> [] \<and> trim (dm_id (td_primary d)) \<noteq> [] \<and>
       \<not> HasErrors (member_checks ''peers'' (td_peers d)) \<and> \<not> HasErrors (member_checks ''specialists'' (td_specialists d)) \<longleftrightarrow>
      trim (td_id d) \<noteq> [] \<and> (\<forall>m \<in> set (draft_members d). trim (dm_id m) \<noteq> [] \<and> trim (mc_id (dm_model m)) \<noteq> [])"
    by (auto simp: draft_members_def member_checks_clean)
  have edges: "\<not> HasErrors (peer_edge_checks (draft_agent_ids d) 0 {} (td_peer_edges d)) \<and> \<not> HasErrors (specialist_edge_checks d) \<longleftrightarrow>
      edges_known d \<and> edges_apart d"
    by (auto simp: peer_edge_checks_clean specialist_edge_checks_clean edges_known_def edges_apart_def)
  have ident: "trim (td_id d) \<noteq> []" if "team_ok ?q"
    using that draft_profile_id [of d] by (simp add: team_ok_def header_ok_def)
  have valid: "HasErrors (concat (map (relevant d) (Validate ?q))) \<longleftrightarrow> \<not> team_ok ?q"
    if "trim (td_id d) \<noteq> []" "\<forall>m \<in> set (draft_members d). trim (dm_id m) \<noteq> [] \<and> trim (mc_id (dm_model m)) \<noteq> []"
    using relevant_errors [OF that(1)] that(2) Validate_iff by blast
  show ?thesis unfolding parts members catalog_checks_clean draft_sound_def using valid ident edges by blast
qed

lemma may_revision [simp]: "may_peer (p\<lparr>p_revision := n\<rparr>) = may_peer p" "may_call (p\<lparr>p_revision := n\<rparr>) = may_call p"
proof -
  have "Agents (p\<lparr>p_revision := n\<rparr>) = Agents p" by (simp add: Agents_def)
  moreover have "PeerAgentFor (p\<lparr>p_revision := n\<rparr>) a i = PeerAgentFor p a i" "SpecialistFor (p\<lparr>p_revision := n\<rparr>) a i = SpecialistFor p a i" for a i
    by (simp_all add: PeerAgentFor_def Agent_def SpecialistFor_def Specialist_def)
  ultimately show "may_peer (p\<lparr>p_revision := n\<rparr>) = may_peer p" "may_call (p\<lparr>p_revision := n\<rparr>) = may_call p"
    by (simp_all add: may_peer_def may_call_def fun_eq_iff)
qed

lemma agents_revision [simp]: "Agents (p\<lparr>p_revision := n\<rparr>) = Agents p"
  by (simp add: Agents_def)

lemma base_ids: "set (draft_agent_ids d) \<subseteq> set (agent_ids (draft_base d))" "set (draft_specialist_ids d) = sp_id ` set (p_specialists (draft_base d))"
  unfolding draft_agent_ids_def draft_specialist_ids_def set_filter
  by (auto simp: base_parts member_agent_def named_def) (auto simp: draft_base_def member_specialist_def named_def image_image)

lemma drawn_relations:
  assumes "draft_sound d catalog"
  shows "may_peer (draft_profile d) i j \<longleftrightarrow> (\<exists>e \<in> set (td_peer_edges d). {trim (pe_first e), trim (pe_second e)} = {i, j})"
    and "may_call (draft_profile d) i j \<longleftrightarrow> (\<exists>e \<in> set (td_specialist_edges d). trim (se_agent e) = i \<and> trim (se_specialist e) = j)"
proof -
  have ok: "team_ok ((draft_profile d)\<lparr>p_revision := td_base d + 1\<rparr>)" and known: "edges_known d"
    using assms by (simp_all add: draft_sound_def)
  have ids: "distinct (agent_ids (draft_profile d))" using team_ok_agents [OF ok] by simp
  note parts = draft_profile_parts [OF ids [unfolded draft_profile_ids] known]
  have apart: "i \<noteq> j" if "(i, j) \<in> peers_of (draft_profile d)" for i j
    using ok that by (auto simp: team_ok_def relations_ok_def peers_of_def)
  show "may_peer (draft_profile d) i j \<longleftrightarrow> (\<exists>e \<in> set (td_peer_edges d). {trim (pe_first e), trim (pe_second e)} = {i, j})"
  proof
    assume "may_peer (draft_profile d) i j"
    then have "(i, j) \<in> peers_of (draft_profile d) \<or> (j, i) \<in> peers_of (draft_profile d)"
      using may_peer_iff [OF ids] by blast
    then show "\<exists>e \<in> set (td_peer_edges d). {trim (pe_first e), trim (pe_second e)} = {i, j}"
      using parts by (auto simp: doubleton_eq_iff)
  next
    assume "\<exists>e \<in> set (td_peer_edges d). {trim (pe_first e), trim (pe_second e)} = {i, j}"
    then obtain e where e: "e \<in> set (td_peer_edges d)" "{trim (pe_first e), trim (pe_second e)} = {i, j}" by blast
    then have edge: "(trim (pe_first e), trim (pe_second e)) \<in> peers_of (draft_profile d)" using parts by blast
    have "trim (pe_first e) \<in> set (agent_ids (draft_profile d))" "trim (pe_second e) \<in> set (agent_ids (draft_profile d))"
      unfolding draft_profile_ids using e(1) known base_ids(1) [of d] unfolding edges_known_def by blast+
    then show "may_peer (draft_profile d) i j"
      unfolding may_peer_iff [OF ids] using e(2) edge apart [OF edge] by (auto simp: doubleton_eq_iff)
  qed
  have "trim (se_specialist e) \<in> sp_id ` set (p_specialists (draft_profile d))" if "e \<in> set (td_specialist_edges d)" for e
    using known that base_ids(2) [of d] unfolding edges_known_def draft_fields by blast
  then show "may_call (draft_profile d) i j \<longleftrightarrow> (\<exists>e \<in> set (td_specialist_edges d). trim (se_agent e) = i \<and> trim (se_specialist e) = j)"
    unfolding may_call_iff using parts by auto
qed

section \<open>A team and its draft\<close>

lemma identifier_chars: "identifier_rest s \<Longrightarrow> c \<in> set s \<Longrightarrow> lower_alnum c \<or> c = CHR ''-''"
  by (induction s rule: identifier_rest.induct) (auto split: if_splits list.splits)

lemma identifier_plain:
  assumes "is_identifier s"
  shows "trim s = s \<and> CHR 0x00 \<notin> set s \<and> s \<noteq> []"
proof -
  have chars: "lower_alnum c \<or> c = CHR ''-''" if "c \<in> set s" for c
    using assms that identifier_chars by (auto simp: is_identifier_def lower_alnum_def split: list.splits)
  have "plain_byte c \<and> c \<noteq> CHR 0x00" if "c \<in> set s" for c
    using chars [OF that] by (auto simp: plain_byte_def lower_alnum_def lower_letter_def less_eq_char_def less_char_def)
  moreover have "s \<noteq> []" using assms by (auto simp: is_identifier_def)
  ultimately show ?thesis using trim_plain [of s] by auto
qed

lemma choice_fields:
  "m_route (profileModel (choiceForModel g m catalog)) = to_lower (trim (m_route m))"
  "m_name (profileModel (choiceForModel g m catalog)) = trim (m_name m)"
  "mc_id (choiceForModel g m catalog) = m_name m"
proof -
  let ?P = "\<lambda>item. equal_fold (it_gateway item) g \<and> equal_fold (it_route item) (m_route m) \<and> it_id item = m_name m"
  have "to_lower (trim (mc_route (choiceForModel g m catalog))) = to_lower (trim (m_route m)) \<and> mc_id (choiceForModel g m catalog) = m_name m"
  proof (cases "find ?P catalog")
    case (Some item)
    then have "?P item" by (simp add: find_Some_iff) blast
    then have "to_lower (it_route item) = to_lower (m_route m)" "it_id item = m_name m" by (simp_all add: equal_fold_def)
    moreover from this(1) have "to_lower (trim (it_route item)) = to_lower (trim (m_route m))" by (metis trim_to_lower)
    ultimately show ?thesis using Some by (simp add: choiceForModel_def)
  qed (simp add: choiceForModel_def)
  then show "m_route (profileModel (choiceForModel g m catalog)) = to_lower (trim (m_route m))"
    "m_name (profileModel (choiceForModel g m catalog)) = trim (m_name m)"
    "mc_id (choiceForModel g m catalog) = m_name m"
    by (simp_all add: profileModel_def)
qed

lemma choice_identity: "ModelIdentity (profileModel (choiceForModel g m catalog)) = ModelIdentity m"
  by (simp add: ModelIdentity_def choice_fields trim_to_lower)

lemma fold_update_other:
  "k \<notin> f ` set ms \<Longrightarrow> map_of (fold (\<lambda>m. AList.update (f m) (g m)) ms xs) k = map_of xs k"
  by (induction ms arbitrary: xs) (simp_all add: map_of_update)

lemma fold_update_in:
  "distinct (map f ms) \<Longrightarrow> m \<in> set ms \<Longrightarrow> map_of (fold (\<lambda>m. AList.update (f m) (g m)) ms xs) (f m) = Some (g m)"
  by (induction ms arbitrary: xs) (auto simp: fold_update_other map_of_update)

lemma nul_cut: "CHR 0x00 \<notin> set a \<Longrightarrow> CHR 0x00 \<notin> set b \<Longrightarrow> a @ [CHR 0x00] @ x = b @ [CHR 0x00] @ y \<longleftrightarrow> a = b \<and> x = y"
proof (induction a arbitrary: b)
  case Nil
  then show ?case by (cases b) auto
next
  case (Cons c a)
  then show ?case by (cases b) auto
qed

lemma insert_unseen:
  assumes "\<And>r. r \<in> S \<Longrightarrow> key r = key q \<Longrightarrow> r = q" and "key q \<notin> seen"
  shows "{r \<in> insert q S. key r \<notin> seen} = insert q {r \<in> S. key r \<notin> insert (key q) seen}"
  using assms by blast

lemma unseen_edges_set:
  assumes "\<And>a b. (a, b) \<in> set pairs \<Longrightarrow> CHR 0x00 \<notin> set a \<and> CHR 0x00 \<notin> set b"
  shows "(\<lambda>e. (pe_first e, pe_second e)) ` set (unseen_edges seen pairs) =
      {q \<in> (\<lambda>(a, b). edge_pair a b) ` set pairs. fst q @ [CHR 0x00] @ snd q \<notin> seen}"
  using assms
proof (induction pairs arbitrary: seen)
  case (Cons pair pairs)
  obtain a b where pair: "pair = (a, b)" by (cases pair)
  obtain x y where q: "edge_pair a b = (x, y)" by fastforce
  have plain: "CHR 0x00 \<notin> set x" using Cons.prems [of a b] q by (auto simp: pair edge_pair_def split: if_splits)
  have others: "CHR 0x00 \<notin> set (fst r)" if "r \<in> (\<lambda>(a, b). edge_pair a b) ` set pairs" for r
  proof -
    from that obtain a' b' where "r = edge_pair a' b'" "(a', b') \<in> set pairs" by auto
    then show ?thesis using Cons.prems [of a' b'] by (auto simp: edge_pair_def split: if_splits)
  qed
  have same: "r = (x, y)" if "r \<in> (\<lambda>(a, b). edge_pair a b) ` set pairs" "fst r @ [CHR 0x00] @ snd r = x @ [CHR 0x00] @ y" for r
    using nul_cut [OF others [OF that(1)] plain] that(2) by (cases r) auto
  note ih = Cons.IH [OF Cons.prems [OF list.set_intros(2)]]
  show ?case
  proof (cases "x @ [CHR 0x00] @ y \<in> seen")
    case True
    then show ?thesis using ih [of seen] by (auto simp: pair q)
  next
    case False
    have "{r \<in> (\<lambda>(a, b). edge_pair a b) ` set (pair # pairs). fst r @ [CHR 0x00] @ snd r \<notin> seen} =
        insert (x, y) {r \<in> (\<lambda>(a, b). edge_pair a b) ` set pairs. fst r @ [CHR 0x00] @ snd r \<notin> insert (x @ [CHR 0x00] @ y) seen}"
      using insert_unseen [of "(\<lambda>(a, b). edge_pair a b) ` set pairs" "\<lambda>r. fst r @ [CHR 0x00] @ snd r" "(x, y)" seen] same False
      by (simp add: pair q)
    then show ?thesis using ih [of "insert (x @ [CHR 0x00] @ y) seen"] False by (simp add: pair q Let_def)
  qed
qed simp

lemma unseen_distinct:
  "distinct (map (\<lambda>e. pe_first e @ [CHR 0x00] @ pe_second e) (unseen_edges seen pairs)) \<and>
   (\<forall>e \<in> set (unseen_edges seen pairs). pe_first e @ [CHR 0x00] @ pe_second e \<notin> seen \<and> pe_first e \<le> pe_second e)"
proof (induction pairs arbitrary: seen)
  case (Cons pair pairs)
  obtain a b where pair: "pair = (a, b)" by (cases pair)
  obtain x y where q: "edge_pair a b = (x, y)" by fastforce
  then have "x \<le> y" by (auto simp: edge_pair_def split: if_splits)
  then show ?case using Cons.IH [of seen] Cons.IH [of "insert (x @ [CHR 0x00] @ y) seen"] by (auto simp: pair q Let_def)
qed simp

text \<open>The members of a draft made from a valid team.\<close>

lemma team_plain:
  assumes "team_ok p"
  shows "a \<in> set (Agents p) \<Longrightarrow> trim (ag_id a) = ag_id a \<and> CHR 0x00 \<notin> set (ag_id a) \<and> ag_id a \<noteq> []"
    and "s \<in> set (p_specialists p) \<Longrightarrow> trim (sp_id s) = sp_id s \<and> CHR 0x00 \<notin> set (sp_id s) \<and> sp_id s \<noteq> []"
    and "a \<in> set (Agents p) \<Longrightarrow> i \<in> set (ag_specialists a) \<Longrightarrow> trim i = i \<and> i \<in> sp_id ` set (p_specialists p)"
proof -
  have members: "\<forall>(i, alias, d) \<in> set (team_members p). is_identifier i" using assms by (auto simp: team_ok_def members_ok_def)
  show "trim (ag_id a) = ag_id a \<and> CHR 0x00 \<notin> set (ag_id a) \<and> ag_id a \<noteq> []" if "a \<in> set (Agents p)"
    using that members by (intro identifier_plain) (auto simp: team_members_def)
  show "trim (sp_id s) = sp_id s \<and> CHR 0x00 \<notin> set (sp_id s) \<and> sp_id s \<noteq> []" if "s \<in> set (p_specialists p)"
    using that members by (intro identifier_plain) (auto simp: team_members_def)
  show "trim i = i \<and> i \<in> sp_id ` set (p_specialists p)" if "a \<in> set (Agents p)" "i \<in> set (ag_specialists a)"
    using that assms identifier_plain [of i] by (auto simp: team_ok_def relations_ok_def)
qed

abbreviation reopened :: "profile \<Rightarrow> catalog_model list \<Rightarrow> profile" where
  "reopened p catalog \<equiv> draft_profile (DraftFromProfile p catalog)"

lemma reopened_named:
  assumes "team_ok p"
  shows "named (td_primary (DraftFromProfile p catalog) # td_peers (DraftFromProfile p catalog) @ td_specialists (DraftFromProfile p catalog)) =
      td_primary (DraftFromProfile p catalog) # td_peers (DraftFromProfile p catalog) @ td_specialists (DraftFromProfile p catalog)"
    and "named (td_peers (DraftFromProfile p catalog)) = td_peers (DraftFromProfile p catalog)"
    and "named (td_specialists (DraftFromProfile p catalog)) = td_specialists (DraftFromProfile p catalog)"
  unfolding named_def filter_id_conv
  using team_plain [OF assms] by (auto simp: DraftFromProfile_def draft_agent_def draft_specialist_def Agents_def)

definition member_card :: "profile \<Rightarrow> catalog_model list \<Rightarrow> string \<times> string \<times> string \<Rightarrow> draft_member" where
  "member_card p catalog c = (case c of (i, alias, d) \<Rightarrow>
     \<lparr>dm_id = i, dm_model = choiceForModel (p_gateway p) (model_at p alias) catalog, dm_definition = d\<rparr>)"

lemma reopened_members:
  "mset (draft_members (DraftFromProfile p catalog)) = mset (map (member_card p catalog) (team_members p))"
proof -
  have "draft_agent p catalog = (\<lambda>a. member_card p catalog (agent_card a))"
    "draft_specialist p catalog = (\<lambda>s. member_card p catalog (sp_id s, sp_model s, sp_definition s))"
    by (simp_all add: draft_agent_def draft_specialist_def member_card_def fun_eq_iff)
  then show ?thesis by (simp add: draft_members_def DraftFromProfile_def team_members_def Agents_def image_mset.compositionality comp_def)
qed

lemma peer_pairs:
  assumes "distinct (agent_ids p)"
  shows "set (concat (map (\<lambda>a. map (\<lambda>b. (ag_id a, ag_id b)) (PeerAgentsFor p a)) (Agents p))) = {(i, j). may_peer p i j}"
proof -
  have "(i, j) \<in> set (concat (map (\<lambda>a. map (\<lambda>b. (ag_id a, ag_id b)) (PeerAgentsFor p a)) (Agents p))) \<longleftrightarrow> may_peer p i j" for i j
  proof -
    have one: "a = b" if "a \<in> set (Agents p)" "b \<in> set (Agents p)" "ag_id a = ag_id b" for a b
      using that assms by (auto simp: distinct_map inj_on_def)
    have listed: "(i, j) \<in> peers_of p \<longleftrightarrow> (\<exists>a \<in> set (Agents p). ag_id a = i \<and> j \<in> set (ag_peers a))" for i j
      by (simp add: peers_of_def)
    have "(i, j) \<in> set (concat (map (\<lambda>a. map (\<lambda>b. (ag_id a, ag_id b)) (PeerAgentsFor p a)) (Agents p))) \<longleftrightarrow>
        (\<exists>a \<in> set (Agents p). \<exists>b \<in> set (Agents p). ag_id a = i \<and> ag_id b = j \<and> j \<noteq> i \<and> (j \<in> set (ag_peers a) \<or> i \<in> set (ag_peers b)))"
      by (auto simp: PeerAgentsFor_def)
    also have "\<dots> \<longleftrightarrow> may_peer p i j"
      unfolding may_peer_iff [OF assms] listed using one by auto
    finally show ?thesis .
  qed
  then show ?thesis by auto
qed

lemma reopened_edges:
  assumes "team_ok p"
  shows "(\<lambda>e. (pe_first e, pe_second e)) ` set (td_peer_edges (DraftFromProfile p catalog)) = (\<lambda>(a, b). edge_pair a b) ` {(i, j). may_peer p i j}"
    and "(\<lambda>e. (se_agent e, se_specialist e)) ` set (td_specialist_edges (DraftFromProfile p catalog)) = permits p"
proof -
  let ?pairs = "concat (map (\<lambda>a. map (\<lambda>b. (ag_id a, ag_id b)) (PeerAgentsFor p a)) (Agents p))"
  have "set ?pairs = {(i, j). may_peer p i j}" by (rule peer_pairs) (rule team_ok_agents [OF assms])
  moreover have "CHR 0x00 \<notin> set a \<and> CHR 0x00 \<notin> set b" if "(a, b) \<in> set ?pairs" for a b
    using that team_plain(1) [OF assms] by (auto simp: PeerAgentsFor_def)
  ultimately show "(\<lambda>e. (pe_first e, pe_second e)) ` set (td_peer_edges (DraftFromProfile p catalog)) = (\<lambda>(a, b). edge_pair a b) ` {(i, j). may_peer p i j}"
    using unseen_edges_set [of ?pairs "{}"] by (simp add: DraftFromProfile_def)
  show "(\<lambda>e. (se_agent e, se_specialist e)) ` set (td_specialist_edges (DraftFromProfile p catalog)) = permits p"
    by (auto simp: DraftFromProfile_def permits_def image_iff)
qed

lemma reopened_ids:
  assumes "team_ok p"
  shows "set (draft_agent_ids (DraftFromProfile p catalog)) = set (agent_ids p)"
    and "set (draft_specialist_ids (DraftFromProfile p catalog)) = sp_id ` set (p_specialists p)"
  unfolding draft_agent_ids_def draft_specialist_ids_def set_filter
  using team_plain [OF assms] by (auto simp: DraftFromProfile_def draft_agent_def draft_specialist_def Agents_def image_iff)

lemma reopened_edge:
  assumes "team_ok p" and "e \<in> set (td_peer_edges (DraftFromProfile p catalog))"
  shows "pe_first e \<in> set (agent_ids p) \<and> pe_second e \<in> set (agent_ids p) \<and> pe_first e \<noteq> pe_second e \<and>
    trim (pe_first e) = pe_first e \<and> trim (pe_second e) = pe_second e \<and> pe_first e \<le> pe_second e"
proof -
  have "(pe_first e, pe_second e) \<in> (\<lambda>(a, b). edge_pair a b) ` {(i, j). may_peer p i j}"
    unfolding reopened_edges(1) [OF assms(1), of catalog, symmetric] using assms(2) by (rule imageI)
  then obtain i j where ij: "may_peer p i j" "(pe_first e, pe_second e) = edge_pair i j" by auto
  then have "i \<noteq> j" "i \<in> set (agent_ids p)" "j \<in> set (agent_ids p)" using may_peer_iff [OF team_ok_agents [OF assms(1)]] by blast+
  moreover have "trim i = i" "trim j = j" using calculation(2,3) team_plain(1) [OF assms(1)] by auto
  ultimately show ?thesis using ij(2) by (auto simp: edge_pair_def split: if_splits)
qed

lemma edge_key_ordered: "x \<le> y \<Longrightarrow> edge_key x y = x @ [CHR 0x00] @ y"
  by (simp add: edge_key_def edge_pair_def leD)

lemma reopened_known:
  assumes "team_ok p"
  shows "edges_known (DraftFromProfile p catalog) \<and> edges_apart (DraftFromProfile p catalog)"
proof
  let ?d = "DraftFromProfile p catalog"
  have "trim (se_agent e) \<in> set (agent_ids p) \<and> trim (se_specialist e) \<in> sp_id ` set (p_specialists p)"
    if "e \<in> set (td_specialist_edges ?d)" for e
  proof -
    have "(se_agent e, se_specialist e) \<in> permits p"
      unfolding reopened_edges(2) [OF assms, of catalog, symmetric] using that by (rule imageI)
    then show ?thesis using team_plain(1,3) [OF assms] by (force simp: permits_def)
  qed
  then show "edges_known ?d"
    unfolding edges_known_def reopened_ids [OF assms] using reopened_edge [OF assms] by auto
  let ?f = "\<lambda>e. pe_first e @ [CHR 0x00] @ pe_second e"
  have "edge_key (trim (pe_first e)) (trim (pe_second e)) = ?f e" if "e \<in> set (td_peer_edges ?d)" for e
    using reopened_edge [OF assms that] edge_key_ordered by simp
  then have keys: "map (\<lambda>e. edge_key (trim (pe_first e)) (trim (pe_second e))) (td_peer_edges ?d) = map ?f (td_peer_edges ?d)" by simp
  have "distinct (map ?f (td_peer_edges ?d))"
    using unseen_distinct [of "{}"] by (simp add: DraftFromProfile_def distinct_map)
  then show "edges_apart ?d"
    unfolding edges_apart_def keys using reopened_edge [OF assms] by auto
qed

lemma reopened_base_ids:
  assumes "team_ok p"
  shows "mset (agent_ids (draft_base (DraftFromProfile p catalog))) = mset (agent_ids p)"
proof -
  have "trim (dm_id m) = dm_id m" if "m \<in> set (td_primary (DraftFromProfile p catalog) # td_peers (DraftFromProfile p catalog))" for m
    using that team_plain(1) [OF assms] by (auto simp: DraftFromProfile_def draft_agent_def Agents_def)
  then have "agent_ids (draft_base (DraftFromProfile p catalog)) =
      map dm_id (td_primary (DraftFromProfile p catalog) # td_peers (DraftFromProfile p catalog))"
    by (simp add: base_parts member_agent_def reopened_named [OF assms])
  then show ?thesis
    by (simp add: DraftFromProfile_def draft_agent_def Agents_def image_mset.compositionality comp_def)
qed

lemma reopened_parts:
  assumes "team_ok p"
  shows "same_members (draft_base (DraftFromProfile p catalog)) (reopened p catalog) \<and> lists_distinct (reopened p catalog) \<and>
    peers_of (reopened p catalog) = (\<lambda>(a, b). edge_pair a b) ` {(i, j). may_peer p i j} \<and> permits (reopened p catalog) = permits p"
proof -
  let ?d = "DraftFromProfile p catalog"
  have "distinct (agent_ids (draft_base ?d))"
    using mset_eq_imp_distinct_iff [OF reopened_base_ids [OF assms, of catalog]] team_ok_agents [OF assms] by simp
  note parts = draft_profile_parts [OF this conjunct1 [OF reopened_known [OF assms]]]
  have "(\<lambda>e. (trim (pe_first e), trim (pe_second e))) ` set (td_peer_edges ?d) = (\<lambda>e. (pe_first e, pe_second e)) ` set (td_peer_edges ?d)"
    using reopened_edge [OF assms] by (intro image_cong) auto
  moreover have "(\<lambda>e. (trim (se_agent e), trim (se_specialist e))) ` set (td_specialist_edges ?d) = (\<lambda>e. (se_agent e, se_specialist e)) ` set (td_specialist_edges ?d)"
    using team_plain(1,3) [OF assms] by (intro image_cong) (auto simp: DraftFromProfile_def)
  ultimately show ?thesis using parts reopened_edges [OF assms, of catalog] by simp
qed

lemma reopened_agent_ids:
  assumes "team_ok p"
  shows "distinct (agent_ids (reopened p catalog)) \<and> set (agent_ids (reopened p catalog)) = set (agent_ids p)"
proof -
  note same = reopened_base_ids [OF assms, of catalog]
  note sets = mset_eq_setD [OF same] and apart = iffD2 [OF mset_eq_imp_distinct_iff [OF same] team_ok_agents [OF assms]]
  show ?thesis unfolding draft_profile_ids using apart sets by (rule conjI)
qed

lemma edge_pair_eq: "edge_pair a b = (x, y) \<longleftrightarrow> \<not> y < x \<and> (a = x \<and> b = y \<or> a = y \<and> b = x)"
  unfolding edge_pair_def by (cases "b < a") (auto simp: not_less)

lemma edge_pair_image: "(i, j) \<in> (\<lambda>(a, b). edge_pair a b) ` R \<or> (j, i) \<in> (\<lambda>(a, b). edge_pair a b) ` R \<longleftrightarrow> (i, j) \<in> R \<or> (j, i) \<in> R"
proof -
  have drawn: "(x, y) \<in> (\<lambda>(a, b). edge_pair a b) ` R \<longleftrightarrow> \<not> y < x \<and> ((x, y) \<in> R \<or> (y, x) \<in> R)" for x y
  proof -
    have "(x, y) \<in> (\<lambda>(a, b). edge_pair a b) ` R \<longleftrightarrow> (\<exists>a b. (a, b) \<in> R \<and> edge_pair a b = (x, y))" by force
    also have "\<dots> \<longleftrightarrow> \<not> y < x \<and> ((x, y) \<in> R \<or> (y, x) \<in> R)" unfolding edge_pair_eq by blast
    finally show ?thesis .
  qed
  have "\<not> j < i \<or> \<not> i < j" by auto
  then show ?thesis unfolding drawn by blast
qed

lemma reopened_relations:
  assumes "team_ok p"
  shows "may_peer (reopened p catalog) = may_peer p" and "may_call (reopened p catalog) = may_call p"
proof -
  let ?q = "reopened p catalog"
  note ids = reopened_agent_ids [OF assms, of catalog]
  have parts: "peers_of ?q = (\<lambda>(a, b). edge_pair a b) ` {(i, j). may_peer p i j}" "permits ?q = permits p"
    using reopened_parts [OF assms] by blast+
  note mp = may_peer_iff [OF team_ok_agents [OF assms]]
  have "may_peer ?q i j \<longleftrightarrow> may_peer p i j" for i j
  proof -
    have mine: "(i, j) \<in> peers_of ?q \<or> (j, i) \<in> peers_of ?q \<longleftrightarrow> may_peer p i j \<or> may_peer p j i"
      unfolding parts(1) edge_pair_image by simp
    show ?thesis unfolding may_peer_iff [OF conjunct1 [OF ids]] mine conjunct2 [OF ids] using mp by blast
  qed
  then show "may_peer ?q = may_peer p" by blast
  have "sp_id ` set (p_specialists ?q) = sp_id ` set (p_specialists p)"
    using team_plain(2) [OF assms] unfolding draft_fields base_ids(2) [symmetric] reopened_ids(2) [OF assms] by simp
  then show "may_call ?q = may_call p" by (auto simp: may_call_iff parts(2) fun_eq_iff)
qed

lemma reopened_team:
  assumes "team_ok p"
  shows "mset (team_members (reopened p catalog)) = mset (map (\<lambda>(i, alias, d). (i, i, d)) (team_members p))"
    and "hd (team_members (reopened p catalog)) = (ag_id (p_primary p), ag_id (p_primary p), ag_definition (p_primary p))"
proof -
  let ?d = "DraftFromProfile p catalog" and ?card = "\<lambda>m. (dm_id m, dm_id m, dm_definition m)"
  have plain: "trim (dm_id m) = dm_id m" if "m \<in> set (draft_members ?d)" for m
  proof -
    have "m \<in> set (map (member_card p catalog) (team_members p))"
      using that reopened_members [of p catalog] by (metis set_mset_mset)
    then show ?thesis using team_plain(1,2) [OF assms] by (auto simp: team_members_def member_card_def)
  qed
  have "map agent_card (Agents (reopened p catalog)) = map agent_card (Agents (draft_base ?d))"
    using reopened_parts [OF assms] by (simp add: same_members_def)
  then have "team_members (reopened p catalog) = map (\<lambda>m. (trim (dm_id m), trim (dm_id m), dm_definition m)) (draft_members ?d)"
    by (simp add: team_members_def base_parts draft_fields reopened_named [OF assms] draft_members_def member_agent_def)
      (simp add: draft_base_def reopened_named [OF assms] member_specialist_def)
  then have form: "team_members (reopened p catalog) = map ?card (draft_members ?d)"
    using plain by simp
  have "mset (team_members (reopened p catalog)) = image_mset ?card (mset (draft_members ?d))" by (simp add: form)
  also have "\<dots> = mset (map (\<lambda>(i, alias, d). (i, i, d)) (team_members p))"
    unfolding reopened_members by (auto simp: image_mset.compositionality comp_def member_card_def intro!: image_mset_cong)
  finally show "mset (team_members (reopened p catalog)) = mset (map (\<lambda>(i, alias, d). (i, i, d)) (team_members p))" .
  show "hd (team_members (reopened p catalog)) = (ag_id (p_primary p), ag_id (p_primary p), ag_definition (p_primary p))"
    unfolding form draft_members_def list.map list.sel by (simp add: DraftFromProfile_def draft_agent_def)
qed

lemma reopened_models:
  assumes "team_ok p" and "(i, alias, d) \<in> set (team_members p)"
  shows "map_of (p_models (reopened p catalog)) i = Some (profileModel (choiceForModel (p_gateway p) (model_at p alias) catalog))"
proof -
  let ?d = "DraftFromProfile p catalog" and ?m = "member_card p catalog (i, alias, d)"
  have members: "set (draft_members ?d) = member_card p catalog ` set (team_members p)"
    using reopened_members [of p catalog] by (metis set_mset_mset list.set_map)
  have ids: "mset (map dm_id (draft_members ?d)) = mset (map fst (team_members p))"
    unfolding mset_map reopened_members by (simp add: image_mset.compositionality comp_def member_card_def case_prod_beta)
  have plain: "trim (dm_id m) = dm_id m" if "m \<in> set (draft_members ?d)" for m
    using that team_plain(1,2) [OF assms(1)] by (auto simp: members team_members_def member_card_def)
  have "distinct (map fst (team_members p))" using assms(1) by (simp add: team_ok_def members_ok_def)
  then have "distinct (map dm_id (draft_members ?d))" using mset_eq_imp_distinct_iff [OF ids] by simp
  moreover have "map (\<lambda>m. trim (dm_id m)) (draft_members ?d) = map dm_id (draft_members ?d)" using plain by simp
  ultimately have apart: "distinct (map (\<lambda>m. trim (dm_id m)) (draft_members ?d))" by metis
  have m: "?m \<in> set (draft_members ?d)" unfolding members using assms(2) by (rule imageI)
  have "named (draft_members ?d) = draft_members ?d" unfolding draft_members_def by (rule reopened_named(1) [OF assms(1)])
  then have "map_of (draft_models (draft_members ?d)) (trim (dm_id ?m)) = Some (profileModel (dm_model ?m))"
    using fold_update_in [OF apart m, of "\<lambda>m. profileModel (dm_model m)" "[]"] by (simp only: draft_models_def)
  then show ?thesis using plain [OF m] by (simp add: draft_fields draft_base_def draft_members_def member_card_def)
qed

lemma reopened_uses:
  assumes "team_ok p"
  shows "uses_identity (reopened p catalog) (team_members (reopened p catalog)) = uses_identity p (team_members p)"
proof -
  let ?q = "reopened p catalog"
  have members: "set (team_members ?q) = (\<lambda>(i, alias, d). (i, i, d)) ` set (team_members p)"
    using mset_eq_setD [OF reopened_team(1) [OF assms]] by simp
  have used: "(case map_of (p_models ?q) i of None \<Rightarrow> [] | Some m \<Rightarrow> [(i, ModelIdentity m)]) =
      (case map_of (p_models p) alias of None \<Rightarrow> [] | Some m \<Rightarrow> [(i, ModelIdentity m)])" if "(i, alias, d) \<in> set (team_members p)" for i "alias" d
  proof -
    note member = that
    obtain m where "map_of (p_models p) alias = Some m" using member assms by (fastforce simp: team_ok_def members_ok_def)
    then show ?thesis using reopened_models [OF assms member] by (simp add: model_at_def choice_identity)
  qed
  have "uses_identity ?q (team_members ?q) = (\<Union>(i, alias, d) \<in> set (team_members p).
      set (case map_of (p_models ?q) i of None \<Rightarrow> [] | Some m \<Rightarrow> [(i, ModelIdentity m)]))"
    by (simp add: uses_identity_def members image_image case_prod_beta)
  also have "\<dots> = (\<Union>(i, alias, d) \<in> set (team_members p).
      set (case map_of (p_models p) alias of None \<Rightarrow> [] | Some m \<Rightarrow> [(i, ModelIdentity m)]))"
  proof (rule SUP_cong)
    fix c assume c: "c \<in> set (team_members p)"
    obtain i k d where form: "c = (i, k, d)" by (cases c)
    show "(case c of (i, alias, d) \<Rightarrow> set (case map_of (p_models ?q) i of None \<Rightarrow> [] | Some m \<Rightarrow> [(i, ModelIdentity m)])) =
        (case c of (i, alias, d) \<Rightarrow> set (case map_of (p_models p) alias of None \<Rightarrow> [] | Some m \<Rightarrow> [(i, ModelIdentity m)]))"
      unfolding form prod.case used [OF c [unfolded form]] ..
  qed simp
  also have "\<dots> = uses_identity p (team_members p)"
    by (simp add: uses_identity_def image_image case_prod_beta)
  finally show ?thesis .
qed

lemma reopened_members_ok:
  assumes "team_ok p"
  shows "members_ok (reopened p catalog)"
proof -
  have ok: "members_ok p" using assms by (simp add: team_ok_def)
  have members: "set (team_members (reopened p catalog)) = (\<lambda>(i, alias, d). (i, i, d)) ` set (team_members p)"
    using mset_eq_setD [OF reopened_team(1) [OF assms]] by simp
  have "mset (map fst (team_members (reopened p catalog))) = mset (map fst (team_members p))"
    unfolding mset_map reopened_team(1) [OF assms] by (auto simp: image_mset.compositionality comp_def intro!: image_mset_cong)
  then have "distinct (map fst (team_members (reopened p catalog)))"
    using mset_eq_imp_distinct_iff ok by (metis members_ok_def)
  moreover have "is_identifier i \<and> map_of (p_models (reopened p catalog)) alias \<noteq> None \<and> normalized_definition d \<noteq> []"
    if "(i, alias, d) \<in> set (team_members (reopened p catalog))" for i "alias" d
    using that ok reopened_models [OF assms] by (fastforce simp: members members_ok_def)
  ultimately show ?thesis using ok unfolding members_ok_def reopened_uses [OF assms] by blast
qed

lemma fold_update_entries:
  "(k, v) \<in> set (fold (\<lambda>m. AList.update (f m) (g m)) ms xs) \<Longrightarrow> (\<exists>m \<in> set ms. k = f m \<and> v = g m) \<or> (k, v) \<in> set xs"
proof (induction ms arbitrary: xs)
  case (Cons m ms)
  then show ?case using Cons.IH [of "AList.update (f m) (g m) xs"] update_entries [of k v "f m" "g m" xs] by auto
qed simp

lemma model_of_team:
  assumes "team_ok p" and "(i, alias, d) \<in> set (team_members p)"
  shows "map_of (p_models p) alias = Some (model_at p alias) \<and> trim (m_route (model_at p alias)) \<noteq> [] \<and> trim (m_name (model_at p alias)) \<noteq> []"
proof -
  obtain m where m: "map_of (p_models p) alias = Some m" using assms by (fastforce simp: team_ok_def members_ok_def)
  have "\<forall>(alias, m) \<in> set (p_models p). is_identifier alias \<and> trim (m_route m) \<noteq> [] \<and> trim (m_name m) \<noteq> []"
    using assms(1) by (simp add: team_ok_def header_ok_def)
  then have "trim (m_route m) \<noteq> [] \<and> trim (m_name m) \<noteq> []" using map_of_SomeD [OF m] by auto
  then show ?thesis using m by (simp add: model_at_def)
qed

lemma to_lower_empty [simp]: "to_lower s = [] \<longleftrightarrow> s = []"
  by (simp add: to_lower_def)

lemma reopened_header_ok:
  assumes "team_ok p" and "1 \<le> n"
  shows "header_ok ((reopened p catalog)\<lparr>p_revision := n\<rparr>)"
proof -
  let ?d = "DraftFromProfile p catalog"
  have ok: "header_ok p" using assms(1) by (simp add: team_ok_def)
  have members: "set (draft_members ?d) = member_card p catalog ` set (team_members p)"
    using mset_eq_setD [OF reopened_members [of p catalog]] by simp
  have "is_identifier k \<and> trim (m_route m) \<noteq> [] \<and> trim (m_name m) \<noteq> []" if "(k, m) \<in> set (p_models (reopened p catalog))" for k m
  proof -
    note entry = that
    have "named (draft_members ?d) = draft_members ?d" unfolding draft_members_def by (rule reopened_named(1) [OF assms(1)])
    then have "p_models (reopened p catalog) = fold (\<lambda>m. AList.update (trim (dm_id m)) (profileModel (dm_model m))) (draft_members ?d) []"
      unfolding draft_fields draft_base_def draft_models_def by (simp add: draft_members_def)
    then obtain c where c: "c \<in> set (draft_members ?d)" "k = trim (dm_id c)" "m = profileModel (dm_model c)"
      using fold_update_entries [of k m _ _ "draft_members ?d" "[]"] entry by fastforce
    then obtain i a d where member: "(i, a, d) \<in> set (team_members p)" "c = member_card p catalog (i, a, d)" unfolding members by auto
    have "is_identifier i" using member(1) assms(1) by (auto simp: team_ok_def members_ok_def)
    then show ?thesis
      using identifier_plain [of i] c(2,3) member(2) model_of_team [OF assms(1) member(1)]
      by (simp add: member_card_def choice_fields trim_to_lower)
  qed
  moreover have "p_models (reopened p catalog) \<noteq> []"
    using reopened_models [OF assms(1), of "ag_id (p_primary p)" "ag_model (p_primary p)" "ag_definition (p_primary p)" catalog]
    by (auto simp: team_members_def Agents_def)
  moreover have "trim (p_id p) = p_id p" using ok identifier_plain by (simp add: header_ok_def)
  ultimately show ?thesis using ok assms(2)
    by (auto simp: header_ok_def draft_fields draft_base_def trim_to_lower DraftFromProfile_def)
qed

lemma distinct_pairs:
  "distinct (map ag_id as) \<Longrightarrow> \<forall>a \<in> set as. distinct (ag_peers a) \<Longrightarrow>
   distinct (concat (map (\<lambda>a. map (Pair (ag_id a)) (ag_peers a)) as))"
  by (induction as) (auto simp: distinct_map inj_on_def)

lemma reopened_relations_ok:
  assumes "team_ok p"
  shows "relations_ok (reopened p catalog)"
proof -
  let ?q = "reopened p catalog"
  let ?pairs = "concat (map (\<lambda>a. map (Pair (ag_id a)) (ag_peers a)) (Agents ?q))"
  note ids = reopened_agent_ids [OF assms, of catalog]
  have parts: "lists_distinct ?q" "peers_of ?q = (\<lambda>(a, b). edge_pair a b) ` {(i, j). may_peer p i j}" "permits ?q = permits p"
    using reopened_parts [OF assms] by blast+
  have pair: "i \<noteq> j \<and> i \<le> j \<and> j \<in> set (agent_ids p) \<and> is_identifier j \<and> CHR 0x00 \<notin> set i" if "(i, j) \<in> peers_of ?q" for i j
  proof -
    note listed = that
    obtain a b where ab: "may_peer p a b" "edge_pair a b = (i, j)" using listed unfolding parts(2) by force
    then have "a \<noteq> b" "{a, b} \<subseteq> set (agent_ids p)" "{a, b} = {i, j}" "i \<le> j"
      using may_peer_iff [OF team_ok_agents [OF assms]] unfolding edge_pair_eq by auto
    moreover have "is_identifier x \<and> CHR 0x00 \<notin> set x" if "x \<in> set (agent_ids p)" for x
    proof -
      note known = that
      have "is_identifier x" using known assms by (auto simp: team_ok_def members_ok_def team_members_def)
      then show ?thesis using identifier_plain by blast
    qed
    ultimately show ?thesis by (auto simp: doubleton_eq_iff)
  qed
  have "set ?pairs = peers_of ?q" by (auto simp: peers_of_def)
  moreover have "inj_on (\<lambda>(i, j). edge_key i j) (peers_of ?q)"
  proof (rule inj_onI)
    fix x y assume xy: "x \<in> peers_of ?q" "y \<in> peers_of ?q" "(\<lambda>(i, j). edge_key i j) x = (\<lambda>(i, j). edge_key i j) y"
    obtain i j k l where form: "x = (i, j)" "y = (k, l)" by (cases x, cases y)
    then have "i @ [CHR 0x00] @ j = k @ [CHR 0x00] @ l"
      using xy pair [of i j] pair [of k l] edge_key_ordered [of i j] edge_key_ordered [of k l] by simp
    then show "x = y" using nul_cut [of i k] pair [of i j] pair [of k l] xy form by blast
  qed
  moreover have "distinct ?pairs"
    using distinct_pairs [OF conjunct1 [OF ids]] parts(1) by (simp add: lists_distinct_def)
  moreover have "peer_edges ?q = map (\<lambda>(i, j). edge_key i j) ?pairs"
    by (simp add: peer_edges_def map_concat comp_def)
  ultimately have keys: "distinct (peer_edges ?q)" by (simp add: distinct_map)
  have permitted: "is_identifier j \<and> j \<in> sp_id ` set (p_specialists ?q)" if "(i, j) \<in> permits ?q" for i j
  proof -
    have "is_identifier j \<and> j \<in> sp_id ` set (p_specialists p)"
      using that assms unfolding parts(3) by (auto simp: team_ok_def relations_ok_def permits_def)
    then show ?thesis unfolding draft_fields base_ids(2) [symmetric] reopened_ids(2) [OF assms] by simp
  qed
  have listed: "(ag_id a, i) \<in> peers_of ?q" if "a \<in> set (Agents ?q)" "i \<in> set (ag_peers a)" for a i
    using that by (auto simp: peers_of_def)
  have called: "(ag_id a, i) \<in> permits ?q" if "a \<in> set (Agents ?q)" "i \<in> set (ag_specialists a)" for a i
    using that by (auto simp: permits_def)
  have same: "ag_id ` set (Agents ?q) = set (agent_ids p)" using conjunct2 [OF ids] by simp
  have "distinct (ag_peers a) \<and> distinct (ag_specialists a) \<and>
      (\<forall>i \<in> set (ag_peers a). is_identifier i \<and> i \<noteq> ag_id a \<and> i \<in> ag_id ` set (Agents ?q)) \<and>
      (\<forall>i \<in> set (ag_specialists a). is_identifier i \<and> i \<in> sp_id ` set (p_specialists ?q))" if a: "a \<in> set (Agents ?q)" for a
    unfolding same using parts(1) a pair [OF listed [OF a]] permitted [OF called [OF a]] by (simp add: lists_distinct_def) blast
  then show ?thesis using keys unfolding relations_ok_def by blast
qed

lemma team_ok_revision:
  "team_ok (q\<lparr>p_revision := n\<rparr>) \<longleftrightarrow> header_ok (q\<lparr>p_revision := n\<rparr>) \<and> members_ok q \<and> relations_ok q"
  by (simp add: team_ok_def members_ok_def relations_ok_def team_members_def uses_identity_def peer_edges_def)

lemma reopened_ok: "team_ok p \<Longrightarrow> 1 \<le> n \<Longrightarrow> team_ok ((reopened p catalog)\<lparr>p_revision := n\<rparr>)"
  unfolding team_ok_revision by (intro conjI reopened_header_ok reopened_members_ok reopened_relations_ok)

text \<open>The catalog lists the model of every member.\<close>

definition models_listed :: "profile \<Rightarrow> catalog_model list \<Rightarrow> bool" where
  "models_listed p catalog \<longleftrightarrow> (\<forall>(i, alias, d) \<in> set (team_members p). \<exists>item \<in> set catalog.
     equal_fold (it_gateway item) (p_gateway p) \<and> equal_fold (it_route item) (m_route (model_at p alias)) \<and>
     it_id item = m_name (model_at p alias))"

lemma reopened_sound:
  assumes "team_ok p" and "models_listed p catalog"
  shows "draft_sound (DraftFromProfile p catalog) catalog"
proof -
  let ?d = "DraftFromProfile p catalog"
  have base: "1 \<le> td_base ?d + 1" using assms(1) by (simp add: DraftFromProfile_def team_ok_def header_ok_def)
  have "trim (dm_id m) \<noteq> [] \<and> trim (mc_id (dm_model m)) \<noteq> [] \<and> offered ?d catalog m" if m: "m \<in> set (draft_members ?d)" for m
  proof -
    have "m \<in> member_card p catalog ` set (team_members p)"
      using m mset_eq_setD [OF reopened_members [of p catalog]] by simp
    then obtain i k t where member: "(i, k, t) \<in> set (team_members p)" and card: "m = member_card p catalog (i, k, t)" by auto
    let ?m = "model_at p k"
    have "is_identifier i" using member assms(1) by (auto simp: team_ok_def members_ok_def)
    then have "trim i \<noteq> []" using identifier_plain by fastforce
    moreover have "trim (m_name ?m) \<noteq> []" using model_of_team [OF assms(1) member] by blast
    moreover have "offered ?d catalog m"
    proof -
      let ?P = "\<lambda>item. equal_fold (it_gateway item) (p_gateway p) \<and> equal_fold (it_route item) (m_route ?m) \<and> it_id item = m_name ?m"
      have "\<exists>item \<in> set catalog. ?P item" using assms(2) member unfolding models_listed_def by fastforce
      then obtain item where found: "List.find ?P catalog = Some item" by (fastforce simp: find_None_iff dest: not_None_eq [THEN iffD1])
      then have item: "item \<in> set catalog" "to_lower (it_gateway item) = to_lower (p_gateway p)"
        by (auto simp: find_Some_iff equal_fold_def)
      have choice: "dm_model m = \<lparr>mc_route = it_route item, mc_id = it_id item\<rparr>"
        using found by (simp add: card member_card_def choiceForModel_def)
      have "to_lower (trim (it_gateway item)) = to_lower (trim (p_gateway p))" using item(2) by (metis trim_to_lower)
      then have "CatalogIdentity (choice_item (td_gateway ?d) (dm_model m)) = CatalogIdentity item"
        by (simp add: choice choice_item_def CatalogIdentity_def DraftFromProfile_def)
      then show ?thesis unfolding offered_def using item(1) by (metis imageI)
    qed
    ultimately show ?thesis by (simp add: card member_card_def choice_fields)
  qed
  then show ?thesis using reopened_ok [OF assms(1) base] reopened_known [OF assms(1)] by (simp add: draft_sound_def)
qed

section \<open>Publishing\<close>

lemma publish_stored:
  assumes pub: "PublishProfile ym now value base st = Inr (doc, st')"
    and rev: "p_revision (doc_profile doc) = base + 1" "p_id (doc_profile doc) = p_id value"
  shows "stored_profile ym st' (p_id value) (base + 1) = Inr doc"
  using pub
proof (rule PublishProfile_Inr)
  assume base: "latest_revision st (p_id value) = base" and valid: "\<not> HasErrors (Validate (doc_profile doc))"
    and doc: "FromValue (ym_encode ym) (ym_decode ym) (ym_sha ym) (value\<lparr>p_revision := base + 1\<rparr>) = Inr doc"
    and ins: "insert_profile (profile_row_of doc now) st = Some st'"
  have rows: "st_profiles st' = st_profiles st @ [profile_row_of doc now]" using insert_profile_Some(1) [OF ins] by simp
  have "pr_revision r \<noteq> base + 1" if "r \<in> set (st_profiles st)" "pr_id r = p_id value" for r
    using max_or_zero_ge [of "pr_revision r" "map pr_revision (filter (\<lambda>r. pr_id r = p_id value) (st_profiles st))"] base that
    by (auto simp: latest_revision_def)
  then have "List.find (\<lambda>r. pr_revision r = base + 1) (filter (\<lambda>r. pr_id r = p_id value) (st_profiles st)) = None"
    by (auto simp: find_None_iff)
  then have "List.find (\<lambda>r. pr_revision r = base + 1) (filter (\<lambda>r. pr_id r = p_id value) (st_profiles st')) = Some (profile_row_of doc now)"
    using rev by (auto simp: rows profile_row_of_def find_append split: option.splits)
  moreover have "0 < base + 1" using valid_revision [OF valid] rev(1) by simp
  moreover have "Parse (ym_decode ym) (ym_sha ym) (doc_source doc) = Inr doc"
  proof -
    obtain source where source: "Parse (ym_decode ym) (ym_sha ym) source = Inr doc"
      using doc by (auto simp: FromValue_def res_bind_Inr_iff split: option.splits)
    then have "doc_source doc = source" by (auto simp: Parse_def res_bind_Inr_iff split: option.splits)
    with source show ?thesis by simp
  qed
  ultimately show ?thesis by (simp add: stored_profile_def profile_row_of_def)
qed

section \<open>Properties\<close>

text \<open>The sample team stored as revision 1, its draft opened for editing, and a codec for its next revision.\<close>

definition sample_catalog :: "catalog_model list" where
  "sample_catalog = map (\<lambda>n. \<lparr>it_gateway = ''g'', it_route = ''r'', it_id = n, it_name = [], it_capabilities = no_capabilities, it_limits = no_limits\<rparr>)
     [''x'', ''y'', ''z'']"

definition drawn_sample :: team_draft where
  "drawn_sample = DraftFromProfile sample_profile sample_catalog"

definition sample_next :: profile where
  "sample_next = (draft_profile drawn_sample)\<lparr>p_revision := 2\<rparr>"

definition editor_sample_world :: editor_world where
  "editor_sample_world = \<lparr>ew_yaml = \<lparr>ym_encode = (\<lambda>p. if p = sample_next then Some ''y2'' else None),
       ym_decode = (\<lambda>s. if s = ''y2'' then Some sample_next else None), ym_sha = (\<lambda>s. s)\<rparr>,
     ew_text = (\<lambda>e. ''failed''), ew_fetch = (\<lambda>u. None), ew_listing = (\<lambda>u. Inl ''failed''), ew_uuid = ''u'', ew_now = 7\<rparr>"

definition sample_editor :: team_editor where
  "sample_editor = \<lparr>te_team = True, te_view = ViewEdit, te_catalog = sample_catalog, te_draft = Some drawn_sample, te_published = None,
     te_init_error = None, te_profiles = [], te_registry = NewRegistry None,
     te_store = empty_store\<lparr>st_profiles := [\<lparr>pr_id = ''team'', pr_revision = 1, pr_digest = ''d'', pr_name = ''Team'', pr_source = ''y'', pr_created = 0\<rparr>]\<rparr>,
     te_prepared = None\<rparr>"

definition sample_publish :: editor_request where
  "sample_publish = \<lparr>eq_operation = ''team.publish'', eq_draft = Some drawn_sample, eq_gateway = [], eq_view = ViewNone, eq_profile = [], eq_revision = 0\<rparr>"

lemma sample_listed: "models_listed sample_profile sample_catalog"
  by (simp add: models_listed_def team_members_def Agents_def sample_profile_def sample_catalog_def model_at_def sample_model_def equal_fold_def)

lemma sample_published: "er_ok (fst (exchange editor_sample_world sample_publish sample_editor))"
proof -
  have base: "td_base drawn_sample + 1 = 2" by (simp add: drawn_sample_def DraftFromProfile_def sample_profile_def)
  have ident: "p_id (draft_profile drawn_sample) = ''team''"
    unfolding draft_fields by (simp add: draft_base_def drawn_sample_def DraftFromProfile_def sample_profile_def trim_plain plain_byte_def less_char_def)
  define doc where "doc = \<lparr>doc_profile = sample_next, doc_source = ''y2'', doc_digest = ''y2''\<rparr>"
  let ?ym = "ew_yaml editor_sample_world"
  have made: "FromValue (ym_encode ?ym) (ym_decode ?ym) (ym_sha ?ym) ((draft_profile drawn_sample)\<lparr>p_revision := td_base drawn_sample + 1\<rparr>) = Inr doc"
    unfolding base using draft_migrated [of 2 drawn_sample] draft_defaults [of 2 drawn_sample]
    by (simp add: FromValue_def Parse_def editor_sample_world_def sample_next_def doc_def)
  have law: "ym_encode ?ym p = Some s \<Longrightarrow> ym_decode ?ym s = Some p" for p s
    by (simp add: editor_sample_world_def split: if_splits)
  have sound: "draft_sound drawn_sample sample_catalog"
    unfolding drawn_sample_def by (rule reopened_sound [OF sample_team_ok sample_listed])
  then have clean: "\<not> HasErrors (DiagnosticsForDraft ?ym (ew_text editor_sample_world) drawn_sample (te_catalog sample_editor))"
    using draft_diagnostics [OF law made] by (simp add: sample_editor_def Let_def)
  have "team_ok sample_next" using sound by (simp add: draft_sound_def base sample_next_def)
  then have valid: "\<not> HasErrors (Validate (doc_profile doc))" by (simp add: Validate_iff doc_def)
  have latest: "latest_revision (te_store sample_editor) ''team'' = td_base drawn_sample"
    using base by (simp add: latest_revision_def sample_editor_def max_or_zero_def)
  have ins: "insert_profile (profile_row_of doc n) (te_store sample_editor) \<noteq> None" for n
    by (simp add: insert_profile_def profile_row_of_def doc_def sample_editor_def sample_next_def)
  obtain st where "PublishProfile ?ym (ew_now editor_sample_world) (draft_profile drawn_sample) (td_base drawn_sample) (te_store sample_editor) = Inr (doc, st)"
    using made valid ins [of "ew_now editor_sample_world"] by (auto simp: PublishProfile_def ident latest)
  with clean show ?thesis
    by (simp add: exchange_def sample_publish_def team_publish_def) (simp add: sample_editor_def Let_def)
qed


text \<open>
  C13: what is published is what was drawn. When YAML decoding inverts encoding and a publication
  through the team window succeeds, the window was not inspecting; the stored revision is the one
  after the draft's base, valid, read back from the store as it was reported, and in it two agents
  may consult each other exactly when the draft draws an edge between them and an agent may call a
  specialist exactly when the draft says so; and the catalog offered the model of every member.
\<close>

theorem published_as_drawn:
  assumes law: "\<forall>p s. ym_encode (ew_yaml w) p = Some s \<longrightarrow> ym_decode (ew_yaml w) s = Some p"
    and "eq_operation q = ''team.publish''" and "exchange w q h = (r, g)" and "er_ok r"
  shows "\<exists>d doc. eq_draft q = Some d \<and> te_team h \<and> te_view h \<noteq> ViewInspect \<and>
    er_published r = Some \<lparr>pb_id = p_id (doc_profile doc), pb_revision = td_base d + 1, pb_digest = doc_digest doc\<rparr> \<and>
    stored_profile (ew_yaml w) (te_store g) (p_id (doc_profile doc)) (td_base d + 1) = Inr doc \<and>
    te_draft g = Some (d\<lparr>td_base := td_base d + 1\<rparr>) \<and> team_ok (doc_profile doc) \<and>
    (\<forall>i j. may_peer (doc_profile doc) i j \<longleftrightarrow> (\<exists>e \<in> set (td_peer_edges d). {trim (pe_first e), trim (pe_second e)} = {i, j})) \<and>
    (\<forall>i j. may_call (doc_profile doc) i j \<longleftrightarrow>
       (\<exists>e \<in> set (td_specialist_edges d). trim (se_agent e) = i \<and> trim (se_specialist e) = j)) \<and>
    (\<forall>m \<in> set (draft_members d). offered d (te_catalog h) m)"
proof -
  obtain d doc st where d: "eq_draft q = Some d" "te_team h" "te_view h \<noteq> ViewInspect"
    and clean: "\<not> HasErrors (DiagnosticsForDraft (ew_yaml w) (ew_text w) d (te_catalog h))"
    and pub: "PublishProfile (ew_yaml w) (ew_now w) (draft_profile d) (td_base d) (te_store h) = Inr (doc, st)"
    and g: "te_store g = st" "te_draft g = Some (d\<lparr>td_base := p_revision (doc_profile doc)\<rparr>)"
    and r: "er_published r = Some \<lparr>pb_id = p_id (doc_profile doc), pb_revision = p_revision (doc_profile doc), pb_digest = doc_digest doc\<rparr>"
    using assms(2-4) by (auto simp: exchange_def team_publish_def response_refused_def Let_def split: if_splits option.splits sum.splits)
  have law': "ym_encode (ew_yaml w) p = Some s \<Longrightarrow> ym_decode (ew_yaml w) s = Some p" for p s using law by blast
  from pub obtain made: "FromValue (ym_encode (ew_yaml w)) (ym_decode (ew_yaml w)) (ym_sha (ew_yaml w)) ((draft_profile d)\<lparr>p_revision := td_base d + 1\<rparr>) = Inr doc"
    by (rule PublishProfile_Inr)
  have doc: "doc_profile doc = (draft_profile d)\<lparr>p_revision := td_base d + 1\<rparr>"
    by (rule draft_document [OF _ made]) (rule law')
  have sound: "draft_sound d (te_catalog h)"
    using draft_diagnostics [OF _ made, of "ew_text w" "te_catalog h"] law' clean by blast
  have stored: "stored_profile (ew_yaml w) st (p_id (draft_profile d)) (td_base d + 1) = Inr doc"
    by (rule publish_stored [OF pub]) (simp_all add: doc)
  have "team_ok (doc_profile doc)" using sound by (simp add: doc draft_sound_def)
  moreover have "\<forall>m \<in> set (draft_members d). offered d (te_catalog h) m" using sound by (simp add: draft_sound_def)
  ultimately show ?thesis using d r g stored drawn_relations [OF sound]
    by (intro exI [of _ d] exI [of _ doc]) (simp add: doc)
qed

text \<open>
  C20: what opening a published team and publishing it again keeps, and what it drops. From a
  valid team the editor draws a draft whose profile has the same identity, the same primary and
  members with the same definitions, peers and specialist permissions, whatever catalog the
  models were matched with; and that profile is valid as any later revision. Every member has a
  model of the same route and name, now under the member's own identity; but the model's
  reasoning effort and options are gone, as are the team's choice to keep the provider's
  reasoning and its metadata: a draft does not hold them.
\<close>

theorem team_survives_editing:
  assumes "team_ok p" and "draft_profile (DraftFromProfile p catalog) = q"
  shows "p_id q = p_id p \<and> p_name q = trim (p_name p) \<and> p_gateway q = to_lower (trim (p_gateway p)) \<and>
    mset (map (\<lambda>(i, _, d). (i, d)) (team_members q)) = mset (map (\<lambda>(i, _, d). (i, d)) (team_members p)) \<and>
    ag_id (p_primary q) = ag_id (p_primary p) \<and>
    (\<forall>(i, alias, d) \<in> set (team_members p). \<exists>m n. map_of (p_models p) alias = Some m \<and> map_of (p_models q) i = Some n \<and>
       m_route n = to_lower (trim (m_route m)) \<and> m_name n = trim (m_name m) \<and>
       m_reasoning_effort n = [] \<and> m_options n = []) \<and>
    \<not> p_persist_reasoning q \<and> p_metadata q = [] \<and>
    uses_identity q (team_members q) = uses_identity p (team_members p) \<and>
    may_peer q = may_peer p \<and> may_call q = may_call p \<and> (\<forall>n. 1 \<le> n \<longrightarrow> team_ok (q\<lparr>p_revision := n\<rparr>))"
proof -
  note team = reopened_team [OF assms(1), of catalog, unfolded assms(2)]
  have "is_identifier (p_id p)" using assms(1) by (simp add: team_ok_def header_ok_def)
  then have header: "p_id q = p_id p" "p_name q = trim (p_name p)" "p_gateway q = to_lower (trim (p_gateway p))"
    "\<not> p_persist_reasoning q" "p_metadata q = []"
    using identifier_plain [of "p_id p"] unfolding assms(2) [symmetric] draft_fields by (simp_all add: draft_base_def DraftFromProfile_def)
  have models: "\<exists>m n. map_of (p_models p) alias = Some m \<and> map_of (p_models q) i = Some n \<and>
       m_route n = to_lower (trim (m_route m)) \<and> m_name n = trim (m_name m) \<and> m_reasoning_effort n = [] \<and> m_options n = []"
    if member: "(i, alias, d) \<in> set (team_members p)" for i "alias" d
  proof -
    obtain m where m: "map_of (p_models p) alias = Some m" using member assms(1) by (fastforce simp: team_ok_def members_ok_def)
    have "map_of (p_models q) i = Some (profileModel (choiceForModel (p_gateway p) m catalog))"
      using reopened_models [OF assms(1) member, of catalog] m assms(2) by (simp add: model_at_def)
    moreover have "m_reasoning_effort (profileModel c) = [] \<and> m_options (profileModel c) = []" for c by (simp add: profileModel_def)
    ultimately show ?thesis using m choice_fields(1,2) by blast
  qed
  have "mset (map (\<lambda>(i, _, d). (i, d)) (team_members q)) = mset (map (\<lambda>(i, _, d). (i, d)) (team_members p))"
    unfolding mset_map team(1) by (auto simp: image_mset.compositionality comp_def intro!: image_mset_cong)
  moreover have "ag_id (p_primary q) = ag_id (p_primary p)" using team(2) by (simp add: team_members_def Agents_def)
  moreover have "\<forall>(i, alias, d) \<in> set (team_members p). \<exists>m n. map_of (p_models p) alias = Some m \<and> map_of (p_models q) i = Some n \<and>
       m_route n = to_lower (trim (m_route m)) \<and> m_name n = trim (m_name m) \<and> m_reasoning_effort n = [] \<and> m_options n = []"
    using models by blast
  ultimately show ?thesis
    using header reopened_uses [OF assms(1), of catalog] reopened_relations [OF assms(1), of catalog] reopened_ok [OF assms(1), of _ catalog]
    unfolding assms(2) by blast
qed

theorem published_as_drawn_witness:
  "\<exists>r g. exchange editor_sample_world sample_publish sample_editor = (r, g) \<and> te_draft g = Some (drawn_sample\<lparr>td_base := 2\<rparr>)"
proof -
  obtain r g where run: "exchange editor_sample_world sample_publish sample_editor = (r, g)" by fastforce
  have law: "\<forall>p s. ym_encode (ew_yaml editor_sample_world) p = Some s \<longrightarrow> ym_decode (ew_yaml editor_sample_world) s = Some p"
    by (simp add: editor_sample_world_def)
  have "er_ok r" using sample_published run by simp
  from published_as_drawn [OF law _ run this] have "te_draft g = Some (drawn_sample\<lparr>td_base := td_base drawn_sample + 1\<rparr>)"
    by (auto simp: sample_publish_def)
  then show ?thesis using run by (simp add: drawn_sample_def DraftFromProfile_def sample_profile_def)
qed

theorem team_survives_editing_witness:
  "may_peer (draft_profile (DraftFromProfile sample_profile sample_catalog)) ''second'' ''lead''"
proof -
  have "may_peer sample_profile ''second'' ''lead''"
    by (simp add: may_peer_def Agents_def PeerAgentFor_def Agent_def sample_profile_def)
  then show ?thesis using team_survives_editing [OF sample_team_ok refl, of sample_catalog] by simp
qed

text \<open>The caller that prepared a response fetches it, with one buffer after the other.\<close>

fun fetch :: "editor_codec \<Rightarrow> editor_world \<Rightarrow> string \<Rightarrow> nat list \<Rightarrow> team_editor \<Rightarrow> string list \<times> team_editor" where
  "fetch cx w source [] h = ([], h)"
| "fetch cx w source (c # cs) h =
     (case ExchangeSized cx w source c h of (response, g) \<Rightarrow> apfst (\<lambda>rs. response # rs) (fetch cx w source cs g))"

lemma fetch_small:
  "te_prepared h = Some (source, response) \<Longrightarrow> \<forall>c \<in> set cs. 0 < c \<and> c < length response \<Longrightarrow>
   fetch cx w source cs h = (replicate (length cs) response, h)"
  by (induction cs) (simp_all add: ExchangeSized_def)

lemma fetch_append:
  "fetch cx w source (cs @ ds) h = (case fetch cx w source cs h of (rs, g) \<Rightarrow> apfst (\<lambda>ss. rs @ ss) (fetch cx w source ds g))"
  by (induction cs arbitrary: h) (simp_all add: case_prod_beta prod_eq_iff)

text \<open>
  C23: sizing a buffer does not run a request twice. The caller asks for the size with capacity zero,
  and then with buffers of which only the last is large enough; every call returns the same response,
  and afterwards the editor is where one execution of the request leaves it: one publication, one
  revision, however many calls it took.
\<close>

theorem sized_exchange_once:
  assumes "exchangeBytes cx w source h = (response, g)" and "\<forall>c \<in> set small. 0 < c \<and> c < length response"
    and "length response \<le> large" and "0 < large"
  shows "fetch cx w source (0 # small @ [large]) h = (replicate (length small + 2) response, g\<lparr>te_prepared := None\<rparr>)"
proof -
  have "fetch cx w source (small @ [large]) (g\<lparr>te_prepared := Some (source, response)\<rparr>) =
      (replicate (length small + 1) response, g\<lparr>te_prepared := None\<rparr>)"
    using assms(2-4) fetch_small [of "g\<lparr>te_prepared := Some (source, response)\<rparr>"]
    by (simp add: fetch_append ExchangeSized_def replicate_append_same)
  then show ?thesis by (simp add: ExchangeSized_def assms(1))
qed

theorem sized_exchange_once_witness:
  "snd (fetch \<lparr>ec_decode = (\<lambda>s. Some sample_publish), ec_encode = (\<lambda>r. ''response'')\<rparr> editor_sample_world ''publish'' [0, 4, 8] sample_editor) =
   (snd (exchange editor_sample_world sample_publish sample_editor))\<lparr>te_prepared := None\<rparr>"
proof -
  let ?cx = "\<lparr>ec_decode = (\<lambda>s. Some sample_publish), ec_encode = (\<lambda>r. ''response'')\<rparr>"
  have "exchangeBytes ?cx editor_sample_world ''publish'' sample_editor = (''response'', snd (exchange editor_sample_world sample_publish sample_editor))"
    by (simp add: exchangeBytes_def case_prod_beta)
  from sized_exchange_once [OF this, of "[4]" 8] show ?thesis by simp
qed

end
