(* ===== verification/Feed.thy ===== *)
theory Feed
  imports Sessions
begin

text \<open>
  Live delivery of events (the subscriptions of internal/store/store.go and event.go): the
  queue of a subscriber, the registry of subscribers, \<open>Subscribe\<close> with its history, the
  goroutine that empties the queue and rereads the log when the database file changes, and
  \<open>publish\<close>. The store mutex that appends and \<open>Subscribe\<close> hold makes a commit and its
  publication one step. Commits of other processes write the same log but publish nothing here.
\<close>

section \<open>Subscribers\<close>

record subscriber =
  sb_queue :: "event list"
  sb_closed :: bool

definition newSubscriber :: "event list \<Rightarrow> subscriber" where
  "newSubscriber history = \<lparr>sb_queue = history, sb_closed = False\<rparr>"

definition enqueue :: "event \<Rightarrow> subscriber \<Rightarrow> subscriber" where
  "enqueue item s = (if sb_closed s then s else s\<lparr>sb_queue := sb_queue s @ [item]\<rparr>)"

definition pop :: "subscriber \<Rightarrow> event option \<times> subscriber" where
  "pop s = (case sb_queue s of [] \<Rightarrow> (None, s) | item # q \<Rightarrow> (Some item, s\<lparr>sb_queue := q\<rparr>))"

text \<open>
  A subscription: the subscriber, what its goroutine captured, and what was sent on the
  channel so far.
\<close>

record subscription =
  su_session :: string
  su_after :: int
  su_subscriber :: subscriber
  su_last :: int
  su_sent :: "event list"

text \<open>
  The registry: subscriptions under the identity of their pointer; \<open>None\<close> once the store is
  closed. A subscription that ends leaves the registry, and its goroutine stops.
\<close>

type_synonym registry = "(nat, subscription) gomap option"

definition registered :: "registry \<Rightarrow> nat \<Rightarrow> subscription option" where
  "registered g n = (case g of None \<Rightarrow> None | Some m \<Rightarrow> map_of m n)"

definition on_subscription :: "nat \<Rightarrow> (subscription \<Rightarrow> subscription) \<Rightarrow> registry \<Rightarrow> registry" where
  "on_subscription n f g = map_option (AList.map_entry n f) g"

definition Subscribe :: "store \<Rightarrow> string \<Rightarrow> int \<Rightarrow> nat \<Rightarrow> registry \<Rightarrow> registry option" where
  "Subscribe st sid after n g =
     (case g of None \<Rightarrow> None
      | Some m \<Rightarrow> Some (Some (AList.update n
          \<lparr>su_session = sid, su_after = after, su_subscriber = newSubscriber (Events st sid after),
           su_last = after, su_sent = []\<rparr> m)))"

definition unsubscribe :: "nat \<Rightarrow> registry \<Rightarrow> registry" where
  "unsubscribe n g = map_option (AList.delete n) g"

definition close_registry :: "registry \<Rightarrow> registry" where
  "close_registry g = None"

definition publish :: "event \<Rightarrow> registry \<Rightarrow> registry" where
  "publish item g = map_option (map (\<lambda>(n, s). (n,
     if su_session s = ev_session item then s\<lparr>su_subscriber := enqueue item (su_subscriber s)\<rparr> else s))) g"

text \<open>\<open>emit\<close> of the goroutine, when the receiver takes the event.\<close>

definition emit_event :: "event \<Rightarrow> subscription \<Rightarrow> subscription" where
  "emit_event item s =
     (if ev_sequence item \<le> su_last s then s
      else s\<lparr>su_last := ev_sequence item, su_sent := su_sent s @ [item]\<rparr>)"

definition pump :: "subscription \<Rightarrow> subscription" where
  "pump s = (case pop (su_subscriber s) of
     (None, _) \<Rightarrow> s | (Some item, q) \<Rightarrow> emit_event item (s\<lparr>su_subscriber := q\<rparr>))"

text \<open>The database file changed: what is in the log past the last event sent.\<close>

definition reread :: "store \<Rightarrow> subscription \<Rightarrow> subscription" where
  "reread st s = fold emit_event (Events st (su_session s) (su_last s)) s"

section \<open>Steps\<close>

text \<open>What a process commits, with the events it appends to the log.\<close>

inductive committed :: "platform \<Rightarrow> store \<Rightarrow> event list \<Rightarrow> store \<Rightarrow> bool" for pl where
  appended: "Append pl eid now sid d st = Inr (item, st') \<Longrightarrow> committed pl st [item] st'"
| instructed: "AppendInput pl eid now sid d (Some data) as st = Inr (item, st') \<Longrightarrow> committed pl st [item] st'"
| created: "createSession pl sid now eids doc payload workspace conversation title st = Inr (row, st') \<Longrightarrow>
    committed pl st (session_events st' sid) st'"

record feed =
  fe_store :: store
  fe_registry :: registry
  fe_next :: nat

text \<open>The flag tells whether another process committed.\<close>

inductive feed_step :: "platform \<Rightarrow> bool \<Rightarrow> feed \<Rightarrow> feed \<Rightarrow> bool" for pl where
  local_commit: "committed pl (fe_store f) items st' \<Longrightarrow>
    feed_step pl False f (f\<lparr>fe_store := st', fe_registry := fold publish items (fe_registry f)\<rparr>)"
| foreign_commit: "committed pl (fe_store f) items st' \<Longrightarrow> feed_step pl True f (f\<lparr>fe_store := st'\<rparr>)"
| subscribes: "Subscribe (fe_store f) sid after (fe_next f) (fe_registry f) = Some g \<Longrightarrow> 0 \<le> after \<Longrightarrow>
    feed_step pl False f (f\<lparr>fe_registry := g, fe_next := Suc (fe_next f)\<rparr>)"
| unsubscribes: "feed_step pl False f (f\<lparr>fe_registry := unsubscribe n (fe_registry f)\<rparr>)"
| closes: "feed_step pl False f (f\<lparr>fe_registry := close_registry (fe_registry f)\<rparr>)"
| pumps: "feed_step pl False f (f\<lparr>fe_registry := on_subscription n pump (fe_registry f)\<rparr>)"
| rereads: "feed_step pl False f (f\<lparr>fe_registry := on_subscription n (reread (fe_store f)) (fe_registry f)\<rparr>)"

inductive feed_runs :: "platform \<Rightarrow> bool \<Rightarrow> feed \<Rightarrow> feed \<Rightarrow> bool" for pl where
  start: "feed_runs pl False f f"
| more: "feed_runs pl b f g \<Longrightarrow> feed_step pl c g h \<Longrightarrow> feed_runs pl (b \<or> c) f h"

section \<open>Commits and the log\<close>

lemma committed_log:
  assumes "committed pl st items st'" and ok: "store_ok pl st"
  shows "store_ok pl st' \<and> (\<forall>i. session_events st' i = session_events st i @ filter (\<lambda>e. ev_session e = i) items)"
  using assms(1)
proof cases
  case (appended eid now sid d item)
  from appended(2) show ?thesis
    using Append_ok [OF ok appended(2)]
    by (auto elim!: Append_Inr simp: log_item_events appended(1))
next
  case (instructed eid now sid d data as item)
  from instructed(2) obtain st0 c where st0: "insertArtifacts pl sid as now st = Inr st0" "st' = log_item pl item c st0"
    by (rule AppendInput_Inr)
  have "session_events st0 i = session_events st i" for i
    using insertArtifacts_log [OF st0(1)] by (simp add: session_events_def)
  then show ?thesis
    using AppendInput_ok [OF ok instructed(2)] by (simp add: st0(2) log_item_events instructed(1))
next
  case (created sid now eids doc payload workspace conversation title row)
  note new = createSession_ok [OF ok created(2)]
  have "sid \<notin> ss_id ` set (st_sessions st)" by (rule createSession_Inr [OF created(2)])
  then have none: "session_events st sid = []"
    using store_okD(3) [OF ok] by (auto simp: session_events_def filter_empty_conv)
  have "\<forall>e \<in> set (session_events st' sid). ev_session e = sid" by (simp add: session_events_def)
  then have "filter (\<lambda>e. ev_session e = i) (session_events st' sid) = (if i = sid then session_events st' sid else [])" for i
    by (auto simp: filter_empty_conv filter_id_conv)
  then show ?thesis using new(1) new(3) none by (auto simp: created(1))
qed

section \<open>What a subscription has been sent\<close>

text \<open>Whatever other processes do: only events of the log, each once, in order.\<close>

definition delivers :: "store \<Rightarrow> subscription \<Rightarrow> bool" where
  "delivers st s \<longleftrightarrow> 0 \<le> su_after s \<and> su_after s \<le> su_last s \<and> \<not> sb_closed (su_subscriber s) \<and>
     sorted_wrt (<) (map ev_sequence (su_sent s)) \<and>
     (\<forall>e \<in> set (su_sent s). e \<in> set (session_events st (su_session s)) \<and> su_after s < ev_sequence e \<and> ev_sequence e \<le> su_last s) \<and>
     su_last s = (if su_sent s = [] then su_after s else ev_sequence (last (su_sent s))) \<and>
     (\<forall>e \<in> set (sb_queue (su_subscriber s)). e \<in> set (session_events st (su_session s)))"

text \<open>As long as no other process commits: what was sent and what waits are the log.\<close>

definition pending :: "subscription \<Rightarrow> event list" where
  "pending s = filter (\<lambda>e. su_last s < ev_sequence e) (sb_queue (su_subscriber s))"

definition complete :: "store \<Rightarrow> subscription \<Rightarrow> bool" where
  "complete st s \<longleftrightarrow> su_sent s @ pending s = Events st (su_session s) (su_after s)"

lemma Events_filter:
  assumes "store_ok pl st"
  shows "0 \<le> n \<Longrightarrow> Events st i n = filter (\<lambda>e. n < ev_sequence e) (session_events st i)"
  using Events_ok [OF assms, of n i] numbered_after [OF session_events_numbered [OF assms, of i], of n] by simp

lemma Events_sorted:
  assumes "store_ok pl st"
  shows "sorted_wrt (<) (map ev_sequence (session_events st i))"
proof -
  have "sorted_wrt (<) (map ev_sequence es)" if "numbered_from n es" for n es
    using that
  proof (induction es arbitrary: n)
    case (Cons e es)
    then show ?case using numbered_from_bounds [of "n + 1" es] by fastforce
  qed simp
  then show ?thesis using session_events_numbered [OF assms] by blast
qed

lemma emit_delivers:
  assumes "delivers st s" and "item \<in> set (session_events st (su_session s))"
  shows "delivers st (emit_event item s)"
  using assms by (force simp: delivers_def emit_event_def sorted_wrt_append)

lemma emit_frame [simp]:
  "su_session (emit_event item s) = su_session s" "su_after (emit_event item s) = su_after s"
  "su_subscriber (emit_event item s) = su_subscriber s"
  by (simp_all add: emit_event_def)

lemma pump_cases:
  obtains "sb_queue (su_subscriber s) = []" "pump s = s"
  | item q where "sb_queue (su_subscriber s) = item # q"
      "pump s = emit_event item (s\<lparr>su_subscriber := (su_subscriber s)\<lparr>sb_queue := q\<rparr>\<rparr>)"
  by (cases "sb_queue (su_subscriber s)") (simp_all add: pump_def pop_def)

lemma pump_delivers:
  assumes "delivers st s"
  shows "delivers st (pump s)"
proof (cases rule: pump_cases [of s])
  case (2 item q)
  have "delivers st (s\<lparr>su_subscriber := (su_subscriber s)\<lparr>sb_queue := q\<rparr>\<rparr>)"
    using assms 2(1) by (auto simp: delivers_def)
  then show ?thesis unfolding 2(2)
    by (rule emit_delivers) (use assms 2(1) in \<open>simp add: delivers_def\<close>)
qed (use assms in simp)

lemma fold_emit_delivers:
  "delivers st s \<Longrightarrow> set es \<subseteq> set (session_events st (su_session s)) \<Longrightarrow> delivers st (fold emit_event es s)"
  by (induction es arbitrary: s) (auto simp: emit_delivers)

lemma reread_delivers:
  assumes "store_ok pl st" and "delivers st s"
  shows "delivers st (reread st s)"
  unfolding reread_def
  by (rule fold_emit_delivers [OF assms(2)]) (auto simp: Events_def session_events_def)

lemma fold_emit_all:
  "sorted_wrt (<) (map ev_sequence es) \<Longrightarrow> \<forall>e \<in> set es. su_last s < ev_sequence e \<Longrightarrow>
   su_sent (fold emit_event es s) = su_sent s @ es \<and> su_session (fold emit_event es s) = su_session s \<and>
   su_after (fold emit_event es s) = su_after s \<and> su_subscriber (fold emit_event es s) = su_subscriber s \<and>
   su_last (fold emit_event es s) = (if es = [] then su_last s else ev_sequence (last es))"
  by (induction es arbitrary: s) (auto simp: emit_event_def)

text \<open>What waits is the rest of the log.\<close>

lemma complete_pending:
  assumes ok: "store_ok pl st" and d: "delivers st s" and c: "complete st s"
  shows "pending s = Events st (su_session s) (su_last s)"
proof -
  have last: "0 \<le> su_last s" "su_after s \<le> su_last s" "0 \<le> su_after s" using d by (auto simp: delivers_def)
  have "Events st (su_session s) (su_last s) = filter (\<lambda>e. su_last s < ev_sequence e) (Events st (su_session s) (su_after s))"
    using last unfolding Events_filter [OF ok last(1)] Events_filter [OF ok last(3)]
    by (simp add: conj_commute) (metis (lifting) less_le_not_le order_le_less_trans)
  also have "\<dots> = filter (\<lambda>e. su_last s < ev_sequence e) (su_sent s @ pending s)" using c by (simp add: complete_def)
  also have "\<dots> = pending s"
    using d by (auto simp: delivers_def pending_def filter_empty_conv)
  finally show ?thesis by simp
qed

lemma pump_complete:
  assumes ok: "store_ok pl st" and d: "delivers st s" and c: "complete st s"
  shows "complete st (pump s)"
proof (cases rule: pump_cases [of s])
  case (2 item q)
  show ?thesis
  proof (cases "ev_sequence item \<le> su_last s")
    case True
    then show ?thesis using c 2 by (simp add: complete_def pending_def emit_event_def)
  next
    case False
    have rest: "pending s = item # filter (\<lambda>e. su_last s < ev_sequence e) q"
      using False 2(1) by (simp add: pending_def)
    have "sorted_wrt (<) (map ev_sequence (Events st (su_session s) (su_last s)))"
      using Events_sorted [OF ok, of "su_session s"] d unfolding delivers_def
      by (subst Events_filter [OF ok]) (auto simp: sorted_wrt_map sorted_wrt_filter)
    then have "sorted_wrt (<) (map ev_sequence (pending s))" using complete_pending [OF ok d c] by simp
    then have "\<forall>e \<in> set (filter (\<lambda>e. su_last s < ev_sequence e) q). ev_sequence item < ev_sequence e"
      unfolding rest by simp
    then have "filter (\<lambda>e. ev_sequence item < ev_sequence e) q = filter (\<lambda>e. su_last s < ev_sequence e) q"
      using False by (intro filter_cong) auto
    then show ?thesis
      using c False rest 2 by (simp add: complete_def emit_event_def pending_def)
  qed
qed (use c in simp)

lemma reread_complete:
  assumes ok: "store_ok pl st" and d: "delivers st s" and c: "complete st s"
  shows "complete st (reread st s)"
proof -
  let ?es = "Events st (su_session s) (su_last s)"
  have last: "0 \<le> su_last s" using d by (auto simp: delivers_def)
  have es: "sorted_wrt (<) (map ev_sequence ?es)" "\<forall>e \<in> set ?es. su_last s < ev_sequence e"
    using Events_sorted [OF ok, of "su_session s"]
    unfolding Events_filter [OF ok last] by (auto simp: sorted_wrt_map sorted_wrt_filter)
  note all = fold_emit_all [OF es]
  have pend: "pending s = ?es" by (rule complete_pending [OF ok d c])
  have "pending (reread st s) = []"
  proof (cases "?es = []")
    case True
    then show ?thesis using pend all by (simp add: reread_def pending_def)
  next
    case False
    have "\<forall>e \<in> set ?es. ev_sequence e \<le> ev_sequence (last ?es)"
    proof -
      have "sorted_wrt (<) (map ev_sequence (butlast ?es @ [last ?es]))" using es(1) False by simp
      then have "\<forall>e \<in> set (butlast ?es). ev_sequence e < ev_sequence (last ?es)" by (simp add: sorted_wrt_append)
      moreover have "set ?es = insert (last ?es) (set (butlast ?es))"
        using False by (metis append_butlast_last_id list.set(2) rotate1.simps(2) set_rotate1)
      ultimately show ?thesis by auto
    qed
    moreover have "\<forall>e \<in> set (sb_queue (su_subscriber s)). su_last s < ev_sequence e \<longrightarrow> e \<in> set ?es"
      using arg_cong [OF pend, of set] by (auto simp: pending_def)
    moreover have "su_last s < ev_sequence (last ?es)" using es(2) False by simp
    ultimately show ?thesis using all False by (force simp: reread_def pending_def filter_empty_conv)
  qed
  then show ?thesis using all c pend by (simp add: complete_def reread_def)
qed

section \<open>Every step\<close>

definition every :: "(subscription \<Rightarrow> bool) \<Rightarrow> registry \<Rightarrow> bool" where
  "every P g \<longleftrightarrow> (\<forall>n s. registered g n = Some s \<longrightarrow> P s)"

lemma registered_on: "registered (on_subscription n f g) m = (if m = n then map_option f (registered g m) else registered g m)"
  by (cases g) (simp_all add: registered_def on_subscription_def map_of_map_entry)

lemma registered_publish:
  "registered (publish item g) n = map_option (\<lambda>s. if su_session s = ev_session item
     then s\<lparr>su_subscriber := enqueue item (su_subscriber s)\<rparr> else s) (registered g n)"
proof -
  have "map_of (map (\<lambda>(n, s). (n, f s)) m) k = map_option f (map_of m k)" for f :: "subscription \<Rightarrow> subscription" and m k
    by (induction m) auto
  then show ?thesis by (cases g) (simp_all add: registered_def publish_def)
qed

definition receive :: "event list \<Rightarrow> subscription \<Rightarrow> subscription" where
  "receive items s = fold (\<lambda>item s. if su_session s = ev_session item
     then s\<lparr>su_subscriber := enqueue item (su_subscriber s)\<rparr> else s) items s"

lemma registered_publish_all: "registered (fold publish items g) n = map_option (receive items) (registered g n)"
proof (induction items arbitrary: g)
  case (Cons item items)
  then show ?case by (cases "registered g n") (simp_all add: registered_publish receive_def)
next
  case Nil
  have "receive [] = (\<lambda>s. s)" by (simp add: receive_def fun_eq_iff)
  then show ?case by (simp add: option.map_ident)
qed

lemma receive_open:
  "\<not> sb_closed (su_subscriber s) \<Longrightarrow>
   su_session (receive items s) = su_session s \<and> su_after (receive items s) = su_after s \<and>
   su_last (receive items s) = su_last s \<and> su_sent (receive items s) = su_sent s \<and>
   \<not> sb_closed (su_subscriber (receive items s)) \<and>
   sb_queue (su_subscriber (receive items s)) = sb_queue (su_subscriber s) @ filter (\<lambda>e. ev_session e = su_session s) items"
proof (induction items arbitrary: s)
  case (Cons item items)
  let ?s = "if su_session s = ev_session item then s\<lparr>su_subscriber := enqueue item (su_subscriber s)\<rparr> else s"
  have "receive (item # items) s = receive items ?s" by (simp add: receive_def)
  moreover have "\<not> sb_closed (su_subscriber ?s)" using Cons.prems by (simp add: enqueue_def)
  ultimately show ?case using Cons.IH [of ?s] Cons.prems by (auto simp: enqueue_def)
qed (simp add: receive_def)

lemma delivers_grows:
  assumes "delivers st s" and "\<And>i. session_events st' i = session_events st i @ extra i"
  shows "delivers st' s"
  using assms(1) unfolding delivers_def assms(2) by auto

lemma receive_delivers:
  assumes d: "delivers st s" and log: "\<And>i. session_events st' i = session_events st i @ filter (\<lambda>e. ev_session e = i) items"
  shows "delivers st' (receive items s)"
proof -
  have "\<not> sb_closed (su_subscriber s)" using d by (simp add: delivers_def)
  from receive_open [OF this, of items] d show ?thesis unfolding delivers_def log by auto
qed

lemma receive_complete:
  assumes ok: "store_ok pl st" "store_ok pl st'" and d: "delivers st s" and c: "complete st s"
    and log: "\<And>i. session_events st' i = session_events st i @ filter (\<lambda>e. ev_session e = i) items"
  shows "complete st' (receive items s)"
proof -
  have last: "0 \<le> su_after s" "su_after s \<le> su_last s" "\<not> sb_closed (su_subscriber s)" using d by (auto simp: delivers_def)
  let ?new = "filter (\<lambda>e. ev_session e = su_session s) items"
  let ?log = "session_events st (su_session s)"
  have above: "su_after s < ev_sequence e \<longleftrightarrow> su_last s < ev_sequence e" if e: "e \<in> set ?new" for e
  proof (cases "su_sent s = []")
    case True
    then show ?thesis using d by (simp add: delivers_def)
  next
    case False
    then have "last (su_sent s) \<in> set ?log" "su_last s = ev_sequence (last (su_sent s))"
      using d by (auto simp: delivers_def)
    moreover have "numbered_from 0 (?log @ ?new)" using session_events_numbered [OF ok(2)] log by metis
    ultimately have "su_last s < ev_sequence e"
      using numbered_from_bounds [of 0 ?log] numbered_from_bounds [of "int (length ?log)" ?new, OF _ e]
      by (fastforce simp: numbered_from_append)
    then show ?thesis using last by simp
  qed
  have "Events st' (su_session s) (su_after s) = Events st (su_session s) (su_after s) @ filter (\<lambda>e. su_last s < ev_sequence e) ?new"
    unfolding Events_filter [OF ok(1) last(1)] Events_filter [OF ok(2) last(1)] log
    using above by (auto intro: filter_cong)
  then show ?thesis
    using c receive_open [OF last(3), of items] by (simp add: complete_def pending_def)
qed

lemma step_delivers:
  assumes "feed_step pl foreign f g" and ok: "store_ok pl (fe_store f)" and "every (delivers (fe_store f)) (fe_registry f)"
  shows "store_ok pl (fe_store g) \<and> every (delivers (fe_store g)) (fe_registry g)"
  using assms(1)
proof cases
  case (local_commit items st')
  note log = committed_log [OF local_commit(3) ok]
  then show ?thesis
    using assms(3) by (auto simp: local_commit(2) every_def registered_publish_all intro!: receive_delivers)
next
  case (foreign_commit items st')
  note log = committed_log [OF foreign_commit(3) ok]
  then show ?thesis
    using assms(3)
    by (auto simp: foreign_commit(2) every_def intro: delivers_grows [where extra = "\<lambda>i. filter (\<lambda>e. ev_session e = i) items"])
next
  case (subscribes sid after g')
  have "delivers (fe_store f) \<lparr>su_session = sid, su_after = after,
      su_subscriber = newSubscriber (Events (fe_store f) sid after), su_last = after, su_sent = []\<rparr>"
    using subscribes(4) by (auto simp: delivers_def newSubscriber_def Events_def session_events_def)
  then show ?thesis
    using assms(3) ok subscribes(3)
    by (auto simp: subscribes(2) every_def registered_def Subscribe_def split: option.splits if_splits)
next
  case (unsubscribes n)
  then show ?thesis
    using assms(3) ok by (auto simp: every_def registered_def unsubscribe_def delete_conv' split: option.splits if_splits)
next
  case closes
  then show ?thesis using ok by (simp add: every_def registered_def close_registry_def)
next
  case (pumps n)
  then show ?thesis using assms(3) ok by (auto simp: every_def registered_on pump_delivers split: if_splits)
next
  case (rereads n)
  then show ?thesis using assms(3) ok by (auto simp: every_def registered_on reread_delivers [OF ok] split: if_splits)
qed

lemma step_complete:
  assumes "feed_step pl False f g" and ok: "store_ok pl (fe_store f)" and d: "every (delivers (fe_store f)) (fe_registry f)"
    and c: "every (complete (fe_store f)) (fe_registry f)"
  shows "every (complete (fe_store g)) (fe_registry g)"
  using assms(1)
proof cases
  case (local_commit items st')
  note log = committed_log [OF local_commit(2) ok]
  then show ?thesis
    using c d ok by (auto simp: local_commit(1) every_def registered_publish_all intro!: receive_complete)
next
  case (foreign_commit items st')
  then show ?thesis by simp
next
  case (subscribes sid after g')
  have "filter (\<lambda>e. after < ev_sequence e) (Events (fe_store f) sid after) = Events (fe_store f) sid after"
    unfolding Events_filter [OF ok subscribes(3)] by simp
  then have "complete (fe_store f) \<lparr>su_session = sid, su_after = after,
      su_subscriber = newSubscriber (Events (fe_store f) sid after), su_last = after, su_sent = []\<rparr>"
    by (simp add: complete_def pending_def newSubscriber_def)
  then show ?thesis
    using c subscribes(2)
    by (auto simp: subscribes(1) every_def registered_def Subscribe_def split: option.splits if_splits)
next
  case (unsubscribes n)
  then show ?thesis
    using c by (auto simp: every_def registered_def unsubscribe_def delete_conv' split: option.splits if_splits)
next
  case closes
  then show ?thesis by (simp add: every_def registered_def close_registry_def)
next
  case (pumps n)
  then show ?thesis using c d by (auto simp: every_def registered_on pump_complete [OF ok] split: if_splits)
next
  case (rereads n)
  then show ?thesis using c d by (auto simp: every_def registered_on reread_complete [OF ok] split: if_splits)
qed

lemma runs_delivers:
  assumes "feed_runs pl foreign f g" and "store_ok pl (fe_store f)" and "every (delivers (fe_store f)) (fe_registry f)"
  shows "store_ok pl (fe_store g) \<and> every (delivers (fe_store g)) (fe_registry g)"
  using assms by (induction rule: feed_runs.induct) (auto dest: step_delivers)

lemma runs_complete:
  assumes "feed_runs pl foreign f g" and "\<not> foreign" and "store_ok pl (fe_store f)"
    and "every (delivers (fe_store f)) (fe_registry f)" and "every (complete (fe_store f)) (fe_registry f)"
  shows "every (complete (fe_store g)) (fe_registry g)"
  using assms
proof (induction rule: feed_runs.induct)
  case (more b f g c h)
  then show ?case using step_complete [of pl g h] runs_delivers [OF more.hyps(1)] by auto
qed

section \<open>Draining the queue, and what is lost\<close>

lemma pump_queue: "sb_queue (su_subscriber (pump s)) = tl (sb_queue (su_subscriber s))"
  and pump_frame: "su_session (pump s) = su_session s" "su_after (pump s) = su_after s"
  by (cases rule: pump_cases [of s]; simp)+

lemma drained:
  assumes ok: "store_ok pl st" and "delivers st s" and "complete st s"
  shows "su_sent ((pump ^^ length (sb_queue (su_subscriber s))) s) = Events st (su_session s) (su_after s)"
proof -
  have run: "delivers st ((pump ^^ k) s) \<and> complete st ((pump ^^ k) s) \<and> su_session ((pump ^^ k) s) = su_session s \<and>
      su_after ((pump ^^ k) s) = su_after s \<and> sb_queue (su_subscriber ((pump ^^ k) s)) = drop k (sb_queue (su_subscriber s))" for k
    by (induction k) (auto simp: assms pump_delivers pump_complete [OF ok] pump_queue pump_frame drop_Suc tl_drop)
  let ?t = "(pump ^^ length (sb_queue (su_subscriber s))) s"
  have "pending ?t = []" using run unfolding pending_def by simp
  moreover have "complete st ?t" "su_session ?t = su_session s" "su_after ?t = su_after s" using run by blast+
  ultimately show ?thesis by (simp only: complete_def append_Nil2)
qed

text \<open>An event the goroutine has passed without sending it.\<close>

definition passed :: "nat \<Rightarrow> event \<Rightarrow> feed \<Rightarrow> bool" where
  "passed n e f \<longleftrightarrow> n < fe_next f \<and>
     (\<forall>s. registered (fe_registry f) n = Some s \<longrightarrow> e \<notin> set (su_sent s) \<and> ev_sequence e \<le> su_last s)"

lemma emit_passes:
  "e \<notin> set (su_sent s) \<and> ev_sequence e \<le> su_last s \<Longrightarrow>
   e \<notin> set (su_sent (emit_event item s)) \<and> ev_sequence e \<le> su_last (emit_event item s)"
  by (auto simp: emit_event_def)

lemma fold_emit_passes:
  "e \<notin> set (su_sent s) \<and> ev_sequence e \<le> su_last s \<Longrightarrow>
   e \<notin> set (su_sent (fold emit_event es s)) \<and> ev_sequence e \<le> su_last (fold emit_event es s)"
proof (induction es arbitrary: s)
  case (Cons item es)
  from Cons.IH [OF emit_passes [OF Cons.prems]] show ?case by simp
qed simp

lemma receive_sent: "su_sent (receive items s) = su_sent s \<and> su_last (receive items s) = su_last s"
  by (induction items arbitrary: s) (simp_all add: receive_def)

lemma step_passes:
  assumes "feed_step pl foreign f g" and p: "passed n e f"
  shows "passed n e g"
  using assms(1)
proof cases
  case (local_commit items st')
  then show ?thesis using p by (auto simp: passed_def registered_publish_all receive_sent)
next
  case (subscribes sid after g')
  then show ?thesis
    using p by (auto simp: passed_def registered_def Subscribe_def split: option.splits if_splits)
next
  case (unsubscribes m)
  then show ?thesis
    using p by (auto simp: passed_def registered_def unsubscribe_def delete_conv' split: option.splits if_splits)
next
  case closes
  then show ?thesis using p by (simp add: passed_def registered_def close_registry_def)
next
  case (pumps m)
  have "e \<notin> set (su_sent (pump s)) \<and> ev_sequence e \<le> su_last (pump s)"
    if "e \<notin> set (su_sent s) \<and> ev_sequence e \<le> su_last s" for s
    using that emit_passes by (cases rule: pump_cases [of s]) auto
  then show ?thesis using p pumps by (auto simp: passed_def registered_on split: if_splits)
next
  case (rereads m)
  then show ?thesis
    using p fold_emit_passes by (auto simp: passed_def registered_on reread_def split: if_splits)
qed (use p in \<open>simp add: passed_def\<close>)

lemma runs_passed: "feed_runs pl foreign f g \<Longrightarrow> passed n e f \<Longrightarrow> passed n e g"
  by (induction rule: feed_runs.induct) (auto intro: step_passes)

section \<open>Properties\<close>

text \<open>
  C22: what a subscriber is sent. In every run of the store's live delivery, with commits of
  this process and of others, rereadings of the log, and subscriptions coming and going, each
  subscription is sent events of its session only, past the position it asked for, in
  strictly increasing order, so none twice. As long as no other process commits, what it was
  sent followed by what waits in its queue is exactly the log past that position, so
  emptying the queue delivers everything.
\<close>

theorem subscription_delivers:
  assumes ok: "store_ok pl st" and run: "feed_runs pl foreign \<lparr>fe_store = st, fe_registry = Some [], fe_next = 0\<rparr> g"
    and s: "registered (fe_registry g) n = Some s"
  shows "sorted_wrt (<) (map ev_sequence (su_sent s)) \<and>
    (\<forall>e \<in> set (su_sent s). e \<in> set (st_events (fe_store g)) \<and> ev_session e = su_session s \<and> su_after s < ev_sequence e) \<and>
    (\<not> foreign \<longrightarrow>
       su_sent s @ filter (\<lambda>e. su_last s < ev_sequence e) (sb_queue (su_subscriber s)) =
         Events (fe_store g) (su_session s) (su_after s) \<and>
       su_sent ((pump ^^ length (sb_queue (su_subscriber s))) s) = Events (fe_store g) (su_session s) (su_after s))"
proof -
  let ?f = "\<lparr>fe_store = st, fe_registry = Some [], fe_next = 0\<rparr>"
  have none: "every P (fe_registry ?f)" for P by (simp add: every_def registered_def)
  have g: "store_ok pl (fe_store g)" "delivers (fe_store g) s"
    using runs_delivers [OF run _ none] ok s by (auto simp: every_def)
  have "complete (fe_store g) s" if "\<not> foreign"
    using runs_complete [OF run that _ none none] ok s by (auto simp: every_def)
  then show ?thesis
    using g drained [OF g] by (auto simp: delivers_def complete_def pending_def session_events_def)
qed

definition sample_first :: event where
  "sample_first = materialize sample_draft ''e1'' ''s'' 1 7"

definition sample_second :: event where
  "sample_second = materialize (sample_draft\<lparr>dr_kind := SessionRecovered\<rparr>) ''e2'' ''s'' 2 8"

definition sample_cancelled :: store where
  "sample_cancelled = log_item sample_platform sample_first (Some StatusCancelled, [], []) sample_store"

definition sample_recovered :: store where
  "sample_recovered = log_item sample_platform sample_second (None, [], []) sample_cancelled"

lemma sample_commits:
  "committed sample_platform sample_store [sample_first] sample_cancelled"
  "committed sample_platform sample_cancelled [sample_second] sample_recovered"
proof -
  have last: "LastSequence sample_store ''s'' = 0"
    by (simp add: LastSequence_def session_events_def sample_store_def empty_store_def max_or_zero_def)
  have one: "Append sample_platform ''e1'' 7 ''s'' sample_draft sample_store = Inr (sample_first, sample_cancelled)"
    unfolding sample_first_def sample_cancelled_def
    by (subst Append_succeeds [OF sample_store_ok, where c = "(Some StatusCancelled, [], [])"])
      (simp_all add: last, simp_all add: sample_store_def sample_row_def empty_store_def
        projection_columns_def sample_draft_def)
  have ok: "store_ok sample_platform sample_cancelled" by (rule Append_ok [OF sample_store_ok one])
  have log: "st_events sample_cancelled = [sample_first]"
    by (simp add: sample_cancelled_def log_item_def sample_store_def empty_store_def)
  have last': "LastSequence sample_cancelled ''s'' = 1"
    by (simp add: LastSequence_def session_events_def log) (simp add: sample_first_def max_or_zero_def)
  have "Append sample_platform ''e2'' 8 ''s'' (sample_draft\<lparr>dr_kind := SessionRecovered\<rparr>) sample_cancelled =
      Inr (sample_second, sample_recovered)"
    unfolding sample_second_def sample_recovered_def
    by (subst Append_succeeds [OF ok, where c = "(None, [], [])"])
      (simp_all add: last' log, simp_all add: sample_cancelled_def log_item_def sample_first_def
        sample_store_def sample_row_def empty_store_def projection_columns_def sample_draft_def)
  with one show "committed sample_platform sample_store [sample_first] sample_cancelled"
    "committed sample_platform sample_cancelled [sample_second] sample_recovered"
    by (auto intro: committed.appended)
qed

definition sample_feed :: feed where
  "sample_feed = \<lparr>fe_store = sample_store, fe_registry = Some [], fe_next = 0\<rparr>"

definition sample_subscription :: subscription where
  "sample_subscription = \<lparr>su_session = ''s'', su_after = 0, su_subscriber = newSubscriber [], su_last = 0, su_sent = []\<rparr>"

text \<open>Subscribe; another process commits; this process commits; the queue is emptied.\<close>

definition sample_overtaken :: feed where
  "sample_overtaken = \<lparr>fe_store = sample_recovered,
     fe_registry = on_subscription 0 pump (fold publish [sample_second] (Some [(0, sample_subscription)])), fe_next = 1\<rparr>"

lemma sample_overtaken_run: "feed_runs sample_platform True sample_feed sample_overtaken"
proof -
  let ?f1 = "sample_feed\<lparr>fe_registry := Some [(0, sample_subscription)], fe_next := 1\<rparr>"
  let ?f2 = "?f1\<lparr>fe_store := sample_cancelled\<rparr>"
  let ?f3 = "?f2\<lparr>fe_store := sample_recovered, fe_registry := fold publish [sample_second] (fe_registry ?f2)\<rparr>"
  have s1: "feed_step sample_platform False sample_feed ?f1"
    using feed_step.subscribes [of sample_feed "''s''" 0 "Some [(0, sample_subscription)]" sample_platform]
    by (simp add: sample_feed_def Subscribe_def sample_subscription_def Events_def sample_store_def empty_store_def)
  have s2: "feed_step sample_platform True ?f1 ?f2"
    by (rule feed_step.foreign_commit) (use sample_commits(1) in \<open>simp add: sample_feed_def\<close>)
  have s3: "feed_step sample_platform False ?f2 ?f3"
    by (rule feed_step.local_commit) (use sample_commits(2) in simp)
  have s4: "feed_step sample_platform False ?f3 (?f3\<lparr>fe_registry := on_subscription 0 pump (fe_registry ?f3)\<rparr>)"
    by (rule feed_step.pumps)
  show ?thesis
    using feed_runs.more [OF feed_runs.more [OF feed_runs.more [OF feed_runs.more [OF feed_runs.start s1] s2] s3] s4]
    by (simp add: sample_overtaken_def sample_feed_def)
qed

lemma sample_overtaken_sent:
  "\<exists>s. registered (fe_registry sample_overtaken) 0 = Some s \<and> su_sent s = [sample_second] \<and> su_last s = 2 \<and> su_session s = ''s''"
  by (simp add: sample_overtaken_def on_subscription_def publish_def registered_def sample_subscription_def
      newSubscriber_def enqueue_def pump_def pop_def emit_event_def sample_second_def)

text \<open>
  An event another process commits can be lost to a subscriber for good. The goroutine
  empties its queue before it looks at file changes, and what it sends from the queue moves
  its position past the events it has not read: there is a run in which another process
  cancels the session, this process appends the next event, and the subscriber is sent that
  one; however the run goes on, the subscription is never sent the cancellation, although it
  asked for the log from the start.
\<close>

theorem foreign_commit_lost:
  "feed_runs sample_platform True sample_feed sample_overtaken \<and>
   Events (fe_store sample_overtaken) ''s'' 0 = [sample_first, sample_second] \<and>
   (\<exists>s. registered (fe_registry sample_overtaken) 0 = Some s \<and> su_session s = ''s'' \<and> su_after s = 0 \<and> su_sent s = [sample_second]) \<and>
   (\<forall>pl foreign g s. feed_runs pl foreign sample_overtaken g \<and> registered (fe_registry g) 0 = Some s \<longrightarrow>
      sample_first \<notin> set (su_sent s))"
proof (intro conjI allI impI)
  show "feed_runs sample_platform True sample_feed sample_overtaken" by (rule sample_overtaken_run)
  show "Events (fe_store sample_overtaken) ''s'' 0 = [sample_first, sample_second]"
    by (simp add: sample_overtaken_def sample_recovered_def sample_cancelled_def log_item_def sample_store_def
        empty_store_def Events_def sample_first_def sample_second_def)
  show "\<exists>s. registered (fe_registry sample_overtaken) 0 = Some s \<and> su_session s = ''s'' \<and> su_after s = 0 \<and> su_sent s = [sample_second]"
    by (simp add: sample_overtaken_def on_subscription_def publish_def registered_def sample_subscription_def
      newSubscriber_def enqueue_def pump_def pop_def emit_event_def sample_second_def)
  fix pl foreign g s
  assume g: "feed_runs pl foreign sample_overtaken g \<and> registered (fe_registry g) 0 = Some s"
  have "passed 0 sample_first sample_overtaken"
    using sample_overtaken_sent by (auto simp: passed_def sample_overtaken_def sample_first_def sample_second_def materialize_def)
  then have "passed 0 sample_first g" using runs_passed g by blast
  with g show "sample_first \<notin> set (su_sent s)" by (simp add: passed_def)
qed

theorem foreign_commit_lost_witness:
  "\<exists>s. registered (fe_registry sample_overtaken) 0 = Some s \<and> sample_first \<notin> set (su_sent s)"
  using foreign_commit_lost feed_runs.start by blast

theorem subscription_delivers_witness:
  "\<exists>s. registered (fe_registry sample_overtaken) 0 = Some s \<and> sorted_wrt (<) (map ev_sequence (su_sent s))"
proof -
  obtain s where s: "registered (fe_registry sample_overtaken) 0 = Some s" using sample_overtaken_sent by blast
  from subscription_delivers [OF sample_store_ok sample_overtaken_run [unfolded sample_feed_def] s] s show ?thesis by blast
qed

end
