(* ===== verification/Coordination.thy ===== *)
theory Coordination
  imports Projection Profile
begin

text \<open>
  What a leader may decide (internal/orchestrator/decision.go, tool_lead.go and the two
  \<open>materialize\<close> functions of runtime.go): the decision a model returns, its validation,
  and the check and translation of its proposals into specifications of work. Identities
  come from the supply \<open>ids\<close>; an exhausted supply is the error of \<open>uuid.NewV7\<close>.
\<close>

section \<open>Decisions\<close>

record proposed_handoff =
  ph_peer :: string
  ph_reason :: string

record proposed_peer_turn =
  qp_key :: string
  qp_peer :: string
  qp_collaboration :: string
  qp_objective :: string
  qp_context :: string
  qp_attachments :: "string list"

record proposed_delegation =
  qd_key :: string
  qd_specialist :: string
  qd_objective :: string
  qd_context :: string
  qd_attachments :: "string list"
  qd_depends_on :: "string list"

record agent_decision =
  de_kind :: string
  de_assessment :: string
  de_delegations :: "proposed_delegation list"
  de_peer_turns :: "proposed_peer_turn list"
  de_cancel :: "string list"
  de_handoff :: "proposed_handoff option"
  de_observed :: nat

record specialist_result =
  sr_result :: string
  sr_findings :: "string list"
  sr_risks :: "string list"
  sr_confidence :: float64

datatype decision_error =
    NotCoordinate
  | EmptyAssessment
  | HandoffNotExclusive
  | HandoffIncomplete
  | NothingProduced
  | UnknownWork string
  | HandoffForbidden string string
  | HandoffReason
  | MissingKey nat
  | DuplicateKey string
  | ForbiddenMember string string
  | EmptyObjective string
  | UnavailableAttachment string
  | IdentityFailure
  | UnknownDependency string string
  | CancelledDependency string string
  | ForeignCollaboration string
  | BusyCollaboration string

text \<open>\<open>looksLikeCoordination\<close>: the model's text, as \<open>encoding/json\<close> parses it.\<close>

definition looksLikeCoordination :: "json option \<Rightarrow> bool" where
  "looksLikeCoordination parsed =
     (case parsed of
        Some (JObj kvs) \<Rightarrow> (case field kvs ''kind'' of Some (JStr s) \<Rightarrow> s = ''coordinate'' | _ \<Rightarrow> False)
      | _ \<Rightarrow> False)"

definition validateAgentDecision :: "agent_decision \<Rightarrow> nat \<Rightarrow> (decision_error, unit) res" where
  "validateAgentDecision d observedWork =
     (if de_kind d \<noteq> ''coordinate'' then Inl NotCoordinate
      else if trim (de_assessment d) = [] then Inl EmptyAssessment
      else if de_handoff d \<noteq> None \<and> (de_delegations d \<noteq> [] \<or> de_peer_turns d \<noteq> []) then Inl HandoffNotExclusive
      else if (case de_handoff d of None \<Rightarrow> False | Some h \<Rightarrow> trim (ph_peer h) = [] \<or> trim (ph_reason h) = [])
      then Inl HandoffIncomplete
      else if de_handoff d = None \<and> de_delegations d = [] \<and> de_peer_turns d = [] \<and> observedWork = 0
      then Inl NothingProduced
      else Inr ())"

section \<open>Attachments a turn may name\<close>

definition projectionAttachmentReferences :: "projection \<Rightarrow> string list" where
  "projectionAttachmentReferences state =
     uniqueStrings (map ar_reference (attachment_refs (pj_task_input state)) @
       concat (map (\<lambda>i. map ar_reference (attachment_refs i)) (pj_instruction_inputs state)))"

definition validateAttachmentSelection :: "projection \<Rightarrow> string list \<Rightarrow> (decision_error, string list) res" where
  "validateAttachmentSelection state requested =
     (let available = projectionAttachmentReferences state; selected = uniqueStrings requested in
      case find (\<lambda>r. r \<notin> set available) selected of
        Some r \<Rightarrow> Inl (UnavailableAttachment r)
      | None \<Rightarrow> Inr selected)"

lemma validateAttachmentSelection_Inr:
  "validateAttachmentSelection state requested = Inr selected \<Longrightarrow>
   selected = uniqueStrings requested \<and> set selected \<subseteq> set (projectionAttachmentReferences state)"
  by (auto simp: validateAttachmentSelection_def Let_def find_None_iff split: option.splits)

section \<open>Delegations\<close>

text \<open>
  The inner loop over the dependencies of one proposal: an alias of an earlier proposal of
  the same decision, or the identity of known work; the depth is one more than the deepest.
\<close>

fun resolve_dependencies ::
    "(string, string) gomap \<Rightarrow> (string, delegation_spec) gomap \<Rightarrow> string \<Rightarrow> string list \<Rightarrow> int \<Rightarrow>
     (decision_error, string list \<times> int) res" where
  "resolve_dependencies keys known key [] depth = Inr ([], depth)"
| "resolve_dependencies keys known key (reference # rs) depth =
     (let dependencyID = (case map_of keys reference of Some alias \<Rightarrow> alias | None \<Rightarrow> reference) in
      case map_of known dependencyID of
        None \<Rightarrow> Inl (UnknownDependency key reference)
      | Some dependency \<Rightarrow>
          res_bind (resolve_dependencies keys known key rs
              (if depth < ds_depth dependency + 1 then ds_depth dependency + 1 else depth)) (\<lambda>(ds, n).
          Inr (dependencyID # ds, n)))"

fun materialize_delegations_loop ::
    "profile \<Rightarrow> projection \<Rightarrow> agent \<Rightarrow> nat \<Rightarrow> proposed_delegation list \<Rightarrow> string list \<Rightarrow>
     (string, string) gomap \<Rightarrow> (string, delegation_spec) gomap \<Rightarrow>
     (decision_error, delegation_spec list \<times> string list) res" where
  "materialize_delegations_loop p state agent i [] ids keys known = Inr ([], ids)"
| "materialize_delegations_loop p state agent i (q # qs) ids keys known =
     (if trim (qd_key q) = [] then Inl (MissingKey i)
      else if map_of keys (qd_key q) \<noteq> None then Inl (DuplicateKey (qd_key q))
      else if SpecialistFor p agent (qd_specialist q) = None
      then Inl (ForbiddenMember (ag_id agent) (qd_specialist q))
      else if trim (qd_objective q) = [] then Inl (EmptyObjective (qd_key q))
      else res_bind (validateAttachmentSelection state (qd_attachments q)) (\<lambda>attachments.
        (case ids of
           [] \<Rightarrow> Inl IdentityFailure
         | i' # ids' \<Rightarrow>
             res_bind (resolve_dependencies keys known (qd_key q) (uniqueStrings (qd_depends_on q)) 1)
               (\<lambda>(dependencies, depth).
             let spec = \<lparr>ds_id = i', ds_key = qd_key q, ds_specialist_id = qd_specialist q,
                   ds_caller_id = ag_id agent, ds_objective = trim (qd_objective q), ds_context = trim (qd_context q),
                   ds_attachments = attachments, ds_depends_on = dependencies, ds_required_tools = [],
                   ds_depth = depth\<rparr>
             in res_bind (materialize_delegations_loop p state agent (Suc i) qs ids'
                  (AList.update (qd_key q) i' keys) (AList.update i' spec known)) (\<lambda>(specs, rest).
                Inr (spec # specs, rest))))))"

definition known_specs :: "projection \<Rightarrow> (string, delegation_spec) gomap" where
  "known_specs state = map (\<lambda>(k, d). (k, dg_spec d)) (pj_delegations state)"

definition materializeDelegations ::
    "profile \<Rightarrow> projection \<Rightarrow> agent \<Rightarrow> proposed_delegation list \<Rightarrow> string list \<Rightarrow>
     (decision_error, delegation_spec list \<times> string list) res" where
  "materializeDelegations p state agent proposals ids =
     materialize_delegations_loop p state agent 0 proposals ids [] (known_specs state)"

section \<open>Peer turns\<close>

record collaboration =
  co_caller :: string
  co_peer :: string
  co_round :: int
  co_active :: bool

definition no_collaboration :: collaboration where
  "no_collaboration = \<lparr>co_caller = [], co_peer = [], co_round = 0, co_active = False\<rparr>"

definition lookup_collaboration :: "(string, collaboration) gomap \<Rightarrow> string \<Rightarrow> collaboration" where
  "lookup_collaboration known i = (case map_of known i of None \<Rightarrow> no_collaboration | Some c \<Rightarrow> c)"

definition note_turn :: "(string, collaboration) gomap \<Rightarrow> peer_turn \<Rightarrow> (string, collaboration) gomap" where
  "note_turn known u =
     (let current = lookup_collaboration known (pts_collaboration_id (pu_spec u));
          named = (if co_peer current = []
                   then current\<lparr>co_peer := pts_peer_id (pu_spec u), co_caller := pts_caller_id (pu_spec u)\<rparr>
                   else current);
          rounded = (if co_round named < pts_round (pu_spec u) then named\<lparr>co_round := pts_round (pu_spec u)\<rparr> else named)
      in AList.update (pts_collaboration_id (pu_spec u))
           (rounded\<lparr>co_active := co_active rounded \<or> active_status (pu_status u)\<rparr>) known)"

definition known_collaborations :: "projection \<Rightarrow> (string, collaboration) gomap" where
  "known_collaborations state = foldl note_turn [] (SortedPeerTurns state)"

text \<open>An identity for a new collaboration is drawn from the supply only when none is named.\<close>

definition choose_collaboration :: "string \<Rightarrow> string list \<Rightarrow> (decision_error, string \<times> string list) res" where
  "choose_collaboration named ids =
     (if trim named \<noteq> [] then Inr (trim named, ids)
      else case ids of [] \<Rightarrow> Inl IdentityFailure | i # rest \<Rightarrow> Inr (i, rest))"

fun materialize_peer_turns_loop ::
    "profile \<Rightarrow> projection \<Rightarrow> agent \<Rightarrow> nat \<Rightarrow> proposed_peer_turn list \<Rightarrow> string list \<Rightarrow>
     string list \<Rightarrow> string list \<Rightarrow> (string, collaboration) gomap \<Rightarrow>
     (decision_error, peer_turn_spec list \<times> string list) res" where
  "materialize_peer_turns_loop p state agent i [] ids keys used known = Inr ([], ids)"
| "materialize_peer_turns_loop p state agent i (q # qs) ids keys used known =
     (let key = trim (qp_key q) in
      if key = [] then Inl (MissingKey i)
      else if key \<in> set keys then Inl (DuplicateKey key)
      else case PeerAgentFor p agent (qp_peer q) of
        None \<Rightarrow> Inl (ForbiddenMember (ag_id agent) (qp_peer q))
      | Some peer \<Rightarrow>
          if trim (qp_objective q) = [] then Inl (EmptyObjective key)
          else res_bind (validateAttachmentSelection state (qp_attachments q)) (\<lambda>attachments.
            res_bind (choose_collaboration (qp_collaboration q) ids) (\<lambda>(collaborationID, ids1).
            let current = lookup_collaboration known collaborationID in
            if map_of known collaborationID \<noteq> None \<and> (co_peer current \<noteq> ag_id peer \<or> co_caller current \<noteq> ag_id agent)
            then Inl (ForeignCollaboration collaborationID)
            else if co_active current \<or> collaborationID \<in> set used then Inl (BusyCollaboration collaborationID)
            else case ids1 of
              [] \<Rightarrow> Inl IdentityFailure
            | i' # ids2 \<Rightarrow>
                let spec = \<lparr>pts_id = i', pts_key = key, pts_collaboration_id = collaborationID,
                      pts_peer_id = ag_id peer, pts_caller_id = ag_id agent, pts_objective = trim (qp_objective q),
                      pts_context = trim (qp_context q), pts_attachments = attachments, pts_required_tools = [],
                      pts_round = co_round current + 1\<rparr>
                in res_bind (materialize_peer_turns_loop p state agent (Suc i) qs ids2 (key # keys)
                     (collaborationID # used)
                     (AList.update collaborationID
                       \<lparr>co_caller = ag_id agent, co_peer = ag_id peer, co_round = pts_round spec, co_active = True\<rparr> known))
                     (\<lambda>(specs, rest). Inr (spec # specs, rest)))))"

definition materializePeerTurns ::
    "profile \<Rightarrow> projection \<Rightarrow> agent \<Rightarrow> proposed_peer_turn list \<Rightarrow> string list \<Rightarrow>
     (decision_error, peer_turn_spec list \<times> string list) res" where
  "materializePeerTurns p state agent proposals ids =
     materialize_peer_turns_loop p state agent 0 proposals ids [] [] (known_collaborations state)"


section \<open>What the delegation check guarantees\<close>

lemma resolve_dependencies_Inr:
  "resolve_dependencies keys known key rs depth = Inr (ds, n) \<Longrightarrow>
   depth \<le> n \<and> length ds = length rs \<and> (\<forall>i \<in> set ds. \<exists>e. map_of known i = Some e \<and> ds_depth e < n)"
proof (induction keys known key rs depth arbitrary: ds n rule: resolve_dependencies.induct)
  case (1 keys known key depth)
  then show ?case by simp
next
  case (2 keys known key reference rs depth)
  define i where "i = (case map_of keys reference of Some alias \<Rightarrow> alias | None \<Rightarrow> reference)"
  obtain e where e: "map_of known i = Some e"
    using "2.prems" by (auto simp: i_def Let_def split: option.splits)
  let ?d = "if depth < ds_depth e + 1 then ds_depth e + 1 else depth"
  obtain ds' where rec: "resolve_dependencies keys known key rs ?d = Inr (ds', n)" and ds: "ds = i # ds'"
    using "2.prems" e by (auto simp: i_def [symmetric] Let_def res_bind_Inr_iff)
  from "2.IH" [OF i_def e rec] e show ?case by (auto simp: ds split: if_splits)
qed

text \<open>Every dependency is known before the work that names it, and lies less deep.\<close>

fun layered :: "(string, delegation_spec) gomap \<Rightarrow> delegation_spec list \<Rightarrow> bool" where
  "layered known [] \<longleftrightarrow> True"
| "layered known (s # ss) \<longleftrightarrow>
     (\<forall>i \<in> set (ds_depends_on s). case map_of known i of None \<Rightarrow> False | Some e \<Rightarrow> ds_depth e < ds_depth s) \<and>
     layered (AList.update (ds_id s) s known) ss"

definition delegation_permitted :: "profile \<Rightarrow> projection \<Rightarrow> agent \<Rightarrow> delegation_spec \<Rightarrow> bool" where
  "delegation_permitted p state agent s \<longleftrightarrow>
     ds_caller_id s = ag_id agent \<and> SpecialistFor p agent (ds_specialist_id s) \<noteq> None \<and>
     trim (ds_key s) \<noteq> [] \<and> ds_objective s \<noteq> [] \<and> 1 \<le> ds_depth s \<and>
     set (ds_attachments s) \<subseteq> set (projectionAttachmentReferences state)"

lemma materialize_delegations_loop_Inr:
  "materialize_delegations_loop p state agent i qs ids keys known = Inr (specs, rest) \<Longrightarrow>
   ids = map ds_id specs @ rest \<and> map ds_key specs = map qd_key qs \<and> layered known specs \<and>
   (\<forall>s \<in> set specs. delegation_permitted p state agent s) \<and>
   distinct (map ds_key specs) \<and> set (map ds_key specs) \<inter> set (map fst keys) = {}"
proof (induction p state agent i qs ids keys known arbitrary: specs rest
    rule: materialize_delegations_loop.induct)
  case (1 p state agent i ids keys known)
  then show ?case by simp
next
  case (2 p state agent i q qs ids keys known)
  have guards: "trim (qd_key q) \<noteq> []" "map_of keys (qd_key q) = None"
    "SpecialistFor p agent (qd_specialist q) \<noteq> None" "trim (qd_objective q) \<noteq> []"
    using "2.prems" by (auto split: if_splits)
  then obtain attachments where att: "validateAttachmentSelection state (qd_attachments q) = Inr attachments"
    using "2.prems" by (auto simp: res_bind_Inr_iff)
  obtain i' ids' where ids: "ids = i' # ids'"
    using "2.prems" guards att by (cases ids) auto
  obtain dependencies depth where deps:
    "resolve_dependencies keys known (qd_key q) (uniqueStrings (qd_depends_on q)) 1 = Inr (dependencies, depth)"
    using "2.prems" guards att ids by (auto simp: res_bind_Inr_iff)
  define spec where "spec = \<lparr>ds_id = i', ds_key = qd_key q, ds_specialist_id = qd_specialist q,
      ds_caller_id = ag_id agent, ds_objective = trim (qd_objective q), ds_context = trim (qd_context q),
      ds_attachments = attachments, ds_depends_on = dependencies, ds_required_tools = [], ds_depth = depth\<rparr>"
  obtain specs' where rec: "materialize_delegations_loop p state agent (Suc i) qs ids'
      (AList.update (qd_key q) i' keys) (AList.update i' spec known) = Inr (specs', rest)"
    and specs: "specs = spec # specs'"
    using "2.prems" guards att ids deps by (auto simp: res_bind_Inr_iff Let_def spec_def)
  have fields: "ds_id spec = i'" "ds_key spec = qd_key q" "ds_depends_on spec = dependencies" "ds_depth spec = depth"
    by (simp_all add: spec_def)
  have nokey: "\<not> map_of keys (qd_key q) \<noteq> None" using guards(2) by simp
  have IH: "ids' = map ds_id specs' @ rest \<and> map ds_key specs' = map qd_key qs \<and>
      layered (AList.update i' spec known) specs' \<and> (\<forall>s \<in> set specs'. delegation_permitted p state agent s) \<and>
      distinct (map ds_key specs') \<and>
      set (map ds_key specs') \<inter> set (map fst (AList.update (qd_key q) i' keys)) = {}"
    by (rule "2.IH" [OF guards(1) nokey guards(3,4) ids spec_def rec])
  note dep = resolve_dependencies_Inr [OF deps]
  have offered: "set attachments \<subseteq> set (projectionAttachmentReferences state)"
    using validateAttachmentSelection_Inr [OF att] by blast
  have "\<forall>j \<in> set dependencies. case map_of known j of None \<Rightarrow> False | Some e \<Rightarrow> ds_depth e < ds_depth spec"
    using dep unfolding fields by force
  moreover have "delegation_permitted p state agent spec"
    using guards dep offered by (simp add: delegation_permitted_def spec_def)
  moreover have "qd_key q \<notin> set (map ds_key specs')" "set (map ds_key specs') \<inter> set (map fst keys) = {}"
    using conjunct2 [OF conjunct2 [OF conjunct2 [OF conjunct2 [OF conjunct2 [OF IH]]]]]
    unfolding keys_update by blast+
  moreover have "qd_key q \<notin> set (map fst keys)" using guards(2) by (simp add: map_of_eq_None_iff)
  moreover have "distinct (map qd_key qs)" using IH by argo
  ultimately show ?case using IH by (simp add: specs ids fields)
qed

lemma materializeDelegations_Inr:
  assumes "materializeDelegations p state agent qs ids = Inr (specs, rest)"
  shows "ids = map ds_id specs @ rest" "map ds_key specs = map qd_key qs" "layered (known_specs state) specs"
    "\<And>s. s \<in> set specs \<Longrightarrow> delegation_permitted p state agent s" "distinct (map ds_key specs)"
  using materialize_delegations_loop_Inr [OF assms [unfolded materializeDelegations_def]] by auto

section \<open>What the peer check guarantees\<close>

lemma choose_collaboration_Inr:
  "choose_collaboration named ids = Inr (c, rest) \<Longrightarrow>
   (trim named \<noteq> [] \<and> c = trim named \<and> rest = ids) \<or> (trim named = [] \<and> ids = c # rest)"
  by (auto simp: choose_collaboration_def split: if_splits list.splits)

definition peer_turn_permitted ::
    "profile \<Rightarrow> projection \<Rightarrow> agent \<Rightarrow> (string, collaboration) gomap \<Rightarrow> peer_turn_spec \<Rightarrow> bool" where
  "peer_turn_permitted p state agent known s \<longleftrightarrow>
     pts_caller_id s = ag_id agent \<and> PeerAgentFor p agent (pts_peer_id s) \<noteq> None \<and>
     pts_key s \<noteq> [] \<and> pts_objective s \<noteq> [] \<and>
     set (pts_attachments s) \<subseteq> set (projectionAttachmentReferences state) \<and>
     (let c = lookup_collaboration known (pts_collaboration_id s) in
        \<not> co_active c \<and> pts_round s = co_round c + 1 \<and>
        (map_of known (pts_collaboration_id s) \<noteq> None \<longrightarrow>
           co_peer c = pts_peer_id s \<and> co_caller c = pts_caller_id s))"

lemma materialize_peer_turns_loop_Inr:
  "materialize_peer_turns_loop p state agent i qs ids keys used known = Inr (specs, rest) \<Longrightarrow>
   set (map pts_id specs) \<subseteq> set ids \<and> set rest \<subseteq> set ids \<and> (distinct ids \<longrightarrow> distinct (map pts_id specs @ rest)) \<and>
   length specs = length qs \<and>
   (\<forall>s \<in> set specs. peer_turn_permitted p state agent known s) \<and>
   distinct (map pts_collaboration_id specs) \<and> set (map pts_collaboration_id specs) \<inter> set used = {} \<and>
   distinct (map pts_key specs) \<and> set (map pts_key specs) \<inter> set keys = {}"
proof (induction p state agent i qs ids keys used known arbitrary: specs rest
    rule: materialize_peer_turns_loop.induct)
  case (1 p state agent i ids keys used known)
  then show ?case by simp
next
  case (2 p state agent i q qs ids keys used known)
  let ?key = "trim (qp_key q)"
  have g1: "?key \<noteq> []" "?key \<notin> set keys"
    using "2.prems" by (auto simp: Let_def split: if_splits)
  obtain peer where peer: "PeerAgentFor p agent (qp_peer q) = Some peer"
    using "2.prems" g1 by (auto simp: Let_def split: option.splits)
  have g2: "trim (qp_objective q) \<noteq> []"
    using "2.prems" g1 peer by (auto simp: Let_def split: if_splits)
  obtain attachments where att: "validateAttachmentSelection state (qp_attachments q) = Inr attachments"
    using "2.prems" g1 peer g2 by (auto simp: Let_def res_bind_Inr_iff)
  obtain c ids1 where ch: "choose_collaboration (qp_collaboration q) ids = Inr (c, ids1)"
    using "2.prems" g1 peer g2 att by (auto simp: Let_def res_bind_Inr_iff)
  let ?cur = "lookup_collaboration known c"
  have g3: "\<not> (map_of known c \<noteq> None \<and> (co_peer ?cur \<noteq> ag_id peer \<or> co_caller ?cur \<noteq> ag_id agent))"
    "\<not> (co_active ?cur \<or> c \<in> set used)"
    using "2.prems" g1 peer g2 att ch by (auto simp: Let_def split: if_splits)
  obtain i' ids2 where ids1: "ids1 = i' # ids2"
    using "2.prems" g1 peer g2 att ch g3 by (cases ids1) (auto simp: Let_def)
  define spec where "spec = \<lparr>pts_id = i', pts_key = ?key, pts_collaboration_id = c,
      pts_peer_id = ag_id peer, pts_caller_id = ag_id agent, pts_objective = trim (qp_objective q),
      pts_context = trim (qp_context q), pts_attachments = attachments, pts_required_tools = [],
      pts_round = co_round ?cur + 1\<rparr>"
  let ?known = "AList.update c
      \<lparr>co_caller = ag_id agent, co_peer = ag_id peer, co_round = pts_round spec, co_active = True\<rparr> known"
  obtain specs' where rec: "materialize_peer_turns_loop p state agent (Suc i) qs ids2 (?key # keys) (c # used) ?known =
      Inr (specs', rest)" and specs: "specs = spec # specs'"
    using "2.prems" g1 peer g2 att ch g3 ids1 by (auto simp: res_bind_Inr_iff Let_def spec_def)
  have IH: "set (map pts_id specs') \<subseteq> set ids2 \<and> set rest \<subseteq> set ids2 \<and>
      (distinct ids2 \<longrightarrow> distinct (map pts_id specs' @ rest)) \<and> length specs' = length qs \<and>
      (\<forall>s \<in> set specs'. peer_turn_permitted p state agent ?known s) \<and>
      distinct (map pts_collaboration_id specs') \<and> set (map pts_collaboration_id specs') \<inter> set (c # used) = {} \<and>
      distinct (map pts_key specs') \<and> set (map pts_key specs') \<inter> set (?key # keys) = {}"
    by (rule "2.IH" [OF refl g1 peer g2 refl g3 ids1 spec_def rec])
  have offered: "set attachments \<subseteq> set (projectionAttachmentReferences state)"
    using validateAttachmentSelection_Inr [OF att] by blast
  have sub: "set ids2 \<subseteq> set ids" "i' \<in> set ids" "distinct ids \<Longrightarrow> i' \<notin> set ids2 \<and> distinct ids2"
    using choose_collaboration_Inr [OF ch] ids1 by auto
  have old: "peer_turn_permitted p state agent known s" if "s \<in> set specs'" for s
  proof -
    have "pts_collaboration_id s \<noteq> c" using IH that by auto
    then show ?thesis
      using IH that by (auto simp: peer_turn_permitted_def lookup_collaboration_def Let_def)
  qed
  have "peer_turn_permitted p state agent known spec"
    using g1 g2 g3 PeerAgentFor_peer [OF peer] peer offered
    by (auto simp: peer_turn_permitted_def spec_def Let_def)
  then show ?case
    using IH sub old g1 g3(2) by (auto simp: specs) (auto simp: spec_def)
qed

section \<open>What the session already knows of a collaboration\<close>

lemma lookup_update [simp]:
  "lookup_collaboration (AList.update k c known) i = (if i = k then c else lookup_collaboration known i)"
  by (simp add: lookup_collaboration_def update_conv')

lemma note_turn_lookup:
  "co_active (lookup_collaboration (note_turn known u) i) \<longleftrightarrow>
     co_active (lookup_collaboration known i) \<or> (pts_collaboration_id (pu_spec u) = i \<and> active_status (pu_status u))"
  "co_round (lookup_collaboration (note_turn known u) i) =
     (if pts_collaboration_id (pu_spec u) = i then max (co_round (lookup_collaboration known i)) (pts_round (pu_spec u))
      else co_round (lookup_collaboration known i))"
  by (auto simp: note_turn_def Let_def)

lemma fold_turns:
  "co_active (lookup_collaboration (foldl note_turn known us) i) \<longleftrightarrow>
     co_active (lookup_collaboration known i) \<or>
     (\<exists>u \<in> set us. pts_collaboration_id (pu_spec u) = i \<and> active_status (pu_status u))"
  "co_round (lookup_collaboration known i) \<le> co_round (lookup_collaboration (foldl note_turn known us) i)"
  "\<forall>u \<in> set us. pts_collaboration_id (pu_spec u) = i \<longrightarrow>
     pts_round (pu_spec u) \<le> co_round (lookup_collaboration (foldl note_turn known us) i)"
proof (induction us arbitrary: known)
  case (Cons u us)
  {
    case 1
    show ?case using Cons(1) [of "note_turn known u"] by (auto simp: note_turn_lookup)
  next
    case 2
    show ?case using Cons(2) [of "note_turn known u"] by (auto simp: note_turn_lookup split: if_splits)
  next
    case 3
    show ?case
      using Cons(2,3) [of "note_turn known u"] by (auto simp: note_turn_lookup split: if_splits)
  }
qed auto

lemma known_collaborations_bound:
  assumes "u \<in> set (SortedPeerTurns state)" and "pts_collaboration_id (pu_spec u) = i"
    and "\<not> co_active (lookup_collaboration (known_collaborations state) i)"
  shows "\<not> active_status (pu_status u)"
    and "pts_round (pu_spec u) \<le> co_round (lookup_collaboration (known_collaborations state) i)"
  using assms fold_turns(1,3) [where known = "[]" and us = "SortedPeerTurns state" and i = i]
  by (auto simp: known_collaborations_def)

section \<open>Properties\<close>

definition sample_proposal :: "string \<Rightarrow> string list \<Rightarrow> proposed_delegation" where
  "sample_proposal k deps =
     \<lparr>qd_key = k, qd_specialist = ''reviewer'', qd_objective = ''review'', qd_context = [],
      qd_attachments = [], qd_depends_on = deps\<rparr>"

definition sample_consult :: proposed_peer_turn where
  "sample_consult =
     \<lparr>qp_key = ''k'', qp_peer = ''second'', qp_collaboration = [], qp_objective = ''discuss'',
      qp_context = [], qp_attachments = []\<rparr>"

text \<open>
  C11: what a leader's accepted delegations satisfy. When \<open>materializeDelegations\<close> accepts
  the proposals of a decision, it yields one specification per proposal, in order, each
  with a fresh identity taken from the supply and its proposal's key, keys pairwise
  distinct; every caller is the deciding agent, every specialist one it may use, every
  attachment one the session offers; and every dependency is work already known, or
  accepted earlier in the same decision, of strictly smaller depth, so that no cycle of
  dependencies can arise.
\<close>

theorem materializeDelegations_contract:
  assumes "materializeDelegations p state agent proposals ids = Inr (specs, rest)"
  shows "ids = map ds_id specs @ rest \<and> map ds_key specs = map qd_key proposals \<and>
    distinct (map ds_key specs) \<and> layered (known_specs state) specs \<and>
    (\<forall>s \<in> set specs. delegation_permitted p state agent s)"
  using materializeDelegations_Inr [OF assms] by blast

theorem materializeDelegations_contract_witness:
  "layered (known_specs (new_projection ''s''))
    (map (\<lambda>(i, k, ds, n). \<lparr>ds_id = i, ds_key = k, ds_specialist_id = ''reviewer'', ds_caller_id = ''lead'',
        ds_objective = ''review'', ds_context = [], ds_attachments = [], ds_depends_on = ds,
        ds_required_tools = [], ds_depth = n\<rparr>) [(''i1'', ''a'', [], 1), (''i2'', ''b'', [''i1''], 2)])"
proof -
  have "materializeDelegations sample_profile (new_projection ''s'') (p_primary sample_profile)
      [sample_proposal ''a'' [], sample_proposal ''b'' [''a'']] [''i1'', ''i2''] =
    Inr (map (\<lambda>(i, k, ds, n). \<lparr>ds_id = i, ds_key = k, ds_specialist_id = ''reviewer'', ds_caller_id = ''lead'',
        ds_objective = ''review'', ds_context = [], ds_attachments = [], ds_depends_on = ds,
        ds_required_tools = [], ds_depth = n\<rparr>) [(''i1'', ''a'', [], 1), (''i2'', ''b'', [''i1''], 2)], [])"
    by (simp add: materializeDelegations_def sample_proposal_def sample_profile_def trim_plain SpecialistFor_def
        Specialist_def validateAttachmentSelection_def uniqueStrings_def known_specs_def new_projection_def Let_def plain_byte_def less_char_def)
  from materializeDelegations_contract [OF this] show ?thesis by blast
qed

text \<open>
  What a leader's accepted consultations satisfy. When \<open>materializePeerTurns\<close> accepts
  the proposals of a decision, every turn is called by the deciding agent and goes to one
  of its peers; no turn of the same collaboration is pending or running, each continues
  with a round above every earlier round of that collaboration, and one decision plans at
  most one turn per collaboration and per key; identities are never reused.
\<close>

theorem materializePeerTurns_contract:
  assumes "materializePeerTurns p state agent proposals ids = Inr (specs, rest)" and "distinct ids"
  shows "length specs = length proposals \<and> distinct (map pts_id specs @ rest) \<and>
    set (map pts_id specs @ rest) \<subseteq> set ids \<and>
    distinct (map pts_collaboration_id specs) \<and> distinct (map pts_key specs) \<and>
    (\<forall>s \<in> set specs. pts_caller_id s = ag_id agent \<and> PeerAgentFor p agent (pts_peer_id s) \<noteq> None \<and>
       pts_objective s \<noteq> [] \<and> set (pts_attachments s) \<subseteq> set (projectionAttachmentReferences state) \<and>
       (\<forall>u \<in> set (SortedPeerTurns state). pts_collaboration_id (pu_spec u) = pts_collaboration_id s \<longrightarrow>
          \<not> active_status (pu_status u) \<and> pts_round (pu_spec u) < pts_round s))"
proof -
  note loop = materialize_peer_turns_loop_Inr [OF assms(1) [unfolded materializePeerTurns_def]]
  have "peer_turn_permitted p state agent (known_collaborations state) s" if "s \<in> set specs" for s
    using loop that by blast
  then have "\<forall>s \<in> set specs. pts_caller_id s = ag_id agent \<and> PeerAgentFor p agent (pts_peer_id s) \<noteq> None \<and>
       pts_objective s \<noteq> [] \<and> set (pts_attachments s) \<subseteq> set (projectionAttachmentReferences state) \<and>
       (\<forall>u \<in> set (SortedPeerTurns state). pts_collaboration_id (pu_spec u) = pts_collaboration_id s \<longrightarrow>
          \<not> active_status (pu_status u) \<and> pts_round (pu_spec u) < pts_round s)"
    using known_collaborations_bound by (fastforce simp: peer_turn_permitted_def Let_def)
  then show ?thesis using loop assms(2) by auto
qed

theorem materializePeerTurns_contract_witness:
  "PeerAgentFor sample_profile (p_primary sample_profile) ''second'' \<noteq> None"
proof -
  have "materializePeerTurns sample_profile (new_projection ''s'') (p_primary sample_profile)
      [sample_consult] [''i1'', ''i2''] =
    Inr ([\<lparr>pts_id = ''i2'', pts_key = ''k'', pts_collaboration_id = ''i1'', pts_peer_id = ''second'',
        pts_caller_id = ''lead'', pts_objective = ''discuss'', pts_context = [], pts_attachments = [],
        pts_required_tools = [], pts_round = 1\<rparr>], [])"
    by (simp add: materializePeerTurns_def sample_consult_def sample_profile_def trim_plain PeerAgentFor_def
        Agent_def Agents_def validateAttachmentSelection_def known_collaborations_def new_projection_def
        choose_collaboration_def SortedPeerTurns_def lookup_collaboration_def no_collaboration_def Let_def plain_byte_def less_char_def)
  from materializePeerTurns_contract [OF this] show ?thesis by simp
qed

end
