(* ===== verification/Runtime.thy ===== *)
theory Runtime
  imports Sessions Coordination
begin

text \<open>
  The session runtime (internal/orchestrator/runtime.go and the execution half of
  peer.go): it reads its state by replaying the session's log, applies the leader's
  decisions, launches work whose dependencies are completed, records what the work
  returns, and answers the user. An operation is a function of the runtime's state to an
  error or a value and the new state; unlike a store transaction it keeps what it did
  before an error. Model calls are outcomes given to the operations: the bytes a model
  produced, or the reason it failed.
\<close>

section \<open>State\<close>

datatype cause =
    LedgerFault store_error
  | ReplayFault projection_error
  | DecisionFault decision_error
  | IdentityFault
  | ContextCancelled
  | LeaderAbsent string
  | CallerAbsent string
  | SpecialistForbidden string
  | PeerForbidden string
  | EmptyAnswer
  | EmptyResult string
  | UnknownWorkFault string
  | NoOutcome
  | ModelFault string

text \<open>What the code takes from outside: digests, the JSON parser, and the text of an error.\<close>

record environment =
  en_platform :: platform
  en_json :: "string \<Rightarrow> json option"
  en_text :: "cause \<Rightarrow> string"

record signal =
  sg_kind :: string
  sg_event :: string
  sg_work :: string

text \<open>
  A goroutine started by the scheduler: it is queued, has passed its checks and entered
  the map of active work as a member, has recorded its start, or has returned.
\<close>

datatype phase = Queued | Entered string | Started string | Left

record task =
  tk_peer :: bool
  tk_id :: string
  tk_attempt :: int
  tk_phase :: phase

text \<open>
  \<open>rt_ids\<close> and \<open>rt_clock\<close> are the identities and times still to be drawn; \<open>rt_closed\<close> says
  that the context of the whole run is cancelled, \<open>rt_cut\<close> names the active work whose own
  context is; \<open>rt_loop\<close> says that the turn loop is installed. \<open>rt_signals\<close> are the signals
  waiting in the loop, or before that the pending ones.
\<close>

record runtime =
  rt_store :: store
  rt_session :: string
  rt_profile :: profile
  rt_history :: "conversation_turn list"
  rt_active :: "string set"
  rt_cut :: "string set"
  rt_launched :: "string set"
  rt_tasks :: "task list"
  rt_signals :: "signal list"
  rt_loop :: bool
  rt_stopped :: bool
  rt_finalizing :: bool
  rt_user_cancelled :: bool
  rt_closed :: bool
  rt_ids :: "string list"
  rt_clock :: "nat \<Rightarrow> int"
  rt_ticks :: nat

type_synonym 'a act = "runtime \<Rightarrow> (cause, 'a) res \<times> runtime"

definition act_return :: "'a \<Rightarrow> 'a act" where
  "act_return x r = (Inr x, r)"

definition act_fail :: "cause \<Rightarrow> 'a act" where
  "act_fail e r = (Inl e, r)"

definition act_bind :: "'a act \<Rightarrow> ('a \<Rightarrow> 'b act) \<Rightarrow> 'b act" where
  "act_bind m f r = (case m r of (Inl e, r1) \<Rightarrow> (Inl e, r1) | (Inr x, r1) \<Rightarrow> f x r1)"

fun act_each :: "('a \<Rightarrow> unit act) \<Rightarrow> 'a list \<Rightarrow> unit act" where
  "act_each f [] = act_return ()"
| "act_each f (x # xs) = act_bind (f x) (\<lambda>_. act_each f xs)"

text \<open>A check on values that are already read: refuse with the error, or go on.\<close>

definition act_lift :: "('e \<Rightarrow> cause) \<Rightarrow> ('e, 'a) res \<Rightarrow> 'a act" where
  "act_lift f v r = (case v of Inl e \<Rightarrow> (Inl (f e), r) | Inr x \<Rightarrow> (Inr x, r))"

definition act_update :: "(runtime \<Rightarrow> runtime) \<Rightarrow> unit act" where
  "act_update f r = (Inr (), f r)"

section \<open>The log\<close>

text \<open>\<open>live\<close>: the call carries the run's context, and fails once that is cancelled.\<close>

definition read_projection :: "bool \<Rightarrow> projection act" where
  "read_projection live r =
     (if live \<and> rt_closed r then (Inl ContextCancelled, r)
      else case Replay (rt_session r) (Events (rt_store r) (rt_session r) 0) of
             Inl e \<Rightarrow> (Inl (ReplayFault e), r)
           | Inr p \<Rightarrow> (Inr (p\<lparr>pj_history := rt_history r\<rparr>), r))"

definition append_draft :: "environment \<Rightarrow> bool \<Rightarrow> draft \<Rightarrow> event act" where
  "append_draft env live d r =
     (if live \<and> rt_closed r then (Inl ContextCancelled, r)
      else case rt_ids r of
             [] \<Rightarrow> (Inl IdentityFault, r)
           | i # ids \<Rightarrow>
               let r1 = r\<lparr>rt_ids := ids, rt_ticks := Suc (rt_ticks r)\<rparr> in
               (case Append (en_platform env) i (rt_clock r (rt_ticks r)) (rt_session r) d (rt_store r) of
                  Inl e \<Rightarrow> (Inl (LedgerFault e), r1)
                | Inr (item, st) \<Rightarrow> (Inr item, r1\<lparr>rt_store := st\<rparr>)))"

text \<open>Write an event and forget it.\<close>

definition record_event :: "environment \<Rightarrow> kind \<Rightarrow> string \<Rightarrow> string \<Rightarrow> json option \<Rightarrow> unit act" where
  "record_event env k actor correlation data =
     act_bind (append_draft env True \<lparr>dr_kind = k, dr_actor = actor, dr_correlation = correlation,
       dr_causation = [], dr_data = data\<rparr>) (\<lambda>_. act_return ())"

definition pushSignal :: "string \<Rightarrow> string \<Rightarrow> string \<Rightarrow> runtime \<Rightarrow> runtime" where
  "pushSignal k e w r = r\<lparr>rt_signals := rt_signals r @ [\<lparr>sg_kind = k, sg_event = e, sg_work = w\<rparr>]\<rparr>"

text \<open>\<open>fail\<close> records the first failure of a session that has not ended; it ignores its own errors.\<close>

definition fail_session :: "environment \<Rightarrow> bool \<Rightarrow> cause \<Rightarrow> runtime \<Rightarrow> runtime" where
  "fail_session env live e r =
     (case fst (read_projection live r) of
        Inl _ \<Rightarrow> r
      | Inr p \<Rightarrow>
          if pj_terminal p then r
          else snd (append_draft env live \<lparr>dr_kind = SessionFailed, dr_actor = ''system'',
            dr_correlation = [], dr_causation = [],
            dr_data = Some (enc_failure_data \<lparr>fd_error = en_text env e\<rparr>)\<rparr> r))"

definition terminalContextError :: "cause \<Rightarrow> bool" where
  "terminalContextError e \<longleftrightarrow> e = ContextCancelled"

definition stopWithError :: "environment \<Rightarrow> cause \<Rightarrow> runtime \<Rightarrow> runtime" where
  "stopWithError env e r =
     (if \<not> rt_loop r \<or> terminalContextError e then r else (fail_session env False e r)\<lparr>rt_stopped := True\<rparr>)"

section \<open>Cancelling work\<close>

text \<open>The cancel function of active work, when there is one.\<close>

definition cut_context :: "string \<Rightarrow> runtime \<Rightarrow> runtime" where
  "cut_context i r = (if i \<in> rt_active r then r\<lparr>rt_cut := insert i (rt_cut r)\<rparr> else r)"

definition finished :: "work_status \<Rightarrow> bool" where
  "finished s \<longleftrightarrow> s = WorkCompleted \<or> s = WorkCancelled"

definition cancelDelegation :: "environment \<Rightarrow> string \<Rightarrow> string \<Rightarrow> unit act" where
  "cancelDelegation env i reason = act_bind (read_projection True) (\<lambda>state.
     case map_of (pj_delegations state) i of
       None \<Rightarrow> act_fail (UnknownWorkFault i)
     | Some d \<Rightarrow>
         if finished (dg_status d) then act_return ()
         else act_bind (record_event env DelegationCancelled (pj_leader state) i
                (Some (enc_delegation_cancelled_data \<lparr>dx_delegation_id = i, dx_reason = reason\<rparr>)))
              (\<lambda>_. act_update (cut_context i)))"

definition cancelWork :: "environment \<Rightarrow> string \<Rightarrow> string \<Rightarrow> unit act" where
  "cancelWork env i reason = act_bind (read_projection True) (\<lambda>state.
     if map_of (pj_delegations state) i \<noteq> None then cancelDelegation env i reason
     else case map_of (pj_peer_turns state) i of
       None \<Rightarrow> act_fail (UnknownWorkFault i)
     | Some u \<Rightarrow>
         if finished (pu_status u) then act_return ()
         else act_bind (record_event env PeerTurnCancelled (pj_leader state) i
                (Some (enc_peer_turn_cancelled_data \<lparr>px_peer_turn_id = i, px_reason = reason\<rparr>)))
              (\<lambda>_. act_update (cut_context i)))"

text \<open>\<open>_ = r.cancelDelegation(...)\<close>: go on whatever happened.\<close>

definition attempt_all :: "('a \<Rightarrow> unit act) \<Rightarrow> 'a list \<Rightarrow> runtime \<Rightarrow> runtime" where
  "attempt_all f xs r = foldl (\<lambda>s x. snd (f x s)) r xs"

definition cancelActiveDelegations :: "environment \<Rightarrow> string \<Rightarrow> runtime \<Rightarrow> runtime" where
  "cancelActiveDelegations env reason r =
     (case fst (read_projection True r) of
        Inl _ \<Rightarrow> r
      | Inr state \<Rightarrow>
          attempt_all (\<lambda>u. cancelWork env (pts_id (pu_spec u)) reason)
            (filter (\<lambda>u. active_status (pu_status u)) (SortedPeerTurns state))
            (attempt_all (\<lambda>d. cancelDelegation env (ds_id (dg_spec d)) reason)
              (filter (\<lambda>d. active_status (dg_status d)) (SortedDelegations state)) r))"

section \<open>Scheduling\<close>

definition launch :: "string \<Rightarrow> task \<Rightarrow> runtime \<Rightarrow> runtime" where
  "launch key t r =
     (if key \<in> rt_launched r then r
      else r\<lparr>rt_launched := insert key (rt_launched r), rt_tasks := rt_tasks r @ [t]\<rparr>)"

definition task_key :: "task \<Rightarrow> string" where
  "task_key t = (if tk_peer t then ''peer:'' else []) @ tk_id t @ '':'' @ itoa (tk_attempt t)"

definition delegation_ready :: "projection \<Rightarrow> delegation \<Rightarrow> bool" where
  "delegation_ready state d \<longleftrightarrow>
     dg_status d \<noteq> WorkCompleted \<and> dg_status d \<noteq> WorkCancelled \<and> dg_status d \<noteq> WorkRunning \<and>
     (dg_status d = WorkFailed \<longrightarrow> dg_interrupted d) \<and> DependenciesCompleted state (dg_spec d)"

definition peer_turn_ready :: "peer_turn \<Rightarrow> bool" where
  "peer_turn_ready u \<longleftrightarrow>
     pu_status u \<noteq> WorkCompleted \<and> pu_status u \<noteq> WorkCancelled \<and> pu_status u \<noteq> WorkRunning \<and>
     (pu_status u = WorkFailed \<longrightarrow> pu_interrupted u)"

definition ready_tasks :: "projection \<Rightarrow> task list" where
  "ready_tasks state =
     map (\<lambda>d. \<lparr>tk_peer = False, tk_id = ds_id (dg_spec d), tk_attempt = dg_attempt d + 1, tk_phase = Queued\<rparr>)
       (filter (delegation_ready state) (SortedDelegations state)) @
     map (\<lambda>u. \<lparr>tk_peer = True, tk_id = pts_id (pu_spec u), tk_attempt = pu_attempt u + 1, tk_phase = Queued\<rparr>)
       (filter peer_turn_ready (SortedPeerTurns state))"

definition scheduleReady :: "unit act" where
  "scheduleReady = act_bind (read_projection True) (\<lambda>state.
     act_update (fold (\<lambda>t. launch (task_key t) t) (ready_tasks state)))"

section \<open>Executing delegations\<close>

text \<open>
  \<open>decodeJSONObject\<close> on a specialist's answer: exactly one JSON document, no unknown field.
\<close>

definition dec_specialist_result :: "json \<Rightarrow> specialist_result decoded" where
  "dec_specialist_result j =
     res_bind (as_obj (Some j)) (\<lambda>kvs.
     if \<not> fst ` set kvs \<subseteq> {''result'', ''findings'', ''risks'', ''confidence''} then Inl TypeMismatch
     else
       res_bind (as_str (field kvs ''result'')) (\<lambda>result.
       res_bind (as_list as_str (field kvs ''findings'')) (\<lambda>findings.
       res_bind (as_list as_str (field kvs ''risks'')) (\<lambda>risks.
       res_bind (as_float (field kvs ''confidence'')) (\<lambda>confidence.
       Inr \<lparr>sr_result = result, sr_findings = findings, sr_risks = risks, sr_confidence = confidence\<rparr>)))))"

definition no_result :: specialist_result where
  "no_result = \<lparr>sr_result = [], sr_findings = [], sr_risks = [], sr_confidence = 0\<rparr>"

text \<open>What a specialist or a peer returned: its JSON object, or its whole text as the result.\<close>

definition returned_result :: "environment \<Rightarrow> string \<Rightarrow> specialist_result" where
  "returned_result env raw =
     (case en_json env (trim raw) of
        None \<Rightarrow> no_result\<lparr>sr_result := trim raw\<rparr>
      | Some j \<Rightarrow>
          (case dec_specialist_result j of
             Inl _ \<Rightarrow> no_result\<lparr>sr_result := trim raw\<rparr>
           | Inr result \<Rightarrow> result))"

definition handleDelegationFailure ::
    "environment \<Rightarrow> string \<Rightarrow> string \<Rightarrow> int \<Rightarrow> cause \<Rightarrow> runtime \<Rightarrow> runtime" where
  "handleDelegationFailure env i actor attempt e r =
     (if (case fst (read_projection False r) of
            Inl _ \<Rightarrow> False
          | Inr state \<Rightarrow> (case map_of (pj_delegations state) i of
              None \<Rightarrow> False | Some d \<Rightarrow> dg_status d = WorkCancelled))
      then r
      else if e = ContextCancelled \<and> \<not> rt_user_cancelled r then r
      else case append_draft env False \<lparr>dr_kind = DelegationFailed, dr_actor = actor, dr_correlation = i,
             dr_causation = [], dr_data = Some (enc_delegation_failed_data
               \<lparr>df_delegation_id = i, df_attempt = attempt, df_error = en_text env e\<rparr>)\<rparr> r of
             (Inl f, r1) \<Rightarrow> stopWithError env f r1
           | (Inr item, r1) \<Rightarrow> pushSignal (kind_name DelegationFailed) (ev_id item) i r1)"

text \<open>The checks on entry; \<open>None\<close> when the goroutine returns there.\<close>

definition delegation_enter :: "environment \<Rightarrow> string \<Rightarrow> runtime \<Rightarrow> string option \<times> runtime" where
  "delegation_enter env i r =
     (case fst (read_projection True r) of
        Inl e \<Rightarrow> (None, stopWithError env e r)
      | Inr state \<Rightarrow>
          (case map_of (pj_delegations state) i of
             None \<Rightarrow> (None, r)
           | Some d \<Rightarrow>
               if finished (dg_status d) then (None, r)
               else (case Agent (rt_profile r) (ds_caller_id (dg_spec d)) of
                 None \<Rightarrow> (None, stopWithError env (CallerAbsent (ds_caller_id (dg_spec d))) r)
               | Some caller \<Rightarrow>
                   (case SpecialistFor (rt_profile r) caller (ds_specialist_id (dg_spec d)) of
                      None \<Rightarrow> (None, stopWithError env (SpecialistForbidden (ds_specialist_id (dg_spec d))) r)
                    | Some s \<Rightarrow> (Some (sp_id s), r\<lparr>rt_active := insert i (rt_active r), rt_cut := rt_cut r - {i}\<rparr>)))))"

text \<open>The deferred removal from the map of active work.\<close>

definition leave :: "string \<Rightarrow> runtime \<Rightarrow> runtime" where
  "leave i r = r\<lparr>rt_active := rt_active r - {i}\<rparr>"

text \<open>An event written under the work's own context.\<close>

definition record_start :: "environment \<Rightarrow> string \<Rightarrow> draft \<Rightarrow> runtime \<Rightarrow> bool \<times> runtime" where
  "record_start env i d r =
     (case if i \<in> rt_cut r then (Inl ContextCancelled, r) else append_draft env True d r of
        (Inl e, r1) \<Rightarrow> (False, leave i (stopWithError env e r1))
      | (Inr _, r1) \<Rightarrow> (True, r1))"

definition delegation_start :: "environment \<Rightarrow> string \<Rightarrow> int \<Rightarrow> string \<Rightarrow> runtime \<Rightarrow> bool \<times> runtime" where
  "delegation_start env i attempt actor = record_start env i
     \<lparr>dr_kind = DelegationStarted, dr_actor = actor, dr_correlation = i, dr_causation = [],
      dr_data = Some (enc_delegation_started_data \<lparr>dst_delegation_id = i, dst_attempt = attempt\<rparr>)\<rparr>"

definition delegation_finish ::
    "environment \<Rightarrow> string \<Rightarrow> int \<Rightarrow> string \<Rightarrow> (cause, string) res \<Rightarrow> runtime \<Rightarrow> runtime" where
  "delegation_finish env i attempt actor outcome r =
     leave i (case outcome of
        Inl e \<Rightarrow> handleDelegationFailure env i actor attempt e r
      | Inr raw \<Rightarrow>
          (let result = returned_result env raw in
           if trim (sr_result result) = []
           then handleDelegationFailure env i actor attempt (EmptyResult ''specialist'') r
           else case append_draft env True \<lparr>dr_kind = DelegationCompleted, dr_actor = actor, dr_correlation = i,
                  dr_causation = [], dr_data = Some (enc_delegation_completed_data
                    \<lparr>dc_delegation_id = i, dc_attempt = attempt, dc_result = sr_result result,
                     dc_findings = sr_findings result, dc_risks = sr_risks result,
                     dc_confidence = sr_confidence result\<rparr>)\<rparr> r of
                  (Inl e, r1) \<Rightarrow> stopWithError env e r1
                | (Inr item, r1) \<Rightarrow>
                    (case scheduleReady (pushSignal (kind_name DelegationCompleted) (ev_id item) i r1) of
                       (Inl e, r2) \<Rightarrow> stopWithError env e r2
                     | (Inr _, r2) \<Rightarrow> r2)))"

definition executeDelegation ::
    "environment \<Rightarrow> string \<Rightarrow> int \<Rightarrow> (cause, string) res \<Rightarrow> runtime \<Rightarrow> runtime" where
  "executeDelegation env i attempt outcome r =
     (case delegation_enter env i r of
        (None, r1) \<Rightarrow> r1
      | (Some actor, r1) \<Rightarrow>
          (case delegation_start env i attempt actor r1 of
             (False, r2) \<Rightarrow> r2
           | (True, r2) \<Rightarrow> delegation_finish env i attempt actor outcome r2))"

section \<open>Executing peer turns\<close>

definition handlePeerTurnFailure ::
    "environment \<Rightarrow> string \<Rightarrow> string \<Rightarrow> int \<Rightarrow> cause \<Rightarrow> runtime \<Rightarrow> runtime" where
  "handlePeerTurnFailure env i actor attempt e r =
     (if (case fst (read_projection False r) of
            Inl _ \<Rightarrow> False
          | Inr state \<Rightarrow> (case map_of (pj_peer_turns state) i of
              None \<Rightarrow> False | Some u \<Rightarrow> pu_status u = WorkCancelled))
      then r
      else if e = ContextCancelled \<and> \<not> rt_user_cancelled r then r
      else case append_draft env False \<lparr>dr_kind = PeerTurnFailed, dr_actor = actor, dr_correlation = i,
             dr_causation = [], dr_data = Some (enc_peer_turn_failed_data
               \<lparr>pf_peer_turn_id = i, pf_attempt = attempt, pf_error = en_text env e\<rparr>)\<rparr> r of
             (Inl f, r1) \<Rightarrow> stopWithError env f r1
           | (Inr item, r1) \<Rightarrow> pushSignal (kind_name PeerTurnFailed) (ev_id item) i r1)"

definition peer_enter :: "environment \<Rightarrow> string \<Rightarrow> runtime \<Rightarrow> string option \<times> runtime" where
  "peer_enter env i r =
     (case fst (read_projection True r) of
        Inl e \<Rightarrow> (None, stopWithError env e r)
      | Inr state \<Rightarrow>
          (case map_of (pj_peer_turns state) i of
             None \<Rightarrow> (None, r)
           | Some u \<Rightarrow>
               if finished (pu_status u) then (None, r)
               else (case Agent (rt_profile r) (pts_caller_id (pu_spec u)) of
                 None \<Rightarrow> (None, stopWithError env (CallerAbsent (pts_caller_id (pu_spec u))) r)
               | Some caller \<Rightarrow>
                   (case PeerAgentFor (rt_profile r) caller (pts_peer_id (pu_spec u)) of
                      None \<Rightarrow> (None, stopWithError env (PeerForbidden (pts_peer_id (pu_spec u))) r)
                    | Some a \<Rightarrow> (Some (ag_id a), r\<lparr>rt_active := insert i (rt_active r), rt_cut := rt_cut r - {i}\<rparr>)))))"

definition peer_start :: "environment \<Rightarrow> string \<Rightarrow> int \<Rightarrow> string \<Rightarrow> runtime \<Rightarrow> bool \<times> runtime" where
  "peer_start env i attempt actor = record_start env i
     \<lparr>dr_kind = PeerTurnStarted, dr_actor = actor, dr_correlation = i, dr_causation = [],
      dr_data = Some (enc_peer_turn_started_data \<lparr>pst_peer_turn_id = i, pst_attempt = attempt\<rparr>)\<rparr>"

definition peer_finish ::
    "environment \<Rightarrow> string \<Rightarrow> int \<Rightarrow> string \<Rightarrow> (cause, string) res \<Rightarrow> runtime \<Rightarrow> runtime" where
  "peer_finish env i attempt actor outcome r =
     leave i (case outcome of
        Inl e \<Rightarrow> handlePeerTurnFailure env i actor attempt e r
      | Inr raw \<Rightarrow>
          (let result = returned_result env raw in
           if trim (sr_result result) = []
           then handlePeerTurnFailure env i actor attempt (EmptyResult ''peer'') r
           else case append_draft env True \<lparr>dr_kind = PeerTurnCompleted, dr_actor = actor, dr_correlation = i,
                  dr_causation = [], dr_data = Some (enc_peer_turn_completed_data
                    \<lparr>pc_peer_turn_id = i, pc_attempt = attempt, pc_result = sr_result result,
                     pc_findings = sr_findings result, pc_risks = sr_risks result,
                     pc_confidence = sr_confidence result\<rparr>)\<rparr> r of
                  (Inl e, r1) \<Rightarrow> stopWithError env e r1
                | (Inr item, r1) \<Rightarrow> pushSignal (kind_name PeerTurnCompleted) (ev_id item) i r1))"

definition executePeerTurn ::
    "environment \<Rightarrow> string \<Rightarrow> int \<Rightarrow> (cause, string) res \<Rightarrow> runtime \<Rightarrow> runtime" where
  "executePeerTurn env i attempt outcome r =
     (case peer_enter env i r of
        (None, r1) \<Rightarrow> r1
      | (Some actor, r1) \<Rightarrow>
          (case peer_start env i attempt actor r1 of
             (False, r2) \<Rightarrow> r2
           | (True, r2) \<Rightarrow> peer_finish env i attempt actor outcome r2))"

section \<open>The leader's turn\<close>

definition handoffPeerID :: "proposed_handoff option \<Rightarrow> string" where
  "handoffPeerID h = (case h of None \<Rightarrow> [] | Some x \<Rightarrow> trim (ph_peer x))"

text \<open>Draw the identities the two translations consume.\<close>

definition with_ids :: "(string list \<Rightarrow> (decision_error, 'a \<times> string list) res) \<Rightarrow> 'a act" where
  "with_ids f r =
     (case f (rt_ids r) of
        Inl e \<Rightarrow> (Inl (DecisionFault e), r)
      | Inr (x, ids) \<Rightarrow> (Inr x, r\<lparr>rt_ids := ids\<rparr>))"

text \<open>The checks of \<open>applyDecision\<close> that need no identity.\<close>

definition check_decision :: "profile \<Rightarrow> projection \<Rightarrow> agent \<Rightarrow> agent_decision \<Rightarrow> (decision_error, unit) res" where
  "check_decision p state agent d =
     (if de_handoff d \<noteq> None \<and> (de_delegations d \<noteq> [] \<or> de_peer_turns d \<noteq> []) then Inl HandoffNotExclusive
      else case find (\<lambda>i. map_of (pj_delegations state) i = None \<and> map_of (pj_peer_turns state) i = None)
                  (uniqueStrings (de_cancel d)) of
        Some i \<Rightarrow> Inl (UnknownWork i)
      | None \<Rightarrow>
          (case de_handoff d of
             None \<Rightarrow> Inr ()
           | Some h \<Rightarrow>
               if PeerAgentFor p agent (trim (ph_peer h)) = None then Inl (HandoffForbidden (ag_id agent) (ph_peer h))
               else if trim (ph_reason h) = [] then Inl HandoffReason
               else Inr ()))"

definition cancelled_dependency :: "string list \<Rightarrow> delegation_spec list \<Rightarrow> (decision_error, unit) res" where
  "cancelled_dependency cancellations specs =
     (case find (\<lambda>(k, i). i \<in> set cancellations) (concat (map (\<lambda>s. map (Pair (ds_key s)) (ds_depends_on s)) specs)) of
        None \<Rightarrow> Inr ()
      | Some (k, i) \<Rightarrow> Inl (CancelledDependency k i))"

definition record_decision ::
    "environment \<Rightarrow> projection \<Rightarrow> agent \<Rightarrow> agent_decision \<Rightarrow> delegation_spec list \<Rightarrow> peer_turn_spec list \<Rightarrow> unit act" where
  "record_decision env state agent d specs peerSpecs =
     act_bind (act_each (\<lambda>i. cancelWork env i ''cancelled by active-agent coordination decision'')
       (uniqueStrings (de_cancel d))) (\<lambda>_.
     act_bind (record_event env AgentDecision (ag_id agent) [] (Some (enc_agent_decision_data
       \<lparr>ad_agent_id = ag_id agent, ad_turn = pj_agent_turns state, ad_assessment = de_assessment d,
        ad_delegations = specs, ad_peer_turns = peerSpecs, ad_cancellations = uniqueStrings (de_cancel d),
        ad_handoff_to = handoffPeerID (de_handoff d)\<rparr>))) (\<lambda>_.
     act_bind (act_each (\<lambda>s. record_event env DelegationCreated (ag_id agent) (ds_id s)
       (Some (enc_delegation_spec s))) specs) (\<lambda>_.
     act_bind (act_each (\<lambda>s. record_event env PeerTurnCreated (ag_id agent) (pts_id s)
       (Some (enc_peer_turn_spec s))) peerSpecs) (\<lambda>_.
     record_event env AgentTurnCompleted (ag_id agent) [] (Some (enc_agent_turn_data
       \<lparr>at_agent_id = ag_id agent, at_turn = pj_agent_turns state, at_signal_kinds = [],
        at_assessment = de_assessment d\<rparr>))))))"

definition hand_over :: "environment \<Rightarrow> agent \<Rightarrow> proposed_handoff \<Rightarrow> unit act" where
  "hand_over env agent h =
     act_bind (append_draft env True \<lparr>dr_kind = LeadershipTransferred, dr_actor = ag_id agent, dr_correlation = [],
       dr_causation = [], dr_data = Some (enc_leadership_transferred_data
         \<lparr>lt_from_agent_id = ag_id agent, lt_to_agent_id = trim (ph_peer h), lt_reason = trim (ph_reason h)\<rparr>)\<rparr>)
     (\<lambda>item. act_update (pushSignal (kind_name LeadershipTransferred) (ev_id item) []))"

text \<open>A decision that plans nothing is refused when no work was observed and none is there.\<close>

definition require_work :: "agent_decision \<Rightarrow> delegation_spec list \<Rightarrow> peer_turn_spec list \<Rightarrow> unit act" where
  "require_work d specs peerSpecs =
     (if de_handoff d = None \<and> specs = [] \<and> peerSpecs = [] \<and> de_observed d = 0
      then act_bind (read_projection True) (\<lambda>current.
        if WorkCount current = 0 then act_fail (DecisionFault NothingProduced) else act_return ())
      else act_return ())"

text \<open>After the decision is recorded: hand over, or wake the loop and schedule.\<close>

definition end_decision ::
    "environment \<Rightarrow> agent \<Rightarrow> agent_decision \<Rightarrow> delegation_spec list \<Rightarrow> peer_turn_spec list \<Rightarrow> unit act" where
  "end_decision env agent d specs peerSpecs =
     (case de_handoff d of
        Some h \<Rightarrow> hand_over env agent h
      | None \<Rightarrow>
          act_bind (if uniqueStrings (de_cancel d) \<noteq> [] \<and> specs = [] \<and> peerSpecs = []
            then act_update (pushSignal ''work.cancelled'' [] []) else act_return ())
            (\<lambda>_. scheduleReady))"

definition decide :: "environment \<Rightarrow> profile \<Rightarrow> projection \<Rightarrow> agent \<Rightarrow> agent_decision \<Rightarrow> unit act" where
  "decide env p state agent d =
     act_bind (act_lift DecisionFault (check_decision p state agent d)) (\<lambda>_.
     act_bind (with_ids (materializeDelegations p state agent (de_delegations d))) (\<lambda>specs.
     act_bind (act_lift DecisionFault (cancelled_dependency (uniqueStrings (de_cancel d)) specs)) (\<lambda>_.
     act_bind (with_ids (materializePeerTurns p state agent (de_peer_turns d))) (\<lambda>peerSpecs.
     act_bind (require_work d specs peerSpecs) (\<lambda>_.
     act_bind (record_decision env state agent d specs peerSpecs) (\<lambda>_.
     end_decision env agent d specs peerSpecs))))))"

definition applyDecision :: "environment \<Rightarrow> agent_decision \<Rightarrow> unit act" where
  "applyDecision env d r0 = act_bind (read_projection True) (\<lambda>state.
     case Agent (rt_profile r0) (pj_leader state) of
       None \<Rightarrow> act_fail (LeaderAbsent (pj_leader state))
     | Some agent \<Rightarrow> decide env (rt_profile r0) state agent d) r0"

definition completeAnswer :: "environment \<Rightarrow> string \<Rightarrow> int \<Rightarrow> string \<Rightarrow> unit act" where
  "completeAnswer env agentID turn answer =
     act_bind (act_update (\<lambda>r. r\<lparr>rt_finalizing := True\<rparr>)) (\<lambda>_.
     if trim answer = [] then act_fail EmptyAnswer
     else
       act_bind (act_update (cancelActiveDelegations env ''current leader answered the user'')) (\<lambda>_.
       act_bind (record_event env AgentTurnCompleted agentID [] (Some (enc_agent_turn_data
         \<lparr>at_agent_id = agentID, at_turn = turn, at_signal_kinds = [],
          at_assessment = ''Answered the user directly.''\<rparr>))) (\<lambda>_.
       act_bind (record_event env FinalStarted agentID [] None) (\<lambda>_.
       act_bind (record_event env FinalTextDelta agentID [] (Some (enc_text_delta_data
         \<lparr>td_delegation_id = [], td_text = trim answer\<rparr>))) (\<lambda>_.
       record_event env FinalCompleted agentID [] (Some (enc_final_completed_data \<lparr>fc_answer = trim answer\<rparr>)))))))"

datatype agent_outcome = Answer string | Coordinate agent_decision | NoAnswer

text \<open>The callback on a finished turn; true when the loop is to stop.\<close>

definition onActiveAgentEvents :: "environment \<Rightarrow> agent_outcome option \<Rightarrow> bool act" where
  "onActiveAgentEvents env outcome =
     (case outcome of
        None \<Rightarrow> act_fail NoOutcome
      | Some (Answer text) \<Rightarrow>
          if trim text = [] then act_fail NoOutcome
          else act_bind (read_projection True) (\<lambda>state.
            act_bind (completeAnswer env (pj_leader state) (pj_agent_turns state) text) (\<lambda>_.
            act_bind (act_update (\<lambda>r. r\<lparr>rt_stopped := True\<rparr>)) (\<lambda>_. act_return True)))
      | Some (Coordinate d) \<Rightarrow> act_bind (applyDecision env d) (\<lambda>_. act_return False)
      | Some NoAnswer \<Rightarrow> act_fail NoOutcome)"

text \<open>How a turn begins: the leader must be an agent of the pinned profile.\<close>

definition begin_turn :: "environment \<Rightarrow> string list \<Rightarrow> int act" where
  "begin_turn env kinds r0 = act_bind (read_projection True) (\<lambda>state.
     case Agent (rt_profile r0) (pj_leader state) of
       None \<Rightarrow> act_fail (LeaderAbsent (pj_leader state))
     | Some agent \<Rightarrow>
         act_bind (record_event env AgentTurnStarted (ag_id agent) [] (Some (enc_agent_turn_data
           \<lparr>at_agent_id = ag_id agent, at_turn = pj_agent_turns state + 1, at_signal_kinds = kinds,
            at_assessment = []\<rparr>)))
         (\<lambda>_. act_return (pj_agent_turns state + 1))) r0"

section \<open>Starting and recovering a session\<close>

text \<open>Work that was running when the process ended is recorded as interrupted.\<close>

definition markInterruptedDelegations :: "environment \<Rightarrow> unit act" where
  "markInterruptedDelegations env = act_bind (read_projection True) (\<lambda>state.
     act_bind (act_each (\<lambda>d. record_event env DelegationFailed ''recovery'' (ds_id (dg_spec d))
       (Some (enc_delegation_failed_data \<lparr>df_delegation_id = ds_id (dg_spec d), df_attempt = dg_attempt d,
          df_error = ''execution interrupted before a durable terminal event''\<rparr>)))
       (filter (\<lambda>d. dg_status d = WorkRunning) (SortedDelegations state))) (\<lambda>_.
     act_each (\<lambda>u. record_event env PeerTurnFailed ''recovery'' (pts_id (pu_spec u))
       (Some (enc_peer_turn_failed_data \<lparr>pf_peer_turn_id = pts_id (pu_spec u), pf_attempt = pu_attempt u,
          pf_error = ''execution interrupted before a durable terminal event''\<rparr>)))
       (filter (\<lambda>u. pu_status u = WorkRunning) (SortedPeerTurns state))))"

definition sharedConversationEvent :: "kind \<Rightarrow> bool" where
  "sharedConversationEvent k \<longleftrightarrow> k \<in> {UserInstruction, LeadershipTransferred, AgentDecision,
     DelegationCreated, DelegationStarted, DelegationReasoning, DelegationCompleted, DelegationFailed,
     DelegationCancelled, PeerTurnCreated, PeerTurnStarted, PeerReasoning, PeerTurnCompleted,
     PeerTurnFailed, PeerTurnCancelled, ToolCalled, ToolCompleted, FinalReasoning, FinalCompleted,
     SessionFailed, SessionCancelled}"

definition status_text :: "session_status \<Rightarrow> string" where
  "status_text s = (case s of StatusRunning \<Rightarrow> ''running'' | StatusCompleted \<Rightarrow> ''completed''
     | StatusFailed \<Rightarrow> ''failed'' | StatusCancelled \<Rightarrow> ''cancelled'')"

definition trace_of :: "event \<Rightarrow> conversation_trace" where
  "trace_of item = \<lparr>tr_reference = ContextReferenceForEvent item, tr_sequence = ev_sequence item,
     tr_kind = ev_kind item, tr_actor = ev_actor item, tr_correlation = ev_correlation item,
     tr_data = ev_data item\<rparr>"

text \<open>The reference of the last event of a kind, or none.\<close>

definition last_reference :: "kind \<Rightarrow> event list \<Rightarrow> string" where
  "last_reference k items = foldl (\<lambda>r e. if ev_kind e = k then ContextReferenceForEvent e else r) [] items"

definition history_entry :: "store \<Rightarrow> session \<Rightarrow> conversation_turn" where
  "history_entry st turn =
     (let items = Events st (ss_id turn) 0 in
      \<lparr>ct_session = ss_id turn, ct_task = ss_task turn, ct_task_ref = last_reference SessionCreated items,
       ct_answer = ss_final turn, ct_answer_ref = last_reference FinalCompleted items,
       ct_status = status_text (ss_status turn), ct_leader = ss_leader turn,
       ct_trace = map trace_of (filter (\<lambda>e. sharedConversationEvent (ev_kind e)) items)\<rparr>)"

text \<open>The turns of the conversation before this one.\<close>

definition loadConversationHistory :: "unit act" where
  "loadConversationHistory r =
     (case ConversationSessions (rt_store r) (rt_session r) of
        Inl e \<Rightarrow> (Inl (LedgerFault e), r)
      | Inr turns \<Rightarrow>
          (Inr (), r\<lparr>rt_history := map (history_entry (rt_store r))
            (takeWhile (\<lambda>s. ss_id s \<noteq> rt_session r) turns)\<rparr>))"

text \<open>\<open>return r.fail(ctx, err)\<close>.\<close>

definition or_fail :: "environment \<Rightarrow> 'a act \<Rightarrow> 'a act" where
  "or_fail env m r =
     (case m r of (Inl e, r1) \<Rightarrow> (Inl e, fail_session env True e r1) | (Inr x, r1) \<Rightarrow> (Inr x, r1))"

text \<open>The signals that were pending are pushed to the loop, in their order.\<close>

definition installLoop :: "runtime \<Rightarrow> runtime" where
  "installLoop r = r\<lparr>rt_loop := True\<rparr>"

text \<open>\<open>execute\<close> up to the start of the loop; false when the session had already ended.\<close>

definition prepare :: "environment \<Rightarrow> bool \<Rightarrow> bool act" where
  "prepare env recovered r0 =
     act_bind (if recovered then record_event env SessionRecovered ''system'' [] None else act_return ()) (\<lambda>_.
     act_bind loadConversationHistory (\<lambda>_.
     act_bind (read_projection True) (\<lambda>state.
     if pj_terminal state then act_return False
     else
       act_bind (if pj_leader state = []
         then or_fail env (record_event env LeadershipTransferred ''system'' [] (Some (enc_leadership_transferred_data
           \<lparr>lt_from_agent_id = [], lt_to_agent_id = ag_id (p_primary (rt_profile r0)),
            lt_reason = ''Every user turn enters through the Team primary.''\<rparr>)))
         else act_return ()) (\<lambda>_.
       act_bind (if recovered then or_fail env (markInterruptedDelegations env) else act_return ()) (\<lambda>_.
       act_bind (act_update installLoop) (\<lambda>_.
       act_bind (act_update (pushSignal (if recovered then ''session.recovered'' else ''session.ready'') [] [])) (\<lambda>_.
       act_bind (or_fail env scheduleReady) (\<lambda>_. act_return True)))))))) r0"

end
