(* ===== verification/Teamwork.thy ===== *)
theory Teamwork
  imports Runtime
begin

text \<open>
  What holds of a session whatever its agents, its scheduler and its goroutines do, in any
  order: the log can always be replayed; every delegation and peer turn in it was called by
  a member of the pinned team that may call it; dependencies name known work of smaller
  depth, so they form no cycle; the leader is a member of the team; and the scheduler starts
  every attempt at most once.
\<close>

section \<open>The plan a projection holds\<close>

definition peer_specs :: "projection \<Rightarrow> (string, peer_turn_spec) gomap" where
  "peer_specs p = map (\<lambda>(k, u). (k, pu_spec u)) (pj_peer_turns p)"

definition same_plan :: "projection \<Rightarrow> projection \<Rightarrow> bool" where
  "same_plan p q \<longleftrightarrow>
     known_specs q = known_specs p \<and> peer_specs q = peer_specs p \<and> pj_leader q = pj_leader p"

definition delegation_allowed :: "profile \<Rightarrow> delegation_spec \<Rightarrow> bool" where
  "delegation_allowed p s \<longleftrightarrow>
     (case Agent p (ds_caller_id s) of None \<Rightarrow> False | Some a \<Rightarrow> SpecialistFor p a (ds_specialist_id s) \<noteq> None)"

definition peer_turn_allowed :: "profile \<Rightarrow> peer_turn_spec \<Rightarrow> bool" where
  "peer_turn_allowed p s \<longleftrightarrow>
     (case Agent p (pts_caller_id s) of None \<Rightarrow> False | Some a \<Rightarrow> PeerAgentFor p a (pts_peer_id s) \<noteq> None)"

definition dependencies_below :: "(string, delegation_spec) gomap \<Rightarrow> delegation_spec \<Rightarrow> bool" where
  "dependencies_below known s \<longleftrightarrow>
     (\<forall>i \<in> set (ds_depends_on s). case map_of known i of None \<Rightarrow> False | Some e \<Rightarrow> ds_depth e < ds_depth s)"

definition team_work :: "profile \<Rightarrow> projection \<Rightarrow> bool" where
  "team_work prof p \<longleftrightarrow>
     (\<forall>s \<in> snd ` set (known_specs p). delegation_allowed prof s \<and> dependencies_below (known_specs p) s) \<and>
     (\<forall>s \<in> snd ` set (peer_specs p). peer_turn_allowed prof s) \<and>
     fst ` set (known_specs p) \<inter> fst ` set (peer_specs p) = {} \<and>
     (pj_leader p = [] \<or> Agent prof (pj_leader p) \<noteq> None)"

lemma team_work_apart: "team_work prof p \<Longrightarrow> fst ` set (known_specs p) \<inter> fst ` set (peer_specs p) = {}"
  unfolding team_work_def by (elim conjE)

lemma team_work_leader: "team_work prof p \<Longrightarrow> pj_leader p = [] \<or> Agent prof (pj_leader p) \<noteq> None"
  unfolding team_work_def by (elim conjE)

lemma same_plan_team: "same_plan p q \<Longrightarrow> team_work prof q = team_work prof p"
  by (simp add: same_plan_def team_work_def)

lemma same_plan_refl [simp]: "same_plan p p"
  by (simp add: same_plan_def)

lemma known_specs_keys: "fst ` set (known_specs p) = fst ` set (pj_delegations p)"
  by (force simp: known_specs_def image_iff)

lemma peer_specs_keys: "fst ` set (peer_specs p) = fst ` set (pj_peer_turns p)"
  by (force simp: peer_specs_def image_iff)

lemma specs_map_entry:
  "(\<And>d. g (f d) = g d) \<Longrightarrow> map (\<lambda>(k, d). (k, g d)) (AList.map_entry i f m) = map (\<lambda>(k, d). (k, g d)) m"
  by (induction m) auto

lemma specs_update:
  "map (\<lambda>(k, d). (k, g d)) (AList.update i v m) = AList.update i (g v) (map (\<lambda>(k, d). (k, g d)) m)"
  by (induction m) auto

lemma delegation_change_spec: "delegation_change item f \<Longrightarrow> dg_spec (f d) = dg_spec d"
  by (auto simp: delegation_change_def start_delegation_def complete_delegation_def fail_delegation_def
      cancel_delegation_def)

lemma peer_change_spec: "peer_change item f \<Longrightarrow> pu_spec (f u) = pu_spec u"
  by (auto simp: peer_change_def start_peer_turn_def complete_peer_turn_def fail_peer_turn_def
      cancel_peer_turn_def)

lemma apply_kind_leader:
  "apply_kind item p = Inr q \<Longrightarrow> ev_kind item \<noteq> LeadershipTransferred \<Longrightarrow> pj_leader q = pj_leader p"
  unfolding apply_kind_def
  by (cases "ev_kind item"; simp add: observe_trace_def; auto simp: res_bind_Inr_iff split: if_splits)

lemma apply_kind_known:
  assumes "apply_kind item p = Inr q" and "ev_kind item \<noteq> DelegationCreated"
  shows "known_specs q = known_specs p"
  using apply_kind_delegations [OF assms(1)] assms(2)
  by (auto simp: known_specs_def specs_map_entry delegation_change_spec)

lemma apply_kind_peer_specs:
  assumes "apply_kind item p = Inr q" and "ev_kind item \<noteq> PeerTurnCreated"
  shows "peer_specs q = peer_specs p"
  using apply_kind_peer_turns [OF assms(1)] assms(2)
  by (auto simp: peer_specs_def specs_map_entry peer_change_spec)

section \<open>Drafts the runtime writes\<close>

text \<open>A draft whose event every replay can read, whatever state it meets.\<close>

definition readable :: "draft \<Rightarrow> bool" where
  "readable d \<longleftrightarrow> (\<forall>eid sid n now p. \<exists>q. apply_kind (materialize d eid sid n now) p = Inr q)"

lemma materialize_fields [simp]:
  "ev_kind (materialize d eid sid n now) = dr_kind d" "ev_session (materialize d eid sid n now) = sid"
  "ev_sequence (materialize d eid sid n now) = n" "ev_id (materialize d eid sid n now) = eid"
  "ev_actor (materialize d eid sid n now) = dr_actor d" "ev_at (materialize d eid sid n now) = now"
  by (simp_all add: materialize_def)

lemma readable_plain:
  "dr_kind d \<in> {SessionFailed, SessionCancelled, SessionRecovered, AgentDecision, AgentTurnCompleted,
     FinalStarted, FinalTextDelta} \<Longrightarrow> readable d"
  by (auto simp: readable_def apply_kind_def)

lemma readable_payload:
  "readable \<lparr>dr_kind = DelegationCancelled, dr_actor = a, dr_correlation = c, dr_causation = cc,
     dr_data = Some (enc_delegation_cancelled_data x1)\<rparr>"
  "readable \<lparr>dr_kind = PeerTurnCancelled, dr_actor = a, dr_correlation = c, dr_causation = cc,
     dr_data = Some (enc_peer_turn_cancelled_data x2)\<rparr>"
  "readable \<lparr>dr_kind = DelegationStarted, dr_actor = a, dr_correlation = c, dr_causation = cc,
     dr_data = Some (enc_delegation_started_data x3)\<rparr>"
  "readable \<lparr>dr_kind = PeerTurnStarted, dr_actor = a, dr_correlation = c, dr_causation = cc,
     dr_data = Some (enc_peer_turn_started_data x4)\<rparr>"
  "readable \<lparr>dr_kind = DelegationFailed, dr_actor = a, dr_correlation = c, dr_causation = cc,
     dr_data = Some (enc_delegation_failed_data x5)\<rparr>"
  "readable \<lparr>dr_kind = PeerTurnFailed, dr_actor = a, dr_correlation = c, dr_causation = cc,
     dr_data = Some (enc_peer_turn_failed_data x6)\<rparr>"
  "readable \<lparr>dr_kind = DelegationCompleted, dr_actor = a, dr_correlation = c, dr_causation = cc,
     dr_data = Some (enc_delegation_completed_data x7)\<rparr>"
  "readable \<lparr>dr_kind = PeerTurnCompleted, dr_actor = a, dr_correlation = c, dr_causation = cc,
     dr_data = Some (enc_peer_turn_completed_data x8)\<rparr>"
  "readable \<lparr>dr_kind = AgentTurnStarted, dr_actor = a, dr_correlation = c, dr_causation = cc,
     dr_data = Some (enc_agent_turn_data x9)\<rparr>"
  "readable \<lparr>dr_kind = FinalCompleted, dr_actor = a, dr_correlation = c, dr_causation = cc,
     dr_data = Some (enc_final_completed_data x10)\<rparr>"
  "readable \<lparr>dr_kind = LeadershipTransferred, dr_actor = a, dr_correlation = c, dr_causation = cc,
     dr_data = Some (enc_leadership_transferred_data x11)\<rparr>"
  "readable \<lparr>dr_kind = DelegationCreated, dr_actor = a, dr_correlation = c, dr_causation = cc,
     dr_data = Some (enc_delegation_spec x12)\<rparr>"
  "readable \<lparr>dr_kind = PeerTurnCreated, dr_actor = a, dr_correlation = c, dr_causation = cc,
     dr_data = Some (enc_peer_turn_spec x13)\<rparr>"
  by (simp_all add: readable_def apply_kind_def delegation_cancelled_codec.decode_materialize
      peer_turn_cancelled_codec.decode_materialize delegation_started_codec.decode_materialize
      peer_turn_started_codec.decode_materialize delegation_failed_codec.decode_materialize
      peer_turn_failed_codec.decode_materialize delegation_completed_codec.decode_materialize
      peer_turn_completed_codec.decode_materialize agent_turn_codec.decode_materialize
      final_completed_codec.decode_materialize leadership_transferred_codec.decode_materialize
      delegation_spec_codec.decode_materialize peer_turn_spec_codec.decode_materialize)

text \<open>What an appended event does to the replay.\<close>

lemma replay_append:
  assumes ok: "store_ok pl st" and app: "Append pl eid now sid d st = Inr (item, st')"
    and rep: "Replay sid (Events st sid 0) = Inr p" and ak: "apply_kind item p = Inr q"
  shows "Replay sid (Events st' sid 0) = Inr (q\<lparr>pj_last := ev_sequence item\<rparr>)"
  using app
proof (rule Append_Inr)
  fix c
  assume item: "item = materialize d eid sid (LastSequence st sid + 1) now" and st': "st' = log_item pl item c st"
  have ev: "Events st sid 0 = session_events st sid" "Events st' sid 0 = session_events st' sid"
    using Events_ok [OF ok, of 0] Events_ok [OF Append_ok [OF ok app], of 0] by simp_all
  have owns: "pj_session (new_projection sid) = sid" by (simp add: new_projection_def)
  have "pj_last p = foldl max 0 (map ev_sequence (session_events st sid))"
    using session_reader.fold_position [OF rep [unfolded Replay_def ev]]
    by (simp add: new_projection_def session_events_def)
  also have "\<dots> = LastSequence st sid"
    using session_events_numbered [OF ok, of sid] by (simp add: foldl_max_numbered LastSequence_ok [OF ok])
  finally have "Apply p item = Inr (q\<lparr>pj_last := ev_sequence item\<rparr>)"
    using ak Replay_session [OF rep] by (simp add: Apply_def item)
  then show ?thesis
    using rep by (simp add: Replay_def ev res_fold_append) (simp add: st' item log_item_events res_fold_append)
qed

section \<open>The invariant\<close>

text \<open>
  \<open>planned env prof ss us r\<close>: the session is sound, and the delegations \<open>ss\<close> and peer
  turns \<open>us\<close> may still be recorded. \<open>runtime_ok\<close> is the case where nothing is outstanding.
  The supply of identities never repeats one that is in use, as random UUIDs do not.
\<close>

definition session_sound :: "environment \<Rightarrow> profile \<Rightarrow> runtime \<Rightarrow> bool" where
  "session_sound env prof r \<longleftrightarrow>
     store_ok (en_platform env) (rt_store r) \<and> rt_session r \<in> ss_id ` set (st_sessions (rt_store r)) \<and>
     rt_profile r = prof \<and>
     task_key ` set (rt_tasks r) = rt_launched r \<and> distinct (map task_key (rt_tasks r))"

definition claimed :: "projection \<Rightarrow> string set" where
  "claimed p = fst ` set (known_specs p) \<union> fst ` set (peer_specs p)"

definition plan_fits ::
    "profile \<Rightarrow> delegation_spec list \<Rightarrow> peer_turn_spec list \<Rightarrow> string list \<Rightarrow> event list \<Rightarrow> projection \<Rightarrow> bool" where
  "plan_fits prof ss us ids evs p \<longleftrightarrow>
     team_work prof p \<and> layered (known_specs p) ss \<and>
     (\<forall>s \<in> set ss. delegation_allowed prof s) \<and> (\<forall>u \<in> set us. peer_turn_allowed prof u) \<and>
     distinct (map ds_id ss @ map pts_id us @ ids) \<and>
     set (map ds_id ss @ map pts_id us @ ids) \<inter> claimed p = {} \<and>
     set ids \<inter> ev_id ` set evs = {}"

definition planned ::
    "environment \<Rightarrow> profile \<Rightarrow> delegation_spec list \<Rightarrow> peer_turn_spec list \<Rightarrow> runtime \<Rightarrow> bool" where
  "planned env prof ss us r \<longleftrightarrow>
     session_sound env prof r \<and>
     (\<exists>p. Replay (rt_session r) (Events (rt_store r) (rt_session r) 0) = Inr p \<and>
        plan_fits prof ss us (rt_ids r) (st_events (rt_store r)) p)"

abbreviation runtime_ok :: "environment \<Rightarrow> profile \<Rightarrow> runtime \<Rightarrow> bool" where
  "runtime_ok env prof r \<equiv> planned env prof [] [] r"

text \<open>What an operation establishes, whether it succeeds or fails.\<close>

definition ensures :: "(runtime \<Rightarrow> bool) \<Rightarrow> 'a act \<Rightarrow> ('a \<Rightarrow> runtime \<Rightarrow> bool) \<Rightarrow> (runtime \<Rightarrow> bool) \<Rightarrow> bool" where
  "ensures P m Q E \<longleftrightarrow> (\<forall>r. P r \<longrightarrow> (case m r of (Inl e, r1) \<Rightarrow> E r1 | (Inr x, r1) \<Rightarrow> Q x r1))"

lemma ensures_return: "(\<And>r. P r \<Longrightarrow> Q x r) \<Longrightarrow> ensures P (act_return x) Q E"
  by (simp add: ensures_def act_return_def)

lemma ensures_fail: "(\<And>r. P r \<Longrightarrow> E r) \<Longrightarrow> ensures P (act_fail e) Q E"
  by (simp add: ensures_def act_fail_def)

lemma ensures_update: "(\<And>r. P r \<Longrightarrow> Q () (f r)) \<Longrightarrow> ensures P (act_update f) Q E"
  by (simp add: ensures_def act_update_def)

lemma ensures_lift:
  "(\<And>r x. P r \<Longrightarrow> v = Inr x \<Longrightarrow> Q x r) \<Longrightarrow> (\<And>r. P r \<Longrightarrow> E r) \<Longrightarrow> ensures P (act_lift f v) Q E"
  by (auto simp: ensures_def act_lift_def split: sum.splits)

lemma ensures_bind:
  "ensures P m Q E \<Longrightarrow> (\<And>x. ensures (Q x) (f x) R E) \<Longrightarrow> ensures P (act_bind m f) R E"
  unfolding ensures_def act_bind_def by (fastforce split: prod.splits sum.splits)

lemma ensures_weaken:
  "ensures P m Q E \<Longrightarrow> (\<And>r. P' r \<Longrightarrow> P r) \<Longrightarrow> (\<And>x r. Q x r \<Longrightarrow> Q' x r) \<Longrightarrow> (\<And>r. E r \<Longrightarrow> E' r) \<Longrightarrow>
   ensures P' m Q' E'"
  unfolding ensures_def by (fastforce split: prod.splits sum.splits)

lemma ensures_each:
  "(\<And>x. x \<in> set xs \<Longrightarrow> ensures P (f x) (\<lambda>_. P) E) \<Longrightarrow> ensures P (act_each f xs) (\<lambda>_. P) E"
proof (induction xs)
  case Nil
  then show ?case by (simp add: ensures_return)
next
  case (Cons x xs)
  then show ?case by (auto intro!: ensures_bind [where Q = "\<lambda>_. P"])
qed

lemma ensures_use: "ensures P m Q E \<Longrightarrow> P r \<Longrightarrow> m r = (Inr x, r1) \<Longrightarrow> Q x r1"
  by (force simp: ensures_def)

lemma ensures_after:
  assumes "ensures P m (\<lambda>_. Q) Q" and "P r"
  shows "Q (snd (m r))"
proof -
  obtain v r1 where "m r = (v, r1)" by (cases "m r")
  then show ?thesis using assms by (cases v) (force simp: ensures_def)+
qed

text \<open>Changes of the runtime that the invariant does not look at.\<close>

definition unrelated :: "(runtime \<Rightarrow> runtime) \<Rightarrow> bool" where
  "unrelated f \<longleftrightarrow> (\<forall>r. rt_store (f r) = rt_store r \<and> rt_session (f r) = rt_session r \<and>
     rt_profile (f r) = rt_profile r \<and> rt_ids (f r) = rt_ids r \<and>
     rt_tasks (f r) = rt_tasks r \<and> rt_launched (f r) = rt_launched r)"

lemma unrelated_planned: "unrelated f \<Longrightarrow> planned env prof ss us (f r) = planned env prof ss us r"
  by (simp add: planned_def session_sound_def unrelated_def)

lemma unrelated_changes:
  "unrelated (pushSignal k e w)" "unrelated (cut_context i)" "unrelated (leave i)"
  "unrelated (\<lambda>r. r\<lparr>rt_finalizing := b\<rparr>)" "unrelated (\<lambda>r. r\<lparr>rt_stopped := b\<rparr>)"
  "unrelated (\<lambda>r. r\<lparr>rt_history := h\<rparr>)" "unrelated (\<lambda>r. r\<lparr>rt_closed := b\<rparr>)"
  "unrelated (\<lambda>r. r\<lparr>rt_user_cancelled := b\<rparr>)" "unrelated installLoop"
  by (simp_all add: unrelated_def installLoop_def pushSignal_def cut_context_def leave_def)

lemma read_projection_ensures:
  "ensures (planned env prof ss us) (read_projection live)
     (\<lambda>p r. planned env prof ss us r \<and> plan_fits prof ss us (rt_ids r) (st_events (rt_store r)) p)
     (planned env prof ss us)"
  by (auto simp: ensures_def read_projection_def planned_def plan_fits_def team_work_def
      known_specs_def peer_specs_def claimed_def)

lemma plan_fits_same:
  assumes fit: "plan_fits prof ss us ids evs p" and "same_plan p q" and ids: "ids = i # ids'"
    and evs: "ev_id ` set evs' \<subseteq> insert i (ev_id ` set evs)"
  shows "plan_fits prof ss us ids' evs' q"
proof -
  have "set ids \<inter> ev_id ` set evs = {}" "distinct ids" using fit by (auto simp: plan_fits_def)
  then have "set ids' \<inter> ev_id ` set evs' = {}" using evs by (auto simp: ids)
  then show ?thesis
    using fit same_plan_team [OF assms(2), of prof] assms(2)
    by (simp add: plan_fits_def same_plan_def ids claimed_def Int_Un_distrib2)
qed

text \<open>Appending a readable draft: what remains to be shown is that the plan still fits.\<close>

lemma append_ensures:
  assumes read: "readable d"
    and fits: "\<And>item p q ids evs. ev_kind item = dr_kind d \<Longrightarrow>
      (\<exists>eid sid n now. item = materialize d eid sid n now) \<Longrightarrow> apply_kind item p = Inr q \<Longrightarrow>
      plan_fits prof ss us ids evs p \<Longrightarrow> plan_fits prof ss' us' ids evs q"
    and E: "E = planned env prof ss us"
  shows "ensures (planned env prof ss us) (append_draft env live d) (\<lambda>_. planned env prof ss' us') E"
  unfolding ensures_def
proof (intro allI impI)
  fix r
  assume P: "planned env prof ss us r"
  then obtain p where sound: "session_sound env prof r"
    and rep: "Replay (rt_session r) (Events (rt_store r) (rt_session r) 0) = Inr p"
    and fit: "plan_fits prof ss us (rt_ids r) (st_events (rt_store r)) p"
    by (auto simp: planned_def)
  show "case append_draft env live d r of (Inl e, r1) \<Rightarrow> E r1 | (Inr x, r1) \<Rightarrow> planned env prof ss' us' r1"
  proof (cases "live \<and> rt_closed r \<or> rt_ids r = []")
    case True
    then show ?thesis using P by (auto simp: append_draft_def E)
  next
    case False
    then obtain i ids where ids: "rt_ids r = i # ids" by (cases "rt_ids r") auto
    let ?app = "Append (en_platform env) i (rt_clock r (rt_ticks r)) (rt_session r) d (rt_store r)"
    have fewer: "plan_fits prof ss us ids (st_events (rt_store r)) p"
      by (rule plan_fits_same [OF fit same_plan_refl ids]) blast
    show ?thesis
    proof (cases ?app)
      case (Inl e)
      then show ?thesis
        using False ids sound rep fewer
        by (auto simp: append_draft_def Let_def E planned_def session_sound_def)
    next
      case (Inr pair)
      obtain item st where pair: "pair = (item, st)" by (cases pair)
      note app = Inr [unfolded pair]
      note ok = sound [unfolded session_sound_def]
      from app obtain c where item: "item = materialize d i (rt_session r) (LastSequence (rt_store r) (rt_session r) + 1) (rt_clock r (rt_ticks r))"
        and st: "st = log_item (en_platform env) item c (rt_store r)"
        by (rule Append_Inr) blast
      obtain q where q: "apply_kind item p = Inr q"
        using read unfolding readable_def item by blast
      have rep': "Replay (rt_session r) (Events st (rt_session r) 0) = Inr (q\<lparr>pj_last := ev_sequence item\<rparr>)"
        using replay_append [OF _ app rep q] ok by blast
      have "plan_fits prof ss us ids (st_events st) p"
        by (rule plan_fits_same [OF fit same_plan_refl ids]) (simp add: st log_item_tables item)
      then have "plan_fits prof ss' us' ids (st_events st) q"
        using fits q item by (metis materialize_fields(1))
      then have "plan_fits prof ss' us' ids (st_events st) (q\<lparr>pj_last := ev_sequence item\<rparr>)"
        by (simp add: plan_fits_def team_work_def known_specs_def peer_specs_def claimed_def)
      moreover have "store_ok (en_platform env) st" using Append_ok [OF _ app] ok by blast
      moreover have "rt_session r \<in> ss_id ` set (st_sessions st)" using ok unfolding st log_item_sessions by blast
      ultimately show ?thesis
        using False ids app rep' ok by (auto simp: append_draft_def Let_def planned_def session_sound_def)
    qed
  qed
qed

section \<open>Every operation keeps the invariant\<close>

lemma plan_fits_less: "plan_fits prof ss us ids evs p \<Longrightarrow> plan_fits prof [] [] ids evs p"
  by (simp add: plan_fits_def Int_Un_distrib2)

lemma planned_runtime_ok: "planned env prof ss us r \<Longrightarrow> runtime_ok env prof r"
  unfolding planned_def using plan_fits_less by blast

lemma planned_profile: "planned env prof ss us r \<Longrightarrow> rt_profile r = prof"
  by (simp add: planned_def session_sound_def)

text \<open>Events that change no plan.\<close>

lemma quiet_append:
  assumes "readable d" and "dr_kind d \<notin> {DelegationCreated, PeerTurnCreated, LeadershipTransferred}"
  shows "ensures (planned env prof ss us) (append_draft env live d) (\<lambda>_. planned env prof ss us) (planned env prof ss us)"
proof (rule append_ensures [OF assms(1) _ refl])
  fix item p q ids evs
  assume h: "ev_kind item = dr_kind d" "apply_kind item p = Inr q" "plan_fits prof ss us ids evs p"
  have "same_plan p q"
    unfolding same_plan_def
    using apply_kind_known [OF h(2)] apply_kind_peer_specs [OF h(2)] apply_kind_leader [OF h(2)] assms(2) h(1) by auto
  then show "plan_fits prof ss us ids evs q"
    using h(3) same_plan_team [of p q prof] by (simp add: plan_fits_def same_plan_def claimed_def)
qed

lemma quiet_record:
  assumes "readable \<lparr>dr_kind = k, dr_actor = a, dr_correlation = c, dr_causation = [], dr_data = j\<rparr>"
    and "k \<notin> {DelegationCreated, PeerTurnCreated, LeadershipTransferred}"
  shows "ensures (planned env prof ss us) (record_event env k a c j) (\<lambda>_. planned env prof ss us) (planned env prof ss us)"
  unfolding record_event_def
  by (rule ensures_bind [OF quiet_append]) (use assms in \<open>auto intro: ensures_return\<close>)

lemma apply_created:
  "dr_kind d = DelegationCreated \<Longrightarrow> dr_data d = Some (enc_delegation_spec s) \<Longrightarrow>
   apply_kind (materialize d eid sid n now) p = Inr q \<Longrightarrow>
   known_specs q = AList.update (ds_id s) s (known_specs p) \<and> peer_specs q = peer_specs p \<and> pj_leader q = pj_leader p"
  by (auto simp: apply_kind_def delegation_spec_codec.decode_materialize known_specs_def peer_specs_def
      specs_update new_delegation_def)

lemma apply_peer_created:
  "dr_kind d = PeerTurnCreated \<Longrightarrow> dr_data d = Some (enc_peer_turn_spec s) \<Longrightarrow>
   apply_kind (materialize d eid sid n now) p = Inr q \<Longrightarrow>
   known_specs q = known_specs p \<and> peer_specs q = AList.update (pts_id s) s (peer_specs p) \<and> pj_leader q = pj_leader p"
  by (auto simp: apply_kind_def peer_turn_spec_codec.decode_materialize known_specs_def peer_specs_def
      specs_update new_peer_turn_def)

lemma apply_transferred:
  "dr_kind d = LeadershipTransferred \<Longrightarrow> dr_data d = Some (enc_leadership_transferred_data x) \<Longrightarrow>
   apply_kind (materialize d eid sid n now) p = Inr q \<Longrightarrow>
   known_specs q = known_specs p \<and> peer_specs q = peer_specs p \<and> pj_leader q = lt_to_agent_id x"
  by (auto simp: apply_kind_def leadership_transferred_codec.decode_materialize known_specs_def peer_specs_def)

lemma snd_update: "w \<in> snd ` set (AList.update k v m) \<Longrightarrow> w = v \<or> w \<in> snd ` set m"
  by (auto dest!: set_update_alist intro: rev_image_eqI)

lemma dependencies_below_update:
  "dependencies_below known s \<Longrightarrow> k \<notin> fst ` set known \<Longrightarrow> dependencies_below (AList.update k v known) s"
proof -
  assume h: "dependencies_below known s" "k \<notin> fst ` set known"
  have "map_of known k = None" using h(2) by (simp add: map_of_eq_None_iff)
  then show ?thesis using h(1) by (auto simp: dependencies_below_def update_conv')
qed

lemma insert_apart: "A \<subseteq> insert x K \<Longrightarrow> x \<notin> B \<Longrightarrow> K \<inter> B = {} \<Longrightarrow> A \<inter> B = {}"
  by blast

lemma created_fits:
  assumes fit: "plan_fits prof (s # ss) us ids evs p"
    and q: "known_specs q = AList.update (ds_id s) s (known_specs p)" "peer_specs q = peer_specs p" "pj_leader q = pj_leader p"
  shows "plan_fits prof ss us ids evs q"
proof -
  note f = fit [unfolded plan_fits_def]
  have tw: "team_work prof p" using f by (rule conjunct1)
  have new: "ds_id s \<notin> fst ` set (known_specs p)" using f by (auto simp: claimed_def)
  have keys: "fst ` set (known_specs q) \<subseteq> insert (ds_id s) (fst ` set (known_specs p))"
    by (simp add: q(1) dom_update)
  have "dependencies_below (known_specs p) s" using f by (simp add: dependencies_below_def)
  then have mine: "delegation_allowed prof s \<and> dependencies_below (known_specs q) s"
    using f dependencies_below_update [OF _ new] by (simp add: q(1))
  have all: "delegation_allowed prof t \<and> dependencies_below (known_specs q) t" if mem: "t \<in> snd ` set (known_specs q)" for t
  proof -
    have "t = s \<or> t \<in> snd ` set (known_specs p)" using snd_update mem unfolding q(1) by fast
    moreover have "\<forall>t \<in> snd ` set (known_specs p). delegation_allowed prof t \<and> dependencies_below (known_specs p) t"
      using tw [unfolded team_work_def] by (rule conjunct1)
    ultimately show ?thesis using mine dependencies_below_update [OF _ new] unfolding q(1) by blast
  qed
  have apart: "fst ` set (known_specs q) \<inter> fst ` set (peer_specs q) = {}"
  proof -
    have "ds_id s \<notin> claimed p" using f by simp
    then have "ds_id s \<notin> fst ` set (peer_specs p)" unfolding claimed_def by blast
    then show ?thesis unfolding q(2) by (rule insert_apart [OF keys _ team_work_apart [OF tw]])
  qed
  have "\<forall>t \<in> snd ` set (peer_specs q). peer_turn_allowed prof t"
    using tw unfolding q(2) team_work_def by (elim conjE)
  then have "team_work prof q"
    using all apart team_work_leader [OF tw] unfolding team_work_def q(3) by (intro conjI ballI) fast+
  moreover have "layered (known_specs q) ss" using f by (simp add: q)
  moreover have "set (map ds_id ss @ map pts_id us @ ids) \<inter> claimed q = {}"
  proof -
    have "claimed q \<subseteq> insert (ds_id s) (claimed p)" using keys by (auto simp: claimed_def q(2))
    moreover have "ds_id s \<notin> set (map ds_id ss @ map pts_id us @ ids)" using f by simp
    moreover have "set (map ds_id ss @ map pts_id us @ ids) \<inter> claimed p = {}" using f by (simp add: Int_Un_distrib2)
    ultimately show ?thesis by blast
  qed
  ultimately show ?thesis using f by (simp add: plan_fits_def)
qed

lemma peer_created_fits:
  assumes fit: "plan_fits prof ss (u # us) ids evs p"
    and q: "known_specs q = known_specs p" "peer_specs q = AList.update (pts_id u) u (peer_specs p)" "pj_leader q = pj_leader p"
  shows "plan_fits prof ss us ids evs q"
proof -
  note f = fit [unfolded plan_fits_def]
  have keys: "fst ` set (peer_specs q) \<subseteq> insert (pts_id u) (fst ` set (peer_specs p))"
    by (simp add: q(2) dom_update)
  have "\<forall>t \<in> snd ` set (peer_specs q). peer_turn_allowed prof t"
  proof
    fix t
    assume "t \<in> snd ` set (peer_specs q)"
    then have "t = u \<or> t \<in> snd ` set (peer_specs p)" using snd_update unfolding q(2) by fast
    moreover have "\<forall>t \<in> snd ` set (peer_specs p). peer_turn_allowed prof t"
      using conjunct1 [OF f] by (simp add: team_work_def)
    ultimately show "peer_turn_allowed prof t" using f by auto
  qed
  moreover have "fst ` set (known_specs q) \<inter> fst ` set (peer_specs q) = {}"
  proof -
    have "pts_id u \<notin> claimed p" using f by simp
    then have "pts_id u \<notin> fst ` set (known_specs p)" unfolding claimed_def by blast
    then show ?thesis
      unfolding q(1) Int_commute [of "fst ` set (known_specs p)"]
      by (rule insert_apart [OF keys]) (use team_work_apart [OF conjunct1 [OF f]] in \<open>simp only: Int_commute\<close>)
  qed
  ultimately have "team_work prof q" using conjunct1 [OF f] by (simp add: team_work_def q)
  moreover have "set (map ds_id ss @ map pts_id us @ ids) \<inter> claimed q = {}"
  proof -
    have "claimed q \<subseteq> insert (pts_id u) (claimed p)" using keys by (auto simp: claimed_def q(1))
    moreover have "pts_id u \<notin> set (map ds_id ss @ map pts_id us @ ids)" using f by auto
    moreover have "set (map ds_id ss @ map pts_id us @ ids) \<inter> claimed p = {}" using f by (simp add: Int_Un_distrib2)
    ultimately show ?thesis by blast
  qed
  ultimately show ?thesis using f q(1) by (simp add: plan_fits_def)
qed

lemma create_delegation:
  "ensures (planned env prof (s # ss) us) (record_event env DelegationCreated a (ds_id s) (Some (enc_delegation_spec s)))
     (\<lambda>_. planned env prof ss us) (runtime_ok env prof)"
  unfolding record_event_def
proof (rule ensures_bind)
  let ?d = "\<lparr>dr_kind = DelegationCreated, dr_actor = a, dr_correlation = ds_id s, dr_causation = [],
      dr_data = Some (enc_delegation_spec s)\<rparr>"
  have "ensures (planned env prof (s # ss) us) (append_draft env True ?d)
      (\<lambda>_. planned env prof ss us) (planned env prof (s # ss) us)"
    by (rule append_ensures [OF readable_payload(12) _ refl]) (auto dest!: apply_created [rotated 2] intro: created_fits)
  then show "ensures (planned env prof (s # ss) us) (append_draft env True ?d)
      (\<lambda>_. planned env prof ss us) (runtime_ok env prof)"
    by (rule ensures_weaken) (auto intro: planned_runtime_ok)
qed (rule ensures_return)

lemma create_peer_turn:
  "ensures (planned env prof ss (u # us)) (record_event env PeerTurnCreated a (pts_id u) (Some (enc_peer_turn_spec u)))
     (\<lambda>_. planned env prof ss us) (runtime_ok env prof)"
  unfolding record_event_def
proof (rule ensures_bind)
  let ?d = "\<lparr>dr_kind = PeerTurnCreated, dr_actor = a, dr_correlation = pts_id u, dr_causation = [],
      dr_data = Some (enc_peer_turn_spec u)\<rparr>"
  have "ensures (planned env prof ss (u # us)) (append_draft env True ?d)
      (\<lambda>_. planned env prof ss us) (planned env prof ss (u # us))"
    by (rule append_ensures [OF readable_payload(13) _ refl]) (auto dest!: apply_peer_created [rotated 2] intro: peer_created_fits)
  then show "ensures (planned env prof ss (u # us)) (append_draft env True ?d)
      (\<lambda>_. planned env prof ss us) (runtime_ok env prof)"
    by (rule ensures_weaken) (auto intro: planned_runtime_ok)
qed (rule ensures_return)

lemma create_all:
  "ensures (planned env prof ss us) (act_each (\<lambda>s. record_event env DelegationCreated a (ds_id s) (Some (enc_delegation_spec s))) ss)
     (\<lambda>_. planned env prof [] us) (runtime_ok env prof)"
  by (induction ss) (auto intro!: ensures_return ensures_bind [OF create_delegation])

lemma create_all_peers:
  "ensures (planned env prof [] us) (act_each (\<lambda>u. record_event env PeerTurnCreated a (pts_id u) (Some (enc_peer_turn_spec u))) us)
     (\<lambda>_. runtime_ok env prof) (runtime_ok env prof)"
  by (induction us) (auto intro!: ensures_return ensures_bind [OF create_peer_turn])

lemma transfer_leadership:
  assumes "Agent prof (lt_to_agent_id x) \<noteq> None"
  shows "ensures (planned env prof ss us) (append_draft env True \<lparr>dr_kind = LeadershipTransferred, dr_actor = a,
      dr_correlation = [], dr_causation = [], dr_data = Some (enc_leadership_transferred_data x)\<rparr>)
     (\<lambda>_. planned env prof ss us) (planned env prof ss us)"
proof (rule append_ensures [OF readable_payload(11) _ refl], elim exE)
  fix item p q ids evs eid sid n now
  assume h: "apply_kind item p = Inr q" "plan_fits prof ss us ids evs p"
    and item: "item = materialize \<lparr>dr_kind = LeadershipTransferred, dr_actor = a, dr_correlation = [],
      dr_causation = [], dr_data = Some (enc_leadership_transferred_data x)\<rparr> eid sid n now"
  have "known_specs q = known_specs p \<and> peer_specs q = peer_specs p \<and> pj_leader q = lt_to_agent_id x"
    using apply_transferred [of _ x, OF _ _ h(1) [unfolded item]] by simp
  then show "plan_fits prof ss us ids evs q"
    using h(2) assms by (simp add: plan_fits_def team_work_def claimed_def)
qed


lemmas readable_drafts = readable_payload readable_plain

text \<open>The invariant at one place for an operation that cannot fail.\<close>

abbreviation keeps :: "environment \<Rightarrow> profile \<Rightarrow> 'a act \<Rightarrow> bool" where
  "keeps env prof m \<equiv> ensures (runtime_ok env prof) m (\<lambda>_. runtime_ok env prof) (runtime_ok env prof)"

lemma planned_cong:
  assumes "planned env prof ss us r" and "rt_store r' = rt_store r" and "rt_session r' = rt_session r"
    and "rt_profile r' = rt_profile r" and "rt_ids r' = rt_ids r" and "rt_tasks r' = rt_tasks r"
    and "rt_launched r' = rt_launched r"
  shows "planned env prof ss us r'"
  using assms by (simp add: planned_def session_sound_def)

lemma unrelated_step: "unrelated f \<Longrightarrow> planned env prof ss us r \<Longrightarrow> planned env prof ss us (f r)"
  by (simp add: unrelated_planned)

lemma read_keeps: "ensures (planned env prof ss us) (read_projection live) (\<lambda>_. planned env prof ss us) (planned env prof ss us)"
  by (rule ensures_weaken [OF read_projection_ensures]) auto

lemma record_keeps:
  assumes "readable \<lparr>dr_kind = k, dr_actor = a, dr_correlation = c, dr_causation = [], dr_data = j\<rparr>"
    and "k \<notin> {DelegationCreated, PeerTurnCreated, LeadershipTransferred}"
  shows "ensures (planned env prof ss us) (act_bind (record_event env k a c j) (\<lambda>_. act_update (cut_context i)))
    (\<lambda>_. planned env prof ss us) (planned env prof ss us)"
  by (rule ensures_bind [OF quiet_record [OF assms]])
    (rule ensures_update, rule unrelated_step [OF unrelated_changes(2)])

lemma cancelDelegation_keeps:
  "ensures (planned env prof ss us) (cancelDelegation env i reason) (\<lambda>_. planned env prof ss us) (planned env prof ss us)"
  unfolding cancelDelegation_def
  by (rule ensures_bind [OF read_keeps])
    (auto split: option.splits intro!: ensures_fail ensures_return record_keeps readable_drafts)

lemma cancelWork_keeps:
  "ensures (planned env prof ss us) (cancelWork env i reason) (\<lambda>_. planned env prof ss us) (planned env prof ss us)"
  unfolding cancelWork_def
  by (rule ensures_bind [OF read_keeps])
    (auto split: option.splits intro!: ensures_fail ensures_return record_keeps readable_drafts cancelDelegation_keeps)

lemma attempt_all_keeps:
  assumes "\<And>x. ensures P (f x) (\<lambda>_. P) P" and "P r"
  shows "P (attempt_all f xs r)"
  using assms(2) unfolding attempt_all_def
  by (induction xs arbitrary: r) (simp_all add: ensures_after [OF assms(1)])

lemma cancelActiveDelegations_keeps:
  "planned env prof ss us r \<Longrightarrow> planned env prof ss us (cancelActiveDelegations env reason r)"
  unfolding cancelActiveDelegations_def
  by (auto split: sum.splits intro!: attempt_all_keeps cancelWork_keeps cancelDelegation_keeps)

lemma fail_session_keeps: "planned env prof ss us r \<Longrightarrow> planned env prof ss us (fail_session env live e r)"
  unfolding fail_session_def
  by (auto split: sum.splits intro!: ensures_after [OF quiet_append] readable_plain)

lemma stopWithError_keeps: "planned env prof ss us r \<Longrightarrow> planned env prof ss us (stopWithError env e r)"
  unfolding stopWithError_def
  using fail_session_keeps unrelated_step [OF unrelated_changes(5)] by simp

lemma launch_keeps: "planned env prof ss us r \<Longrightarrow> planned env prof ss us (launch (task_key t) t r)"
  by (auto simp: launch_def planned_def session_sound_def)

lemma fold_launch_keeps:
  "planned env prof ss us r \<Longrightarrow> planned env prof ss us (fold (\<lambda>t. launch (task_key t) t) ts r)"
  by (induction ts arbitrary: r) (simp_all add: launch_keeps)

lemma scheduleReady_keeps: "keeps env prof scheduleReady"
  unfolding scheduleReady_def
  by (rule ensures_bind [OF read_keeps]) (rule ensures_update, rule fold_launch_keeps)

section \<open>Goroutines\<close>

lemma append_after:
  assumes "runtime_ok env prof r" and "readable d"
    and "dr_kind d \<notin> {DelegationCreated, PeerTurnCreated, LeadershipTransferred}"
    and "append_draft env live d r = (v, r1)"
  shows "runtime_ok env prof r1"
  using ensures_after [OF quiet_append [OF assms(2,3)] assms(1)] assms(4) by (metis snd_conv)

lemma handleDelegationFailure_keeps:
  assumes "runtime_ok env prof r"
  shows "runtime_ok env prof (handleDelegationFailure env i actor attempt e r)"
  unfolding handleDelegationFailure_def
  by (auto split: prod.splits sum.splits dest!: append_after [OF assms readable_payload(5), rotated]
      intro!: stopWithError_keeps unrelated_step [OF unrelated_changes(1)] simp: assms)

lemma handlePeerTurnFailure_keeps:
  assumes "runtime_ok env prof r"
  shows "runtime_ok env prof (handlePeerTurnFailure env i actor attempt e r)"
  unfolding handlePeerTurnFailure_def
  by (auto split: prod.splits sum.splits dest!: append_after [OF assms readable_payload(6), rotated]
      intro!: stopWithError_keeps unrelated_step [OF unrelated_changes(1)] simp: assms)

lemma enter_keeps:
  assumes "runtime_ok env prof r"
  shows "runtime_ok env prof (snd (delegation_enter env i r))" "runtime_ok env prof (snd (peer_enter env i r))"
proof -
  have "unrelated (\<lambda>r. r\<lparr>rt_active := insert i (rt_active r), rt_cut := rt_cut r - {i}\<rparr>)"
    by (simp add: unrelated_def)
  note entered = unrelated_step [OF this assms]
  show "runtime_ok env prof (snd (delegation_enter env i r))"
    unfolding delegation_enter_def
    using assms entered by (auto split: sum.splits option.splits intro!: stopWithError_keeps)
  show "runtime_ok env prof (snd (peer_enter env i r))"
    unfolding peer_enter_def
    using assms entered by (auto split: sum.splits option.splits intro!: stopWithError_keeps)
qed

lemma record_start_keeps:
  assumes "runtime_ok env prof r" and "readable d"
    and "dr_kind d \<notin> {DelegationCreated, PeerTurnCreated, LeadershipTransferred}"
  shows "runtime_ok env prof (snd (record_start env i d r))"
  unfolding record_start_def
  by (auto split: prod.splits sum.splits dest!: append_after [OF assms]
      intro!: stopWithError_keeps unrelated_step [OF unrelated_changes(3)] simp: assms(1))

lemma start_keeps:
  assumes "runtime_ok env prof r"
  shows "runtime_ok env prof (snd (delegation_start env i n actor r))"
    "runtime_ok env prof (snd (peer_start env i n actor r))"
  unfolding delegation_start_def peer_start_def
  by (rule record_start_keeps [OF assms readable_payload(3)], simp)
    (rule record_start_keeps [OF assms readable_payload(4)], simp)

lemma delegation_finish_keeps:
  assumes "runtime_ok env prof r"
  shows "runtime_ok env prof (delegation_finish env i n actor outcome r)"
proof -
  have schedule: "runtime_ok env prof r2" if "scheduleReady r1 = (v, r2)" "runtime_ok env prof r1" for r1 v r2
    using ensures_after [OF scheduleReady_keeps that(2)] that(1) by simp
  show ?thesis
    unfolding delegation_finish_def
    by (auto split: prod.splits sum.splits simp: Let_def assms
        dest!: append_after [OF assms readable_payload(7), rotated] schedule
        intro!: unrelated_step [OF unrelated_changes(3)] stopWithError_keeps handleDelegationFailure_keeps
          unrelated_step [OF unrelated_changes(1)])
qed

lemma peer_finish_keeps:
  assumes "runtime_ok env prof r"
  shows "runtime_ok env prof (peer_finish env i n actor outcome r)"
  unfolding peer_finish_def
  by (auto split: prod.splits sum.splits simp: Let_def assms
      dest!: append_after [OF assms readable_payload(8), rotated]
      intro!: unrelated_step [OF unrelated_changes(3)] stopWithError_keeps handlePeerTurnFailure_keeps
        unrelated_step [OF unrelated_changes(1)])


section \<open>The leader's turn keeps it\<close>

text \<open>A projection read since the last append.\<close>

definition current :: "projection \<Rightarrow> runtime \<Rightarrow> bool" where
  "current state r \<longleftrightarrow>
     (\<exists>p h. Replay (rt_session r) (Events (rt_store r) (rt_session r) 0) = Inr p \<and> state = p\<lparr>pj_history := h\<rparr>)"

lemma history_plan [simp]:
  "known_specs (p\<lparr>pj_history := h\<rparr>) = known_specs p" "peer_specs (p\<lparr>pj_history := h\<rparr>) = peer_specs p"
  "claimed (p\<lparr>pj_history := h\<rparr>) = claimed p" "team_work prof (p\<lparr>pj_history := h\<rparr>) = team_work prof p"
  "plan_fits prof ss us ids evs (p\<lparr>pj_history := h\<rparr>) = plan_fits prof ss us ids evs p"
  by (simp_all add: known_specs_def peer_specs_def claimed_def team_work_def plan_fits_def)

lemma read_current:
  "ensures (planned env prof ss us) (read_projection live)
     (\<lambda>p r. planned env prof ss us r \<and> current p r) (planned env prof ss us)"
  by (auto simp: ensures_def read_projection_def planned_def current_def) blast+

lemma current_fits:
  "planned env prof ss us r \<Longrightarrow> current state r \<Longrightarrow> plan_fits prof ss us (rt_ids r) (st_events (rt_store r)) state"
  by (auto simp: planned_def current_def)

lemma ensures_pre: "(\<And>r. P r \<Longrightarrow> A) \<Longrightarrow> (A \<Longrightarrow> ensures P m Q E) \<Longrightarrow> ensures P m Q E"
  by (auto simp: ensures_def)

lemma ensures_conj: "ensures P m Q E \<Longrightarrow> ensures (\<lambda>r. P r \<and> R r) m Q E"
  by (erule ensures_weaken) auto

lemma agent_of_leader: "Agent prof i = Some a \<Longrightarrow> Agent prof (ag_id a) = Some a"
  using Agent_id by metis

lemma delegations_planned:
  assumes "Agent prof (pj_leader state) = Some agent"
  shows "ensures (\<lambda>r. runtime_ok env prof r \<and> current state r)
    (with_ids (materializeDelegations prof state agent proposals))
    (\<lambda>specs r. planned env prof specs [] r \<and> current state r) (runtime_ok env prof)"
  unfolding ensures_def
proof (intro allI impI, elim conjE)
  fix r
  assume ok: "runtime_ok env prof r" and cur: "current state r"
  show "case with_ids (materializeDelegations prof state agent proposals) r of
      (Inl e, r1) \<Rightarrow> runtime_ok env prof r1 | (Inr specs, r1) \<Rightarrow> planned env prof specs [] r1 \<and> current state r1"
  proof (cases "materializeDelegations prof state agent proposals (rt_ids r)")
    case (Inl e)
    then show ?thesis using ok by (simp add: with_ids_def)
  next
    case (Inr pair)
    obtain specs rest where pair: "pair = (specs, rest)" by (cases pair)
    note m = materializeDelegations_Inr [OF Inr [unfolded pair]]
    have "delegation_allowed prof s" if mem: "s \<in> set specs" for s
      using m(4) [OF mem] agent_of_leader [OF assms] by (simp add: delegation_permitted_def delegation_allowed_def)
    moreover have "plan_fits prof [] [] (rt_ids r) (st_events (rt_store r)) state" by (rule current_fits [OF ok cur])
    ultimately have "plan_fits prof specs [] rest (st_events (rt_store r)) state"
      using m(3) by (auto simp: plan_fits_def m(1))
    then show ?thesis
      using ok cur Inr pair by (auto simp: with_ids_def planned_def session_sound_def current_def)
  qed
qed

lemma peer_turns_planned:
  assumes "Agent prof (pj_leader state) = Some agent"
  shows "ensures (\<lambda>r. planned env prof specs [] r \<and> current state r)
    (with_ids (materializePeerTurns prof state agent proposals))
    (\<lambda>us r. planned env prof specs us r \<and> current state r) (runtime_ok env prof)"
  unfolding ensures_def
proof (intro allI impI, elim conjE)
  fix r
  assume ok: "planned env prof specs [] r" and cur: "current state r"
  have fit: "plan_fits prof specs [] (rt_ids r) (st_events (rt_store r)) state" by (rule current_fits [OF ok cur])
  show "case with_ids (materializePeerTurns prof state agent proposals) r of
      (Inl e, r1) \<Rightarrow> runtime_ok env prof r1 | (Inr us, r1) \<Rightarrow> planned env prof specs us r1 \<and> current state r1"
  proof (cases "materializePeerTurns prof state agent proposals (rt_ids r)")
    case (Inl e)
    then show ?thesis using planned_runtime_ok [OF ok] by (simp add: with_ids_def)
  next
    case (Inr pair)
    obtain us rest where pair: "pair = (us, rest)" by (cases pair)
    note m = materialize_peer_turns_loop_Inr [OF Inr [unfolded pair materializePeerTurns_def]]
    have "peer_turn_allowed prof u" if mem: "u \<in> set us" for u
      using m mem agent_of_leader [OF assms] by (auto simp: peer_turn_permitted_def peer_turn_allowed_def)
    moreover have d: "distinct (map pts_id us @ rest)" "set (map pts_id us @ rest) \<subseteq> set (rt_ids r)"
      using m fit by (auto simp: plan_fits_def)
    have ids: "distinct (map ds_id specs)" "set (map ds_id specs) \<inter> set (rt_ids r) = {}"
      "(set (map ds_id specs) \<union> set (rt_ids r)) \<inter> claimed state = {}"
      "set (rt_ids r) \<inter> ev_id ` set (st_events (rt_store r)) = {}"
      using fit by (simp_all add: plan_fits_def)
    moreover have "distinct (map ds_id specs @ (map pts_id us @ rest))"
      by (subst distinct_append) (use d ids in blast)
    moreover have "set (map ds_id specs @ (map pts_id us @ rest)) \<inter> claimed state = {}"
      by (subst set_append) (use d ids in blast)
    moreover have "set rest \<inter> ev_id ` set (st_events (rt_store r)) = {}" using d(2) ids(4) by auto
    ultimately have "plan_fits prof specs us rest (st_events (rt_store r)) state"
      using fit unfolding plan_fits_def by blast
    then show ?thesis
      using ok cur Inr pair by (auto simp: with_ids_def planned_def session_sound_def current_def)
  qed
qed

lemma record_decision_keeps:
  "ensures (planned env prof specs us) (record_decision env state agent d specs us) (\<lambda>_. runtime_ok env prof) (runtime_ok env prof)"
  unfolding record_decision_def
proof (rule ensures_bind [where Q = "\<lambda>_. planned env prof specs us"])
  show "ensures (planned env prof specs us) (act_each (\<lambda>i. cancelWork env i ''cancelled by active-agent coordination decision'')
      (uniqueStrings (de_cancel d))) (\<lambda>_. planned env prof specs us) (runtime_ok env prof)"
  proof (rule ensures_weaken)
    show "ensures (planned env prof specs us) (act_each (\<lambda>i. cancelWork env i ''cancelled by active-agent coordination decision'')
        (uniqueStrings (de_cancel d))) (\<lambda>_. planned env prof specs us) (planned env prof specs us)"
      by (rule ensures_each) (rule cancelWork_keeps)
  qed (auto intro: planned_runtime_ok)
next
  fix x
  have decision: "ensures (planned env prof specs us) (record_event env AgentDecision a c j)
      (\<lambda>_. planned env prof specs us) (runtime_ok env prof)" for a c j
    by (rule ensures_weaken [OF quiet_record [where ss = specs and us = us]]) (auto intro: planned_runtime_ok readable_plain)
  show "ensures (planned env prof specs us)
      (act_bind (record_event env AgentDecision (ag_id agent) [] (Some (enc_agent_decision_data
         \<lparr>ad_agent_id = ag_id agent, ad_turn = pj_agent_turns state, ad_assessment = de_assessment d,
          ad_delegations = specs, ad_peer_turns = us, ad_cancellations = uniqueStrings (de_cancel d),
          ad_handoff_to = handoffPeerID (de_handoff d)\<rparr>))) (\<lambda>_.
       act_bind (act_each (\<lambda>s. record_event env DelegationCreated (ag_id agent) (ds_id s)
         (Some (enc_delegation_spec s))) specs) (\<lambda>_.
       act_bind (act_each (\<lambda>s. record_event env PeerTurnCreated (ag_id agent) (pts_id s)
         (Some (enc_peer_turn_spec s))) us) (\<lambda>_.
       record_event env AgentTurnCompleted (ag_id agent) [] (Some (enc_agent_turn_data
         \<lparr>at_agent_id = ag_id agent, at_turn = pj_agent_turns state, at_signal_kinds = [],
          at_assessment = de_assessment d\<rparr>)))))) (\<lambda>_. runtime_ok env prof) (runtime_ok env prof)"
    by (rule ensures_bind [OF decision], rule ensures_bind [OF create_all], rule ensures_bind [OF create_all_peers],
        rule quiet_record) (auto intro: readable_plain)
qed

lemma hand_over_keeps:
  assumes "Agent prof (trim (ph_peer h)) \<noteq> None"
  shows "keeps env prof (hand_over env agent h)"
  unfolding hand_over_def
  by (rule ensures_bind [OF transfer_leadership])
    (use assms in \<open>auto intro!: ensures_update unrelated_step [OF unrelated_changes(1)]\<close>)

lemma check_decision_handoff:
  "check_decision p state agent d = Inr u \<Longrightarrow> de_handoff d = Some h \<Longrightarrow> Agent p (trim (ph_peer h)) \<noteq> None"
  by (auto simp: check_decision_def PeerAgentFor_def split: if_splits option.splits)

lemma ensures_prof:
  assumes "\<And>r. P r \<Longrightarrow> rt_profile r = prof" and "ensures P (m prof) Q E"
  shows "ensures P (\<lambda>r. m (rt_profile r) r) Q E"
  using assms by (auto simp: ensures_def)

lemma require_work_keeps:
  "ensures (\<lambda>r. planned env prof specs us r \<and> R r) (require_work d ss ps)
     (\<lambda>_. planned env prof specs us) (runtime_ok env prof)"
proof (rule ensures_weaken)
  show "ensures (planned env prof specs us) (require_work d ss ps)
      (\<lambda>_. planned env prof specs us) (planned env prof specs us)"
    unfolding require_work_def by (auto intro!: ensures_return ensures_fail ensures_bind [OF read_keeps])
qed (auto intro: planned_runtime_ok)

lemma unit_keeps: "unrelated f \<Longrightarrow> ensures (planned env prof ss us) (act_update f) (\<lambda>_. planned env prof ss us) E"
  by (rule ensures_update) (rule unrelated_step)

lemma when_keeps: "keeps env prof m \<Longrightarrow> keeps env prof (if b then m else act_return ())"
  by (simp add: ensures_return)

lemma either_keeps: "keeps env prof m \<Longrightarrow> keeps env prof m' \<Longrightarrow> keeps env prof (if b then m else m')"
  by simp

lemma end_decision_keeps:
  assumes "check_decision prof state agent d = Inr u"
  shows "keeps env prof (end_decision env agent d specs us)"
proof (cases "de_handoff d")
  case None
  show ?thesis
    unfolding end_decision_def None option.case
    by (rule ensures_bind [OF when_keeps]) (rule unit_keeps [OF unrelated_changes(1)], rule scheduleReady_keeps)
next
  case (Some h)
  then show ?thesis using hand_over_keeps check_decision_handoff [OF assms] by (simp add: end_decision_def)
qed

lemma lift_keeps:
  "ensures (\<lambda>r. planned env prof specs us r \<and> R r) (act_lift f (v :: (decision_error, unit) res))
     (\<lambda>x r. planned env prof specs us r \<and> R r \<and> v = Inr x) (runtime_ok env prof)"
  by (rule ensures_lift) (auto intro: planned_runtime_ok)

lemma decide_keeps:
  assumes agent: "Agent prof (pj_leader state) = Some agent"
  shows "ensures (\<lambda>r. runtime_ok env prof r \<and> current state r) (decide env prof state agent d)
    (\<lambda>_. runtime_ok env prof) (runtime_ok env prof)"
  unfolding decide_def
proof (rule ensures_bind [OF lift_keeps], rule ensures_pre)
  fix x r
  assume "runtime_ok env prof r \<and> current state r \<and> check_decision prof state agent d = Inr x"
  then show "check_decision prof state agent d = Inr x" by blast
next
  fix x
  assume checked: "check_decision prof state agent d = Inr x"
  have lift: "ensures (\<lambda>r. planned env prof specs [] r \<and> current state r) (act_lift DecisionFault v)
      (\<lambda>_ r. planned env prof specs [] r \<and> current state r) (runtime_ok env prof)"
    for v :: "(decision_error, unit) res" and specs
    by (rule ensures_weaken [OF lift_keeps]) auto
  have start: "ensures (\<lambda>r. runtime_ok env prof r \<and> current state r \<and> check_decision prof state agent d = Inr x)
      (with_ids (materializeDelegations prof state agent (de_delegations d)))
      (\<lambda>specs r. planned env prof specs [] r \<and> current state r) (runtime_ok env prof)"
    by (rule ensures_weaken [OF delegations_planned [OF agent]]) auto
  show "ensures (\<lambda>r. runtime_ok env prof r \<and> current state r \<and> check_decision prof state agent d = Inr x)
      (act_bind (with_ids (materializeDelegations prof state agent (de_delegations d))) (\<lambda>specs.
       act_bind (act_lift DecisionFault (cancelled_dependency (uniqueStrings (de_cancel d)) specs)) (\<lambda>_.
       act_bind (with_ids (materializePeerTurns prof state agent (de_peer_turns d))) (\<lambda>peerSpecs.
       act_bind (require_work d specs peerSpecs) (\<lambda>_.
       act_bind (record_decision env state agent d specs peerSpecs) (\<lambda>_.
       end_decision env agent d specs peerSpecs)))))) (\<lambda>_. runtime_ok env prof) (runtime_ok env prof)"
    by (rule ensures_bind [OF start], rule ensures_bind [OF lift], rule ensures_bind [OF peer_turns_planned [OF agent]],
        rule ensures_bind [OF require_work_keeps], rule ensures_bind [OF record_decision_keeps],
        rule end_decision_keeps [OF checked])
qed

lemma applyDecision_keeps: "keeps env prof (applyDecision env d)"
  unfolding applyDecision_def
  by (rule ensures_prof [OF planned_profile], assumption, rule ensures_bind [OF read_current])
    (auto split: option.splits intro!: decide_keeps ensures_fail)

section \<open>Answers, turns and recovery keep it\<close>

lemma completeAnswer_keeps: "keeps env prof (completeAnswer env agentID turn answer)"
proof -
  have cancel: "keeps env prof (act_update (cancelActiveDelegations env reason))" for reason
    by (rule ensures_update) (rule cancelActiveDelegations_keeps)
  have final: "keeps env prof (record_event env FinalCompleted a [] (Some (enc_final_completed_data x)))" for a x
    by (rule quiet_record [OF readable_payload(10)]) simp
  have plain: "keeps env prof (record_event env k a c j)"
    if "k \<in> {AgentTurnCompleted, FinalStarted, FinalTextDelta}" for k a c j
    by (rule quiet_record) (use that in \<open>auto intro: readable_plain\<close>)
  show ?thesis
    unfolding completeAnswer_def
    by (auto intro!: ensures_bind [OF unit_keeps [OF unrelated_changes(4)]] ensures_fail
        ensures_bind [OF cancel] ensures_bind [OF plain] final)
qed

lemma onActiveAgentEvents_keeps: "keeps env prof (onActiveAgentEvents env outcome)"
  unfolding onActiveAgentEvents_def
  by (auto split: option.splits agent_outcome.splits intro!: ensures_fail ensures_return
      ensures_bind [OF read_keeps] ensures_bind [OF completeAnswer_keeps]
      ensures_bind [OF unit_keeps [OF unrelated_changes(5)]] ensures_bind [OF applyDecision_keeps])

lemma begin_turn_keeps: "keeps env prof (begin_turn env kinds)"
  unfolding begin_turn_def
  by (rule ensures_prof [OF planned_profile], assumption, rule ensures_bind [OF read_keeps])
    (auto split: option.splits intro!: ensures_fail ensures_return
      ensures_bind [OF quiet_record [OF readable_payload(9)]])

lemma markInterruptedDelegations_keeps: "keeps env prof (markInterruptedDelegations env)"
  unfolding markInterruptedDelegations_def
  by (rule ensures_bind [OF read_keeps], rule ensures_bind [where Q = "\<lambda>_. runtime_ok env prof"])
    (auto intro!: ensures_each quiet_record readable_payload(5,6))

lemma loadConversationHistory_keeps: "keeps env prof loadConversationHistory"
  using unrelated_step [OF unrelated_changes(6)]
  by (auto simp: ensures_def loadConversationHistory_def split: sum.splits)

lemma or_fail_keeps: "keeps env prof m \<Longrightarrow> keeps env prof (or_fail env m)"
  by (auto simp: ensures_def or_fail_def split: prod.splits sum.splits intro: fail_session_keeps)

lemma prepare_keeps: "keeps env prof (prepare env recovered)"
proof -
  have lead: "keeps env prof (record_event env LeadershipTransferred a [] (Some (enc_leadership_transferred_data
      \<lparr>lt_from_agent_id = [], lt_to_agent_id = ag_id (p_primary prof), lt_reason = reason\<rparr>)))" for a reason
    unfolding record_event_def
    by (rule ensures_bind [OF transfer_leadership]) (auto simp: Agent_def Agents_def intro!: ensures_return)
  have recovered: "keeps env prof (record_event env SessionRecovered a [] None)" for a
    by (rule quiet_record) (auto intro: readable_plain)
  show ?thesis
    unfolding prepare_def
    by (rule ensures_prof [OF planned_profile], assumption,
        rule ensures_bind [OF when_keeps [OF recovered]], rule ensures_bind [OF loadConversationHistory_keeps],
        rule ensures_bind [OF read_keeps], rule either_keeps [OF ensures_return], assumption,
        rule ensures_bind [OF when_keeps [OF or_fail_keeps [OF lead]]],
        rule ensures_bind [OF when_keeps [OF or_fail_keeps [OF markInterruptedDelegations_keeps]]],
        rule ensures_bind [OF unit_keeps [OF unrelated_changes(9)]], rule ensures_bind [OF unit_keeps [OF unrelated_changes(1)]],
        rule ensures_bind [OF or_fail_keeps [OF scheduleReady_keeps]], rule ensures_return)
qed

end
