(* ===== verification/Steps.thy ===== *)
theory Steps
  imports Teamwork
begin

text \<open>
  A session run as a state machine: in any order, the leader's loop begins and ends turns,
  each goroutine takes its next step, other writers of the log (the user, tools, usage
  accounting) append events, and contexts are cancelled. What every reachable state
  satisfies, and the contracts of single operations in such states.
\<close>

section \<open>Steps\<close>

definition set_phase :: "task \<Rightarrow> phase \<Rightarrow> runtime \<Rightarrow> runtime" where
  "set_phase t f r = r\<lparr>rt_tasks := map (\<lambda>x. if x = t then x\<lparr>tk_phase := f\<rparr> else x) (rt_tasks r)\<rparr>"

definition outcome_phase :: "string option \<Rightarrow> phase" where
  "outcome_phase v = (case v of None \<Rightarrow> Left | Some actor \<Rightarrow> Entered actor)"

text \<open>One step of a goroutine: the parts of \<open>executeDelegation\<close> and \<open>executePeerTurn\<close> in turn.\<close>

definition task_step :: "environment \<Rightarrow> (cause, string) res \<Rightarrow> task \<Rightarrow> runtime \<Rightarrow> runtime" where
  "task_step env outcome t r =
     (case tk_phase t of
        Queued \<Rightarrow>
          (let (v, r1) = (if tk_peer t then peer_enter env (tk_id t) r else delegation_enter env (tk_id t) r)
           in set_phase t (outcome_phase v) r1)
      | Entered actor \<Rightarrow>
          (let (b, r1) = (if tk_peer t then peer_start env (tk_id t) (tk_attempt t) actor r
                          else delegation_start env (tk_id t) (tk_attempt t) actor r)
           in set_phase t (if b then Started actor else Left) r1)
      | Started actor \<Rightarrow>
          set_phase t Left
            (if tk_peer t then peer_finish env (tk_id t) (tk_attempt t) actor outcome r
             else delegation_finish env (tk_id t) (tk_attempt t) actor outcome r)
      | Left \<Rightarrow> r)"

text \<open>The events others write to the session's log while it runs.\<close>

definition foreign_draft :: "draft \<Rightarrow> bool" where
  "foreign_draft d \<longleftrightarrow> readable d \<and> dr_kind d \<notin> {DelegationCreated, PeerTurnCreated, LeadershipTransferred}"

inductive runtime_step :: "environment \<Rightarrow> runtime \<Rightarrow> runtime \<Rightarrow> bool" for env where
  begins: "runtime_step env r (snd (begin_turn env kinds r))"
| ends: "runtime_step env r (snd (onActiveAgentEvents env outcome r))"
| works: "t \<in> set (rt_tasks r) \<Longrightarrow> runtime_step env r (task_step env outcome t r)"
| observes: "foreign_draft d \<Longrightarrow> runtime_step env r (snd (append_draft env live d r))"
| cancels: "runtime_step env r (r\<lparr>rt_user_cancelled := True\<rparr>)"
| closes: "runtime_step env r (r\<lparr>rt_closed := True\<rparr>)"

abbreviation runs :: "environment \<Rightarrow> runtime \<Rightarrow> runtime \<Rightarrow> bool" where
  "runs env \<equiv> (runtime_step env)\<^sup>*\<^sup>*"

lemma set_phase_keeps: "planned env prof ss us r \<Longrightarrow> planned env prof ss us (set_phase t f r)"
proof -
  have "map task_key (rt_tasks (set_phase t f r)) = map task_key (rt_tasks r)"
    by (simp add: set_phase_def task_key_def)
  moreover from this have "task_key ` set (rt_tasks (set_phase t f r)) = task_key ` set (rt_tasks r)"
    by (metis list.set_map)
  ultimately show "planned env prof ss us r \<Longrightarrow> planned env prof ss us (set_phase t f r)"
    unfolding planned_def session_sound_def by (simp only:) (simp add: set_phase_def)
qed

lemma task_step_keeps:
  assumes "runtime_ok env prof r"
  shows "runtime_ok env prof (task_step env outcome t r)"
proof -
  have "runtime_ok env prof r1"
    if "(if tk_peer t then peer_enter env i r else delegation_enter env i r) = (v, r1)" for i v r1
    using that enter_keeps [OF assms, of i] by (cases "tk_peer t") auto
  moreover have "runtime_ok env prof r1"
    if "(if tk_peer t then peer_start env i n a r else delegation_start env i n a r) = (b, r1)" for i n a b r1
    using that start_keeps [OF assms, of i n a] by (cases "tk_peer t") auto
  ultimately show ?thesis
    unfolding task_step_def Let_def
    using assms delegation_finish_keeps [OF assms] peer_finish_keeps [OF assms]
    by (auto split: phase.splits prod.splits intro!: set_phase_keeps)
qed

lemma step_keeps:
  assumes "runtime_step env r r'" and "runtime_ok env prof r"
  shows "runtime_ok env prof r'"
  using assms
proof (cases rule: runtime_step.cases)
  case (begins kinds)
  then show ?thesis using ensures_after [OF begin_turn_keeps assms(2)] by simp
next
  case (ends outcome)
  then show ?thesis using ensures_after [OF onActiveAgentEvents_keeps assms(2)] by simp
next
  case (works t outcome)
  then show ?thesis using task_step_keeps [OF assms(2)] by simp
next
  case (observes d live)
  then show ?thesis
    using ensures_after [OF quiet_append assms(2)] by (simp add: foreign_draft_def)
next
  case cancels
  then show ?thesis using unrelated_step [OF unrelated_changes(8) assms(2)] by simp
next
  case closes
  then show ?thesis using unrelated_step [OF unrelated_changes(7) assms(2)] by simp
qed

lemma runs_keeps: "runs env r r' \<Longrightarrow> runtime_ok env prof r \<Longrightarrow> runtime_ok env prof r'"
  by (induction rule: rtranclp_induct) (auto intro: step_keeps)

section \<open>Exact effects\<close>

definition replay_of :: "runtime \<Rightarrow> (projection_error, projection) res" where
  "replay_of r = Replay (rt_session r) (Events (rt_store r) (rt_session r) 0)"

lemma runtime_ok_replay:
  assumes "runtime_ok env prof r"
  obtains p where "replay_of r = Inr p" "team_work prof p"
  using assms by (auto simp: planned_def plan_fits_def replay_of_def)

lemma readable_columns: "apply_kind item p = Inr q \<Longrightarrow> \<exists>c. projection_columns item = Inr c"
  by (cases "ev_kind item") (auto simp: projection_columns_def apply_kind_def res_bind_Inr_iff)

lemma append_total:
  assumes ok: "runtime_ok env prof r" and d: "readable d" and "\<not> (live \<and> rt_closed r)" and "rt_ids r \<noteq> []"
  shows "\<exists>item r1. append_draft env live d r = (Inr item, r1)"
proof -
  obtain i ids where ids: "rt_ids r = i # ids" using assms(4) by (cases "rt_ids r") auto
  let ?item = "materialize d i (rt_session r) (LastSequence (rt_store r) (rt_session r) + 1) (rt_clock r (rt_ticks r))"
  have st: "store_ok (en_platform env) (rt_store r)" "rt_session r \<in> ss_id ` set (st_sessions (rt_store r))"
    "i \<notin> ev_id ` set (st_events (rt_store r))"
    using ok ids by (auto simp: planned_def session_sound_def plan_fits_def)
  obtain q where "apply_kind ?item (new_projection []) = Inr q" using d unfolding readable_def by blast
  then obtain c where "projection_columns ?item = Inr c" using readable_columns by blast
  from Append_succeeds [OF st this] show ?thesis
    using assms(3) ids by (auto simp: append_draft_def Let_def)
qed

lemma append_effect:
  assumes ok: "runtime_ok env prof r" and d: "readable d" and app: "append_draft env live d r = (Inr item, r1)"
    and p: "replay_of r = Inr p"
  shows "\<exists>eid n now q. item = materialize d eid (rt_session r) n now \<and> apply_kind item p = Inr q \<and>
    replay_of r1 = Inr (q\<lparr>pj_last := ev_sequence item\<rparr>) \<and> rt_closed r1 = rt_closed r \<and>
    rt_session r1 = rt_session r \<and> rt_ids r \<noteq> []"
proof -
  obtain i ids st where ids: "rt_ids r = i # ids"
    and a: "Append (en_platform env) i (rt_clock r (rt_ticks r)) (rt_session r) d (rt_store r) = Inr (item, st)"
    and r1: "r1 = r\<lparr>rt_ids := ids, rt_ticks := Suc (rt_ticks r), rt_store := st\<rparr>"
    using app by (auto simp: append_draft_def Let_def split: if_splits list.splits sum.splits)
  have st: "store_ok (en_platform env) (rt_store r)" using ok by (simp add: planned_def session_sound_def)
  from a obtain n where item: "item = materialize d i (rt_session r) n (rt_clock r (rt_ticks r))"
    by (rule Append_Inr) blast
  obtain q where q: "apply_kind item p = Inr q" using d unfolding readable_def item by blast
  have "replay_of r1 = Inr (q\<lparr>pj_last := ev_sequence item\<rparr>)"
    using replay_append [OF st a p [unfolded replay_of_def] q] by (simp add: replay_of_def r1)
  then show ?thesis using item q ids r1 by auto
qed

lemma append_closed: "rt_closed (snd (append_draft env live d r)) = rt_closed r"
  by (auto simp: append_draft_def Let_def split: list.splits sum.splits)

lemma append_spent: "rt_ids r = [] \<Longrightarrow> rt_ids (snd (append_draft env live d r)) = []"
  by (simp add: append_draft_def)

section \<open>Cancelling what is active\<close>

text \<open>Active delegations are among \<open>D\<close> and active peer turns among \<open>U\<close>.\<close>

definition settled :: "string set \<Rightarrow> string set \<Rightarrow> runtime \<Rightarrow> bool" where
  "settled D U r \<longleftrightarrow> (\<exists>p. replay_of r = Inr p \<and>
     (\<forall>(k, d) \<in> set (pj_delegations p). active_status (dg_status d) \<longrightarrow> k \<in> D) \<and>
     (\<forall>(k, u) \<in> set (pj_peer_turns p). active_status (pu_status u) \<longrightarrow> k \<in> U))"

text \<open>An open session in which that holds, unless the supply of identities has run out.\<close>

definition calm :: "environment \<Rightarrow> profile \<Rightarrow> string set \<Rightarrow> string set \<Rightarrow> runtime \<Rightarrow> bool" where
  "calm env prof D U r \<longleftrightarrow> runtime_ok env prof r \<and> \<not> rt_closed r \<and> (rt_ids r = [] \<or> settled D U r)"

lemma calm_unrelated:
  "calm env prof D U (cut_context i r) = calm env prof D U r"
  "calm env prof D U (r\<lparr>rt_finalizing := b\<rparr>) = calm env prof D U r"
  using unrelated_planned [OF unrelated_changes(2)] unrelated_planned [OF unrelated_changes(4)]
  by (simp_all add: calm_def settled_def replay_of_def cut_context_def)

lemma finished_not_active: "finished s \<Longrightarrow> \<not> active_status s"
  by (auto simp: finished_def active_status_def)

lemma record_event_cases:
  assumes ok: "runtime_ok env prof r" and open_run: "\<not> rt_closed r" and p: "replay_of r = Inr p"
    and d: "readable \<lparr>dr_kind = k, dr_actor = a, dr_correlation = c, dr_causation = [], dr_data = j\<rparr>"
  obtains (spent) "rt_ids r = []" "record_event env k a c j r = (Inl IdentityFault, r)"
  | (written) r1 q eid n now where "rt_ids r \<noteq> []" "record_event env k a c j r = (Inr (), r1)"
      "apply_kind (materialize \<lparr>dr_kind = k, dr_actor = a, dr_correlation = c, dr_causation = [], dr_data = j\<rparr>
         eid (rt_session r) n now) p = Inr q"
      "replay_of r1 = Inr (q\<lparr>pj_last := n\<rparr>)" "\<not> rt_closed r1"
proof (cases "rt_ids r = []")
  case True
  then show thesis
    using open_run by (intro spent) (simp_all add: record_event_def act_bind_def append_draft_def)
next
  case False
  let ?d = "\<lparr>dr_kind = k, dr_actor = a, dr_correlation = c, dr_causation = [], dr_data = j\<rparr>"
  obtain item r1 where app: "append_draft env True ?d r = (Inr item, r1)"
    using append_total [OF ok d _ False, of True] open_run by blast
  then have "record_event env k a c j r = (Inr (), r1)"
    by (simp add: record_event_def act_bind_def act_return_def)
  moreover obtain eid n now q where "item = materialize ?d eid (rt_session r) n now" "apply_kind item p = Inr q"
    "replay_of r1 = Inr (q\<lparr>pj_last := ev_sequence item\<rparr>)" "rt_closed r1 = rt_closed r"
    using append_effect [OF ok d app p] by blast
  ultimately show thesis using open_run False by (intro written) auto
qed

lemma set_map_entry_distinct:
  "keys_distinct m \<Longrightarrow> (x, w) \<in> set (AList.map_entry k f m) \<Longrightarrow>
   (x \<noteq> k \<and> (x, w) \<in> set m) \<or> (x = k \<and> (\<exists>v. (k, v) \<in> set m \<and> w = f v))"
  by (induction m) (force split: if_splits)+

lemma record_event_ok:
  "runtime_ok env prof r \<Longrightarrow> readable \<lparr>dr_kind = k, dr_actor = a, dr_correlation = c, dr_causation = [], dr_data = j\<rparr> \<Longrightarrow>
   k \<notin> {DelegationCreated, PeerTurnCreated, LeadershipTransferred} \<Longrightarrow> record_event env k a c j r = (v, r1) \<Longrightarrow>
   runtime_ok env prof r1"
  using ensures_after [OF quiet_record] by (metis snd_conv)

lemma cancelDelegation_calm:
  assumes "calm env prof (insert i D) U r"
  shows "calm env prof D U (snd (cancelDelegation env i reason r))"
proof -
  have ok: "runtime_ok env prof r" and open_run: "\<not> rt_closed r" using assms by (auto simp: calm_def)
  obtain p where p: "replay_of r = Inr p" using runtime_ok_replay [OF ok] by blast
  have known: "rt_ids r = [] \<or> (\<forall>(k, d) \<in> set (pj_delegations p). active_status (dg_status d) \<longrightarrow> k \<in> insert i D) \<and>
      (\<forall>(k, u) \<in> set (pj_peer_turns p). active_status (pu_status u) \<longrightarrow> k \<in> U)"
    using assms p by (auto simp: calm_def settled_def)
  have pok: "projection_ok p" using p unfolding replay_of_def by (rule Replay_ok)
  have look: "map_of (pj_delegations p) k = Some d" if "(k, d) \<in> set (pj_delegations p)" for k d
    using that pok by (simp add: projection_ok_def)
  have keys: "keys_distinct (pj_delegations p)" using pok by (simp add: projection_ok_def)
  have read: "read_projection True r = (Inr (p\<lparr>pj_history := rt_history r\<rparr>), r)"
    using p open_run by (simp add: read_projection_def replay_of_def)
  show ?thesis
  proof (cases "\<exists>d. map_of (pj_delegations p) i = Some d \<and> \<not> finished (dg_status d)")
    case False
    have "snd (cancelDelegation env i reason r) = r"
      using False by (auto simp: cancelDelegation_def act_bind_def read act_fail_def act_return_def split: option.splits)
    moreover have "rt_ids r = [] \<or> settled D U r"
      using known False look finished_not_active by (fastforce simp: settled_def p)
    ultimately show ?thesis using ok open_run by (simp add: calm_def)
  next
    case True
    let ?data = "Some (enc_delegation_cancelled_data \<lparr>dx_delegation_id = i, dx_reason = reason\<rparr>)"
    have run: "cancelDelegation env i reason r =
        act_bind (record_event env DelegationCancelled (pj_leader p) i ?data) (\<lambda>_. act_update (cut_context i)) r"
      using True by (auto simp: cancelDelegation_def act_bind_def read)
    show ?thesis
      using ok open_run p readable_payload(1) [of "pj_leader p" i "[]" "\<lparr>dx_delegation_id = i, dx_reason = reason\<rparr>"]
    proof (cases rule: record_event_cases)
      case spent
      then show ?thesis using run ok open_run by (simp add: act_bind_def calm_def)
    next
      case (written r1 q eid n now)
      have q: "pj_delegations q = AList.map_entry i cancel_delegation (pj_delegations p)" "pj_peer_turns q = pj_peer_turns p"
        using written(3) by (auto simp: apply_kind_def delegation_cancelled_codec.decode_materialize)
      have "settled D U r1"
        using known written(1,4) q
        by (fastforce simp: settled_def cancel_delegation_def active_status_def dest: set_map_entry_distinct [OF keys])
      then show ?thesis
        using run written(2,5) record_event_ok [OF ok readable_payload(1) _ written(2)]
        by (simp add: act_bind_def act_update_def calm_unrelated) (simp add: calm_def)
    qed
  qed
qed

lemma calm_weaken: "calm env prof D U r \<Longrightarrow> D \<subseteq> D' \<Longrightarrow> U \<subseteq> U' \<Longrightarrow> calm env prof D' U' r"
  unfolding calm_def settled_def by fast

text \<open>A peer turn's identity is never a delegation's.\<close>

lemma apart_keys:
  assumes "runtime_ok env prof r" and "replay_of r = Inr p" and "map_of (pj_delegations p) i \<noteq> None"
  shows "(i, u) \<notin> set (pj_peer_turns p)"
proof
  assume u: "(i, u) \<in> set (pj_peer_turns p)"
  have "team_work prof p" using assms(1,2) runtime_ok_replay by (metis Inr_inject)
  then have "fst ` set (pj_delegations p) \<inter> fst ` set (pj_peer_turns p) = {}"
    using team_work_apart unfolding known_specs_keys peer_specs_keys by blast
  moreover have "i \<in> fst ` set (pj_delegations p)" using assms(3) by (metis map_of_eq_None_iff)
  ultimately show False using u by force
qed

lemma cancelWork_calm:
  assumes "calm env prof D (insert i U) r"
  shows "calm env prof D U (snd (cancelWork env i reason r))"
proof -
  have ok: "runtime_ok env prof r" and open_run: "\<not> rt_closed r" using assms by (auto simp: calm_def)
  obtain p where p: "replay_of r = Inr p" using runtime_ok_replay [OF ok] by blast
  have known: "rt_ids r = [] \<or> (\<forall>(k, d) \<in> set (pj_delegations p). active_status (dg_status d) \<longrightarrow> k \<in> D) \<and>
      (\<forall>(k, u) \<in> set (pj_peer_turns p). active_status (pu_status u) \<longrightarrow> k \<in> insert i U)"
    using assms p by (auto simp: calm_def settled_def)
  have pok: "projection_ok p" using p unfolding replay_of_def by (rule Replay_ok)
  have keys: "keys_distinct (pj_peer_turns p)" using pok by (simp add: projection_ok_def)
  have look: "map_of (pj_peer_turns p) k = Some u" if "(k, u) \<in> set (pj_peer_turns p)" for k u
    using that keys by simp
  have read: "read_projection True r = (Inr (p\<lparr>pj_history := rt_history r\<rparr>), r)"
    using p open_run by (simp add: read_projection_def replay_of_def)
  consider (delegated) "map_of (pj_delegations p) i \<noteq> None"
    | (settled) "map_of (pj_delegations p) i = None" "\<not> (\<exists>u. map_of (pj_peer_turns p) i = Some u \<and> \<not> finished (pu_status u))"
    | (cancel) u where "map_of (pj_delegations p) i = None" "map_of (pj_peer_turns p) i = Some u" "\<not> finished (pu_status u)"
    by blast
  then show ?thesis
  proof cases
    case delegated
    have "rt_ids r = [] \<or> settled D U r" using known apart_keys [OF ok p delegated] by (fastforce simp: settled_def p)
    then have "calm env prof (insert i D) U r" using ok open_run by (auto simp: calm_def settled_def)
    moreover have "cancelWork env i reason r = cancelDelegation env i reason r"
      using delegated by (simp add: cancelWork_def act_bind_def read)
    ultimately show ?thesis using cancelDelegation_calm by metis
  next
    case settled
    have "snd (cancelWork env i reason r) = r"
      using settled by (auto simp: cancelWork_def act_bind_def read act_fail_def act_return_def split: option.splits)
    moreover have "rt_ids r = [] \<or> settled D U r"
      using known settled look finished_not_active by (fastforce simp: settled_def p)
    ultimately show ?thesis using ok open_run by (simp add: calm_def)
  next
    case cancel
    let ?data = "Some (enc_peer_turn_cancelled_data \<lparr>px_peer_turn_id = i, px_reason = reason\<rparr>)"
    have run: "cancelWork env i reason r =
        act_bind (record_event env PeerTurnCancelled (pj_leader p) i ?data) (\<lambda>_. act_update (cut_context i)) r"
      using cancel by (auto simp: cancelWork_def act_bind_def read)
    show ?thesis
      using ok open_run p readable_payload(2) [of "pj_leader p" i "[]" "\<lparr>px_peer_turn_id = i, px_reason = reason\<rparr>"]
    proof (cases rule: record_event_cases)
      case spent
      then show ?thesis using run ok open_run by (simp add: act_bind_def calm_def)
    next
      case (written r1 q eid n now)
      have q: "pj_peer_turns q = AList.map_entry i cancel_peer_turn (pj_peer_turns p)" "pj_delegations q = pj_delegations p"
        using written(3) by (auto simp: apply_kind_def peer_turn_cancelled_codec.decode_materialize)
      have "settled D U r1"
        using known written(1,4) q
        by (fastforce simp: settled_def cancel_peer_turn_def active_status_def dest: set_map_entry_distinct [OF keys])
      then show ?thesis
        using run written(2,5) record_event_ok [OF ok readable_payload(2) _ written(2)]
        by (simp add: act_bind_def act_update_def calm_unrelated) (simp add: calm_def)
    qed
  qed
qed

lemma cancel_all_delegations:
  "calm env prof (g ` set ds) U r \<Longrightarrow> calm env prof {} U (attempt_all (\<lambda>d. cancelDelegation env (g d) reason) ds r)"
proof (induction ds arbitrary: r)
  case (Cons d ds)
  then have "calm env prof (g ` set ds) U (snd (cancelDelegation env (g d) reason r))"
    using cancelDelegation_calm by simp
  then show ?case using Cons.IH by (simp add: attempt_all_def)
qed (simp add: attempt_all_def)

lemma cancel_all_peer_turns:
  "calm env prof D (g ` set us) r \<Longrightarrow> calm env prof D {} (attempt_all (\<lambda>u. cancelWork env (g u) reason) us r)"
proof (induction us arbitrary: r)
  case (Cons u us)
  then have "calm env prof D (g ` set us) (snd (cancelWork env (g u) reason r))"
    using cancelWork_calm by simp
  then show ?case using Cons.IH by (simp add: attempt_all_def)
qed (simp add: attempt_all_def)

lemma cancelActiveDelegations_calm:
  assumes ok: "runtime_ok env prof r" and open_run: "\<not> rt_closed r"
  shows "calm env prof {} {} (cancelActiveDelegations env reason r)"
proof -
  obtain p where p: "replay_of r = Inr p" using runtime_ok_replay [OF ok] by blast
  have pok: "projection_ok p" using p unfolding replay_of_def by (rule Replay_ok)
  let ?D = "filter (\<lambda>d. active_status (dg_status d)) (SortedDelegations p)"
  let ?U = "filter (\<lambda>u. active_status (pu_status u)) (SortedPeerTurns p)"
  have "k \<in> (\<lambda>d. ds_id (dg_spec d)) ` set ?D" if "(k, d) \<in> set (pj_delegations p)" "active_status (dg_status d)" for k d
    using that pok by (force simp: projection_ok_def delegation_ok_def SortedDelegations_set image_iff)
  moreover have "k \<in> (\<lambda>u. pts_id (pu_spec u)) ` set ?U" if "(k, u) \<in> set (pj_peer_turns p)" "active_status (pu_status u)" for k u
    using that pok by (force simp: projection_ok_def peer_turn_ok_def SortedPeerTurns_set image_iff)
  ultimately have "settled ((\<lambda>d. ds_id (dg_spec d)) ` set ?D) ((\<lambda>u. pts_id (pu_spec u)) ` set ?U) r"
    using p by (auto simp: settled_def simp del: set_filter)
  then have "calm env prof ((\<lambda>d. ds_id (dg_spec d)) ` set ?D) ((\<lambda>u. pts_id (pu_spec u)) ` set ?U) r"
    using ok open_run by (simp add: calm_def)
  from cancel_all_peer_turns [OF cancel_all_delegations [OF this]]
  show ?thesis
    using p open_run
    by (simp add: cancelActiveDelegations_def read_projection_def replay_of_def SortedDelegations_def SortedPeerTurns_def)
qed

section \<open>What an answer leaves behind\<close>

text \<open>Events that touch neither delegations nor peer turns.\<close>

lemma apply_kind_still:
  "apply_kind item p = Inr q \<Longrightarrow>
   ev_kind item \<in> {AgentTurnCompleted, FinalStarted, FinalTextDelta, FinalCompleted} \<Longrightarrow>
   pj_delegations q = pj_delegations p \<and> pj_peer_turns q = pj_peer_turns p"
  by (auto simp: apply_kind_def res_bind_Inr_iff)

text \<open>When such an event is written, nothing was lost to an empty supply.\<close>

lemma still_event:
  assumes calm: "calm env prof D U r" and k: "k \<in> {AgentTurnCompleted, FinalStarted, FinalTextDelta, FinalCompleted}"
    and d: "readable \<lparr>dr_kind = k, dr_actor = a, dr_correlation = c, dr_causation = [], dr_data = j\<rparr>"
    and run: "record_event env k a c j r = (Inr (), r1)"
  shows "calm env prof D U r1 \<and> settled D U r1 \<and>
    (\<exists>p q eid n now. apply_kind (materialize \<lparr>dr_kind = k, dr_actor = a, dr_correlation = c, dr_causation = [], dr_data = j\<rparr>
       eid (rt_session r) n now) p = Inr q \<and> replay_of r1 = Inr (q\<lparr>pj_last := n\<rparr>))"
proof -
  have ok: "runtime_ok env prof r" and open_run: "\<not> rt_closed r" using calm by (auto simp: calm_def)
  obtain p where p: "replay_of r = Inr p" using runtime_ok_replay [OF ok] by blast
  show ?thesis
    using ok open_run p d
  proof (cases rule: record_event_cases)
    case spent
    then show ?thesis using run by simp
  next
    case (written r2 q eid n now)
    have r2: "r2 = r1" using written(2) run by simp
    have "settled D U r" using calm written(1) by (simp add: calm_def)
    then have s: "settled D U r1"
      using apply_kind_still [OF written(3)] written(4) k p by (auto simp: settled_def r2)
    moreover have "runtime_ok env prof r1"
      using record_event_ok [OF ok d _ run] k by auto
    ultimately have "calm env prof D U r1" using written(5) by (simp add: calm_def r2)
    with s show ?thesis using written(3,4) unfolding r2 by blast
  qed
qed

lemma ensures_step: "act_bind m f r = (Inr y, r') \<Longrightarrow> \<exists>x r1. m r = (Inr x, r1) \<and> f x r1 = (Inr y, r')"
  by (auto simp: act_bind_def split: prod.splits sum.splits)

lemma completeAnswer_effect:
  assumes ok: "runtime_ok env prof r" and open_run: "\<not> rt_closed r"
    and run: "completeAnswer env agentID turn answer r = (Inr (), r')"
  shows "runtime_ok env prof r' \<and> settled {} {} r' \<and> trim answer \<noteq> [] \<and>
    (\<exists>p. replay_of r' = Inr p \<and> pj_terminal p \<and> pj_final p = trim answer)"
proof -
  let ?r0 = "r\<lparr>rt_finalizing := True\<rparr>"
  let ?r1 = "cancelActiveDelegations env ''current leader answered the user'' ?r0"
  have answer: "trim answer \<noteq> []"
    using run by (auto simp: completeAnswer_def act_bind_def act_update_def act_fail_def)
  have "runtime_ok env prof ?r0" using unrelated_step [OF unrelated_changes(4) ok] .
  then have c1: "calm env prof {} {} ?r1"
    using cancelActiveDelegations_calm open_run by simp
  obtain r2 r3 r4 where
    e1: "record_event env AgentTurnCompleted agentID [] (Some (enc_agent_turn_data
         \<lparr>at_agent_id = agentID, at_turn = turn, at_signal_kinds = [],
          at_assessment = ''Answered the user directly.''\<rparr>)) ?r1 = (Inr (), r2)" and
    e2: "record_event env FinalStarted agentID [] None r2 = (Inr (), r3)" and
    e3: "record_event env FinalTextDelta agentID [] (Some (enc_text_delta_data
         \<lparr>td_delegation_id = [], td_text = trim answer\<rparr>)) r3 = (Inr (), r4)" and
    e4: "record_event env FinalCompleted agentID [] (Some (enc_final_completed_data \<lparr>fc_answer = trim answer\<rparr>)) r4 = (Inr (), r')"
    using run answer unfolding completeAnswer_def
    by (auto simp: act_update_def dest!: ensures_step)
  have c2: "calm env prof {} {} r2" using still_event [OF c1 _ _ e1] by (simp add: readable_plain)
  have c3: "calm env prof {} {} r3" using still_event [OF c2 _ _ e2] by (simp add: readable_plain)
  have c4: "calm env prof {} {} r4" using still_event [OF c3 _ _ e3] by (simp add: readable_plain)
  from still_event [OF c4 _ readable_payload(10) e4]
  obtain p q eid n now where c5: "calm env prof {} {} r'" "settled {} {} r'"
    and ap: "apply_kind (materialize \<lparr>dr_kind = FinalCompleted, dr_actor = agentID, dr_correlation = [], dr_causation = [],
       dr_data = Some (enc_final_completed_data \<lparr>fc_answer = trim answer\<rparr>)\<rparr> eid (rt_session r4) n now) p = Inr q"
    and rep: "replay_of r' = Inr (q\<lparr>pj_last := n\<rparr>)" by auto
  have "pj_terminal q \<and> pj_final q = trim answer"
    using ap by (auto simp: apply_kind_def final_completed_codec.decode_materialize)
  then show ?thesis using c5 rep answer by (auto simp: calm_def)
qed

lemma settled_inactive: "settled {} {} r \<Longrightarrow> replay_of r = Inr p \<Longrightarrow> ActiveCount p = 0"
  by (auto simp: settled_def ActiveCount_def filter_empty_conv)

section \<open>What the scheduler starts\<close>

lemma fold_launch:
  "\<exists>new. rt_tasks (fold (\<lambda>t. launch (task_key t) t) ts r) = rt_tasks r @ new \<and>
     (\<forall>t \<in> set new. t \<in> set ts \<and> task_key t \<notin> rt_launched r) \<and>
     rt_launched (fold (\<lambda>t. launch (task_key t) t) ts r) = rt_launched r \<union> task_key ` set ts \<and>
     rt_store (fold (\<lambda>t. launch (task_key t) t) ts r) = rt_store r"
proof (induction ts arbitrary: r)
  case (Cons t ts)
  obtain new where new: "rt_tasks (fold (\<lambda>t. launch (task_key t) t) ts (launch (task_key t) t r)) =
      rt_tasks (launch (task_key t) t r) @ new"
    "\<forall>x \<in> set new. x \<in> set ts \<and> task_key x \<notin> rt_launched (launch (task_key t) t r)"
    "rt_launched (fold (\<lambda>t. launch (task_key t) t) ts (launch (task_key t) t r)) =
      rt_launched (launch (task_key t) t r) \<union> task_key ` set ts"
    "rt_store (fold (\<lambda>t. launch (task_key t) t) ts (launch (task_key t) t r)) = rt_store (launch (task_key t) t r)"
    using Cons.IH [of "launch (task_key t) t r"] by blast
  show ?case
  proof (cases "task_key t \<in> rt_launched r")
    case True
    then have "launch (task_key t) t r = r" by (simp add: launch_def)
    then show ?thesis using new True by auto
  next
    case False
    then have l: "launch (task_key t) t r =
        r\<lparr>rt_launched := insert (task_key t) (rt_launched r), rt_tasks := rt_tasks r @ [t]\<rparr>"
      by (simp add: launch_def)
    show ?thesis
      using new False unfolding fold_simps l by (intro exI [of _ "t # new"]) auto
  qed
qed simp

lemma ready_delegation:
  assumes "projection_ok p" and "t \<in> set (ready_tasks p)" and "\<not> tk_peer t"
  shows "\<exists>d. map_of (pj_delegations p) (tk_id t) = Some d \<and> delegation_ready p d \<and> tk_attempt t = dg_attempt d + 1"
proof -
  obtain k d where d: "(k, d) \<in> set (pj_delegations p)" "delegation_ready p d" "tk_id t = ds_id (dg_spec d)"
    "tk_attempt t = dg_attempt d + 1"
    using assms(2,3) by (auto simp: ready_tasks_def SortedDelegations_set)
  then have "tk_id t = k" using assms(1) by (auto simp: projection_ok_def delegation_ok_def)
  then show ?thesis using d assms(1) by (auto simp: projection_ok_def)
qed

lemma ready_peer_turn:
  assumes "projection_ok p" and "t \<in> set (ready_tasks p)" and "tk_peer t"
  shows "\<exists>u. map_of (pj_peer_turns p) (tk_id t) = Some u \<and> peer_turn_ready u \<and> tk_attempt t = pu_attempt u + 1"
proof -
  obtain k u where u: "(k, u) \<in> set (pj_peer_turns p)" "peer_turn_ready u" "tk_id t = pts_id (pu_spec u)"
    "tk_attempt t = pu_attempt u + 1"
    using assms(2,3) by (auto simp: ready_tasks_def SortedPeerTurns_set)
  then have "tk_id t = k" using assms(1) by (auto simp: projection_ok_def peer_turn_ok_def)
  then show ?thesis using u assms(1) by (auto simp: projection_ok_def)
qed

section \<open>What recovery records\<close>

definition interrupted_now :: "delegation \<Rightarrow> delegation \<Rightarrow> bool" where
  "interrupted_now d d' \<longleftrightarrow> dg_spec d' = dg_spec d \<and>
     (if dg_status d = WorkRunning then dg_status d' = WorkFailed \<and> dg_interrupted d' \<and> dg_attempt d' = dg_attempt d
      else d' = d)"

definition interrupted_peer_now :: "peer_turn \<Rightarrow> peer_turn \<Rightarrow> bool" where
  "interrupted_peer_now u u' \<longleftrightarrow> pu_spec u' = pu_spec u \<and>
     (if pu_status u = WorkRunning then pu_status u' = WorkFailed \<and> pu_interrupted u' \<and> pu_attempt u' = pu_attempt u
      else u' = u)"

definition marked :: "('a \<Rightarrow> 'a \<Rightarrow> bool) \<Rightarrow> string set \<Rightarrow> (string, 'a) gomap \<Rightarrow> (string, 'a) gomap \<Rightarrow> bool" where
  "marked R left m m' \<longleftrightarrow>
     list_all2 (\<lambda>(k, x) (k', x'). k = k' \<and> (if k \<in> left then x' = x else R x x')) m m'"

lemma marked_step:
  assumes "marked R (insert i left) m m'" and "keys_distinct m" and "\<And>x. (i, x) \<in> set m \<Longrightarrow> R x (f x)"
    and "i \<notin> left"
  shows "marked R left m (AList.map_entry i f m')"
  using assms unfolding marked_def
proof (induction m m' rule: list_all2_induct)
  case (Cons e es e' es')
  have tail: "AList.map_entry i f es' = es'" if "i \<notin> fst ` set es"
  proof -
    have "map fst es' = map fst es" using Cons.hyps(2) by (induction rule: list_all2_induct) auto
    then have "i \<notin> set (map fst es')" using that by simp
    then show ?thesis by (induction es') auto
  qed
  have same: "list_all2 (\<lambda>(k, x) (k', x'). k = k' \<and> (if k \<in> left then x' = x else R x x')) es es'" if "i \<notin> fst ` set es"
    using Cons.hyps(2) that by (induction rule: list_all2_induct) auto
  obtain k x where e: "e = (k, x)" by (cases e)
  obtain k' y where e': "e' = (k', y)" by (cases e')
  have k': "k' = k" and eq: "k \<in> insert i left \<Longrightarrow> y = x" and rel: "k \<notin> insert i left \<Longrightarrow> R x y"
    using Cons.hyps(1) by (auto simp: e e' split: if_splits)
  show ?case
  proof (cases "k = i")
    case True
    have new: "i \<notin> fst ` set es" using Cons.prems(1) e True by simp
    have "R x (f x)" using Cons.prems(2) e True by simp
    then show ?thesis using True Cons.prems(3) tail [OF new] same [OF new] eq by (simp add: e e' k')
  next
    case False
    have "list_all2 (\<lambda>(k, x) (k', x'). k = k' \<and> (if k \<in> left then x' = x else R x x')) es (AList.map_entry i f es')"
      using Cons.IH Cons.prems e by simp
    moreover have "k = k' \<and> (if k \<in> left then y = x else R x y)" using eq rel k' False by auto
    ultimately show ?thesis using False unfolding e e' k' by simp
  qed
qed simp

lemma mark_delegations:
  assumes "act_each (\<lambda>d. record_event env DelegationFailed ''recovery'' (ds_id (dg_spec d))
       (Some (enc_delegation_failed_data \<lparr>df_delegation_id = ds_id (dg_spec d), df_attempt = dg_attempt d,
          df_error = msg\<rparr>))) ds r = (Inr (), r')"
    and "runtime_ok env prof r" and "\<not> rt_closed r" and "replay_of r = Inr q"
    and "marked interrupted_now ((\<lambda>d. ds_id (dg_spec d)) ` set ds) m (pj_delegations q)" and "keys_distinct m"
    and "distinct (map (\<lambda>d. ds_id (dg_spec d)) ds)"
    and "\<forall>d \<in> set ds. dg_status d = WorkRunning \<and> map_of m (ds_id (dg_spec d)) = Some d"
  shows "\<exists>q'. runtime_ok env prof r' \<and> \<not> rt_closed r' \<and> replay_of r' = Inr q' \<and>
    marked interrupted_now {} m (pj_delegations q') \<and> pj_peer_turns q' = pj_peer_turns q"
  using assms
proof (induction ds arbitrary: r q)
  case Nil
  then show ?case by (auto simp: act_return_def)
next
  case (Cons d ds)
  let ?i = "ds_id (dg_spec d)"
  let ?data = "\<lparr>df_delegation_id = ?i, df_attempt = dg_attempt d, df_error = msg\<rparr>"
  obtain x r1 where rec: "record_event env DelegationFailed ''recovery'' ?i (Some (enc_delegation_failed_data ?data)) r = (Inr x, r1)"
    and rest: "act_each (\<lambda>d. record_event env DelegationFailed ''recovery'' (ds_id (dg_spec d))
       (Some (enc_delegation_failed_data \<lparr>df_delegation_id = ds_id (dg_spec d), df_attempt = dg_attempt d,
          df_error = msg\<rparr>))) ds r1 = (Inr (), r')"
    using Cons.prems(1) by (auto dest!: ensures_step)
  show ?case
    using Cons.prems(2-4) readable_payload(5) [of "''recovery''" ?i "[]" ?data]
  proof (cases rule: record_event_cases)
    case spent
    then show ?thesis using rec by simp
  next
    case (written r2 q1 eid n now)
    have r2: "r2 = r1" using written(2) rec by simp
    define item where "item = materialize \<lparr>dr_kind = DelegationFailed, dr_actor = ''recovery'', dr_correlation = ?i,
      dr_causation = [], dr_data = Some (enc_delegation_failed_data ?data)\<rparr> eid (rt_session r) n now"
    have item: "ev_actor item = ''recovery''"
      and q1: "pj_delegations q1 = AList.map_entry ?i (fail_delegation item ?data) (pj_delegations q)"
        "pj_peer_turns q1 = pj_peer_turns q"
      using written(3) by (auto simp: item_def apply_kind_def delegation_failed_codec.decode_materialize)
    have here: "map_of m ?i = Some d" "dg_status d = WorkRunning" using Cons.prems(8) by auto
    have "interrupted_now x (fail_delegation item ?data x)" if "(?i, x) \<in> set m" for x
      using that here Cons.prems(6) item by (auto simp: interrupted_now_def fail_delegation_def)
    then have "marked interrupted_now ((\<lambda>d. ds_id (dg_spec d)) ` set ds) m (pj_delegations q1)"
      unfolding q1 using Cons.prems(5-7) by (intro marked_step) auto
    moreover have "runtime_ok env prof r1"
      using record_event_ok [OF Cons.prems(2) readable_payload(5) _ rec] by simp
    ultimately show ?thesis
      using Cons.IH [OF rest, of "q1\<lparr>pj_last := n\<rparr>"] Cons.prems(6-8) written(4,5) q1 r2 by simp
  qed
qed

lemma mark_peer_turns:
  assumes "act_each (\<lambda>u. record_event env PeerTurnFailed ''recovery'' (pts_id (pu_spec u))
       (Some (enc_peer_turn_failed_data \<lparr>pf_peer_turn_id = pts_id (pu_spec u), pf_attempt = pu_attempt u,
          pf_error = msg\<rparr>))) us r = (Inr (), r')"
    and "runtime_ok env prof r" and "\<not> rt_closed r" and "replay_of r = Inr q"
    and "marked interrupted_peer_now ((\<lambda>u. pts_id (pu_spec u)) ` set us) m (pj_peer_turns q)" and "keys_distinct m"
    and "distinct (map (\<lambda>u. pts_id (pu_spec u)) us)"
    and "\<forall>u \<in> set us. pu_status u = WorkRunning \<and> map_of m (pts_id (pu_spec u)) = Some u"
  shows "\<exists>q'. runtime_ok env prof r' \<and> replay_of r' = Inr q' \<and>
    marked interrupted_peer_now {} m (pj_peer_turns q') \<and> pj_delegations q' = pj_delegations q"
  using assms
proof (induction us arbitrary: r q)
  case Nil
  then show ?case by (auto simp: act_return_def)
next
  case (Cons u us)
  let ?i = "pts_id (pu_spec u)"
  let ?data = "\<lparr>pf_peer_turn_id = ?i, pf_attempt = pu_attempt u, pf_error = msg\<rparr>"
  obtain x r1 where rec: "record_event env PeerTurnFailed ''recovery'' ?i (Some (enc_peer_turn_failed_data ?data)) r = (Inr x, r1)"
    and rest: "act_each (\<lambda>u. record_event env PeerTurnFailed ''recovery'' (pts_id (pu_spec u))
       (Some (enc_peer_turn_failed_data \<lparr>pf_peer_turn_id = pts_id (pu_spec u), pf_attempt = pu_attempt u,
          pf_error = msg\<rparr>))) us r1 = (Inr (), r')"
    using Cons.prems(1) by (auto dest!: ensures_step)
  show ?case
    using Cons.prems(2-4) readable_payload(6) [of "''recovery''" ?i "[]" ?data]
  proof (cases rule: record_event_cases)
    case spent
    then show ?thesis using rec by simp
  next
    case (written r2 q1 eid n now)
    have r2: "r2 = r1" using written(2) rec by simp
    define item where "item = materialize \<lparr>dr_kind = PeerTurnFailed, dr_actor = ''recovery'', dr_correlation = ?i,
      dr_causation = [], dr_data = Some (enc_peer_turn_failed_data ?data)\<rparr> eid (rt_session r) n now"
    have item: "ev_actor item = ''recovery''"
      and q1: "pj_peer_turns q1 = AList.map_entry ?i (fail_peer_turn item ?data) (pj_peer_turns q)"
        "pj_delegations q1 = pj_delegations q"
      using written(3) by (auto simp: item_def apply_kind_def peer_turn_failed_codec.decode_materialize)
    have here: "map_of m ?i = Some u" "pu_status u = WorkRunning" using Cons.prems(8) by auto
    have "interrupted_peer_now x (fail_peer_turn item ?data x)" if "(?i, x) \<in> set m" for x
      using that here Cons.prems(6) item by (auto simp: interrupted_peer_now_def fail_peer_turn_def)
    then have "marked interrupted_peer_now ((\<lambda>u. pts_id (pu_spec u)) ` set us) m (pj_peer_turns q1)"
      unfolding q1 using Cons.prems(5-7) by (intro marked_step) auto
    moreover have "runtime_ok env prof r1"
      using record_event_ok [OF Cons.prems(2) readable_payload(6) _ rec] by simp
    ultimately show ?thesis
      using Cons.IH [OF rest, of "q1\<lparr>pj_last := n\<rparr>"] Cons.prems(6-8) written(4,5) q1 r2 by simp
  qed
qed

lemma marked_running:
  assumes "\<forall>(k, x) \<in> set m. (k \<notin> left \<longrightarrow> R x x)"
  shows "marked R left m m"
  using assms unfolding marked_def by (induction m) auto

lemma marked_work:
  assumes "marked interrupted_now {} m m'"
  shows "length (filter (\<lambda>d. counts_as_work (dg_status d) (dg_interrupted d)) (map snd m')) =
    length (filter (\<lambda>d. counts_as_work (dg_status d) (dg_interrupted d)) (map snd m))"
  using assms unfolding marked_def
  by (induction rule: list_all2_induct) (auto simp: interrupted_now_def counts_as_work_def split: if_splits)

lemma marked_peer_work:
  assumes "marked interrupted_peer_now {} m m'"
  shows "length (filter (\<lambda>u. counts_as_work (pu_status u) (pu_interrupted u)) (map snd m')) =
    length (filter (\<lambda>u. counts_as_work (pu_status u) (pu_interrupted u)) (map snd m))"
  using assms unfolding marked_def
  by (induction rule: list_all2_induct) (auto simp: interrupted_peer_now_def counts_as_work_def split: if_splits)

section \<open>Identities suffice\<close>

text \<open>How many identities an operation draws at most.\<close>

definition draws :: "nat \<Rightarrow> (runtime \<Rightarrow> runtime) \<Rightarrow> bool" where
  "draws n f \<longleftrightarrow> (\<forall>r. length (rt_ids r) \<le> length (rt_ids (f r)) + n)"

lemma append_draws: "draws 1 (\<lambda>r. snd (append_draft env live d r))"
  by (auto simp: draws_def append_draft_def Let_def split: list.splits sum.splits)

lemma append_draws_exactly:
  "append_draft env live d r = (Inr item, r1) \<Longrightarrow> length (rt_ids r) = Suc (length (rt_ids r1))"
  by (auto simp: append_draft_def Let_def split: if_splits list.splits sum.splits)

lemma record_event_draws: "draws 1 (\<lambda>r. snd (record_event env k a c j r))"
proof -
  have "snd (record_event env k a c j r) =
      snd (append_draft env True \<lparr>dr_kind = k, dr_actor = a, dr_correlation = c, dr_causation = [], dr_data = j\<rparr> r)" for r
    by (simp add: record_event_def act_bind_def act_return_def split: prod.splits sum.splits)
  then show ?thesis using append_draws by simp
qed

lemma read_same: "snd (read_projection live r) = r"
  by (simp add: read_projection_def split: sum.splits)

lemma bind_read: "act_bind (read_projection live) f r =
    (case fst (read_projection live r) of Inl e \<Rightarrow> (Inl e, r) | Inr p \<Rightarrow> f p r)"
proof -
  obtain v where "read_projection live r = (v, r)" using read_same [of live r] by (metis prod.collapse)
  then show ?thesis by (simp add: act_bind_def split: sum.splits)
qed

lemma record_cut_draws:
  "length (rt_ids r) \<le> length (rt_ids (snd (act_bind (record_event env k a c j) (\<lambda>_. act_update (cut_context i)) r))) + 1"
  using record_event_draws [of env k a c j]
  by (auto simp: draws_def act_bind_def act_update_def cut_context_def split: prod.splits sum.splits) (metis snd_conv)+

lemma cancel_draws: "draws 1 (\<lambda>r. snd (cancelDelegation env i reason r))" "draws 1 (\<lambda>r. snd (cancelWork env i reason r))"
proof -
  show one: "draws 1 (\<lambda>r. snd (cancelDelegation env i reason r))"
    unfolding draws_def cancelDelegation_def bind_read
    using record_cut_draws by (auto simp: act_fail_def act_return_def split: sum.splits option.splits)
  show "draws 1 (\<lambda>r. snd (cancelWork env i reason r))"
    unfolding draws_def cancelWork_def bind_read
    using record_cut_draws one [unfolded draws_def]
    by (auto simp: act_fail_def act_return_def split: sum.splits option.splits)
qed

lemma attempt_all_draws: "(\<And>x. draws 1 (\<lambda>r. snd (f x r))) \<Longrightarrow> draws (length xs) (attempt_all f xs)"
  unfolding draws_def attempt_all_def
proof (induction xs)
  case (Cons x xs)
  show ?case
  proof
    fix r
    have "length (rt_ids r) \<le> length (rt_ids (snd (f x r))) + 1" using Cons.prems by blast
    also have "length (rt_ids (snd (f x r))) \<le> length (rt_ids (foldl (\<lambda>s x. snd (f x s)) (snd (f x r)) xs)) + length xs"
      using Cons by blast
    finally show "length (rt_ids r) \<le> length (rt_ids (foldl (\<lambda>s x. snd (f x s)) r (x # xs))) + length (x # xs)"
      by simp
  qed
qed simp

lemma cancelActiveDelegations_draws:
  assumes "replay_of r = Inr p"
  shows "length (rt_ids r) \<le> length (rt_ids (cancelActiveDelegations env reason r)) + ActiveCount p"
proof -
  let ?ds = "filter (\<lambda>d. active_status (dg_status d)) (SortedDelegations p)"
  let ?us = "filter (\<lambda>u. active_status (pu_status u)) (SortedPeerTurns p)"
  let ?f = "\<lambda>d. cancelDelegation env (ds_id (dg_spec d)) reason"
  let ?g = "\<lambda>u. cancelWork env (pts_id (pu_spec u)) reason"
  have size: "length ?ds + length ?us = ActiveCount p"
    by (simp add: ActiveCount_def SortedDelegations_def SortedPeerTurns_def filter_sort)
  have "length (rt_ids r) \<le> length (rt_ids (attempt_all ?f ?ds r)) + length ?ds"
    using attempt_all_draws [of ?f ?ds] cancel_draws(1) unfolding draws_def by blast
  moreover have "length (rt_ids (attempt_all ?f ?ds r)) \<le> length (rt_ids (attempt_all ?g ?us (attempt_all ?f ?ds r))) + length ?us"
    using attempt_all_draws [of ?g ?us] cancel_draws(2) unfolding draws_def by blast
  ultimately show ?thesis
    using assms size
    by (auto simp: cancelActiveDelegations_def read_projection_def replay_of_def SortedDelegations_def SortedPeerTurns_def)
qed

lemma still_event_succeeds:
  assumes "calm env prof D U r" and k: "k \<in> {AgentTurnCompleted, FinalStarted, FinalTextDelta, FinalCompleted}"
    and d: "readable \<lparr>dr_kind = k, dr_actor = a, dr_correlation = c, dr_causation = [], dr_data = j\<rparr>"
    and n: "Suc n \<le> length (rt_ids r)"
  shows "\<exists>r1. record_event env k a c j r = (Inr (), r1) \<and> calm env prof D U r1 \<and> n \<le> length (rt_ids r1)"
proof -
  have "runtime_ok env prof r" "\<not> rt_closed r" "rt_ids r \<noteq> []" using assms(1) n by (auto simp: calm_def)
  then obtain item r1 where app: "append_draft env True
      \<lparr>dr_kind = k, dr_actor = a, dr_correlation = c, dr_causation = [], dr_data = j\<rparr> r = (Inr item, r1)"
    using append_total [OF _ d] by blast
  then have run: "record_event env k a c j r = (Inr (), r1)"
    by (simp add: record_event_def act_bind_def act_return_def)
  then show ?thesis
    using still_event [OF assms(1) k d run] append_draws_exactly [OF app] n by auto
qed

lemma completeAnswer_runs:
  assumes ok: "runtime_ok env prof r" and open_run: "\<not> rt_closed r" and p: "replay_of r = Inr p"
    and ids: "ActiveCount p + 4 \<le> length (rt_ids r)" and answer: "trim answer \<noteq> []"
  shows "\<exists>r'. completeAnswer env agentID turn answer r = (Inr (), r')"
proof -
  let ?r1 = "cancelActiveDelegations env ''current leader answered the user'' (r\<lparr>rt_finalizing := True\<rparr>)"
  have "runtime_ok env prof (r\<lparr>rt_finalizing := True\<rparr>)" using unrelated_step [OF unrelated_changes(4) ok] .
  then have c1: "calm env prof {} {} ?r1" using cancelActiveDelegations_calm open_run by simp
  have "replay_of (r\<lparr>rt_finalizing := True\<rparr>) = Inr p" using p by (simp add: replay_of_def)
  from cancelActiveDelegations_draws [OF this, of env "''current leader answered the user''"]
  have n: "Suc 3 \<le> length (rt_ids ?r1)" using ids by simp
  obtain r2 where r2: "record_event env AgentTurnCompleted agentID [] (Some (enc_agent_turn_data
         \<lparr>at_agent_id = agentID, at_turn = turn, at_signal_kinds = [],
          at_assessment = ''Answered the user directly.''\<rparr>)) ?r1 = (Inr (), r2)" "calm env prof {} {} r2" "Suc 2 \<le> length (rt_ids r2)"
    using still_event_succeeds [OF c1 _ _ n] by (fastforce simp: readable_plain)
  obtain r3 where r3: "record_event env FinalStarted agentID [] None r2 = (Inr (), r3)" "calm env prof {} {} r3" "Suc 1 \<le> length (rt_ids r3)"
    using still_event_succeeds [OF r2(2) _ _ r2(3)] by (fastforce simp: readable_plain)
  obtain r4 where r4: "record_event env FinalTextDelta agentID [] (Some (enc_text_delta_data
         \<lparr>td_delegation_id = [], td_text = trim answer\<rparr>)) r3 = (Inr (), r4)" "calm env prof {} {} r4" "Suc 0 \<le> length (rt_ids r4)"
    using still_event_succeeds [OF r3(2) _ _ r3(3)] by (fastforce simp: readable_plain)
  obtain r5 where "record_event env FinalCompleted agentID [] (Some (enc_final_completed_data \<lparr>fc_answer = trim answer\<rparr>)) r4 = (Inr (), r5)"
    using still_event_succeeds [OF r4(2) _ readable_payload(10) r4(3)] by blast
  then show ?thesis
    using r2(1) r3(1) r4(1) answer by (simp add: completeAnswer_def act_bind_def act_update_def)
qed

section \<open>Recovery and refusals\<close>

lemma marked_refl:
  assumes "keys_distinct m" and "\<And>k x. (k, x) \<in> set m \<Longrightarrow> k \<notin> left \<Longrightarrow> R x x"
  shows "marked R left m m"
  using assms(2) unfolding marked_def by (auto simp: list_all2_same)

lemma distinct_map_sort: "distinct (map f (sort_key g xs)) = distinct (map f xs)"
  by (rule mset_eq_imp_distinct_iff) simp

lemma SortedDelegations_ids:
  assumes "projection_ok p"
  shows "distinct (map (\<lambda>d. ds_id (dg_spec d)) (SortedDelegations p))"
proof -
  have "map (\<lambda>d. ds_id (dg_spec d)) (map snd (pj_delegations p)) = map fst (pj_delegations p)"
    using assms by (auto simp: projection_ok_def delegation_ok_def)
  moreover have "keys_distinct (pj_delegations p)" using assms by (simp add: projection_ok_def)
  ultimately show ?thesis unfolding SortedDelegations_def distinct_map_sort by (simp only:)
qed

lemma SortedPeerTurns_ids:
  assumes "projection_ok p"
  shows "distinct (map (\<lambda>u. pts_id (pu_spec u)) (SortedPeerTurns p))"
proof -
  have "map (\<lambda>u. pts_id (pu_spec u)) (map snd (pj_peer_turns p)) = map fst (pj_peer_turns p)"
    using assms by (auto simp: projection_ok_def peer_turn_ok_def)
  moreover have "keys_distinct (pj_peer_turns p)" using assms by (simp add: projection_ok_def)
  ultimately show ?thesis unfolding SortedPeerTurns_def distinct_map_sort by (simp only:)
qed

lemma marked_image: "marked R {} m m' \<Longrightarrow> (k, x') \<in> set m' \<Longrightarrow> \<exists>x. R x x'"
  unfolding marked_def by (induction rule: list_all2_induct) auto

lemma marked_lookup: "marked R {} m m' \<Longrightarrow> map_of m k = Some x \<Longrightarrow> \<exists>x'. map_of m' k = Some x' \<and> R x x'"
  unfolding marked_def by (induction rule: list_all2_induct) (auto split: if_splits)

lemma markInterrupted_effect:
  assumes ok: "runtime_ok env prof r" and open_run: "\<not> rt_closed r" and p: "replay_of r = Inr p"
    and run: "markInterruptedDelegations env r = (Inr (), r')"
  shows "\<exists>q. runtime_ok env prof r' \<and> replay_of r' = Inr q \<and>
    marked interrupted_now {} (pj_delegations p) (pj_delegations q) \<and>
    marked interrupted_peer_now {} (pj_peer_turns p) (pj_peer_turns q)"
proof -
  have pok: "projection_ok p" using p unfolding replay_of_def by (rule Replay_ok)
  have keys: "keys_distinct (pj_delegations p)" "keys_distinct (pj_peer_turns p)" using pok by (simp_all add: projection_ok_def)
  let ?ds = "filter (\<lambda>d. dg_status d = WorkRunning) (SortedDelegations p)"
  let ?us = "filter (\<lambda>u. pu_status u = WorkRunning) (SortedPeerTurns p)"
  have did: "ds_id (dg_spec d) = k" if "(k, d) \<in> set (pj_delegations p)" for k d
    using that pok by (auto simp: projection_ok_def delegation_ok_def)
  have uid: "pts_id (pu_spec u) = k" if "(k, u) \<in> set (pj_peer_turns p)" for k u
    using that pok by (auto simp: projection_ok_def peer_turn_ok_def)
  obtain r1 where run1: "act_each (\<lambda>d. record_event env DelegationFailed ''recovery'' (ds_id (dg_spec d))
       (Some (enc_delegation_failed_data \<lparr>df_delegation_id = ds_id (dg_spec d), df_attempt = dg_attempt d,
          df_error = ''execution interrupted before a durable terminal event''\<rparr>))) ?ds r = (Inr (), r1)"
    and run2: "act_each (\<lambda>u. record_event env PeerTurnFailed ''recovery'' (pts_id (pu_spec u))
       (Some (enc_peer_turn_failed_data \<lparr>pf_peer_turn_id = pts_id (pu_spec u), pf_attempt = pu_attempt u,
          pf_error = ''execution interrupted before a durable terminal event''\<rparr>))) ?us r1 = (Inr (), r')"
    using run p open_run unfolding markInterruptedDelegations_def bind_read
    by (auto simp: read_projection_def replay_of_def SortedDelegations_def SortedPeerTurns_def dest!: ensures_step)
  have dset: "(k, d) \<in> set (pj_delegations p) \<Longrightarrow> dg_status d = WorkRunning \<Longrightarrow> k \<in> (\<lambda>d. ds_id (dg_spec d)) ` set ?ds" for k d
    using did by (force simp: SortedDelegations_set image_iff)
  have uset: "(k, u) \<in> set (pj_peer_turns p) \<Longrightarrow> pu_status u = WorkRunning \<Longrightarrow> k \<in> (\<lambda>u. pts_id (pu_spec u)) ` set ?us" for k u
    using uid by (force simp: SortedPeerTurns_set image_iff)
  have m1: "marked interrupted_now ((\<lambda>d. ds_id (dg_spec d)) ` set ?ds) (pj_delegations p) (pj_delegations p)"
    by (rule marked_refl [OF keys(1)]) (use dset in \<open>auto simp: interrupted_now_def simp del: set_filter\<close>)
  have m2: "marked interrupted_peer_now ((\<lambda>u. pts_id (pu_spec u)) ` set ?us) (pj_peer_turns p) (pj_peer_turns p)"
    by (rule marked_refl [OF keys(2)]) (use uset in \<open>auto simp: interrupted_peer_now_def simp del: set_filter\<close>)
  have d1: "distinct (map (\<lambda>d. ds_id (dg_spec d)) ?ds)"
    by (rule distinct_map_filter) (rule SortedDelegations_ids [OF pok])
  have d2: "distinct (map (\<lambda>u. pts_id (pu_spec u)) ?us)"
    by (rule distinct_map_filter) (rule SortedPeerTurns_ids [OF pok])
  have f1: "\<forall>d \<in> set ?ds. dg_status d = WorkRunning \<and> map_of (pj_delegations p) (ds_id (dg_spec d)) = Some d"
    using did keys(1) by (force simp: SortedDelegations_set)
  have f2: "\<forall>u \<in> set ?us. pu_status u = WorkRunning \<and> map_of (pj_peer_turns p) (pts_id (pu_spec u)) = Some u"
    using uid keys(2) by (force simp: SortedPeerTurns_set)
  obtain q where q: "runtime_ok env prof r1" "\<not> rt_closed r1" "replay_of r1 = Inr q"
    "marked interrupted_now {} (pj_delegations p) (pj_delegations q)" "pj_peer_turns q = pj_peer_turns p"
    using mark_delegations [OF run1 ok open_run p m1 keys(1) d1 f1] by blast
  have m3: "marked interrupted_peer_now ((\<lambda>u. pts_id (pu_spec u)) ` set ?us) (pj_peer_turns p) (pj_peer_turns q)"
    using m2 unfolding q(5) .
  from mark_peer_turns [OF run2 q(1-3) m3 keys(2) d2 f2] q show ?thesis by auto
qed


text \<open>A refused decision leaves no trace but the identities it drew.\<close>

definition untouched :: "runtime \<Rightarrow> runtime \<Rightarrow> bool" where
  "untouched r r' \<longleftrightarrow> r' = r\<lparr>rt_ids := rt_ids r'\<rparr>"

definition refuses_cleanly :: "'a act \<Rightarrow> bool" where
  "refuses_cleanly m \<longleftrightarrow> (\<forall>r e r'. m r = (Inl (DecisionFault e), r') \<longrightarrow> untouched r r')"

definition silent :: "'a act \<Rightarrow> bool" where
  "silent m \<longleftrightarrow> (\<forall>r. untouched r (snd (m r)))"

definition never_refuses :: "'a act \<Rightarrow> bool" where
  "never_refuses m \<longleftrightarrow> (\<forall>r e. fst (m r) \<noteq> Inl (DecisionFault e))"

lemma untouched_trans: "untouched r s \<Longrightarrow> untouched s t \<Longrightarrow> untouched r t"
proof -
  assume h: "untouched r s" "untouched s t"
  have "t = s\<lparr>rt_ids := rt_ids t\<rparr>" using h(2) by (simp add: untouched_def)
  also have "s\<lparr>rt_ids := rt_ids t\<rparr> = r\<lparr>rt_ids := rt_ids s, rt_ids := rt_ids t\<rparr>"
    using h(1) unfolding untouched_def by metis
  finally show ?thesis by (simp add: untouched_def)
qed

lemma bind_cases:
  obtains (error) e r1 where "m r = (Inl e, r1)" "act_bind m f r = (Inl e, r1)"
  | (returns) x r1 where "m r = (Inr x, r1)" "act_bind m f r = f x r1"
proof -
  obtain v r1 where v: "m r = (v, r1)" by (cases "m r")
  show thesis
  proof (cases v)
    case (Inl e)
    then show thesis using v by (intro error) (simp_all add: act_bind_def)
  next
    case (Inr x)
    then show thesis using v by (intro returns) (simp_all add: act_bind_def)
  qed
qed

lemma silent_bind:
  assumes m: "silent m" and f: "\<And>x. refuses_cleanly (f x)"
  shows "refuses_cleanly (act_bind m f)"
  unfolding refuses_cleanly_def
proof (intro allI impI)
  fix r e r'
  assume run: "act_bind m f r = (Inl (DecisionFault e), r')"
  have first: "untouched r (snd (m r))" using m by (simp add: silent_def)
  show "untouched r r'"
  proof (cases rule: bind_cases [of m r f])
    case (error d r1)
    then show ?thesis using run first by simp
  next
    case (returns x r1)
    then have "untouched r1 r'" using run f unfolding refuses_cleanly_def by metis
    then show ?thesis using untouched_trans first returns(1) by simp
  qed
qed

lemma silent_act_bind:
  assumes m: "silent m" and f: "\<And>x. silent (f x)"
  shows "silent (act_bind m f)"
  unfolding silent_def
proof
  fix r
  have first: "untouched r (snd (m r))" using m by (simp add: silent_def)
  show "untouched r (snd (act_bind m f r))"
  proof (cases rule: bind_cases [of m r f])
    case (error d r1)
    then show ?thesis using first by simp
  next
    case (returns x r1)
    have "untouched r1 (snd (f x r1))" using f by (simp add: silent_def)
    then show ?thesis using untouched_trans first returns by simp
  qed
qed

lemma never_clean: "never_refuses m \<Longrightarrow> refuses_cleanly m"
  by (auto simp: never_refuses_def refuses_cleanly_def) (metis fst_conv)

lemma never_bind:
  assumes m: "never_refuses m" and f: "\<And>x. never_refuses (f x)"
  shows "never_refuses (act_bind m f)"
  unfolding never_refuses_def
proof (intro allI)
  fix r e
  show "fst (act_bind m f r) \<noteq> Inl (DecisionFault e)"
  proof (cases rule: bind_cases [of m r f])
    case (error d r1)
    have "fst (m r) \<noteq> Inl (DecisionFault e)" using m by (simp add: never_refuses_def)
    then show ?thesis using error by simp
  next
    case (returns x r1)
    then show ?thesis using f unfolding never_refuses_def by simp
  qed
qed

lemma never_each: "(\<And>x. never_refuses (f x)) \<Longrightarrow> never_refuses (act_each f xs)"
  by (induction xs) (auto simp: never_refuses_def [of "act_return ()"] act_return_def intro!: never_bind)

lemma never_basic:
  "never_refuses (append_draft env live d)" "never_refuses (read_projection live)"
  "never_refuses (act_return x)" "never_refuses (act_update f)" "never_refuses (act_fail (UnknownWorkFault i))"
  by (auto simp: never_refuses_def append_draft_def read_projection_def act_return_def act_update_def act_fail_def Let_def
      split: list.splits sum.splits)

lemma never_record: "never_refuses (record_event env k a c j)"
  unfolding record_event_def by (intro never_bind never_basic)

lemma never_cancel: "never_refuses (cancelDelegation env i reason)" "never_refuses (cancelWork env i reason)"
  unfolding cancelDelegation_def cancelWork_def
  by (auto intro!: never_bind never_basic never_record split: option.splits)

lemma never_recorded: "never_refuses (record_decision env state agent d specs us)"
  unfolding record_decision_def by (intro never_bind never_each never_cancel never_record)

lemma never_ended: "never_refuses (end_decision env agent d specs us)"
  unfolding end_decision_def hand_over_def scheduleReady_def
  by (auto intro!: never_bind never_basic split: option.splits)

lemma silent_basic:
  "silent (read_projection live)" "silent (act_lift f v)" "silent (act_return x)" "silent (act_fail e)"
  "silent (with_ids g)"
  by (auto simp: silent_def untouched_def read_projection_def act_lift_def act_return_def act_fail_def with_ids_def
      split: sum.splits prod.splits)

lemma silent_require: "silent (require_work d specs us)"
  unfolding require_work_def by (auto intro!: silent_act_bind silent_basic)

lemma applyDecision_refuses_cleanly: "refuses_cleanly (applyDecision env d)"
proof -
  have "refuses_cleanly (decide env p state agent d)" for p state agent
    unfolding decide_def
    by (intro silent_bind silent_basic silent_require never_clean never_bind never_recorded never_ended)
  moreover have "silent (act_fail (LeaderAbsent i))" for i by (rule silent_basic)
  ultimately have "refuses_cleanly (act_bind (read_projection True) (\<lambda>state.
      case Agent p (pj_leader state) of None \<Rightarrow> act_fail (LeaderAbsent (pj_leader state))
      | Some agent \<Rightarrow> decide env p state agent d))" for p
    by (intro silent_bind silent_basic) (auto split: option.splits simp: refuses_cleanly_def act_fail_def)
  then show ?thesis unfolding refuses_cleanly_def applyDecision_def by blast
qed

section \<open>Properties\<close>

definition newSessionRuntime ::
    "store \<Rightarrow> string \<Rightarrow> profile \<Rightarrow> string list \<Rightarrow> (nat \<Rightarrow> int) \<Rightarrow> runtime" where
  "newSessionRuntime st sid prof ids clock =
     \<lparr>rt_store = st, rt_session = sid, rt_profile = prof, rt_history = [], rt_active = {}, rt_cut = {},
      rt_launched = {}, rt_tasks = [], rt_signals = [], rt_loop = False, rt_stopped = False, rt_finalizing = False,
      rt_user_cancelled = False, rt_closed = False, rt_ids = ids, rt_clock = clock, rt_ticks = 0\<rparr>"

lemma newSessionRuntime_ok:
  assumes ok: "store_ok (en_platform env) st" and known: "sid \<in> ss_id ` set (st_sessions st)"
    and ids: "distinct ids" "set ids \<inter> ev_id ` set (st_events st) = {}"
    and p: "Replay sid (Events st sid 0) = Inr p" "team_work prof p" "set ids \<inter> claimed p = {}"
  shows "runtime_ok env prof (newSessionRuntime st sid prof ids clock)"
  using assms by (simp add: newSessionRuntime_def planned_def session_sound_def plan_fits_def)

definition sample_environment :: environment where
  "sample_environment = \<lparr>en_platform = sample_platform, en_json = (\<lambda>s. None), en_text = (\<lambda>e. ''failed'')\<rparr>"

text \<open>A session in the middle of a delegation.\<close>

definition sample_running_log :: "event list" where
  "sample_running_log =
     [sample_event 1 ''system'' LeadershipTransferred (enc_leadership_transferred_data
        \<lparr>lt_from_agent_id = [], lt_to_agent_id = ''lead'', lt_reason = ''start''\<rparr>),
      sample_event 2 ''lead'' DelegationCreated (enc_delegation_spec (sample_spec ''b'')),
      sample_event 3 ''reviewer'' DelegationStarted
        (enc_delegation_started_data \<lparr>dst_delegation_id = ''b'', dst_attempt = 1\<rparr>)]"

definition sample_running_store :: store where
  "sample_running_store = sample_store\<lparr>st_sessions := [(sample_row ''s'')\<lparr>ss_leader := ''lead''\<rparr>],
     st_events := sample_running_log,
     st_records := map (record_of sample_platform) sample_running_log\<rparr>"

definition sample_running_projection :: projection where
  "sample_running_projection = (new_projection ''s'')\<lparr>pj_last := 3, pj_leader := ''lead'', pj_delegations :=
     [(''b'', start_delegation 1 (new_delegation (sample_spec ''b'')
        (sample_event 2 ''lead'' DelegationCreated JNull)))]\<rparr>"

definition sample_runtime :: runtime where
  "sample_runtime = newSessionRuntime sample_running_store ''s'' sample_profile [''u'', ''v'', ''w'', ''x'', ''y'', ''z''] (\<lambda>n. 7)"

lemma sample_running_store_ok: "store_ok sample_platform sample_running_store"
  by (simp add: store_ok_def sample_running_store_def sample_store_def empty_store_def sample_row_def session_events_def
      artifacts_ok_def row_ok_def columns_of_def sample_running_log_def sample_event_def itoa_def digits_of.simps
      step_columns_def projection_columns_def decode_def leadership_transferred_codec.dec_enc)

lemma sample_running_events: "Events sample_running_store ''s'' 0 = sample_running_log"
  using Events_ok [OF sample_running_store_ok, of 0 "''s''"]
  by (simp add: session_events_def sample_running_store_def sample_running_log_def sample_event_def)

lemma sample_running_replay: "Replay ''s'' sample_running_log = Inr sample_running_projection"
  by (simp add: Replay_def sample_running_log_def sample_running_projection_def Apply_def apply_kind_def
      sample_event_def new_projection_def decode_def delegation_spec_codec.dec_enc delegation_started_codec.dec_enc
      leadership_transferred_codec.dec_enc
      new_delegation_def start_delegation_def sample_spec_def ContextReferenceForEvent_def)

lemma sample_runtime_replay: "replay_of sample_runtime = Inr sample_running_projection"
  using sample_running_events sample_running_replay by (simp add: replay_of_def sample_runtime_def newSessionRuntime_def)

lemma sample_runtime_ok: "runtime_ok sample_environment sample_profile sample_runtime"
  unfolding sample_runtime_def
proof (rule newSessionRuntime_ok)
  show "store_ok (en_platform sample_environment) sample_running_store"
    using sample_running_store_ok by (simp add: sample_environment_def)
  show "Replay ''s'' (Events sample_running_store ''s'' 0) = Inr sample_running_projection"
    using sample_running_events sample_running_replay by simp
  show "team_work sample_profile sample_running_projection"
    by (simp add: team_work_def known_specs_def peer_specs_def sample_running_projection_def new_projection_def
        start_delegation_def new_delegation_def sample_spec_def delegation_allowed_def dependencies_below_def
        sample_profile_def Agent_def Agents_def SpecialistFor_def Specialist_def)
  show "set [''u'', ''v'', ''w'', ''x'', ''y'', ''z''] \<inter> claimed sample_running_projection = {}"
    by (simp add: claimed_def known_specs_def peer_specs_def sample_running_projection_def new_projection_def)
  show "set [''u'', ''v'', ''w'', ''x'', ''y'', ''z''] \<inter> ev_id ` set (st_events sample_running_store) = {}"
    by (simp add: sample_running_store_def sample_running_log_def sample_event_def)
qed (simp_all add: sample_running_store_def sample_store_def sample_row_def empty_store_def)

text \<open>
  a new session starts sound. The runtime of a session that was just created on a
  well-formed store, with fresh identities, can replay its log, and every later step keeps
  it so.
\<close>

theorem new_session_sound:
  assumes ok: "store_ok (en_platform env) st"
    and created: "createSession (en_platform env) sid now eids doc payload workspace conversationID title st = Inr (row, st')"
    and ids: "distinct ids" "set ids \<inter> ev_id ` set (st_events st') = {}"
    and steps: "runs env (newSessionRuntime st' sid prof ids clock) r"
  shows "store_ok (en_platform env) (rt_store r) \<and>
    (\<exists>p. Replay (rt_session r) (Events (rt_store r) (rt_session r) 0) = Inr p \<and> team_work prof p)"
proof -
  note facts = createSession_ok [OF ok created]
  have ev: "Events st' sid 0 = session_events st' sid" using Events_ok [OF facts(1), of 0] by simp
  have "\<exists>p. Replay sid (Events st' sid 0) = Inr p \<and> pj_delegations p = [] \<and> pj_peer_turns p = [] \<and> pj_leader p = []"
    unfolding ev facts(2) initial_items
    by (simp add: Replay_def Apply_def apply_kind_def new_projection_def initial_drafts_def
        session_created_codec.decode_materialize)
  then obtain p where p: "Replay sid (Events st' sid 0) = Inr p"
    and empty: "pj_delegations p = []" "pj_peer_turns p = []" "pj_leader p = []" by blast
  have "sid \<in> ss_id ` set (st_sessions st')"
    by (rule createSession_Inr [OF created]) (simp add: facts(4) new_row_def)
  then have "runtime_ok env prof (newSessionRuntime st' sid prof ids clock)"
    by (rule newSessionRuntime_ok [OF facts(1) _ ids p])
      (simp_all add: team_work_def known_specs_def peer_specs_def claimed_def empty)
  from runs_keeps [OF steps this] show ?thesis by (auto simp: planned_def session_sound_def plan_fits_def)
qed

theorem new_session_sound_witness:
  "\<exists>row st'. sample_turn = Inr (row, st') \<and>
     (\<exists>p. Replay ''s'' (Events st' ''s'' 0) = Inr p \<and> team_work sample_profile p)"
proof -
  obtain row st' where turn: "sample_turn = Inr (row, st')" using sample_turn_created by auto
  have "\<exists>p. Replay ''s'' (Events st' ''s'' 0) = Inr p \<and> team_work sample_profile p"
    using new_session_sound [where env = sample_environment and ids = "[]" and clock = "\<lambda>n. 0" and prof = sample_profile,
        OF _ _ _ _ rtranclp.rtrancl_refl] sample_base_ok turn [unfolded sample_turn_def CreateSessionInput_def]
    by (simp add: sample_environment_def newSessionRuntime_def)
  with turn show ?thesis by blast
qed

text \<open>
  C1: a session run stays sound. From a sound state, whatever the leader decides or answers,
  whatever the goroutines do and return, in whatever order, and whatever other events the
  user and the tools add: the log replays; every delegation and consultation in it was
  called by a team member that may call it; dependencies name known work of smaller depth;
  the leader is a team member; and every attempt at a piece of work was started at most once.
\<close>

theorem session_stays_sound:
  assumes "runtime_ok env prof r" and "runs env r r'"
  shows "store_ok (en_platform env) (rt_store r') \<and> distinct (map task_key (rt_tasks r')) \<and>
    (\<exists>p. Replay (rt_session r') (Events (rt_store r') (rt_session r') 0) = Inr p \<and> team_work prof p)"
  using runs_keeps [OF assms(2,1)] by (auto simp: planned_def session_sound_def plan_fits_def)

theorem session_stays_sound_witness:
  "\<exists>p. replay_of (snd (onActiveAgentEvents sample_environment (Some (Answer ''yes'')) sample_runtime)) = Inr p \<and>
     team_work sample_profile p"
proof -
  have "runs sample_environment sample_runtime
      (snd (onActiveAgentEvents sample_environment (Some (Answer ''yes'')) sample_runtime))"
    by (rule r_into_rtranclp) (rule runtime_step.ends)
  from session_stays_sound [OF sample_runtime_ok this] show ?thesis by (simp add: replay_of_def)
qed

text \<open>What the scheduler's guards say of a status, and of the work a piece of work waits for.\<close>

lemma delegation_ready_iff:
  "delegation_ready p d \<longleftrightarrow> (dg_status d = WorkPending \<or> dg_status d = WorkFailed \<and> dg_interrupted d) \<and>
     (\<forall>i \<in> set (ds_depends_on (dg_spec d)). \<exists>d'. map_of (pj_delegations p) i = Some d' \<and> dg_status d' = WorkCompleted)"
  by (cases "dg_status d") (auto simp: delegation_ready_def DependenciesCompleted_def split: option.splits)

lemma peer_turn_ready_iff: "peer_turn_ready u \<longleftrightarrow> pu_status u = WorkPending \<or> pu_status u = WorkFailed \<and> pu_interrupted u"
  by (cases "pu_status u") (auto simp: peer_turn_ready_def)

text \<open>Whatever is ready has its key among those of the ready work.\<close>

lemma ready_keys:
  assumes "projection_ok p"
  shows "map_of (pj_delegations p) i = Some d \<Longrightarrow> delegation_ready p d \<Longrightarrow>
      i @ '':'' @ itoa (dg_attempt d + 1) \<in> task_key ` set (ready_tasks p)"
    and "map_of (pj_peer_turns p) i = Some u \<Longrightarrow> peer_turn_ready u \<Longrightarrow>
      ''peer:'' @ i @ '':'' @ itoa (pu_attempt u + 1) \<in> task_key ` set (ready_tasks p)"
proof -
  assume d: "map_of (pj_delegations p) i = Some d" "delegation_ready p d"
  let ?t = "\<lparr>tk_peer = False, tk_id = i, tk_attempt = dg_attempt d + 1, tk_phase = Queued\<rparr>"
  have "ds_id (dg_spec d) = i" using assms map_of_SomeD [OF d(1)] by (auto simp: projection_ok_def delegation_ok_def)
  then have "?t \<in> set (ready_tasks p)"
    using map_of_SomeD [OF d(1)] d(2) by (auto simp: ready_tasks_def SortedDelegations_set intro!: image_eqI [of _ _ d] rev_image_eqI [of "(i, d)" _ _ snd])
  then show "i @ '':'' @ itoa (dg_attempt d + 1) \<in> task_key ` set (ready_tasks p)"
    by (rule rev_image_eqI) (simp add: task_key_def)
next
  assume u: "map_of (pj_peer_turns p) i = Some u" "peer_turn_ready u"
  let ?t = "\<lparr>tk_peer = True, tk_id = i, tk_attempt = pu_attempt u + 1, tk_phase = Queued\<rparr>"
  have "pts_id (pu_spec u) = i" using assms map_of_SomeD [OF u(1)] by (auto simp: projection_ok_def peer_turn_ok_def)
  then have "?t \<in> set (ready_tasks p)"
    using map_of_SomeD [OF u(1)] u(2) by (auto simp: ready_tasks_def SortedPeerTurns_set intro!: image_eqI [of _ _ u] rev_image_eqI [of "(i, u)" _ _ snd])
  then show "''peer:'' @ i @ '':'' @ itoa (pu_attempt u + 1) \<in> task_key ` set (ready_tasks p)"
    by (rule rev_image_eqI) (simp add: task_key_def)
qed

text \<open>
  C9: what the scheduler starts. In a sound session that is not shut down, \<open>scheduleReady\<close>
  writes nothing and starts only attempts it never started before, each numbered after the
  last recorded one. A delegation it starts is pending, or failed because it was interrupted,
  and everything it depends on is recorded as completed; a consultation it starts is pending,
  or failed because it was interrupted. So work that is running, completed, cancelled or
  that failed by itself is not started again. Afterwards every delegation and consultation
  that may be started has been, under the key of its next attempt.
\<close>

theorem scheduleReady_contract:
  assumes ok: "runtime_ok env prof r" and "\<not> rt_closed r" and p: "replay_of r = Inr p"
    and run: "scheduleReady r = (v, r')"
  shows "v = Inr () \<and> rt_store r' = rt_store r \<and>
    (\<exists>new. rt_tasks r' = rt_tasks r @ new \<and>
      (\<forall>t \<in> set new. task_key t \<notin> task_key ` set (rt_tasks r) \<and>
        (if tk_peer t
         then \<exists>u. map_of (pj_peer_turns p) (tk_id t) = Some u \<and> tk_attempt t = pu_attempt u + 1 \<and>
           (pu_status u = WorkPending \<or> pu_status u = WorkFailed \<and> pu_interrupted u)
         else \<exists>d. map_of (pj_delegations p) (tk_id t) = Some d \<and> tk_attempt t = dg_attempt d + 1 \<and>
           (dg_status d = WorkPending \<or> dg_status d = WorkFailed \<and> dg_interrupted d) \<and>
           (\<forall>i \<in> set (ds_depends_on (dg_spec d)).
              \<exists>d'. map_of (pj_delegations p) i = Some d' \<and> dg_status d' = WorkCompleted)))) \<and>
    (\<forall>i d. map_of (pj_delegations p) i = Some d \<and>
        (dg_status d = WorkPending \<or> dg_status d = WorkFailed \<and> dg_interrupted d) \<and>
        (\<forall>j \<in> set (ds_depends_on (dg_spec d)). \<exists>d'. map_of (pj_delegations p) j = Some d' \<and> dg_status d' = WorkCompleted) \<longrightarrow>
      i @ '':'' @ itoa (dg_attempt d + 1) \<in> task_key ` set (rt_tasks r')) \<and>
    (\<forall>i u. map_of (pj_peer_turns p) i = Some u \<and>
        (pu_status u = WorkPending \<or> pu_status u = WorkFailed \<and> pu_interrupted u) \<longrightarrow>
      ''peer:'' @ i @ '':'' @ itoa (pu_attempt u + 1) \<in> task_key ` set (rt_tasks r'))"
proof -
  have pok: "projection_ok p" using p unfolding replay_of_def by (rule Replay_ok)
  have "delegation_ready (p\<lparr>pj_history := h\<rparr>) = delegation_ready p" for h
    by (simp add: fun_eq_iff delegation_ready_def DependenciesCompleted_def)
  then have same: "ready_tasks (p\<lparr>pj_history := h\<rparr>) = ready_tasks p" for h
    by (simp add: ready_tasks_def SortedDelegations_def SortedPeerTurns_def)
  have r': "r' = fold (\<lambda>t. launch (task_key t) t) (ready_tasks p) r" and v: "v = Inr ()"
    using run p assms(2) by (simp_all add: scheduleReady_def act_bind_def act_update_def read_projection_def replay_of_def same)
  obtain new where new: "rt_tasks r' = rt_tasks r @ new" "\<forall>t \<in> set new. t \<in> set (ready_tasks p) \<and> task_key t \<notin> rt_launched r"
    "rt_launched r' = rt_launched r \<union> task_key ` set (ready_tasks p)" "rt_store r' = rt_store r"
    using fold_launch [of "ready_tasks p" r] unfolding r' by blast
  have keys: "task_key ` set (rt_tasks r) = rt_launched r" "task_key ` set (rt_tasks r') = rt_launched r'"
    using ok ensures_after [OF scheduleReady_keeps ok] run by (auto simp: planned_def session_sound_def)
  note d = ready_delegation [OF pok, unfolded delegation_ready_iff] and u = ready_peer_turn [OF pok, unfolded peer_turn_ready_iff]
  show ?thesis
  proof (intro conjI exI [of _ new] ballI allI impI)
    fix t assume "t \<in> set new"
    with new(2) keys show "task_key t \<notin> task_key ` set (rt_tasks r)" by blast
    show "if tk_peer t
         then \<exists>u. map_of (pj_peer_turns p) (tk_id t) = Some u \<and> tk_attempt t = pu_attempt u + 1 \<and>
           (pu_status u = WorkPending \<or> pu_status u = WorkFailed \<and> pu_interrupted u)
         else \<exists>d. map_of (pj_delegations p) (tk_id t) = Some d \<and> tk_attempt t = dg_attempt d + 1 \<and>
           (dg_status d = WorkPending \<or> dg_status d = WorkFailed \<and> dg_interrupted d) \<and>
           (\<forall>i \<in> set (ds_depends_on (dg_spec d)).
              \<exists>d'. map_of (pj_delegations p) i = Some d' \<and> dg_status d' = WorkCompleted)"
      using new(2) \<open>t \<in> set new\<close> d [of t] u [of t] by (simp split: if_splits) blast
  next
    fix i d
    assume "map_of (pj_delegations p) i = Some d \<and>
        (dg_status d = WorkPending \<or> dg_status d = WorkFailed \<and> dg_interrupted d) \<and>
        (\<forall>j \<in> set (ds_depends_on (dg_spec d)). \<exists>d'. map_of (pj_delegations p) j = Some d' \<and> dg_status d' = WorkCompleted)"
    then have "map_of (pj_delegations p) i = Some d" "delegation_ready p d" by (simp_all add: delegation_ready_iff)
    from ready_keys(1) [OF pok this] new(3) keys show "i @ '':'' @ itoa (dg_attempt d + 1) \<in> task_key ` set (rt_tasks r')" by blast
  next
    fix i u
    assume "map_of (pj_peer_turns p) i = Some u \<and> (pu_status u = WorkPending \<or> pu_status u = WorkFailed \<and> pu_interrupted u)"
    then have "map_of (pj_peer_turns p) i = Some u" "peer_turn_ready u" by (simp_all add: peer_turn_ready_iff)
    from ready_keys(2) [OF pok this] new(3) keys
    show "''peer:'' @ i @ '':'' @ itoa (pu_attempt u + 1) \<in> task_key ` set (rt_tasks r')" by blast
  qed (use new v in simp_all)
qed

theorem scheduleReady_contract_witness:
  "fst (scheduleReady sample_runtime) = Inr () \<and> rt_tasks (snd (scheduleReady sample_runtime)) = rt_tasks sample_runtime"
proof -
  obtain v r' where run: "scheduleReady sample_runtime = (v, r')" by fastforce
  have "\<not> rt_closed sample_runtime" by (simp add: sample_runtime_def newSessionRuntime_def)
  note contract = scheduleReady_contract [OF sample_runtime_ok this sample_runtime_replay run]
  have rows: "pj_peer_turns sample_running_projection = []" "map_of (pj_delegations sample_running_projection) i = Some d \<Longrightarrow>
      dg_status d = WorkRunning" for i d
    by (auto simp: sample_running_projection_def new_projection_def start_delegation_def split: if_splits)
  obtain new where new: "rt_tasks r' = rt_tasks sample_runtime @ new" "\<forall>t \<in> set new. if tk_peer t
         then \<exists>u. map_of (pj_peer_turns sample_running_projection) (tk_id t) = Some u
         else \<exists>d. map_of (pj_delegations sample_running_projection) (tk_id t) = Some d \<and>
           (dg_status d = WorkPending \<or> dg_status d = WorkFailed \<and> dg_interrupted d)"
    using contract by (elim conjE exE) metis
  have "t \<notin> set new" for t using new(2) rows by (auto dest!: bspec [of _ _ t] split: if_splits)
  then have "new = []" by (meson list.set_sel(1))
  then show ?thesis using run contract new(1) by simp
qed

text \<open>
  C6: an answer ends the turn for good. When \<open>completeAnswer\<close> succeeds in a sound session,
  the log it leaves replays to a terminal state whose final answer is the trimmed text; no
  delegation and no consultation is pending or running; and the session's row in the
  store no longer says running.
\<close>

theorem completeAnswer_contract:
  assumes ok: "runtime_ok env prof r" and "\<not> rt_closed r"
    and run: "completeAnswer env agentID turn answer r = (Inr (), r')"
  shows "\<exists>p. replay_of r' = Inr p \<and> pj_terminal p \<and> pj_final p = trim answer \<and> trim answer \<noteq> [] \<and> ActiveCount p = 0 \<and>
    (\<forall>s. session_row (rt_store r') (rt_session r') = Some s \<longrightarrow> ss_status s \<noteq> StatusRunning)"
proof -
  note effect = completeAnswer_effect [OF assms]
  then obtain p where p: "replay_of r' = Inr p" "pj_terminal p" "pj_final p = trim answer" by blast
  have "store_ok (en_platform env) (rt_store r')" using effect by (simp add: planned_def session_sound_def)
  from row_status_terminal [OF this _ p(1) [unfolded replay_of_def]] p(2)
  have "\<forall>s. session_row (rt_store r') (rt_session r') = Some s \<longrightarrow> ss_status s \<noteq> StatusRunning" by blast
  then show ?thesis using p effect settled_inactive [OF _ p(1)] by blast
qed

lemma sample_open: "\<not> rt_closed sample_runtime"
  by (simp add: sample_runtime_def newSessionRuntime_def)

lemma sample_answer_runs: "\<exists>r'. completeAnswer sample_environment ''lead'' 1 ''done'' sample_runtime = (Inr (), r')"
  by (rule completeAnswer_runs [OF sample_runtime_ok sample_open sample_runtime_replay])
    (simp_all add: ActiveCount_def sample_running_projection_def new_projection_def start_delegation_def
      new_delegation_def active_status_def sample_runtime_def newSessionRuntime_def trim_plain plain_byte_def less_char_def)

theorem completeAnswer_contract_witness:
  "\<exists>r' p. completeAnswer sample_environment ''lead'' 1 ''done'' sample_runtime = (Inr (), r') \<and>
     replay_of r' = Inr p \<and> pj_terminal p \<and> ActiveCount p = 0"
proof -
  obtain r' where run: "completeAnswer sample_environment ''lead'' 1 ''done'' sample_runtime = (Inr (), r')"
    using sample_answer_runs by blast
  from completeAnswer_contract [OF sample_runtime_ok sample_open run] run show ?thesis by blast
qed

text \<open>
  C39: an answer is never lost for want of anything but identities. In a sound session that
  is not shut down, a non-blank answer is always recorded when the supply still holds one
  identity for every active piece of work and four for the answer's own events.
\<close>

theorem completeAnswer_succeeds:
  assumes "runtime_ok env prof r" and "\<not> rt_closed r" and "replay_of r = Inr p"
    and "ActiveCount p + 4 \<le> length (rt_ids r)" and "trim answer \<noteq> []"
  shows "\<exists>r'. completeAnswer env agentID turn answer r = (Inr (), r')"
  using assms by (rule completeAnswer_runs)

theorem completeAnswer_succeeds_witness:
  "\<exists>r'. completeAnswer sample_environment ''lead'' 1 ''done'' sample_runtime = (Inr (), r')"
  by (rule completeAnswer_succeeds [OF sample_runtime_ok sample_open sample_runtime_replay])
    (simp_all add: ActiveCount_def sample_running_projection_def new_projection_def start_delegation_def
      new_delegation_def active_status_def sample_runtime_def newSessionRuntime_def trim_plain plain_byte_def less_char_def)

text \<open>
  C18: recovery loses no work. When \<open>markInterruptedDelegations\<close> succeeds on a sound session,
  no piece of work is recorded as running any more; each that was running is now failed and
  marked interrupted, under the same specification and attempt, so that the scheduler will
  start it again; everything else is as before, and the amount of outstanding work the
  leader is told of is unchanged.
\<close>

theorem recovery_contract:
  assumes "runtime_ok env prof r" and "\<not> rt_closed r" and p: "replay_of r = Inr p"
    and "markInterruptedDelegations env r = (Inr (), r')"
  shows "\<exists>q. replay_of r' = Inr q \<and> WorkCount q = WorkCount p \<and>
    (\<forall>d \<in> set (SortedDelegations q). dg_status d \<noteq> WorkRunning) \<and>
    (\<forall>u \<in> set (SortedPeerTurns q). pu_status u \<noteq> WorkRunning) \<and>
    (\<forall>k d. map_of (pj_delegations p) k = Some d \<longrightarrow>
      (\<exists>d'. map_of (pj_delegations q) k = Some d' \<and> interrupted_now d d')) \<and>
    (\<forall>k u. map_of (pj_peer_turns p) k = Some u \<longrightarrow>
      (\<exists>u'. map_of (pj_peer_turns q) k = Some u' \<and> interrupted_peer_now u u'))"
proof -
  obtain q where q: "replay_of r' = Inr q"
    and md: "marked interrupted_now {} (pj_delegations p) (pj_delegations q)"
    and mu: "marked interrupted_peer_now {} (pj_peer_turns p) (pj_peer_turns q)"
    using markInterrupted_effect [OF assms] by blast
  have "WorkCount q = WorkCount p" using marked_work [OF md] marked_peer_work [OF mu] by (simp add: WorkCount_def)
  moreover have "\<forall>d \<in> set (SortedDelegations q). dg_status d \<noteq> WorkRunning"
    using marked_image [OF md] by (force simp: SortedDelegations_set interrupted_now_def split: if_splits)
  moreover have "\<forall>u \<in> set (SortedPeerTurns q). pu_status u \<noteq> WorkRunning"
    using marked_image [OF mu] by (force simp: SortedPeerTurns_set interrupted_peer_now_def split: if_splits)
  ultimately show ?thesis using q marked_lookup [OF md] marked_lookup [OF mu] by blast
qed

theorem recovery_contract_witness:
  "\<exists>r' q. markInterruptedDelegations sample_environment sample_runtime = (Inr (), r') \<and>
     replay_of r' = Inr q \<and> WorkCount q = WorkCount sample_running_projection \<and> WorkCount q = 1"
proof -
  let ?d = "start_delegation 1 (new_delegation (sample_spec ''b'') (sample_event 2 ''lead'' DelegationCreated JNull))"
  let ?data = "\<lparr>df_delegation_id = ''b'', df_attempt = 1,
     df_error = ''execution interrupted before a durable terminal event''\<rparr>"
  let ?rec = "record_event sample_environment DelegationFailed ''recovery'' ''b'' (Some (enc_delegation_failed_data ?data))"
  obtain r' where r': "?rec sample_runtime = (Inr (), r')"
    using sample_runtime_ok sample_open sample_runtime_replay readable_payload(5) [of "''recovery''" "''b''" "[]" ?data]
  proof (cases rule: record_event_cases)
    case spent
    then show thesis by (simp add: sample_runtime_def newSessionRuntime_def)
  next
    case (written r1 q eid n now)
    then show thesis using that by simp
  qed
  have running: "filter (\<lambda>d. dg_status d = WorkRunning) (SortedDelegations (sample_running_projection\<lparr>pj_history := h\<rparr>)) = [?d]"
    "filter (\<lambda>u. pu_status u = WorkRunning) (SortedPeerTurns (sample_running_projection\<lparr>pj_history := h\<rparr>)) = []" for h
    by (simp_all add: SortedDelegations_def SortedPeerTurns_def sample_running_projection_def new_projection_def
        start_delegation_def)
  have fields: "ds_id (dg_spec ?d) = ''b''" "dg_attempt ?d = 1"
    by (simp_all add: start_delegation_def new_delegation_def sample_spec_def)
  have run: "markInterruptedDelegations sample_environment sample_runtime = (Inr (), r')"
    unfolding markInterruptedDelegations_def bind_read
    using sample_runtime_replay sample_open r'
    by (simp add: read_projection_def replay_of_def running fields act_bind_def act_return_def)
  from recovery_contract [OF sample_runtime_ok sample_open sample_runtime_replay run] run
  show ?thesis
    by (auto simp: WorkCount_def sample_running_projection_def new_projection_def start_delegation_def counts_as_work_def)
qed

text \<open>
  C38: a refused decision changes nothing. When \<open>applyDecision\<close> refuses a decision (unknown
  or forbidden members, unknown or cancelled dependencies, busy collaborations, missing
  fields, an empty decision with no work outstanding), the log, the scheduled work and the
  pending signals are exactly what they were; only identities may have been drawn.
\<close>

theorem applyDecision_refusal:
  assumes "applyDecision env d r = (Inl (DecisionFault e), r')"
  shows "r' = r\<lparr>rt_ids := rt_ids r'\<rparr>"
  using applyDecision_refuses_cleanly assms unfolding refuses_cleanly_def untouched_def by blast

theorem applyDecision_refusal_witness:
  "snd (applyDecision sample_environment
     \<lparr>de_kind = ''coordinate'', de_assessment = ''stop'', de_delegations = [], de_peer_turns = [],
      de_cancel = [''nope''], de_handoff = None, de_observed = 1\<rparr> sample_runtime) = sample_runtime"
proof -
  let ?d = "\<lparr>de_kind = ''coordinate'', de_assessment = ''stop'', de_delegations = [], de_peer_turns = [],
      de_cancel = [''nope''], de_handoff = None, de_observed = 1\<rparr>"
  have read: "fst (read_projection True sample_runtime) = Inr (sample_running_projection\<lparr>pj_history := []\<rparr>)"
    using sample_runtime_replay sample_open
    by (simp add: read_projection_def replay_of_def) (simp add: sample_runtime_def newSessionRuntime_def)
  have unknown: "check_decision sample_profile (sample_running_projection\<lparr>pj_history := []\<rparr>) a ?d = Inl (UnknownWork ''nope'')" for a
    by (simp add: check_decision_def uniqueStrings_def trim_plain plain_byte_def less_char_def
        sample_running_projection_def new_projection_def)
  have leader: "Agent sample_profile (pj_leader sample_running_projection) = Some (p_primary sample_profile)"
    by (simp add: sample_running_projection_def new_projection_def Agent_def Agents_def sample_profile_def)
  have team: "rt_profile sample_runtime = sample_profile" by (simp add: sample_runtime_def newSessionRuntime_def)
  have run: "applyDecision sample_environment ?d sample_runtime = (Inl (DecisionFault (UnknownWork ''nope'')), sample_runtime)"
    using read leader unknown
    by (simp add: applyDecision_def bind_read decide_def team) (simp add: act_bind_def act_lift_def)
  from applyDecision_refusal [OF run] run show ?thesis by simp
qed

end
