(* ===== verification/Isolation.thy ===== *)
theory Isolation
  imports Steps
begin

text \<open>
  What the operations of one session can reach at all. The locale \<open>session_effect\<close> is the
  interface between the runtime and the log: a relation that holds of every append of the
  session's own, of drawing identities, and of changes to the runtime's private fields.
  Whatever such a relation is, every operation and every step satisfies it. Interpreted on
  "only the own log grows", it gives that sessions sharing a store do not disturb each other.
\<close>

section \<open>Operations as compositions of appends\<close>

text \<open>A change of the fields no other session can see.\<close>

definition unseen :: "(runtime \<Rightarrow> runtime) \<Rightarrow> bool" where
  "unseen f \<longleftrightarrow> (\<forall>r. rt_store (f r) = rt_store r \<and> rt_session (f r) = rt_session r \<and>
     rt_profile (f r) = rt_profile r \<and> rt_ids (f r) = rt_ids r \<and> rt_clock (f r) = rt_clock r)"

lemma unseen_changes [intro]:
  "unseen (pushSignal k e w)" "unseen (cut_context i)" "unseen (leave i)"
  "unseen (\<lambda>r. r\<lparr>rt_finalizing := b\<rparr>)" "unseen (\<lambda>r. r\<lparr>rt_stopped := b\<rparr>)"
  "unseen (\<lambda>r. r\<lparr>rt_history := h\<rparr>)" "unseen (\<lambda>r. r\<lparr>rt_closed := b\<rparr>)"
  "unseen (\<lambda>r. r\<lparr>rt_user_cancelled := b\<rparr>)" "unseen (launch key t)" "unseen (set_phase t f)"
  "unseen (\<lambda>r. r\<lparr>rt_active := insert i (rt_active r), rt_cut := rt_cut r - {i}\<rparr>)" "unseen installLoop"
  by (simp_all add: unseen_def installLoop_def pushSignal_def cut_context_def leave_def launch_def set_phase_def)

lemma unseen_fold: "(\<And>x. unseen (f x)) \<Longrightarrow> unseen (fold f xs)"
  by (induction xs) (simp_all add: unseen_def)

locale session_effect =
  fixes env :: environment and R :: "runtime \<Rightarrow> runtime \<Rightarrow> bool"
  assumes reaches_refl: "R r r"
    and reaches_trans: "R r s \<Longrightarrow> R s t \<Longrightarrow> R r t"
    and reaches_append: "R r (snd (append_draft env live d r))"
    and reaches_draw: "set ids \<subseteq> set (rt_ids r) \<Longrightarrow> R r (r\<lparr>rt_ids := ids\<rparr>)"
    and reaches_unseen: "unseen f \<Longrightarrow> R r (f r)"
begin

definition bounded :: "'a act \<Rightarrow> bool" where
  "bounded m \<longleftrightarrow> (\<forall>r. R r (snd (m r)))"

definition bounded_change :: "(runtime \<Rightarrow> runtime) \<Rightarrow> bool" where
  "bounded_change f \<longleftrightarrow> (\<forall>r. R r (f r))"

lemma bounded_bind: "bounded m \<Longrightarrow> (\<And>x. bounded (f x)) \<Longrightarrow> bounded (act_bind m f)"
  unfolding bounded_def act_bind_def
  by (auto split: prod.splits sum.splits) (metis reaches_trans snd_conv)+

lemma bounded_pure:
  "bounded (act_return x)" "bounded (act_fail e)" "bounded (act_lift g v)" "bounded (read_projection live)"
  by (auto simp: bounded_def act_return_def act_fail_def act_lift_def read_projection_def reaches_refl split: sum.splits)

lemma bounded_append: "bounded (append_draft env live d)"
  by (simp add: bounded_def reaches_append)

lemma bounded_update: "bounded_change f \<Longrightarrow> bounded (act_update f)"
  by (simp add: bounded_def bounded_change_def act_update_def)

lemma bounded_unseen: "unseen f \<Longrightarrow> bounded_change f"
  by (simp add: bounded_change_def reaches_unseen)

lemma bounded_each: "(\<And>x. bounded (f x)) \<Longrightarrow> bounded (act_each f xs)"
  by (induction xs) (simp_all add: bounded_pure bounded_bind)

lemma bounded_self: "(\<And>r0. bounded (m r0)) \<Longrightarrow> bounded (\<lambda>r. m r r)"
  by (simp add: bounded_def)

lemma after: "bounded m \<Longrightarrow> R r s \<Longrightarrow> R r (snd (m s))"
  unfolding bounded_def by (blast intro: reaches_trans)

lemma after_change: "bounded_change f \<Longrightarrow> R r s \<Longrightarrow> R r (f s)"
  unfolding bounded_change_def by (blast intro: reaches_trans)

lemma bounded_compose: "bounded_change f \<Longrightarrow> bounded_change g \<Longrightarrow> bounded_change (\<lambda>r. g (f r))"
  by (auto simp: bounded_change_def intro: reaches_trans)

lemma bounded_record: "bounded (record_event env k a c j)"
  unfolding record_event_def by (intro bounded_bind bounded_append bounded_pure)

lemmas bounded_rules = bounded_bind bounded_pure bounded_append bounded_record bounded_update bounded_each
  bounded_unseen unseen_changes unseen_fold

lemma fail_session_bounded: "bounded_change (fail_session env live e)"
  by (auto simp: bounded_change_def fail_session_def reaches_refl reaches_append split: sum.splits)

lemma stopWithError_bounded: "bounded_change (stopWithError env e)"
proof -
  have "R r (fail_session env False e r)" for r using fail_session_bounded by (simp add: bounded_change_def)
  moreover have "R s (s\<lparr>rt_stopped := True\<rparr>)" for s by (rule reaches_unseen) (rule unseen_changes)
  ultimately show ?thesis
    by (auto simp: bounded_change_def stopWithError_def reaches_refl intro: reaches_trans)
qed

lemma cancel_bounded: "bounded (cancelDelegation env i reason)" "bounded (cancelWork env i reason)"
proof -
  show "bounded (cancelDelegation env i reason)"
    unfolding cancelDelegation_def
    by (intro bounded_bind bounded_pure) (auto split: option.splits intro!: bounded_rules)
  then show "bounded (cancelWork env i reason)"
    unfolding cancelWork_def
    by (intro bounded_bind bounded_pure) (auto split: option.splits intro!: bounded_rules)
qed

lemma attempt_all_bounded: "(\<And>x. bounded (f x)) \<Longrightarrow> bounded_change (attempt_all f xs)"
  unfolding bounded_change_def attempt_all_def
  by (induction xs) (auto simp: reaches_refl bounded_def intro: reaches_trans)

lemma cancelActive_bounded: "bounded_change (cancelActiveDelegations env reason)"
proof -
  have "R r (attempt_all (\<lambda>u. cancelWork env (pts_id (pu_spec u)) reason) us
      (attempt_all (\<lambda>d. cancelDelegation env (ds_id (dg_spec d)) reason) ds r))" for r us ds
    by (rule after_change [OF attempt_all_bounded after_change [OF attempt_all_bounded]])
      (rule cancel_bounded reaches_refl)+
  then show ?thesis
    by (auto simp: bounded_change_def cancelActiveDelegations_def reaches_refl split: sum.splits)
qed

lemma scheduleReady_bounded: "bounded scheduleReady"
  unfolding scheduleReady_def by (intro bounded_rules)

lemma appended_bounded:
  "(\<And>e. bounded_change (f e)) \<Longrightarrow> (\<And>item. bounded_change (g item)) \<Longrightarrow>
   R r (case append_draft env live d r of (Inl e, r1) \<Rightarrow> f e r1 | (Inr item, r1) \<Rightarrow> g item r1)"
  using reaches_append [of r live d]
  by (auto split: prod.splits sum.splits) (metis after_change snd_conv)+

lemma failure_bounded:
  "bounded_change (handleDelegationFailure env i actor attempt e)"
  "bounded_change (handlePeerTurnFailure env i actor attempt e)"
  unfolding bounded_change_def handleDelegationFailure_def handlePeerTurnFailure_def
  by (auto simp: reaches_refl intro!: appended_bounded stopWithError_bounded bounded_unseen unseen_changes)

lemma enter_bounded:
  "R r (snd (delegation_enter env i r))" "R r (snd (peer_enter env i r))"
  using stopWithError_bounded reaches_unseen [OF unseen_changes(11)]
  by (auto simp: delegation_enter_def peer_enter_def reaches_refl bounded_change_def
      split: sum.splits option.splits)

lemma record_start_bounded: "R r (snd (record_start env i d r))"
proof -
  have "R r (leave i (stopWithError env e s))" if "R r s" for e s
    by (rule after_change [OF bounded_unseen [OF unseen_changes(3)] after_change [OF stopWithError_bounded that]])
  then show ?thesis
    using reaches_append [of r True d] reaches_refl
    by (auto simp: record_start_def split: prod.splits sum.splits)
qed

lemma finish_bounded:
  "bounded_change (delegation_finish env i attempt actor outcome)"
  "bounded_change (peer_finish env i attempt actor outcome)"
proof -
  have wake: "bounded_change (\<lambda>s. case scheduleReady (pushSignal k e w s) of
      (Inl x, r2) \<Rightarrow> stopWithError env x r2 | (Inr _, r2) \<Rightarrow> r2)" for k e w
    unfolding bounded_change_def
  proof
    fix s
    have "R s (snd (scheduleReady (pushSignal k e w s)))"
      by (rule after [OF scheduleReady_bounded]) (rule reaches_unseen, rule unseen_changes)
    then show "R s (case scheduleReady (pushSignal k e w s) of
        (Inl x, r2) \<Rightarrow> stopWithError env x r2 | (Inr _, r2) \<Rightarrow> r2)"
      by (auto split: prod.splits sum.splits intro: after_change [OF stopWithError_bounded])
  qed
  have leave: "R r (leave i s)" if "R r s" for r s
    by (rule after_change [OF bounded_unseen [OF unseen_changes(3)] that])
  show "bounded_change (delegation_finish env i attempt actor outcome)"
    "bounded_change (peer_finish env i attempt actor outcome)"
    unfolding bounded_change_def delegation_finish_def peer_finish_def Let_def
    by (auto intro!: leave appended_bounded stopWithError_bounded wake bounded_unseen unseen_changes
        failure_bounded [unfolded bounded_change_def, rule_format] split: sum.splits)
qed

lemma with_ids_bounded:
  assumes "\<And>ids x rest. g ids = Inr (x, rest) \<Longrightarrow> set rest \<subseteq> set ids"
  shows "bounded (with_ids g)"
  unfolding bounded_def with_ids_def
  by (auto simp: reaches_refl split: sum.splits intro!: reaches_draw dest: assms)

lemma materialize_bounded:
  "bounded (with_ids (materializeDelegations p state agent ds))"
  "bounded (with_ids (materializePeerTurns p state agent us))"
proof -
  show "bounded (with_ids (materializeDelegations p state agent ds))"
    by (rule with_ids_bounded) (drule materializeDelegations_Inr(1), simp)
  show "bounded (with_ids (materializePeerTurns p state agent us))"
    by (rule with_ids_bounded) (unfold materializePeerTurns_def, drule materialize_peer_turns_loop_Inr, blast)
qed

lemma record_decision_bounded: "bounded (record_decision env state agent d specs us)"
  unfolding record_decision_def by (intro bounded_rules cancel_bounded)

lemma end_decision_bounded: "bounded (end_decision env agent d specs us)"
  unfolding end_decision_def hand_over_def
  by (auto split: option.splits intro!: bounded_rules scheduleReady_bounded)

lemma decide_bounded: "bounded (decide env p state agent d)"
proof -
  have "bounded (require_work d specs us)" for specs us
    unfolding require_work_def by (auto intro!: bounded_rules)
  then show ?thesis
    unfolding decide_def by (intro bounded_bind bounded_pure materialize_bounded record_decision_bounded end_decision_bounded)
qed

lemma applyDecision_bounded: "bounded (applyDecision env d)"
  unfolding applyDecision_def
  by (rule bounded_self) (auto split: option.splits intro!: bounded_rules decide_bounded)

lemma completeAnswer_bounded: "bounded (completeAnswer env agentID turn answer)"
  unfolding completeAnswer_def by (auto intro!: bounded_rules cancelActive_bounded)

lemma onActiveAgentEvents_bounded: "bounded (onActiveAgentEvents env outcome)"
  unfolding onActiveAgentEvents_def
  by (auto split: option.splits agent_outcome.splits intro!: bounded_rules completeAnswer_bounded applyDecision_bounded)

lemma begin_turn_bounded: "bounded (begin_turn env kinds)"
  unfolding begin_turn_def by (rule bounded_self) (auto split: option.splits intro!: bounded_rules)

lemma loadHistory_bounded: "bounded loadConversationHistory"
  using unseen_changes(6)
  by (auto simp: bounded_def loadConversationHistory_def reaches_refl reaches_unseen split: sum.splits)

lemma or_fail_bounded: "bounded m \<Longrightarrow> bounded (or_fail env m)"
  unfolding bounded_def or_fail_def
  by (auto split: prod.splits sum.splits) (metis after_change fail_session_bounded snd_conv)+

lemma prepare_bounded: "bounded (prepare env recovered)"
  unfolding prepare_def markInterruptedDelegations_def
  by (rule bounded_self) (auto intro!: bounded_rules loadHistory_bounded or_fail_bounded scheduleReady_bounded)

lemma task_step_bounded: "R r (task_step env outcome t r)"
proof -
  have phase: "R r (set_phase t f s)" if "R r s" for f s
    by (rule after_change [OF bounded_unseen [OF unseen_changes(10)] that])
  show ?thesis
    unfolding task_step_def Let_def delegation_start_def peer_start_def
    using enter_bounded [of r "tk_id t"] record_start_bounded [of r "tk_id t"]
      finish_bounded [unfolded bounded_change_def]
    by (auto simp: reaches_refl split: phase.splits prod.splits intro!: phase) (metis snd_conv)+
qed

theorem step_bounded: "runtime_step env r r' \<Longrightarrow> R r r'"
  by (cases rule: runtime_step.cases, assumption)
    (use begin_turn_bounded onActiveAgentEvents_bounded task_step_bounded reaches_append unseen_changes(7,8)
      in \<open>auto simp: bounded_def intro: reaches_unseen\<close>)

end

section \<open>Only the own log grows\<close>

text \<open>The columns of a row that no event changes.\<close>

definition pinned :: "session \<Rightarrow> string \<times> string \<times> int \<times> string \<times> string \<times> string" where
  "pinned s = (ss_id s, ss_profile s, ss_revision s, ss_digest s, ss_conversation s, ss_workspace s)"

definition others :: "string \<Rightarrow> store \<Rightarrow> session list" where
  "others sid st = filter (\<lambda>s. ss_id s \<noteq> sid) (st_sessions st)"

definition own_log_grows :: "runtime \<Rightarrow> runtime \<Rightarrow> bool" where
  "own_log_grows r r' \<longleftrightarrow>
     rt_session r' = rt_session r \<and> rt_profile r' = rt_profile r \<and> set (rt_ids r') \<subseteq> set (rt_ids r) \<and>
     (\<exists>items. st_events (rt_store r') = st_events (rt_store r) @ items \<and>
        (\<forall>e \<in> set items. ev_session e = rt_session r \<and> ev_id e \<in> set (rt_ids r))) \<and>
     others (rt_session r) (rt_store r') = others (rt_session r) (rt_store r) \<and>
     map pinned (st_sessions (rt_store r')) = map pinned (st_sessions (rt_store r)) \<and>
     st_profiles (rt_store r') = st_profiles (rt_store r) \<and> st_artifacts (rt_store r') = st_artifacts (rt_store r)"

lemma log_item_pinned: "map pinned (st_sessions (log_item pl item c st)) = map pinned (st_sessions st)"
  by (simp add: log_item_tables pinned_def)

lemma log_item_others: "others (ev_session item) (log_item pl item c st) = others (ev_session item) st"
proof -
  have "filter (\<lambda>s. ss_id s \<noteq> i) (map (\<lambda>s. if ss_id s = i then write_columns n c s else s) xs) =
      filter (\<lambda>s. ss_id s \<noteq> i) xs" for i n xs
    by (induction xs) auto
  then show ?thesis by (simp add: others_def log_item_tables)
qed

lemma append_own_log: "own_log_grows r (snd (append_draft env live d r))"
proof (cases "live \<and> rt_closed r \<or> rt_ids r = []")
  case True
  then show ?thesis by (auto simp: append_draft_def own_log_grows_def)
next
  case False
  then obtain i ids where ids: "rt_ids r = i # ids" by (cases "rt_ids r") auto
  show ?thesis
  proof (cases "Append (en_platform env) i (rt_clock r (rt_ticks r)) (rt_session r) d (rt_store r)")
    case (Inl e)
    then show ?thesis using False ids by (auto simp: append_draft_def own_log_grows_def Let_def)
  next
    case (Inr pair)
    obtain item st where pair: "pair = (item, st)" by (cases pair)
    from Inr [unfolded pair] obtain c where
      item: "item = materialize d i (rt_session r) (LastSequence (rt_store r) (rt_session r) + 1) (rt_clock r (rt_ticks r))"
      and st: "st = log_item (en_platform env) item c (rt_store r)" by (rule Append_Inr) blast
    show ?thesis
      using False ids Inr pair item log_item_others [of item "en_platform env" c "rt_store r"]
      by (auto simp: append_draft_def own_log_grows_def Let_def st log_item_tables(2-4) log_item_pinned)
  qed
qed

interpretation own_log: session_effect env own_log_grows for env
proof
  fix r s t :: runtime and live d ids f
  show "own_log_grows r r" by (simp add: own_log_grows_def)
  show "own_log_grows r s \<Longrightarrow> own_log_grows s t \<Longrightarrow> own_log_grows r t"
    unfolding own_log_grows_def by (elim conjE exE) (intro conjI, auto)
  show "own_log_grows r (snd (append_draft env live d r))" by (rule append_own_log)
  show "set ids \<subseteq> set (rt_ids r) \<Longrightarrow> own_log_grows r (r\<lparr>rt_ids := ids\<rparr>)" by (simp add: own_log_grows_def)
  show "unseen f \<Longrightarrow> own_log_grows r (f r)" by (simp add: own_log_grows_def unseen_def)
qed

lemma own_log_events: "own_log_grows r r' \<Longrightarrow> other \<noteq> rt_session r \<Longrightarrow>
    session_events (rt_store r') other = session_events (rt_store r) other"
  unfolding own_log_grows_def session_events_def by (elim conjE exE) (auto simp: filter_empty_conv)

lemma own_log_rows:
  assumes "own_log_grows r r'" and "s \<in> set (st_sessions (rt_store r'))" and "ss_id s \<noteq> rt_session r"
  shows "s \<in> set (st_sessions (rt_store r))"
proof -
  have "s \<in> set (others (rt_session r) (rt_store r'))" using assms(2,3) by (simp add: others_def)
  then have "s \<in> set (others (rt_session r) (rt_store r))" using assms(1) by (simp add: own_log_grows_def)
  then show ?thesis by (simp add: others_def)
qed

lemma own_log_pinned: "own_log_grows r r' \<Longrightarrow> s' \<in> set (st_sessions (rt_store r')) \<Longrightarrow>
    \<exists>s \<in> set (st_sessions (rt_store r)). pinned s = pinned s'"
  unfolding own_log_grows_def by (metis (no_types, lifting) imageE image_eqI list.set_map)

end
