(* ===== verification/Engine.thy ===== *)
theory Engine
  imports Isolation TeamStore
begin

text \<open>
  The engine (internal/orchestrator/engine.go): the table of running sessions over one store.
  It starts, continues and resumes sessions, steers and cancels them, and takes each out of
  the table when its run ends. Runs proceed in any interleaving; every step loads the shared
  store into the run's runtime and writes it back.
\<close>

section \<open>State\<close>

text \<open>
  \<open>rn_looping\<close>: the signal loop is installed, preparation is over. \<open>eg_left\<close> keeps the
  runtimes whose run has ended, since their goroutines may still be returning.
\<close>

record run =
  rn_conversation :: string
  rn_workspace :: string
  rn_recovered :: bool
  rn_looping :: bool
  rn_runtime :: runtime

record engine =
  eg_store :: store
  eg_ids :: "string list"
  eg_clock :: "nat \<Rightarrow> int"
  eg_ticks :: nat
  eg_runs :: "(string, run) gomap"
  eg_left :: "runtime list"

text \<open>
  What the engine takes from outside: the absolute path of a workspace that is a directory,
  whether the gateway's catalogue offers every model a team selects, and the YAML package.
\<close>

record services =
  sv_workspace :: "string \<Rightarrow> string option"
  sv_valid :: "profile \<Rightarrow> bool"
  sv_yaml :: yaml

datatype engine_error =
    EngineEmptyTask
  | EngineWorkspace
  | EngineProvider
  | EngineStore store_error
  | EngineNotResumable session_status
  | EngineStillRunning
  | EngineDigest
  | EngineNotRunning
  | EngineFinalizing
  | EngineSavedOnly
  | EngineIdentity

type_synonym 'a call = "engine \<Rightarrow> (engine_error, 'a) res \<times> engine"

definition load_into :: "engine \<Rightarrow> runtime \<Rightarrow> runtime" where
  "load_into e r = r\<lparr>rt_store := eg_store e, rt_ids := eg_ids e, rt_clock := eg_clock e, rt_ticks := eg_ticks e\<rparr>"

definition save :: "runtime \<Rightarrow> engine \<Rightarrow> engine" where
  "save r e = e\<lparr>eg_store := rt_store r, eg_ids := rt_ids r, eg_ticks := rt_ticks r\<rparr>"

definition put_run :: "string \<Rightarrow> run \<Rightarrow> engine \<Rightarrow> engine" where
  "put_run k x e = e\<lparr>eg_runs := AList.update k x (eg_runs e)\<rparr>"

text \<open>\<open>delete(e.runs, session.ID)\<close> when \<open>execute\<close> has returned.\<close>

definition drop_run :: "string \<Rightarrow> runtime \<Rightarrow> engine \<Rightarrow> engine" where
  "drop_run k r e = e\<lparr>eg_runs := AList.delete k (eg_runs e), eg_left := eg_left e @ [r\<lparr>rt_closed := True\<rparr>]\<rparr>"

section \<open>Starting, continuing and resuming\<close>

definition startSession :: "session \<Rightarrow> document \<Rightarrow> bool \<Rightarrow> engine \<Rightarrow> run \<times> engine" where
  "startSession session doc recovered e =
     (case map_of (eg_runs e) (ss_id session) of
        Some existing \<Rightarrow> (existing, e)
      | None \<Rightarrow>
          let x = \<lparr>rn_conversation = ss_conversation session, rn_workspace = ss_workspace session,
                   rn_recovered = recovered, rn_looping = False,
                   rn_runtime = newSessionRuntime (eg_store e) (ss_id session) (doc_profile doc) (eg_ids e) (eg_clock e)\<rparr>
          in (x, put_run (ss_id session) x e))"

definition time_now :: "engine \<Rightarrow> int" where
  "time_now e = eg_clock e (eg_ticks e)"

text \<open>Create a turn with fresh identities for itself and its first two events, and start it.\<close>

definition start_new ::
    "(string \<Rightarrow> int \<Rightarrow> string list \<Rightarrow> store \<Rightarrow> (store_error, session \<times> store) res) \<Rightarrow> document \<Rightarrow> run call" where
  "start_new create doc e =
     (case eg_ids e of
        sid # e1 # e2 # ids \<Rightarrow>
          (let e' = e\<lparr>eg_ids := ids, eg_ticks := Suc (eg_ticks e)\<rparr> in
           case create sid (time_now e) [e1, e2] (eg_store e) of
             Inl f \<Rightarrow> (Inl (EngineStore f), e')
           | Inr (session, st) \<Rightarrow>
               (case startSession session doc False (e'\<lparr>eg_store := st\<rparr>) of (x, e'') \<Rightarrow> (Inr x, e'')))
      | _ \<Rightarrow> (Inl EngineIdentity, e))"

definition StartInputAt :: "environment \<Rightarrow> services \<Rightarrow> document \<Rightarrow> payload \<Rightarrow> string \<Rightarrow> run call" where
  "StartInputAt env srv doc payload workspace e =
     (if input_empty (pl_input payload) then (Inl EngineEmptyTask, e)
      else case sv_workspace srv workspace of
        None \<Rightarrow> (Inl EngineWorkspace, e)
      | Some path \<Rightarrow>
          if \<not> sv_valid srv (doc_profile doc) then (Inl EngineProvider, e)
          else case ImportProfile (time_now e) doc (eg_store e) of
            Inl f \<Rightarrow> (Inl (EngineStore f), e)
          | Inr st \<Rightarrow>
              start_new (\<lambda>sid t eids. CreateSessionInput (en_platform env) sid t eids doc payload path) doc
                (e\<lparr>eg_store := st\<rparr>))"

definition StartAt :: "environment \<Rightarrow> services \<Rightarrow> document \<Rightarrow> string \<Rightarrow> string \<Rightarrow> run call" where
  "StartAt env srv doc task = StartInputAt env srv doc (text_payload task)"

text \<open>The team a session is pinned to, checked against its digest and the catalogue.\<close>

definition pinned_document :: "services \<Rightarrow> session \<Rightarrow> store \<Rightarrow> (engine_error, document) res" where
  "pinned_document srv session st =
     (case stored_profile (sv_yaml srv) st (ss_profile session) (ss_revision session) of
        Inl f \<Rightarrow> Inl (EngineStore f)
      | Inr doc \<Rightarrow>
          if doc_digest doc \<noteq> ss_digest session then Inl EngineDigest
          else if \<not> sv_valid srv (doc_profile doc) then Inl EngineProvider
          else Inr doc)"

definition Resume :: "services \<Rightarrow> string \<Rightarrow> run call" where
  "Resume srv sid e =
     (case get_session (eg_store e) sid of
        Inl f \<Rightarrow> (Inl (EngineStore f), e)
      | Inr session \<Rightarrow>
          if ss_status session \<noteq> StatusRunning then (Inl (EngineNotResumable (ss_status session)), e)
          else case pinned_document srv session (eg_store e) of
            Inl f \<Rightarrow> (Inl f, e)
          | Inr doc \<Rightarrow> (case startSession session doc True e of (x, e') \<Rightarrow> (Inr x, e')))"

definition ContinueInput :: "environment \<Rightarrow> services \<Rightarrow> string \<Rightarrow> payload \<Rightarrow> run call" where
  "ContinueInput env srv previousID payload e =
     (if input_empty (pl_input payload) then (Inl EngineEmptyTask, e)
      else case get_session (eg_store e) previousID of
        Inl f \<Rightarrow> (Inl (EngineStore f), e)
      | Inr previous \<Rightarrow>
          if ss_status previous = StatusRunning then (Inl EngineStillRunning, e)
          else case pinned_document srv previous (eg_store e) of
            Inl f \<Rightarrow> (Inl f, e)
          | Inr doc \<Rightarrow>
              start_new (\<lambda>sid t eids. CreateContinuationInput (en_platform env) sid t eids previousID doc payload) doc e)"

definition Continue :: "environment \<Rightarrow> services \<Rightarrow> string \<Rightarrow> string \<Rightarrow> run call" where
  "Continue env srv previousID task = ContinueInput env srv previousID (text_payload task)"

text \<open>Resume in the order of the listing; on an error the runs started so far are returned with it.\<close>

fun resume_each :: "services \<Rightarrow> session list \<Rightarrow> engine \<Rightarrow> (engine_error option \<times> run list) \<times> engine" where
  "resume_each srv [] e = ((None, []), e)"
| "resume_each srv (s # ss) e =
     (case Resume srv (ss_id s) e of
        (Inl f, e') \<Rightarrow> ((Some f, []), e')
      | (Inr x, e') \<Rightarrow> (case resume_each srv ss e' of ((f, xs), e'') \<Rightarrow> ((f, x # xs), e'')))"

definition ResumeAll :: "services \<Rightarrow> engine \<Rightarrow> (engine_error option \<times> run list) \<times> engine" where
  "ResumeAll srv e = resume_each srv (RecoverableSessions (eg_store e)) e"

section \<open>Steering and cancelling\<close>

text \<open>Draw one identity and one time, and write with them; the store changes only on success.\<close>

definition write_one ::
    "(string \<Rightarrow> int \<Rightarrow> store \<Rightarrow> (store_error, event \<times> store) res) \<Rightarrow> event call" where
  "write_one f e =
     (case eg_ids e of
        [] \<Rightarrow> (Inl EngineIdentity, e)
      | i # ids \<Rightarrow>
          (let e' = e\<lparr>eg_ids := ids, eg_ticks := Suc (eg_ticks e)\<rparr> in
           case f i (time_now e) (eg_store e) of
             Inl x \<Rightarrow> (Inl (EngineStore x), e')
           | Inr (item, st) \<Rightarrow> (Inr item, e'\<lparr>eg_store := st\<rparr>)))"

text \<open>\<open>taken\<close>: what the loop's \<open>Push\<close> answers once the loop is installed.\<close>

definition SteerInput :: "environment \<Rightarrow> bool \<Rightarrow> string \<Rightarrow> payload \<Rightarrow> unit call" where
  "SteerInput env taken sid payload e =
     (if input_empty (pl_input payload) then (Inl EngineEmptyTask, e)
      else case map_of (eg_runs e) sid of
        None \<Rightarrow> (Inl EngineNotRunning, e)
      | Some x \<Rightarrow>
          if rt_finalizing (rn_runtime x) then (Inl EngineFinalizing, e)
          else case write_one (\<lambda>i t. AppendInput (en_platform env) i t sid
                 \<lparr>dr_kind = UserInstruction, dr_actor = ''user'', dr_correlation = [], dr_causation = [], dr_data = None\<rparr>
                 (Some \<lparr>ui_text = trim (display_text (pl_input payload)), ui_input = pl_input payload\<rparr>)
                 (pl_artifacts payload)) e of
            (Inl f, e') \<Rightarrow> (Inl f, e')
          | (Inr item, e') \<Rightarrow>
              if rn_looping x \<and> \<not> taken then (Inl EngineSavedOnly, e')
              else (Inr (), put_run sid (x\<lparr>rn_runtime :=
                     pushSignal (kind_name UserInstruction) (ev_id item) [] (rn_runtime x)\<rparr>) e'))"

definition Steer :: "environment \<Rightarrow> bool \<Rightarrow> string \<Rightarrow> string \<Rightarrow> unit call" where
  "Steer env taken sid instruction = SteerInput env taken sid (text_payload instruction)"

definition cancellation :: "string \<Rightarrow> draft" where
  "cancellation reason = \<lparr>dr_kind = SessionCancelled, dr_actor = ''user'', dr_correlation = [], dr_causation = [],
     dr_data = Some (enc_failure_data \<lparr>fd_error = reason\<rparr>)\<rparr>"

definition cancel_run :: "run \<Rightarrow> run" where
  "cancel_run x = x\<lparr>rn_runtime := (rn_runtime x)\<lparr>rt_user_cancelled := True, rt_closed := True\<rparr>\<rparr>"

definition Cancel :: "environment \<Rightarrow> string \<Rightarrow> string \<Rightarrow> unit call" where
  "Cancel env sid reason e =
     (let write = write_one (\<lambda>i t. Append (en_platform env) i t sid (cancellation reason)) in
      case map_of (eg_runs e) sid of
        None \<Rightarrow>
          (case get_session (eg_store e) sid of
             Inl f \<Rightarrow> (Inl (EngineStore f), e)
           | Inr session \<Rightarrow>
               if ss_status session \<noteq> StatusRunning then (Inr (), e)
               else (case write e of (Inl f, e') \<Rightarrow> (Inl f, e') | (Inr item, e') \<Rightarrow> (Inr (), e')))
      | Some x \<Rightarrow>
          (case write e of
             (Inl f, e') \<Rightarrow> (Inl f, put_run sid (cancel_run x) e')
           | (Inr item, e') \<Rightarrow> (Inr (), put_run sid (cancel_run x) e')))"

definition Active :: "engine \<Rightarrow> string \<Rightarrow> bool" where
  "Active e sid \<longleftrightarrow> map_of (eg_runs e) sid \<noteq> None"

section \<open>The end of a run\<close>

definition cancelActive :: "runtime \<Rightarrow> runtime" where
  "cancelActive r = r\<lparr>rt_cut := rt_cut r \<union> rt_active r\<rparr>"

text \<open>
  What \<open>execute\<close> does once the loop has returned with \<open>exit\<close>: an ended session is left
  alone, a shutdown leaves it running for recovery, anything else is its failure.
\<close>

definition finish_execute :: "environment \<Rightarrow> cause option \<Rightarrow> runtime \<Rightarrow> runtime" where
  "finish_execute env exit r0 =
     (let r = cancelActive r0 in
      if (case fst (read_projection False r) of Inl _ \<Rightarrow> False | Inr state \<Rightarrow> pj_terminal state) then r
      else case exit of
        None \<Rightarrow> r
      | Some reason \<Rightarrow>
          if terminalContextError reason \<or> rt_closed r then r else fail_session env False reason r)"

section \<open>The invariant\<close>

text \<open>
  \<open>team\<close> names the one team behind each digest. A session fits when its log replays to work
  its pinned team permits and the identities still to be drawn are new to it; a run fits
  when it carries the team its session pins and has started each attempt once.
\<close>

definition session_fits :: "(string \<Rightarrow> profile) \<Rightarrow> store \<Rightarrow> string list \<Rightarrow> session \<Rightarrow> bool" where
  "session_fits team st ids s \<longleftrightarrow>
     (\<exists>p. Replay (ss_id s) (Events st (ss_id s) 0) = Inr p \<and>
        team_work (team (ss_digest s)) p \<and> set ids \<inter> claimed p = {})"

definition world_ok :: "platform \<Rightarrow> (string \<Rightarrow> profile) \<Rightarrow> store \<Rightarrow> string list \<Rightarrow> bool" where
  "world_ok pl team st ids \<longleftrightarrow>
     store_ok pl st \<and> distinct ids \<and> set ids \<inter> ev_id ` set (st_events st) = {} \<and>
     (\<forall>s \<in> set (st_sessions st). session_fits team st ids s)"

definition run_fits :: "(string \<Rightarrow> profile) \<Rightarrow> store \<Rightarrow> runtime \<Rightarrow> bool" where
  "run_fits team st r \<longleftrightarrow>
     (\<exists>s \<in> set (st_sessions st). ss_id s = rt_session r \<and> rt_profile r = team (ss_digest s)) \<and>
     task_key ` set (rt_tasks r) = rt_launched r \<and> distinct (map task_key (rt_tasks r))"

definition engine_ok :: "platform \<Rightarrow> (string \<Rightarrow> profile) \<Rightarrow> engine \<Rightarrow> bool" where
  "engine_ok pl team e \<longleftrightarrow>
     world_ok pl team (eg_store e) (eg_ids e) \<and> keys_distinct (eg_runs e) \<and>
     (\<forall>k x. map_of (eg_runs e) k = Some x \<longrightarrow>
        rt_session (rn_runtime x) = k \<and> run_fits team (eg_store e) (rn_runtime x)) \<and>
     (\<forall>r \<in> set (eg_left e). run_fits team (eg_store e) r)"

text \<open>No row is lost, and none changes what it is pinned to.\<close>

definition rows_kept :: "store \<Rightarrow> store \<Rightarrow> bool" where
  "rows_kept st st' \<longleftrightarrow> (\<forall>s \<in> set (st_sessions st). \<exists>s' \<in> set (st_sessions st'). pinned s' = pinned s)"

lemma rows_kept_refl [simp]: "rows_kept st st"
  by (auto simp: rows_kept_def)

lemma rows_kept_trans: "rows_kept st0 st1 \<Longrightarrow> rows_kept st1 st2 \<Longrightarrow> rows_kept st0 st2"
  unfolding rows_kept_def by metis

lemma rows_kept_map: "map pinned (st_sessions st') = map pinned (st_sessions st) \<Longrightarrow> rows_kept st st'"
  unfolding rows_kept_def by (metis (no_types, lifting) imageE image_eqI list.set_map)

lemma pinnedD: "pinned s' = pinned s \<Longrightarrow> ss_id s' = ss_id s \<and> ss_digest s' = ss_digest s"
  by (simp add: pinned_def)

lemma run_fits_kept:
  assumes "run_fits team st r" and "rows_kept st st'"
  shows "run_fits team st' r"
proof -
  obtain s where s: "s \<in> set (st_sessions st)" "ss_id s = rt_session r" "rt_profile r = team (ss_digest s)"
    using assms(1) by (auto simp: run_fits_def)
  obtain s' where s': "s' \<in> set (st_sessions st')" "pinned s' = pinned s"
    using assms(2) s(1) unfolding rows_kept_def by blast
  have "\<exists>s' \<in> set (st_sessions st'). ss_id s' = rt_session r \<and> rt_profile r = team (ss_digest s')"
    by (rule bexI [OF _ s'(1)]) (simp add: pinnedD [OF s'(2)] s)
  then show ?thesis using assms(1) unfolding run_fits_def by (elim conjE) (intro conjI)
qed

lemma run_fits_fields:
  "run_fits team st r \<Longrightarrow> rt_session r' = rt_session r \<Longrightarrow> rt_profile r' = rt_profile r \<Longrightarrow>
   rt_tasks r' = rt_tasks r \<Longrightarrow> rt_launched r' = rt_launched r \<Longrightarrow> run_fits team st r'"
  by (simp add: run_fits_def)

lemma world_less:
  assumes "world_ok pl team st ids" and fewer: "set ids' \<subseteq> set ids" and "distinct ids'"
  shows "world_ok pl team st ids'"
proof -
  have "session_fits team st ids' s" if "session_fits team st ids s" for s
    using that fewer unfolding session_fits_def by (elim exE conjE) (intro exI conjI, assumption+, blast)
  then show ?thesis using assms unfolding world_ok_def by blast
qed

text \<open>A store in which only one session moved.\<close>

lemma world_moves:
  assumes ok: "world_ok pl team st ids" and "store_ok pl st'" and "set ids' \<subseteq> set ids" and "distinct ids'"
    and "set ids' \<inter> ev_id ` set (st_events st') = {}"
    and others: "\<And>other. other \<noteq> k \<Longrightarrow> session_events st' other = session_events st other"
    and rows: "\<And>s. s \<in> set (st_sessions st') \<Longrightarrow> ss_id s \<noteq> k \<Longrightarrow> s \<in> set (st_sessions st)"
    and own: "\<And>s. s \<in> set (st_sessions st') \<Longrightarrow> ss_id s = k \<Longrightarrow> session_fits team st' ids' s"
  shows "world_ok pl team st' ids'"
proof -
  have "session_fits team st' ids' s" if s: "s \<in> set (st_sessions st')" for s
  proof (cases "ss_id s = k")
    case False
    have "Events st' (ss_id s) 0 = Events st (ss_id s) 0"
      using others [OF False] Events_ok [OF assms(2), of 0] Events_ok [of pl st 0] ok by (simp add: world_ok_def)
    then show ?thesis using ok rows [OF s False] assms(3) unfolding world_ok_def session_fits_def by fastforce
  qed (use own s in blast)
  then show ?thesis using assms by (simp add: world_ok_def)
qed

lemma world_load:
  assumes ok: "world_ok (en_platform env) team st ids" and fits: "run_fits team st r"
    and r: "rt_store r = st" "rt_ids r = ids"
  shows "runtime_ok env (rt_profile r) r"
proof -
  obtain s where s: "s \<in> set (st_sessions st)" "ss_id s = rt_session r" "rt_profile r = team (ss_digest s)"
    using fits by (auto simp: run_fits_def)
  then have known: "rt_session r \<in> ss_id ` set (st_sessions st)" by (metis image_eqI)
  have "session_fits team st ids s" using ok s(1) by (simp add: world_ok_def)
  then obtain p where "Replay (rt_session r) (Events st (rt_session r) 0) = Inr p" "team_work (rt_profile r) p"
    "set ids \<inter> claimed p = {}"
    unfolding session_fits_def s(2) s(3) [symmetric] by blast
  then show ?thesis
    using ok fits known r by (simp add: planned_def session_sound_def plan_fits_def world_ok_def run_fits_def)
qed

lemma world_save:
  assumes ok: "world_ok (en_platform env) team st ids" and fits: "run_fits team st r"
    and r: "rt_store r = st" "rt_ids r = ids"
    and grows: "own_log_grows r r'" and sound: "runtime_ok env (rt_profile r) r'"
  shows "world_ok (en_platform env) team (rt_store r') (rt_ids r') \<and> run_fits team (rt_store r') r' \<and>
    rows_kept st (rt_store r')"
proof -
  note g = grows [unfolded own_log_grows_def]
  obtain s where s: "s \<in> set (st_sessions st)" "ss_id s = rt_session r" "rt_profile r = team (ss_digest s)"
    using fits by (auto simp: run_fits_def)
  obtain p where st': "store_ok (en_platform env) (rt_store r')"
    and p: "Replay (rt_session r) (Events (rt_store r') (rt_session r) 0) = Inr p" "team_work (rt_profile r) p"
      "set (rt_ids r') \<inter> claimed p = {}"
    and ids: "distinct (rt_ids r')" "set (rt_ids r') \<inter> ev_id ` set (st_events (rt_store r')) = {}"
    and tasks: "task_key ` set (rt_tasks r') = rt_launched r'" "distinct (map task_key (rt_tasks r'))"
    using sound g by (auto simp: planned_def session_sound_def plan_fits_def)
  have kept: "rows_kept st (rt_store r')"
    unfolding rows_kept_def
  proof
    fix t assume "t \<in> set (st_sessions st)"
    then have "pinned t \<in> set (map pinned (st_sessions (rt_store r')))" using g r by simp
    then show "\<exists>s' \<in> set (st_sessions (rt_store r')). pinned s' = pinned t" by auto
  qed
  have own: "session_fits team (rt_store r') (rt_ids r') t"
    if t: "t \<in> set (st_sessions (rt_store r'))" "ss_id t = rt_session r" for t
  proof -
    obtain t0 where t0: "t0 \<in> set (st_sessions st)" "pinned t0 = pinned t"
      using own_log_pinned [OF grows t(1)] r by auto
    then have "t0 = s"
      using s t store_okD(1) [of "en_platform env" st] ok by (auto simp: world_ok_def pinned_def distinct_map inj_on_def)
    then have "ss_digest t = ss_digest s" using t0 by (simp add: pinned_def)
    then show ?thesis using p s t by (auto simp: session_fits_def)
  qed
  have "world_ok (en_platform env) team (rt_store r') (rt_ids r')"
    by (rule world_moves [OF ok st' _ ids, where k = "rt_session r"])
      (use g r own_log_events [OF grows] own_log_rows [OF grows] own in auto)
  moreover have "run_fits team (rt_store r') r'"
    using run_fits_kept [OF fits kept] g tasks by (simp add: run_fits_def)
  ultimately show ?thesis using kept by blast
qed

section \<open>Writing from outside a run\<close>

lemma world_known:
  assumes "sid \<in> ss_id ` set (st_sessions st)"
  obtains s :: session where "run_fits team st (newSessionRuntime st0 sid (team (ss_digest s)) ids0 c)"
proof -
  obtain s where "s \<in> set (st_sessions st)" "ss_id s = sid" using assms by blast
  then have "run_fits team st (newSessionRuntime st0 sid (team (ss_digest s)) ids0 c)"
    by (auto simp: run_fits_def newSessionRuntime_def)
  from that [OF this] show thesis .
qed

lemma append_world:
  fixes env :: environment
  assumes ok: "world_ok (en_platform env) team st (i # ids)" and d: "foreign_draft d"
    and app: "Append (en_platform env) i t sid d st = Inr (item, st')"
  shows "world_ok (en_platform env) team st' ids \<and> rows_kept st st'"
proof -
  have known: "sid \<in> ss_id ` set (st_sessions st)" using app by (rule Append_Inr) blast
  obtain s :: session where fits: "run_fits team st (newSessionRuntime st sid (team (ss_digest s)) (i # ids) (\<lambda>_. t))"
    by (rule world_known [OF known, where team = team and ?st0.0 = st and ?ids0.0 = "i # ids" and c = "\<lambda>_. t"])
  let ?r = "newSessionRuntime st sid (team (ss_digest s)) (i # ids) (\<lambda>_. t)"
  let ?r' = "snd (append_draft env False d ?r)"
  have r: "rt_store ?r = st" "rt_ids ?r = i # ids" by (simp_all add: newSessionRuntime_def)
  have sound: "runtime_ok env (rt_profile ?r) ?r'"
    using ensures_after [OF quiet_append world_load [OF ok fits r]] d unfolding foreign_draft_def by blast
  have "rt_store ?r' = st'" "rt_ids ?r' = ids"
    using app by (simp_all add: append_draft_def newSessionRuntime_def)
  then show ?thesis using world_save [OF ok fits r append_own_log sound] by simp
qed

lemma instruction_world:
  fixes env :: environment
  assumes ok: "world_ok (en_platform env) team st (i # ids)" and d: "dr_kind d = UserInstruction"
    and app: "AppendInput (en_platform env) i t sid d (Some data) as st = Inr (item, st')"
  shows "world_ok (en_platform env) team st' ids \<and> rows_kept st st'"
  using app
proof (rule AppendInput_Inr)
  fix st0 c
  let ?d = "d\<lparr>dr_data := Some (enc_user_instruction_data data)\<rparr>"
  assume ins: "insertArtifacts (en_platform env) sid as t st = Inr st0"
    and item: "item = materialize ?d i sid (LastSequence st sid + 1) t"
    and c: "projection_columns item = Inr c" "st' = log_item (en_platform env) item c st0"
    and known: "sid \<in> ss_id ` set (st_sessions st0)" "i \<notin> ev_id ` set (st_events st0)"
  note log = insertArtifacts_log [OF ins]
  have st0: "store_ok (en_platform env) st0" using insertArtifacts_ok [OF _ ins] ok by (simp add: world_ok_def)
  have "Events st0 k 0 = Events st k 0" for k
    using log(1) Events_ok [OF st0, of 0] Events_ok [of "en_platform env" st 0] ok
    by (simp add: session_events_def world_ok_def)
  then have world: "world_ok (en_platform env) team st0 (i # ids)"
    using ok st0 log by (simp add: world_ok_def session_fits_def)
  have "item = materialize ?d i sid (LastSequence st0 sid + 1) t"
    using item LastSequence_artifacts [OF ins] by simp
  then have app: "Append (en_platform env) i t sid ?d st0 = Inr (item, st')"
    using Append_succeeds [OF st0 known, of ?d t c] c by simp
  have "foreign_draft ?d"
    by (simp add: foreign_draft_def readable_def apply_kind_def d user_instruction_codec.decode_materialize)
  from append_world [OF world this app] show ?thesis using log(2) by (simp add: rows_kept_def)
qed

lemma created_world:
  assumes ok: "world_ok pl team st (sid # e1 # e2 # ids)"
    and created: "createSession pl sid t [e1, e2] doc payload workspace conversation title st = Inr (row, st')"
    and doc: "doc_profile doc = team (doc_digest doc)"
  shows "world_ok pl team st' ids \<and> rows_kept st st' \<and> row \<in> set (st_sessions st') \<and>
    doc_profile doc = team (ss_digest row) \<and> ss_id row = sid"
proof -
  have st: "store_ok pl st" "distinct ids" and fresh: "set (sid # e1 # e2 # ids) \<inter> ev_id ` set (st_events st) = {}"
    "e1 \<notin> set ids" "e2 \<notin> set ids"
    using ok by (auto simp: world_ok_def)
  note facts = createSession_ok [OF st(1) created]
  obtain st1 where row: "row = new_row sid t doc (trim (display_text (pl_input payload))) workspace conversation title"
    and new: "sid \<notin> ss_id ` set (st_sessions st)"
    and st1: "insertArtifacts pl sid (pl_artifacts payload) t (st\<lparr>st_sessions := st_sessions st @ [row]\<rparr>) = Inr st1"
    and st': "insert_drafts pl sid t 0 [e1, e2] (initial_drafts doc (ss_task row) (pl_input payload)) st1 = Inr st'"
    by (rule createSession_Inr [OF created])
  have id: "ss_id row = sid" "ss_digest row = doc_digest doc" by (simp_all add: row new_row_def)
  have "st_events st' = st_events st @ draft_items sid t 0 [e1, e2] (initial_drafts doc (ss_task row) (pl_input payload))"
    using insert_drafts_Inr [OF st'] insertArtifacts_log(1) [OF st1] by simp
  then have evs: "ev_id ` set (st_events st') = ev_id ` set (st_events st) \<union> {e1, e2}"
    by (simp add: initial_items initial_drafts_def materialize_def)
  have ev: "Events st' sid 0 = session_events st' sid" using Events_ok [OF facts(1), of 0] by simp
  have "\<exists>p. Replay sid (Events st' sid 0) = Inr p \<and> pj_delegations p = [] \<and> pj_peer_turns p = [] \<and> pj_leader p = []"
    unfolding ev facts(2) initial_items
    by (simp add: Replay_def Apply_def apply_kind_def new_projection_def initial_drafts_def
        session_created_codec.decode_materialize)
  then have own: "session_fits team st' ids row"
    by (auto simp: session_fits_def id team_work_def known_specs_def peer_specs_def claimed_def)
  have unique: "s = row" if "s \<in> set (st_sessions st')" "ss_id s = sid" for s
    using that new id facts(4) by auto
  have "world_ok pl team st' ids"
  proof (rule world_moves [OF ok facts(1), where k = sid])
    show "set ids \<inter> ev_id ` set (st_events st') = {}" using fresh by (simp add: evs)
    show "\<And>other. other \<noteq> sid \<Longrightarrow> session_events st' other = session_events st other" by (rule facts(3))
    show "s \<in> set (st_sessions st)" if "s \<in> set (st_sessions st')" "ss_id s \<noteq> sid" for s
      using that id by (auto simp: facts(4))
    show "session_fits team st' ids s" if "s \<in> set (st_sessions st')" "ss_id s = sid" for s
      using own unique [OF that] by simp
  qed (use st in auto)
  then show ?thesis using facts(4) doc id by (auto simp: rows_kept_def)
qed

section \<open>Every call keeps the invariant\<close>

lemma engine_moves:
  assumes "engine_ok pl team e" and "world_ok pl team st ids" and "rows_kept (eg_store e) st"
  shows "engine_ok pl team (e\<lparr>eg_ids := ids, eg_ticks := n, eg_store := st\<rparr>)"
  using assms(1,2) unfolding engine_ok_def by (auto intro: run_fits_kept [OF _ assms(3)])

lemma put_run_keeps:
  assumes "engine_ok pl team e" and "rt_session (rn_runtime x) = k" and "run_fits team (eg_store e) (rn_runtime x)"
  shows "engine_ok pl team (put_run k x e)"
  using assms unfolding engine_ok_def put_run_def by (auto simp: distinct_update)

lemma drop_run_keeps:
  assumes "engine_ok pl team e" and "run_fits team (eg_store e) r"
  shows "engine_ok pl team (drop_run k r e)"
proof -
  have "run_fits team (eg_store e) (r\<lparr>rt_closed := True\<rparr>)" by (rule run_fits_fields [OF assms(2)]) simp_all
  then show ?thesis
    using assms(1) unfolding engine_ok_def drop_run_def by (auto simp: distinct_delete delete_conv')
qed

lemma run_of: "engine_ok pl team e \<Longrightarrow> map_of (eg_runs e) k = Some x \<Longrightarrow>
    rt_session (rn_runtime x) = k \<and> run_fits team (eg_store e) (rn_runtime x)"
  by (simp add: engine_ok_def)

lemma startSession_keeps:
  assumes ok: "engine_ok pl team e" and s: "s \<in> set (st_sessions (eg_store e))"
    and doc: "doc_profile doc = team (ss_digest s)"
  shows "engine_ok pl team (snd (startSession s doc recovered e))"
proof (cases "map_of (eg_runs e) (ss_id s)")
  case None
  have "run_fits team (eg_store e) (newSessionRuntime (eg_store e) (ss_id s) (doc_profile doc) (eg_ids e) (eg_clock e))"
    using s doc by (auto simp: run_fits_def newSessionRuntime_def)
  then show ?thesis
    using None by (auto simp: startSession_def Let_def newSessionRuntime_def intro: put_run_keeps [OF ok])
next
  case (Some x)
  then show ?thesis using ok by (simp add: startSession_def)
qed

text \<open>A write with one identity that leaves the world well-formed.\<close>

lemma write_one_keeps:
  assumes ok: "engine_ok pl team e"
    and f: "\<And>i ids t item st. eg_ids e = i # ids \<Longrightarrow> f i t (eg_store e) = Inr (item, st) \<Longrightarrow>
      world_ok pl team st ids \<and> rows_kept (eg_store e) st"
    and run: "write_one f e = (v, e')"
  shows "engine_ok pl team e'" and "eg_runs e' = eg_runs e" and "eg_left e' = eg_left e"
proof -
  show "eg_runs e' = eg_runs e" "eg_left e' = eg_left e"
    using run by (auto simp: write_one_def Let_def split: list.splits sum.splits)
  show "engine_ok pl team e'"
  proof (cases "eg_ids e")
    case Nil
    then show ?thesis using run ok by (auto simp: write_one_def)
  next
    case (Cons i ids)
    have world: "world_ok pl team (eg_store e) (eg_ids e)" using ok by (simp add: engine_ok_def)
    then have "world_ok pl team (eg_store e) ids"
      using Cons by (intro world_less [OF world]) (auto simp: world_ok_def)
    from engine_moves [OF ok this rows_kept_refl]
    have less: "engine_ok pl team (e\<lparr>eg_ids := ids, eg_ticks := n\<rparr>)" for n by simp
    show ?thesis
    proof (cases "f i (time_now e) (eg_store e)")
      case (Inl x)
      then show ?thesis using run Cons less by (auto simp: write_one_def Let_def)
    next
      case (Inr pair)
      obtain item st where pair: "pair = (item, st)" by (cases pair)
      have "engine_ok pl team (e\<lparr>eg_ids := ids, eg_ticks := Suc (eg_ticks e), eg_store := st\<rparr>)"
        using f [OF Cons Inr [unfolded pair]] by (intro engine_moves [OF ok]) auto
      then show ?thesis using run Cons Inr pair by (auto simp: write_one_def Let_def)
    qed
  qed
qed

lemma start_new_keeps:
  assumes ok: "engine_ok pl team e" and doc: "doc_profile doc = team (doc_digest doc)"
    and create: "\<And>sid t eids row st. create sid t eids (eg_store e) = Inr (row, st) \<Longrightarrow>
      \<exists>payload workspace conversation title. createSession pl sid t eids doc payload workspace conversation title
        (eg_store e) = Inr (row, st)"
  shows "engine_ok pl team (snd (start_new create doc e))"
proof (cases "\<exists>sid e1 e2 ids. eg_ids e = sid # e1 # e2 # ids")
  case False
  then show ?thesis using ok by (auto simp: start_new_def split: list.splits)
next
  case True
  then obtain sid e1 e2 ids where ids: "eg_ids e = sid # e1 # e2 # ids" by blast
  have world: "world_ok pl team (eg_store e) (sid # e1 # e2 # ids)" using ok ids by (simp add: engine_ok_def)
  have "world_ok pl team (eg_store e) ids" using world by (intro world_less [OF world]) (auto simp: world_ok_def)
  from engine_moves [OF ok this rows_kept_refl]
  have less: "engine_ok pl team (e\<lparr>eg_ids := ids, eg_ticks := n\<rparr>)" for n by simp
  have fst_case: "snd (case q of (x, e'') \<Rightarrow> (Inr x :: (engine_error, run) res, e'')) = snd q" for q :: "run \<times> engine"
    by (cases q) simp
  show ?thesis
  proof (cases "create sid (time_now e) [e1, e2] (eg_store e)")
    case (Inl f)
    then show ?thesis using ids less by (simp add: start_new_def Let_def)
  next
    case (Inr pair)
    obtain row st where pair: "pair = (row, st)" by (cases pair)
    obtain payload workspace conversation title where
      created: "createSession pl sid (time_now e) [e1, e2] doc payload workspace conversation title (eg_store e) = Inr (row, st)"
      using create [OF Inr [unfolded pair]] by blast
    note c = created_world [OF world created doc]
    have "engine_ok pl team (e\<lparr>eg_ids := ids, eg_ticks := Suc (eg_ticks e), eg_store := st\<rparr>)"
      using c by (intro engine_moves [OF ok]) auto
    from startSession_keeps [OF this, of row doc False] show ?thesis
      using c ids Inr pair by (simp add: start_new_def Let_def fst_case)
  qed
qed

text \<open>SHA-256 stands for the document: no two documents that parse have the same digest.\<close>

definition addressed :: "services \<Rightarrow> (string \<Rightarrow> profile) \<Rightarrow> bool" where
  "addressed srv team \<longleftrightarrow>
     (\<forall>source doc. Parse (ym_decode (sv_yaml srv)) (ym_sha (sv_yaml srv)) source = Inr doc \<longrightarrow>
        doc_profile doc = team (doc_digest doc))"

definition parsed :: "services \<Rightarrow> document \<Rightarrow> bool" where
  "parsed srv doc \<longleftrightarrow> (\<exists>source. Parse (ym_decode (sv_yaml srv)) (ym_sha (sv_yaml srv)) source = Inr doc)"

lemma addressed_parsed: "addressed srv team \<Longrightarrow> parsed srv doc \<Longrightarrow> doc_profile doc = team (doc_digest doc)"
  by (auto simp: addressed_def parsed_def)

lemma pinned_document_Inr:
  assumes "pinned_document srv s st = Inr doc"
  shows "doc_digest doc = ss_digest s" and "parsed srv doc"
  using assms
  by (auto simp: pinned_document_def stored_profile_def Let_def parsed_def split: sum.splits if_splits option.splits)

lemma import_frame:
  assumes "ImportProfile t doc st = Inr st'"
  shows "st_sessions st' = st_sessions st" and "session_events st' = session_events st"
    and "store_ok pl st' = store_ok pl st" and "st_events st' = st_events st"
proof -
  have "\<exists>new. st' = st\<lparr>st_profiles := new\<rparr>"
    using assms by (auto simp: ImportProfile_def insert_profile_def split: if_splits option.splits)
      (rule exI [of _ "st_profiles st'"], simp)+
  then obtain new where st': "st' = st\<lparr>st_profiles := new\<rparr>" by blast
  show events: "session_events st' = session_events st" by (rule ext) (simp add: session_events_def st')
  show "st_sessions st' = st_sessions st" "st_events st' = st_events st" by (simp_all add: st')
  show "store_ok pl st' = store_ok pl st" unfolding store_ok_def artifacts_ok_def events by (simp add: st')
qed

lemma world_import: "world_ok pl team st ids \<Longrightarrow> ImportProfile t doc st = Inr st' \<Longrightarrow> world_ok pl team st' ids"
proof -
  assume ok: "world_ok pl team st ids" and import: "ImportProfile t doc st = Inr st'"
  have "Events st' = Events st"
    using import_frame(4) [OF import] by (intro ext) (simp add: Events_def)
  then show ?thesis
    using ok import_frame [OF import] unfolding world_ok_def session_fits_def by simp
qed

lemma StartInputAt_keeps:
  assumes ok: "engine_ok (en_platform env) team e" and doc: "doc_profile doc = team (doc_digest doc)"
  shows "engine_ok (en_platform env) team (snd (StartInputAt env srv doc payload workspace e))"
proof (cases "ImportProfile (time_now e) doc (eg_store e)")
  case (Inl f)
  then show ?thesis using ok by (simp add: StartInputAt_def split: option.splits)
next
  case (Inr st)
  have world: "world_ok (en_platform env) team st (eg_ids e)" "st_sessions st = st_sessions (eg_store e)"
    using world_import [OF _ Inr] import_frame(1) [OF Inr] ok by (auto simp: engine_ok_def)
  then have "rows_kept (eg_store e) st" by (auto simp: rows_kept_def)
  from engine_moves [OF ok world(1) this, of "eg_ticks e"]
  have imported: "engine_ok (en_platform env) team (e\<lparr>eg_store := st\<rparr>)" by simp
  have "engine_ok (en_platform env) team (snd (start_new
      (\<lambda>sid t eids. CreateSessionInput (en_platform env) sid t eids doc payload path) doc (e\<lparr>eg_store := st\<rparr>)))" for path
    by (rule start_new_keeps [OF imported doc]) (unfold CreateSessionInput_def, blast)
  then show ?thesis
    using ok Inr by (auto simp: StartInputAt_def split: option.splits)
qed

lemma get_session_row: "get_session st sid = Inr s \<Longrightarrow> s \<in> set (st_sessions st) \<and> ss_id s = sid"
  by (auto simp: get_session_def split: option.splits dest: session_row_in)

lemma Resume_keeps:
  assumes ok: "engine_ok pl team e" and team: "addressed srv team"
  shows "engine_ok pl team (snd (Resume srv sid e))"
proof -
  have "engine_ok pl team (snd (startSession s doc True e))"
    if "get_session (eg_store e) sid = Inr s" "pinned_document srv s (eg_store e) = Inr doc" for s doc
    using get_session_row [OF that(1)] pinned_document_Inr [OF that(2)] addressed_parsed [OF team, of doc]
    by (intro startSession_keeps [OF ok]) auto
  then show ?thesis
    using ok by (auto simp: Resume_def split: sum.splits prod.splits) (metis snd_conv)
qed

lemma ContinueInput_keeps:
  assumes ok: "engine_ok (en_platform env) team e" and team: "addressed srv team"
  shows "engine_ok (en_platform env) team (snd (ContinueInput env srv previousID payload e))"
proof -
  have "engine_ok (en_platform env) team
      (snd (start_new (\<lambda>sid t eids. CreateContinuationInput (en_platform env) sid t eids previousID doc payload) doc e))"
    if "pinned_document srv s (eg_store e) = Inr doc" for s doc
  proof (rule start_new_keeps [OF ok])
    show "doc_profile doc = team (doc_digest doc)"
      using addressed_parsed [OF team pinned_document_Inr(2) [OF that]] .
    fix sid t eids row st
    assume "CreateContinuationInput (en_platform env) sid t eids previousID doc payload (eg_store e) = Inr (row, st)"
    then show "\<exists>payload workspace conversation title.
        createSession (en_platform env) sid t eids doc payload workspace conversation title (eg_store e) = Inr (row, st)"
      by (rule CreateContinuation_Inr) blast
  qed
  then show ?thesis using ok by (auto simp: ContinueInput_def split: sum.splits)
qed

lemma resume_each_keeps:
  "engine_ok pl team e \<Longrightarrow> addressed srv team \<Longrightarrow> engine_ok pl team (snd (resume_each srv ss e))"
proof (induction ss arbitrary: e)
  case (Cons s ss)
  obtain v e' where r: "Resume srv (ss_id s) e = (v, e')" by (cases "Resume srv (ss_id s) e")
  then have "engine_ok pl team e'" using Resume_keeps [OF Cons.prems, of "ss_id s"] by simp
  with Cons.IH [OF this Cons.prems(2)] r show ?case by (auto split: sum.splits prod.splits)
qed simp

lemma SteerInput_keeps:
  assumes ok: "engine_ok (en_platform env) team e"
  shows "engine_ok (en_platform env) team (snd (SteerInput env taken sid payload e))"
proof -
  let ?f = "\<lambda>i t. AppendInput (en_platform env) i t sid
    \<lparr>dr_kind = UserInstruction, dr_actor = ''user'', dr_correlation = [], dr_causation = [], dr_data = None\<rparr>
    (Some \<lparr>ui_text = trim (display_text (pl_input payload)), ui_input = pl_input payload\<rparr>) (pl_artifacts payload)"
  have f: "world_ok (en_platform env) team st ids \<and> rows_kept (eg_store e) st"
    if "eg_ids e = i # ids" "?f i t (eg_store e) = Inr (item, st)" for i ids t item st
    using ok that(1) by (intro instruction_world [OF _ _ that(2)]) (auto simp: engine_ok_def)
  have pushed: "engine_ok (en_platform env) team (put_run sid (x\<lparr>rn_runtime := pushSignal k i [] (rn_runtime x)\<rparr>) e')"
    if "write_one ?f e = (v, e')" "map_of (eg_runs e) sid = Some x" for v e' x k i
  proof -
    note w = write_one_keeps [OF ok f that(1)]
    have x: "rt_session (rn_runtime x) = sid" "run_fits team (eg_store e') (rn_runtime x)"
      using run_of [OF w(1), where k = sid and x = x] w(2) that(2) by simp_all
    show ?thesis
      by (rule put_run_keeps [OF w(1)]) (use x in \<open>auto simp: pushSignal_def intro: run_fits_fields\<close>)
  qed
  show ?thesis
    using ok pushed write_one_keeps(1) [OF ok f]
    by (auto simp: SteerInput_def split: option.splits prod.splits sum.splits)
qed

lemma cancellation_foreign: "foreign_draft (cancellation reason)"
  by (auto simp: foreign_draft_def cancellation_def intro: readable_plain)

lemma Cancel_keeps:
  assumes ok: "engine_ok (en_platform env) team e"
  shows "engine_ok (en_platform env) team (snd (Cancel env sid reason e))"
proof -
  let ?f = "\<lambda>i t. Append (en_platform env) i t sid (cancellation reason)"
  have f: "world_ok (en_platform env) team st ids \<and> rows_kept (eg_store e) st"
    if "eg_ids e = i # ids" "?f i t (eg_store e) = Inr (item, st)" for i ids t item st
    using ok that(1) by (intro append_world [OF _ cancellation_foreign that(2)]) (auto simp: engine_ok_def)
  have flagged: "engine_ok (en_platform env) team (put_run sid (cancel_run x) e')"
    if "write_one ?f e = (v, e')" "map_of (eg_runs e) sid = Some x" for v e' x
  proof -
    note w = write_one_keeps [OF ok f that(1)]
    have x: "rt_session (rn_runtime x) = sid" "run_fits team (eg_store e') (rn_runtime x)"
      using run_of [OF w(1), where k = sid and x = x] w(2) that(2) by simp_all
    show ?thesis
      by (rule put_run_keeps [OF w(1)]) (use x in \<open>auto simp: cancel_run_def intro: run_fits_fields\<close>)
  qed
  show ?thesis
    using ok flagged write_one_keeps(1) [OF ok f]
    by (auto simp: Cancel_def Let_def split: option.splits prod.splits sum.splits)
qed

section \<open>Steps\<close>

text \<open>
  \<open>engine_step env srv k e e'\<close>: a step on behalf of session \<open>k\<close>. A run is prepared, loops,
  and ends; a goroutine outlives its run; another process writes to a session's log.
\<close>

inductive engine_step :: "environment \<Rightarrow> services \<Rightarrow> string \<Rightarrow> engine \<Rightarrow> engine \<Rightarrow> bool" for env srv where
  starts: "parsed srv doc \<Longrightarrow> hd (eg_ids e) = k \<Longrightarrow>
    engine_step env srv k e (snd (StartInputAt env srv doc payload workspace e))"
| continues: "hd (eg_ids e) = k \<Longrightarrow> engine_step env srv k e (snd (ContinueInput env srv previousID payload e))"
| resumes: "engine_step env srv k e (snd (Resume srv k e))"
| resumes_all: "engine_step env srv k e (snd (ResumeAll srv e))"
| steers: "engine_step env srv k e (snd (SteerInput env taken k payload e))"
| cancels: "engine_step env srv k e (snd (Cancel env k reason e))"
| prepares: "map_of (eg_runs e) k = Some x \<Longrightarrow> \<not> rn_looping x \<Longrightarrow>
    prepare env (rn_recovered x) (load_into e (rn_runtime x)) = (Inr True, r) \<Longrightarrow>
    engine_step env srv k e (put_run k (x\<lparr>rn_looping := True, rn_runtime := r\<rparr>) (save r e))"
| gives_up: "map_of (eg_runs e) k = Some x \<Longrightarrow> \<not> rn_looping x \<Longrightarrow>
    prepare env (rn_recovered x) (load_into e (rn_runtime x)) = (v, r) \<Longrightarrow> v \<noteq> Inr True \<Longrightarrow>
    engine_step env srv k e (drop_run k r (save r e))"
| has_no_tools: "map_of (eg_runs e) k = Some x \<Longrightarrow> \<not> rn_looping x \<Longrightarrow>
    engine_step env srv k e (drop_run k (rn_runtime x) e)"
| works: "map_of (eg_runs e) k = Some x \<Longrightarrow> rn_looping x \<Longrightarrow> runtime_step env (load_into e (rn_runtime x)) r \<Longrightarrow>
    engine_step env srv k e (put_run k (x\<lparr>rn_runtime := r\<rparr>) (save r e))"
| finishes: "map_of (eg_runs e) k = Some x \<Longrightarrow> rn_looping x \<Longrightarrow>
    r = finish_execute env exit (load_into e (rn_runtime x)) \<Longrightarrow>
    engine_step env srv k e (drop_run k r (save r e))"
| lingers: "i < length (eg_left e) \<Longrightarrow> rt_session (eg_left e ! i) = k \<Longrightarrow> t \<in> set (rt_tasks (eg_left e ! i)) \<Longrightarrow>
    r = task_step env outcome t (load_into e (eg_left e ! i)) \<Longrightarrow>
    engine_step env srv k e (save r (e\<lparr>eg_left := (eg_left e)[i := r]\<rparr>))"
| elsewhere: "foreign_draft d \<Longrightarrow>
    engine_step env srv k e (snd (write_one (\<lambda>i t. Append (en_platform env) i t k d) e))"

lemma load_fields:
  "rt_store (load_into e r) = eg_store e" "rt_ids (load_into e r) = eg_ids e" "rt_session (load_into e r) = rt_session r"
  "rt_profile (load_into e r) = rt_profile r" "rt_tasks (load_into e r) = rt_tasks r" "rt_launched (load_into e r) = rt_launched r"
  by (simp_all add: load_into_def)

text \<open>What a runtime did to the store it was loaded with is written back.\<close>

lemma save_keeps:
  assumes ok: "engine_ok (en_platform env) team e" and fits: "run_fits team (eg_store e) r0"
    and grows: "own_log_grows (load_into e r0) r" and sound: "runtime_ok env (rt_profile r0) r"
  shows "engine_ok (en_platform env) team (save r e)" and "run_fits team (eg_store (save r e)) r"
proof -
  have loaded: "run_fits team (eg_store e) (load_into e r0)" by (rule run_fits_fields [OF fits]) (simp_all add: load_fields)
  have w: "world_ok (en_platform env) team (eg_store e) (eg_ids e)" using ok by (simp add: engine_ok_def)
  note saved = world_save [OF w loaded load_fields(1,2) grows, unfolded load_fields, OF sound]
  show "engine_ok (en_platform env) team (save r e)"
    using engine_moves [OF ok, of "rt_store r" "rt_ids r" "rt_ticks r"] saved unfolding save_def
    by (simp add: engine_ok_def)
  show "run_fits team (eg_store (save r e)) r" using saved by (simp add: save_def)
qed

lemma finish_execute_keeps: "runtime_ok env prof r \<Longrightarrow> runtime_ok env prof (finish_execute env exit r)"
proof -
  assume ok: "runtime_ok env prof r"
  have "unrelated cancelActive" by (simp add: unrelated_def cancelActive_def)
  from unrelated_step [OF this ok] show ?thesis
    by (auto simp: finish_execute_def Let_def split: option.splits intro: fail_session_keeps)
qed

lemma finish_execute_own: "own_log_grows r (finish_execute env exit r)"
proof -
  have "unseen cancelActive" by (simp add: unseen_def cancelActive_def)
  then have cut: "own_log_grows r (cancelActive r)" by (rule own_log.reaches_unseen)
  then show ?thesis
    by (auto simp: finish_execute_def Let_def split: option.splits
        intro: own_log.after_change [OF own_log.fail_session_bounded])
qed

lemma load_ok:
  "engine_ok (en_platform env) team e \<Longrightarrow> run_fits team (eg_store e) r \<Longrightarrow> runtime_ok env (rt_profile r) (load_into e r)"
  using world_load [of env team "eg_store e" "eg_ids e" "load_into e r"] run_fits_fields [of team "eg_store e" r "load_into e r"]
  by (simp add: load_fields engine_ok_def)

text \<open>A run's own step: it stays in the table, or leaves it.\<close>

lemma run_step_keeps:
  assumes ok: "engine_ok (en_platform env) team e" and x: "map_of (eg_runs e) k = Some x"
    and grows: "own_log_grows (load_into e (rn_runtime x)) r"
    and sound: "runtime_ok env (rt_profile (rn_runtime x)) (load_into e (rn_runtime x)) \<Longrightarrow>
      runtime_ok env (rt_profile (rn_runtime x)) r"
  shows "rn_runtime y = r \<Longrightarrow> engine_ok (en_platform env) team (put_run k y (save r e))"
    and "engine_ok (en_platform env) team (drop_run k r (save r e))"
proof -
  note run = run_of [OF ok x]
  note saved = save_keeps [OF ok conjunct2 [OF run] grows sound [OF load_ok [OF ok conjunct2 [OF run]]]]
  have "rt_session r = k" using grows run by (simp add: own_log_grows_def load_fields)
  then show "rn_runtime y = r \<Longrightarrow> engine_ok (en_platform env) team (put_run k y (save r e))"
    using put_run_keeps [OF saved(1), of y k] saved(2) by simp
  show "engine_ok (en_platform env) team (drop_run k r (save r e))" by (rule drop_run_keeps [OF saved])
qed

lemma prepare_effect:
  assumes "prepare env recovered r0 = (v, r)"
  shows "own_log_grows r0 r" and "runtime_ok env prof r0 \<Longrightarrow> runtime_ok env prof r"
  using own_log.prepare_bounded [of env recovered, unfolded own_log.bounded_def, rule_format, of r0]
    ensures_after [OF prepare_keeps, of env prof r0 recovered] assms by simp_all

lemma engine_step_keeps:
  assumes step: "engine_step env srv k e e'" and ok: "engine_ok (en_platform env) team e"
    and team: "addressed srv team"
  shows "engine_ok (en_platform env) team e'"
  using step
proof cases
  case (starts doc payload workspace)
  then show ?thesis using StartInputAt_keeps [OF ok addressed_parsed [OF team]] by simp
next
  case (continues previousID payload)
  then show ?thesis using ContinueInput_keeps [OF ok team] by simp
next
  case resumes
  then show ?thesis using Resume_keeps [OF ok team] by simp
next
  case resumes_all
  then show ?thesis using resume_each_keeps [OF ok team] by (simp add: ResumeAll_def)
next
  case (steers taken payload)
  then show ?thesis using SteerInput_keeps [OF ok] by simp
next
  case (cancels reason)
  then show ?thesis using Cancel_keeps [OF ok] by simp
next
  case (prepares x r)
  then show ?thesis
    using run_step_keeps(1) [OF ok prepares(2) prepare_effect [OF prepares(4)], of "x\<lparr>rn_looping := True, rn_runtime := r\<rparr>"]
    by simp
next
  case (gives_up x v r)
  then show ?thesis using run_step_keeps(2) [OF ok gives_up(2) prepare_effect [OF gives_up(4)]] by simp
next
  case (has_no_tools x)
  then show ?thesis using drop_run_keeps [OF ok] run_of [OF ok] by simp
next
  case (works x r)
  then show ?thesis
    using run_step_keeps(1) [OF ok works(2) own_log.step_bounded [OF works(4)] step_keeps [OF works(4)], of "x\<lparr>rn_runtime := r\<rparr>"]
    by simp
next
  case (finishes x r exit)
  then show ?thesis
    using run_step_keeps(2) [OF ok finishes(2) finish_execute_own [of "load_into e (rn_runtime x)" env exit]
        finish_execute_keeps [of env "rt_profile (rn_runtime x)" "load_into e (rn_runtime x)" exit]] by simp
next
  case (lingers i t r outcome)
  have fits: "run_fits team (eg_store e) (eg_left e ! i)" using ok lingers(2) by (simp add: engine_ok_def)
  have step: "runtime_step env (load_into e (eg_left e ! i)) r" unfolding lingers(5)
    by (rule runtime_step.works) (use lingers(4) in \<open>simp add: load_fields\<close>)
  note saved = save_keeps [OF ok fits own_log.step_bounded [OF step] step_keeps [OF step load_ok [OF ok fits]]]
  have "set ((eg_left e)[i := r]) \<subseteq> insert r (set (eg_left e))" by (rule set_update_subset_insert)
  then have "engine_ok (en_platform env) team ((save r e)\<lparr>eg_left := (eg_left e)[i := r]\<rparr>)"
    using saved unfolding engine_ok_def save_def by auto
  moreover have "(save r e)\<lparr>eg_left := (eg_left e)[i := r]\<rparr> = save r (e\<lparr>eg_left := (eg_left e)[i := r]\<rparr>)"
    by (simp add: save_def)
  ultimately show ?thesis using lingers by simp
next
  case (elsewhere d)
  have "world_ok (en_platform env) team st ids \<and> rows_kept (eg_store e) st"
    if "eg_ids e = i # ids" "Append (en_platform env) i t k d (eg_store e) = Inr (item, st)" for i ids t item st
    using ok that(1) by (intro append_world [OF _ elsewhere(2) that(2)]) (auto simp: engine_ok_def)
  then show ?thesis
    using write_one_keeps(1) [OF ok, where f = "\<lambda>i t. Append (en_platform env) i t k d"] elsewhere(1)
    by (metis surjective_pairing)
qed

section \<open>Sessions are apart\<close>

definition others_still :: "string \<Rightarrow> store \<Rightarrow> store \<Rightarrow> bool" where
  "others_still k st st' \<longleftrightarrow>
     others k st' = others k st \<and> (\<forall>other. other \<noteq> k \<longrightarrow> session_events st' other = session_events st other) \<and>
     rows_kept st st'"

lemma others_still_refl [simp]: "others_still k st st"
  by (simp add: others_still_def)

lemma others_row: "others k st' = others k st \<Longrightarrow> other \<noteq> k \<Longrightarrow> session_row st' other = session_row st other"
proof -
  have find_filter: "find P (filter Q xs) = find P xs" if "\<And>x. P x \<Longrightarrow> Q x" for P Q and xs :: "session list"
    by (induction xs) (auto dest: that)
  assume "others k st' = others k st" "other \<noteq> k"
  then show ?thesis
    using find_filter [of "\<lambda>s. ss_id s = other" "\<lambda>s. ss_id s \<noteq> k"]
    by (simp add: others_def session_row_def) metis
qed

lemma own_log_still: "own_log_grows r r' \<Longrightarrow> others_still (rt_session r) (rt_store r) (rt_store r')"
  using own_log_events [of r r'] by (simp add: others_still_def own_log_grows_def rows_kept_map)

lemma Append_still: "Append pl i t k d st = Inr (item, st') \<Longrightarrow> others_still k st st'"
proof -
  assume "Append pl i t k d st = Inr (item, st')"
  then obtain c where item: "item = materialize d i k (LastSequence st k + 1) t" and st': "st' = log_item pl item c st"
    by (rule Append_Inr) blast
  then show ?thesis
    using log_item_others [of item pl c st] by (simp add: others_still_def log_item_events rows_kept_map log_item_pinned)
qed

lemma AppendInput_still: "AppendInput pl i t k d (Some data) as st = Inr (item, st') \<Longrightarrow> others_still k st st'"
proof (erule AppendInput_Inr)
  fix st0 c
  assume ins: "insertArtifacts pl k as t st = Inr st0"
    and item: "item = materialize (d\<lparr>dr_data := Some (enc_user_instruction_data data)\<rparr>) i k (LastSequence st k + 1) t"
    and st': "st' = log_item pl item c st0"
  have "others_still k st0 st'"
    using log_item_others [of item pl c st0] item st'
    by (simp add: others_still_def log_item_events rows_kept_map log_item_pinned)
  then show "others_still k st st'"
    using insertArtifacts_log(1,2) [OF ins] by (simp add: others_still_def others_def session_events_def rows_kept_def)
qed

lemma createSession_still:
  assumes "store_ok pl st" and "createSession pl k t eids doc payload workspace conversation title st = Inr (row, st')"
  shows "others_still k st st'"
proof -
  have "ss_id row = k" by (rule createSession_Inr [OF assms(2)]) (simp add: new_row_def)
  then show ?thesis
    using createSession_ok(3,4) [OF assms] by (auto simp: others_still_def others_def rows_kept_def)
qed

lemma write_one_still:
  assumes "\<And>i t item st. f i t (eg_store e) = Inr (item, st) \<Longrightarrow> others_still k (eg_store e) st"
  shows "others_still k (eg_store e) (eg_store (snd (write_one f e)))"
  using assms by (auto simp: write_one_def Let_def split: list.splits sum.splits)

lemma startSession_store: "eg_store (snd (startSession s doc recovered e)) = eg_store e"
  by (simp add: startSession_def put_run_def Let_def split: option.splits)

lemma Resume_store: "eg_store (snd (Resume srv sid e)) = eg_store e"
  using startSession_store by (auto simp: Resume_def split: sum.splits prod.splits) (metis snd_conv)

lemma resume_each_store: "eg_store (snd (resume_each srv ss e)) = eg_store e"
proof (induction ss arbitrary: e)
  case (Cons s ss)
  obtain v e' where r: "Resume srv (ss_id s) e = (v, e')" by (cases "Resume srv (ss_id s) e")
  then have "eg_store e' = eg_store e" using Resume_store [of srv "ss_id s" e] by simp
  with Cons.IH [of e'] r show ?case by (auto split: sum.splits prod.splits)
qed simp

lemma start_new_still:
  assumes create: "\<And>t eids row st. create (hd (eg_ids e)) t eids (eg_store e) = Inr (row, st) \<Longrightarrow>
    others_still (hd (eg_ids e)) (eg_store e) st"
  shows "others_still (hd (eg_ids e)) (eg_store e) (eg_store (snd (start_new create doc e)))"
proof -
  have start: "eg_store (snd (case startSession s doc b e' of (x, e'') \<Rightarrow> (Inr x :: (engine_error, run) res, e''))) = eg_store e'"
    for s b and e' using startSession_store [of s doc b e'] by (cases "startSession s doc b e'") simp
  show ?thesis
    using create by (auto simp: start_new_def Let_def start split: list.splits sum.splits)
qed

lemma StartInputAt_still:
  assumes ok: "store_ok (en_platform env) (eg_store e)"
  shows "others_still (hd (eg_ids e)) (eg_store e) (eg_store (snd (StartInputAt env srv doc payload workspace e)))"
proof (cases "ImportProfile (time_now e) doc (eg_store e)")
  case (Inl f)
  then show ?thesis by (simp add: StartInputAt_def split: option.splits)
next
  case (Inr st)
  note frame = import_frame [OF Inr]
  have "others_still (hd (eg_ids e)) st (eg_store (snd (start_new
      (\<lambda>sid t eids. CreateSessionInput (en_platform env) sid t eids doc payload path) doc (e\<lparr>eg_store := st\<rparr>))))" for path
    using start_new_still [of "\<lambda>sid t eids. CreateSessionInput (en_platform env) sid t eids doc payload path" "e\<lparr>eg_store := st\<rparr>" doc]
      createSession_still [of "en_platform env" st] ok frame(3) by (simp add: CreateSessionInput_def)
  then have "others_still (hd (eg_ids e)) (eg_store e) (eg_store (snd (start_new
      (\<lambda>sid t eids. CreateSessionInput (en_platform env) sid t eids doc payload path) doc (e\<lparr>eg_store := st\<rparr>))))" for path
    using frame by (simp add: others_still_def others_def rows_kept_def)
  then show ?thesis using Inr by (simp add: StartInputAt_def split: option.splits)
qed

lemma ContinueInput_still:
  assumes ok: "store_ok (en_platform env) (eg_store e)"
  shows "others_still (hd (eg_ids e)) (eg_store e) (eg_store (snd (ContinueInput env srv previousID payload e)))"
proof -
  have "others_still (hd (eg_ids e)) (eg_store e) (eg_store (snd (start_new
      (\<lambda>sid t eids. CreateContinuationInput (en_platform env) sid t eids previousID doc payload) doc e)))" for doc
    by (rule start_new_still, erule CreateContinuation_Inr) (rule createSession_still [OF ok])
  then show ?thesis by (simp add: ContinueInput_def split: sum.splits)
qed

lemma SteerInput_still: "others_still k (eg_store e) (eg_store (snd (SteerInput env taken k payload e)))"
proof -
  let ?f = "\<lambda>i t. AppendInput (en_platform env) i t k
    \<lparr>dr_kind = UserInstruction, dr_actor = ''user'', dr_correlation = [], dr_causation = [], dr_data = None\<rparr>
    (Some \<lparr>ui_text = trim (display_text (pl_input payload)), ui_input = pl_input payload\<rparr>) (pl_artifacts payload)"
  have "others_still k (eg_store e) (eg_store (snd (write_one ?f e)))"
    by (rule write_one_still) (rule AppendInput_still)
  then show ?thesis by (auto simp: SteerInput_def put_run_def split: option.splits prod.splits sum.splits)
qed

lemma Cancel_still: "others_still k (eg_store e) (eg_store (snd (Cancel env k reason e)))"
proof -
  have "others_still k (eg_store e) (eg_store (snd (write_one (\<lambda>i t. Append (en_platform env) i t k (cancellation reason)) e)))"
    by (rule write_one_still) (rule Append_still)
  then show ?thesis by (auto simp: Cancel_def Let_def put_run_def split: option.splits prod.splits sum.splits)
qed

lemma run_still:
  assumes "own_log_grows (load_into e r0) r" and "rt_session r0 = k"
  shows "others_still k (eg_store e) (rt_store r)"
  using own_log_still [OF assms(1)] assms(2) by (simp add: load_fields)

lemma engine_step_still:
  assumes step: "engine_step env srv k e e'" and ok: "engine_ok (en_platform env) team e"
  shows "others_still k (eg_store e) (eg_store e')"
proof -
  have st: "store_ok (en_platform env) (eg_store e)" using ok by (simp add: engine_ok_def world_ok_def)
  have stores: "eg_store (put_run k x (save r e)) = rt_store r" "eg_store (drop_run k r' (save r e)) = rt_store r"
    "eg_store (drop_run k r' e) = eg_store e" "eg_store (save r e1) = rt_store r" for x r r' e1
    by (simp_all add: put_run_def drop_run_def save_def)
  have run: "rt_session (rn_runtime x) = k" if "map_of (eg_runs e) k = Some x" for x using run_of [OF ok that] by simp
  from step show ?thesis
  proof cases
    case (starts doc payload workspace)
    then show ?thesis using StartInputAt_still [OF st] by simp
  next
    case (continues previousID payload)
    then show ?thesis using ContinueInput_still [OF st] by simp
  next
    case (works x r)
    then show ?thesis using run_still [OF own_log.step_bounded [OF works(4)] run] by (simp add: stores)
  next
    case (finishes x r exit)
    then show ?thesis using run_still [OF finish_execute_own run] by (simp add: stores)
  next
    case (lingers i t r outcome)
    then show ?thesis
      using run_still [OF own_log.task_step_bounded lingers(3)] by (simp add: stores)
  next
    case (elsewhere d)
    show ?thesis unfolding elsewhere(1) by (rule write_one_still) (rule Append_still)
  qed (use run in \<open>auto simp: Resume_store ResumeAll_def resume_each_store SteerInput_still Cancel_still stores
      intro: run_still prepare_effect(1)\<close>)
qed

section \<open>What calls achieve\<close>

lemma session_row_member:
  assumes "distinct (map ss_id (st_sessions st))" and "s \<in> set (st_sessions st)"
  shows "session_row st (ss_id s) = Some s"
proof -
  have "find (\<lambda>t. ss_id t = ss_id s) xs = Some s" if "distinct (map ss_id xs)" "s \<in> set xs" for xs
    using that by (induction xs) (auto simp: image_iff)
  then show ?thesis using assms by (simp add: session_row_def)
qed

definition resumable :: "services \<Rightarrow> store \<Rightarrow> session \<Rightarrow> bool" where
  "resumable srv st s \<longleftrightarrow> (case pinned_document srv s st of Inl _ \<Rightarrow> False | Inr _ \<Rightarrow> True)"

text \<open>Runs are added, never replaced.\<close>

definition runs_added :: "string set \<Rightarrow> engine \<Rightarrow> engine \<Rightarrow> bool" where
  "runs_added K e e' \<longleftrightarrow> (\<forall>k. Active e' k \<longleftrightarrow> Active e k \<or> k \<in> K) \<and>
     (\<forall>k x. map_of (eg_runs e) k = Some x \<longrightarrow> map_of (eg_runs e') k = Some x)"

lemma Resume_row:
  assumes "session_row (eg_store e) (ss_id s) = Some s" and "ss_status s = StatusRunning"
  shows "\<not> resumable srv (eg_store e) s \<Longrightarrow> \<exists>f. Resume srv (ss_id s) e = (Inl f, e)"
    and "resumable srv (eg_store e) s \<Longrightarrow> \<exists>x e'. Resume srv (ss_id s) e = (Inr x, e') \<and>
      map_of (eg_runs e') (ss_id s) = Some x \<and> runs_added {ss_id s} e e'"
proof -
  have get: "get_session (eg_store e) (ss_id s) = Inr s" using assms(1) by (simp add: get_session_def)
  show "\<not> resumable srv (eg_store e) s \<Longrightarrow> \<exists>f. Resume srv (ss_id s) e = (Inl f, e)"
    using get assms(2) by (auto simp: Resume_def resumable_def split: sum.splits)
  show "resumable srv (eg_store e) s \<Longrightarrow> \<exists>x e'. Resume srv (ss_id s) e = (Inr x, e') \<and>
      map_of (eg_runs e') (ss_id s) = Some x \<and> runs_added {ss_id s} e e'"
    using get assms(2)
    by (auto simp: Resume_def resumable_def runs_added_def Active_def startSession_def put_run_def Let_def
        split: sum.splits option.splits)
qed

lemma resume_each_effect:
  assumes "resume_each srv ss e = ((f, xs), e')"
    and "\<forall>s \<in> set ss. session_row (eg_store e) (ss_id s) = Some s \<and> ss_status s = StatusRunning"
  shows "(f = None \<longleftrightarrow> (\<forall>s \<in> set ss. resumable srv (eg_store e) s)) \<and>
    map Some xs = map (\<lambda>s. map_of (eg_runs e') (ss_id s)) (takeWhile (resumable srv (eg_store e)) ss) \<and>
    runs_added (ss_id ` set (takeWhile (resumable srv (eg_store e)) ss)) e e'"
  using assms
proof (induction ss arbitrary: e xs)
  case Nil
  then show ?case by (simp add: runs_added_def)
next
  case (Cons s ss)
  note row = Resume_row [of e s srv]
  show ?case
  proof (cases "resumable srv (eg_store e) s")
    case False
    then show ?thesis using row Cons.prems by (auto simp: runs_added_def)
  next
    case True
    then obtain x e1 where r: "Resume srv (ss_id s) e = (Inr x, e1)" "map_of (eg_runs e1) (ss_id s) = Some x"
      "runs_added {ss_id s} e e1" using row Cons.prems(2) by auto
    have st: "eg_store e1 = eg_store e" using Resume_store [of srv "ss_id s" e] r by simp
    obtain xs1 where rest: "resume_each srv ss e1 = ((f, xs1), e')" "xs = x # xs1"
      using Cons.prems(1) r by (auto split: prod.splits)
    note IH = Cons.IH [OF rest(1), unfolded st]
    show ?thesis using IH Cons.prems(2) True r rest(2) by (auto simp: runs_added_def)
  qed
qed

lemma Append_last:
  assumes ok: "store_ok pl st" and app: "Append pl i t sid (cancellation reason) st = Inr (item, st')"
  shows "ev_kind item = SessionCancelled \<and> Events st' sid 0 = Events st sid 0 @ [item] \<and>
    (\<exists>s. session_row st' sid = Some s \<and> ss_status s = StatusCancelled)"
  using app
proof (rule Append_Inr)
  fix c
  assume item: "item = materialize (cancellation reason) i sid (LastSequence st sid + 1) t"
    and c: "projection_columns item = Inr c" "st' = log_item pl item c st" and known: "sid \<in> ss_id ` set (st_sessions st)"
  have ok': "store_ok pl st'" by (rule Append_ok [OF ok app])
  have ev: "Events st' sid 0 = Events st sid 0 @ [item]"
    using Events_ok [OF ok', of 0] Events_ok [OF ok, of 0] by (simp add: c(2) log_item_events item)
  have col: "c = (Some StatusCancelled, [], [])" using c(1) by (simp add: item projection_columns_def cancellation_def)
  obtain s where s: "s \<in> set (st_sessions st)" "ss_id s = sid" using known by blast
  then have "write_columns (ev_at item) c s \<in> set (st_sessions st')" "ss_id (write_columns (ev_at item) c s) = sid"
    by (auto simp: c(2) log_item_tables item)
  then have "session_row st' sid = Some (write_columns (ev_at item) c s)"
    using session_row_member [OF store_okD(1) [OF ok']] by metis
  then show ?thesis using ev by (simp add: item cancellation_def col write_columns_def)
qed

section \<open>Properties\<close>

abbreviation engine_runs :: "environment \<Rightarrow> services \<Rightarrow> engine \<Rightarrow> engine \<Rightarrow> bool" where
  "engine_runs env srv \<equiv> (\<lambda>e e'. \<exists>k. engine_step env srv k e e')\<^sup>*\<^sup>*"

lemma engine_runs_keep:
  "engine_runs env srv e e' \<Longrightarrow> engine_ok (en_platform env) team e \<Longrightarrow> addressed srv team \<Longrightarrow>
   engine_ok (en_platform env) team e'"
  by (induction rule: rtranclp_induct) (auto intro: engine_step_keeps)

lemma engine_runs_rows:
  "engine_runs env srv e e' \<Longrightarrow> engine_ok (en_platform env) team e \<Longrightarrow> addressed srv team \<Longrightarrow>
   rows_kept (eg_store e) (eg_store e')"
proof (induction rule: rtranclp_induct)
  case (step e1 e2)
  then obtain k where k: "engine_step env srv k e1 e2" by blast
  have "engine_ok (en_platform env) team e1" by (rule engine_runs_keep [OF step.hyps(1) step.prems])
  from engine_step_still [OF k this] have "rows_kept (eg_store e1) (eg_store e2)" by (simp add: others_still_def)
  with step.IH [OF step.prems] show ?case by (rule rows_kept_trans)
qed simp

text \<open>What it means in a store where rows have distinct identities: the row is found, with its columns.\<close>

lemma rows_kept_row:
  assumes "rows_kept st st'" and "store_ok pl st'" and "s \<in> set (st_sessions st)"
  shows "\<exists>s'. session_row st' (ss_id s) = Some s' \<and> pinned s' = pinned s"
  using assms(1,3) session_row_member [OF store_okD(1) [OF assms(2)]] pinnedD unfolding rows_kept_def by metis

lemma run_row:
  assumes "run_fits team st r" and "store_ok pl st"
  shows "\<exists>s. session_row st (rt_session r) = Some s \<and> rt_profile r = team (ss_digest s)"
  using assms(1) session_row_member [OF store_okD(1) [OF assms(2)]] unfolding run_fits_def by metis

definition sample_services :: services where
  "sample_services = \<lparr>sv_workspace = (\<lambda>w. Some w), sv_valid = (\<lambda>p. True), sv_yaml = sample_yaml\<lparr>ym_sha := (\<lambda>s. ''d'')\<rparr>\<rparr>"

definition sample_engine :: engine where
  "sample_engine = \<lparr>eg_store = sample_running_store\<lparr>st_profiles := [\<lparr>pr_id = ''team'', pr_revision = 1, pr_digest = ''d'',
       pr_name = ''Team'', pr_source = ''y'', pr_created = 0\<rparr>]\<rparr>,
     eg_ids = [''u'', ''v'', ''w'', ''x'', ''y'', ''z''], eg_clock = (\<lambda>n. 7), eg_ticks = 0, eg_runs = [], eg_left = []\<rparr>"

lemma sample_addressed: "addressed sample_services (\<lambda>_. sample_profile)"
proof -
  have "applyDefaults sample_profile = sample_profile"
    by (simp add: applyDefaults_def sample_profile_def CurrentSchema_def)
  then show ?thesis
    by (auto simp: addressed_def sample_services_def sample_yaml_def Parse_def sample_migrated split: if_splits)
qed

lemma sample_engine_store: "session_events (eg_store sample_engine) = session_events sample_running_store"
  "Events (eg_store sample_engine) = Events sample_running_store"
  by (intro ext, simp add: session_events_def Events_def sample_engine_def)+

lemma sample_engine_ok: "engine_ok (en_platform sample_environment) (\<lambda>_. sample_profile) sample_engine"
proof -
  have ok: "store_ok (en_platform sample_environment) (eg_store sample_engine)"
    using sample_running_store_ok unfolding store_ok_def artifacts_ok_def sample_engine_store
    by (simp add: sample_engine_def sample_environment_def)
  have p: "team_work sample_profile sample_running_projection" "set (eg_ids sample_engine) \<inter> claimed sample_running_projection = {}"
    "distinct (eg_ids sample_engine)" "set (eg_ids sample_engine) \<inter> ev_id ` set (st_events (eg_store sample_engine)) = {}"
    using sample_runtime_ok sample_runtime_replay
    by (auto simp: planned_def replay_of_def plan_fits_def sample_runtime_def newSessionRuntime_def sample_engine_def)
  have "session_fits (\<lambda>_. sample_profile) (eg_store sample_engine) (eg_ids sample_engine) s"
    if "s \<in> set (st_sessions (eg_store sample_engine))" for s
  proof -
    have "ss_id s = ''s''" using that by (simp add: sample_engine_def sample_running_store_def sample_row_def)
    then show ?thesis
      unfolding session_fits_def sample_engine_store sample_running_events [symmetric]
      using p(1,2) sample_running_replay sample_running_events by auto
  qed
  with ok p show ?thesis
    by (simp add: engine_ok_def world_ok_def) (simp add: sample_engine_def)
qed

lemma sample_engine_row: "session_row (eg_store sample_engine) ''s'' = Some ((sample_row ''s'')\<lparr>ss_leader := ''lead''\<rparr>)"
  by (simp add: session_row_def sample_engine_def sample_running_store_def sample_row_def)

text \<open>
  C2: the whole engine stays sound. From a sound state, whatever sessions are started,
  continued, resumed, steered and cancelled, however their runs interleave with each other,
  with goroutines that outlive their run and with other processes writing to the same
  store: the log of every session ever filed replays and its work was permitted by the team
  revision that session pins; a row that was filed is still there, with the identity, team
  revision, digest, conversation and workspace it was filed with; and the table holds one
  run per session, which carries the team its session's row pins and starts every attempt at
  most once. SHA-256 is assumed to tell documents apart.
\<close>

theorem engine_stays_sound:
  assumes "engine_ok (en_platform env) team e" and "addressed srv team" and "engine_runs env srv e e'"
  shows "store_ok (en_platform env) (eg_store e') \<and>
    (\<forall>s \<in> set (st_sessions (eg_store e')). \<exists>p. Replay (ss_id s) (Events (eg_store e') (ss_id s) 0) = Inr p \<and>
       team_work (team (ss_digest s)) p) \<and>
    (\<forall>s \<in> set (st_sessions (eg_store e)). \<exists>s'. session_row (eg_store e') (ss_id s) = Some s' \<and>
       ss_id s' = ss_id s \<and> ss_profile s' = ss_profile s \<and> ss_revision s' = ss_revision s \<and>
       ss_digest s' = ss_digest s \<and> ss_conversation s' = ss_conversation s \<and> ss_workspace s' = ss_workspace s) \<and>
    keys_distinct (eg_runs e') \<and>
    (\<forall>k x. map_of (eg_runs e') k = Some x \<longrightarrow> rt_session (rn_runtime x) = k \<and>
       (\<exists>s. session_row (eg_store e') k = Some s \<and> rt_profile (rn_runtime x) = team (ss_digest s)) \<and>
       distinct (map task_key (rt_tasks (rn_runtime x))))"
proof -
  have ok: "engine_ok (en_platform env) team e'" by (rule engine_runs_keep [OF assms(3,1,2)])
  then have st: "store_ok (en_platform env) (eg_store e')" by (simp add: engine_ok_def world_ok_def)
  show ?thesis
  proof (intro conjI ballI allI impI)
    show "store_ok (en_platform env) (eg_store e')" by (rule st)
    show "keys_distinct (eg_runs e')" using ok by (simp add: engine_ok_def)
    show "\<exists>p. Replay (ss_id s) (Events (eg_store e') (ss_id s) 0) = Inr p \<and> team_work (team (ss_digest s)) p"
      if "s \<in> set (st_sessions (eg_store e'))" for s
      using ok that unfolding engine_ok_def world_ok_def session_fits_def by blast
    show "\<exists>s'. session_row (eg_store e') (ss_id s) = Some s' \<and>
       ss_id s' = ss_id s \<and> ss_profile s' = ss_profile s \<and> ss_revision s' = ss_revision s \<and>
       ss_digest s' = ss_digest s \<and> ss_conversation s' = ss_conversation s \<and> ss_workspace s' = ss_workspace s"
      if "s \<in> set (st_sessions (eg_store e))" for s
      using rows_kept_row [OF engine_runs_rows [OF assms(3,1,2)] st that] by (simp add: pinned_def)
    show "rt_session (rn_runtime x) = k" "distinct (map task_key (rt_tasks (rn_runtime x)))"
      "\<exists>s. session_row (eg_store e') k = Some s \<and> rt_profile (rn_runtime x) = team (ss_digest s)"
      if "map_of (eg_runs e') k = Some x" for k x
      using run_of [OF ok that] run_row [OF _ st, of team "rn_runtime x"] by (auto simp: run_fits_def)
  qed
qed

theorem engine_stays_sound_witness:
  "(\<exists>s. session_row (eg_store (snd (Cancel sample_environment ''s'' ''stop''
     (snd (Resume sample_services ''s'' sample_engine))))) ''s'' = Some s \<and> ss_digest s = ''d'') \<and>
   store_ok (en_platform sample_environment) (eg_store (snd (Cancel sample_environment ''s'' ''stop''
     (snd (Resume sample_services ''s'' sample_engine))))) \<and>
   keys_distinct (eg_runs (snd (Cancel sample_environment ''s'' ''stop'' (snd (Resume sample_services ''s'' sample_engine)))))"
proof -
  have "engine_runs sample_environment sample_services sample_engine
      (snd (Cancel sample_environment ''s'' ''stop'' (snd (Resume sample_services ''s'' sample_engine))))"
    by (rule rtranclp.rtrancl_into_rtrancl [OF r_into_rtranclp])
      (use engine_step.resumes [of sample_environment sample_services "''s''" sample_engine]
        engine_step.cancels [of sample_environment sample_services "''s''"] in blast)+
  note sound = engine_stays_sound [OF sample_engine_ok sample_addressed this]
  have "(sample_row ''s'')\<lparr>ss_leader := ''lead''\<rparr> \<in> set (st_sessions (eg_store sample_engine))"
    by (simp add: sample_engine_def sample_running_store_def)
  with sound show ?thesis by (elim conjE) (drule (1) bspec, auto simp: sample_row_def)
qed

text \<open>
  C7: sessions do not disturb each other. A step on behalf of one session, whichever it is
  (a call, a turn of its leader, a goroutine, the end of its run), leaves the log and the
  row of every other session exactly as they were.
\<close>

theorem sessions_apart:
  assumes "engine_ok (en_platform env) team e" and "engine_step env srv k e e'" and "other \<noteq> k"
  shows "session_events (eg_store e') other = session_events (eg_store e) other \<and>
    session_row (eg_store e') other = session_row (eg_store e) other"
  using engine_step_still [OF assms(2,1)] others_row [of k "eg_store e'" "eg_store e" other] assms(3)
  by (simp add: others_still_def)

theorem sessions_apart_witness:
  "session_row (eg_store (snd (StartInputAt sample_environment sample_services
     \<lparr>doc_profile = sample_profile, doc_source = ''y'', doc_digest = ''d''\<rparr> (text_payload ''go'') ''w'' sample_engine))) ''s'' =
   Some ((sample_row ''s'')\<lparr>ss_leader := ''lead''\<rparr>)"
proof -
  let ?doc = "\<lparr>doc_profile = sample_profile, doc_source = ''y'', doc_digest = ''d''\<rparr>"
  have "applyDefaults sample_profile = sample_profile"
    by (simp add: applyDefaults_def sample_profile_def CurrentSchema_def)
  then have "parsed sample_services ?doc"
    by (auto simp: parsed_def sample_services_def sample_yaml_def Parse_def sample_migrated intro!: exI [of _ "''y''"])
  then have "engine_step sample_environment sample_services ''u'' sample_engine
      (snd (StartInputAt sample_environment sample_services ?doc (text_payload ''go'') ''w'' sample_engine))"
    by (rule engine_step.starts) (simp add: sample_engine_def)
  from sessions_apart [OF sample_engine_ok this, of "''s''"] show ?thesis by (simp add: sample_engine_row)
qed

text \<open>
  What \<open>ResumeAll\<close> brings back. It goes through the running sessions in the order of
  the listing and stops at the first whose pinned team cannot be loaded, has another digest
  or is no longer offered by the gateway; it returns an error exactly when there is one. The
  sessions before it are in the table afterwards, with the runs that are returned; nothing
  else is added, a run that was there is kept, and the store is not touched.
\<close>

theorem ResumeAll_contract:
  assumes ok: "store_ok pl (eg_store e)" and run: "ResumeAll srv e = ((f, xs), e')"
  shows "eg_store e' = eg_store e \<and>
    (f = None \<longleftrightarrow> (\<forall>s \<in> set (st_sessions (eg_store e)). ss_status s = StatusRunning \<longrightarrow> resumable srv (eg_store e) s)) \<and>
    map Some xs = map (\<lambda>s. map_of (eg_runs e') (ss_id s))
      (takeWhile (resumable srv (eg_store e)) (RecoverableSessions (eg_store e))) \<and>
    runs_added (ss_id ` set (takeWhile (resumable srv (eg_store e)) (RecoverableSessions (eg_store e)))) e e'"
proof -
  have rows: "\<forall>s \<in> set (RecoverableSessions (eg_store e)).
      session_row (eg_store e) (ss_id s) = Some s \<and> ss_status s = StatusRunning"
    using session_row_member [OF store_okD(1) [OF ok]] by (simp add: RecoverableSessions_def)
  have "eg_store e' = eg_store e" using resume_each_store [of srv] run by (metis ResumeAll_def snd_conv)
  then show ?thesis
    using resume_each_effect [OF run [unfolded ResumeAll_def] rows] by (auto simp: RecoverableSessions_def)
qed

theorem ResumeAll_contract_witness:
  "\<exists>xs e'. ResumeAll sample_services sample_engine = ((None, xs), e') \<and> Active e' ''s'' \<and> length xs = 1"
proof -
  obtain f xs e' where run: "ResumeAll sample_services sample_engine = ((f, xs), e')" by (metis surj_pair)
  have store: "store_ok (en_platform sample_environment) (eg_store sample_engine)"
    using sample_engine_ok by (simp add: engine_ok_def world_ok_def)
  have rows: "st_sessions (eg_store sample_engine) = [(sample_row ''s'')\<lparr>ss_leader := ''lead''\<rparr>]"
    by (simp add: sample_engine_def sample_running_store_def)
  then have listed: "RecoverableSessions (eg_store sample_engine) = [(sample_row ''s'')\<lparr>ss_leader := ''lead''\<rparr>]"
    by (simp add: RecoverableSessions_def sample_row_def)
  have "resumable sample_services (eg_store sample_engine) ((sample_row ''s'')\<lparr>ss_leader := ''lead''\<rparr>)"
    by (simp add: resumable_def pinned_document_def stored_profile_def sample_services_def sample_yaml_def sample_engine_def
        sample_row_def Parse_def sample_migrated)
  then have "f = None" "length (map Some xs) = 1" "Active e' ''s''"
    using ResumeAll_contract [OF store run] by (simp_all add: rows listed runs_added_def sample_row_def)
  then show ?thesis using run by auto
qed

text \<open>
  What \<open>Cancel\<close> does when it succeeds. A session that has a run, or is recorded as
  running, gets one more event, the cancellation, and its row says cancelled; its run is
  marked as cancelled by the user and its context is closed. Any other session is left as
  it was. The status before is not looked at when there is a run: an answer recorded just
  before the call is overwritten.
\<close>

theorem Cancel_contract:
  assumes ok: "store_ok (en_platform env) (eg_store e)" and run: "Cancel env sid reason e = (Inr (), e')"
  shows "if Active e sid \<or> (\<exists>s. session_row (eg_store e) sid = Some s \<and> ss_status s = StatusRunning)
    then (\<exists>item. ev_kind item = SessionCancelled \<and> Events (eg_store e') sid 0 = Events (eg_store e) sid 0 @ [item]) \<and>
      (\<exists>s. session_row (eg_store e') sid = Some s \<and> ss_status s = StatusCancelled) \<and>
      (\<forall>x. map_of (eg_runs e) sid = Some x \<longrightarrow> map_of (eg_runs e') sid = Some (cancel_run x))
    else e' = e"
proof -
  let ?f = "\<lambda>i t. Append (en_platform env) i t sid (cancellation reason)"
  have written: "eg_runs e1 = eg_runs e \<and>
      (\<exists>item. ev_kind item = SessionCancelled \<and> Events (eg_store e1) sid 0 = Events (eg_store e) sid 0 @ [item]) \<and>
      (\<exists>s. session_row (eg_store e1) sid = Some s \<and> ss_status s = StatusCancelled)"
    if "write_one ?f e = (Inr item, e1)" for item e1
    using that Append_last [OF ok]
    by (fastforce simp: write_one_def Let_def split: list.splits sum.splits)
  show ?thesis
    using run written
    by (auto simp: Cancel_def Let_def Active_def get_session_def put_run_def split: option.splits sum.splits prod.splits if_splits)
qed

theorem Cancel_contract_witness:
  "\<exists>e'. Cancel sample_environment ''s'' ''stop'' sample_engine = (Inr (), e') \<and>
     (\<exists>s. session_row (eg_store e') ''s'' = Some s \<and> ss_status s = StatusCancelled)"
proof -
  have ok: "store_ok (en_platform sample_environment) (eg_store sample_engine)"
    using sample_engine_ok by (simp add: engine_ok_def world_ok_def)
  have "\<exists>item st. Append (en_platform sample_environment) ''u'' 7 ''s'' (cancellation ''stop'') (eg_store sample_engine) = Inr (item, st)"
    using Append_succeeds [OF ok, of "''s''" "''u''" "cancellation ''stop''" 7 "(Some StatusCancelled, [], [])"]
    by (auto simp: sample_engine_def sample_running_store_def sample_row_def sample_running_log_def sample_event_def
        projection_columns_def cancellation_def)
  then have "\<exists>item e1. write_one (\<lambda>i t. Append (en_platform sample_environment) i t ''s'' (cancellation ''stop''))
      sample_engine = (Inr item, e1)"
    by (auto simp: write_one_def time_now_def Let_def sample_engine_def)
  moreover have "map_of (eg_runs sample_engine) ''s'' = None" by (simp add: sample_engine_def)
  moreover have "get_session (eg_store sample_engine) ''s'' = Inr ((sample_row ''s'')\<lparr>ss_leader := ''lead''\<rparr>)"
    by (simp add: get_session_def sample_engine_row)
  ultimately obtain e' where run: "Cancel sample_environment ''s'' ''stop'' sample_engine = (Inr (), e')"
    by (auto simp: Cancel_def Let_def sample_row_def)
  from Cancel_contract [OF ok run] run sample_engine_row show ?thesis by (auto simp: sample_row_def)
qed

end
