(* ===== verification/Files.thy ===== *)
theory Files
  imports Prelude
begin

text \<open>
  Paths and the confinement of file tools to the session's workspace
  (internal/tooling/filesystem.go). \<open>path/filepath\<close> is modelled as the code uses it on Unix:
  a cleaned absolute path is the list of its elements. \<open>EvalSymlinks\<close> asks the file system
  and is an argument; the file backend and its tools are third-party, so a request is
  modelled up to what is handed to them.
\<close>

section \<open>Paths\<close>

type_synonym path = "string list"

definition rooted :: "string \<Rightarrow> bool" where
  "rooted s \<longleftrightarrow> prefix ''/'' s"

text \<open>The elements of a path; empty ones and dots name nothing.\<close>

definition elements :: "string \<Rightarrow> path" where
  "elements s = filter (\<lambda>c. c \<noteq> [] \<and> c \<noteq> ''.'') (split_on (CHR ''/'') s)"

text \<open>One element read by \<open>Clean\<close>; the stack holds the elements kept, last first.\<close>

definition clean_element :: "bool \<Rightarrow> path \<Rightarrow> string \<Rightarrow> path" where
  "clean_element absolute kept c =
     (if c \<noteq> ''..'' then c # kept
      else case kept of
        [] \<Rightarrow> if absolute then [] else [''..'']
      | k # ks \<Rightarrow> if k = ''..'' then ''..'' # kept else ks)"

definition cleaned :: "bool \<Rightarrow> path \<Rightarrow> path" where
  "cleaned absolute cs = rev (foldl (clean_element absolute) [] cs)"

text \<open>\<open>filepath.Clean\<close>, \<open>Join\<close> and \<open>Rel\<close> (of absolute paths).\<close>

definition Clean :: "string \<Rightarrow> string" where
  "Clean s =
     (let out = (if rooted s then ''/'' else []) @ join ''/'' (cleaned (rooted s) (elements s))
      in if out = [] then ''.'' else out)"

definition Join :: "string list \<Rightarrow> string" where
  "Join parts =
     (case dropWhile (\<lambda>p. p = []) parts of [] \<Rightarrow> [] | ps \<Rightarrow> Clean (join ''/'' ps))"

definition text_of_path :: "path \<Rightarrow> string" where
  "text_of_path p = ''/'' @ join ''/'' p"

definition Rel :: "path \<Rightarrow> path \<Rightarrow> path" where
  "Rel base target =
     (let common = length (longest_common_prefix base target)
      in replicate (length base - common) ''..'' @ drop common target)"

text \<open>\<open>relative == ".." || strings.HasPrefix(relative, "../")\<close>\<close>

definition leaves :: "path \<Rightarrow> bool" where
  "leaves relative \<longleftrightarrow> (case relative of [] \<Rightarrow> False | c # _ \<Rightarrow> c = ''..'')"

section \<open>Resolving symbolic links\<close>

datatype evaluation = Found path | Missing | Broken

datatype file_error =
    Outside string
  | ResolvesOutside string
  | SymlinkFailed
  | NoAncestor
  | AbsolutePath
  | ArchiveImmutable
  | ArchiveUnavailable
  | ArchiveInvalid

text \<open>
  \<open>resolveExistingAncestor\<close>: the longest ancestor that exists is resolved, the rest is
  appended. \<open>butlast\<close> and \<open>last\<close> are \<open>filepath.Dir\<close> and \<open>Base\<close>; the root directory is its own parent.
\<close>

function resolve_probe :: "(path \<Rightarrow> evaluation) \<Rightarrow> path \<Rightarrow> path \<Rightarrow> (file_error, path) res" where
  "resolve_probe eval probe deeper =
     (case eval probe of
        Found r \<Rightarrow> Inr (cleaned True (r @ deeper))
      | Broken \<Rightarrow> Inl SymlinkFailed
      | Missing \<Rightarrow>
          if probe = [] then Inl NoAncestor
          else resolve_probe eval (butlast probe) (last probe # deeper))"
  by pat_completeness auto
termination by (relation "measure (\<lambda>(eval, probe, deeper). length probe)") auto

declare resolve_probe.simps [simp del]

definition resolveExistingAncestor :: "(path \<Rightarrow> evaluation) \<Rightarrow> path \<Rightarrow> (file_error, path) res" where
  "resolveExistingAncestor eval candidate = resolve_probe eval candidate []"

section \<open>The rooted backend\<close>

definition toolOutputPathPrefix :: string where
  "toolOutputPathPrefix = ''alt-tool-output://''"

definition IsToolOutputReference :: "string \<Rightarrow> bool" where
  "IsToolOutputReference reference \<longleftrightarrow> prefix toolOutputPathPrefix (trim reference)"

text \<open>\<open>rb_archive\<close> is \<open>None\<close> where the code holds the empty string.\<close>

record backend =
  rb_root :: path
  rb_archive :: "path option"
  rb_allow_archive_write :: bool

definition resolveToolOutput :: "backend \<Rightarrow> string \<Rightarrow> (file_error, path) res" where
  "resolveToolOutput b p =
     (case rb_archive b of
        None \<Rightarrow> Inl ArchiveUnavailable
      | Some archive \<Rightarrow>
          let relative = drop (length toolOutputPathPrefix) p;
              storage = archive @ [''tool-output''];
              candidate = cleaned True (storage @ elements relative)
          in if relative = [] \<or> leaves (Rel storage candidate) then Inl ArchiveInvalid else Inr candidate)"

definition candidate_path :: "path \<Rightarrow> string \<Rightarrow> path" where
  "candidate_path base p = cleaned True ((if rooted p then [] else base) @ elements p)"

text \<open>Inside the workspace as written, and inside it once links are followed.\<close>

definition confine :: "(path \<Rightarrow> evaluation) \<Rightarrow> path \<Rightarrow> string \<Rightarrow> path \<Rightarrow> (file_error, path) res" where
  "confine eval base p candidate =
     (if leaves (Rel base candidate) then Inl (Outside p)
      else res_bind (resolveExistingAncestor eval candidate) (\<lambda>resolved.
        if leaves (Rel base resolved) then Inl (ResolvesOutside p) else Inr resolved))"

definition backend_resolve :: "(path \<Rightarrow> evaluation) \<Rightarrow> backend \<Rightarrow> string \<Rightarrow> (file_error, path) res" where
  "backend_resolve eval b p =
     (if prefix toolOutputPathPrefix p then resolveToolOutput b p
      else if trim p = [] then Inr (rb_root b)
      else confine eval (rb_root b) p (candidate_path (rb_root b) p))"

text \<open>The requests of the file tools, and what becomes of one.\<close>

datatype file_request = LsInfo string | ReadFile string | GrepRaw string | GlobInfo string
  | WriteFile string string | EditFile string

datatype file_action = Delegate path | Archive path string

fun backend_route :: "(path \<Rightarrow> evaluation) \<Rightarrow> backend \<Rightarrow> file_request \<Rightarrow> (file_error, file_action) res" where
  "backend_route eval b (WriteFile p content) =
     (if prefix toolOutputPathPrefix p \<and> \<not> rb_allow_archive_write b then Inl ArchiveImmutable
      else res_bind (backend_resolve eval b p) (\<lambda>q.
        Inr (if prefix toolOutputPathPrefix p then Archive q content else Delegate q)))"
| "backend_route eval b (EditFile p) =
     (if prefix toolOutputPathPrefix p then Inl ArchiveImmutable
      else res_bind (backend_resolve eval b p) (\<lambda>q. Inr (Delegate q)))"
| "backend_route eval b (LsInfo p) = res_bind (backend_resolve eval b p) (\<lambda>q. Inr (Delegate q))"
| "backend_route eval b (ReadFile p) = res_bind (backend_resolve eval b p) (\<lambda>q. Inr (Delegate q))"
| "backend_route eval b (GrepRaw p) = res_bind (backend_resolve eval b p) (\<lambda>q. Inr (Delegate q))"
| "backend_route eval b (GlobInfo p) = res_bind (backend_resolve eval b p) (\<lambda>q. Inr (Delegate q))"

definition changes_files :: "file_request \<Rightarrow> bool" where
  "changes_files r \<longleftrightarrow> (case r of WriteFile _ _ \<Rightarrow> True | EditFile _ \<Rightarrow> True | _ \<Rightarrow> False)"

section \<open>What cleaning gives\<close>

text \<open>No element of a cleaned absolute path is empty, a dot or two dots.\<close>

definition plain_path :: "path \<Rightarrow> bool" where
  "plain_path p \<longleftrightarrow> (\<forall>c \<in> set p. c \<noteq> [] \<and> c \<noteq> ''.'' \<and> c \<noteq> ''..'' \<and> CHR ''/'' \<notin> set c)"

lemma cleaned_no_dots: "''..'' \<notin> set (cleaned True cs)"
proof -
  have "''..'' \<notin> set (foldl (clean_element True) kept cs)" if "''..'' \<notin> set kept" for kept
    using that
  proof (induction cs arbitrary: kept)
    case (Cons c cs)
    have "''..'' \<notin> set (clean_element True kept c)"
      using Cons.prems by (auto simp: clean_element_def split: list.splits)
    then show ?case using Cons.IH by simp
  qed simp
  then show ?thesis by (simp add: cleaned_def)
qed

lemma cleaned_subset: "set (cleaned True cs) \<subseteq> set cs"
proof -
  have "set (foldl (clean_element True) kept cs) \<subseteq> set kept \<union> set cs" for kept
  proof (induction cs arbitrary: kept)
    case (Cons c cs)
    have "set (clean_element True kept c) \<subseteq> insert c (set kept)"
      by (auto simp: clean_element_def split: list.splits)
    then show ?case using Cons.IH [of "clean_element True kept c"] by fastforce
  qed simp
  from this [of "[]"] show ?thesis by (simp add: cleaned_def)
qed

lemma cleaned_plain: "''..'' \<notin> set cs \<Longrightarrow> cleaned True cs = cs"
proof -
  have "foldl (clean_element True) kept cs = rev cs @ kept" if "''..'' \<notin> set cs" for kept
    using that by (induction cs arbitrary: kept) (auto simp: clean_element_def)
  from this [of "[]"] show "''..'' \<notin> set cs \<Longrightarrow> cleaned True cs = cs" by (simp add: cleaned_def)
qed

lemma Rel_inside: "''..'' \<notin> set target \<Longrightarrow> leaves (Rel base target) \<longleftrightarrow> \<not> prefix base target"
proof -
  assume plain: "''..'' \<notin> set target"
  let ?k = "length (longest_common_prefix base target)"
  show ?thesis
  proof (cases "prefix base target")
    case True
    then have "longest_common_prefix base target = base"
      by (induction base target rule: longest_common_prefix.induct) auto
    moreover have "\<not> leaves (drop (length base) target)"
      using plain set_drop_subset [of "length base" target] by (auto simp: leaves_def split: list.splits)
    ultimately show ?thesis using True by (simp add: Rel_def Let_def)
  next
    case False
    have "?k < length base"
    proof (rule ccontr)
      assume "\<not> ?k < length base"
      then have "longest_common_prefix base target = base"
        using longest_common_prefix_prefix1 [of base target]
        by (metis leI nat_less_le not_equal_is_parallel parallelD1 prefix_length_le prefix_order.refl)
      then show False using False longest_common_prefix_prefix2 [of base target] by simp
    qed
    then obtain n where "length base - ?k = Suc n" by (metis Suc_diff_Suc)
    then show ?thesis using False by (simp add: Rel_def Let_def leaves_def)
  qed
qed

lemma resolve_probe_plain: "resolve_probe eval probe deeper = Inr q \<Longrightarrow> ''..'' \<notin> set q"
  by (induction eval probe deeper rule: resolve_probe.induct)
    (subst (asm) (2) resolve_probe.simps, auto split: evaluation.splits if_splits simp: cleaned_no_dots)

lemma confine_Inr:
  assumes "confine eval base p candidate = Inr q"
  shows "prefix base q" and "''..'' \<notin> set q"
proof -
  have "resolveExistingAncestor eval candidate = Inr q" and inside: "\<not> leaves (Rel base q)"
    using assms by (auto simp: confine_def res_bind_Inr_iff split: if_splits)
  then show plain: "''..'' \<notin> set q" unfolding resolveExistingAncestor_def by (blast dest: resolve_probe_plain)
  show "prefix base q" using inside Rel_inside [OF plain] by simp
qed

lemma resolveToolOutput_Inr:
  "resolveToolOutput b p = Inr q \<Longrightarrow>
   \<exists>a. rb_archive b = Some a \<and> prefix (a @ [''tool-output'']) q \<and> ''..'' \<notin> set q"
  using Rel_inside [OF cleaned_no_dots] cleaned_no_dots
  by (auto simp: resolveToolOutput_def Let_def split: option.splits if_splits)

text \<open>The element lists and the strings they stand for.\<close>

lemma elements_slash: "elements (CHR ''/'' # s) = elements s"
  by (simp add: elements_def)

lemma elements_append: "CHR ''/'' \<notin> set c \<Longrightarrow> c \<noteq> [] \<Longrightarrow> c \<noteq> ''.'' \<Longrightarrow>
    elements (c @ CHR ''/'' # s) = c # elements s"
  by (simp add: elements_def split_on_append)

lemma elements_single: "CHR ''/'' \<notin> set c \<Longrightarrow> c \<noteq> [] \<Longrightarrow> c \<noteq> ''.'' \<Longrightarrow> elements c = [c]"
  by (simp add: elements_def split_on_no_sep)

lemma elements_join: "plain_path p \<Longrightarrow> elements (join ''/'' p @ CHR ''/'' # s) = p @ elements s"
proof (induction p)
  case Nil
  then show ?case by (simp add: elements_slash)
next
  case (Cons x xs)
  then show ?case by (cases xs) (simp_all add: plain_path_def elements_append)
qed

text \<open>
  What the code computes on strings, \<open>Clean(Join(base, path))\<close> or \<open>Clean(path)\<close>, is the
  text of \<open>candidate_path\<close>.
\<close>

lemma candidate_path_text:
  assumes "plain_path base" and "p \<noteq> []"
  shows "(if rooted p then Clean p else Join [text_of_path base, p]) = text_of_path (candidate_path base p)"
proof (cases "rooted p")
  case True
  then show ?thesis by (simp add: Clean_def text_of_path_def candidate_path_def Let_def)
next
  case False
  have join: "join ''/'' [text_of_path base, p] = CHR ''/'' # join ''/'' base @ CHR ''/'' # p"
    by (simp add: text_of_path_def)
  have "Join [text_of_path base, p] = Clean (CHR ''/'' # join ''/'' base @ CHR ''/'' # p)"
    using join by (simp add: Join_def text_of_path_def)
  also have "\<dots> = text_of_path (cleaned True (base @ elements p))"
    using elements_join [OF assms(1), of p] by (simp add: Clean_def rooted_def Let_def text_of_path_def elements_slash)
  finally show ?thesis using False by (simp add: candidate_path_def)
qed

section \<open>Properties\<close>

definition sample_backend :: backend where
  "sample_backend = \<lparr>rb_root = [''work''], rb_archive = Some [''arc''], rb_allow_archive_write = False\<rparr>"

text \<open>
  C17: file tools stay in the workspace. Whatever path a model writes into a file request, with
  dots, absolute, or through symbolic links, the path that reaches the file backend lies
  under the workspace once links are followed, or, for requests that only read, in the
  \<open>tool-output\<close> directory of the archive. A write into the archive happens only for a backend
  that is allowed to, and only in that directory.
\<close>

theorem backend_confined:
  assumes "backend_route eval b r = Inr action" and "''..'' \<notin> set (rb_root b)"
  shows "case action of
      Delegate q \<Rightarrow> ''..'' \<notin> set q \<and> (prefix (rb_root b) q \<or> \<not> changes_files r \<and>
        (\<exists>a. rb_archive b = Some a \<and> prefix (a @ [''tool-output'']) q))
    | Archive q _ \<Rightarrow> ''..'' \<notin> set q \<and> rb_allow_archive_write b \<and>
        (\<exists>a. rb_archive b = Some a \<and> prefix (a @ [''tool-output'']) q)"
proof -
  have within: "''..'' \<notin> set q \<and> (if prefix toolOutputPathPrefix p
      then \<exists>a. rb_archive b = Some a \<and> prefix (a @ [''tool-output'']) q else prefix (rb_root b) q)"
    if "backend_resolve eval b p = Inr q" for p q
    using that assms(2) resolveToolOutput_Inr [of b p q] confine_Inr [of eval "rb_root b" p _ q]
    by (auto simp: backend_resolve_def split: if_splits)
  show ?thesis
    using assms(1)
    by (cases r) (auto simp: res_bind_Inr_iff changes_files_def split: if_splits dest!: within)
qed

theorem backend_confined_witness:
  "backend_route Found sample_backend (EditFile ''a/../b'') = Inr (Delegate [''work'', ''b'']) \<and>
   prefix [''work''] [''work'', ''b'']"
proof -
  have "trim ''a/../b'' = ''a/../b''" by (simp add: trim_plain plain_byte_def less_char_def)
  then have "backend_route Found sample_backend (EditFile ''a/../b'') = Inr (Delegate [''work'', ''b''])"
    by (simp add: sample_backend_def backend_resolve_def toolOutputPathPrefix_def confine_def candidate_path_def
        rooted_def elements_def cleaned_def clean_element_def Rel_def leaves_def resolveExistingAncestor_def
        resolve_probe.simps)
  with backend_confined [OF this] show ?thesis by (simp add: sample_backend_def changes_files_def)
qed

text \<open>
  The workspace check refuses nothing it need not. A path is accepted exactly when it is
  inside the workspace as written and the place it resolves to is inside as well; then the
  result is that place.
\<close>

theorem confine_exact:
  assumes "''..'' \<notin> set candidate"
  shows "confine eval base p candidate = Inr q \<longleftrightarrow>
    prefix base candidate \<and> resolveExistingAncestor eval candidate = Inr q \<and> prefix base q"
proof -
  have "resolveExistingAncestor eval candidate = Inr q \<Longrightarrow> leaves (Rel base q) \<longleftrightarrow> \<not> prefix base q"
    using Rel_inside resolve_probe_plain unfolding resolveExistingAncestor_def by blast
  then show ?thesis
    using Rel_inside [OF assms] by (auto simp: confine_def res_bind_Inr_iff split: if_splits)
qed

theorem confine_exact_witness:
  "confine (\<lambda>p. if p = [''work''] then Found [''work''] else Missing) [''work''] ''x'' [''work'', ''x''] =
   Inr [''work'', ''x'']"
  using confine_exact [of "[''work'', ''x'']" "\<lambda>p. if p = [''work''] then Found [''work''] else Missing" "[''work'']" "''x''" "[''work'', ''x'']"]
  by (simp add: resolveExistingAncestor_def resolve_probe.simps cleaned_def clean_element_def)

end
