(* ===== verification/Patch.thy ===== *)
theory Patch
  imports Files
begin

text \<open>
  Applying a patch to the workspace (internal/tooling/patch.go): the changes are planned
  against the files as they are, staged in temporary files, published by renames, and rolled
  back when a step fails. The diff package is third-party: parsing a patch and applying one
  file's hunks are arguments. The file system is a table from paths to nodes; each system
  call may fail.
\<close>

section \<open>The file system\<close>

datatype node = Dir | File nat string | Special

text \<open>
  \<open>dk_calls\<close> numbers the system calls. \<open>kn_fault n\<close>: call \<open>n\<close>, whose error the code looks
  at, fails; \<open>kn_lost n\<close>: call \<open>n\<close> fails and the code ignores it; \<open>kn_name n\<close> is the random
  part of the file name drawn at call \<open>n\<close>. A call that fails has no effect.
\<close>

record disk =
  dk_nodes :: "(path, node) gomap"
  dk_calls :: nat

record kernel =
  kn_fault :: "nat \<Rightarrow> bool"
  kn_lost :: "nat \<Rightarrow> bool"
  kn_name :: "nat \<Rightarrow> string"

type_synonym syscall = "(path, node) gomap \<Rightarrow> (path, node) gomap option"

definition sys_mkdir :: "path \<Rightarrow> syscall" where
  "sys_mkdir p ns =
     (if p = [] \<or> map_of ns p \<noteq> None \<or> map_of ns (butlast p) \<noteq> Some Dir then None
      else Some (AList.update p Dir ns))"

text \<open>\<open>O_CREATE|O_EXCL\<close> with mode 0600.\<close>

definition sys_create :: "path \<Rightarrow> syscall" where
  "sys_create p ns =
     (if p = [] \<or> map_of ns p \<noteq> None \<or> map_of ns (butlast p) \<noteq> Some Dir then None
      else Some (AList.update p (File 384 []) ns))"

definition sys_chmod :: "path \<Rightarrow> nat \<Rightarrow> syscall" where
  "sys_chmod p mode ns =
     (case map_of ns p of Some (File _ content) \<Rightarrow> Some (AList.update p (File mode content) ns) | _ \<Rightarrow> None)"

definition sys_write :: "path \<Rightarrow> string \<Rightarrow> syscall" where
  "sys_write p content ns =
     (case map_of ns p of Some (File mode _) \<Rightarrow> Some (AList.update p (File mode content) ns) | _ \<Rightarrow> None)"

definition sys_sync :: syscall where
  "sys_sync ns = Some ns"

text \<open>
  \<open>rename(2)\<close>: a file replaces a file, a directory moves with all that is in it to a
  name that is free.
\<close>

definition moved :: "path \<Rightarrow> path \<Rightarrow> path \<Rightarrow> path" where
  "moved a b p = (if prefix a p then b @ drop (length a) p else p)"

definition sys_rename :: "path \<Rightarrow> path \<Rightarrow> syscall" where
  "sys_rename a b ns =
     (case map_of ns a of
        None \<Rightarrow> None
      | Some Dir \<Rightarrow>
          if prefix a b \<or> map_of ns b \<noteq> None \<or> map_of ns (butlast b) \<noteq> Some Dir then None
          else Some (map (\<lambda>(p, n). (moved a b p, n)) ns)
      | Some n \<Rightarrow>
          if b = [] \<or> map_of ns b = Some Dir \<or> map_of ns (butlast b) \<noteq> Some Dir then None
          else if a = b then Some ns
          else Some (AList.update b n (AList.delete a ns)))"

definition has_entries :: "path \<Rightarrow> (path, node) gomap \<Rightarrow> bool" where
  "has_entries p ns \<longleftrightarrow> (\<exists>q \<in> set (map fst ns). q \<noteq> [] \<and> butlast q = p)"

definition sys_remove :: "path \<Rightarrow> syscall" where
  "sys_remove p ns =
     (case map_of ns p of
        None \<Rightarrow> None
      | Some Dir \<Rightarrow> if has_entries p ns then None else Some (AList.delete p ns)
      | Some _ \<Rightarrow> Some (AList.delete p ns))"

definition tick :: "disk \<Rightarrow> disk" where
  "tick d = d\<lparr>dk_calls := Suc (dk_calls d)\<rparr>"

text \<open>A call whose error is looked at, and one written \<open>_ = os.\<dots>\<close>.\<close>

definition checked :: "kernel \<Rightarrow> syscall \<Rightarrow> disk \<Rightarrow> bool \<times> disk" where
  "checked kn f d =
     (if kn_fault kn (dk_calls d) then (False, tick d)
      else case f (dk_nodes d) of None \<Rightarrow> (False, tick d) | Some ns \<Rightarrow> (True, tick (d\<lparr>dk_nodes := ns\<rparr>)))"

definition ignored :: "kernel \<Rightarrow> syscall \<Rightarrow> disk \<Rightarrow> disk" where
  "ignored kn f d =
     (if kn_lost kn (dk_calls d) then tick d
      else case f (dk_nodes d) of None \<Rightarrow> tick d | Some ns \<Rightarrow> tick (d\<lparr>dk_nodes := ns\<rparr>))"

text \<open>\<open>Stat\<close> and \<open>Lstat\<close>: a fault, or what is there.\<close>

definition stat :: "kernel \<Rightarrow> path \<Rightarrow> disk \<Rightarrow> node option option \<times> disk" where
  "stat kn p d =
     (if kn_fault kn (dk_calls d) then (None, tick d) else (Some (map_of (dk_nodes d) p), tick d))"

section \<open>Data\<close>

record plannedChange =
  cg_old :: "path option"
  cg_new :: "path option"
  cg_content :: string
  cg_mode :: nat
  cg_delete :: bool

record stagedChange =
  it_plan :: plannedChange
  it_temp :: "path option"
  it_oldBackup :: "path option"
  it_newBackup :: "path option"
  it_oldMoved :: bool
  it_newMoved :: bool
  it_newWritten :: bool
  it_createdDirs :: "path list"

datatype patch_error =
    PatchRequired
  | PatchUnparsed
  | PatchPreamble
  | PatchEmpty
  | PatchBinary
  | PatchCopy
  | PatchPath file_error
  | PatchPathless
  | PatchDuplicate path
  | PatchInspect path
  | PatchIrregular path
  | PatchRead path
  | PatchExists path
  | PatchApply path
  | PatchParents
  | PatchStage
  | PatchCommit path

text \<open>What the diff package tells about one file.\<close>

record diff_file =
  df_old_name :: string
  df_new_name :: string
  df_is_new :: bool
  df_is_delete :: bool
  df_is_copy :: bool
  df_is_binary :: bool
  df_new_mode :: nat

section \<open>Planning\<close>

definition resolvePatchPath :: "(path \<Rightarrow> evaluation) \<Rightarrow> path \<Rightarrow> string \<Rightarrow> (file_error, path option) res" where
  "resolvePatchPath eval base name =
     (let n = trim name in
      if n = [] \<or> n = ''/dev/null'' then Inr None
      else if rooted n then Inl AbsolutePath
      else res_bind (confine eval base n (candidate_path base n)) (\<lambda>q. Inr (Some q)))"

text \<open>The paths of one change, each once, against those claimed by earlier ones.\<close>

fun claim :: "path list \<Rightarrow> path list \<Rightarrow> path list \<Rightarrow> (patch_error, path list) res" where
  "claim mine claimed [] = Inr claimed"
| "claim mine claimed (p # ps) =
     (if p \<in> set mine then claim mine claimed ps
      else if p \<in> set claimed then Inl (PatchDuplicate p)
      else claim (p # mine) (claimed @ [p]) ps)"

definition paths_of :: "path option \<Rightarrow> path option \<Rightarrow> path list" where
  "paths_of old new = (case old of None \<Rightarrow> [] | Some p \<Rightarrow> [p]) @ (case new of None \<Rightarrow> [] | Some p \<Rightarrow> [p])"

definition firstPath :: "path option \<Rightarrow> path option \<Rightarrow> path" where
  "firstPath a b = (case a of Some p \<Rightarrow> p | None \<Rightarrow> (case b of Some p \<Rightarrow> p | None \<Rightarrow> []))"

definition absent :: "(path, node) gomap \<Rightarrow> path \<Rightarrow> (patch_error, unit) res" where
  "absent ns p = (if map_of ns p \<noteq> None then Inl (PatchExists p) else Inr ())"

text \<open>The source of a change and its permissions; a new file must not exist.\<close>

text \<open>\<open>FileMode.Perm\<close>: the lower nine bits (\<open>0o777\<close>).\<close>

definition Perm :: "nat \<Rightarrow> nat" where
  "Perm mode = mode mod 512"

definition read_source :: "(path, node) gomap \<Rightarrow> path option \<Rightarrow> path option \<Rightarrow> (patch_error, string \<times> nat) res" where
  "read_source ns old new =
     (case old of
        Some p \<Rightarrow>
          (case map_of ns p of
             None \<Rightarrow> Inl (PatchInspect p)
           | Some (File mode content) \<Rightarrow> Inr (content, Perm mode)
           | Some _ \<Rightarrow> Inl (PatchIrregular p))
      | None \<Rightarrow>
          (case new of
             None \<Rightarrow> Inl PatchPathless
           | Some q \<Rightarrow> res_bind (absent ns q) (\<lambda>_. Inr ([], 420))))"

text \<open>
  \<open>hunks file source\<close> is the diff package's \<open>Apply\<close>. The loop body, in the order of its
  checks; inspecting and reading the sources does not change the disk.
\<close>

definition plan_change ::
    "(diff_file \<Rightarrow> string \<Rightarrow> string option) \<Rightarrow> (path, node) gomap \<Rightarrow> path list \<Rightarrow> diff_file \<Rightarrow>
     path option \<Rightarrow> path option \<Rightarrow> (patch_error, plannedChange \<times> path list) res" where
  "plan_change hunks ns claimed file old new =
     (if old = None \<and> new = None then Inl PatchPathless
      else
        res_bind (claim [] claimed (paths_of old new)) (\<lambda>claimed'.
        res_bind (read_source ns old new) (\<lambda>(source, mode0).
        res_bind (case (old, new) of (Some p, Some q) \<Rightarrow> if p \<noteq> q then absent ns q else Inr () | _ \<Rightarrow> Inr ()) (\<lambda>_.
        case hunks file source of
          None \<Rightarrow> Inl (PatchApply (firstPath new old))
        | Some output \<Rightarrow>
            Inr (\<lparr>cg_old = old, cg_new = new, cg_content = output,
                  cg_mode = (if df_new_mode file \<noteq> 0 then Perm (df_new_mode file) else mode0),
                  cg_delete = (new = None)\<rparr>, claimed')))))"

definition plan_file ::
    "(path \<Rightarrow> evaluation) \<Rightarrow> (diff_file \<Rightarrow> string \<Rightarrow> string option) \<Rightarrow> path \<Rightarrow> (path, node) gomap \<Rightarrow>
     path list \<Rightarrow> diff_file \<Rightarrow> (patch_error, plannedChange \<times> path list) res" where
  "plan_file eval hunks base ns claimed file =
     (if df_is_binary file then Inl PatchBinary
      else if df_is_copy file then Inl PatchCopy
      else case resolvePatchPath eval base (df_old_name file) of
        Inl e \<Rightarrow> Inl (PatchPath e)
      | Inr old \<Rightarrow>
      (case resolvePatchPath eval base (df_new_name file) of
        Inl e \<Rightarrow> Inl (PatchPath e)
      | Inr new \<Rightarrow>
          plan_change hunks ns claimed file (if df_is_new file then None else old) (if df_is_delete file then None else new)))"

fun plan_files ::
    "(path \<Rightarrow> evaluation) \<Rightarrow> (diff_file \<Rightarrow> string \<Rightarrow> string option) \<Rightarrow> path \<Rightarrow> (path, node) gomap \<Rightarrow>
     path list \<Rightarrow> diff_file list \<Rightarrow> (patch_error, plannedChange list) res" where
  "plan_files eval hunks base ns claimed [] = Inr []"
| "plan_files eval hunks base ns claimed (file # files) =
     res_bind (plan_file eval hunks base ns claimed file) (\<lambda>(plan, claimed').
     res_bind (plan_files eval hunks base ns claimed' files) (\<lambda>plans. Inr (plan # plans)))"

section \<open>Staging\<close>

definition removeCreatedDirs :: "kernel \<Rightarrow> path list \<Rightarrow> disk \<Rightarrow> disk" where
  "removeCreatedDirs kn dirs d = foldl (\<lambda>d p. ignored kn (sys_remove p) d) d dirs"

text \<open>The directories that are missing on the way from \<open>current\<close> up, deepest first.\<close>

function find_missing :: "kernel \<Rightarrow> path \<Rightarrow> path \<Rightarrow> disk \<Rightarrow> path list option \<times> disk" where
  "find_missing kn base current d =
     (if current = base then (Some [], d)
      else case stat kn current d of
        (None, d1) \<Rightarrow> (None, d1)
      | (Some (Some Dir), d1) \<Rightarrow> (Some [], d1)
      | (Some (Some _), d1) \<Rightarrow> (None, d1)
      | (Some None, d1) \<Rightarrow>
          if current = [] then (None, d1)
          else (case find_missing kn base (butlast current) d1 of
                  (None, d2) \<Rightarrow> (None, d2)
                | (Some missing, d2) \<Rightarrow> (Some (current # missing), d2)))"
  by pat_completeness auto
termination by (relation "measure (\<lambda>(kn, base, current, d). length current)") auto

declare find_missing.simps [simp del]

text \<open>\<open>todo\<close> is shallowest first, \<open>created\<close> deepest first.\<close>

fun make_dirs :: "kernel \<Rightarrow> path list \<Rightarrow> path list \<Rightarrow> disk \<Rightarrow> path list option \<times> disk" where
  "make_dirs kn created [] d = (Some created, d)"
| "make_dirs kn created (p # todo) d =
     (case checked kn (sys_mkdir p) d of
        (False, d1) \<Rightarrow> (None, removeCreatedDirs kn created d1)
      | (True, d1) \<Rightarrow> make_dirs kn (p # created) todo d1)"

definition createPatchParents :: "kernel \<Rightarrow> path \<Rightarrow> path \<Rightarrow> disk \<Rightarrow> path list option \<times> disk" where
  "createPatchParents kn base directory d =
     (case find_missing kn base directory d of
        (None, d1) \<Rightarrow> (None, d1)
      | (Some missing, d1) \<Rightarrow> make_dirs kn [] (rev missing) d1)"

definition cleanup_item :: "kernel \<Rightarrow> disk \<Rightarrow> stagedChange \<Rightarrow> disk" where
  "cleanup_item kn d x =
     removeCreatedDirs kn (it_createdDirs x)
       (case it_temp x of None \<Rightarrow> d | Some t \<Rightarrow> ignored kn (sys_remove t) d)"

definition cleanupStaged :: "kernel \<Rightarrow> stagedChange list \<Rightarrow> disk \<Rightarrow> disk" where
  "cleanupStaged kn xs d = foldl (cleanup_item kn) d (rev xs)"

definition new_item :: "plannedChange \<Rightarrow> stagedChange" where
  "new_item plan = \<lparr>it_plan = plan, it_temp = None, it_oldBackup = None, it_newBackup = None,
     it_oldMoved = False, it_newMoved = False, it_newWritten = False, it_createdDirs = []\<rparr>"

text \<open>\<open>Chmod\<close>, \<open>Write\<close>, \<open>Sync\<close>, \<open>Close\<close>: stop at the first that fails.\<close>

fun run_checked :: "kernel \<Rightarrow> syscall list \<Rightarrow> disk \<Rightarrow> bool \<times> disk" where
  "run_checked kn [] d = (True, d)"
| "run_checked kn (f # fs) d =
     (case checked kn f d of (False, d1) \<Rightarrow> (False, d1) | (True, d1) \<Rightarrow> run_checked kn fs d1)"

definition temp_path :: "kernel \<Rightarrow> path \<Rightarrow> nat \<Rightarrow> path" where
  "temp_path kn target n = butlast target @ [''.alt-patch-'' @ kn_name kn n]"

text \<open>One change: its directories, then its temporary file.\<close>

definition stage_item :: "kernel \<Rightarrow> path \<Rightarrow> plannedChange \<Rightarrow> path \<Rightarrow> disk \<Rightarrow> (patch_error, stagedChange) res \<times> disk" where
  "stage_item kn base plan target d =
     (case createPatchParents kn base (butlast target) d of
        (None, d1) \<Rightarrow> (Inl PatchParents, d1)
      | (Some dirs, d1) \<Rightarrow>
          (let item = (new_item plan)\<lparr>it_createdDirs := dirs\<rparr>;
               t = temp_path kn target (dk_calls d1)
           in case checked kn (sys_create t) d1 of
                (False, d2) \<Rightarrow> (Inl PatchStage, cleanupStaged kn [item] d2)
              | (True, d2) \<Rightarrow>
                  (let item' = item\<lparr>it_temp := Some t\<rparr> in
                   case run_checked kn [sys_chmod t (cg_mode plan), sys_write t (cg_content plan), sys_sync, sys_sync] d2 of
                     (False, d3) \<Rightarrow> (Inl PatchStage, cleanupStaged kn [item'] d3)
                   | (True, d3) \<Rightarrow> (Inr item', d3))))"

fun stage_loop :: "kernel \<Rightarrow> path \<Rightarrow> stagedChange list \<Rightarrow> plannedChange list \<Rightarrow> disk \<Rightarrow>
    (patch_error, stagedChange list) res \<times> disk" where
  "stage_loop kn base staged [] d = (Inr staged, d)"
| "stage_loop kn base staged (plan # plans) d =
     (case (if cg_delete plan then None else cg_new plan) of
        None \<Rightarrow> stage_loop kn base (staged @ [new_item plan]) plans d
      | Some target \<Rightarrow>
          (case stage_item kn base plan target d of
             (Inl e, d1) \<Rightarrow> (Inl e, cleanupStaged kn staged d1)
           | (Inr item, d1) \<Rightarrow> stage_loop kn base (staged @ [item]) plans d1))"

definition stage :: "kernel \<Rightarrow> path \<Rightarrow> plannedChange list \<Rightarrow> disk \<Rightarrow> (patch_error, stagedChange list) res \<times> disk" where
  "stage kn base plans d = stage_loop kn base [] plans d"

section \<open>Publishing and rolling back\<close>

definition backup_path :: "kernel \<Rightarrow> path \<Rightarrow> nat \<Rightarrow> path" where
  "backup_path kn p n = butlast p @ [''.alt-patch-backup-'' @ kn_name kn n]"

text \<open>The three parts of one change: set the old file aside, then the target, then publish.\<close>

definition commit_old :: "kernel \<Rightarrow> stagedChange \<Rightarrow> disk \<Rightarrow> patch_error option \<times> stagedChange \<times> disk" where
  "commit_old kn x d =
     (case cg_old (it_plan x) of
        None \<Rightarrow> (None, x, d)
      | Some p \<Rightarrow>
          (let b = backup_path kn p (dk_calls d); x1 = x\<lparr>it_oldBackup := Some b\<rparr> in
           case checked kn (sys_rename p b) d of
             (False, d1) \<Rightarrow> (Some (PatchCommit p), x1, d1)
           | (True, d1) \<Rightarrow> (None, x1\<lparr>it_oldMoved := True\<rparr>, d1)))"

definition commit_target :: "kernel \<Rightarrow> stagedChange \<Rightarrow> disk \<Rightarrow> patch_error option \<times> stagedChange \<times> disk" where
  "commit_target kn x d =
     (case cg_new (it_plan x) of
        None \<Rightarrow> (None, x, d)
      | Some q \<Rightarrow>
          if cg_old (it_plan x) = Some q then (None, x, d)
          else (case stat kn q d of
            (None, d1) \<Rightarrow> (Some (PatchCommit q), x, d1)
          | (Some None, d1) \<Rightarrow> (None, x, d1)
          | (Some (Some _), d1) \<Rightarrow>
              (let b = backup_path kn q (dk_calls d1); x1 = x\<lparr>it_newBackup := Some b\<rparr> in
               case checked kn (sys_rename q b) d1 of
                 (False, d2) \<Rightarrow> (Some (PatchCommit q), x1, d2)
               | (True, d2) \<Rightarrow> (None, x1\<lparr>it_newMoved := True\<rparr>, d2))))"

definition commit_publish :: "kernel \<Rightarrow> stagedChange \<Rightarrow> disk \<Rightarrow> patch_error option \<times> stagedChange \<times> disk" where
  "commit_publish kn x d =
     (case (if cg_delete (it_plan x) then None else cg_new (it_plan x)) of
        None \<Rightarrow> (None, x, d)
      | Some q \<Rightarrow>
          (case checked kn (case it_temp x of None \<Rightarrow> (\<lambda>_. None) | Some t \<Rightarrow> sys_rename t q) d of
             (False, d1) \<Rightarrow> (Some (PatchCommit q), x, d1)
           | (True, d1) \<Rightarrow> (None, x\<lparr>it_temp := None, it_newWritten := True\<rparr>, d1)))"

fun commit_steps ::
    "(stagedChange \<Rightarrow> disk \<Rightarrow> patch_error option \<times> stagedChange \<times> disk) list \<Rightarrow> stagedChange \<Rightarrow> disk \<Rightarrow>
     patch_error option \<times> stagedChange \<times> disk" where
  "commit_steps [] x d = (None, x, d)"
| "commit_steps (f # fs) x d =
     (case f x d of (Some e, x1, d1) \<Rightarrow> (Some e, x1, d1) | (None, x1, d1) \<Rightarrow> commit_steps fs x1 d1)"

fun commit_loop :: "kernel \<Rightarrow> stagedChange list \<Rightarrow> stagedChange list \<Rightarrow> disk \<Rightarrow>
    patch_error option \<times> stagedChange list \<times> disk" where
  "commit_loop kn done_items [] d = (None, done_items, d)"
| "commit_loop kn done_items (x # xs) d =
     (case commit_steps [commit_old kn, commit_target kn, commit_publish kn] x d of
        (Some e, x1, d1) \<Rightarrow> (Some e, done_items @ x1 # xs, d1)
      | (None, x1, d1) \<Rightarrow> commit_loop kn (done_items @ [x1]) xs d1)"

definition commit :: "kernel \<Rightarrow> stagedChange list \<Rightarrow> disk \<Rightarrow> patch_error option \<times> stagedChange list \<times> disk" where
  "commit kn xs d = commit_loop kn [] xs d"

definition undo_move :: "kernel \<Rightarrow> bool \<Rightarrow> path option \<Rightarrow> path option \<Rightarrow> disk \<Rightarrow> disk" where
  "undo_move kn flag backup target d =
     (case (backup, target) of
        (Some b, Some p) \<Rightarrow> if flag then ignored kn (sys_rename b p) d else d
      | _ \<Rightarrow> d)"

definition rollback_item :: "kernel \<Rightarrow> disk \<Rightarrow> stagedChange \<Rightarrow> disk" where
  "rollback_item kn d x =
     (let d1 = (case cg_new (it_plan x) of
            Some q \<Rightarrow> if it_newWritten x then ignored kn (sys_remove q) d else d | None \<Rightarrow> d);
          d2 = undo_move kn (it_newMoved x) (it_newBackup x) (cg_new (it_plan x)) d1;
          d3 = undo_move kn (it_oldMoved x) (it_oldBackup x) (cg_old (it_plan x)) d2
      in cleanup_item kn d3 x)"

definition rollback :: "kernel \<Rightarrow> stagedChange list \<Rightarrow> disk \<Rightarrow> disk" where
  "rollback kn xs d = foldl (rollback_item kn) d (rev xs)"

section \<open>Applying a patch\<close>

record patch_result =
  ar_changed :: "path list"
  ar_warnings :: "path list"

definition backups_of :: "stagedChange \<Rightarrow> path list" where
  "backups_of x = (case it_oldBackup x of None \<Rightarrow> [] | Some b \<Rightarrow> [b]) @ (case it_newBackup x of None \<Rightarrow> [] | Some b \<Rightarrow> [b])"

text \<open>A backup that cannot be removed is a warning, unless it is no longer there.\<close>

fun remove_backups :: "kernel \<Rightarrow> path list \<Rightarrow> disk \<Rightarrow> path list \<times> disk" where
  "remove_backups kn [] d = ([], d)"
| "remove_backups kn (b # bs) d =
     (case checked kn (sys_remove b) d of
        (ok, d1) \<Rightarrow>
          (case remove_backups kn bs d1 of
             (ws, d2) \<Rightarrow> (if ok \<or> \<not> kn_fault kn (dk_calls d) \<and> map_of (dk_nodes d) b = None then ws else b # ws, d2)))"

definition apply_plans :: "kernel \<Rightarrow> path \<Rightarrow> plannedChange list \<Rightarrow> disk \<Rightarrow> (patch_error, patch_result) res \<times> disk" where
  "apply_plans kn base plans d =
     (case stage kn base plans d of
        (Inl e, d1) \<Rightarrow> (Inl e, d1)
      | (Inr staged, d1) \<Rightarrow>
          (case commit kn staged d1 of
             (Some e, items, d2) \<Rightarrow> (Inl e, rollback kn items d2)
           | (None, items, d2) \<Rightarrow>
               (case remove_backups kn (concat (map backups_of items)) d2 of
                  (ws, d3) \<Rightarrow> (Inr \<lparr>ar_changed = map (\<lambda>p. firstPath (cg_new p) (cg_old p)) plans, ar_warnings = ws\<rparr>, d3))))"

text \<open>\<open>diff\<close> parses a patch into its files and the text before the first.\<close>

definition patch_apply ::
    "(path \<Rightarrow> evaluation) \<Rightarrow> (string \<Rightarrow> (diff_file list \<times> string) option) \<Rightarrow> (diff_file \<Rightarrow> string \<Rightarrow> string option) \<Rightarrow>
     kernel \<Rightarrow> path \<Rightarrow> string \<Rightarrow> disk \<Rightarrow> (patch_error, patch_result) res \<times> disk" where
  "patch_apply eval diff hunks kn base patch d =
     (if trim patch = [] then (Inl PatchRequired, d)
      else case diff patch of
        None \<Rightarrow> (Inl PatchUnparsed, d)
      | Some (files, preamble) \<Rightarrow>
          if trim preamble \<noteq> [] then (Inl PatchPreamble, d)
          else if files = [] then (Inl PatchEmpty, d)
          else (case plan_files eval hunks base (dk_nodes d) [] files of
            Inl e \<Rightarrow> (Inl e, d)
          | Inr plans \<Rightarrow> apply_plans kn base plans d))"

end
