(* ===== verification/Rollback.thy ===== *)
theory Rollback
  imports Patch
begin

text \<open>
  Patches are atomic. The state of the disk while a patch is staged and published is
  described by the changes made so far, each laid over the ones before (\<open>view\<close>); rolling
  back peels them off again, and what is left is the disk before the patch.
\<close>

section \<open>System calls on lookups\<close>

type_synonym tree = "path \<Rightarrow> node option"

abbreviation look :: "disk \<Rightarrow> tree" where
  "look d \<equiv> map_of (dk_nodes d)"

definition closed :: "tree \<Rightarrow> bool" where
  "closed L \<longleftrightarrow> L [] = Some Dir \<and> (\<forall>q. q \<noteq> [] \<longrightarrow> L q \<noteq> None \<longrightarrow> L (butlast q) = Some Dir)"

lemma closed_parent: "closed L \<Longrightarrow> q \<noteq> [] \<Longrightarrow> L q \<noteq> None \<Longrightarrow> L (butlast q) = Some Dir"
  by (simp add: closed_def)

lemma has_entries_look: "has_entries p ns \<longleftrightarrow> (\<exists>q. q \<noteq> [] \<and> butlast q = p \<and> map_of ns q \<noteq> None)"
  by (auto simp: has_entries_def map_of_eq_None_iff)

lemma sys_look:
  "sys_mkdir p ns = Some ns' \<Longrightarrow> map_of ns' = (map_of ns)(p \<mapsto> Dir)"
  "sys_create p ns = Some ns' \<Longrightarrow> map_of ns' = (map_of ns)(p \<mapsto> File 384 [])"
  "sys_remove p ns = Some ns' \<Longrightarrow> map_of ns' = (map_of ns)(p := None)"
  by (auto simp: sys_mkdir_def sys_create_def sys_remove_def delete_conv' split: if_splits option.splits node.splits)

lemma sys_absent:
  "sys_mkdir p ns = Some ns' \<Longrightarrow> p \<noteq> [] \<and> map_of ns p = None \<and> map_of ns (butlast p) = Some Dir"
  "sys_create p ns = Some ns' \<Longrightarrow> p \<noteq> [] \<and> map_of ns p = None \<and> map_of ns (butlast p) = Some Dir"
  by (auto simp: sys_mkdir_def sys_create_def split: if_splits)

lemma rename_file:
  assumes "map_of ns a = Some (File m c)" and "a \<noteq> b" and "b \<noteq> []" and "map_of ns b = None"
    and "map_of ns (butlast b) = Some Dir"
  shows "\<exists>ns'. sys_rename a b ns = Some ns' \<and> map_of ns' = (map_of ns)(a := None, b \<mapsto> File m c)"
  using assms by (auto simp: sys_rename_def delete_conv')

lemma remove_file: "map_of ns p = Some (File m c) \<Longrightarrow>
    \<exists>ns'. sys_remove p ns = Some ns' \<and> map_of ns' = (map_of ns)(p := None)"
  by (simp add: sys_remove_def delete_conv')

lemma remove_dir: "map_of ns p = Some Dir \<Longrightarrow> (\<And>q. q \<noteq> [] \<Longrightarrow> butlast q = p \<Longrightarrow> map_of ns q = None) \<Longrightarrow>
    \<exists>ns'. sys_remove p ns = Some ns' \<and> map_of ns' = (map_of ns)(p := None)"
proof -
  assume dir: "map_of ns p = Some Dir" and empty: "\<And>q. q \<noteq> [] \<Longrightarrow> butlast q = p \<Longrightarrow> map_of ns q = None"
  have "\<not> has_entries p ns"
    unfolding has_entries_look by (intro notI, elim exE conjE) (simp add: empty)
  with dir show ?thesis by (simp add: sys_remove_def delete_conv')
qed

definition reliable :: "kernel \<Rightarrow> bool" where
  "reliable kn \<longleftrightarrow> (\<forall>n. \<not> kn_lost kn n)"

lemma ignored_look: "reliable kn \<Longrightarrow> f (dk_nodes d) = Some ns \<Longrightarrow> look (ignored kn f d) = map_of ns"
  by (simp add: ignored_def reliable_def tick_def)

lemma checked_cases:
  assumes "checked kn f d = (v, d')"
  obtains (failed) "\<not> v" "look d' = look d" | (worked) ns where "v" "f (dk_nodes d) = Some ns" "look d' = map_of ns"
  using assms by (auto simp: checked_def tick_def split: if_splits option.splits)

lemma checked_calls: "checked kn f d = (v, d') \<Longrightarrow> dk_calls d' = Suc (dk_calls d)"
  by (auto simp: checked_def tick_def split: if_splits option.splits)

lemma stat_look: "stat kn p d = (v, d') \<Longrightarrow> dk_nodes d' = dk_nodes d \<and> dk_calls d' = Suc (dk_calls d) \<and> (v = None \<or> v = Some (look d p))"
  by (auto simp: stat_def tick_def split: if_splits)

section \<open>Changes laid over a tree\<close>

definition over :: "stagedChange \<Rightarrow> tree \<Rightarrow> tree" where
  "over x L = (\<lambda>q.
     if it_newWritten x \<and> cg_new (it_plan x) = Some q then Some (File (cg_mode (it_plan x)) (cg_content (it_plan x)))
     else if it_oldMoved x \<and> cg_old (it_plan x) = Some q then None
     else if it_oldMoved x \<and> it_oldBackup x = Some q then L (the (cg_old (it_plan x)))
     else if it_temp x = Some q then Some (File (cg_mode (it_plan x)) (cg_content (it_plan x)))
     else if q \<in> set (it_createdDirs x) then Some Dir
     else L q)"

definition view :: "tree \<Rightarrow> stagedChange list \<Rightarrow> tree" where
  "view L xs = foldl (\<lambda>L x. over x L) L xs"

lemma view_simps [simp]: "view L [] = L" "view L (x # xs) = view (over x L) xs" "view L (xs @ [x]) = over x (view L xs)"
  by (simp_all add: view_def)

lemma view_append: "view L (xs @ ys) = view (view L xs) ys"
  by (simp add: view_def)

text \<open>Directories to create, deepest first: free, below each other, the last below one that is there.\<close>

fun dirs_fit :: "tree \<Rightarrow> path list \<Rightarrow> bool" where
  "dirs_fit L [] \<longleftrightarrow> True"
| "dirs_fit L (p # ps) \<longleftrightarrow> p \<noteq> [] \<and> L p = None \<and> p \<notin> set ps \<and>
     (case ps of [] \<Rightarrow> L (butlast p) = Some Dir | q # _ \<Rightarrow> butlast p = q) \<and> dirs_fit L ps"

text \<open>A place in a directory that is there or is created.\<close>

definition placed :: "tree \<Rightarrow> path list \<Rightarrow> path \<Rightarrow> bool" where
  "placed L dirs q \<longleftrightarrow> q \<noteq> [] \<and> (butlast q \<in> set dirs \<or> L (butlast q) = Some Dir)"

definition is_file :: "node option \<Rightarrow> bool" where
  "is_file n \<longleftrightarrow> (\<exists>m c. n = Some (File m c))"

definition item_fits :: "tree \<Rightarrow> stagedChange \<Rightarrow> bool" where
  "item_fits L x \<longleftrightarrow>
     (let plan = it_plan x; dirs = it_createdDirs x in
      dirs_fit L dirs \<and> \<not> it_newMoved x \<and>
      (\<forall>t. it_temp x = Some t \<longrightarrow> L t = None \<and> t \<notin> set dirs \<and> placed L dirs t) \<and>
      (\<forall>p. cg_old plan = Some p \<longrightarrow> p \<noteq> [] \<and> is_file (L p)) \<and>
      (\<forall>q. cg_new plan = Some q \<longrightarrow> cg_old plan \<noteq> Some q \<longrightarrow> L q = None \<and> q \<notin> set dirs) \<and>
      (\<forall>q. cg_new plan = Some q \<longrightarrow> it_temp x \<noteq> Some q \<and> placed L dirs q) \<and>
      (it_newWritten x \<longrightarrow> it_temp x = None \<and> cg_new plan \<noteq> None \<and> (cg_old plan = None \<or> it_oldMoved x)) \<and>
      (it_oldMoved x \<longrightarrow> (\<exists>p b. cg_old plan = Some p \<and> it_oldBackup x = Some b \<and> L b = None \<and> b \<noteq> p \<and>
         b \<notin> set dirs \<and> it_temp x \<noteq> Some b \<and> cg_new plan \<noteq> Some b \<and> b \<noteq> [] \<and> butlast b = butlast p)))"

fun all_fit :: "tree \<Rightarrow> stagedChange list \<Rightarrow> bool" where
  "all_fit L [] \<longleftrightarrow> True"
| "all_fit L (x # xs) \<longleftrightarrow> item_fits L x \<and> all_fit (over x L) xs"

lemma all_fit_append: "all_fit L (xs @ ys) \<longleftrightarrow> all_fit L xs \<and> all_fit (view L xs) ys"
  by (induction xs arbitrary: L) auto

section \<open>Peeling a change off\<close>

lemma dirs_fit_absent: "dirs_fit L ds \<Longrightarrow> p \<in> set ds \<Longrightarrow> p \<noteq> [] \<and> L p = None"
  by (induction ds) auto

lemma dirs_fit_parent: "dirs_fit L ds \<Longrightarrow> p \<in> set ds \<Longrightarrow> butlast p \<in> set ds \<or> L (butlast p) = Some Dir"
proof (induction ds)
  case (Cons r rs)
  then show ?case by (cases rs) auto
qed simp

lemma shorter_butlast: "p \<noteq> [] \<Longrightarrow> length (butlast p) < length p"
  by (cases p rule: rev_cases) simp_all

lemma dirs_fit_above: "dirs_fit L (p # ps) \<Longrightarrow> q \<in> set ps \<Longrightarrow> length q < length p"
proof (induction ps arbitrary: p)
  case (Cons r rs)
  have "butlast p = r" "p \<noteq> []" "dirs_fit L (r # rs)" using Cons.prems(1) by auto
  then have r: "length r < length p" using shorter_butlast [of p] by simp
  have "q = r \<or> length q < length r" using Cons.IH [OF \<open>dirs_fit L (r # rs)\<close>] Cons.prems(2) by auto
  then show ?case using r by (elim disjE) simp_all
qed simp

lemma remove_dirs_look:
  assumes "reliable kn" and "closed L" and "dirs_fit L ds" and "look d = (\<lambda>q. if q \<in> set ds then Some Dir else L q)"
  shows "look (removeCreatedDirs kn ds d) = L"
  using assms
proof (induction ds arbitrary: d)
  case Nil
  then show ?case by (simp add: removeCreatedDirs_def)
next
  case (Cons p ps)
  have p: "p \<noteq> []" "L p = None" "p \<notin> set ps" "dirs_fit L ps" using Cons.prems(3) by auto
  have empty: "look d q = None" if "q \<noteq> []" "butlast q = p" for q
  proof -
    have "L q = None" using closed_parent [OF Cons.prems(2) that(1)] that(2) p(2) by (metis option.distinct(1))
    moreover have "q \<notin> set (p # ps)"
    proof
      assume "q \<in> set (p # ps)"
      then have "length q \<le> length p" using dirs_fit_above [OF Cons.prems(3), of q] by auto
      then show False using shorter_butlast [OF that(1)] that(2) by simp
    qed
    ultimately show ?thesis using Cons.prems(4) by simp
  qed
  have "look d p = Some Dir" using Cons.prems(4) by simp
  from remove_dir [OF this empty] obtain ns where
    ns: "sys_remove p (dk_nodes d) = Some ns" "map_of ns = (look d)(p := None)" by blast
  have "look (ignored kn (sys_remove p) d) = (\<lambda>q. if q \<in> set ps then Some Dir else L q)"
    unfolding ignored_look [where f = "sys_remove p", OF Cons.prems(1) ns(1)] ns(2) Cons.prems(4)
    using p by (auto simp: fun_eq_iff)
  from Cons.IH [OF Cons.prems(1,2) p(4) this] show ?case by (simp add: removeCreatedDirs_def)
qed

lemma ignored_rename:
  assumes "reliable kn" and "look d a = Some (File m c)" and "a \<noteq> b" and "b \<noteq> []" and "look d b = None"
    and "look d (butlast b) = Some Dir"
  shows "look (ignored kn (sys_rename a b) d) = (look d)(a := None, b \<mapsto> File m c)"
proof -
  obtain ns where "sys_rename a b (dk_nodes d) = Some ns" "map_of ns = (look d)(a := None, b \<mapsto> File m c)"
    using rename_file [OF assms(2-)] by blast
  then show ?thesis using ignored_look [OF assms(1), of "sys_rename a b" d ns] by simp
qed

lemma ignored_remove:
  assumes "reliable kn" and "look d a = Some (File m c)"
  shows "look (ignored kn (sys_remove a) d) = (look d)(a := None)"
proof -
  obtain ns where "sys_remove a (dk_nodes d) = Some ns" "map_of ns = (look d)(a := None)"
    using remove_file [OF assms(2)] by blast
  then show ?thesis using ignored_look [OF assms(1), of "sys_remove a" d ns] by simp
qed

text \<open>The parts of \<open>item_fits\<close>, as rules.\<close>

lemma item_fitsD:
  assumes "item_fits L x"
  shows "dirs_fit L (it_createdDirs x)" and "\<not> it_newMoved x"
    and "it_temp x = Some t \<Longrightarrow> L t = None \<and> t \<notin> set (it_createdDirs x) \<and> placed L (it_createdDirs x) t"
    and "cg_old (it_plan x) = Some p \<Longrightarrow> p \<noteq> [] \<and> is_file (L p)"
    and "cg_new (it_plan x) = Some q \<Longrightarrow> cg_old (it_plan x) \<noteq> Some q \<Longrightarrow> L q = None \<and> q \<notin> set (it_createdDirs x)"
    and "cg_new (it_plan x) = Some q \<Longrightarrow> it_temp x \<noteq> Some q \<and> placed L (it_createdDirs x) q"
    and "it_newWritten x \<Longrightarrow> it_temp x = None \<and> cg_new (it_plan x) \<noteq> None \<and> (cg_old (it_plan x) = None \<or> it_oldMoved x)"
    and "it_oldMoved x \<Longrightarrow> \<exists>p b. cg_old (it_plan x) = Some p \<and> it_oldBackup x = Some b \<and> L b = None \<and> b \<noteq> p \<and>
         b \<notin> set (it_createdDirs x) \<and> it_temp x \<noteq> Some b \<and> cg_new (it_plan x) \<noteq> Some b \<and> b \<noteq> [] \<and> butlast b = butlast p"
  using assms unfolding item_fits_def Let_def by blast+

text \<open>Three stages of \<open>rollback_item\<close>, each on lookups.\<close>

lemma unwrite_look:
  assumes rel: "reliable kn" and fit: "item_fits L x" and d: "look d = over x L"
  shows "look (case cg_new (it_plan x) of Some q \<Rightarrow> if it_newWritten x then ignored kn (sys_remove q) d else d | None \<Rightarrow> d)
    = over (x\<lparr>it_newWritten := False\<rparr>) L"
proof (cases "it_newWritten x")
  case False
  then show ?thesis using d by (auto simp: over_def split: option.splits)
next
  case True
  then obtain q where q: "cg_new (it_plan x) = Some q" and temp: "it_temp x = None"
    and old: "cg_old (it_plan x) = None \<or> it_oldMoved x" using item_fitsD(7) [OF fit] by auto
  have "look d q = Some (File (cg_mode (it_plan x)) (cg_content (it_plan x)))" using True q d by (simp add: over_def)
  from ignored_remove [OF rel this] have "look (ignored kn (sys_remove q) d) = (over x L)(q := None)" using d by simp
  also have "\<dots> = over (x\<lparr>it_newWritten := False\<rparr>) L"
  proof (cases "cg_old (it_plan x) = Some q")
    case True
    then show ?thesis using q old \<open>it_newWritten x\<close> item_fitsD(8) [OF fit] by (auto simp: over_def fun_eq_iff)
  next
    case False
    then show ?thesis
      using item_fitsD(5) [OF fit q False] q temp \<open>it_newWritten x\<close> item_fitsD(8) [OF fit]
      by (auto simp: over_def fun_eq_iff)
  qed
  finally show ?thesis using True q by simp
qed

lemma unmove_look:
  assumes rel: "reliable kn" and cl: "closed L" and fit: "item_fits L x"
    and d: "look d = over (x\<lparr>it_newWritten := False\<rparr>) L"
  shows "look (undo_move kn (it_oldMoved x) (it_oldBackup x) (cg_old (it_plan x)) d)
    = over (x\<lparr>it_newWritten := False, it_oldMoved := False\<rparr>) L"
proof (cases "it_oldMoved x")
  case False
  then show ?thesis using d by (auto simp: undo_move_def over_def split: option.splits)
next
  case True
  then obtain p b where pb: "cg_old (it_plan x) = Some p" "it_oldBackup x = Some b" "L b = None" "b \<noteq> p"
    "b \<notin> set (it_createdDirs x)" "it_temp x \<noteq> Some b" "butlast b = butlast p"
    using item_fitsD(8) [OF fit] by blast
  obtain m c where fl: "L p = Some (File m c)" "p \<noteq> []" using item_fitsD(4) [OF fit pb(1)] by (auto simp: is_file_def)
  have p: "p \<notin> set (it_createdDirs x)" "it_temp x \<noteq> Some p"
    using dirs_fit_absent [OF item_fitsD(1) [OF fit], of p] item_fitsD(3) [OF fit, of p] fl(1) by auto
  have parent: "L (butlast p) = Some Dir" using closed_parent [OF cl] fl by simp
  have up: "butlast p \<noteq> p" using shorter_butlast [OF fl(2)] by (metis less_irrefl)
  have "butlast p \<noteq> b" "it_temp x \<noteq> Some (butlast p)"
    using parent pb(3) item_fitsD(3) [OF fit] by auto
  then have "look d b = Some (File m c)" "look d p = None" "look d (butlast p) = Some Dir"
    using True pb p fl parent up d by (auto simp: over_def)
  from ignored_rename [OF rel this(1) pb(4) fl(2) this(2,3)]
  have "look (ignored kn (sys_rename b p) d) = (look d)(b := None, p \<mapsto> File m c)" .
  also have "\<dots> = over (x\<lparr>it_newWritten := False, it_oldMoved := False\<rparr>) L"
    using True pb p fl d by (auto simp: over_def fun_eq_iff)
  finally show ?thesis using True pb by (simp add: undo_move_def)
qed

text \<open>Whatever the temporary file holds by now, cleaning up removes it and the directories.\<close>

lemma cleanup_staging:
  assumes rel: "reliable kn" and cl: "closed L" and dirs: "dirs_fit L (it_createdDirs x)"
    and temp: "\<And>t. it_temp x = Some t \<Longrightarrow> L t = None \<and> t \<notin> set (it_createdDirs x)"
    and d: "look d = (\<lambda>q. if it_temp x = Some q then Some (File m c) else if q \<in> set (it_createdDirs x) then Some Dir else L q)"
  shows "look (cleanup_item kn d x) = L"
proof -
  let ?d = "case it_temp x of None \<Rightarrow> d | Some t \<Rightarrow> ignored kn (sys_remove t) d"
  have "look ?d = (\<lambda>q. if q \<in> set (it_createdDirs x) then Some Dir else L q)"
  proof (cases "it_temp x")
    case None
    then show ?thesis using d by simp
  next
    case (Some t)
    then have "look d t = Some (File m c)" using d by simp
    from ignored_remove [OF rel this] show ?thesis
      using Some d temp [OF Some] by (auto simp: fun_eq_iff)
  qed
  from remove_dirs_look [OF rel cl dirs this] show ?thesis by (simp add: cleanup_item_def)
qed

lemma cleanup_look:
  assumes rel: "reliable kn" and cl: "closed L" and fit: "item_fits L x"
    and d: "look d = over (x\<lparr>it_newWritten := False, it_oldMoved := False\<rparr>) L"
  shows "look (cleanup_item kn d x) = L"
  by (rule cleanup_staging [OF rel cl item_fitsD(1) [OF fit]])
    (use item_fitsD(3) [OF fit] d in \<open>auto simp: over_def fun_eq_iff\<close>)

lemma rollback_item_look:
  assumes "reliable kn" and "closed L" and "item_fits L x" and "look d = over x L"
  shows "look (rollback_item kn d x) = L"
proof -
  have "undo_move kn (it_newMoved x) b t d' = d'" for b t d'
    using item_fitsD(2) [OF assms(3)] by (simp add: undo_move_def split: option.splits)
  then show ?thesis
    unfolding rollback_item_def Let_def
    using cleanup_look [OF assms(1-3) unmove_look [OF assms(1-3) unwrite_look [OF assms(1,3,4)]]] by simp
qed

text \<open>A change keeps the tree closed.\<close>

lemma over_parent:
  assumes cl: "closed L" and fit: "item_fits L x" and q: "L q = Some Dir \<or> q \<in> set (it_createdDirs x)"
  shows "over x L q = Some Dir"
proof -
  have "cg_old (it_plan x) \<noteq> Some q"
    using q item_fitsD(4) [OF fit] dirs_fit_absent [OF item_fitsD(1) [OF fit]] by (auto simp: is_file_def)
  then have none: "it_temp x \<noteq> Some q" "\<not> (it_newWritten x \<and> cg_new (it_plan x) = Some q)"
    "\<not> (it_oldMoved x \<and> cg_old (it_plan x) = Some q)" "\<not> (it_oldMoved x \<and> it_oldBackup x = Some q)"
    using q item_fitsD(3) [OF fit, of q] item_fitsD(5) [OF fit, of q] item_fitsD(8) [OF fit]
      dirs_fit_absent [OF item_fitsD(1) [OF fit], of q]
    by auto
  then show ?thesis using q by (auto simp: over_def)
qed

lemma over_closed:
  assumes cl: "closed L" and fit: "item_fits L x"
  shows "closed (over x L)"
  unfolding closed_def
proof (intro conjI allI impI)
  show "over x L [] = Some Dir" by (rule over_parent [OF cl fit]) (use cl in \<open>simp add: closed_def\<close>)
next
  fix q
  assume q: "q \<noteq> []" "over x L q \<noteq> None"
  have "L (butlast q) = Some Dir \<or> butlast q \<in> set (it_createdDirs x)"
  proof (cases "q \<in> set (it_createdDirs x) \<or> L q \<noteq> None")
    case True
    then show ?thesis using dirs_fit_parent [OF item_fitsD(1) [OF fit]] closed_parent [OF cl q(1)] by blast
  next
    case False
    then consider "it_newWritten x" "cg_new (it_plan x) = Some q" | "it_oldMoved x" "it_oldBackup x = Some q" | "it_temp x = Some q"
      using q(2) by (auto simp: over_def split: if_splits)
    then show ?thesis
    proof cases
      case 1
      then show ?thesis using item_fitsD(6) [OF fit] by (auto simp: placed_def)
    next
      case 2
      then obtain p where p: "cg_old (it_plan x) = Some p" "butlast q = butlast p" using item_fitsD(8) [OF fit] by auto
      then show ?thesis using closed_parent [OF cl, of p] item_fitsD(4) [OF fit p(1)] by (auto simp: is_file_def)
    next
      case 3
      then show ?thesis using item_fitsD(3) [OF fit] by (auto simp: placed_def)
    qed
  qed
  then show "over x L (butlast q) = Some Dir" by (rule over_parent [OF cl fit])
qed

lemma view_closed: "closed L \<Longrightarrow> all_fit L xs \<Longrightarrow> closed (view L xs)"
  by (induction xs arbitrary: L) (auto intro: over_closed)

theorem rollback_look:
  assumes "reliable kn" and "closed L" and "all_fit L xs" and "look d = view L xs"
  shows "look (rollback kn xs d) = L"
  using assms(3,4)
proof (induction xs arbitrary: d rule: rev_induct)
  case Nil
  then show ?case by (simp add: rollback_def)
next
  case (snoc x xs)
  have fit: "all_fit L xs" "item_fits (view L xs) x" using snoc.prems(1) by (simp_all add: all_fit_append)
  have "look (rollback_item kn d x) = view L xs"
    using rollback_item_look [OF assms(1) view_closed [OF assms(2) fit(1)] fit(2)] snoc.prems(2) by simp
  from snoc.IH [OF fit(1) this] show ?case by (simp add: rollback_def)
qed

section \<open>Staging\<close>

lemma find_missing_look:
  assumes "look d base = Some Dir"
  shows "find_missing kn base current d = (v, d') \<Longrightarrow>
    dk_nodes d' = dk_nodes d \<and> dk_calls d \<le> dk_calls d' \<and>
    (case v of None \<Rightarrow> True | Some missing \<Rightarrow> dirs_fit (look d) missing \<and>
      (if missing = [] then look d current = Some Dir else hd missing = current) \<and>
      (\<forall>p \<in> set missing. p \<noteq> [] \<and> prefix p current))"
  using assms
proof (induction kn base current d arbitrary: v d' rule: find_missing.induct)
  case (1 kn base current d)
  note run = "1.prems"(1) [unfolded find_missing.simps [of kn base current d]]
  show ?case
  proof (cases "current = base")
    case True
    then show ?thesis using run "1.prems"(2) by auto
  next
    case False
    obtain r d1 where st: "stat kn current d = (r, d1)" by (cases "stat kn current d")
    note same = stat_look [OF st]
    show ?thesis
    proof (cases "r = Some None \<and> current \<noteq> []")
      case False
      then show ?thesis using run st same \<open>current \<noteq> base\<close> by (auto split: option.splits node.splits)
    next
      case True
      then have r: "r = Some None" and ne: "current \<noteq> []" by auto
      obtain w d2 where rec: "find_missing kn base (butlast current) d1 = (w, d2)"
        by (cases "find_missing kn base (butlast current) d1")
      have base1: "look d1 base = Some Dir" using same "1.prems"(2) by simp
      note IH = "1.IH" [OF False st [symmetric] r refl ne rec base1]
      have absent: "look d current = None" using same r by auto
      show ?thesis
      proof (cases w)
        case None
        then show ?thesis using run st r ne rec same IH False by auto
      next
        case (Some missing)
        have v: "v = Some (current # missing)" "d' = d2" using run st r ne rec Some False by auto
        have nodes: "dk_nodes d1 = dk_nodes d" using same by simp
        have m: "dirs_fit (look d) missing" "if missing = [] then look d (butlast current) = Some Dir else hd missing = butlast current"
          "\<forall>p \<in> set missing. p \<noteq> [] \<and> prefix p (butlast current)"
          using IH Some nodes by auto
        have "current \<notin> set missing"
        proof
          assume "current \<in> set missing"
          then have "prefix current (butlast current)" using m(3) by blast
          then show False using prefix_length_le shorter_butlast [OF ne] by fastforce
        qed
        moreover have "prefix p current" if "p \<in> set missing" for p
          using m(3) that prefix_order.trans [OF _ prefixeq_butlast] by blast
        ultimately show ?thesis
          using IH Some same m absent ne v by (auto split: list.splits)
      qed
    qed
  qed
qed


section \<open>Changes that are only staged\<close>

definition staged_only :: "stagedChange \<Rightarrow> bool" where
  "staged_only x \<longleftrightarrow> \<not> it_newWritten x \<and> \<not> it_oldMoved x \<and> \<not> it_newMoved x"

definition footprint :: "stagedChange \<Rightarrow> path set" where
  "footprint x = set (it_createdDirs x) \<union> set_option (it_temp x)"

definition touched :: "plannedChange \<Rightarrow> path set" where
  "touched plan = set_option (cg_old plan) \<union> set_option (cg_new plan)"

lemma over_staged: "staged_only x \<Longrightarrow> over x L q =
    (if it_temp x = Some q then Some (File (cg_mode (it_plan x)) (cg_content (it_plan x)))
     else if q \<in> set (it_createdDirs x) then Some Dir else L q)"
  by (simp add: over_def staged_only_def)

lemma over_footprint: "staged_only x \<Longrightarrow> q \<notin> footprint x \<Longrightarrow> over x L q = L q"
  "staged_only x \<Longrightarrow> q \<in> footprint x \<Longrightarrow> over x L q \<noteq> None"
  by (auto simp: over_staged footprint_def)

lemma fits_footprint: "item_fits L x \<Longrightarrow> L q \<noteq> None \<Longrightarrow> q \<notin> footprint x"
  using item_fitsD(3) [of L x q] dirs_fit_absent [OF item_fitsD(1), of L x q] by (auto simp: footprint_def)

lemma view_kept:
  assumes "all_fit L xs" and "\<forall>x \<in> set xs. staged_only x" and "L q \<noteq> None"
  shows "view L xs q = L q \<and> (\<forall>x \<in> set xs. q \<notin> footprint x)"
  using assms
proof (induction xs arbitrary: L)
  case (Cons x xs)
  have x: "q \<notin> footprint x" using fits_footprint [of L x q] Cons.prems by simp
  then have same: "over x L q = L q" using over_footprint(1) Cons.prems(2) by simp
  then show ?case using Cons.IH [of "over x L"] Cons.prems x by simp
qed simp_all

lemma view_footprint:
  assumes "all_fit L xs" and "\<forall>x \<in> set xs. staged_only x" and "x \<in> set xs" and "q \<in> footprint x"
  shows "view L xs q \<noteq> None"
  using assms
proof (induction xs arbitrary: L)
  case (Cons y ys)
  show ?case
  proof (cases "x = y")
    case True
    then have "over y L q \<noteq> None" using over_footprint(2) Cons.prems by simp
    then show ?thesis using view_kept [of "over y L" ys q] Cons.prems by simp
  next
    case False
    then show ?thesis using Cons.IH [of "over y L"] Cons.prems by simp
  qed
qed simp

lemma view_outside:
  assumes "\<forall>x \<in> set xs. staged_only x" and "\<forall>x \<in> set xs. q \<notin> footprint x"
  shows "view L xs q = L q"
  using assms by (induction xs arbitrary: L) (simp_all add: over_footprint)

text \<open>Changing the tree below staged changes, away from what they rest on.\<close>

lemma dirs_fit_change:
  assumes "dirs_fit L ds" and "\<And>p. p \<in> set ds \<Longrightarrow> M p = L p" and "\<And>q. L q = Some Dir \<Longrightarrow> M q = Some Dir"
  shows "dirs_fit M ds"
  using assms
proof (induction ds)
  case (Cons p ps)
  then show ?case by (cases ps) simp_all
qed simp

lemma item_fits_change:
  assumes "item_fits L x" and "staged_only x" and "\<And>p. p \<in> footprint x \<union> touched (it_plan x) \<Longrightarrow> M p = L p"
    and "\<And>q. L q = Some Dir \<Longrightarrow> M q = Some Dir"
  shows "item_fits M x"
proof -
  have same: "p \<in> set (it_createdDirs x) \<Longrightarrow> M p = L p" "it_temp x = Some p \<Longrightarrow> M p = L p"
    "cg_old (it_plan x) = Some p \<Longrightarrow> M p = L p" "cg_new (it_plan x) = Some p \<Longrightarrow> M p = L p" for p
    using assms(3) by (auto simp: footprint_def touched_def)
  have place: "placed L ds q \<Longrightarrow> placed M ds q" for ds q using assms(4) by (auto simp: placed_def)
  show ?thesis
    unfolding item_fits_def Let_def
    using dirs_fit_change [OF item_fitsD(1) [OF assms(1)] same(1) assms(4)] assms(1,2) same place
    by (auto simp: item_fits_def Let_def staged_only_def)
qed

lemma view_change:
  assumes "all_fit L xs" and "\<forall>x \<in> set xs. staged_only x"
    and "\<forall>x \<in> set xs. S \<inter> (footprint x \<union> touched (it_plan x)) = {}"
    and "\<And>q. q \<notin> S \<Longrightarrow> M q = L q" and "\<And>q. L q = Some Dir \<Longrightarrow> M q = Some Dir"
  shows "all_fit M xs \<and> view M xs = (\<lambda>q. if q \<in> S then M q else view L xs q)"
  using assms
proof (induction xs arbitrary: L M)
  case (Cons x xs)
  have x: "staged_only x" "S \<inter> (footprint x \<union> touched (it_plan x)) = {}" using Cons.prems by auto
  have "M p = L p" if "p \<in> footprint x \<union> touched (it_plan x)" for p
    using that x(2) by (intro Cons.prems(4)) blast
  then have fit: "item_fits M x"
    using item_fits_change [of L x M] Cons.prems(1,5) x(1) by simp
  have at: "over x M q = (if q \<in> S then M q else over x L q)" for q
  proof (cases "q \<in> footprint x")
    case True
    then show ?thesis using x by (auto simp: over_staged footprint_def)
  next
    case False
    then show ?thesis using x(1) Cons.prems(4) by (simp add: over_footprint)
  qed
  have away: "q \<notin> S \<Longrightarrow> over x M q = over x L q" for q using at by simp
  have dir: "over x M q = Some Dir" if "over x L q = Some Dir" for q
  proof (cases "q \<in> S")
    case True
    then have "q \<notin> footprint x" using x(2) by auto
    then show ?thesis using that Cons.prems(5) x(1) by (simp add: over_footprint)
  next
    case False
    then show ?thesis using away that by simp
  qed
  have rest: "all_fit (over x L) xs" "\<forall>x \<in> set xs. staged_only x"
    "\<forall>x \<in> set xs. S \<inter> (footprint x \<union> touched (it_plan x)) = {}" using Cons.prems by auto
  have "view (over x M) xs = (\<lambda>q. if q \<in> S then over x M q else view (over x L) xs q)" "all_fit (over x M) xs"
    using Cons.IH [OF rest away dir] by simp_all
  moreover have "q \<in> S \<Longrightarrow> over x M q = M q" for q using at [of q] by simp
  ultimately show ?case using fit by (simp add: fun_eq_iff)
qed (auto simp: fun_eq_iff)

lemma rollback_staged: "staged_only x \<Longrightarrow> rollback_item kn d x = cleanup_item kn d x"
  by (auto simp: rollback_item_def undo_move_def staged_only_def split: option.splits)

lemma cleanupStaged_look:
  assumes "reliable kn" and "closed L" and "all_fit L xs" and "\<forall>x \<in> set xs. staged_only x" and "look d = view L xs"
  shows "look (cleanupStaged kn xs d) = L"
proof -
  have "foldl (cleanup_item kn) d ys = foldl (rollback_item kn) d ys" if "\<forall>x \<in> set ys. staged_only x" for d ys
    using that by (induction ys arbitrary: d) (simp_all add: rollback_staged)
  then have "cleanupStaged kn xs d = rollback kn xs d"
    using assms(4) by (simp add: cleanupStaged_def rollback_def)
  then show ?thesis using rollback_look [OF assms(1-3,5)] by simp
qed


section \<open>Names and plans\<close>

definition temp_name :: "kernel \<Rightarrow> nat \<Rightarrow> string" where
  "temp_name kn n = ''.alt-patch-'' @ kn_name kn n"

definition backup_name :: "kernel \<Rightarrow> nat \<Rightarrow> string" where
  "backup_name kn n = ''.alt-patch-backup-'' @ kn_name kn n"

text \<open>The random names differ, and none of those still to be drawn is part of the path.\<close>

definition names_differ :: "kernel \<Rightarrow> bool" where
  "names_differ kn \<longleftrightarrow> inj (kn_name kn) \<and> (\<forall>m n. kn_name kn m \<noteq> ''backup-'' @ kn_name kn n)"

definition unused :: "kernel \<Rightarrow> nat \<Rightarrow> path \<Rightarrow> bool" where
  "unused kn n p \<longleftrightarrow> (\<forall>m \<ge> n. temp_name kn m \<notin> set p \<and> backup_name kn m \<notin> set p)"

definition tree_unused :: "kernel \<Rightarrow> nat \<Rightarrow> tree \<Rightarrow> bool" where
  "tree_unused kn n L \<longleftrightarrow> (\<forall>p. L p \<noteq> None \<longrightarrow> unused kn n p)"

lemma name_eqs:
  assumes "names_differ kn"
  shows "temp_name kn m = temp_name kn n \<longleftrightarrow> m = n" and "backup_name kn m = backup_name kn n \<longleftrightarrow> m = n"
    and "temp_name kn m \<noteq> backup_name kn n" and "backup_name kn n \<noteq> temp_name kn m"
proof -
  have "kn_name kn m \<noteq> ''backup-'' @ kn_name kn n" using assms by (simp add: names_differ_def)
  then show "temp_name kn m \<noteq> backup_name kn n" by (simp add: temp_name_def backup_name_def)
  then show "backup_name kn n \<noteq> temp_name kn m" by (rule not_sym)
qed (use assms in \<open>auto simp: temp_name_def backup_name_def names_differ_def inj_def\<close>)

lemma paths_drawn: "temp_path kn p n = butlast p @ [temp_name kn n]" "backup_path kn p n = butlast p @ [backup_name kn n]"
  by (simp_all add: temp_path_def backup_path_def temp_name_def backup_name_def)

lemma unused_mono: "unused kn n p \<Longrightarrow> n \<le> m \<Longrightarrow> unused kn m p"
  by (auto simp: unused_def)

lemma unused_prefix: "unused kn n q \<Longrightarrow> prefix p q \<Longrightarrow> unused kn n p"
  using set_mono_prefix [of p q] by (auto simp: unused_def)

lemma unused_drawn:
  assumes "names_differ kn" and "unused kn n (butlast p)"
  shows "unused kn (Suc n) (temp_path kn p n)" and "unused kn (Suc n) (backup_path kn p n)"
  using assms by (auto simp: unused_def paths_drawn name_eqs)

lemma drawn_used: "\<not> unused kn n (temp_path kn p n)" "\<not> unused kn n (backup_path kn p n)"
  by (auto simp: unused_def paths_drawn)

lemma tree_unused_upd: "tree_unused kn n L \<Longrightarrow> n \<le> m \<Longrightarrow> unused kn m p \<Longrightarrow> tree_unused kn m (L(p \<mapsto> v))"
  by (auto simp: tree_unused_def intro: unused_mono)

lemma tree_unused_less: "tree_unused kn n L \<Longrightarrow> n \<le> m \<Longrightarrow> (\<And>p. M p \<noteq> None \<Longrightarrow> L p \<noteq> None) \<Longrightarrow> tree_unused kn m M"
  unfolding tree_unused_def using unused_mono by blast

text \<open>
  What planning leaves: the old paths are files, the new ones are free, no path is named
  twice, and (this the code does not check) no new path lies inside another one.
\<close>

definition plan_fits :: "kernel \<Rightarrow> nat \<Rightarrow> tree \<Rightarrow> plannedChange \<Rightarrow> bool" where
  "plan_fits kn n L plan \<longleftrightarrow>
     (\<forall>p. cg_old plan = Some p \<longrightarrow> is_file (L p) \<and> unused kn n p) \<and>
     (\<forall>q. cg_new plan = Some q \<longrightarrow> (cg_old plan = Some q \<or> L q = None) \<and> unused kn n q) \<and>
     cg_delete plan = (cg_new plan = None)"

definition apart :: "plannedChange \<Rightarrow> plannedChange \<Rightarrow> bool" where
  "apart a b \<longleftrightarrow> touched a \<inter> touched b = {} \<and>
     (\<forall>p q. cg_new a = Some p \<longrightarrow> cg_new b = Some q \<longrightarrow> \<not> prefix p q \<and> \<not> prefix q p)"

definition plans_fit :: "kernel \<Rightarrow> nat \<Rightarrow> tree \<Rightarrow> plannedChange list \<Rightarrow> bool" where
  "plans_fit kn n L plans \<longleftrightarrow> (\<forall>plan \<in> set plans. plan_fits kn n L plan) \<and> sorted_wrt apart plans"

lemma apart_sym: "apart a b \<Longrightarrow> apart b a"
  by (auto simp: apart_def)

text \<open>What stays true of a change while it is staged and published.\<close>

definition item_ok :: "kernel \<Rightarrow> nat \<Rightarrow> tree \<Rightarrow> stagedChange \<Rightarrow> bool" where
  "item_ok kn n L x \<longleftrightarrow>
     (\<forall>p \<in> set (it_createdDirs x). L p = None \<and> (\<exists>q. cg_new (it_plan x) = Some q \<and> strict_prefix p q)) \<and>
     (\<forall>t. it_temp x = Some t \<longrightarrow> \<not> unused kn n t \<and> cg_new (it_plan x) \<noteq> None) \<and>
     (\<forall>b. it_oldBackup x = Some b \<longrightarrow> \<not> unused kn n b) \<and> it_newBackup x = None"

text \<open>
  The disk in the middle of a patch: \<open>dn\<close> and \<open>todo\<close> are staged, of \<open>todo\<close> nothing is
  published yet.
\<close>

definition underway :: "kernel \<Rightarrow> nat \<Rightarrow> tree \<Rightarrow> stagedChange list \<Rightarrow> stagedChange list \<Rightarrow> disk \<Rightarrow> bool" where
  "underway kn n L dn todo d \<longleftrightarrow>
     look d = view L (dn @ todo) \<and> all_fit L (dn @ todo) \<and> (\<forall>x \<in> set todo. staged_only x) \<and>
     (\<forall>x \<in> set (dn @ todo). item_ok kn n L x) \<and> n \<le> dk_calls d \<and> tree_unused kn (dk_calls d) (look d)"

section \<open>Staging one change\<close>

lemma ignored_calls: "dk_calls (ignored kn f d) = Suc (dk_calls d)"
  by (simp add: ignored_def tick_def split: option.splits)

lemma stat_found: "stat kn p d = (Some v, d') \<Longrightarrow> v = look d p"
  by (auto simp: stat_def split: if_splits)

lemma make_dirs_look:
  assumes "reliable kn" and "closed L"
  shows "make_dirs kn created todo d = (v, d') \<Longrightarrow> dirs_fit L (rev todo @ created) \<Longrightarrow>
    look d = (\<lambda>q. if q \<in> set created then Some Dir else L q) \<Longrightarrow>
    (case v of None \<Rightarrow> look d' = L
     | Some ds \<Rightarrow> ds = rev todo @ created \<and> look d' = (\<lambda>q. if q \<in> set ds then Some Dir else L q) \<and> dk_calls d \<le> dk_calls d')"
proof (induction todo arbitrary: created d)
  case Nil
  then show ?case by auto
next
  case (Cons p todo)
  have suf: "dirs_fit L (xs @ ys) \<Longrightarrow> dirs_fit L ys" for xs ys by (induction xs) auto
  obtain ok d1 where mk: "checked kn (sys_mkdir p) d = (ok, d1)" by (cases "checked kn (sys_mkdir p) d")
  from mk show ?case
  proof (cases rule: checked_cases)
    case failed
    have "dirs_fit L created" using suf [of "rev todo @ [p]" created] Cons.prems(2) by simp
    then have "look (removeCreatedDirs kn created d1) = L"
      by (rule remove_dirs_look [OF assms]) (use Cons.prems failed in simp)
    then show ?thesis using Cons.prems(1) mk failed by auto
  next
    case (worked ns)
    have "look d1 = (\<lambda>q. if q \<in> set (p # created) then Some Dir else L q)"
      using sys_look(1) [OF worked(2)] worked(3) Cons.prems(3) by (auto simp: fun_eq_iff)
    then show ?thesis
      using Cons.IH [of "p # created" d1] Cons.prems(1,2) mk worked(1) checked_calls [OF mk]
      by (auto split: option.splits)
  qed
qed

lemma createPatchParents_look:
  assumes "reliable kn" and "closed (look d)" and "look d base = Some Dir"
    and run: "createPatchParents kn base directory d = (v, d')"
  shows "case v of None \<Rightarrow> look d' = look d
    | Some ds \<Rightarrow> dirs_fit (look d) ds \<and> look d' = (\<lambda>q. if q \<in> set ds then Some Dir else look d q) \<and>
        (directory \<in> set ds \<or> look d directory = Some Dir) \<and> (\<forall>p \<in> set ds. p \<noteq> [] \<and> prefix p directory) \<and>
        dk_calls d \<le> dk_calls d'"
proof -
  obtain w d1 where fm: "find_missing kn base directory d = (w, d1)" by (cases "find_missing kn base directory d")
  note found = find_missing_look [OF assms(3) fm]
  show ?thesis
  proof (cases w)
    case None
    then show ?thesis using run fm found by (auto simp: createPatchParents_def)
  next
    case (Some missing)
    have md: "make_dirs kn [] (rev missing) d1 = (v, d')" using run fm Some by (simp add: createPatchParents_def)
    have "look d1 = look d" using found by simp
    then show ?thesis
      using make_dirs_look [OF assms(1,2) md] found Some
      by (cases v) (auto split: if_splits dest: hd_in_set)
  qed
qed


lemma write_temp:
  assumes "look d t = Some (File m0 c0)" and "run_checked kn [sys_chmod t m, sys_write t c, sys_sync, sys_sync] d = (ok, d')"
  shows "\<exists>m' c'. look d' = (look d)(t \<mapsto> File m' c') \<and> (ok \<longrightarrow> m' = m \<and> c' = c)"
    and "dk_calls d \<le> dk_calls d'"
proof -
  obtain v1 d1 where a: "checked kn (sys_chmod t m) d = (v1, d1)" by fastforce
  obtain v2 d2 where b: "checked kn (sys_write t c) d1 = (v2, d2)" by fastforce
  obtain v3 d3 where s3: "checked kn sys_sync d2 = (v3, d3)" by fastforce
  obtain v4 d4 where s4: "checked kn sys_sync d3 = (v4, d4)" by fastforce
  note run = assms(2) a b s3 s4
  have l1: "look d1 = (look d)(t \<mapsto> File (if v1 then m else m0) c0)"
    using a assms(1) by (cases rule: checked_cases) (auto simp: sys_chmod_def fun_upd_idem)
  have l2: "look d2 = (look d)(t \<mapsto> File (if v1 then m else m0) (if v2 then c else c0))"
    using b l1 by (cases rule: checked_cases) (auto simp: sys_write_def)
  have l3: "look d3 = look d2" using s3 by (cases rule: checked_cases) (auto simp: sys_sync_def)
  have l4: "look d4 = look d3" using s4 by (cases rule: checked_cases) (auto simp: sys_sync_def)
  have "d' \<in> {d1, d2, d3, d4}" "ok \<longrightarrow> v1 \<and> v2 \<and> d' = d4" using run by (auto split: bool.splits)
  moreover have "\<exists>m' c'. look e = (look d)(t \<mapsto> File m' c')" if "e \<in> {d1, d2, d3, d4}" for e
    using that l1 l2 l3 l4 by auto
  moreover have "v1 \<and> v2 \<longrightarrow> look d4 = (look d)(t \<mapsto> File m c)" using l2 l3 l4 by simp
  ultimately show "\<exists>m' c'. look d' = (look d)(t \<mapsto> File m' c') \<and> (ok \<longrightarrow> m' = m \<and> c' = c)"
    by (cases ok) auto
  show "dk_calls d \<le> dk_calls d'"
    using \<open>d' \<in> {d1, d2, d3, d4}\<close> checked_calls [OF a] checked_calls [OF b] checked_calls [OF s3] checked_calls [OF s4] by auto
qed

lemma new_item_simps [simp]: "it_plan (new_item p) = p" "it_temp (new_item p) = None" "it_createdDirs (new_item p) = []"
  "it_oldBackup (new_item p) = None" "it_newBackup (new_item p) = None" "staged_only (new_item p)" "staged_only (x\<lparr>it_createdDirs := ds\<rparr>) = staged_only x"
  "staged_only (x\<lparr>it_temp := t\<rparr>) = staged_only x"
  by (simp_all add: new_item_def staged_only_def)

lemma cleanupStaged_one: "cleanupStaged kn [x] d = cleanup_item kn d x"
  by (simp add: cleanupStaged_def)

text \<open>On success the change is laid over the disk, on failure the disk is as it was.\<close>

lemma stage_item_look:
  assumes rel: "reliable kn" and cl: "closed (look d)" and base: "look d base = Some Dir" and ne: "target \<noteq> []"
    and names: "names_differ kn" and free: "tree_unused kn (dk_calls d) (look d)" and tar: "unused kn (dk_calls d) target"
    and run: "stage_item kn base plan target d = (r, d')"
  shows "case r of Inl e \<Rightarrow> look d' = look d
    | Inr x \<Rightarrow> it_plan x = plan \<and> staged_only x \<and> look d' = over x (look d) \<and> dirs_fit (look d) (it_createdDirs x) \<and>
        it_oldBackup x = None \<and> it_newBackup x = None \<and>
        (\<exists>t. it_temp x = Some t \<and> look d t = None \<and> t \<notin> set (it_createdDirs x) \<and> placed (look d) (it_createdDirs x) t \<and>
           \<not> unused kn (dk_calls d) t) \<and>
        placed (look d) (it_createdDirs x) target \<and> (\<forall>p \<in> set (it_createdDirs x). strict_prefix p target) \<and>
        dk_calls d \<le> dk_calls d' \<and> tree_unused kn (dk_calls d') (look d')"
proof -
  let ?L = "look d"
  obtain v d1 where parents: "createPatchParents kn base (butlast target) d = (v, d1)" by fastforce
  note made = createPatchParents_look [OF rel cl base parents]
  show ?thesis
  proof (cases v)
    case None
    then show ?thesis using run parents made by (auto simp: stage_item_def)
  next
    case (Some ds)
    let ?x = "(new_item plan)\<lparr>it_createdDirs := ds\<rparr>" and ?t = "temp_path kn target (dk_calls d1)"
    have ds: "dirs_fit ?L ds" "look d1 = (\<lambda>q. if q \<in> set ds then Some Dir else ?L q)" "dk_calls d \<le> dk_calls d1"
      "butlast target \<in> set ds \<or> ?L (butlast target) = Some Dir" "\<forall>p \<in> set ds. p \<noteq> [] \<and> prefix p (butlast target)"
      using made Some by auto
    have strict: "strict_prefix p target" if "p \<in> set ds" for p
    proof -
      have "prefix p (butlast target)" using ds(5) that by blast
      moreover have "strict_prefix (butlast target) target" using ne by (metis append_butlast_last_id prefix_snocD prefix_order.refl)
      ultimately show ?thesis by (rule prefix_order.le_less_trans)
    qed
    have t: "?t \<noteq> []" "butlast ?t = butlast target" by (simp_all add: temp_path_def)
    have un: "unused kn (dk_calls d1) p" if "p \<in> set ds \<or> ?L p \<noteq> None" for p
      using that unused_prefix [OF unused_mono [OF tar ds(3)]] strict free ds(3)
      by (auto simp: tree_unused_def strict_prefix_def intro: unused_mono)
    have fresh: "?L ?t = None" "?t \<notin> set ds" using un [of ?t] drawn_used(1) [of kn "dk_calls d1" target] by blast+
    have tun: "\<not> unused kn (dk_calls d) ?t"
      using drawn_used(1) [of kn "dk_calls d1" target] unused_mono [OF _ ds(3), of kn ?t] by blast
    obtain ok d2 where create: "checked kn (sys_create ?t) d1 = (ok, d2)" by fastforce
    from create show ?thesis
    proof (cases rule: checked_cases)
      case failed
      have "look (cleanup_item kn d2 ?x) = ?L"
        by (rule cleanup_staging [where m = 0 and c = "[]", OF rel cl]) (use ds failed in \<open>auto simp: fun_eq_iff\<close>)
      then show ?thesis using run parents Some create failed
        by (auto simp: stage_item_def Let_def cleanupStaged_one)
    next
      case (worked ns)
      let ?y = "?x\<lparr>it_temp := Some ?t\<rparr>"
      have l2: "look d2 = (\<lambda>q. if q = ?t then Some (File 384 []) else if q \<in> set ds then Some Dir else ?L q)"
        using sys_look(2) [OF worked(2)] worked(3) ds(2) by (auto simp: fun_eq_iff)
      obtain ok3 d3 where wr: "run_checked kn [sys_chmod ?t (cg_mode plan), sys_write ?t (cg_content plan), sys_sync, sys_sync] d2 = (ok3, d3)"
        by fastforce
      have at: "look d2 ?t = Some (File 384 [])" using l2 by simp
      obtain m' c' where l3: "look d3 = (look d2)(?t \<mapsto> File m' c')" "ok3 \<longrightarrow> m' = cg_mode plan \<and> c' = cg_content plan"
        using write_temp(1) [OF at wr] by blast
      have calls: "Suc (dk_calls d1) \<le> dk_calls d3" using write_temp(2) [OF at wr] checked_calls [OF create] by simp
      show ?thesis
      proof (cases ok3)
        case False
        have "look (cleanup_item kn d3 ?y) = ?L"
          by (rule cleanup_staging [where m = m' and c = c', OF rel cl]) (use ds fresh l2 l3 in \<open>auto simp: fun_eq_iff\<close>)
        then show ?thesis using run parents Some create worked wr False
          by (auto simp: stage_item_def Let_def cleanupStaged_one simp del: run_checked.simps)
      next
        case True
        have res: "r = Inr ?y" "d' = d3" using run parents Some create worked wr True
          by (simp_all add: stage_item_def Let_def del: run_checked.simps)
        have view: "look d' = over ?y ?L"
          using res(2) l2 l3 True by (auto simp: over_staged fun_eq_iff)
        have "tree_unused kn (dk_calls d3) (look d3)"
          unfolding tree_unused_def
        proof (intro allI impI)
          fix p
          assume "look d3 p \<noteq> None"
          then consider "p = ?t" | "p \<in> set ds \<or> ?L p \<noteq> None" using l3(1) l2 by (auto split: if_splits)
          then show "unused kn (dk_calls d3) p"
          proof cases
            case 1
            have "unused kn (dk_calls d1) (butlast target)"
              by (rule unused_prefix [OF unused_mono [OF tar ds(3)] prefixeq_butlast])
            from unused_drawn(1) [OF names this] show ?thesis using 1 calls by (auto intro: unused_mono)
          next
            case 2
            show ?thesis by (rule unused_mono [OF un [OF 2]]) (use calls in simp)
          qed
        qed
        then show ?thesis
          using res view fresh tun ds t strict ne calls
          by (auto simp: placed_def)
      qed
    qed
  qed
qed


lemma plan_fitsD:
  assumes "plan_fits kn n L plan"
  shows "cg_old plan = Some p \<Longrightarrow> is_file (L p) \<and> unused kn n p"
    and "cg_new plan = Some q \<Longrightarrow> (cg_old plan = Some q \<or> L q = None) \<and> unused kn n q"
    and "cg_delete plan = (cg_new plan = None)"
    and "p \<in> touched plan \<Longrightarrow> unused kn n p"
  using assms by (auto simp: plan_fits_def touched_def)

lemma file_present: "is_file v \<Longrightarrow> v \<noteq> None" "is_file v \<Longrightarrow> v \<noteq> Some Dir"
  by (auto simp: is_file_def)

lemma underwayD:
  assumes "underway kn n L dn todo d"
  shows "look d = view L (dn @ todo)" "all_fit L (dn @ todo)" "\<forall>x \<in> set todo. staged_only x"
    "\<forall>x \<in> set (dn @ todo). item_ok kn n L x" "n \<le> dk_calls d" "tree_unused kn (dk_calls d) (look d)"
  using assms unfolding underway_def by blast+

lemma underway_next: "underway kn n L dn (x # todo) d \<longleftrightarrow> staged_only x \<and> underway kn n L (dn @ [x]) todo d"
proof -
  have "dn @ x # todo = (dn @ [x]) @ todo" by simp
  then show ?thesis unfolding underway_def by (metis (no_types, lifting) list.set_intros(1) set_ConsD list.set_intros(2))
qed

text \<open>A new path is in nobody else's way.\<close>

lemma new_path_outside:
  assumes fit: "plan_fits kn n L plan" and q: "cg_new plan = Some q"
    and y: "item_ok kn n L y" and ap: "apart plan (it_plan y)"
  shows "q \<notin> footprint y"
proof
  assume "q \<in> footprint y"
  then consider "q \<in> set (it_createdDirs y)" | "it_temp y = Some q" by (auto simp: footprint_def)
  then show False
  proof cases
    case 1
    then obtain r where "cg_new (it_plan y) = Some r" "strict_prefix q r" using y by (auto simp: item_ok_def)
    then show False using ap q by (auto simp: apart_def strict_prefix_def)
  next
    case 2
    then show False using y plan_fitsD(2) [OF fit q] by (auto simp: item_ok_def)
  qed
qed

lemma all_fit_snoc: "all_fit L (xs @ [x]) \<longleftrightarrow> all_fit L xs \<and> item_fits (view L xs) x"
  by (simp add: all_fit_append)

lemma stage_loop_look:
  assumes rel: "reliable kn" and cl: "closed L" and base: "L base = Some Dir" and names: "names_differ kn"
  shows "stage_loop kn base staged plans d = (r, d') \<Longrightarrow> underway kn n L [] staged d \<Longrightarrow>
    plans_fit kn n L (map it_plan staged @ plans) \<Longrightarrow>
    (case r of Inl e \<Rightarrow> look d' = L
     | Inr items \<Rightarrow> underway kn n L [] items d' \<and> map it_plan items = map it_plan staged @ plans)"
proof (induction plans arbitrary: staged d)
  case Nil
  then show ?case by auto
next
  case (Cons plan plans)
  let ?M = "view L staged"
  note u = underwayD [OF Cons.prems(2), simplified]
  have pf: "plan_fits kn n L plan" and ap: "y \<in> set staged \<Longrightarrow> apart (it_plan y) plan" for y
    using Cons.prems(3) by (auto simp: plans_fit_def sorted_wrt_append)
  have kept: "L q \<noteq> None \<Longrightarrow> ?M q = L q" for q using view_kept [OF u(2,3)] by blast
  have old: "p \<noteq> [] \<and> is_file (?M p)" if "cg_old plan = Some p" for p
    using plan_fitsD(1) [OF pf that] kept [OF file_present(1)] cl by (auto simp: closed_def is_file_def)
  show ?case
  proof (cases "cg_new plan")
    case None
    then have "item_fits ?M (new_item plan)" using old by (auto simp: item_fits_def new_item_def)
    moreover have "over (new_item plan) ?M = ?M" by (simp add: over_staged fun_eq_iff)
    moreover have "item_ok kn n L (new_item plan)" by (simp add: item_ok_def)
    ultimately have "underway kn n L [] (staged @ [new_item plan]) d"
      using u by (simp add: underway_def all_fit_snoc)
    then show ?thesis using Cons.IH [of "staged @ [new_item plan]" d] Cons.prems(1,3) None
      by (auto split: if_splits sum.splits)
  next
    case (Some target)
    then have del: "\<not> cg_delete plan" using plan_fitsD(3) [OF pf] by simp
    have tar: "cg_old plan = Some target \<or> L target = None" "unused kn n target" using plan_fitsD(2) [OF pf Some] by auto
    then have ne: "target \<noteq> []" using cl old by (auto simp: closed_def)
    have closed: "closed (look d)" using view_closed [OF cl u(2)] u(1) by simp
    have base': "look d base = Some Dir" using kept base u(1) by simp
    obtain res d1 where item: "stage_item kn base plan target d = (res, d1)" by fastforce
    note staged = stage_item_look [OF rel closed base' ne names u(6) unused_mono [OF tar(2) u(5)] item]
    show ?thesis
    proof (cases res)
      case (Inl e)
      then have "look (cleanupStaged kn staged d1) = L"
        using cleanupStaged_look [OF rel cl u(2,3)] staged u(1) by simp
      then show ?thesis using Cons.prems(1) Some del item Inl by auto
    next
      case (Inr x)
      then obtain t where x: "it_plan x = plan" "staged_only x" "look d1 = over x ?M" "dirs_fit ?M (it_createdDirs x)"
        "it_temp x = Some t" "?M t = None" "t \<notin> set (it_createdDirs x)" "placed ?M (it_createdDirs x) t" "\<not> unused kn (dk_calls d) t"
        "placed ?M (it_createdDirs x) target" "\<forall>p \<in> set (it_createdDirs x). strict_prefix p target"
        "dk_calls d \<le> dk_calls d1" "tree_unused kn (dk_calls d1) (look d1)" "it_oldBackup x = None" "it_newBackup x = None"
        using staged u(1) by auto
      have tu: "\<not> unused kn n t" using x(9) unused_mono [OF _ u(5)] by blast
      have nodir: "target \<notin> set (it_createdDirs x)" using x(11) by (auto simp: strict_prefix_def)
      have free: "?M target = None" if "cg_old plan \<noteq> Some target"
      proof -
        have "\<forall>y \<in> set staged. target \<notin> footprint y"
          using new_path_outside [OF pf Some] u(4) ap apart_sym by blast
        then show ?thesis using view_outside [OF u(3)] tar(1) that by simp
      qed
      have fits: "item_fits ?M x"
        unfolding item_fits_def Let_def x(1)
        using x(2,4-8,10) old free nodir Some tar(2) tu by (auto simp: staged_only_def)
      have "L p = None" if "p \<in> set (it_createdDirs x)" for p
        using dirs_fit_absent [OF x(4) that] kept [of p] by (cases "L p") simp_all
      then have "item_ok kn n L x"
        unfolding item_ok_def x(1) using x(5,11,14,15) Some tu by auto
      then have "underway kn n L [] (staged @ [x]) d1"
        using u x fits by (simp add: underway_def all_fit_snoc)
      then show ?thesis using Cons.IH [of "staged @ [x]" d1] Cons.prems(1,3) Some del item Inr x(1)
        by (auto split: sum.splits)
    qed
  qed
qed

section \<open>Publishing one change\<close>

lemma change_middle:
  assumes u: "underway kn n L (dn @ [x]) todo d" and fit: "item_fits (view L dn) x'" and ok: "item_ok kn n L x'"
    and away: "\<And>q. q \<notin> S \<Longrightarrow> over x' (view L dn) q = over x (view L dn) q"
    and dir: "\<And>q. over x (view L dn) q = Some Dir \<Longrightarrow> over x' (view L dn) q = Some Dir"
    and apart: "\<forall>y \<in> set todo. S \<inter> (footprint y \<union> touched (it_plan y)) = {}"
    and d': "look d' = (\<lambda>q. if q \<in> S then over x' (view L dn) q else look d q)"
    and calls: "dk_calls d \<le> dk_calls d'" and names: "tree_unused kn (dk_calls d') (look d')"
  shows "underway kn n L (dn @ [x']) todo d'"
proof -
  let ?M = "view L dn"
  note v = underwayD [OF u, simplified]
  have fits: "all_fit L dn" "all_fit (over x ?M) todo" using v(2) by (simp_all add: all_fit_append)
  note ch = view_change [OF fits(2) v(3) apart away dir]
  have "look d' = view (over x' ?M) todo"
    using d' v(1) ch by (simp add: view_append fun_eq_iff)
  then show ?thesis
    unfolding underway_def using ch fits(1) fit v ok calls names by (auto simp: all_fit_append view_append)
qed

lemma same_disk:
  assumes "underway kn n L dn todo d" and "look d' = look d" and "dk_calls d \<le> dk_calls d'"
  shows "underway kn n L dn todo d'"
  using underwayD [OF assms(1)] assms(2,3) tree_unused_less [of kn "dk_calls d" "look d" "dk_calls d'"]
  by (simp add: underway_def)


text \<open>The paths a staged change holds are not those of another one, nor are they random names.\<close>

lemma held_apart:
  assumes fits: "all_fit M todo" "\<forall>y \<in> set todo. staged_only y" and ap: "\<forall>y \<in> set todo. apart plan (it_plan y)"
    and p: "p \<in> touched plan" "M p \<noteq> None"
  shows "\<forall>y \<in> set todo. p \<notin> footprint y \<union> touched (it_plan y)"
  using view_kept [OF fits p(2)] ap p(1) by (auto simp: apart_def)

lemma drawn_apart:
  assumes fits: "all_fit M todo" "\<forall>y \<in> set todo. staged_only y"
    and pf: "\<forall>y \<in> set todo. plan_fits kn n L (it_plan y)" and b: "\<not> unused kn n b" "M b \<noteq> None \<or> view M todo b = None"
  shows "\<forall>y \<in> set todo. b \<notin> footprint y \<union> touched (it_plan y)"
proof
  fix y
  assume y: "y \<in> set todo"
  have "b \<notin> footprint y" using b(2) view_kept [OF fits, of b] view_footprint [OF fits y, of b] y by blast
  moreover have "b \<notin> touched (it_plan y)" using plan_fitsD(4) [of kn n L "it_plan y" b] pf y b(1) by blast
  ultimately show "b \<notin> footprint y \<union> touched (it_plan y)" by blast
qed

text \<open>The facts a step of \<open>commit\<close> works with.\<close>

definition publishing :: "kernel \<Rightarrow> nat \<Rightarrow> tree \<Rightarrow> stagedChange list \<Rightarrow> stagedChange \<Rightarrow> stagedChange list \<Rightarrow> disk \<Rightarrow> bool" where
  "publishing kn n L dn x todo d \<longleftrightarrow> underway kn n L (dn @ [x]) todo d \<and> closed L \<and> names_differ kn \<and>
     plan_fits kn n L (it_plan x) \<and> (\<forall>y \<in> set todo. plan_fits kn n L (it_plan y)) \<and>
     (\<forall>y \<in> set todo. apart (it_plan x) (it_plan y))"

lemma publishingD:
  assumes "publishing kn n L dn x todo d"
  shows "closed (view L dn)" "item_fits (view L dn) x" "all_fit (over x (view L dn)) todo" "\<forall>y \<in> set todo. staged_only y"
    "look d = view (over x (view L dn)) todo" "closed (look d)" "item_ok kn n L x" "\<forall>y \<in> set todo. item_ok kn n L y"
    "n \<le> dk_calls d" "tree_unused kn (dk_calls d) (look d)" "underway kn n L (dn @ [x]) todo d"
    "names_differ kn" "plan_fits kn n L (it_plan x)" "\<forall>y \<in> set todo. plan_fits kn n L (it_plan y)"
    "\<forall>y \<in> set todo. apart (it_plan x) (it_plan y)"
proof -
  have u: "underway kn n L (dn @ [x]) todo d" and cl: "closed L" using assms by (simp_all add: publishing_def)
  note v = underwayD [OF u, simplified]
  have "all_fit L dn" using v(2) by (simp add: all_fit_append)
  then show "closed (view L dn)" by (rule view_closed [OF cl])
  show "closed (look d)" unfolding v(1) by (rule view_closed [OF cl]) (use v(2) in simp)
  show "item_fits (view L dn) x" "all_fit (over x (view L dn)) todo" using v(2) by (simp_all add: all_fit_append)
  show "look d = view (over x (view L dn)) todo" using v(1) by (simp add: view_append)
qed (use assms underwayD [of kn n L "dn @ [x]" todo d] in \<open>simp_all add: publishing_def\<close>)

lemma commit_old_look:
  assumes pub: "publishing kn n L dn x todo d" and st: "staged_only x" and run: "commit_old kn x d = (r, x', d')"
  shows "publishing kn n L dn x' todo d' \<and> it_plan x' = it_plan x \<and> \<not> it_newWritten x' \<and>
    (r = None \<longrightarrow> cg_old (it_plan x) = None \<or> it_oldMoved x')"
proof (cases "cg_old (it_plan x)")
  case None
  then show ?thesis using pub run st by (auto simp: commit_old_def staged_only_def)
next
  case (Some p)
  let ?M = "view L dn" and ?b = "backup_path kn p (dk_calls d)"
  let ?x = "x\<lparr>it_oldBackup := Some ?b\<rparr>"
  note a = publishingD [OF pub]
  have flags: "\<not> it_newWritten x" "\<not> it_oldMoved x" "\<not> it_newMoved x" using st by (auto simp: staged_only_def)
  obtain m c where fl: "?M p = Some (File m c)" "p \<noteq> []" using item_fitsD(4) [OF a(2) Some] by (auto simp: is_file_def)
  have foot: "p \<notin> footprint x" using fits_footprint [OF a(2)] fl(1) by simp
  then have xp: "over x ?M p = Some (File m c)" using over_footprint(1) [OF st] fl(1) by simp
  have held: "\<forall>y \<in> set todo. p \<notin> footprint y \<union> touched (it_plan y)"
    by (rule held_apart [OF a(3,4,15)]) (use xp Some in \<open>simp_all add: touched_def\<close>)
  have lp: "look d p = Some (File m c)" using view_kept [OF a(3,4), of p] xp a(5) by simp
  have b: "?b \<noteq> []" "butlast ?b = butlast p" by (simp_all add: backup_path_def)
  have lb: "look d ?b = None" using a(10) drawn_used(2) [of kn "dk_calls d" p] by (auto simp: tree_unused_def)
  have un: "\<not> unused kn n ?b" using drawn_used(2) unused_mono [OF _ a(9)] by blast
  have bp: "?b \<noteq> p" using lb lp by auto
  have Mb: "?M ?b = None" "?b \<notin> footprint x"
    using lb view_kept [OF a(3,4), of ?b] a(5) over_footprint [OF st, of ?b ?M] by (metis option.distinct(1))+
  have heldb: "\<forall>y \<in> set todo. ?b \<notin> footprint y \<union> touched (it_plan y)"
    by (rule drawn_apart [OF a(3,4,14) un]) (use lb a(5) in simp)
  have newb: "cg_new (it_plan x) \<noteq> Some ?b" using plan_fitsD(2) [OF a(13)] un by blast
  have fit0: "item_fits ?M ?x" using a(2) flags by (simp add: item_fits_def Let_def)
  have ok: "item_ok kn n L ?x" "item_ok kn n L (?x\<lparr>it_oldMoved := True\<rparr>)" using a(7) un by (simp_all add: item_ok_def)
  obtain w d1 where ren: "checked kn (sys_rename p ?b) d = (w, d1)" by fastforce
  note calls = checked_calls [OF ren]
  from ren show ?thesis
  proof (cases rule: checked_cases)
    case failed
    have "underway kn n L (dn @ [?x]) todo d1"
      by (rule change_middle [OF a(11) fit0 ok(1), where S = "{}"])
        (use flags failed(2) calls tree_unused_less [OF a(10)] in \<open>auto simp: over_def\<close>)
    then show ?thesis using pub run Some ren failed flags
      by (auto simp: commit_old_def publishing_def Let_def)
  next
    case (worked ns)
    let ?y = "?x\<lparr>it_oldMoved := True\<rparr>"
    have l1: "look d1 = (look d)(p := None, ?b \<mapsto> File m c)"
      using rename_file [OF lp bp [symmetric] b(1) lb] worked closed_parent [OF a(6) fl(2)] lp b(2) by auto
    have fit: "item_fits ?M ?y"
      using fit0 flags Some bp b Mb newb by (auto simp: item_fits_def Let_def footprint_def)
    have oy: "over ?y ?M = (\<lambda>q. if q = p then None else if q = ?b then Some (File m c) else over x ?M q)"
      using flags Some fl by (auto simp: over_def fun_eq_iff)
    have "underway kn n L (dn @ [?y]) todo d1"
    proof (rule change_middle [OF a(11) fit ok(2), where S = "{p, ?b}"])
      show "\<forall>y \<in> set todo. {p, ?b} \<inter> (footprint y \<union> touched (it_plan y)) = {}" using held heldb by blast
      show "over ?y ?M q = Some Dir" if "over x ?M q = Some Dir" for q
        using that xp over_footprint(1) [OF st Mb(2), of ?M] Mb(1) unfolding oy by auto
      show "look d1 = (\<lambda>q. if q \<in> {p, ?b} then over ?y ?M q else look d q)" using l1 oy bp by (auto simp: fun_eq_iff)
      show "dk_calls d \<le> dk_calls d1" using calls by simp
      have "unused kn (dk_calls d) p" using a(10) lp by (auto simp: tree_unused_def)
      then have "unused kn (Suc (dk_calls d)) ?b"
        using unused_drawn(2) [OF a(12)] unused_prefix [OF _ prefixeq_butlast] by blast
      moreover have "tree_unused kn (Suc (dk_calls d)) ((look d)(p := None))"
        by (rule tree_unused_less [OF a(10)]) (auto split: if_splits)
      ultimately show "tree_unused kn (dk_calls d1) (look d1)"
        unfolding l1 calls by (intro tree_unused_upd [OF _ le_refl])
    qed (use oy in auto)
    then show ?thesis using pub run Some ren worked flags
      by (auto simp: commit_old_def publishing_def Let_def)
  qed
qed


text \<open>Once the old file is out of the way the new path is free.\<close>

lemma new_path_free:
  assumes pub: "publishing kn n L dn x todo d" and q: "cg_new (it_plan x) = Some q" and unw: "\<not> it_newWritten x"
    and out: "cg_old (it_plan x) \<noteq> Some q \<or> it_oldMoved x"
  shows "look d q = None" and "over x (view L dn) q = None" and "\<forall>y \<in> set todo. q \<notin> footprint y \<union> touched (it_plan y)"
proof -
  note a = publishingD [OF pub]
  have ap: "\<forall>y \<in> set todo. q \<notin> touched (it_plan y)" using a(15) q by (auto simp: apart_def touched_def)
  have foot: "\<forall>y \<in> set todo. q \<notin> footprint y" using new_path_outside [OF a(13) q] a(8,15) by blast
  show free: "over x (view L dn) q = None"
  proof (cases "cg_old (it_plan x) = Some q")
    case True
    then show ?thesis using out unw by (simp add: over_def)
  next
    case False
    then show ?thesis
      using item_fitsD(5) [OF a(2) q False] item_fitsD(6) [OF a(2) q] item_fitsD(8) [OF a(2)] q unw
      by (auto simp: over_def)
  qed
  then show "look d q = None" using view_outside [OF a(4) foot] a(5) by simp
  show "\<forall>y \<in> set todo. q \<notin> footprint y \<union> touched (it_plan y)" using ap foot by blast
qed

lemma commit_target_look:
  assumes pub: "publishing kn n L dn x todo d" and unw: "\<not> it_newWritten x"
    and out: "cg_old (it_plan x) = None \<or> it_oldMoved x" and run: "commit_target kn x d = (r, x', d')"
  shows "x' = x \<and> publishing kn n L dn x todo d'"
proof -
  have "x' = x \<and> look d' = look d \<and> dk_calls d \<le> dk_calls d'"
  proof (cases "cg_new (it_plan x) = None \<or> cg_old (it_plan x) = cg_new (it_plan x)")
    case True
    then show ?thesis using run by (auto simp: commit_target_def split: option.splits if_splits)
  next
    case False
    then obtain q where q: "cg_new (it_plan x) = Some q" "cg_old (it_plan x) \<noteq> Some q" by auto
    obtain v d1 where st: "stat kn q d = (v, d1)" by fastforce
    have "v = None \<or> v = Some None" using stat_look [OF st] new_path_free(1) [OF pub q(1) unw] q(2) by auto
    then show ?thesis using run q st stat_look [OF st] by (auto simp: commit_target_def)
  qed
  then show ?thesis using pub same_disk by (auto simp: publishing_def)
qed

lemma commit_publish_look:
  assumes pub: "publishing kn n L dn x todo d" and unw: "\<not> it_newWritten x"
    and out: "cg_old (it_plan x) = None \<or> it_oldMoved x" and run: "commit_publish kn x d = (r, x', d')"
  shows "publishing kn n L dn x' todo d' \<and> it_plan x' = it_plan x \<and> it_oldMoved x' = it_oldMoved x \<and>
    (r = None \<longrightarrow> (cg_new (it_plan x) \<noteq> None \<longrightarrow> it_newWritten x'))"
proof (cases "cg_new (it_plan x)")
  case None
  then show ?thesis using run pub by (auto simp: commit_publish_def split: if_splits)
next
  case (Some q)
  let ?M = "view L dn" and ?file = "File (cg_mode (it_plan x)) (cg_content (it_plan x))"
  note a = publishingD [OF pub]
  have del: "\<not> cg_delete (it_plan x)" using plan_fitsD(3) [OF a(13)] Some by simp
  note free = new_path_free [OF pub Some unw]
  have qfree: "look d q = None" "over x ?M q = None" "\<forall>y \<in> set todo. q \<notin> footprint y \<union> touched (it_plan y)"
    using free out by auto
  let ?call = "case it_temp x of None \<Rightarrow> (\<lambda>_. None) | Some t \<Rightarrow> sys_rename t q"
  obtain w d1 where ren: "checked kn ?call d = (w, d1)" by fastforce
  note calls = checked_calls [OF ren]
  from ren show ?thesis
  proof (cases rule: checked_cases)
    case failed
    then show ?thesis
      using run Some del ren same_disk [OF a(11) failed(2)] calls pub by (auto simp: commit_publish_def publishing_def)
  next
    case (worked ns)
    then obtain t where t: "it_temp x = Some t" "sys_rename t q (dk_nodes d) = Some ns" by (cases "it_temp x") auto
    let ?y = "x\<lparr>it_temp := None, it_newWritten := True\<rparr>"
    have tM: "?M t = None" "t \<notin> set (it_createdDirs x)" using item_fitsD(3) [OF a(2) t(1)] by auto
    have tq: "t \<noteq> q" using item_fitsD(6) [OF a(2) Some] t(1) by auto
    have told: "cg_old (it_plan x) \<noteq> Some t" using item_fitsD(4) [OF a(2)] tM by (auto simp: is_file_def)
    have tback: "it_oldMoved x \<Longrightarrow> it_oldBackup x \<noteq> Some t" using item_fitsD(8) [OF a(2)] t(1) by auto
    have xt: "over x ?M t = Some ?file" using unw told tback t(1) by (auto simp: over_def)
    have lt: "look d t = Some ?file" using view_kept [OF a(3,4), of t] xt a(5) by simp
    have heldt: "\<forall>y \<in> set todo. t \<notin> footprint y \<union> touched (it_plan y)"
      by (rule drawn_apart [OF a(3,4,14)]) (use a(7) t(1) xt in \<open>auto simp: item_ok_def\<close>)
    have place: "q \<noteq> []" "?M (butlast q) = Some Dir \<or> butlast q \<in> set (it_createdDirs x)"
      using item_fitsD(6) [OF a(2) Some] by (auto simp: placed_def)
    have "over x ?M (butlast q) = Some Dir" by (rule over_parent [OF a(1,2) place(2)])
    then have up: "look d (butlast q) = Some Dir" using view_kept [OF a(3,4), of "butlast q"] a(5) by simp
    have l1: "look d1 = (look d)(t := None, q \<mapsto> ?file)"
      using rename_file [OF lt tq place(1) qfree(1) up] t(2) worked(3) by auto
    have oy: "over ?y ?M = (\<lambda>r. if r = q then Some ?file else if r = t then None else over x ?M r)"
      using Some t(1) unw tM told tback by (auto simp: over_def fun_eq_iff)
    have fit: "item_fits ?M ?y"
      using a(2) Some unw out by (auto simp: item_fits_def Let_def)
    have ok: "item_ok kn n L ?y" using a(7) by (simp add: item_ok_def)
    have "underway kn n L (dn @ [?y]) todo d1"
    proof (rule change_middle [OF a(11) fit ok, where S = "{t, q}"])
      show "\<forall>y \<in> set todo. {t, q} \<inter> (footprint y \<union> touched (it_plan y)) = {}" using heldt qfree(3) by blast
      show "over ?y ?M r = Some Dir" if "over x ?M r = Some Dir" for r
        using that xt qfree(2) unfolding oy by auto
      show "look d1 = (\<lambda>r. if r \<in> {t, q} then over ?y ?M r else look d r)" using l1 oy tq by (auto simp: fun_eq_iff)
      show "dk_calls d \<le> dk_calls d1" using calls by simp
      have "unused kn (dk_calls d1) q" using plan_fitsD(2) [OF a(13) Some] a(9) calls unused_mono by fastforce
      moreover have "tree_unused kn (dk_calls d1) ((look d)(t := None))"
        by (rule tree_unused_less [OF a(10)]) (use calls in \<open>auto split: if_splits\<close>)
      ultimately show "tree_unused kn (dk_calls d1) (look d1)"
        unfolding l1 by (intro tree_unused_upd [OF _ le_refl])
    qed (use oy in auto)
    then show ?thesis using pub run Some del ren worked t(1) by (auto simp: commit_publish_def publishing_def)
  qed
qed

definition published :: "stagedChange \<Rightarrow> bool" where
  "published x \<longleftrightarrow> (cg_old (it_plan x) \<noteq> None \<longrightarrow> it_oldMoved x) \<and> (cg_new (it_plan x) \<noteq> None \<longrightarrow> it_newWritten x)"

lemma commit_item_look:
  assumes pub: "publishing kn n L dn x todo d" and st: "staged_only x"
    and run: "commit_steps [commit_old kn, commit_target kn, commit_publish kn] x d = (r, x', d')"
  shows "publishing kn n L dn x' todo d' \<and> it_plan x' = it_plan x \<and> (r = None \<longrightarrow> published x')"
proof -
  obtain r1 x1 d1 where s1: "commit_old kn x d = (r1, x1, d1)" by (metis prod_cases3)
  obtain r2 x2 d2 where s2: "commit_target kn x1 d1 = (r2, x2, d2)" by (metis prod_cases3)
  obtain r3 x3 d3 where s3: "commit_publish kn x2 d2 = (r3, x3, d3)" by (metis prod_cases3)
  note c1 = commit_old_look [OF pub st s1]
  show ?thesis
  proof (cases r1)
    case (Some e)
    then show ?thesis using run s1 c1 by auto
  next
    case None
    then have p1: "publishing kn n L dn x1 todo d1" "it_plan x1 = it_plan x" "\<not> it_newWritten x1"
      "cg_old (it_plan x1) = None \<or> it_oldMoved x1" using c1 by auto
    note c2 = commit_target_look [OF p1(1,3,4) s2]
    show ?thesis
    proof (cases r2)
      case (Some e)
      then show ?thesis using run s1 s2 None c2 p1(2) by auto
    next
      case r2: None
      have p2: "publishing kn n L dn x2 todo d2" "\<not> it_newWritten x2" "cg_old (it_plan x2) = None \<or> it_oldMoved x2"
        using c2 p1 by auto
      note c3 = commit_publish_look [OF p2 s3]
      have "r = r3 \<and> x' = x3 \<and> d' = d3" using run s1 s2 s3 None r2 by (cases r3) simp_all
      then show ?thesis using c3 c2 p1 by (auto simp: published_def)
    qed
  qed
qed

lemma commit_loop_look:
  assumes rel: "reliable kn" and cl: "closed L" and names: "names_differ kn"
  shows "commit_loop kn dn todo d = (r, items, d') \<Longrightarrow> underway kn n L dn todo d \<Longrightarrow>
    plans_fit kn n L (map it_plan (dn @ todo)) \<Longrightarrow> \<forall>x \<in> set dn. published x \<Longrightarrow>
    (case r of Some e \<Rightarrow> look (rollback kn items d') = L
     | None \<Rightarrow> underway kn n L items [] d' \<and> (\<forall>x \<in> set items. published x) \<and> map it_plan items = map it_plan (dn @ todo))"
proof (induction todo arbitrary: dn d)
  case Nil
  then show ?case by auto
next
  case (Cons x todo)
  have st: "staged_only x" and rest: "underway kn n L (dn @ [x]) todo d"
    using Cons.prems(2) by (simp_all only: underway_next)
  have pub: "publishing kn n L dn x todo d"
    using rest cl names Cons.prems(3) by (auto simp: publishing_def plans_fit_def sorted_wrt_append)
  obtain r1 x1 d1 where item: "commit_steps [commit_old kn, commit_target kn, commit_publish kn] x d = (r1, x1, d1)"
    by (metis prod_cases3)
  note step = commit_item_look [OF pub st item]
  then have u1: "underway kn n L (dn @ [x1]) todo d1" by (simp add: publishing_def)
  show ?case
  proof (cases r1)
    case (Some e)
    note v = underwayD [OF u1, simplified]
    have "look (rollback kn (dn @ x1 # todo) d1) = L"
      by (rule rollback_look [OF rel cl]) (use v(1,2) in simp_all)
    then show ?thesis using Cons.prems(1) item Some by auto
  next
    case None
    have "plans_fit kn n L (map it_plan ((dn @ [x1]) @ todo))" "\<forall>y \<in> set (dn @ [x1]). published y"
      using Cons.prems(3,4) step None by auto
    from Cons.IH [OF _ u1 this] Cons.prems(1) item None step show ?thesis by (auto split: option.splits)
  qed
qed


section \<open>The whole patch\<close>

lemma published_view:
  assumes "all_fit L items" and "\<forall>x \<in> set items. published x" and "\<forall>x \<in> set items. item_ok kn n L x"
    and "plans_fit kn n L (map it_plan items)"
  shows "(\<forall>x \<in> set items. \<forall>q. cg_new (it_plan x) = Some q \<longrightarrow>
        view L items q = Some (File (cg_mode (it_plan x)) (cg_content (it_plan x)))) \<and>
    (\<forall>x \<in> set items. \<forall>p. cg_old (it_plan x) = Some p \<longrightarrow> cg_new (it_plan x) \<noteq> Some p \<longrightarrow> view L items p = None) \<and>
    (\<forall>q. (\<forall>x \<in> set items. q \<notin> touched (it_plan x) \<and> it_oldBackup x \<noteq> Some q) \<longrightarrow>
        view L items q = L q \<or>
        L q = None \<and> view L items q = Some Dir \<and> (\<exists>x \<in> set items. \<exists>r. cg_new (it_plan x) = Some r \<and> strict_prefix q r))"
  using assms
proof (induction items rule: rev_induct)
  case Nil
  then show ?case by simp
next
  case (snoc x xs)
  let ?M = "view L xs"
  have fits: "all_fit L xs" "item_fits ?M x" using snoc.prems(1) by (simp_all add: all_fit_append)
  have x: "published x" "item_ok kn n L x" "plan_fits kn n L (it_plan x)"
    and ap: "\<forall>y \<in> set xs. apart (it_plan y) (it_plan x)"
    and pfs: "\<forall>y \<in> set xs. plan_fits kn n L (it_plan y)"
    and ih: "plans_fit kn n L (map it_plan xs)"
    using snoc.prems by (auto simp: plans_fit_def sorted_wrt_append)
  note IH = snoc.IH [OF fits(1) _ _ ih]
  have temp: "it_temp x = None" using x(1,2) item_fitsD(7) [OF fits(2)] by (cases "it_temp x") (auto simp: published_def item_ok_def)
  have same: "over x ?M q = ?M q" if "q \<notin> touched (it_plan x)" "it_oldBackup x \<noteq> Some q" "q \<notin> set (it_createdDirs x)" for q
    using that temp by (auto simp: over_def touched_def)
  have new: "over x ?M q = Some (File (cg_mode (it_plan x)) (cg_content (it_plan x)))" if "cg_new (it_plan x) = Some q" for q
    using that x(1) by (auto simp: over_def published_def)
  have old: "over x ?M p = None" if "cg_old (it_plan x) = Some p" "cg_new (it_plan x) \<noteq> Some p" for p
    using that x(1) by (auto simp: over_def published_def)
  have dirs: "?M q = None \<and> L q = None \<and> (\<exists>r. cg_new (it_plan x) = Some r \<and> strict_prefix q r)" if "q \<in> set (it_createdDirs x)" for q
    using that dirs_fit_absent [OF item_fitsD(1) [OF fits(2)]] x(2) by (auto simp: item_ok_def)
  have bak: "?M b = None \<and> \<not> unused kn n b" if "it_oldBackup x = Some b" "it_oldMoved x" for b
    using that item_fitsD(8) [OF fits(2)] x(2) by (auto simp: item_ok_def)
  show ?case
  proof (intro conjI ballI allI impI)
    fix y q
    assume y: "y \<in> set (xs @ [x])" and q: "cg_new (it_plan y) = Some q"
    show "view L (xs @ [x]) q = Some (File (cg_mode (it_plan y)) (cg_content (it_plan y)))"
    proof (cases "y = x")
      case True
      then show ?thesis using new q by simp
    next
      case False
      then have yx: "y \<in> set xs" using y by simp
      then have M: "?M q = Some (File (cg_mode (it_plan y)) (cg_content (it_plan y)))"
        using IH snoc.prems q by simp
      have "q \<notin> touched (it_plan x)" using ap yx q by (auto simp: apart_def touched_def)
      then have "over x ?M q = ?M q" using M dirs [of q] bak [of q] temp by (auto simp: over_def touched_def)
      then show ?thesis using M by simp
    qed
  next
    fix y p
    assume y: "y \<in> set (xs @ [x])" and p: "cg_old (it_plan y) = Some p" "cg_new (it_plan y) \<noteq> Some p"
    show "view L (xs @ [x]) p = None"
    proof (cases "y = x")
      case True
      then show ?thesis using old p by simp
    next
      case False
      then have yx: "y \<in> set xs" using y by simp
      have M: "?M p = None" using IH snoc.prems p yx by simp
      have t: "p \<notin> touched (it_plan x)" using ap yx p by (auto simp: apart_def touched_def)
      have "is_file (L p)" "unused kn n p" using pfs yx plan_fitsD(1) [of kn n L "it_plan y" p] p(1) by auto
      then have "over x ?M p = ?M p"
        using t dirs [of p] x(2) temp by (auto simp: over_def touched_def is_file_def item_ok_def)
      then show ?thesis using M by simp
    qed
  next
    fix q
    assume q: "\<forall>y \<in> set (xs @ [x]). q \<notin> touched (it_plan y) \<and> it_oldBackup y \<noteq> Some q"
    have M: "?M q = L q \<or> L q = None \<and> ?M q = Some Dir \<and> (\<exists>y \<in> set xs. \<exists>r. cg_new (it_plan y) = Some r \<and> strict_prefix q r)"
      using IH snoc.prems q by simp
    show "view L (xs @ [x]) q = L q \<or> L q = None \<and> view L (xs @ [x]) q = Some Dir \<and>
      (\<exists>y \<in> set (xs @ [x]). \<exists>r. cg_new (it_plan y) = Some r \<and> strict_prefix q r)"
    proof (cases "q \<in> set (it_createdDirs x)")
      case True
      then have "over x ?M q = Some Dir" using q temp by (auto simp: over_def touched_def)
      then show ?thesis using dirs [OF True] by auto
    next
      case False
      then show ?thesis using same [of q] q M by auto
    qed
  qed
qed

lemma remove_backups_look:
  "remove_backups kn bs d = ([], d') \<Longrightarrow> look d' = (\<lambda>q. if q \<in> set bs then None else look d q)"
proof (induction bs arbitrary: d)
  case (Cons b bs)
  obtain ok d1 where rm: "checked kn (sys_remove b) d = (ok, d1)" by fastforce
  obtain ws d2 where rest: "remove_backups kn bs d1 = (ws, d2)" by fastforce
  have all: "ws = []" "d2 = d'" "ok \<or> look d b = None" using Cons.prems rm rest by (auto split: if_splits)
  have "look d1 = (look d)(b := None)"
    using rm all(3) sys_look(3) by (cases rule: checked_cases) (auto simp: fun_upd_idem)
  then show ?case using Cons.IH [of d1] rest all by (auto simp: fun_eq_iff)
qed (simp add: fun_eq_iff)


text \<open>Planning checks most of what publishing needs.\<close>

lemma claim_set:
  "claim mine c ps = Inr c' \<Longrightarrow> set mine \<subseteq> set c \<Longrightarrow> set c' = set c \<union> set ps \<and> (set ps - set mine) \<inter> set c = {}"
proof (induction ps arbitrary: mine c)
  case (Cons p ps)
  show ?case
  proof (cases "p \<in> set mine")
    case True
    then have "claim mine c ps = Inr c'" using Cons.prems(1) by simp
    from Cons.IH [OF this Cons.prems(2)] True Cons.prems(2) show ?thesis by auto
  next
    case False
    then have p: "p \<notin> set c" "claim (p # mine) (c @ [p]) ps = Inr c'"
      using Cons.prems(1) by (simp_all split: if_splits)
    have "set (p # mine) \<subseteq> set (c @ [p])" using Cons.prems(2) by auto
    from Cons.IH [OF p(2) this] p(1) show ?thesis by auto
  qed
qed simp

definition planned_from :: "tree \<Rightarrow> plannedChange \<Rightarrow> bool" where
  "planned_from L plan \<longleftrightarrow>
     (\<forall>p. cg_old plan = Some p \<longrightarrow> is_file (L p)) \<and>
     (\<forall>q. cg_new plan = Some q \<longrightarrow> cg_old plan = Some q \<or> L q = None) \<and> cg_delete plan = (cg_new plan = None)"

lemma paths_of_touched: "set (paths_of (cg_old plan) (cg_new plan)) = touched plan"
  by (auto simp: paths_of_def touched_def split: option.splits)

lemma plan_change_fit:
  assumes "plan_change hunks ns claimed f old new = Inr (plan, claimed')"
  shows "planned_from (map_of ns) plan" and "set claimed' = set claimed \<union> touched plan" and "touched plan \<inter> set claimed = {}"
proof -
  obtain c source mode0 where
    cl: "claim [] claimed (paths_of old new) = Inr c" and
    rd: "read_source ns old new = Inr (source, mode0)" and
    dest: "(case (old, new) of (Some p, Some q) \<Rightarrow> if p \<noteq> q then absent ns q else Inr () | _ \<Rightarrow> Inr ()) = Inr ()" and
    out: "(case hunks f source of
        None \<Rightarrow> Inl (PatchApply (firstPath new old))
      | Some output \<Rightarrow>
          Inr (\<lparr>cg_old = old, cg_new = new, cg_content = output,
                cg_mode = (if df_new_mode f \<noteq> 0 then Perm (df_new_mode f) else mode0),
                cg_delete = (new = None)\<rparr>, c)) = Inr (plan, claimed')"
    using assms unfolding plan_change_def by (auto simp: res_bind_Inr_iff split: if_splits)
  have c: "c = claimed'" and plan: "cg_old plan = old" "cg_new plan = new" "cg_delete plan = (new = None)"
    using out by (auto split: option.splits)
  show "planned_from (map_of ns) plan"
    unfolding planned_from_def plan
    using rd dest
    by (auto simp: read_source_def absent_def is_file_def res_bind_Inr_iff split: option.splits node.splits if_splits)
  show "set claimed' = set claimed \<union> touched plan" "touched plan \<inter> set claimed = {}"
    using claim_set [OF cl] c by (simp_all add: plan(1,2) [symmetric] paths_of_touched)
qed

lemma plan_file_fit:
  assumes "plan_file eval hunks base ns claimed f = Inr (plan, claimed')"
  shows "planned_from (map_of ns) plan" and "set claimed' = set claimed \<union> touched plan" and "touched plan \<inter> set claimed = {}"
proof -
  obtain old new where "plan_change hunks ns claimed f old new = Inr (plan, claimed')"
    using assms unfolding plan_file_def by (auto split: if_splits sum.splits)
  from plan_change_fit [OF this] show "planned_from (map_of ns) plan"
    "set claimed' = set claimed \<union> touched plan" "touched plan \<inter> set claimed = {}" by simp_all
qed

lemma plan_files_fit:
  "plan_files eval hunks base ns claimed files = Inr plans \<Longrightarrow>
     (\<forall>plan \<in> set plans. planned_from (map_of ns) plan \<and> touched plan \<inter> set claimed = {}) \<and>
     sorted_wrt (\<lambda>a b. touched a \<inter> touched b = {}) plans"
proof (induction eval hunks base ns claimed files arbitrary: plans rule: plan_files.induct)
  case (2 eval hunks base ns claimed f files)
  obtain plan claimed' where pf: "plan_file eval hunks base ns claimed f = Inr (plan, claimed')"
    using "2.prems" by (auto simp: res_bind_Inr_iff)
  obtain rest where rest: "plan_files eval hunks base ns claimed' files = Inr rest" "plans = plan # rest"
    using "2.prems" pf by (auto simp: res_bind_Inr_iff)
  note fit = plan_file_fit [OF pf]
  show ?case using "2.IH" [OF rest(1)] fit rest(2) by fastforce
qed simp

text \<open>
  What the code takes for granted: the names it draws are not part of the paths, and no new
  path lies inside another.
\<close>

definition laid_out :: "kernel \<Rightarrow> nat \<Rightarrow> plannedChange list \<Rightarrow> bool" where
  "laid_out kn n plans \<longleftrightarrow> (\<forall>plan \<in> set plans. \<forall>p \<in> touched plan. unused kn n p) \<and>
     sorted_wrt (\<lambda>a b. \<forall>p q. cg_new a = Some p \<longrightarrow> cg_new b = Some q \<longrightarrow> \<not> prefix p q \<and> \<not> prefix q p) plans"

lemma plans_fitI:
  assumes "plan_files eval hunks base ns [] files = Inr plans" and "laid_out kn n plans"
  shows "plans_fit kn n (map_of ns) plans"
proof -
  note fit = plan_files_fit [OF assms(1)]
  have "plan_fits kn n (map_of ns) plan" if "plan \<in> set plans" for plan
    using fit assms(2) that by (auto simp: plan_fits_def planned_from_def laid_out_def touched_def)
  moreover have "sorted_wrt apart plans"
    using fit assms(2) by (auto simp: laid_out_def apart_def sorted_wrt_iff_nth_less)
  ultimately show ?thesis by (simp add: plans_fit_def)
qed

lemma apply_plans_look:
  assumes rel: "reliable kn" and cl: "closed (look d)" and base: "look d base = Some Dir" and names: "names_differ kn"
    and free: "tree_unused kn (dk_calls d) (look d)" and fit: "plans_fit kn (dk_calls d) (look d) plans"
    and run: "apply_plans kn base plans d = (r, d')"
  shows "case r of Inl e \<Rightarrow> look d' = look d
    | Inr res \<Rightarrow> ar_warnings res = [] \<longrightarrow>
       (\<forall>plan \<in> set plans.
          (\<forall>q. cg_new plan = Some q \<longrightarrow> look d' q = Some (File (cg_mode plan) (cg_content plan))) \<and>
          (\<forall>p. cg_old plan = Some p \<longrightarrow> cg_new plan \<noteq> Some p \<longrightarrow> look d' p = None)) \<and>
       (\<forall>q. (\<forall>plan \<in> set plans. q \<notin> touched plan) \<longrightarrow>
          look d' q = look d q \<or>
          look d q = None \<and> look d' q = Some Dir \<and> (\<exists>plan \<in> set plans. \<exists>r. cg_new plan = Some r \<and> strict_prefix q r))"
proof -
  let ?L = "look d"
  have start: "underway kn (dk_calls d) ?L [] [] d" using free by (simp add: underway_def)
  obtain sr d1 where st: "stage_loop kn base [] plans d = (sr, d1)" by fastforce
  note staged = stage_loop_look [OF rel cl base names st start, simplified, OF fit]
  show ?thesis
  proof (cases sr)
    case (Inl e)
    then show ?thesis using run st staged by (auto simp: apply_plans_def stage_def)
  next
    case (Inr items)
    then have u: "underway kn (dk_calls d) ?L [] items d1" and plans: "map it_plan items = plans" using staged by auto
    obtain cr items' d2 where cm: "commit_loop kn [] items d1 = (cr, items', d2)" by (metis prod_cases3)
    have "plans_fit kn (dk_calls d) ?L (map it_plan ([] @ items))" using plans fit by simp
    note committed = commit_loop_look [OF rel cl names cm u this, simplified]
    show ?thesis
    proof (cases cr)
      case (Some e)
      then show ?thesis using run st Inr cm committed by (auto simp: apply_plans_def stage_def commit_def)
    next
      case None
      then have v: "underway kn (dk_calls d) ?L items' [] d2" "\<forall>x \<in> set items'. published x" "map it_plan items' = plans"
        using committed plans by auto
      obtain ws d3 where rm: "remove_backups kn (concat (map backups_of items')) d2 = (ws, d3)" by fastforce
      have res: "d' = d3" "\<exists>changed. r = Inr \<lparr>ar_changed = changed, ar_warnings = ws\<rparr>"
        using run st Inr cm None rm by (auto simp: apply_plans_def stage_def commit_def)
      note w = underwayD [OF v(1), simplified]
      let ?bs = "concat (map backups_of items')"
      have "b \<in> set (backups_of x) \<longleftrightarrow> it_oldBackup x = Some b" if "x \<in> set items'" for x b
        using w(4) that by (auto simp: backups_of_def item_ok_def split: option.splits)
      then have backups: "b \<in> set ?bs \<longleftrightarrow> (\<exists>x \<in> set items'. it_oldBackup x = Some b)" for b
        by simp
      have bun: "\<not> unused kn (dk_calls d) b" if "b \<in> set ?bs" for b
        using that w(4) unfolding backups item_ok_def by blast
      have tun: "unused kn (dk_calls d) p" if "plan \<in> set plans" "p \<in> touched plan" for plan p
        using fit plan_fitsD(4) that by (auto simp: plans_fit_def)
      note view = published_view [OF _ v(2) _ fit [folded v(3)], OF w(2) w(4)]
      show ?thesis
      proof (cases "ws = []")
        case False
        then show ?thesis using res by auto
      next
        case True
        have l: "look d' q = (if q \<in> set ?bs then None else view ?L items' q)" for q
          using remove_backups_look [OF rm [unfolded True]] w(1) res(1) by simp
        have item: "\<exists>x \<in> set items'. it_plan x = plan" if "plan \<in> set plans" for plan
          using that by (simp only: v(3) [symmetric] set_map image_iff) blast
        have new: "look d' q = Some (File (cg_mode plan) (cg_content plan))" if pl: "plan \<in> set plans" "cg_new plan = Some q" for plan q
        proof -
          obtain x where "x \<in> set items'" "it_plan x = plan" using item [OF pl(1)] by blast
          moreover have "q \<notin> set ?bs" using bun tun [OF pl(1), of q] pl(2) by (auto simp: touched_def)
          ultimately show ?thesis using view pl(2) l by auto
        qed
        have old: "look d' p = None" if pl: "plan \<in> set plans" "cg_old plan = Some p" "cg_new plan \<noteq> Some p" for plan p
        proof -
          obtain x where "x \<in> set items'" "it_plan x = plan" using item [OF pl(1)] by blast
          then show ?thesis using view pl(2,3) l by auto
        qed
        have rest: "look d' q = ?L q \<or>
            ?L q = None \<and> look d' q = Some Dir \<and> (\<exists>plan \<in> set plans. \<exists>r. cg_new plan = Some r \<and> strict_prefix q r)"
          if out: "\<forall>plan \<in> set plans. q \<notin> touched plan" for q
        proof (cases "q \<in> set ?bs")
          case True
          then have "?L q = None" using bun free unfolding tree_unused_def by blast
          then show ?thesis using l True by simp
        next
          case False
          have "\<forall>x \<in> set items'. q \<notin> touched (it_plan x) \<and> it_oldBackup x \<noteq> Some q"
            using False out unfolding backups v(3) [symmetric] by auto
          then show ?thesis using view l False unfolding v(3) [symmetric] by auto
        qed
        show ?thesis using res new old rest by auto
      qed
    qed
  qed
qed


section \<open>Samples\<close>

text \<open>A workspace with one file; the kernel draws the names \<open>7\<close>, \<open>77\<close> and so on.\<close>

definition sample_kernel :: "nat option \<Rightarrow> kernel" where
  "sample_kernel fault = \<lparr>kn_fault = (\<lambda>n. fault = Some n), kn_lost = (\<lambda>n. False), kn_name = (\<lambda>n. replicate n (CHR ''7''))\<rparr>"

definition sample_disk :: disk where
  "sample_disk = \<lparr>dk_nodes = [([], Dir), ([''w''], Dir), ([''w'', ''f''], File 420 ''old'')], dk_calls = 0\<rparr>"

definition sample_eval :: "path \<Rightarrow> evaluation" where
  "sample_eval p = (if map_of (dk_nodes sample_disk) p = None then Missing else Found p)"

definition sample_change :: "string \<Rightarrow> bool \<Rightarrow> diff_file" where
  "sample_change name new = \<lparr>df_old_name = name, df_new_name = name, df_is_new = new, df_is_delete = False,
     df_is_copy = False, df_is_binary = False, df_new_mode = 0\<rparr>"

definition sample_patch :: "nat option \<Rightarrow> diff_file list \<Rightarrow> (patch_error, patch_result) res \<times> disk" where
  "sample_patch fault files = patch_apply sample_eval (\<lambda>patch. Some (files, [])) (\<lambda>f source. Some ''new'')
     (sample_kernel fault) [''w''] ''patch'' sample_disk"

lemma sample_kernel_ok: "reliable (sample_kernel f)" "names_differ (sample_kernel f)"
proof -
  have "inj (\<lambda>n. replicate n (CHR ''7''))"
    by (rule injI) (metis length_replicate)
  moreover have "replicate m (CHR ''7'') \<noteq> ''backup-'' @ xs" for m xs by (cases m) simp_all
  ultimately show "names_differ (sample_kernel f)" unfolding names_differ_def sample_kernel_def by simp
qed (simp add: reliable_def sample_kernel_def)

lemma sample_disk_ok: "closed (look sample_disk)" "look sample_disk [''w''] = Some Dir"
  "tree_unused (sample_kernel f) n (look sample_disk)" "dk_calls sample_disk = 0"
  by (auto simp: closed_def sample_disk_def tree_unused_def unused_def temp_name_def backup_name_def split: if_splits)

lemma sample_plan:
  "plan_files sample_eval (\<lambda>f source. Some ''new'') [''w''] (dk_nodes sample_disk) [] [sample_change ''f'' False] =
     Inr [\<lparr>cg_old = Some [''w'', ''f''], cg_new = Some [''w'', ''f''], cg_content = ''new'', cg_mode = 420, cg_delete = False\<rparr>]"
  by code_simp

lemma sample_laid_out: "laid_out (sample_kernel f) n
    [\<lparr>cg_old = Some [''w'', ''f''], cg_new = Some [''w'', ''f''], cg_content = ''new'', cg_mode = 420, cg_delete = False\<rparr>]"
  by (simp add: laid_out_def touched_def unused_def temp_name_def backup_name_def)

lemma sample_runs: "fst (sample_patch (Some 6) [sample_change ''f'' False]) = Inl (PatchCommit [''w'', ''f''])"
  "fst (sample_patch None [sample_change ''f'' False]) = Inr \<lparr>ar_changed = [[''w'', ''f'']], ar_warnings = []\<rparr>"
  by code_simp+

section \<open>Properties\<close>

text \<open>
  C4: A patch that is refused or fails changes nothing. Whatever system call fails while the
  changes are checked, staged or published, the rollback takes the disk back to where it was:
  every path holds what it held before, and no temporary file, backup or directory is left.
  It needs that the calls of the rollback itself do not fail, that random names are new, and
  that no new path lies inside another new path of the patch.
\<close>

theorem patch_atomic:
  assumes "reliable kn" and "names_differ kn" and "closed (map_of (dk_nodes d))" and "map_of (dk_nodes d) base = Some Dir"
    and "tree_unused kn (dk_calls d) (map_of (dk_nodes d))"
    and laid: "\<And>files plans pre. diff patch = Some (files, pre) \<Longrightarrow>
      plan_files eval hunks base (dk_nodes d) [] files = Inr plans \<Longrightarrow> laid_out kn (dk_calls d) plans"
    and run: "patch_apply eval diff hunks kn base patch d = (Inl e, d')"
  shows "map_of (dk_nodes d') = map_of (dk_nodes d)"
proof -
  consider "d' = d" | files plans pre where "diff patch = Some (files, pre)"
    "plan_files eval hunks base (dk_nodes d) [] files = Inr plans" "apply_plans kn base plans d = (Inl e, d')"
    using run by (auto simp: patch_apply_def split: if_splits option.splits sum.splits)
  then show ?thesis
  proof cases
    case 2
    show ?thesis using apply_plans_look [OF assms(1,3,4,2,5) plans_fitI [OF 2(2) laid [OF 2(1,2)]] 2(3)] by simp
  qed simp
qed

theorem patch_atomic_witness:
  "map_of (dk_nodes (snd (sample_patch (Some 6) [sample_change ''f'' False]))) = map_of (dk_nodes sample_disk)"
proof (rule patch_atomic [where e = "PatchCommit [''w'', ''f'']" and kn = "sample_kernel (Some 6)"])
  show "patch_apply sample_eval (\<lambda>patch. Some ([sample_change ''f'' False], [])) (\<lambda>f source. Some ''new'')
      (sample_kernel (Some 6)) [''w''] ''patch'' sample_disk =
    (Inl (PatchCommit [''w'', ''f'']), snd (sample_patch (Some 6) [sample_change ''f'' False]))"
    using sample_runs(1) by (simp add: sample_patch_def prod_eq_iff)
  fix files plans pre
  assume "Some ([sample_change ''f'' False], []) = Some (files, pre)"
    and "plan_files sample_eval (\<lambda>f source. Some ''new'') [''w''] (dk_nodes sample_disk) [] files = Inr plans"
  then show "laid_out (sample_kernel (Some 6)) (dk_calls sample_disk) plans"
    using sample_laid_out by (auto simp: sample_plan simp del: plan_files.simps)
qed (rule sample_kernel_ok sample_disk_ok)+

text \<open>
  C15: A patch that succeeds without warnings, and in which no new path lies inside another new
  path, does what it says: every new path holds the
  patched text with the planned mode, every path a change removes or renames away is gone,
  and every other path holds what it held, except for directories that were missing above a
  new path and were created for it. No temporary file and no backup is left.
\<close>

theorem patch_applied:
  assumes "reliable kn" and "names_differ kn" and "closed (map_of (dk_nodes d))" and "map_of (dk_nodes d) base = Some Dir"
    and "tree_unused kn (dk_calls d) (map_of (dk_nodes d))"
    and laid: "\<And>files plans pre. diff patch = Some (files, pre) \<Longrightarrow>
      plan_files eval hunks base (dk_nodes d) [] files = Inr plans \<Longrightarrow> laid_out kn (dk_calls d) plans"
    and run: "patch_apply eval diff hunks kn base patch d = (Inr result, d')" and "ar_warnings result = []"
  shows "\<exists>files plans pre. diff patch = Some (files, pre) \<and> plan_files eval hunks base (dk_nodes d) [] files = Inr plans \<and>
    ar_changed result = map (\<lambda>p. firstPath (cg_new p) (cg_old p)) plans \<and>
    (\<forall>plan \<in> set plans.
       (\<forall>q. cg_new plan = Some q \<longrightarrow> map_of (dk_nodes d') q = Some (File (cg_mode plan) (cg_content plan))) \<and>
       (\<forall>p. cg_old plan = Some p \<longrightarrow> cg_new plan \<noteq> Some p \<longrightarrow> map_of (dk_nodes d') p = None)) \<and>
    (\<forall>q. (\<forall>plan \<in> set plans. cg_old plan \<noteq> Some q \<and> cg_new plan \<noteq> Some q) \<longrightarrow>
       map_of (dk_nodes d') q = map_of (dk_nodes d) q \<or>
       map_of (dk_nodes d) q = None \<and> map_of (dk_nodes d') q = Some Dir \<and>
         (\<exists>plan \<in> set plans. \<exists>r. cg_new plan = Some r \<and> strict_prefix q r))"
proof -
  obtain files plans pre where 2: "diff patch = Some (files, pre)"
    "plan_files eval hunks base (dk_nodes d) [] files = Inr plans" "apply_plans kn base plans d = (Inr result, d')"
    using run by (auto simp: patch_apply_def split: if_splits option.splits sum.splits)
  have changed: "ar_changed result = map (\<lambda>p. firstPath (cg_new p) (cg_old p)) plans"
    using 2(3) by (auto simp: apply_plans_def split: prod.splits sum.splits option.splits)
  have out: "q \<notin> touched plan \<longleftrightarrow> cg_old plan \<noteq> Some q \<and> cg_new plan \<noteq> Some q" for q plan
    by (auto simp: touched_def)
  show ?thesis
    using apply_plans_look [OF assms(1,3,4,2,5) plans_fitI [OF 2(2) laid [OF 2(1,2)]] 2(3)] 2(1,2) changed assms(8)
    unfolding out by auto
qed

theorem patch_applied_witness:
  "map_of (dk_nodes (snd (sample_patch None [sample_change ''f'' False]))) [''w'', ''f''] = Some (File 420 ''new'')"
proof -
  have "patch_apply sample_eval (\<lambda>patch. Some ([sample_change ''f'' False], [])) (\<lambda>f source. Some ''new'')
      (sample_kernel None) [''w''] ''patch'' sample_disk =
    (Inr \<lparr>ar_changed = [[''w'', ''f'']], ar_warnings = []\<rparr>, snd (sample_patch None [sample_change ''f'' False]))"
    using sample_runs(2) by (simp add: sample_patch_def prod_eq_iff)
  then have run: "patch_apply sample_eval (\<lambda>patch. Some ([sample_change ''f'' False], [])) (\<lambda>f source. Some ''new'')
      (sample_kernel None) [''w''] ''patch'' sample_disk =
    (Inr \<lparr>ar_changed = [[''w'', ''f'']], ar_warnings = []\<rparr>, snd (sample_patch None [sample_change ''f'' False]))" .
  have laid: "laid_out (sample_kernel None) (dk_calls sample_disk) plans"
    if "Some ([sample_change ''f'' False], []) = Some (files, pre)"
      "plan_files sample_eval (\<lambda>f source. Some ''new'') [''w''] (dk_nodes sample_disk) [] files = Inr plans"
    for files plans and pre :: string
    using that sample_laid_out by (auto simp: sample_plan simp del: plan_files.simps)
  show ?thesis
    using patch_applied [OF sample_kernel_ok sample_disk_ok(1,2) sample_disk_ok(3) laid run]
    by (auto simp: sample_plan simp del: plan_files.simps)
qed

text \<open>
  A patch that creates both \<open>a\<close> and \<open>a/b\<close> is accepted by the checks, fails when it is
  published, and is not rolled back: the directory \<open>a\<close> stays, with a temporary file in it,
  although neither was there before.
\<close>

theorem nested_patch_leaves_files:
  "case sample_patch None [sample_change ''a'' True, sample_change ''a/b'' True] of (r, d) \<Rightarrow>
     r = Inl (PatchCommit [''w'', ''a'', ''b'']) \<and>
     map_of (dk_nodes d) [''w'', ''a''] = Some Dir \<and>
     map_of (dk_nodes d) [''w'', ''a'', ''.alt-patch-7777777''] = Some (File 420 ''new'') \<and>
     map_of (dk_nodes sample_disk) [''w'', ''a''] = None"
  by code_simp

end
