(* ===== verification/Checkpoints.thy ===== *)
theory Checkpoints
  imports Prelude
begin

text \<open>
  Checkpoints of the turn loop (internal/store/checkpoint.go): a mutable value per key and the
  append-only history of its distinct values. SHA-256 and the clock are arguments.
\<close>

section \<open>Tables\<close>

record checkpoint_version =
  cv_key :: string
  cv_version :: int
  cv_value :: string
  cv_digest :: string
  cv_created :: string

record checkpoints =
  ck_live :: "(string, string \<times> string) gomap"
  ck_versions :: "checkpoint_version list"

definition rows_of :: "checkpoints \<Rightarrow> string \<Rightarrow> checkpoint_version list" where
  "rows_of st key = filter (\<lambda>v. cv_key v = key) (ck_versions st)"

text \<open>\<open>ORDER BY version\<close>.\<close>

definition CheckpointVersions :: "checkpoints \<Rightarrow> string \<Rightarrow> checkpoint_version list" where
  "CheckpointVersions st key = sort_key cv_version (rows_of st key)"

definition checkpoint_get :: "checkpoints \<Rightarrow> string \<Rightarrow> string option" where
  "checkpoint_get st key = map_option fst (map_of (ck_live st) key)"

definition latest_digest :: "checkpoints \<Rightarrow> string \<Rightarrow> string" where
  "latest_digest st key =
     (case rev (CheckpointVersions st key) of [] \<Rightarrow> [] | v # _ \<Rightarrow> cv_digest v)"

definition next_version :: "checkpoints \<Rightarrow> string \<Rightarrow> int" where
  "next_version st key = max_or_zero (map cv_version (rows_of st key)) + 1"

definition checkpoint_set :: "(string \<Rightarrow> string) \<Rightarrow> string \<Rightarrow> string \<Rightarrow> string \<Rightarrow> checkpoints \<Rightarrow> checkpoints" where
  "checkpoint_set sha clock key value st =
     (let digest = sha value;
          st1 = (if latest_digest st key \<noteq> digest
            then st\<lparr>ck_versions := ck_versions st @ [\<lparr>cv_key = key, cv_version = next_version st key,
                   cv_value = value, cv_digest = digest, cv_created = clock\<rparr>]\<rparr>
            else st)
      in st1\<lparr>ck_live := AList.update key (value, clock) (ck_live st1)\<rparr>)"

definition checkpoint_delete :: "string \<Rightarrow> checkpoints \<Rightarrow> checkpoints" where
  "checkpoint_delete key st = st\<lparr>ck_live := AList.delete key (ck_live st)\<rparr>"

text \<open>Rows written before the history existed get their first version.\<close>

definition backfillCheckpointVersions :: "(string \<Rightarrow> string) \<Rightarrow> checkpoints \<Rightarrow> checkpoints" where
  "backfillCheckpointVersions sha st =
     (let missing = filter (\<lambda>(key, _). rows_of st key = []) (ck_live st)
      in st\<lparr>ck_versions := ck_versions st @
        map (\<lambda>(key, value, updated). \<lparr>cv_key = key, cv_version = 1, cv_value = value,
          cv_digest = sha value, cv_created = updated\<rparr>) missing\<rparr>)"

section \<open>Settings\<close>

text \<open>The table of settings (internal/store/store.go): an empty key is refused.\<close>

type_synonym settings = "(string, string \<times> string) gomap"

definition Setting :: "settings \<Rightarrow> string \<Rightarrow> string option" where
  "Setting st key = map_option fst (map_of st key)"

definition SetSetting :: "string \<Rightarrow> string \<Rightarrow> string \<Rightarrow> settings \<Rightarrow> settings option" where
  "SetSetting clock key value st = (if key = [] then None else Some (AList.update key (value, clock) st))"

lemma Setting_SetSetting: "SetSetting clock key value st = Some st' \<Longrightarrow>
    Setting st' k = (if k = key then Some value else Setting st k)"
  by (auto simp: SetSetting_def Setting_def split: if_splits)

section \<open>The interface of the turn loop\<close>

text \<open>What the agent library's turn loop needs of a store of checkpoints, and what it can then rely on.\<close>

locale checkpoint_store =
  fixes get :: "'s \<Rightarrow> string \<Rightarrow> string option"
    and put :: "string \<Rightarrow> string \<Rightarrow> 's \<Rightarrow> 's"
    and drop_key :: "string \<Rightarrow> 's \<Rightarrow> 's"
  assumes get_put: "get (put k v s) k' = (if k' = k then Some v else get s k')"
    and get_drop: "get (drop_key k s) k' = (if k' = k then None else get s k')"
begin

text \<open>A resumed loop finds what it wrote last, whatever happened under other keys.\<close>

lemma last_write:
  "get (fold (\<lambda>(k, v). put k v) ws s) key =
     (case map_of (rev ws) key of Some v \<Rightarrow> Some v | None \<Rightarrow> get s key)"
proof (induction ws arbitrary: s)
  case (Cons w ws)
  show ?case by (cases w) (auto simp: Cons.IH get_put map_add_def split: option.splits)
qed simp

lemma put_put_same: "get (put k v (put k w s)) = get (put k v s)"
  by (simp add: get_put fun_eq_iff)

lemma put_drop: "get (put k v (drop_key k s)) = get (put k v s)"
  by (simp add: get_put get_drop fun_eq_iff)

end

interpretation live: checkpoint_store checkpoint_get "checkpoint_set sha clock" checkpoint_delete for sha clock
  by unfold_locales
    (auto simp: checkpoint_get_def checkpoint_set_def checkpoint_delete_def Let_def delete_conv')


section \<open>The history\<close>

datatype checkpoint_op = Put string string string | Drop string | Backfill

fun checkpoint_step :: "(string \<Rightarrow> string) \<Rightarrow> checkpoint_op \<Rightarrow> checkpoints \<Rightarrow> checkpoints" where
  "checkpoint_step sha (Put key value clock) st = checkpoint_set sha clock key value st"
| "checkpoint_step sha (Drop key) st = checkpoint_delete key st"
| "checkpoint_step sha Backfill st = backfillCheckpointVersions sha st"

definition checkpoint_run :: "(string \<Rightarrow> string) \<Rightarrow> checkpoint_op list \<Rightarrow> checkpoints \<Rightarrow> checkpoints" where
  "checkpoint_run sha ops st = fold (checkpoint_step sha) ops st"

text \<open>
  Versions count up from one, no two in a row are equal, digests are those of the values, and
  the last version of a key that has one is its live value.
\<close>

definition versions_ok :: "(string \<Rightarrow> string) \<Rightarrow> checkpoint_version list \<Rightarrow> bool" where
  "versions_ok sha vs \<longleftrightarrow> map cv_version vs = map int [1..<Suc (length vs)] \<and>
     successively (\<noteq>) (map cv_digest vs) \<and> (\<forall>v \<in> set vs. cv_digest v = sha (cv_value v))"

definition history_ok :: "(string \<Rightarrow> string) \<Rightarrow> checkpoints \<Rightarrow> bool" where
  "history_ok sha st \<longleftrightarrow> keys_distinct (ck_live st) \<and> (\<forall>key. versions_ok sha (rows_of st key)) \<and>
     (\<forall>key value t. map_of (ck_live st) key = Some (value, t) \<longrightarrow> rows_of st key \<noteq> [] \<longrightarrow>
        cv_digest (last (rows_of st key)) = sha value)"

lemma versions_sorted: "versions_ok sha (rows_of st key) \<Longrightarrow> CheckpointVersions st key = rows_of st key"
proof -
  assume "versions_ok sha (rows_of st key)"
  then have "map cv_version (rows_of st key) = map int [1..<Suc (length (rows_of st key))]" by (simp add: versions_ok_def)
  moreover have "sorted (map int [1..<n])" for n by (simp add: sorted_map sorted_wrt_upt sorted_wrt_mono_rel [OF _ sorted_wrt_upt])
  ultimately have "sorted (map cv_version (rows_of st key))" by (simp del: upt_Suc)
  then show ?thesis by (simp add: CheckpointVersions_def sorted_sort_id sort_key_id_if_sorted)
qed

lemma next_version_eq:
  assumes "versions_ok sha (rows_of st key)"
  shows "next_version st key = int (Suc (length (rows_of st key)))"
proof -
  define n where "n = length (rows_of st key)"
  have eq: "map cv_version (rows_of st key) = map int [1..<Suc n]"
    using assms unfolding versions_ok_def n_def by blast
  have "max_or_zero (map int [1..<Suc n]) = int n"
  proof (cases n)
    case (Suc m)
    have "int n \<in> set (map int [1..<Suc n])" using Suc by simp
    then have "int n \<le> max_or_zero (map int [1..<Suc n])" by (rule max_or_zero_ge)
    moreover have "max_or_zero (map int [1..<Suc n]) \<le> int n"
      using max_or_zero_in [of "map int [1..<Suc n]"] by (auto simp del: upt_Suc)
    ultimately show ?thesis by simp
  qed (simp add: max_or_zero_def)
  then show ?thesis unfolding next_version_def eq by (simp add: n_def)
qed

lemma versions_snoc:
  "versions_ok sha (vs @ [v]) \<longleftrightarrow> versions_ok sha vs \<and> cv_version v = int (Suc (length vs)) \<and>
     (vs \<noteq> [] \<longrightarrow> cv_digest (last vs) \<noteq> cv_digest v) \<and> cv_digest v = sha (cv_value v)"
  by (auto simp: versions_ok_def successively_append_iff last_map)

lemma latest_digest_eq: "versions_ok sha (rows_of st key) \<Longrightarrow>
    latest_digest st key = (if rows_of st key = [] then [] else cv_digest (last (rows_of st key)))"
  by (simp add: latest_digest_def versions_sorted split: list.split)

lemma rows_append: "rows_of (st\<lparr>ck_versions := ck_versions st @ vs\<rparr>) key = rows_of st key @ filter (\<lambda>v. cv_key v = key) vs"
  by (simp add: rows_of_def)


lemma set_rows:
  "rows_of (checkpoint_set sha clock key value st) k = rows_of st k @
     (if k = key \<and> latest_digest st key \<noteq> sha value
      then [\<lparr>cv_key = key, cv_version = next_version st key, cv_value = value, cv_digest = sha value, cv_created = clock\<rparr>]
      else [])"
  by (simp add: checkpoint_set_def Let_def rows_of_def)

lemma set_live: "ck_live (checkpoint_set sha clock key value st) = AList.update key (value, clock) (ck_live st)"
  by (simp add: checkpoint_set_def Let_def)

lemma delete_parts [simp]: "rows_of (checkpoint_delete key st) k = rows_of st k"
  "ck_live (checkpoint_delete key st) = AList.delete key (ck_live st)"
  by (simp_all add: checkpoint_delete_def rows_of_def)

lemma backfill_live [simp]: "ck_live (backfillCheckpointVersions sha st) = ck_live st"
  by (simp add: backfillCheckpointVersions_def Let_def)

lemma unique_entry: "keys_distinct m \<Longrightarrow> filter (\<lambda>(k, _). k = key) m = (case map_of m key of None \<Rightarrow> [] | Some v \<Rightarrow> [(key, v)])"
proof (induction m)
  case (Cons e m)
  obtain k v where e: "e = (k, v)" by fastforce
  have "filter (\<lambda>(k, _). k = key) m = []" if "k = key"
    using Cons.prems that e by (auto simp: filter_empty_conv image_iff)
  then show ?case using Cons e by (auto simp:)
qed simp

lemma backfill_rows:
  assumes "keys_distinct (ck_live st)"
  shows "rows_of (backfillCheckpointVersions sha st) key =
    (case map_of (ck_live st) key of
       Some (value, updated) \<Rightarrow>
         if rows_of st key = [] then [\<lparr>cv_key = key, cv_version = 1, cv_value = value, cv_digest = sha value, cv_created = updated\<rparr>]
         else rows_of st key
     | None \<Rightarrow> rows_of st key)"
proof -
  let ?row = "\<lambda>(key, value, updated). \<lparr>cv_key = key, cv_version = 1, cv_value = value, cv_digest = sha value, cv_created = updated\<rparr>"
  have "filter (\<lambda>v. cv_key v = key) (map ?row (filter (\<lambda>(k, _). rows_of st k = []) m)) =
      (if rows_of st key = [] then map ?row (filter (\<lambda>(k, _). k = key) m) else [])" for m
    by (induction m) auto
  then have "rows_of (backfillCheckpointVersions sha st) key = rows_of st key @
      (if rows_of st key = [] then map ?row (filter (\<lambda>(k, _). k = key) (ck_live st)) else [])"
    by (simp add: backfillCheckpointVersions_def Let_def rows_append)
  then show ?thesis using unique_entry [OF assms, of key] by (auto split: option.splits)
qed

lemma versions_Nil [simp]: "versions_ok sha []"
  by (simp add: versions_ok_def)

lemma versions_single: "versions_ok sha [v] \<longleftrightarrow> cv_version v = 1 \<and> cv_digest v = sha (cv_value v)"
  using versions_snoc [of sha "[]" v] by simp

lemma history_set:
  assumes "history_ok sha st" and nonempty: "sha value \<noteq> []"
  shows "history_ok sha (checkpoint_set sha clock key value st)"
    and "rows_of (checkpoint_set sha clock key value st) key \<noteq> []"
    and "cv_digest (last (rows_of (checkpoint_set sha clock key value st) key)) = sha value"
proof -
  let ?st = "checkpoint_set sha clock key value st"
  have ok: "versions_ok sha (rows_of st k)" for k using assms(1) by (simp add: history_ok_def)
  have latest: "latest_digest st key = (if rows_of st key = [] then [] else cv_digest (last (rows_of st key)))"
    by (rule latest_digest_eq [OF ok])
  have vok: "versions_ok sha (rows_of ?st k)" for k
    using ok [of k] ok [of key] latest next_version_eq [OF ok [of key]]
    by (auto simp: set_rows versions_snoc simp del: of_nat_Suc)
  show ne: "rows_of ?st key \<noteq> []" and dig: "cv_digest (last (rows_of ?st key)) = sha value"
    using latest nonempty by (auto simp: set_rows split: if_splits)
  show "history_ok sha ?st"
    unfolding history_ok_def
  proof (intro conjI allI impI)
    show "keys_distinct (ck_live ?st)" using assms(1) by (simp add: history_ok_def set_live distinct_update)
    show "versions_ok sha (rows_of ?st k)" for k by (rule vok)
    show "cv_digest (last (rows_of ?st k)) = sha v" if "map_of (ck_live ?st) k = Some (v, t)" "rows_of ?st k \<noteq> []" for k v t
    proof (cases "k = key")
      case True
      then show ?thesis using dig that(1) by (simp add: set_live)
    next
      case False
      then show ?thesis using that assms(1) by (simp add: set_live set_rows history_ok_def)
    qed
  qed
qed

lemma history_step:
  assumes "history_ok sha st" and "\<And>v. sha v \<noteq> []"
  shows "history_ok sha (checkpoint_step sha op st) \<and> prefix (rows_of st key) (rows_of (checkpoint_step sha op st) key)"
proof (cases op)
  case (Put k v t)
  then show ?thesis using history_set(1) [OF assms] by (simp add: set_rows)
next
  case (Drop k)
  then show ?thesis
    using assms(1) by (auto simp: history_ok_def delete_conv' distinct_delete split: if_splits)
next
  case Backfill
  have kd: "keys_distinct (ck_live st)" using assms(1) by (simp add: history_ok_def)
  note rows = backfill_rows [OF kd]
  have "history_ok sha (backfillCheckpointVersions sha st)"
    unfolding history_ok_def
  proof (intro conjI allI impI)
    show "keys_distinct (ck_live (backfillCheckpointVersions sha st))" using kd by simp
    show "versions_ok sha (rows_of (backfillCheckpointVersions sha st) k)" for k
      using assms(1) by (auto simp: rows history_ok_def versions_single split: option.splits)
    show "cv_digest (last (rows_of (backfillCheckpointVersions sha st) k)) = sha v"
      if "map_of (ck_live (backfillCheckpointVersions sha st)) k = Some (v, t)"
        "rows_of (backfillCheckpointVersions sha st) k \<noteq> []" for k v t
      using assms(1) that by (auto simp: rows history_ok_def)
  qed
  then show ?thesis using Backfill rows [of sha key] by (auto split: option.splits)
qed

lemma history_run:
  assumes "\<And>v. sha v \<noteq> []"
  shows "history_ok sha st \<Longrightarrow>
    history_ok sha (checkpoint_run sha ops st) \<and> prefix (rows_of st key) (rows_of (checkpoint_run sha ops st) key)"
proof (induction ops arbitrary: st)
  case (Cons op ops)
  note step = history_step [OF Cons.prems assms, where op = op and key = key]
  from Cons.IH [of "checkpoint_step sha op st"] step show ?case
    by (auto simp: checkpoint_run_def intro: prefix_order.trans)
qed (simp add: checkpoint_run_def)

section \<open>Properties\<close>

text \<open>
  C33: the history of checkpoints only grows and always ends in the present. After any
  sequence of writes, deletions and backfills the versions of a key are numbered from one
  without a gap, no version holds the state of the one just before it, all versions there were
  are still there with their values, and a key that is live and has a history has as its value the
  value of its last version. SHA-256 is assumed to tell the values apart.
\<close>

theorem checkpoint_history:
  assumes "history_ok sha st" and "inj sha" and "\<And>v. sha v \<noteq> []" and "st' = checkpoint_run sha ops st"
  shows "map cv_version (CheckpointVersions st' key) = map int [1..<Suc (length (CheckpointVersions st' key))] \<and>
    successively (\<noteq>) (map cv_value (CheckpointVersions st' key)) \<and>
    prefix (CheckpointVersions st key) (CheckpointVersions st' key) \<and>
    (\<forall>value. checkpoint_get st' key = Some value \<longrightarrow> CheckpointVersions st' key \<noteq> [] \<longrightarrow>
       cv_value (last (CheckpointVersions st' key)) = value)"
proof -
  note run = history_run [OF assms(3,1), where ops = ops and key = key, folded assms(4)]
  have ok: "history_ok sha st'" using run by simp
  have v: "versions_ok sha (rows_of st key)" "versions_ok sha (rows_of st' key)"
    using assms(1) ok by (simp_all add: history_ok_def)
  have "successively (\<noteq>) (map cv_value (rows_of st' key))"
  proof -
    have eq: "map cv_digest (rows_of st' key) = map (\<lambda>v. sha (cv_value v)) (rows_of st' key)"
      using v(2) by (simp add: versions_ok_def)
    have "successively (\<noteq>) (map cv_digest (rows_of st' key))" using v(2) unfolding versions_ok_def by blast
    then have "successively (\<noteq>) (map (\<lambda>v. sha (cv_value v)) (rows_of st' key))" unfolding eq .
    then show ?thesis unfolding successively_map by (rule successively_mono) auto
  qed
  moreover have "cv_value (last (rows_of st' key)) = v"
    if got: "checkpoint_get st' key = Some v" and some: "rows_of st' key \<noteq> []" for v
  proof -
    obtain t where "map_of (ck_live st') key = Some (v, t)" using got
      by (cases "map_of (ck_live st') key") (auto simp: checkpoint_get_def)
    then have "cv_digest (last (rows_of st' key)) = sha v" using ok some by (simp add: history_ok_def)
    moreover have "cv_digest (last (rows_of st' key)) = sha (cv_value (last (rows_of st' key)))"
      using v(2) some by (simp add: versions_ok_def)
    ultimately show ?thesis using assms(2) by (simp add: inj_eq)
  qed
  ultimately show ?thesis
    unfolding versions_sorted [OF v(1)] versions_sorted [OF v(2)]
    using run v(2) by (auto simp: versions_ok_def)
qed

theorem checkpoint_history_witness:
  "map cv_version (CheckpointVersions (checkpoint_run (\<lambda>v. CHR ''h'' # v)
     [Put ''k'' ''a'' ''1'', Put ''k'' ''a'' ''2'', Drop ''k'', Put ''k'' ''b'' ''3''] \<lparr>ck_live = [], ck_versions = []\<rparr>) ''k'') = [1, 2]"
proof -
  let ?run = "checkpoint_run (\<lambda>v. CHR ''h'' # v)
     [Put ''k'' ''a'' ''1'', Put ''k'' ''a'' ''2'', Drop ''k'', Put ''k'' ''b'' ''3''] \<lparr>ck_live = [], ck_versions = []\<rparr>"
  have "history_ok (\<lambda>v. CHR ''h'' # v) \<lparr>ck_live = [], ck_versions = []\<rparr>"
    by (simp add: history_ok_def rows_of_def)
  moreover have "inj (\<lambda>v :: string. CHR ''h'' # v)" by (simp add: inj_def)
  ultimately have "map cv_version (CheckpointVersions ?run ''k'') = map int [1..<Suc (length (CheckpointVersions ?run ''k''))]"
    using checkpoint_history [OF _ _ _ refl] by blast
  moreover have "length (CheckpointVersions ?run ''k'') = 2" by code_simp
  ultimately show ?thesis by (simp add: upt_rec)
qed

text \<open>
  A resumed turn loop finds what it wrote last. After any sequence of writes the value of
  a key is the last one written under it, or what was there before if there is none.
\<close>

lemma checkpoint_last_write:
  "checkpoint_get (fold (\<lambda>(k, v). checkpoint_set sha clock k v) ws st) key =
     (case map_of (rev ws) key of Some v \<Rightarrow> Some v | None \<Rightarrow> checkpoint_get st key)"
  by (rule live.last_write)

end
