(* ===== verification/Credentials.thy ===== *)
theory Credentials
  imports Prelude
begin

text \<open>
  The credential of a gateway (internal/credential/store.go): the environment, a private file
  and the keyring of the desktop, in this order. The keyring is a library the code calls: its
  three operations are arguments. What the operating system does to the files is written out
  step by step; which of its calls fail is an argument.
\<close>

section \<open>State\<close>

record private_file =
  pf_mode :: nat
  pf_content :: string

record credential_files =
  cf_directory :: "nat option"
  cf_files :: "(string, private_file) gomap"

record 'k keyring =
  kr_get :: "'k \<Rightarrow> string \<Rightarrow> string option"
  kr_set :: "string \<Rightarrow> string \<Rightarrow> 'k \<Rightarrow> 'k option"
  kr_delete :: "string \<Rightarrow> 'k \<Rightarrow> 'k option"

record 'k credentials =
  cr_dir :: string
  cr_files :: credential_files
  cr_keyring :: 'k

datatype credential_source = Environment | Keyring | PrivateFile

datatype io_step = StatFile | ReadFile | MakeDirectory | ProtectDirectory | CreateTemporary | ProtectTemporary
  | WriteTemporary | SyncTemporary | CloseTemporary | InstallFile | RemoveFile

datatype credential_error =
    EmptyCredential
  | ControlCharacters string
  | NoDataDirectory
  | BadProviderName
  | NotExist
  | TooBroad string
  | IoFailed io_step
  | CredentialMissing string
  | FallbackFailed credential_error

section \<open>Validation\<close>

text \<open>
  \<open>unicode.IsControl\<close>: U+0000 to U+001F, U+007F and U+0080 to U+009F, the last as the two bytes
  C2 80 to C2 9F; C2 only ever starts a character.
\<close>

fun has_control :: "string \<Rightarrow> bool" where
  "has_control [] = False"
| "has_control (c # s) = (c < CHR 0x20 \<or> c = CHR 0x7F \<or>
     (c = CHR 0xC2 \<and> (case s of [] \<Rightarrow> False | d # _ \<Rightarrow> CHR 0x80 \<le> d \<and> d \<le> CHR 0x9F)) \<or> has_control s)"

definition validCredential :: "string \<Rightarrow> string \<Rightarrow> (credential_error, string) res" where
  "validCredential provider secret =
     (let s = trim secret in
      if s = [] then Inl EmptyCredential
      else if has_control s then Inl (ControlCharacters provider) else Inr s)"

definition name_char :: "char \<Rightarrow> bool" where
  "name_char c \<longleftrightarrow> list_ex (\<lambda>(first, last). first \<le> c \<and> c \<le> last)
       [(CHR ''a'', CHR ''z''), (CHR ''A'', CHR ''Z''), (CHR ''0'', CHR ''9'')] \<or> c \<in> set ''-_.''"

text \<open>The path below the data directory; \<open>filepath.Join\<close> with it is left out.\<close>

definition privateFilePath :: "string \<Rightarrow> string \<Rightarrow> (credential_error, string) res" where
  "privateFilePath dir provider =
     (if trim dir = [] then Inl NoDataDirectory
      else if \<not> list_all name_char provider then Inl BadProviderName
      else if provider = [] \<or> provider = ''.'' \<or> provider = ''..'' then Inl BadProviderName
      else Inr (''credentials/'' @ provider))"

definition account :: "string \<Rightarrow> string" where
  "account provider = ''provider:'' @ provider"

section \<open>The private file\<close>

text \<open>\<open>io\<close> tells which calls of the operating system succeed.\<close>

definition readPrivateFile :: "(io_step \<Rightarrow> bool) \<Rightarrow> 'k credentials \<Rightarrow> string \<Rightarrow> (credential_error, string) res" where
  "readPrivateFile io st provider =
     res_bind (privateFilePath (cr_dir st) provider) (\<lambda>path.
     (case map_of (cf_files (cr_files st)) path of
        None \<Rightarrow> Inl NotExist
      | Some f \<Rightarrow>
          if \<not> io StatFile then Inl (IoFailed StatFile)
          else if pf_mode f mod 64 \<noteq> 0 then Inl (TooBroad path)
          else if \<not> io ReadFile then Inl (IoFailed ReadFile)
          else if trim (pf_content f) = [] then Inl NotExist
          else Inr (trim (pf_content f))))"

text \<open>
  One call of \<open>writePrivateFile\<close> on the files, in order. \<open>os.CreateTemp\<close> makes a file no one
  else may read; \<open>tmp\<close> is the name it chose.
\<close>

fun write_step :: "string \<Rightarrow> string \<Rightarrow> string \<Rightarrow> io_step \<Rightarrow> credential_files \<Rightarrow> credential_files" where
  "write_step tmp path secret MakeDirectory fs =
     (case cf_directory fs of None \<Rightarrow> fs\<lparr>cf_directory := Some 448\<rparr> | Some _ \<Rightarrow> fs)"
| "write_step tmp path secret ProtectDirectory fs = fs\<lparr>cf_directory := Some 448\<rparr>"
| "write_step tmp path secret CreateTemporary fs =
     fs\<lparr>cf_files := AList.update tmp \<lparr>pf_mode = 384, pf_content = []\<rparr> (cf_files fs)\<rparr>"
| "write_step tmp path secret ProtectTemporary fs =
     fs\<lparr>cf_files := AList.map_entry tmp (\<lambda>f. f\<lparr>pf_mode := 384\<rparr>) (cf_files fs)\<rparr>"
| "write_step tmp path secret WriteTemporary fs =
     fs\<lparr>cf_files := AList.map_entry tmp (\<lambda>f. f\<lparr>pf_content := secret\<rparr>) (cf_files fs)\<rparr>"
| "write_step tmp path secret InstallFile fs =
     (case map_of (cf_files fs) tmp of
        None \<Rightarrow> fs
      | Some f \<Rightarrow> fs\<lparr>cf_files := AList.update path f (AList.delete tmp (cf_files fs))\<rparr>)"
| "write_step tmp path secret _ fs = fs"

definition write_order :: "io_step list" where
  "write_order = [MakeDirectory, ProtectDirectory, CreateTemporary, ProtectTemporary, WriteTemporary, SyncTemporary,
     CloseTemporary, InstallFile]"

text \<open>
  The calls up to the first that fails, with every state the files go through. The temporary
  file is removed on the way out, which after the installation removes nothing.
\<close>

definition remove_file :: "string \<Rightarrow> credential_files \<Rightarrow> credential_files" where
  "remove_file path fs = fs\<lparr>cf_files := AList.delete path (cf_files fs)\<rparr>"

fun write_run :: "(io_step \<Rightarrow> bool) \<Rightarrow> string \<Rightarrow> string \<Rightarrow> string \<Rightarrow> io_step list \<Rightarrow> credential_files \<Rightarrow>
    io_step option \<times> credential_files list \<times> credential_files" where
  "write_run io tmp path secret [] fs = (None, [], fs)"
| "write_run io tmp path secret (s # ss) fs =
     (if \<not> io s then (Some s, [], fs)
      else let fs1 = write_step tmp path secret s fs
           in (case write_run io tmp path secret ss fs1 of (failed, states, fs2) \<Rightarrow> (failed, fs1 # states, fs2)))"

definition writePrivateFile :: "(io_step \<Rightarrow> bool) \<Rightarrow> string \<Rightarrow> 'k credentials \<Rightarrow> string \<Rightarrow> string \<Rightarrow>
    (credential_error, unit) res \<times> 'k credentials" where
  "writePrivateFile io tmp st provider secret =
     (case privateFilePath (cr_dir st) provider of
        Inl e \<Rightarrow> (Inl e, st)
      | Inr path \<Rightarrow>
          (case write_run io tmp path secret write_order (cr_files st) of
             (Some s, _, fs) \<Rightarrow> (Inl (IoFailed s), st\<lparr>cr_files := remove_file tmp fs\<rparr>)
           | (None, _, fs) \<Rightarrow> (Inr (), st\<lparr>cr_files := remove_file tmp fs\<rparr>)))"

definition removePrivateFile :: "(io_step \<Rightarrow> bool) \<Rightarrow> 'k credentials \<Rightarrow> string \<Rightarrow> (credential_error, unit) res \<times> 'k credentials" where
  "removePrivateFile io st provider =
     (case privateFilePath (cr_dir st) provider of
        Inl e \<Rightarrow> (Inl e, st)
      | Inr path \<Rightarrow>
          if map_of (cf_files (cr_files st)) path = None then (Inr (), st)
          else if \<not> io RemoveFile then (Inl (IoFailed RemoveFile), st)
          else (Inr (), st\<lparr>cr_files := remove_file path (cr_files st)\<rparr>))"

section \<open>The store\<close>

text \<open>\<open>getenv\<close> is the environment, empty for a variable that is not set.\<close>

definition Lookup :: "'k keyring \<Rightarrow> (string \<Rightarrow> string) \<Rightarrow> (io_step \<Rightarrow> bool) \<Rightarrow> 'k credentials \<Rightarrow> string \<Rightarrow> string \<Rightarrow>
    (credential_error, string \<times> credential_source) res" where
  "Lookup kr getenv io st provider variable =
     (if variable \<noteq> [] \<and> trim (getenv variable) \<noteq> []
      then res_bind (validCredential provider (trim (getenv variable))) (\<lambda>v. Inr (v, Environment))
      else (case readPrivateFile io st provider of
          Inr v \<Rightarrow> res_bind (validCredential provider v) (\<lambda>v. Inr (v, PrivateFile))
        | Inl e \<Rightarrow>
            if e \<noteq> NotExist then Inl e
            else (case kr_get kr (cr_keyring st) (account provider) of
                None \<Rightarrow> Inl (CredentialMissing variable)
              | Some v \<Rightarrow>
                  if trim v = [] then Inl (CredentialMissing variable)
                  else res_bind (validCredential provider v) (\<lambda>v. Inr (v, Keyring)))))"

definition Resolve :: "'k keyring \<Rightarrow> (string \<Rightarrow> string) \<Rightarrow> (io_step \<Rightarrow> bool) \<Rightarrow> 'k credentials \<Rightarrow> string \<Rightarrow> string \<Rightarrow>
    (credential_error, string) res" where
  "Resolve kr getenv io st provider variable = res_bind (Lookup kr getenv io st provider variable) (\<lambda>(v, _). Inr v)"

definition SetCredential :: "'k keyring \<Rightarrow> (io_step \<Rightarrow> bool) \<Rightarrow> string \<Rightarrow> 'k credentials \<Rightarrow> string \<Rightarrow> string \<Rightarrow>
    (credential_error, credential_source) res \<times> 'k credentials" where
  "SetCredential kr io tmp st provider value =
     (case validCredential provider value of
        Inl e \<Rightarrow> (Inl e, st)
      | Inr secret \<Rightarrow>
          (case kr_set kr (account provider) secret (cr_keyring st) of
             Some k \<Rightarrow>
               (case removePrivateFile io (st\<lparr>cr_keyring := k\<rparr>) provider of
                  (Inl e, st') \<Rightarrow> (Inl e, st')
                | (Inr _, st') \<Rightarrow> (Inr Keyring, st'))
           | None \<Rightarrow>
               (case writePrivateFile io tmp st provider secret of
                  (Inl e, st') \<Rightarrow> (Inl (FallbackFailed e), st')
                | (Inr _, st') \<Rightarrow> (Inr PrivateFile, st'))))"

text \<open>What the keyring says to the deletion is not looked at.\<close>

definition DeleteCredential :: "'k keyring \<Rightarrow> (io_step \<Rightarrow> bool) \<Rightarrow> 'k credentials \<Rightarrow> string \<Rightarrow>
    (credential_error, unit) res \<times> 'k credentials" where
  "DeleteCredential kr io st provider =
     (let st1 = (case kr_delete kr (account provider) (cr_keyring st) of Some k \<Rightarrow> st\<lparr>cr_keyring := k\<rparr> | None \<Rightarrow> st)
      in removePrivateFile io st1 provider)"

text \<open>What a keyring is documented to do: a value that was set is the one that is there.\<close>

definition keyring_keeps :: "'k keyring \<Rightarrow> bool" where
  "keyring_keeps kr \<longleftrightarrow> (\<forall>a v k k'. kr_set kr a v k = Some k' \<longrightarrow> kr_get kr k' a = Some v)"

section \<open>Lemmas\<close>

lemma validCredential_Inr: "validCredential provider v = Inr s \<longleftrightarrow> s = trim v \<and> s \<noteq> [] \<and> \<not> has_control s"
  by (auto simp: validCredential_def Let_def)

lemma validCredential_valid: "validCredential provider v = Inr s \<Longrightarrow> validCredential provider s = Inr s"
  by (auto simp: validCredential_Inr)

lemma removePrivateFile_done:
  "removePrivateFile io st provider = (Inr (), st') \<Longrightarrow>
   \<exists>path. privateFilePath (cr_dir st) provider = Inr path \<and> map_of (cf_files (cr_files st')) path = None \<and>
     cr_dir st' = cr_dir st \<and> cr_keyring st' = cr_keyring st"
  by (auto simp: removePrivateFile_def remove_file_def delete_conv' split: sum.splits if_splits)

text \<open>All calls succeed: what is at the path afterwards.\<close>

lemma write_run_done: "write_run io tmp path secret ss fs = (None, states, fs') \<Longrightarrow>
    (\<forall>s \<in> set ss. io s) \<and> fs' = fold (write_step tmp path secret) ss fs"
proof (induction ss arbitrary: fs states)
  case (Cons s ss)
  then show ?case by (auto simp: Let_def split: if_splits prod.splits)
qed simp

lemma write_all: "map_of (cf_files (fold (write_step tmp path secret) write_order fs)) path = Some \<lparr>pf_mode = 384, pf_content = secret\<rparr>"
  by (simp add: write_order_def map_of_map_entry split: option.split)

text \<open>A call that fails before the installation leaves every other file alone.\<close>

lemma write_step_other: "s \<noteq> InstallFile \<Longrightarrow> q \<noteq> tmp \<Longrightarrow> map_of (cf_files (write_step tmp path secret s fs)) q = map_of (cf_files fs) q"
  by (cases s) (simp_all add: map_of_map_entry split: option.split)

lemma write_run_failing: "write_run io tmp path secret ss fs = (Some s, states, fs') \<Longrightarrow> s \<in> set ss"
  by (induction ss arbitrary: fs states) (auto simp: Let_def split: if_splits prod.splits)

lemma write_run_failed:
  "write_run io tmp path secret ss fs = (Some s, states, fs') \<Longrightarrow> InstallFile \<notin> set (butlast ss) \<Longrightarrow>
   q \<noteq> tmp \<Longrightarrow> map_of (cf_files fs') q = map_of (cf_files fs) q"
proof (induction ss arbitrary: fs states)
  case (Cons x ss)
  show ?case
  proof (cases "io x")
    case True
    obtain st2 where run: "write_run io tmp path secret ss (write_step tmp path secret x fs) = (Some s, st2, fs')"
      using Cons.prems(1) True by (auto simp: Let_def split: prod.splits)
    have "ss \<noteq> []" using write_run_failing [OF run] by auto
    then have "x \<noteq> InstallFile" "InstallFile \<notin> set (butlast ss)" using Cons.prems(2) by auto
    then show ?thesis using Cons.IH [OF run] Cons.prems(3) write_step_other by simp
  qed (use Cons.prems in auto)
qed simp

text \<open>Every file that was not there before is closed to everyone else.\<close>

definition closed_since :: "credential_files \<Rightarrow> credential_files \<Rightarrow> bool" where
  "closed_since old fs \<longleftrightarrow> (\<forall>q f. map_of (cf_files fs) q = Some f \<longrightarrow> map_of (cf_files old) q = Some f \<or> pf_mode f mod 64 = 0)"

lemma closed_step:
  assumes "closed_since old fs" and "map_of (cf_files old) tmp = None"
  shows "closed_since old (write_step tmp path secret s fs)"
proof -
  have tmp: "pf_mode f mod 64 = 0" if "map_of (cf_files fs) tmp = Some f" for f
    using assms that unfolding closed_since_def by fastforce
  show ?thesis
proof (cases s)
  case WriteTemporary
  show ?thesis using assms(1) tmp unfolding WriteTemporary closed_since_def by (auto simp: map_of_map_entry)
next
  case ProtectTemporary
  show ?thesis using assms(1) unfolding ProtectTemporary closed_since_def by (auto simp: map_of_map_entry)
next
  case InstallFile
  show ?thesis using assms(1) tmp unfolding InstallFile closed_since_def
    by (auto simp: delete_conv' split: option.split)
qed (use assms(1) in \<open>auto simp: closed_since_def split: option.split\<close>)
qed

lemma closed_run:
  "write_run io tmp path secret ss fs = (failed, states, fs') \<Longrightarrow> closed_since old fs \<Longrightarrow> map_of (cf_files old) tmp = None \<Longrightarrow>
   (\<forall>gs \<in> set states. closed_since old gs) \<and> closed_since old fs'"
proof (induction ss arbitrary: fs states)
  case (Cons x ss)
  show ?case
  proof (cases "io x")
    case True
    obtain st2 where run: "write_run io tmp path secret ss (write_step tmp path secret x fs) = (failed, st2, fs')"
      and states: "states = write_step tmp path secret x fs # st2"
      using Cons.prems(1) True by (auto simp: Let_def split: prod.splits)
    show ?thesis using Cons.IH [OF run closed_step [OF Cons.prems(2,3)] Cons.prems(3)] closed_step [OF Cons.prems(2,3)] states by simp
  qed (use Cons.prems in auto)
qed simp

lemma readPrivateFile_there:
  assumes "privateFilePath (cr_dir st) provider = Inr path" and "io StatFile" "io ReadFile"
    and "map_of (cf_files (cr_files st)) path = Some \<lparr>pf_mode = 384, pf_content = secret\<rparr>" and "trim secret \<noteq> []"
  shows "readPrivateFile io st provider = Inr (trim secret)"
  using assms by (simp add: readPrivateFile_def)

lemma writePrivateFile_done:
  assumes "writePrivateFile io tmp st provider secret = (Inr (), st')" and "\<And>path. privateFilePath (cr_dir st) provider = Inr path \<Longrightarrow> tmp \<noteq> path"
  shows "\<exists>path. privateFilePath (cr_dir st') provider = Inr path \<and>
    map_of (cf_files (cr_files st')) path = Some \<lparr>pf_mode = 384, pf_content = secret\<rparr>"
proof (cases "privateFilePath (cr_dir st) provider")
  case (Inr path)
  obtain failed states fs where run: "write_run io tmp path secret write_order (cr_files st) = (failed, states, fs)" by (metis prod_cases3)
  have st': "failed = None" "st' = st\<lparr>cr_files := remove_file tmp fs\<rparr>"
    using assms(1) Inr run by (auto simp: writePrivateFile_def split: option.splits)
  have "fs = fold (write_step tmp path secret) write_order (cr_files st)" using write_run_done run st'(1) by blast
  then show ?thesis using Inr st'(2) assms(2) [OF Inr] write_all by (simp add: remove_file_def delete_conv')
qed (use assms(1) in \<open>simp add: writePrivateFile_def\<close>)

lemma set_then_resolve:
  assumes "SetCredential kr io tmp st provider value = (Inr source, st')" and "keyring_keeps kr"
    and "tmp \<noteq> ''credentials/'' @ provider" and "trim (getenv variable) = []" and "io' StatFile" and "io' ReadFile"
  shows "Resolve kr getenv io' st' provider variable = Inr (trim value)"
proof -
  obtain secret where valid: "validCredential provider value = Inr secret"
    using assms(1) by (auto simp: SetCredential_def split: sum.splits)
  then have secret: "secret = trim value" "trim value \<noteq> []" by (auto simp: validCredential_Inr)
  note again = validCredential_valid [OF valid]
  show ?thesis
  proof (cases "kr_set kr (account provider) secret (cr_keyring st)")
    case (Some k)
    then have removed: "removePrivateFile io (st\<lparr>cr_keyring := k\<rparr>) provider = (Inr (), st')"
      using assms(1) valid by (auto simp: SetCredential_def split: sum.splits prod.splits)
    obtain path where "privateFilePath (cr_dir st') provider = Inr path" "map_of (cf_files (cr_files st')) path = None" "cr_keyring st' = k"
      using removePrivateFile_done [OF removed] by auto
    moreover have "kr_get kr k (account provider) = Some secret" using assms(2) Some by (simp add: keyring_keeps_def)
    ultimately show ?thesis using assms(4) again secret by (simp add: Resolve_def Lookup_def readPrivateFile_def)
  next
    case None
    then have wrote: "writePrivateFile io tmp st provider secret = (Inr (), st')"
      using assms(1) valid by (auto simp: SetCredential_def split: sum.splits prod.splits)
    have "tmp \<noteq> path" if "privateFilePath (cr_dir st) provider = Inr path" for path
      using that assms(3) by (auto simp: privateFilePath_def split: if_splits)
    from writePrivateFile_done [OF wrote this] obtain path where
      there: "privateFilePath (cr_dir st') provider = Inr path" "map_of (cf_files (cr_files st')) path = Some \<lparr>pf_mode = 384, pf_content = secret\<rparr>"
      by blast
    have "readPrivateFile io' st' provider = Inr (trim secret)"
      using readPrivateFile_there [OF there(1) assms(5,6) there(2)] secret by simp
    then show ?thesis using assms(4) again secret by (simp add: Resolve_def Lookup_def)
  qed
qed

section \<open>What modelling showed\<close>

text \<open>
  A keyring that fails to delete keeps the credential, and the deletion reports success: when
  the keyring answers, the credential is still in use.
\<close>

lemma delete_leaves_keyring:
  assumes "privateFilePath (cr_dir st) provider = Inr path" and "io RemoveFile" "io StatFile"
    and "kr_delete kr (account provider) (cr_keyring st) = None"
    and "kr_get kr (cr_keyring st) (account provider) = Some v" and "validCredential provider v = Inr s"
  shows "\<exists>st'. DeleteCredential kr io st provider = (Inr (), st') \<and> Lookup kr (\<lambda>_. []) io st' provider variable = Inr (s, Keyring)"
proof -
  have "trim v \<noteq> []" using assms(6) by (auto simp: validCredential_Inr)
  then show ?thesis
    using assms by (auto simp: DeleteCredential_def removePrivateFile_def Lookup_def readPrivateFile_def remove_file_def delete_conv')
qed

section \<open>Properties\<close>

definition map_keyring :: "(string, string) gomap keyring" where
  "map_keyring = \<lparr>kr_get = map_of, kr_set = (\<lambda>a v k. Some (AList.update a v k)), kr_delete = (\<lambda>a k. Some (AList.delete a k))\<rparr>"

definition no_keyring :: "(string, string) gomap keyring" where
  "no_keyring = \<lparr>kr_get = (\<lambda>_ _. None), kr_set = (\<lambda>_ _ _. None), kr_delete = (\<lambda>_ _. None)\<rparr>"

definition sample_credentials :: "(string, string) gomap credentials" where
  "sample_credentials = \<lparr>cr_dir = ''/d'', cr_files = \<lparr>cf_directory = None, cf_files = []\<rparr>, cr_keyring = [(''provider:gw'', ''old'')]\<rparr>"

text \<open>
  C31: a credential that was stored is the one that is used. After a successful write, whether
  into the keyring or, when that is not available, into the private file, and whatever value
  either held before, resolving the gateway's credential gives the trimmed value, unless the
  environment overrides it or the file cannot be read.
\<close>

theorem credential_roundtrip:
  assumes "SetCredential kr io tmp st provider value = (Inr source, st')" and "keyring_keeps kr"
    and "tmp \<noteq> ''credentials/'' @ provider" and "trim (getenv variable) = []" and "io' StatFile" and "io' ReadFile"
  shows "Resolve kr getenv io' st' provider variable = Inr (trim value)"
  using assms by (rule set_then_resolve)

theorem credential_roundtrip_witness:
  "Resolve no_keyring (\<lambda>_. []) (\<lambda>_. True) (snd (SetCredential no_keyring (\<lambda>_. True) ''credentials/.credential-1'' sample_credentials ''gw'' '' new'')) ''gw'' ''KEY'' = Inr (trim '' new'')"
proof -
  let ?run = "SetCredential no_keyring (\<lambda>_. True) ''credentials/.credential-1'' sample_credentials ''gw'' '' new''"
  have run: "?run = (Inr PrivateFile, snd ?run)" by code_simp
  have "keyring_keeps no_keyring" by (simp add: keyring_keeps_def no_keyring_def)
  from credential_roundtrip [OF run this, where getenv = "\<lambda>_. []" and io' = "\<lambda>_. True" and variable = "''KEY''"]
  show ?thesis by simp
qed

text \<open>
  The private file is replaced as a whole and never readable by others. Whichever call of
  the operating system fails, all files the write goes through that were not there before
  are closed to group and others; after a failure every file but the temporary one is as it
  was, and in either case the temporary file is gone.
\<close>

theorem private_write_safe:
  assumes "privateFilePath (cr_dir st) provider = Inr path" and "map_of (cf_files (cr_files st)) tmp = None"
    and "write_run io tmp path secret write_order (cr_files st) = (failed, states, fs)"
    and "writePrivateFile io tmp st provider secret = (r, st')" and "gs \<in> set states"
    and "map_of (cf_files gs) q = Some f"
  shows "(map_of (cf_files (cr_files st)) q = Some f \<or> pf_mode f mod 64 = 0) \<and>
    map_of (cf_files (cr_files st')) tmp = None \<and>
    (isl r \<longrightarrow> map_of (cf_files (cr_files st')) = map_of (cf_files (cr_files st)))"
proof (intro conjI impI)
  have "closed_since (cr_files st) (cr_files st)" by (simp add: closed_since_def)
  from closed_run [OF assms(3) this assms(2)] show "map_of (cf_files (cr_files st)) q = Some f \<or> pf_mode f mod 64 = 0"
    using assms(5,6) by (auto simp: closed_since_def)
  have st': "st' = st\<lparr>cr_files := remove_file tmp fs\<rparr>" and r: "isl r \<longleftrightarrow> failed \<noteq> None"
    using assms(1,3,4) by (auto simp: writePrivateFile_def split: option.splits)
  show "map_of (cf_files (cr_files st')) tmp = None" by (simp add: st' remove_file_def delete_conv')
  assume "isl r"
  then obtain s where "failed = Some s" using r by auto
  then have same: "map_of (cf_files fs) p = map_of (cf_files (cr_files st)) p" if "p \<noteq> tmp" for p
    using write_run_failed [of io tmp path secret write_order _ s states fs p] assms(3) that by (simp add: write_order_def)
  show "map_of (cf_files (cr_files st')) = map_of (cf_files (cr_files st))"
    using same assms(2) by (auto simp: st' remove_file_def delete_conv' fun_eq_iff)
qed

theorem private_write_safe_witness:
  "map_of (cf_files (cr_files (snd (writePrivateFile (\<lambda>s. s \<noteq> SyncTemporary) ''t'' sample_credentials ''gw'' ''secret'')))) ''t'' = None"
proof -
  let ?io = "\<lambda>s. s \<noteq> SyncTemporary"
  let ?run = "write_run ?io ''t'' ''credentials/gw'' ''secret'' write_order (cr_files sample_credentials)"
  let ?wrote = "writePrivateFile ?io ''t'' sample_credentials ''gw'' ''secret''"
  have path: "privateFilePath (cr_dir sample_credentials) ''gw'' = Inr ''credentials/gw''" by code_simp
  have absent: "map_of (cf_files (cr_files sample_credentials)) ''t'' = None" by (simp add: sample_credentials_def)
  have run: "?run = (fst ?run, fst (snd ?run), snd (snd ?run))" and wrote: "?wrote = (fst ?wrote, snd ?wrote)" by simp_all
  have "\<lparr>cf_directory = Some 448, cf_files = [(''t'', \<lparr>pf_mode = 384, pf_content = ''secret''\<rparr>)]\<rparr> \<in> set (fst (snd ?run))" by code_simp
  from private_write_safe [OF path absent run wrote this, of "''t''"]
  show ?thesis by simp
qed

end
