(* ===== verification/Gateways.thy ===== *)
theory Gateways
  imports Json Registry Credentials "HOL-Library.Product_Lexorder"
begin

text \<open>
  The gateway adapters: the shared OpenAI-compatible transport
  (internal/provider/openaicompat/factory.go) and the catalogs of Together, ZenMux, Fireworks
  and OpenCode (internal/provider/*/factory.go). The servers, \<open>url.Parse\<close>, the JSON parser
  and \<open>time.Parse\<close> are arguments; what a server answers may depend on what was asked before.
  The redirects that \<open>http.Client\<close> follows are modelled, as the factories leave them on. What
  the chat models send later is not.
\<close>

section \<open>The world of an adapter\<close>

record http_request =
  hq_method :: string
  hq_url :: string
  hq_authorization :: string
  hq_body :: "(string \<times> string) list"

record http_response =
  hr_status :: int
  hr_location :: string
  hr_body :: string

text \<open>
  \<open>wo_decode\<close> reads the first JSON value of a body, \<open>wo_unmarshal\<close> a whole text,
  \<open>wo_encode\<close> writes one. \<open>wo_parse\<close> gives the scheme and the host name of a URL,
  \<open>wo_resolve\<close> what a reference means relative to one (\<open>URL.Parse\<close>). \<open>wo_trusts\<close> tells of two
  URLs whether \<open>net/http\<close> sends the headers with credentials, given for the first, to the
  second as well (\<open>shouldCopyHeaderOnRedirect\<close>: the same host or one below it).
  \<open>wo_insecure\<close> is the developer's override \<open>ALT_ALLOW_INSECURE_PROVIDER_ENDPOINT\<close>.
\<close>

record 'k world =
  wo_client :: "http_request list \<Rightarrow> http_request \<Rightarrow> http_response option"
  wo_parse :: "string \<Rightarrow> (string \<times> string) option"
  wo_resolve :: "string \<Rightarrow> string \<Rightarrow> string option"
  wo_trusts :: "string \<Rightarrow> string \<Rightarrow> bool"
  wo_decode :: "string \<Rightarrow> json option"
  wo_unmarshal :: "string \<Rightarrow> json option"
  wo_encode :: "json \<Rightarrow> string"
  wo_time :: "string \<Rightarrow> int option"
  wo_insecure :: bool
  wo_getenv :: "string \<Rightarrow> string"
  wo_io :: "io_step \<Rightarrow> bool"
  wo_tmp :: string
  wo_keyring :: "'k keyring"

record 'k gateway_state =
  gs_sent :: "http_request list"
  gs_credentials :: "'k credentials"

datatype gateway_error =
    BadEndpoint string
  | NotHttp string
  | NotHttps string
  | ForeignHost string string
  | NoCredential credential_error
  | RequestError
  | HttpStatus int string
  | BadResponse
  | NoModels
  | UnknownRoute string
  | RepeatedPageToken
  | IncompleteAuthorization
  | NoExpiry
  | BadInterval
  | IncompleteToken
  | AuthorizationFailed string
  | Cancelled
  | TimedOut
  | BadExpiry
  | NoRefreshToken
  | NotPersisted credential_error

text \<open>
  \<open>http.Client.Do\<close>. None of the clients sets \<open>CheckRedirect\<close>, so \<open>net/http\<close> follows up to nine
  redirects and gives up at the tenth. After 301, 302 and 303 it goes on without the body, with
  \<open>GET\<close> unless the method was \<open>GET\<close> or \<open>HEAD\<close>; after 307 and 308 it repeats the method and the
  body, if no redirect has dropped that before. A redirect without a location is the answer; one that leads
  nowhere is an error. The \<open>Authorization\<close> of the first request is repeated until a redirect
  leaves what it is trusted with, and not after that. Each request is on record whether or
  not it is answered.
\<close>

definition redirects :: "http_response \<Rightarrow> bool" where
  "redirects r \<longleftrightarrow> hr_status r \<in> set [301, 302, 303, 307, 308] \<and> hr_location r \<noteq> []"

definition redirected :: "http_request \<Rightarrow> bool \<Rightarrow> http_request \<Rightarrow> http_response \<Rightarrow> string \<Rightarrow> http_request" where
  "redirected first bare rq r url =
     (let keeps_body = hr_status r = 307 \<or> hr_status r = 308 in
      \<lparr>hq_method = (if keeps_body \<or> hq_method rq = ''GET'' \<or> hq_method rq = ''HEAD'' then hq_method rq else ''GET''),
       hq_url = url, hq_authorization = (if bare then [] else hq_authorization first),
       hq_body = (if keeps_body then hq_body rq else [])\<rparr>)"

fun http_follow :: "nat \<Rightarrow> 'k world \<Rightarrow> http_request \<Rightarrow> bool \<Rightarrow> http_request \<Rightarrow> 'k gateway_state \<Rightarrow>
    http_response option \<times> 'k gateway_state" where
  "http_follow n w first bare rq st =
     (let st' = st\<lparr>gs_sent := gs_sent st @ [rq]\<rparr> in
      case wo_client w (gs_sent st) rq of
        None \<Rightarrow> (None, st')
      | Some r \<Rightarrow>
          if \<not> redirects r then (Some r, st')
          else (case wo_resolve w (hq_url rq) (hr_location r) of
              None \<Rightarrow> (None, st')
            | Some url \<Rightarrow>
                (case n of
                   0 \<Rightarrow> (None, st')
                 | Suc m \<Rightarrow>
                     let bare' = (bare \<or> \<not> wo_trusts w (hq_url first) url)
                     in http_follow m w first bare' (redirected first bare' rq r url) st')))"

declare http_follow.simps [simp del]

definition http_do :: "'k world \<Rightarrow> http_request \<Rightarrow> 'k gateway_state \<Rightarrow> http_response option \<times> 'k gateway_state" where
  "http_do w rq st = http_follow 9 w rq False rq st"

lemma http_do_direct:
  assumes "wo_client w (gs_sent st) rq = Some r" and "\<not> redirects r"
  shows "http_do w rq st = (Some r, st\<lparr>gs_sent := gs_sent st @ [rq]\<rparr>)"
  using assms by (simp add: http_do_def http_follow.simps [of 9])

definition ok_status :: "int \<Rightarrow> bool" where
  "ok_status s \<longleftrightarrow> 200 \<le> s \<and> s < 300"

definition trim_slashes :: "string \<Rightarrow> string" where
  "trim_slashes s = rev (dropWhile (\<lambda>c. c = CHR ''/'') (rev s))"

section \<open>The shared transport\<close>

definition ValidateEndpoint :: "'k world \<Rightarrow> string \<Rightarrow> string \<Rightarrow> string \<Rightarrow> (gateway_error, unit) res" where
  "ValidateEndpoint w name raw hostname =
     (case wo_parse w raw of
        None \<Rightarrow> Inl (BadEndpoint name)
      | Some (scheme, host) \<Rightarrow>
          if wo_insecure w then (if scheme \<noteq> ''http'' \<and> scheme \<noteq> ''https'' then Inl (NotHttp name) else Inr ())
          else if scheme \<noteq> ''https'' then Inl (NotHttps name)
          else if host \<noteq> hostname then Inl (ForeignHost name host)
          else Inr ())"

record factory_config =
  fc_descriptor :: gateway_descriptor
  fc_route :: string
  fc_base :: string
  fc_hostname :: string
  fc_affinity :: bool
  fc_cache_prefixes :: "string list"

text \<open>What the chat model of the agent library is made with.\<close>

record chat_config =
  cc_key :: string
  cc_base :: string
  cc_model :: string
  cc_cache_control :: bool
  cc_extra :: "(string, string) gomap"

definition unattested :: capabilities where
  "unattested = \<lparr>cap_structured = Unknown, cap_tools = Unknown, cap_image = NoState\<rparr>"

definition compat_capabilities :: "model \<Rightarrow> capabilities" where
  "compat_capabilities spec = unattested"

definition ResolveCredential :: "'k world \<Rightarrow> gateway_descriptor \<Rightarrow> 'k gateway_state \<Rightarrow> (gateway_error, string) res" where
  "ResolveCredential w d st =
     map_sum NoCredential id (Resolve (wo_keyring w) (wo_getenv w) (wo_io w) (gs_credentials st) (de_id d) (de_credential d))"

text \<open>\<open>affinity\<close> is the cache key the context carries, empty for none.\<close>

definition compat_NewChatModel :: "'k world \<Rightarrow> factory_config \<Rightarrow> string \<Rightarrow> model \<Rightarrow> 'k gateway_state \<Rightarrow> (gateway_error, chat_config) res" where
  "compat_NewChatModel w f affinity spec st =
     (if trim (m_route spec) \<noteq> fc_route f then Inl (UnknownRoute (m_route spec))
      else res_bind (ValidateEndpoint w (de_name (fc_descriptor f)) (fc_base f) (fc_hostname f)) (\<lambda>_.
        res_bind (ResolveCredential w (fc_descriptor f) st) (\<lambda>key.
        Inr \<lparr>cc_key = key, cc_base = fc_base f, cc_model = m_name spec,
             cc_cache_control = list_ex (\<lambda>p. has_prefix (to_lower (m_name spec)) (to_lower p)) (fc_cache_prefixes f),
             cc_extra = (if m_reasoning_effort spec \<noteq> [] then [(''reasoning_effort'', m_reasoning_effort spec)] else []) @
               (if fc_affinity f \<and> affinity \<noteq> [] then [(''prompt_cache_key'', affinity)] else [])\<rparr>)))"

definition bearer :: "string \<Rightarrow> string" where
  "bearer key = ''Bearer '' @ key"

definition get_request :: "string \<Rightarrow> string \<Rightarrow> http_request" where
  "get_request url authorization = \<lparr>hq_method = ''GET'', hq_url = url, hq_authorization = authorization, hq_body = []\<rparr>"

definition GetJSON :: "'k world \<Rightarrow> factory_config \<Rightarrow> string \<Rightarrow> (json option \<Rightarrow> 'a decoded) \<Rightarrow> 'k gateway_state \<Rightarrow>
    (gateway_error, 'a) res \<times> 'k gateway_state" where
  "GetJSON w f url dec st =
     (case ValidateEndpoint w (de_name (fc_descriptor f)) url (fc_hostname f) of
        Inl e \<Rightarrow> (Inl e, st)
      | Inr _ \<Rightarrow>
          (case ResolveCredential w (fc_descriptor f) st of
             Inl e \<Rightarrow> (Inl e, st)
           | Inr key \<Rightarrow>
               (case http_do w (get_request url (bearer key)) st of
                  (None, st') \<Rightarrow> (Inl RequestError, st')
                | (Some r, st') \<Rightarrow>
                    if \<not> ok_status (hr_status r) then (Inl (HttpStatus (hr_status r) []), st')
                    else (case wo_decode w (hr_body r) of
                        None \<Rightarrow> (Inl BadResponse, st')
                      | Some j \<Rightarrow> (case dec (Some j) of Inl _ \<Rightarrow> (Inl BadResponse, st') | Inr v \<Rightarrow> (Inr v, st'))))))"

section \<open>Catalogs\<close>

text \<open>
  The loop all adapters share: trim the identity, skip what is empty, seen before or not of
  the wanted kind. \<open>listed\<close> makes the catalog entry.
\<close>

fun collect :: "('a \<Rightarrow> string) \<Rightarrow> ('a \<Rightarrow> bool) \<Rightarrow> ('a \<Rightarrow> string \<Rightarrow> catalog_model) \<Rightarrow> string list \<Rightarrow> 'a list \<Rightarrow> catalog_model list" where
  "collect identity wanted listed seen [] = []"
| "collect identity wanted listed seen (x # xs) =
     (let i = trim (identity x) in
      if i = [] \<or> i \<in> set seen \<or> \<not> wanted x then collect identity wanted listed seen xs
      else listed x i # collect identity wanted listed (i # seen) xs)"

definition sorted_catalog :: "catalog_model list \<Rightarrow> (gateway_error, catalog_model list) res" where
  "sorted_catalog items = (if items = [] then Inl NoModels else Inr (sort_key it_id items))"

definition context_limits :: "int \<Rightarrow> model_limits" where
  "context_limits n = no_limits\<lparr>ml_context := NewTokenLimit n ''gateway_catalog''\<rparr>"

definition one_route_descriptor :: "string \<Rightarrow> string \<Rightarrow> string \<Rightarrow> gateway_route \<Rightarrow> gateway_descriptor" where
  "one_route_descriptor i name variable route =
     \<lparr>de_id = i, de_name = name, de_credential = variable, de_authentication = NoAuthentication, de_routes = [route], de_multi = True\<rparr>"

paragraph \<open>Together\<close>

definition together_config :: factory_config where
  "together_config = \<lparr>fc_descriptor = one_route_descriptor ''together'' ''Together AI'' ''ALT_TOGETHER_API_KEY''
       \<lparr>ro_id = ''serverless'', ro_label = ''Serverless'', ro_metadata = ''togetherai''\<rparr>,
     fc_route = ''serverless'', fc_base = ''https://api.together.xyz/v1'', fc_hostname = ''api.together.xyz'',
     fc_affinity = False, fc_cache_prefixes = []\<rparr>"

record together_model =
  tg_id :: string
  tg_type :: string
  tg_display :: string
  tg_context :: int

definition dec_together :: "json option \<Rightarrow> together_model decoded" where
  "dec_together v =
     res_bind (as_obj v) (\<lambda>kvs. res_bind (as_str (field kvs ''id'')) (\<lambda>i. res_bind (as_str (field kvs ''type'')) (\<lambda>t.
     res_bind (as_str (field kvs ''display_name'')) (\<lambda>d. res_bind (as_int (field kvs ''context_length'')) (\<lambda>c.
     Inr \<lparr>tg_id = i, tg_type = t, tg_display = d, tg_context = c\<rparr>)))))"

definition chatModelType :: "string \<Rightarrow> bool" where
  "chatModelType value \<longleftrightarrow> to_lower (trim value) \<in> set [''chat'', ''language'', ''code'']"

definition together_item :: "together_model \<Rightarrow> string \<Rightarrow> catalog_model" where
  "together_item x i = \<lparr>it_gateway = ''together'', it_route = ''serverless'', it_id = i, it_name = trim (tg_display x),
     it_capabilities = unattested, it_limits = context_limits (tg_context x)\<rparr>"

definition together_ListModels :: "'k world \<Rightarrow> 'k gateway_state \<Rightarrow> (gateway_error, catalog_model list) res \<times> 'k gateway_state" where
  "together_ListModels w st =
     (case GetJSON w together_config (fc_base together_config @ ''/models'') (as_list dec_together) st of
        (Inl e, st') \<Rightarrow> (Inl e, st')
      | (Inr payload, st') \<Rightarrow>
          (sorted_catalog (collect tg_id (\<lambda>x. chatModelType (tg_type x)) together_item [] payload), st'))"

paragraph \<open>ZenMux\<close>

definition zenmux_config :: factory_config where
  "zenmux_config = \<lparr>fc_descriptor = one_route_descriptor ''zenmux'' ''ZenMux'' ''ALT_ZENMUX_API_KEY''
       \<lparr>ro_id = ''openai'', ro_label = ''OpenAI-compatible'', ro_metadata = ''zenmux''\<rparr>,
     fc_route = ''openai'', fc_base = ''https://zenmux.ai/api/v1'', fc_hostname = ''zenmux.ai'',
     fc_affinity = False, fc_cache_prefixes = [''anthropic/'', ''qwen/'']\<rparr>"

record zenmux_model =
  zm_id :: string
  zm_display :: string
  zm_context :: int
  zm_inputs :: "string list"
  zm_outputs :: "string list"

definition dec_zenmux :: "json option \<Rightarrow> zenmux_model decoded" where
  "dec_zenmux v =
     res_bind (as_obj v) (\<lambda>kvs. res_bind (as_str (field kvs ''id'')) (\<lambda>i. res_bind (as_str (field kvs ''display_name'')) (\<lambda>d.
     res_bind (as_int (field kvs ''context_length'')) (\<lambda>c. res_bind (as_list as_str (field kvs ''input_modalities'')) (\<lambda>ins.
     res_bind (as_list as_str (field kvs ''output_modalities'')) (\<lambda>outs.
     Inr \<lparr>zm_id = i, zm_display = d, zm_context = c, zm_inputs = ins, zm_outputs = outs\<rparr>))))))"

definition dec_member :: "string \<Rightarrow> (json option \<Rightarrow> 'a decoded) \<Rightarrow> json option \<Rightarrow> 'a decoded" where
  "dec_member k dec v = res_bind (as_obj v) (\<lambda>kvs. dec (field kvs k))"

definition has_modality :: "string list \<Rightarrow> string \<Rightarrow> bool" where
  "has_modality values expected \<longleftrightarrow> list_ex (\<lambda>v. equal_fold (trim v) expected) values"

definition modalityCapability :: "string list \<Rightarrow> string \<Rightarrow> capability_state" where
  "modalityCapability values expected =
     (if values = [] then Unknown else if has_modality values expected then Supported else Unsupported)"

definition zenmux_item :: "zenmux_model \<Rightarrow> string \<Rightarrow> catalog_model" where
  "zenmux_item x i = \<lparr>it_gateway = ''zenmux'', it_route = ''openai'', it_id = i, it_name = trim (zm_display x),
     it_capabilities = \<lparr>cap_structured = Unknown, cap_tools = Unknown, cap_image = modalityCapability (zm_inputs x) ''image''\<rparr>,
     it_limits = context_limits (zm_context x)\<rparr>"

definition zenmux_ListModels :: "'k world \<Rightarrow> 'k gateway_state \<Rightarrow> (gateway_error, catalog_model list) res \<times> 'k gateway_state" where
  "zenmux_ListModels w st =
     (case GetJSON w zenmux_config (fc_base zenmux_config @ ''/models'') (dec_member ''data'' (as_list dec_zenmux)) st of
        (Inl e, st') \<Rightarrow> (Inl e, st')
      | (Inr payload, st') \<Rightarrow>
          (sorted_catalog (collect zm_id (\<lambda>x. has_modality (zm_outputs x) ''text'') zenmux_item [] payload), st'))"

paragraph \<open>Fireworks\<close>

definition fireworks_config :: factory_config where
  "fireworks_config = \<lparr>fc_descriptor = one_route_descriptor ''fireworks'' ''Fireworks AI'' ''ALT_FIREWORKS_API_KEY''
       \<lparr>ro_id = ''serverless'', ro_label = ''Serverless'', ro_metadata = ''fireworks-ai''\<rparr>,
     fc_route = ''serverless'', fc_base = ''https://api.fireworks.ai/inference/v1'', fc_hostname = ''api.fireworks.ai'',
     fc_affinity = True, fc_cache_prefixes = []\<rparr>"

definition CatalogEndpoint :: string where
  "CatalogEndpoint = ''https://api.fireworks.ai/v1/accounts/fireworks/models''"

record fireworks_model =
  fw_name :: string
  fw_display :: string
  fw_conversation :: bool
  fw_serverless :: bool
  fw_tools :: "bool option"

record fireworks_page =
  fp_models :: "fireworks_model list"
  fp_next :: string

definition dec_fireworks :: "json option \<Rightarrow> fireworks_model decoded" where
  "dec_fireworks v =
     res_bind (as_obj v) (\<lambda>kvs. res_bind (as_str (field kvs ''name'')) (\<lambda>n. res_bind (as_str (field kvs ''displayName'')) (\<lambda>d.
     res_bind (as_bool (field kvs ''supportsServerless'')) (\<lambda>s. res_bind (as_ptr as_bool (field kvs ''supportsTools'')) (\<lambda>t.
     Inr \<lparr>fw_name = n, fw_display = d,
          fw_conversation = (case field kvs ''conversationConfig'' of None \<Rightarrow> False | Some c \<Rightarrow> c \<noteq> JNull),
          fw_serverless = s, fw_tools = t\<rparr>)))))"

definition dec_fireworks_page :: "json option \<Rightarrow> fireworks_page decoded" where
  "dec_fireworks_page v =
     res_bind (as_obj v) (\<lambda>kvs. res_bind (as_list dec_fireworks (field kvs ''models'')) (\<lambda>ms.
     res_bind (as_str (field kvs ''nextPageToken'')) (\<lambda>t. Inr \<lparr>fp_models = ms, fp_next = t\<rparr>)))"

definition fireworks_item :: "fireworks_model \<Rightarrow> string \<Rightarrow> catalog_model" where
  "fireworks_item x i = \<lparr>it_gateway = ''fireworks'', it_route = ''serverless'', it_id = i, it_name = trim (fw_display x),
     it_capabilities = \<lparr>cap_structured = Unknown, cap_tools = capabilityFromBool (fw_tools x), cap_image = NoState\<rparr>,
     it_limits = no_limits\<rparr>"

text \<open>\<open>url.QueryEscape\<close>.\<close>

definition query_hex :: "nat \<Rightarrow> char" where
  "query_hex n = (if n < 10 then char_of (48 + n) else char_of (55 + n))"

definition escape_char :: "char \<Rightarrow> string" where
  "escape_char c =
     (if name_char c \<or> c = CHR ''~'' then [c]
      else if c = CHR '' '' then ''+''
      else CHR ''%'' # [query_hex (of_char c div 16), query_hex (of_char c mod 16)])"

definition page_url :: "string \<Rightarrow> string" where
  "page_url tok = (if tok = [] then CatalogEndpoint else CatalogEndpoint @ ''?pageToken='' @ concat (map escape_char tok))"

text \<open>
  The loop over the pages, with fuel: a server that invents new page tokens for ever would
  keep it going. Then the result is \<open>None\<close>, and the state holds the requests made so far.
\<close>

fun fireworks_pages :: "nat \<Rightarrow> 'k world \<Rightarrow> string \<Rightarrow> string list \<Rightarrow> fireworks_model list \<Rightarrow> 'k gateway_state \<Rightarrow>
    (gateway_error, fireworks_model list) res option \<times> 'k gateway_state" where
  "fireworks_pages 0 w tok tokens acc st = (None, st)"
| "fireworks_pages (Suc fuel) w tok tokens acc st =
     (case GetJSON w fireworks_config (page_url tok) dec_fireworks_page st of
        (Inl e, st') \<Rightarrow> (Some (Inl e), st')
      | (Inr page, st') \<Rightarrow>
          let acc' = acc @ fp_models page; tok' = trim (fp_next page)
          in if tok' = [] then (Some (Inr acc'), st')
             else if tok' \<in> set tokens then (Some (Inl RepeatedPageToken), st')
             else fireworks_pages fuel w tok' (tok' # tokens) acc' st')"

definition fireworks_ListModels :: "nat \<Rightarrow> 'k world \<Rightarrow> 'k gateway_state \<Rightarrow>
    (gateway_error, catalog_model list) res option \<times> 'k gateway_state" where
  "fireworks_ListModels fuel w st =
     (case fireworks_pages fuel w [] [] [] st of
        (r, st') \<Rightarrow> (map_option (\<lambda>r. res_bind r (\<lambda>payload. sorted_catalog
          (collect fw_name (\<lambda>x. fw_serverless x \<and> fw_conversation x) fireworks_item [] payload))) r, st'))"

paragraph \<open>OpenCode\<close>

definition opencode_descriptor :: gateway_descriptor where
  "opencode_descriptor = \<lparr>de_id = ''opencode'', de_name = ''OpenCode'', de_credential = ''ALT_OPENCODE_API_KEY'',
     de_authentication = NoAuthentication,
     de_routes = [\<lparr>ro_id = ''go'', ro_label = ''Go'', ro_metadata = ''opencode-go''\<rparr>,
       \<lparr>ro_id = ''zen'', ro_label = ''Zen'', ro_metadata = ''opencode''\<rparr>], de_multi = True\<rparr>"

definition DefaultEndpoint :: string where
  "DefaultEndpoint = ''https://opencode.ai/zen/go/v1''"

definition ZenEndpoint :: string where
  "ZenEndpoint = ''https://opencode.ai/zen/v1''"

definition routeEndpoint :: "string \<Rightarrow> string option" where
  "routeEndpoint route =
     (let r = to_lower (trim route) in if r = ''go'' then Some DefaultEndpoint else if r = ''zen'' then Some ZenEndpoint else None)"

definition opencode_validateEndpoint :: "'k world \<Rightarrow> string \<Rightarrow> (gateway_error, unit) res" where
  "opencode_validateEndpoint w raw = ValidateEndpoint w ''OpenCode'' raw ''opencode.ai''"

definition opencode_NewChatModel :: "'k world \<Rightarrow> model \<Rightarrow> 'k gateway_state \<Rightarrow> (gateway_error, chat_config) res" where
  "opencode_NewChatModel w spec st =
     (case routeEndpoint (m_route spec) of
        None \<Rightarrow> Inl (UnknownRoute (m_route spec))
      | Some endpoint \<Rightarrow>
          res_bind (opencode_validateEndpoint w endpoint) (\<lambda>_.
          res_bind (ResolveCredential w opencode_descriptor st) (\<lambda>key.
          Inr \<lparr>cc_key = key, cc_base = endpoint, cc_model = m_name spec, cc_cache_control = False,
            cc_extra = (if m_reasoning_effort spec \<noteq> [] then [(''reasoning_effort'', m_reasoning_effort spec)] else [])\<rparr>)))"

definition listEndpoint :: "'k world \<Rightarrow> string \<Rightarrow> string \<Rightarrow> 'k gateway_state \<Rightarrow> (gateway_error, string list) res \<times> 'k gateway_state" where
  "listEndpoint w key endpoint st =
     (case opencode_validateEndpoint w endpoint of
        Inl e \<Rightarrow> (Inl e, st)
      | Inr _ \<Rightarrow>
          (case http_do w (get_request (trim_slashes endpoint @ ''/models'') (bearer key)) st of
             (None, st') \<Rightarrow> (Inl RequestError, st')
           | (Some r, st') \<Rightarrow>
               if \<not> ok_status (hr_status r) then (Inl (HttpStatus (hr_status r) []), st')
               else (case wo_decode w (hr_body r) of
                   None \<Rightarrow> (Inl BadResponse, st')
                 | Some j \<Rightarrow>
                     (case dec_member ''data'' (as_list (dec_member ''id'' as_str)) (Some j) of
                        Inl _ \<Rightarrow> (Inl BadResponse, st')
                      | Inr ids \<Rightarrow> (Inr (filter (\<lambda>i. i \<noteq> []) (map trim ids)), st')))))"

definition opencode_item :: "string \<Rightarrow> string \<Rightarrow> catalog_model" where
  "opencode_item route i = \<lparr>it_gateway = ''opencode'', it_route = route, it_id = i, it_name = [],
     it_capabilities = unattested, it_limits = no_limits\<rparr>"

text \<open>A catalog that fails is left out; both are asked.\<close>

fun list_catalogs :: "'k world \<Rightarrow> string \<Rightarrow> (string \<times> string) list \<Rightarrow> 'k gateway_state \<Rightarrow> catalog_model list \<times> 'k gateway_state" where
  "list_catalogs w key [] st = ([], st)"
| "list_catalogs w key ((endpoint, route) # cs) st =
     (case listEndpoint w key endpoint st of
        (r, st1) \<Rightarrow> (case list_catalogs w key cs st1 of
          (items, st2) \<Rightarrow> ((case r of Inl _ \<Rightarrow> [] | Inr ids \<Rightarrow> map (opencode_item route) ids) @ items, st2)))"

definition opencode_ListModels :: "'k world \<Rightarrow> 'k gateway_state \<Rightarrow> (gateway_error, catalog_model list) res \<times> 'k gateway_state" where
  "opencode_ListModels w st =
     (case ResolveCredential w opencode_descriptor st of
        Inl e \<Rightarrow> (Inl e, st)
      | Inr key \<Rightarrow>
          (case list_catalogs w key [(DefaultEndpoint, ''go''), (ZenEndpoint, ''zen'')] st of
             (items, st') \<Rightarrow>
               (if items = [] then Inl NoModels else Inr (sort_key (\<lambda>m. (it_route m, it_id m)) items), st')))"

section \<open>Where requests go\<close>

text \<open>
  A URL of one of the gateway's own hosts, over https; with the developer's override any host,
  over http or https.
\<close>

definition own_host :: "'k world \<Rightarrow> string list \<Rightarrow> string \<Rightarrow> bool" where
  "own_host w hosts url \<longleftrightarrow>
     (case wo_parse w url of
        None \<Rightarrow> False
      | Some (scheme, host) \<Rightarrow>
          if wo_insecure w then scheme = ''http'' \<or> scheme = ''https'' else scheme = ''https'' \<and> host \<in> set hosts)"

text \<open>
  What explains the \<open>i\<close>-th of the requests \<open>new\<close> made after \<open>before\<close>: it goes to an own host, or
  where the answer to the request just before it redirects. In the second case it carries
  the credentials of an earlier request to an own host at most, and only to where
  \<open>net/http\<close> lets them travel from there.
\<close>

definition allowed :: "'k world \<Rightarrow> string list \<Rightarrow> http_request list \<Rightarrow> http_request list \<Rightarrow> nat \<Rightarrow> bool" where
  "allowed w hosts before new i \<longleftrightarrow>
     own_host w hosts (hq_url (new ! i)) \<or>
     (\<exists>j r. j < i \<and> own_host w hosts (hq_url (new ! j)) \<and>
        wo_client w (before @ take (i - 1) new) (new ! (i - 1)) = Some r \<and> redirects r \<and>
        wo_resolve w (hq_url (new ! (i - 1))) (hr_location r) = Some (hq_url (new ! i)) \<and>
        (hq_authorization (new ! i) = [] \<or>
         hq_authorization (new ! i) = hq_authorization (new ! j) \<and> wo_trusts w (hq_url (new ! j)) (hq_url (new ! i))))"

definition sends :: "'k world \<Rightarrow> string list \<Rightarrow> 'k gateway_state \<Rightarrow> 'k gateway_state \<Rightarrow> bool" where
  "sends w hosts st st' \<longleftrightarrow>
     (\<exists>new. gs_sent st' = gs_sent st @ new \<and> (\<forall>i < length new. allowed w hosts (gs_sent st) new i))"

named_theorems sending \<open>the requests an operation makes go to the gateway's own hosts, or where these redirect\<close>

lemma sends_refl [sending, simp]: "sends w hosts st st"
  by (simp add: sends_def)

lemma allowed_first: "i < length a \<Longrightarrow> allowed w hosts before (a @ b) i = allowed w hosts before a i"
  unfolding allowed_def by (intro disj_cong ex_cong1 conj_cong) (auto simp: nth_append)

lemma allowed_rest:
  assumes "allowed w hosts (before @ a) b i"
  shows "allowed w hosts before (a @ b) (length a + i)"
proof (cases "own_host w hosts (hq_url (b ! i))")
  case False
  then obtain j r where jr: "j < i" "own_host w hosts (hq_url (b ! j))"
    "wo_client w ((before @ a) @ take (i - 1) b) (b ! (i - 1)) = Some r" "redirects r"
    "wo_resolve w (hq_url (b ! (i - 1))) (hr_location r) = Some (hq_url (b ! i))"
    "hq_authorization (b ! i) = [] \<or> hq_authorization (b ! i) = hq_authorization (b ! j) \<and> wo_trusts w (hq_url (b ! j)) (hq_url (b ! i))"
    using assms unfolding allowed_def by blast
  have i: "length a + i - 1 = length a + (i - 1)" using jr(1) by simp
  have at: "(a @ b) ! (length a + k) = b ! k" for k by simp
  show ?thesis
    unfolding allowed_def i at
    by (rule disjI2, rule exI [of _ "length a + j"], rule exI [of _ r]) (use jr in simp)
qed (simp add: allowed_def)

lemma sends_trans:
  assumes "sends w hosts st st1" and "sends w hosts st1 st2"
  shows "sends w hosts st st2"
proof -
  obtain a where a: "gs_sent st1 = gs_sent st @ a" "\<And>i. i < length a \<Longrightarrow> allowed w hosts (gs_sent st) a i"
    using assms(1) unfolding sends_def by blast
  obtain b where b: "gs_sent st2 = gs_sent st1 @ b" "\<And>i. i < length b \<Longrightarrow> allowed w hosts (gs_sent st1) b i"
    using assms(2) unfolding sends_def by blast
  have "allowed w hosts (gs_sent st) (a @ b) i" if "i < length (a @ b)" for i
  proof (cases "i < length a")
    case True
    then show ?thesis using a(2) by (simp add: allowed_first)
  next
    case False
    then have "i = length a + (i - length a)" "i - length a < length b" using that by simp_all
    then show ?thesis using allowed_rest [OF b(2) [unfolded a(1)]] by metis
  qed
  then show ?thesis unfolding sends_def using a(1) b(1) by (intro exI [of _ "a @ b"]) simp
qed

text \<open>The chain of redirects: every request of it is explained by the one before.\<close>

lemma follow_sends:
  assumes "http_follow n w first bare rq st = (r, st')" and "gs_sent st = before @ pre"
    and "\<And>i. i \<le> length pre \<Longrightarrow> allowed w hosts before (pre @ [rq]) i"
    and "own_host w hosts (hq_url first)" and "hd (pre @ [rq]) = first"
  shows "\<exists>new. gs_sent st' = before @ new \<and> (\<forall>i < length new. allowed w hosts before new i)"
  using assms
proof (induction n arbitrary: bare rq st pre)
  case (0 bare rq st pre)
  then have "gs_sent st' = before @ (pre @ [rq])"
    by (auto simp: http_follow.simps [of 0] Let_def split: option.splits if_splits)
  then show ?case using 0(3) by (intro exI [of _ "pre @ [rq]"]) simp
next
  case (Suc n bare rq st pre)
  let ?st1 = "st\<lparr>gs_sent := gs_sent st @ [rq]\<rparr>"
  show ?case
  proof (cases "\<exists>a url. wo_client w (gs_sent st) rq = Some a \<and> redirects a \<and> wo_resolve w (hq_url rq) (hr_location a) = Some url")
    case False
    then have "gs_sent st' = before @ (pre @ [rq])" using Suc.prems(1,2)
      by (auto simp: http_follow.simps [of "Suc n"] Let_def split: option.splits if_splits)
    then show ?thesis using Suc.prems(3) by (intro exI [of _ "pre @ [rq]"]) simp
  next
    case True
    then obtain a url where a: "wo_client w (gs_sent st) rq = Some a" "redirects a"
      "wo_resolve w (hq_url rq) (hr_location a) = Some url" by blast
    define bare' where "bare' = (bare \<or> \<not> wo_trusts w (hq_url first) url)"
    define rq' where "rq' = redirected first bare' rq a url"
    have run: "http_follow n w first bare' rq' ?st1 = (r, st')"
      using Suc.prems(1) a by (simp add: http_follow.simps [of "Suc n"] Let_def bare'_def rq'_def)
    have rq': "hq_url rq' = url" "hq_authorization rq' = [] \<or> hq_authorization rq' = hq_authorization first \<and> wo_trusts w (hq_url first) url"
      by (auto simp: rq'_def bare'_def redirected_def Let_def)
    have first: "(pre @ [rq]) ! 0 = first" using Suc.prems(5) by (cases pre) auto
    show ?thesis
    proof (rule Suc.IH [OF run, of "pre @ [rq]"])
      show "gs_sent ?st1 = before @ pre @ [rq]" using Suc.prems(2) by simp
      show "own_host w hosts (hq_url first)" by (rule Suc.prems(4))
      show "hd ((pre @ [rq]) @ [rq']) = first" using Suc.prems(5) by (cases pre) auto
      fix i assume i: "i \<le> length (pre @ [rq])"
      show "allowed w hosts before ((pre @ [rq]) @ [rq']) i"
      proof (cases "i \<le> length pre")
        case True
        then show ?thesis using Suc.prems(3) [of i] by (subst allowed_first) auto
      next
        case False
        then have i: "i = Suc (length pre)" using i by simp
        have "((pre @ [rq]) @ [rq']) ! 0 = first" using first by (cases pre) auto
        then show ?thesis unfolding allowed_def i using a rq' Suc.prems(2,4)
          by (intro disjI2 exI [of _ 0] exI [of _ a]) (simp add: nth_append)
      qed
    qed
  qed
qed

lemma sends_do:
  assumes "own_host w hosts (hq_url rq)" and "http_do w rq st = (r, st')"
  shows "sends w hosts st st'"
proof -
  have "allowed w hosts (gs_sent st) ([] @ [rq]) i" if "i \<le> length []" for i :: nat
    using that assms(1) by (simp add: allowed_def)
  from follow_sends [OF assms(2) [unfolded http_do_def], where before = "gs_sent st" and pre = "[]", OF _ this assms(1)]
  show ?thesis by (simp add: sends_def)
qed

text \<open>If no server of the gateway redirects to a foreign host, none is ever asked.\<close>

definition redirects_home :: "'k world \<Rightarrow> string list \<Rightarrow> bool" where
  "redirects_home w hosts \<longleftrightarrow>
     (\<forall>sent rq r url. own_host w hosts (hq_url rq) \<longrightarrow> wo_client w sent rq = Some r \<longrightarrow> redirects r \<longrightarrow>
        wo_resolve w (hq_url rq) (hr_location r) = Some url \<longrightarrow> own_host w hosts url)"

lemma stays_home:
  assumes "redirects_home w hosts" and "\<And>i. i < length new \<Longrightarrow> allowed w hosts before new i"
  shows "i < length new \<Longrightarrow> own_host w hosts (hq_url (new ! i))"
proof (induction i rule: less_induct)
  case (less i)
  show ?case
  proof (rule ccontr)
    assume foreign: "\<not> own_host w hosts (hq_url (new ! i))"
    then obtain r where "0 < i" "wo_client w (before @ take (i - 1) new) (new ! (i - 1)) = Some r" "redirects r"
      "wo_resolve w (hq_url (new ! (i - 1))) (hr_location r) = Some (hq_url (new ! i))"
      using assms(2) [OF less.prems] unfolding allowed_def by auto
    moreover have "own_host w hosts (hq_url (new ! (i - 1)))" by (rule less.IH) (use less.prems \<open>0 < i\<close> in simp_all)
    ultimately show False using assms(1) foreign unfolding redirects_home_def by blast
  qed
qed

text \<open>
  What a redirect makes of a request with a body: after 307 and 308 the body goes to
  wherever the answer points, in full.
\<close>

lemma redirected_body:
  assumes "wo_client w (gs_sent st) rq = Some r" and "hr_status r = 307 \<or> hr_status r = 308" and "hr_location r \<noteq> []"
    and "wo_resolve w (hq_url rq) (hr_location r) = Some url"
  shows "\<exists>rq' rest. gs_sent (snd (http_do w rq st)) = gs_sent st @ rq # rq' # rest \<and>
    hq_url rq' = url \<and> hq_method rq' = hq_method rq \<and> hq_body rq' = hq_body rq"
proof -
  have grows: "\<exists>rest. gs_sent (snd (http_follow n w first bare q s)) = gs_sent s @ q # rest" for n first bare q and s :: "'a gateway_state"
  proof (induction n arbitrary: bare q s)
    case 0
    show ?case by (auto simp: http_follow.simps [of 0] Let_def split: option.split)
  next
    case (Suc n)
    have "\<exists>rest. gs_sent (snd (http_follow n w first b q' (s\<lparr>gs_sent := gs_sent s @ [q]\<rparr>))) = gs_sent s @ q # rest" for b q'
      using Suc.IH [of b q' "s\<lparr>gs_sent := gs_sent s @ [q]\<rparr>"] by auto
    then show ?case by (auto simp: http_follow.simps [of "Suc n"] Let_def split: option.split)
  qed
  have "redirects r" using assms(2,3) by (auto simp: redirects_def)
  define bare where "bare = (\<not> wo_trusts w (hq_url rq) url)"
  have "http_do w rq st = http_follow 8 w rq bare (redirected rq bare rq r url) (st\<lparr>gs_sent := gs_sent st @ [rq]\<rparr>)"
    using assms \<open>redirects r\<close> by (simp add: http_do_def http_follow.simps [of 9] bare_def Let_def)
  then obtain rest where "gs_sent (snd (http_do w rq st)) = gs_sent st @ rq # redirected rq bare rq r url # rest"
    using grows [of 8 rq bare "redirected rq bare rq r url" "st\<lparr>gs_sent := gs_sent st @ [rq]\<rparr>"] by auto
  moreover have "hq_body (redirected rq bare rq r url) = hq_body rq" "hq_method (redirected rq bare rq r url) = hq_method rq"
    "hq_url (redirected rq bare rq r url) = url"
    using assms(2) by (auto simp: redirected_def Let_def)
  ultimately show ?thesis by blast
qed

lemma validated_own: "ValidateEndpoint w name raw host = Inr u \<Longrightarrow> host \<in> set hosts \<Longrightarrow> own_host w hosts raw"
  by (auto simp: ValidateEndpoint_def own_host_def split: option.splits if_splits)

lemma get_request_parts [simp]: "hq_url (get_request url a) = url" "hq_authorization (get_request url a) = a"
  by (simp_all add: get_request_def)

lemma sends_GetJSON [sending]:
  assumes "GetJSON w f url dec st = (r, st')" and "fc_hostname f \<in> set hosts"
  shows "sends w hosts st st'"
proof (cases "ValidateEndpoint w (de_name (fc_descriptor f)) url (fc_hostname f)")
  case (Inr u)
  show ?thesis
  proof (cases "ResolveCredential w (fc_descriptor f) st")
    case (Inr key)
    obtain a st1 where exchange: "http_do w (get_request url (bearer key)) st = (a, st1)" by fastforce
    have "st' = st1" using assms(1) exchange Inr \<open>ValidateEndpoint _ _ _ _ = Inr u\<close>
      by (auto simp: GetJSON_def split: option.splits if_splits sum.splits)
    then show ?thesis using sends_do [OF _ exchange] validated_own [OF \<open>ValidateEndpoint _ _ _ _ = Inr u\<close> assms(2)] by simp
  qed (use assms(1) Inr in \<open>simp add: GetJSON_def\<close>)
qed (use assms(1) in \<open>simp add: GetJSON_def\<close>)

lemma sends_together: "together_ListModels w st = (r, st') \<Longrightarrow> sends w [''api.together.xyz''] st st'"
  by (auto simp: together_ListModels_def together_config_def split: prod.splits sum.splits intro: sends_GetJSON)

lemma sends_zenmux: "zenmux_ListModels w st = (r, st') \<Longrightarrow> sends w [''zenmux.ai''] st st'"
  by (auto simp: zenmux_ListModels_def zenmux_config_def split: prod.splits sum.splits intro: sends_GetJSON)

lemma sends_pages: "fireworks_pages fuel w tok tokens acc st = (r, st') \<Longrightarrow> sends w [''api.fireworks.ai''] st st'"
proof (induction fuel arbitrary: tok tokens acc st)
  case (Suc fuel)
  obtain g st1 where got: "GetJSON w fireworks_config (page_url tok) dec_fireworks_page st = (g, st1)" by fastforce
  have first: "sends w [''api.fireworks.ai''] st st1" by (rule sends_GetJSON [OF got]) (simp add: fireworks_config_def)
  show ?case
  proof (cases "\<exists>page. g = Inr page \<and> trim (fp_next page) \<noteq> [] \<and> trim (fp_next page) \<notin> set tokens")
    case True
    then obtain page where "g = Inr page"
      "fireworks_pages fuel w (trim (fp_next page)) (trim (fp_next page) # tokens) (acc @ fp_models page) st1 = (r, st')"
      using Suc.prems got by (auto simp: Let_def)
    then show ?thesis using Suc.IH sends_trans [OF first] by blast
  next
    case False
    then have "st' = st1" using Suc.prems got by (auto simp: Let_def split: sum.splits if_splits)
    then show ?thesis using first by simp
  qed
qed simp

lemma sends_fireworks: "fireworks_ListModels fuel w st = (r, st') \<Longrightarrow> sends w [''api.fireworks.ai''] st st'"
  by (auto simp: fireworks_ListModels_def split: prod.splits intro: sends_pages)

text \<open>\<open>url.Parse\<close> gives the same host for the two endpoints and for the path below them.\<close>

definition parses_paths :: "'k world \<Rightarrow> bool" where
  "parses_paths w \<longleftrightarrow>
     wo_parse w (trim_slashes DefaultEndpoint @ ''/models'') = wo_parse w DefaultEndpoint \<and>
     wo_parse w (trim_slashes ZenEndpoint @ ''/models'') = wo_parse w ZenEndpoint"

lemma sends_listEndpoint:
  assumes "listEndpoint w key endpoint st = (r, st')" and "wo_parse w (trim_slashes endpoint @ ''/models'') = wo_parse w endpoint"
  shows "sends w [''opencode.ai''] st st'"
proof (cases "opencode_validateEndpoint w endpoint")
  case (Inr u)
  obtain a st1 where exchange: "http_do w (get_request (trim_slashes endpoint @ ''/models'') (bearer key)) st = (a, st1)" by fastforce
  have "st' = st1" using assms(1) exchange Inr
    by (auto simp: listEndpoint_def split: option.splits if_splits sum.splits)
  moreover have "own_host w [''opencode.ai''] endpoint"
    using Inr validated_own by (fastforce simp: opencode_validateEndpoint_def)
  then have "own_host w [''opencode.ai''] (trim_slashes endpoint @ ''/models'')" using assms(2) by (simp add: own_host_def)
  ultimately show ?thesis using sends_do [OF _ exchange] by simp
qed (use assms(1) in \<open>simp add: listEndpoint_def\<close>)

lemma sends_list_catalogs:
  "list_catalogs w key cs st = (r, st') \<Longrightarrow>
   (\<And>endpoint route. (endpoint, route) \<in> set cs \<Longrightarrow> wo_parse w (trim_slashes endpoint @ ''/models'') = wo_parse w endpoint) \<Longrightarrow>
   sends w [''opencode.ai''] st st'"
proof (induction w key cs st arbitrary: r rule: list_catalogs.induct)
  case (2 w key endpoint route cs st)
  obtain a st1 where l: "listEndpoint w key endpoint st = (a, st1)" by fastforce
  obtain b st2 where c: "list_catalogs w key cs st1 = (b, st2)" by fastforce
  have eq: "st2 = st'" using "2.prems"(1) l c by simp
  have "sends w [''opencode.ai''] st st1" by (rule sends_listEndpoint [OF l]) (rule "2.prems"(2) [of endpoint route], simp)
  moreover have "sends w [''opencode.ai''] st1 st'" by (rule "2.IH" [OF l [symmetric] c [unfolded eq]]) (use "2.prems"(2) in auto)
  ultimately show ?case using sends_trans by blast
qed simp

lemma sends_opencode:
  assumes "opencode_ListModels w st = (r, st')" and "parses_paths w"
  shows "sends w [''opencode.ai''] st st'"
proof (cases "ResolveCredential w opencode_descriptor st")
  case (Inr key)
  obtain items st1 where l: "list_catalogs w key [(DefaultEndpoint, ''go''), (ZenEndpoint, ''zen'')] st = (items, st1)" by fastforce
  have "st' = st1" using assms(1) Inr l by (simp add: opencode_ListModels_def del: list_catalogs.simps)
  moreover have "sends w [''opencode.ai''] st st1"
    by (rule sends_list_catalogs [OF l]) (use assms(2) in \<open>auto simp: parses_paths_def\<close>)
  ultimately show ?thesis by simp
qed (use assms(1) in \<open>simp add: opencode_ListModels_def\<close>)

section \<open>Catalogs\<close>

text \<open>What the adapters' loop collects, seen as sets: the identities of what is wanted, once each.\<close>

definition identities :: "('a \<Rightarrow> string) \<Rightarrow> ('a \<Rightarrow> bool) \<Rightarrow> 'a list \<Rightarrow> string set" where
  "identities identity wanted xs = trim ` identity ` set (filter wanted xs) - {[]}"

lemma collect_ids:
  assumes "\<And>x i. it_id (listed x i) = i"
  shows "it_id ` set (collect identity wanted listed seen xs) = identities identity wanted xs - set seen \<and>
    distinct (map it_id (collect identity wanted listed seen xs))"
proof (induction xs arbitrary: seen)
  case (Cons x xs)
  let ?i = "trim (identity x)"
  show ?case
  proof (cases "?i = [] \<or> ?i \<in> set seen \<or> \<not> wanted x")
    case True
    then have "collect identity wanted listed seen (x # xs) = collect identity wanted listed seen xs" by simp
    then show ?thesis using Cons.IH [of seen] True by (auto simp: identities_def)
  next
    case False
    then have "collect identity wanted listed seen (x # xs) = listed x ?i # collect identity wanted listed (?i # seen) xs"
      by (simp add: Let_def)
    then show ?thesis using Cons.IH [of "?i # seen"] False assms by (auto simp: identities_def)
  qed
qed (simp add: identities_def)

lemma collect_form: "item \<in> set (collect identity wanted listed seen xs) \<Longrightarrow> \<exists>x i. x \<in> set xs \<and> wanted x \<and> item = listed x i"
  by (induction identity wanted listed seen xs rule: collect.induct) (auto simp: Let_def split: if_splits)

lemma sorted_catalog_Inr: "sorted_catalog items = Inr out \<longleftrightarrow> items \<noteq> [] \<and> out = sort_key it_id items"
  by (auto simp: sorted_catalog_def)

text \<open>The answer of an adapter whose entries carry its own name and route.\<close>

lemma catalog_of_collect:
  assumes "sorted_catalog (collect identity wanted listed [] xs) = Inr out"
    and "\<And>x i. it_id (listed x i) = i \<and> it_gateway (listed x i) = gateway \<and> it_route (listed x i) = route"
  shows "out \<noteq> [] \<and> sorted_wrt (<) (map it_id out) \<and> it_id ` set out = identities identity wanted xs \<and>
    (\<forall>item \<in> set out. it_gateway item = gateway \<and> it_route item = route)"
proof -
  let ?c = "collect identity wanted listed [] xs"
  have ids: "it_id ` set ?c = identities identity wanted xs" "distinct (map it_id ?c)"
    using collect_ids [of listed identity wanted "[]" xs] assms(2) by simp_all
  have out: "?c \<noteq> []" "out = sort_key it_id ?c" using assms(1) by (simp_all add: sorted_catalog_Inr)
  have "mset (map it_id out) = mset (map it_id ?c)" by (simp add: out)
  then have "distinct (map it_id out)" using ids(2) by (metis mset_eq_imp_distinct_iff)
  then have "sorted_wrt (<) (map it_id out)" by (simp add: strict_sorted_iff out)
  moreover have "out \<noteq> []" using out by (metis length_0_conv length_sort)
  moreover have "it_id ` set out = identities identity wanted xs" using ids(1) by (simp add: out)
  moreover have "it_gateway item = gateway \<and> it_route item = route" if "item \<in> set out" for item
  proof -
    have "item \<in> set ?c" using that by (simp add: out)
    from collect_form [OF this] assms(2) show ?thesis by auto
  qed
  ultimately show ?thesis by blast
qed

section \<open>Paging\<close>

text \<open>Every page token the server hands out is one of \<open>toks\<close>.\<close>

definition tokens_among :: "'k world \<Rightarrow> string list \<Rightarrow> bool" where
  "tokens_among w toks \<longleftrightarrow> (\<forall>url st st' page. GetJSON w fireworks_config url dec_fireworks_page st = (Inr page, st') \<longrightarrow>
     trim (fp_next page) = [] \<or> trim (fp_next page) \<in> set toks)"

lemma pages_return:
  assumes "tokens_among w toks"
  shows "distinct seen \<Longrightarrow> set seen \<subseteq> set toks \<Longrightarrow> length toks < fuel + length seen \<Longrightarrow>
    fst (fireworks_pages fuel w tok seen acc st) \<noteq> None"
proof (induction fuel arbitrary: tok seen acc st)
  case 0
  have "length seen \<le> length toks"
    using 0 by (metis card_length card_mono distinct_card finite_set le_trans)
  then show ?case using 0 by simp
next
  case (Suc fuel)
  obtain g st1 where got: "GetJSON w fireworks_config (page_url tok) dec_fireworks_page st = (g, st1)" by fastforce
  show ?case
  proof (cases g)
    case (Inr page)
    let ?t = "trim (fp_next page)"
    have "?t = [] \<or> ?t \<in> set toks" using assms got Inr unfolding tokens_among_def by blast
    then have "fst (fireworks_pages fuel w ?t (?t # seen) (acc @ fp_models page) st1) \<noteq> None" if "?t \<noteq> []" "?t \<notin> set seen"
      using that Suc.prems Suc.IH [of "?t # seen"] by simp
    then show ?thesis using got Inr by (simp add: Let_def)
  qed (use got in simp)
qed

lemma pages_more: "fireworks_pages fuel w tok seen acc st = (Some r, st') \<Longrightarrow> fuel \<le> fuel' \<Longrightarrow> fireworks_pages fuel' w tok seen acc st = (Some r, st')"
proof (induction fuel arbitrary: tok seen acc st fuel')
  case (Suc fuel)
  then obtain n where "fuel' = Suc n" "fuel \<le> n" by (cases fuel') auto
  then show ?case using Suc by (auto simp: Let_def split: prod.splits sum.splits if_splits)
qed simp

section \<open>Properties\<close>

definition sample_world :: "(string, string) gomap world" where
  "sample_world = \<lparr>wo_client = (\<lambda>sent rq. Some \<lparr>hr_status = 200, hr_location = [], hr_body = (if sent = [] then ''1'' else ''2'')\<rparr>),
     wo_parse = (\<lambda>url. if prefix ''https://api.fireworks.ai/'' url then Some (''https'', ''api.fireworks.ai'') else None),
     wo_resolve = (\<lambda>base reference. Some reference), wo_trusts = (\<lambda>first url. False),
     wo_decode = (\<lambda>body. Some (JObj [(''models'', JArr [JObj [(''name'', JStr (''m'' @ body)), (''conversationConfig'', JObj []),
         (''supportsServerless'', JBool True)]]), (''nextPageToken'', JStr (if body = ''1'' then ''t'' else []))])),
     wo_unmarshal = (\<lambda>_. None), wo_encode = (\<lambda>_. []), wo_time = (\<lambda>_. None), wo_insecure = False,
     wo_getenv = (\<lambda>_. ''key''), wo_io = (\<lambda>_. True), wo_tmp = ''t'', wo_keyring = no_keyring\<rparr>"

definition sample_gateway_state :: "(string, string) gomap gateway_state" where
  "sample_gateway_state = \<lparr>gs_sent = [], gs_credentials = sample_credentials\<rparr>"

text \<open>
  Listing the models of Fireworks ends, with an exact catalog. When the server's page
  tokens are finitely many, the loop over the pages returns within one page more than there
  are tokens, and more fuel does not change the result. A successful result is not empty,
  has each model once, in strict order of identity, and holds exactly the identities of the
  serverless chat models on the pages that were read.
\<close>

theorem fireworks_listing:
  assumes "tokens_among w toks" and "length toks < fuel"
  shows "\<exists>r st'. fireworks_ListModels fuel w st = (Some r, st') \<and>
    (fuel \<le> fuel' \<longrightarrow> fireworks_ListModels fuel' w st = (Some r, st')) \<and>
    (\<forall>out. r = Inr out \<longrightarrow> out \<noteq> [] \<and> sorted_wrt (<) (map it_id out) \<and>
       (\<exists>payload. fireworks_pages fuel w [] [] [] st = (Some (Inr payload), st') \<and>
          it_id ` set out = identities fw_name (\<lambda>x. fw_serverless x \<and> fw_conversation x) payload))"
proof -
  obtain p st' where pages: "fireworks_pages fuel w [] [] [] st = (Some p, st')"
    using pages_return [OF assms(1), of "[]" fuel "[]" "[]" st] assms(2) by (cases "fireworks_pages fuel w [] [] [] st") auto
  define r where "r = res_bind p (\<lambda>payload. sorted_catalog
       (collect fw_name (\<lambda>x. fw_serverless x \<and> fw_conversation x) fireworks_item [] payload))"
  have listing: "fireworks_ListModels fuel w st = (Some r, st')" by (simp add: fireworks_ListModels_def pages r_def)
  moreover have "fireworks_ListModels fuel' w st = (Some r, st')" if "fuel \<le> fuel'"
    using pages_more [OF pages that] by (simp add: fireworks_ListModels_def r_def)
  moreover have "out \<noteq> [] \<and> sorted_wrt (<) (map it_id out) \<and>
       (\<exists>payload. fireworks_pages fuel w [] [] [] st = (Some (Inr payload), st') \<and>
          it_id ` set out = identities fw_name (\<lambda>x. fw_serverless x \<and> fw_conversation x) payload)" if "r = Inr out" for out
  proof -
    obtain payload where "p = Inr payload"
      and "sorted_catalog (collect fw_name (\<lambda>x. fw_serverless x \<and> fw_conversation x) fireworks_item [] payload) = Inr out"
      using \<open>r = Inr out\<close> by (auto simp: r_def res_bind_Inr_iff)
    from catalog_of_collect [OF this(2), where gateway = "''fireworks''" and route = "''serverless''"] pages \<open>p = Inr payload\<close> show ?thesis
      by (simp add: fireworks_item_def)
  qed
  ultimately show ?thesis by blast
qed

theorem fireworks_listing_witness:
  "\<exists>r st'. fireworks_ListModels 2 sample_world sample_gateway_state = (Some r, st')"
proof -
  have "tokens_among sample_world [''t'']"
    unfolding tokens_among_def
  proof (intro allI impI)
    fix url st st' page
    assume got: "GetJSON sample_world fireworks_config url dec_fireworks_page st = (Inr page, st')"
    have "fp_next page = ''t'' \<or> fp_next page = []" using got
      by (auto simp: GetJSON_def sample_world_def dec_fireworks_page_def dec_fireworks_def codec_simps http_do_def http_follow.simps [of 9] redirects_def
          split: sum.splits if_splits)
    then show "trim (fp_next page) = [] \<or> trim (fp_next page) \<in> set [''t'']"
      by (auto simp: trim_plain plain_byte_def less_char_def)
  qed
  then show ?thesis using fireworks_listing [of sample_world "[''t'']" 2 sample_gateway_state 2] by fastforce
qed

end
