(* ===== verification/Cline.thy ===== *)
theory Cline
  imports Gateways "HOL-Library.Countable"
begin

text \<open>
  The ClinePass adapter (internal/provider/cline/factory.go): device authorization, the stored
  account token and its refresh, entitlement and catalog. Time is in nanoseconds; what the
  clock says when an operation starts is an argument.
\<close>

section \<open>Data\<close>

record cline_factory =
  cf_api :: string
  cf_workos :: string
  cf_client :: string

definition NewFactory :: cline_factory where
  "NewFactory = \<lparr>cf_api = ''https://api.cline.bot'', cf_workos = ''https://api.workos.com'',
     cf_client = ''client_01K3A541FN8TA3EPPHTD2325AR''\<rparr>"

definition cline_descriptor :: gateway_descriptor where
  "cline_descriptor = \<lparr>de_id = ''cline'', de_name = ''ClinePass'', de_credential = ''ALT_CLINE_API_KEY'',
     de_authentication = DeviceOAuth,
     de_routes = [\<lparr>ro_id = ''pass'', ro_label = ''ClinePass + Free'', ro_metadata = ''cline-pass''\<rparr>], de_multi = True\<rparr>"

definition attested_tools :: capabilities where
  "attested_tools = \<lparr>cap_structured = Unknown, cap_tools = Supported, cap_image = NoState\<rparr>"

definition cline_capabilities :: "model \<Rightarrow> capabilities" where
  "cline_capabilities spec = attested_tools"

record stored_credentials =
  sc_access :: string
  sc_refresh :: string
  sc_expires :: string

definition enc_stored :: "stored_credentials \<Rightarrow> json" where
  "enc_stored c = JObj [(''access_token'', JStr (sc_access c)), (''refresh_token'', JStr (sc_refresh c)),
     (''expires_at'', JStr (sc_expires c))]"

definition dec_stored :: "json option \<Rightarrow> stored_credentials decoded" where
  "dec_stored v =
     res_bind (as_obj v) (\<lambda>kvs. res_bind (as_str (field kvs ''access_token'')) (\<lambda>a.
     res_bind (as_str (field kvs ''refresh_token'')) (\<lambda>r. res_bind (as_str (field kvs ''expires_at'')) (\<lambda>e.
     Inr \<lparr>sc_access = a, sc_refresh = r, sc_expires = e\<rparr>))))"

interpretation stored: codec enc_stored dec_stored
  by unfold_locales (simp_all add: enc_stored_def dec_stored_def codec_simps)

text \<open>The account token; of the user's data nothing is used.\<close>

record token_response =
  tk_success :: bool
  tk_access :: string
  tk_refresh :: string
  tk_expires :: string

definition dec_token :: "json option \<Rightarrow> token_response decoded" where
  "dec_token v =
     res_bind (as_obj v) (\<lambda>kvs. res_bind (as_bool (field kvs ''success'')) (\<lambda>s. res_bind (as_obj (field kvs ''data'')) (\<lambda>d.
     res_bind (as_str (field d ''accessToken'')) (\<lambda>a. res_bind (as_str (field d ''refreshToken'')) (\<lambda>r.
     res_bind (as_str (field d ''expiresAt'')) (\<lambda>e. Inr \<lparr>tk_success = s, tk_access = a, tk_refresh = r, tk_expires = e\<rparr>))))))"

record device_response =
  dv_device :: string
  dv_user :: string
  dv_uri :: string
  dv_uri_complete :: string
  dv_expires :: int
  dv_interval :: "int option"

definition dec_device :: "json option \<Rightarrow> device_response decoded" where
  "dec_device v =
     res_bind (as_obj v) (\<lambda>kvs. res_bind (as_str (field kvs ''device_code'')) (\<lambda>c. res_bind (as_str (field kvs ''user_code'')) (\<lambda>u.
     res_bind (as_str (field kvs ''verification_uri'')) (\<lambda>v. res_bind (as_str (field kvs ''verification_uri_complete'')) (\<lambda>vc.
     res_bind (as_int (field kvs ''expires_in'')) (\<lambda>e. res_bind (as_ptr as_int (field kvs ''interval'')) (\<lambda>i.
     Inr \<lparr>dv_device = c, dv_user = u, dv_uri = v, dv_uri_complete = vc, dv_expires = e, dv_interval = i\<rparr>)))))))"

record device_authorization =
  da_uri :: string
  da_uri_complete :: string
  da_user_code :: string
  da_device_code :: string
  da_expires :: int
  da_interval :: int

section \<open>Requests\<close>

definition firstNonEmpty :: "string list \<Rightarrow> string" where
  "firstNonEmpty values = (case find (\<lambda>v. trim v \<noteq> []) values of Some v \<Rightarrow> trim v | None \<Rightarrow> [])"

definition errorSuffix :: "string \<Rightarrow> string" where
  "errorSuffix message = (if trim message = [] then [] else '': '' @ trim message)"

text \<open>
  A string member read from a value whose other members may be of any type: after a type error
  \<open>encoding/json\<close> keeps what it could read.
\<close>

definition lenient_str :: "json option \<Rightarrow> string \<Rightarrow> string" where
  "lenient_str v k = (case v of Some (JObj kvs) \<Rightarrow> (case field kvs k of Some (JStr s) \<Rightarrow> s | _ \<Rightarrow> []) | _ \<Rightarrow> [])"

definition doJSON :: "'k world \<Rightarrow> http_request \<Rightarrow> (json option \<Rightarrow> 'a decoded) \<Rightarrow> 'k gateway_state \<Rightarrow>
    (gateway_error, 'a) res \<times> 'k gateway_state" where
  "doJSON w rq dec st =
     (case http_do w rq st of
        (None, st') \<Rightarrow> (Inl RequestError, st')
      | (Some r, st') \<Rightarrow>
          if \<not> ok_status (hr_status r)
          then (let details = wo_unmarshal w (take 4096 (hr_body r));
                    message = firstNonEmpty [lenient_str details ''message'', lenient_str details ''error'']
                in (Inl (HttpStatus (hr_status r) (errorSuffix message)), st'))
          else (case wo_decode w (take 4194304 (hr_body r)) of
              None \<Rightarrow> (Inl BadResponse, st')
            | Some j \<Rightarrow> (case dec (Some j) of Inl _ \<Rightarrow> (Inl BadResponse, st') | Inr v \<Rightarrow> (Inr v, st'))))"

definition post_request :: "string \<Rightarrow> (string \<times> string) list \<Rightarrow> http_request" where
  "post_request url body = \<lparr>hq_method = ''POST'', hq_url = url, hq_authorization = [], hq_body = body\<rparr>"

definition postJSON :: "'k world \<Rightarrow> string \<Rightarrow> string \<Rightarrow> (string \<times> string) list \<Rightarrow> (json option \<Rightarrow> 'a decoded) \<Rightarrow> 'k gateway_state \<Rightarrow>
    (gateway_error, 'a) res \<times> 'k gateway_state" where
  "postJSON w endpoint hostname body dec st =
     (case ValidateEndpoint w ''Cline'' endpoint hostname of
        Inl e \<Rightarrow> (Inl e, st)
      | Inr _ \<Rightarrow> doJSON w (post_request endpoint body) dec st)"

section \<open>Device authorization\<close>

definition BeginDeviceAuthorization :: "'k world \<Rightarrow> cline_factory \<Rightarrow> 'k gateway_state \<Rightarrow>
    (gateway_error, device_authorization) res \<times> 'k gateway_state" where
  "BeginDeviceAuthorization w f st =
     (let endpoint = trim_slashes (cf_workos f) @ ''/user_management/authorize/device'' in
      case ValidateEndpoint w ''Cline WorkOS'' endpoint ''api.workos.com'' of
        Inl e \<Rightarrow> (Inl e, st)
      | Inr _ \<Rightarrow>
          (case doJSON w (post_request endpoint [(''client_id'', cf_client f)]) dec_device st of
             (Inl e, st') \<Rightarrow> (Inl e, st')
           | (Inr p, st') \<Rightarrow>
               (if dv_device p = [] \<or> dv_user p = [] \<or> dv_uri p = [] then Inl IncompleteAuthorization
                else if dv_expires p \<le> 0 then Inl NoExpiry
                else if (case dv_interval p of Some i \<Rightarrow> i \<le> 0 | None \<Rightarrow> False) then Inl BadInterval
                else Inr \<lparr>da_uri = dv_uri p, da_uri_complete = dv_uri_complete p, da_user_code = dv_user p,
                       da_device_code = dv_device p, da_expires = dv_expires p,
                       da_interval = (case dv_interval p of Some i \<Rightarrow> i | None \<Rightarrow> 5)\<rparr>, st')))"

definition store_tokens :: "'k world \<Rightarrow> token_response \<Rightarrow> 'k gateway_state \<Rightarrow> (gateway_error, unit) res \<times> 'k gateway_state" where
  "store_tokens w data st =
     (let encoded = wo_encode w (enc_stored \<lparr>sc_access = tk_access data, sc_refresh = tk_refresh data, sc_expires = tk_expires data\<rparr>)
      in case SetCredential (wo_keyring w) (wo_io w) (wo_tmp w) (gs_credentials st) ''cline'' encoded of
           (Inl e, c) \<Rightarrow> (Inl (NotPersisted e), st\<lparr>gs_credentials := c\<rparr>)
         | (Inr _, c) \<Rightarrow> (Inr (), st\<lparr>gs_credentials := c\<rparr>))"

definition registerAndStore :: "'k world \<Rightarrow> cline_factory \<Rightarrow> string \<Rightarrow> string \<Rightarrow> 'k gateway_state \<Rightarrow>
    (gateway_error, unit) res \<times> 'k gateway_state" where
  "registerAndStore w f access refresh st =
     (case postJSON w (trim_slashes (cf_api f) @ ''/api/v1/auth/register'') ''api.cline.bot''
         [(''accessToken'', access), (''refreshToken'', refresh)] dec_token st of
        (Inl e, st') \<Rightarrow> (Inl e, st')
      | (Inr p, st') \<Rightarrow>
          if \<not> tk_success p \<or> tk_access p = [] \<or> tk_refresh p = [] \<or> tk_expires p = [] then (Inl IncompleteToken, st')
          else store_tokens w p st')"

text \<open>
  The polling loop. A poll takes at least a nanosecond and \<open>latency\<close> more; \<open>cancelled\<close> tells
  whether the context ends while the loop waits for that long after that poll. The timer of a
  negative interval fires at once. The polls are kept with their time and the interval that
  was waited after them.
\<close>

datatype poll_answer = Pending | SlowDown | Failed gateway_error | Granted string string

definition poll_once :: "'k world \<Rightarrow> cline_factory \<Rightarrow> string \<Rightarrow> string \<Rightarrow> 'k gateway_state \<Rightarrow> poll_answer \<times> 'k gateway_state" where
  "poll_once w f endpoint device_code st =
     (case http_do w (post_request endpoint
         [(''grant_type'', ''urn:ietf:params:oauth:grant-type:device_code''), (''device_code'', device_code),
          (''client_id'', cf_client f)]) st of
        (None, st') \<Rightarrow> (Failed RequestError, st')
      | (Some r, st') \<Rightarrow>
          let j = wo_decode w (take 1048576 (hr_body r));
              str = lenient_str j;
              well_typed = (case j of Some (JObj kvs) \<Rightarrow>
                  list_all (\<lambda>k. \<not> isl (as_str (field kvs k)))
                    [''access_token'', ''refresh_token'', ''token_type'', ''error'', ''error_description'']
                | Some JNull \<Rightarrow> True | _ \<Rightarrow> False)
          in (if ok_status (hr_status r)
              then (if \<not> well_typed \<or> str ''access_token'' = [] \<or> str ''refresh_token'' = [] then Failed IncompleteToken
                    else Granted (str ''access_token'') (str ''refresh_token''))
              else if str ''error'' = ''authorization_pending'' then Pending
              else if str ''error'' = ''slow_down'' then SlowDown
              else if str ''error'' \<in> set [''access_denied'', ''expired_token'', ''invalid_grant'']
              then Failed (AuthorizationFailed (firstNonEmpty [str ''error_description'', str ''error'']))
              else Failed (HttpStatus (hr_status r) (errorSuffix (str ''error_description''))), st'))"

record poll =
  po_time :: int
  po_interval :: int
  po_answer :: poll_answer

function poll_loop :: "'k world \<Rightarrow> cline_factory \<Rightarrow> (nat \<Rightarrow> nat) \<Rightarrow> (nat \<Rightarrow> bool) \<Rightarrow> string \<Rightarrow> string \<Rightarrow> int \<Rightarrow> int \<Rightarrow> nat \<Rightarrow> int \<Rightarrow>
    'k gateway_state \<Rightarrow> (gateway_error, unit) res \<times> 'k gateway_state \<times> poll list" where
  "poll_loop w f latency cancelled endpoint device_code deadline clock n interval st =
     (if clock \<ge> deadline then (Inl TimedOut, st, [])
      else case poll_once w f endpoint device_code st of
        (Failed e, st') \<Rightarrow> (Inl e, st', [\<lparr>po_time = clock, po_interval = interval, po_answer = Failed e\<rparr>])
      | (Granted access refresh, st') \<Rightarrow>
          (case registerAndStore w f access refresh st' of
             (r, st2) \<Rightarrow> (r, st2, [\<lparr>po_time = clock, po_interval = interval, po_answer = Granted access refresh\<rparr>]))
      | (answer, st') \<Rightarrow>
          let interval' = (if answer = SlowDown then wrap64 (interval + 5000000000) else interval);
              here = \<lparr>po_time = clock, po_interval = interval', po_answer = answer\<rparr>;
              clock' = clock + 1 + int (latency n) + max 0 interval'
          in if cancelled n then (Inl Cancelled, st', [here])
             else (case poll_loop w f latency cancelled endpoint device_code deadline clock' (Suc n) interval' st' of
                 (r, st2, polls) \<Rightarrow> (r, st2, here # polls)))"
  by pat_completeness auto
termination
  by (relation "measure (\<lambda>(w, f, latency, cancelled, endpoint, device_code, deadline, clock, n, interval, st). nat (deadline - clock))") auto

declare poll_loop.simps [simp del]

definition CompleteDeviceAuthorization :: "'k world \<Rightarrow> cline_factory \<Rightarrow> (nat \<Rightarrow> nat) \<Rightarrow> (nat \<Rightarrow> bool) \<Rightarrow> int \<Rightarrow> device_authorization \<Rightarrow>
    'k gateway_state \<Rightarrow> (gateway_error, unit) res \<times> 'k gateway_state \<times> poll list" where
  "CompleteDeviceAuthorization w f latency cancelled clock a st =
     (if da_expires a \<le> 0 \<or> trim (da_device_code a) = [] then (Inl IncompleteAuthorization, st, [])
      else let deadline = clock + wrap64 (da_expires a * 1000000000);
               seconds = (if da_interval a = 0 then 5 else da_interval a)
           in if seconds < 0 then (Inl BadInterval, st, [])
              else let endpoint = trim_slashes (cf_workos f) @ ''/user_management/authenticate''
                   in (case ValidateEndpoint w ''Cline WorkOS'' endpoint ''api.workos.com'' of
                         Inl e \<Rightarrow> (Inl e, st, [])
                       | Inr _ \<Rightarrow> poll_loop w f latency cancelled endpoint (da_device_code a) deadline clock 0
                           (wrap64 (seconds * 1000000000)) st))"

section \<open>The account token\<close>

definition addWorkOSPrefix :: "string \<Rightarrow> string" where
  "addWorkOSPrefix tok =
     (let t = trim tok in if has_prefix (to_lower t) ''workos:'' then t else ''workos:'' @ t)"

definition stored_of :: "'k world \<Rightarrow> string \<Rightarrow> stored_credentials option" where
  "stored_of w raw =
     (case wo_unmarshal w raw of
        None \<Rightarrow> None
      | Some j \<Rightarrow> (case dec_stored (Some j) of Inl _ \<Rightarrow> None | Inr c \<Rightarrow> if sc_access c = [] then None else Some c))"

definition refresh_token :: "'k world \<Rightarrow> cline_factory \<Rightarrow> stored_credentials \<Rightarrow> 'k gateway_state \<Rightarrow>
    (gateway_error, string) res \<times> 'k gateway_state" where
  "refresh_token w f stored st =
     (if sc_refresh stored = [] then (Inl NoRefreshToken, st)
      else (case postJSON w (trim_slashes (cf_api f) @ ''/api/v1/auth/refresh'') ''api.cline.bot''
          [(''refreshToken'', sc_refresh stored), (''grantType'', ''refresh_token'')] dec_token st of
          (Inl e, st1) \<Rightarrow> (Inl e, st1)
        | (Inr p, st1) \<Rightarrow>
            if \<not> tk_success p \<or> tk_access p = [] \<or> tk_expires p = [] then (Inl IncompleteToken, st1)
            else let data = (if tk_refresh p = [] then p\<lparr>tk_refresh := sc_refresh stored\<rparr> else p)
                 in (case store_tokens w data st1 of
                       (Inl e, st2) \<Rightarrow> (Inl e, st2)
                     | (Inr _, st2) \<Rightarrow> (Inr (addWorkOSPrefix (tk_access data)), st2))))"

text \<open>\<open>deadline\<close> is the one of the context, if it has one.\<close>

definition required_validity :: "int \<Rightarrow> int option \<Rightarrow> int" where
  "required_validity clock deadline = (case deadline of None \<Rightarrow> 0 | Some d \<Rightarrow> max (d - clock) 0)"

definition resolveAccessToken :: "'k world \<Rightarrow> cline_factory \<Rightarrow> int \<Rightarrow> int option \<Rightarrow> 'k gateway_state \<Rightarrow>
    (gateway_error, string) res \<times> 'k gateway_state" where
  "resolveAccessToken w f clock deadline st =
     (case ResolveCredential w cline_descriptor st of
        Inl e \<Rightarrow> (Inl e, st)
      | Inr raw \<Rightarrow>
          (case stored_of w raw of
             None \<Rightarrow> (Inr (addWorkOSPrefix raw), st)
           | Some stored \<Rightarrow>
               (case wo_time w (sc_expires stored) of
                  None \<Rightarrow> (Inl BadExpiry, st)
                | Some expires \<Rightarrow>
                    if expires - clock > required_validity clock deadline
                    then (Inr (addWorkOSPrefix (sc_access stored)), st)
                    else refresh_token w f stored st)))"

section \<open>Models\<close>

definition cline_NewChatModel :: "'k world \<Rightarrow> cline_factory \<Rightarrow> int \<Rightarrow> int option \<Rightarrow> model \<Rightarrow> 'k gateway_state \<Rightarrow>
    (gateway_error, chat_config) res \<times> 'k gateway_state" where
  "cline_NewChatModel w f clock deadline spec st =
     (if trim (m_route spec) \<noteq> ''pass'' then (Inl (UnknownRoute (m_route spec)), st)
      else let base = trim_slashes (cf_api f) @ ''/api/v1'' in
        case ValidateEndpoint w ''Cline'' base ''api.cline.bot'' of
          Inl e \<Rightarrow> (Inl e, st)
        | Inr _ \<Rightarrow>
            (case resolveAccessToken w f clock deadline st of
               (Inl e, st') \<Rightarrow> (Inl e, st')
             | (Inr key, st') \<Rightarrow>
                 (Inr \<lparr>cc_key = key, cc_base = base, cc_model = m_name spec, cc_cache_control = False,
                    cc_extra = (if m_reasoning_effort spec \<noteq> [] then [(''reasoning_effort'', m_reasoning_effort spec)] else [])\<rparr>, st')))"

text \<open>
  Header names are compared without case. The transport adds the headers a request does not
  have yet.
\<close>

definition get_header :: "(string \<times> string list) list \<Rightarrow> string \<Rightarrow> string" where
  "get_header hs k = (case find (\<lambda>(k', _). equal_fold k' k) hs of Some (_, v # _) \<Rightarrow> v | _ \<Rightarrow> [])"

definition add_header :: "(string \<times> string list) list \<Rightarrow> string \<Rightarrow> string list \<Rightarrow> (string \<times> string list) list" where
  "add_header hs k vs =
     (if list_ex (\<lambda>(k', _). equal_fold k' k) hs
      then map (\<lambda>(k', ws). if equal_fold k' k then (k', ws @ vs) else (k', ws)) hs
      else if vs = [] then hs else hs @ [(k, vs)])"

definition header_RoundTrip :: "(string \<times> string list) list \<Rightarrow> (string \<times> string list) list \<Rightarrow> (string \<times> string list) list" where
  "header_RoundTrip own request =
     fold (\<lambda>(k, vs) hs. if get_header hs k \<noteq> [] then hs else add_header hs k vs) own request"

definition clineRequestHeaders :: "string \<Rightarrow> string \<Rightarrow> string \<Rightarrow> string \<Rightarrow> (string \<times> string list) list" where
  "clineRequestHeaders build os arch task =
     (let version = (if trim build = [] then ''dev'' else trim build) in
      [(''HTTP-Referer'', [''https://cline.bot'']), (''X-Title'', [''ALT'']), (''X-Is-Multiroot'', [''false'']),
       (''X-Client-Type'', [''alt'']), (''X-Client-Version'', [version]), (''X-Platform'', [os]),
       (''X-Platform-Version'', [arch]), (''X-Core-Version'', [version]), (''X-Task-Id'', [task]),
       (''User-Agent'', [''ALT/'' @ version])])"

definition validateAccount :: "'k world \<Rightarrow> cline_factory \<Rightarrow> string \<Rightarrow> 'k gateway_state \<Rightarrow> (gateway_error, unit) res \<times> 'k gateway_state" where
  "validateAccount w f tok st =
     (let endpoint = trim_slashes (cf_api f) @ ''/api/v1/users/me'' in
      case ValidateEndpoint w ''Cline'' endpoint ''api.cline.bot'' of
        Inl e \<Rightarrow> (Inl e, st)
      | Inr _ \<Rightarrow> doJSON w (get_request endpoint (bearer tok)) (\<lambda>_. Inr ()) st)"

record plan_envelope =
  pe_success :: bool
  pe_plan :: "json option"
  pe_period_end :: string

definition dec_plan :: "json option \<Rightarrow> plan_envelope decoded" where
  "dec_plan v =
     res_bind (as_obj v) (\<lambda>kvs. res_bind (as_bool (field kvs ''success'')) (\<lambda>s. res_bind (as_obj (field kvs ''data'')) (\<lambda>d.
     res_bind (as_str (field d ''currentPeriodEnd'')) (\<lambda>e. Inr \<lparr>pe_success = s, pe_plan = field d ''plan'', pe_period_end = e\<rparr>))))"

definition hasActivePass :: "'k world \<Rightarrow> cline_factory \<Rightarrow> int \<Rightarrow> string \<Rightarrow> 'k gateway_state \<Rightarrow> (gateway_error, bool) res \<times> 'k gateway_state" where
  "hasActivePass w f clock tok st =
     (let endpoint = trim_slashes (cf_api f) @ ''/api/v1/users/me/plan'' in
      case ValidateEndpoint w ''Cline'' endpoint ''api.cline.bot'' of
        Inl e \<Rightarrow> (Inl e, st)
      | Inr _ \<Rightarrow>
          (case http_do w (get_request endpoint (bearer tok)) st of
             (None, st') \<Rightarrow> (Inl RequestError, st')
           | (Some r, st') \<Rightarrow>
               let body = take 1048576 (hr_body r) in
               if hr_status r = 404 \<and> contains (to_lower body) ''no plan'' then (Inr False, st')
               else if \<not> ok_status (hr_status r) then (Inl (HttpStatus (hr_status r) []), st')
               else (case wo_unmarshal w body of
                   None \<Rightarrow> (Inl BadResponse, st')
                 | Some j \<Rightarrow>
                     (case dec_plan (Some j) of
                        Inl _ \<Rightarrow> (Inl BadResponse, st')
                      | Inr p \<Rightarrow>
                          (Inr (pe_success p \<and> pe_plan p \<noteq> None \<and> pe_plan p \<noteq> Some JNull \<and>
                             (case wo_time w (pe_period_end p) of
                                Some t \<Rightarrow> pe_period_end p = [] \<or> clock \<le> t | None \<Rightarrow> True)), st')))))"

record recommended_model =
  rm_id :: string
  rm_name :: string

definition dec_recommended_model :: "json option \<Rightarrow> recommended_model decoded" where
  "dec_recommended_model v =
     res_bind (as_obj v) (\<lambda>kvs. res_bind (as_str (field kvs ''id'')) (\<lambda>i. res_bind (as_str (field kvs ''name'')) (\<lambda>n.
     res_bind (as_str (field kvs ''description'')) (\<lambda>_. Inr \<lparr>rm_id = i, rm_name = n\<rparr>))))"

definition dec_recommended :: "json option \<Rightarrow> (recommended_model list \<times> recommended_model list) decoded" where
  "dec_recommended v =
     res_bind (as_obj v) (\<lambda>kvs. res_bind (as_list dec_recommended_model (field kvs ''clinePass'')) (\<lambda>p.
     res_bind (as_list dec_recommended_model (field kvs ''free'')) (\<lambda>r. Inr (p, r))))"

definition cline_item :: "recommended_model \<Rightarrow> string \<Rightarrow> catalog_model" where
  "cline_item x i = \<lparr>it_gateway = ''cline'', it_route = ''pass'', it_id = i, it_name = trim (rm_name x),
     it_capabilities = attested_tools, it_limits = no_limits\<rparr>"

definition cline_ListModels :: "'k world \<Rightarrow> cline_factory \<Rightarrow> int \<Rightarrow> int option \<Rightarrow> 'k gateway_state \<Rightarrow>
    (gateway_error, catalog_model list) res \<times> 'k gateway_state" where
  "cline_ListModels w f clock deadline st =
     (case resolveAccessToken w f clock deadline st of
        (Inl e, st1) \<Rightarrow> (Inl e, st1)
      | (Inr tok, st1) \<Rightarrow>
          (case validateAccount w f tok st1 of
             (Inl e, st2) \<Rightarrow> (Inl e, st2)
           | (Inr _, st2) \<Rightarrow>
               (case hasActivePass w f clock tok st2 of
                  (Inl e, st3) \<Rightarrow> (Inl e, st3)
                | (Inr hasPass, st3) \<Rightarrow>
                    let endpoint = trim_slashes (cf_api f) @ ''/api/v1/ai/cline/recommended-models'' in
                    case ValidateEndpoint w ''Cline'' endpoint ''api.cline.bot'' of
                      Inl e \<Rightarrow> (Inl e, st3)
                    | Inr _ \<Rightarrow>
                        (case doJSON w (get_request endpoint []) dec_recommended st3 of
                           (Inl e, st4) \<Rightarrow> (Inl e, st4)
                         | (Inr (pass, free), st4) \<Rightarrow>
                             (sorted_catalog (collect rm_id (\<lambda>_. True) cline_item [] ((if hasPass then pass else []) @ free)), st4)))))"

section \<open>Where requests go\<close>

abbreviation cline_hosts :: "string list" where
  "cline_hosts \<equiv> [''api.workos.com'', ''api.cline.bot'']"

lemma post_request_url [simp]: "hq_url (post_request url body) = url"
  by (simp add: post_request_def)

lemma sends_doJSON: "doJSON w rq dec st = (r, st') \<Longrightarrow> own_host w hosts (hq_url rq) \<Longrightarrow> sends w hosts st st'"
proof -
  obtain a st1 where exchange: "http_do w rq st = (a, st1)" by fastforce
  assume "doJSON w rq dec st = (r, st')" and own: "own_host w hosts (hq_url rq)"
  then have "st' = st1" using exchange by (auto simp: doJSON_def Let_def split: option.splits if_splits sum.splits)
  then show ?thesis using sends_do [OF own exchange] by simp
qed

lemma sends_postJSON: "postJSON w endpoint hostname body dec st = (r, st') \<Longrightarrow> hostname \<in> set hosts \<Longrightarrow> sends w hosts st st'"
  by (auto simp: postJSON_def split: sum.splits intro!: sends_doJSON validated_own)

lemma store_tokens_sent: "store_tokens w data st = (r, st') \<Longrightarrow> gs_sent st' = gs_sent st"
  by (auto simp: store_tokens_def Let_def split: prod.splits sum.splits)

lemma sends_same: "gs_sent st' = gs_sent st \<Longrightarrow> sends w hosts st st'"
  by (simp add: sends_def)

lemma sends_register: "registerAndStore w f access refresh st = (r, st') \<Longrightarrow> sends w cline_hosts st st'"
proof -
  assume run: "registerAndStore w f access refresh st = (r, st')"
  obtain p st1 where post: "postJSON w (trim_slashes (cf_api f) @ ''/api/v1/auth/register'') ''api.cline.bot''
      [(''accessToken'', access), (''refreshToken'', refresh)] dec_token st = (p, st1)" by fastforce
  have first: "sends w cline_hosts st st1" by (rule sends_postJSON [OF post]) simp
  have "gs_sent st' = gs_sent st1" using run post
    by (auto simp: registerAndStore_def split: sum.splits if_splits dest: store_tokens_sent)
  then show ?thesis using sends_trans [OF first sends_same] by blast
qed

lemma sends_poll_once:
  assumes "poll_once w f endpoint code st = (a, st')" and "own_host w cline_hosts endpoint"
  shows "sends w cline_hosts st st'"
proof -
  let ?rq = "post_request endpoint [(''grant_type'', ''urn:ietf:params:oauth:grant-type:device_code''), (''device_code'', code), (''client_id'', cf_client f)]"
  obtain b st1 where exchange: "http_do w ?rq st = (b, st1)" by fastforce
  have "st' = st1" using assms(1) exchange by (auto simp: poll_once_def Let_def split: option.splits)
  moreover have "sends w cline_hosts st st1" by (rule sends_do [OF _ exchange]) (simp add: assms(2))
  ultimately show ?thesis by simp
qed

lemma poll_loop_cases:
  assumes "poll_loop w f latency cancelled endpoint code deadline clock n interval st = (r, st', polls)" and "clock < deadline"
    and "poll_once w f endpoint code st = (a, st1)"
  shows "(\<exists>e. a = Failed e \<and> r = Inl e \<and> st' = st1 \<and> polls = [\<lparr>po_time = clock, po_interval = interval, po_answer = a\<rparr>]) \<or>
    (\<exists>access refresh. a = Granted access refresh \<and> registerAndStore w f access refresh st1 = (r, st') \<and>
       polls = [\<lparr>po_time = clock, po_interval = interval, po_answer = a\<rparr>]) \<or>
    (\<exists>interval'. interval' = (if a = SlowDown then wrap64 (interval + 5000000000) else interval) \<and> a \<in> {SlowDown, Pending} \<and>
       (cancelled n \<and> r = Inl Cancelled \<and> st' = st1 \<and> polls = [\<lparr>po_time = clock, po_interval = interval', po_answer = a\<rparr>] \<or>
        (\<exists>rest. poll_loop w f latency cancelled endpoint code deadline (clock + 1 + int (latency n) + max 0 interval') (Suc n) interval' st1 = (r, st', rest) \<and>
           polls = \<lparr>po_time = clock, po_interval = interval', po_answer = a\<rparr> # rest)))"
  using assms(1) poll_loop.simps [of w f latency cancelled endpoint code deadline clock n interval st] assms(2,3)
  by (cases a) (simp_all add: Let_def split: if_splits prod.splits)

lemma poll_loop_timeout: "deadline \<le> clock \<Longrightarrow> poll_loop w f latency cancelled endpoint code deadline clock n interval st = (Inl TimedOut, st, [])"
  by (simp add: poll_loop.simps)

lemma sends_poll_loop:
  assumes "own_host w cline_hosts endpoint"
  shows "poll_loop w f latency cancelled endpoint code deadline clock n interval st = (r, st', polls) \<Longrightarrow> sends w cline_hosts st st'"
proof (induction "nat (deadline - clock)" arbitrary: clock n interval st polls rule: less_induct)
  case less
  show ?case
  proof (cases "clock < deadline")
    case True
    obtain a st1 where once: "poll_once w f endpoint code st = (a, st1)" by fastforce
    have first: "sends w cline_hosts st st1" by (rule sends_poll_once [OF once assms])
    from poll_loop_cases [OF less.prems True once] show ?thesis
    proof (elim disjE exE conjE)
      fix access refresh assume "registerAndStore w f access refresh st1 = (r, st')"
      then show ?thesis using sends_trans [OF first sends_register] by blast
    next
      fix interval' rest
      assume next_polls: "poll_loop w f latency cancelled endpoint code deadline (clock + 1 + int (latency n) + max 0 interval') (Suc n) interval' st1 = (r, st', rest)"
      have "nat (deadline - (clock + 1 + int (latency n) + max 0 interval')) < nat (deadline - clock)" using True by simp
      from less.hyps [OF this next_polls] show ?thesis by (rule sends_trans [OF first])
    qed (use first in simp_all)
  next
    case False
    then show ?thesis using less.prems by (simp add: poll_loop_timeout)
  qed
qed

lemma sends_begin: "BeginDeviceAuthorization w f st = (r, st') \<Longrightarrow> sends w cline_hosts st st'"
proof -
  let ?e = "trim_slashes (cf_workos f) @ ''/user_management/authorize/device''"
  assume run: "BeginDeviceAuthorization w f st = (r, st')"
  show ?thesis
  proof (cases "ValidateEndpoint w ''Cline WorkOS'' ?e ''api.workos.com''")
    case (Inr u)
    obtain p st1 where post: "doJSON w (post_request ?e [(''client_id'', cf_client f)]) dec_device st = (p, st1)" by fastforce
    have "own_host w cline_hosts ?e" by (rule validated_own [OF Inr]) simp
    then have "sends w cline_hosts st st1" using sends_doJSON [OF post] by simp
    moreover have "st' = st1" using run Inr post by (auto simp: BeginDeviceAuthorization_def Let_def split: sum.splits)
    ultimately show ?thesis by simp
  qed (use run in \<open>simp add: BeginDeviceAuthorization_def Let_def\<close>)
qed

lemma sends_complete: "CompleteDeviceAuthorization w f latency cancelled clock a st = (r, st', polls) \<Longrightarrow> sends w cline_hosts st st'"
proof -
  let ?e = "trim_slashes (cf_workos f) @ ''/user_management/authenticate''"
  assume run: "CompleteDeviceAuthorization w f latency cancelled clock a st = (r, st', polls)"
  show ?thesis
  proof (cases "ValidateEndpoint w ''Cline WorkOS'' ?e ''api.workos.com''")
    case (Inr u)
    have "own_host w cline_hosts ?e" by (rule validated_own [OF Inr]) simp
    then show ?thesis using run Inr sends_poll_loop
      by (auto simp: CompleteDeviceAuthorization_def Let_def split: if_splits)
  qed (use run in \<open>auto simp: CompleteDeviceAuthorization_def Let_def split: if_splits\<close>)
qed

lemma sends_refresh: "refresh_token w f stored st = (r, st') \<Longrightarrow> sends w cline_hosts st st'"
proof -
  assume run: "refresh_token w f stored st = (r, st')"
  obtain p st1 where post: "postJSON w (trim_slashes (cf_api f) @ ''/api/v1/auth/refresh'') ''api.cline.bot''
      [(''refreshToken'', sc_refresh stored), (''grantType'', ''refresh_token'')] dec_token st = (p, st1)" by fastforce
  have first: "sends w cline_hosts st st1" by (rule sends_postJSON [OF post]) simp
  have "gs_sent st' = gs_sent st \<or> gs_sent st' = gs_sent st1" using run post
    by (auto simp: refresh_token_def Let_def split: sum.splits if_splits prod.splits dest: store_tokens_sent)
  then show ?thesis using sends_trans [OF first sends_same] sends_same by blast
qed

lemma sends_resolve: "resolveAccessToken w f clock deadline st = (r, st') \<Longrightarrow> sends w cline_hosts st st'"
  by (auto simp: resolveAccessToken_def split: sum.splits option.splits if_splits dest: sends_refresh)

lemma sends_chat: "cline_NewChatModel w f clock deadline spec st = (r, st') \<Longrightarrow> sends w cline_hosts st st'"
  by (auto simp: cline_NewChatModel_def Let_def split: if_splits sum.splits prod.splits dest: sends_resolve)

lemma sends_validate: "validateAccount w f tok st = (r, st') \<Longrightarrow> sends w cline_hosts st st'"
proof -
  let ?e = "trim_slashes (cf_api f) @ ''/api/v1/users/me''"
  assume run: "validateAccount w f tok st = (r, st')"
  show ?thesis
  proof (cases "ValidateEndpoint w ''Cline'' ?e ''api.cline.bot''")
    case (Inr u)
    have "own_host w cline_hosts ?e" by (rule validated_own [OF Inr]) simp
    moreover have "doJSON w (get_request ?e (bearer tok)) (\<lambda>_. Inr ()) st = (r, st')" using run Inr by (simp add: validateAccount_def)
    ultimately show ?thesis using sends_doJSON by fastforce
  qed (use run in \<open>simp add: validateAccount_def\<close>)
qed

lemma sends_plan: "hasActivePass w f clock tok st = (r, st') \<Longrightarrow> sends w cline_hosts st st'"
proof -
  let ?e = "trim_slashes (cf_api f) @ ''/api/v1/users/me/plan''"
  assume run: "hasActivePass w f clock tok st = (r, st')"
  show ?thesis
  proof (cases "ValidateEndpoint w ''Cline'' ?e ''api.cline.bot''")
    case (Inr u)
    obtain a st1 where exchange: "http_do w (get_request ?e (bearer tok)) st = (a, st1)" by fastforce
    have "own_host w cline_hosts ?e" by (rule validated_own [OF Inr]) simp
    then have "sends w cline_hosts st st1" using sends_do [OF _ exchange] by simp
    moreover have "st' = st1" using run Inr exchange
      by (auto simp: hasActivePass_def Let_def split: option.splits if_splits sum.splits)
    ultimately show ?thesis by simp
  qed (use run in \<open>simp add: hasActivePass_def Let_def\<close>)
qed

lemma sends_models: "cline_ListModels w f clock deadline st = (r, st') \<Longrightarrow> sends w cline_hosts st st'"
proof -
  assume run: "cline_ListModels w f clock deadline st = (r, st')"
  let ?e = "trim_slashes (cf_api f) @ ''/api/v1/ai/cline/recommended-models''"
  obtain a st1 where 1: "resolveAccessToken w f clock deadline st = (a, st1)" by fastforce
  note s1 = sends_resolve [OF 1]
  show ?thesis
  proof (cases a)
    case a: (Inr tok)
    obtain b st2 where 2: "validateAccount w f tok st1 = (b, st2)" by fastforce
    note s2 = sends_trans [OF s1 sends_validate [OF 2]]
    show ?thesis
    proof (cases b)
      case b: (Inr u)
      obtain c st3 where 3: "hasActivePass w f clock tok st2 = (c, st3)" by fastforce
      note s3 = sends_trans [OF s2 sends_plan [OF 3]]
      show ?thesis
      proof (cases "isl c \<or> isl (ValidateEndpoint w ''Cline'' ?e ''api.cline.bot'')")
        case True
        then have "st' = st3" using run 1 2 3 a b by (auto simp: cline_ListModels_def Let_def split: sum.splits)
        then show ?thesis using s3 by simp
      next
        case False
        then obtain pass u where c: "c = Inr pass" and v: "ValidateEndpoint w ''Cline'' ?e ''api.cline.bot'' = Inr u"
          by (metis sum.collapse(2))
        obtain d st4 where 4: "doJSON w (get_request ?e []) dec_recommended st3 = (d, st4)" by fastforce
        have "own_host w cline_hosts ?e" by (rule validated_own [OF v]) simp
        then have "sends w cline_hosts st3 st4" using sends_doJSON [OF 4] by simp
        moreover have "st' = st4" using run 1 2 3 4 a b c v by (auto simp: cline_ListModels_def Let_def split: sum.splits)
        ultimately show ?thesis using sends_trans [OF s3] by blast
      qed
    qed (use run 1 2 a s2 in \<open>auto simp: cline_ListModels_def\<close>)
  qed (use run 1 s1 in \<open>auto simp: cline_ListModels_def\<close>)
qed

text \<open>The operations of all adapters that speak to a server.\<close>

datatype gateway_op =
    TogetherModels
  | ZenMuxModels
  | FireworksModels nat
  | OpenCodeModels
  | ClineBegin
  | ClineComplete "nat \<Rightarrow> nat" "nat \<Rightarrow> bool" int device_authorization
  | ClineChat int "int option" model
  | ClineModels int "int option"

fun gateway_hosts :: "gateway_op \<Rightarrow> string list" where
  "gateway_hosts TogetherModels = [''api.together.xyz'']"
| "gateway_hosts ZenMuxModels = [''zenmux.ai'']"
| "gateway_hosts (FireworksModels fuel) = [''api.fireworks.ai'']"
| "gateway_hosts OpenCodeModels = [''opencode.ai'']"
| "gateway_hosts _ = cline_hosts"

fun gateway_step :: "'k world \<Rightarrow> cline_factory \<Rightarrow> gateway_op \<Rightarrow> 'k gateway_state \<Rightarrow> 'k gateway_state" where
  "gateway_step w f TogetherModels st = snd (together_ListModels w st)"
| "gateway_step w f ZenMuxModels st = snd (zenmux_ListModels w st)"
| "gateway_step w f (FireworksModels fuel) st =
     snd (fireworks_ListModels fuel w st)"
| "gateway_step w f OpenCodeModels st = snd (opencode_ListModels w st)"
| "gateway_step w f ClineBegin st = snd (BeginDeviceAuthorization w f st)"
| "gateway_step w f (ClineComplete latency cancelled clock a) st =
     fst (snd (CompleteDeviceAuthorization w f latency cancelled clock a st))"
| "gateway_step w f (ClineChat clock deadline spec) st = snd (cline_NewChatModel w f clock deadline spec st)"
| "gateway_step w f (ClineModels clock deadline) st = snd (cline_ListModels w f clock deadline st)"

lemma gateway_step_sends: "parses_paths w \<Longrightarrow> sends w (gateway_hosts op) st (gateway_step w f op st)"
proof (cases op)
  case TogetherModels
  then show ?thesis using sends_together [of w st] by (cases "together_ListModels w st") simp
next
  case ZenMuxModels
  then show ?thesis using sends_zenmux [of w st] by (cases "zenmux_ListModels w st") simp
next
  case (FireworksModels fuel)
  then show ?thesis using sends_fireworks [of fuel w st] by (cases "fireworks_ListModels fuel w st") simp
next
  case OpenCodeModels
  then show "parses_paths w \<Longrightarrow> ?thesis" using sends_opencode [of w st] by (cases "opencode_ListModels w st") simp
next
  case ClineBegin
  then show ?thesis using sends_begin [of w f st] by (cases "BeginDeviceAuthorization w f st") simp
next
  case (ClineComplete latency cancelled clock a)
  then show ?thesis using sends_complete [of w f latency cancelled clock a st]
    by (cases "CompleteDeviceAuthorization w f latency cancelled clock a st") simp
next
  case (ClineChat clock deadline spec)
  then show ?thesis using sends_chat [of w f clock deadline spec st] by (cases "cline_NewChatModel w f clock deadline spec st") simp
next
  case (ClineModels clock deadline)
  then show ?thesis using sends_models [of w f clock deadline st] by (cases "cline_ListModels w f clock deadline st") simp
qed

section \<open>The schedule of the polls\<close>

text \<open>
  Polls after \<open>lo\<close> with \<open>interval\<close> as the interval so far: each is before the deadline, an
  answer to slow down adds five seconds for good, and the next waits at least that long.
\<close>

fun scheduled :: "int \<Rightarrow> int \<Rightarrow> int \<Rightarrow> poll list \<Rightarrow> bool" where
  "scheduled deadline lo interval [] = True"
| "scheduled deadline lo interval (p # ps) =
     (lo \<le> po_time p \<and> po_time p < deadline \<and>
      po_interval p = interval + (if po_answer p = SlowDown then 5000000000 else 0) \<and>
      scheduled deadline (po_time p + 1 + po_interval p) (po_interval p) ps)"

lemma poll_loop_scheduled:
  "poll_loop w f latency cancelled endpoint code deadline clock n interval st = (r, st', polls) \<Longrightarrow>
   0 \<le> interval \<Longrightarrow> interval \<le> bound \<Longrightarrow> deadline - clock \<le> bound \<Longrightarrow> bound + 5000000000 < 2 ^ 63 \<Longrightarrow>
   scheduled deadline clock interval polls"
proof (induction "nat (deadline - clock)" arbitrary: clock n interval st polls rule: less_induct)
  case less
  show ?case
  proof (cases "clock < deadline")
    case True
    obtain a st1 where once: "poll_once w f endpoint code st = (a, st1)" by fastforce
    have wrap: "wrap64 (interval + 5000000000) = interval + 5000000000"
      by (rule wrap64_id) (use less.prems in \<open>simp add: in_int64_def\<close>)
    from poll_loop_cases [OF less.prems(1) True once] show ?thesis
    proof (elim disjE exE conjE)
      fix interval' rest
      assume i: "interval' = (if a = SlowDown then wrap64 (interval + 5000000000) else interval)" and a: "a \<in> {SlowDown, Pending}"
        and polls: "polls = \<lparr>po_time = clock, po_interval = interval', po_answer = a\<rparr> # rest"
        and next_polls: "poll_loop w f latency cancelled endpoint code deadline (clock + 1 + int (latency n) + max 0 interval') (Suc n) interval' st1 = (r, st', rest)"
      have i': "0 \<le> interval'" "interval' = interval + (if a = SlowDown then 5000000000 else 0)" using i wrap less.prems(2) by auto
      let ?clock = "clock + 1 + int (latency n) + max 0 interval'"
      have "scheduled deadline ?clock interval' rest"
      proof (cases "?clock < deadline")
        case True
        have "nat (deadline - ?clock) < nat (deadline - clock)" using \<open>clock < deadline\<close> by simp
        from less.hyps [OF this next_polls i'(1)] True less.prems(4,5) i'(1) show ?thesis by simp
      next
        case False
        then show ?thesis using next_polls by (simp add: poll_loop_timeout)
      qed
      then have "scheduled deadline (clock + 1 + interval') interval' rest" using i'(1) by (cases rest) auto
      then show ?thesis using polls i'(2) True by simp
    qed (use True wrap in auto)
  next
    case False
    then show ?thesis using less.prems(1) by (simp add: poll_loop_timeout)
  qed
qed

text \<open>So they are few.\<close>

lemma scheduled_length: "scheduled deadline lo interval ps \<Longrightarrow> 0 \<le> interval \<Longrightarrow> lo < deadline \<Longrightarrow> ps \<noteq> [] \<Longrightarrow>
    int (length ps - 1) * (interval + 1) < deadline - lo"
proof (induction ps arbitrary: lo interval)
  case (Cons p ps)
  show ?case
  proof (cases ps)
    case (Cons q qs)
    let ?lo = "po_time p + 1 + po_interval p"
    have p: "lo \<le> po_time p" "interval \<le> po_interval p" "scheduled deadline ?lo (po_interval p) ps" using Cons.prems by auto
    have "?lo < deadline" using p(3) Cons by auto
    then have "int (length ps - 1) * (po_interval p + 1) < deadline - ?lo"
      using Cons.IH [OF p(3)] Cons.prems(2) p(2) Cons by simp
    moreover have "int (length ps - 1) * (interval + 1) \<le> int (length ps - 1) * (po_interval p + 1)"
      by (rule mult_left_mono) (use p(2) in simp_all)
    moreover have "int (length (p # ps) - 1) * (interval + 1) = int (length ps - 1) * (interval + 1) + (interval + 1)"
      using Cons by (simp add: algebra_simps)
    ultimately show ?thesis using p by linarith
  qed (use Cons.prems in simp)
qed simp

section \<open>The stored token\<close>

text \<open>What is assumed of JSON text: what was written is read back, also after trimming.\<close>

definition json_roundtrip :: "'k world \<Rightarrow> bool" where
  "json_roundtrip w \<longleftrightarrow> (\<forall>j. wo_unmarshal w (trim (wo_encode w j)) = Some j)"

text \<open>The credential store works: the keyring keeps, no environment variable overrides, files can be read.\<close>

definition store_works :: "'k world \<Rightarrow> bool" where
  "store_works w \<longleftrightarrow> keyring_keeps (wo_keyring w) \<and> wo_tmp w \<noteq> ''credentials/cline'' \<and>
     trim (wo_getenv w ''ALT_CLINE_API_KEY'') = [] \<and> wo_io w StatFile \<and> wo_io w ReadFile"

lemma store_then_resolve:
  assumes "store_tokens w data st = (Inr u, st')" and "json_roundtrip w" and "store_works w" and "tk_access data \<noteq> []"
  shows "\<exists>raw. ResolveCredential w cline_descriptor st' = Inr raw \<and>
    stored_of w raw = Some \<lparr>sc_access = tk_access data, sc_refresh = tk_refresh data, sc_expires = tk_expires data\<rparr>"
proof -
  let ?c = "\<lparr>sc_access = tk_access data, sc_refresh = tk_refresh data, sc_expires = tk_expires data\<rparr>"
  let ?text = "wo_encode w (enc_stored ?c)"
  obtain source c where set_ok: "SetCredential (wo_keyring w) (wo_io w) (wo_tmp w) (gs_credentials st) ''cline'' ?text = (Inr source, c)"
    and st': "st' = st\<lparr>gs_credentials := c\<rparr>"
    using assms(1) by (auto simp: store_tokens_def Let_def split: prod.splits sum.splits)
  have "Resolve (wo_keyring w) (wo_getenv w) (wo_io w) c ''cline'' ''ALT_CLINE_API_KEY'' = Inr (trim ?text)"
    by (rule set_then_resolve [OF set_ok]) (use assms(3) in \<open>simp_all add: store_works_def\<close>)
  then have "ResolveCredential w cline_descriptor st' = Inr (trim ?text)"
    by (simp add: ResolveCredential_def st' cline_descriptor_def)
  moreover have "stored_of w (trim ?text) = Some ?c"
    using assms(2,4) by (simp add: stored_of_def json_roundtrip_def stored.dec_enc)
  ultimately show ?thesis by blast
qed

lemma refresh_form:
  assumes "refresh_token w f stored st = (Inr tok, st')"
  shows "\<exists>data st1. store_tokens w data st1 = (Inr (), st') \<and> tok = addWorkOSPrefix (tk_access data) \<and>
    tk_access data \<noteq> [] \<and> tk_refresh data \<noteq> [] \<and> tk_expires data \<noteq> []"
proof -
  have refresh: "sc_refresh stored \<noteq> []" using assms by (auto simp: refresh_token_def split: if_splits)
  obtain p st1 where post: "postJSON w (trim_slashes (cf_api f) @ ''/api/v1/auth/refresh'') ''api.cline.bot''
      [(''refreshToken'', sc_refresh stored), (''grantType'', ''refresh_token'')] dec_token st = (Inr p, st1)"
    using assms by (auto simp: refresh_token_def split: if_splits prod.splits sum.splits)
  have complete: "tk_success p" "tk_access p \<noteq> []" "tk_expires p \<noteq> []"
    using assms post by (auto simp: refresh_token_def split: if_splits)
  define data where "data = (if tk_refresh p = [] then p\<lparr>tk_refresh := sc_refresh stored\<rparr> else p)"
  have parts: "tk_access data = tk_access p" "tk_expires data = tk_expires p" "tk_refresh data \<noteq> []"
    using refresh by (simp_all add: data_def)
  obtain s st2 where stored: "store_tokens w data st1 = (s, st2)" by fastforce
  have run: "(case s of Inl e \<Rightarrow> (Inl e, st2) | Inr _ \<Rightarrow> (Inr (addWorkOSPrefix (tk_access data)), st2)) = (Inr tok, st')"
    using assms refresh complete stored unfolding refresh_token_def post by (simp add: Let_def data_def [symmetric])
  then have "s = Inr ()" "st2 = st'" "tok = addWorkOSPrefix (tk_access data)" by (auto split: sum.splits)
  then show ?thesis using stored complete parts by metis
qed

section \<open>Properties\<close>

definition sample_cline_world :: "(string, string) gomap world" where
  "sample_cline_world = \<lparr>wo_client = (\<lambda>sent rq. Some \<lparr>hr_status = 200, hr_location = [], hr_body = ''token''\<rparr>),
     wo_parse = (\<lambda>url. if prefix ''https://api.cline.bot/'' url then Some (''https'', ''api.cline.bot'')
       else if prefix ''https://opencode.ai/'' url then Some (''https'', ''opencode.ai'') else None),
     wo_resolve = (\<lambda>base reference. Some reference), wo_trusts = (\<lambda>first url. False),
     wo_decode = (\<lambda>body. Some (JObj [(''success'', JBool True), (''data'', JObj [(''accessToken'', JStr ''new''), (''expiresAt'', JStr ''9'')])])),
     wo_unmarshal = (\<lambda>raw. None),
     wo_encode = (\<lambda>_. ''x''), wo_time = (\<lambda>t. Some 0), wo_insecure = False,
     wo_getenv = (\<lambda>_. []), wo_io = (\<lambda>_. True), wo_tmp = ''t'', wo_keyring = map_keyring\<rparr>"

text \<open>
  A redirect takes the refresh token to wherever it points. When the account server, or
  whoever answers in its place, answers the refresh with a 307, the same body with the token
  is sent to the new URL, whatever its host: \<open>ValidateEndpoint\<close> saw the first URL only.
\<close>

lemma redirect_leaks_refresh_token:
  assumes "sc_refresh stored \<noteq> []" and "url = trim_slashes (cf_api f) @ ''/api/v1/auth/refresh''"
    and "ValidateEndpoint w ''Cline'' url ''api.cline.bot'' = Inr u"
    and "wo_client w (gs_sent st) (post_request url [(''refreshToken'', sc_refresh stored), (''grantType'', ''refresh_token'')]) = Some a"
    and "hr_status a = 307" and "hr_location a \<noteq> []" and "wo_resolve w url (hr_location a) = Some elsewhere"
  shows "\<exists>first second rest. gs_sent (snd (refresh_token w f stored st)) = gs_sent st @ first # second # rest \<and>
    hq_url second = elsewhere \<and> hq_method second = ''POST'' \<and> (''refreshToken'', sc_refresh stored) \<in> set (hq_body second)"
proof -
  let ?rq = "post_request url [(''refreshToken'', sc_refresh stored), (''grantType'', ''refresh_token'')]"
  obtain p st1 where post: "postJSON w url ''api.cline.bot'' [(''refreshToken'', sc_refresh stored), (''grantType'', ''refresh_token'')]
      dec_token st = (p, st1)" by fastforce
  have "st1 = snd (http_do w ?rq st)" using post assms(3)
    by (auto simp: postJSON_def doJSON_def Let_def split: prod.splits option.splits if_splits sum.splits)
  moreover have "gs_sent (snd (refresh_token w f stored st)) = gs_sent st1" using post assms(1,2)
    by (auto simp: refresh_token_def Let_def split: sum.splits if_splits prod.splits dest: store_tokens_sent)
  moreover obtain rq' rest where "gs_sent (snd (http_do w ?rq st)) = gs_sent st @ ?rq # rq' # rest"
    "hq_url rq' = elsewhere" "hq_method rq' = hq_method ?rq" "hq_body rq' = hq_body ?rq"
    using redirected_body [OF assms(4) disjI1 [OF assms(5)] assms(6), of elsewhere] assms(7) by auto
  ultimately show ?thesis by (auto simp: post_request_def)
qed

text \<open>
  C8: where a gateway adapter's requests go. Whatever an adapter does itself, listing models,
  device authorization, refreshing a token or making a chat model, each request goes over
  https to a host of that gateway, or to where the answer to the request just before it
  redirects. A redirected request carries the \<open>Authorization\<close> of an earlier request to an
  own host only if \<open>net/http\<close> lets it travel to that URL, else none. If the gateway's hosts
  redirect to own hosts only, no other host is asked at all. The developer's override allows
  other hosts, and then still only http and https. What the chat models send later is not
  part of this. \<open>url.Parse\<close> is assumed to see the same host in the endpoints of OpenCode and
  in the paths below them.
\<close>

theorem requests_confined:
  assumes "parses_paths w"
  shows "\<exists>new. gs_sent (gateway_step w f op st) = gs_sent st @ new \<and>
    (\<forall>i < length new.
       own_host w (gateway_hosts op) (hq_url (new ! i)) \<or>
       (\<exists>j r. j < i \<and> own_host w (gateway_hosts op) (hq_url (new ! j)) \<and>
          wo_client w (gs_sent st @ take (i - 1) new) (new ! (i - 1)) = Some r \<and>
          hr_status r \<in> set [301, 302, 303, 307, 308] \<and>
          wo_resolve w (hq_url (new ! (i - 1))) (hr_location r) = Some (hq_url (new ! i)) \<and>
          (hq_authorization (new ! i) = [] \<or>
           hq_authorization (new ! i) = hq_authorization (new ! j) \<and> wo_trusts w (hq_url (new ! j)) (hq_url (new ! i))))) \<and>
    (redirects_home w (gateway_hosts op) \<longrightarrow> (\<forall>i < length new. own_host w (gateway_hosts op) (hq_url (new ! i))))"
proof -
  obtain new where new: "gs_sent (gateway_step w f op st) = gs_sent st @ new"
    "\<And>i. i < length new \<Longrightarrow> allowed w (gateway_hosts op) (gs_sent st) new i"
    using gateway_step_sends [OF assms, of op st f] unfolding sends_def by blast
  have home: "own_host w (gateway_hosts op) (hq_url (new ! i))" if "redirects_home w (gateway_hosts op)" "i < length new" for i
    by (rule stays_home [OF that(1) new(2) that(2)])
  note explained = new(2) [unfolded allowed_def redirects_def]
  show ?thesis
  proof (rule exI [of _ new], intro conjI)
    show "gs_sent (gateway_step w f op st) = gs_sent st @ new" by (rule new(1))
    show "redirects_home w (gateway_hosts op) \<longrightarrow> (\<forall>i < length new. own_host w (gateway_hosts op) (hq_url (new ! i)))"
      using home by blast
  qed (use explained in blast)
qed

text \<open>A server that sends the client elsewhere: the second request goes to a foreign host, without the key.\<close>

definition leaving_world :: "(string, string) gomap world" where
  "leaving_world = sample_cline_world\<lparr>
     wo_client := (\<lambda>sent rq. Some \<lparr>hr_status = (if sent = [] then 307 else 404), hr_location = ''https://elsewhere/'', hr_body = []\<rparr>),
     wo_getenv := (\<lambda>_. ''key''),
     wo_parse := (\<lambda>url. if prefix ''https://api.together.xyz/'' url then Some (''https'', ''api.together.xyz'') else None)\<rparr>"

theorem requests_confined_witness:
  "\<exists>a b. gs_sent (gateway_step leaving_world NewFactory TogetherModels sample_gateway_state) = [a, b] \<and>
     own_host leaving_world [''api.together.xyz''] (hq_url a) \<and> hq_authorization a = ''Bearer key'' \<and>
     hq_url b = ''https://elsewhere/'' \<and> hq_authorization b = []"
proof -
  have "parses_paths leaving_world" by code_simp
  from requests_confined [OF this, of NewFactory TogetherModels sample_gateway_state]
  obtain new where new: "gs_sent (gateway_step leaving_world NewFactory TogetherModels sample_gateway_state) =
      gs_sent sample_gateway_state @ new"
    "\<forall>i < length new. own_host leaving_world [''api.together.xyz''] (hq_url (new ! i)) \<or>
       (\<exists>j r. j < i \<and> (hq_authorization (new ! i) = [] \<or> wo_trusts leaving_world (hq_url (new ! j)) (hq_url (new ! i))))"
    unfolding gateway_hosts.simps by blast
  have sent: "map (\<lambda>rq. (hq_url rq, hq_authorization rq)) (gs_sent (gateway_step leaving_world NewFactory TogetherModels sample_gateway_state)) =
    [(''https://api.together.xyz/v1/models'', ''Bearer key''), (''https://elsewhere/'', [])]" by code_simp
  then obtain a b where ab: "gs_sent (gateway_step leaving_world NewFactory TogetherModels sample_gateway_state) = [a, b]"
    "hq_url a = ''https://api.together.xyz/v1/models''" "hq_authorization a = ''Bearer key''" "hq_url b = ''https://elsewhere/''"
    by (auto simp: map_eq_Cons_conv)
  have both: "new = [a, b]" using new(1) ab(1) by (simp add: sample_gateway_state_def)
  have hosts: "own_host leaving_world [''api.together.xyz''] ''https://api.together.xyz/v1/models''"
    "\<not> own_host leaving_world [''api.together.xyz''] ''https://elsewhere/''"
    "\<not> wo_trusts leaving_world u v" for u v
    by (code_simp, code_simp, simp add: leaving_world_def sample_cline_world_def)
  have "hq_authorization b = []" using new(2) [rule_format, of 1] hosts(2,3) ab(4) by (simp add: both)
  then show ?thesis using ab hosts(1) by simp
qed

text \<open>
  C34: the device authorization polls as the standard asks and ends in time. All polls are before
  the deadline; after an answer to slow down the interval is five seconds longer for good, and
  each poll waits for the whole interval after the one before. So there are no more polls
  than intervals fit before the deadline, and the loop ends. The values of the server are
  assumed to be sane: thirty years of intervals, not overflowing durations.
\<close>

theorem device_polling:
  assumes "CompleteDeviceAuthorization w f latency cancelled clock a st = (r, st', polls)"
    and "da_expires a \<le> 9000000000" and "da_interval a \<le> 1000000000" and "polls \<noteq> []"
    and "interval = (if da_interval a = 0 then 5 else da_interval a) * 1000000000"
  shows "scheduled (clock + da_expires a * 1000000000) clock interval polls \<and>
    int (length polls - 1) * (interval + 1) < da_expires a * 1000000000"
proof -
  let ?e = "trim_slashes (cf_workos f) @ ''/user_management/authenticate''"
  let ?seconds = "if da_interval a = 0 then 5 else da_interval a"
  have pos: "0 < da_expires a" "0 \<le> ?seconds"
    using assms(1,4) by (auto simp: CompleteDeviceAuthorization_def Let_def split: if_splits)
  have wraps: "wrap64 (da_expires a * 1000000000) = da_expires a * 1000000000" "wrap64 (?seconds * 1000000000) = interval"
    using pos assms(2,3) by (auto simp: assms(5) in_int64_def intro!: wrap64_id)
  obtain u where v: "ValidateEndpoint w ''Cline WorkOS'' ?e ''api.workos.com'' = Inr u"
    using assms(1,4) pos by (auto simp: CompleteDeviceAuthorization_def Let_def split: if_splits sum.splits)
  have run: "poll_loop w f latency cancelled ?e (da_device_code a) (clock + da_expires a * 1000000000) clock 0 interval st = (r, st', polls)"
    using assms(1,4) v pos unfolding CompleteDeviceAuthorization_def Let_def wraps by (auto split: if_splits)
  have i: "0 \<le> interval" "interval \<le> 9000000000000000000" using pos(2) assms(3) by (auto simp: assms(5))
  have s: "scheduled (clock + da_expires a * 1000000000) clock interval polls"
    by (rule poll_loop_scheduled [OF run i]) (use assms(2) in simp_all)
  then show ?thesis using scheduled_length [OF s i(1)] pos assms(4) by simp
qed

text \<open>A server that first asks to slow down and then refuses.\<close>

definition slow_world :: "(string, string) gomap world" where
  "slow_world = sample_cline_world\<lparr>
     wo_client := (\<lambda>sent rq. Some \<lparr>hr_status = 400, hr_location = [], hr_body = (if sent = [] then ''slow_down'' else ''access_denied'')\<rparr>),
     wo_parse := (\<lambda>_. Some (''https'', ''api.workos.com'')),
     wo_decode := (\<lambda>body. Some (JObj [(''error'', JStr body)]))\<rparr>"

theorem device_polling_witness:
  "\<exists>polls. snd (snd (CompleteDeviceAuthorization slow_world NewFactory (\<lambda>_. 0) (\<lambda>_. False) 0
      \<lparr>da_uri = [], da_uri_complete = [], da_user_code = [], da_device_code = ''d'', da_expires = 30, da_interval = 0\<rparr>
      sample_gateway_state)) = polls \<and>
    map po_interval polls = [10000000000, 10000000000] \<and> scheduled 30000000000 0 5000000000 polls"
proof -
  let ?a = "\<lparr>da_uri = [], da_uri_complete = [], da_user_code = [], da_device_code = ''d'', da_expires = 30, da_interval = 0\<rparr>"
  obtain r st' polls where run: "CompleteDeviceAuthorization slow_world NewFactory (\<lambda>_. 0) (\<lambda>_. False) 0 ?a sample_gateway_state = (r, st', polls)"
    by (metis prod_cases3)
  let ?e = "''https://api.workos.com/user_management/authenticate''"
  have e: "trim_slashes (cf_workos NewFactory) @ ''/user_management/authenticate'' = ?e" by code_simp
  have once: "poll_once slow_world NewFactory ?e ''d'' st =
      (if gs_sent st = [] then SlowDown else Failed (AuthorizationFailed ''access_denied''),
       st\<lparr>gs_sent := gs_sent st @ [post_request ?e [(''grant_type'', ''urn:ietf:params:oauth:grant-type:device_code''),
         (''device_code'', ''d''), (''client_id'', cf_client NewFactory)]]\<rparr>)" for st
    by (simp add: poll_once_def http_do_def http_follow.simps [of 9] redirects_def slow_world_def sample_cline_world_def
        ok_status_def lenient_str_def field_Cons field_Nil firstNonEmpty_def trim_plain plain_byte_def less_char_def Let_def)
  have loop: "poll_loop slow_world NewFactory (\<lambda>_. 0) (\<lambda>_. False) ?e ''d'' 30000000000 0 0 5000000000 sample_gateway_state = (r, st', polls)"
    using run by (simp add: CompleteDeviceAuthorization_def e wrap64_def trim_plain plain_byte_def less_char_def ValidateEndpoint_def
        slow_world_def [THEN arg_cong, of wo_parse] slow_world_def [THEN arg_cong, of wo_insecure] sample_cline_world_def)
  have two: "map po_interval polls = [10000000000, 10000000000]"
    using loop by (auto simp: poll_loop.simps [of slow_world] once wrap64_def sample_gateway_state_def)
  then have "polls \<noteq> []" using run by auto
  from device_polling [OF run _ _ this refl] two run show ?thesis by simp
qed

text \<open>
  A refreshed token is kept. When resolving the account token had to ask the server, the
  token it returns is stored with a refresh token; as long as the stored expiry leaves the
  validity that is required, resolving again returns the same token and asks no one.
\<close>

theorem refreshed_token_is_kept:
  assumes "resolveAccessToken w f clock deadline st = (Inr tok, st')" and "gs_sent st' \<noteq> gs_sent st"
    and "json_roundtrip w" and "store_works w"
  shows "\<exists>raw stored. ResolveCredential w cline_descriptor st' = Inr raw \<and> stored_of w raw = Some stored \<and>
    tok = addWorkOSPrefix (sc_access stored) \<and> sc_refresh stored \<noteq> [] \<and>
    (\<forall>clock' deadline' expires. wo_time w (sc_expires stored) = Some expires \<longrightarrow>
       required_validity clock' deadline' < expires - clock' \<longrightarrow>
       resolveAccessToken w f clock' deadline' st' = (Inr tok, st'))"
proof -
  obtain stored where "refresh_token w f stored st = (Inr tok, st')"
    using assms(1,2) by (auto simp: resolveAccessToken_def split: sum.splits option.splits if_splits)
  from refresh_form [OF this] obtain data st1 where data: "store_tokens w data st1 = (Inr (), st')"
    "tok = addWorkOSPrefix (tk_access data)" "tk_access data \<noteq> []" "tk_refresh data \<noteq> []" by blast
  from store_then_resolve [OF data(1) assms(3,4) data(3)] obtain raw where
    raw: "ResolveCredential w cline_descriptor st' = Inr raw"
      "stored_of w raw = Some \<lparr>sc_access = tk_access data, sc_refresh = tk_refresh data, sc_expires = tk_expires data\<rparr>" by blast
  then show ?thesis using data by (auto simp: resolveAccessToken_def)
qed

text \<open>A text for every JSON value: its number.\<close>

instance json :: countable
  by countable_datatype

definition numbered :: "json \<Rightarrow> string" where
  "numbered j = digits_of (to_nat j)"

definition numbered_world :: "(string, string) gomap world" where
  "numbered_world = sample_cline_world\<lparr>wo_unmarshal := (\<lambda>raw. Some (from_nat (digits_val raw))), wo_encode := numbered\<rparr>"

definition numbered_state :: "(string, string) gomap gateway_state" where
  "numbered_state = \<lparr>gs_sent = [], gs_credentials = sample_credentials\<lparr>cr_keyring :=
     [(''provider:cline'', numbered (enc_stored \<lparr>sc_access = ''a'', sc_refresh = ''r'', sc_expires = ''e''\<rparr>))]\<rparr>\<rparr>"

lemma digits_no_control: "(\<And>c. c \<in> set s \<Longrightarrow> 48 \<le> (of_char c :: nat) \<and> of_char c < (58 :: nat)) \<Longrightarrow> \<not> has_control s"
proof (induction s)
  case (Cons c s)
  have "48 \<le> (of_char c :: nat)" "of_char c < (58 :: nat)" using Cons.prems by simp_all
  then have "\<not> c < CHR 0x20" "c \<noteq> CHR 0x7F" "c \<noteq> CHR 0xC2" by (auto simp: less_char_def)
  then show ?case using Cons by simp
qed simp

lemma numbered_nonempty [simp]: "numbered j \<noteq> []"
  by (simp add: numbered_def)

lemma numbered_trim [simp]: "trim (numbered j) = numbered j"
proof (rule trim_plain, rule disjI2)
  have "plain_byte c" if "c \<in> set (numbered j)" for c
    using digits_of_digit [of c "to_nat j"] that by (simp add: numbered_def plain_byte_def less_char_def)
  then show "plain_byte (hd (numbered j)) \<and> plain_byte (last (numbered j))" by simp
qed

lemma numbered_valid [simp]: "validCredential provider (numbered j) = Inr (numbered j)"
proof -
  have "\<not> has_control (numbered j)" by (rule digits_no_control) (simp add: numbered_def digits_of_digit)
  then show ?thesis by (simp add: validCredential_Inr)
qed

lemma numbered_reads [simp]: "from_nat (digits_val (numbered j)) = j"
  by (simp add: numbered_def digits_val_digits_of)

theorem refreshed_token_is_kept_witness:
  "\<exists>raw stored. ResolveCredential numbered_world cline_descriptor (snd (resolveAccessToken numbered_world NewFactory 1 None numbered_state)) = Inr raw \<and>
     stored_of numbered_world raw = Some stored \<and> sc_refresh stored \<noteq> []"
proof -
  let ?w = numbered_world and ?run = "resolveAccessToken numbered_world NewFactory 1 None numbered_state"
  have rt: "json_roundtrip ?w" by (simp add: json_roundtrip_def numbered_world_def)
  have works: "store_works ?w"
    by (auto simp: store_works_def numbered_world_def sample_cline_world_def keyring_keeps_def map_keyring_def)
  have reads: "ResolveCredential ?w cline_descriptor numbered_state = Inr (numbered (enc_stored \<lparr>sc_access = ''a'', sc_refresh = ''r'', sc_expires = ''e''\<rparr>))"
    by (simp add: ResolveCredential_def Resolve_def Lookup_def readPrivateFile_def privateFilePath_def numbered_world_def sample_cline_world_def
        numbered_state_def sample_credentials_def cline_descriptor_def map_keyring_def account_def numbered_valid numbered_def [symmetric]
        trim_plain plain_byte_def less_char_def name_char_def)
  have stored: "stored_of ?w (numbered (enc_stored \<lparr>sc_access = ''a'', sc_refresh = ''r'', sc_expires = ''e''\<rparr>)) =
      Some \<lparr>sc_access = ''a'', sc_refresh = ''r'', sc_expires = ''e''\<rparr>"
    by (simp add: stored_of_def numbered_world_def stored.dec_enc)
  have url: "trim_slashes (cf_api NewFactory) @ ''/api/v1/auth/refresh'' = ''https://api.cline.bot/api/v1/auth/refresh''" by code_simp
  have answer: "postJSON ?w ''https://api.cline.bot/api/v1/auth/refresh'' ''api.cline.bot'' body dec_token numbered_state =
     (Inr \<lparr>tk_success = True, tk_access = ''new'', tk_refresh = [], tk_expires = ''9''\<rparr>,
      numbered_state\<lparr>gs_sent := [post_request ''https://api.cline.bot/api/v1/auth/refresh'' body]\<rparr>)" for body
    by (simp add: postJSON_def doJSON_def http_do_def http_follow.simps [of 9] redirects_def ValidateEndpoint_def numbered_world_def sample_cline_world_def ok_status_def
        dec_token_def codec_simps numbered_state_def)
  have kept: "store_tokens ?w data st = (Inr (), snd (store_tokens ?w data st))" if "cr_dir (gs_credentials st) = ''/d''" "cf_files (cr_files (gs_credentials st)) = []" for data and st :: "(string, string) gomap gateway_state"
    using that by (simp add: store_tokens_def SetCredential_def removePrivateFile_def privateFilePath_def numbered_world_def
        sample_cline_world_def map_keyring_def trim_plain plain_byte_def less_char_def name_char_def less_eq_char_def)
  have time: "wo_time ?w t = Some 0" for t by (simp add: numbered_world_def sample_cline_world_def)
  define body where "body = [(''refreshToken'', ''r''), (''grantType'', ''refresh_token'')]"
  define st1 where "st1 = numbered_state\<lparr>gs_sent := [post_request ''https://api.cline.bot/api/v1/auth/refresh'' body]\<rparr>"
  let ?data = "\<lparr>tk_success = True, tk_access = ''new'', tk_refresh = ''r'', tk_expires = ''9''\<rparr>"
  obtain st2 where put: "store_tokens ?w ?data st1 = (Inr (), st2)"
    using kept [of st1 ?data] by (auto simp: st1_def numbered_state_def sample_credentials_def)
  have "refresh_token ?w NewFactory \<lparr>sc_access = ''a'', sc_refresh = ''r'', sc_expires = ''e''\<rparr> numbered_state =
      (Inr (addWorkOSPrefix ''new''), st2)"
    using put unfolding refresh_token_def stored_credentials.select_convs url body_def [symmetric] answer st1_def [symmetric]
    by (simp add: Let_def)
  then have run: "?run = (Inr (addWorkOSPrefix ''new''), st2)"
    by (simp add: resolveAccessToken_def reads stored required_validity_def time)
  have "gs_sent (st2) = gs_sent st1" by (rule store_tokens_sent [OF put])
  then have "gs_sent (st2) \<noteq> gs_sent numbered_state" by (simp add: st1_def numbered_state_def)
  from refreshed_token_is_kept [OF run this rt works] show ?thesis unfolding run snd_conv by blast
qed

end
