(* ===== verification/Compaction.thy ===== *)
theory Compaction
  imports Budget Failure Files
begin

text \<open>
  Compaction of an agent's messages (internal/tooling/context_compaction.go): which head is
  summarised, which tail is kept word for word, the archive of the exact transcript, and the
  loops that repeat a request after an overflow or a delay. What a model answers to its n-th
  request is an argument.
\<close>

section \<open>Protocol\<close>

definition agentCompactionInstruction :: string where
  "agentCompactionInstruction = ''Condense the working exchange into a clear continuation brief. Preserve the current objective, user constraints, decisions already made, exact identifiers and paths, evidence that affects later choices, unresolved work, failed attempts, and the next concrete step. Distinguish observations from inferences. Do not invent missing details. Older evidence remains available through the exact transcript reference that ALT will attach, so make this brief useful for deciding what to reopen rather than trying to reproduce every byte. Return only the continuation brief as text and do not call tools.''"

definition call_ids :: "message \<Rightarrow> string set" where
  "call_ids m = set (ms_calls m) - {[]}"

text \<open>Every call of the prefix is answered before anything else is said, and in the end.\<close>

fun prefix_from :: "string set \<Rightarrow> messages \<Rightarrow> bool" where
  "prefix_from pending [] = (pending = {})"
| "prefix_from pending (None # ms) = prefix_from pending ms"
| "prefix_from pending (Some m # ms) =
     (case ms_role m of
        Assistant \<Rightarrow> prefix_from (pending \<union> call_ids m) ms
      | Tool \<Rightarrow> prefix_from (pending - {ms_call_id m}) ms
      | _ \<Rightarrow> pending = {} \<and> prefix_from pending ms)"

definition protocolValidPrefix :: "messages \<Rightarrow> bool" where
  "protocolValidPrefix ms = prefix_from {} ms"

text \<open>Every tool result of the suffix answers a call of the suffix.\<close>

fun suffix_from :: "string set \<Rightarrow> messages \<Rightarrow> bool" where
  "suffix_from known [] = True"
| "suffix_from known (None # ms) = suffix_from known ms"
| "suffix_from known (Some m # ms) =
     (if ms_role m = Assistant then suffix_from (known \<union> call_ids m) ms
      else (ms_role m = Tool \<and> ms_call_id m \<noteq> [] \<longrightarrow> ms_call_id m \<in> known) \<and> suffix_from known ms)"

definition protocolValidSuffix :: "messages \<Rightarrow> bool" where
  "protocolValidSuffix ms = suffix_from {} ms"

definition cloneModelVisibleMessage :: "message option \<Rightarrow> message option" where
  "cloneModelVisibleMessage m = map_option (\<lambda>m. m\<lparr>ms_usage := None, ms_extra := []\<rparr>) m"

definition system_end :: "messages \<Rightarrow> nat" where
  "system_end ms = length (takeWhile (is_role System) ms)"

section \<open>The tail that is kept and the head that is summarised\<close>

definition tail_fits :: "marshal \<Rightarrow> messages \<Rightarrow> messages \<Rightarrow> tool_info option list \<Rightarrow> int \<Rightarrow> nat \<Rightarrow> bool" where
  "tail_fits ma base original tools lowWater start \<longleftrightarrow>
     original ! start \<noteq> None \<and> \<not> is_role Tool (original ! start) \<and> protocolValidSuffix (drop start original) \<and>
     estimateFresh ma (base @ map cloneModelVisibleMessage (drop start original)) tools original \<le> lowWater"

definition finalizeWithVerbatimTail ::
    "marshal \<Rightarrow> messages \<Rightarrow> message \<Rightarrow> tool_info option list \<Rightarrow> int \<Rightarrow> messages" where
  "finalizeWithVerbatimTail ma original brief tools lowWater =
     (let systemEnd = system_end original;
          base = map cloneModelVisibleMessage (take systemEnd original) @ [Some brief]
      in if lowWater \<le> 0 \<or> systemEnd \<ge> length original then base
         else let best = foldl (\<lambda>best start. if tail_fits ma base original tools lowWater start then start else best)
                (length original) (rev [systemEnd..<length original])
              in if best = length original then base
                 else base @ map cloneModelVisibleMessage (drop best original))"

definition head_fits :: "marshal \<Rightarrow> messages \<Rightarrow> tool_info option list \<Rightarrow> int \<Rightarrow> nat \<Rightarrow> bool" where
  "head_fits ma original tools highWater boundary \<longleftrightarrow>
     protocolValidPrefix (take boundary original) \<and> protocolValidSuffix (drop boundary original) \<and>
     estimateFresh ma (map cloneModelVisibleMessage (take boundary original) @ [Some (UserMessage agentCompactionInstruction)])
       tools original \<le> highWater"

definition selectEmergencySummaryHead :: "marshal \<Rightarrow> messages \<Rightarrow> tool_info option list \<Rightarrow> int \<Rightarrow> messages" where
  "selectEmergencySummaryHead ma original tools highWater =
     (if highWater \<le> 0 then []
      else let systemEnd = system_end original;
               best = foldl (\<lambda>best boundary. if head_fits ma original tools highWater boundary then boundary else best)
                 0 [Suc systemEnd..<length original]
           in if best \<le> systemEnd then [] else map cloneModelVisibleMessage (take best original))"

section \<open>The exact transcript\<close>

definition strip_image :: "input_part \<Rightarrow> input_part" where
  "strip_image p =
     (case ip_image p of
        None \<Rightarrow> p
      | Some im \<Rightarrow> if ip_reference p then p\<lparr>ip_image := Some (im\<lparr>im_data := None\<rparr>)\<rparr> else p)"

definition archivable :: "bool \<Rightarrow> message option \<Rightarrow> message option" where
  "archivable persistReasoning m = map_option (\<lambda>m.
     let m1 = m\<lparr>ms_input := map strip_image (ms_input m)\<rparr>
     in if persistReasoning then m1
        else m1\<lparr>ms_reasoning := [], ms_output := filter (\<lambda>p. op_type p \<noteq> PartReasoning) (ms_output m1)\<rparr>) m"

datatype recover_error =
    TranscriptEncoding
  | TranscriptWrite
  | TranscriptCollision
  | TranscriptIndex
  | SummaryFailed
  | SummaryEmpty
  | RecordFailed
  | NoProgress
  | RequestFailed model_error

text \<open>
  The surroundings of the compactor. \<open>cp_model n\<close> and \<open>cp_summary n\<close> are the answers of the
  agent's model and of the summariser when \<open>n\<close> requests were made before; \<open>cp_late n d\<close>: the
  deadline is within \<open>d\<close>; \<open>cp_cancelled n\<close>: the context ends during the delay.
\<close>

record compaction_record =
  cr_trigger :: string
  cr_reference :: string
  cr_before :: nat
  cr_after :: nat
  cr_estimated :: int
  cr_capacity :: int
  cr_high :: int
  cr_summary :: "message option"

text \<open>
  A file that is written once. The path can be refused (the directory or the exclusive
  creation fails), the content can be cut off after some bytes (the disk is full, or closing
  fails after the last byte), or all of it is written.
\<close>

datatype write_once = NotCreated | CutAfter nat | WrittenWhole

record compactor =
  cp_marshal :: marshal
  cp_sha :: "string \<Rightarrow> string"
  cp_owner :: string
  cp_persist :: bool
  cp_write :: "string \<Rightarrow> string \<Rightarrow> write_once"
  cp_readable :: "string \<Rightarrow> bool"
  cp_index :: "string \<Rightarrow> string \<Rightarrow> bool"
  cp_record :: "compaction_record \<Rightarrow> bool"
  cp_model :: "nat \<Rightarrow> messages \<Rightarrow> (model_error, message) res"
  cp_summary :: "nat \<Rightarrow> messages \<Rightarrow> (model_error, message) res"
  cp_late :: "nat \<Rightarrow> int \<Rightarrow> bool"
  cp_cancelled :: "nat \<Rightarrow> bool"

record compaction_state =
  cmp_budget :: budget
  cmp_calls :: nat
  cmp_files :: "(string, string) gomap"
  cmp_records :: "compaction_record list"
  cmp_requests :: "messages list"

text \<open>A file whose write fails stays as far as it was written: the code does not remove it.\<close>

definition writeImmutableFile :: "compactor \<Rightarrow> string \<Rightarrow> string \<Rightarrow> (string, string) gomap \<Rightarrow>
    (recover_error, unit) res \<times> (string, string) gomap" where
  "writeImmutableFile cp path content files =
     (case map_of files path of
        None \<Rightarrow>
          (case cp_write cp path content of
             NotCreated \<Rightarrow> (Inl TranscriptWrite, files)
           | CutAfter n \<Rightarrow> (Inl TranscriptWrite, AList.update path (take n content) files)
           | WrittenWhole \<Rightarrow> (Inr (), AList.update path content files))
      | Some existing \<Rightarrow>
          if \<not> cp_readable cp path then (Inl TranscriptWrite, files)
          else if existing \<noteq> content then (Inl TranscriptCollision, files)
          else (Inr (), files))"

definition archiveAgentTranscript :: "compactor \<Rightarrow> messages \<Rightarrow> compaction_state \<Rightarrow>
    (recover_error, string) res \<times> compaction_state" where
  "archiveAgentTranscript cp ms st =
     (case ma_messages (cp_marshal cp) (map (archivable (cp_persist cp)) ms) of
        None \<Rightarrow> (Inl TranscriptEncoding, st)
      | Some content \<Rightarrow>
          (let digest = cp_sha cp (cp_owner cp @ CHR 0x00 # content) in
           case writeImmutableFile cp digest content (cmp_files st) of
             (Inl e, files) \<Rightarrow> (Inl e, st\<lparr>cmp_files := files\<rparr>)
           | (Inr _, files) \<Rightarrow>
               if cp_index cp (toolOutputPathPrefix @ digest) content
               then (Inr (toolOutputPathPrefix @ digest), st\<lparr>cmp_files := files\<rparr>)
               else (Inl TranscriptIndex, st\<lparr>cmp_files := files\<rparr>)))"

section \<open>Repeating a request\<close>

text \<open>Only a delay the provider asks for, shorter than the last one, is waited for.\<close>

definition retry_next :: "(int \<Rightarrow> bool) \<Rightarrow> model_error \<Rightarrow> int \<Rightarrow> int option" where
  "retry_next late err lastDelay =
     (case FailureDetails err of
        None \<Rightarrow> None
      | Some f \<Rightarrow>
          if fa_kind f \<notin> {Transient, RateLimited} \<or> fa_retry_after f \<le> 0 then None
          else if late (fa_retry_after f) then None
          else if lastDelay > 0 \<and> fa_retry_after f \<ge> lastDelay then None
          else Some (fa_retry_after f))"

lemma retry_next_shrinks: "retry_next late err lastDelay = Some delay \<Longrightarrow> 0 < delay \<and> (lastDelay \<le> 0 \<or> delay < lastDelay)"
  by (auto simp: retry_next_def split: option.splits if_splits)

text \<open>\<open>None\<close> on the left: the context ended during a delay.\<close>

function summary_loop :: "compactor \<Rightarrow> int \<Rightarrow> messages \<Rightarrow> nat \<Rightarrow> (model_error option, message) res \<times> nat" where
  "summary_loop cp lastDelay input n =
     (case cp_summary cp n input of
        Inr response \<Rightarrow> (Inr response, Suc n)
      | Inl err \<Rightarrow>
          (case retry_next (cp_late cp n) err lastDelay of
             None \<Rightarrow> (Inl (Some err), Suc n)
           | Some delay \<Rightarrow>
               if cp_cancelled cp n then (Inl None, Suc n)
               else summary_loop cp delay input (Suc n)))"
  by pat_completeness auto
termination
  by (relation "measures [\<lambda>(cp, d, input, n). if d \<le> 0 then 1 else 0, \<lambda>(cp, d, input, n). nat d]")
    (auto dest: retry_next_shrinks)

declare summary_loop.simps [simp del]

definition generateSummaryWithProviderSignals :: "compactor \<Rightarrow> messages \<Rightarrow> nat \<Rightarrow> (model_error option, message) res \<times> nat" where
  "generateSummaryWithProviderSignals cp input n = summary_loop cp 0 input n"

definition compactionMessageText :: "message \<Rightarrow> string" where
  "compactionMessageText m = ms_content m @ concat (map op_text (filter (\<lambda>p. op_type p = PartText) (ms_output m)))"

definition is_overflow :: "model_error \<Rightarrow> failure option" where
  "is_overflow err =
     (case FailureDetails err of Some f \<Rightarrow> if fa_kind f = ContextOverflow then Some f else None | None \<Rightarrow> None)"

definition summary_ceiling :: "marshal \<Rightarrow> messages \<Rightarrow> budget_plan \<Rightarrow> int" where
  "summary_ceiling ma original p =
     max 0 (bp_capacity p - estimateFresh ma [Some (UserMessage agentCompactionInstruction)] [] original)"

text \<open>
  The brief, if a summary can be had: the head shrinks each time the summariser overflows.
  \<open>Inr None\<close>: go on with the standard brief.
\<close>

function brief_loop :: "compactor \<Rightarrow> messages \<Rightarrow> tool_info option list \<Rightarrow> int \<Rightarrow> budget \<Rightarrow> nat \<Rightarrow>
    (recover_error, (string \<times> message) option) res \<times> budget \<times> nat" where
  "brief_loop cp original tools previousHeadSize b n =
     (let ma = cp_marshal cp; (p, b1) = plan ma original tools b;
          head = selectEmergencySummaryHead ma original tools (min (bp_high p) (summary_ceiling ma original p))
      in if head = [] then (Inr None, b1, n)
         else let headSize = estimateFresh ma head tools original in
           if headSize \<ge> previousHeadSize then (Inr None, b1, n)
           else let summaryInput = head @ [Some (UserMessage agentCompactionInstruction)] in
             case generateSummaryWithProviderSignals cp summaryInput n of
               (Inr summary, n1) \<Rightarrow>
                 (let text = trim (compactionMessageText summary)
                  in (Inr (if text = [] then None else Some (text, summary)), b1, n1))
             | (Inl e, n1) \<Rightarrow>
                 (case (case e of None \<Rightarrow> None | Some err \<Rightarrow> is_overflow err) of
                    None \<Rightarrow> (Inl SummaryFailed, b1, n1)
                  | Some f \<Rightarrow>
                      brief_loop cp original tools headSize
                        (observeOverflow ma summaryInput tools (fa_context_limit f) b1) n1))"
  by pat_completeness auto
termination
proof (relation "measure (\<lambda>(cp, original, tools, previousHeadSize, b, n). nat previousHeadSize)")
  fix cp original tools previousHeadSize n ma head headSize
  assume "headSize = estimateFresh ma head tools original" and "\<not> (previousHeadSize :: int) \<le> headSize"
  then have "0 \<le> headSize" "headSize < previousHeadSize" by simp_all
  then show "((cp :: compactor, original, tools, headSize, b', n'), (cp, original, tools, previousHeadSize, b, n)) \<in>
      measure (\<lambda>(cp, original, tools, previousHeadSize, b, n). nat previousHeadSize)" for b' n' b n
    by simp
qed simp

declare brief_loop.simps [simp del]

definition standard_brief :: string where
  "standard_brief = ''The previous model request exceeded the provider's current context ceiling. Continue from the recent verbatim messages below and reopen exact older evidence when it becomes relevant.''"

definition brief_message :: "string \<Rightarrow> string \<Rightarrow> message" where
  "brief_message brief reference =
     UserMessage (''[ALT continuation brief]'' @ CHR 0x0A # brief @ [CHR 0x0A, CHR 0x0A] @
       ''Exact pre-compaction transcript: '' @ reference @
       ''. Use context_open if a detail omitted from this working brief becomes relevant.'')"


text \<open>What is left after a compaction is recorded, then kept as the latest plan.\<close>

definition conclude ::
    "compactor \<Rightarrow> messages \<Rightarrow> messages \<Rightarrow> tool_info option list \<Rightarrow> compaction_record \<Rightarrow> compaction_state \<Rightarrow>
     (recover_error, messages) res \<times> compaction_state" where
  "conclude cp original final tools entry st =
     (if \<not> cp_record cp entry then (Inl RecordFailed, st)
      else (Inr final, st\<lparr>cmp_records := cmp_records st @ [entry],
        cmp_budget := snd (plan (cp_marshal cp) final tools (cmp_budget st))\<rparr>))"

definition recoverOverflow ::
    "compactor \<Rightarrow> messages \<Rightarrow> tool_info option list \<Rightarrow> failure \<Rightarrow> string \<Rightarrow> bool \<Rightarrow> compaction_state \<Rightarrow>
     (recover_error, messages) res \<times> compaction_state" where
  "recoverOverflow cp original tools failure trigger learn st =
     (let ma = cp_marshal cp;
          b0 = (if learn then observeOverflow ma original tools (fa_context_limit failure) (cmp_budget st) else cmp_budget st)
      in case archiveAgentTranscript cp original (st\<lparr>cmp_budget := b0\<rparr>) of
           (Inl e, st1) \<Rightarrow> (Inl e, st1)
         | (Inr reference, st1) \<Rightarrow>
             (case brief_loop cp original tools (estimateFresh ma original tools original) (cmp_budget st1) (cmp_calls st1) of
                (Inl e, b2, n2) \<Rightarrow> (Inl e, st1\<lparr>cmp_budget := b2, cmp_calls := n2\<rparr>)
              | (Inr outcome, b2, n2) \<Rightarrow>
                  (let brief = (case outcome of None \<Rightarrow> standard_brief | Some (text, _) \<Rightarrow> text);
                       (p, b3) = plan ma original tools b2;
                       final = finalizeWithVerbatimTail ma original (brief_message brief reference) tools (bp_low p)
                   in conclude cp original final tools
                        \<lparr>cr_trigger = trigger, cr_reference = reference, cr_before = length original,
                         cr_after = length final, cr_estimated = bp_estimated p, cr_capacity = bp_capacity p,
                         cr_high = bp_high p, cr_summary = map_option snd outcome\<rparr>
                        (st1\<lparr>cmp_budget := b3, cmp_calls := n2\<rparr>))))"

definition strictlySmaller :: "marshal \<Rightarrow> messages \<Rightarrow> messages \<Rightarrow> tool_info option list \<Rightarrow> bool" where
  "strictlySmaller ma nxt previous tools \<longleftrightarrow> estimateFresh ma nxt tools previous < estimateFresh ma previous tools previous"

text \<open>Nothing a compaction leaves carries usage, so a byte counts as a token from then on.\<close>

definition uncalibrated_messages :: "messages \<Rightarrow> bool" where
  "uncalibrated_messages ms \<longleftrightarrow> (\<forall>m \<in> set ms. usage_of m = None)"

lemma clone_usage [simp]: "usage_of (cloneModelVisibleMessage m) = None"
  by (cases m) (simp_all add: usage_of_def cloneModelVisibleMessage_def)

lemma UserMessage_simps [simp]: "usage_of (Some (UserMessage s)) = None" "ms_role (UserMessage s) = User" "ms_calls (UserMessage s) = []"
  by (simp_all add: usage_of_def UserMessage_def)

lemma finalize_uncalibrated:
  "usage_of (Some brief) = None \<Longrightarrow> uncalibrated_messages (finalizeWithVerbatimTail ma original brief tools low)"
  by (auto simp: finalizeWithVerbatimTail_def Let_def uncalibrated_messages_def)

lemma conclude_result: "conclude cp original final tools entry st = (Inr next, st') \<Longrightarrow> next = final"
  by (auto simp: conclude_def split: if_splits)

lemma recoverOverflow_uncalibrated:
  "recoverOverflow cp original tools failure trigger learn st = (Inr next, st') \<Longrightarrow> uncalibrated_messages next"
  by (auto simp: recoverOverflow_def Let_def brief_message_def split: prod.splits sum.splits if_splits
      dest!: conclude_result intro!: finalize_uncalibrated)

lemma uncalibrated_fresh: "uncalibrated_messages ms \<Longrightarrow> estimateFresh ma xs tools ms = estimateFresh ma xs tools []"
  by (simp add: estimateFresh_def uncalibrated uncalibrated_messages_def)

text \<open>
  \<open>overflowRecoveringModel.Generate\<close>: as long as the provider says the request is too long,
  recover and ask again with less. \<open>Stream\<close> is the same loop.
\<close>

function overflow_generate :: "compactor \<Rightarrow> tool_info option list \<Rightarrow> messages \<Rightarrow> compaction_state \<Rightarrow>
    (recover_error, message) res \<times> compaction_state" where
  "overflow_generate cp tools current st =
     (let st1 = st\<lparr>cmp_calls := Suc (cmp_calls st), cmp_requests := cmp_requests st @ [current]\<rparr> in
      case cp_model cp (cmp_calls st) current of
        Inr response \<Rightarrow> (Inr response, st1)
      | Inl err \<Rightarrow>
          (case is_overflow err of
             None \<Rightarrow> (Inl (RequestFailed err), st1)
           | Some failure \<Rightarrow>
               (case recoverOverflow cp current tools failure ''provider_overflow'' True st1 of
                  (Inl e, st2) \<Rightarrow> (Inl e, st2)
                | (Inr nxt, st2) \<Rightarrow>
                    if strictlySmaller (cp_marshal cp) nxt current tools then overflow_generate cp tools nxt st2
                    else (Inl NoProgress, st2))))"
  by pat_completeness auto
termination
proof (relation "measures [\<lambda>(cp, tools, current, st). if uncalibrated_messages current then 0 else 1,
    \<lambda>(cp, tools, current, st). nat (estimateFresh (cp_marshal cp) current tools [])]")
  fix cp tools current st st1 failure answer nxt st2
  assume "(answer, st2) = recoverOverflow cp current tools failure ''provider_overflow'' True st1" "answer = Inr nxt"
    and smaller: "strictlySmaller (cp_marshal cp) nxt current tools"
  then have nxt: "uncalibrated_messages nxt" using recoverOverflow_uncalibrated by metis
  show "((cp, tools, nxt, st2), (cp, tools, current, st)) \<in>
    measures [\<lambda>(cp, tools, current, st). if uncalibrated_messages current then 0 else 1,
      \<lambda>(cp, tools, current, st). nat (estimateFresh (cp_marshal cp) current tools [])]"
  proof (cases "uncalibrated_messages current")
    case True
    have "estimateFresh (cp_marshal cp) nxt tools [] < estimateFresh (cp_marshal cp) current tools []"
      using smaller uncalibrated_fresh [OF True] by (simp add: strictlySmaller_def)
    moreover have "0 \<le> estimateFresh (cp_marshal cp) nxt tools []" by simp
    ultimately have "nat (estimateFresh (cp_marshal cp) nxt tools []) < nat (estimateFresh (cp_marshal cp) current tools [])"
      by linarith
    then show ?thesis using nxt True by simp
  next
    case False
    then show ?thesis using nxt by simp
  qed
qed simp

declare overflow_generate.simps [simp del]

section \<open>Before a request\<close>

definition sort_tools :: "tool_info option list \<Rightarrow> tool_info option list" where
  "sort_tools tools = filter (\<lambda>t. t = None) tools @ map Some (sort_key ti_name (List.map_filter (\<lambda>t. t) tools))"

text \<open>
  What \<open>BeforeModelRewriteState\<close> does with the messages: keep them, recover as from an
  overflow, or let the library's summariser run with the trigger (its result goes through
  \<open>finalize_compaction\<close>).
\<close>

datatype rewrite = Keep | Recover | Summarize int

definition rewrite_choice :: "marshal \<Rightarrow> messages \<Rightarrow> budget_plan \<Rightarrow> rewrite" where
  "rewrite_choice ma ms p =
     (let ceiling = summary_ceiling ma ms p; trigger = min (bp_high p) ceiling
      in if \<not> bp_known p then Keep
         else if bp_estimated p \<le> trigger then Keep
         else if bp_estimated p > ceiling then Recover
         else Summarize trigger)"

definition finalize_compaction ::
    "compactor \<Rightarrow> messages \<Rightarrow> tool_info option list \<Rightarrow> budget_plan \<Rightarrow> int \<Rightarrow> message option \<Rightarrow> compaction_state \<Rightarrow>
     (recover_error, messages) res \<times> compaction_state" where
  "finalize_compaction cp original tools p trigger summary st =
     (case archiveAgentTranscript cp original st of
        (Inl e, st1) \<Rightarrow> (Inl e, st1)
      | (Inr reference, st1) \<Rightarrow>
          (let brief = trim (case summary of None \<Rightarrow> [] | Some m \<Rightarrow> compactionMessageText m)
           in if brief = [] then (Inl SummaryEmpty, st1)
              else let final = finalizeWithVerbatimTail (cp_marshal cp) original (brief_message brief reference) tools (bp_low p)
                   in conclude cp original final tools
                        \<lparr>cr_trigger = ''working_budget'', cr_reference = reference, cr_before = length original,
                         cr_after = length final, cr_estimated = bp_estimated p, cr_capacity = bp_capacity p,
                         cr_high = trigger, cr_summary = summary\<rparr> st1))"

text \<open>\<open>summarize\<close> is the library's middleware: it may call the summariser and then \<open>Finalize\<close>.\<close>

definition BeforeModelRewriteState ::
    "(int \<Rightarrow> tool_info option list \<Rightarrow> budget_plan \<Rightarrow> messages \<Rightarrow> compaction_state \<Rightarrow> (recover_error, messages) res \<times> compaction_state) \<Rightarrow>
     compactor \<Rightarrow> messages \<Rightarrow> tool_info option list \<Rightarrow> compaction_state \<Rightarrow> (recover_error, messages) res \<times> compaction_state" where
  "BeforeModelRewriteState summarize cp ms tools st =
     (case plan (cp_marshal cp) ms tools (cmp_budget st) of (p, b1) \<Rightarrow>
        let st1 = st\<lparr>cmp_budget := b1\<rparr> in
        case rewrite_choice (cp_marshal cp) ms p of
          Keep \<Rightarrow> (Inr ms, st1)
        | Recover \<Rightarrow> recoverOverflow cp ms (sort_tools tools)
            \<lparr>fa_kind = ContextOverflow, fa_context_limit = bp_capacity p, fa_retry_after = 0\<rparr> ''discovered_capacity'' False st1
        | Summarize trigger \<Rightarrow> summarize trigger (sort_tools tools) p ms st1)"


section \<open>Lemmas\<close>

lemma foldl_last_match:
  "foldl (\<lambda>best i. if P i then i else best) d (rev xs) = (case find P xs of None \<Rightarrow> d | Some i \<Rightarrow> i)"
  by (induction xs) (auto split: option.splits)

text \<open>A loop that goes down and keeps the last match finds the least one; one that goes up, the greatest.\<close>

lemma least_match:
  assumes "b = foldl (\<lambda>best i. if P i then i else best) n (rev [lo..<n])" and "lo \<le> n"
  shows "lo \<le> b \<and> b \<le> n \<and> (b < n \<longrightarrow> P b) \<and> (\<forall>i. lo \<le> i \<longrightarrow> i < b \<longrightarrow> \<not> P i)"
proof (cases "find P [lo..<n]")
  case None
  then have "\<not> P i" if "lo \<le> i" "i < n" for i using that by (auto simp: find_None_iff)
  then show ?thesis using None assms by (auto simp: foldl_last_match)
next
  case (Some i)
  then obtain k where k: "k < n - lo" "P (lo + k)" "i = lo + k" "\<forall>j < k. \<not> P (lo + j)"
    by (auto simp: find_Some_iff)
  have "\<not> P j" if "lo \<le> j" "j < i" for j
    using k(3,4) that by (metis add_diff_inverse_nat add_less_cancel_left not_less)
  then show ?thesis using Some assms(1) k by (auto simp: foldl_last_match)
qed

lemma greatest_match:
  assumes "b = foldl (\<lambda>best i. if P i then i else best) d [lo..<n]"
  shows "b = d \<and> (\<forall>i. lo \<le> i \<longrightarrow> i < n \<longrightarrow> \<not> P i) \<or> lo \<le> b \<and> b < n \<and> P b \<and> (\<forall>i. b < i \<longrightarrow> i < n \<longrightarrow> \<not> P i)"
  using assms
proof (induction n arbitrary: b)
  case (Suc n)
  show ?case
  proof (cases "lo \<le> n")
    case True
    then have "b = (if P n then n else foldl (\<lambda>best i. if P i then i else best) d [lo..<n])"
      using Suc.prems by simp
    then show ?thesis using Suc.IH [OF refl] True by (auto simp: less_Suc_eq)
  next
    case False
    then show ?thesis using Suc.prems by auto
  qed
qed auto

lemma suffix_from_append_plain:
  "(\<And>m. Some m \<in> set xs \<Longrightarrow> ms_role m \<noteq> Assistant \<and> ms_role m \<noteq> Tool) \<Longrightarrow> suffix_from known (xs @ ys) = suffix_from known ys"
  by (induction known xs rule: suffix_from.induct) auto

lemma suffix_from_clone [simp]: "suffix_from known (map cloneModelVisibleMessage ms) = suffix_from known ms"
  by (induction known ms rule: suffix_from.induct) (auto simp: cloneModelVisibleMessage_def call_ids_def)

lemma prefix_from_clone [simp]: "prefix_from pending (map cloneModelVisibleMessage ms) = prefix_from pending ms"
  by (induction pending ms rule: prefix_from.induct) (auto simp: cloneModelVisibleMessage_def call_ids_def split: role.splits)

lemma system_prefix: "Some m \<in> set (map cloneModelVisibleMessage (take (system_end ms) ms)) \<Longrightarrow> ms_role m = System"
proof -
  have "is_role System x" if "x \<in> set (take (system_end ms) ms)" for x
  proof -
    have "take (system_end ms) ms = takeWhile (is_role System) ms"
      unfolding system_end_def by (rule takeWhile_eq_take [symmetric])
    then show ?thesis using that set_takeWhileD by metis
  qed
  then show "Some m \<in> set (map cloneModelVisibleMessage (take (system_end ms) ms)) \<Longrightarrow> ms_role m = System"
    by (fastforce simp: cloneModelVisibleMessage_def is_role_def split: option.splits)
qed

text \<open>The kept tail: where it starts.\<close>

lemma finalize_tail:
  assumes "0 < low" and "system_end original < length original"
    and "base = map cloneModelVisibleMessage (take (system_end original) original) @ [Some brief]"
  obtains b where "finalizeWithVerbatimTail ma original brief tools low = base @ map cloneModelVisibleMessage (drop b original)"
    and "system_end original \<le> b" and "b \<le> length original"
    and "b < length original \<Longrightarrow> tail_fits ma base original tools low b"
    and "\<And>i. system_end original \<le> i \<Longrightarrow> i < b \<Longrightarrow> \<not> tail_fits ma base original tools low i"
proof -
  define b where "b = foldl (\<lambda>best start. if tail_fits ma base original tools low start then start else best)
    (length original) (rev [system_end original..<length original])"
  note least = least_match [OF b_def less_imp_le [OF assms(2)]]
  have "finalizeWithVerbatimTail ma original brief tools low = base @ map cloneModelVisibleMessage (drop b original)"
    using assms by (simp add: finalizeWithVerbatimTail_def Let_def b_def)
  then show ?thesis using that least by blast
qed


lemma archive_effect:
  assumes "archiveAgentTranscript cp ms st = (r, st')"
  shows "st' = st\<lparr>cmp_files := cmp_files st'\<rparr>" and "map_of (cmp_files st) \<subseteq>\<^sub>m map_of (cmp_files st')"
    and "r = Inr reference \<Longrightarrow> \<exists>digest content. reference = toolOutputPathPrefix @ digest \<and>
      ma_messages (cp_marshal cp) (map (archivable (cp_persist cp)) ms) = Some content \<and>
      map_of (cmp_files st') digest = Some content"
  using assms
  by (auto simp: archiveAgentTranscript_def writeImmutableFile_def Let_def map_le_def
      split: option.splits sum.splits if_splits write_once.splits)

text \<open>
  A transcript cut off while it was written is never archived again: its path holds other
  content from then on, and every later attempt is taken for a collision.
\<close>

lemma cut_transcript_is_lost:
  assumes "ma_messages (cp_marshal cp) (map (archivable (cp_persist cp)) ms) = Some content"
    and "map_of (cmp_files st) (cp_sha cp (cp_owner cp @ CHR 0x00 # content)) = None"
    and "cp_write cp (cp_sha cp (cp_owner cp @ CHR 0x00 # content)) content = CutAfter n" and "n < length content"
    and "cp_readable cp (cp_sha cp (cp_owner cp @ CHR 0x00 # content))"
  shows "fst (archiveAgentTranscript cp ms st) = Inl TranscriptWrite \<and>
    fst (archiveAgentTranscript cp ms (snd (archiveAgentTranscript cp ms st))) = Inl TranscriptCollision"
proof -
  have "take n content \<noteq> content" using assms(4) by (metis length_take min.absorb4 nat_neq_iff)
  then show ?thesis using assms by (simp add: archiveAgentTranscript_def writeImmutableFile_def Let_def)
qed

lemma conclude_effect:
  assumes "conclude cp original final tools entry st = (r, st')"
  shows "cmp_files st' = cmp_files st \<and> cmp_requests st' = cmp_requests st \<and>
    (case r of Inl _ \<Rightarrow> cmp_records st' = cmp_records st | Inr f \<Rightarrow> f = final \<and> cmp_records st' = cmp_records st @ [entry])"
  using assms by (auto simp: conclude_def split: if_splits)

lemma brief_message_role [simp]: "ms_role (brief_message t r) = User" "usage_of (Some (brief_message t r)) = None"
  by (simp_all add: brief_message_def)

lemma UserMessage_cut:
  "\<exists>before after. ms_content (UserMessage (a @ x # t @ n @ e @ r @ p)) = before @ e @ r @ after"
proof -
  have "ms_content (UserMessage (a @ x # t @ n @ e @ r @ p)) = (a @ x # t @ n) @ e @ r @ p" by (simp add: UserMessage_def)
  then show ?thesis by blast
qed

lemma brief_message_names:
  "\<exists>before after. ms_content (brief_message text reference) = before @ ''Exact pre-compaction transcript: '' @ reference @ after"
  unfolding brief_message_def by (rule UserMessage_cut)

lemma finalize_base:
  "\<exists>ys. finalizeWithVerbatimTail ma original brief tools low =
     map cloneModelVisibleMessage (take (system_end original) original) @ Some brief # ys \<and> suffix_from {} ys"
proof (cases "0 < low \<and> system_end original < length original")
  case True
  let ?base = "map cloneModelVisibleMessage (take (system_end original) original) @ [Some brief]"
  obtain b where b: "finalizeWithVerbatimTail ma original brief tools low = ?base @ map cloneModelVisibleMessage (drop b original)"
    "b \<le> length original" "b < length original \<Longrightarrow> tail_fits ma ?base original tools low b"
    using finalize_tail [of low original ?base brief ma tools] True by metis
  have "suffix_from {} (drop b original)"
    using b(2,3) by (cases "b < length original") (auto simp: tail_fits_def protocolValidSuffix_def)
  then show ?thesis using b(1) by simp
next
  case False
  then show ?thesis by (auto simp: finalizeWithVerbatimTail_def Let_def)
qed

lemma finalize_valid:
  assumes "ms_role brief = User"
  shows "protocolValidSuffix (finalizeWithVerbatimTail ma original brief tools low)"
proof -
  let ?base = "map cloneModelVisibleMessage (take (system_end original) original) @ [Some brief]"
  have plain: "ms_role m \<noteq> Assistant \<and> ms_role m \<noteq> Tool" if "Some m \<in> set ?base" for m
    using that system_prefix [of m original] assms by auto
  obtain ys where ys: "finalizeWithVerbatimTail ma original brief tools low = ?base @ ys" "suffix_from {} ys"
    using finalize_base [of ma original brief tools low] by auto
  have "suffix_from {} (?base @ ys) = suffix_from {} ys" by (rule suffix_from_append_plain [OF plain])
  then show ?thesis using ys(2) by (simp only: protocolValidSuffix_def ys(1))
qed

lemma recoverOverflow_effect:
  assumes "recoverOverflow cp original tools failure trigger learn st = (r, st')"
  shows "map_of (cmp_files st) \<subseteq>\<^sub>m map_of (cmp_files st') \<and> cmp_requests st' = cmp_requests st \<and>
    (case r of
       Inl _ \<Rightarrow> cmp_records st' = cmp_records st
     | Inr final \<Rightarrow> protocolValidSuffix final \<and>
         (\<exists>entry digest content. cmp_records st' = cmp_records st @ [entry] \<and> cr_trigger entry = trigger \<and>
            cr_before entry = length original \<and> cr_after entry = length final \<and>
            cr_reference entry = toolOutputPathPrefix @ digest \<and>
            ma_messages (cp_marshal cp) (map (archivable (cp_persist cp)) original) = Some content \<and>
            map_of (cmp_files st') digest = Some content \<and>
            (\<exists>brief rest before after.
               final = map cloneModelVisibleMessage (take (system_end original) original) @ Some brief # rest \<and>
               ms_role brief = User \<and>
               ms_content brief = before @ ''Exact pre-compaction transcript: '' @ toolOutputPathPrefix @ digest @ after)))"
proof -
  define b0 where "b0 = (if learn then observeOverflow (cp_marshal cp) original tools (fa_context_limit failure) (cmp_budget st) else cmp_budget st)"
  obtain a st1 where ar: "archiveAgentTranscript cp original (st\<lparr>cmp_budget := b0\<rparr>) = (a, st1)" by fastforce
  note arch = archive_effect [OF ar]
  have kept: "cmp_requests st1 = cmp_requests st" "cmp_records st1 = cmp_records st" "map_of (cmp_files st) \<subseteq>\<^sub>m map_of (cmp_files st1)"
  proof -
    have "st1 = (st\<lparr>cmp_budget := b0\<rparr>)\<lparr>cmp_files := cmp_files st1\<rparr>" by (rule arch(1))
    then show "cmp_requests st1 = cmp_requests st" "cmp_records st1 = cmp_records st"
      by (metis compaction_state.select_convs(4,5) compaction_state.surjective compaction_state.update_convs(1,3))+
    show "map_of (cmp_files st) \<subseteq>\<^sub>m map_of (cmp_files st1)" using arch(2) by simp
  qed
  show ?thesis
  proof (cases a)
    case (Inl e)
    then show ?thesis using assms ar kept by (auto simp: recoverOverflow_def Let_def b0_def)
  next
    case (Inr reference)
    obtain digest content where ref: "reference = toolOutputPathPrefix @ digest"
      "ma_messages (cp_marshal cp) (map (archivable (cp_persist cp)) original) = Some content"
      "map_of (cmp_files st1) digest = Some content" using arch(3) [OF Inr] by blast
    obtain outcome b2 n2 where loop: "brief_loop cp original tools
        (estimateFresh (cp_marshal cp) original tools original) (cmp_budget st1) (cmp_calls st1) = (outcome, b2, n2)"
      by (metis prod_cases3)
    show ?thesis
    proof (cases outcome)
      case (Inl e)
      then show ?thesis using assms ar loop kept Inr by (auto simp: recoverOverflow_def Let_def b0_def)
    next
      case (Inr out)
      obtain p b3 where pl: "plan (cp_marshal cp) original tools b2 = (p, b3)" by fastforce
      define brief where "brief = (case out of None \<Rightarrow> standard_brief | Some (text, _) \<Rightarrow> text)"
      define final where "final = finalizeWithVerbatimTail (cp_marshal cp) original (brief_message brief reference) tools (bp_low p)"
      have "conclude cp original final tools
          \<lparr>cr_trigger = trigger, cr_reference = reference, cr_before = length original,
           cr_after = length final, cr_estimated = bp_estimated p, cr_capacity = bp_capacity p,
           cr_high = bp_high p, cr_summary = map_option snd out\<rparr>
          (st1\<lparr>cmp_budget := b3, cmp_calls := n2\<rparr>) = (r, st')"
        using assms ar loop pl Inr \<open>a = Inr reference\<close>
        by (simp add: recoverOverflow_def Let_def b0_def [symmetric] brief_def final_def)
      note done_effect = conclude_effect [OF this]
      have "protocolValidSuffix final" unfolding final_def by (rule finalize_valid) simp
      moreover have "\<exists>brief rest before after.
          final = map cloneModelVisibleMessage (take (system_end original) original) @ Some brief # rest \<and>
          ms_role brief = User \<and>
          ms_content brief = before @ ''Exact pre-compaction transcript: '' @ toolOutputPathPrefix @ digest @ after"
      proof -
        obtain rest where "final = map cloneModelVisibleMessage (take (system_end original) original) @
            Some (brief_message brief reference) # rest"
          using finalize_base [of "cp_marshal cp" original "brief_message brief reference" tools "bp_low p"]
          unfolding final_def by blast
        moreover obtain before after where "ms_content (brief_message brief reference) =
            before @ ''Exact pre-compaction transcript: '' @ toolOutputPathPrefix @ digest @ after"
          using brief_message_names [of brief reference] unfolding ref(1) append_assoc by blast
        ultimately show ?thesis using brief_message_role(1) by blast
      qed
      ultimately show ?thesis using done_effect kept ref by (cases r) auto
    qed
  qed
qed

lemma decreasing_length:
  assumes "sorted_wrt (\<lambda>a b. (f b :: int) < f a) (x # xs)" and "\<And>y. 0 \<le> f y"
  shows "length xs \<le> nat (f x)"
  using assms(1)
proof (induction xs arbitrary: x)
  case (Cons y ys)
  have "length ys \<le> nat (f y)" using Cons by simp
  moreover have "f y < f x" "0 \<le> f y" using Cons.prems assms(2) by auto
  ultimately show ?case by simp
qed simp

lemma overflow_trace:
  "overflow_generate cp tools current st = (r, st') \<Longrightarrow>
     \<exists>reqs. cmp_requests st' = cmp_requests st @ current # reqs \<and> (\<forall>x \<in> set reqs. uncalibrated_messages x) \<and>
       sorted_wrt (\<lambda>a b. estimateFresh (cp_marshal cp) b tools [] < estimateFresh (cp_marshal cp) a tools [])
         (if uncalibrated_messages current then current # reqs else reqs) \<and>
       (reqs \<noteq> [] \<longrightarrow> estimateFresh (cp_marshal cp) (hd reqs) tools current < estimateFresh (cp_marshal cp) current tools current)"
proof (induction cp tools current st arbitrary: r st' rule: overflow_generate.induct)
  case (1 cp tools current st)
  let ?ma = "cp_marshal cp"
  let ?st1 = "st\<lparr>cmp_calls := Suc (cmp_calls st), cmp_requests := cmp_requests st @ [current]\<rparr>"
  show ?case
  proof (cases "\<exists>err f nxt st2. cp_model cp (cmp_calls st) current = Inl err \<and> is_overflow err = Some f \<and>
      recoverOverflow cp current tools f ''provider_overflow'' True ?st1 = (Inr nxt, st2) \<and> strictlySmaller ?ma nxt current tools")
    case False
    have "cmp_requests st' = cmp_requests st @ [current]"
    proof (cases "cp_model cp (cmp_calls st) current")
      case (Inl err)
      show ?thesis
      proof (cases "is_overflow err")
        case None
        then show ?thesis using "1.prems" Inl by (auto simp: overflow_generate.simps [of cp tools current st] Let_def)
      next
        case (Some f)
        obtain a st2 where rec: "recoverOverflow cp current tools f ''provider_overflow'' True ?st1 = (a, st2)" by fastforce
        have "cmp_requests st2 = cmp_requests st @ [current]" using recoverOverflow_effect [OF rec] by simp
        moreover have "st' = st2"
          using "1.prems" Inl Some rec False
          by (auto simp: overflow_generate.simps [of cp tools current st] Let_def split: sum.splits if_splits)
        ultimately show ?thesis by simp
      qed
    qed (use "1.prems" in \<open>auto simp: overflow_generate.simps [of cp tools current st] Let_def\<close>)
    then show ?thesis by (intro exI [of _ "[]"]) simp
  next
    case True
    then obtain err f nxt st2 where ok: "cp_model cp (cmp_calls st) current = Inl err" "is_overflow err = Some f"
      "recoverOverflow cp current tools f ''provider_overflow'' True ?st1 = (Inr nxt, st2)" "strictlySmaller ?ma nxt current tools" by blast
    have run: "overflow_generate cp tools nxt st2 = (r, st')"
      using "1.prems" ok by (simp add: overflow_generate.simps [of cp tools current st] Let_def)
    have un: "uncalibrated_messages nxt" by (rule recoverOverflow_uncalibrated [OF ok(3)])
    obtain reqs where IH: "cmp_requests st' = cmp_requests st2 @ nxt # reqs" "\<forall>x \<in> set reqs. uncalibrated_messages x"
      "sorted_wrt (\<lambda>a b. estimateFresh ?ma b tools [] < estimateFresh ?ma a tools []) (nxt # reqs)"
      using "1.IH" [OF refl ok(1,2) ok(3) [symmetric] refl ok(4) run] un by auto
    have "cmp_requests st2 = cmp_requests st @ [current]" using recoverOverflow_effect [OF ok(3)] by simp
    moreover have "sorted_wrt (\<lambda>a b. estimateFresh ?ma b tools [] < estimateFresh ?ma a tools []) (current # nxt # reqs)"
      if "uncalibrated_messages current"
    proof -
      have "estimateFresh ?ma nxt tools [] < estimateFresh ?ma current tools []"
        using ok(4) uncalibrated_fresh [OF that] by (simp add: strictlySmaller_def)
      then show ?thesis using IH(3) by auto
    qed
    ultimately show ?thesis
      using IH ok(4) un by (intro exI [of _ "nxt # reqs"]) (simp add: strictlySmaller_def)
  qed
qed


section \<open>Samples\<close>

definition sample_overflow :: model_error where
  "sample_overflow = failed ContextOverflow 0 0 (sample_error ''context window exceeds limit'' None)"

definition sample_compactor :: compactor where
  "sample_compactor = \<lparr>cp_marshal = sample_marshal, cp_sha = (\<lambda>s. ''d''), cp_owner = ''agent:lead'', cp_persist = False,
     cp_write = (\<lambda>p c. WrittenWhole), cp_readable = (\<lambda>p. True), cp_index = (\<lambda>r c. True), cp_record = (\<lambda>e. True),
     cp_model = (\<lambda>n ms. if n = 0 then Inl sample_overflow else Inr (UserMessage ''ok'')),
     cp_summary = (\<lambda>n ms. Inr (UserMessage ''short'')), cp_late = (\<lambda>n d. False), cp_cancelled = (\<lambda>n. False)\<rparr>"

definition sample_compaction_state :: compaction_state where
  "sample_compaction_state = \<lparr>cmp_budget = newContextBudget no_limits, cmp_calls = 0, cmp_files = [], cmp_records = [], cmp_requests = []\<rparr>"

definition sample_conversation :: messages where
  "sample_conversation = [Some (UserMessage ''question''), Some (sample_answer ''hi'' 20), Some (UserMessage ''again'')]"

section \<open>Properties\<close>

text \<open>
  C5: recovery from overflows ends. However often the provider says that a request is too
  long, and whatever summaries it gives, the loop asks finitely often: the second request is
  estimated smaller than the first, and from then on every request is strictly smaller than
  the one before, on one scale; so there are at most as many further requests as the second
  one has tokens.
\<close>

theorem overflow_recovery_ends:
  "\<exists>reqs. cmp_requests (snd (overflow_generate cp tools current st)) = cmp_requests st @ current # reqs \<and>
    sorted_wrt (\<lambda>a b. estimateFresh (cp_marshal cp) b tools [] < estimateFresh (cp_marshal cp) a tools []) reqs \<and>
    (reqs \<noteq> [] \<longrightarrow>
       estimateFresh (cp_marshal cp) (hd reqs) tools current < estimateFresh (cp_marshal cp) current tools current \<and>
       length reqs \<le> Suc (nat (estimateFresh (cp_marshal cp) (hd reqs) tools [])))"
proof -
  let ?size = "\<lambda>ms. estimateFresh (cp_marshal cp) ms tools []"
  obtain r st' where run: "overflow_generate cp tools current st = (r, st')" by fastforce
  obtain reqs where reqs: "cmp_requests st' = cmp_requests st @ current # reqs"
    "sorted_wrt (\<lambda>a b. ?size b < ?size a) (if uncalibrated_messages current then current # reqs else reqs)"
    "reqs \<noteq> [] \<longrightarrow> estimateFresh (cp_marshal cp) (hd reqs) tools current < estimateFresh (cp_marshal cp) current tools current"
    using overflow_trace [OF run] by blast
  have sorted: "sorted_wrt (\<lambda>a b. ?size b < ?size a) reqs" using reqs(2) by (auto split: if_splits)
  have "length reqs \<le> Suc (nat (?size (hd reqs)))"
    using decreasing_length [of ?size "hd reqs" "tl reqs"] sorted by (cases reqs) auto
  then show ?thesis using reqs(1,3) sorted run by auto
qed

theorem overflow_recovery_ends_witness:
  "\<exists>reqs. cmp_requests (snd (overflow_generate sample_compactor [] sample_conversation sample_compaction_state)) =
     sample_conversation # reqs \<and>
     sorted_wrt (\<lambda>a b. estimateFresh sample_marshal b [] [] < estimateFresh sample_marshal a [] []) reqs"
  using overflow_recovery_ends [of sample_compactor "[]" sample_conversation sample_compaction_state]
  by (auto simp: sample_compactor_def sample_compaction_state_def)

text \<open>
  C25: what is kept word for word. The rewritten conversation is the leading system messages,
  the brief, and the longest tail of the original that does not start with a tool result, in
  which every tool result answers a call that is kept too, and with which the whole stays
  within the low-water mark; if no tail is like that, none is kept. The result is valid for
  the provider's protocol in any case.
\<close>

theorem verbatim_tail_longest:
  assumes "0 < low" and "system_end original < length original" and "ms_role brief = User"
    and "base = map cloneModelVisibleMessage (take (system_end original) original) @ [Some brief]"
  shows "protocolValidSuffix (finalizeWithVerbatimTail ma original brief tools low) \<and>
    (\<exists>b \<ge> system_end original. b \<le> length original \<and>
       finalizeWithVerbatimTail ma original brief tools low = base @ map cloneModelVisibleMessage (drop b original) \<and>
       (b < length original \<longrightarrow> \<not> is_role Tool (original ! b) \<and>
          estimateFresh ma (finalizeWithVerbatimTail ma original brief tools low) tools original \<le> low) \<and>
       (\<forall>i. system_end original \<le> i \<longrightarrow> i < b \<longrightarrow>
          original ! i = None \<or> is_role Tool (original ! i) \<or> \<not> protocolValidSuffix (drop i original) \<or>
          low < estimateFresh ma (base @ map cloneModelVisibleMessage (drop i original)) tools original))"
proof -
  obtain b where b: "finalizeWithVerbatimTail ma original brief tools low = base @ map cloneModelVisibleMessage (drop b original)"
    "system_end original \<le> b" "b \<le> length original" "b < length original \<Longrightarrow> tail_fits ma base original tools low b"
    "\<And>i. system_end original \<le> i \<Longrightarrow> i < b \<Longrightarrow> \<not> tail_fits ma base original tools low i"
    using finalize_tail [OF assms(1,2,4)] by blast
  have "original ! i = None \<or> is_role Tool (original ! i) \<or> \<not> protocolValidSuffix (drop i original) \<or>
      low < estimateFresh ma (base @ map cloneModelVisibleMessage (drop i original)) tools original"
    if "system_end original \<le> i" "i < b" for i
    using b(5) [OF that] unfolding tail_fits_def not_less [symmetric] by blast
  moreover have "\<not> is_role Tool (original ! b)"
    "estimateFresh ma (finalizeWithVerbatimTail ma original brief tools low) tools original \<le> low" if "b < length original"
    using b(1) b(4) [OF that] by (simp_all add: tail_fits_def)
  ultimately show ?thesis
    using b(1-3) by (intro conjI finalize_valid [OF assms(3)] exI [of _ b]) blast+
qed

theorem verbatim_tail_longest_witness:
  "finalizeWithVerbatimTail sample_marshal sample_conversation (UserMessage ''b'') [] 60 =
     [Some (UserMessage ''b''), Some (UserMessage ''again'')] \<and>
   protocolValidSuffix (finalizeWithVerbatimTail sample_marshal sample_conversation (UserMessage ''b'') [] 60)"
proof -
  have "finalizeWithVerbatimTail sample_marshal sample_conversation (UserMessage ''b'') [] 60 =
     [Some (UserMessage ''b''), Some (UserMessage ''again'')]" by code_simp
  moreover have "system_end sample_conversation < length sample_conversation" by code_simp
  then have "protocolValidSuffix (finalizeWithVerbatimTail sample_marshal sample_conversation (UserMessage ''b'') [] 60)"
    using verbatim_tail_longest [OF zero_less_numeral _ UserMessage_simps(2) refl, of sample_conversation] by blast
  ultimately show ?thesis by (rule conjI)
qed

text \<open>
  C10: nothing is forgotten by a compaction. When the recovery succeeds, the exact form of
  the conversation (without reasoning, unless that is kept, and without image data stored
  elsewhere) is in the archive under a digest; the shortened conversation is the leading
  system messages, then a user message whose text names that archive as the exact transcript
  to open, then what is kept word for word; it is valid for the provider's protocol, and one
  entry records the compaction. No file that was there is changed in any case. When the
  recovery fails nothing is recorded.
\<close>

theorem recoverOverflow_archives:
  assumes "recoverOverflow cp original tools failure trigger learn st = (r, st')"
  shows "map_of (cmp_files st) \<subseteq>\<^sub>m map_of (cmp_files st') \<and>
    (case r of
       Inl _ \<Rightarrow> cmp_records st' = cmp_records st
     | Inr final \<Rightarrow> protocolValidSuffix final \<and>
         (\<exists>entry digest content. cmp_records st' = cmp_records st @ [entry] \<and> cr_trigger entry = trigger \<and>
            cr_before entry = length original \<and> cr_after entry = length final \<and>
            cr_reference entry = toolOutputPathPrefix @ digest \<and>
            ma_messages (cp_marshal cp) (map (archivable (cp_persist cp)) original) = Some content \<and>
            map_of (cmp_files st') digest = Some content \<and>
            (\<exists>brief rest before after.
               final = map cloneModelVisibleMessage (take (system_end original) original) @ Some brief # rest \<and>
               ms_role brief = User \<and>
               ms_content brief = before @ ''Exact pre-compaction transcript: '' @ toolOutputPathPrefix @ digest @ after)))"
  using recoverOverflow_effect [OF assms] by (elim conjE) (intro conjI)

theorem recoverOverflow_archives_witness:
  "\<exists>final st'. recoverOverflow sample_compactor sample_conversation []
     \<lparr>fa_kind = ContextOverflow, fa_context_limit = 200, fa_retry_after = 0\<rparr> ''provider_overflow'' True sample_compaction_state =
       (Inr final, st') \<and> map_of (cmp_files st') ''d'' = Some ''questionhiagain'' \<and> protocolValidSuffix final"
proof -
  let ?f = "\<lparr>fa_kind = ContextOverflow, fa_context_limit = 200, fa_retry_after = 0\<rparr>"
  let ?run = "recoverOverflow sample_compactor sample_conversation [] ?f ''provider_overflow'' True sample_compaction_state"
  have "isl (fst ?run) = False" by code_simp
  then obtain final st' where run: "?run = (Inr final, st')" by (cases "?run"; cases "fst ?run") auto
  have "map_of (cmp_files (snd ?run)) ''d'' = Some ''questionhiagain''" by code_simp
  then show ?thesis using recoverOverflow_archives [OF run] run by auto
qed

end
