(* ===== verification/Access.thy ===== *)
theory Access
  imports Context Runtime Compaction
begin

text \<open>
  What an agent, a peer or a specialist may recall of its conversation
  (internal/orchestrator/context_access.go), how a long record is opened in chunks, and what
  the orchestrator records of working views and compactions
  (internal/orchestrator/context_epoch.go).
\<close>

section \<open>Citations\<close>

text \<open>
  \<open>FindAllString\<close> for a literal prefix and a fixed number of characters of a class: the
  leftmost matches, none overlapping another.
\<close>

function find_all :: "string \<Rightarrow> (char \<Rightarrow> bool) \<Rightarrow> nat \<Rightarrow> string \<Rightarrow> string list" where
  "find_all lit cls n s =
     (let body = take n (drop (length lit) s) in
      if s = [] then []
      else if lit \<noteq> [] \<and> prefix lit s \<and> length body = n \<and> list_all cls body
      then (lit @ body) # find_all lit cls n (drop (length lit + n) s)
      else find_all lit cls n (tl s))"
  by pat_completeness auto
termination
  by (relation "measure (\<lambda>(lit, cls, n, s). length s)") auto

declare find_all.simps [simp del]

definition hex_char :: "char \<Rightarrow> bool" where
  "hex_char c \<longleftrightarrow> CHR ''0'' \<le> c \<and> c \<le> CHR ''9'' \<or> CHR ''A'' \<le> c \<and> c \<le> CHR ''F'' \<or> CHR ''a'' \<le> c \<and> c \<le> CHR ''f''"

definition contextReferencePattern :: "string \<Rightarrow> string list" where
  "contextReferencePattern = find_all contextReferencePrefix (\<lambda>c. hex_char c \<or> c = CHR ''-'') 36"

definition contextArtifactPattern :: "string \<Rightarrow> string list" where
  "contextArtifactPattern = find_all toolOutputPathPrefix hex_char 64"

definition explicitContextArtifactReferences :: "string list \<Rightarrow> string list" where
  "explicitContextArtifactReferences texts = rev (remdups (rev (concat (map contextArtifactPattern texts))))"

definition explicitContextRecordIDs :: "(string \<Rightarrow> bool) \<Rightarrow> string list \<Rightarrow> string list" where
  "explicitContextRecordIDs uuid_ok texts =
     rev (remdups (rev (List.map_filter (ParseContextReference uuid_ok) (concat (map contextReferencePattern texts)))))"

section \<open>Scopes\<close>

datatype access_error =
    BadToolOutputReference
  | BadOwner string
  | NotAssigned string
  | NoCollaboration string
  | UnknownOwner string
  | StateFault cause
  | StoreFault store_error
  | OffsetOutside nat
  | OffsetSplits int
  | ChunkTooSmall

definition projection_of :: "runtime \<Rightarrow> (access_error, projection) res" where
  "projection_of r = map_sum StateFault id (fst (read_projection True r))"

definition conversation_ids :: "runtime \<Rightarrow> (access_error, string list) res" where
  "conversation_ids r = map_sum StoreFault (map ss_id) (ConversationSessions (rt_store r) (rt_session r))"

definition owner_parts :: "string \<Rightarrow> string list" where
  "owner_parts owner = split_on (CHR '':'') (trim owner)"

definition peer_owner :: "peer_turn \<Rightarrow> string \<Rightarrow> string" where
  "peer_owner t collaboration =
     join '':'' [''peer'', pts_peer_id (pu_spec t), collaboration, itoa (pts_round (pu_spec t)), itoa (pu_attempt t)]"

definition peer_turns_of :: "projection \<Rightarrow> string \<Rightarrow> string \<Rightarrow> peer_turn list" where
  "peer_turns_of p peer collaboration =
     filter (\<lambda>t. pts_collaboration_id (pu_spec t) = collaboration \<and> pts_peer_id (pu_spec t) = peer) (SortedPeerTurns p)"

definition contextScope :: "(string \<Rightarrow> bool) \<Rightarrow> runtime \<Rightarrow> string \<Rightarrow> (access_error, context_scope) res" where
  "contextScope uuid_ok r owner =
     (let parts = owner_parts owner in
      if length parts < 2 then Inl (BadOwner owner)
      else if parts ! 0 = ''agent'' then
        res_bind (conversation_ids r) (\<lambda>ids.
        Inr \<lparr>cs_sessions = ids, cs_correlations = [], cs_records = [], cs_owners = [], cs_artifacts = [], cs_all = True\<rparr>)
      else res_bind (projection_of r) (\<lambda>p. res_bind (conversation_ids r) (\<lambda>ids.
        if parts ! 0 = ''specialist'' then
          (if length parts < 3 then Inl (BadOwner owner)
           else case map_of (pj_delegations p) (parts ! 2) of
             None \<Rightarrow> Inl (NotAssigned (parts ! 2))
           | Some d \<Rightarrow>
               if ds_specialist_id (dg_spec d) \<noteq> parts ! 1 then Inl (NotAssigned (parts ! 2))
               else let texts = [ds_objective (dg_spec d), ds_context (dg_spec d)]
                    in Inr \<lparr>cs_sessions = ids, cs_correlations = [], cs_records = explicitContextRecordIDs uuid_ok texts,
                         cs_owners = [trim owner], cs_artifacts = explicitContextArtifactReferences texts, cs_all = False\<rparr>)
        else if parts ! 0 = ''peer'' then
          (if length parts < 3 then Inl (BadOwner owner)
           else let turns = peer_turns_of p (parts ! 1) (parts ! 2);
                    texts = (\<lambda>t. [pts_objective (pu_spec t), pts_context (pu_spec t)])
                in if turns = [] then Inl (NoCollaboration (parts ! 2))
                   else Inr \<lparr>cs_sessions = ids, cs_correlations = map (\<lambda>t. pts_id (pu_spec t)) turns,
                          cs_records = concat (map (\<lambda>t. explicitContextRecordIDs uuid_ok (texts t)) turns),
                          cs_owners = map (\<lambda>t. peer_owner t (parts ! 2)) turns,
                          cs_artifacts = concat (map (\<lambda>t. explicitContextArtifactReferences (texts t)) turns), cs_all = True\<rparr>)
        else Inl (UnknownOwner owner))))"

section \<open>Opening\<close>

function valid_utf8 :: "string \<Rightarrow> bool" where
  "valid_utf8 s = (if s = [] then True else if rune_len s = 0 then False else valid_utf8 (drop (rune_len s) s))"
  by pat_completeness auto
termination
  by (relation "measure length") auto

declare valid_utf8.simps [simp del]

definition RuneStart :: "char \<Rightarrow> bool" where
  "RuneStart c \<longleftrightarrow> \<not> cont c"

datatype encoding = Utf8 | Base64

record open_result =
  op_reference :: string
  op_session :: string
  op_sequence :: int
  op_occurred :: string
  op_kind :: string
  op_actor :: string
  op_correlation :: string
  op_causation :: string
  op_digest :: string
  op_count :: nat
  op_start :: nat
  op_end :: nat
  op_has_more :: bool
  op_next :: nat
  op_chunk_digest :: string
  op_encoding :: encoding
  op_content :: string

text \<open>The first boundary of a rune at or before \<open>e\<close>, but not before \<open>offset\<close>.\<close>

fun back_up :: "string \<Rightarrow> nat \<Rightarrow> nat \<Rightarrow> nat" where
  "back_up content offset 0 = 0"
| "back_up content offset (Suc e) =
     (if Suc e > offset \<and> Suc e < length content \<and> \<not> RuneStart (content ! Suc e)
      then back_up content offset e else Suc e)"

definition chunk_end :: "string \<Rightarrow> nat \<Rightarrow> int \<Rightarrow> nat" where
  "chunk_end content offset limit =
     (let e = (if 0 < limit \<and> limit < int (length content - offset) then offset + nat limit else length content)
      in if valid_utf8 content then back_up content offset e else e)"

text \<open>\<open>sha\<close> gives the digest in hexadecimal, \<open>b64\<close> the base64 form.\<close>

definition boundedContextOpen :: "(string \<Rightarrow> string) \<Rightarrow> (string \<Rightarrow> string) \<Rightarrow> open_result \<Rightarrow> string \<Rightarrow> int \<Rightarrow> int \<Rightarrow>
    (access_error, open_result) res" where
  "boundedContextOpen sha b64 result content offset limit =
     (if offset < 0 \<or> offset > int (length content) then Inl (OffsetOutside (length content))
      else let start = nat offset in
        if valid_utf8 content \<and> start < length content \<and> \<not> RuneStart (content ! start) then Inl (OffsetSplits offset)
        else let e = chunk_end content start limit in
          if valid_utf8 content \<and> e = start \<and> start < length content then Inl ChunkTooSmall
          else let chunk = take (e - start) (drop start content) in
            Inr (result\<lparr>op_count := length content, op_start := start, op_end := e, op_has_more := e < length content,
              op_next := (if e < length content then e else 0), op_chunk_digest := sha chunk,
              op_encoding := (if valid_utf8 chunk then Utf8 else Base64),
              op_content := (if valid_utf8 chunk then chunk else b64 chunk)\<rparr>))"

definition opened :: "string \<Rightarrow> string \<Rightarrow> int \<Rightarrow> string \<Rightarrow> string \<Rightarrow> string \<Rightarrow> string \<Rightarrow> string \<Rightarrow> string \<Rightarrow> open_result" where
  "opened reference session sequence occurred k actor correlation causation digest =
     \<lparr>op_reference = reference, op_session = session, op_sequence = sequence, op_occurred = occurred, op_kind = k,
      op_actor = actor, op_correlation = correlation, op_causation = causation, op_digest = digest, op_count = 0, op_start = 0,
      op_end = 0, op_has_more = False, op_next = 0, op_chunk_digest = [], op_encoding = Utf8, op_content = []\<rparr>"

record open_input =
  oi_reference :: string
  oi_offset :: int
  oi_limit :: int

definition openContext :: "environment \<Rightarrow> (string \<Rightarrow> bool) \<Rightarrow> (string \<Rightarrow> string) \<Rightarrow> runtime \<Rightarrow> string \<Rightarrow> open_input \<Rightarrow>
    (access_error, open_result) res" where
  "openContext env uuid_ok b64 r owner input =
     res_bind (contextScope uuid_ok r owner) (\<lambda>scope.
       if IsToolOutputReference (oi_reference input) then
         res_bind (map_sum StoreFault id (ContextArtifactInScope (rt_store r) scope (oi_reference input))) (\<lambda>a.
         boundedContextOpen (pf_sha (en_platform env)) b64
           (opened (ca_reference a) (ca_session a) 0 (rfc3339nano (ca_created a)) ''tool.output.archive'' (ca_owner a) [] [] (ca_digest a))
           (ca_content a) (oi_offset input) (oi_limit input))
       else
         res_bind (map_sum StoreFault id (ContextRecordInScope uuid_ok (rt_store r) scope (oi_reference input))) (\<lambda>c.
         boundedContextOpen (pf_sha (en_platform env)) b64
           (opened (context_reference (cr_id c)) (cr_session c) (cr_sequence c) (rfc3339nano (cr_created c)) (kind_name (cr_kind c))
              (cr_actor c) (cr_correlation c) (cr_causation c) (cr_digest c))
           (cr_content c) (oi_offset input) (oi_limit input)))"

definition searchContext :: "(string \<Rightarrow> bool) \<Rightarrow> fts \<Rightarrow> runtime \<Rightarrow> string \<Rightarrow> string \<Rightarrow> int \<Rightarrow> (access_error, context_match list) res" where
  "searchContext uuid_ok ft r owner query limit =
     res_bind (contextScope uuid_ok r owner) (\<lambda>scope.
     map_sum StoreFault id (SearchContextInScope ft (rt_store r) scope query limit))"

definition browseContext :: "(string \<Rightarrow> bool) \<Rightarrow> (string \<times> string \<Rightarrow> bool) \<Rightarrow> runtime \<Rightarrow> string \<Rightarrow> (string \<times> string) option \<Rightarrow> int \<Rightarrow>
    (access_error, context_match list \<times> (string \<times> string) option) res" where
  "browseContext uuid_ok cursor_ok r owner cursor limit =
     res_bind (contextScope uuid_ok r owner) (\<lambda>scope.
     map_sum StoreFault id (BrowseContextInScope cursor_ok (rt_store r) scope cursor limit))"

definition archiveToolOutput :: "environment \<Rightarrow> runtime \<Rightarrow> string \<Rightarrow> string \<Rightarrow> string \<Rightarrow> (access_error, runtime) res" where
  "archiveToolOutput env r owner reference content =
     (if \<not> IsToolOutputReference reference then Inl BadToolOutputReference
      else case ArchiveContextArtifact (en_platform env) (rt_clock r (rt_ticks r))
          \<lparr>ca_reference = reference, ca_session = rt_session r, ca_owner = owner, ca_content = content, ca_digest = [],
           ca_bytes = 0, ca_created = 0\<rparr> (rt_store r) of
        Inl e \<Rightarrow> Inl (StoreFault e)
      | Inr st \<Rightarrow> Inr (r\<lparr>rt_store := st, rt_ticks := Suc (rt_ticks r)\<rparr>))"

section \<open>Working views and compactions\<close>

text \<open>
  Whether a view says of itself that something was left out. Of two members with the same name
  the last counts.
\<close>

definition archive_mark :: "string \<Rightarrow> json \<Rightarrow> bool" where
  "archive_mark k v \<longleftrightarrow>
     k = ''compacted'' \<and> v = JBool True \<or>
     (k = ''archived_evidence'' \<or> k = ''archived'') \<and> v \<noteq> JNull \<or>
     k = ''archived_rounds'' \<and> (case v of JNum q \<Rightarrow> q > 0 | _ \<Rightarrow> False)"

fun epoch_compacted :: "json \<Rightarrow> bool" and members_compacted :: "(string \<times> json) list \<Rightarrow> bool" and items_compacted :: "json list \<Rightarrow> bool" where
  "epoch_compacted (JArr vs) = items_compacted vs"
| "epoch_compacted (JObj kvs) = members_compacted kvs"
| "epoch_compacted _ = False"
| "members_compacted [] = False"
| "members_compacted ((k, v) # kvs) =
     (k \<notin> set (map fst kvs) \<and> (archive_mark k v \<or> epoch_compacted v) \<or> members_compacted kvs)"
| "items_compacted [] = False"
| "items_compacted (v # vs) = (epoch_compacted v \<or> items_compacted vs)"

definition workingViewWasCompacted :: "environment \<Rightarrow> string \<Rightarrow> bool" where
  "workingViewWasCompacted env prompt = (case en_json env prompt of None \<Rightarrow> False | Some v \<Rightarrow> epoch_compacted v)"

text \<open>\<open>encode\<close> writes the view as JSON text.\<close>

definition commitWorkingView :: "environment \<Rightarrow> (json \<Rightarrow> string) \<Rightarrow> string \<Rightarrow> string \<Rightarrow> int \<Rightarrow> string \<Rightarrow> context_epoch act" where
  "commitWorkingView env encode scope_kind scope_id source_through prompt r =
     (if source_through < 1 then (Inl (LedgerFault (EpochSource source_through)), r)
      else case CommitContextEpoch (en_platform env) (\<lambda>v. en_json env v \<noteq> None) (rt_clock r (rt_ticks r))
          \<lparr>ep_session = rt_session r, ep_scope_kind = scope_kind, ep_scope_id = scope_id, ep_epoch = 0, ep_source = source_through,
           ep_view = encode (JObj [(''prompt'', JStr prompt)]), ep_digest = [], ep_tokens = int (length prompt), ep_created = 0\<rparr>
          (rt_store r) of
        Inl e \<Rightarrow> (Inl (LedgerFault e), r)
      | Inr (epoch, st) \<Rightarrow>
          act_bind (record_event env ContextViewCommitted ''context'' (scope_kind @ '':'' @ scope_id)
            (Some (enc_context_view_committed_data \<lparr>cv_scope_kind = scope_kind, cv_scope_id = scope_id, cv_epoch = ep_epoch epoch,
               cv_source_through_sequence = ep_source epoch, cv_view_digest = ep_digest epoch, cv_estimated_tokens = ep_tokens epoch,
               cv_compacted = workingViewWasCompacted env prompt\<rparr>)))
            (\<lambda>_. act_return epoch) (r\<lparr>rt_store := st, rt_ticks := Suc (rt_ticks r)\<rparr>))"

text \<open>\<open>us_reasoning\<close> are the reasoning tokens among the completion's details.\<close>

definition recordUsage :: "environment \<Rightarrow> cache_usage \<Rightarrow> int \<Rightarrow> string \<Rightarrow> string \<Rightarrow> model \<Rightarrow> message option \<Rightarrow> string \<Rightarrow> unit act" where
  "recordUsage env cache us_reasoning reference purpose spec m correlation =
     (case m of
        None \<Rightarrow> act_return ()
      | Some m \<Rightarrow>
          (case ms_usage m of
             None \<Rightarrow> act_return ()
           | Some u \<Rightarrow>
               record_event env ModelUsage purpose correlation
                 (Some (enc_model_usage_data \<lparr>mu_model = reference @ '':'' @ m_name spec, mu_purpose = purpose,
                    mu_prompt_tokens = us_prompt u,
                    mu_uncached_prompt_tokens = (if cu_reported cache then max 0 (us_prompt u - cu_read cache) else us_prompt u),
                    mu_cached_prompt_tokens = cu_read cache, mu_cache_write_tokens = cu_write cache,
                    mu_cache_miss_tokens = cu_miss cache, mu_cache_usage_reported = cu_reported cache,
                    mu_completion_tokens = us_completion u, mu_reasoning_tokens = us_reasoning, mu_total_tokens = us_total u\<rparr>))))"

definition compactionModel :: "profile \<Rightarrow> string \<Rightarrow> (string \<times> model) option" where
  "compactionModel p owner =
     (let parts = split_on (CHR '':'') owner in
      if length parts < 2 then None
      else let reference =
          (if parts ! 0 = ''agent'' \<or> parts ! 0 = ''peer'' then map_option ag_model (Agent p (parts ! 1))
           else if parts ! 0 = ''specialist'' then map_option sp_model (Specialist p (parts ! 1))
           else None)
        in (case reference of
              None \<Rightarrow> None
            | Some ref \<Rightarrow> map_option (\<lambda>spec. (ref, spec)) (map_of (p_models p) ref)))"

definition recordAgentCompaction :: "environment \<Rightarrow> cache_usage \<Rightarrow> int \<Rightarrow> string \<Rightarrow> compaction_record \<Rightarrow> unit act" where
  "recordAgentCompaction env cache us_reasoning scope entry r =
     act_bind (record_event env ContextAgentCompacted ''context'' scope
       (Some (enc_context_agent_compacted_data \<lparr>cc_scope = scope, cc_trigger = cr_trigger entry,
          cc_transcript_reference = cr_reference entry, cc_messages_before = int (cr_before entry),
          cc_messages_after = int (cr_after entry), cc_estimated_tokens = cr_estimated entry,
          cc_prompt_capacity = cr_capacity entry, cc_high_water = cr_high entry\<rparr>)))
       (\<lambda>_ r1. (case cr_summary entry of
          None \<Rightarrow> (Inr (), r1)
        | Some summary \<Rightarrow>
            (case compactionModel (rt_profile r1) scope of
               None \<Rightarrow> (Inr (), r1)
             | Some (reference, spec) \<Rightarrow>
                 recordUsage env cache us_reasoning reference (''context-compaction:'' @ scope) spec (Some summary) scope r1))) r"

section \<open>Boundaries\<close>

lemma rune_len_le: "rune_len s \<le> length s"
  by (auto simp: rune_len_def split: list.splits)

lemma rune_len_4: "rune_len s \<le> 4"
  by (auto simp: rune_len_def split: list.splits)

lemma rune_len_pos: "rune_len s \<noteq> 0 \<Longrightarrow> s \<noteq> []"
  by (auto simp: rune_len_def)

lemma rune_len_append:
  assumes "rune_len s \<noteq> 0"
  shows "rune_len (take (rune_len s) s @ t) = rune_len s"
proof -
  have one: "rune_len (a # u) = 1 \<Longrightarrow> rune_len (a # t) = 1" for a u
    by (auto simp: rune_len_def split: if_splits list.splits)
  have two: "rune_len (a # b # u) = 2 \<Longrightarrow> rune_len (a # b # t) = 2" for a b u
    by (auto simp: rune_len_def split: if_splits list.splits)
  have three: "rune_len (a # b # c # u) = 3 \<Longrightarrow> rune_len (a # b # c # t) = 3" for a b c u
    by (auto simp: rune_len_def split: if_splits list.splits)
  have four: "rune_len (a # b # c # d # u) = 4 \<Longrightarrow> rune_len (a # b # c # d # t) = 4" for a b c d u
    by (auto simp: rune_len_def split: if_splits)
  consider "rune_len s = 1" | "rune_len s = 2" | "rune_len s = 3" | "rune_len s = 4"
    using assms rune_len_4 [of s] by linarith
  then show ?thesis
  proof cases
    case 1
    then obtain a u where "s = a # u" using rune_len_le [of s] by (cases s) auto
    then show ?thesis using 1 one by simp
  next
    case 2
    then obtain a b u where "s = a # b # u" using rune_len_le [of s] by (auto simp: numeral_2_eq_2 Suc_le_length_iff)
    then show ?thesis using 2 two by simp
  next
    case 3
    then obtain a b c u where "s = a # b # c # u" using rune_len_le [of s] by (auto simp: numeral_3_eq_3 Suc_le_length_iff)
    then show ?thesis using 3 three by simp
  next
    case 4
    then have "4 \<le> length s" using rune_len_le [of s] by simp
    then obtain a b c d u where "s = a # b # c # d # u" by (auto simp: numeral_eq_Suc Suc_le_length_iff)
    then show ?thesis using 4 four by simp
  qed
qed

text \<open>A rune starts with a start byte and goes on with continuation bytes.\<close>

lemma high_not_cont: "CHR 0xC2 \<le> c \<Longrightarrow> \<not> cont c" "c < CHR 0x80 \<Longrightarrow> \<not> cont c"
  by (auto simp: cont_def less_eq_char_def less_char_def)

lemma rune_shape: "rune_len s \<noteq> 0 \<Longrightarrow> RuneStart (s ! 0) \<and> (\<forall>i. 0 < i \<longrightarrow> i < rune_len s \<longrightarrow> \<not> RuneStart (s ! i))"
proof -
  assume pos: "rune_len s \<noteq> 0"
  then obtain a t where s: "s = a # t" by (cases s) (auto simp: rune_len_def)
  have "RuneStart a"
  proof (cases "a < CHR 0x80")
    case False
    then have "CHR 0xC2 \<le> a" using pos
      by (auto simp: s rune_len_def less_eq_char_def split: if_splits)
    then show ?thesis by (simp add: RuneStart_def high_not_cont)
  qed (simp add: RuneStart_def high_not_cont)
  moreover have "cont (s ! i)" if "0 < i" "i < rune_len s" for i
  proof -
    have "i = 1 \<or> i = 2 \<or> i = 3" using that rune_len_4 [of s] by linarith
    then show ?thesis using that by (auto simp: s rune_len_def split: list.splits if_splits)
  qed
  ultimately show ?thesis by (simp add: s RuneStart_def)
qed

lemma valid_Nil [simp]: "valid_utf8 []"
  by (simp add: valid_utf8.simps)

lemma valid_unfold: "valid_utf8 s \<Longrightarrow> s \<noteq> [] \<Longrightarrow> rune_len s \<noteq> 0 \<and> valid_utf8 (drop (rune_len s) s)"
  by (subst (asm) valid_utf8.simps) (simp split: if_splits)

lemma valid_cons: "rune_len s \<noteq> 0 \<Longrightarrow> valid_utf8 t \<Longrightarrow> valid_utf8 (take (rune_len s) s @ t)"
  using rune_len_append [of s t] rune_len_pos [of s] rune_len_le [of s]
  by (subst valid_utf8.simps) simp

text \<open>A place in a text where no rune is split.\<close>

definition boundary :: "string \<Rightarrow> nat \<Rightarrow> bool" where
  "boundary s i \<longleftrightarrow> i = length s \<or> i < length s \<and> RuneStart (s ! i)"

lemma boundary_valid: "valid_utf8 s \<Longrightarrow> boundary s i \<Longrightarrow> valid_utf8 (take i s) \<and> valid_utf8 (drop i s)"
proof (induction s arbitrary: i rule: valid_utf8.induct)
  case (1 s)
  show ?case
  proof (cases "s = [] \<or> i = 0")
    case False
    let ?n = "rune_len s"
    have n: "?n \<noteq> 0" "valid_utf8 (drop ?n s)" using valid_unfold "1.prems"(1) False by blast+
    have le: "?n \<le> i"
    proof (rule ccontr)
      assume "\<not> ?n \<le> i"
      then have "\<not> RuneStart (s ! i)" "i < length s" using rune_shape [OF n(1)] False rune_len_le [of s] by auto
      then show False using "1.prems"(2) by (simp add: boundary_def)
    qed
    have "boundary (drop ?n s) (i - ?n)" using "1.prems"(2) le by (auto simp: boundary_def)
    with "1.IH" n False have rest: "valid_utf8 (take (i - ?n) (drop ?n s))" "valid_utf8 (drop (i - ?n) (drop ?n s))" by blast+
    have "take i s = take ?n s @ take (i - ?n) (drop ?n s)" by (metis le le_add_diff_inverse take_add)
    then show ?thesis using valid_cons [OF n(1) rest(1)] rest(2) le by simp
  qed (use "1.prems" in auto)
qed

lemma next_boundary: "valid_utf8 s \<Longrightarrow> s \<noteq> [] \<Longrightarrow> boundary s (rune_len s) \<and> 0 < rune_len s"
proof -
  assume "valid_utf8 s" "s \<noteq> []"
  then have n: "rune_len s \<noteq> 0" and rest: "valid_utf8 (drop (rune_len s) s)" using valid_unfold by blast+
  have "boundary s (rune_len s)"
  proof (cases "drop (rune_len s) s = []")
    case True
    then show ?thesis using rune_len_le [of s] by (simp add: boundary_def)
  next
    case False
    then have "rune_len (drop (rune_len s) s) \<noteq> 0" using valid_unfold [OF rest] by blast
    from rune_shape [OF this] False show ?thesis by (simp add: boundary_def)
  qed
  then show ?thesis using n by simp
qed

lemma back_up_le: "back_up content offset e \<le> e"
  by (induction content offset e rule: back_up.induct) (auto simp: le_SucI)

lemma back_up_ge: "offset \<le> e \<Longrightarrow> offset \<le> back_up content offset e"
  by (induction content offset e rule: back_up.induct) (auto simp: le_Suc_eq)

lemma back_up_boundary: "offset \<le> e \<Longrightarrow> e \<le> length content \<Longrightarrow> boundary content offset \<Longrightarrow> boundary content (back_up content offset e)"
proof (induction content offset e rule: back_up.induct)
  case (2 content offset e)
  then show ?case by (cases "offset = Suc e") (auto simp: boundary_def)
qed simp

lemma back_up_keeps: "boundary content p \<Longrightarrow> offset < p \<Longrightarrow> p \<le> e \<Longrightarrow> e \<le> length content \<Longrightarrow> p \<le> back_up content offset e"
proof (induction content offset e rule: back_up.induct)
  case (2 content offset e)
  then show ?case by (cases "p = Suc e") (auto simp: boundary_def)
qed simp

lemma chunk_end_range: "offset \<le> length content \<Longrightarrow> offset \<le> chunk_end content offset limit \<and> chunk_end content offset limit \<le> length content"
  using back_up_le back_up_ge
  by (auto simp: chunk_end_def Let_def intro: order_trans [OF back_up_le])

section \<open>Reading on\<close>

lemma chunk_progress:
  assumes "boundedContextOpen sha b64 result content offset limit = Inr res" and "op_has_more res"
  shows "0 \<le> offset \<and> nat offset < op_next res \<and> op_next res < length content"
proof -
  let ?e = "chunk_end content (nat offset) limit"
  have o: "0 \<le> offset" "nat offset \<le> length content" "?e < length content" "op_next res = ?e"
    "valid_utf8 content \<longrightarrow> ?e \<noteq> nat offset \<or> \<not> nat offset < length content"
    using assms by (auto simp: boundedContextOpen_def Let_def split: if_splits)
  have "nat offset \<le> ?e" using chunk_end_range [OF o(2)] by blast
  moreover have "?e \<noteq> nat offset"
  proof (cases "valid_utf8 content")
    case False
    then show ?thesis using o(2,3) by (auto simp: chunk_end_def split: if_splits)
  qed (use o(3,5) \<open>nat offset \<le> ?e\<close> in auto)
  ultimately show ?thesis using o by simp
qed

text \<open>A reader that follows the offsets it is given until there is no more.\<close>

function open_walk :: "(string \<Rightarrow> string) \<Rightarrow> (string \<Rightarrow> string) \<Rightarrow> open_result \<Rightarrow> string \<Rightarrow> int \<Rightarrow> int \<Rightarrow>
    (access_error, open_result list) res" where
  "open_walk sha b64 result content limit offset =
     (case boundedContextOpen sha b64 result content offset limit of
        Inl e \<Rightarrow> Inl e
      | Inr res \<Rightarrow>
          if op_has_more res
          then res_bind (open_walk sha b64 result content limit (int (op_next res))) (\<lambda>rest. Inr (res # rest))
          else Inr [res])"
  by pat_completeness auto
termination
proof (relation "measure (\<lambda>(sha, b64, result, content, limit, offset). length content - nat offset)", goal_cases)
  case (2 sha b64 result content limit offset res)
  then show ?case using chunk_progress [of sha b64 result content offset limit res] by auto
qed simp

declare open_walk.simps [simp del]

lemma chunk_of_valid:
  assumes "valid_utf8 content" and "boundary content start" and "start < length content" and "4 \<le> limit"
  shows "start < chunk_end content start limit \<and> boundary content (chunk_end content start limit) \<and>
    int (chunk_end content start limit - start) \<le> limit"
proof -
  define e where "e = (if 0 < limit \<and> limit < int (length content - start) then start + nat limit else length content)"
  have e: "start < e" "e \<le> length content" "int (e - start) \<le> limit" "e = length content \<or> start + 4 \<le> e"
    using assms(3,4) by (auto simp: e_def)
  have eq: "chunk_end content start limit = back_up content start e" using assms(1) by (simp add: chunk_end_def e_def)
  have rest: "valid_utf8 (drop start content)" "drop start content \<noteq> []" using boundary_valid [OF assms(1,2)] assms(3) by simp_all
  let ?n = "rune_len (drop start content)"
  have n: "boundary (drop start content) ?n" "0 < ?n" using next_boundary [OF rest] by simp_all
  have "boundary content (start + ?n)" using n(1) assms(3) by (auto simp: boundary_def)
  moreover have "start + ?n \<le> e" using e(4) rune_len_4 [of "drop start content"] rune_len_le [of "drop start content"] assms(3) by auto
  ultimately have "start + ?n \<le> back_up content start e" using back_up_keeps n(2) e(2) by simp
  then show ?thesis
    using back_up_boundary [of start e content] back_up_le [of content start e] e assms(2) n(2) unfolding eq by linarith
qed

lemma boundary_chunk_valid:
  assumes "valid_utf8 content" and "boundary content i" and "boundary content j" and "i \<le> j"
  shows "valid_utf8 (take (j - i) (drop i content))"
proof -
  have "valid_utf8 (drop i content)" using boundary_valid [OF assms(1,2)] by simp
  moreover have "boundary (drop i content) (j - i)" using assms(3,4) by (auto simp: boundary_def)
  ultimately show ?thesis using boundary_valid by blast
qed

lemma walk_valid:
  "valid_utf8 content \<Longrightarrow> 4 \<le> limit \<Longrightarrow> 0 \<le> offset \<Longrightarrow> boundary content (nat offset) \<Longrightarrow>
   \<exists>pages. open_walk sha b64 result content limit offset = Inr pages \<and> concat (map op_content pages) = drop (nat offset) content \<and>
     list_all (\<lambda>p. op_encoding p = Utf8 \<and> int (length (op_content p)) \<le> limit) pages"
proof (induction sha b64 result content limit offset rule: open_walk.induct)
  case (1 sha b64 result content limit offset)
  let ?start = "nat offset" and ?e = "chunk_end content (nat offset) limit"
  have le: "?start \<le> length content" using "1.prems"(4) by (auto simp: boundary_def)
  have e: "?start \<le> ?e" "?e \<le> length content" using chunk_end_range [OF le] by simp_all
  have more: "?start < length content \<Longrightarrow> ?start < ?e \<and> boundary content ?e \<and> int (?e - ?start) \<le> limit"
    by (rule chunk_of_valid [OF "1.prems"(1,4) _ "1.prems"(2)])
  have be: "boundary content ?e" using more e by (cases "?start < length content") (auto simp: boundary_def)
  have len: "int (?e - ?start) \<le> limit"
  proof (cases "?start < length content")
    case False
    then have "?e - ?start = 0" using e by simp
    then show ?thesis using "1.prems"(2) by simp
  qed (use more in blast)
  let ?chunk = "take (?e - ?start) (drop ?start content)"
  have v: "valid_utf8 ?chunk" by (rule boundary_chunk_valid [OF "1.prems"(1,4) be e(1)])
  have checks: "\<not> (offset < 0 \<or> offset > int (length content))"
    "\<not> (valid_utf8 content \<and> ?start < length content \<and> \<not> RuneStart (content ! ?start))"
    "\<not> (valid_utf8 content \<and> ?e = ?start \<and> ?start < length content)"
    using "1.prems"(3,4) le more by (auto simp: boundary_def)
  obtain res where opens: "boundedContextOpen sha b64 result content offset limit = Inr res"
    and res: "op_content res = ?chunk" "op_encoding res = Utf8" "op_has_more res = (?e < length content)" "?e < length content \<longrightarrow> op_next res = ?e"
    unfolding boundedContextOpen_def Let_def using checks v by (simp only: if_False) simp
  have "int (length ?chunk) \<le> limit" using len by simp
  then have short: "op_encoding res = Utf8 \<and> int (length (op_content res)) \<le> limit" unfolding res(1,2) by blast
  show ?case
  proof (cases "op_has_more res")
    case True
    then have nxt: "op_next res = ?e" using res by simp
    obtain pages where pages: "open_walk sha b64 result content limit (int (op_next res)) = Inr pages"
      "concat (map op_content pages) = drop ?e content" "list_all (\<lambda>p. op_encoding p = Utf8 \<and> int (length (op_content p)) \<le> limit) pages"
      using "1.IH" [OF opens True "1.prems"(1,2)] be nxt by auto
    have "?chunk @ drop ?e content = drop ?start content"
      using append_take_drop_id [of "?e - ?start" "drop ?start content"] e(1) by simp
    then have "concat (map op_content (res # pages)) = drop ?start content" using pages(2) res(1) by simp
    moreover have "list_all (\<lambda>p. op_encoding p = Utf8 \<and> int (length (op_content p)) \<le> limit) (res # pages)"
      using pages(3) short by (simp only: list.pred_inject)
    moreover have "open_walk sha b64 result content limit offset = Inr (res # pages)"
      using pages(1) opens True by (simp add: open_walk.simps [of sha b64 result content limit offset])
    ultimately show ?thesis by blast
  next
    case False
    then have "?chunk = drop ?start content" using res e by simp
    then have "concat (map op_content [res]) = drop ?start content" using res(1) by simp
    moreover have "list_all (\<lambda>p. op_encoding p = Utf8 \<and> int (length (op_content p)) \<le> limit) [res]"
      using short by (simp only: list.pred_inject)
    moreover have "open_walk sha b64 result content limit offset = Inr [res]"
      using opens False by (simp add: open_walk.simps [of sha b64 result content limit offset])
    ultimately show ?thesis by blast
  qed
qed

section \<open>What may be recalled\<close>

lemma opened_session: "boundedContextOpen sha b64 result content offset limit = Inr res \<Longrightarrow>
    op_session res = op_session result \<and> op_reference res = op_reference result \<and> op_actor res = op_actor result"
  by (auto simp: boundedContextOpen_def Let_def split: if_splits)

lemma found_record:
  assumes "ContextRecordInScope uuid_ok st scope reference = Inr c"
  shows "c \<in> set (st_records st) \<and> may_read scope c"
proof -
  obtain i where "find (\<lambda>r. cr_id r = i \<and> may_read scope r) (st_records st) = Some c"
    using assms by (auto simp: ContextRecordInScope_def contextScopePredicate_iff split: option.splits if_splits)
  then show ?thesis by (auto dest: find_SomeD)
qed

lemma found_artifact:
  assumes "ContextArtifactInScope st scope reference = Inr a"
  shows "a \<in> set (st_context_artifacts st) \<and> may_read_artifact scope a"
proof -
  have "find (\<lambda>a. ca_reference a = trim reference \<and> may_read_artifact scope a) (st_context_artifacts st) = Some a"
    using assms by (auto simp: ContextArtifactInScope_def contextArtifactScopePredicate_iff split: option.splits if_splits)
  then show ?thesis by (auto dest: find_SomeD)
qed

lemma scope_sessions: "contextScope uuid_ok r owner = Inr scope \<Longrightarrow> conversation_ids r = Inr (cs_sessions scope)"
  by (auto simp: contextScope_def Let_def res_bind_Inr_iff split: if_splits option.splits)

text \<open>The scope of a specialist's invocation: its own archives, and what its caller cited.\<close>

lemma scope_specialist:
  assumes "contextScope uuid_ok r owner = Inr scope" and "owner_parts owner ! 0 = ''specialist''"
  shows "\<exists>p d. projection_of r = Inr p \<and> map_of (pj_delegations p) (owner_parts owner ! 2) = Some d \<and>
    ds_specialist_id (dg_spec d) = owner_parts owner ! 1 \<and> \<not> cs_all scope \<and> cs_correlations scope = [] \<and>
    cs_records scope = explicitContextRecordIDs uuid_ok [ds_objective (dg_spec d), ds_context (dg_spec d)] \<and>
    cs_owners scope = [trim owner] \<and>
    cs_artifacts scope = explicitContextArtifactReferences [ds_objective (dg_spec d), ds_context (dg_spec d)]"
  using assms by (auto simp: contextScope_def Let_def res_bind_Inr_iff split: if_splits option.splits)

text \<open>The delegation a specialist's invocation works on, and what it holds of the opened record.\<close>

definition given_to_specialist :: "(string \<Rightarrow> bool) \<Rightarrow> runtime \<Rightarrow> string \<Rightarrow> open_input \<Rightarrow> open_result \<Rightarrow> bool" where
  "given_to_specialist uuid_ok r owner input res \<longleftrightarrow>
     (\<exists>p d. projection_of r = Inr p \<and> map_of (pj_delegations p) (owner_parts owner ! 2) = Some d \<and>
         ds_specialist_id (dg_spec d) = owner_parts owner ! 1 \<and>
         (if IsToolOutputReference (oi_reference input)
          then listed (op_actor res) [trim owner] \<or>
               listed (op_reference res) (explicitContextArtifactReferences [ds_objective (dg_spec d), ds_context (dg_spec d)])
          else \<exists>i. op_reference res = context_reference i \<and>
               listed i (explicitContextRecordIDs uuid_ok [ds_objective (dg_spec d), ds_context (dg_spec d)])))"

lemma openContext_artifact:
  assumes "openContext env uuid_ok b64 r owner input = Inr res" and "contextScope uuid_ok r owner = Inr scope"
    and "IsToolOutputReference (oi_reference input)"
  shows "\<exists>a. ContextArtifactInScope (rt_store r) scope (oi_reference input) = Inr a \<and>
    op_session res = ca_session a \<and> op_reference res = ca_reference a \<and> op_actor res = ca_owner a"
proof (cases "ContextArtifactInScope (rt_store r) scope (oi_reference input)")
  case (Inr a)
  then show ?thesis using assms by (auto simp: openContext_def opened_def dest!: opened_session)
qed (use assms in \<open>simp add: openContext_def\<close>)

lemma openContext_record:
  assumes "openContext env uuid_ok b64 r owner input = Inr res" and "contextScope uuid_ok r owner = Inr scope"
    and "\<not> IsToolOutputReference (oi_reference input)"
  shows "\<exists>c. ContextRecordInScope uuid_ok (rt_store r) scope (oi_reference input) = Inr c \<and>
    op_session res = cr_session c \<and> op_reference res = context_reference (cr_id c)"
proof (cases "ContextRecordInScope uuid_ok (rt_store r) scope (oi_reference input)")
  case (Inr a)
  then show ?thesis using assms by (auto simp: openContext_def opened_def dest!: opened_session)
qed (use assms in \<open>simp add: openContext_def\<close>)

section \<open>Properties\<close>

text \<open>
  C37: reading a long record in chunks gives the whole record. A reader that opens a record of
  valid UTF-8 with a limit of at least four bytes and follows the offsets it is given always
  comes to an end without an error; every chunk is text, within the limit, and the chunks
  in order are the record.
\<close>

theorem chunks_are_whole:
  assumes "valid_utf8 content" and "4 \<le> limit"
  shows "\<exists>pages. open_walk sha b64 result content limit 0 = Inr pages \<and> concat (map op_content pages) = content \<and>
    list_all (\<lambda>p. op_encoding p = Utf8 \<and> int (length (op_content p)) \<le> limit) pages"
proof -
  have "boundary content (nat 0)"
  proof (cases "content = []")
    case False
    then have "rune_len content \<noteq> 0" using valid_unfold [OF assms(1)] by blast
    then show ?thesis using rune_shape False by (simp add: boundary_def)
  qed (simp add: boundary_def)
  from walk_valid [OF assms order_refl this] show ?thesis by simp
qed

theorem chunks_are_whole_witness:
  "\<exists>pages. open_walk id id (opened [] [] 0 [] [] [] [] [] []) [CHR ''a'', CHR 0xC3, CHR 0xA9, CHR ''b'', CHR ''c''] 4 0 = Inr pages \<and>
     concat (map op_content pages) = [CHR ''a'', CHR 0xC3, CHR 0xA9, CHR ''b'', CHR ''c'']"
proof -
  have "valid_utf8 [CHR ''a'', CHR 0xC3, CHR 0xA9, CHR ''b'', CHR ''c'']" by code_simp
  from chunks_are_whole [OF this, of 4 id id "opened [] [] 0 [] [] [] [] [] []"] show ?thesis by fastforce
qed

text \<open>
  C12: nothing outside the conversation can be recalled, and a specialist recalls only what it
  was given. Whatever opens belongs to a session of the conversation of the running session.
  If a specialist's invocation opens it, then either it is the invocation's own archive or
  the objective or the context of its delegation cites it.
\<close>

theorem recall_confined:
  assumes "openContext env uuid_ok b64 r owner input = Inr res"
  shows "\<exists>ids. conversation_ids r = Inr ids \<and> listed (op_session res) ids \<and>
    (owner_parts owner ! 0 = ''specialist'' \<longrightarrow> given_to_specialist uuid_ok r owner input res)"
proof -
  obtain scope where scope: "contextScope uuid_ok r owner = Inr scope"
    using assms by (auto simp: openContext_def res_bind_Inr_iff)
  note ids = scope_sessions [OF scope] and special = scope_specialist [OF scope]
  show ?thesis
  proof (cases "IsToolOutputReference (oi_reference input)")
    case True
    from openContext_artifact [OF assms scope this] obtain a where a: "ContextArtifactInScope (rt_store r) scope (oi_reference input) = Inr a"
      and res: "op_session res = ca_session a" "op_reference res = ca_reference a" "op_actor res = ca_owner a" by blast
    have may: "may_read_artifact scope a" using found_artifact [OF a] by blast
    show ?thesis
    proof (intro exI conjI impI, rule ids)
      show "listed (op_session res) (cs_sessions scope)" using may by (simp add: may_read_artifact_def res)
      assume "owner_parts owner ! 0 = ''specialist''"
      from special [OF this] may True res show "given_to_specialist uuid_ok r owner input res"
        unfolding may_read_artifact_def given_to_specialist_def by auto
    qed
  next
    case False
    from openContext_record [OF assms scope this] obtain c where c: "ContextRecordInScope uuid_ok (rt_store r) scope (oi_reference input) = Inr c"
      and res: "op_session res = cr_session c" "op_reference res = context_reference (cr_id c)" by blast
    have may: "may_read scope c" using found_record [OF c] by blast
    show ?thesis
    proof (intro exI conjI impI, rule ids)
      show "listed (op_session res) (cs_sessions scope)" using may by (simp add: may_read_def res)
      assume "owner_parts owner ! 0 = ''specialist''"
      from special [OF this] obtain p d where pd: "projection_of r = Inr p" "map_of (pj_delegations p) (owner_parts owner ! 2) = Some d"
        "ds_specialist_id (dg_spec d) = owner_parts owner ! 1" "\<not> cs_all scope" "cs_correlations scope = []"
        "cs_records scope = explicitContextRecordIDs uuid_ok [ds_objective (dg_spec d), ds_context (dg_spec d)]" by blast
      have "listed (cr_id c) (cs_records scope)" using may pd(4,5) by (auto simp: may_read_def listed_def)
      then show "given_to_specialist uuid_ok r owner input res"
        using pd res(2) False unfolding given_to_specialist_def by auto
    qed
  qed
qed

definition sample_reader :: runtime where
  "sample_reader = \<lparr>rt_store = sample_archive, rt_session = ''s'', rt_profile = sample_profile, rt_history = [], rt_active = {}, rt_cut = {},
     rt_launched = {}, rt_tasks = [], rt_signals = [], rt_loop = False, rt_stopped = False, rt_finalizing = False, rt_user_cancelled = False,
     rt_closed = False, rt_ids = [], rt_clock = (\<lambda>n. 0), rt_ticks = 0\<rparr>"

definition reader_environment :: environment where
  "reader_environment = \<lparr>en_platform = sample_platform, en_json = (\<lambda>s. None), en_text = (\<lambda>e. [])\<rparr>"

lemma sample_conversation: "conversation_ids sample_reader = Inr [''s'']"
  by (simp add: conversation_ids_def ConversationSessions_def get_session_def session_row_def sample_reader_def sample_archive_def
      sample_store_def empty_store_def sample_row_def)

lemma opens_from_start: "\<exists>res. boundedContextOpen sha b64 result content 0 0 = Inr res"
proof -
  have "back_up content 0 (length content) = length content" by (cases "length content") simp_all
  moreover have "RuneStart (content ! 0)" if "valid_utf8 content" "content \<noteq> []"
    using rune_shape valid_unfold [OF that] by blast
  ultimately show ?thesis by (auto simp: boundedContextOpen_def Let_def chunk_end_def)
qed

abbreviation sample_reference :: string where
  "sample_reference \<equiv> context_reference (''e'' @ itoa 1)"

lemma sample_scope: "contextScope (\<lambda>i. True) sample_reader ''agent:lead'' =
    Inr \<lparr>cs_sessions = [''s''], cs_correlations = [], cs_records = [], cs_owners = [], cs_artifacts = [], cs_all = True\<rparr>"
proof -
  have "trim ''agent:lead'' = ''agent:lead''" by (simp add: trim_plain plain_byte_def less_char_def)
  then show ?thesis by (simp add: contextScope_def owner_parts_def sample_conversation)
qed

lemma sample_opens:
  "\<exists>base content. \<forall>offset limit. openContext reader_environment (\<lambda>i. True) id sample_reader ''agent:lead''
       \<lparr>oi_reference = sample_reference, oi_offset = offset, oi_limit = limit\<rparr> =
     boundedContextOpen (pf_sha sample_platform) id base content offset limit"
proof -
  have trims: "trim ''s'' = ''s''" by (simp add: trim_plain plain_byte_def less_char_def)
  have "CHR ''/'' \<notin> set (''e'' @ itoa 1)" by (simp add: itoa_def digits_of_small digit_chars)
  then have ref: "ParseContextReference (\<lambda>i. True) sample_reference = Some (''e'' @ itoa 1)"
    by (simp add: ParseContextReference_def context_reference_def path_unescape_escape Let_def
        trim_context_reference [unfolded context_reference_def])
  have notool: "\<not> IsToolOutputReference sample_reference"
    by (simp add: IsToolOutputReference_def) (simp add: context_reference_def contextReferencePrefix_def toolOutputPathPrefix_def)
  obtain c where c: "ContextRecordInScope (\<lambda>i. True) sample_archive
      \<lparr>cs_sessions = [''s''], cs_correlations = [], cs_records = [], cs_owners = [], cs_artifacts = [], cs_all = True\<rparr> sample_reference = Inr c"
    unfolding ContextRecordInScope_def ref
    by (simp add: contextScopePredicate_iff listed_def trims may_read_def)
      (simp add: sample_archive_def record_of_def sample_event_def)
  show ?thesis
    using c unfolding openContext_def sample_scope
    by (simp add: notool [simplified] sample_reader_def reader_environment_def) blast
qed

theorem recall_confined_witness:
  "\<exists>res ids. openContext reader_environment (\<lambda>i. True) id sample_reader ''agent:lead''
       \<lparr>oi_reference = sample_reference, oi_offset = 0, oi_limit = 0\<rparr> = Inr res \<and>
     conversation_ids sample_reader = Inr ids \<and> listed (op_session res) ids"
proof -
  obtain res where res: "openContext reader_environment (\<lambda>i. True) id sample_reader ''agent:lead''
      \<lparr>oi_reference = sample_reference, oi_offset = 0, oi_limit = 0\<rparr> = Inr res"
    using sample_opens opens_from_start by metis
  from recall_confined [OF res] show ?thesis using res by blast
qed

end
