(* ===== verification/Recovery.thy ===== *)
theory Recovery
  imports Registry Access
begin

text \<open>
  What stands between an agent and its tools and models: failed tool calls as results
  (internal/tooling/recovery.go), the buffer that joins streamed text into events
  (internal/orchestrator/event_buffer.go), the record of each request
  (internal/orchestrator/model_observer.go), and answers that must be JSON
  (internal/orchestrator/model.go).
\<close>

section \<open>Failed tool calls\<close>

text \<open>An error with its text, and whether it says that the context was cancelled or timed out.\<close>

record tool_error =
  te_text :: string
  te_context :: bool

definition recoverableToolErrorPrefix :: string where
  "recoverableToolErrorPrefix = ''ALT_TOOL_ERROR: ''"

fun index_of :: "string \<Rightarrow> string \<Rightarrow> nat option" where
  "index_of w [] = (if w = [] then Some 0 else None)"
| "index_of w (c # s) = (if prefix w (c # s) then Some 0 else map_option Suc (index_of w s))"

definition ParseRecoverableToolError :: "string \<Rightarrow> string option" where
  "ParseRecoverableToolError result =
     map_option (\<lambda>i. trim (drop (i + length recoverableToolErrorPrefix) result)) (index_of recoverableToolErrorPrefix result)"

text \<open>\<open>ended\<close>: the context of the call has ended by now.\<close>

definition fatalToolError :: "bool \<Rightarrow> tool_error \<Rightarrow> bool" where
  "fatalToolError ended err \<longleftrightarrow> ended \<or> te_context err"

definition error_text :: "tool_error \<Rightarrow> string" where
  "error_text err = recoverableToolErrorPrefix @ te_text err"

datatype result_part = TextPart string | OtherPart string

type_synonym tool_result = "result_part list"

definition toolErrorResult :: "tool_error \<Rightarrow> tool_result" where
  "toolErrorResult err = [TextPart (error_text err)]"

definition WrapInvokableToolCall :: "(string \<Rightarrow> (tool_error, string) res) \<Rightarrow> bool \<Rightarrow> string \<Rightarrow> (tool_error, string) res" where
  "WrapInvokableToolCall endpoint ended arguments =
     (case endpoint arguments of
        Inr result \<Rightarrow> Inr result
      | Inl err \<Rightarrow> if fatalToolError ended err then Inl err else Inr (error_text err))"

definition WrapEnhancedInvokableToolCall :: "(string \<Rightarrow> (tool_error, tool_result) res) \<Rightarrow> bool \<Rightarrow> string \<Rightarrow> (tool_error, tool_result) res" where
  "WrapEnhancedInvokableToolCall endpoint ended argument =
     (case endpoint argument of
        Inr result \<Rightarrow> Inr result
      | Inl err \<Rightarrow> if fatalToolError ended err then Inl err else Inr (toolErrorResult err))"

text \<open>
  The copying loop: a stream is the list of what \<open>Recv\<close> gives until its end. \<open>ended\<close> tells of
  the context at each step; the reader may close the stream after \<open>room\<close> more chunks.
\<close>

fun recover_stream :: "(tool_error \<Rightarrow> 'a) \<Rightarrow> (nat \<Rightarrow> bool) \<Rightarrow> nat \<Rightarrow> (tool_error, 'a) res list \<Rightarrow> (tool_error, 'a) res list" where
  "recover_stream as_result ended room [] = []"
| "recover_stream as_result ended room (Inl err # source) =
     (if room = 0 then [] else if fatalToolError (ended 0) err then [Inl err] else [Inr (as_result err)])"
| "recover_stream as_result ended room (Inr chunk # source) =
     (if room = 0 then [] else Inr chunk # recover_stream as_result (\<lambda>n. ended (Suc n)) (room - 1) source)"

definition recoverStringStream :: "(nat \<Rightarrow> bool) \<Rightarrow> nat \<Rightarrow> (tool_error, string) res list \<Rightarrow> (tool_error, string) res list" where
  "recoverStringStream = recover_stream error_text"

definition recoverEnhancedStream :: "(nat \<Rightarrow> bool) \<Rightarrow> nat \<Rightarrow> (tool_error, tool_result) res list \<Rightarrow> (tool_error, tool_result) res list" where
  "recoverEnhancedStream = recover_stream toolErrorResult"

definition WrapStreamableToolCall :: "(string \<Rightarrow> (tool_error, (tool_error, string) res list) res) \<Rightarrow> bool \<Rightarrow> (nat \<Rightarrow> bool) \<Rightarrow> nat \<Rightarrow> string \<Rightarrow>
    (tool_error, (tool_error, string) res list) res" where
  "WrapStreamableToolCall endpoint ended later room arguments =
     (case endpoint arguments of
        Inl err \<Rightarrow> if fatalToolError ended err then Inl err else Inr [Inr (error_text err)]
      | Inr stream \<Rightarrow> Inr (recoverStringStream later room stream))"

definition WrapEnhancedStreamableToolCall :: "(string \<Rightarrow> (tool_error, (tool_error, tool_result) res list) res) \<Rightarrow> bool \<Rightarrow> (nat \<Rightarrow> bool) \<Rightarrow> nat \<Rightarrow> string \<Rightarrow>
    (tool_error, (tool_error, tool_result) res list) res" where
  "WrapEnhancedStreamableToolCall endpoint ended later room argument =
     (case endpoint argument of
        Inl err \<Rightarrow> if fatalToolError ended err then Inl err else Inr [Inr (toolErrorResult err)]
      | Inr stream \<Rightarrow> Inr (recoverEnhancedStream later room stream))"

section \<open>Text into events\<close>

text \<open>A flush empties the buffer before it emits: what an emission fails on is gone.\<close>

record text_buffer =
  tb_limit :: nat
  tb_value :: string

definition Flush :: "text_buffer \<Rightarrow> string option \<times> text_buffer" where
  "Flush b = (if tb_value b = [] then (None, b) else (Some (tb_value b), b\<lparr>tb_value := []\<rparr>))"

definition Add :: "string \<Rightarrow> text_buffer \<Rightarrow> string option \<times> text_buffer" where
  "Add v b =
     (if v = [] then (None, b)
      else let b1 = b\<lparr>tb_value := tb_value b @ v\<rparr> in
        if length (tb_value b1) < tb_limit b then (None, b1) else Flush b1)"

fun add_all :: "string list \<Rightarrow> text_buffer \<Rightarrow> string list \<times> text_buffer" where
  "add_all [] b = ([], b)"
| "add_all (v # vs) b =
     (case Add v b of (e, b1) \<Rightarrow> (case add_all vs b1 of (es, b2) \<Rightarrow> ((case e of None \<Rightarrow> [] | Some t \<Rightarrow> [t]) @ es, b2)))"

definition buffered :: "nat \<Rightarrow> string list \<Rightarrow> string list" where
  "buffered limit vs =
     (case add_all vs \<lparr>tb_limit = limit, tb_value = []\<rparr> of (es, b) \<Rightarrow> es @ (case fst (Flush b) of None \<Rightarrow> [] | Some t \<Rightarrow> [t]))"

section \<open>Requests on record\<close>

datatype request_error = NotRecorded cause | NotAnswered model_error

definition observed_call :: "environment \<Rightarrow> string \<Rightarrow> string \<Rightarrow> string \<Rightarrow> (messages \<Rightarrow> (model_error, 'a) res) \<Rightarrow> messages \<Rightarrow> runtime \<Rightarrow>
    (request_error, 'a) res \<times> runtime" where
  "observed_call env reference purpose correlation call input r =
     (case record_event env ModelCallStarted purpose correlation
         (Some (enc_model_call_started_data \<lparr>mc_model = reference, mc_purpose = purpose\<rparr>)) r of
        (Inl e, r1) \<Rightarrow> (Inl (NotRecorded e), r1)
      | (Inr _, r1) \<Rightarrow> (map_sum NotAnswered id (call input), r1))"

section \<open>Answers\<close>

definition messageText :: "message option \<Rightarrow> string" where
  "messageText m =
     (case m of None \<Rightarrow> []
      | Some m \<Rightarrow> ms_content m @ concat (map op_text (filter (\<lambda>p. op_type p = Budget.PartText) (ms_output m))))"

definition messageReasoning :: "message option \<Rightarrow> string" where
  "messageReasoning m =
     (case m of None \<Rightarrow> []
      | Some m \<Rightarrow> ms_reasoning m @ concat (map op_text (filter (\<lambda>p. op_type p = PartReasoning) (ms_output m))))"

definition AssistantMessage :: "string \<Rightarrow> message" where
  "AssistantMessage content = (UserMessage content)\<lparr>ms_role := Assistant\<rparr>"

definition SystemMessage :: "string \<Rightarrow> message" where
  "SystemMessage content = (UserMessage content)\<lparr>ms_role := System\<rparr>"

definition structuredCorrectionMessage :: "string \<Rightarrow> message" where
  "structuredCorrectionMessage raw =
     AssistantMessage (if trim raw = [] then ''[The previous response contained no JSON content.]'' else trim raw)"

text \<open>
  \<open>reader\<close> holds what \<open>Recv\<close> gives: chunks, nil ones too, and possibly an error. \<open>accept\<close> is
  whether the consumer takes a chunk.
\<close>

datatype stream_end = Ended | Broke model_error | Refused

fun stream_text :: "(message \<Rightarrow> bool) \<Rightarrow> (model_error, message option) res list \<Rightarrow> usage option \<Rightarrow> string \<Rightarrow> usage option \<times> string \<times> stream_end" where
  "stream_text accept [] meta content = (meta, content, Ended)"
| "stream_text accept (Inl e # reader) meta content = (meta, content, Broke e)"
| "stream_text accept (Inr None # reader) meta content = stream_text accept reader meta content"
| "stream_text accept (Inr (Some chunk) # reader) meta content =
     (if \<not> accept chunk then (meta, content, Refused)
      else stream_text accept reader (case ms_usage chunk of None \<Rightarrow> meta | Some u \<Rightarrow> Some u)
        (content @ messageText (Some chunk)))"

definition streamText :: "(messages \<Rightarrow> (model_error, (model_error, message option) res list) res) \<Rightarrow> (message \<Rightarrow> bool) \<Rightarrow> messages \<Rightarrow>
    usage option \<times> string \<times> stream_end" where
  "streamText chat accept ms =
     (case chat ms of Inl e \<Rightarrow> (None, [], Broke e) | Inr reader \<Rightarrow> stream_text accept reader None [])"

datatype answer_error = NotJson | Trailing | Envelope nat nat | Invalid string

definition json_blank :: "string \<Rightarrow> bool" where
  "json_blank s \<longleftrightarrow> list_all (\<lambda>c. c \<in> set [CHR '' '', CHR 0x09, CHR 0x0A, CHR 0x0D]) s"

text \<open>
  \<open>next_value\<close> reads a JSON value and gives the rest of the text; \<open>dec\<close> is the strict decoder
  of the wanted type, which refuses unknown members.
\<close>

definition decodeJSONObject :: "(string \<Rightarrow> (json \<times> string) option) \<Rightarrow> (json \<Rightarrow> 'a decoded) \<Rightarrow> string \<Rightarrow> (answer_error, 'a) res" where
  "decodeJSONObject next_value dec raw =
     (case next_value (trim raw) of
        None \<Rightarrow> Inl NotJson
      | Some (j, rest) \<Rightarrow>
          (case dec j of Inl _ \<Rightarrow> Inl NotJson | Inr v \<Rightarrow> if json_blank rest then Inr v else Inl Trailing))"

text \<open>
  The scanner for top-level objects: the depth, the object being read in reverse, and whether
  it is inside a string and after a backslash. Only ASCII characters matter to it.
\<close>

fun scan_objects :: "nat \<Rightarrow> string \<Rightarrow> bool \<Rightarrow> bool \<Rightarrow> string \<Rightarrow> string list \<times> nat" where
  "scan_objects depth acc quoted escaped [] = ([], depth)"
| "scan_objects depth acc quoted escaped (c # s) =
     (let acc' = (if depth = 0 then [] else c # acc) in
      if quoted then
        (if escaped then scan_objects depth acc' True False s
         else if c = CHR 0x5C then scan_objects depth acc' True True s
         else if c = CHR 0x22 then scan_objects depth acc' False False s
         else scan_objects depth acc' True False s)
      else if c = CHR 0x22 then scan_objects depth acc' True False s
      else if c = CHR 0x7B then scan_objects (Suc depth) (c # acc) False False s
      else if c = CHR 0x7D then
        (case depth of
           0 \<Rightarrow> scan_objects 0 [] False False s
         | Suc 0 \<Rightarrow> (case scan_objects 0 [] False False s of (objects, d) \<Rightarrow> (rev acc' # objects, d))
         | Suc d \<Rightarrow> scan_objects d acc' False False s)
      else scan_objects depth acc' False False s)"

definition decodeEnvelopedJSONObject :: "(string \<Rightarrow> (json \<times> string) option) \<Rightarrow> (json \<Rightarrow> 'a decoded) \<Rightarrow> string \<Rightarrow> (answer_error, 'a) res" where
  "decodeEnvelopedJSONObject next_value dec raw =
     (case decodeJSONObject next_value dec raw of
        Inr v \<Rightarrow> Inr v
      | Inl _ \<Rightarrow>
          (case scan_objects 0 [] False False raw of
             (objects, depth) \<Rightarrow>
               if depth \<noteq> 0 \<or> length objects \<noteq> 1 then Inl (Envelope (length objects) depth)
               else decodeJSONObject next_value dec (hd objects)))"

section \<open>Structured generation\<close>

text \<open>
  What the code is given: the model the registry made, the parser, the validation (with its
  complaint), what the usage of an answer is, and the texts of errors.
\<close>

record 'a generation =
  gn_chat :: "(registry_error, (nat \<Rightarrow> messages \<Rightarrow> (model_error, message) res) \<times> model) res"
  gn_decode :: "string \<Rightarrow> (answer_error, 'a) res"
  gn_validate :: "'a \<Rightarrow> string option"
  gn_cache :: "message \<Rightarrow> cache_usage"
  gn_reasoning :: "message \<Rightarrow> int"
  gn_text :: "answer_error \<Rightarrow> string"

datatype generation_error =
    NoModel registry_error
  | NoUserMessage
  | RequestFault model_error
  | CorrectionFault model_error
  | UsageFault cause
  | StillInvalid answer_error

definition usable :: "'a generation \<Rightarrow> message \<Rightarrow> (answer_error, 'a) res" where
  "usable g m =
     res_bind (gn_decode g (messageText (Some m))) (\<lambda>v. case gn_validate g v of None \<Rightarrow> Inr v | Some why \<Rightarrow> Inl (Invalid why))"

definition correction :: "'a generation \<Rightarrow> message \<Rightarrow> answer_error \<Rightarrow> messages" where
  "correction g m e =
     [Some (structuredCorrectionMessage (messageText (Some m))),
      Some (UserMessage (''Your response was invalid: '' @ gn_text g e @
        ''. Correct that exact defect and return only the required JSON object.''))]"

text \<open>The requests that were made are the last component.\<close>

definition generateStructuredMessage :: "environment \<Rightarrow> 'a generation \<Rightarrow> string \<Rightarrow> string \<Rightarrow> string \<Rightarrow> message option \<Rightarrow> runtime \<Rightarrow>
    (generation_error, 'a) res \<times> runtime \<times> messages list" where
  "generateStructuredMessage env g reference purpose system user r =
     (case gn_chat g of
        Inl e \<Rightarrow> (Inl (NoModel e), r, [])
      | Inr (chat, spec) \<Rightarrow>
          (case user of
             None \<Rightarrow> (Inl NoUserMessage, r, [])
           | Some u \<Rightarrow>
               let ms = [Some (SystemMessage system), Some u] in
               (case chat 0 ms of
                  Inl e \<Rightarrow> (Inl (RequestFault e), r, [ms])
                | Inr response \<Rightarrow>
                    (case recordUsage env (gn_cache g response) (gn_reasoning g response) reference purpose spec (Some response) [] r of
                       (Inl e, r1) \<Rightarrow> (Inl (UsageFault e), r1, [ms])
                     | (Inr _, r1) \<Rightarrow>
                         (case usable g response of
                            Inr v \<Rightarrow> (Inr v, r1, [ms])
                          | Inl e \<Rightarrow>
                              let ms2 = ms @ correction g response e in
                              (case chat 1 ms2 of
                                 Inl e2 \<Rightarrow> (Inl (CorrectionFault e2), r1, [ms, ms2])
                               | Inr corrected \<Rightarrow>
                                   (case recordUsage env (gn_cache g corrected) (gn_reasoning g corrected) reference
                                       (purpose @ '':correction'') spec (Some corrected) [] r1 of
                                      (Inl e3, r2) \<Rightarrow> (Inl (UsageFault e3), r2, [ms, ms2])
                                    | (Inr _, r2) \<Rightarrow> (map_sum StillInvalid id (usable g corrected), r2, [ms, ms2]))))))))"

definition generateStructured :: "environment \<Rightarrow> 'a generation \<Rightarrow> string \<Rightarrow> string \<Rightarrow> string \<Rightarrow> string \<Rightarrow> runtime \<Rightarrow>
    (generation_error, 'a) res \<times> runtime \<times> messages list" where
  "generateStructured env g reference purpose system user r =
     generateStructuredMessage env g reference purpose system (Some (UserMessage user)) r"

section \<open>Lemmas\<close>

lemma index_of_prefix: "index_of w s = Some i \<Longrightarrow> prefix w (drop i s)"
  by (induction w s arbitrary: i rule: index_of.induct) (auto split: if_splits)

text \<open>The marker has its first letter only once, so it is found where it was written.\<close>

lemma overlap:
  assumes "prefix (a # m) (s @ (a # m) @ t)" and "s \<noteq> []" and "a \<notin> set m"
  shows "prefix (a # m) s"
proof (cases "length (a # m) \<le> length s")
  case True
  show ?thesis by (rule prefix_length_prefix [OF assms(1) _ True]) simp
next
  case False
  obtain u where u: "s @ (a # m) @ t = (a # m) @ u" using assms(1) by (auto simp: prefix_def)
  obtain n where n: "length s = Suc n" using assms(2) by (cases s) auto
  have "a = ((a # m) @ u) ! Suc n" unfolding u [symmetric] n [symmetric] by (simp add: nth_append)
  also have "\<dots> = m ! n" using False n by (simp add: nth_append)
  finally have "a \<in> set m" using False n by simp
  then show ?thesis using assms(3) by simp
qed

lemma marker_overlap:
  "prefix recoverableToolErrorPrefix (s @ recoverableToolErrorPrefix @ t) \<Longrightarrow> s \<noteq> [] \<Longrightarrow> prefix recoverableToolErrorPrefix s"
  unfolding recoverableToolErrorPrefix_def by (erule overlap) simp_all

lemma index_of_marker:
  "index_of recoverableToolErrorPrefix s = None \<Longrightarrow> index_of recoverableToolErrorPrefix (s @ recoverableToolErrorPrefix @ t) = Some (length s)"
proof (induction s)
  case Nil
  then show ?case by (simp add: recoverableToolErrorPrefix_def)
next
  case (Cons c s)
  have "\<not> prefix recoverableToolErrorPrefix (c # s)" and rest: "index_of recoverableToolErrorPrefix s = None"
    using Cons.prems by (auto split: if_splits)
  then have "\<not> prefix recoverableToolErrorPrefix ((c # s) @ recoverableToolErrorPrefix @ t)"
    using marker_overlap by blast
  then show ?case using Cons.IH [OF rest] by simp
qed

lemma parse_error_text: "index_of recoverableToolErrorPrefix s = None \<Longrightarrow>
    ParseRecoverableToolError (s @ error_text err) = Some (trim (te_text err))"
  using index_of_marker [of s "te_text err"] by (simp add: ParseRecoverableToolError_def error_text_def)

lemma recover_ok: "length cs \<le> room \<Longrightarrow> recover_stream f ended room (map Inr cs @ source) =
    map Inr cs @ recover_stream f (\<lambda>n. ended (n + length cs)) (room - length cs) source"
proof (induction cs arbitrary: ended room)
  case (Cons c cs)
  then have "(\<lambda>n. ended (Suc (n + length cs))) = (\<lambda>n. ended (n + length (c # cs)))" by simp
  then show ?case using Cons by (cases room) simp_all
qed simp

lemma Add_conserves: "Add v b = (e, b1) \<Longrightarrow> (case e of None \<Rightarrow> [] | Some t \<Rightarrow> t) @ tb_value b1 = tb_value b @ v \<and> tb_limit b1 = tb_limit b \<and>
    (\<forall>t. e = Some t \<longrightarrow> tb_limit b \<le> length t \<and> t \<noteq> [])"
  by (auto simp: Add_def Flush_def Let_def split: if_splits)

lemma Add_small: "Add v b = (e, b1) \<Longrightarrow> 0 < tb_limit b \<Longrightarrow> length (tb_value b) < tb_limit b \<Longrightarrow> length (tb_value b1) < tb_limit b"
  by (auto simp: Add_def Flush_def Let_def split: if_splits)

lemma add_all_conserves: "add_all vs b = (es, b2) \<Longrightarrow> concat es @ tb_value b2 = tb_value b @ concat vs \<and> tb_limit b2 = tb_limit b \<and>
    list_all (\<lambda>t. tb_limit b \<le> length t \<and> t \<noteq> []) es"
proof (induction vs arbitrary: b es)
  case (Cons v vs)
  obtain e b1 es1 where step: "Add v b = (e, b1)" "add_all vs b1 = (es1, b2)" and es: "es = (case e of None \<Rightarrow> [] | Some t \<Rightarrow> [t]) @ es1"
    using Cons.prems by (auto split: prod.splits)
  note a = Add_conserves [OF step(1)] and i = Cons.IH [OF step(2)]
  have "concat es = (case e of None \<Rightarrow> [] | Some t \<Rightarrow> t) @ concat es1" by (simp add: es split: option.split)
  then have "concat es @ tb_value b2 = (case e of None \<Rightarrow> [] | Some t \<Rightarrow> t) @ (tb_value b1 @ concat vs)" using i by simp
  also have "\<dots> = tb_value b @ concat (v # vs)" using a by (metis append.assoc concat.simps(2))
  finally show ?case using a i by (auto simp: es split: option.split)
qed simp

section \<open>Properties\<close>

text \<open>
  A tool's failure reaches the model whole, and only the end of the session stops it. When
  a tool streams some chunks and then fails for another reason than the end of its context,
  the model reads exactly these chunks and then the failure as one more chunk; from the
  joined text, if the chunks do not contain the marker, the text of the error is parsed back.
  When the context has ended, the error is passed on as an error, after the same chunks.
\<close>

theorem stream_failure:
  assumes "length chunks < room" and "index_of recoverableToolErrorPrefix (concat chunks) = None"
  shows "if fatalToolError (ended (length chunks)) err
    then recoverStringStream ended room (map Inr chunks @ Inl err # source) = map Inr chunks @ [Inl err]
    else recoverStringStream ended room (map Inr chunks @ Inl err # source) = map Inr (chunks @ [error_text err]) \<and>
      ParseRecoverableToolError (concat (chunks @ [error_text err])) = Some (trim (te_text err))"
  using assms parse_error_text [OF assms(2)] recover_ok [of chunks room error_text ended "Inl err # source"]
  by (simp add: recoverStringStream_def)

theorem stream_failure_witness:
  "recoverStringStream (\<lambda>_. False) 9 [Inr ''out'', Inl \<lparr>te_text = ''exit 1'', te_context = False\<rparr>, Inr ''lost''] =
     [Inr ''out'', Inr ''ALT_TOOL_ERROR: exit 1''] \<and>
   ParseRecoverableToolError ''outALT_TOOL_ERROR: exit 1'' = Some (trim ''exit 1'')"
proof -
  have room: "length [''out''] < 9" and none: "index_of recoverableToolErrorPrefix (concat [''out'']) = None" by code_simp+
  from stream_failure [OF room none, of "\<lambda>_. False" "\<lparr>te_text = ''exit 1'', te_context = False\<rparr>" "[Inr ''lost'']"]
  show ?thesis by (simp add: fatalToolError_def error_text_def recoverableToolErrorPrefix_def)
qed

text \<open>
  Buffering streamed text loses nothing. The chunks that are emitted are the text that was
  added, in order; none is empty, and all but the last have at least the limit.
\<close>

theorem buffered_text:
  "concat (buffered limit vs) = concat vs \<and> list_all (\<lambda>t. t \<noteq> []) (buffered limit vs) \<and>
   list_all (\<lambda>t. limit \<le> length t) (butlast (buffered limit vs))"
proof -
  let ?b = "\<lparr>tb_limit = limit, tb_value = []\<rparr>"
  obtain es b where all: "add_all vs ?b = (es, b)" by fastforce
  note c = add_all_conserves [OF all]
  have long: "list_all (\<lambda>t. limit \<le> length t) es" and full: "list_all (\<lambda>t. t \<noteq> []) es" using c by (simp_all add: list_all_iff)
  show ?thesis
  proof (cases "tb_value b = []")
    case True
    have "list_all (\<lambda>t. limit \<le> length t) (butlast es)" using long by (auto simp: list_all_iff dest: in_set_butlastD)
    then show ?thesis using c full True all by (simp add: buffered_def Flush_def)
  next
    case False
    then show ?thesis using c full long all by (simp add: buffered_def Flush_def)
  qed
qed

text \<open>What the two messages that are added say.\<close>

lemma correction_says:
  "\<exists>answer ask before after. correction g m e = [Some answer, Some ask] \<and>
     ms_role answer = Assistant \<and> ms_calls answer = [] \<and>
     ms_content answer = (if trim (messageText (Some m)) = [] then ''[The previous response contained no JSON content.]''
       else trim (messageText (Some m))) \<and>
     ms_role ask = User \<and> ms_content ask = before @ gn_text g e @ after"
proof -
  have ask: "ms_role (UserMessage t) = User \<and> ms_content (UserMessage t) = t" for t by (simp add: UserMessage_def)
  show ?thesis unfolding correction_def
    by (intro exI conjI, rule refl) (simp_all only: ask, simp_all add: structuredCorrectionMessage_def AssistantMessage_def UserMessage_def)
qed

lemma structured_requests:
  assumes "generateStructuredMessage env g reference purpose system user r = (res, r', sent)"
  shows "length sent \<le> 2 \<and>
    (\<forall>v. res = Inr v \<longrightarrow> (\<exists>chat spec m. gn_chat g = Inr (chat, spec) \<and> chat (length sent - 1) (last sent) = Inr m \<and> usable g m = Inr v)) \<and>
    (length sent = 2 \<longrightarrow> (\<exists>chat spec m e. gn_chat g = Inr (chat, spec) \<and> chat 0 (sent ! 0) = Inr m \<and> usable g m = Inl e \<and>
       sent ! 1 = sent ! 0 @ correction g m e)) \<and>
    (sent \<noteq> [] \<longrightarrow> user \<noteq> None) \<and> (sent \<noteq> [] \<longrightarrow> sent ! 0 = [Some (SystemMessage system), user])"
proof (cases "gn_chat g")
  case (Inr cs)
  obtain chat spec where cs: "cs = (chat, spec)" by fastforce
  show ?thesis
  proof (cases user)
    case (Some u)
    let ?ms = "[Some (SystemMessage system), Some u]"
    show ?thesis
    proof (cases "chat 0 ?ms")
      case answer: (Inr m)
      show ?thesis
      proof (cases "usable g m")
        case ok: (Inr v)
        then show ?thesis using assms Inr cs Some answer
          by (auto simp: generateStructuredMessage_def Let_def split: prod.splits sum.splits)
      next
        case bad: (Inl e)
        let ?ms2 = "?ms @ correction g m e"
        show ?thesis
        proof (cases "chat 1 ?ms2")
          case again: (Inr m2)
          then have "sent = [?ms] \<and> isl res \<or> sent = [?ms, ?ms2] \<and> (isl res \<or> res = map_sum StillInvalid id (usable g m2))"
            using assms Inr cs Some answer bad
            by (auto simp: generateStructuredMessage_def Let_def split: prod.splits sum.splits)
          then show ?thesis using Inr cs answer bad again Some by (cases "usable g m2") auto
        next
          case (Inl e2)
          then have "isl res \<and> (sent = [?ms] \<or> sent = [?ms, ?ms2])" using assms Inr cs Some answer bad
            by (auto simp: generateStructuredMessage_def Let_def split: prod.splits sum.splits)
          then show ?thesis using Inr cs answer bad Some by auto
        qed
      qed
    qed (use assms Inr cs Some in \<open>auto simp: generateStructuredMessage_def Let_def\<close>)
  qed (use assms Inr cs in \<open>auto simp: generateStructuredMessage_def\<close>)
qed (use assms in \<open>auto simp: generateStructuredMessage_def\<close>)

text \<open>
  C36: a structured answer is asked for at most twice, and only a valid one is returned. A
  success is the value of the answer to the last request, decoded and accepted by the
  validation. The first request is the system message and the user's. The second is made
  only when the first answer was not usable: it is the first with two messages added, that
  answer (its text without surrounding space, or a note that it had none, and without tool
  calls) as the assistant's, and a user message that repeats the complaint about it.
\<close>

theorem structured_generation:
  assumes "generateStructuredMessage env g reference purpose system user r = (res, r', sent)"
  shows "length sent \<le> 2 \<and>
    (\<forall>v. res = Inr v \<longrightarrow> (\<exists>chat spec m. gn_chat g = Inr (chat, spec) \<and> chat (length sent - 1) (last sent) = Inr m \<and> usable g m = Inr v)) \<and>
    (sent \<noteq> [] \<longrightarrow> user \<noteq> None \<and> sent ! 0 = [Some (SystemMessage system), user]) \<and>
    (length sent = 2 \<longrightarrow> (\<exists>chat spec m e. gn_chat g = Inr (chat, spec) \<and> chat 0 (sent ! 0) = Inr m \<and> usable g m = Inl e \<and>
       (\<exists>answer ask before after. sent ! 1 = sent ! 0 @ [Some answer, Some ask] \<and>
          ms_role answer = Assistant \<and> ms_calls answer = [] \<and>
          ms_content answer = (if trim (messageText (Some m)) = [] then ''[The previous response contained no JSON content.]''
            else trim (messageText (Some m))) \<and>
          ms_role ask = User \<and> ms_content ask = before @ gn_text g e @ after)))"
proof -
  note sent = structured_requests [OF assms]
  have "\<exists>chat spec m e. gn_chat g = Inr (chat, spec) \<and> chat 0 (sent ! 0) = Inr m \<and> usable g m = Inl e \<and>
       (\<exists>answer ask before after. sent ! 1 = sent ! 0 @ [Some answer, Some ask] \<and>
          ms_role answer = Assistant \<and> ms_calls answer = [] \<and>
          ms_content answer = (if trim (messageText (Some m)) = [] then ''[The previous response contained no JSON content.]''
            else trim (messageText (Some m))) \<and>
          ms_role ask = User \<and> ms_content ask = before @ gn_text g e @ after)" if two: "length sent = 2"
  proof -
    obtain chat spec m e where req: "gn_chat g = Inr (chat, spec)" "chat 0 (sent ! 0) = Inr m" "usable g m = Inl e"
      "sent ! 1 = sent ! 0 @ correction g m e" using sent two by blast
    obtain answer ask before after where added: "correction g m e = [Some answer, Some ask]"
      "ms_role answer = Assistant" "ms_calls answer = []"
      "ms_content answer = (if trim (messageText (Some m)) = [] then ''[The previous response contained no JSON content.]''
         else trim (messageText (Some m)))" "ms_role ask = User" "ms_content ask = before @ gn_text g e @ after"
      using correction_says [of g m e] by blast
    show ?thesis
      by (rule exI [of _ chat], rule exI [of _ spec], rule exI [of _ m], rule exI [of _ e], intro conjI req(1-3))
        (rule exI [of _ answer], rule exI [of _ ask], rule exI [of _ before], rule exI [of _ after],
          intro conjI added(2-6), unfold req(4) added(1), rule refl)
  qed
  with sent show ?thesis by (elim conjE) (intro conjI impI, assumption+, blast+)
qed

definition sample_generation :: "string generation" where
  "sample_generation = \<lparr>gn_chat = Inr (\<lambda>n ms. Inr (AssistantMessage (if n = 0 then ''?'' else ''ok'')), Registry.sample_spec ''m''),
     gn_decode = (\<lambda>s. if s = ''ok'' then Inr s else Inl NotJson), gn_validate = (\<lambda>_. None),
     gn_cache = (\<lambda>_. \<lparr>cu_reported = False, cu_read = 0, cu_write = 0, cu_miss = 0\<rparr>), gn_reasoning = (\<lambda>_. 0), gn_text = (\<lambda>_. ''not JSON'')\<rparr>"

theorem structured_generation_witness:
  "\<exists>m. usable sample_generation m = Inr ''ok'' \<and>
     fst (generateStructured reader_environment sample_generation ''a'' ''plan'' ''sys'' ''task'' sample_reader) = Inr ''ok''"
proof -
  let ?run = "generateStructuredMessage reader_environment sample_generation ''a'' ''plan'' ''sys'' (Some (UserMessage ''task'')) sample_reader"
  have run: "?run = (Inr ''ok'', fst (snd ?run), snd (snd ?run))"
    by (simp add: generateStructuredMessage_def sample_generation_def usable_def recordUsage_def act_return_def messageText_def
        AssistantMessage_def UserMessage_def Let_def)
  from structured_generation [OF run] obtain m where "usable sample_generation m = Inr ''ok''" by blast
  moreover have "fst ?run = Inr ''ok''" using run by (metis fst_conv)
  ultimately show ?thesis by (auto simp: generateStructured_def)
qed

end
