(* ===== verification/Processes.thy ===== *)
theory Processes
  imports Budget Failure
begin

text \<open>
  The commands an agent runs (internal/tooling/process.go) and the budgets that bound what it
  reads of them (internal/tooling/runtime.go). A call of a tool is a sequence of steps under the
  manager's locks, so calls of several assignments, the processes themselves and the end of the
  session interleave. Spawning, the pipe and the transcript file are the operating system's:
  which of its calls fail is an argument.
\<close>

section \<open>State\<close>

record exec_input =
  xi_command :: string
  xi_yield :: int
  xi_tty :: bool

record stdin_input =
  wi_session :: int
  wi_chars :: string
  wi_yield :: int

record process_result =
  xr_session :: int
  xr_output :: string
  xr_running :: bool
  xr_has_more :: bool
  xr_exit :: "int option"

datatype process_error =
    CommandRequired
  | NegativeYield
  | SessionRequired
  | RuntimeClosed
  | TranscriptCreate
  | StartFailed
  | UnknownProcess int
  | InputFailed
  | TranscriptRead
  | WaitFailed
  | CallCancelled

text \<open>
  A process: its transcript, how much of it was read, the notification channel (of capacity
  one), whether \<open>done\<close> is closed and with what, what its input received, and whether the
  transcript was closed and removed.
\<close>

record process_session =
  ps_id :: int
  ps_owner :: string
  ps_output :: string
  ps_offset :: nat
  ps_notified :: bool
  ps_done :: bool
  ps_exit :: "int option"
  ps_wait_error :: bool
  ps_input :: string
  ps_closed :: bool

text \<open>
  The manager: \<open>pm_heap\<close> holds every process there was, the tables refer to them by index as
  the code does by pointer.
\<close>

record process_manager =
  pm_heap :: "process_session list"
  pm_sessions :: "(int, nat) gomap"
  pm_reserved :: "int list"
  pm_next :: int
  pm_closed :: bool

definition newProcessManager :: process_manager where
  "newProcessManager = \<lparr>pm_heap = [], pm_sessions = [], pm_reserved = [], pm_next = 0, pm_closed = False\<rparr>"

definition on_session :: "nat \<Rightarrow> (process_session \<Rightarrow> process_session) \<Rightarrow> process_manager \<Rightarrow> process_manager" where
  "on_session h f m = m\<lparr>pm_heap := (pm_heap m)[h := f (pm_heap m ! h)]\<rparr>"

section \<open>Handles\<close>

definition MaxHandle :: int where
  "MaxHandle = 2 ^ 63 - 1"

text \<open>The loop of \<open>reserveSessionID\<close>; one more turn than there are reserved handles is enough.\<close>

fun next_handle :: "nat \<Rightarrow> int \<Rightarrow> int list \<Rightarrow> int" where
  "next_handle fuel prev reserved =
     (let candidate = (if prev = MaxHandle then 0 else prev) + 1
      in case fuel of
           0 \<Rightarrow> candidate
         | Suc fuel \<Rightarrow> if candidate \<in> set reserved then next_handle fuel candidate reserved else candidate)"

declare next_handle.simps [simp del]

definition reserveSessionID :: "process_manager \<Rightarrow> (process_error, int) res \<times> process_manager" where
  "reserveSessionID m =
     (if pm_closed m then (Inl RuntimeClosed, m)
      else let candidate = next_handle (length (pm_reserved m)) (pm_next m) (pm_reserved m)
           in (Inr candidate, m\<lparr>pm_next := candidate, pm_reserved := candidate # pm_reserved m\<rparr>))"

definition releaseSessionID :: "int \<Rightarrow> process_manager \<Rightarrow> process_manager" where
  "releaseSessionID i m =
     m\<lparr>pm_sessions := AList.delete i (pm_sessions m), pm_reserved := removeAll i (pm_reserved m)\<rparr>"

section \<open>A process\<close>

text \<open>\<open>-1\<close> is the sentinel for waiting until something happens, zero for not waiting at all.\<close>

definition processYield :: "int \<Rightarrow> (process_error, int) res" where
  "processYield milliseconds =
     (if milliseconds < 0 then Inl NegativeYield
      else if milliseconds = 0 then Inr (-1)
      else Inr (wrap64 (milliseconds * 1000000)))"

text \<open>\<open>processCapture.Write\<close>: nothing is written to a closed transcript.\<close>

definition capture :: "string \<Rightarrow> process_session \<Rightarrow> process_session" where
  "capture content s =
     (if ps_closed s \<or> content = [] then s
      else s\<lparr>ps_output := ps_output s @ content, ps_notified := True\<rparr>)"

text \<open>\<open>processSession.wait\<close>; \<open>faulty\<close>: \<open>Wait\<close> returned an error that is not an exit status.\<close>

definition wait :: "int option \<Rightarrow> bool \<Rightarrow> process_session \<Rightarrow> process_session" where
  "wait exit faulty s = s\<lparr>ps_exit := exit, ps_wait_error := faulty, ps_done := True\<rparr>"

definition cleanup :: "process_session \<Rightarrow> process_session" where
  "cleanup s = s\<lparr>ps_closed := True\<rparr>"

definition readNew :: "int \<Rightarrow> process_session \<Rightarrow> (process_error, string \<times> bool) res \<times> process_session" where
  "readNew limit s =
     (if ps_closed s then (Inl TranscriptRead, s)
      else if length (ps_output s) \<le> ps_offset s then (Inr ([], False), s)
      else let available = length (ps_output s) - ps_offset s;
               size = (if 0 < limit \<and> limit < int available then nat limit else available);
               content = take size (drop (ps_offset s) (ps_output s));
               s1 = s\<lparr>ps_offset := ps_offset s + length content\<rparr>
           in (Inr (content, ps_offset s1 < length (ps_output s)), s1))"

section \<open>The budgets of the assignments\<close>

definition setContextBudget :: "string \<Rightarrow> budget \<Rightarrow> (string, budget) gomap \<Rightarrow> (string, budget) gomap" where
  "setContextBudget owner b budgets = AList.update owner b budgets"

definition modelVisibleProcessBytes :: "(string, budget) gomap \<Rightarrow> string \<Rightarrow> int" where
  "modelVisibleProcessBytes budgets owner =
     (case map_of budgets owner of None \<Rightarrow> 0 | Some b \<Rightarrow> hardPromptCapacity b 0)"

definition modelVisibleResultBytes :: "(string, budget) gomap \<Rightarrow> string \<Rightarrow> int \<times> bool" where
  "modelVisibleResultBytes budgets owner =
     (case map_of budgets owner of None \<Rightarrow> (0, False) | Some b \<Rightarrow> availableResultBytes b)"

section \<open>The environment of a command\<close>

definition blocked_names :: "string list" where
  "blocked_names = [''SSH_AUTH_SOCK'', ''DBUS_SESSION_BUS_ADDRESS'', ''DISPLAY'', ''WAYLAND_DISPLAY'',
     ''ALL_PROXY'', ''HTTP_PROXY'', ''HTTPS_PROXY'', ''NO_PROXY'', ''all_proxy'', ''http_proxy'', ''https_proxy'', ''no_proxy'']"

definition entry_name :: "string \<Rightarrow> string" where
  "entry_name entry = takeWhile (\<lambda>c. c \<noteq> CHR ''='') entry"

definition sanitizedEnvironment :: "string list \<Rightarrow> string list \<Rightarrow> string list" where
  "sanitizedEnvironment sensitive environ =
     (let blocked = blocked_names @ filter (\<lambda>n. n \<noteq> []) (map trim sensitive)
      in filter (\<lambda>entry. entry_name entry \<notin> set blocked) environ)"

definition command_environment :: "string list \<Rightarrow> string list \<Rightarrow> string \<Rightarrow> string list" where
  "command_environment sensitive environ temp =
     sanitizedEnvironment sensitive environ @ [''TMPDIR='' @ temp, ''TEMP='' @ temp, ''TMP='' @ temp]"

definition command_line :: "bool \<Rightarrow> string \<Rightarrow> string \<Rightarrow> string \<Rightarrow> string \<Rightarrow> string list" where
  "command_line bypass executable workspace temp command =
     (if bypass then [''/bin/sh'', ''-lc'', command]
      else [executable, ''__tool-exec'', ''--workspace'', workspace, ''--temp'', temp, ''--'', ''/bin/sh'', ''-lc'', command])"

section \<open>Calls, step by step\<close>

text \<open>
  Where a call is: its handle is reserved; the process runs but is not registered yet; input is
  to be written; it waits; it is to read; it has read and is to look whether the process is
  done; it has returned.
\<close>

datatype call_phase =
    Reserved int int
  | Spawned int int nat
  | Writing nat int string
  | Waiting nat int
  | Reading nat
  | Deciding nat string bool
  | Returned "(process_error, process_result) res"

definition start_begin :: "exec_input \<Rightarrow> process_manager \<Rightarrow> call_phase \<times> process_manager" where
  "start_begin input m =
     (if trim (xi_command input) = [] then (Returned (Inl CommandRequired), m)
      else case processYield (xi_yield input) of
        Inl e \<Rightarrow> (Returned (Inl e), m)
      | Inr yield \<Rightarrow>
          (case reserveSessionID m of
             (Inl e, m') \<Rightarrow> (Returned (Inl e), m')
           | (Inr i, m') \<Rightarrow> (Reserved yield i, m')))"

definition new_session :: "int \<Rightarrow> string \<Rightarrow> process_session" where
  "new_session i owner = \<lparr>ps_id = i, ps_owner = owner, ps_output = [], ps_offset = 0, ps_notified = False,
     ps_done = False, ps_exit = None, ps_wait_error = False, ps_input = [], ps_closed = False\<rparr>"

definition start_spawn :: "bool \<Rightarrow> bool \<Rightarrow> string \<Rightarrow> int \<Rightarrow> int \<Rightarrow> process_manager \<Rightarrow> call_phase \<times> process_manager" where
  "start_spawn created started owner yield i m =
     (if \<not> created then (Returned (Inl TranscriptCreate), releaseSessionID i m)
      else if \<not> started then (Returned (Inl StartFailed), releaseSessionID i m)
      else (Spawned yield i (length (pm_heap m)), m\<lparr>pm_heap := pm_heap m @ [new_session i owner]\<rparr>))"

definition start_register :: "int \<Rightarrow> int \<Rightarrow> nat \<Rightarrow> process_manager \<Rightarrow> call_phase \<times> process_manager" where
  "start_register yield i h m =
     (if pm_closed m then (Returned (Inl RuntimeClosed), releaseSessionID i (on_session h cleanup m))
      else (Waiting h yield, m\<lparr>pm_sessions := AList.update i h (pm_sessions m)\<rparr>))"

definition write_begin :: "string \<Rightarrow> stdin_input \<Rightarrow> process_manager \<Rightarrow> call_phase" where
  "write_begin owner input m =
     (if wi_session input = 0 then Returned (Inl SessionRequired)
      else case processYield (wi_yield input) of
        Inl e \<Rightarrow> Returned (Inl e)
      | Inr yield \<Rightarrow>
          (case map_of (pm_sessions m) (wi_session input) of
             None \<Rightarrow> Returned (Inl (UnknownProcess (wi_session input)))
           | Some h \<Rightarrow>
               if ps_owner (pm_heap m ! h) \<noteq> owner then Returned (Inl (UnknownProcess (wi_session input)))
               else if wi_chars input = [] then Waiting h yield
               else if ps_done (pm_heap m ! h) then Waiting h 0
               else Writing h yield (wi_chars input)))"

definition write_input :: "bool \<Rightarrow> nat \<Rightarrow> int \<Rightarrow> string \<Rightarrow> process_manager \<Rightarrow> call_phase \<times> process_manager" where
  "write_input accepted h yield chars m =
     (if accepted then (Waiting h yield, on_session h (\<lambda>s. s\<lparr>ps_input := ps_input s @ chars\<rparr>) m)
      else (Returned (Inl InputFailed), m))"

text \<open>
  The wait of \<open>collect\<close>, by what ends it; \<open>None\<close>: not now. A notification is used up.
\<close>

datatype wake = NotWaiting | ProcessDone | OutputReady | TimerFired | ContextDone

definition awake :: "wake \<Rightarrow> string \<Rightarrow> nat \<Rightarrow> int \<Rightarrow> process_manager \<Rightarrow> (call_phase \<times> process_manager) option" where
  "awake w owner h yield m =
     (let s = pm_heap m ! h in
      if ps_owner s \<noteq> owner then Some (Returned (Inl (UnknownProcess (ps_id s))), m)
      else case w of
        NotWaiting \<Rightarrow> if yield = 0 then Some (Reading h, m) else None
      | ProcessDone \<Rightarrow> if yield \<noteq> 0 \<and> ps_done s then Some (Reading h, m) else None
      | OutputReady \<Rightarrow>
          if yield \<noteq> 0 \<and> ps_notified s then Some (Reading h, on_session h (\<lambda>s. s\<lparr>ps_notified := False\<rparr>) m) else None
      | TimerFired \<Rightarrow> if 0 < yield then Some (Reading h, m) else None
      | ContextDone \<Rightarrow> if yield \<noteq> 0 then Some (Returned (Inl CallCancelled), m) else None)"

definition collect_read :: "(string, budget) gomap \<Rightarrow> string \<Rightarrow> nat \<Rightarrow> process_manager \<Rightarrow> call_phase \<times> process_manager" where
  "collect_read budgets owner h m =
     (case readNew (modelVisibleProcessBytes budgets owner) (pm_heap m ! h) of
        (Inl e, s) \<Rightarrow> (Returned (Inl e), m)
      | (Inr (output, rest), s) \<Rightarrow> (Deciding h output rest, on_session h (\<lambda>_. s) m))"

definition collect_decide :: "nat \<Rightarrow> string \<Rightarrow> bool \<Rightarrow> process_manager \<Rightarrow> (process_error, process_result) res \<times> process_manager" where
  "collect_decide h output rest m =
     (let s = pm_heap m ! h in
      if ps_done s then
        (if ps_wait_error s \<and> ps_exit s = None then (Inl WaitFailed, m)
         else if rest then
           (Inr \<lparr>xr_session = ps_id s, xr_output = output, xr_running = False, xr_has_more = True, xr_exit = ps_exit s\<rparr>, m)
         else
           (Inr \<lparr>xr_session = 0, xr_output = output, xr_running = False, xr_has_more = False, xr_exit = ps_exit s\<rparr>,
            on_session h cleanup (releaseSessionID (ps_id s) m)))
      else
        (Inr \<lparr>xr_session = ps_id s, xr_output = output, xr_running = True, xr_has_more = rest, xr_exit = None\<rparr>, m))"

text \<open>\<open>processManager.close\<close>: first the tables, then every process that was registered, once it is done.\<close>

definition close_tables :: "process_manager \<Rightarrow> nat list \<times> process_manager" where
  "close_tables m = (map snd (pm_sessions m), m\<lparr>pm_closed := True, pm_sessions := [], pm_reserved := []\<rparr>)"

section \<open>Any interleaving\<close>

record tool_call =
  tc_owner :: string
  tc_phase :: call_phase

record process_world =
  pw_manager :: process_manager
  pw_calls :: "tool_call list"
  pw_closing :: "nat list"

text \<open>What can be seen of a step: a process's output read for an owner, input written for an owner.\<close>

datatype process_event = Quiet | Delivered nat string string | Accepted nat string string

definition put_call :: "nat \<Rightarrow> call_phase \<Rightarrow> process_world \<Rightarrow> process_world" where
  "put_call c ph w = w\<lparr>pw_calls := (pw_calls w)[c := (pw_calls w ! c)\<lparr>tc_phase := ph\<rparr>]\<rparr>"

definition add_call :: "string \<Rightarrow> call_phase \<Rightarrow> process_world \<Rightarrow> process_world" where
  "add_call owner ph w = w\<lparr>pw_calls := pw_calls w @ [\<lparr>tc_owner = owner, tc_phase = ph\<rparr>]\<rparr>"

abbreviation call_at :: "process_world \<Rightarrow> nat \<Rightarrow> string \<Rightarrow> call_phase \<Rightarrow> bool" where
  "call_at w c owner ph \<equiv> c < length (pw_calls w) \<and> pw_calls w ! c = \<lparr>tc_owner = owner, tc_phase = ph\<rparr>"

inductive process_step :: "process_world \<Rightarrow> process_event \<Rightarrow> process_world \<Rightarrow> bool" where
  call_start: "start_begin input (pw_manager w) = (ph, m) \<Longrightarrow>
    process_step w Quiet (add_call owner ph (w\<lparr>pw_manager := m\<rparr>))"
| call_write: "process_step w Quiet (add_call owner (write_begin owner input (pw_manager w)) w)"
| spawns: "call_at w c owner (Reserved yield i) \<Longrightarrow> start_spawn created started owner yield i (pw_manager w) = (ph, m) \<Longrightarrow>
    process_step w Quiet (put_call c ph (w\<lparr>pw_manager := m\<rparr>))"
| registers: "call_at w c owner (Spawned yield i h) \<Longrightarrow> start_register yield i h (pw_manager w) = (ph, m) \<Longrightarrow>
    process_step w Quiet (put_call c ph (w\<lparr>pw_manager := m\<rparr>))"
| writes: "call_at w c owner (Writing h yield chars) \<Longrightarrow> write_input accepted h yield chars (pw_manager w) = (ph, m) \<Longrightarrow>
    process_step w (if accepted then Accepted h owner chars else Quiet) (put_call c ph (w\<lparr>pw_manager := m\<rparr>))"
| wakes: "call_at w c owner (Waiting h yield) \<Longrightarrow> awake reason owner h yield (pw_manager w) = Some (ph, m) \<Longrightarrow>
    process_step w Quiet (put_call c ph (w\<lparr>pw_manager := m\<rparr>))"
| reads: "call_at w c owner (Reading h) \<Longrightarrow> collect_read budgets owner h (pw_manager w) = (ph, m) \<Longrightarrow>
    process_step w (case ph of Deciding _ output _ \<Rightarrow> Delivered h owner output | _ \<Rightarrow> Quiet)
      (put_call c ph (w\<lparr>pw_manager := m\<rparr>))"
| decides: "call_at w c owner (Deciding h output rest) \<Longrightarrow> collect_decide h output rest (pw_manager w) = (r, m) \<Longrightarrow>
    process_step w Quiet (put_call c (Returned r) (w\<lparr>pw_manager := m\<rparr>))"
| outputs: "h < length (pm_heap (pw_manager w)) \<Longrightarrow> \<not> ps_done (pm_heap (pw_manager w) ! h) \<Longrightarrow>
    process_step w Quiet (w\<lparr>pw_manager := on_session h (capture content) (pw_manager w)\<rparr>)"
| exits: "h < length (pm_heap (pw_manager w)) \<Longrightarrow> \<not> ps_done (pm_heap (pw_manager w) ! h) \<Longrightarrow>
    process_step w Quiet (w\<lparr>pw_manager := on_session h (wait exit faulty) (pw_manager w)\<rparr>)"
| closes: "close_tables (pw_manager w) = (hs, m) \<Longrightarrow>
    process_step w Quiet (w\<lparr>pw_manager := m, pw_closing := pw_closing w @ hs\<rparr>)"
| cleans: "pw_closing w = h # hs \<Longrightarrow> ps_done (pm_heap (pw_manager w) ! h) \<Longrightarrow>
    process_step w Quiet (w\<lparr>pw_manager := on_session h cleanup (pw_manager w), pw_closing := hs\<rparr>)"

inductive process_runs :: "process_world \<Rightarrow> process_event list \<Rightarrow> process_world \<Rightarrow> bool" where
  nothing: "process_runs w [] w"
| further: "process_runs w evs w' \<Longrightarrow> process_step w' ev w'' \<Longrightarrow> process_runs w (evs @ [ev]) w''"

definition new_world :: process_world where
  "new_world = \<lparr>pw_manager = newProcessManager, pw_calls = [], pw_closing = []\<rparr>"

section \<open>What was read and written\<close>

fun delivered_text :: "nat \<Rightarrow> process_event \<Rightarrow> string" where
  "delivered_text h (Delivered h' _ text) = (if h' = h then text else [])"
| "delivered_text h _ = []"

fun accepted_text :: "nat \<Rightarrow> process_event \<Rightarrow> string" where
  "accepted_text h (Accepted h' _ text) = (if h' = h then text else [])"
| "accepted_text h _ = []"

fun event_owner :: "nat \<Rightarrow> process_event \<Rightarrow> string option" where
  "event_owner h (Delivered h' owner _) = (if h' = h then Some owner else None)"
| "event_owner h (Accepted h' owner _) = (if h' = h then Some owner else None)"
| "event_owner h Quiet = None"

definition delivered :: "process_event list \<Rightarrow> nat \<Rightarrow> string" where
  "delivered evs h = concat (map (delivered_text h) evs)"

definition accepted_input :: "process_event list \<Rightarrow> nat \<Rightarrow> string" where
  "accepted_input evs h = concat (map (accepted_text h) evs)"

definition traced :: "process_event list \<Rightarrow> nat \<Rightarrow> process_session \<Rightarrow> bool" where
  "traced evs h s \<longleftrightarrow> ps_offset s \<le> length (ps_output s) \<and> delivered evs h = take (ps_offset s) (ps_output s) \<and>
     accepted_input evs h = ps_input s \<and> (\<forall>ev \<in> set evs. event_owner h ev \<in> {None, Some (ps_owner s)})"

text \<open>The process a call is about.\<close>

fun phase_handle :: "call_phase \<Rightarrow> nat option" where
  "phase_handle (Spawned _ _ h) = Some h"
| "phase_handle (Writing h _ _) = Some h"
| "phase_handle (Waiting h _) = Some h"
| "phase_handle (Reading h) = Some h"
| "phase_handle (Deciding h _ _) = Some h"
| "phase_handle _ = None"

definition owns :: "process_session list \<Rightarrow> string \<Rightarrow> call_phase \<Rightarrow> bool" where
  "owns heap owner ph \<longleftrightarrow> (\<forall>h. phase_handle ph = Some h \<longrightarrow> h < length heap \<and> ps_owner (heap ! h) = owner)"

definition trace_ok :: "process_event list \<Rightarrow> process_world \<Rightarrow> bool" where
  "trace_ok evs w \<longleftrightarrow>
     (let heap = pm_heap (pw_manager w) in
      (\<forall>h < length heap. traced evs h (heap ! h)) \<and>
      (\<forall>h \<ge> length heap. \<forall>ev \<in> set evs. event_owner h ev = None) \<and>
      (\<forall>(i, h) \<in> set (pm_sessions (pw_manager w)). h < length heap) \<and>
      (\<forall>h \<in> set (pw_closing w). h < length heap) \<and>
      (\<forall>call \<in> set (pw_calls w). owns heap (tc_owner call) (tc_phase call)))"

text \<open>The heap may grow, and a process keeps its owner.\<close>

definition extends :: "process_session list \<Rightarrow> process_session list \<Rightarrow> bool" where
  "extends heap heap' \<longleftrightarrow> length heap \<le> length heap' \<and> (\<forall>h < length heap. ps_owner (heap' ! h) = ps_owner (heap ! h))"

lemma extends_refl [simp]: "extends heap heap"
  by (simp add: extends_def)

lemma extends_snoc [simp]: "extends heap (heap @ xs)"
  by (simp add: extends_def nth_append)

lemma extends_update: "ps_owner (f (heap ! h)) = ps_owner (heap ! h) \<Longrightarrow> extends heap (heap[h := f (heap ! h)])"
  by (cases "h < length heap") (auto simp: extends_def nth_list_update list_update_beyond)

lemma owns_extends: "owns heap owner ph \<Longrightarrow> extends heap heap' \<Longrightarrow> owns heap' owner ph"
  by (fastforce simp: owns_def extends_def)

lemma parts_simps [simp]:
  "ps_owner (capture t s) = ps_owner s" "ps_owner (wait e b s) = ps_owner s" "ps_owner (cleanup s) = ps_owner s"
  "ps_id (capture t s) = ps_id s" "ps_id (wait e b s) = ps_id s" "ps_id (cleanup s) = ps_id s"
  "pm_heap (releaseSessionID i m) = pm_heap m" "pm_heap (on_session h f m) = (pm_heap m)[h := f (pm_heap m ! h)]"
  "pm_sessions (on_session h f m) = pm_sessions m" "pm_reserved (on_session h f m) = pm_reserved m"
  "pm_next (on_session h f m) = pm_next m" "pm_closed (on_session h f m) = pm_closed m"
  "pm_sessions (releaseSessionID i m) = AList.delete i (pm_sessions m)"
  "pm_reserved (releaseSessionID i m) = removeAll i (pm_reserved m)"
  "pm_next (releaseSessionID i m) = pm_next m" "pm_closed (releaseSessionID i m) = pm_closed m"
  by (simp_all add: capture_def wait_def cleanup_def releaseSessionID_def on_session_def)

lemma world_simps [simp]:
  "pw_manager (put_call c ph w) = pw_manager w" "pw_closing (put_call c ph w) = pw_closing w"
  "pw_calls (put_call c ph w) = (pw_calls w)[c := (pw_calls w ! c)\<lparr>tc_phase := ph\<rparr>]"
  "pw_manager (add_call owner ph w) = pw_manager w" "pw_closing (add_call owner ph w) = pw_closing w"
  "pw_calls (add_call owner ph w) = pw_calls w @ [\<lparr>tc_owner = owner, tc_phase = ph\<rparr>]"
  by (simp_all add: put_call_def add_call_def)

lemma delivered_snoc [simp]: "delivered (evs @ [ev]) h = delivered evs h @ delivered_text h ev"
  by (simp add: delivered_def)

lemma accepted_snoc [simp]: "accepted_input (evs @ [ev]) h = accepted_input evs h @ accepted_text h ev"
  by (simp add: accepted_input_def)

lemma traced_quiet: "traced evs h s \<Longrightarrow> ps_offset s' = ps_offset s \<Longrightarrow> ps_owner s' = ps_owner s \<Longrightarrow> ps_input s' = ps_input s \<Longrightarrow>
    prefix (ps_output s) (ps_output s') \<Longrightarrow> traced (evs @ [Quiet]) h s'"
  by (auto simp: traced_def prefix_def)

lemma traced_other: "traced evs h s \<Longrightarrow> event_owner h ev = None \<Longrightarrow> traced (evs @ [ev]) h s"
  by (cases ev) (auto simp: traced_def split: if_splits)

lemma traced_new: "\<forall>ev \<in> set evs. event_owner h ev = None \<Longrightarrow> traced (evs @ [Quiet]) h (new_session i owner)"
proof -
  assume none: "\<forall>ev \<in> set evs. event_owner h ev = None"
  have "delivered_text h ev = [] \<and> accepted_text h ev = []" if "ev \<in> set evs" for ev
    using none that by (cases ev) (auto split: if_splits)
  then have "delivered evs h = []" "accepted_input evs h = []"
    by (auto simp: delivered_def accepted_input_def)
  then show ?thesis using none by (auto simp: traced_def new_session_def)
qed

lemma readNew_form:
  assumes "readNew limit s = (Inr (t, rest), s')" and "ps_offset s \<le> length (ps_output s)"
  shows "s' = s\<lparr>ps_offset := ps_offset s + length t\<rparr> \<and> ps_offset s + length t \<le> length (ps_output s) \<and>
    take (ps_offset s) (ps_output s) @ t = take (ps_offset s + length t) (ps_output s) \<and>
    rest = (ps_offset s' < length (ps_output s)) \<and> \<not> ps_closed s"
  using assms by (auto simp: readNew_def Let_def take_add split: if_splits)

text \<open>One step, by what it does to the heap, the tables and the calls.\<close>

lemma trace_okI:
  assumes ok: "trace_ok evs w" and heap: "extends (pm_heap (pw_manager w)) (pm_heap (pw_manager w'))"
    and old: "\<And>h. h < length (pm_heap (pw_manager w)) \<Longrightarrow> traced evs h (pm_heap (pw_manager w) ! h) \<Longrightarrow>
      traced (evs @ [ev]) h (pm_heap (pw_manager w') ! h)"
    and new: "\<And>h. length (pm_heap (pw_manager w)) \<le> h \<Longrightarrow> h < length (pm_heap (pw_manager w')) \<Longrightarrow>
      \<forall>ev \<in> set evs. event_owner h ev = None \<Longrightarrow> traced (evs @ [ev]) h (pm_heap (pw_manager w') ! h)"
    and none: "\<And>h. length (pm_heap (pw_manager w')) \<le> h \<Longrightarrow> event_owner h ev = None"
    and sessions: "\<And>i h. (i, h) \<in> set (pm_sessions (pw_manager w')) \<Longrightarrow>
      (i, h) \<in> set (pm_sessions (pw_manager w)) \<or> h < length (pm_heap (pw_manager w'))"
    and closing: "set (pw_closing w') \<subseteq> set (pw_closing w) \<union> snd ` set (pm_sessions (pw_manager w))"
    and calls: "\<And>call. call \<in> set (pw_calls w') \<Longrightarrow> call \<in> set (pw_calls w) \<or>
      owns (pm_heap (pw_manager w')) (tc_owner call) (tc_phase call)"
  shows "trace_ok (evs @ [ev]) w'"
proof -
  let ?heap = "pm_heap (pw_manager w)" and ?heap' = "pm_heap (pw_manager w')"
  have len: "length ?heap \<le> length ?heap'" using heap by (simp add: extends_def)
  have o: "\<forall>h < length ?heap. traced evs h (?heap ! h)" "\<forall>h \<ge> length ?heap. \<forall>ev \<in> set evs. event_owner h ev = None"
    "\<forall>(i, h) \<in> set (pm_sessions (pw_manager w)). h < length ?heap" "\<forall>h \<in> set (pw_closing w). h < length ?heap"
    "\<forall>call \<in> set (pw_calls w). owns ?heap (tc_owner call) (tc_phase call)"
    using ok by (simp_all add: trace_ok_def Let_def)
  have "traced (evs @ [ev]) h (?heap' ! h)" if "h < length ?heap'" for h
    using old new o(1,2) that by (cases "h < length ?heap") auto
  moreover have "\<forall>e \<in> set (evs @ [ev]). event_owner h e = None" if "length ?heap' \<le> h" for h
    using none [OF that] o(2) len that by auto
  moreover have "h < length ?heap'" if "(i, h) \<in> set (pm_sessions (pw_manager w'))" for i h
    using sessions [OF that] o(3) len by fastforce
  moreover have "h < length ?heap'" if "h \<in> set (pw_closing w')" for h
    using closing that o(3,4) len by fastforce
  moreover have "owns ?heap' (tc_owner call) (tc_phase call)" if "call \<in> set (pw_calls w')" for call
    using calls [OF that] o(5) owns_extends [OF _ heap] by blast
  ultimately show ?thesis by (auto simp: trace_ok_def Let_def)
qed

text \<open>What each operation does to the tables, and where it leaves the call.\<close>

lemma set_delete_subset: "set (AList.delete k xs) \<subseteq> set xs"
  by (auto simp: AList.delete_eq)

lemma set_update_subset: "set (AList.update k v xs) \<subseteq> insert (k, v) (set xs)"
  by (induction xs) auto

lemma start_begin_effect:
  "start_begin input m = (ph, m') \<Longrightarrow> pm_heap m' = pm_heap m \<and> pm_sessions m' = pm_sessions m \<and> phase_handle ph = None"
  by (auto simp: start_begin_def reserveSessionID_def Let_def split: if_splits sum.splits prod.splits)

lemma write_begin_owns:
  assumes "\<forall>(i, h) \<in> set (pm_sessions m). h < length (pm_heap m)"
  shows "owns (pm_heap m) owner (write_begin owner input m)"
  using assms by (fastforce simp: owns_def write_begin_def split: sum.splits option.splits if_splits dest: map_of_SomeD)

lemma start_spawn_effect:
  "start_spawn created started owner yield i m = (ph, m') \<Longrightarrow>
   (pm_heap m' = pm_heap m \<and> phase_handle ph = None \<or>
    pm_heap m' = pm_heap m @ [new_session i owner] \<and> ph = Spawned yield i (length (pm_heap m))) \<and>
   set (pm_sessions m') \<subseteq> set (pm_sessions m)"
  using set_delete_subset [of i "pm_sessions m"] by (auto simp: start_spawn_def split: if_splits)

lemma start_register_effect:
  "start_register yield i h m = (ph, m') \<Longrightarrow>
   pm_heap m' = pm_heap m \<and> ph = Waiting h yield \<and> set (pm_sessions m') \<subseteq> insert (i, h) (set (pm_sessions m)) \<or>
   pm_heap m' = (pm_heap m)[h := cleanup (pm_heap m ! h)] \<and> phase_handle ph = None \<and>
     set (pm_sessions m') \<subseteq> set (pm_sessions m)"
  using set_delete_subset [of i "pm_sessions m"] set_update_subset [of i h "pm_sessions m"]
  by (auto simp: start_register_def split: if_splits)

lemma awake_effect:
  "awake reason owner h yield m = Some (ph, m') \<Longrightarrow>
   (pm_heap m' = pm_heap m \<or> pm_heap m' = (pm_heap m)[h := (pm_heap m ! h)\<lparr>ps_notified := False\<rparr>]) \<and>
   (ph = Reading h \<or> phase_handle ph = None) \<and> pm_sessions m' = pm_sessions m"
  by (auto simp: awake_def Let_def split: if_splits wake.splits)

lemma collect_decide_effect:
  "collect_decide h output rest m = (r, m') \<Longrightarrow>
   (pm_heap m' = pm_heap m \<or> pm_heap m' = (pm_heap m)[h := cleanup (pm_heap m ! h)]) \<and>
   set (pm_sessions m') \<subseteq> set (pm_sessions m)"
  using set_delete_subset [of "ps_id (pm_heap m ! h)" "pm_sessions m"]
  by (auto simp: collect_decide_def Let_def split: if_splits)

lemma collect_read_effect:
  assumes "collect_read budgets owner h m = (ph, m')" and "ps_offset (pm_heap m ! h) \<le> length (ps_output (pm_heap m ! h))"
  shows "pm_sessions m' = pm_sessions m \<and>
    (m' = m \<and> (\<exists>e. ph = Returned (Inl e)) \<or>
     (\<exists>t rest. ph = Deciding h t rest \<and>
        pm_heap m' = (pm_heap m)[h := (pm_heap m ! h)\<lparr>ps_offset := ps_offset (pm_heap m ! h) + length t\<rparr>] \<and>
        ps_offset (pm_heap m ! h) + length t \<le> length (ps_output (pm_heap m ! h)) \<and>
        take (ps_offset (pm_heap m ! h)) (ps_output (pm_heap m ! h)) @ t =
          take (ps_offset (pm_heap m ! h) + length t) (ps_output (pm_heap m ! h))))"
  using assms(1) readNew_form [OF _ assms(2)] by (auto simp: collect_read_def split: prod.splits sum.splits)

lemma traced_update:
  assumes "traced evs h (heap ! h)" and "h < length heap" and "event_owner h ev = None"
    and "h = k \<Longrightarrow> ev = Quiet" and "h = k \<Longrightarrow> ps_offset (f (heap ! k)) = ps_offset (heap ! k) \<and> ps_owner (f (heap ! k)) = ps_owner (heap ! k) \<and>
      ps_input (f (heap ! k)) = ps_input (heap ! k) \<and> prefix (ps_output (heap ! k)) (ps_output (f (heap ! k)))"
  shows "traced (evs @ [ev]) h (heap[k := f (heap ! k)] ! h)"
  using assms traced_other [OF assms(1,3)] traced_quiet [OF assms(1), of "f (heap ! k)"] by (cases "h = k") auto

text \<open>A step that reads or writes nothing and changes one process at most.\<close>

lemma quiet_step:
  assumes ok: "trace_ok evs w"
    and heap: "pm_heap (pw_manager w') = pm_heap (pw_manager w) \<or>
      pm_heap (pw_manager w') = (pm_heap (pw_manager w))[k := f (pm_heap (pw_manager w) ! k)]"
    and f: "\<And>s. ps_offset (f s) = ps_offset s \<and> ps_owner (f s) = ps_owner s \<and> ps_input (f s) = ps_input s \<and>
      prefix (ps_output s) (ps_output (f s))"
    and sessions: "\<And>i h. (i, h) \<in> set (pm_sessions (pw_manager w')) \<Longrightarrow>
      (i, h) \<in> set (pm_sessions (pw_manager w)) \<or> h < length (pm_heap (pw_manager w'))"
    and closing: "set (pw_closing w') \<subseteq> set (pw_closing w) \<union> snd ` set (pm_sessions (pw_manager w))"
    and calls: "\<And>call. call \<in> set (pw_calls w') \<Longrightarrow> call \<in> set (pw_calls w) \<or>
      owns (pm_heap (pw_manager w')) (tc_owner call) (tc_phase call)"
  shows "trace_ok (evs @ [Quiet]) w'"
proof (rule trace_okI [OF ok])
  let ?heap = "pm_heap (pw_manager w)"
  show "extends ?heap (pm_heap (pw_manager w'))" using heap extends_update [of f ?heap k] f by auto
  show "traced (evs @ [Quiet]) h (pm_heap (pw_manager w') ! h)" if "h < length ?heap" "traced evs h (?heap ! h)" for h
    using heap
  proof
    assume "pm_heap (pw_manager w') = ?heap"
    then show ?thesis using traced_other [OF that(2), of Quiet] by simp
  next
    assume "pm_heap (pw_manager w') = ?heap[k := f (?heap ! k)]"
    then show ?thesis using traced_update [OF that(2,1), of Quiet k f] f by simp
  qed
qed (use heap sessions closing calls in auto)

lemma put_calls: "call \<in> set (pw_calls (put_call c ph w)) \<Longrightarrow> call_at w c owner old \<Longrightarrow>
    call \<in> set (pw_calls w) \<or> call = \<lparr>tc_owner = owner, tc_phase = ph\<rparr>"
  using set_update_subset_insert [of "pw_calls w" c] by fastforce

lemma trace_okD:
  assumes "trace_ok evs w"
  shows "h < length (pm_heap (pw_manager w)) \<Longrightarrow> traced evs h (pm_heap (pw_manager w) ! h)"
    and "\<forall>(i, h) \<in> set (pm_sessions (pw_manager w)). h < length (pm_heap (pw_manager w))"
    and "call_at w c owner ph \<Longrightarrow> owns (pm_heap (pw_manager w)) owner ph"
  using assms nth_mem [of c "pw_calls w"] by (auto simp: trace_ok_def Let_def)

lemma trace_spawns:
  assumes at: "call_at w c owner (Reserved yield i)"
    and act: "start_spawn created started owner yield i (pw_manager w) = (ph, m)" and ok: "trace_ok evs w"
  shows "trace_ok (evs @ [Quiet]) (put_call c ph (w\<lparr>pw_manager := m\<rparr>))"
proof -
  let ?heap = "pm_heap (pw_manager w)"
  note e = start_spawn_effect [OF act] and calls = put_calls [OF _ at]
  let ?w = "put_call c ph (w\<lparr>pw_manager := m\<rparr>)"
  show ?thesis
  proof (rule trace_okI [OF ok])
    show "traced (evs @ [Quiet]) h (pm_heap (pw_manager ?w) ! h)" if "h < length ?heap" "traced evs h (?heap ! h)" for h
      using e that traced_other [OF that(2), of Quiet] by (auto simp: nth_append)
    show "traced (evs @ [Quiet]) h (pm_heap (pw_manager ?w) ! h)"
      if "length ?heap \<le> h" "h < length (pm_heap (pw_manager ?w))" "\<forall>ev \<in> set evs. event_owner h ev = None" for h
      using e that traced_new by (auto simp: nth_append)
    show "call \<in> set (pw_calls w) \<or> owns (pm_heap (pw_manager ?w)) (tc_owner call) (tc_phase call)"
      if "call \<in> set (pw_calls ?w)" for call
      using put_calls [of call c ph "w\<lparr>pw_manager := m\<rparr>" owner "Reserved yield i"] that at e
      by (auto simp: owns_def new_session_def)
  qed (use e in auto)
qed

lemma trace_registers:
  assumes at: "call_at w c owner (Spawned yield i h)"
    and act: "start_register yield i h (pw_manager w) = (ph, m)" and ok: "trace_ok evs w"
  shows "trace_ok (evs @ [Quiet]) (put_call c ph (w\<lparr>pw_manager := m\<rparr>))"
proof -
  note e = start_register_effect [OF act]
    and o = trace_okD(3) [OF ok at]
  show ?thesis
  proof (rule quiet_step [OF ok, where f = cleanup and k = h])
    show "call \<in> set (pw_calls w) \<or> owns (pm_heap (pw_manager (put_call c ph (w\<lparr>pw_manager := m\<rparr>)))) (tc_owner call) (tc_phase call)"
      if "call \<in> set (pw_calls (put_call c ph (w\<lparr>pw_manager := m\<rparr>)))" for call
      using put_calls [of call c ph "w\<lparr>pw_manager := m\<rparr>" owner "Spawned yield i h"] that at e o
      by (auto simp: owns_def)
  qed (use e o in \<open>auto simp: cleanup_def owns_def\<close>)
qed

lemma trace_writes:
  assumes at: "call_at w c owner (Writing h yield chars)"
    and act: "write_input accepted h yield chars (pw_manager w) = (ph, m)" and ok: "trace_ok evs w"
  shows "trace_ok (evs @ [if accepted then Accepted h owner chars else Quiet]) (put_call c ph (w\<lparr>pw_manager := m\<rparr>))"
proof -
  let ?heap = "pm_heap (pw_manager w)"
  have o: "h < length ?heap" "ps_owner (?heap ! h) = owner"
    using trace_okD(3) [OF ok at] by (simp_all add: owns_def)
  let ?w = "put_call c ph (w\<lparr>pw_manager := m\<rparr>)"
  have e: "if accepted then ph = Waiting h yield \<and> m = on_session h (\<lambda>s. s\<lparr>ps_input := ps_input s @ chars\<rparr>) (pw_manager w)
    else phase_handle ph = None \<and> m = pw_manager w"
    using act by (auto simp: write_input_def split: if_splits)
  show ?thesis
  proof (rule trace_okI [OF ok])
    show "traced (evs @ [if accepted then Accepted h owner chars else Quiet]) k (pm_heap (pw_manager ?w) ! k)"
      if "k < length ?heap" "traced evs k (?heap ! k)" for k
    proof (cases accepted)
      case True
      then show ?thesis using e that o traced_other [OF that(2), of "Accepted h owner chars"]
        by (cases "k = h") (auto simp: traced_def)
    qed (use e traced_other [OF that(2), of Quiet] in simp)
    show "call \<in> set (pw_calls w) \<or> owns (pm_heap (pw_manager ?w)) (tc_owner call) (tc_phase call)"
      if "call \<in> set (pw_calls ?w)" for call
      using put_calls [of call c ph "w\<lparr>pw_manager := m\<rparr>" owner "Writing h yield chars"] that at e o
      by (auto simp: owns_def split: if_splits)
  qed (use e o extends_update [of "\<lambda>s. s\<lparr>ps_input := ps_input s @ chars\<rparr>" ?heap h] in \<open>auto split: if_splits\<close>)
qed

lemma trace_wakes:
  assumes at: "call_at w c owner (Waiting h yield)"
    and act: "awake reason owner h yield (pw_manager w) = Some (ph, m)" and ok: "trace_ok evs w"
  shows "trace_ok (evs @ [Quiet]) (put_call c ph (w\<lparr>pw_manager := m\<rparr>))"
proof -
  note e = awake_effect [OF act] and o = trace_okD(3) [OF ok at]
  show ?thesis
  proof (rule quiet_step [OF ok, where f = "\<lambda>s. s\<lparr>ps_notified := False\<rparr>" and k = h])
    show "call \<in> set (pw_calls w) \<or> owns (pm_heap (pw_manager (put_call c ph (w\<lparr>pw_manager := m\<rparr>)))) (tc_owner call) (tc_phase call)"
      if "call \<in> set (pw_calls (put_call c ph (w\<lparr>pw_manager := m\<rparr>)))" for call
      using put_calls [of call c ph "w\<lparr>pw_manager := m\<rparr>" owner "Waiting h yield"] that at e o
      by (auto simp: owns_def)
  qed (use e in auto)
qed

lemma trace_reads:
  assumes at: "call_at w c owner (Reading h)"
    and act: "collect_read budgets owner h (pw_manager w) = (ph, m)" and ok: "trace_ok evs w"
  shows "trace_ok (evs @ [case ph of Deciding _ got _ \<Rightarrow> Delivered h owner got | _ \<Rightarrow> Quiet]) (put_call c ph (w\<lparr>pw_manager := m\<rparr>))"
proof -
  let ?heap = "pm_heap (pw_manager w)"
  have o: "h < length ?heap" "ps_owner (?heap ! h) = owner"
    using trace_okD(3) [OF ok at] by (simp_all add: owns_def)
  let ?w = "put_call c ph (w\<lparr>pw_manager := m\<rparr>)"
  have "traced evs h (?heap ! h)" using trace_okD(1) [OF ok o(1)] .
  then have fits: "ps_offset (?heap ! h) \<le> length (ps_output (?heap ! h))" by (simp add: traced_def)
  note e = collect_read_effect [OF act fits]
  then have sessions: "pm_sessions m = pm_sessions (pw_manager w)" by simp
  from e consider (failed) r where "m = pw_manager w" "ph = Returned (Inl r)"
    | (read) t rest where "ph = Deciding h t rest"
        "pm_heap m = ?heap[h := (?heap ! h)\<lparr>ps_offset := ps_offset (?heap ! h) + length t\<rparr>]"
        "ps_offset (?heap ! h) + length t \<le> length (ps_output (?heap ! h))"
        "take (ps_offset (?heap ! h)) (ps_output (?heap ! h)) @ t = take (ps_offset (?heap ! h) + length t) (ps_output (?heap ! h))"
    by blast
  then show ?thesis
  proof cases
    case failed
    have "trace_ok (evs @ [Quiet]) ?w"
    proof (rule quiet_step [OF ok, where f = id and k = 0])
      show "call \<in> set (pw_calls w) \<or> owns (pm_heap (pw_manager ?w)) (tc_owner call) (tc_phase call)"
        if "call \<in> set (pw_calls ?w)" for call
        using put_calls [of call c ph "w\<lparr>pw_manager := m\<rparr>" owner "Reading h"] that at failed
        by (auto simp: owns_def)
    qed (use failed in auto)
    then show ?thesis using failed by simp
  next
    case read
    have "trace_ok (evs @ [Delivered h owner t]) ?w"
    proof (rule trace_okI [OF ok])
      show "traced (evs @ [Delivered h owner t]) k (pm_heap (pw_manager ?w) ! k)"
        if "k < length ?heap" "traced evs k (?heap ! k)" for k
        using that o read traced_other [OF that(2), of "Delivered h owner t"]
        by (cases "k = h") (auto simp: traced_def)
      show "call \<in> set (pw_calls w) \<or> owns (pm_heap (pw_manager ?w)) (tc_owner call) (tc_phase call)"
        if "call \<in> set (pw_calls ?w)" for call
        using put_calls [of call c ph "w\<lparr>pw_manager := m\<rparr>" owner "Reading h"] that at read o
        by (auto simp: owns_def)
    qed (use read o sessions extends_update [of "\<lambda>s. s\<lparr>ps_offset := ps_offset s + length t\<rparr>" ?heap h] in auto)
    then show ?thesis using read(1) by simp
  qed
qed

lemma trace_decides:
  assumes at: "call_at w c owner (Deciding h got rest)"
    and act: "collect_decide h got rest (pw_manager w) = (r, m)" and ok: "trace_ok evs w"
  shows "trace_ok (evs @ [Quiet]) (put_call c (Returned r) (w\<lparr>pw_manager := m\<rparr>))"
proof -
  note e = collect_decide_effect [OF act]
  show ?thesis
  proof (rule quiet_step [OF ok, where f = cleanup and k = h])
    show "call \<in> set (pw_calls w) \<or> owns (pm_heap (pw_manager (put_call c (Returned r) (w\<lparr>pw_manager := m\<rparr>)))) (tc_owner call) (tc_phase call)"
      if "call \<in> set (pw_calls (put_call c (Returned r) (w\<lparr>pw_manager := m\<rparr>)))" for call
      using put_calls [of call c "Returned r" "w\<lparr>pw_manager := m\<rparr>" owner "Deciding h got rest"] that at
      by (auto simp: owns_def)
  qed (use e in \<open>auto simp: cleanup_def\<close>)
qed

lemma trace_step: "process_step w ev w' \<Longrightarrow> trace_ok evs w \<Longrightarrow> trace_ok (evs @ [ev]) w'"
proof (induction rule: process_step.induct)
  case (call_start input w ph m owner)
  note e = start_begin_effect [OF call_start.hyps]
  show ?case by (rule quiet_step [OF call_start.prems, where f = id and k = 0]) (use e in \<open>auto simp: owns_def\<close>)
next
  case (call_write w owner input)
  note o = write_begin_owns [OF trace_okD(2) [OF call_write.prems]]
  show ?case by (rule quiet_step [OF call_write.prems, where f = id and k = 0]) (use o in auto)
next
  case (spawns w c owner yield i created started ph m)
  show ?case by (rule trace_spawns [OF spawns.hyps spawns.prems])
next
  case (registers w c owner yield i h ph m)
  show ?case by (rule trace_registers [OF registers.hyps registers.prems])
next
  case (writes w c owner h yield chars accepted ph m)
  show ?case by (rule trace_writes [OF writes.hyps writes.prems])
next
  case (wakes w c owner h yield reason ph m)
  show ?case by (rule trace_wakes [OF wakes.hyps wakes.prems])
next
  case (reads w c owner h budgets ph m)
  show ?case by (rule trace_reads [OF reads.hyps reads.prems])
next
  case (decides w c owner h got rest r m)
  show ?case by (rule trace_decides [OF decides.hyps decides.prems])
next
  case (outputs h w content)
  show ?case
    by (rule quiet_step [OF outputs.prems, where f = "capture content" and k = h]) (auto simp: capture_def)
next
  case (exits h w exit faulty)
  show ?case
    by (rule quiet_step [OF exits.prems, where f = "wait exit faulty" and k = h]) (auto simp: wait_def)
next
  case (closes w hs m)
  then have e: "hs = map snd (pm_sessions (pw_manager w))" "pm_heap m = pm_heap (pw_manager w)" "pm_sessions m = []"
    by (auto simp: close_tables_def)
  show ?case by (rule quiet_step [OF closes.prems, where f = id and k = 0]) (use e in auto)
next
  case (cleans w h hs)
  show ?case
    by (rule quiet_step [OF cleans.prems, where f = cleanup and k = h]) (use cleans.hyps in \<open>auto simp: cleanup_def\<close>)
qed

lemma trace_runs: "process_runs w evs w' \<Longrightarrow> trace_ok [] w \<Longrightarrow> trace_ok evs w'"
  by (induction rule: process_runs.induct) (simp_all add: trace_step)

lemma trace_new: "trace_ok [] new_world"
  by (simp add: trace_ok_def new_world_def newProcessManager_def)

section \<open>Handles are fresh\<close>

definition nth_handle :: "int \<Rightarrow> nat \<Rightarrow> int" where
  "nth_handle prev k = (prev + int k) mod MaxHandle + 1"

lemma MaxHandle_pos: "0 < MaxHandle"
  by (simp add: MaxHandle_def)

lemma nth_handle_range: "nth_handle prev k \<in> {1..MaxHandle}"
  using pos_mod_bound [OF MaxHandle_pos, of "prev + int k"] pos_mod_sign [OF MaxHandle_pos, of "prev + int k"]
  by (simp add: nth_handle_def)

lemma first_handle: "0 \<le> prev \<Longrightarrow> prev \<le> MaxHandle \<Longrightarrow> (if prev = MaxHandle then 0 else prev) + 1 = nth_handle prev 0"
  by (auto simp: nth_handle_def)

lemma nth_handle_Suc: "nth_handle (nth_handle prev 0) k = nth_handle prev (Suc k)"
proof -
  have "(prev mod MaxHandle + 1 + int k) mod MaxHandle = (prev + (1 + int k)) mod MaxHandle"
    by (metis (no_types) add.assoc mod_add_left_eq)
  then show ?thesis by (simp add: nth_handle_def)
qed

lemma nth_handle_inj: "inj_on (nth_handle prev) {k. int k < MaxHandle}"
proof (rule inj_onI)
  fix j k assume jk: "j \<in> {k. int k < MaxHandle}" "k \<in> {k. int k < MaxHandle}" and "nth_handle prev j = nth_handle prev k"
  then have "(prev + int j) mod MaxHandle = (prev + int k) mod MaxHandle" by (simp add: nth_handle_def)
  then have "int j mod MaxHandle = int k mod MaxHandle"
    using mod_diff_cong [of "prev + int j" MaxHandle "prev + int k" prev prev] by simp
  then show "j = k" using jk by simp
qed

lemma next_handle_form:
  "0 \<le> prev \<Longrightarrow> prev \<le> MaxHandle \<Longrightarrow>
   \<exists>k \<le> fuel. next_handle fuel prev R = nth_handle prev k \<and> (\<forall>j < k. nth_handle prev j \<in> set R) \<and>
     (k = fuel \<or> nth_handle prev k \<notin> set R)"
proof (induction fuel arbitrary: prev)
  case 0
  then show ?case using first_handle [OF 0] by (simp add: next_handle.simps)
next
  case (Suc fuel)
  let ?c = "nth_handle prev 0"
  have eq: "next_handle (Suc fuel) prev R = (if ?c \<in> set R then next_handle fuel ?c R else ?c)"
    by (simp add: next_handle.simps [of "Suc fuel"] first_handle [OF Suc.prems])
  show ?case
  proof (cases "?c \<in> set R")
    case True
    have "0 \<le> ?c" "?c \<le> MaxHandle" using nth_handle_range [of prev 0] by simp_all
    from Suc.IH [OF this] obtain k where k: "k \<le> fuel" "next_handle fuel ?c R = nth_handle ?c k"
      "\<forall>j < k. nth_handle ?c j \<in> set R" "k = fuel \<or> nth_handle ?c k \<notin> set R" by blast
    have "\<forall>j < Suc k. nth_handle prev j \<in> set R"
      using k(3) True by (auto simp: nth_handle_Suc less_Suc_eq_0_disj)
    then show ?thesis using k eq True by (intro exI [of _ "Suc k"]) (simp add: nth_handle_Suc)
  qed (use eq in auto)
qed

lemma next_handle_fresh:
  assumes "0 \<le> prev" "prev \<le> MaxHandle" and "int (length R) < MaxHandle"
  shows "next_handle (length R) prev R \<notin> set R \<and> next_handle (length R) prev R \<in> {1..MaxHandle}"
proof -
  obtain k where k: "k \<le> length R" "next_handle (length R) prev R = nth_handle prev k"
    "\<forall>j < k. nth_handle prev j \<in> set R" "k = length R \<or> nth_handle prev k \<notin> set R"
    using next_handle_form [OF assms(1,2), of "length R" R] by blast
  have "nth_handle prev k \<notin> set R"
  proof
    assume "nth_handle prev k \<in> set R"
    then have all: "nth_handle prev ` {..length R} \<subseteq> set R" and "k = length R" using k(3,4) by (auto simp: le_less)
    have "{..length R} \<subseteq> {k. int k < MaxHandle}" using assms(3) by auto
    then have "card (nth_handle prev ` {..length R}) = Suc (length R)"
      using card_image [OF inj_on_subset [OF nth_handle_inj]] by simp
    then have "Suc (length R) \<le> card (set R)" using card_mono [OF finite_set all] by simp
    then show False using card_length [of R] by simp
  qed
  then show ?thesis using k(2) nth_handle_range by simp
qed

text \<open>
  The handles of the calls that are starting a process, and the process another call is about.
\<close>

fun phase_id :: "call_phase \<Rightarrow> int list" where
  "phase_id (Reserved _ i) = [i]"
| "phase_id (Spawned _ i _) = [i]"
| "phase_id _ = []"

fun phase_ref :: "call_phase \<Rightarrow> nat option" where
  "phase_ref (Spawned _ _ _) = None"
| "phase_ref ph = phase_handle ph"

definition starting :: "process_world \<Rightarrow> int list" where
  "starting w = concat (map (\<lambda>call. phase_id (tc_phase call)) (pw_calls w))"

definition phase_ok :: "process_manager \<Rightarrow> int set \<Rightarrow> call_phase \<Rightarrow> bool" where
  "phase_ok m ids ph \<longleftrightarrow>
     (\<forall>y i. ph = Reserved y i \<longrightarrow> i \<notin> ps_id ` set (pm_heap m)) \<and>
     (\<forall>y i h. ph = Spawned y i h \<longrightarrow> h < length (pm_heap m) \<and> ps_id (pm_heap m ! h) = i \<and>
        (pm_closed m \<or> \<not> ps_closed (pm_heap m ! h))) \<and>
     (\<forall>h. phase_ref ph = Some h \<longrightarrow> h < length (pm_heap m) \<and> ps_id (pm_heap m ! h) \<notin> ids)"

definition handles_ok :: "process_world \<Rightarrow> bool" where
  "handles_ok w \<longleftrightarrow>
     (let m = pw_manager w; seen = {1..pm_next m} in
      0 \<le> pm_next m \<and> set (pm_reserved m) \<subseteq> seen \<and> set (starting w) \<subseteq> seen \<and> distinct (starting w) \<and>
      distinct (map ps_id (pm_heap m)) \<and> ps_id ` set (pm_heap m) \<subseteq> seen \<and>
      distinct (map fst (pm_sessions m)) \<and>
      (\<forall>(i, h) \<in> set (pm_sessions m). h < length (pm_heap m) \<and> ps_id (pm_heap m ! h) = i \<and>
         i \<in> set (pm_reserved m) \<and> i \<notin> set (starting w) \<and> \<not> ps_closed (pm_heap m ! h)) \<and>
      (\<forall>call \<in> set (pw_calls w). phase_ok m (set (starting w)) (tc_phase call)) \<and>
      (if pm_closed m then pm_sessions m = [] else pw_closing w = [] \<and> set (starting w) \<subseteq> set (pm_reserved m)))"

lemma starting_split:
  assumes "call_at w c owner old" and "pw_calls w' = pw_calls w"
  shows "\<exists>xs ys. starting w = xs @ phase_id old @ ys \<and> starting (put_call c ph w') = xs @ phase_id ph @ ys"
proof -
  let ?f = "\<lambda>call. phase_id (tc_phase call)"
  have "pw_calls w = take c (pw_calls w) @ \<lparr>tc_owner = owner, tc_phase = old\<rparr> # drop (Suc c) (pw_calls w)"
    using assms(1) id_take_nth_drop [of c "pw_calls w"] by simp
  then have "starting w = concat (map ?f (take c (pw_calls w))) @ phase_id old @ concat (map ?f (drop (Suc c) (pw_calls w)))"
    unfolding starting_def by (metis (no_types, lifting) concat.simps(2) concat_append list.simps(9) map_append tool_call.select_convs(2))
  moreover have "starting (put_call c ph w') =
      concat (map ?f (take c (pw_calls w))) @ phase_id ph @ concat (map ?f (drop (Suc c) (pw_calls w)))"
    using assms by (simp add: starting_def upd_conv_take_nth_drop)
  ultimately show ?thesis by blast
qed

lemma starting_simps [simp]:
  "starting (w\<lparr>pw_manager := m\<rparr>) = starting w" "starting (w\<lparr>pw_manager := m, pw_closing := hs\<rparr>) = starting w"
  "starting (add_call owner ph w) = starting w @ phase_id ph"
  by (simp_all add: starting_def)

lemma starting_same:
  "call_at w c owner old \<Longrightarrow> phase_id old = [] \<Longrightarrow> phase_id ph = [] \<Longrightarrow> starting (put_call c ph (w\<lparr>pw_manager := m\<rparr>)) = starting w"
  using starting_split [of c w owner old "w\<lparr>pw_manager := m\<rparr>" ph] by auto

lemma heap_id: "map ps_id heap' = map ps_id heap \<Longrightarrow> h < length heap \<Longrightarrow> ps_id (heap' ! h) = ps_id (heap ! h)"
  by (metis length_map nth_map)

text \<open>A step that starts nothing.\<close>

lemma handles_quiet:
  assumes ok: "handles_ok w" and starting: "starting w' = starting w"
    and frame: "pm_next (pw_manager w') = pm_next (pw_manager w)"
      "map ps_id (pm_heap (pw_manager w')) = map ps_id (pm_heap (pw_manager w))"
      "set (pm_reserved (pw_manager w')) \<subseteq> set (pm_reserved (pw_manager w))"
      "set (pm_sessions (pw_manager w')) \<subseteq> set (pm_sessions (pw_manager w))" "distinct (map fst (pm_sessions (pw_manager w')))"
    and kept: "\<And>i h. (i, h) \<in> set (pm_sessions (pw_manager w')) \<Longrightarrow>
      i \<in> set (pm_reserved (pw_manager w')) \<and> \<not> ps_closed (pm_heap (pw_manager w') ! h)"
    and shut: "\<And>h. h < length (pm_heap (pw_manager w)) \<Longrightarrow> ps_id (pm_heap (pw_manager w) ! h) \<in> set (starting w) \<Longrightarrow>
      \<not> pm_closed (pw_manager w') \<Longrightarrow> ps_closed (pm_heap (pw_manager w') ! h) \<Longrightarrow> ps_closed (pm_heap (pw_manager w) ! h)"
    and closed: "if pm_closed (pw_manager w') then pm_sessions (pw_manager w') = []
      else \<not> pm_closed (pw_manager w) \<and> pw_closing w' = [] \<and> set (starting w) \<subseteq> set (pm_reserved (pw_manager w'))"
    and calls: "\<And>call. call \<in> set (pw_calls w') \<Longrightarrow> call \<in> set (pw_calls w) \<or>
      (\<forall>h. phase_ref (tc_phase call) = Some h \<longrightarrow> h < length (pm_heap (pw_manager w)) \<and>
        ps_id (pm_heap (pw_manager w) ! h) \<notin> set (starting w)) \<and> phase_id (tc_phase call) = []"
  shows "handles_ok w'"
proof -
  let ?m = "pw_manager w" and ?m' = "pw_manager w'"
  have len: "length (pm_heap ?m') = length (pm_heap ?m)" using arg_cong [OF frame(2), of length] by simp
  have ids: "ps_id ` set (pm_heap ?m') = ps_id ` set (pm_heap ?m)" using arg_cong [OF frame(2), of set] by simp
  note h = heap_id [OF frame(2)]
  have o: "0 \<le> pm_next ?m" "set (pm_reserved ?m) \<subseteq> {1..pm_next ?m}" "set (starting w) \<subseteq> {1..pm_next ?m}" "distinct (starting w)"
    "distinct (map ps_id (pm_heap ?m))" "ps_id ` set (pm_heap ?m) \<subseteq> {1..pm_next ?m}"
    "\<forall>(i, h) \<in> set (pm_sessions ?m). h < length (pm_heap ?m) \<and> ps_id (pm_heap ?m ! h) = i \<and>
         i \<in> set (pm_reserved ?m) \<and> i \<notin> set (starting w) \<and> \<not> ps_closed (pm_heap ?m ! h)"
    "\<forall>call \<in> set (pw_calls w). phase_ok ?m (set (starting w)) (tc_phase call)"
    using ok by (simp_all add: handles_ok_def Let_def)
  have starts: "i \<in> set (starting w)" if "call \<in> set (pw_calls w)" "tc_phase call = Spawned y i h" for call y i h
    using that by (force simp: starting_def)
  have "phase_ok ?m' (set (starting w')) (tc_phase call)" if "call \<in> set (pw_calls w')" for call
    using calls [OF that]
  proof
    assume c: "call \<in> set (pw_calls w)"
    then have p: "phase_ok ?m (set (starting w)) (tc_phase call)" using o(8) by blast
    have "h < length (pm_heap ?m') \<and> ps_id (pm_heap ?m' ! h) = i \<and> (pm_closed ?m' \<or> \<not> ps_closed (pm_heap ?m' ! h))"
      if "tc_phase call = Spawned y i h" for y i h
      using p that starts [OF c that] shut [of h] closed len h by (auto simp: phase_ok_def split: if_splits)
    then show ?thesis using p ids len h by (auto simp: phase_ok_def starting)
  next
    assume "(\<forall>h. phase_ref (tc_phase call) = Some h \<longrightarrow> h < length (pm_heap ?m) \<and>
        ps_id (pm_heap ?m ! h) \<notin> set (starting w)) \<and> phase_id (tc_phase call) = []"
    then show ?thesis using len h by (auto simp: phase_ok_def starting)
  qed
  moreover have "h < length (pm_heap ?m') \<and> ps_id (pm_heap ?m' ! h) = i \<and> i \<in> set (pm_reserved ?m') \<and>
      i \<notin> set (starting w') \<and> \<not> ps_closed (pm_heap ?m' ! h)" if "(i, h) \<in> set (pm_sessions ?m')" for i h
    using kept [OF that] subsetD [OF frame(4) that] o(7) len h by (auto simp: starting)
  ultimately show ?thesis
    using o(1-6) frame(1,3,5) closed ids arg_cong [OF frame(2), of distinct]
    unfolding handles_ok_def Let_def starting by (auto split: if_splits)
qed

lemma next_handle_next: "prev < MaxHandle \<Longrightarrow> set R \<subseteq> {1..prev} \<Longrightarrow> next_handle fuel prev R = prev + 1"
  by (subst next_handle.simps) (auto simp: Let_def split: nat.split)

lemma handles_okD:
  assumes "handles_ok w"
  shows "0 \<le> pm_next (pw_manager w)" "set (pm_reserved (pw_manager w)) \<subseteq> {1..pm_next (pw_manager w)}"
    "set (starting w) \<subseteq> {1..pm_next (pw_manager w)}" "distinct (starting w)"
    "distinct (map ps_id (pm_heap (pw_manager w)))" "ps_id ` set (pm_heap (pw_manager w)) \<subseteq> {1..pm_next (pw_manager w)}"
    "distinct (map fst (pm_sessions (pw_manager w)))"
    "(i, h) \<in> set (pm_sessions (pw_manager w)) \<Longrightarrow> h < length (pm_heap (pw_manager w)) \<and> ps_id (pm_heap (pw_manager w) ! h) = i \<and>
         i \<in> set (pm_reserved (pw_manager w)) \<and> i \<notin> set (starting w) \<and> \<not> ps_closed (pm_heap (pw_manager w) ! h)"
    "call_at w c owner ph \<Longrightarrow> phase_ok (pw_manager w) (set (starting w)) ph"
    "pm_closed (pw_manager w) \<Longrightarrow> pm_sessions (pw_manager w) = []"
    "\<not> pm_closed (pw_manager w) \<Longrightarrow> pw_closing w = [] \<and> set (starting w) \<subseteq> set (pm_reserved (pw_manager w))"
  using assms nth_mem [of c "pw_calls w"] by (auto simp: handles_ok_def Let_def split: if_splits)

lemma handles_okI:
  assumes "0 \<le> pm_next (pw_manager w)" "set (pm_reserved (pw_manager w)) \<subseteq> {1..pm_next (pw_manager w)}"
    "set (starting w) \<subseteq> {1..pm_next (pw_manager w)}" "distinct (starting w)"
    "distinct (map ps_id (pm_heap (pw_manager w)))" "ps_id ` set (pm_heap (pw_manager w)) \<subseteq> {1..pm_next (pw_manager w)}"
    "distinct (map fst (pm_sessions (pw_manager w)))"
    "\<And>i h. (i, h) \<in> set (pm_sessions (pw_manager w)) \<Longrightarrow> h < length (pm_heap (pw_manager w)) \<and> ps_id (pm_heap (pw_manager w) ! h) = i \<and>
         i \<in> set (pm_reserved (pw_manager w)) \<and> i \<notin> set (starting w) \<and> \<not> ps_closed (pm_heap (pw_manager w) ! h)"
    "\<And>call. call \<in> set (pw_calls w) \<Longrightarrow> phase_ok (pw_manager w) (set (starting w)) (tc_phase call)"
    "pm_closed (pw_manager w) \<Longrightarrow> pm_sessions (pw_manager w) = []"
    "\<not> pm_closed (pw_manager w) \<Longrightarrow> pw_closing w = [] \<and> set (starting w) \<subseteq> set (pm_reserved (pw_manager w))"
  shows "handles_ok w"
  using assms(1-7,10,11) assms(8,9) by (fastforce simp: handles_ok_def Let_def)

lemma handles_closed:
  "handles_ok w \<Longrightarrow> if pm_closed (pw_manager w) then pm_sessions (pw_manager w) = []
   else \<not> pm_closed (pw_manager w) \<and> pw_closing w = [] \<and> set (starting w) \<subseteq> set (pm_reserved (pw_manager w))"
  using handles_okD(10,11) by simp

text \<open>The same for a call that moves on without starting anything, when the manager keeps its tables.\<close>

lemma handles_call:
  assumes ok: "handles_ok w" and at: "call_at w c owner old" and none: "phase_id old = []" "phase_id ph = []"
    and refs: "\<And>h. phase_ref ph = Some h \<Longrightarrow> phase_ref old = Some h"
    and frame: "pm_next m = pm_next (pw_manager w)" "map ps_id (pm_heap m) = map ps_id (pm_heap (pw_manager w))"
      "map ps_closed (pm_heap m) = map ps_closed (pm_heap (pw_manager w))" "pm_closed m = pm_closed (pw_manager w)"
      "pm_reserved m = pm_reserved (pw_manager w)" "pm_sessions m = pm_sessions (pw_manager w)"
  shows "handles_ok (put_call c ph (w\<lparr>pw_manager := m\<rparr>))"
proof -
  have shut: "ps_closed (pm_heap m ! h) = ps_closed (pm_heap (pw_manager w) ! h)" if "h < length (pm_heap (pw_manager w))" for h
    using frame(3) that by (metis length_map nth_map)
  show ?thesis
  proof (rule handles_quiet [OF ok])
    show "i \<in> set (pm_reserved (pw_manager (put_call c ph (w\<lparr>pw_manager := m\<rparr>)))) \<and>
        \<not> ps_closed (pm_heap (pw_manager (put_call c ph (w\<lparr>pw_manager := m\<rparr>))) ! h)"
      if "(i, h) \<in> set (pm_sessions (pw_manager (put_call c ph (w\<lparr>pw_manager := m\<rparr>))))" for i h
      using that handles_okD(8) [OF ok, of i h] frame shut by auto
    show "call \<in> set (pw_calls w) \<or> (\<forall>h. phase_ref (tc_phase call) = Some h \<longrightarrow> h < length (pm_heap (pw_manager w)) \<and>
          ps_id (pm_heap (pw_manager w) ! h) \<notin> set (starting w)) \<and> phase_id (tc_phase call) = []"
      if "call \<in> set (pw_calls (put_call c ph (w\<lparr>pw_manager := m\<rparr>)))" for call
      using put_calls [of call c ph "w\<lparr>pw_manager := m\<rparr>" owner old] that at handles_okD(9) [OF ok at] none refs
      by (auto simp: phase_ok_def)
  qed (use starting_same [OF at none] frame shut handles_closed [OF ok] handles_okD(7) [OF ok] in \<open>auto split: if_splits\<close>)
qed

lemma map_update_same: "f y = f (xs ! k) \<Longrightarrow> map f (xs[k := y]) = map f xs"
  by (cases "k < length xs") (simp_all add: map_update list_update_same_conv list_update_beyond)

lemma reserve_effect:
  assumes "reserveSessionID m = (r, m')" and "pm_next m < MaxHandle" and "set (pm_reserved m) \<subseteq> {1..pm_next m}"
  shows "(\<exists>e. r = Inl e) \<and> m' = m \<or> \<not> pm_closed m \<and> r = Inr (pm_next m + 1) \<and>
    m' = m\<lparr>pm_next := pm_next m + 1, pm_reserved := (pm_next m + 1) # pm_reserved m\<rparr>"
  using assms by (auto simp: reserveSessionID_def Let_def next_handle_next split: if_splits)

lemma start_effect:
  assumes "start_begin input m = (ph, m')" and "pm_next m < MaxHandle" and "set (pm_reserved m) \<subseteq> {1..pm_next m}"
  shows "(\<exists>r. ph = Returned r) \<and> m' = m \<or> \<not> pm_closed m \<and> (\<exists>y. ph = Reserved y (pm_next m + 1)) \<and>
    m' = m\<lparr>pm_next := pm_next m + 1, pm_reserved := (pm_next m + 1) # pm_reserved m\<rparr>"
  using assms(1) reserve_effect [OF _ assms(2,3)] by (fastforce simp: start_begin_def split: if_splits sum.splits prod.splits)

lemma write_begin_refs:
  assumes ok: "handles_ok w" and "write_begin owner input (pw_manager w) = ph"
  shows "phase_id ph = [] \<and> (\<forall>h. phase_ref ph = Some h \<longrightarrow> h < length (pm_heap (pw_manager w)) \<and>
        ps_id (pm_heap (pw_manager w) ! h) \<notin> set (starting w))"
  using assms(2) handles_okD(8) [OF ok]
  by (fastforce simp: write_begin_def split: sum.splits option.splits if_splits dest: map_of_SomeD)

lemma phase_ok_mono: "phase_ok m ids ph \<Longrightarrow> pm_heap m' = pm_heap m \<Longrightarrow> pm_closed m' = pm_closed m \<Longrightarrow>
    (\<And>h. h < length (pm_heap m) \<Longrightarrow> ps_id (pm_heap m ! h) \<notin> ids \<Longrightarrow> ps_id (pm_heap m ! h) \<notin> ids') \<Longrightarrow> phase_ok m' ids' ph"
  by (auto simp: phase_ok_def)

lemma handles_start:
  assumes ok: "handles_ok w" and e: "start_begin input (pw_manager w) = (ph, m)" and few: "pm_next (pw_manager w) < MaxHandle"
  shows "handles_ok (add_call owner ph (w\<lparr>pw_manager := m\<rparr>)) \<and> pm_next m \<le> pm_next (pw_manager w) + 1"
proof -
  note d = handles_okD [OF ok]
  from start_effect [OF e few d(2)] show ?thesis
  proof
    assume "(\<exists>r. ph = Returned r) \<and> m = pw_manager w"
    then have "handles_ok (add_call owner ph (w\<lparr>pw_manager := m\<rparr>))"
      by (intro handles_quiet [OF ok]) (use d(7,8) handles_closed [OF ok] in \<open>auto split: if_splits\<close>)
    then show ?thesis using \<open>(\<exists>r. ph = Returned r) \<and> m = pw_manager w\<close> by simp
  next
    let ?i = "pm_next (pw_manager w) + 1"
    assume new: "\<not> pm_closed (pw_manager w) \<and> (\<exists>y. ph = Reserved y ?i) \<and>
      m = (pw_manager w)\<lparr>pm_next := ?i, pm_reserved := ?i # pm_reserved (pw_manager w)\<rparr>"
    then obtain y where ph: "ph = Reserved y ?i" by blast
    have fresh: "?i \<notin> ps_id ` set (pm_heap (pw_manager w))" "?i \<notin> set (starting w)" using d(3,6) by auto
    have parts: "pm_next m = ?i" "pm_reserved m = ?i # pm_reserved (pw_manager w)" "pm_heap m = pm_heap (pw_manager w)"
      "pm_sessions m = pm_sessions (pw_manager w)" "pm_closed m = pm_closed (pw_manager w)" "\<not> pm_closed (pw_manager w)"
      using new by simp_all
    have other: "ps_id (pm_heap (pw_manager w) ! h) \<noteq> ?i" if "h < length (pm_heap (pw_manager w))" for h
      using fresh(1) nth_mem [OF that] by (metis imageI)
    have phases: "phase_ok m (set (starting w @ [?i])) (tc_phase call)" if "call \<in> set (pw_calls w)" for call
    proof -
      have "phase_ok (pw_manager w) (set (starting w)) (tc_phase call)" using ok that by (auto simp: handles_ok_def Let_def)
      then show ?thesis by (rule phase_ok_mono) (use parts(3,5) other in simp_all)
    qed
    have own: "phase_ok m (set (starting w @ [?i])) ph" using fresh by (simp add: phase_ok_def ph parts)
    have sessions: "?i \<noteq> i" if "(i, h) \<in> set (pm_sessions (pw_manager w))" for i h
      using d(2) d(8) [OF that] by auto
    have up: "{1..pm_next (pw_manager w)} \<subseteq> {1..?i}" "?i \<in> {1..?i}" using d(1) by auto
    let ?w = "add_call owner ph (w\<lparr>pw_manager := m\<rparr>)"
    have w: "pw_manager ?w = m" "starting ?w = starting w @ [?i]" "pw_closing ?w = pw_closing w"
      "pw_calls ?w = pw_calls w @ [\<lparr>tc_owner = owner, tc_phase = ph\<rparr>]"
      by (simp_all add: ph)
    have "handles_ok ?w"
    proof (rule handles_okI, unfold w parts)
      show "0 \<le> ?i" using d(1) by simp
      show "set (?i # pm_reserved (pw_manager w)) \<subseteq> {1..?i}" "set (starting w @ [?i]) \<subseteq> {1..?i}"
        "ps_id ` set (pm_heap (pw_manager w)) \<subseteq> {1..?i}"
        using subset_trans [OF d(2) up(1)] subset_trans [OF d(3) up(1)] subset_trans [OF d(6) up(1)] up(2) by simp_all
      show "distinct (starting w @ [?i])" using d(4) fresh by simp
      show "h < length (pm_heap (pw_manager w)) \<and> ps_id (pm_heap (pw_manager w) ! h) = i \<and>
          i \<in> set (?i # pm_reserved (pw_manager w)) \<and> i \<notin> set (starting w @ [?i]) \<and> \<not> ps_closed (pm_heap (pw_manager w) ! h)"
        if "(i, h) \<in> set (pm_sessions (pw_manager w))" for i h
        using sessions [OF that] d(8) [OF that] by auto
      show "phase_ok m (set (starting w @ [?i])) (tc_phase call)"
        if "call \<in> set (pw_calls w @ [\<lparr>tc_owner = owner, tc_phase = ph\<rparr>])" for call
        using that phases own by auto
      show "pw_closing w = [] \<and> set (starting w @ [?i]) \<subseteq> set (?i # pm_reserved (pw_manager w))"
        using d(11) parts(6) by auto
    qed (use d(5,7) parts(6) in simp_all)
    then show ?thesis by (simp add: parts)
  qed
qed

lemma put_call_cases: "call \<in> set (pw_calls (put_call c ph (w\<lparr>pw_manager := m\<rparr>))) \<Longrightarrow> call_at w c owner old \<Longrightarrow>
    call \<in> set (pw_calls w) \<or> call = \<lparr>tc_owner = owner, tc_phase = ph\<rparr>"
  using put_calls [of call c ph "w\<lparr>pw_manager := m\<rparr>" owner old] by simp

lemma handles_spawn:
  assumes ok: "handles_ok w" and at: "call_at w c owner (Reserved yield i)"
    and e: "start_spawn created started owner yield i (pw_manager w) = (ph, m)"
  shows "handles_ok (put_call c ph (w\<lparr>pw_manager := m\<rparr>))"
proof -
  note d = handles_okD [OF ok]
  let ?m = "pw_manager w" and ?w = "put_call c ph (w\<lparr>pw_manager := m\<rparr>)"
  obtain xs ys where split: "starting w = xs @ [i] @ ys" "starting ?w = xs @ phase_id ph @ ys"
    using starting_split [OF at, of "w\<lparr>pw_manager := m\<rparr>" ph] by auto
  have i: "i \<notin> ps_id ` set (pm_heap ?m)" "i \<in> {1..pm_next ?m}" "i \<notin> set (xs @ ys)"
    using d(9) [OF at] d(3,4) split(1) by (auto simp: phase_ok_def)
  have keep: "phase_ok ?m (set (starting w)) (tc_phase call)" if "call \<in> set (pw_calls w)" for call
    using ok that by (auto simp: handles_ok_def Let_def)
  from e consider (failed) r where "ph = Returned r" "m = releaseSessionID i ?m"
    | (spawned) "ph = Spawned yield i (length (pm_heap ?m))" "m = ?m\<lparr>pm_heap := pm_heap ?m @ [new_session i owner]\<rparr>"
    by (auto simp: start_spawn_def split: if_splits)
  then show ?thesis
  proof cases
    case failed
    have parts: "pm_next m = pm_next ?m" "pm_heap m = pm_heap ?m" "pm_closed m = pm_closed ?m"
      "pm_reserved m = removeAll i (pm_reserved ?m)" "pm_sessions m = AList.delete i (pm_sessions ?m)"
      using failed by simp_all
    have starts: "starting ?w = xs @ ys" using split failed by simp
    have "phase_ok m (set (starting ?w)) (tc_phase call)" if "call \<in> set (pw_calls ?w)" for call
    proof (cases "call \<in> set (pw_calls w)")
      case True
      then show ?thesis by (intro phase_ok_mono [OF keep]) (auto simp: parts starts split)
    next
      case False
      then have "call = \<lparr>tc_owner = owner, tc_phase = ph\<rparr>" using put_call_cases [OF that at] by simp
      then show ?thesis by (simp add: failed phase_ok_def)
    qed
    moreover have "h < length (pm_heap m) \<and> ps_id (pm_heap m ! h) = k \<and> k \<in> set (pm_reserved m) \<and>
        k \<notin> set (starting ?w) \<and> \<not> ps_closed (pm_heap m ! h)" if "(k, h) \<in> set (pm_sessions m)" for k h
      using that d(8) [of k h] unfolding parts starts by (auto simp: split AList.delete_eq)
    moreover have "distinct (map fst (pm_sessions m))" using d(7) unfolding parts by (simp add: distinct_delete)
    moreover have "set (starting ?w) \<subseteq> set (pm_reserved m)" "pw_closing w = []" if "\<not> pm_closed m"
      using d(11) that i(3) unfolding parts starts by (auto simp: split)
    moreover have "pm_sessions m = []" if "pm_closed m" using d(10) that unfolding parts by simp
    moreover have "set (starting ?w) \<subseteq> {1..pm_next m}" "distinct (starting ?w)"
      using d(3,4) unfolding parts starts by (auto simp: split)
    moreover have "set (pm_reserved m) \<subseteq> {1..pm_next m}" using d(2) unfolding parts by auto
    ultimately show ?thesis
      using d(1,5,6) by (intro handles_okI) (simp_all add: parts)
  next
    case spawned
    have parts: "pm_next m = pm_next ?m" "pm_heap m = pm_heap ?m @ [new_session i owner]" "pm_closed m = pm_closed ?m"
      "pm_reserved m = pm_reserved ?m" "pm_sessions m = pm_sessions ?m"
      using spawned by simp_all
    have starts: "starting ?w = starting w" using split spawned by simp
    have new: "ps_id (new_session i owner) = i" "\<not> ps_closed (new_session i owner)" by (simp_all add: new_session_def)
    have grow: "phase_ok m (set (starting w)) p" if "phase_ok ?m (set (starting w)) p" "\<And>y. p \<noteq> Reserved y i" for p
      using that by (auto simp: phase_ok_def parts nth_append new)
    have others: "tc_phase call \<noteq> Reserved y i" if "call \<in> set (pw_calls ?w)" "call \<noteq> \<lparr>tc_owner = owner, tc_phase = ph\<rparr>" for call y
    proof
      assume "tc_phase call = Reserved y i"
      obtain k where k: "k < length (pw_calls ?w)" "pw_calls ?w ! k = call" using \<open>call \<in> set (pw_calls ?w)\<close> by (auto simp: in_set_conv_nth)
      have "k \<noteq> c" using k that(2) at by auto
      then have at': "call_at ?w k (tc_owner call) (Reserved y i)" using k \<open>tc_phase call = Reserved y i\<close> by (cases call) auto
      obtain us vs where "starting ?w = us @ [i] @ vs" "starting (put_call k (Returned (Inl RuntimeClosed)) ?w) = us @ [] @ vs"
        using starting_split [OF at' refl, of "Returned (Inl RuntimeClosed)"] by auto
      moreover have at2: "call_at (put_call k (Returned (Inl RuntimeClosed)) ?w) c owner ph" using at \<open>k \<noteq> c\<close> by simp
      then have "i \<in> set (starting (put_call k (Returned (Inl RuntimeClosed)) ?w))"
        using starting_split [OF at2 refl, of ph] spawned by auto
      ultimately show False using d(4) starts by auto
    qed
    have "phase_ok m (set (starting ?w)) (tc_phase call)" if "call \<in> set (pw_calls ?w)" for call
    proof (cases "call = \<lparr>tc_owner = owner, tc_phase = ph\<rparr>")
      case True
      then show ?thesis by (simp add: spawned(1) phase_ok_def parts new)
    next
      case False
      then have "call \<in> set (pw_calls w)" using put_call_cases [OF that at] by simp
      then show ?thesis using grow [OF keep] others [OF that False] by (simp add: starts)
    qed
    moreover have "h < length (pm_heap m) \<and> ps_id (pm_heap m ! h) = k \<and> k \<in> set (pm_reserved m) \<and>
        k \<notin> set (starting ?w) \<and> \<not> ps_closed (pm_heap m ! h)" if "(k, h) \<in> set (pm_sessions m)" for k h
      using that d(8) [of k h] unfolding parts starts by (auto simp: nth_append)
    moreover have "distinct (map ps_id (pm_heap m))" "ps_id ` set (pm_heap m) \<subseteq> {1..pm_next m}"
      using d(5,6) i new unfolding parts by auto
    ultimately show ?thesis
      using d(1-4,7,10,11) by (intro handles_okI) (simp_all add: parts starts)
  qed
qed

lemma phase_ok_less: "phase_ok m ids ph \<Longrightarrow> ids' \<subseteq> ids \<Longrightarrow> map ps_id (pm_heap m') = map ps_id (pm_heap m) \<Longrightarrow>
    (pm_closed m' \<or> pm_heap m' = pm_heap m \<and> pm_closed m' = pm_closed m) \<Longrightarrow> phase_ok m' ids' ph"
proof -
  assume a: "phase_ok m ids ph" "ids' \<subseteq> ids" "map ps_id (pm_heap m') = map ps_id (pm_heap m)"
    "pm_closed m' \<or> pm_heap m' = pm_heap m \<and> pm_closed m' = pm_closed m"
  have "length (pm_heap m') = length (pm_heap m)" using arg_cong [OF a(3), of length] by simp
  moreover have "ps_id ` set (pm_heap m') = ps_id ` set (pm_heap m)" using arg_cong [OF a(3), of set] by simp
  ultimately show ?thesis using a(1,2,4) heap_id [OF a(3)] by (auto simp: phase_ok_def)
qed

lemma handles_register:
  assumes ok: "handles_ok w" and at: "call_at w c owner (Spawned yield i h)"
    and e: "start_register yield i h (pw_manager w) = (ph, m)"
  shows "handles_ok (put_call c ph (w\<lparr>pw_manager := m\<rparr>))"
proof -
  note d = handles_okD [OF ok]
  let ?m = "pw_manager w" and ?w = "put_call c ph (w\<lparr>pw_manager := m\<rparr>)"
  obtain xs ys where split: "starting w = xs @ [i] @ ys" "starting ?w = xs @ phase_id ph @ ys"
    using starting_split [OF at, of "w\<lparr>pw_manager := m\<rparr>" ph] by auto
  have h: "h < length (pm_heap ?m)" "ps_id (pm_heap ?m ! h) = i" "pm_closed ?m \<or> \<not> ps_closed (pm_heap ?m ! h)"
    and i: "i \<notin> set (xs @ ys)" "i \<in> set (starting w)"
    using d(9) [OF at] d(4) split(1) by (auto simp: phase_ok_def)
  have phn: "phase_id ph = []" and ref: "\<And>k. phase_ref ph = Some k \<Longrightarrow> k = h"
    using e by (auto simp: start_register_def split: if_splits)
  have starts: "starting ?w = xs @ ys" using split phn by simp
  have ids: "map ps_id (pm_heap m) = map ps_id (pm_heap ?m)" and next_m: "pm_next m = pm_next ?m" and cl: "pm_closed m = pm_closed ?m"
    and heap: "pm_closed m \<or> pm_heap m = pm_heap ?m \<and> pm_closed m = pm_closed ?m"
    using e by (auto simp: start_register_def map_update_same split: if_splits)
  have len: "length (pm_heap m) = length (pm_heap ?m)" using arg_cong [OF ids, of length] by simp
  have tables: "if pm_closed ?m then pm_sessions m = [] \<and> set (pm_reserved m) \<subseteq> set (pm_reserved ?m)
    else pm_sessions m = AList.update i h (pm_sessions ?m) \<and> pm_reserved m = pm_reserved ?m \<and> pm_heap m = pm_heap ?m"
    using e d(10) by (auto simp: start_register_def split: if_splits)
  show ?thesis
  proof (rule handles_okI)
    have w: "pw_manager ?w = m" "pw_closing ?w = pw_closing w" by simp_all
    show "0 \<le> pm_next (pw_manager ?w)" "distinct (map ps_id (pm_heap (pw_manager ?w)))" "distinct (starting ?w)"
      using d(1,4,5) by (simp_all add: next_m ids starts split)
    show "set (pm_reserved (pw_manager ?w)) \<subseteq> {1..pm_next (pw_manager ?w)}"
      using d(2) tables by (auto simp: next_m split: if_splits)
    show "set (starting ?w) \<subseteq> {1..pm_next (pw_manager ?w)}" using d(3) by (auto simp: next_m starts split)
    show "ps_id ` set (pm_heap (pw_manager ?w)) \<subseteq> {1..pm_next (pw_manager ?w)}"
      using d(6) arg_cong [OF ids, of set] by (simp add: next_m)
    show "distinct (map fst (pm_sessions (pw_manager ?w)))"
      using d(7) tables by (auto simp: distinct_update split: if_splits)
    show "k < length (pm_heap (pw_manager ?w)) \<and> ps_id (pm_heap (pw_manager ?w) ! k) = j \<and> j \<in> set (pm_reserved (pw_manager ?w)) \<and>
        j \<notin> set (starting ?w) \<and> \<not> ps_closed (pm_heap (pw_manager ?w) ! k)" if "(j, k) \<in> set (pm_sessions (pw_manager ?w))" for j k
    proof -
      have open_m: "\<not> pm_closed ?m" using that tables by (auto split: if_splits)
      then have "(j, k) = (i, h) \<or> (j, k) \<in> set (pm_sessions ?m)"
        using that tables set_update_subset [of i h "pm_sessions ?m"] by auto
      then show ?thesis using open_m tables d(8) [of j k] d(11) h i starts by (auto simp: split)
    qed
    show "phase_ok (pw_manager ?w) (set (starting ?w)) (tc_phase call)" if "call \<in> set (pw_calls ?w)" for call
    proof (cases "call \<in> set (pw_calls w)")
      case True
      then have "phase_ok ?m (set (starting w)) (tc_phase call)" using ok by (auto simp: handles_ok_def Let_def)
      then show ?thesis using phase_ok_less [of ?m "set (starting w)" "tc_phase call" "set (starting ?w)" m] ids heap
        by (auto simp: starts split)
    next
      case False
      then have call: "call = \<lparr>tc_owner = owner, tc_phase = ph\<rparr>" using put_call_cases [OF that at] by simp
      have own: "phase_ok m later ph" if "i \<notin> later" for later
        using ref phn h(1,2) len heap_id [OF ids, of h] that by (cases ph) (auto simp: phase_ok_def)
      have "i \<notin> set (starting ?w)" using i by (simp add: starts)
      then show ?thesis unfolding call using own by simp
    qed
    show "pm_sessions (pw_manager ?w) = []" if "pm_closed (pw_manager ?w)" using that tables cl by (auto split: if_splits)
    show "pw_closing ?w = [] \<and> set (starting ?w) \<subseteq> set (pm_reserved (pw_manager ?w))" if "\<not> pm_closed (pw_manager ?w)"
      using that tables cl d(11) by (auto simp: starts split split: if_splits)
  qed
qed

text \<open>The remaining steps keep the handles that are in use, or drop some.\<close>

lemma handles_decide:
  assumes ok: "handles_ok w" and at: "call_at w c owner (Deciding h got rest)"
    and e: "collect_decide h got rest (pw_manager w) = (r, m)"
  shows "handles_ok (put_call c (Returned r) (w\<lparr>pw_manager := m\<rparr>))"
proof -
  note d = handles_okD [OF ok]
  let ?m = "pw_manager w" and ?w = "put_call c (Returned r) (w\<lparr>pw_manager := m\<rparr>)"
  let ?i = "ps_id (pm_heap ?m ! h)"
  have h: "h < length (pm_heap ?m)" "?i \<notin> set (starting w)" using d(9) [OF at] by (auto simp: phase_ok_def)
  have starts: "starting ?w = starting w" by (rule starting_same [OF at]) simp_all
  from e consider (same) "m = ?m" | (gone) "m = on_session h cleanup (releaseSessionID ?i ?m)"
    by (auto simp: collect_decide_def Let_def split: if_splits)
  then show ?thesis
  proof cases
    case same
    show ?thesis by (rule handles_call [OF ok at]) (use same in auto)
  next
    case gone
    then have parts: "pm_heap m = (pm_heap ?m)[h := cleanup (pm_heap ?m ! h)]" "pm_next m = pm_next ?m" "pm_closed m = pm_closed ?m"
      "pm_sessions m = AList.delete ?i (pm_sessions ?m)" "pm_reserved m = removeAll ?i (pm_reserved ?m)"
      by simp_all
    show ?thesis
    proof (rule handles_quiet [OF ok starts])
      show "j \<in> set (pm_reserved (pw_manager ?w)) \<and> \<not> ps_closed (pm_heap (pw_manager ?w) ! k)"
        if "(j, k) \<in> set (pm_sessions (pw_manager ?w))" for j k
      proof -
        have "(j, k) \<in> set (pm_sessions ?m)" "j \<noteq> ?i" using that by (auto simp: parts AList.delete_eq)
        then show ?thesis using d(8) [of j k] by (cases "k = h") (auto simp: parts)
      qed
      show "ps_closed (pm_heap ?m ! k)" if "k < length (pm_heap ?m)" "ps_id (pm_heap ?m ! k) \<in> set (starting w)"
        "ps_closed (pm_heap (pw_manager ?w) ! k)" for k
        using that h by (cases "k = h") (auto simp: parts)
      show "call \<in> set (pw_calls w) \<or> (\<forall>k. phase_ref (tc_phase call) = Some k \<longrightarrow> k < length (pm_heap ?m) \<and>
          ps_id (pm_heap ?m ! k) \<notin> set (starting w)) \<and> phase_id (tc_phase call) = []" if "call \<in> set (pw_calls ?w)" for call
        using put_call_cases [OF that at] by auto
    qed (use d(7,10,11) h set_delete_subset [of ?i "pm_sessions ?m"] in \<open>auto simp: parts map_update_same distinct_delete\<close>)
  qed
qed

lemma handles_heap:
  assumes ok: "handles_ok w" and f: "\<And>s. ps_id (f s) = ps_id s" and g: "\<And>s. ps_closed (f s) = ps_closed s"
  shows "handles_ok (w\<lparr>pw_manager := on_session h f (pw_manager w)\<rparr>)"
proof -
  have "ps_closed ((pm_heap (pw_manager w))[h := f (pm_heap (pw_manager w) ! h)] ! k) = ps_closed (pm_heap (pw_manager w) ! k)" for k
    by (cases "k = h \<and> h < length (pm_heap (pw_manager w))") (auto simp: g nth_list_update list_update_beyond)
  then show ?thesis
    by (intro handles_quiet [OF ok]) (use handles_okD(7,8) [OF ok] handles_closed [OF ok] f in \<open>auto simp: map_update_same split: if_splits\<close>)
qed

lemma handles_shut:
  assumes ok: "handles_ok w" and heap: "map ps_id (pm_heap m) = map ps_id (pm_heap (pw_manager w))"
    and m: "pm_next m = pm_next (pw_manager w)" "pm_closed m" "pm_sessions m = []" "set (pm_reserved m) \<subseteq> set (pm_reserved (pw_manager w))"
  shows "handles_ok (w\<lparr>pw_manager := m, pw_closing := hs\<rparr>)"
  by (rule handles_quiet [OF ok]) (use assms in auto)

lemma handles_step:
  "process_step w ev w' \<Longrightarrow> handles_ok w \<Longrightarrow> pm_next (pw_manager w) < MaxHandle \<Longrightarrow>
   handles_ok w' \<and> pm_next (pw_manager w') \<le> pm_next (pw_manager w) + 1"
proof (induction rule: process_step.induct)
  case (call_start input w ph m owner)
  then show ?case using handles_start by simp
next
  case (call_write w owner input)
  note r = write_begin_refs [OF call_write.prems(1) refl, of owner input]
  have "handles_ok (add_call owner (write_begin owner input (pw_manager w)) w)"
    by (rule handles_quiet [OF call_write.prems(1)])
      (use r handles_okD(7,8) [OF call_write.prems(1)] handles_closed [OF call_write.prems(1)] in \<open>auto split: if_splits\<close>)
  then show ?case by simp
next
  case (spawns w c owner yield i created started ph m)
  have "pm_next m = pm_next (pw_manager w)" using spawns.hyps(2) by (auto simp: start_spawn_def split: if_splits)
  then show ?case using handles_spawn [OF spawns.prems(1) spawns.hyps] by simp
next
  case (registers w c owner yield i h ph m)
  have "pm_next m = pm_next (pw_manager w)" using registers.hyps(2) by (auto simp: start_register_def split: if_splits)
  then show ?case using handles_register [OF registers.prems(1) registers.hyps] by simp
next
  case (writes w c owner h yield chars accepted ph m)
  have "handles_ok (put_call c ph (w\<lparr>pw_manager := m\<rparr>))"
    by (rule handles_call [OF writes.prems(1) writes.hyps(1)])
      (use writes.hyps(2) in \<open>auto simp: write_input_def map_update_same split: if_splits\<close>)
  moreover have "pm_next m = pm_next (pw_manager w)" using writes.hyps(2) by (auto simp: write_input_def split: if_splits)
  ultimately show ?case by simp
next
  case (wakes w c owner h yield reason ph m)
  have "handles_ok (put_call c ph (w\<lparr>pw_manager := m\<rparr>))"
    by (rule handles_call [OF wakes.prems(1) wakes.hyps(1)])
      (use wakes.hyps(2) in \<open>auto simp: awake_def Let_def map_update_same split: if_splits wake.splits\<close>)
  moreover have "pm_next m = pm_next (pw_manager w)" using wakes.hyps(2) by (auto simp: awake_def Let_def split: if_splits wake.splits)
  ultimately show ?case by simp
next
  case (reads w c owner h budgets ph m)
  have s: "ps_id s = ps_id t \<and> ps_closed s = ps_closed t" if "readNew limit t = (r, s)" for limit r s t
    using that by (auto simp: readNew_def Let_def split: if_splits)
  have "handles_ok (put_call c ph (w\<lparr>pw_manager := m\<rparr>))"
    by (rule handles_call [OF reads.prems(1) reads.hyps(1)])
      (use reads.hyps(2) s in \<open>auto simp: collect_read_def map_update_same split: prod.splits sum.splits\<close>)
  moreover have "pm_next m = pm_next (pw_manager w)" using reads.hyps(2) by (auto simp: collect_read_def split: prod.splits sum.splits)
  ultimately show ?case by simp
next
  case (decides w c owner h got rest r m)
  have "pm_next m = pm_next (pw_manager w)" using decides.hyps(2) by (auto simp: collect_decide_def Let_def split: if_splits)
  then show ?case using handles_decide [OF decides.prems(1) decides.hyps] by simp
next
  case (outputs h w content)
  show ?case using handles_heap [OF outputs.prems(1), of "capture content"] by (simp add: capture_def)
next
  case (exits h w exit faulty)
  show ?case using handles_heap [OF exits.prems(1), of "wait exit faulty"] by (simp add: wait_def)
next
  case (closes w hs m)
  then have "pm_heap m = pm_heap (pw_manager w)" "pm_next m = pm_next (pw_manager w)" "pm_closed m" "pm_sessions m = []" "pm_reserved m = []"
    by (auto simp: close_tables_def)
  then show ?case using handles_shut [OF closes.prems(1)] by simp
next
  case (cleans w h hs)
  then have "pm_closed (pw_manager w)" using handles_okD(11) [OF cleans.prems(1)] by auto
  then show ?case using handles_shut [OF cleans.prems(1), of "on_session h cleanup (pw_manager w)"] handles_okD(10) [OF cleans.prems(1)]
    by (simp add: map_update_same)
qed

lemma handles_runs:
  "process_runs w evs w' \<Longrightarrow> handles_ok w \<Longrightarrow> pm_next (pw_manager w) + int (length evs) < MaxHandle \<Longrightarrow>
   handles_ok w' \<and> pm_next (pw_manager w') \<le> pm_next (pw_manager w) + int (length evs)"
proof (induction rule: process_runs.induct)
  case (further w evs w' ev w'')
  then show ?case using handles_step [OF further.hyps(2)] by fastforce
qed simp

lemma handles_new: "handles_ok new_world"
  by (simp add: handles_ok_def new_world_def newProcessManager_def starting_def)

section \<open>Reading a process to its end\<close>

text \<open>A poll of a process that is done, and polls as long as there is more.\<close>

definition poll_done :: "(string, budget) gomap \<Rightarrow> string \<Rightarrow> int \<Rightarrow> process_manager \<Rightarrow>
    (process_error, process_result) res \<times> process_manager" where
  "poll_done budgets owner i m =
     (case write_begin owner \<lparr>wi_session = i, wi_chars = [], wi_yield = 0\<rparr> m of
        Waiting h yield \<Rightarrow>
          (case awake ProcessDone owner h yield m of
             Some (Reading h, m1) \<Rightarrow>
               (case collect_read budgets owner h m1 of
                  (Deciding h got rest, m2) \<Rightarrow> collect_decide h got rest m2
                | (Returned r, m2) \<Rightarrow> (r, m2)
                | (_, m2) \<Rightarrow> (Inl CallCancelled, m2))
           | _ \<Rightarrow> (Inl CallCancelled, m))
      | Returned r \<Rightarrow> (r, m)
      | _ \<Rightarrow> (Inl CallCancelled, m))"

fun drain :: "nat \<Rightarrow> (string, budget) gomap \<Rightarrow> string \<Rightarrow> int \<Rightarrow> process_manager \<Rightarrow> process_result list \<times> process_manager" where
  "drain 0 budgets owner i m = ([], m)"
| "drain (Suc n) budgets owner i m =
     (case poll_done budgets owner i m of
        (Inl e, m') \<Rightarrow> ([], m')
      | (Inr r, m') \<Rightarrow>
          if xr_has_more r then (case drain n budgets owner i m' of (rs, m2) \<Rightarrow> (r # rs, m2)) else ([r], m'))"

definition done_for :: "string \<Rightarrow> int \<Rightarrow> nat \<Rightarrow> process_manager \<Rightarrow> bool" where
  "done_for owner i h m \<longleftrightarrow> i \<noteq> 0 \<and> map_of (pm_sessions m) i = Some h \<and> h < length (pm_heap m) \<and>
     (let s = pm_heap m ! h in ps_id s = i \<and> ps_owner s = owner \<and> ps_done s \<and> \<not> ps_closed s \<and>
        (ps_wait_error s \<longrightarrow> ps_exit s \<noteq> None) \<and> ps_offset s \<le> length (ps_output s))"

definition unread :: "nat \<Rightarrow> process_manager \<Rightarrow> string" where
  "unread h m = drop (ps_offset (pm_heap m ! h)) (ps_output (pm_heap m ! h))"

lemma readNew_unread:
  assumes "\<not> ps_closed s" and "ps_offset s \<le> length (ps_output s)"
  shows "\<exists>t rest. readNew limit s = (Inr (t, rest), s\<lparr>ps_offset := ps_offset s + length t\<rparr>) \<and>
    t @ drop (ps_offset s + length t) (ps_output s) = drop (ps_offset s) (ps_output s) \<and>
    rest = (ps_offset s + length t < length (ps_output s)) \<and> (rest \<longrightarrow> t \<noteq> []) \<and>
    (0 < limit \<longrightarrow> int (length t) \<le> limit) \<and> ps_offset s + length t \<le> length (ps_output s)"
proof (cases "length (ps_output s) \<le> ps_offset s")
  case True
  then show ?thesis using assms by (intro exI [of _ "[]"] exI [of _ False]) (simp add: readNew_def)
next
  case False
  define t where "t = take (if 0 < limit \<and> limit < int (length (ps_output s) - ps_offset s) then nat limit
    else length (ps_output s) - ps_offset s) (drop (ps_offset s) (ps_output s))"
  have "readNew limit s = (Inr (t, ps_offset s + length t < length (ps_output s)), s\<lparr>ps_offset := ps_offset s + length t\<rparr>)"
    using assms(1) False by (simp add: readNew_def Let_def t_def)
  moreover have "t @ drop (ps_offset s + length t) (ps_output s) = drop (ps_offset s) (ps_output s)"
    by (auto simp: t_def) (metis add.commute append_take_drop_id drop_drop)
  moreover have "0 < length t" "0 < limit \<longrightarrow> int (length t) \<le> limit" "ps_offset s + length t \<le> length (ps_output s)"
    using False by (auto simp: t_def)
  ultimately show ?thesis by (intro exI [of _ t] exI [of _ "ps_offset s + length t < length (ps_output s)"]) auto
qed

lemma poll_done_step:
  assumes "done_for owner i h m"
  shows "\<exists>r m'. poll_done budgets owner i m = (Inr r, m') \<and> xr_exit r = ps_exit (pm_heap m ! h) \<and> \<not> xr_running r \<and>
    (0 < modelVisibleProcessBytes budgets owner \<longrightarrow> int (length (xr_output r)) \<le> modelVisibleProcessBytes budgets owner) \<and>
    (if xr_has_more r
     then done_for owner i h m' \<and> xr_output r @ unread h m' = unread h m \<and> xr_output r \<noteq> [] \<and> unread h m' \<noteq> [] \<and> ps_exit (pm_heap m' ! h) = ps_exit (pm_heap m ! h)
     else xr_output r = unread h m \<and> map_of (pm_sessions m') i = None \<and> i \<notin> set (pm_reserved m') \<and> ps_closed (pm_heap m' ! h))"
proof -
  let ?s = "pm_heap m ! h" and ?limit = "modelVisibleProcessBytes budgets owner"
  have s: "i \<noteq> 0" "map_of (pm_sessions m) i = Some h" "h < length (pm_heap m)" "ps_id ?s = i" "ps_owner ?s = owner" "ps_done ?s"
    "\<not> ps_closed ?s" "ps_wait_error ?s \<longrightarrow> ps_exit ?s \<noteq> None" "ps_offset ?s \<le> length (ps_output ?s)"
    using assms by (simp_all add: done_for_def Let_def)
  obtain t rest where r: "readNew ?limit ?s = (Inr (t, rest), ?s\<lparr>ps_offset := ps_offset ?s + length t\<rparr>)"
    "t @ drop (ps_offset ?s + length t) (ps_output ?s) = drop (ps_offset ?s) (ps_output ?s)"
    "rest = (ps_offset ?s + length t < length (ps_output ?s))" "rest \<longrightarrow> t \<noteq> []" "0 < ?limit \<longrightarrow> int (length t) \<le> ?limit"
    "ps_offset ?s + length t \<le> length (ps_output ?s)"
    using readNew_unread [OF s(7,9), of ?limit] by blast
  let ?m = "on_session h (\<lambda>_. ?s\<lparr>ps_offset := ps_offset ?s + length t\<rparr>) m"
  have "write_begin owner \<lparr>wi_session = i, wi_chars = [], wi_yield = 0\<rparr> m = Waiting h (-1)"
    using s by (simp add: write_begin_def processYield_def)
  moreover have "awake ProcessDone owner h (-1) m = Some (Reading h, m)" using s by (simp add: awake_def Let_def)
  moreover have "collect_read budgets owner h m = (Deciding h t rest, ?m)" by (simp add: collect_read_def r(1))
  ultimately have poll: "poll_done budgets owner i m = collect_decide h t rest ?m" by (simp add: poll_done_def)
  show ?thesis
  proof (cases rest)
    case True
    then have "collect_decide h t rest ?m = (Inr \<lparr>xr_session = i, xr_output = t, xr_running = False, xr_has_more = True, xr_exit = ps_exit ?s\<rparr>, ?m)"
      using s by (auto simp: collect_decide_def Let_def)
    then show ?thesis using poll s r True by (auto simp: done_for_def unread_def Let_def)
  next
    case False
    then have "collect_decide h t rest ?m = (Inr \<lparr>xr_session = 0, xr_output = t, xr_running = False, xr_has_more = False, xr_exit = ps_exit ?s\<rparr>,
        on_session h cleanup (releaseSessionID i ?m))"
      using s by (auto simp: collect_decide_def Let_def)
    moreover have "t = drop (ps_offset ?s) (ps_output ?s)" using r(2,3,6) False by simp
    ultimately show ?thesis using poll s r(5) by (auto simp: unread_def delete_conv' cleanup_def)
  qed
qed

lemma drain_all:
  "done_for owner i h m \<Longrightarrow> length (unread h m) < fuel \<Longrightarrow> drain fuel budgets owner i m = (rs, m') \<Longrightarrow>
   concat (map xr_output rs) = unread h m \<and> rs \<noteq> [] \<and> length rs \<le> max 1 (length (unread h m)) \<and>
   (\<forall>r \<in> set rs. xr_exit r = ps_exit (pm_heap m ! h) \<and> \<not> xr_running r \<and>
      (0 < modelVisibleProcessBytes budgets owner \<longrightarrow> int (length (xr_output r)) \<le> modelVisibleProcessBytes budgets owner)) \<and>
   \<not> xr_has_more (last rs) \<and> map_of (pm_sessions m') i = None \<and> i \<notin> set (pm_reserved m')"
proof (induction fuel arbitrary: m rs)
  case (Suc fuel)
  obtain r m1 where poll: "poll_done budgets owner i m = (Inr r, m1)" "xr_exit r = ps_exit (pm_heap m ! h)" "\<not> xr_running r"
    "0 < modelVisibleProcessBytes budgets owner \<longrightarrow> int (length (xr_output r)) \<le> modelVisibleProcessBytes budgets owner"
    "if xr_has_more r
     then done_for owner i h m1 \<and> xr_output r @ unread h m1 = unread h m \<and> xr_output r \<noteq> [] \<and> unread h m1 \<noteq> [] \<and> ps_exit (pm_heap m1 ! h) = ps_exit (pm_heap m ! h)
     else xr_output r = unread h m \<and> map_of (pm_sessions m1) i = None \<and> i \<notin> set (pm_reserved m1) \<and> ps_closed (pm_heap m1 ! h)"
    using poll_done_step [OF Suc.prems(1), of budgets] by blast
  show ?case
  proof (cases "xr_has_more r")
    case True
    obtain qs where qs: "drain fuel budgets owner i m1 = (qs, m')" "rs = r # qs"
      using Suc.prems(3) poll(1) True by (auto split: prod.splits)
    have m1: "done_for owner i h m1" "xr_output r @ unread h m1 = unread h m" "xr_output r \<noteq> []" "ps_exit (pm_heap m1 ! h) = ps_exit (pm_heap m ! h)"
      "unread h m1 \<noteq> []"
      using poll(5) True by simp_all
    have "length (xr_output r) + length (unread h m1) = length (unread h m)" using arg_cong [OF m1(2), of length] by simp
    moreover have "0 < length (xr_output r)" using m1(3) by simp
    ultimately have less: "length (unread h m1) < length (unread h m)" by linarith
    have "length (unread h m1) < fuel" using less Suc.prems(2) by simp
    note ih = Suc.IH [OF m1(1) this qs(1)]
    have "Suc 0 \<le> length (unread h m1)" using m1(5) by (cases "unread h m1") simp_all
    then have "length rs \<le> max 1 (length (unread h m))" using ih qs(2) less by simp
    moreover have "concat (map xr_output rs) = unread h m" using ih qs(2) m1(2) by simp
    moreover have "rs \<noteq> []" "\<not> xr_has_more (last rs)" using ih qs(2) by simp_all
    ultimately show ?thesis using ih qs(2) poll(2-4) m1(4) by simp
  next
    case False
    then show ?thesis using Suc.prems(3) poll by auto
  qed
qed simp

section \<open>Properties\<close>

text \<open>
  C16: the output of a process is read in order, once, and by its owner only. Whatever calls of
  any assignments, processes and the end of the session interleave, what was read of a process
  is, in order, the part of its transcript up to its offset, each byte once; it was read for
  the assignment that started the process, and what reached its input was written for that
  assignment.
\<close>

theorem process_output_once:
  assumes "process_runs new_world evs w" and "h < length (pm_heap (pw_manager w))" and "s = pm_heap (pw_manager w) ! h"
  shows "delivered evs h = take (ps_offset s) (ps_output s) \<and> ps_offset s \<le> length (ps_output s) \<and>
    accepted_input evs h = ps_input s \<and> list_all (\<lambda>ev. event_owner h ev \<in> {None, Some (ps_owner s)}) evs"
  using trace_okD(1) [OF trace_runs [OF assms(1) trace_new] assms(2)] assms(3) by (simp add: traced_def list_all_iff)

text \<open>
  C27: a handle stands for one process for good. In every run of fewer than 2^63 - 1 steps no two
  processes ever have the same handle; every registered process has its key as its handle,
  which is reserved, and its transcript open; after the end of the session nothing is
  registered; and the next handle to be issued was never a process's before.
\<close>

theorem process_handles:
  assumes "process_runs new_world evs w" and "int (length evs) < MaxHandle - 1" and "m = pw_manager w"
  shows "distinct (map ps_id (pm_heap m)) \<and> distinct (map fst (pm_sessions m)) \<and>
    list_all (\<lambda>(i, h). h < length (pm_heap m) \<and> ps_id (pm_heap m ! h) = i \<and> i \<in> set (pm_reserved m) \<and>
      \<not> ps_closed (pm_heap m ! h)) (pm_sessions m) \<and>
    (if pm_closed m then pm_sessions m = [] \<and> fst (reserveSessionID m) = Inl RuntimeClosed
     else fst (reserveSessionID m) = Inr (pm_next m + 1) \<and> pm_next m + 1 \<notin> set (pm_reserved m) \<union> ps_id ` set (pm_heap m))"
proof -
  have next0: "pm_next (pw_manager new_world) = 0" by (simp add: new_world_def newProcessManager_def)
  have runs: "handles_ok w" "pm_next m \<le> int (length evs)"
    using handles_runs [OF assms(1) handles_new] assms(2,3) next0 by simp_all
  note d = handles_okD [OF runs(1)]
  have few: "pm_next m < MaxHandle" using runs(2) assms(2) by simp
  have fresh: "pm_next m + 1 \<notin> set (pm_reserved m) \<union> ps_id ` set (pm_heap m)"
    using d(2,6) unfolding assms(3) by auto
  obtain r m' where e: "reserveSessionID m = (r, m')" by fastforce
  have "if pm_closed m then r = Inl RuntimeClosed else r = Inr (pm_next m + 1)"
    using e next_handle_next [OF few] d(2) unfolding assms(3) by (auto simp: reserveSessionID_def Let_def split: if_splits)
  then show ?thesis
    using d(5,7,8,10) fresh e unfolding assms(3) by (auto simp: list_all_iff split: if_splits)
qed

text \<open>
  C32: the output of a process that is done can be read to its end. Polling such a process as
  often as it says that there is more ends, after at most as many polls as there are bytes;
  the polls give the rest of the transcript, none of them more than the budget of the
  assignment, each with the exit code, and after the last the handle is free again.
\<close>

theorem process_drained:
  assumes "done_for owner i h m" and "length (unread h m) < fuel" and "drain fuel budgets owner i m = (rs, m')"
  shows "concat (map xr_output rs) = unread h m \<and> rs \<noteq> [] \<and> length rs \<le> max 1 (length (unread h m)) \<and>
    list_all (\<lambda>r. xr_exit r = ps_exit (pm_heap m ! h) \<and> \<not> xr_running r \<and>
      (0 < modelVisibleProcessBytes budgets owner \<longrightarrow> int (length (xr_output r)) \<le> modelVisibleProcessBytes budgets owner)) rs \<and>
    \<not> xr_has_more (last rs) \<and> map_of (pm_sessions m') i = None \<and> i \<notin> set (pm_reserved m')"
  using drain_all [OF assms] by (simp add: list_all_iff)

definition sample_command :: exec_input where
  "sample_command = \<lparr>xi_command = ''make'', xi_yield = 0, xi_tty = False\<rparr>"

text \<open>The manager in which \<open>make\<close> runs as process 0 with handle 1, for one assignment.\<close>

definition sample_session :: process_session where
  "sample_session = \<lparr>ps_id = 1, ps_owner = ''agent:a'', ps_output = ''ok!'', ps_offset = 1, ps_notified = False,
     ps_done = True, ps_exit = Some 0, ps_wait_error = False, ps_input = [], ps_closed = False\<rparr>"

definition sample_manager :: process_manager where
  "sample_manager = \<lparr>pm_heap = [sample_session], pm_sessions = [(1, 0)], pm_reserved = [1], pm_next = 1, pm_closed = False\<rparr>"

lemma sample_done: "done_for ''agent:a'' 1 0 sample_manager" "unread 0 sample_manager = ''k!''"
  by (simp_all add: done_for_def unread_def sample_manager_def sample_session_def)

theorem process_drained_witness:
  "concat (map xr_output (fst (drain 3 [] ''agent:a'' 1 sample_manager))) = ''k!''"
  using process_drained [OF sample_done(1) _ prod.collapse [symmetric], of 3 "[]"] by (simp add: sample_done(2))

text \<open>
  A run in which output is lost: a call wakes up for the first byte and reads it; the process
  writes a second byte and exits; the call then finds the process done, and as there was no
  more when it read, it removes the transcript.
\<close>

definition race_start :: process_world where
  "race_start = put_call 0 (Waiting 0 (-1)) (add_call ''agent:a'' (Spawned (-1) 1 0) (new_world\<lparr>pw_manager :=
     newProcessManager\<lparr>pm_heap := [new_session 1 ''agent:a''], pm_sessions := [(1, 0)], pm_reserved := [1], pm_next := 1\<rparr>\<rparr>))"

lemma eval_next_handle: "next_handle fuel 0 [] = 1"
  by (subst next_handle.simps) (simp add: MaxHandle_def split: nat.split)

lemma race_reached: "process_runs new_world [Quiet, Quiet, Quiet] race_start"
proof -
  let ?m1 = "newProcessManager\<lparr>pm_next := 1, pm_reserved := [1]\<rparr>"
  let ?w1 = "add_call ''agent:a'' (Reserved (-1) 1) (new_world\<lparr>pw_manager := ?m1\<rparr>)"
  let ?m2 = "?m1\<lparr>pm_heap := [new_session 1 ''agent:a'']\<rparr>"
  let ?w2 = "put_call 0 (Spawned (-1) 1 0) (?w1\<lparr>pw_manager := ?m2\<rparr>)"
  have "start_begin sample_command (pw_manager new_world) = (Reserved (-1) 1, ?m1)"
    by (simp add: start_begin_def sample_command_def trim_plain plain_byte_def less_char_def processYield_def
      reserveSessionID_def new_world_def newProcessManager_def eval_next_handle)
  from process_runs.further [OF process_runs.nothing process_step.call_start [OF this]]
  have r1: "process_runs new_world [Quiet] ?w1" by simp
  have "call_at ?w1 0 ''agent:a'' (Reserved (-1) 1)" by (simp add: new_world_def)
  moreover have "start_spawn True True ''agent:a'' (-1) 1 (pw_manager ?w1) = (Spawned (-1) 1 0, ?m2)"
    by (simp add: start_spawn_def newProcessManager_def)
  ultimately have r2: "process_runs new_world [Quiet, Quiet] ?w2"
    using process_runs.further [OF r1 process_step.spawns] by fastforce
  have "call_at ?w2 0 ''agent:a'' (Spawned (-1) 1 0)" by (simp add: new_world_def)
  moreover have "start_register (-1) 1 0 (pw_manager ?w2) = (Waiting 0 (-1), ?m2\<lparr>pm_sessions := [(1, 0)]\<rparr>)"
    by (simp add: start_register_def newProcessManager_def)
  ultimately have "process_runs new_world [Quiet, Quiet, Quiet] (put_call 0 (Waiting 0 (-1)) (?w2\<lparr>pw_manager := ?m2\<lparr>pm_sessions := [(1, 0)]\<rparr>\<rparr>))"
    using process_runs.further [OF r2 process_step.registers] by fastforce
  then show ?thesis by (simp add: race_start_def put_call_def add_call_def new_world_def newProcessManager_def)
qed

theorem process_handles_witness:
  "distinct (map ps_id (pm_heap (pw_manager race_start)))"
  using process_handles [OF race_reached _ refl] by (simp add: MaxHandle_def)

text \<open>The race: output written between the read and the look at \<open>done\<close> is lost.\<close>

abbreviation race_manager :: "process_session \<Rightarrow> process_manager" where
  "race_manager s \<equiv> newProcessManager\<lparr>pm_heap := [s], pm_sessions := [(1, 0)], pm_reserved := [1], pm_next := 1\<rparr>"

abbreviation race_world :: "call_phase \<Rightarrow> process_manager \<Rightarrow> process_world" where
  "race_world ph m \<equiv> \<lparr>pw_manager = m, pw_calls = [\<lparr>tc_owner = ''agent:a'', tc_phase = ph\<rparr>], pw_closing = []\<rparr>"

abbreviation race_session :: "string \<Rightarrow> nat \<Rightarrow> bool \<Rightarrow> bool \<Rightarrow> process_session" where
  "race_session out offset notified fin \<equiv> (new_session 1 ''agent:a'')\<lparr>ps_output := out, ps_offset := offset,
     ps_notified := notified, ps_done := fin, ps_exit := (if fin then Some 0 else None)\<rparr>"

lemma race_start_form: "race_start = race_world (Waiting 0 (-1)) (race_manager (race_session [] 0 False False))"
  by (simp add: race_start_def new_session_def newProcessManager_def put_call_def add_call_def new_world_def)

lemma race_steps:
  defines "lost \<equiv> \<lparr>xr_session = 0, xr_output = ''a'', xr_running = False, xr_has_more = False, xr_exit = Some 0\<rparr>"
    and "gone \<equiv> newProcessManager\<lparr>pm_heap := [(race_session ''ab'' 1 True True)\<lparr>ps_closed := True\<rparr>], pm_next := 1\<rparr>"
  shows "process_step race_start Quiet (race_world (Waiting 0 (-1)) (race_manager (race_session ''a'' 0 True False)))"
    and "process_step (race_world (Waiting 0 (-1)) (race_manager (race_session ''a'' 0 True False))) Quiet
           (race_world (Reading 0) (race_manager (race_session ''a'' 0 False False)))"
    and "process_step (race_world (Reading 0) (race_manager (race_session ''a'' 0 False False))) (Delivered 0 ''agent:a'' ''a'')
           (race_world (Deciding 0 ''a'' False) (race_manager (race_session ''a'' 1 False False)))"
    and "process_step (race_world (Deciding 0 ''a'' False) (race_manager (race_session ''a'' 1 False False))) Quiet
           (race_world (Deciding 0 ''a'' False) (race_manager (race_session ''ab'' 1 True False)))"
    and "process_step (race_world (Deciding 0 ''a'' False) (race_manager (race_session ''ab'' 1 True False))) Quiet
           (race_world (Deciding 0 ''a'' False) (race_manager (race_session ''ab'' 1 True True)))"
    and "process_step (race_world (Deciding 0 ''a'' False) (race_manager (race_session ''ab'' 1 True True))) Quiet
           (race_world (Returned (Inr lost)) gone)"
  using process_step.outputs [of 0 race_start "''a''"]
    process_step.wakes [of 0 "race_world (Waiting 0 (-1)) (race_manager (race_session ''a'' 0 True False))" "''agent:a''" 0 "-1" OutputReady]
    process_step.reads [of 0 "race_world (Reading 0) (race_manager (race_session ''a'' 0 False False))" "''agent:a''" 0 "[]"]
    process_step.outputs [of 0 "race_world (Deciding 0 ''a'' False) (race_manager (race_session ''a'' 1 False False))" "''b''"]
    process_step.exits [of 0 "race_world (Deciding 0 ''a'' False) (race_manager (race_session ''ab'' 1 True False))" "Some 0" False]
    process_step.decides [of 0 "race_world (Deciding 0 ''a'' False) (race_manager (race_session ''ab'' 1 True True))" "''agent:a''" 0 "''a''" False]
  by (simp_all add: race_start_form new_session_def newProcessManager_def put_call_def on_session_def capture_def awake_def
    collect_read_def modelVisibleProcessBytes_def readNew_def wait_def collect_decide_def cleanup_def releaseSessionID_def lost_def gone_def Let_def)

theorem process_output_once_witness:
  "\<exists>evs w. process_runs new_world evs w \<and> ps_output (pm_heap (pw_manager w) ! 0) = ''a'' \<and> delivered evs 0 = ''a'' \<and>
     list_all (\<lambda>ev. event_owner 0 ev \<in> {None, Some ''agent:a''}) evs"
proof -
  note run = process_runs.further [OF process_runs.further [OF process_runs.further [OF race_reached race_steps(1)] race_steps(2)] race_steps(3)]
  have one: "0 < length (pm_heap (pw_manager (race_world (Deciding 0 ''a'' False) (race_manager (race_session ''a'' 1 False False)))))"
    by simp
  note once = process_output_once [OF run one refl]
  show ?thesis
    by (rule exI, rule exI, rule conjI [OF run]) (use once in \<open>simp add: newProcessManager_def new_session_def\<close>)
qed

lemma collect_loses_output:
  "\<exists>evs w r. process_runs new_world evs w \<and> call_at w 0 ''agent:a'' (Returned (Inr r)) \<and> xr_output r = ''a'' \<and>
     \<not> xr_running r \<and> \<not> xr_has_more r \<and> xr_exit r = Some 0 \<and>
     ps_output (pm_heap (pw_manager w) ! 0) = ''ab'' \<and> delivered evs 0 = ''a'' \<and>
     ps_closed (pm_heap (pw_manager w) ! 0) \<and> pm_sessions (pw_manager w) = []"
proof -
  note r3 = process_runs.further [OF process_runs.further [OF process_runs.further [OF race_reached race_steps(1)] race_steps(2)] race_steps(3)]
  note r6 = process_runs.further [OF process_runs.further [OF process_runs.further [OF r3 race_steps(4)] race_steps(5)] race_steps(6)]
  show ?thesis
    by (rule exI, rule exI, rule exI [of _ "\<lparr>xr_session = 0, xr_output = ''a'', xr_running = False, xr_has_more = False, xr_exit = Some 0\<rparr>"],
        rule conjI [OF r6]) (simp add: delivered_def newProcessManager_def)
qed

end
