(* ===== verification/Envelope.thy ===== *)
theory Envelope
  imports Access Processes
begin

text \<open>
  The tools that hand recalled context to a model (internal/tooling/tools.go) and the session's
  side of them (internal/orchestrator/context_access.go). What is returned is measured as JSON
  and cut until it fits what the envelope of the assignment still has room for. The options of
  the runtime that do the recall are arguments; the session provides them.
\<close>

section \<open>Values\<close>

record search_match =
  sm_reference :: string
  sm_session :: string
  sm_sequence :: int
  sm_kind :: string
  sm_actor :: string
  sm_correlation :: string
  sm_preview :: string

record search_input =
  si_query :: string
  si_limit :: int

record search_result =
  sr_matches :: "search_match list"
  sr_truncated :: bool

record browse_input =
  bi_cursor :: string
  bi_limit :: int

record browse_result =
  br_records :: "search_match list"
  br_next :: string

text \<open>\<open>IndexPanic\<close>: the code indexes an empty list. \<open>Recall\<close> passes on what the option returned.\<close>

datatype 'e envelope_error =
    NoRoomForResults
  | NoRoomForPage
  | NoRoomForReference
  | NoRoomForCursor
  | NoRoomForChunk
  | Unavailable
  | NegativeLimit
  | IndexPanic
  | Recall 'e

section \<open>The JSON that is measured\<close>

text \<open>
  \<open>json.Marshal\<close> of the three results: strings rune by rune, with the escapes of Go for HTML,
  control characters, invalid bytes and the two line separators.
\<close>

definition lower_hex :: "nat \<Rightarrow> char" where
  "lower_hex n = (if n < 10 then char_of (48 + n) else char_of (87 + n))"

definition escape_byte :: "char \<Rightarrow> string" where
  "escape_byte c =
     (if c = CHR 0x22 \<or> c = CHR 0x5C then [CHR 0x5C, c]
      else if c = CHR 0x08 then [CHR 0x5C, CHR ''b'']
      else if c = CHR 0x0C then [CHR 0x5C, CHR ''f'']
      else if c = CHR 0x0A then [CHR 0x5C, CHR ''n'']
      else if c = CHR 0x0D then [CHR 0x5C, CHR ''r'']
      else if c = CHR 0x09 then [CHR 0x5C, CHR ''t'']
      else if c < CHR 0x20 \<or> c \<in> {CHR ''<'', CHR ''>'', CHR ''&''}
      then [CHR 0x5C, CHR ''u'', CHR ''0'', CHR ''0'', lower_hex (of_char c div 16), lower_hex (of_char c mod 16)]
      else [c])"

definition escape_rune :: "string \<Rightarrow> string" where
  "escape_rune r =
     (case r of
        [c] \<Rightarrow> escape_byte c
      | _ \<Rightarrow> if r = [CHR 0xE2, CHR 0x80, CHR 0xA8] then CHR 0x5C # ''u2028''
             else if r = [CHR 0xE2, CHR 0x80, CHR 0xA9] then CHR 0x5C # ''u2029''
             else r)"

function json_chars :: "string \<Rightarrow> string" where
  "json_chars s =
     (if s = [] then []
      else if rune_len s = 0 then (CHR 0x5C # ''ufffd'') @ json_chars (tl s)
      else escape_rune (take (rune_len s) s) @ json_chars (drop (rune_len s) s))"
  by pat_completeness auto
termination
  by (relation "measure length") auto

declare json_chars.simps [simp del]

definition json_quote :: "string \<Rightarrow> string" where
  "json_quote s = CHR 0x22 # json_chars s @ [CHR 0x22]"

definition json_members :: "(string \<times> string) list \<Rightarrow> string" where
  "json_members ms = CHR 0x7B # join '','' (map (\<lambda>(k, v). json_quote k @ '':'' @ v) ms) @ [CHR 0x7D]"

definition json_items :: "string list \<Rightarrow> string" where
  "json_items xs = (if xs = [] then ''null'' else CHR 0x5B # join '','' xs @ [CHR 0x5D])"

definition optional_text :: "string \<Rightarrow> string \<Rightarrow> (string \<times> string) list" where
  "optional_text k s = (if s = [] then [] else [(k, json_quote s)])"

definition match_text :: "search_match \<Rightarrow> string" where
  "match_text m = json_members ([(''reference'', json_quote (sm_reference m))] @ optional_text ''session_id'' (sm_session m) @
     [(''source_sequence'', itoa (sm_sequence m)), (''kind'', json_quote (sm_kind m))] @
     optional_text ''actor'' (sm_actor m) @ optional_text ''correlation_id'' (sm_correlation m) @
     [(''preview'', json_quote (sm_preview m))])"

definition search_text :: "search_result \<Rightarrow> string" where
  "search_text r = json_members ((''matches'', json_items (map match_text (sr_matches r))) #
     (if sr_truncated r then [(''truncated'', ''true'')] else []))"

definition browse_text :: "browse_result \<Rightarrow> string" where
  "browse_text r = json_members ((''records'', json_items (map match_text (br_records r))) #
     optional_text ''next_cursor'' (br_next r))"

definition json_flag :: "bool \<Rightarrow> string" where
  "json_flag b = (if b then ''true'' else ''false'')"

definition encoding_name :: "encoding \<Rightarrow> string" where
  "encoding_name e = (case e of Utf8 \<Rightarrow> ''utf-8'' | Base64 \<Rightarrow> ''base64'')"

definition open_text :: "open_result \<Rightarrow> string" where
  "open_text r = json_members ([(''reference'', json_quote (op_reference r))] @ optional_text ''session_id'' (op_session r) @
     [(''source_sequence'', itoa (op_sequence r))] @ optional_text ''occurred_at'' (op_occurred r) @
     [(''kind'', json_quote (op_kind r))] @ optional_text ''actor'' (op_actor r) @
     optional_text ''correlation_id'' (op_correlation r) @ optional_text ''causation_id'' (op_causation r) @
     [(''sha256'', json_quote (op_digest r)), (''chunk_sha256'', json_quote (op_chunk_digest r)),
      (''byte_count'', itoa (int (op_count r))), (''byte_start'', itoa (int (op_start r))),
      (''byte_end_exclusive'', itoa (int (op_end r))), (''has_more'', json_flag (op_has_more r))] @
     (if op_next r = 0 then [] else [(''next_byte_offset'', itoa (int (op_next r)))]) @
     [(''encoding'', json_quote (encoding_name (op_encoding r))), (''content'', json_quote (op_content r))])"

abbreviation size_of :: "string \<Rightarrow> int" where
  "size_of text \<equiv> int (length text)"

section \<open>How many results to ask for\<close>

definition no_match :: search_match where
  "no_match = \<lparr>sm_reference = [], sm_session = [], sm_sequence = 0, sm_kind = [], sm_actor = [], sm_correlation = [], sm_preview = []\<rparr>"

definition contextCandidateCount :: "(string, budget) gomap \<Rightarrow> string \<Rightarrow> int \<Rightarrow> string \<Rightarrow> ('e envelope_error, int \<times> int \<times> bool) res" where
  "contextCandidateCount budgets owner requested wire =
     (case modelVisibleResultBytes budgets owner of (available, known) \<Rightarrow>
        if known \<and> available \<le> 0 then Inl NoRoomForResults
        else if \<not> known then Inr (if 0 < requested then requested else 1, 0, False)
        else let perResultFloor = max 1 (size_of wire);
                 count = max 1 (available div perResultFloor)
             in Inr (if 0 < requested then min count requested else count, available, True))"

section \<open>Searching by halves\<close>

text \<open>
  The loop the three tools share: \<open>probe\<close> builds the candidate of a size, and says by \<open>Some\<close>
  that it fits.
\<close>

function bisect :: "(int \<Rightarrow> ('e, 'a option) res) \<Rightarrow> int \<Rightarrow> int \<Rightarrow> 'a option \<Rightarrow> ('e, 'a option) res" where
  "bisect probe low high best =
     (if low \<le> high then
        let middle = low + (high - low) div 2
        in (case probe middle of
              Inl e \<Rightarrow> Inl e
            | Inr (Some candidate) \<Rightarrow> bisect probe (middle + 1) high (Some candidate)
            | Inr None \<Rightarrow> bisect probe low (middle - 1) best)
      else Inr best)"
  by pat_completeness auto
termination
  by (relation "measure (\<lambda>(_, low, high, _). nat (high - low + 1))") auto

declare bisect.simps [simp del]

section \<open>Search\<close>

fun fit_matches :: "int \<Rightarrow> search_result \<Rightarrow> search_match list \<Rightarrow> search_result" where
  "fit_matches available fitted [] = fitted"
| "fit_matches available fitted (m # rest) =
     (let candidate = \<lparr>sr_matches = sr_matches fitted @ [m], sr_truncated = rest \<noteq> []\<rparr>
      in if available < size_of (search_text candidate) then fitted\<lparr>sr_truncated := True\<rparr>
         else fit_matches available candidate rest)"

definition cut_preview :: "search_match \<Rightarrow> int \<Rightarrow> search_match" where
  "cut_preview match n = match\<lparr>sm_preview := concat (take (nat n) (runes (sm_preview match)))\<rparr>"

definition fitSearchPreview :: "search_match \<Rightarrow> int \<Rightarrow> ('e envelope_error, search_match) res" where
  "fitSearchPreview match available =
     res_bind (bisect (\<lambda>n. let candidate = cut_preview match n
                           in Inr (if size_of (search_text \<lparr>sr_matches = [candidate], sr_truncated = True\<rparr>) \<le> available
                                   then Some candidate else None))
                0 (int (length (runes (sm_preview match)))) None)
       (\<lambda>best. case best of None \<Rightarrow> Inl NoRoomForReference | Some match \<Rightarrow> Inr match)"

definition searchContextForModel :: "(search_input \<Rightarrow> ('e, search_result) res) \<Rightarrow> (string, budget) gomap \<Rightarrow> string \<Rightarrow> search_input \<Rightarrow>
    ('e envelope_error, search_result) res" where
  "searchContextForModel recall budgets owner input =
     res_bind (contextCandidateCount budgets owner (si_limit input) (match_text no_match)) (\<lambda>(n, available, known).
     res_bind (map_sum Recall id (recall (input\<lparr>si_limit := n\<rparr>))) (\<lambda>found.
       if \<not> known then Inr found
       else let fitted = fit_matches available \<lparr>sr_matches = [], sr_truncated = False\<rparr> (sr_matches found) in
         if sr_matches fitted = [] \<and> sr_matches found \<noteq> []
         then res_bind (fitSearchPreview (hd (sr_matches found)) available) (\<lambda>match.
              Inr \<lparr>sr_matches = [match], sr_truncated = True\<rparr>)
         else Inr fitted))"

section \<open>Browse\<close>

definition fitBrowsePreview :: "browse_result \<Rightarrow> int \<Rightarrow> ('e envelope_error, search_match) res" where
  "fitBrowsePreview page available =
     (case br_records page of
        [] \<Rightarrow> Inl IndexPanic
      | match # _ \<Rightarrow>
          res_bind (bisect (\<lambda>n. let candidate = cut_preview match n
                                in Inr (if size_of (browse_text (page\<lparr>br_records := [candidate]\<rparr>)) \<le> available
                                        then Some candidate else None))
                     0 (int (length (runes (sm_preview match)))) None)
            (\<lambda>best. case best of None \<Rightarrow> Inl NoRoomForCursor | Some match \<Rightarrow> Inr match))"

definition browse_one :: "(browse_input \<Rightarrow> ('e, browse_result) res) \<Rightarrow> int \<Rightarrow> browse_input \<Rightarrow> ('e envelope_error, browse_result) res" where
  "browse_one recall available input =
     res_bind (map_sum Recall id (recall (input\<lparr>bi_limit := 1\<rparr>))) (\<lambda>one.
     res_bind (fitBrowsePreview one available) (\<lambda>match.
     Inr (one\<lparr>br_records := (br_records one)[0 := match]\<rparr>)))"

definition browse_shrunk :: "(browse_input \<Rightarrow> ('e, browse_result) res) \<Rightarrow> int \<Rightarrow> browse_input \<Rightarrow> browse_result \<Rightarrow>
    ('e envelope_error, browse_result) res" where
  "browse_shrunk recall available input hits =
     res_bind (bisect (\<lambda>k. res_bind (map_sum Recall id (recall (input\<lparr>bi_limit := k\<rparr>))) (\<lambda>candidate.
                         Inr (if size_of (browse_text candidate) \<le> available then Some candidate else None)))
                1 (int (length (br_records hits))) None) (\<lambda>best.
       case best of
         Some page \<Rightarrow>
           if br_records page \<noteq> [] then Inr page
           else if br_records hits = [] then Inr hits else browse_one recall available input
       | None \<Rightarrow> if br_records hits = [] then Inr hits else browse_one recall available input)"

definition browseContextForModel :: "(browse_input \<Rightarrow> ('e, browse_result) res) \<Rightarrow> (string, budget) gomap \<Rightarrow> string \<Rightarrow> browse_input \<Rightarrow>
    ('e envelope_error, browse_result) res" where
  "browseContextForModel recall budgets owner input =
     res_bind (contextCandidateCount budgets owner (bi_limit input) (match_text no_match)) (\<lambda>(n, available, known).
     res_bind (map_sum Recall id (recall (input\<lparr>bi_limit := n\<rparr>))) (\<lambda>hits.
       if \<not> known \<or> size_of (browse_text hits) \<le> available then Inr hits
       else browse_shrunk recall available input hits))"

section \<open>Open\<close>

definition open_shrunk :: "(open_input \<Rightarrow> ('e, open_result) res) \<Rightarrow> int \<Rightarrow> int \<Rightarrow> open_input \<Rightarrow> ('e envelope_error, open_result) res" where
  "open_shrunk recall available requested input =
     res_bind (bisect (\<lambda>k. res_bind (map_sum Recall id (recall (input\<lparr>oi_limit := k\<rparr>))) (\<lambda>candidate.
                         Inr (if size_of (open_text candidate) \<le> available \<and> op_start candidate < op_end candidate
                              then Some candidate else None)))
                1 requested None)
       (\<lambda>best. case best of None \<Rightarrow> Inl NoRoomForChunk | Some page \<Rightarrow> Inr page)"

definition openContextForModel :: "(open_input \<Rightarrow> ('e, open_result) res) \<Rightarrow> (string, budget) gomap \<Rightarrow> string \<Rightarrow> open_input \<Rightarrow>
    ('e envelope_error, open_result) res" where
  "openContextForModel recall budgets owner input =
     (case modelVisibleResultBytes budgets owner of (available, known) \<Rightarrow>
        let requested = (if known \<and> (oi_limit input = 0 \<or> available < oi_limit input) then available else oi_limit input)
        in if known \<and> requested \<le> 0 then Inl NoRoomForPage
           else res_bind (map_sum Recall id (recall (input\<lparr>oi_limit := requested\<rparr>))) (\<lambda>page.
             if \<not> known \<or> size_of (open_text page) \<le> available then Inr page
             else open_shrunk recall available requested input))"

section \<open>The tools\<close>

text \<open>An option that the runtime was not given is \<open>None\<close>.\<close>

definition context_search :: "(search_input \<Rightarrow> ('e, search_result) res) option \<Rightarrow> (string, budget) gomap \<Rightarrow> string \<Rightarrow> search_input \<Rightarrow>
    ('e envelope_error, search_result) res" where
  "context_search recall budgets owner input =
     (case recall of
        None \<Rightarrow> Inl Unavailable
      | Some recall \<Rightarrow> if si_limit input < 0 then Inl NegativeLimit else searchContextForModel recall budgets owner input)"

definition context_browse :: "(browse_input \<Rightarrow> ('e, browse_result) res) option \<Rightarrow> (string, budget) gomap \<Rightarrow> string \<Rightarrow> browse_input \<Rightarrow>
    ('e envelope_error, browse_result) res" where
  "context_browse recall budgets owner input =
     (case recall of
        None \<Rightarrow> Inl Unavailable
      | Some recall \<Rightarrow> if bi_limit input < 0 then Inl NegativeLimit else browseContextForModel recall budgets owner input)"

definition context_open :: "(open_input \<Rightarrow> ('e, open_result) res) option \<Rightarrow> (string, budget) gomap \<Rightarrow> string \<Rightarrow> open_input \<Rightarrow>
    ('e envelope_error, open_result) res" where
  "context_open recall budgets owner input =
     (case recall of
        None \<Rightarrow> Inl Unavailable
      | Some recall \<Rightarrow> if oi_offset input < 0 \<or> oi_limit input < 0 then Inl NegativeLimit else openContextForModel recall budgets owner input)"

section \<open>What the session provides\<close>

definition tool_match :: "context_match \<Rightarrow> search_match" where
  "tool_match m = \<lparr>sm_reference = cm_reference m, sm_session = cm_session m, sm_sequence = cm_sequence m,
     sm_kind = kind_name (cm_kind m), sm_actor = cm_actor m, sm_correlation = cm_correlation m, sm_preview = cm_preview m\<rparr>"

definition session_search :: "(string \<Rightarrow> bool) \<Rightarrow> fts \<Rightarrow> runtime \<Rightarrow> string \<Rightarrow> search_input \<Rightarrow> (access_error, search_result) res" where
  "session_search uuid_ok ft r owner input =
     map_sum id (\<lambda>ms. \<lparr>sr_matches = map tool_match ms, sr_truncated = False\<rparr>)
       (searchContext uuid_ok ft r owner (si_query input) (si_limit input))"

text \<open>
  A cursor is written by \<open>cursor_text\<close> and read by \<open>cursor_parts\<close> (base64 of a JSON object);
  what cannot be read stands for the pair of empty strings, which no cursor may be.
\<close>

record cursor_codec =
  cx_text :: "string \<times> string \<Rightarrow> string"
  cx_parts :: "string \<Rightarrow> (string \<times> string) option"
  cx_ok :: "string \<times> string \<Rightarrow> bool"

definition read_cursor :: "cursor_codec \<Rightarrow> string \<Rightarrow> (string \<times> string) option" where
  "read_cursor cx raw =
     (if trim raw = [] then None
      else Some (case cx_parts cx (trim raw) of None \<Rightarrow> ([], []) | Some mark \<Rightarrow> mark))"

definition cursor_valid :: "cursor_codec \<Rightarrow> string \<times> string \<Rightarrow> bool" where
  "cursor_valid cx mark \<longleftrightarrow> fst mark \<noteq> [] \<and> snd mark \<noteq> [] \<and> cx_ok cx mark"

definition session_browse :: "cursor_codec \<Rightarrow> (string \<Rightarrow> bool) \<Rightarrow> runtime \<Rightarrow> string \<Rightarrow> browse_input \<Rightarrow> (access_error, browse_result) res" where
  "session_browse cx uuid_ok r owner input =
     map_sum id (\<lambda>(records, mark). \<lparr>br_records = map tool_match records,
         br_next = (case mark of None \<Rightarrow> [] | Some mark \<Rightarrow> cx_text cx mark)\<rparr>)
       (browseContext uuid_ok (cursor_valid cx) r owner (read_cursor cx (bi_cursor input)) (bi_limit input))"

section \<open>Research providers\<close>

datatype 'e research_error = NotConfigured | UnsupportedProvider string | ResolverFailed 'e

definition researchProvider :: "('e, string) res option \<Rightarrow> bool \<Rightarrow> ('e research_error, string) res" where
  "researchProvider resolver exa =
     (case resolver of
        None \<Rightarrow> if exa then Inr ''exa'' else Inl NotConfigured
      | Some (Inl e) \<Rightarrow> Inl (ResolverFailed e)
      | Some (Inr provider) \<Rightarrow>
          if provider = ''exa'' \<or> provider = ''linkup'' then Inr provider else Inl (UnsupportedProvider provider))"

definition ProviderForTool :: "('e, string) res option \<Rightarrow> bool \<Rightarrow> string \<Rightarrow> string" where
  "ProviderForTool resolver exa name =
     (if name = ''web_search'' \<or> name = ''web_fetch'' \<or> name = ''web_answer''
      then (case researchProvider resolver exa of Inr provider \<Rightarrow> provider | Inl _ \<Rightarrow> [])
      else [])"

section \<open>Sizes\<close>

lemma length_join: "xs \<noteq> [] \<Longrightarrow> Suc (length (join [c] xs)) = sum_list (map (\<lambda>x. Suc (length x)) xs)"
  by (induction "[c]" xs rule: join.induct) simp_all

lemma length_json_members:
  "ms \<noteq> [] \<Longrightarrow> length (json_members ms) = 1 + sum_list (map (\<lambda>(k, v). length (json_quote k) + length v + 2) ms)"
proof -
  assume ms: "ms \<noteq> []"
  have "Suc (length (join '','' (map (\<lambda>(k, v). json_quote k @ '':'' @ v) ms))) =
      sum_list (map (\<lambda>x. Suc (length x)) (map (\<lambda>(k, v). json_quote k @ '':'' @ v) ms))"
    using ms by (intro length_join) simp
  also have "\<dots> = sum_list (map (\<lambda>(k, v). length (json_quote k) + length v + 2) ms)"
    by (simp add: comp_def case_prod_unfold)
  finally show ?thesis by (simp add: json_members_def)
qed

lemma length_json_items: "xs \<noteq> [] \<Longrightarrow> length (json_items xs) = 1 + sum_list (map (\<lambda>x. Suc (length x)) xs)"
  using length_join [of xs "CHR '',''"] by (simp add: json_items_def)

text \<open>Text made of runes is escaped rune by rune.\<close>

definition rune :: "string \<Rightarrow> bool" where
  "rune r \<longleftrightarrow> r \<noteq> [] \<and> rune_len r = length r"

lemma runes_runes: "r \<in> set (runes s) \<Longrightarrow> rune r"
proof (induction s rule: runes.induct)
  case (1 s)
  have replacement: "rune [CHR 0xEF, CHR 0xBF, CHR 0xBD]"
    by (simp add: rune_def rune_len_def cont_def less_char_def less_eq_char_def)
  show ?case
  proof (cases "s = [] \<or> rune_len s = 0")
    case True
    then show ?thesis using 1 replacement by (auto simp: runes.simps [of s] split: if_splits)
  next
    case False
    then have "rune (take (rune_len s) s)"
      using rune_len_append [of s "[]"] rune_len_le [of s] by (auto simp: rune_def)
    then show ?thesis using 1 False by (auto simp: runes.simps [of s])
  qed
qed

lemma json_chars_rune: "rune r \<Longrightarrow> json_chars (r @ t) = escape_rune r @ json_chars t"
proof -
  assume r: "rune r"
  then have "rune_len (r @ t) = length r" "rune_len (r @ t) \<noteq> 0"
    using rune_len_append [of r t] by (auto simp: rune_def)
  then show ?thesis using r by (subst json_chars.simps) (simp add: rune_def)
qed

lemma json_chars_Nil [simp]: "json_chars [] = []"
  by (simp add: json_chars.simps)

lemma json_chars_concat: "(\<And>r. r \<in> set rs \<Longrightarrow> rune r) \<Longrightarrow> json_chars (concat rs) = concat (map escape_rune rs)"
  by (induction rs) (simp_all add: json_chars_rune)

lemma escape_rune_nonempty: "rune r \<Longrightarrow> 0 < length (escape_rune r)"
  by (auto simp: rune_def escape_rune_def escape_byte_def split: list.splits)

lemma quote_grows:
  assumes "i < j" and "j \<le> length (runes s)"
  shows "length (json_quote (concat (take i (runes s)))) < length (json_quote (concat (take j (runes s))))"
proof -
  let ?t = "drop i (take j (runes s))"
  have ok: "rune r" if "r \<in> set (take k (runes s))" for k r
    using that runes_runes [of r s] set_take_subset by fastforce
  have parts: "take j (runes s) = take i (runes s) @ ?t"
    using assms by (metis append_take_drop_id less_imp_le min.absorb1 take_take)
  have "?t \<noteq> []" using assms by simp
  moreover have "rune r" if "r \<in> set ?t" for r using that ok [of r j] by (metis in_set_dropD)
  ultimately have pos: "0 < length (concat (map escape_rune ?t))"
    using escape_rune_nonempty by (cases ?t) auto
  have "concat (map escape_rune (take j (runes s))) = concat (map escape_rune (take i (runes s))) @ concat (map escape_rune ?t)"
    using arg_cong [OF parts, of "\<lambda>rs. concat (map escape_rune rs)"] by simp
  then show ?thesis
    using json_chars_concat [of "take i (runes s)", OF ok] json_chars_concat [of "take j (runes s)", OF ok] pos
    by (simp add: json_quote_def)
qed

lemma match_text_grows:
  assumes "i < j" and "j \<le> length (runes (sm_preview m))"
  shows "length (match_text (cut_preview m (int i))) < length (match_text (cut_preview m (int j)))"
  using quote_grows [OF assms] by (simp add: match_text_def length_json_members cut_preview_def)

lemma key_lengths:
  "length (json_quote ''matches'') = 9" "length (json_quote ''truncated'') = 11" "length (json_quote ''reference'') = 11"
  "length (json_quote ''source_sequence'') = 17" "length (json_quote ''records'') = 9" "length (json_quote ''next_cursor'') = 13"
  by (simp_all add: json_quote_def json_chars.simps rune_len_def escape_rune_def escape_byte_def less_char_def)

lemma match_text_long: "30 \<le> length (match_text m)"
  by (simp add: match_text_def length_json_members key_lengths)

lemma search_text_length:
  "length (search_text \<lparr>sr_matches = ms, sr_truncated = t\<rparr>) =
     12 + (if ms = [] then 4 else 1 + sum_list (map (\<lambda>m. Suc (length (match_text m))) ms)) + (if t then 17 else 0)"
proof -
  have "length (json_items (map match_text ms)) = (if ms = [] then 4 else 1 + sum_list (map (\<lambda>m. Suc (length (match_text m))) ms))"
    using length_json_items [of "map match_text ms"] by (simp add: comp_def json_items_def)
  then show ?thesis by (simp add: search_text_def length_json_members key_lengths)
qed

section \<open>Halving finds what trying from the top finds\<close>

lemma bisect_result:
  assumes "bisect probe low high best = Inr (Some x)"
  shows "best = Some x \<or> (\<exists>k. low \<le> k \<and> k \<le> high \<and> probe k = Inr (Some x))"
  using assms
proof (induction probe low high best rule: bisect.induct)
  case (1 probe low high best)
  let ?m = "low + (high - low) div 2"
  show ?case
  proof (cases "low \<le> high")
    case True
    then have m: "low \<le> ?m" "?m \<le> high" by linarith+
    show ?thesis
    proof (cases "probe ?m")
      case (Inl e)
      then show ?thesis using "1.prems" True by (simp add: bisect.simps [of probe low] Let_def)
    next
      case (Inr c)
      show ?thesis
      proof (cases c)
        case None
        then have "bisect probe low (?m - 1) best = Inr (Some x)"
          using "1.prems" True Inr by (simp add: bisect.simps [of probe low high] Let_def)
        from "1.IH"(1) [OF True refl Inr None this] show ?thesis using m by force
      next
        case (Some y)
        then have "bisect probe (?m + 1) high (Some y) = Inr (Some x)"
          using "1.prems" True Inr by (simp add: bisect.simps [of probe low high] Let_def)
        from "1.IH"(2) [OF True refl Inr Some this] show ?thesis using m Inr Some by force
      qed
    qed
  next
    case False
    then show ?thesis using "1.prems" by (simp add: bisect.simps [of probe low])
  qed
qed

lemma upto_middle: "low \<le> m \<Longrightarrow> m \<le> high \<Longrightarrow> [low..high] = [low..m - 1] @ m # [m + 1..high]"
  using upto_split2 [of low m high] upto_rec2 [of low m] by simp

lemma find_none: "(\<And>x. x \<in> set xs \<Longrightarrow> \<not> P x) \<Longrightarrow> find P xs = None"
  by (simp add: find_None_iff)

lemma bisect_greatest:
  assumes "\<And>k. low \<le> k \<Longrightarrow> k \<le> high \<Longrightarrow> probe k = Inr (if fit k then Some (page k) else None)"
    and "\<And>i j. low \<le> i \<Longrightarrow> i \<le> j \<Longrightarrow> j \<le> high \<Longrightarrow> fit j \<Longrightarrow> fit i"
  shows "bisect probe low high best =
    Inr (case find fit (rev [low..high]) of Some k \<Rightarrow> Some (page k) | None \<Rightarrow> best)"
  using assms
proof (induction probe low high best rule: bisect.induct)
  case (1 probe low high best)
  let ?m = "low + (high - low) div 2"
  show ?case
  proof (cases "low \<le> high")
    case True
    then have m: "low \<le> ?m" "?m \<le> high" by linarith+
    note cut = upto_middle [OF m]
    have probe: "probe ?m = Inr (if fit ?m then Some (page ?m) else None)" using "1.prems"(1) m by simp
    show ?thesis
    proof (cases "fit ?m")
      case True
      then have "bisect probe low high best = bisect probe (?m + 1) high (Some (page ?m))"
        using \<open>low \<le> high\<close> probe by (simp add: bisect.simps [of probe low high] Let_def)
      moreover have "bisect probe (?m + 1) high (Some (page ?m)) =
          Inr (case find fit (rev [?m + 1..high]) of Some k \<Rightarrow> Some (page k) | None \<Rightarrow> Some (page ?m))"
        by (rule "1.IH"(2) [OF \<open>low \<le> high\<close> refl _ refl]) (use probe True "1.prems" m in auto)
      ultimately show ?thesis using True by (simp add: cut find_append split: option.splits)
    next
      case False
      then have "bisect probe low high best = bisect probe low (?m - 1) best"
        using \<open>low \<le> high\<close> probe by (simp add: bisect.simps [of probe low high] Let_def)
      moreover have "bisect probe low (?m - 1) best =
          Inr (case find fit (rev [low..?m - 1]) of Some k \<Rightarrow> Some (page k) | None \<Rightarrow> best)"
        by (rule "1.IH"(1) [OF \<open>low \<le> high\<close> refl _ refl]) (use probe False "1.prems" m in auto)
      moreover have "\<not> fit k" if "?m + 1 \<le> k" "k \<le> high" for k
        using "1.prems"(2) [OF m(1), of k] False that by auto
      then have "find fit (rev [?m + 1..high]) = None" by (intro find_none) simp
      ultimately show ?thesis using False by (simp add: cut find_append)
    qed
  qed (simp add: bisect.simps [of probe low high])
qed

lemma upto_nat: "[0..int n] = map int [0..<Suc n]"
  by (induction n) (simp_all add: upto_rec2)

lemma find_map: "find P (map f xs) = map_option f (find (P \<circ> f) xs)"
  by (induction xs) simp_all

text \<open>The same over natural numbers, from zero.\<close>

lemma bisect_from_zero:
  assumes "\<And>i j. i \<le> j \<Longrightarrow> j \<le> n \<Longrightarrow> fit j \<Longrightarrow> fit i"
  shows "bisect (\<lambda>k. Inr (if fit (nat k) then Some (page (nat k)) else None)) 0 (int n) best =
    Inr (case find fit (rev [0..<Suc n]) of Some k \<Rightarrow> Some (page k) | None \<Rightarrow> best)"
proof -
  have mono: "fit (nat i)" if "i \<le> j" "j \<le> int n" "fit (nat j)" for i j
    using assms [of "nat i" "nat j"] that by simp
  have "find (\<lambda>k. fit (nat k)) (rev [0..int n]) = map_option int (find fit (rev [0..<Suc n]))"
    unfolding upto_nat rev_map find_map by (simp add: comp_def)
  then show ?thesis
    by (subst bisect_greatest [where fit = "\<lambda>k. fit (nat k)" and page = "\<lambda>k. page (nat k)"])
      (use mono in \<open>auto split: option.splits\<close>)
qed

section \<open>What a search returns\<close>

definition search_candidate :: "search_match list \<Rightarrow> nat \<Rightarrow> search_result" where
  "search_candidate hits k = \<lparr>sr_matches = take k hits, sr_truncated = k < length hits\<rparr>"

definition preview_candidate :: "search_match \<Rightarrow> nat \<Rightarrow> search_result" where
  "preview_candidate m k = \<lparr>sr_matches = [cut_preview m (int k)], sr_truncated = True\<rparr>"

text \<open>
  The largest result that fits, hits by trying every size from the top: as many whole matches
  as possible, else the first one with as much of its preview as possible.
\<close>

definition largest_search :: "int \<Rightarrow> search_match list \<Rightarrow> ('e envelope_error, search_result) res" where
  "largest_search available hits =
     (if hits = [] then Inr \<lparr>sr_matches = [], sr_truncated = False\<rparr>
      else case find (\<lambda>k. size_of (search_text (search_candidate hits k)) \<le> available) (rev [1..<Suc (length hits)]) of
        Some k \<Rightarrow> Inr (search_candidate hits k)
      | None \<Rightarrow>
          (case find (\<lambda>k. size_of (search_text (preview_candidate (hd hits) k)) \<le> available)
                  (rev [0..<Suc (length (runes (sm_preview (hd hits))))]) of
             Some k \<Rightarrow> Inr (preview_candidate (hd hits) k)
           | None \<Rightarrow> Inl NoRoomForReference))"

lemma candidate_grows:
  assumes "0 < i" and "i < j" and "j \<le> length hits"
  shows "length (search_text (search_candidate hits i)) < length (search_text (search_candidate hits j))"
proof -
  let ?size = "\<lambda>k. sum_list (map (\<lambda>m. Suc (length (match_text m))) (take k hits))"
  have "take j hits = take i hits @ take (j - i) (drop i hits)"
    using assms by (metis le_add_diff_inverse less_imp_le take_add)
  moreover obtain m rest where "take (j - i) (drop i hits) = m # rest"
    using assms by (cases "take (j - i) (drop i hits)") auto
  ultimately have "?size i + 30 < ?size j" using match_text_long [of m] by simp
  moreover have "length (search_text (search_candidate hits k)) = 13 + ?size k + (if k < length hits then 17 else 0)" if "0 < k" "k \<le> length hits" for k
    using that by (auto simp: search_candidate_def search_text_length)
  ultimately show ?thesis using assms by simp
qed

lemma preview_grows:
  "i < j \<Longrightarrow> j \<le> length (runes (sm_preview m)) \<Longrightarrow>
   length (search_text (preview_candidate m i)) < length (search_text (preview_candidate m j))"
  using match_text_grows [of i j m] by (simp add: preview_candidate_def search_text_length)

lemma fit_matches_largest:
  assumes "i \<le> length hits" and "i = 0 \<Longrightarrow> start = \<lparr>sr_matches = [], sr_truncated = False\<rparr>"
    and "0 < i \<Longrightarrow> start = search_candidate hits i"
  shows "fit_matches available start (drop i hits) =
    (case find (\<lambda>k. size_of (search_text (search_candidate hits k)) \<le> available) (rev [Suc i..<Suc (length hits)]) of
       Some k \<Rightarrow> search_candidate hits k
     | None \<Rightarrow> start\<lparr>sr_truncated := i < length hits\<rparr>)"
  using assms
proof (induction "length hits - i" arbitrary: i start)
  case 0
  then have "i = length hits" by simp
  then show ?case using 0 by (cases start; cases i) (auto simp: search_candidate_def)
next
  case (Suc n)
  let ?fits = "\<lambda>k. size_of (search_text (search_candidate hits k)) \<le> available"
  have less: "i < length hits" using Suc.hyps(2) by simp
  have shape: "drop i hits = hits ! i # drop (Suc i) hits" using less by (simp add: Cons_nth_drop_Suc)
  have first: "sr_matches start = take i hits" using Suc.prems by (cases i) (simp_all add: search_candidate_def)
  have cand: "\<lparr>sr_matches = sr_matches start @ [hits ! i], sr_truncated = drop (Suc i) hits \<noteq> []\<rparr> = search_candidate hits (Suc i)"
    using less first by (simp add: search_candidate_def take_Suc_conv_app_nth not_le)
  have top: "rev [Suc i..<Suc (length hits)] = rev [Suc (Suc i)..<Suc (length hits)] @ [Suc i]"
    using less by (simp add: upt_conv_Cons)
  show ?case
  proof (cases "?fits (Suc i)")
    case True
    have "fit_matches available (search_candidate hits (Suc i)) (drop (Suc i) hits) =
      (case find ?fits (rev [Suc (Suc i)..<Suc (length hits)]) of Some k \<Rightarrow> search_candidate hits k
       | None \<Rightarrow> (search_candidate hits (Suc i))\<lparr>sr_truncated := Suc i < length hits\<rparr>)"
      by (rule Suc.hyps(1)) (use Suc.hyps(2) less in auto)
    then show ?thesis unfolding shape fit_matches.simps Let_def cand top find_append
      using True by (auto simp: search_candidate_def split: option.splits)
  next
    case False
    have "find ?fits (rev [Suc i..<Suc (length hits)]) = None"
    proof (rule find_none)
      fix k assume "k \<in> set (rev [Suc i..<Suc (length hits)])"
      then have k: "Suc i \<le> k" "k \<le> length hits" by auto
      show "\<not> ?fits k" using candidate_grows [of "Suc i" k hits] k False by (cases "k = Suc i") auto
    qed
    then show ?thesis unfolding shape fit_matches.simps Let_def cand using False less by simp
  qed
qed

lemma cut_nat [simp]: "cut_preview m (int (nat k)) = cut_preview m k"
  by (auto simp: cut_preview_def)

lemma fitSearchPreview_largest:
  "(fitSearchPreview m available :: ('e envelope_error, search_match) res) =
    (case find (\<lambda>k. size_of (search_text (preview_candidate m k)) \<le> available) (rev [0..<Suc (length (runes (sm_preview m)))]) of
       Some k \<Rightarrow> Inr (cut_preview m (int k))
     | None \<Rightarrow> Inl NoRoomForReference)"
proof -
  let ?fit = "\<lambda>k. size_of (search_text (preview_candidate m k)) \<le> available"
  have mono: "?fit i" if "i \<le> j" "j \<le> length (runes (sm_preview m))" "?fit j" for i j
    using that preview_grows [of i j m] by (cases "i = j") auto
  have probe: "(\<lambda>n. let candidate = cut_preview m n
        in Inr (if size_of (search_text \<lparr>sr_matches = [candidate], sr_truncated = True\<rparr>) \<le> available then Some candidate else None)) =
      (\<lambda>k. Inr (if ?fit (nat k) then Some (cut_preview m (int (nat k))) else None))"
    unfolding Let_def preview_candidate_def cut_nat ..
  have "(bisect (\<lambda>k. Inr (if ?fit (nat k) then Some (cut_preview m (int (nat k))) else None)) 0 (int (length (runes (sm_preview m)))) None ::
      ('e envelope_error, search_match option) res) = Inr (case find ?fit (rev [0..<Suc (length (runes (sm_preview m)))]) of Some k \<Rightarrow> Some (cut_preview m (int k)) | None \<Rightarrow> None)"
    by (rule bisect_from_zero [where page = "\<lambda>k. cut_preview m (int k)"]) (rule mono)
  then show ?thesis unfolding fitSearchPreview_def probe by (simp del: upt_Suc split: option.splits)
qed

text \<open>A browsed page is measured with its cursor.\<close>

lemma browse_text_length:
  "length (browse_text page) = 12 + length (json_items (map match_text (br_records page))) +
     (if br_next page = [] then 0 else 15 + length (json_quote (br_next page)))"
  by (simp add: browse_text_def optional_text_def length_json_members key_lengths)

lemma search_by_size:
  fixes recall :: "search_input \<Rightarrow> ('e, search_result) res"
  assumes "contextCandidateCount budgets owner (si_limit input) (match_text no_match) =
      (Inr (n, available, True) :: ('e envelope_error, int \<times> int \<times> bool) res)"
    and "recall (input\<lparr>si_limit := n\<rparr>) = Inr r"
  shows "searchContextForModel recall budgets owner input = largest_search available (sr_matches r)"
proof -
  let ?hits = "sr_matches r"
  let ?fits = "\<lambda>k. size_of (search_text (search_candidate ?hits k)) \<le> available"
  have whole: "fit_matches available \<lparr>sr_matches = [], sr_truncated = False\<rparr> ?hits =
    (case find ?fits (rev [1..<Suc (length ?hits)]) of Some k \<Rightarrow> search_candidate ?hits k
     | None \<Rightarrow> \<lparr>sr_matches = [], sr_truncated = 0 < length ?hits\<rparr>)"
    using fit_matches_largest [of 0 ?hits "\<lparr>sr_matches = [], sr_truncated = False\<rparr>" available]
    unfolding drop_0 One_nat_def search_result.update_convs by (simp del: upt_Suc)
  have some: "sr_matches (search_candidate ?hits k) \<noteq> []" if "find ?fits (rev [1..<Suc (length ?hits)]) = Some k" for k
    using find_SomeD [OF that] by (auto simp: search_candidate_def)
  have run: "searchContextForModel recall budgets owner input =
    (let fitted = fit_matches available \<lparr>sr_matches = [], sr_truncated = False\<rparr> ?hits
     in if sr_matches fitted = [] \<and> ?hits \<noteq> []
        then res_bind (fitSearchPreview (hd ?hits) available) (\<lambda>m. Inr \<lparr>sr_matches = [m], sr_truncated = True\<rparr>)
        else Inr fitted)"
    using assms by (simp add: searchContextForModel_def)
  show ?thesis
  proof (cases "find ?fits (rev [1..<Suc (length ?hits)])")
    case None
    then show ?thesis unfolding run whole largest_search_def fitSearchPreview_largest Let_def
      by (auto simp: preview_candidate_def simp del: upt_Suc split: option.splits)
  next
    case (Some k)
    then have "?hits \<noteq> []" by auto
    then show ?thesis using Some some [OF Some] unfolding run whole largest_search_def Let_def by simp
  qed
qed

section \<open>What browsing and opening return\<close>

lemma map_sum_Inr_iff: "map_sum f id r = Inr y \<longleftrightarrow> r = Inr y"
  by (cases r) simp_all

lemma cut_reference [simp]: "sm_reference (cut_preview m n) = sm_reference m"
  by (simp add: cut_preview_def)

lemma count_positive: "contextCandidateCount budgets owner requested wire = Inr (n, available, known) \<Longrightarrow> 0 < n"
  by (auto simp: contextCandidateCount_def Let_def split: prod.splits if_splits)

lemma fitBrowsePreview_fits:
  assumes "fitBrowsePreview page available = Inr m"
  shows "\<exists>first rest n. br_records page = first # rest \<and> m = cut_preview first n \<and>
    size_of (browse_text (page\<lparr>br_records := [m]\<rparr>)) \<le> available"
  using assms bisect_result
  by (fastforce simp: fitBrowsePreview_def Let_def res_bind_Inr_iff split: list.splits option.splits if_splits)

lemma browse_one_result:
  fixes recall :: "browse_input \<Rightarrow> ('e, browse_result) res"
  assumes "browse_one recall available input = Inr page"
  shows "\<exists>p. recall (input\<lparr>bi_limit := 1\<rparr>) = Inr p \<and> br_next page = br_next p \<and>
    map sm_reference (br_records page) = map sm_reference (br_records p) \<and>
    (length (br_records p) \<le> 1 \<longrightarrow> size_of (browse_text page) \<le> available)"
proof -
  obtain p m where p: "recall (input\<lparr>bi_limit := 1\<rparr>) = Inr p" and m: "(fitBrowsePreview p available :: ('e envelope_error, search_match) res) = Inr m"
    and page: "page = p\<lparr>br_records := (br_records p)[0 := m]\<rparr>"
    using assms by (auto simp: browse_one_def res_bind_Inr_iff map_sum_Inr_iff)
  obtain first rest n where c: "br_records p = first # rest" "m = cut_preview first n"
    "size_of (browse_text (p\<lparr>br_records := [m]\<rparr>)) \<le> available"
    using fitBrowsePreview_fits [OF m] by blast
  have "map sm_reference (br_records page) = map sm_reference (br_records p)" using page c(1,2) by simp
  moreover have "size_of (browse_text page) \<le> available" if "length (br_records p) \<le> 1"
    using that c page by (cases rest) simp_all
  ultimately show ?thesis using p page by auto
qed

text \<open>A page that was browsed is one the store cut, of some size; at most the preview of its first record is shorter.\<close>

lemma browse_shrunk_result:
  assumes "browse_shrunk recall available input r = Inr page"
  shows "page = r \<and> br_records r = [] \<or> browse_one recall available input = Inr page \<or>
    (\<exists>k>0. recall (input\<lparr>bi_limit := k\<rparr>) = Inr page \<and> size_of (browse_text page) \<le> available)"
proof -
  obtain best where best: "bisect (\<lambda>k. res_bind (map_sum Recall id (recall (input\<lparr>bi_limit := k\<rparr>))) (\<lambda>candidate.
        Inr (if size_of (browse_text candidate) \<le> available then Some candidate else None))) 1 (int (length (br_records r))) None = Inr best"
    and cases: "(case best of
         Some page \<Rightarrow>
           if br_records page \<noteq> [] then Inr page
           else if br_records r = [] then Inr r else browse_one recall available input
       | None \<Rightarrow> if br_records r = [] then Inr r else browse_one recall available input) = Inr page"
    using assms unfolding browse_shrunk_def res_bind_Inr_iff by (elim exE conjE)
  show ?thesis
  proof (cases "\<exists>p. best = Some p \<and> br_records p \<noteq> []")
    case True
    then have "best = Some page" using cases by auto
    from bisect_result [OF best [unfolded this]] obtain k where k: "1 \<le> k"
      "res_bind (map_sum Recall id (recall (input\<lparr>bi_limit := k\<rparr>))) (\<lambda>candidate.
        Inr (if size_of (browse_text candidate) \<le> available then Some candidate else None)) = Inr (Some page)"
      by blast
    then have "recall (input\<lparr>bi_limit := k\<rparr>) = Inr page \<and> size_of (browse_text page) \<le> available"
      by (auto simp: res_bind_Inr_iff map_sum_Inr_iff split: if_splits)
    then show ?thesis using k(1) by force
  next
    case False
    then have "(if br_records r = [] then Inr r else browse_one recall available input) = Inr page"
      using cases by (cases best) simp_all
    then show ?thesis by (cases "br_records r = []") simp_all
  qed
qed

lemma browse_cases:
  fixes recall :: "browse_input \<Rightarrow> ('e, browse_result) res"
  assumes "browseContextForModel recall budgets owner input = Inr page"
  shows "\<exists>n available known r. (contextCandidateCount budgets owner (bi_limit input) (match_text no_match) =
      (Inr (n, available, known) :: ('e envelope_error, int \<times> int \<times> bool) res)) \<and> recall (input\<lparr>bi_limit := n\<rparr>) = Inr r \<and>
    (page = r \<and> (\<not> known \<or> size_of (browse_text r) \<le> available) \<or> browse_shrunk recall available input r = Inr page)"
  using assms by (fastforce simp: browseContextForModel_def res_bind_Inr_iff map_sum_Inr_iff split: if_splits)

lemma browse_result:
  assumes "browseContextForModel recall budgets owner input = Inr page"
  shows "\<exists>k p. 0 < k \<and> recall (input\<lparr>bi_limit := k\<rparr>) = Inr p \<and> br_next page = br_next p \<and>
    map sm_reference (br_records page) = map sm_reference (br_records p)"
proof -
  obtain n available known r where n: "0 < n" "recall (input\<lparr>bi_limit := n\<rparr>) = Inr r"
    and cases: "page = r \<or> browse_shrunk recall available input r = Inr page"
    using browse_cases [OF assms] count_positive by metis
  from cases show ?thesis
  proof
    assume "browse_shrunk recall available input r = Inr page"
    then show ?thesis using browse_shrunk_result n browse_one_result
      by (metis zero_less_one)
  qed (use n in blast)
qed

lemma open_cases:
  fixes recall :: "open_input \<Rightarrow> ('e, open_result) res"
  assumes "openContextForModel recall budgets owner input = Inr page"
    and "modelVisibleResultBytes budgets owner = (available, True)"
  shows "\<exists>k. 0 < k \<and> k \<le> available \<and> recall (input\<lparr>oi_limit := k\<rparr>) = Inr page \<and> size_of (open_text page) \<le> available \<and>
    (0 < oi_limit input \<longrightarrow> k \<le> oi_limit input)"
proof -
  define requested where "requested = (if oi_limit input = 0 \<or> available < oi_limit input then available else oi_limit input)"
  have run: "openContextForModel recall budgets owner input =
    (if requested \<le> 0 then Inl NoRoomForPage
     else res_bind (map_sum Recall id (recall (input\<lparr>oi_limit := requested\<rparr>))) (\<lambda>page.
       if size_of (open_text page) \<le> available then Inr page else open_shrunk recall available requested input))"
    unfolding openContextForModel_def assms(2) prod.case Let_def requested_def by simp
  obtain r where pos: "0 < requested" and r: "recall (input\<lparr>oi_limit := requested\<rparr>) = Inr r"
    and cases: "size_of (open_text r) \<le> available \<and> page = r \<or> open_shrunk recall available requested input = Inr page"
    using assms(1) unfolding run by (auto simp: res_bind_Inr_iff map_sum_Inr_iff split: if_splits)
  have top: "requested \<le> available" "0 < oi_limit input \<longrightarrow> requested \<le> oi_limit input" by (auto simp: requested_def)
  from cases show ?thesis
  proof
    assume "open_shrunk recall available requested input = Inr page"
    then have best: "bisect (\<lambda>k. res_bind (map_sum Recall id (recall (input\<lparr>oi_limit := k\<rparr>))) (\<lambda>candidate.
        Inr (if size_of (open_text candidate) \<le> available \<and> op_start candidate < op_end candidate
             then Some candidate else None))) 1 requested None = Inr (Some page)"
      unfolding open_shrunk_def res_bind_Inr_iff by (auto split: option.splits)
    from bisect_result [OF this] obtain k where k: "1 \<le> k" "k \<le> requested"
      "res_bind (map_sum Recall id (recall (input\<lparr>oi_limit := k\<rparr>))) (\<lambda>candidate.
        Inr (if size_of (open_text candidate) \<le> available \<and> op_start candidate < op_end candidate
             then Some candidate else None)) = Inr (Some page)"
      by blast
    then have "recall (input\<lparr>oi_limit := k\<rparr>) = Inr page \<and> size_of (open_text page) \<le> available"
      by (auto simp: res_bind_Inr_iff map_sum_Inr_iff split: if_splits)
    then show ?thesis using k(1,2) top by (intro exI [of _ k]) auto
  qed (use pos r top in auto)
qed

lemma map_sum_Inr_cases: "map_sum f g r = Inr y \<longleftrightarrow> (\<exists>x. r = Inr x \<and> y = g x)"
  by (cases r) auto

text \<open>A page of the session's archive is one of the store, and has at most as many records as were asked for.\<close>

lemma session_browse_form:
  "session_browse cx uuid_ok r owner input = Inr page \<longleftrightarrow>
   (\<exists>scope records mark. contextScope uuid_ok r owner = Inr scope \<and>
      BrowseContextInScope (cursor_valid cx) (rt_store r) scope (read_cursor cx (bi_cursor input)) (bi_limit input) = Inr (records, mark) \<and>
      page = \<lparr>br_records = map tool_match records, br_next = (case mark of None \<Rightarrow> [] | Some mark \<Rightarrow> cx_text cx mark)\<rparr>)"
  by (auto simp: session_browse_def browseContext_def map_sum_Inr_cases res_bind_Inr_iff)

lemma browse_limit: "BrowseContextInScope cursor_ok st scope cursor limit = Inr (records, mark) \<Longrightarrow> length records \<le> nat limit"
  by (simp add: BrowseContextInScope_def res_bind_Inr_iff Let_def split: if_splits) auto

lemma session_browse_limit: "session_browse cx uuid_ok r owner input = Inr page \<Longrightarrow> length (br_records page) \<le> nat (bi_limit input)"
  by (auto simp: session_browse_form dest: browse_limit)

lemma browse_fits:
  assumes "browseContextForModel (session_browse cx uuid_ok r owner) budgets owner input = Inr page"
    and "modelVisibleResultBytes budgets owner = (available, True)"
  shows "br_records page = [] \<or> size_of (browse_text page) \<le> available"
proof -
  obtain n room known p where c: "contextCandidateCount budgets owner (bi_limit input) (match_text no_match) =
      (Inr (n, room, known) :: (access_error envelope_error, int \<times> int \<times> bool) res)"
    and cases: "page = p \<and> (\<not> known \<or> size_of (browse_text p) \<le> room) \<or>
      browse_shrunk (session_browse cx uuid_ok r owner) room input p = Inr page"
    using browse_cases [OF assms(1)] by blast
  have room: "room = available" "known" using c assms(2) by (auto simp: contextCandidateCount_def Let_def split: if_splits)
  from cases show ?thesis
  proof
    assume "browse_shrunk (session_browse cx uuid_ok r owner) room input p = Inr page"
    from browse_shrunk_result [OF this] consider "br_records page = []"
      | "browse_one (session_browse cx uuid_ok r owner) room input = Inr page" | "size_of (browse_text page) \<le> room"
      by blast
    then show ?thesis
    proof cases
      case 2
      from browse_one_result [OF this] show ?thesis using session_browse_limit room by fastforce
    qed (use room in auto)
  qed (use room in auto)
qed

lemma largest_fits: "largest_search available hits = Inr r \<Longrightarrow> sr_matches r = [] \<or> size_of (search_text r) \<le> available"
  by (auto simp: largest_search_def simp del: upt_Suc split: option.splits if_splits dest: find_SomeD)

lemma search_fits:
  fixes recall :: "search_input \<Rightarrow> ('e, search_result) res"
  assumes "searchContextForModel recall budgets owner input = Inr r"
    and "modelVisibleResultBytes budgets owner = (available, True)"
  shows "sr_matches r = [] \<or> size_of (search_text r) \<le> available"
proof -
  obtain n room known hits where c: "contextCandidateCount budgets owner (si_limit input) (match_text no_match) =
      (Inr (n, room, known) :: ('e envelope_error, int \<times> int \<times> bool) res)" and hits: "recall (input\<lparr>si_limit := n\<rparr>) = Inr hits"
    using assms(1) by (auto simp: searchContextForModel_def res_bind_Inr_iff map_sum_Inr_iff)
  have "room = available" "known" using c assms(2) by (auto simp: contextCandidateCount_def Let_def split: if_splits)
  then have "searchContextForModel recall budgets owner input = largest_search available (sr_matches hits)"
    using search_by_size [where recall = recall, OF _ hits] c by simp
  then show ?thesis using largest_fits assms(1) by metis
qed

section \<open>Following the cursors while the envelope changes\<close>

text \<open>
  Successive calls, each with the envelope and the limit of its moment: the references shown,
  and whether the last page said that it was the last.
\<close>

fun browse_visits :: "(browse_input \<Rightarrow> ('e, browse_result) res) \<Rightarrow> string \<Rightarrow> ((string, budget) gomap \<times> int) list \<Rightarrow> string \<Rightarrow>
    ('e envelope_error, string list \<times> bool) res" where
  "browse_visits recall owner [] cursor = Inr ([], False)"
| "browse_visits recall owner ((budgets, limit) # visits) cursor =
     res_bind (context_browse (Some recall) budgets owner \<lparr>bi_cursor = cursor, bi_limit = limit\<rparr>) (\<lambda>page.
       if br_next page = [] then Inr (map sm_reference (br_records page), True)
       else res_bind (browse_visits recall owner visits (br_next page)) (\<lambda>(refs, ended).
         Inr (map sm_reference (br_records page) @ refs, ended)))"

text \<open>What is relied on of base64 and JSON: a cursor that was written is read back.\<close>

definition cursors_kept :: "cursor_codec \<Rightarrow> store \<Rightarrow> bool" where
  "cursors_kept cx st \<longleftrightarrow> (\<forall>r \<in> set (st_records st). trim (cx_text cx (browse_mark r)) \<noteq> [] \<and>
     cx_parts cx (trim (cx_text cx (browse_mark r))) = Some (browse_mark r))"

lemma read_written: "cursors_kept cx st \<Longrightarrow> r \<in> set (st_records st) \<Longrightarrow>
    read_cursor cx (cx_text cx (browse_mark r)) = Some (browse_mark r) \<and> cx_text cx (browse_mark r) \<noteq> []"
  by (auto simp: cursors_kept_def read_cursor_def trim_Nil)

abbreviation row_reference :: "context_record \<Rightarrow> string" where
  "row_reference r \<equiv> context_reference (cr_id r)"

lemma session_page:
  assumes ok: "browse_ok (cursor_valid cx, rt_store r, scope)" and scope: "contextScope uuid_ok r owner = Inr scope"
    and "0 < k" and c: "c = None \<or> c \<in> Some ` browse_mark ` set (browse_rows (cursor_valid cx, rt_store r, scope))"
    and "read_cursor cx raw = c" and "session_browse cx uuid_ok r owner \<lparr>bi_cursor = raw, bi_limit = k\<rparr> = Inr p"
  defines "rs \<equiv> below browse_mark c (browse_rows (cursor_valid cx, rt_store r, scope))"
  shows "map sm_reference (br_records p) = map row_reference (take (nat k) rs) \<and>
    br_next p = (if nat k < length rs then cx_text cx (browse_mark (rs ! (nat k - 1))) else [])"
proof -
  obtain records mark where b: "BrowseContextInScope (cursor_valid cx) (rt_store r) scope c k = Inr (records, mark)"
    and p: "p = \<lparr>br_records = map tool_match records, br_next = (case mark of None \<Rightarrow> [] | Some mark \<Rightarrow> cx_text cx mark)\<rparr>"
    using assms(5,6) scope by (auto simp: session_browse_form)
  have "BrowseContextInScope (cursor_valid cx) (rt_store r) scope c k = Inr (apfst (map record_match) (cut_page browse_mark (nat k) rs))"
    using browse_pages.page_cut [OF ok assms(3) c] by (simp add: rs_def option.map_ident)
  then have cut: "(records, mark) = apfst (map record_match) (cut_page browse_mark (nat k) rs)" using b by simp
  have refs: "map (sm_reference \<circ> (tool_match \<circ> record_match)) xs = map row_reference xs" for xs
    by (simp add: tool_match_def record_match_def)
  have "take (Suc (nat k)) rs ! (nat k - 1) = rs ! (nat k - 1)" using assms(3) by (intro nth_take) simp
  then show ?thesis using cut p refs by (auto simp: cut_page_def Let_def min_def split: if_splits)
qed

lemma visits_below:
  assumes ok: "browse_ok (cursor_valid cx, rt_store r, scope)" and scope: "contextScope uuid_ok r owner = Inr scope"
    and kept: "cursors_kept cx (rt_store r)"
  defines "rows \<equiv> browse_rows (cursor_valid cx, rt_store r, scope)"
  shows "browse_visits (session_browse cx uuid_ok r owner) owner visits raw = Inr (refs, ended) \<Longrightarrow>
    c = None \<or> c \<in> Some ` browse_mark ` set rows \<Longrightarrow> read_cursor cx raw = c \<Longrightarrow>
    (\<exists>left. map row_reference (below browse_mark c rows) = refs @ left \<and> (ended \<longrightarrow> left = []))"
proof (induction visits arbitrary: raw c refs ended)
  case (Cons visit visits)
  obtain budgets limit where visit: "visit = (budgets, limit)" by (cases visit)
  let ?recall = "session_browse cx uuid_ok r owner" and ?rs = "below browse_mark c rows"
  obtain page where page: "browseContextForModel ?recall budgets owner \<lparr>bi_cursor = raw, bi_limit = limit\<rparr> = Inr page"
    and rest: "(if br_next page = [] then Inr (map sm_reference (br_records page), True)
       else res_bind (browse_visits ?recall owner visits (br_next page)) (\<lambda>(refs, ended).
         Inr (map sm_reference (br_records page) @ refs, ended))) = Inr (refs, ended)"
    using Cons.prems(1) by (auto simp: visit context_browse_def res_bind_Inr_iff split: if_splits)
  obtain k p where k: "0 < k" "?recall \<lparr>bi_cursor = raw, bi_limit = k\<rparr> = Inr p" "br_next page = br_next p"
    "map sm_reference (br_records page) = map sm_reference (br_records p)"
    using browse_result [OF page] by auto
  note cut = session_page [OF ok scope k(1) Cons.prems(2) [unfolded rows_def] Cons.prems(3) k(2), folded rows_def]
  have whole: "map row_reference ?rs = map row_reference (take (nat k) ?rs) @ map row_reference (drop (nat k) ?rs)"
    by (simp flip: map_append)
  show ?case
  proof (cases "nat k < length ?rs")
    case False
    then have "refs = map row_reference ?rs" using rest cut k(3,4) by simp
    then show ?thesis by simp
  next
    case True
    let ?last = "?rs ! (nat k - 1)"
    have at: "nat k - 1 < length ?rs" using True by simp
    have "?last \<in> set ?rs" using at by (rule nth_mem)
    then have row: "?last \<in> set rows" by (simp add: below_def)
    then have stored: "?last \<in> set (st_records (rt_store r))" by (auto simp: rows_def browse_rows_def)
    have sorted: "sorted_wrt (\<lambda>a b. browse_mark b < browse_mark a) rows"
      using browse_pages.descending [OF ok] by (simp add: rows_def)
    have later: "below browse_mark (Some (browse_mark ?last)) rows = drop (nat k) ?rs"
      using below_rest [OF sorted at] k(1) by simp
    have nxt: "br_next page = cx_text cx (browse_mark ?last)" using cut True k(3) by simp
    note reading = read_written [OF kept stored]
    obtain refs' where refs': "browse_visits ?recall owner visits (br_next page) = Inr (refs', ended)"
      "refs = map sm_reference (br_records page) @ refs'"
      using rest reading by (auto simp: nxt res_bind_Inr_iff)
    obtain left where "map row_reference (drop (nat k) ?rs) = refs' @ left" "ended \<longrightarrow> left = []"
      using Cons.IH [OF refs'(1), of "Some (browse_mark ?last)"] row reading nxt later by auto
    then show ?thesis using whole refs'(2) cut k(4) by simp
  qed
qed simp

section \<open>Properties\<close>

text \<open>
  C21: a search returns the largest result that fits. The tool asks for as many matches as the
  envelope could hold if they were empty; what it returns of them, taking matches one by one
  and then halving the preview, is what trying every size from the top would find: as many
  whole matches as fit, with \<open>truncated\<close> set exactly when some are left out, or else the first
  one with as many runes of its preview as fit, or an error when not even that fits.
\<close>

theorem search_returns_largest:
  "context_search (Some recall) budgets owner input =
     (if si_limit input < 0 then Inl NegativeLimit
      else case modelVisibleResultBytes budgets owner of (available, known) \<Rightarrow>
        if known \<and> available \<le> 0 then Inl NoRoomForResults
        else let fair = max 1 (available div size_of (match_text no_match));
                 n = (if 0 < si_limit input then (if known then min fair (si_limit input) else si_limit input)
                      else if known then fair else 1)
             in res_bind (map_sum Recall id (recall (input\<lparr>si_limit := n\<rparr>))) (\<lambda>hits.
                  if known then largest_search available (sr_matches hits) else Inr hits))"
proof (cases "si_limit input < 0")
  case False
  obtain available known where b: "modelVisibleResultBytes budgets owner = (available, known)" by fastforce
  have floor: "max 1 (size_of (match_text no_match)) = size_of (match_text no_match)"
    using match_text_long [of no_match] by simp
  show ?thesis
  proof (cases "known \<and> 0 < available")
    case True
    define n where "n = (if 0 < si_limit input then min (max 1 (available div size_of (match_text no_match))) (si_limit input)
      else max 1 (available div size_of (match_text no_match)))"
    have n: "contextCandidateCount budgets owner (si_limit input) (match_text no_match) = Inr (n, available, True)"
      using True by (simp add: contextCandidateCount_def b n_def floor Let_def)
    show ?thesis
    proof (cases "recall (input\<lparr>si_limit := n\<rparr>)")
      case (Inl e)
      then have "searchContextForModel recall budgets owner input = Inl (Recall e)" by (simp add: searchContextForModel_def n)
      then show ?thesis using Inl True False b
        by (cases "0 < si_limit input") (simp_all add: context_search_def Let_def n_def)
    next
      case (Inr hits)
      then show ?thesis using search_by_size [where recall = recall and input = input, OF n Inr] True False b
        by (cases "0 < si_limit input") (simp_all add: context_search_def Let_def n_def)
    qed
  next
    case limited: False
    then show ?thesis using False b by (auto simp: context_search_def searchContextForModel_def contextCandidateCount_def Let_def)
  qed
qed (simp add: context_search_def)

text \<open>
  C14: recalled context fits the envelope. Once the envelope of an assignment is known, every
  search, page or chunk that a tool returns, written as JSON, is at most as long as the room
  left, or is empty; and a chunk is exactly what the session's archive gives from the asked
  offset for some limit that neither the model's own limit nor the room exceeds.
\<close>

theorem recall_within_envelope:
  assumes "modelVisibleResultBytes budgets owner = (available, True)"
  shows "(context_search (Some (session_search uuid_ok ft r owner)) budgets owner si = Inr hits \<longrightarrow>
      sr_matches hits = [] \<or> size_of (search_text hits) \<le> available) \<and>
    (context_browse (Some (session_browse cx uuid_ok r owner)) budgets owner bi = Inr page \<longrightarrow>
      br_records page = [] \<or> size_of (browse_text page) \<le> available) \<and>
    (context_open (Some (openContext env uuid_ok b64 r owner)) budgets owner oi = Inr chunk \<longrightarrow>
      size_of (open_text chunk) \<le> available \<and>
      (\<exists>k. 0 < k \<and> k \<le> available \<and> (0 < oi_limit oi \<longrightarrow> k \<le> oi_limit oi) \<and>
        openContext env uuid_ok b64 r owner (oi\<lparr>oi_limit := k\<rparr>) = Inr chunk))"
proof (intro conjI impI)
  assume "context_search (Some (session_search uuid_ok ft r owner)) budgets owner si = Inr hits"
  then show "sr_matches hits = [] \<or> size_of (search_text hits) \<le> available"
    using search_fits [OF _ assms] by (auto simp: context_search_def split: if_splits)
next
  assume "context_browse (Some (session_browse cx uuid_ok r owner)) budgets owner bi = Inr page"
  then show "br_records page = [] \<or> size_of (browse_text page) \<le> available"
    using browse_fits [OF _ assms] by (auto simp: context_browse_def split: if_splits)
next
  assume "context_open (Some (openContext env uuid_ok b64 r owner)) budgets owner oi = Inr chunk"
  then have "openContextForModel (openContext env uuid_ok b64 r owner) budgets owner oi = Inr chunk"
    by (auto simp: context_open_def split: if_splits)
  from open_cases [OF this assms]
  show "size_of (open_text chunk) \<le> available"
    and "\<exists>k. 0 < k \<and> k \<le> available \<and> (0 < oi_limit oi \<longrightarrow> k \<le> oi_limit oi) \<and>
      openContext env uuid_ok b64 r owner (oi\<lparr>oi_limit := k\<rparr>) = Inr chunk"
    by blast+
qed

lemma opens_whole: "int (length content) \<le> limit \<Longrightarrow> boundedContextOpen sha b64 base content 0 limit = boundedContextOpen sha b64 base content 0 0"
  by (simp add: boundedContextOpen_def chunk_end_def)

definition known_budget :: "int \<Rightarrow> budget" where
  "known_budget available = \<lparr>bg_limits = no_limits, bg_observed = 0, bg_digest = [],
     bg_plan = no_plan\<lparr>bp_known := True, bp_high := available\<rparr>\<rparr>"

lemma known_room: "0 \<le> available \<Longrightarrow> modelVisibleResultBytes [(owner, known_budget available)] owner = (available, True)"
  by (simp add: modelVisibleResultBytes_def known_budget_def availableResultBytes_def no_plan_def)

theorem recall_within_envelope_witness:
  "\<exists>chunk room. context_open (Some (openContext reader_environment (\<lambda>i. True) id sample_reader ''agent:lead''))
       [(''agent:lead'', known_budget room)] ''agent:lead'' \<lparr>oi_reference = sample_reference, oi_offset = 0, oi_limit = 0\<rparr> = Inr chunk \<and>
     size_of (open_text chunk) \<le> room"
proof -
  let ?input = "\<lambda>k. \<lparr>oi_reference = sample_reference, oi_offset = 0, oi_limit = k\<rparr>"
  let ?open = "openContext reader_environment (\<lambda>i. True) id sample_reader ''agent:lead''"
  obtain base content where opens: "\<And>k. ?open (?input k) = boundedContextOpen (pf_sha sample_platform) id base content 0 k"
    using sample_opens by metis
  obtain chunk where chunk: "?open (?input 0) = Inr chunk" using opens opens_from_start by metis
  define room where "room = size_of (open_text chunk) + int (length content) + 1"
  note known = known_room [of room "''agent:lead''"]
  have "?open (?input room) = Inr chunk"
    using chunk opens [of room] opens [of 0] opens_whole [of content room] by (simp add: room_def)
  then have found: "context_open (Some ?open) [(''agent:lead'', known_budget room)] ''agent:lead'' (?input 0) = Inr chunk"
    using known by (simp add: context_open_def openContextForModel_def Let_def room_def)
  have "modelVisibleResultBytes [(''agent:lead'', known_budget room)] ''agent:lead'' = (room, True)"
    using known by (simp add: room_def)
  from recall_within_envelope [OF this] found show ?thesis by blast
qed

text \<open>
  C28: browsing shows everything, once, however the envelope changes. An agent that follows the
  cursors of \<open>context_browse\<close>, each call with another envelope and another limit, is shown the
  references of the records it may read, none skipped and none twice, in the order in which the
  store lists them: the text of the creation time, then the identity, downwards (which is not
  always the order of the times, as the text drops trailing zeros); and a page without a cursor
  is the last.
\<close>

theorem browsing_is_complete:
  assumes "browse_ok (cursor_valid cx, rt_store r, scope)" and "contextScope uuid_ok r owner = Inr scope"
    and "cursors_kept cx (rt_store r)"
    and "browse_visits (session_browse cx uuid_ok r owner) owner visits [] = Inr (refs, ended)"
  shows "distinct refs \<and>
    prefix refs (map row_reference (rev (sort_key browse_mark (filter (may_read scope) (st_records (rt_store r)))))) \<and>
    (ended \<longrightarrow> refs = map row_reference (rev (sort_key browse_mark (filter (may_read scope) (st_records (rt_store r))))))"
proof -
  let ?rows = "browse_rows (cursor_valid cx, rt_store r, scope)"
  obtain left where left: "map row_reference ?rows = refs @ left" "ended \<longrightarrow> left = []"
    using visits_below [OF assms, of None] by (auto simp: read_cursor_def)
  have "distinct (map cr_id (filter (may_read scope) (st_records (rt_store r))))"
    using assms(1) by (simp add: browse_ok_def distinct_map inj_on_def)
  then have "distinct (map row_reference ?rows)"
    by (auto simp: browse_rows_def distinct_map inj_on_def)
  then have "distinct refs" using left(1) by simp
  then show ?thesis using left by (auto simp: browse_rows_def prefix_def)
qed

definition sample_cursors :: cursor_codec where
  "sample_cursors = \<lparr>cx_text = snd, cx_parts = (\<lambda>raw. map_option browse_mark (find (\<lambda>r. cr_id r = raw) (st_records sample_archive))),
     cx_ok = (\<lambda>_. True)\<rparr>"

lemma sample_cursors_kept: "cursors_kept sample_cursors sample_archive"
  by (simp add: cursors_kept_def sample_cursors_def browse_mark_def sample_archive_def record_of_def sample_event_def itoa_def
      digits_of_small digit_chars trim_plain plain_byte_def less_char_def)

theorem browsing_is_complete_witness:
  "\<exists>refs ended. browse_visits (session_browse sample_cursors (\<lambda>i. True) sample_reader ''agent:lead'') ''agent:lead'' [([], 0)] [] = Inr (refs, ended) \<and>
     distinct refs"
proof -
  let ?scope = "\<lparr>cs_sessions = [''s''], cs_correlations = [], cs_records = [], cs_owners = [], cs_artifacts = [], cs_all = True\<rparr>"
  have store: "rt_store sample_reader = sample_archive" by (simp add: sample_reader_def)
  have "trim ''s'' = ''s''" by (simp add: trim_plain plain_byte_def less_char_def)
  moreover have "rfc3339nano (cr_created r) \<noteq> []" if "r \<in> set (st_records sample_archive)" for r
    by (simp add: rfc3339nano_def)
  ultimately have ok: "browse_ok (cursor_valid sample_cursors, sample_archive, ?scope)"
    using sample_archive_ids
    by (simp add: browse_ok_def scope_known_def MaxInt_def cursor_valid_def sample_cursors_def browse_mark_def)
      (simp add: sample_archive_def record_of_def sample_event_def)
  obtain records mark where b: "BrowseContextInScope (cursor_valid sample_cursors) sample_archive ?scope None 1 = Inr (records, mark)"
    using browse_pages.page_cut [OF ok, of 1 None] by (auto simp: apfst_def map_prod_def split: prod.splits)
  have "\<exists>refs ended. browse_visits (session_browse sample_cursors (\<lambda>i. True) sample_reader ''agent:lead'') ''agent:lead'' [([], 0)] [] = Inr (refs, ended)"
    using b by (auto simp: context_browse_def browseContextForModel_def contextCandidateCount_def modelVisibleResultBytes_def
      session_browse_def browseContext_def sample_scope store read_cursor_def)
  then obtain refs ended where run: "browse_visits (session_browse sample_cursors (\<lambda>i. True) sample_reader ''agent:lead'') ''agent:lead''
      [([], 0)] [] = Inr (refs, ended)" by blast
  from browsing_is_complete [of sample_cursors sample_reader ?scope, unfolded store, OF ok sample_scope sample_cursors_kept run]
  show ?thesis using run by blast
qed

section \<open>A page that would fit is refused\<close>

definition smile :: string where
  "smile = [CHR 0xF0, CHR 0x9F, CHR 0x99, CHR 0x82]"

definition smile_recall :: "open_input \<Rightarrow> (access_error, open_result) res" where
  "smile_recall input = boundedContextOpen (\<lambda>_. []) id (opened ''r'' ''s'' 0 [] ''k'' [] [] [] []) (smile @ ''aa'') (oi_offset input) (oi_limit input)"

definition smile_page :: "nat \<Rightarrow> open_result" where
  "smile_page n = (opened ''r'' ''s'' 0 [] ''k'' [] [] [] [])\<lparr>op_count := 6, op_start := 0, op_end := n, op_has_more := True,
     op_next := n, op_chunk_digest := [], op_encoding := Utf8, op_content := take n (smile @ ''aa'')\<rparr>"

lemma smile_valid: "valid_utf8 (smile @ ''aa'')" "valid_utf8 smile" "valid_utf8 (smile @ ''a'')"
  by (simp_all add: smile_def valid_utf8.simps rune_len_def cont_def less_char_def less_eq_char_def)

lemma smile_opens:
  "smile_recall \<lparr>oi_reference = i, oi_offset = 0, oi_limit = 5\<rparr> = Inr (smile_page 5)"
  "smile_recall \<lparr>oi_reference = i, oi_offset = 0, oi_limit = 4\<rparr> = Inr (smile_page 4)"
  "smile_recall \<lparr>oi_reference = i, oi_offset = 0, oi_limit = 3\<rparr> = Inl ChunkTooSmall"
  using smile_valid
  by (simp_all add: smile_recall_def boundedContextOpen_def chunk_end_def smile_page_def smile_def RuneStart_def cont_def
      less_eq_char_def numeral_eq_Suc)

lemma smile_sizes: "size_of (open_text (smile_page 5)) = size_of (open_text (smile_page 4)) + 1"
  by (simp add: open_text_def smile_page_def opened_def length_json_members json_quote_def smile_def json_chars.simps rune_len_def cont_def
      less_char_def less_eq_char_def itoa_def digits_of_small escape_rune_def escape_byte_def optional_text_def)

lemma open_refuses_fitting_page:
  defines "room \<equiv> size_of (open_text (smile_page 4))"
  shows "modelVisibleResultBytes [(''o'', known_budget room)] ''o'' = (room, True) \<and>
    smile_recall \<lparr>oi_reference = i, oi_offset = 0, oi_limit = 4\<rparr> = Inr (smile_page 4) \<and>
    size_of (open_text (smile_page 4)) \<le> room \<and>
    openContextForModel smile_recall [(''o'', known_budget room)] ''o'' \<lparr>oi_reference = i, oi_offset = 0, oi_limit = 5\<rparr> =
      Inl (Recall ChunkTooSmall)"
proof -
  have room: "modelVisibleResultBytes [(''o'', known_budget room)] ''o'' = (room, True)" by (rule known_room) (simp add: room_def)
  have large: "5 \<le> room" by (simp add: room_def open_text_def length_json_members)
  have big: "\<not> size_of (open_text (smile_page 5)) \<le> room" by (simp add: room_def smile_sizes)
  have "openContextForModel smile_recall [(''o'', known_budget room)] ''o'' \<lparr>oi_reference = i, oi_offset = 0, oi_limit = 5\<rparr> =
      open_shrunk smile_recall room 5 \<lparr>oi_reference = i, oi_offset = 0, oi_limit = 5\<rparr>"
    unfolding openContextForModel_def room prod.case Let_def using large big by (simp add: smile_opens)
  also have "\<dots> = Inl (Recall ChunkTooSmall)"
    by (simp add: open_shrunk_def bisect.simps [of _ 1 5] smile_opens)
  finally show ?thesis using room smile_opens by (simp add: room_def)
qed

end
