(* ===== verification/Spec2Isabelle.thy ===== *)
theory Spec2Isabelle
  imports Context Window Draft Feed Engine Rollback Checkpoints Cline Recovery
    Envelope
begin

text \<open>
  \<^bold>\<open>ALT: a team of language-model agents on one durable log.\<close>

  ALT is a terminal program. A user gives a task; a team of agents, described by a published
  profile, works on it. One agent leads. It answers, or decides to delegate to specialists, to
  consult its peers, to hand the leadership over or to cancel work. Everything that happens is
  an event in a SQLite log, and every view of a session is a fold over that log: the
  orchestrator's own state, the columns of the session table, the flow graph on the screen.
  This development models that core and proves what makes it dependable; and around it what
  stands between an agent and its model: the budget of a request, compaction, recall from the
  archive, the gateways and their credentials.

  \<^bold>\<open>The theories, bottom up, with the code they model.\<close>

  \<^item> \<open>Prelude\<close>: Go strings as byte lists with \<open>strings.TrimSpace\<close>, \<open>strings.Fields\<close> and
    their laws, results as the datatype \<open>res\<close>, Go maps as association lists.
  \<^item> \<open>Json\<close>, \<open>Content\<close>, \<open>Events\<close>: JSON values, the parts of a user input
    (internal/content/content.go), the event kinds, the envelope, and one record, encoder and
    decoder per payload struct (internal/event/event.go).
  \<^item> \<open>Profile\<close>: teams, the lookups that decide who may call whom, loading, and every rule of
    \<open>Validate\<close> (internal/profile).
  \<^item> \<open>Reference\<close>: context references (internal/store/context.go).
  \<^item> \<open>Replay\<close>: the locale \<open>event_reader\<close>, the contract of a consumer that folds a numbered log
    and skips what it has seen. \<open>Projection\<close> is the orchestrator's consumer
    (internal/orchestrator/state.go) and interprets the locale.
  \<^item> \<open>Ledger\<close>: the tables of the store as a record and the transactions that append events
    (internal/store/event.go, artifact.go). \<open>Paging\<close> holds the locale \<open>paged\<close>, the contract of
    listings that are read page by page behind a cursor; \<open>Sessions\<close> (internal/store/session.go)
    and \<open>Context\<close> (context.go, context_artifact.go) interpret it. \<open>TeamStore\<close> is the table of
    published teams (internal/store/profile.go).
  \<^item> \<open>Coordination\<close>: what a leader may decide (decision.go, tool_lead.go and the functions of
    runtime.go and rich_input.go that check and materialise a decision).
  \<^item> \<open>Runtime\<close>: the operations of a running session (runtime.go, the second half of peer.go), as
    functions from a \<open>runtime\<close> state to an error or a value and the new state.
  \<^item> \<open>Teamwork\<close>: the invariant of a session and the proof that every operation keeps it.
  \<^item> \<open>Steps\<close>: the operations as a transition relation \<open>runtime_step\<close>, in any interleaving,
    together with the events other writers append.
  \<^item> \<open>Isolation\<close>: the locale \<open>session_effect\<close>, what an operation of one session may do to the
    store they share, proved for every operation at once. \<open>Engine\<close>: the table of running
    sessions (internal/orchestrator/engine.go) and its calls, interleaved with the steps of the
    sessions (\<open>engine_step\<close>).
  \<^item> \<open>Thinking\<close>: the flow graph folded from the same log (internal/thinking/projection.go);
    \<open>Graph\<close>: its invariant, through the locale \<open>turn_invariant\<close>. \<open>Window\<close>: the host that shows
    it and follows the log (internal/nativegui/service.go). \<open>Draft\<close>: the team editor of the same
    window (protocol.go, the rest of service.go): drafts, their diagnostics and requests.
  \<^item> \<open>Feed\<close>: subscriptions to the log (internal/store/event.go, store.go) as a transition
    relation: this process's commits, other processes' commits, the file watcher.
  \<^item> \<open>Files\<close>: paths and how file tools are confined to the workspace
    (internal/tooling/filesystem.go). \<open>Patch\<close>: planning, staging, publishing and rolling back a
    patch (internal/tooling/patch.go); \<open>Rollback\<close>: its proof.
  \<^item> \<open>Budget\<close>: token limits (internal/provider/model_limits.go), messages as the agent library
    has them, the envelope of a request (internal/tooling/context_budget.go). \<open>Failure\<close>: the
    classification of a provider's errors (internal/provider/failure.go, cache.go).
    \<open>Compaction\<close>: summaries, verbatim tails, the archive of transcripts and the recovery from
    overflows (internal/tooling/context_compaction.go).
  \<^item> \<open>Processes\<close>: the commands agents run (internal/tooling/process.go) and the budgets that bound
    what they read of them (runtime.go), as a transition relation: the calls of several
    assignments, the processes and the end of the session. \<open>Envelope\<close>: the tools that hand recalled
    context to a model, cut to what the envelope has room for (internal/tooling/tools.go,
    context_access.go).
  \<^item> \<open>Checkpoints\<close>: checkpoints, their history and the settings (internal/store/checkpoint.go,
    store.go), through the locale \<open>checkpoint_store\<close>.
  \<^item> \<open>Registry\<close>: gateways, their catalogs, what is known of their models, the public catalog and
    the fallback without images (internal/provider/provider.go, modelsdev.go,
    image_fallback.go). \<open>Credentials\<close>: internal/credential/store.go. \<open>Gateways\<close>: the shared
    transport and the catalogs of four gateways (internal/provider/*/factory.go); \<open>Cline\<close>: the
    fifth with its device authorization and tokens.
  \<^item> \<open>Access\<close>: who may recall what from the archive (internal/orchestrator/context_access.go,
    context_epoch.go). \<open>Recovery\<close>: failures of tools (internal/tooling/recovery.go), calls of
    models and structured answers (internal/orchestrator/model.go, model_observer.go,
    event_buffer.go).

  \<^bold>\<open>How state and operations correspond.\<close> A Go struct is a record whose fields carry the
  same names behind a short prefix; an enumeration of string constants is a datatype; a table
  is a list of row records in insertion order. A function that returns an error is a function
  to \<open>res\<close>, whose left values are the constructors of an error datatype, one per failing
  branch. A store transaction returns the new store only on success, as the deferred rollback
  has it. An operation of the runtime keeps the events it had appended when it fails, as the code
  does: it is a function to a result and a state in any case (\<open>act\<close>). The fields of \<open>runtime\<close>
  are those of \<open>sessionRuntime\<close>, with the store it writes to, the identities
  \<open>uuid.NewV7\<close> will hand out and a clock; \<open>rt_tasks\<close> are its goroutines, each with the phase
  it is in.

  \<^bold>\<open>What the lemmas show.\<close> \<open>Prelude\<close>, \<open>Json\<close>: what trimming and decoding undo. \<open>Events\<close>:
  every payload that is encoded decodes to itself. \<open>Profile\<close>: validation accepts exactly the
  well-formed teams. \<open>Replay\<close>, \<open>Projection\<close>: a replay is well-formed, can be resumed
  anywhere, and depends on no iteration order. \<open>Ledger\<close>: logs are gap-free, append-only and
  isolated, and the session table agrees with the log. \<open>Sessions\<close>, \<open>Context\<close>, \<open>TeamStore\<close>:
  listings show each row once, scopes are exact, revisions and artifacts are immutable.
  \<open>Coordination\<close>, \<open>Teamwork\<close>, \<open>Steps\<close>: authority, acyclic dependencies, single start of every
  attempt, refused decisions without effect, answers that end a turn, recovery without loss.
  \<open>Isolation\<close>, \<open>Engine\<close>: sessions do not touch each other's logs and rows, and stay sound while
  they are started, resumed, steered and cancelled: rows keep what they pin, runs carry the team
  that is pinned. \<open>Graph\<close>, \<open>Window\<close>: the graph stays
  well-formed, settles when its turn ends, and is never ahead of the log. \<open>Draft\<close>: teams are
  published as drawn; opened and published again they keep members, definitions and relations,
  but not the settings of their models. \<open>Feed\<close>: delivery
  is in order and, while one process writes, complete. \<open>Files\<close>, \<open>Rollback\<close>: file tools stay in
  the workspace; a failed patch leaves no trace, a successful one does what it says, as long
  as no new path lies inside another and rolling back itself succeeds. That
  proof describes the disk in the middle of a patch by the changes laid over each other
  (\<open>view\<close>), which rolling back peels off. \<open>Budget\<close>, \<open>Failure\<close>, \<open>Compaction\<close>: the envelope respects
  every limit, errors are classified once, recovery from overflows ends and loses nothing.
  \<open>Processes\<close>: handles are never reused, output is read in order, once and by its owner only.
  \<open>Envelope\<close>: results fit, are the largest that do, and pages follow each other without a gap.
  \<open>Checkpoints\<close>: the history only grows and ends in the present. \<open>Registry\<close>, \<open>Gateways\<close>, \<open>Cline\<close>,
  \<open>Credentials\<close>: catalogs are exact, requests go to their own hosts or where these redirect, polls keep their distance,
  tokens and credentials that are stored are the ones used. \<open>Access\<close>, \<open>Recovery\<close>: recall stays in
  the conversation and gives records whole, failures and malformed answers reach the model.

  \<^bold>\<open>Bounds.\<close> The walks over pages take fuel; any number above the number of rows is enough, and
  the theorems have that as their hypothesis; the loop over the pages of the Fireworks catalog
  takes fuel too, and more than the number of page tokens is enough. No other definition needs
  fuel: the loops of the code range over lists or have a measure (a shrinking head, a shrinking
  request, a shorter delay, the time to a deadline). Go's \<open>int\<close> is modelled by \<open>int\<close>: the
  quantities held in it (sequence numbers, attempts, rounds, depths, tokens) are far from its
  bounds; where a server chooses the number (Retry-After, intervals, expiry) the product with a
  second is wrapped to 64 bits (\<open>wrap64\<close>).

  \<^bold>\<open>Parameters.\<close> SHA-256, the bytes \<open>encoding/json\<close> writes, the YAML package, UUID parsing,
  SQLite's \<open>julianday\<close>, \<open>LIKE\<close> and full-text search, the clock and the supply of identities are
  arguments of the definitions that use them. So are \<open>json.Unmarshal\<close> of tool results, the
  file watcher, \<open>filepath.EvalSymlinks\<close>, the diff package's parser and its \<open>Apply\<close>, which system
  calls fail and the random file names (\<open>kernel\<close>), the gateway's catalogue, and what the turn
  loop of the agent library answers to \<open>Push\<close>; what a model answers to its n-th request; the
  server behind an HTTP request, which may answer by what it was asked before, \<open>url.Parse\<close>,
  \<open>URL.Parse\<close>, the rule of \<open>net/http\<close> for headers with credentials, the JSON parser and
  \<open>time.Parse\<close> (\<open>world\<close>); the keyring of the desktop and which system calls fail.

  \<^bold>\<open>Approximations.\<close> \<open>strings.ToLower\<close> is modelled on ASCII letters. Object keys are matched
  exactly, while \<open>encoding/json\<close> also accepts other letter case. Times are nanoseconds, floats
  are rationals. Faults of the SQLite driver are not modelled, violations of its constraints
  are. The transition relation interleaves the runtime's operations as the mutexes of the
  code do not always enforce: an operation is one step, except for the executors, whose
  check, start and finish are separate steps. \<open>strconv.Atoi\<close> does not overflow, \<open>FormatFloat\<close>
  prints rationals. On the disk \<open>Stat\<close> and \<open>Lstat\<close> agree (paths are resolved before), a system
  call that fails has no effect, planning a patch reads files without faults, and a temporary
  name that is taken is a failure where \<open>os.CreateTemp\<close> draws another one. Regular expressions are written as
  sequences of literals, digits and gaps; each poll of an authorization takes at least one
  nanosecond; a stream is the list of its chunks. Of \<open>net/http\<close> the redirects are modelled
  (\<open>http_do\<close>), as to URL, method, body and \<open>Authorization\<close>; not its other headers.

  \<^bold>\<open>Not modelled.\<close> Prompts and tool schemas (texts handed to a model), the transports that
  watch the bytes of responses, the tools that touch the network, the
  terminal user interface, the requests a chat model sends once it is made, the process of the native window, the command line: input, output and
  glue around the core.
\<close>

end
